(* ===== verification/Memd_Prelude.thy ===== *)
theory Memd_Prelude
  imports Main "HOL-Library.Word"
begin

text \<open>
  Shared vocabulary of the development: the byte and machine-integer types, the error
  values every fallible operation returns, little-endian encoding of integers as the
  crate \<open>byteorder\<close> writes them, and the
  generic list facts the components use.

  Conventions.
  \<^item> A Rust \<open>String\<close> that the code only compares, hashes or stores is a
    \<^typ>\<open>string\<close>: the list of its UTF-8 bytes.
  \<^item> \<open>u32\<close>, \<open>u64\<close> and \<open>i64\<close> fields that are serialised or cast are words of that
    width; counters that the code uses as \<open>usize\<close> sizes are \<^typ>\<open>nat\<close>.
  \<^item> A fallible operation returns \<open>Inl\<close> of an error or \<open>Inr\<close> of a result.
\<close>

named_theorems codec_simps \<open>equations of the byte-level encoders and decoders\<close>
named_theorems store_frame \<open>fields an operation of the store leaves unchanged\<close>

type_synonym byte = "8 word"
type_synonym bytes = "8 word list"
type_synonym u32 = "32 word"
type_synonym u64 = "64 word"
type_synonym i64 = "64 word"

section \<open>Errors\<close>

text \<open>
  \<open>std::io::ErrorKind\<close> as far as the store code builds it, and \<open>MemdError\<close>. A message
  keeps its fixed text; an error wrapped from a library is its message.
\<close>

datatype io_error_kind = UnexpectedEof | InvalidData | InvalidInput | AlreadyExists | NotFound | Other

datatype io_error = IoErr io_error_kind string

datatype memd_error =
    ConfigError string
  | ValidationError string
  | StorageError string
  | IndexBusy string
  | ProtocolError string
  | IncompatibleWarmWorker string string string string
  | WarmWorkerConfigMismatch string string string string
  | DenseIndexModelMismatch string nat nat
  | WriterLockHeld string string
  | ReadOnlyStore string
  | EmbeddingError string
  | IoError io_error
  | JsonError string
  | TomlError string
  | TomlSerError string
  | DatabaseError string
  | CandleError string

section \<open>Little-endian integers\<close>

fun le_bytes :: "nat \<Rightarrow> nat \<Rightarrow> bytes" where
  "le_bytes 0 v = []"
| "le_bytes (Suc n) v = word_of_nat (v mod 256) # le_bytes n (v div 256)"

fun le_val :: "bytes \<Rightarrow> nat" where
  "le_val [] = 0"
| "le_val (b # bs) = unat b + 256 * le_val bs"

definition write_u32 :: "u32 \<Rightarrow> bytes" where
  "write_u32 w = le_bytes 4 (unat w)"

definition write_u64 :: "u64 \<Rightarrow> bytes" where
  "write_u64 w = le_bytes 8 (unat w)"

text \<open>A read takes its bytes from the front of a slice and fails when there are too few.\<close>

definition read_u32 :: "bytes \<Rightarrow> io_error + (u32 \<times> bytes)" where
  "read_u32 bs =
     (if length bs < 4 then Inl (IoErr UnexpectedEof ''failed to fill whole buffer'')
      else Inr (word_of_nat (le_val (take 4 bs)), drop 4 bs))"

definition read_u64 :: "bytes \<Rightarrow> io_error + (u64 \<times> bytes)" where
  "read_u64 bs =
     (if length bs < 8 then Inl (IoErr UnexpectedEof ''failed to fill whole buffer'')
      else Inr (word_of_nat (le_val (take 8 bs)), drop 8 bs))"

lemma length_le_bytes [simp, codec_simps]: "length (le_bytes n v) = n"
  by (induction n arbitrary: v) auto

lemma unat_byte_of_nat [simp]: "unat (word_of_nat v :: byte) = v mod 256"
  by (simp add: unat_of_nat)

lemma unat_byte_bound: "unat (b :: byte) < 256"
  using unsigned_less [where 'a = nat, of b] by simp

lemma unat_u32_bound: "unat (w :: u32) < 2 ^ 32"
  using unsigned_less [where 'a = nat, of w] by simp

lemma unat_u64_bound: "unat (w :: u64) < 2 ^ 64"
  using unsigned_less [where 'a = nat, of w] by simp

lemma le_val_le_bytes: "le_val (le_bytes n v) = v mod 256 ^ n"
proof (induction n arbitrary: v)
  case 0
  show ?case by simp
next
  case (Suc n)
  have "le_val (le_bytes (Suc n) v) = v mod 256 + 256 * (v div 256 mod 256 ^ n)"
    by (simp add: Suc.IH)
  also have "\<dots> = v mod (256 * 256 ^ n)"
    by (simp add: mod_mult2_eq)
  finally show ?case by simp
qed

lemma le_val_bound: "le_val bs < 256 ^ length bs"
proof (induction bs)
  case Nil
  show ?case by simp
next
  case (Cons b bs)
  have step: "x < 256 \<Longrightarrow> l < p \<Longrightarrow> x + 256 * l < 256 * p" for x l p :: nat
    by linarith
  show ?case using step [OF unat_byte_bound [of b] Cons.IH] by simp
qed

lemma le_bytes_le_val: "le_bytes (length bs) (le_val bs) = bs"
proof (induction bs)
  case Nil
  show ?case by simp
next
  case (Cons b bs)
  have "unat b < 256" by (rule unat_byte_bound)
  then have "(unat b + 256 * le_val bs) mod 256 = unat b"
    and "(unat b + 256 * le_val bs) div 256 = le_val bs" by simp_all
  with Cons.IH show ?case by simp
qed

lemma length_write_u32 [simp, codec_simps]: "length (write_u32 w) = 4"
  by (simp add: write_u32_def)

lemma length_write_u64 [simp, codec_simps]: "length (write_u64 w) = 8"
  by (simp add: write_u64_def)

lemma write_u32_le_val: "length xs = 4 \<Longrightarrow> write_u32 (word_of_nat (le_val xs)) = xs"
  using le_val_bound [of xs] le_bytes_le_val [of xs]
  by (simp add: write_u32_def unat_of_nat take_bit_nat_eq_self)

lemma read_write_u32 [simp, codec_simps]: "read_u32 (write_u32 w @ rest) = Inr (w, rest)"
  using unat_u32_bound [of w] by (simp add: read_u32_def write_u32_def le_val_le_bytes)

lemma read_write_u64 [simp, codec_simps]: "read_u64 (write_u64 w @ rest) = Inr (w, rest)"
  using unat_u64_bound [of w] by (simp add: read_u64_def write_u64_def le_val_le_bytes)

lemma unat_u32_of_nat: "n < 2 ^ 32 \<Longrightarrow> unat (word_of_nat n :: u32) = n"
  by (simp add: unat_of_nat)

lemma unat_u64_of_nat: "n < 2 ^ 64 \<Longrightarrow> unat (word_of_nat n :: u64) = n"
  by (simp add: unat_of_nat)

section \<open>List facts\<close>

lemma take_append_exact [simp]: "n = length xs \<Longrightarrow> take n (xs @ ys) = xs"
  by simp

lemma drop_append_exact [simp]: "n = length xs \<Longrightarrow> drop n (xs @ ys) = ys"
  by simp


section \<open>Decimal printing and parsing of unsigned integers\<close>

definition digit_char :: "nat \<Rightarrow> char" where
  "digit_char d = char_of (48 + d)"

definition is_digit :: "char \<Rightarrow> bool" where
  "is_digit c \<longleftrightarrow> 48 \<le> (of_char c :: nat) \<and> (of_char c :: nat) \<le> 57"

definition digit_val :: "char \<Rightarrow> nat" where
  "digit_val c = of_char c - 48"

fun show_nat :: "nat \<Rightarrow> string" where
  "show_nat n = (if n < 10 then [digit_char n] else show_nat (n div 10) @ [digit_char (n mod 10)])"

declare show_nat.simps [simp del]

text \<open>The format \<open>{:0w}\<close>: zeros in front up to width \<open>w\<close>, longer numbers unchanged.\<close>

definition pad_zero :: "nat \<Rightarrow> string \<Rightarrow> string" where
  "pad_zero w s = replicate (w - length s) CHR ''0'' @ s"

text \<open>\<open>str::parse\<close> for an unsigned type of the given bound: an optional plus sign, at least one
  digit, no overflow.\<close>

definition parse_unsigned :: "nat \<Rightarrow> string \<Rightarrow> nat option" where
  "parse_unsigned bound s =
     (let ds = (case s of c # cs \<Rightarrow> if c = CHR ''+'' then cs else s | [] \<Rightarrow> []);
          v = foldl (\<lambda>a c. 10 * a + digit_val c) 0 ds
      in if ds \<noteq> [] \<and> list_all is_digit ds \<and> v < bound then Some v else None)"

lemma digit_char_digit [simp]: "d < 10 \<Longrightarrow> is_digit (digit_char d) \<and> digit_val (digit_char d) = d"
  by (simp add: is_digit_def digit_val_def digit_char_def)

lemma zero_digit [simp]: "is_digit CHR ''0''" "digit_val CHR ''0'' = 0"
  by (simp_all add: is_digit_def digit_val_def)

lemma show_nat_digits: "list_all is_digit (show_nat n)"
  by (induction n rule: show_nat.induct) (subst show_nat.simps, auto)

lemma show_nat_not_Nil [simp]: "show_nat n \<noteq> []"
  by (subst show_nat.simps) simp

lemma show_nat_val: "foldl (\<lambda>a c. 10 * a + digit_val c) 0 (show_nat n) = n"
  by (induction n rule: show_nat.induct) (subst show_nat.simps, simp)

lemma foldl_zeros: "foldl (\<lambda>a c. 10 * a + digit_val c) 0 (replicate k CHR ''0'') = 0"
  by (induction k) simp_all

lemma parse_unsigned_digits:
  assumes "s \<noteq> []" and "list_all is_digit s"
    and "foldl (\<lambda>a c. 10 * a + digit_val c) 0 s = n" and "n < bound"
  shows "parse_unsigned bound s = Some n"
proof -
  obtain c cs where s: "s = c # cs" using assms(1) by (cases s) auto
  with assms(2) have "c \<noteq> CHR ''+''" by (auto simp: is_digit_def)
  with s have "(case s of c # cs \<Rightarrow> if c = CHR ''+'' then cs else s | [] \<Rightarrow> []) = s" by simp
  with assms show ?thesis unfolding parse_unsigned_def Let_def by simp
qed

lemma parse_pad_show:
  assumes "n < bound"
  shows "parse_unsigned bound (pad_zero w (show_nat n)) = Some n"
proof (rule parse_unsigned_digits)
  show "list_all is_digit (pad_zero w (show_nat n))"
    using show_nat_digits [of n] by (auto simp: pad_zero_def list_all_iff)
qed (use assms in \<open>simp_all add: pad_zero_def foldl_zeros show_nat_val\<close>)

lemma length_pad_zero: "length (pad_zero w s) = max w (length s)"
  by (simp add: pad_zero_def)

end
