(* ===== verification/Wal.thy ===== *)
theory Wal
  imports Memd_Prelude
begin

text \<open>
  The write-ahead log of \<open>store/wal/\<close>: the record format (\<open>format.rs\<close>), the
  append-only writer (\<open>writer.rs\<close>), and the reader with its recovery driver
  (\<open>reader.rs\<close>). Two third-party functions are parameters, fields of the record
  \<open>wal_ext\<close>: the checksum of the crate \<open>crc32fast\<close> and the serde codec of the crate
  \<open>bincode\<close>. The only thing assumed of them, and only where stated, is that
  \<open>bincode\<close> decodes what it encoded.
\<close>

section \<open>Record format\<close>

datatype wal_record_type = Add | Delete | Checkpoint | TaskArtifact

record wal_record =
  record_type :: wal_record_type
  rec_tenant_id :: string
  rec_chunk_id :: string
  timestamp :: i64
  payload :: bytes

record wal_ext =
  crc32_hash :: "bytes \<Rightarrow> u32"
  bincode_encode :: "wal_record \<Rightarrow> bytes"
  bincode_decode :: "bytes \<Rightarrow> wal_record option"

definition WAL_MAGIC :: bytes where
  "WAL_MAGIC = [0x4D, 0x57, 0x41, 0x4C]"

definition WAL_HEADER_SIZE :: nat where
  "WAL_HEADER_SIZE = 13"

fun type_code :: "wal_record_type \<Rightarrow> byte" where
  "type_code Add = 1"
| "type_code Delete = 2"
| "type_code Checkpoint = 3"
| "type_code TaskArtifact = 4"

definition from_u8 :: "byte \<Rightarrow> wal_record_type option" where
  "from_u8 v =
     (if v = 1 then Some Add
      else if v = 2 then Some Delete
      else if v = 3 then Some Checkpoint
      else if v = 4 then Some TaskArtifact
      else None)"

definition add_record :: "string \<Rightarrow> string \<Rightarrow> i64 \<Rightarrow> bytes \<Rightarrow> wal_record" where
  "add_record tid cid ts p =
     \<lparr>record_type = Add, rec_tenant_id = tid, rec_chunk_id = cid, timestamp = ts, payload = p\<rparr>"

definition delete_record :: "string \<Rightarrow> string \<Rightarrow> i64 \<Rightarrow> wal_record" where
  "delete_record tid cid ts =
     \<lparr>record_type = Delete, rec_tenant_id = tid, rec_chunk_id = cid, timestamp = ts, payload = []\<rparr>"

definition checkpoint_record :: "string \<Rightarrow> i64 \<Rightarrow> wal_record" where
  "checkpoint_record tid ts =
     \<lparr>record_type = Checkpoint, rec_tenant_id = tid, rec_chunk_id = [], timestamp = ts, payload = []\<rparr>"

definition task_artifact_record :: "string \<Rightarrow> string \<Rightarrow> i64 \<Rightarrow> bytes \<Rightarrow> wal_record" where
  "task_artifact_record tid aid ts p =
     \<lparr>record_type = TaskArtifact, rec_tenant_id = tid, rec_chunk_id = aid, timestamp = ts,
       payload = p\<rparr>"

lemmas record_constructors =
  add_record_def delete_record_def checkpoint_record_def task_artifact_record_def

text \<open>\<open>payload_bytes.len() as u32\<close> truncates to 32 bits, as the cast does.\<close>

definition encode_to_bytes :: "wal_ext \<Rightarrow> wal_record \<Rightarrow> bytes" where
  "encode_to_bytes X r =
     (let payload_bytes = bincode_encode X r;
          crc = crc32_hash X payload_bytes
      in WAL_MAGIC @ [type_code (record_type r)]
           @ write_u32 (word_of_nat (length payload_bytes)) @ write_u32 crc @ payload_bytes)"

definition decode_from_bytes :: "wal_ext \<Rightarrow> bytes \<Rightarrow> io_error + (wal_record \<times> nat)" where
  "decode_from_bytes X bs =
     (if length bs < WAL_HEADER_SIZE
      then Inl (IoErr UnexpectedEof ''not enough bytes for WAL header'')
      else if take 4 bs \<noteq> WAL_MAGIC then Inl (IoErr InvalidData ''invalid WAL magic'')
      else case from_u8 (bs ! 4) of
        None \<Rightarrow> Inl (IoErr InvalidData ''invalid WAL record type'')
      | Some rtype \<Rightarrow>
         (case read_u32 (take (WAL_HEADER_SIZE - 5) (drop 5 bs)) of
            Inl e \<Rightarrow> Inl e
          | Inr (len, cursor) \<Rightarrow>
             (case read_u32 cursor of
                Inl e \<Rightarrow> Inl e
              | Inr (expected_crc, _) \<Rightarrow>
                 (let total_size = WAL_HEADER_SIZE + unat len in
                  if length bs < total_size
                  then Inl (IoErr UnexpectedEof ''truncated WAL record'')
                  else let payload_bytes = take (unat len) (drop WAL_HEADER_SIZE bs) in
                       if crc32_hash X payload_bytes \<noteq> expected_crc
                       then Inl (IoErr InvalidData ''WAL CRC mismatch'')
                       else case bincode_decode X payload_bytes of
                         None \<Rightarrow> Inl (IoErr InvalidData ''failed to deserialize WAL record'')
                       | Some record \<Rightarrow>
                           if record_type record \<noteq> rtype
                           then Inl (IoErr InvalidData
                                  ''WAL record type mismatch between header and payload'')
                           else Inr (record, total_size)))))"

text \<open>
  \<open>read_from\<close> takes the header and then exactly the announced payload from a stream
  (here the bytes still to be read) and hands both to \<open>decode_from_bytes\<close>.
\<close>

definition read_from :: "wal_ext \<Rightarrow> bytes \<Rightarrow> io_error + (wal_record \<times> bytes)" where
  "read_from X stream =
     (if length stream < WAL_HEADER_SIZE
      then Inl (IoErr UnexpectedEof ''failed to fill whole buffer'')
      else let header = take WAL_HEADER_SIZE stream in
        if take 4 header \<noteq> WAL_MAGIC then Inl (IoErr InvalidData ''invalid WAL magic'')
        else case read_u32 (take 4 (drop 5 header)) of
          Inl e \<Rightarrow> Inl e
        | Inr (len, _) \<Rightarrow>
            let rest = drop WAL_HEADER_SIZE stream in
            if length rest < unat len
            then Inl (IoErr UnexpectedEof ''failed to fill whole buffer'')
            else (case decode_from_bytes X (header @ take (unat len) rest) of
                    Inl e \<Rightarrow> Inl e
                  | Inr (record, _) \<Rightarrow> Inr (record, drop (unat len) rest)))"

section \<open>Writer\<close>

text \<open>
  The open file: its bytes, whether the handle is in append mode, and the position of the
  cursor. A write through an append handle goes to the end of the file; any other write
  goes to the cursor, and a cursor beyond the end leaves a hole of zero bytes. \<open>sync_all\<close>
  makes the file's bytes durable; the model's file is the durable one, so a write and its
  sync are one step.
\<close>

record wal_writer =
  file_data :: bytes
  append_mode :: bool
  cursor :: nat
  records_written :: nat

definition file_write_all :: "bytes \<Rightarrow> wal_writer \<Rightarrow> wal_writer" where
  "file_write_all bs w =
     (if append_mode w
      then w\<lparr>file_data := file_data w @ bs, cursor := length (file_data w) + length bs\<rparr>
      else w\<lparr>file_data := take (cursor w) (file_data w @ replicate (cursor w - length (file_data w)) 0)
                       @ bs @ drop (cursor w + length bs) (file_data w),
             cursor := cursor w + length bs\<rparr>)"

text \<open>The argument is the content of the path on disk, \<open>None\<close> when there is no file.\<close>

definition writer_create :: "bytes option \<Rightarrow> io_error + wal_writer" where
  "writer_create on_disk =
     (case on_disk of
        Some _ \<Rightarrow> Inl (IoErr AlreadyExists ''File exists'')
      | None \<Rightarrow> Inr \<lparr>file_data = [], append_mode = False, cursor = 0, records_written = 0\<rparr>)"

definition writer_open :: "bytes option \<Rightarrow> io_error + wal_writer" where
  "writer_open on_disk =
     (case on_disk of
        None \<Rightarrow> Inl (IoErr NotFound ''No such file or directory'')
      | Some bs \<Rightarrow> Inr \<lparr>file_data = bs, append_mode = True, cursor = 0, records_written = 0\<rparr>)"

definition open_or_create :: "bytes option \<Rightarrow> io_error + wal_writer" where
  "open_or_create on_disk =
     (if on_disk \<noteq> None then writer_open on_disk else writer_create on_disk)"

definition append_rec :: "wal_ext \<Rightarrow> wal_record \<Rightarrow> wal_writer \<Rightarrow> wal_writer" where
  "append_rec X r w =
     (let w' = file_write_all (encode_to_bytes X r) w
      in w'\<lparr>records_written := records_written w' + 1\<rparr>)"

definition append_batch :: "wal_ext \<Rightarrow> wal_record list \<Rightarrow> wal_writer \<Rightarrow> wal_writer" where
  "append_batch X rs w =
     (if rs = [] then w
      else let w' = fold (\<lambda>r. file_write_all (encode_to_bytes X r)) rs w
           in w'\<lparr>records_written := records_written w' + length rs\<rparr>)"

definition append_add_batch ::
  "wal_ext \<Rightarrow> string \<Rightarrow> (string \<times> i64 \<times> bytes) list \<Rightarrow> wal_writer \<Rightarrow> wal_writer" where
  "append_add_batch X tid rows w =
     append_batch X (map (\<lambda>(cid, ts, p). add_record tid cid ts p) rows) w"

definition append_delete :: "wal_ext \<Rightarrow> string \<Rightarrow> string \<Rightarrow> i64 \<Rightarrow> wal_writer \<Rightarrow> wal_writer" where
  "append_delete X tid cid ts w = append_rec X (delete_record tid cid ts) w"

definition append_checkpoint :: "wal_ext \<Rightarrow> string \<Rightarrow> i64 \<Rightarrow> wal_writer \<Rightarrow> wal_writer" where
  "append_checkpoint X tid ts w = append_rec X (checkpoint_record tid ts) w"

text \<open>\<open>set_len(0)\<close> drops the bytes and leaves the cursor where it was.\<close>

definition writer_truncate :: "wal_writer \<Rightarrow> wal_writer" where
  "writer_truncate w = w\<lparr>file_data := [], records_written := 0\<rparr>"

section \<open>Reader\<close>

lemma decode_from_bytes_consumed:
  "decode_from_bytes X bs = Inr (r, c) \<Longrightarrow> WAL_HEADER_SIZE \<le> c \<and> c \<le> length bs"
  by (auto simp: decode_from_bytes_def Let_def split: if_splits option.splits sum.splits)

text \<open>The loop of \<open>read_all_records\<close>, on the data, the offset and the records so far.\<close>

function read_all_from ::
  "wal_ext \<Rightarrow> bytes \<Rightarrow> nat \<Rightarrow> wal_record list \<Rightarrow> wal_record list \<times> nat" where
  "read_all_from X data off recs =
     (if off + WAL_HEADER_SIZE \<le> length data
      then case decode_from_bytes X (drop off data) of
             Inr (r, c) \<Rightarrow> read_all_from X data (off + c) (recs @ [r])
           | Inl _ \<Rightarrow> (recs, off)
      else (recs, off))"
  by pat_completeness auto
termination
  by (relation "measure (\<lambda>(X, data, off, recs). length data - off)")
     (auto dest: decode_from_bytes_consumed simp: WAL_HEADER_SIZE_def)

declare read_all_from.simps [simp del]

definition read_all_records :: "wal_ext \<Rightarrow> bytes \<Rightarrow> wal_record list \<times> nat" where
  "read_all_records X data = read_all_from X data 0 []"

fun rposition :: "('a \<Rightarrow> bool) \<Rightarrow> 'a list \<Rightarrow> nat option" where
  "rposition P [] = None"
| "rposition P (x # xs) =
     (case rposition P xs of Some i \<Rightarrow> Some (Suc i) | None \<Rightarrow> if P x then Some 0 else None)"

definition is_checkpoint :: "wal_record \<Rightarrow> bool" where
  "is_checkpoint r \<longleftrightarrow> record_type r = Checkpoint"

definition find_last_checkpoint :: "wal_ext \<Rightarrow> bytes \<Rightarrow> nat option" where
  "find_last_checkpoint X data = rposition is_checkpoint (fst (read_all_records X data))"

definition records_for_recovery :: "wal_ext \<Rightarrow> bytes \<Rightarrow> wal_record list" where
  "records_for_recovery X data =
     (let records = fst (read_all_records X data)
      in drop (case rposition is_checkpoint records of None \<Rightarrow> 0 | Some i \<Rightarrow> i + 1) records)"

section \<open>Recovery driver\<close>

text \<open>The trait \<open>RecoveryHandler\<close>: its methods on a handler state of any type.\<close>

record 'h recovery_handler =
  on_add :: "'h \<Rightarrow> wal_record \<Rightarrow> io_error + 'h"
  on_delete :: "'h \<Rightarrow> wal_record \<Rightarrow> io_error + 'h"
  on_task_artifact :: "'h \<Rightarrow> wal_record \<Rightarrow> io_error + 'h"
  chunk_exists :: "'h \<Rightarrow> string \<Rightarrow> io_error + bool"

record recovery_stats =
  adds :: nat
  deletes :: nat
  task_artifacts :: nat
  skipped :: nat
  checkpoints :: nat

definition default_stats :: recovery_stats where
  "default_stats = \<lparr>adds = 0, deletes = 0, task_artifacts = 0, skipped = 0, checkpoints = 0\<rparr>"

fun replay_records ::
  "'h recovery_handler \<Rightarrow> wal_record list \<Rightarrow> recovery_stats \<Rightarrow> 'h
     \<Rightarrow> io_error + (recovery_stats \<times> 'h)" where
  "replay_records H [] st h = Inr (st, h)"
| "replay_records H (r # rs) st h =
     (case record_type r of
        Add \<Rightarrow>
         (case chunk_exists H h (rec_chunk_id r) of
            Inl e \<Rightarrow> Inl e
          | Inr True \<Rightarrow> replay_records H rs (st\<lparr>skipped := skipped st + 1\<rparr>) h
          | Inr False \<Rightarrow>
             (case on_add H h r of
                Inl e \<Rightarrow> Inl e
              | Inr h' \<Rightarrow> replay_records H rs (st\<lparr>adds := adds st + 1\<rparr>) h'))
      | Delete \<Rightarrow>
         (case on_delete H h r of
            Inl e \<Rightarrow> Inl e
          | Inr h' \<Rightarrow> replay_records H rs (st\<lparr>deletes := deletes st + 1\<rparr>) h')
      | TaskArtifact \<Rightarrow>
         (case on_task_artifact H h r of
            Inl e \<Rightarrow> Inl e
          | Inr h' \<Rightarrow> replay_records H rs (st\<lparr>task_artifacts := task_artifacts st + 1\<rparr>) h')
      | Checkpoint \<Rightarrow> replay_records H rs (st\<lparr>checkpoints := checkpoints st + 1\<rparr>) h)"

definition replay ::
  "wal_ext \<Rightarrow> bytes \<Rightarrow> 'h recovery_handler \<Rightarrow> 'h \<Rightarrow> io_error + (recovery_stats \<times> 'h)" where
  "replay X data H h = replay_records H (records_for_recovery X data) default_stats h"


section \<open>Encoding and decoding\<close>

lemma length_WAL_MAGIC [simp]: "length WAL_MAGIC = 4"
  by (simp add: WAL_MAGIC_def)

lemma from_u8_type_code [simp]: "from_u8 (type_code t) = Some t"
  by (cases t) (simp_all add: from_u8_def)

lemma from_u8_Some: "from_u8 b = Some t \<Longrightarrow> b = type_code t"
  by (auto simp: from_u8_def split: if_splits)

lemma length_encode_to_bytes:
  "length (encode_to_bytes X r) = WAL_HEADER_SIZE + length (bincode_encode X r)"
  by (simp add: encode_to_bytes_def Let_def WAL_HEADER_SIZE_def)

text \<open>
  What the language guarantees of a record in memory: no buffer is longer than
  \<open>isize::MAX\<close>; and what the format needs, that the payload's length fits its
  four-byte field.
\<close>

definition rust_sized :: "wal_record \<Rightarrow> bool" where
  "rust_sized r \<longleftrightarrow>
     length (rec_tenant_id r) < 2 ^ 63 \<and> length (rec_chunk_id r) < 2 ^ 63 \<and> length (payload r) < 2 ^ 63"

definition wal_fits :: "wal_ext \<Rightarrow> wal_record \<Rightarrow> bool" where
  "wal_fits X r \<longleftrightarrow> rust_sized r \<and> length (bincode_encode X r) < 2 ^ 32"

text \<open>The header of an encoded record, and what the decoder reads from it.\<close>

definition header_of :: "wal_ext \<Rightarrow> wal_record \<Rightarrow> bytes" where
  "header_of X r = WAL_MAGIC @ [type_code (record_type r)]
     @ write_u32 (word_of_nat (length (bincode_encode X r)))
     @ write_u32 (crc32_hash X (bincode_encode X r))"

lemma encode_header: "encode_to_bytes X r = header_of X r @ bincode_encode X r"
  by (simp add: encode_to_bytes_def header_of_def Let_def)

lemma length_header_of [simp]: "length (header_of X r) = WAL_HEADER_SIZE"
  by (simp add: header_of_def WAL_HEADER_SIZE_def)

lemma take_header_magic: "take 4 (header_of X r @ rest) = WAL_MAGIC"
  by (simp add: header_of_def)

lemma nth_header_type: "(header_of X r @ rest) ! 4 = type_code (record_type r)"
  by (simp add: header_of_def nth_append)

lemma header_fields:
  "take (WAL_HEADER_SIZE - 5) (drop 5 (header_of X r @ rest)) =
     write_u32 (word_of_nat (length (bincode_encode X r)))
       @ write_u32 (crc32_hash X (bincode_encode X r))"
  by (simp add: header_of_def WAL_HEADER_SIZE_def)

lemma read_u32_exact: "read_u32 (write_u32 w) = Inr (w, [])"
  using read_write_u32 [of w "[]"] by simp

lemma read_header_length:
  assumes "wal_fits X r"
  shows "read_u32 (write_u32 (word_of_nat (length (bincode_encode X r))) @ rest)
           = Inr (word_of_nat (length (bincode_encode X r)), rest)"
    and "unat (word_of_nat (length (bincode_encode X r)) :: u32) = length (bincode_encode X r)"
  using assms by (simp_all add: wal_fits_def unat_u32_of_nat)

lemma decode_after_header:
  assumes fits: "wal_fits X r"
  shows "decode_from_bytes X (header_of X r @ rest) =
    (if length rest < length (bincode_encode X r)
     then Inl (IoErr UnexpectedEof ''truncated WAL record'')
     else let pb = take (length (bincode_encode X r)) rest in
       if crc32_hash X pb \<noteq> crc32_hash X (bincode_encode X r)
       then Inl (IoErr InvalidData ''WAL CRC mismatch'')
       else case bincode_decode X pb of
         None \<Rightarrow> Inl (IoErr InvalidData ''failed to deserialize WAL record'')
       | Some r' \<Rightarrow>
           if record_type r' \<noteq> record_type r
           then Inl (IoErr InvalidData ''WAL record type mismatch between header and payload'')
           else Inr (r', WAL_HEADER_SIZE + length (bincode_encode X r)))"
  unfolding decode_from_bytes_def Let_def take_header_magic nth_header_type header_fields
    read_header_length(1) [OF fits]
  by (simp add: read_header_length(2) [OF fits] read_u32_exact split: option.split)

text \<open>
  A write that stops inside a record leaves a strict prefix of its encoding: the decoder
  refuses it as too short, whether it stopped in the header or in the payload.
\<close>

lemma decode_torn:
  assumes fits: "wal_fits X r" and short: "n < length (encode_to_bytes X r)"
  shows "\<exists>msg. decode_from_bytes X (take n (encode_to_bytes X r)) = Inl (IoErr UnexpectedEof msg)"
proof (cases "n < WAL_HEADER_SIZE")
  case True
  then show ?thesis using short by (simp add: decode_from_bytes_def)
next
  case False
  then have "take n (encode_to_bytes X r) =
      header_of X r @ take (n - WAL_HEADER_SIZE) (bincode_encode X r)"
    by (simp add: encode_header)
  moreover have "n - WAL_HEADER_SIZE < length (bincode_encode X r)"
    using False short by (simp add: length_encode_to_bytes)
  ultimately show ?thesis by (simp add: decode_after_header [OF fits])
qed

section \<open>The codec contract\<close>

text \<open>What the log relies on from \<open>bincode\<close>.\<close>

locale wal_codec =
  fixes X :: wal_ext
  assumes bincode_roundtrip: "rust_sized r \<Longrightarrow> bincode_decode X (bincode_encode X r) = Some r"
begin

lemma decode_encode:
  assumes "wal_fits X r"
  shows "decode_from_bytes X (encode_to_bytes X r @ rest) = Inr (r, length (encode_to_bytes X r))"
proof -
  have "bincode_decode X (bincode_encode X r) = Some r"
    using assms by (simp add: wal_fits_def bincode_roundtrip)
  then show ?thesis
    by (simp add: encode_header decode_after_header [OF assms])
qed

lemma read_all_from_records:
  assumes "\<forall>r \<in> set rs. wal_fits X r"
  shows "read_all_from X (pre @ concat (map (encode_to_bytes X) rs) @ tail) (length pre) recs =
         read_all_from X (pre @ concat (map (encode_to_bytes X) rs) @ tail)
           (length pre + length (concat (map (encode_to_bytes X) rs))) (recs @ rs)"
  using assms
proof (induction rs arbitrary: pre recs)
  case Nil
  show ?case by simp
next
  case (Cons r rs)
  let ?e = "encode_to_bytes X r"
  let ?data = "pre @ concat (map (encode_to_bytes X) (r # rs)) @ tail"
  have shape: "?data = (pre @ ?e) @ concat (map (encode_to_bytes X) rs) @ tail" by simp
  have "drop (length pre) ?data = ?e @ concat (map (encode_to_bytes X) rs) @ tail" by simp
  then have "decode_from_bytes X (drop (length pre) ?data) = Inr (r, length ?e)"
    using Cons.prems by (simp only: decode_encode list.set_intros)
  then have "read_all_from X ?data (length pre) recs =
      read_all_from X ?data (length (pre @ ?e)) (recs @ [r])"
    by (subst read_all_from.simps) (simp add: length_encode_to_bytes)
  also have "\<dots> = read_all_from X ?data
      (length (pre @ ?e) + length (concat (map (encode_to_bytes X) rs))) ((recs @ [r]) @ rs)"
    using Cons.IH [of "pre @ ?e" "recs @ [r]"] Cons.prems unfolding shape by simp
  finally show ?case by (simp add: add.assoc)
qed

text \<open>
  The reader returns exactly the records in front of a tail that does not decode, and
  the number of bytes they take.
\<close>

lemma read_all_until:
  assumes "\<forall>r \<in> set rs. wal_fits X r"
    and "tail = [] \<or> (\<exists>e. decode_from_bytes X tail = Inl e)"
  shows "read_all_records X (concat (map (encode_to_bytes X) rs) @ tail) =
           (rs, length (concat (map (encode_to_bytes X) rs)))"
proof -
  let ?enc = "concat (map (encode_to_bytes X) rs)"
  have "read_all_records X (?enc @ tail) = read_all_from X (?enc @ tail) (length ?enc) rs"
    using read_all_from_records [OF assms(1), of "[]" tail "[]"]
    by (simp add: read_all_records_def)
  also have "\<dots> = (rs, length ?enc)"
    using assms(2)
    by (subst read_all_from.simps)
      (auto simp: decode_from_bytes_def WAL_HEADER_SIZE_def split: sum.splits)
  finally show ?thesis .
qed

lemma read_all_torn:
  assumes "\<forall>q \<in> set rs. wal_fits X q" and "wal_fits X r" and "n < length (encode_to_bytes X r)"
  shows "read_all_records X (concat (map (encode_to_bytes X) rs) @ take n (encode_to_bytes X r)) =
           (rs, length (concat (map (encode_to_bytes X) rs)))"
  using decode_torn [OF assms(2,3)] by (intro read_all_until [OF assms(1)]) blast

lemma read_all_clean:
  "\<forall>r \<in> set rs. wal_fits X r \<Longrightarrow>
     fst (read_all_records X (concat (map (encode_to_bytes X) rs))) = rs"
  using read_all_until [of rs "[]"] by simp

end

section \<open>Recovery selects the records after the last checkpoint\<close>

lemma rposition_None: "rposition P xs = None \<longleftrightarrow> (\<forall>x \<in> set xs. \<not> P x)"
  by (induction xs) (auto split: option.splits)

lemma rposition_append_hit:
  "P x \<Longrightarrow> \<forall>y \<in> set ys. \<not> P y \<Longrightarrow> rposition P (xs @ x # ys) = Some (length xs)"
  by (induction xs) (auto simp: rposition_None split: option.splits)

lemma rposition_Some:
  "rposition P xs = Some i \<Longrightarrow> i < length xs \<and> P (xs ! i) \<and> (\<forall>y \<in> set (drop (Suc i) xs). \<not> P y)"
  by (induction xs arbitrary: i) (auto simp: rposition_None split: option.splits if_splits)

definition after_last_checkpoint :: "wal_record list \<Rightarrow> wal_record list" where
  "after_last_checkpoint rs = rev (takeWhile (\<lambda>r. \<not> is_checkpoint r) (rev rs))"

lemma takeWhile_append_stop: "\<forall>y \<in> set ys. Q y \<Longrightarrow> \<not> Q x \<Longrightarrow> takeWhile Q (ys @ x # zs) = ys"
  by (induction ys) auto

lemma drop_after_checkpoint:
  "drop (case rposition is_checkpoint rs of None \<Rightarrow> 0 | Some i \<Rightarrow> i + 1) rs = after_last_checkpoint rs"
proof (cases "rposition is_checkpoint rs")
  case None
  then have "takeWhile (\<lambda>r. \<not> is_checkpoint r) (rev rs) = rev rs"
    by (simp add: rposition_None takeWhile_eq_all_conv)
  with None show ?thesis unfolding after_last_checkpoint_def
    by (metis drop0 option.case(1) rev_rev_ident)
next
  case (Some i)
  note hit = rposition_Some [OF Some]
  then have "rev rs = rev (drop (Suc i) rs) @ rs ! i # rev (take i rs)"
    by (metis append_assoc append_Cons append_Nil id_take_nth_drop rev_append rev_eq_Cons_iff rev.simps(2))
  with hit have "takeWhile (\<lambda>r. \<not> is_checkpoint r) (rev rs) = rev (drop (Suc i) rs)"
    by (simp add: takeWhile_append_stop)
  with Some show ?thesis by (simp add: after_last_checkpoint_def)
qed

lemma records_for_recovery_eq:
  "records_for_recovery X data = after_last_checkpoint (fst (read_all_records X data))"
  by (simp add: records_for_recovery_def Let_def drop_after_checkpoint)

lemma after_last_checkpoint_append:
  "after_last_checkpoint (xs @ ys) =
     (if \<exists>r \<in> set ys. is_checkpoint r then after_last_checkpoint ys
      else after_last_checkpoint xs @ ys)"
proof (cases "\<exists>r \<in> set ys. is_checkpoint r")
  case True
  then have "takeWhile (\<lambda>r. \<not> is_checkpoint r) (rev ys @ rev xs) =
      takeWhile (\<lambda>r. \<not> is_checkpoint r) (rev ys)"
    by (auto simp: takeWhile_append)
  with True show ?thesis by (simp add: after_last_checkpoint_def)
next
  case False
  then show ?thesis by (simp add: after_last_checkpoint_def takeWhile_append)
qed

lemma after_last_checkpoint_none: "r \<in> set (after_last_checkpoint rs) \<Longrightarrow> \<not> is_checkpoint r"
  by (auto simp: after_last_checkpoint_def dest: set_takeWhileD)

section \<open>Appending\<close>

lemma file_write_all_append:
  "append_mode w \<Longrightarrow> file_data (file_write_all bs w) = file_data w @ bs \<and> append_mode (file_write_all bs w)"
  by (simp add: file_write_all_def)

text \<open>A handle whose cursor is at the end of the file appends as well.\<close>

definition at_end :: "wal_writer \<Rightarrow> bool" where
  "at_end w \<longleftrightarrow> append_mode w \<or> cursor w = length (file_data w)"

lemma at_end_write: "at_end w \<Longrightarrow> file_data (file_write_all bs w) = file_data w @ bs"
  and at_end_write_all: "at_end w \<Longrightarrow> at_end (file_write_all bs w)"
  by (auto simp: at_end_def file_write_all_def)

lemma at_end_append_rec:
  "at_end w \<Longrightarrow> file_data (append_rec X r w) = file_data w @ encode_to_bytes X r"
  "at_end w \<Longrightarrow> at_end (append_rec X r w)"
  by (auto simp: append_rec_def Let_def at_end_write at_end_def file_write_all_def)

lemma fold_write_all:
  "at_end w \<Longrightarrow>
     file_data (fold (\<lambda>r. file_write_all (encode_to_bytes X r)) rs w)
       = file_data w @ concat (map (encode_to_bytes X) rs)
     \<and> at_end (fold (\<lambda>r. file_write_all (encode_to_bytes X r)) rs w)"
  by (induction rs arbitrary: w) (simp_all add: at_end_write at_end_write_all)

lemma at_end_append_batch:
  "at_end w \<Longrightarrow> file_data (append_batch X rs w) = file_data w @ concat (map (encode_to_bytes X) rs)"
  "at_end w \<Longrightarrow> at_end (append_batch X rs w)"
  using fold_write_all [of w X rs] by (auto simp: append_batch_def Let_def at_end_def)

lemma open_or_create_file:
  "open_or_create d = Inr w \<Longrightarrow> file_data w = (case d of None \<Rightarrow> [] | Some bs \<Rightarrow> bs) \<and> at_end w"
  by (auto simp: open_or_create_def writer_open_def writer_create_def at_end_def
      split: option.splits if_splits)

end
