(* ===== verification/Tombstone.thy ===== *)
theory Tombstone
  imports Memd_Prelude
begin

text \<open>
  The tombstone set of a segment (\<open>store/tombstone.rs\<close>): the ordinals that were deleted,
  held in a bitmap of the crate \<open>roaring\<close> and persisted to a file beside the segment. The
  bitmap is a parameter: its operations are the fields of \<open>bitmap_ops\<close>, and the locale
  \<open>bitmap\<close> states what the tombstones rely on, with a function that says which set of
  ordinals a bitmap stands for.
\<close>

section \<open>The bitmap interface\<close>

record 'b bitmap_ops =
  bm_new :: 'b
  bm_insert :: "u32 \<Rightarrow> 'b \<Rightarrow> 'b"
  bm_contains :: "'b \<Rightarrow> u32 \<Rightarrow> bool"
  bm_len :: "'b \<Rightarrow> nat"
  bm_serialize :: "'b \<Rightarrow> bytes"
  bm_deserialize :: "bytes \<Rightarrow> 'b option"

section \<open>Tombstone sets\<close>

text \<open>\<open>tomb_file\<close> is the content of the set's path, \<open>None\<close> when there is no file.\<close>

record 'b tombstone_set =
  bitmap_of :: 'b
  tomb_file :: "bytes option"
  dirty :: bool

definition load_or_create :: "'b bitmap_ops \<Rightarrow> bytes option \<Rightarrow> memd_error + 'b tombstone_set" where
  "load_or_create B on_disk =
     (case on_disk of
        Some bs \<Rightarrow>
         (case bm_deserialize B bs of
            None \<Rightarrow> Inl (StorageError ''tombstone deserialize'')
          | Some b \<Rightarrow> Inr \<lparr>bitmap_of = b, tomb_file = on_disk, dirty = False\<rparr>)
      | None \<Rightarrow> Inr \<lparr>bitmap_of = bm_new B, tomb_file = on_disk, dirty = False\<rparr>)"

definition ts_mark_deleted :: "'b bitmap_ops \<Rightarrow> u32 \<Rightarrow> 'b tombstone_set \<Rightarrow> 'b tombstone_set" where
  "ts_mark_deleted B ordinal ts = ts\<lparr>bitmap_of := bm_insert B ordinal (bitmap_of ts), dirty := True\<rparr>"

definition is_deleted :: "'b bitmap_ops \<Rightarrow> 'b tombstone_set \<Rightarrow> u32 \<Rightarrow> bool" where
  "is_deleted B ts ordinal = bm_contains B (bitmap_of ts) ordinal"

definition deleted_count :: "'b bitmap_ops \<Rightarrow> 'b tombstone_set \<Rightarrow> nat" where
  "deleted_count B ts = bm_len B (bitmap_of ts)"

text \<open>
  \<open>persist\<close> writes a temporary file, syncs it and renames it over the path, so the file
  changes in one step from the old content to the new one.
\<close>

definition persist :: "'b bitmap_ops \<Rightarrow> 'b tombstone_set \<Rightarrow> 'b tombstone_set" where
  "persist B ts =
     (if \<not> dirty ts then ts
      else ts\<lparr>tomb_file := Some (bm_serialize B (bitmap_of ts)), dirty := False\<rparr>)"

text \<open>Invariant: a clean set has its content on disk.\<close>

definition ts_synced :: "'b bitmap_ops \<Rightarrow> 'b tombstone_set \<Rightarrow> bool" where
  "ts_synced B ts \<longleftrightarrow>
     (\<not> dirty ts \<longrightarrow>
        (case tomb_file ts of None \<Rightarrow> bitmap_of ts = bm_new B
         | Some bs \<Rightarrow> bm_deserialize B bs = Some (bitmap_of ts)))"

section \<open>What the tombstones need of the bitmap\<close>

locale bitmap =
  fixes B :: "'b bitmap_ops" and bits :: "'b \<Rightarrow> u32 set"
  assumes bits_new: "bits (bm_new B) = {}"
    and bits_insert: "bits (bm_insert B x b) = insert x (bits b)"
    and contains_bits: "bm_contains B b x \<longleftrightarrow> x \<in> bits b"
    and len_bits: "bm_len B b = card (bits b)"
    and deserialize_serialize: "bm_deserialize B (bm_serialize B b) = Some b"
begin

lemma mark_then_deleted:
  "is_deleted B (ts_mark_deleted B i ts) j \<longleftrightarrow> i = j \<or> is_deleted B ts j"
  by (auto simp: is_deleted_def ts_mark_deleted_def contains_bits bits_insert)

lemma persist_deleted [simp]: "is_deleted B (persist B ts) j = is_deleted B ts j"
  by (simp add: persist_def is_deleted_def)

lemma persist_synced: "ts_synced B ts \<Longrightarrow> ts_synced B (persist B ts)"
  by (auto simp: persist_def ts_synced_def deserialize_serialize)

lemma persist_clean: "\<not> dirty (persist B ts)"
  by (simp add: persist_def)

lemma load_synced: "load_or_create B d = Inr ts \<Longrightarrow> ts_synced B ts \<and> \<not> dirty ts \<and> tomb_file ts = d"
  by (auto simp: load_or_create_def ts_synced_def split: option.splits)

text \<open>A clean set that matches its file is what loading that file returns.\<close>

lemma reload_clean:
  "ts_synced B ts \<Longrightarrow> \<not> dirty ts \<Longrightarrow> load_or_create B (tomb_file ts) = Inr ts"
  by (cases ts) (auto simp: load_or_create_def ts_synced_def split: option.splits)

lemma reload_persisted:
  "ts_synced B ts \<Longrightarrow>
     \<exists>ts'. load_or_create B (tomb_file (persist B ts)) = Inr ts'
       \<and> (\<forall>j. is_deleted B ts' j = is_deleted B ts j)"
  using reload_clean [OF persist_synced persist_clean] persist_deleted by metis

lemma deleted_count_mark:
  assumes "finite (bits (bitmap_of ts))"
  shows "deleted_count B (ts_mark_deleted B i ts) =
         deleted_count B ts + (if is_deleted B ts i then 0 else 1)"
  using assms
  by (simp add: deleted_count_def ts_mark_deleted_def is_deleted_def len_bits bits_insert
      contains_bits insert_absorb)

end

section \<open>An instance: sorted lists of ordinals\<close>

text \<open>
  A bitmap as its ordinals in ascending order, serialised as little-endian words. It stands
  in for the crate where a concrete bitmap is needed.
\<close>

typedef ordinal_list = "{xs :: u32 list. sorted xs \<and> distinct xs}"
  morphisms ordinals Abs_ordinal_list
  by (rule exI [of _ "[]"]) simp

definition ol_new :: ordinal_list where
  "ol_new = Abs_ordinal_list []"

definition ol_insert :: "u32 \<Rightarrow> ordinal_list \<Rightarrow> ordinal_list" where
  "ol_insert x b = Abs_ordinal_list (insort_insert x (ordinals b))"

definition ol_member :: "ordinal_list \<Rightarrow> u32 \<Rightarrow> bool" where
  "ol_member b x \<longleftrightarrow> x \<in> set (ordinals b)"

definition ol_len :: "ordinal_list \<Rightarrow> nat" where
  "ol_len b = length (ordinals b)"

definition ol_set :: "ordinal_list \<Rightarrow> u32 set" where
  "ol_set b = set (ordinals b)"

definition ol_serialize :: "ordinal_list \<Rightarrow> bytes" where
  "ol_serialize b = concat (map write_u32 (ordinals b))"

lemma ordinals_ok: "sorted (ordinals b) \<and> distinct (ordinals b)"
  using ordinals [of b] by simp

lemma ordinals_new [simp]: "ordinals ol_new = []"
  by (simp add: ol_new_def Abs_ordinal_list_inverse)

lemma ordinals_insert [simp]: "ordinals (ol_insert x b) = insort_insert x (ordinals b)"
  using ordinals_ok [of b]
  by (simp add: ol_insert_def Abs_ordinal_list_inverse distinct_insort_insert sorted_insort_insert)

fun read_words :: "nat \<Rightarrow> bytes \<Rightarrow> u32 list" where
  "read_words 0 bs = []"
| "read_words (Suc n) bs = word_of_nat (le_val (take 4 bs)) # read_words n (drop 4 bs)"

definition ol_deserialize :: "bytes \<Rightarrow> ordinal_list option" where
  "ol_deserialize bs =
     (let xs = read_words (length bs div 4) bs
      in if sorted xs \<and> distinct xs then Some (Abs_ordinal_list xs) else None)"

lemma read_words_write: "read_words (length xs) (concat (map write_u32 xs)) = xs"
  by (induction xs)
    (simp_all add: write_u32_def le_val_le_bytes unat_u32_bound [simplified])

lemma length_concat_write_u32: "length (concat (map write_u32 xs)) = 4 * length xs"
  by (induction xs) simp_all

lemma ol_deserialize_serialize: "ol_deserialize (ol_serialize b) = Some b"
  using ordinals_ok [of b]
  by (simp add: ol_deserialize_def ol_serialize_def length_concat_write_u32 read_words_write
      ordinals_inverse)

definition ol_ops :: "ordinal_list bitmap_ops" where
  "ol_ops = \<lparr>bm_new = ol_new, bm_insert = ol_insert, bm_contains = ol_member, bm_len = ol_len,
             bm_serialize = ol_serialize, bm_deserialize = ol_deserialize\<rparr>"

lemma ol_ops_sel [simp]:
  "bm_new ol_ops = ol_new" "bm_insert ol_ops = ol_insert" "bm_contains ol_ops = ol_member"
  "bm_len ol_ops = ol_len" "bm_serialize ol_ops = ol_serialize" "bm_deserialize ol_ops = ol_deserialize"
  by (simp_all add: ol_ops_def)

interpretation ol: bitmap ol_ops ol_set
proof
  show "ol_set (bm_new ol_ops) = {}" by (simp add: ol_set_def)
  show "ol_set (bm_insert ol_ops x b) = insert x (ol_set b)" for x b
    by (simp add: ol_set_def set_insort_insert)
  show "bm_contains ol_ops b x \<longleftrightarrow> x \<in> ol_set b" for b x
    by (simp add: ol_set_def ol_member_def)
  show "bm_len ol_ops b = card (ol_set b)" for b
    using ordinals_ok [of b] by (simp add: ol_set_def ol_len_def distinct_card)
  show "bm_deserialize ol_ops (bm_serialize ol_ops b) = Some b" for b
    by (simp add: ol_deserialize_serialize)
qed

end
