(* ===== verification/Segment.thy ===== *)
theory Segment
  imports Tombstone
begin

text \<open>
  Segments (\<open>store/segment/\<close>): the index record and metadata formats (\<open>format.rs\<close>), the
  append-only writer (\<open>writer.rs\<close>) and the reader of a finalized segment (\<open>reader.rs\<close>).
  A segment directory is the record of its files. The checksum of \<open>crc32fast\<close>, the
  \<open>bincode\<close> codec of \<open>SegmentMeta\<close> and the bitmap are parameters, fields of \<open>seg_ext\<close>.
\<close>

section \<open>Formats\<close>

record payload_index_record =
  idx_offset :: u64
  idx_length :: u32
  idx_crc32 :: u32

record segment_meta =
  meta_id :: nat
  meta_chunk_count :: u32
  created_ts :: i64
  finalized :: bool

record 'b seg_ext =
  seg_crc :: "bytes \<Rightarrow> u32"
  meta_encode :: "segment_meta \<Rightarrow> bytes"
  meta_decode :: "bytes \<Rightarrow> segment_meta option"
  bitmap_ops_of :: "'b bitmap_ops"

definition SEGMENT_MAGIC :: bytes where
  "SEGMENT_MAGIC = [0x4D, 0x53, 0x45, 0x47]"

definition INDEX_SIZE :: nat where
  "INDEX_SIZE = 16"

definition to_bytes :: "payload_index_record \<Rightarrow> bytes" where
  "to_bytes r = write_u64 (idx_offset r) @ write_u32 (idx_length r) @ write_u32 (idx_crc32 r)"

definition from_bytes :: "bytes \<Rightarrow> io_error + payload_index_record" where
  "from_bytes bs =
     (if length bs < INDEX_SIZE
      then Inl (IoErr UnexpectedEof ''not enough bytes for PayloadIndexRecord'')
      else case read_u64 (take INDEX_SIZE bs) of
        Inl e \<Rightarrow> Inl e
      | Inr (off, c1) \<Rightarrow>
         (case read_u32 c1 of
            Inl e \<Rightarrow> Inl e
          | Inr (len, c2) \<Rightarrow>
             (case read_u32 c2 of
                Inl e \<Rightarrow> Inl e
              | Inr (crc, _) \<Rightarrow> Inr \<lparr>idx_offset = off, idx_length = len, idx_crc32 = crc\<rparr>)))"

text \<open>The loop of \<open>parse_all\<close> over the record numbers.\<close>

fun parse_each :: "bytes \<Rightarrow> nat list \<Rightarrow> io_error + payload_index_record list" where
  "parse_each bs [] = Inr []"
| "parse_each bs (i # is) =
     (case from_bytes (take INDEX_SIZE (drop (i * INDEX_SIZE) bs)) of
        Inl e \<Rightarrow> Inl e
      | Inr r \<Rightarrow> (case parse_each bs is of Inl e \<Rightarrow> Inl e | Inr rs \<Rightarrow> Inr (r # rs)))"

definition parse_all :: "bytes \<Rightarrow> io_error + payload_index_record list" where
  "parse_all bs =
     (if length bs mod INDEX_SIZE \<noteq> 0
      then Inl (IoErr InvalidData ''invalid index size: not a multiple of record size'')
      else parse_each bs [0..<length bs div INDEX_SIZE])"

definition new_meta :: "nat \<Rightarrow> i64 \<Rightarrow> segment_meta" where
  "new_meta sid now = \<lparr>meta_id = sid, meta_chunk_count = 0, created_ts = now, finalized = False\<rparr>"

section \<open>Directories\<close>

record seg_dir =
  payload_bin :: bytes
  payload_idx :: "bytes option"
  meta_file :: "bytes option"
  tombstone_bin :: "bytes option"

definition dir_name :: "nat \<Rightarrow> string" where
  "dir_name sid = ''seg_'' @ pad_zero 6 (show_nat sid)"

definition parse_segment_id :: "string \<Rightarrow> io_error + nat" where
  "parse_segment_id name =
     (if take 4 name \<noteq> ''seg_'' then Inl (IoErr InvalidInput ''invalid segment name'')
      else case parse_unsigned (2 ^ 64) (drop 4 name) of
        None \<Rightarrow> Inl (IoErr InvalidInput ''invalid segment id'')
      | Some sid \<Rightarrow> Inr sid)"

section \<open>Writer\<close>

text \<open>
  \<open>buffered\<close> holds the bytes written since the last flush. The real buffer may spill to the
  file earlier; no operation reads the payload file without a flush before.
\<close>

record seg_writer =
  w_id :: nat
  w_dir :: seg_dir
  buffered :: bytes
  payload_len :: u64
  index_records :: "payload_index_record list"
  w_meta :: segment_meta

text \<open>
  \<open>create\<close> makes the directory if it is missing and truncates \<open>payload.bin\<close>; other files of
  an existing directory stay.
\<close>

definition segment_create :: "seg_dir option \<Rightarrow> nat \<Rightarrow> i64 \<Rightarrow> seg_writer" where
  "segment_create existing sid now =
     \<lparr>w_id = sid,
      w_dir = (case existing of
                 None \<Rightarrow> \<lparr>payload_bin = [], payload_idx = None, meta_file = None, tombstone_bin = None\<rparr>
               | Some d \<Rightarrow> d\<lparr>payload_bin := []\<rparr>),
      buffered = [], payload_len = 0, index_records = [], w_meta = new_meta sid now\<rparr>"

definition append_chunk :: "'b seg_ext \<Rightarrow> bytes \<Rightarrow> seg_writer \<Rightarrow> u32 \<times> seg_writer" where
  "append_chunk E data w =
     (let len = word_of_nat (length data) :: u32;
          record = \<lparr>idx_offset = payload_len w, idx_length = len, idx_crc32 = seg_crc E data\<rparr>;
          w' = w\<lparr>buffered := buffered w @ data,
                 payload_len := payload_len w + ucast len,
                 index_records := index_records w @ [record]\<rparr>
      in (word_of_nat (length (index_records w') - 1), w'))"

definition flush_payload :: "seg_writer \<Rightarrow> seg_writer" where
  "flush_payload w =
     w\<lparr>w_dir := (w_dir w)\<lparr>payload_bin := payload_bin (w_dir w) @ buffered w\<rparr>, buffered := []\<rparr>"

definition index_file :: "payload_index_record list \<Rightarrow> bytes" where
  "index_file rs = SEGMENT_MAGIC @ concat (map to_bytes rs)"

definition final_meta :: "seg_writer \<Rightarrow> segment_meta" where
  "final_meta w =
     (w_meta w)\<lparr>meta_chunk_count := word_of_nat (length (index_records w)), finalized := True\<rparr>"

text \<open>
  The directory after each durable step of \<open>finalize\<close>, in the order of the code: payload
  flushed and synced; index file created, then written and synced; meta file created, then
  written and synced. A crash leaves the directory in one of these states (or before them).
\<close>

definition finalize_steps :: "'b seg_ext \<Rightarrow> seg_writer \<Rightarrow> seg_dir list" where
  "finalize_steps E w =
     (let d1 = w_dir (flush_payload w);
          d2 = d1\<lparr>payload_idx := Some []\<rparr>;
          d3 = d1\<lparr>payload_idx := Some (index_file (index_records w))\<rparr>;
          d4 = d3\<lparr>meta_file := Some []\<rparr>;
          d5 = d3\<lparr>meta_file := Some (meta_encode E (final_meta w))\<rparr>
      in [d1, d2, d3, d4, d5])"

definition finalize :: "'b seg_ext \<Rightarrow> seg_writer \<Rightarrow> segment_meta \<times> seg_dir" where
  "finalize E w = (final_meta w, last (finalize_steps E w))"

definition writer_read_chunk ::
  "'b seg_ext \<Rightarrow> seg_writer \<Rightarrow> u32 \<Rightarrow> (memd_error + bytes option) \<times> seg_writer" where
  "writer_read_chunk E w ordinal =
     (if unat ordinal \<ge> length (index_records w) then (Inr None, w)
      else let w' = flush_payload w;
               record = index_records w' ! unat ordinal;
               payload_data = payload_bin (w_dir w');
               start = unat (idx_offset record);
               stop = start + unat (idx_length record)
           in if stop > length payload_data
              then (Inl (StorageError ''chunk offset out of bounds''), w')
              else let data = take (unat (idx_length record)) (drop start payload_data) in
                   if seg_crc E data \<noteq> idx_crc32 record
                   then (Inl (StorageError ''chunk CRC mismatch''), w')
                   else (Inr (Some data), w'))"

section \<open>Reader\<close>

record 'b seg_reader =
  r_id :: nat
  r_dir :: seg_dir
  payload_mmap :: bytes
  r_index :: "payload_index_record list"
  tombstones :: "'b tombstone_set"

definition load_index :: "bytes option \<Rightarrow> io_error + payload_index_record list" where
  "load_index on_disk =
     (case on_disk of
        None \<Rightarrow> Inl (IoErr NotFound ''No such file or directory'')
      | Some bs \<Rightarrow>
          if length bs < length SEGMENT_MAGIC then Inl (IoErr InvalidData ''index file too small'')
          else if take (length SEGMENT_MAGIC) bs \<noteq> SEGMENT_MAGIC
          then Inl (IoErr InvalidData ''invalid index magic'')
          else parse_all (drop (length SEGMENT_MAGIC) bs))"

definition reader_open :: "'b seg_ext \<Rightarrow> string \<Rightarrow> seg_dir \<Rightarrow> io_error + 'b seg_reader" where
  "reader_open E name d =
     (case parse_segment_id name of
        Inl e \<Rightarrow> Inl e
      | Inr sid \<Rightarrow>
         (case load_index (payload_idx d) of
            Inl e \<Rightarrow> Inl e
          | Inr index \<Rightarrow>
             (case load_or_create (bitmap_ops_of E) (tombstone_bin d) of
                Inl _ \<Rightarrow> Inl (IoErr Other ''tombstone deserialize'')
              | Inr ts \<Rightarrow>
                  Inr \<lparr>r_id = sid, r_dir = d, payload_mmap = payload_bin d, r_index = index,
                       tombstones = ts\<rparr>)))"

definition chunk_count :: "'b seg_reader \<Rightarrow> u32" where
  "chunk_count r = word_of_nat (length (r_index r))"

text \<open>Unsigned 32-bit subtraction, wrapping as the release build does.\<close>

definition active_count :: "'b seg_ext \<Rightarrow> 'b seg_reader \<Rightarrow> u32" where
  "active_count E r = chunk_count r - word_of_nat (deleted_count (bitmap_ops_of E) (tombstones r))"

definition read_chunk :: "'b seg_ext \<Rightarrow> 'b seg_reader \<Rightarrow> u32 \<Rightarrow> io_error + bytes option" where
  "read_chunk E r ordinal =
     (if unat ordinal \<ge> length (r_index r) then Inr None
      else if is_deleted (bitmap_ops_of E) (tombstones r) ordinal then Inr None
      else let record = r_index r ! unat ordinal;
               start = unat (idx_offset record);
               stop = start + unat (idx_length record)
           in if stop > length (payload_mmap r)
              then Inl (IoErr InvalidData ''offset out of bounds'')
              else let data = take (unat (idx_length record)) (drop start (payload_mmap r)) in
                   if seg_crc E data \<noteq> idx_crc32 record
                   then Inl (IoErr InvalidData ''CRC mismatch'')
                   else Inr (Some data))"

text \<open>Marking a tombstone persists it; the directory's tombstone file is the set's file.\<close>

definition reader_mark_deleted :: "'b seg_ext \<Rightarrow> u32 \<Rightarrow> 'b seg_reader \<Rightarrow> 'b seg_reader" where
  "reader_mark_deleted E ordinal r =
     (let ts = persist (bitmap_ops_of E) (ts_mark_deleted (bitmap_ops_of E) ordinal (tombstones r))
      in r\<lparr>tombstones := ts, r_dir := (r_dir r)\<lparr>tombstone_bin := tomb_file ts\<rparr>\<rparr>)"

definition reader_metadata :: "'b seg_ext \<Rightarrow> 'b seg_reader \<Rightarrow> io_error + segment_meta" where
  "reader_metadata E r =
     (case meta_file (r_dir r) of
        None \<Rightarrow> Inl (IoErr NotFound ''No such file or directory'')
      | Some bs \<Rightarrow>
         (case meta_decode E bs of
            None \<Rightarrow> Inl (IoErr InvalidData ''failed to decode segment meta'')
          | Some m \<Rightarrow> Inr m))"

section \<open>Index files round-trip\<close>

lemma length_to_bytes [simp]: "length (to_bytes r) = INDEX_SIZE"
  by (simp add: to_bytes_def INDEX_SIZE_def)

lemma from_to_bytes [simp]: "from_bytes (to_bytes r) = Inr r"
proof -
  have "read_u32 (write_u32 (idx_crc32 r)) = Inr (idx_crc32 r, [])"
    using read_write_u32 [of "idx_crc32 r" "[]"] by simp
  then show ?thesis by (simp add: from_bytes_def to_bytes_def INDEX_SIZE_def)
qed

lemma concat_same_length:
  "\<forall>x \<in> set xs. length (f x) = k \<Longrightarrow> length (concat (map f xs)) = k * length xs"
  by (induction xs) auto

lemma slice_concat:
  "i < length xs \<Longrightarrow>
     take (length (f (xs ! i))) (drop (length (concat (map f (take i xs)))) (concat (map f xs) @ ys))
       = f (xs ! i)"
proof (induction xs arbitrary: i)
  case Nil
  then show ?case by simp
next
  case (Cons x xs)
  then show ?case by (cases i) simp_all
qed

lemma parse_each_nth:
  "\<forall>i \<in> set is. i < length rs \<Longrightarrow> parse_each (concat (map to_bytes rs)) is = Inr (map ((!) rs) is)"
proof (induction "is")
  case Nil
  show ?case by simp
next
  case (Cons i "is")
  then have "i < length rs" by simp
  then have "take INDEX_SIZE (drop (i * INDEX_SIZE) (concat (map to_bytes rs))) = to_bytes (rs ! i)"
    using slice_concat [of i rs to_bytes "[]"] concat_same_length [of "take i rs" to_bytes INDEX_SIZE]
    by (simp add: mult.commute)
  with Cons show ?case by simp
qed

lemma parse_all_concat: "parse_all (concat (map to_bytes rs)) = Inr rs"
  using concat_same_length [of rs to_bytes INDEX_SIZE]
  by (simp add: parse_all_def parse_each_nth INDEX_SIZE_def map_nth)

lemma load_index_file: "load_index (Some (index_file rs)) = Inr rs"
  by (simp add: load_index_def index_file_def parse_all_concat)

lemma parse_dir_name: "sid < 2 ^ 64 \<Longrightarrow> parse_segment_id (dir_name sid) = Inr sid"
  by (simp add: parse_segment_id_def dir_name_def parse_pad_show)


section \<open>What a segment holds\<close>

text \<open>The index a writer builds for a list of chunks, starting at a byte offset.\<close>

fun index_from :: "(bytes \<Rightarrow> u32) \<Rightarrow> nat \<Rightarrow> bytes list \<Rightarrow> payload_index_record list" where
  "index_from crc off [] = []"
| "index_from crc off (d # ds) =
     \<lparr>idx_offset = word_of_nat off, idx_length = word_of_nat (length d), idx_crc32 = crc d\<rparr>
       # index_from crc (off + length d) ds"

text \<open>The sizes the format can represent.\<close>

definition seg_sized :: "bytes list \<Rightarrow> bool" where
  "seg_sized ds \<longleftrightarrow> length (concat ds) < 2 ^ 64 \<and> (\<forall>d \<in> set ds. length d < 2 ^ 32) \<and> length ds \<le> 2 ^ 32"

text \<open>The writer's state invariant, with the chunks it holds so far.\<close>

definition writer_holds :: "'b seg_ext \<Rightarrow> seg_writer \<Rightarrow> bytes list \<Rightarrow> bool" where
  "writer_holds E w ds \<longleftrightarrow>
     payload_bin (w_dir w) @ buffered w = concat ds
     \<and> index_records w = index_from (seg_crc E) 0 ds
     \<and> payload_len w = word_of_nat (length (concat ds))"

definition dir_holds :: "'b seg_ext \<Rightarrow> seg_dir \<Rightarrow> bytes list \<Rightarrow> bool" where
  "dir_holds E d ds \<longleftrightarrow>
     payload_bin d = concat ds \<and> payload_idx d = Some (index_file (index_from (seg_crc E) 0 ds))"

definition reader_holds :: "'b seg_ext \<Rightarrow> 'b seg_reader \<Rightarrow> bytes list \<Rightarrow> bool" where
  "reader_holds E r ds \<longleftrightarrow>
     payload_mmap r = concat ds \<and> r_index r = index_from (seg_crc E) 0 ds"

lemma length_index_from [simp]: "length (index_from crc off ds) = length ds"
  by (induction ds arbitrary: off) simp_all

lemma index_from_append:
  "index_from crc off (ds @ es) = index_from crc off ds @ index_from crc (off + length (concat ds)) es"
  by (induction ds arbitrary: off) (simp_all add: add.assoc)

lemma index_from_nth:
  "i < length ds \<Longrightarrow>
     index_from crc off ds ! i =
       \<lparr>idx_offset = word_of_nat (off + length (concat (take i ds))),
        idx_length = word_of_nat (length (ds ! i)), idx_crc32 = crc (ds ! i)\<rparr>"
proof (induction ds arbitrary: off i)
  case Nil
  then show ?case by simp
next
  case (Cons d ds)
  then show ?case by (cases i) (simp_all add: add.assoc)
qed

lemma concat_take_le: "length (concat (take i ds)) \<le> length (concat ds)"
proof -
  have "length (concat ds) = length (concat (take i ds)) + length (concat (drop i ds))"
    by (metis append_take_drop_id concat_append length_append)
  then show ?thesis by simp
qed

text \<open>Reading one entry: the bounds check passes and the slice is the chunk.\<close>

lemma entry_slice:
  fixes crc :: "bytes \<Rightarrow> u32"
  assumes "seg_sized ds" and "i < length ds"
  defines "e \<equiv> index_from crc 0 ds ! i"
  shows "unat (idx_offset e) + unat (idx_length e) \<le> length (concat ds)"
    and "take (unat (idx_length e)) (drop (unat (idx_offset e)) (concat ds)) = ds ! i"
    and "idx_crc32 e = crc (ds ! i)"
proof -
  have e: "e = \<lparr>idx_offset = word_of_nat (length (concat (take i ds))),
      idx_length = word_of_nat (length (ds ! i)), idx_crc32 = crc (ds ! i)\<rparr>"
    using index_from_nth [OF assms(2), of crc 0] by (simp add: e_def)
  have len: "length (ds ! i) < 2 ^ 32"
    using assms(1) nth_mem [OF assms(2)] by (auto simp: seg_sized_def)
  have off: "length (concat (take i ds)) < 2 ^ 64"
    using assms(1) concat_take_le [of i ds] by (simp add: seg_sized_def)
  have vals: "unat (idx_length e) = length (ds ! i)" "unat (idx_offset e) = length (concat (take i ds))"
    using len off by (simp_all add: e unat_u32_of_nat unat_u64_of_nat)
  have "length (concat (take (Suc i) ds)) \<le> length (concat ds)" by (rule concat_take_le)
  then show "unat (idx_offset e) + unat (idx_length e) \<le> length (concat ds)"
    using assms(2) by (simp add: vals take_Suc_conv_app_nth)
  show "take (unat (idx_length e)) (drop (unat (idx_offset e)) (concat ds)) = ds ! i"
    using slice_concat [OF assms(2), of "\<lambda>d. d" "[]"] by (simp add: vals)
  show "idx_crc32 e = crc (ds ! i)" by (simp add: e)
qed

lemma writer_holds_create: "writer_holds E (segment_create existing sid now) []"
  by (simp add: writer_holds_def segment_create_def split: option.split)

lemma writer_holds_append:
  assumes "writer_holds E w ds" and "length data < 2 ^ 32" and "append_chunk E data w = (ordinal, w')"
  shows "writer_holds E w' (ds @ [data]) \<and> ordinal = word_of_nat (length ds)"
proof -
  have "ucast (word_of_nat (length data) :: u32) =
      (word_of_nat (unat (word_of_nat (length data) :: u32)) :: u64)" by simp
  then have "ucast (word_of_nat (length data) :: u32) = (word_of_nat (length data) :: u64)"
    using assms(2) by (simp only: unat_u32_of_nat)
  then show ?thesis
    using assms(1,3)
    by (auto simp: writer_holds_def append_chunk_def Let_def index_from_append)
qed

lemma writer_holds_flush: "writer_holds E w ds \<Longrightarrow> writer_holds E (flush_payload w) ds"
  by (simp add: writer_holds_def flush_payload_def)

lemma finalize_steps_holds:
  assumes "writer_holds E w ds" and "d \<in> set (finalize_steps E w)" and "meta_file (w_dir w) = None"
    and "meta_file d \<noteq> None"
  shows "dir_holds E d ds"
  using assms by (auto simp: finalize_steps_def Let_def dir_holds_def writer_holds_def flush_payload_def)

lemma finalize_dir_holds:
  "writer_holds E w ds \<Longrightarrow> dir_holds E (snd (finalize E w)) ds
     \<and> meta_file (snd (finalize E w)) = Some (meta_encode E (final_meta w))
     \<and> tombstone_bin (snd (finalize E w)) = tombstone_bin (w_dir w)"
  by (auto simp: finalize_def finalize_steps_def Let_def dir_holds_def writer_holds_def flush_payload_def)

lemma reader_open_holds:
  assumes "dir_holds E d ds" and "sid < 2 ^ 64"
    and "load_or_create (bitmap_ops_of E) (tombstone_bin d) = Inr ts"
  shows "\<exists>r. reader_open E (dir_name sid) d = Inr r \<and> reader_holds E r ds \<and> r_id r = sid
           \<and> tombstones r = ts \<and> r_dir r = d"
  using assms by (simp add: reader_open_def dir_holds_def parse_dir_name load_index_file reader_holds_def)

lemma read_chunk_holds:
  assumes "reader_holds E r ds" and "seg_sized ds"
  shows "read_chunk E r o' =
    (if unat o' < length ds \<and> \<not> is_deleted (bitmap_ops_of E) (tombstones r) o'
     then Inr (Some (ds ! unat o')) else Inr None)"
proof (cases "unat o' < length ds")
  case True
  note slice = entry_slice [OF assms(2) True, of "seg_crc E"]
  show ?thesis
    using True assms(1) slice by (simp add: read_chunk_def reader_holds_def Let_def)
next
  case False
  then show ?thesis using assms(1) by (simp add: read_chunk_def reader_holds_def)
qed

lemma writer_read_holds:
  assumes "writer_holds E w ds" and "seg_sized ds"
  shows "fst (writer_read_chunk E w o') = (if unat o' < length ds then Inr (Some (ds ! unat o')) else Inr None)"
proof (cases "unat o' < length ds")
  case True
  note slice = entry_slice [OF assms(2) True, of "seg_crc E"]
  have "payload_bin (w_dir (flush_payload w)) = concat ds"
    using assms(1) by (simp add: writer_holds_def flush_payload_def)
  moreover have "index_records (flush_payload w) = index_from (seg_crc E) 0 ds"
    "index_records w = index_from (seg_crc E) 0 ds"
    using assms(1) by (simp_all add: writer_holds_def flush_payload_def)
  ultimately show ?thesis using True slice by (simp add: writer_read_chunk_def Let_def)
next
  case False
  then show ?thesis using assms(1) by (simp add: writer_read_chunk_def writer_holds_def)
qed

lemma reader_holds_mark: "reader_holds E (reader_mark_deleted E i r) ds = reader_holds E r ds"
  by (simp add: reader_holds_def reader_mark_deleted_def Let_def)

end
