(* ===== verification/Memd_Text.thy ===== *)
theory Memd_Text
  imports Memd_Prelude
begin

text \<open>
  Rust strings whose characters the code looks at: a \<open>str\<close> is the list of its Unicode
  scalar values, as \<open>chars()\<close> yields them. Byte lengths are computed from the UTF-8 width
  of each scalar value. The functions here are those of the standard library that the
  modelled code calls, and the content-identity helpers of \<open>store/supersession.rs\<close>.
\<close>

type_synonym uchar = nat
type_synonym str = "nat list"

text \<open>A literal of the source as a list of scalar values.\<close>

definition lit :: "string \<Rightarrow> str" where
  "lit s = map of_char s"

lemma lit_simps [simp]: "lit [] = []" "lit (c # s) = of_char c # lit s"
  by (simp_all add: lit_def)

section \<open>Characters\<close>

definition utf8_len :: "uchar \<Rightarrow> nat" where
  "utf8_len c = (if c < 0x80 then 1 else if c < 0x800 then 2 else if c < 0x10000 then 3 else 4)"

text \<open>\<open>str::len\<close>: the number of bytes of the UTF-8 encoding.\<close>

definition byte_len :: "str \<Rightarrow> nat" where
  "byte_len s = sum_list (map utf8_len s)"

lemma utf8_len_pos [simp]: "0 < utf8_len c" "utf8_len c \<noteq> 0" "utf8_len c \<le> 4"
  by (simp_all add: utf8_len_def)

lemma byte_len_simps [simp]:
  "byte_len [] = 0" "byte_len (c # s) = utf8_len c + byte_len s" "byte_len (s @ t) = byte_len s + byte_len t"
  by (simp_all add: byte_len_def)

lemma byte_len_0 [simp]: "byte_len s = 0 \<longleftrightarrow> s = []"
  by (cases s) simp_all

lemma byte_len_pos [simp]: "0 < byte_len s \<longleftrightarrow> s \<noteq> []"
  by (cases s) simp_all

text \<open>\<open>char::is_whitespace\<close>: the Unicode property White-Space.\<close>

definition is_whitespace :: "uchar \<Rightarrow> bool" where
  "is_whitespace c \<longleftrightarrow>
     (0x09 \<le> c \<and> c \<le> 0x0D) \<or> c = 0x20 \<or> c = 0x85 \<or> c = 0xA0 \<or> c = 0x1680
     \<or> (0x2000 \<le> c \<and> c \<le> 0x200A) \<or> c = 0x2028 \<or> c = 0x2029 \<or> c = 0x202F \<or> c = 0x205F \<or> c = 0x3000"

definition is_ascii_alphabetic :: "uchar \<Rightarrow> bool" where
  "is_ascii_alphabetic c \<longleftrightarrow> (0x41 \<le> c \<and> c \<le> 0x5A) \<or> (0x61 \<le> c \<and> c \<le> 0x7A)"

definition is_ascii_digit :: "uchar \<Rightarrow> bool" where
  "is_ascii_digit c \<longleftrightarrow> 0x30 \<le> c \<and> c \<le> 0x39"

definition ascii_lower :: "uchar \<Rightarrow> uchar" where
  "ascii_lower c = (if 0x41 \<le> c \<and> c \<le> 0x5A then c + 0x20 else c)"

definition to_ascii_lowercase :: "str \<Rightarrow> str" where
  "to_ascii_lowercase s = map ascii_lower s"

section \<open>Searching\<close>

definition starts_with :: "str \<Rightarrow> str \<Rightarrow> bool" where
  "starts_with s p \<longleftrightarrow> take (length p) s = p"

definition ends_with :: "str \<Rightarrow> str \<Rightarrow> bool" where
  "ends_with s p \<longleftrightarrow> starts_with (rev s) (rev p)"

definition strip_prefix :: "str \<Rightarrow> str \<Rightarrow> str option" where
  "strip_prefix s p = (if starts_with s p then Some (drop (length p) s) else None)"

fun contains :: "str \<Rightarrow> str \<Rightarrow> bool" where
  "contains [] p = (p = [])"
| "contains (c # s) p = (starts_with (c # s) p \<or> contains s p)"

text \<open>\<open>str::find\<close>: the position of the first occurrence, counted in characters.\<close>

fun find_sub :: "str \<Rightarrow> str \<Rightarrow> nat option" where
  "find_sub [] p = (if p = [] then Some 0 else None)"
| "find_sub (c # s) p = (if starts_with (c # s) p then Some 0 else map_option Suc (find_sub s p))"

section \<open>Whitespace\<close>

definition trim_start :: "str \<Rightarrow> str" where
  "trim_start s = dropWhile is_whitespace s"

definition trim :: "str \<Rightarrow> str" where
  "trim s = rev (trim_start (rev (trim_start s)))"

text \<open>\<open>split(pred)\<close>: the pieces between the characters that satisfy the predicate.\<close>

fun split_on :: "(uchar \<Rightarrow> bool) \<Rightarrow> str \<Rightarrow> str list" where
  "split_on P [] = [[]]"
| "split_on P (c # s) =
     (if P c then [] # split_on P s
      else case split_on P s of [] \<Rightarrow> [[c]] | w # ws \<Rightarrow> (c # w) # ws)"

text \<open>\<open>split_whitespace\<close>: the pieces between whitespace characters that are not empty.\<close>

definition split_whitespace :: "str \<Rightarrow> str list" where
  "split_whitespace s = filter (\<lambda>w. w \<noteq> []) (split_on is_whitespace s)"

fun join :: "str \<Rightarrow> str list \<Rightarrow> str" where
  "join sep [] = []"
| "join sep [w] = w"
| "join sep (w # ws) = w @ sep @ join sep ws"

lemma split_on_not_Nil [simp]: "split_on P s \<noteq> []"
  by (induction s) (auto split: list.splits)

lemma split_on_pieces: "w \<in> set (split_on P s) \<Longrightarrow> c \<in> set w \<Longrightarrow> \<not> P c"
proof (induction s arbitrary: w c)
  case Nil
  then show ?case by simp
next
  case (Cons x s)
  obtain v vs where split: "split_on P s = v # vs" using split_on_not_Nil by (cases "split_on P s") auto
  then have "\<not> P c" if "c \<in> set v" for c using Cons.IH [of v c] that by simp
  then show ?case using Cons split by (auto split: if_splits)
qed

lemma split_on_word: "\<forall>c \<in> set w. \<not> P c \<Longrightarrow> split_on P w = [w]"
  by (induction w) auto

lemma split_on_append_sep:
  "\<forall>c \<in> set w. \<not> P c \<Longrightarrow> P x \<Longrightarrow> split_on P (w @ x # s) = w # split_on P s"
  by (induction w) auto

lemma split_whitespace_words:
  "w \<in> set (split_whitespace s) \<Longrightarrow> w \<noteq> [] \<and> (\<forall>c \<in> set w. \<not> is_whitespace c)"
  by (auto simp: split_whitespace_def dest: split_on_pieces)

lemma split_whitespace_join:
  assumes "\<forall>w \<in> set ws. w \<noteq> [] \<and> (\<forall>c \<in> set w. \<not> is_whitespace c)"
  shows "split_whitespace (join [0x20] ws) = ws"
  using assms
proof (induction "[0x20 :: nat]" ws rule: join.induct)
  case 1
  show ?case by (simp add: split_whitespace_def)
next
  case (2 w)
  then show ?case by (simp add: split_whitespace_def split_on_word)
next
  case (3 w v ws)
  have "split_on is_whitespace (w @ 0x20 # join [0x20] (v # ws)) =
      w # split_on is_whitespace (join [0x20] (v # ws))"
    using "3.prems" by (intro split_on_append_sep) (simp_all add: is_whitespace_def)
  with 3 show ?case by (simp add: split_whitespace_def)
qed

end
