(* ===== verification/Memd_Types.thy ===== *)
theory Memd_Types
  imports Memd_Text
begin

text \<open>
  The domain types of \<open>types.rs\<close>: identifiers with their validation, chunk types and
  statuses with their textual forms, the memory chunk, and the lifecycle overlay with its
  delta and visibility rules; and the metadata row of \<open>store/metadata/mod.rs\<close>.
\<close>

section \<open>Identifiers\<close>

definition ascii_alnum :: "char \<Rightarrow> bool" where
  "ascii_alnum c \<longleftrightarrow>
     (let n = (of_char c :: nat) in
      (48 \<le> n \<and> n \<le> 57) \<or> (65 \<le> n \<and> n \<le> 90) \<or> (97 \<le> n \<and> n \<le> 122))"

definition tenant_validate :: "string \<Rightarrow> memd_error + unit" where
  "tenant_validate tid =
     (if tid = [] then Inl (ValidationError ''tenant_id cannot be empty'')
      else if \<not> list_all (\<lambda>c. ascii_alnum c \<or> c = CHR ''_'') tid
      then Inl (ValidationError ''tenant_id contains invalid characters'')
      else Inr ())"

definition tenant_new :: "string \<Rightarrow> memd_error + string" where
  "tenant_new tid = (case tenant_validate tid of Inl e \<Rightarrow> Inl e | Inr _ \<Rightarrow> Inr tid)"

fun has_substring :: "string \<Rightarrow> string \<Rightarrow> bool" where
  "has_substring p [] = (p = [])"
| "has_substring p (c # s) = (take (length p) (c # s) = p \<or> has_substring p s)"

definition project_validate :: "string \<Rightarrow> memd_error + unit" where
  "project_validate pid =
     (if pid = [] then Inr ()
      else if has_substring ''..'' pid then Inl (ValidationError ''project_id must not contain '')
      else if \<not> list_all (\<lambda>c. ascii_alnum c \<or> c \<in> {CHR ''_'', CHR ''-'', CHR ''.''}) pid
      then Inl (ValidationError ''project_id contains invalid characters'')
      else Inr ())"

definition project_validate_opt :: "string option \<Rightarrow> memd_error + unit" where
  "project_validate_opt pid = (case pid of Some p \<Rightarrow> project_validate p | None \<Rightarrow> Inr ())"

section \<open>Chunk types and statuses\<close>

datatype chunk_type =
  Code | Doc | Trace | Decision | Plan | Research | Message | Summary | OtherType

fun chunk_type_str :: "chunk_type \<Rightarrow> string" where
  "chunk_type_str Code = ''code''"
| "chunk_type_str Doc = ''doc''"
| "chunk_type_str Trace = ''trace''"
| "chunk_type_str Decision = ''decision''"
| "chunk_type_str Plan = ''plan''"
| "chunk_type_str Research = ''research''"
| "chunk_type_str Message = ''message''"
| "chunk_type_str Summary = ''summary''"
| "chunk_type_str OtherType = ''other''"

definition chunk_type_from_str :: "string \<Rightarrow> memd_error + chunk_type" where
  "chunk_type_from_str s =
     (if s = ''code'' then Inr Code
      else if s = ''doc'' then Inr Doc
      else if s = ''trace'' then Inr Trace
      else if s = ''decision'' then Inr Decision
      else if s = ''plan'' then Inr Plan
      else if s = ''research'' then Inr Research
      else if s = ''message'' then Inr Message
      else if s = ''summary'' then Inr Summary
      else if s = ''other'' then Inr OtherType
      else Inl (ValidationError ''unknown chunk_type''))"

datatype chunk_status = Draft | Candidate | Final | ErrorStatus | Deleted | Superseded | Expired

fun chunk_status_str :: "chunk_status \<Rightarrow> string" where
  "chunk_status_str Draft = ''draft''"
| "chunk_status_str Candidate = ''candidate''"
| "chunk_status_str Final = ''final''"
| "chunk_status_str ErrorStatus = ''error''"
| "chunk_status_str Deleted = ''deleted''"
| "chunk_status_str Superseded = ''superseded''"
| "chunk_status_str Expired = ''expired''"

definition chunk_status_from_str :: "string \<Rightarrow> memd_error + chunk_status" where
  "chunk_status_from_str s =
     (if s = ''draft'' then Inr Draft
      else if s = ''candidate'' then Inr Candidate
      else if s = ''final'' then Inr Final
      else if s = ''error'' then Inr ErrorStatus
      else if s = ''deleted'' then Inr Deleted
      else if s = ''superseded'' then Inr Superseded
      else if s = ''expired'' then Inr Expired
      else Inl (ValidationError ''unknown status''))"

datatype promotion_state = Raw | Summarized | Canonical | Verified

fun promotion_state_str :: "promotion_state \<Rightarrow> string" where
  "promotion_state_str Raw = ''raw''"
| "promotion_state_str Summarized = ''summarized''"
| "promotion_state_str Canonical = ''canonical''"
| "promotion_state_str Verified = ''verified''"

datatype ingestion_mode = Conversation | Document

fun ingestion_mode_str :: "ingestion_mode \<Rightarrow> string" where
  "ingestion_mode_str Conversation = ''conversation''"
| "ingestion_mode_str Document = ''document''"

definition ingestion_mode_from_str :: "string \<Rightarrow> memd_error + ingestion_mode" where
  "ingestion_mode_from_str s =
     (if s = ''conversation'' then Inr Conversation
      else if s = ''document'' then Inr Document
      else Inl (ValidationError ''unknown ingestion mode''))"

datatype memory_tier = Working | LongTerm | History

fun memory_tier_str :: "memory_tier \<Rightarrow> string" where
  "memory_tier_str Working = ''working''"
| "memory_tier_str LongTerm = ''long_term''"
| "memory_tier_str History = ''history''"

definition memory_tier_from_str :: "string \<Rightarrow> memd_error + memory_tier" where
  "memory_tier_from_str s =
     (if s = ''working'' then Inr Working
      else if s = ''long_term'' then Inr LongTerm
      else if s = ''history'' then Inr History
      else Inl (ValidationError ''unknown tier''))"

section \<open>Chunks\<close>

record source =
  uri :: "str option"
  repo :: "str option"
  commit_hash :: "str option"
  src_path :: "str option"
  tool_name :: "str option"
  tool_call_id :: "str option"

record memory_chunk =
  mc_chunk_id :: string
  mc_tenant_id :: string
  mc_project_id :: "string option"
  mc_agent_id :: "str option"
  mc_timestamp_created :: i64
  mc_timestamp_observed :: "i64 option"
  mc_chunk_type :: chunk_type
  mc_status :: chunk_status
  mc_promotion_state :: promotion_state
  mc_source :: source
  mc_text :: str
  mc_tags :: "str list"
  mc_hash :: string
  mc_ingestion_mode :: ingestion_mode

section \<open>Lifecycle\<close>

record lifecycle_metadata =
  tier :: memory_tier
  supersedes :: "string option"
  superseded_by :: "string option"
  expires_at_ms :: "i64 option"
  review_after_ms :: "i64 option"
  lifecycle_updated_at_ms :: i64

definition default_lifecycle :: lifecycle_metadata where
  "default_lifecycle =
     \<lparr>tier = LongTerm, supersedes = None, superseded_by = None, expires_at_ms = None,
      review_after_ms = None, lifecycle_updated_at_ms = 0\<rparr>"

record lifecycle_delta =
  d_status :: "chunk_status option"
  d_tier :: "memory_tier option"
  d_supersedes :: "string option"
  d_superseded_by :: "string option"
  d_expires_at_ms :: "i64 option option"
  d_review_after_ms :: "i64 option option"
  d_lifecycle_updated_at_ms :: "i64 option"

definition delta_is_empty :: "lifecycle_delta \<Rightarrow> bool" where
  "delta_is_empty d \<longleftrightarrow>
     d_status d = None \<and> d_tier d = None \<and> d_supersedes d = None \<and> d_superseded_by d = None
     \<and> d_expires_at_ms d = None \<and> d_review_after_ms d = None \<and> d_lifecycle_updated_at_ms d = None"

definition lifecycle_apply :: "lifecycle_metadata \<Rightarrow> lifecycle_delta \<Rightarrow> lifecycle_metadata" where
  "lifecycle_apply l d =
     \<lparr>tier = (case d_tier d of Some t \<Rightarrow> t | None \<Rightarrow> tier l),
      supersedes = (case d_supersedes d of Some s \<Rightarrow> Some s | None \<Rightarrow> supersedes l),
      superseded_by = (case d_superseded_by d of Some s \<Rightarrow> Some s | None \<Rightarrow> superseded_by l),
      expires_at_ms = (case d_expires_at_ms d of Some e \<Rightarrow> e | None \<Rightarrow> expires_at_ms l),
      review_after_ms = (case d_review_after_ms d of Some r \<Rightarrow> r | None \<Rightarrow> review_after_ms l),
      lifecycle_updated_at_ms =
        (case d_lifecycle_updated_at_ms d of Some t \<Rightarrow> t | None \<Rightarrow> lifecycle_updated_at_ms l)\<rparr>"

record visibility_policy =
  include_superseded :: bool
  include_expired :: bool
  include_history :: bool

definition is_visible :: "visibility_policy \<Rightarrow> chunk_status \<Rightarrow> memory_tier \<Rightarrow> bool" where
  "is_visible p st t =
     (if st = Candidate \<or> st = Deleted \<or> st = ErrorStatus then False
      else if st = Superseded \<and> \<not> include_superseded p then False
      else if st = Expired \<and> \<not> include_expired p then False
      else \<not> (t = History \<and> \<not> include_history p))"

definition is_visible_at :: "visibility_policy \<Rightarrow> chunk_status \<Rightarrow> lifecycle_metadata \<Rightarrow> i64 \<Rightarrow> bool" where
  "is_visible_at p st l now_ms =
     (if \<not> is_visible p st (tier l) then False
      else if \<not> include_expired p
              \<and> (case expires_at_ms l of Some e \<Rightarrow> sint e \<le> sint now_ms | None \<Rightarrow> False)
      then False
      else True)"

record chunk_metadata =
  m_chunk_id :: string
  m_tenant_id :: string
  m_project_id :: "string option"
  m_segment_id :: nat
  m_ordinal :: u32
  m_chunk_type :: chunk_type
  m_status :: chunk_status
  m_timestamp_created :: i64
  m_hash :: string
  m_source_uri :: "str option"
  m_lifecycle :: lifecycle_metadata
  m_canonical_text :: "str option"
  m_ingestion_mode :: ingestion_mode

section \<open>Properties\<close>

text \<open>
  A validated tenant identifier is a safe directory name: it is not empty, contains no
  path separator, no dot and no NUL, so joining it to the data directory cannot leave it.
\<close>

lemma tenant_id_safe_path:
  assumes "tenant_new tid = Inr t"
  shows "t = tid \<and> t \<noteq> [] \<and> CHR ''/'' \<notin> set t \<and> CHR 0x5C \<notin> set t \<and> CHR ''.'' \<notin> set t \<and> CHR 0x00 \<notin> set t"
proof -
  have "t = tid" "t \<noteq> []" "\<forall>c \<in> set t. ascii_alnum c \<or> c = CHR ''_''"
    using assms by (auto simp: tenant_new_def tenant_validate_def list_all_iff split: if_splits sum.splits)
  moreover have "\<not> (ascii_alnum c \<or> c = CHR ''_'')"
    if "c \<in> {CHR ''/'', CHR 0x5C, CHR ''.'', CHR 0x00}" for c
    using that by (auto simp: ascii_alnum_def)
  ultimately show ?thesis by blast
qed

lemma tenant_id_safe_path_witness:
  "''acme_1'' = ''acme_1'' \<and> ''acme_1'' \<noteq> [] \<and> CHR ''/'' \<notin> set ''acme_1'' \<and> CHR 0x5C \<notin> set ''acme_1''
     \<and> CHR ''.'' \<notin> set ''acme_1'' \<and> CHR 0x00 \<notin> set ''acme_1''"
  by (rule tenant_id_safe_path) (simp add: tenant_new_def tenant_validate_def ascii_alnum_def)

lemma chunk_type_form: "chunk_type_from_str s = Inr ty \<longleftrightarrow> s = chunk_type_str ty"
  by (cases ty) (simp_all add: chunk_type_from_str_def)

lemma chunk_status_form: "chunk_status_from_str s = Inr st \<longleftrightarrow> s = chunk_status_str st"
  by (cases st) (simp_all add: chunk_status_from_str_def)

lemma memory_tier_form: "memory_tier_from_str s = Inr t \<longleftrightarrow> s = memory_tier_str t"
  by (cases t) (simp_all add: memory_tier_from_str_def)

lemma ingestion_mode_form: "ingestion_mode_from_str s = Inr m \<longleftrightarrow> s = ingestion_mode_str m"
  by (cases m) (simp_all add: ingestion_mode_from_str_def)

text \<open>
  The textual forms stored in the database identify their values: every chunk type,
  status, tier and ingestion mode is read back from the string it is printed as, and only
  from that string.
\<close>

lemma stored_forms_roundtrip:
  "(chunk_type_from_str s = Inr ty \<longleftrightarrow> s = chunk_type_str ty)
   \<and> (chunk_status_from_str s = Inr st \<longleftrightarrow> s = chunk_status_str st)
   \<and> (memory_tier_from_str s = Inr t \<longleftrightarrow> s = memory_tier_str t)
   \<and> (ingestion_mode_from_str s = Inr m \<longleftrightarrow> s = ingestion_mode_str m)"
  by (simp only: chunk_type_form chunk_status_form memory_tier_form ingestion_mode_form simp_thms)

text \<open>
  Visibility is monotone in the policy and respects the clock: a chunk visible under
  one policy stays visible under any policy that includes at least as much, a chunk visible
  at a time was visible at every earlier time, and candidates, deleted and error chunks are
  visible under no policy.
\<close>

lemma visibility_monotone:
  assumes "include_superseded p \<longrightarrow> include_superseded q"
    and "include_expired p \<longrightarrow> include_expired q" and "include_history p \<longrightarrow> include_history q"
    and "is_visible_at p st l now" and "sint earlier \<le> sint now"
  shows "is_visible_at q st l earlier \<and> st \<notin> {Candidate, Deleted, ErrorStatus}"
  using assms by (auto simp: is_visible_at_def is_visible_def split: if_splits option.splits)

lemma visibility_monotone_witness:
  "is_visible_at \<lparr>include_superseded = True, include_expired = True, include_history = False\<rparr>
     Final (default_lifecycle\<lparr>expires_at_ms := Some 500\<rparr>) 10
   \<and> Final \<notin> {Candidate, Deleted, ErrorStatus}"
  by (rule visibility_monotone [where now = 100 and
        p = "\<lparr>include_superseded = False, include_expired = False, include_history = False\<rparr>"])
    (simp_all add: is_visible_at_def is_visible_def default_lifecycle_def)

text \<open>
  Deltas compose: applying the empty delta changes nothing, and a field a delta sets
  has the delta's value afterwards while a field it leaves out keeps its old one.
\<close>

lemma lifecycle_apply_spec:
  "(delta_is_empty d \<longrightarrow> lifecycle_apply l d = l)
   \<and> tier (lifecycle_apply l d) = (case d_tier d of None \<Rightarrow> tier l | Some t \<Rightarrow> t)
   \<and> expires_at_ms (lifecycle_apply l d) = (case d_expires_at_ms d of None \<Rightarrow> expires_at_ms l | Some e \<Rightarrow> e)
   \<and> lifecycle_apply (lifecycle_apply l d) d = lifecycle_apply l d"
  by (cases l) (auto simp: lifecycle_apply_def delta_is_empty_def split: option.split)

lemma lifecycle_apply_spec_witness:
  "(delta_is_empty \<lparr>d_status = None, d_tier = None, d_supersedes = None, d_superseded_by = None,
      d_expires_at_ms = None, d_review_after_ms = None, d_lifecycle_updated_at_ms = None\<rparr>)
   \<and> lifecycle_apply default_lifecycle \<lparr>d_status = None, d_tier = None, d_supersedes = None,
      d_superseded_by = None, d_expires_at_ms = None, d_review_after_ms = None,
      d_lifecycle_updated_at_ms = None\<rparr> = default_lifecycle"
  using lifecycle_apply_spec [of "\<lparr>d_status = None, d_tier = None, d_supersedes = None,
      d_superseded_by = None, d_expires_at_ms = None, d_review_after_ms = None,
      d_lifecycle_updated_at_ms = None\<rparr>" default_lifecycle]
  by (simp add: delta_is_empty_def)

end
