(* ===== verification/Supersession.thy ===== *)
theory Supersession
  imports Memd_Types Complex_Main
begin

text \<open>
  Content identity (\<open>store/supersession.rs\<close>): the canonical form of a chunk's text and the
  trigram similarity used to find near duplicates. Two things are parameters: the Unicode
  lower-casing of \<open>str::to_lowercase\<close> (its tables are Unicode data), and \<open>rnd\<close>, the
  rounding of an exact real number to the nearest \<open>f32\<close>, applied after every float
  operation as IEEE 754 prescribes.
\<close>

section \<open>Canonical text\<close>

definition canonicalize_text :: "(str \<Rightarrow> str) \<Rightarrow> str \<Rightarrow> str" where
  "canonicalize_text lower s = join [0x20] (split_whitespace (lower s))"

definition canonicalize_for_type :: "(str \<Rightarrow> str) \<Rightarrow> str \<Rightarrow> chunk_type \<Rightarrow> str" where
  "canonicalize_for_type lower s kind =
     (case kind of Code \<Rightarrow> join [0x20] (split_whitespace s) | _ \<Rightarrow> canonicalize_text lower s)"

section \<open>Trigrams\<close>

fun windows3 :: "str \<Rightarrow> (uchar \<times> uchar \<times> uchar) list" where
  "windows3 (a # b # c # s) = (a, b, c) # windows3 (b # c # s)"
| "windows3 _ = []"

definition trigram_set :: "(str \<Rightarrow> str) \<Rightarrow> str \<Rightarrow> (uchar \<times> uchar \<times> uchar) set" where
  "trigram_set lower s =
     (if lower s = [] then {} else set (windows3 ([0x20, 0x20] @ lower s @ [0x20])))"

definition jaccard_trigram :: "(real \<Rightarrow> real) \<Rightarrow> (str \<Rightarrow> str) \<Rightarrow> str \<Rightarrow> str \<Rightarrow> real" where
  "jaccard_trigram rnd lower a b =
     (let ta = trigram_set lower a; tb = trigram_set lower b in
      if ta = {} \<and> tb = {} then 1
      else let i = rnd (real (card (ta \<inter> tb))); u = rnd (real (card (ta \<union> tb))) in
           if u = 0 then 0 else rnd (i / u))"

definition is_near_duplicate :: "(real \<Rightarrow> real) \<Rightarrow> (str \<Rightarrow> str) \<Rightarrow> str \<Rightarrow> str \<Rightarrow> real \<Rightarrow> bool" where
  "is_near_duplicate rnd lower a b threshold \<longleftrightarrow> threshold \<le> jaccard_trigram rnd lower a b"

section \<open>What rounding to a float guarantees\<close>

locale f32_rounding =
  fixes rnd :: "real \<Rightarrow> real"
  assumes rnd_mono: "x \<le> y \<Longrightarrow> rnd x \<le> rnd y"
    and rnd_0: "rnd 0 = 0" and rnd_1: "rnd 1 = 1"
begin

lemma rnd_nonneg: "0 \<le> x \<Longrightarrow> 0 \<le> rnd x"
  using rnd_mono [of 0 x] by (simp add: rnd_0)

lemma rnd_count_ge_1: "0 < n \<Longrightarrow> 1 \<le> rnd (real n)"
  using rnd_mono [of 1 "real n"] by (simp add: rnd_1)

lemma rnd_unit: "0 \<le> x \<Longrightarrow> x \<le> 1 \<Longrightarrow> 0 \<le> rnd x \<and> rnd x \<le> 1"
  using rnd_mono [of x 1] by (simp add: rnd_nonneg rnd_1)

lemma rnd_ratio_unit:
  assumes "i \<le> u" and "0 < u"
  shows "0 \<le> rnd (rnd (real i) / rnd (real u)) \<and> rnd (rnd (real i) / rnd (real u)) \<le> 1"
proof -
  have pos: "1 \<le> rnd (real u)" using assms(2) by (rule rnd_count_ge_1)
  have "rnd (real i) \<le> rnd (real u)" using assms(1) by (intro rnd_mono) simp
  with pos have "0 \<le> rnd (real i) / rnd (real u)" "rnd (real i) / rnd (real u) \<le> 1"
    by (simp_all add: rnd_nonneg)
  then show ?thesis by (rule rnd_unit)
qed

lemma jaccard_bounds: "0 \<le> jaccard_trigram rnd lower a b \<and> jaccard_trigram rnd lower a b \<le> 1"
proof -
  let ?ta = "trigram_set lower a" and ?tb = "trigram_set lower b"
  have fin: "finite ?ta" "finite ?tb" by (simp_all add: trigram_set_def)
  show ?thesis
  proof (cases "?ta = {} \<and> ?tb = {}")
    case True
    then show ?thesis by (simp add: jaccard_trigram_def)
  next
    case False
    then have "0 < card (?ta \<union> ?tb)" using fin by (auto simp: card_gt_0_iff)
    moreover have "card (?ta \<inter> ?tb) \<le> card (?ta \<union> ?tb)" using fin by (intro card_mono) auto
    ultimately have "0 \<le> rnd (rnd (real (card (?ta \<inter> ?tb))) / rnd (real (card (?ta \<union> ?tb))))
        \<and> rnd (rnd (real (card (?ta \<inter> ?tb))) / rnd (real (card (?ta \<union> ?tb)))) \<le> 1"
      by (intro rnd_ratio_unit)
    with False show ?thesis by (simp add: jaccard_trigram_def Let_def)
  qed
qed

lemma jaccard_same:
  assumes "lower a = lower b"
  shows "jaccard_trigram rnd lower a b = 1"
proof -
  have same: "trigram_set lower a = trigram_set lower b" using assms by (simp add: trigram_set_def)
  have "finite (trigram_set lower b)" by (simp add: trigram_set_def)
  then have "1 \<le> rnd (real (card (trigram_set lower b)))" if "trigram_set lower b \<noteq> {}"
    using that by (intro rnd_count_ge_1) (simp add: card_gt_0_iff)
  then show ?thesis unfolding jaccard_trigram_def Let_def same
    by (cases "trigram_set lower b = {}") (simp_all add: rnd_1)
qed

end

text \<open>The exact reals (no rounding) are one such rounding.\<close>

interpretation exact: f32_rounding "\<lambda>x. x"
  by unfold_locales simp_all

text \<open>Rounding to the nearest multiple of \<open>2 ^ -23\<close>, the spacing of floats in [1, 2).\<close>

definition round_ulp :: "real \<Rightarrow> real" where
  "round_ulp x = of_int (round (x * 2 ^ 23)) / 2 ^ 23"

interpretation ulp: f32_rounding round_ulp
proof
  show "round_ulp x \<le> round_ulp y" if "x \<le> y" for x y
    using that by (simp add: round_ulp_def round_mono divide_right_mono)
  show "round_ulp 0 = 0" by (simp add: round_ulp_def)
  show "round_ulp 1 = 1" unfolding round_ulp_def
    by (metis divide_self_if mult_1 of_int_numeral of_int_power power_eq_0_iff round_of_int zero_neq_numeral)
qed

section \<open>Properties\<close>

lemma join_split_idem:
  "join [0x20] (split_whitespace (join [0x20] (split_whitespace s))) = join [0x20] (split_whitespace s)"
  by (subst split_whitespace_join) (auto dest: split_whitespace_words)

lemma set_split_on: "w \<in> set (split_on P s) \<Longrightarrow> set w \<subseteq> set s"
proof (induction s arbitrary: w)
  case Nil
  then show ?case by simp
next
  case (Cons x s)
  obtain v vs where split: "split_on P s = v # vs" using split_on_not_Nil by (cases "split_on P s") auto
  with Cons.IH [of v] Cons.IH [of w] Cons.prems show ?case by (auto split: if_splits)
qed

lemma set_join: "set (join sep ws) \<subseteq> set sep \<union> (\<Union>w \<in> set ws. set w)"
  by (induction sep ws rule: join.induct) auto

lemma set_canonical_words: "set (join [0x20] (split_whitespace s)) \<subseteq> insert 0x20 (set s)"
  using set_join [of "[0x20]" "split_whitespace s"]
  by (auto simp: split_whitespace_def dest: set_split_on)

lemma ascii_lower_respaced:
  "to_ascii_lowercase (join [0x20] (split_whitespace (to_ascii_lowercase s)))
     = join [0x20] (split_whitespace (to_ascii_lowercase s))"
proof -
  have "ascii_lower c = c" if "c \<in> set (join [0x20] (split_whitespace (to_ascii_lowercase s)))" for c
    using that set_canonical_words [of "to_ascii_lowercase s"]
    by (auto simp: to_ascii_lowercase_def ascii_lower_def split: if_splits)
  then show ?thesis unfolding to_ascii_lowercase_def by (rule map_idI)
qed

text \<open>
  The canonical form is canonical: canonicalizing twice is canonicalizing once, for code
  (case kept) and, when lower-casing does not change text that is already lower-cased
  and re-spaced, for every other chunk type; and the form of code has single spaces only.
\<close>

lemma canonicalize_idempotent:
  assumes "\<And>s. lower (join [0x20] (split_whitespace (lower s))) = join [0x20] (split_whitespace (lower s))"
  shows "canonicalize_for_type lower (canonicalize_for_type lower s kind) kind
           = canonicalize_for_type lower s kind
       \<and> split_whitespace (canonicalize_for_type lower s Code) = split_whitespace s"
proof -
  have "canonicalize_text lower (canonicalize_text lower s) = canonicalize_text lower s"
    by (simp add: canonicalize_text_def assms join_split_idem)
  moreover have "split_whitespace (join [0x20] (split_whitespace s)) = split_whitespace s"
    by (rule split_whitespace_join) (auto dest: split_whitespace_words)
  ultimately show ?thesis
    by (simp add: canonicalize_for_type_def join_split_idem split: chunk_type.split)
qed


lemma canonicalize_idempotent_witness:
  "canonicalize_for_type to_ascii_lowercase
      (canonicalize_for_type to_ascii_lowercase (lit ''  Hello   World '') Doc) Doc
     = canonicalize_for_type to_ascii_lowercase (lit ''  Hello   World '') Doc
   \<and> split_whitespace (canonicalize_for_type to_ascii_lowercase (lit ''  Hello   World '') Code)
     = split_whitespace (lit ''  Hello   World '')"
  by (rule canonicalize_idempotent) (rule ascii_lower_respaced)

text \<open>
  The similarity score is a similarity: with any monotone rounding that keeps 0 and 1 it
  lies between 0 and 1, is symmetric, is 1 for texts that lower-case to the same string
  (the empty text included), and is 0 for texts that share no trigram unless both are empty.
\<close>

lemma jaccard_is_similarity:
  assumes "\<And>x y. x \<le> y \<Longrightarrow> rnd x \<le> rnd y" and "rnd 0 = 0" and "rnd 1 = 1"
  shows "0 \<le> jaccard_trigram rnd lower a b \<and> jaccard_trigram rnd lower a b \<le> 1
       \<and> jaccard_trigram rnd lower a b = jaccard_trigram rnd lower b a
       \<and> (lower a = lower b \<longrightarrow> jaccard_trigram rnd lower a b = 1)
       \<and> (lower a \<noteq> [] \<and> trigram_set lower a \<inter> trigram_set lower b = {}
            \<longrightarrow> jaccard_trigram rnd lower a b = 0)"
proof -
  have r: "f32_rounding rnd" using assms by unfold_locales
  have "jaccard_trigram rnd lower a b = jaccard_trigram rnd lower b a"
    by (simp add: jaccard_trigram_def Let_def Int_commute Un_commute conj_commute)
  moreover have "trigram_set lower a \<noteq> {}" if "lower a \<noteq> []"
    using that by (cases "lower a") (simp_all add: trigram_set_def)
  then have "jaccard_trigram rnd lower a b = 0"
    if "lower a \<noteq> []" "trigram_set lower a \<inter> trigram_set lower b = {}"
    using that by (simp add: jaccard_trigram_def Let_def assms(2))
  ultimately show ?thesis
    using f32_rounding.jaccard_bounds [OF r] f32_rounding.jaccard_same [OF r] by blast
qed

lemma jaccard_is_similarity_witness:
  "jaccard_trigram round_ulp to_ascii_lowercase (lit ''a'') (lit ''b'') = 0"
proof -
  have "trigram_set to_ascii_lowercase (lit ''a'') \<inter> trigram_set to_ascii_lowercase (lit ''b'') = {}"
    by (simp add: trigram_set_def to_ascii_lowercase_def ascii_lower_def)
  moreover have "to_ascii_lowercase (lit ''a'') \<noteq> []" by (simp add: to_ascii_lowercase_def)
  ultimately show ?thesis
    using jaccard_is_similarity [of round_ulp to_ascii_lowercase "lit ''a''" "lit ''b''"]
      ulp.rnd_mono ulp.rnd_0 ulp.rnd_1 by blast
qed

end
