(* ===== verification/Tenant_Store.thy ===== *)
theory Tenant_Store
  imports Wal Segment Supersession "HOL-Library.AList"
begin

text \<open>
  The persistent store of one tenant: the metadata table (\<open>store/metadata/sqlite/chunks.rs\<close>,
  the statements the write and recovery paths issue), segment rotation and finalization, WAL
  recovery (\<open>store/persistent/recovery.rs\<close>), and the add, delete and get paths
  (\<open>store/persistent/write.rs\<close>, \<open>retrieval.rs\<close>, \<open>read.rs\<close>).

  The state separates what is on disk (table rows, log file, segment directories) from what
  lives in the process (active writer, open readers, counters), so that a crash is the
  function that keeps the first and forgets the second. Input and output errors of the
  operating system are not modelled; every error the code derives from data is.

  External functions are fields of \<open>store_ext\<close>: the log and segment parameters, the JSON
  codec of a chunk (\<open>serde_json\<close>), the acceptance of a task-artifact payload, the UUID
  parser (\<open>uuid\<close>) and Unicode lower-casing.
\<close>

section \<open>External functions, configuration, state\<close>

record 'b store_ext =
  wal_x :: wal_ext
  seg_x :: "'b seg_ext"
  chunk_ser :: "memory_chunk \<Rightarrow> bytes"
  chunk_de :: "bytes \<Rightarrow> memory_chunk option"
  artifact_de_ok :: "bytes \<Rightarrow> bool"
  uuid_parse :: "string \<Rightarrow> string option"
  to_lowercase :: "str \<Rightarrow> str"

record tenant_config =
  cfg_tenant_id :: string
  read_only :: bool
  segment_max_chunks :: nat
  min_finalize_chunks :: nat
  wal_checkpoint_interval :: nat

type_synonym dirs = "(nat \<times> seg_dir) list"

record 'b tenant_store =
  db :: "chunk_metadata list"
  artifact_rows :: "bytes list"
  wal :: wal_writer
  seg_dirs :: dirs
  active_segment :: "(seg_writer \<times> nat) option"
  segments :: "(nat \<times> 'b seg_reader) list"
  writes_since_checkpoint :: nat

section \<open>The metadata table\<close>

definition is_live :: "string \<Rightarrow> string \<Rightarrow> chunk_metadata \<Rightarrow> bool" where
  "is_live tid cid m \<longleftrightarrow> m_tenant_id m = tid \<and> m_chunk_id m = cid \<and> m_status m \<noteq> Deleted"

definition meta_get :: "chunk_metadata list \<Rightarrow> string \<Rightarrow> string \<Rightarrow> chunk_metadata option" where
  "meta_get rows tid cid = find (is_live tid cid) rows"

text \<open>
  \<open>INSERT OR REPLACE\<close>: rows that violate the primary key or the unique constraint on
  tenant, segment and ordinal are removed first.
\<close>

definition conflicts :: "chunk_metadata \<Rightarrow> chunk_metadata \<Rightarrow> bool" where
  "conflicts row m \<longleftrightarrow>
     m_chunk_id m = m_chunk_id row
     \<or> (m_tenant_id m = m_tenant_id row \<and> m_segment_id m = m_segment_id row
        \<and> m_ordinal m = m_ordinal row)"

definition meta_insert :: "chunk_metadata \<Rightarrow> chunk_metadata list \<Rightarrow> chunk_metadata list" where
  "meta_insert row rows = filter (\<lambda>m. \<not> conflicts row m) rows @ [row]"

definition meta_insert_many :: "chunk_metadata list \<Rightarrow> chunk_metadata list \<Rightarrow> chunk_metadata list" where
  "meta_insert_many new rows = fold meta_insert new rows"

definition meta_mark_deleted :: "string \<Rightarrow> string \<Rightarrow> chunk_metadata list \<Rightarrow> chunk_metadata list" where
  "meta_mark_deleted tid cid rows =
     map (\<lambda>m. if is_live tid cid m then m\<lparr>m_status := Deleted\<rparr> else m) rows"

section \<open>Segments of a tenant\<close>

text \<open>
  One past the largest segment id found among the open readers and the directories on disk,
  finalized or not; 1 when there is none.
\<close>

definition next_segment_id :: "'b tenant_store \<Rightarrow> nat" where
  "next_segment_id st =
     (let ids = map fst (segments st) @ map fst (seg_dirs st)
      in if ids = [] then 1 else Max (set ids) + 1)"

text \<open>Finalizing a writer: the directory becomes the finalized one and is opened as a reader.\<close>

definition seal :: "'b store_ext \<Rightarrow> seg_writer \<Rightarrow> 'b tenant_store \<Rightarrow> memd_error + 'b tenant_store" where
  "seal E w st =
     (let d = snd (finalize (seg_x E) w);
          st' = st\<lparr>active_segment := None, seg_dirs := AList.update (w_id w) d (seg_dirs st)\<rparr>
      in case reader_open (seg_x E) (dir_name (w_id w)) d of
           Inl e \<Rightarrow> Inl (IoError e)
         | Inr r \<Rightarrow> Inr (st'\<lparr>segments := AList.update (w_id w) r (segments st')\<rparr>))"

definition create_active :: "i64 \<Rightarrow> 'b tenant_store \<Rightarrow> 'b tenant_store" where
  "create_active now st =
     (let sid = next_segment_id st;
          w = segment_create (map_of (seg_dirs st) sid) sid now
      in st\<lparr>active_segment := Some (w, 0), seg_dirs := AList.update sid (w_dir w) (seg_dirs st)\<rparr>)"

definition get_or_create_active_segment ::
  "'b store_ext \<Rightarrow> tenant_config \<Rightarrow> i64 \<Rightarrow> 'b tenant_store \<Rightarrow> memd_error + 'b tenant_store" where
  "get_or_create_active_segment E cfg now st =
     (if read_only cfg then Inl (ReadOnlyStore ''get_or_create_active_segment'')
      else case active_segment st of
        Some (w, n) \<Rightarrow>
          if n < segment_max_chunks cfg then Inr st
          else (case seal E w st of Inl e \<Rightarrow> Inl e | Inr st' \<Rightarrow> Inr (create_active now st'))
      | None \<Rightarrow> Inr (create_active now st))"

text \<open>An active writer without chunks is dropped; its directory stays on disk, unfinalized.\<close>

definition finalize_active_segment ::
  "'b store_ext \<Rightarrow> tenant_config \<Rightarrow> 'b tenant_store \<Rightarrow> memd_error + 'b tenant_store" where
  "finalize_active_segment E cfg st =
     (if read_only cfg then Inr st
      else case active_segment st of
        None \<Rightarrow> Inr st
      | Some (w, n) \<Rightarrow>
          if n > 0 then seal E w st
          else Inr (st\<lparr>active_segment := None,
                       seg_dirs := AList.update (w_id w) (w_dir w) (seg_dirs st)\<rparr>))"

definition finalize_active_segment_if_above_threshold ::
  "'b store_ext \<Rightarrow> tenant_config \<Rightarrow> 'b tenant_store \<Rightarrow> memd_error + 'b tenant_store" where
  "finalize_active_segment_if_above_threshold E cfg st =
     (if read_only cfg then Inr st
      else if wal_checkpoint_interval cfg > 0 then finalize_active_segment E cfg st
      else if (case active_segment st of Some (_, n) \<Rightarrow> n | None \<Rightarrow> 0) < min_finalize_chunks cfg
      then Inr st
      else finalize_active_segment E cfg st)"

definition flush_active_segment_payload ::
  "tenant_config \<Rightarrow> 'b tenant_store \<Rightarrow> memd_error + 'b tenant_store" where
  "flush_active_segment_payload cfg st =
     (if read_only cfg then Inl (ReadOnlyStore ''flush_active_segment_payload'')
      else case active_segment st of
        None \<Rightarrow> Inr st
      | Some (w, n) \<Rightarrow> Inr (st\<lparr>active_segment := Some (flush_payload w, n)\<rparr>))"

text \<open>\<open>append_chunk\<close> on the active segment, with the coordinates of the new chunk.\<close>

definition append_active ::
  "'b store_ext \<Rightarrow> bytes \<Rightarrow> string \<Rightarrow> 'b tenant_store \<Rightarrow> memd_error + ((nat \<times> u32) \<times> 'b tenant_store)" where
  "append_active E p msg st =
     (case active_segment st of
        None \<Rightarrow> Inl (StorageError msg)
      | Some (w, n) \<Rightarrow>
          (let (ordinal, w') = append_chunk (seg_x E) p w
           in Inr ((w_id w', ordinal), st\<lparr>active_segment := Some (w', n + 1)\<rparr>)))"

section \<open>Reading\<close>

definition read_from_active_segment ::
  "'b store_ext \<Rightarrow> 'b tenant_store \<Rightarrow> nat \<Rightarrow> u32 \<Rightarrow> memd_error + bytes option" where
  "read_from_active_segment E st sid ordinal =
     (case active_segment st of
        Some (w, _) \<Rightarrow> if w_id w = sid then fst (writer_read_chunk (seg_x E) w ordinal) else Inr None
      | None \<Rightarrow> Inr None)"

text \<open>The read-write store's part of \<open>read_payload_fallback\<close> (no WAL overlay).\<close>

definition read_payload ::
  "'b store_ext \<Rightarrow> 'b tenant_store \<Rightarrow> nat \<Rightarrow> u32 \<Rightarrow> memd_error + bytes option" where
  "read_payload E st sid ordinal =
     (case read_from_active_segment E st sid ordinal of
        Inl e \<Rightarrow> Inl e
      | Inr (Some bs) \<Rightarrow> Inr (Some bs)
      | Inr None \<Rightarrow>
         (case map_of (segments st) sid of
            Some r \<Rightarrow> (case read_chunk (seg_x E) r ordinal of Inl e \<Rightarrow> Inl (IoError e) | Inr x \<Rightarrow> Inr x)
          | None \<Rightarrow> Inr None))"

section \<open>Recovery\<close>

record recovery_counts =
  rc_adds :: nat
  rc_deletes :: nat
  rc_task_artifacts :: nat
  rc_skipped :: nat

definition no_counts :: recovery_counts where
  "no_counts = \<lparr>rc_adds = 0, rc_deletes = 0, rc_task_artifacts = 0, rc_skipped = 0\<rparr>"

definition chunk_row :: "'b store_ext \<Rightarrow> memory_chunk \<Rightarrow> nat \<Rightarrow> u32 \<Rightarrow> chunk_metadata" where
  "chunk_row E c sid ordinal =
     \<lparr>m_chunk_id = mc_chunk_id c, m_tenant_id = mc_tenant_id c, m_project_id = mc_project_id c,
      m_segment_id = sid, m_ordinal = ordinal, m_chunk_type = mc_chunk_type c,
      m_status = mc_status c, m_timestamp_created = mc_timestamp_created c, m_hash = mc_hash c,
      m_source_uri = uri (mc_source c), m_lifecycle = default_lifecycle,
      m_canonical_text = Some (canonicalize_for_type (to_lowercase E) (mc_text c) (mc_chunk_type c)),
      m_ingestion_mode = mc_ingestion_mode c\<rparr>"

text \<open>The row's payload can be read from a loaded segment.\<close>

definition readable_in_segments :: "'b store_ext \<Rightarrow> 'b tenant_store \<Rightarrow> chunk_metadata \<Rightarrow> bool" where
  "readable_in_segments E st m =
     (case map_of (segments st) (m_segment_id m) of
        None \<Rightarrow> False
      | Some r \<Rightarrow> (case read_chunk (seg_x E) r (m_ordinal m) of Inr (Some _) \<Rightarrow> True | _ \<Rightarrow> False))"

definition recover_add ::
  "'b store_ext \<Rightarrow> tenant_config \<Rightarrow> i64 \<Rightarrow> wal_record \<Rightarrow> recovery_counts \<times> 'b tenant_store
     \<Rightarrow> memd_error + (recovery_counts \<times> 'b tenant_store)" where
  "recover_add E cfg now r s =
     (let (rc, st) = s in
      case tenant_new (rec_tenant_id r) of
        Inl _ \<Rightarrow> Inl (StorageError ''invalid tenant_id in WAL'')
      | Inr tid \<Rightarrow>
       (case uuid_parse E (rec_chunk_id r) of
          None \<Rightarrow> Inl (StorageError ''invalid chunk_id in WAL'')
        | Some cid \<Rightarrow>
           (let existing = meta_get (db st) tid cid in
            if (case existing of Some m \<Rightarrow> readable_in_segments E st m | None \<Rightarrow> False)
            then Inr (rc\<lparr>rc_skipped := rc_skipped rc + 1\<rparr>, st)
            else case chunk_de E (payload r) of
              None \<Rightarrow> Inl (StorageError ''deserialize WAL chunk'')
            | Some chunk \<Rightarrow>
               (case get_or_create_active_segment E cfg now st of
                  Inl e \<Rightarrow> Inl e
                | Inr st1 \<Rightarrow>
                   (case append_active E (payload r) ''no active segment during recovery'' st1 of
                      Inl e \<Rightarrow> Inl e
                    | Inr ((sid, ordinal), st2) \<Rightarrow>
                       (let row = (case existing of
                              Some cur \<Rightarrow> cur\<lparr>m_segment_id := sid, m_ordinal := ordinal\<rparr>
                            | None \<Rightarrow> chunk_row E chunk sid ordinal)
                        in Inr (rc\<lparr>rc_adds := rc_adds rc + 1\<rparr>,
                                st2\<lparr>db := meta_insert row (db st2)\<rparr>)))))))"

definition tombstone_segment :: "'b store_ext \<Rightarrow> nat \<Rightarrow> u32 \<Rightarrow> 'b tenant_store \<Rightarrow> 'b tenant_store" where
  "tombstone_segment E sid ordinal st =
     (case map_of (segments st) sid of
        None \<Rightarrow> st
      | Some r \<Rightarrow>
         (let r' = reader_mark_deleted (seg_x E) ordinal r
          in st\<lparr>segments := AList.update sid r' (segments st),
                seg_dirs := AList.update sid (r_dir r') (seg_dirs st)\<rparr>))"

definition recover_delete ::
  "'b store_ext \<Rightarrow> wal_record \<Rightarrow> recovery_counts \<times> 'b tenant_store
     \<Rightarrow> memd_error + (recovery_counts \<times> 'b tenant_store)" where
  "recover_delete E r s =
     (let (rc, st) = s in
      case tenant_new (rec_tenant_id r) of
        Inl _ \<Rightarrow> Inl (StorageError ''invalid tenant_id in WAL'')
      | Inr tid \<Rightarrow>
       (case uuid_parse E (rec_chunk_id r) of
          None \<Rightarrow> Inl (StorageError ''invalid chunk_id in WAL'')
        | Some cid \<Rightarrow>
           (case meta_get (db st) tid cid of
              None \<Rightarrow> Inr (rc\<lparr>rc_skipped := rc_skipped rc + 1\<rparr>, st)
            | Some m \<Rightarrow>
                if m_status m \<noteq> Deleted
                then Inr (rc\<lparr>rc_deletes := rc_deletes rc + 1\<rparr>,
                          tombstone_segment E (m_segment_id m) (m_ordinal m)
                            (st\<lparr>db := meta_mark_deleted tid cid (db st)\<rparr>))
                else Inr (rc\<lparr>rc_skipped := rc_skipped rc + 1\<rparr>, st))))"

definition recover_artifact ::
  "'b store_ext \<Rightarrow> wal_record \<Rightarrow> recovery_counts \<times> 'b tenant_store
     \<Rightarrow> memd_error + (recovery_counts \<times> 'b tenant_store)" where
  "recover_artifact E r s =
     (let (rc, st) = s in
      if artifact_de_ok E (payload r)
      then Inr (rc\<lparr>rc_task_artifacts := rc_task_artifacts rc + 1\<rparr>,
                st\<lparr>artifact_rows := artifact_rows st @ [payload r]\<rparr>)
      else Inl (StorageError ''deserialize WAL task artifact payload''))"

fun recover_records ::
  "'b store_ext \<Rightarrow> tenant_config \<Rightarrow> i64 \<Rightarrow> wal_record list \<Rightarrow> recovery_counts \<times> 'b tenant_store
     \<Rightarrow> memd_error + (recovery_counts \<times> 'b tenant_store)" where
  "recover_records E cfg now [] s = Inr s"
| "recover_records E cfg now (r # rs) s =
     (case (case record_type r of
              Add \<Rightarrow> recover_add E cfg now r s
            | Delete \<Rightarrow> recover_delete E r s
            | TaskArtifact \<Rightarrow> recover_artifact E r s
            | Checkpoint \<Rightarrow> Inr s) of
        Inl e \<Rightarrow> Inl e
      | Inr s' \<Rightarrow> recover_records E cfg now rs s')"

definition truncate_wal :: "tenant_config \<Rightarrow> 'b tenant_store \<Rightarrow> memd_error + 'b tenant_store" where
  "truncate_wal cfg st =
     (if read_only cfg then Inl (ReadOnlyStore ''truncate_wal'')
      else Inr (st\<lparr>wal := writer_truncate (wal st)\<rparr>))"

text \<open>The log is read from its bytes as they were when the reader was opened.\<close>

definition recover_from_wal ::
  "'b store_ext \<Rightarrow> tenant_config \<Rightarrow> i64 \<Rightarrow> bytes \<Rightarrow> 'b tenant_store \<Rightarrow> memd_error + 'b tenant_store" where
  "recover_from_wal E cfg now data st =
     (if data = [] then Inr st
      else let records = records_for_recovery (wal_x E) data in
        if records = [] then Inr st
        else case recover_records E cfg now records (no_counts, st) of
          Inl e \<Rightarrow> Inl e
        | Inr (rc, st1) \<Rightarrow>
           (case (if rc_adds rc > 0 then finalize_active_segment E cfg st1 else Inr st1) of
              Inl e \<Rightarrow> Inl e
            | Inr st2 \<Rightarrow> truncate_wal cfg st2))"

section \<open>Opening a tenant\<close>

text \<open>What survives a crash or a shutdown: the rows, the log file and the directories.\<close>

record disk_state =
  disk_db :: "chunk_metadata list"
  disk_artifacts :: "bytes list"
  disk_wal :: "bytes option"
  disk_dirs :: dirs

definition crash :: "'b tenant_store \<Rightarrow> disk_state" where
  "crash st =
     \<lparr>disk_db = db st, disk_artifacts = artifact_rows st, disk_wal = Some (file_data (wal st)),
      disk_dirs = (case active_segment st of
                     None \<Rightarrow> seg_dirs st
                   | Some (w, _) \<Rightarrow> AList.update (w_id w) (w_dir w) (seg_dirs st))\<rparr>"

text \<open>Directories without a meta file are skipped, and so are those that fail to open.\<close>

fun load_segments :: "'b store_ext \<Rightarrow> dirs \<Rightarrow> (nat \<times> 'b seg_reader) list" where
  "load_segments E [] = []"
| "load_segments E ((sid, d) # ds) =
     (if meta_file d = None then load_segments E ds
      else case reader_open (seg_x E) (dir_name sid) d of
        Inl _ \<Rightarrow> load_segments E ds
      | Inr r \<Rightarrow> (r_id r, r) # load_segments E ds)"

definition tenant_open ::
  "'b store_ext \<Rightarrow> tenant_config \<Rightarrow> i64 \<Rightarrow> disk_state \<Rightarrow> memd_error + 'b tenant_store" where
  "tenant_open E cfg now d =
     (case open_or_create (disk_wal d) of
        Inl e \<Rightarrow> Inl (IoError e)
      | Inr w \<Rightarrow>
          recover_from_wal E cfg now (case disk_wal d of None \<Rightarrow> [] | Some bs \<Rightarrow> bs)
            \<lparr>db = disk_db d, artifact_rows = disk_artifacts d, wal = w, seg_dirs = disk_dirs d,
             active_segment = None, segments = load_segments E (disk_dirs d),
             writes_since_checkpoint = 0\<rparr>)"

section \<open>Adding, deleting, getting\<close>

record pending_chunk =
  p_chunk :: memory_chunk
  p_payload :: bytes

definition pending_rows :: "pending_chunk list \<Rightarrow> (string \<times> i64 \<times> bytes) list" where
  "pending_rows ps = map (\<lambda>p. (mc_chunk_id (p_chunk p), mc_timestamp_created (p_chunk p), p_payload p)) ps"

text \<open>Stage 1 of an add: the whole batch goes to the log with one sync.\<close>

definition append_wal_add_batch ::
  "'b store_ext \<Rightarrow> tenant_config \<Rightarrow> pending_chunk list \<Rightarrow> 'b tenant_store \<Rightarrow> memd_error + 'b tenant_store" where
  "append_wal_add_batch E cfg ps st =
     (if read_only cfg then Inl (ReadOnlyStore ''add_batch'')
      else Inr (st\<lparr>wal := append_add_batch (wal_x E) (cfg_tenant_id cfg) (pending_rows ps) (wal st)\<rparr>))"

text \<open>Stage 2: every payload goes to the active segment, rotating it when it is full.\<close>

fun write_payloads ::
  "'b store_ext \<Rightarrow> tenant_config \<Rightarrow> i64 \<Rightarrow> pending_chunk list \<Rightarrow> 'b tenant_store
     \<Rightarrow> memd_error + (chunk_metadata list \<times> 'b tenant_store)" where
  "write_payloads E cfg now [] st = Inr ([], st)"
| "write_payloads E cfg now (p # ps) st =
     (case get_or_create_active_segment E cfg now st of
        Inl e \<Rightarrow> Inl e
      | Inr st1 \<Rightarrow>
         (case append_active E (p_payload p) ''no active segment'' st1 of
            Inl e \<Rightarrow> Inl e
          | Inr ((sid, ordinal), st2) \<Rightarrow>
             (case write_payloads E cfg now ps st2 of
                Inl e \<Rightarrow> Inl e
              | Inr (rows, st3) \<Rightarrow> Inr (chunk_row E (p_chunk p) sid ordinal # rows, st3))))"

fun append_wal_checkpoints :: "'b store_ext \<Rightarrow> tenant_config \<Rightarrow> i64 \<Rightarrow> nat \<Rightarrow> 'b tenant_store \<Rightarrow> 'b tenant_store" where
  "append_wal_checkpoints E cfg now 0 st = st"
| "append_wal_checkpoints E cfg now (Suc k) st =
     append_wal_checkpoints E cfg now k
       (st\<lparr>wal := append_checkpoint (wal_x E) (cfg_tenant_id cfg) now (wal st)\<rparr>)"

text \<open>
  Stage 5: the write counter advances; when it passes the interval the active segment is
  finalized and only then the checkpoints are appended.
\<close>

definition checkpoint_after_batch ::
  "'b store_ext \<Rightarrow> tenant_config \<Rightarrow> i64 \<Rightarrow> nat \<Rightarrow> 'b tenant_store \<Rightarrow> memd_error + 'b tenant_store" where
  "checkpoint_after_batch E cfg now writes st =
     (let interval = wal_checkpoint_interval cfg in
      if interval = 0 \<or> writes = 0 then Inr st
      else let count = writes_since_checkpoint st + writes;
               checkpoints = count div interval;
               st1 = st\<lparr>writes_since_checkpoint := count mod interval\<rparr>
           in if checkpoints = 0 then Inr st1
              else case finalize_active_segment E cfg st1 of
                Inl e \<Rightarrow> Inl e
              | Inr st2 \<Rightarrow> Inr (append_wal_checkpoints E cfg now checkpoints st2))"

text \<open>
  The add path for the chunks of one tenant. Indexing and the index-state columns are not
  part of the model.
\<close>

definition add_batch ::
  "'b store_ext \<Rightarrow> tenant_config \<Rightarrow> i64 \<Rightarrow> pending_chunk list \<Rightarrow> 'b tenant_store \<Rightarrow> memd_error + 'b tenant_store" where
  "add_batch E cfg now ps st =
     (if read_only cfg then Inl (ReadOnlyStore ''add_chunks_internal'')
      else if ps = [] then Inr st
      else case append_wal_add_batch E cfg ps st of
        Inl e \<Rightarrow> Inl e
      | Inr st1 \<Rightarrow>
         (case write_payloads E cfg now ps st1 of
            Inl e \<Rightarrow> Inl e
          | Inr (rows, st2) \<Rightarrow>
             (case flush_active_segment_payload cfg st2 of
                Inl e \<Rightarrow> Inl e
              | Inr st3 \<Rightarrow>
                  checkpoint_after_batch E cfg now (length ps)
                    (st3\<lparr>db := meta_insert_many rows (db st3)\<rparr>))))"

definition delete_chunk ::
  "'b store_ext \<Rightarrow> tenant_config \<Rightarrow> i64 \<Rightarrow> string \<Rightarrow> 'b tenant_store \<Rightarrow> memd_error + (bool \<times> 'b tenant_store)" where
  "delete_chunk E cfg now cid st =
     (if read_only cfg then Inl (ReadOnlyStore ''delete_chunk'')
      else case meta_get (db st) (cfg_tenant_id cfg) cid of
        None \<Rightarrow> Inr (False, st)
      | Some m \<Rightarrow>
          if m_status m = Deleted then Inr (False, st)
          else let st1 = st\<lparr>wal := append_delete (wal_x E) (cfg_tenant_id cfg) cid now (wal st)\<rparr>;
                   st2 = st1\<lparr>db := meta_mark_deleted (cfg_tenant_id cfg) cid (db st1)\<rparr>
               in Inr (True, tombstone_segment E (m_segment_id m) (m_ordinal m) st2))"

text \<open>
  The row decides whether the chunk exists and what its status is; the payload comes from the
  active segment or a loaded one. When no reader has it, the segment directory is opened on
  demand and the new reader is kept.
\<close>

definition decode_chunk :: "'b store_ext \<Rightarrow> chunk_metadata \<Rightarrow> bytes \<Rightarrow> memd_error + memory_chunk option" where
  "decode_chunk E m bs =
     (case chunk_de E bs of
        None \<Rightarrow> Inl (StorageError ''deserialize chunk'')
      | Some c \<Rightarrow> Inr (Some (c\<lparr>mc_status := m_status m\<rparr>)))"

definition get_chunk ::
  "'b store_ext \<Rightarrow> tenant_config \<Rightarrow> string \<Rightarrow> 'b tenant_store
     \<Rightarrow> (memd_error + memory_chunk option) \<times> 'b tenant_store" where
  "get_chunk E cfg cid st =
     (case meta_get (db st) (cfg_tenant_id cfg) cid of
        None \<Rightarrow> (Inr None, st)
      | Some m \<Rightarrow>
          if m_status m = Deleted then (Inr None, st)
          else case read_payload E st (m_segment_id m) (m_ordinal m) of
            Inl e \<Rightarrow> (Inl e, st)
          | Inr (Some bs) \<Rightarrow> (decode_chunk E m bs, st)
          | Inr None \<Rightarrow>
             (case map_of (seg_dirs st) (m_segment_id m) of
                None \<Rightarrow> (Inl (StorageError ''segment missing from cache; on-demand open failed''), st)
              | Some d \<Rightarrow>
                 (case reader_open (seg_x E) (dir_name (m_segment_id m)) d of
                    Inl _ \<Rightarrow> (Inl (StorageError ''segment missing from cache; on-demand open failed''), st)
                  | Inr r \<Rightarrow>
                     (case read_chunk (seg_x E) r (m_ordinal m) of
                        Inl e \<Rightarrow> (Inl (IoError e), st)
                      | Inr x \<Rightarrow>
                         (case x of None \<Rightarrow> Inr None | Some bs \<Rightarrow> decode_chunk E m bs,
                          if map_of (segments st) (m_segment_id m) = None
                          then st\<lparr>segments := AList.update (m_segment_id m) r (segments st)\<rparr>
                          else st)))))"

end
