(* ===== verification/Tenant_Segments.thy ===== *)
theory Tenant_Segments
  imports Tenant_Store
begin

text \<open>
  The segments of a tenant store: the invariant that relates open readers, the active writer
  and the directories on disk (\<open>struct_ok\<close>), and what sealing, creating, appending,
  tombstoning and reloading do to it and to \<open>read_payload\<close>. The lemmas are proved in the
  locale \<open>tenant_env\<close>, whose assumptions are the bitmap contract and the configuration
  bounds.
\<close>

section \<open>The invariant of the segments\<close>

definition payload_ok :: "bytes \<Rightarrow> bool" where
  "payload_ok p \<longleftrightarrow> length p < 2 ^ 31"

definition reader_ok :: "'b store_ext \<Rightarrow> dirs \<Rightarrow> nat \<Rightarrow> 'b seg_reader \<Rightarrow> bool" where
  "reader_ok E dirs sid r \<longleftrightarrow>
     (\<exists>ds. map_of dirs sid = Some (r_dir r) \<and> sid < 2 ^ 64 \<and> meta_file (r_dir r) \<noteq> None
        \<and> dir_holds (seg_x E) (r_dir r) ds \<and> reader_holds (seg_x E) r ds \<and> seg_sized ds
        \<and> load_or_create (bitmap_ops_of (seg_x E)) (tombstone_bin (r_dir r)) = Inr (tombstones r))"

definition readers_ok :: "'b store_ext \<Rightarrow> 'b tenant_store \<Rightarrow> bool" where
  "readers_ok E st \<longleftrightarrow>
     (\<forall>sid r. map_of (segments st) sid = Some r \<longrightarrow> reader_ok E (seg_dirs st) sid r)
     \<and> (\<forall>sid d. map_of (seg_dirs st) sid = Some d \<and> meta_file d \<noteq> None
          \<longrightarrow> map_of (segments st) sid \<noteq> None)"

definition writer_ok :: "'b store_ext \<Rightarrow> tenant_config \<Rightarrow> 'b tenant_store \<Rightarrow> seg_writer \<Rightarrow> nat \<Rightarrow> bool" where
  "writer_ok E cfg st w n \<longleftrightarrow>
     (\<exists>ds. writer_holds (seg_x E) w ds \<and> length ds = n \<and> n \<le> segment_max_chunks cfg
        \<and> (\<forall>d \<in> set ds. payload_ok d))
     \<and> map_of (segments st) (w_id w) = None \<and> w_id w < 2 ^ 64
     \<and> meta_file (w_dir w) = None \<and> tombstone_bin (w_dir w) = None
     \<and> (\<exists>d. map_of (seg_dirs st) (w_id w) = Some d \<and> meta_file d = None)"

definition active_ok :: "'b store_ext \<Rightarrow> tenant_config \<Rightarrow> 'b tenant_store \<Rightarrow> bool" where
  "active_ok E cfg st \<longleftrightarrow> (\<forall>w n. active_segment st = Some (w, n) \<longrightarrow> writer_ok E cfg st w n)"

text \<open>Segment ids leave room for \<open>k\<close> more below \<open>2 ^ 64\<close>.\<close>

definition room :: "'b tenant_store \<Rightarrow> nat \<Rightarrow> bool" where
  "room st k \<longleftrightarrow>
     (\<forall>sid \<in> dom (map_of (segments st)) \<union> dom (map_of (seg_dirs st)). sid + k < 2 ^ 64)"

definition struct_ok :: "'b store_ext \<Rightarrow> tenant_config \<Rightarrow> 'b tenant_store \<Rightarrow> nat \<Rightarrow> bool" where
  "struct_ok E cfg st k \<longleftrightarrow>
     readers_ok E st \<and> active_ok E cfg st \<and> room st k \<and> distinct (map fst (seg_dirs st))"

lemma seg_sized_payloads:
  assumes "\<forall>d \<in> set ds. payload_ok d" and "length ds \<le> 2 ^ 32"
  shows "seg_sized ds"
proof -
  have "length (concat ds) \<le> length ds * 2 ^ 31"
    using assms(1) by (induction ds) (auto simp: payload_ok_def)
  also have "\<dots> \<le> 2 ^ 32 * 2 ^ 31" using assms(2) by simp
  finally have "length (concat ds) \<le> 2 ^ 63" by simp
  then show ?thesis using assms by (auto simp: seg_sized_def payload_ok_def)
qed

lemma room_mono: "room st k \<Longrightarrow> j \<le> k \<Longrightarrow> room st j"
  unfolding room_def by (meson add_left_mono le_less_trans)

lemma struct_ok_mono: "struct_ok E cfg st k \<Longrightarrow> j \<le> k \<Longrightarrow> struct_ok E cfg st j"
  by (auto simp: struct_ok_def room_mono)

lemma struct_ok_db [simp]:
  "struct_ok E cfg (st\<lparr>db := rows\<rparr>) k = struct_ok E cfg st k"
  "struct_ok E cfg (st\<lparr>wal := w\<rparr>) k = struct_ok E cfg st k"
  "struct_ok E cfg (st\<lparr>artifact_rows := a\<rparr>) k = struct_ok E cfg st k"
  "struct_ok E cfg (st\<lparr>writes_since_checkpoint := c\<rparr>) k = struct_ok E cfg st k"
  by (simp_all add: struct_ok_def readers_ok_def active_ok_def room_def writer_ok_def)

lemma read_payload_frame [simp]:
  "read_payload E (st\<lparr>db := rows\<rparr>) = read_payload E st"
  "read_payload E (st\<lparr>wal := w\<rparr>) = read_payload E st"
  "read_payload E (st\<lparr>artifact_rows := a\<rparr>) = read_payload E st"
  "read_payload E (st\<lparr>writes_since_checkpoint := c\<rparr>) = read_payload E st"
  by (simp_all add: fun_eq_iff read_payload_def read_from_active_segment_def
      cong: option.case_cong sum.case_cong)

lemma readable_frame [simp]:
  "readable_in_segments E (st\<lparr>db := rows\<rparr>) = readable_in_segments E st"
  "readable_in_segments E (st\<lparr>artifact_rows := a\<rparr>) = readable_in_segments E st"
  by (simp_all add: fun_eq_iff readable_in_segments_def)

section \<open>Operations on segments\<close>

locale tenant_env =
  fixes E :: "'b store_ext" and cfg :: tenant_config and bits :: "'b \<Rightarrow> u32 set"
  assumes bitmap_law: "bitmap (bitmap_ops_of (seg_x E)) bits"
    and writable: "\<not> read_only cfg"
    and max_chunks: "0 < segment_max_chunks cfg" "segment_max_chunks cfg \<le> 2 ^ 32"
begin

lemma writer_reads:
  assumes "writer_ok E cfg st w n" and "writer_holds (seg_x E) w ds" and "length ds = n"
    and "\<forall>d \<in> set ds. payload_ok d" and "n \<le> segment_max_chunks cfg"
  shows "fst (writer_read_chunk (seg_x E) w o') =
         (if unat o' < length ds then Inr (Some (ds ! unat o')) else Inr None)"
  using assms max_chunks by (intro writer_read_holds seg_sized_payloads) auto

lemma new_reader:
  assumes "writer_holds (seg_x E) w ds" and "seg_sized ds" and "w_id w < 2 ^ 64"
    and "tombstone_bin (w_dir w) = None"
  obtains r where "reader_open (seg_x E) (dir_name (w_id w)) (snd (finalize (seg_x E) w)) = Inr r"
    and "reader_holds (seg_x E) r ds" and "r_dir r = snd (finalize (seg_x E) w)"
    and "load_or_create (bitmap_ops_of (seg_x E)) (tombstone_bin (snd (finalize (seg_x E) w)))
           = Inr (tombstones r)"
    and "\<And>o'. \<not> is_deleted (bitmap_ops_of (seg_x E)) (tombstones r) o'"
proof -
  note fin = finalize_dir_holds [OF assms(1)]
  let ?ts = "\<lparr>bitmap_of = bm_new (bitmap_ops_of (seg_x E)), tomb_file = None, dirty = False\<rparr>"
  have load: "load_or_create (bitmap_ops_of (seg_x E)) (tombstone_bin (snd (finalize (seg_x E) w))) = Inr ?ts"
    using fin assms(4) by (simp add: load_or_create_def)
  have none: "\<not> is_deleted (bitmap_ops_of (seg_x E)) ?ts o'" for o'
    using bitmap.contains_bits [OF bitmap_law] bitmap.bits_new [OF bitmap_law]
    by (simp add: is_deleted_def)
  show ?thesis
    using reader_open_holds [OF conjunct1 [OF fin] assms(3) load] load none that by fastforce
qed

text \<open>Sealing the active writer keeps the invariant and every read.\<close>

lemma seal_ok:
  assumes "struct_ok E cfg st k" and "active_segment st = Some (w, n)"
  obtains st' where "seal E w st = Inr st'" and "struct_ok E cfg st' k" and "active_segment st' = None"
    and "read_payload E st' = read_payload E st"
    and "db st' = db st" and "wal st' = wal st" and "artifact_rows st' = artifact_rows st"
    and "dom (map_of (seg_dirs st')) = dom (map_of (seg_dirs st))"
    and "\<And>m. m_segment_id m \<noteq> w_id w \<Longrightarrow> readable_in_segments E st' m = readable_in_segments E st m"
proof -
  have wok: "writer_ok E cfg st w n" using assms by (simp add: struct_ok_def active_ok_def)
  then obtain ds where ds: "writer_holds (seg_x E) w ds" "length ds = n" "n \<le> segment_max_chunks cfg"
    "\<forall>d \<in> set ds. payload_ok d" by (auto simp: writer_ok_def)
  have sized: "seg_sized ds" using ds max_chunks by (intro seg_sized_payloads) auto
  have wid: "map_of (segments st) (w_id w) = None" "w_id w < 2 ^ 64" "tombstone_bin (w_dir w) = None"
    and wdir: "w_id w \<in> dom (map_of (seg_dirs st))"
    using wok by (auto simp: writer_ok_def)
  obtain r where r: "reader_open (seg_x E) (dir_name (w_id w)) (snd (finalize (seg_x E) w)) = Inr r"
    "reader_holds (seg_x E) r ds" "r_dir r = snd (finalize (seg_x E) w)"
    "load_or_create (bitmap_ops_of (seg_x E)) (tombstone_bin (snd (finalize (seg_x E) w)))
       = Inr (tombstones r)"
    "\<And>o'. \<not> is_deleted (bitmap_ops_of (seg_x E)) (tombstones r) o'"
    using new_reader [OF ds(1) sized wid(2,3)] by blast
  note fin = finalize_dir_holds [OF ds(1)]
  define st' where "st' = st\<lparr>active_segment := None,
      seg_dirs := AList.update (w_id w) (snd (finalize (seg_x E) w)) (seg_dirs st),
      segments := AList.update (w_id w) r (segments st)\<rparr>"
  have seal: "seal E w st = Inr st'" using r(1) by (simp add: seal_def st'_def Let_def)
  have "reader_ok E (seg_dirs st') (w_id w) r"
    using r fin sized wid(2) by (auto simp: reader_ok_def st'_def update_conv')
  moreover have "reader_ok E (seg_dirs st') sid q"
    if "map_of (segments st) sid = Some q" "sid \<noteq> w_id w" for sid q
    using that assms(1) by (auto simp: struct_ok_def readers_ok_def reader_ok_def st'_def update_conv')
  ultimately have "readers_ok E st'"
    using assms(1) by (auto simp: struct_ok_def readers_ok_def st'_def update_conv')
  moreover have "room st' k"
    using assms(1) wdir by (auto simp: struct_ok_def room_def st'_def update_conv')
  ultimately have struct: "struct_ok E cfg st' k" using assms(1) by (simp add: struct_ok_def active_ok_def st'_def distinct_update)
  have reads: "read_payload E st' sid o' = read_payload E st sid o'" for sid o'
    using assms(2) wid(1) writer_reads [OF wok ds(1,2,4,3)] read_chunk_holds [OF r(2) sized, of o'] r(5)
    by (auto simp: read_payload_def read_from_active_segment_def st'_def update_conv' split: sum.split option.split)
  show ?thesis
  proof (rule that [OF seal struct])
    show "read_payload E st' = read_payload E st" using reads by (simp add: fun_eq_iff)
    show "dom (map_of (seg_dirs st')) = dom (map_of (seg_dirs st))"
      using wdir by (auto simp: st'_def update_conv')
    show "readable_in_segments E st' m = readable_in_segments E st m" if "m_segment_id m \<noteq> w_id w" for m
      using that by (simp add: readable_in_segments_def st'_def update_conv')
  qed (simp_all add: st'_def)
qed

lemma next_segment_id_fresh:
  "map_of (segments st) (next_segment_id st) = None" "map_of (seg_dirs st) (next_segment_id st) = None"
proof -
  let ?ids = "set (map fst (segments st)) \<union> set (map fst (seg_dirs st))"
  have "next_segment_id st \<notin> ?ids"
  proof
    assume mem: "next_segment_id st \<in> ?ids"
    then have "next_segment_id st \<le> Max ?ids" by (intro Max_ge) auto
    moreover have "next_segment_id st = Max ?ids + 1"
      using mem by (auto simp: next_segment_id_def Let_def)
    ultimately show False by simp
  qed
  then show "map_of (segments st) (next_segment_id st) = None" "map_of (seg_dirs st) (next_segment_id st) = None"
    by (auto simp: map_of_eq_None_iff)
qed

lemma next_segment_id_room:
  assumes "room st (Suc k)" and "Suc k < 2 ^ 64"
  shows "next_segment_id st + k < 2 ^ 64"
proof -
  let ?ids = "set (map fst (segments st)) \<union> set (map fst (seg_dirs st))"
  have bound: "\<forall>sid \<in> ?ids. sid + Suc k < 2 ^ 64"
    using assms(1) by (simp add: room_def dom_map_of_conv_image_fst)
  show ?thesis
  proof (cases "?ids = {}")
    case True
    then show ?thesis using assms(2) by (auto simp: next_segment_id_def Let_def)
  next
    case False
    then have "Max ?ids \<in> ?ids" by (intro Max_in) auto
    with bound have "Max ?ids + Suc k < 2 ^ 64" by blast
    moreover have "next_segment_id st = Max ?ids + 1"
      using False by (auto simp: next_segment_id_def Let_def)
    ultimately show ?thesis by simp
  qed
qed

text \<open>Creating an active segment changes no read; the new id is unused.\<close>

lemma create_active_ok:
  assumes "struct_ok E cfg st (Suc k)" and "active_segment st = None" and "Suc k < 2 ^ 64"
  obtains w where "active_segment (create_active now st) = Some (w, 0)"
    and "struct_ok E cfg (create_active now st) k"
    and "read_payload E (create_active now st) = read_payload E st"
    and "readable_in_segments E (create_active now st) = readable_in_segments E st"
    and "w_id w \<notin> dom (map_of (seg_dirs st))"
    and "dom (map_of (seg_dirs (create_active now st))) = insert (w_id w) (dom (map_of (seg_dirs st)))"
proof -
  let ?sid = "next_segment_id st" and ?st' = "create_active now st"
  define w where "w = segment_create (map_of (seg_dirs st) ?sid) ?sid now"
  note fresh = next_segment_id_fresh [of st]
  have st': "?st' = st\<lparr>active_segment := Some (w, 0), seg_dirs := AList.update ?sid (w_dir w) (seg_dirs st)\<rparr>"
    by (simp add: create_active_def Let_def w_def)
  have w: "w_id w = ?sid" "meta_file (w_dir w) = None" "tombstone_bin (w_dir w) = None" "index_records w = []"
    by (simp_all add: w_def segment_create_def fresh(2))
  have holds: "writer_holds (seg_x E) w []" unfolding w_def by (rule writer_holds_create)
  have rm: "room st (Suc k)" using assms(1) by (simp add: struct_ok_def)
  have below: "?sid + k < 2 ^ 64" by (rule next_segment_id_room [OF rm assms(3)])
  have "writer_ok E cfg ?st' w 0"
    unfolding writer_ok_def
    using holds w fresh below by (auto simp: st' update_conv' intro!: exI [of _ "[]"])
  moreover have "reader_ok E (seg_dirs ?st') sid r" if "map_of (segments st) sid = Some r" for sid r
    using that assms(1) fresh(1)
    by (auto simp: struct_ok_def readers_ok_def reader_ok_def st' update_conv')
  then have "readers_ok E ?st'"
    using assms(1) w(2) by (auto simp: struct_ok_def readers_ok_def st' update_conv')
  moreover have "room ?st' k"
    using room_mono [OF rm, of k] below by (auto simp: room_def st' update_conv')
  ultimately have struct: "struct_ok E cfg ?st' k"
    using assms(1) by (simp add: struct_ok_def active_ok_def st' distinct_update)
  have "read_payload E ?st' sid o' = read_payload E st sid o'" for sid o'
    using assms(2) w(1,4) fresh(1)
    by (auto simp: read_payload_def read_from_active_segment_def writer_read_chunk_def st')
  then have reads: "read_payload E ?st' = read_payload E st" by (simp add: fun_eq_iff)
  show ?thesis
    by (rule that [of w, OF _ struct reads])
      (simp_all add: st' w(1) fresh(2) update_conv' fun_eq_iff readable_in_segments_def domIff)
qed

lemma create_active_frame [simp]:
  "db (create_active now st) = db st" "wal (create_active now st) = wal st"
  "artifact_rows (create_active now st) = artifact_rows st" "segments (create_active now st) = segments st"
  by (simp_all add: create_active_def Let_def)

text \<open>
  After \<open>get_or_create_active_segment\<close> there is an active segment with room for a chunk;
  reads are unchanged, and rows that do not point at the old active segment are as readable
  from loaded segments as before.
\<close>

lemma get_or_create_ok:
  assumes "struct_ok E cfg st (Suc k)" and "Suc k < 2 ^ 64"
  obtains st' w n where "get_or_create_active_segment E cfg now st = Inr st'"
    and "active_segment st' = Some (w, n)" and "n < segment_max_chunks cfg" and "struct_ok E cfg st' k"
    and "read_payload E st' = read_payload E st"
    and "db st' = db st" and "wal st' = wal st" and "artifact_rows st' = artifact_rows st"
    and "dom (map_of (seg_dirs st)) \<subseteq> dom (map_of (seg_dirs st'))"
    and "active_segment st = Some (w, n) \<or> w_id w \<notin> dom (map_of (seg_dirs st)) \<and> n = 0"
    and "\<And>m. (\<forall>v i. active_segment st = Some (v, i) \<longrightarrow> m_segment_id m \<noteq> w_id v) \<Longrightarrow>
           readable_in_segments E st' m = readable_in_segments E st m"
proof (cases "active_segment st")
  case None
  obtain w where "active_segment (create_active now st) = Some (w, 0)"
    and "struct_ok E cfg (create_active now st) k"
    and "read_payload E (create_active now st) = read_payload E st"
    and "readable_in_segments E (create_active now st) = readable_in_segments E st"
    and "w_id w \<notin> dom (map_of (seg_dirs st))"
    and "dom (map_of (seg_dirs (create_active now st))) = insert (w_id w) (dom (map_of (seg_dirs st)))"
    using create_active_ok [OF assms(1) None assms(2)] by blast
  with None max_chunks writable show ?thesis
    by (intro that [of "create_active now st" w 0]) (auto simp: get_or_create_active_segment_def)
next
  case (Some a)
  obtain v i where vi: "active_segment st = Some (v, i)" using Some by (cases a) auto
  show ?thesis
  proof (cases "i < segment_max_chunks cfg")
    case True
    with vi writable assms(1) show ?thesis
      by (intro that [of st v i]) (auto simp: get_or_create_active_segment_def intro: struct_ok_mono)
  next
    case False
    obtain s1 where s1: "seal E v st = Inr s1" "struct_ok E cfg s1 (Suc k)" "active_segment s1 = None"
      "read_payload E s1 = read_payload E st" "db s1 = db st" "wal s1 = wal st"
      "artifact_rows s1 = artifact_rows st" "dom (map_of (seg_dirs s1)) = dom (map_of (seg_dirs st))"
      "\<And>m. m_segment_id m \<noteq> w_id v \<Longrightarrow> readable_in_segments E s1 m = readable_in_segments E st m"
      using seal_ok [OF assms(1) vi] by blast
    obtain w where "active_segment (create_active now s1) = Some (w, 0)"
      and "struct_ok E cfg (create_active now s1) k"
      and "read_payload E (create_active now s1) = read_payload E s1"
      and "readable_in_segments E (create_active now s1) = readable_in_segments E s1"
      and "w_id w \<notin> dom (map_of (seg_dirs s1))"
      and "dom (map_of (seg_dirs (create_active now s1))) = insert (w_id w) (dom (map_of (seg_dirs s1)))"
      using create_active_ok [OF s1(2,3) assms(2)] by blast
    with vi False s1 writable max_chunks show ?thesis
      by (intro that [of "create_active now s1" w 0]) (auto simp: get_or_create_active_segment_def)
  qed
qed

text \<open>Appending a payload: it is read back at its coordinates, and every other read is unchanged.\<close>

lemma append_active_ok:
  assumes "struct_ok E cfg st k" and "active_segment st = Some (w, n)"
    and "n < segment_max_chunks cfg" and "payload_ok p"
  obtains w' where "append_active E p msg st = Inr ((w_id w, word_of_nat n), st\<lparr>active_segment := Some (w', n + 1)\<rparr>)"
    and "w_id w' = w_id w" and "struct_ok E cfg (st\<lparr>active_segment := Some (w', n + 1)\<rparr>) k"
    and "\<And>sid o'. read_payload E (st\<lparr>active_segment := Some (w', n + 1)\<rparr>) sid o' =
           (if sid = w_id w \<and> o' = word_of_nat n then Inr (Some p) else read_payload E st sid o')"
    and "unat (word_of_nat n :: u32) = n"
proof -
  have wok: "writer_ok E cfg st w n" using assms by (simp add: struct_ok_def active_ok_def)
  then obtain ds where ds: "writer_holds (seg_x E) w ds" "length ds = n" "\<forall>d \<in> set ds. payload_ok d"
    by (auto simp: writer_ok_def)
  obtain ordinal w' where app: "append_chunk (seg_x E) p w = (ordinal, w')" by fastforce
  have "length p < 2 ^ 32" using assms(4) by (simp add: payload_ok_def)
  from writer_holds_append [OF ds(1) this app]
  have w': "writer_holds (seg_x E) w' (ds @ [p])" and ord: "ordinal = word_of_nat n" using ds(2) by auto
  have same: "w_id w' = w_id w" "w_dir w' = w_dir w" using app by (auto simp: append_chunk_def Let_def)
  let ?st' = "st\<lparr>active_segment := Some (w', n + 1)\<rparr>"
  have un: "unat (word_of_nat n :: u32) = n"
    using assms(3) max_chunks by (intro unat_u32_of_nat) simp
  have wok': "writer_ok E cfg ?st' w' (n + 1)"
    using wok w' ds assms(3,4) same by (auto simp: writer_ok_def intro!: exI [of _ "ds @ [p]"])
  have struct: "struct_ok E cfg ?st' k"
    using assms(1) wok' by (simp add: struct_ok_def readers_ok_def active_ok_def room_def)
  have r: "fst (writer_read_chunk (seg_x E) w o') =
      (if unat o' < n then Inr (Some (ds ! unat o')) else Inr None)"
    "fst (writer_read_chunk (seg_x E) w' o') =
      (if unat o' < n + 1 then Inr (Some ((ds @ [p]) ! unat o')) else Inr None)" for o'
    using writer_reads [OF wok ds(1,2,3)] writer_reads [OF wok' w'] ds assms(3,4) by auto
  have eqo: "o' = word_of_nat n \<longleftrightarrow> unat o' = n" for o' :: u32
    using un word_unat_eq_iff [of o' "word_of_nat n"] by simp
  have none: "map_of (segments st) (w_id w) = None" using wok by (simp add: writer_ok_def)
  have reads: "read_payload E ?st' sid o' =
      (if sid = w_id w \<and> o' = word_of_nat n then Inr (Some p) else read_payload E st sid o')" for sid o'
    using assms(2) r [of o'] none ds(2)
    by (auto simp: read_payload_def read_from_active_segment_def same eqo nth_append less_Suc_eq)
  have "append_active E p msg st = Inr ((w_id w, word_of_nat n), ?st')"
    using assms(2) app ord same by (simp add: append_active_def)
  then show ?thesis using that same(1) struct reads un by blast
qed

text \<open>
  Finalizing before a checkpoint or at the end of recovery: with chunks in the active
  segment, it is sealed; without one, nothing changes.
\<close>

lemma finalize_active_ok:
  assumes "struct_ok E cfg st k" and "\<forall>w n. active_segment st = Some (w, n) \<longrightarrow> 0 < n"
  obtains st' where "finalize_active_segment E cfg st = Inr st'" and "struct_ok E cfg st' k"
    and "active_segment st' = None" and "read_payload E st' = read_payload E st"
    and "db st' = db st" and "wal st' = wal st" and "artifact_rows st' = artifact_rows st"
    and "dom (map_of (seg_dirs st')) = dom (map_of (seg_dirs st))"
proof (cases "active_segment st")
  case None
  then show ?thesis using that [of st] assms(1) by (simp add: finalize_active_segment_def)
next
  case (Some a)
  obtain w n where wn: "active_segment st = Some (w, n)" using Some by (cases a) auto
  with assms(2) have "finalize_active_segment E cfg st = seal E w st"
    using writable by (simp add: finalize_active_segment_def)
  then show ?thesis using seal_ok [OF assms(1) wn] that by metis
qed

text \<open>A tombstone hides one coordinate and keeps everything else.\<close>

lemma tombstone_ok:
  assumes "struct_ok E cfg st k"
  shows "struct_ok E cfg (tombstone_segment E sid i st) k"
    and "(sid', j) \<noteq> (sid, i) \<Longrightarrow>
           read_payload E (tombstone_segment E sid i st) sid' j = read_payload E st sid' j"
    and "dom (map_of (seg_dirs (tombstone_segment E sid i st))) = dom (map_of (seg_dirs st))"
proof -
  let ?st' = "tombstone_segment E sid i st"
  have "struct_ok E cfg ?st' k \<and> ((sid', j) \<noteq> (sid, i) \<longrightarrow> read_payload E ?st' sid' j = read_payload E st sid' j)
    \<and> dom (map_of (seg_dirs ?st')) = dom (map_of (seg_dirs st))"
  proof (cases "map_of (segments st) sid")
    case None
    then show ?thesis using assms by (simp add: tombstone_segment_def)
  next
    case (Some r)
    define r' where "r' = reader_mark_deleted (seg_x E) i r"
    have st': "?st' = st\<lparr>segments := AList.update sid r' (segments st),
        seg_dirs := AList.update sid (r_dir r') (seg_dirs st)\<rparr>"
      using Some by (simp add: tombstone_segment_def r'_def Let_def)
    have ok: "reader_ok E (seg_dirs st) sid r"
      using assms Some by (simp add: struct_ok_def readers_ok_def)
    then obtain ds where ds: "map_of (seg_dirs st) sid = Some (r_dir r)" "sid < 2 ^ 64"
      "meta_file (r_dir r) \<noteq> None" "dir_holds (seg_x E) (r_dir r) ds" "reader_holds (seg_x E) r ds"
      "seg_sized ds" "load_or_create (bitmap_ops_of (seg_x E)) (tombstone_bin (r_dir r)) = Inr (tombstones r)"
      by (auto simp: reader_ok_def)
    let ?B = "bitmap_ops_of (seg_x E)"
    note law = bitmap_law
    have "ts_synced ?B (ts_mark_deleted ?B i (tombstones r))"
      by (simp add: ts_synced_def ts_mark_deleted_def)
    then have "load_or_create ?B (tomb_file (persist ?B (ts_mark_deleted ?B i (tombstones r))))
        = Inr (persist ?B (ts_mark_deleted ?B i (tombstones r)))"
      by (intro bitmap.reload_clean [OF law] bitmap.persist_synced [OF law] bitmap.persist_clean [OF law])
    then have ok': "reader_ok E (seg_dirs ?st') sid r'"
      using ds reader_holds_mark [of "seg_x E" i r ds]
      by (auto simp: reader_ok_def st' r'_def update_conv' reader_mark_deleted_def Let_def dir_holds_def)
    have deleted: "is_deleted ?B (tombstones r') j \<longleftrightarrow> i = j \<or> is_deleted ?B (tombstones r) j" for j
      by (simp add: r'_def reader_mark_deleted_def Let_def bitmap.persist_deleted [OF law]
          bitmap.mark_then_deleted [OF law])
    have "reader_holds (seg_x E) r' ds" using ds(5) by (simp add: r'_def reader_holds_mark)
    note reads = read_chunk_holds [OF this ds(6)] read_chunk_holds [OF ds(5,6)]
    have dirs: "meta_file (r_dir r') = meta_file (r_dir r)"
      by (simp add: r'_def reader_mark_deleted_def Let_def)
    have "readers_ok E ?st'"
      using assms ok' by (auto simp: struct_ok_def readers_ok_def reader_ok_def st' update_conv' dirs)
    moreover have "active_ok E cfg ?st'"
      using assms Some by (auto simp: struct_ok_def active_ok_def writer_ok_def st' update_conv')
    moreover have "room ?st' k"
      using assms Some ds(1) by (auto simp: struct_ok_def room_def st' update_conv')
    ultimately have "struct_ok E cfg ?st' k"
      using assms by (simp add: struct_ok_def st' distinct_update)
    moreover have "read_payload E ?st' sid' j = read_payload E st sid' j" if "(sid', j) \<noteq> (sid, i)"
      using that Some reads [of j] deleted [of j]
      by (auto simp: read_payload_def read_from_active_segment_def st' update_conv'
          split: sum.split option.split)
    moreover have "dom (map_of (seg_dirs ?st')) = dom (map_of (seg_dirs st))"
      using ds(1) by (auto simp: st' update_conv')
    ultimately show ?thesis by blast
  qed
  then show "struct_ok E cfg ?st' k"
    and "(sid', j) \<noteq> (sid, i) \<Longrightarrow> read_payload E ?st' sid' j = read_payload E st sid' j"
    and "dom (map_of (seg_dirs ?st')) = dom (map_of (seg_dirs st))" by blast+
qed

end

lemma tombstone_frame [simp]:
  "db (tombstone_segment E sid i st) = db st" "wal (tombstone_segment E sid i st) = wal st"
  "artifact_rows (tombstone_segment E sid i st) = artifact_rows st"
  "active_segment (tombstone_segment E sid i st) = active_segment st"
  by (simp_all add: tombstone_segment_def Let_def split: option.split)

end
