(* ===== verification/Tenant_Table.thy ===== *)
theory Tenant_Table
  imports Tenant_Store
begin

text \<open>
  The metadata table as a map: \<open>catalog\<close> is the abstract view of a tenant's rows, from the
  id of a live chunk to its row without the physical coordinates. The statements the store
  issues refine operations on that map, as long as the table's uniqueness constraints hold
  and an inserted row takes coordinates no live row has.
\<close>

section \<open>Table invariant\<close>

definition coords :: "chunk_metadata \<Rightarrow> string \<times> nat \<times> u32" where
  "coords m = (m_tenant_id m, m_segment_id m, m_ordinal m)"

definition db_ok :: "chunk_metadata list \<Rightarrow> bool" where
  "db_ok rows \<longleftrightarrow> distinct (map m_chunk_id rows) \<and> distinct (map coords rows)"

text \<open>The rows of a tenant that are not deleted.\<close>

definition live_rows :: "string \<Rightarrow> chunk_metadata list \<Rightarrow> chunk_metadata set" where
  "live_rows tid rows = {m \<in> set rows. m_tenant_id m = tid \<and> m_status m \<noteq> Deleted}"

definition strip_coords :: "chunk_metadata \<Rightarrow> chunk_metadata" where
  "strip_coords m = m\<lparr>m_segment_id := 0, m_ordinal := 0\<rparr>"

definition catalog :: "string \<Rightarrow> chunk_metadata list \<Rightarrow> string \<Rightarrow> chunk_metadata option" where
  "catalog tid rows cid = map_option strip_coords (meta_get rows tid cid)"

lemma strip_coords_update [simp]:
  "strip_coords (m\<lparr>m_segment_id := s, m_ordinal := i\<rparr>) = strip_coords m"
  by (simp add: strip_coords_def)

lemma strip_chunk_row:
  "strip_coords (chunk_row E c s i) = strip_coords (chunk_row E c 0 0)"
  by (simp add: strip_coords_def chunk_row_def)

section \<open>Lookups\<close>

lemma meta_get_Some:
  assumes "db_ok rows"
  shows "meta_get rows tid cid = Some m \<longleftrightarrow> m \<in> live_rows tid rows \<and> m_chunk_id m = cid"
proof
  assume "meta_get rows tid cid = Some m"
  then show "m \<in> live_rows tid rows \<and> m_chunk_id m = cid"
    by (auto simp: meta_get_def find_Some_iff live_rows_def is_live_def)
next
  assume m: "m \<in> live_rows tid rows \<and> m_chunk_id m = cid"
  then have "meta_get rows tid cid \<noteq> None"
    by (auto simp: meta_get_def find_None_iff live_rows_def is_live_def)
  then obtain m' where m': "meta_get rows tid cid = Some m'" by blast
  then have "m' \<in> set rows \<and> m_chunk_id m' = cid"
    by (auto simp: meta_get_def find_Some_iff is_live_def)
  with m assms have "m' = m"
    by (auto simp: db_ok_def live_rows_def distinct_map dest: inj_onD)
  with m' show "meta_get rows tid cid = Some m" by simp
qed

lemma meta_get_None:
  "meta_get rows tid cid = None \<longleftrightarrow> (\<forall>m \<in> live_rows tid rows. m_chunk_id m \<noteq> cid)"
  by (auto simp: meta_get_def find_None_iff live_rows_def is_live_def)

lemma meta_get_live:
  "meta_get rows tid cid = Some m \<Longrightarrow>
     m \<in> live_rows tid rows \<and> m_chunk_id m = cid \<and> m_tenant_id m = tid \<and> m_status m \<noteq> Deleted"
  by (auto simp: meta_get_def find_Some_iff live_rows_def is_live_def)

lemma live_rows_coords:
  assumes "db_ok rows" and "m \<in> live_rows tid rows" and "m' \<in> live_rows tid rows"
    and "m_segment_id m = m_segment_id m'" and "m_ordinal m = m_ordinal m'"
  shows "m = m'"
proof -
  have "coords m = coords m'" using assms by (simp add: coords_def live_rows_def)
  with assms show ?thesis by (auto simp: db_ok_def live_rows_def distinct_map dest: inj_onD)
qed

section \<open>Inserting\<close>

lemma conflicts_iff: "conflicts row m \<longleftrightarrow> m_chunk_id m = m_chunk_id row \<or> coords m = coords row"
  by (simp add: conflicts_def coords_def)

lemma db_ok_insert:
  assumes "db_ok rows"
  shows "db_ok (meta_insert row rows)"
  using assms by (auto simp: db_ok_def meta_insert_def conflicts_iff distinct_map_filter)

text \<open>
  The new row replaces the row of its chunk and no other live row, when no other live row
  has its coordinates.
\<close>

lemma live_rows_insert:
  assumes "m_tenant_id row = tid" and "m_status row \<noteq> Deleted"
    and "\<forall>m \<in> live_rows tid rows. m_segment_id m = m_segment_id row \<and> m_ordinal m = m_ordinal row
           \<longrightarrow> m_chunk_id m = m_chunk_id row"
  shows "live_rows tid (meta_insert row rows) =
           insert row {m \<in> live_rows tid rows. m_chunk_id m \<noteq> m_chunk_id row}"
  using assms by (auto simp: live_rows_def meta_insert_def conflicts_def)

lemma catalog_insert:
  assumes "db_ok rows" and "m_tenant_id row = tid" and "m_status row \<noteq> Deleted"
    and "\<forall>m \<in> live_rows tid rows. m_segment_id m = m_segment_id row \<and> m_ordinal m = m_ordinal row
           \<longrightarrow> m_chunk_id m = m_chunk_id row"
  shows "catalog tid (meta_insert row rows) = (catalog tid rows)(m_chunk_id row \<mapsto> strip_coords row)"
proof
  fix cid
  note live = live_rows_insert [OF assms(2-4)] and ok = db_ok_insert [OF assms(1), of row]
  show "catalog tid (meta_insert row rows) cid =
        ((catalog tid rows)(m_chunk_id row \<mapsto> strip_coords row)) cid"
  proof (cases "cid = m_chunk_id row")
    case True
    then have "meta_get (meta_insert row rows) tid cid = Some row"
      using meta_get_Some [OF ok] live by simp
    with True show ?thesis by (simp add: catalog_def)
  next
    case False
    have "meta_get (meta_insert row rows) tid cid = Some m \<longleftrightarrow> meta_get rows tid cid = Some m" for m
      using False meta_get_Some [OF ok, of tid cid m] meta_get_Some [OF assms(1), of tid cid m] live
      by auto
    then have "meta_get (meta_insert row rows) tid cid = meta_get rows tid cid"
      by (metis not_None_eq)
    with False show ?thesis by (simp add: catalog_def)
  qed
qed

section \<open>Marking deleted\<close>

lemma map_mark_fields:
  "map m_chunk_id (meta_mark_deleted tid cid rows) = map m_chunk_id rows"
  "map coords (meta_mark_deleted tid cid rows) = map coords rows"
  by (simp_all add: meta_mark_deleted_def coords_def)

lemma db_ok_mark: "db_ok (meta_mark_deleted tid cid rows) = db_ok rows"
  by (simp add: db_ok_def map_mark_fields)

lemma live_rows_mark:
  "live_rows tid (meta_mark_deleted tid cid rows) = {m \<in> live_rows tid rows. m_chunk_id m \<noteq> cid}"
proof -
  let ?f = "\<lambda>m. if is_live tid cid m then m\<lparr>m_status := Deleted\<rparr> else m"
  have live: "m_tenant_id (?f m) = tid \<and> m_status (?f m) \<noteq> Deleted \<longleftrightarrow>
      m_tenant_id m = tid \<and> m_status m \<noteq> Deleted \<and> m_chunk_id m \<noteq> cid" for m
    by (auto simp: is_live_def)
  have same: "?f m = m" if "m_chunk_id m \<noteq> cid" for m using that by (simp add: is_live_def)
  show ?thesis
    unfolding live_rows_def meta_mark_deleted_def set_map
  proof (intro equalityI subsetI)
    fix x assume "x \<in> {m \<in> ?f ` set rows. m_tenant_id m = tid \<and> m_status m \<noteq> Deleted}"
    then obtain m where "m \<in> set rows" "x = ?f m" "m_tenant_id (?f m) = tid \<and> m_status (?f m) \<noteq> Deleted"
      by blast
    then show "x \<in> {m \<in> {m \<in> set rows. m_tenant_id m = tid \<and> m_status m \<noteq> Deleted}. m_chunk_id m \<noteq> cid}"
      unfolding live using same by simp
  next
    fix x assume "x \<in> {m \<in> {m \<in> set rows. m_tenant_id m = tid \<and> m_status m \<noteq> Deleted}. m_chunk_id m \<noteq> cid}"
    then show "x \<in> {m \<in> ?f ` set rows. m_tenant_id m = tid \<and> m_status m \<noteq> Deleted}"
      by (auto simp: is_live_def intro!: image_eqI [of _ ?f x])
  qed
qed

lemma catalog_mark:
  assumes "db_ok rows"
  shows "catalog tid (meta_mark_deleted tid cid rows) = (catalog tid rows)(cid := None)"
proof
  fix c
  have "meta_get (meta_mark_deleted tid cid rows) tid c = Some m \<longleftrightarrow>
      c \<noteq> cid \<and> meta_get rows tid c = Some m" for m
    using meta_get_Some [of "meta_mark_deleted tid cid rows" tid c m] meta_get_Some [OF assms, of tid c m]
      assms live_rows_mark [of tid cid rows] by (auto simp: db_ok_mark)
  then have "meta_get (meta_mark_deleted tid cid rows) tid c =
      (if c = cid then None else meta_get rows tid c)"
    by (metis (full_types) not_None_eq)
  then show "catalog tid (meta_mark_deleted tid cid rows) c = ((catalog tid rows)(cid := None)) c"
    by (simp add: catalog_def)
qed

lemma catalog_None: "catalog tid rows cid = None \<longleftrightarrow> meta_get rows tid cid = None"
  by (simp add: catalog_def)

end
