(* ===== verification/Tenant_Recovery.thy ===== *)
theory Tenant_Recovery
  imports Tenant_Segments Tenant_Table
begin

text \<open>
  Recovery of a tenant store. The abstract specification is a step on the catalog for every
  WAL record; replay of the log on the real state refines it, keeps the invariant of the
  segments, and ends with every live row's payload readable. From the loop follows what
  opening a tenant after a crash restores.
\<close>

section \<open>Abstract specification of replay\<close>

text \<open>
  An Add brings a chunk into the catalog unless the table has it, in which case the table's
  row stays; a Delete removes it; the other records do not concern chunks.
\<close>

definition catalog_step ::
  "'b store_ext \<Rightarrow> wal_record \<Rightarrow> (string \<Rightarrow> chunk_metadata option) \<Rightarrow> string \<Rightarrow> chunk_metadata option" where
  "catalog_step E r v =
     (case record_type r of
        Add \<Rightarrow>
          if v (rec_chunk_id r) \<noteq> None then v
          else v(rec_chunk_id r :=
                   map_option (\<lambda>c. strip_coords (chunk_row E c 0 0)) (chunk_de E (payload r)))
      | Delete \<Rightarrow> v(rec_chunk_id r := None)
      | _ \<Rightarrow> v)"

definition catalog_replay ::
  "'b store_ext \<Rightarrow> wal_record list \<Rightarrow> (string \<Rightarrow> chunk_metadata option) \<Rightarrow> string \<Rightarrow> chunk_metadata option" where
  "catalog_replay E rs v = fold (catalog_step E) rs v"

text \<open>
  A record the add and delete paths can have written for tenant \<open>tid\<close>, where \<open>pl\<close> gives the
  serialised form of every chunk.
\<close>

definition rec_ok :: "'b store_ext \<Rightarrow> string \<Rightarrow> (string \<Rightarrow> bytes) \<Rightarrow> wal_record \<Rightarrow> bool" where
  "rec_ok E tid pl r \<longleftrightarrow>
     (case record_type r of
        Add \<Rightarrow>
          tenant_new (rec_tenant_id r) = Inr tid \<and> uuid_parse E (rec_chunk_id r) = Some (rec_chunk_id r)
          \<and> payload r = pl (rec_chunk_id r) \<and> payload_ok (payload r)
          \<and> (\<exists>c. chunk_de E (payload r) = Some c \<and> mc_chunk_id c = rec_chunk_id r
                 \<and> mc_tenant_id c = tid \<and> mc_status c \<noteq> Deleted)
      | Delete \<Rightarrow>
          tenant_new (rec_tenant_id r) = Inr tid \<and> uuid_parse E (rec_chunk_id r) = Some (rec_chunk_id r)
      | TaskArtifact \<Rightarrow> artifact_de_ok E (payload r)
      | Checkpoint \<Rightarrow> True)"

section \<open>The loop invariant\<close>

definition pending :: "wal_record list \<Rightarrow> string \<Rightarrow> bool" where
  "pending rs cid \<longleftrightarrow> (\<exists>r \<in> set rs. record_type r = Add \<and> rec_chunk_id r = cid)"

text \<open>
  A live row points into a directory that exists, into the active segment only at chunks the
  segment has, and its payload is either readable or still to come from the log.
\<close>

definition row_ok ::
  "'b store_ext \<Rightarrow> (string \<Rightarrow> bytes) \<Rightarrow> wal_record list \<Rightarrow> 'b tenant_store \<Rightarrow> chunk_metadata \<Rightarrow> bool" where
  "row_ok E pl rs st m \<longleftrightarrow>
     m_segment_id m \<in> dom (map_of (seg_dirs st))
     \<and> (\<forall>w n. active_segment st = Some (w, n) \<and> m_segment_id m = w_id w \<longrightarrow> unat (m_ordinal m) < n)
     \<and> (read_payload E st (m_segment_id m) (m_ordinal m) = Inr (Some (pl (m_chunk_id m)))
        \<or> read_payload E st (m_segment_id m) (m_ordinal m) = Inr None \<and> pending rs (m_chunk_id m))"

definition replay_inv ::
  "'b store_ext \<Rightarrow> tenant_config \<Rightarrow> (string \<Rightarrow> bytes) \<Rightarrow> nat \<Rightarrow> wal_record list
     \<Rightarrow> recovery_counts \<times> 'b tenant_store \<Rightarrow> bool" where
  "replay_inv E cfg pl k rs s \<longleftrightarrow>
     (let (rc, st) = s in
      struct_ok E cfg st (length rs + k) \<and> db_ok (db st)
      \<and> (\<forall>m \<in> live_rows (cfg_tenant_id cfg) (db st). row_ok E pl rs st m)
      \<and> (rc_adds rc = 0 \<longrightarrow> active_segment st = None)
      \<and> (\<forall>w n. active_segment st = Some (w, n) \<longrightarrow> 0 < n))"

lemma pending_Cons:
  "pending (r # rs) cid \<longleftrightarrow> record_type r = Add \<and> rec_chunk_id r = cid \<or> pending rs cid"
  by (auto simp: pending_def)

lemma row_ok_frame [simp]:
  "row_ok E pl rs (st\<lparr>db := rows\<rparr>) m = row_ok E pl rs st m"
  "row_ok E pl rs (st\<lparr>wal := w\<rparr>) m = row_ok E pl rs st m"
  "row_ok E pl rs (st\<lparr>artifact_rows := a\<rparr>) m = row_ok E pl rs st m"
  "row_ok E pl rs (st\<lparr>writes_since_checkpoint := c\<rparr>) m = row_ok E pl rs st m"
  by (simp_all add: row_ok_def)

text \<open>What every step of the loop keeps.\<close>

definition step_ok ::
  "'b store_ext \<Rightarrow> tenant_config \<Rightarrow> (string \<Rightarrow> bytes) \<Rightarrow> nat \<Rightarrow> wal_record \<Rightarrow> wal_record list \<Rightarrow> recovery_counts \<times> 'b tenant_store
     \<Rightarrow> memd_error + (recovery_counts \<times> 'b tenant_store) \<Rightarrow> bool" where
  "step_ok E cfg pl k r rs s res \<longleftrightarrow>
     (\<exists>rc' st'. res = Inr (rc', st') \<and> replay_inv E cfg pl k rs (rc', st')
        \<and> catalog (cfg_tenant_id cfg) (db st') = catalog_step E r (catalog (cfg_tenant_id cfg) (db (snd s)))
        \<and> wal st' = wal (snd s))"

context tenant_env
begin

text \<open>A row readable from a loaded segment is read by \<open>read_payload\<close> the same way.\<close>

lemma readable_read:
  assumes "struct_ok E cfg st k" and "readable_in_segments E st m"
  shows "read_payload E st (m_segment_id m) (m_ordinal m) \<noteq> Inr None"
proof -
  obtain r bs where r: "map_of (segments st) (m_segment_id m) = Some r"
    "read_chunk (seg_x E) r (m_ordinal m) = Inr (Some bs)"
    using assms(2) by (auto simp: readable_in_segments_def split: option.splits sum.splits)
  then have "w_id w \<noteq> m_segment_id m" if "active_segment st = Some (w, n)" for w n
    using assms(1) that by (auto simp: struct_ok_def active_ok_def writer_ok_def)
  with r show ?thesis
    by (auto simp: read_payload_def read_from_active_segment_def split: option.splits)
qed

text \<open>
  Writing a payload for a chunk: the new coordinates are free, the payload is there, every
  other row keeps its read.
\<close>

lemma place_payload:
  assumes "struct_ok E cfg st (Suc k)" and "Suc k < 2 ^ 64" and "payload_ok p"
    and rows: "\<forall>m \<in> M. row_ok E pl rs st m"
  obtains st1 st2 sid i where "get_or_create_active_segment E cfg now st = Inr st1"
    and "append_active E p msg st1 = Inr ((sid, i), st2)"
    and "struct_ok E cfg st2 k" and "db st2 = db st" and "wal st2 = wal st"
    and "artifact_rows st2 = artifact_rows st"
    and "\<exists>w n. active_segment st2 = Some (w, Suc n) \<and> w_id w = sid \<and> unat i = n"
    and "sid \<in> dom (map_of (seg_dirs st2))"
    and "read_payload E st2 sid i = Inr (Some p)"
    and "\<forall>m \<in> M. row_ok E pl rs st2 m
           \<and> \<not> (m_segment_id m = sid \<and> m_ordinal m = i)"
    and "\<forall>m \<in> M. m_segment_id m = sid \<longrightarrow> (\<exists>v n. active_segment st = Some (v, n) \<and> w_id v = sid)"
proof -
  obtain st1 w n where g: "get_or_create_active_segment E cfg now st = Inr st1"
    "active_segment st1 = Some (w, n)" "n < segment_max_chunks cfg" "struct_ok E cfg st1 k"
    "read_payload E st1 = read_payload E st" "db st1 = db st" "wal st1 = wal st"
    "artifact_rows st1 = artifact_rows st"
    "dom (map_of (seg_dirs st)) \<subseteq> dom (map_of (seg_dirs st1))"
    "active_segment st = Some (w, n) \<or> w_id w \<notin> dom (map_of (seg_dirs st)) \<and> n = 0"
    using get_or_create_ok [OF assms(1,2)] by metis
  obtain w' where a: "append_active E p msg st1 =
      Inr ((w_id w, word_of_nat n), st1\<lparr>active_segment := Some (w', n + 1)\<rparr>)"
    "w_id w' = w_id w" "struct_ok E cfg (st1\<lparr>active_segment := Some (w', n + 1)\<rparr>) k"
    "\<And>sid o'. read_payload E (st1\<lparr>active_segment := Some (w', n + 1)\<rparr>) sid o' =
       (if sid = w_id w \<and> o' = word_of_nat n then Inr (Some p) else read_payload E st1 sid o')"
    "unat (word_of_nat n :: u32) = n"
    using append_active_ok [OF g(4,2,3) assms(3)] by metis
  let ?st2 = "st1\<lparr>active_segment := Some (w', n + 1)\<rparr>"
  have wdir: "w_id w \<in> dom (map_of (seg_dirs st1))"
    using g(2,4) by (auto simp: struct_ok_def active_ok_def writer_ok_def)
  have "row_ok E pl rs ?st2 m \<and> \<not> (m_segment_id m = w_id w \<and> m_ordinal m = word_of_nat n)"
    if m: "m \<in> M" for m
  proof -
    have ok: "row_ok E pl rs st m" using rows m by blast
    have free: "m_segment_id m = w_id w \<Longrightarrow> unat (m_ordinal m) < n"
      using ok g(10) by (auto simp: row_ok_def)
    then have "\<not> (m_segment_id m = w_id w \<and> m_ordinal m = word_of_nat n)" using a(5) by auto
    moreover from this have "row_ok E pl rs ?st2 m"
      using ok free g(5,9) a(2,4) by (auto simp: row_ok_def)
    ultimately show ?thesis by blast
  qed
  moreover have "\<forall>m \<in> M. m_segment_id m = w_id w \<longrightarrow>
      (\<exists>v n. active_segment st = Some (v, n) \<and> w_id v = w_id w)"
    using rows g(10) by (auto simp: row_ok_def)
  ultimately show ?thesis
    using g a wdir by (intro that [of st1 "w_id w" "word_of_nat n" ?st2]) auto
qed

text \<open>One Add record: skipped when the row is readable, otherwise written again.\<close>

lemma row_ok_drop:
  assumes "row_ok E pl (r # rs) st m"
    and "record_type r = Add \<and> rec_chunk_id r = m_chunk_id m \<Longrightarrow>
           read_payload E st (m_segment_id m) (m_ordinal m) \<noteq> Inr None"
  shows "row_ok E pl rs st m"
  using assms by (auto simp: row_ok_def pending_Cons)

lemma recover_add_skip:
  assumes inv: "replay_inv E cfg pl k (r # rs) (rc, st)" and "rec_ok E (cfg_tenant_id cfg) pl r"
    and add: "record_type r = Add"
    and m: "meta_get (db st) (cfg_tenant_id cfg) (rec_chunk_id r) = Some m"
    and readable: "readable_in_segments E st m"
  shows "step_ok E cfg pl k r rs (rc, st) (recover_add E cfg now r (rc, st))"
proof -
  let ?T = "cfg_tenant_id cfg"
  have struct: "struct_ok E cfg st (Suc (length rs + k))" and ok: "db_ok (db st)"
    using inv by (simp_all add: replay_inv_def)
  have "row_ok E pl rs st m'" if m': "m' \<in> live_rows ?T (db st)" for m'
  proof (rule row_ok_drop)
    show "row_ok E pl (r # rs) st m'" using inv m' by (simp add: replay_inv_def)
    assume "record_type r = Add \<and> rec_chunk_id r = m_chunk_id m'"
    then have "meta_get (db st) ?T (rec_chunk_id r) = Some m'" using m' meta_get_Some [OF ok] by simp
    with m have "m' = m" by simp
    then show "read_payload E st (m_segment_id m') (m_ordinal m') \<noteq> Inr None"
      using readable_read [OF struct readable] by simp
  qed
  then have "replay_inv E cfg pl k rs (rc\<lparr>rc_skipped := rc_skipped rc + 1\<rparr>, st)"
    using inv by (auto simp: replay_inv_def intro: struct_ok_mono)
  moreover have "recover_add E cfg now r (rc, st) = Inr (rc\<lparr>rc_skipped := rc_skipped rc + 1\<rparr>, st)"
    using assms(2) add m readable by (auto simp: recover_add_def rec_ok_def)
  moreover have "catalog_step E r (catalog ?T (db st)) = catalog ?T (db st)"
    using m add by (simp add: catalog_step_def catalog_def)
  ultimately show ?thesis by (simp add: step_ok_def)
qed

lemma recover_add_write:
  assumes inv: "replay_inv E cfg pl k (r # rs) (rc, st)" and rec: "rec_ok E (cfg_tenant_id cfg) pl r"
    and add: "record_type r = Add" and len: "Suc (length rs + k) < 2 ^ 64"
    and unreadable: "\<And>m. meta_get (db st) (cfg_tenant_id cfg) (rec_chunk_id r) = Some m \<Longrightarrow>
           \<not> readable_in_segments E st m"
  shows "step_ok E cfg pl k r rs (rc, st) (recover_add E cfg now r (rc, st))"
proof -
  let ?T = "cfg_tenant_id cfg" and ?cid = "rec_chunk_id r"
  obtain c where c: "chunk_de E (payload r) = Some c" "mc_chunk_id c = ?cid" "mc_tenant_id c = ?T"
    "mc_status c \<noteq> Deleted" and r: "tenant_new (rec_tenant_id r) = Inr ?T" "uuid_parse E ?cid = Some ?cid"
    "payload r = pl ?cid" "payload_ok (payload r)"
    using rec add by (auto simp: rec_ok_def)
  have ok: "db_ok (db st)" and struct: "struct_ok E cfg st (Suc (length rs + k))"
    and rows: "\<forall>m \<in> live_rows ?T (db st). row_ok E pl (r # rs) st m"
    using inv by (simp_all add: replay_inv_def)
  obtain st1 st2 sid i where p: "get_or_create_active_segment E cfg now st = Inr st1"
    "append_active E (payload r) ''no active segment during recovery'' st1 = Inr ((sid, i), st2)"
    "struct_ok E cfg st2 (length rs + k)" "db st2 = db st" "wal st2 = wal st"
    "\<exists>w n. active_segment st2 = Some (w, Suc n) \<and> w_id w = sid \<and> unat i = n"
    "sid \<in> dom (map_of (seg_dirs st2))" "read_payload E st2 sid i = Inr (Some (payload r))"
    "\<forall>m \<in> live_rows ?T (db st). row_ok E pl (r # rs) st2 m \<and> \<not> (m_segment_id m = sid \<and> m_ordinal m = i)"
    by (rule place_payload [OF struct len r(4) rows]; rule that; assumption)
  define row where "row = (case meta_get (db st) ?T ?cid of
      Some cur \<Rightarrow> cur\<lparr>m_segment_id := sid, m_ordinal := i\<rparr> | None \<Rightarrow> chunk_row E c sid i)"
  have row: "m_chunk_id row = ?cid" "m_tenant_id row = ?T" "m_status row \<noteq> Deleted"
    "m_segment_id row = sid" "m_ordinal row = i"
    using c(2-4) meta_get_live [of "db st" ?T ?cid]
    by (cases "meta_get (db st) ?T ?cid"; simp add: row_def chunk_row_def)+
  define st' where "st' = st2\<lparr>db := meta_insert row (db st2)\<rparr>"
  have res: "recover_add E cfg now r (rc, st) = Inr (rc\<lparr>rc_adds := rc_adds rc + 1\<rparr>, st')"
    using r c p(1,2,4) unreadable
    by (simp add: recover_add_def Let_def row_def st'_def split: option.split)
  have free: "\<forall>m \<in> live_rows ?T (db st). m_segment_id m = m_segment_id row \<and> m_ordinal m = m_ordinal row
      \<longrightarrow> m_chunk_id m = m_chunk_id row"
    using p(9) row by auto
  note live = live_rows_insert [OF row(2,3) free] and cat = catalog_insert [OF ok row(2,3) free]
  have "row_ok E pl rs st2 row" using row p(6-8) r(3) by (auto simp: row_ok_def)
  moreover have "row_ok E pl rs st2 m" if "m \<in> live_rows ?T (db st)" "m_chunk_id m \<noteq> ?cid" for m
    using p(9) that by (auto intro: row_ok_drop)
  ultimately have "\<forall>m \<in> live_rows ?T (db st'). row_ok E pl rs st' m"
    using live by (auto simp: st'_def p(4) row(1))
  then have inv': "replay_inv E cfg pl k rs (rc\<lparr>rc_adds := rc_adds rc + 1\<rparr>, st')"
    using p(3,6) ok by (auto simp: replay_inv_def st'_def p(4) db_ok_insert)
  have "catalog ?T (db st') = catalog_step E r (catalog ?T (db st))"
  proof (cases "meta_get (db st) ?T ?cid")
    case None
    then have stripped: "strip_coords row = strip_coords (chunk_row E c 0 0)"
      using strip_chunk_row [of E c sid i] by (simp add: row_def)
    from None show ?thesis
      using stripped cat c(1) add by (simp add: st'_def p(4) catalog_step_def catalog_None row(1))
  next
    case (Some cur)
    then have stripped: "strip_coords row = strip_coords cur" by (simp add: row_def)
    from Some have "(catalog ?T (db st))(?cid \<mapsto> strip_coords cur) = catalog ?T (db st)"
      by (auto simp: catalog_def fun_eq_iff)
    with Some show ?thesis
      using stripped cat add by (simp add: st'_def p(4) catalog_step_def catalog_None row(1))
  qed
  with res inv' show ?thesis by (simp add: step_ok_def st'_def p(5))
qed

lemma recover_delete_ok:
  assumes inv: "replay_inv E cfg pl k (r # rs) (rc, st)" and rec: "rec_ok E (cfg_tenant_id cfg) pl r"
    and del: "record_type r = Delete"
  shows "step_ok E cfg pl k r rs (rc, st) (recover_delete E r (rc, st))"
proof -
  let ?T = "cfg_tenant_id cfg" and ?cid = "rec_chunk_id r"
  have r: "tenant_new (rec_tenant_id r) = Inr ?T" "uuid_parse E ?cid = Some ?cid"
    using rec del by (simp_all add: rec_ok_def)
  have ok: "db_ok (db st)" and struct: "struct_ok E cfg st (length rs + k)"
    and rows: "\<And>m. m \<in> live_rows ?T (db st) \<Longrightarrow> row_ok E pl rs st m"
    using inv del by (auto simp: replay_inv_def intro: struct_ok_mono row_ok_drop)
  show ?thesis
  proof (cases "meta_get (db st) ?T ?cid")
    case None
    then have "catalog_step E r (catalog ?T (db st)) = catalog ?T (db st)"
      using del by (auto simp: catalog_step_def catalog_def fun_eq_iff)
    moreover have "replay_inv E cfg pl k rs (rc\<lparr>rc_skipped := rc_skipped rc + 1\<rparr>, st)"
      using inv ok struct rows by (simp add: replay_inv_def)
    ultimately show ?thesis using None r by (simp add: step_ok_def recover_delete_def)
  next
    case (Some m)
    note m = meta_get_live [OF Some]
    let ?st1 = "st\<lparr>db := meta_mark_deleted ?T ?cid (db st)\<rparr>"
    let ?st' = "tombstone_segment E (m_segment_id m) (m_ordinal m) ?st1"
    have s1: "struct_ok E cfg ?st1 (length rs + k)" using struct by simp
    note t = tombstone_ok(1) [OF s1, of "m_segment_id m" "m_ordinal m"]
      tombstone_ok(2) [OF s1, of _ _ "m_segment_id m" "m_ordinal m"]
      tombstone_ok(3) [OF s1, of "m_segment_id m" "m_ordinal m"]
    have "row_ok E pl rs ?st' q" if q: "q \<in> live_rows ?T (db ?st')" for q
    proof -
      have q': "q \<in> live_rows ?T (db st)" "m_chunk_id q \<noteq> ?cid" using q by (auto simp: live_rows_mark)
      then have "(m_segment_id q, m_ordinal q) \<noteq> (m_segment_id m, m_ordinal m)"
        using live_rows_coords [OF ok q'(1) conjunct1 [OF m]] m by auto
      from t(2) [OF this] have "read_payload E ?st' (m_segment_id q) (m_ordinal q) =
          read_payload E st (m_segment_id q) (m_ordinal q)" by simp
      with rows [OF q'(1)] show ?thesis unfolding row_ok_def t(3) by simp
    qed
    then have "replay_inv E cfg pl k rs (rc\<lparr>rc_deletes := rc_deletes rc + 1\<rparr>, ?st')"
      using inv ok t(1) by (simp add: replay_inv_def db_ok_mark)
    moreover have "catalog ?T (db ?st') = catalog_step E r (catalog ?T (db st))"
      using del by (simp add: catalog_mark [OF ok] catalog_step_def)
    moreover have "recover_delete E r (rc, st) = Inr (rc\<lparr>rc_deletes := rc_deletes rc + 1\<rparr>, ?st')"
      using r Some m by (simp add: recover_delete_def)
    ultimately show ?thesis by (simp add: step_ok_def)
  qed
qed

lemma recover_other_ok:
  assumes "replay_inv E cfg pl k (r # rs) (rc, st)" and "record_type r \<noteq> Add" and "record_type r \<noteq> Delete"
    and "rec_ok E (cfg_tenant_id cfg) pl r"
  shows "record_type r = Checkpoint \<Longrightarrow> step_ok E cfg pl k r rs (rc, st) (Inr (rc, st))"
    and "record_type r = TaskArtifact \<Longrightarrow> step_ok E cfg pl k r rs (rc, st) (recover_artifact E r (rc, st))"
proof -
  have "struct_ok E cfg st (length rs + k)"
    and rows: "\<And>m. m \<in> live_rows (cfg_tenant_id cfg) (db st) \<Longrightarrow> row_ok E pl rs st m"
    using assms(1,2) by (auto simp: replay_inv_def intro: struct_ok_mono row_ok_drop)
  then have "replay_inv E cfg pl k rs (rc', st)" if "rc_adds rc' = rc_adds rc" for rc'
    using assms(1) that by (simp add: replay_inv_def)
  then show "record_type r = Checkpoint \<Longrightarrow> step_ok E cfg pl k r rs (rc, st) (Inr (rc, st))"
    and "record_type r = TaskArtifact \<Longrightarrow> step_ok E cfg pl k r rs (rc, st) (recover_artifact E r (rc, st))"
    using assms(4)
    by (auto simp: step_ok_def recover_artifact_def rec_ok_def catalog_step_def replay_inv_def)
qed

text \<open>The whole loop.\<close>

lemma recover_records_ok:
  assumes "replay_inv E cfg pl k rs (rc, st)" and "\<forall>r \<in> set rs. rec_ok E (cfg_tenant_id cfg) pl r"
    and "length rs + k < 2 ^ 64"
  shows "\<exists>rc' st'. recover_records E cfg now rs (rc, st) = Inr (rc', st')
      \<and> replay_inv E cfg pl k [] (rc', st') \<and> wal st' = wal st
      \<and> catalog (cfg_tenant_id cfg) (db st') = catalog_replay E rs (catalog (cfg_tenant_id cfg) (db st))"
  using assms
proof (induction rs arbitrary: rc st)
  case Nil
  then show ?case by (simp add: catalog_replay_def)
next
  case (Cons r rs)
  let ?step = "case record_type r of Add \<Rightarrow> recover_add E cfg now r (rc, st)
      | Delete \<Rightarrow> recover_delete E r (rc, st) | TaskArtifact \<Rightarrow> recover_artifact E r (rc, st)
      | Checkpoint \<Rightarrow> Inr (rc, st)"
  have r: "rec_ok E (cfg_tenant_id cfg) pl r" using Cons.prems(2) by simp
  have len: "Suc (length rs + k) < 2 ^ 64" using Cons.prems(3) by simp
  have "step_ok E cfg pl k r rs (rc, st) ?step"
  proof (cases "record_type r")
    case Add
    then show ?thesis
      using recover_add_skip [OF Cons.prems(1) r Add] recover_add_write [OF Cons.prems(1) r Add len]
      by (cases "\<exists>m. meta_get (db st) (cfg_tenant_id cfg) (rec_chunk_id r) = Some m
            \<and> readable_in_segments E st m") auto
  next
    case Delete
    then show ?thesis using recover_delete_ok [OF Cons.prems(1) r Delete] by simp
  qed (use recover_other_ok [OF Cons.prems(1) _ _ r] in simp_all)
  then obtain rc1 st1 where s: "?step = Inr (rc1, st1)" "replay_inv E cfg pl k rs (rc1, st1)"
    "catalog (cfg_tenant_id cfg) (db st1) = catalog_step E r (catalog (cfg_tenant_id cfg) (db st))"
    "wal st1 = wal st" by (auto simp: step_ok_def)
  have "recover_records E cfg now (r # rs) (rc, st) = recover_records E cfg now rs (rc1, st1)"
    using s(1) by simp
  with Cons.IH [OF s(2)] Cons.prems(2,3) s(3,4) show ?case by (simp add: catalog_replay_def)
qed

text \<open>Recovery as a whole: replay, finalize, truncate.\<close>

lemma recover_from_wal_ok:
  assumes "struct_ok E cfg st (length rs + k)" and "db_ok (db st)" and "active_segment st = None"
    and "\<forall>m \<in> live_rows (cfg_tenant_id cfg) (db st). row_ok E pl rs st m"
    and "\<forall>r \<in> set rs. rec_ok E (cfg_tenant_id cfg) pl r" and "length rs + k < 2 ^ 64"
    and "records_for_recovery (wal_x E) data = rs" and "data = [] \<Longrightarrow> rs = []"
  obtains st' where "recover_from_wal E cfg now data st = Inr st'" and "struct_ok E cfg st' k"
    and "db_ok (db st')" and "active_segment st' = None"
    and "\<forall>m \<in> live_rows (cfg_tenant_id cfg) (db st'). row_ok E pl [] st' m"
    and "catalog (cfg_tenant_id cfg) (db st') = catalog_replay E rs (catalog (cfg_tenant_id cfg) (db st))"
    and "wal st' = (if rs = [] then wal st else writer_truncate (wal st))"
proof (cases "rs = []")
  case True
  then show ?thesis
    using assms that [of st] by (auto simp: recover_from_wal_def catalog_replay_def)
next
  case False
  have "replay_inv E cfg pl k rs (no_counts, st)"
    using assms by (simp add: replay_inv_def)
  from recover_records_ok [OF this assms(5,6)] obtain rc st1 where
    loop: "recover_records E cfg now rs (no_counts, st) = Inr (rc, st1)" "wal st1 = wal st"
      "catalog (cfg_tenant_id cfg) (db st1) = catalog_replay E rs (catalog (cfg_tenant_id cfg) (db st))"
    and inv: "replay_inv E cfg pl k [] (rc, st1)" by blast
  have rows: "\<forall>m \<in> live_rows (cfg_tenant_id cfg) (db st1). row_ok E pl [] st1 m"
    and struct: "struct_ok E cfg st1 k" and ok: "db_ok (db st1)"
    and n: "\<forall>w n. active_segment st1 = Some (w, n) \<longrightarrow> 0 < n"
    using inv by (auto simp: replay_inv_def)
  obtain st2 where fin: "finalize_active_segment E cfg st1 = Inr st2" "struct_ok E cfg st2 k"
    "active_segment st2 = None" "read_payload E st2 = read_payload E st1" "db st2 = db st1"
    "wal st2 = wal st1" "dom (map_of (seg_dirs st2)) = dom (map_of (seg_dirs st1))"
    using finalize_active_ok [OF struct n] by metis
  have "st2 = st1" if "rc_adds rc = 0"
    using that inv fin(1) by (simp add: replay_inv_def finalize_active_segment_def split: if_splits)
  then have "(if rc_adds rc > 0 then finalize_active_segment E cfg st1 else Inr st1) = Inr st2"
    using fin(1) by auto
  then have res: "recover_from_wal E cfg now data st = Inr (st2\<lparr>wal := writer_truncate (wal st2)\<rparr>)"
    using False loop(1) assms(7,8) writable
    by (auto simp: recover_from_wal_def truncate_wal_def)
  show ?thesis
    by (rule that [OF res]) (use rows ok fin loop False in \<open>auto simp: row_ok_def\<close>)
qed

end

section \<open>Loading the segments of a directory\<close>

definition dir_ok :: "'b store_ext \<Rightarrow> nat \<Rightarrow> seg_dir \<Rightarrow> bool" where
  "dir_ok E sid d \<longleftrightarrow>
     (meta_file d \<noteq> None \<longrightarrow>
        sid < 2 ^ 64 \<and> (\<exists>ds ts. dir_holds (seg_x E) d ds \<and> seg_sized ds
           \<and> load_or_create (bitmap_ops_of (seg_x E)) (tombstone_bin d) = Inr ts))"

definition dirs_ok :: "'b store_ext \<Rightarrow> dirs \<Rightarrow> bool" where
  "dirs_ok E dirs \<longleftrightarrow> distinct (map fst dirs) \<and> (\<forall>(sid, d) \<in> set dirs. dir_ok E sid d)"

text \<open>The state \<open>tenant_open\<close> starts recovery from.\<close>

definition boot :: "'b store_ext \<Rightarrow> disk_state \<Rightarrow> wal_writer \<Rightarrow> 'b tenant_store" where
  "boot E d w =
     \<lparr>db = disk_db d, artifact_rows = disk_artifacts d, wal = w, seg_dirs = disk_dirs d,
      active_segment = None, segments = load_segments E (disk_dirs d), writes_since_checkpoint = 0\<rparr>"

lemma boot_sel [simp]:
  "db (boot E d w) = disk_db d" "wal (boot E d w) = w" "seg_dirs (boot E d w) = disk_dirs d"
  "active_segment (boot E d w) = None" "segments (boot E d w) = load_segments E (disk_dirs d)"
  by (simp_all add: boot_def)

lemma dirs_ok_open:
  assumes "dirs_ok E dirs" and "map_of dirs sid = Some d" and "meta_file d \<noteq> None"
  obtains r ds where "reader_open (seg_x E) (dir_name sid) d = Inr r" and "r_id r = sid" and "r_dir r = d"
    and "sid < 2 ^ 64" and "dir_holds (seg_x E) d ds" and "seg_sized ds" and "reader_holds (seg_x E) r ds"
    and "load_or_create (bitmap_ops_of (seg_x E)) (tombstone_bin d) = Inr (tombstones r)"
proof -
  have "(sid, d) \<in> set dirs" using assms(2) by (rule map_of_SomeD)
  then obtain ds ts where ds: "sid < 2 ^ 64" "dir_holds (seg_x E) d ds" "seg_sized ds"
    "load_or_create (bitmap_ops_of (seg_x E)) (tombstone_bin d) = Inr ts"
    using assms(1,3) unfolding dirs_ok_def dir_ok_def by blast
  from reader_open_holds [OF ds(2,1,4)] ds that show ?thesis by metis
qed

lemma load_segments_map:
  "dirs_ok E dirs \<Longrightarrow>
     map_of (load_segments E dirs) sid =
       (case map_of dirs sid of
          None \<Rightarrow> None
        | Some d \<Rightarrow> if meta_file d = None then None
                    else (case reader_open (seg_x E) (dir_name sid) d of Inr r \<Rightarrow> Some r | Inl _ \<Rightarrow> None))"
proof (induction dirs)
  case Nil
  show ?case by simp
next
  case (Cons p dirs)
  obtain s0 d0 where p: "p = (s0, d0)" by (cases p)
  have "dirs_ok E dirs" and fresh: "map_of dirs s0 = None"
    using Cons.prems by (auto simp: dirs_ok_def p map_of_eq_None_iff)
  note IH = Cons.IH [OF this(1)]
  show ?case
  proof (cases "meta_file d0")
    case None
    then show ?thesis using IH fresh by (auto simp: p)
  next
    case (Some m)
    then obtain r where "reader_open (seg_x E) (dir_name s0) d0 = Inr r" "r_id r = s0"
      using dirs_ok_open [OF Cons.prems, of s0 d0] by (auto simp: p)
    then show ?thesis using Some IH by (auto simp: p)
  qed
qed

lemma boot_struct_ok:
  assumes "dirs_ok E (disk_dirs d)" and "\<forall>sid \<in> dom (map_of (disk_dirs d)). sid + k < 2 ^ 64"
  shows "struct_ok E cfg (boot E d w) k"
proof -
  note load = load_segments_map [OF assms(1)]
  have "reader_ok E (disk_dirs d) sid r" if r: "map_of (load_segments E (disk_dirs d)) sid = Some r" for sid r
  proof -
    obtain dd where dd: "map_of (disk_dirs d) sid = Some dd" "meta_file dd \<noteq> None"
      "reader_open (seg_x E) (dir_name sid) dd = Inr r"
      using r unfolding load by (auto split: option.splits if_splits sum.splits)
    from dirs_ok_open [OF assms(1) dd(1,2)] obtain q ds where
      "reader_open (seg_x E) (dir_name sid) dd = Inr q" "r_dir q = dd" "sid < 2 ^ 64"
      "dir_holds (seg_x E) dd ds" "seg_sized ds" "reader_holds (seg_x E) q ds"
      "load_or_create (bitmap_ops_of (seg_x E)) (tombstone_bin dd) = Inr (tombstones q)" by blast
    with dd show ?thesis unfolding reader_ok_def by (intro exI [of _ ds]) simp
  qed
  moreover have "map_of (load_segments E (disk_dirs d)) sid \<noteq> None"
    if dd: "map_of (disk_dirs d) sid = Some dd" "meta_file dd \<noteq> None" for sid dd
  proof -
    obtain r where "reader_open (seg_x E) (dir_name sid) dd = Inr r"
      using dirs_ok_open [OF assms(1) dd] by blast
    with dd show ?thesis unfolding load by simp
  qed
  ultimately have "readers_ok E (boot E d w)" by (simp add: readers_ok_def)
  moreover have "dom (map_of (load_segments E (disk_dirs d))) \<subseteq> dom (map_of (disk_dirs d))"
    unfolding dom_def load by (auto split: option.splits)
  then have "room (boot E d w) k" using assms(2) by (auto simp: room_def)
  ultimately show ?thesis
    using assms(1) by (simp add: struct_ok_def active_ok_def dirs_ok_def)
qed

section \<open>What a crash leaves behind\<close>

lemma crash_sel [simp]:
  "disk_db (crash st) = db st" "disk_wal (crash st) = Some (file_data (wal st))"
  by (simp_all add: crash_def)

lemma crash_dirs_map:
  "map_of (disk_dirs (crash st)) sid =
     (case active_segment st of
        Some (w, n) \<Rightarrow> if w_id w = sid then Some (w_dir w) else map_of (seg_dirs st) sid
      | None \<Rightarrow> map_of (seg_dirs st) sid)"
  by (auto simp: crash_def update_conv' split: option.split)

lemma unloaded_dir:
  assumes "struct_ok E cfg st k" and "map_of (segments st) sid = None"
    and "map_of (seg_dirs st) sid = Some d"
  shows "meta_file d = None"
  using assms unfolding struct_ok_def readers_ok_def by blast

lemma struct_ok_dir_ok:
  assumes "struct_ok E cfg st k" and "map_of (seg_dirs st) sid = Some d"
  shows "dir_ok E sid d"
proof (cases "map_of (segments st) sid")
  case None
  from unloaded_dir [OF assms(1) None assms(2)] show ?thesis by (simp add: dir_ok_def)
next
  case (Some r)
  then have "reader_ok E (seg_dirs st) sid r"
    using assms(1) by (simp add: struct_ok_def readers_ok_def)
  with assms(2) show ?thesis by (auto simp: reader_ok_def dir_ok_def)
qed

lemma active_writer_ok:
  "struct_ok E cfg st k \<Longrightarrow> active_segment st = Some (w, n) \<Longrightarrow> writer_ok E cfg st w n"
  by (simp add: struct_ok_def active_ok_def)

lemma crash_dirs_ok:
  assumes "struct_ok E cfg st k"
  shows "dirs_ok E (disk_dirs (crash st))"
    and "dom (map_of (disk_dirs (crash st))) = dom (map_of (seg_dirs st))"
proof -
  have dist: "distinct (map fst (disk_dirs (crash st)))"
    using assms by (auto simp: crash_def struct_ok_def distinct_update split: option.split)
  have "dir_ok E sid d" if "map_of (disk_dirs (crash st)) sid = Some d" for sid d
    using that struct_ok_dir_ok [OF assms, of sid d] active_writer_ok [OF assms]
    by (auto simp: crash_dirs_map writer_ok_def dir_ok_def split: option.splits if_splits)
  then show "dirs_ok E (disk_dirs (crash st))"
    using dist by (auto simp: dirs_ok_def)
  have "sid \<in> dom (map_of (disk_dirs (crash st))) \<longleftrightarrow> sid \<in> dom (map_of (seg_dirs st))" for sid
    using active_writer_ok [OF assms]
    by (auto simp: domIff crash_dirs_map writer_ok_def split: option.splits)
  then show "dom (map_of (disk_dirs (crash st))) = dom (map_of (seg_dirs st))" by blast
qed

text \<open>
  After the restart every finalized segment reads as before; the segment that was active is
  not loaded.
\<close>

lemma crash_read:
  assumes "struct_ok E cfg st k" and "disk_dirs d = disk_dirs (crash st)"
  shows "read_payload E (boot E d w) sid i =
    (if \<exists>v n. active_segment st = Some (v, n) \<and> w_id v = sid then Inr None
     else read_payload E st sid i)"
proof -
  note load = load_segments_map [OF crash_dirs_ok(1) [OF assms(1)]]
  have boot: "read_payload E (boot E d w) sid i =
      (case map_of (load_segments E (disk_dirs (crash st))) sid of
         Some r \<Rightarrow> (case read_chunk (seg_x E) r i of Inl e \<Rightarrow> Inl (IoError e) | Inr x \<Rightarrow> Inr x)
       | None \<Rightarrow> Inr None)"
    by (simp add: read_payload_def read_from_active_segment_def assms(2))
  show ?thesis
  proof (cases "\<exists>v n. active_segment st = Some (v, n) \<and> w_id v = sid")
    case True
    then obtain v n where v: "active_segment st = Some (v, n)" "w_id v = sid" by blast
    then have "map_of (disk_dirs (crash st)) sid = Some (w_dir v)" "meta_file (w_dir v) = None"
      using active_writer_ok [OF assms(1)] by (auto simp: crash_dirs_map writer_ok_def)
    with True show ?thesis unfolding boot load by simp
  next
    case False
    then have dir: "map_of (disk_dirs (crash st)) sid = map_of (seg_dirs st) sid"
      by (auto simp: crash_dirs_map split: option.split)
    have live: "read_payload E st sid i =
        (case map_of (segments st) sid of
           Some r \<Rightarrow> (case read_chunk (seg_x E) r i of Inl e \<Rightarrow> Inl (IoError e) | Inr x \<Rightarrow> Inr x)
         | None \<Rightarrow> Inr None)"
      using False by (auto simp: read_payload_def read_from_active_segment_def split: option.split)
    show ?thesis
    proof (cases "map_of (segments st) sid")
      case None
      then have "map_of (load_segments E (disk_dirs (crash st))) sid = None"
        using unloaded_dir [OF assms(1)] unfolding load dir by (cases "map_of (seg_dirs st) sid") simp_all
      with None False show ?thesis unfolding boot live by simp
    next
      case (Some r)
      then have "reader_ok E (seg_dirs st) sid r"
        using assms(1) by (simp add: struct_ok_def readers_ok_def)
      then obtain ds where ds: "map_of (seg_dirs st) sid = Some (r_dir r)" "meta_file (r_dir r) \<noteq> None"
        "sid < 2 ^ 64" "dir_holds (seg_x E) (r_dir r) ds" "reader_holds (seg_x E) r ds" "seg_sized ds"
        "load_or_create (bitmap_ops_of (seg_x E)) (tombstone_bin (r_dir r)) = Inr (tombstones r)"
        by (auto simp: reader_ok_def)
      from reader_open_holds [OF ds(4,3,7)] obtain q where
        q: "reader_open (seg_x E) (dir_name sid) (r_dir r) = Inr q" "reader_holds (seg_x E) q ds"
          "tombstones q = tombstones r" by blast
      then have "read_chunk (seg_x E) q i = read_chunk (seg_x E) r i"
        by (simp add: read_chunk_holds [OF q(2) ds(6)] read_chunk_holds [OF ds(5,6)])
      moreover have "map_of (load_segments E (disk_dirs (crash st))) sid = Some q"
        using ds(1,2) q(1) unfolding load dir by simp
      ultimately show ?thesis using Some unfolding boot live if_not_P [OF False] by simp
    qed
  qed
qed

section \<open>Opening after a crash\<close>

definition wal_holds :: "wal_ext \<Rightarrow> wal_writer \<Rightarrow> wal_record list \<Rightarrow> bool" where
  "wal_holds X w rs \<longleftrightarrow>
     file_data w = concat (map (encode_to_bytes X) rs) \<and> (\<forall>r \<in> set rs. wal_fits X r) \<and> at_end w"

text \<open>
  The state of a store from which a restart can recover, where \<open>tail\<close> are the log's records
  after the last checkpoint: segments and table are well formed, the tail consists of records
  the store can have written, and every live row that points into the active segment has its
  Add record in the tail.
\<close>

definition recoverable ::
  "'b store_ext \<Rightarrow> tenant_config \<Rightarrow> (string \<Rightarrow> bytes) \<Rightarrow> nat \<Rightarrow> wal_record list \<Rightarrow> 'b tenant_store \<Rightarrow> bool" where
  "recoverable E cfg pl k tail st \<longleftrightarrow>
     struct_ok E cfg st (length tail + k) \<and> length tail + k < 2 ^ 64 \<and> db_ok (db st)
     \<and> (\<forall>r \<in> set tail. rec_ok E (cfg_tenant_id cfg) pl r)
     \<and> (\<forall>m \<in> live_rows (cfg_tenant_id cfg) (db st). row_ok E pl tail st m
          \<and> (\<forall>w n. active_segment st = Some (w, n) \<and> m_segment_id m = w_id w
               \<longrightarrow> pending tail (m_chunk_id m)))"

text \<open>Every live row's payload can be read, and no unfinalized segment is in use.\<close>

definition settled ::
  "'b store_ext \<Rightarrow> tenant_config \<Rightarrow> (string \<Rightarrow> bytes) \<Rightarrow> 'b tenant_store \<Rightarrow> bool" where
  "settled E cfg pl st \<longleftrightarrow>
     active_segment st = None
     \<and> (\<forall>m \<in> live_rows (cfg_tenant_id cfg) (db st).
          read_payload E st (m_segment_id m) (m_ordinal m) = Inr (Some (pl (m_chunk_id m))))"

lemma recoverable_row_boot:
  assumes "recoverable E cfg pl k tail st" and "m \<in> live_rows (cfg_tenant_id cfg) (db st)"
    and "disk_dirs d = disk_dirs (crash st)"
  shows "row_ok E pl tail (boot E d w) m"
proof -
  have struct: "struct_ok E cfg st (length tail + k)" and ok: "row_ok E pl tail st m"
    and act: "\<And>v n. active_segment st = Some (v, n) \<Longrightarrow> w_id v = m_segment_id m \<Longrightarrow> pending tail (m_chunk_id m)"
    using assms(1,2) by (auto simp: recoverable_def)
  have "m_segment_id m \<in> dom (map_of (disk_dirs d))"
    using ok crash_dirs_ok(2) [OF struct] assms(3) by (simp add: row_ok_def)
  moreover have "read_payload E (boot E d w) (m_segment_id m) (m_ordinal m) = Inr (Some (pl (m_chunk_id m)))
      \<or> read_payload E (boot E d w) (m_segment_id m) (m_ordinal m) = Inr None \<and> pending tail (m_chunk_id m)"
    unfolding crash_read [OF struct assms(3)] using ok act by (auto simp: row_ok_def)
  ultimately show ?thesis by (simp add: row_ok_def)
qed

context tenant_env
begin

text \<open>
  Opening on the table and the directories of a crashed store, with any log whose records to
  recover are \<open>tail\<close>.
\<close>

lemma open_recoverable:
  assumes rec: "recoverable E cfg pl k tail st"
    and d: "disk_db d = db st" "disk_dirs d = disk_dirs (crash st)" "disk_wal d = Some data"
    and data: "records_for_recovery (wal_x E) data = tail"
  obtains st' where "tenant_open E cfg now d = Inr st'" and "recoverable E cfg pl k [] st'"
    and "settled E cfg pl st'"
    and "catalog (cfg_tenant_id cfg) (db st') = catalog_replay E tail (catalog (cfg_tenant_id cfg) (db st))"
    and "file_data (wal st') = (if tail = [] then data else [])" and "append_mode (wal st')"
proof -
  let ?T = "cfg_tenant_id cfg"
  define w where "w = \<lparr>file_data = data, append_mode = True, cursor = 0, records_written = 0\<rparr>"
  have struct: "struct_ok E cfg st (length tail + k)" and bound: "length tail + k < 2 ^ 64"
    and ok: "db_ok (disk_db d)" and recs: "\<forall>r \<in> set tail. rec_ok E ?T pl r"
    using rec d(1) by (auto simp: recoverable_def)
  note dirs = crash_dirs_ok [OF struct]
  have boot: "struct_ok E cfg (boot E d w) (length tail + k)"
    using struct dirs d(2) by (intro boot_struct_ok) (auto simp: struct_ok_def room_def)
  have rows: "\<forall>m \<in> live_rows ?T (disk_db d). row_ok E pl tail (boot E d w) m"
    using recoverable_row_boot [OF rec] d(1,2) by simp
  have empty: "data = [] \<Longrightarrow> tail = []"
    using data by (simp add: records_for_recovery_def read_all_records_def read_all_from.simps WAL_HEADER_SIZE_def)
  have "tenant_open E cfg now d = recover_from_wal E cfg now data (boot E d w)"
    using d(3) by (simp add: tenant_open_def open_or_create_def writer_open_def boot_def w_def)
  moreover obtain st' where r: "recover_from_wal E cfg now data (boot E d w) = Inr st'"
    "struct_ok E cfg st' k" "db_ok (db st')" "active_segment st' = None"
    "\<forall>m \<in> live_rows ?T (db st'). row_ok E pl [] st' m"
    "catalog ?T (db st') = catalog_replay E tail (catalog ?T (disk_db d))"
    "wal st' = (if tail = [] then w else writer_truncate w)"
    using recover_from_wal_ok [OF boot _ _ _ recs bound data empty] ok rows by (metis boot_sel(1,2,4))
  ultimately show ?thesis
    using that [of st'] bound d(1)
    by (auto simp: recoverable_def settled_def row_ok_def pending_def w_def writer_truncate_def)
qed

end

end
