(* ===== verification/Tenant_Ops.thy ===== *)
theory Tenant_Ops
  imports Tenant_Recovery
begin

text \<open>
  The add, delete and get paths of a tenant store, against the same abstract catalog, and
  what a crash at any stage of them leaves: once the log has a batch or a delete, a restart
  restores its effect whether or not the later stages ran.
\<close>

section \<open>Replay acts on every chunk id separately\<close>

definition entry_step :: "'b store_ext \<Rightarrow> wal_record \<Rightarrow> chunk_metadata option \<Rightarrow> chunk_metadata option" where
  "entry_step E r x =
     (case record_type r of
        Add \<Rightarrow> if x \<noteq> None then x
               else map_option (\<lambda>c. strip_coords (chunk_row E c 0 0)) (chunk_de E (payload r))
      | Delete \<Rightarrow> None
      | _ \<Rightarrow> x)"

definition entry_replay ::
  "'b store_ext \<Rightarrow> string \<Rightarrow> wal_record list \<Rightarrow> chunk_metadata option \<Rightarrow> chunk_metadata option" where
  "entry_replay E cid rs x = fold (entry_step E) (filter (\<lambda>r. rec_chunk_id r = cid) rs) x"

lemma catalog_step_entry:
  "catalog_step E r v cid = (if rec_chunk_id r = cid then entry_step E r (v cid) else v cid)"
  by (auto simp: catalog_step_def entry_step_def split: wal_record_type.split)

lemma catalog_replay_entry: "catalog_replay E rs v cid = entry_replay E cid rs (v cid)"
  by (induction rs arbitrary: v)
    (simp_all add: catalog_replay_def entry_replay_def catalog_step_entry)

lemma catalog_replay_append: "catalog_replay E (xs @ ys) v = catalog_replay E ys (catalog_replay E xs v)"
  by (simp add: catalog_replay_def)

lemma entry_replay_unmentioned:
  "cid \<notin> rec_chunk_id ` set rs \<Longrightarrow> entry_replay E cid rs x = x"
proof -
  assume "cid \<notin> rec_chunk_id ` set rs"
  then have none: "filter (\<lambda>r. rec_chunk_id r = cid) rs = []" by (auto simp: filter_empty_conv)
  show ?thesis by (simp add: entry_replay_def none)
qed

lemma entry_replay_adds:
  assumes "\<forall>r \<in> set rs. record_type r = Add" and "x \<noteq> None"
  shows "entry_replay E cid rs x = x"
  using assms by (induction rs) (auto simp: entry_replay_def entry_step_def)

text \<open>
  A tail that the catalog already reflects stays reflected when a batch of new chunks is
  added to both, and when a delete is.
\<close>

lemma replay_add_again:
  assumes "catalog_replay E tail v = v" and "\<forall>r \<in> set news. record_type r = Add"
    and "rec_chunk_id ` set news \<inter> rec_chunk_id ` set tail = {}"
    and "\<forall>cid \<in> rec_chunk_id ` set news. catalog_replay E news v cid \<noteq> None"
  shows "catalog_replay E (tail @ news) (catalog_replay E news v) = catalog_replay E news v"
proof
  fix cid
  let ?v' = "catalog_replay E news v"
  show "catalog_replay E (tail @ news) ?v' cid = ?v' cid"
  proof (cases "cid \<in> rec_chunk_id ` set news")
    case True
    then have "cid \<notin> rec_chunk_id ` set tail" using assms(3) by blast
    then have "catalog_replay E tail ?v' cid = ?v' cid"
      by (simp add: catalog_replay_entry entry_replay_unmentioned)
    moreover have "?v' cid \<noteq> None" using assms(4) True by blast
    ultimately show ?thesis
      using entry_replay_adds [OF assms(2)]
      unfolding catalog_replay_append catalog_replay_entry [of E news "catalog_replay E tail _"] by simp
  next
    case False
    have "?v' cid = v cid" using False by (simp add: catalog_replay_entry entry_replay_unmentioned)
    moreover have "catalog_replay E tail ?v' cid = catalog_replay E tail v cid"
      using calculation by (simp add: catalog_replay_entry)
    ultimately show ?thesis
      using False assms(1)
      unfolding catalog_replay_append catalog_replay_entry [of E news "catalog_replay E tail _"]
      by (simp add: entry_replay_unmentioned)
  qed
qed

lemma replay_delete_again:
  assumes "catalog_replay E tail v = v" and "record_type r = Delete"
  shows "catalog_replay E (tail @ [r]) (v(rec_chunk_id r := None)) = v(rec_chunk_id r := None)"
proof
  fix cid
  show "catalog_replay E (tail @ [r]) (v(rec_chunk_id r := None)) cid = (v(rec_chunk_id r := None)) cid"
  proof (cases "cid = rec_chunk_id r")
    case True
    then show ?thesis
      using assms(2) by (simp add: catalog_replay_append catalog_replay_def catalog_step_def)
  next
    case False
    then have "catalog_replay E tail (v(rec_chunk_id r := None)) cid = v cid"
      using assms(1) catalog_replay_entry [of E tail v cid]
      by (simp add: catalog_replay_entry)
    with False assms(2) show ?thesis
      by (simp add: catalog_replay_append catalog_replay_def catalog_step_def)
  qed
qed

section \<open>Inserting a batch of rows\<close>

definition free_rows :: "string \<Rightarrow> chunk_metadata list \<Rightarrow> chunk_metadata list \<Rightarrow> bool" where
  "free_rows tid new rows \<longleftrightarrow>
     (\<forall>q \<in> set new. m_tenant_id q = tid \<and> m_status q \<noteq> Deleted)
     \<and> distinct (map m_chunk_id new) \<and> distinct (map coords new)
     \<and> (\<forall>q \<in> set new. \<forall>m \<in> live_rows tid rows. m_chunk_id m \<noteq> m_chunk_id q \<and> coords m \<noteq> coords q)"

lemma insert_many_ok:
  assumes "db_ok rows" and "free_rows tid new rows"
  shows "db_ok (meta_insert_many new rows)"
    and "live_rows tid (meta_insert_many new rows) = live_rows tid rows \<union> set new"
    and "catalog tid (meta_insert_many new rows) =
           fold (\<lambda>q v. v(m_chunk_id q \<mapsto> strip_coords q)) new (catalog tid rows)"
proof -
  have "db_ok (meta_insert_many new rows)
      \<and> live_rows tid (meta_insert_many new rows) = live_rows tid rows \<union> set new
      \<and> catalog tid (meta_insert_many new rows) =
           fold (\<lambda>q v. v(m_chunk_id q \<mapsto> strip_coords q)) new (catalog tid rows)"
    using assms
  proof (induction new arbitrary: rows)
    case Nil
    then show ?case by (simp add: meta_insert_many_def)
  next
    case (Cons q new)
    have q: "m_tenant_id q = tid" "m_status q \<noteq> Deleted"
      and free: "\<forall>m \<in> live_rows tid rows. m_segment_id m = m_segment_id q \<and> m_ordinal m = m_ordinal q
            \<longrightarrow> m_chunk_id m = m_chunk_id q"
      and ids: "\<forall>m \<in> live_rows tid rows. m_chunk_id m \<noteq> m_chunk_id q"
      using Cons.prems(2) by (auto simp: free_rows_def coords_def live_rows_def)
    have live: "live_rows tid (meta_insert q rows) = insert q (live_rows tid rows)"
      using live_rows_insert [OF q free] ids by auto
    have "free_rows tid new (meta_insert q rows)"
      using Cons.prems(2) unfolding free_rows_def live by auto
    from Cons.IH [OF db_ok_insert [OF Cons.prems(1)] this] show ?case
      by (simp add: meta_insert_many_def live catalog_insert [OF Cons.prems(1) q free])
  qed
  then show "db_ok (meta_insert_many new rows)"
    and "live_rows tid (meta_insert_many new rows) = live_rows tid rows \<union> set new"
    and "catalog tid (meta_insert_many new rows) =
           fold (\<lambda>q v. v(m_chunk_id q \<mapsto> strip_coords q)) new (catalog tid rows)" by blast+
qed

section \<open>Chunks to be added\<close>

text \<open>
  A chunk as the add path prepares it: its payload is its serialised form, which the
  deserialiser reads back.
\<close>

definition pending_ok :: "'b store_ext \<Rightarrow> tenant_config \<Rightarrow> (string \<Rightarrow> bytes) \<Rightarrow> pending_chunk \<Rightarrow> bool" where
  "pending_ok E cfg pl p \<longleftrightarrow>
     chunk_de E (p_payload p) = Some (p_chunk p) \<and> pl (mc_chunk_id (p_chunk p)) = p_payload p
     \<and> payload_ok (p_payload p) \<and> mc_tenant_id (p_chunk p) = cfg_tenant_id cfg
     \<and> mc_status (p_chunk p) \<noteq> Deleted
     \<and> uuid_parse E (mc_chunk_id (p_chunk p)) = Some (mc_chunk_id (p_chunk p))"

definition pending_id :: "pending_chunk \<Rightarrow> string" where
  "pending_id p = mc_chunk_id (p_chunk p)"

definition pending_record :: "tenant_config \<Rightarrow> pending_chunk \<Rightarrow> wal_record" where
  "pending_record cfg p =
     add_record (cfg_tenant_id cfg) (pending_id p) (mc_timestamp_created (p_chunk p)) (p_payload p)"

lemma pending_record_sel [simp]:
  "record_type (pending_record cfg p) = Add" "rec_chunk_id (pending_record cfg p) = pending_id p"
  "payload (pending_record cfg p) = p_payload p"
  by (simp_all add: pending_record_def add_record_def)

lemma pending_rec_ok:
  "pending_ok E cfg pl p \<Longrightarrow> tenant_new (cfg_tenant_id cfg) = Inr (cfg_tenant_id cfg) \<Longrightarrow>
     rec_ok E (cfg_tenant_id cfg) pl (pending_record cfg p)"
  by (simp add: rec_ok_def pending_ok_def pending_record_def add_record_def pending_id_def)

lemma append_wal_add_batch_records:
  assumes "\<not> read_only cfg"
  shows "append_wal_add_batch E cfg ps st =
     Inr (st\<lparr>wal := append_batch (wal_x E) (map (pending_record cfg) ps) (wal st)\<rparr>)"
proof -
  have "map ((\<lambda>(cid, ts, p). add_record (cfg_tenant_id cfg) cid ts p)
      \<circ> (\<lambda>p. (mc_chunk_id (p_chunk p), mc_timestamp_created (p_chunk p), p_payload p))) ps
    = map (pending_record cfg) ps"
    by (simp add: pending_record_def pending_id_def)
  with assms show ?thesis
    unfolding append_wal_add_batch_def append_add_batch_def pending_rows_def map_map by (simp only: if_False)
qed

lemma wal_holds_append:
  assumes "wal_holds X w rs" and "\<forall>r \<in> set news. wal_fits X r"
  shows "wal_holds X (append_batch X news w) (rs @ news)"
  using assms by (auto simp: wal_holds_def at_end_append_batch)

lemma wal_holds_append_rec:
  assumes "wal_holds X w rs" and "wal_fits X r"
  shows "wal_holds X (append_rec X r w) (rs @ [r])"
  using assms by (auto simp: wal_holds_def at_end_append_rec)

text \<open>The row stage 2 computes for a chunk.\<close>

definition row_for :: "'b store_ext \<Rightarrow> pending_chunk \<Rightarrow> chunk_metadata \<Rightarrow> bool" where
  "row_for E p m \<longleftrightarrow> (\<exists>sid i. m = chunk_row E (p_chunk p) sid i)"

lemma row_for_sel:
  "row_for E p m \<Longrightarrow> m_chunk_id m = pending_id p \<and> m_tenant_id m = mc_tenant_id (p_chunk p)
     \<and> m_status m = mc_status (p_chunk p) \<and> strip_coords m = strip_coords (chunk_row E (p_chunk p) 0 0)"
  by (auto simp: row_for_def chunk_row_def pending_id_def strip_coords_def)

text \<open>The catalog after the rows are inserted is the catalog after replaying the records.\<close>

lemma replay_pending:
  assumes "list_all2 (row_for E) ps new" and "\<forall>p \<in> set ps. pending_ok E cfg pl p"
    and "distinct (map pending_id ps)" and "\<forall>p \<in> set ps. v (pending_id p) = None"
  shows "catalog_replay E (map (pending_record cfg) ps) v =
           fold (\<lambda>q v. v(m_chunk_id q \<mapsto> strip_coords q)) new v"
  using assms
proof (induction ps new arbitrary: v rule: list_all2_induct)
  case Nil
  show ?case by (simp add: catalog_replay_def)
next
  case (Cons p ps m new)
  have "catalog_step E (pending_record cfg p) v = v(m_chunk_id m \<mapsto> strip_coords m)"
    using Cons.prems row_for_sel [OF Cons.hyps(1)] by (simp add: catalog_step_def pending_ok_def)
  moreover have "\<forall>q \<in> set ps. (v(m_chunk_id m \<mapsto> strip_coords m)) (pending_id q) = None"
    using Cons.prems row_for_sel [OF Cons.hyps(1)] by (auto simp: image_iff)
  ultimately show ?case
    using Cons.IH [of "v(m_chunk_id m \<mapsto> strip_coords m)"] Cons.prems
    by (simp add: catalog_replay_def del: fun_upd_apply)
qed

lemma replay_pending_present:
  assumes "\<forall>p \<in> set ps. pending_ok E cfg pl p" and "p \<in> set ps"
  shows "catalog_replay E (map (pending_record cfg) ps) v (pending_id p) \<noteq> None"
  using assms
proof (induction ps arbitrary: v)
  case Nil
  then show ?case by simp
next
  case (Cons q ps)
  show ?case
  proof (cases "p \<in> set ps")
    case True
    then show ?thesis using Cons by (simp add: catalog_replay_def)
  next
    case False
    then have "catalog_step E (pending_record cfg q) v (pending_id p) \<noteq> None"
      using Cons.prems by (auto simp: catalog_step_def pending_ok_def)
    then show ?thesis
      using entry_replay_adds [of "map (pending_record cfg) ps"
          "catalog_step E (pending_record cfg q) v (pending_id p)" E "pending_id p"]
        catalog_replay_entry [of E "map (pending_record cfg) ps"
          "catalog_step E (pending_record cfg q) v" "pending_id p"]
      by (simp add: catalog_replay_def)
  qed
qed

section \<open>Writing payloads\<close>

context tenant_env
begin

lemma write_payloads_ok:
  assumes "struct_ok E cfg st (length ps + k)" and "length ps + k < 2 ^ 64"
    and "\<forall>p \<in> set ps. pending_ok E cfg pl p" and "\<forall>m \<in> M. row_ok E pl [] st m"
    and "\<forall>w n. active_segment st = Some (w, n) \<longrightarrow> 0 < n"
  shows "\<exists>new st'. write_payloads E cfg now ps st = Inr (new, st') \<and> struct_ok E cfg st' k
    \<and> db st' = db st \<and> wal st' = wal st \<and> list_all2 (row_for E) ps new
    \<and> (\<forall>m \<in> M \<union> set new. row_ok E pl [] st' m)
    \<and> distinct (map (\<lambda>m. (m_segment_id m, m_ordinal m)) new)
    \<and> (\<forall>m \<in> M. \<forall>q \<in> set new. (m_segment_id m, m_ordinal m) \<noteq> (m_segment_id q, m_ordinal q))
    \<and> (\<forall>w n. active_segment st' = Some (w, n) \<longrightarrow> 0 < n)
    \<and> (\<forall>m \<in> M. \<forall>w n. active_segment st' = Some (w, n) \<and> m_segment_id m = w_id w
         \<longrightarrow> (\<exists>v i. active_segment st = Some (v, i) \<and> w_id v = w_id w))"
  using assms
proof (induction ps arbitrary: st M)
  case Nil
  then show ?case by (intro exI [of _ "[]"] exI [of _ st]) auto
next
  case (Cons p ps)
  have p: "payload_ok (p_payload p)" "p_payload p = pl (pending_id p)"
    using Cons.prems(3) by (auto simp: pending_ok_def pending_id_def)
  have s: "struct_ok E cfg st (Suc (length ps + k))" "Suc (length ps + k) < 2 ^ 64"
    using Cons.prems(1,2) by simp_all
  obtain st1 st2 sid i where a: "get_or_create_active_segment E cfg now st = Inr st1"
    "append_active E (p_payload p) ''no active segment'' st1 = Inr ((sid, i), st2)"
    "struct_ok E cfg st2 (length ps + k)" "db st2 = db st" "wal st2 = wal st"
    "\<exists>w n. active_segment st2 = Some (w, Suc n) \<and> w_id w = sid \<and> unat i = n"
    "sid \<in> dom (map_of (seg_dirs st2))" "read_payload E st2 sid i = Inr (Some (p_payload p))"
    "\<forall>m \<in> M. row_ok E pl [] st2 m \<and> \<not> (m_segment_id m = sid \<and> m_ordinal m = i)"
    "\<forall>m \<in> M. m_segment_id m = sid \<longrightarrow> (\<exists>v n. active_segment st = Some (v, n) \<and> w_id v = sid)"
    by (rule place_payload [OF s p(1) Cons.prems(4)]; rule that; assumption)
  define q where "q = chunk_row E (p_chunk p) sid i"
  have q: "m_segment_id q = sid" "m_ordinal q = i" "m_chunk_id q = pending_id p"
    by (simp_all add: q_def chunk_row_def pending_id_def)
  have "row_ok E pl [] st2 q" using a(6-8) q p(2) by (auto simp: row_ok_def)
  then have M: "\<forall>m \<in> insert q M. row_ok E pl [] st2 m" using a(9) by blast
  have "length ps + k < 2 ^ 64" "\<forall>p \<in> set ps. pending_ok E cfg pl p"
    "\<forall>w n. active_segment st2 = Some (w, n) \<longrightarrow> 0 < n"
    using Cons.prems(2,3) a(6) by auto
  from Cons.IH [OF a(3) this(1,2) M this(3)] obtain new st' where
    IH: "write_payloads E cfg now ps st2 = Inr (new, st')" "struct_ok E cfg st' k"
      "db st' = db st2" "wal st' = wal st2" "list_all2 (row_for E) ps new"
      "\<forall>m \<in> insert q M \<union> set new. row_ok E pl [] st' m"
      "distinct (map (\<lambda>m. (m_segment_id m, m_ordinal m)) new)"
      "\<forall>m \<in> insert q M. \<forall>q' \<in> set new. (m_segment_id m, m_ordinal m) \<noteq> (m_segment_id q', m_ordinal q')"
      "\<forall>w n. active_segment st' = Some (w, n) \<longrightarrow> 0 < n"
      "\<forall>m \<in> insert q M. \<forall>w n. active_segment st' = Some (w, n) \<and> m_segment_id m = w_id w
         \<longrightarrow> (\<exists>v i. active_segment st2 = Some (v, i) \<and> w_id v = w_id w)" by blast
  have "write_payloads E cfg now (p # ps) st = Inr (q # new, st')"
    using a(1,2) IH(1) by (simp add: q_def)
  moreover have "row_for E p q" by (auto simp: row_for_def q_def)
  moreover have "\<forall>m \<in> M. \<forall>q' \<in> set (q # new). (m_segment_id m, m_ordinal m) \<noteq> (m_segment_id q', m_ordinal q')"
    using a(9) IH(8) q by auto
  moreover have "distinct (map (\<lambda>m. (m_segment_id m, m_ordinal m)) (q # new))"
    using IH(7,8) by fastforce
  moreover have "\<forall>m \<in> M. \<forall>w n. active_segment st' = Some (w, n) \<and> m_segment_id m = w_id w
      \<longrightarrow> (\<exists>v i. active_segment st = Some (v, i) \<and> w_id v = w_id w)"
    using a(6,10) IH(10) by fastforce
  ultimately show ?case
    using IH(2-6,9) a(4,5) by (intro exI [of _ "q # new"] exI [of _ st'] conjI) simp_all
qed

lemma flush_ok:
  assumes "struct_ok E cfg st k"
  obtains st' where "flush_active_segment_payload cfg st = Inr st'" and "struct_ok E cfg st' k"
    and "db st' = db st" and "wal st' = wal st" and "seg_dirs st' = seg_dirs st"
    and "read_payload E st' = read_payload E st"
    and "\<forall>w n. active_segment st' = Some (w, n) \<longrightarrow>
           (\<exists>v. active_segment st = Some (v, n) \<and> w_id v = w_id w)"
proof (cases "active_segment st")
  case None
  then show ?thesis using assms writable that [of st] by (simp add: flush_active_segment_payload_def)
next
  case (Some a)
  obtain w n where wn: "active_segment st = Some (w, n)" using Some by (cases a) auto
  let ?st' = "st\<lparr>active_segment := Some (flush_payload w, n)\<rparr>"
  note wok = active_writer_ok [OF assms wn]
  then obtain ds where ds: "writer_holds (seg_x E) w ds" "length ds = n" "n \<le> segment_max_chunks cfg"
    "\<forall>d \<in> set ds. payload_ok d" by (auto simp: writer_ok_def)
  note fl = writer_holds_flush [OF ds(1)]
  have same: "w_id (flush_payload w) = w_id w" "meta_file (w_dir (flush_payload w)) = meta_file (w_dir w)"
    "tombstone_bin (w_dir (flush_payload w)) = tombstone_bin (w_dir w)"
    by (simp_all add: flush_payload_def)
  have wok': "writer_ok E cfg ?st' (flush_payload w) n"
    using wok fl ds same by (auto simp: writer_ok_def)
  then have struct: "struct_ok E cfg ?st' k"
    using assms by (simp add: struct_ok_def readers_ok_def active_ok_def room_def)
  have "read_payload E ?st' sid i = read_payload E st sid i" for sid i
    using writer_reads [OF wok ds(1,2,4,3)] writer_reads [OF wok' fl ds(2,4,3)] wn same
    by (simp add: read_payload_def read_from_active_segment_def)
  then have "read_payload E ?st' = read_payload E st" by (simp add: fun_eq_iff)
  then show ?thesis
    using that [of ?st'] struct wn writable same by (simp add: flush_active_segment_payload_def)
qed

end

end
