(* ===== verification/Tenant_Serving.thy ===== *)
theory Tenant_Serving
  imports Tenant_Ops
begin

text \<open>
  The invariant of a store that serves requests, that every operation keeps it and refines
  the corresponding operation on the catalog, and that it survives a crash at every stage of
  an operation.
\<close>

section \<open>The invariant\<close>

definition serving ::
  "'b store_ext \<Rightarrow> tenant_config \<Rightarrow> (string \<Rightarrow> bytes) \<Rightarrow> nat \<Rightarrow> wal_record list \<Rightarrow> 'b tenant_store \<Rightarrow> bool" where
  "serving E cfg pl k rs st \<longleftrightarrow>
     recoverable E cfg pl k (after_last_checkpoint rs) st \<and> wal_holds (wal_x E) (wal st) rs
     \<and> (\<forall>m \<in> live_rows (cfg_tenant_id cfg) (db st). row_ok E pl [] st m)
     \<and> (\<forall>w n. active_segment st = Some (w, n) \<longrightarrow> 0 < n)
     \<and> catalog_replay E (after_last_checkpoint rs) (catalog (cfg_tenant_id cfg) (db st))
         = catalog (cfg_tenant_id cfg) (db st)"

text \<open>A crash in this state is followed by a restart with the catalog \<open>v\<close>.\<close>

definition restorable ::
  "'b store_ext \<Rightarrow> tenant_config \<Rightarrow> (string \<Rightarrow> bytes) \<Rightarrow> (string \<Rightarrow> chunk_metadata option) \<Rightarrow> 'b tenant_store \<Rightarrow> bool" where
  "restorable E cfg pl v st \<longleftrightarrow>
     (\<exists>k rs. recoverable E cfg pl k (after_last_checkpoint rs) st \<and> wal_holds (wal_x E) (wal st) rs
        \<and> catalog_replay E (after_last_checkpoint rs) (catalog (cfg_tenant_id cfg) (db st)) = v)"

text \<open>The chunks of an add: fresh ids, and records that fit the log.\<close>

definition batch_ok ::
  "'b store_ext \<Rightarrow> tenant_config \<Rightarrow> (string \<Rightarrow> bytes) \<Rightarrow> wal_record list \<Rightarrow> 'b tenant_store \<Rightarrow> pending_chunk list \<Rightarrow> bool" where
  "batch_ok E cfg pl rs st ps \<longleftrightarrow>
     (\<forall>p \<in> set ps. pending_ok E cfg pl p \<and> wal_fits (wal_x E) (pending_record cfg p)
        \<and> catalog (cfg_tenant_id cfg) (db st) (pending_id p) = None
        \<and> pending_id p \<notin> rec_chunk_id ` set (after_last_checkpoint rs))
     \<and> distinct (map pending_id ps)"

lemma serving_restorable:
  "serving E cfg pl k rs st \<Longrightarrow> restorable E cfg pl (catalog (cfg_tenant_id cfg) (db st)) st"
  by (auto simp: serving_def restorable_def)

lemma row_ok_weaken: "row_ok E pl [] st m \<Longrightarrow> row_ok E pl rs st m"
  by (auto simp: row_ok_def pending_def)

lemma recoverable_wal [simp]:
  "recoverable E cfg pl k rs (st\<lparr>wal := w\<rparr>) = recoverable E cfg pl k rs st"
  "recoverable E cfg pl k rs (st\<lparr>writes_since_checkpoint := c\<rparr>) = recoverable E cfg pl k rs st"
  by (simp_all add: recoverable_def)

lemma serving_counter [simp]:
  "serving E cfg pl k rs (st\<lparr>writes_since_checkpoint := c\<rparr>) = serving E cfg pl k rs st"
  by (simp add: serving_def)

lemma tail_append:
  "\<forall>r \<in> set news. \<not> is_checkpoint r \<Longrightarrow>
     after_last_checkpoint (rs @ news) = after_last_checkpoint rs @ news"
  by (auto simp: after_last_checkpoint_append)

lemma pending_records_not_checkpoint: "\<forall>r \<in> set (map (pending_record cfg) ps). \<not> is_checkpoint r"
  by (simp add: is_checkpoint_def)

lemma batch_tail:
  "after_last_checkpoint (rs @ map (pending_record cfg) ps) =
     after_last_checkpoint rs @ map (pending_record cfg) ps"
  by (rule tail_append [OF pending_records_not_checkpoint])

lemma pending_append: "pending (xs @ ys) cid \<longleftrightarrow> pending xs cid \<or> pending ys cid"
  by (auto simp: pending_def)

section \<open>Restarting\<close>

locale tenant_log = tenant_env +
  assumes codec: "wal_codec (wal_x E)"
    and tenant: "tenant_new (cfg_tenant_id cfg) = Inr (cfg_tenant_id cfg)"
begin

lemma recovery_records:
  "wal_holds (wal_x E) w rs \<Longrightarrow>
     records_for_recovery (wal_x E) (file_data w) = after_last_checkpoint rs"
  using wal_codec.read_all_clean [OF codec, of rs] by (simp add: wal_holds_def records_for_recovery_eq)

lemma restorable_open:
  assumes "restorable E cfg pl v st"
  shows "\<exists>st'. tenant_open E cfg now (crash st) = Inr st' \<and> settled E cfg pl st'
      \<and> catalog (cfg_tenant_id cfg) (db st') = v"
proof -
  obtain k rs where k: "recoverable E cfg pl k (after_last_checkpoint rs) st" "wal_holds (wal_x E) (wal st) rs"
    "catalog_replay E (after_last_checkpoint rs) (catalog (cfg_tenant_id cfg) (db st)) = v"
    using assms by (auto simp: restorable_def)
  obtain st' where "tenant_open E cfg now (crash st) = Inr st'" "settled E cfg pl st'"
    "catalog (cfg_tenant_id cfg) (db st') =
       catalog_replay E (after_last_checkpoint rs) (catalog (cfg_tenant_id cfg) (db st))"
    by (rule open_recoverable [OF k(1) _ _ _ recovery_records [OF k(2)], of "crash st"]; (rule that)?)
      simp_all
  with k(3) show ?thesis by blast
qed

lemma serving_reopen:
  assumes "serving E cfg pl k rs st"
  shows "\<exists>st'. tenant_open E cfg now (crash st) = Inr st' \<and> settled E cfg pl st'
      \<and> catalog (cfg_tenant_id cfg) (db st') = catalog (cfg_tenant_id cfg) (db st)
      \<and> serving E cfg pl k (if after_last_checkpoint rs = [] then rs else []) st'"
proof -
  let ?tail = "after_last_checkpoint rs"
  have rec: "recoverable E cfg pl k ?tail st" and log: "wal_holds (wal_x E) (wal st) rs"
    and cat: "catalog_replay E ?tail (catalog (cfg_tenant_id cfg) (db st)) = catalog (cfg_tenant_id cfg) (db st)"
    using assms by (simp_all add: serving_def)
  obtain st' where o: "tenant_open E cfg now (crash st) = Inr st'" "recoverable E cfg pl k [] st'"
    "settled E cfg pl st'"
    "catalog (cfg_tenant_id cfg) (db st') = catalog_replay E ?tail (catalog (cfg_tenant_id cfg) (db st))"
    "file_data (wal st') = (if ?tail = [] then file_data (wal st) else [])" "append_mode (wal st')"
    by (rule open_recoverable [OF rec _ _ _ recovery_records [OF log], of "crash st"]; (rule that)?)
      simp_all
  let ?rs = "if ?tail = [] then rs else []"
  have tail: "after_last_checkpoint ?rs = []" by (simp add: after_last_checkpoint_def)
  have "wal_holds (wal_x E) (wal st') ?rs"
    using o(5,6) log by (auto simp: wal_holds_def at_end_def)
  moreover have "\<forall>m \<in> live_rows (cfg_tenant_id cfg) (db st'). row_ok E pl [] st' m"
    using o(2) by (simp add: recoverable_def)
  ultimately have "serving E cfg pl k ?rs st'"
    using o(2,3) unfolding serving_def tail by (simp add: catalog_replay_def settled_def)
  with o(1,3,4) cat show ?thesis by auto
qed

end

section \<open>Adding\<close>

text \<open>
  The state after the log has the batch \<open>ps\<close> and the payloads of \<open>qs\<close> were written, with the
  rows \<open>new\<close> for them; \<open>st\<close> is the state before the add.
\<close>

definition wrote ::
  "'b store_ext \<Rightarrow> tenant_config \<Rightarrow> (string \<Rightarrow> bytes) \<Rightarrow> nat \<Rightarrow> wal_record list \<Rightarrow> 'b tenant_store
     \<Rightarrow> pending_chunk list \<Rightarrow> pending_chunk list \<Rightarrow> chunk_metadata list \<Rightarrow> 'b tenant_store \<Rightarrow> bool" where
  "wrote E cfg pl k rs st ps qs new s \<longleftrightarrow>
     struct_ok E cfg s (length (after_last_checkpoint rs) + length ps + k) \<and> db s = db st
     \<and> wal_holds (wal_x E) (wal s) (rs @ map (pending_record cfg) ps)
     \<and> list_all2 (row_for E) qs new
     \<and> (\<forall>m \<in> live_rows (cfg_tenant_id cfg) (db st) \<union> set new. row_ok E pl [] s m)
     \<and> distinct (map (\<lambda>m. (m_segment_id m, m_ordinal m)) new)
     \<and> (\<forall>m \<in> live_rows (cfg_tenant_id cfg) (db st). \<forall>q \<in> set new.
          (m_segment_id m, m_ordinal m) \<noteq> (m_segment_id q, m_ordinal q))
     \<and> (\<forall>w n. active_segment s = Some (w, n) \<longrightarrow> 0 < n)
     \<and> (\<forall>m \<in> live_rows (cfg_tenant_id cfg) (db st). \<forall>w n.
          active_segment s = Some (w, n) \<and> m_segment_id m = w_id w
          \<longrightarrow> pending (after_last_checkpoint rs) (m_chunk_id m))"

context tenant_log
begin

lemma batch_fits: "batch_ok E cfg pl rs st ps \<Longrightarrow> \<forall>r \<in> set (map (pending_record cfg) ps). wal_fits (wal_x E) r"
  by (auto simp: batch_ok_def)

lemma batch_write:
  assumes serv: "serving E cfg pl (length ps + (length ps + k)) rs st" and batch: "batch_ok E cfg pl rs st ps"
    and qs: "qs = take j ps"
  shows "\<exists>new s. write_payloads E cfg now qs
      (st\<lparr>wal := append_batch (wal_x E) (map (pending_record cfg) ps) (wal st)\<rparr>) = Inr (new, s)
    \<and> wrote E cfg pl k rs st ps qs new s"
proof -
  let ?tail = "after_last_checkpoint rs" and ?T = "cfg_tenant_id cfg"
  let ?st = "st\<lparr>wal := append_batch (wal_x E) (map (pending_record cfg) ps) (wal st)\<rparr>"
  let ?k = "length ?tail + length ps + k"
  have len: "length qs \<le> length ps" by (simp add: qs)
  have struct: "struct_ok E cfg st (length ?tail + (length ps + (length ps + k)))"
    and bound: "length ?tail + (length ps + (length ps + k)) < 2 ^ 64"
    and rows: "\<forall>m \<in> live_rows ?T (db st). row_ok E pl [] ?st m"
    and act: "\<forall>w n. active_segment ?st = Some (w, n) \<longrightarrow> 0 < n"
    and pend: "\<And>m w n. m \<in> live_rows ?T (db st) \<Longrightarrow> active_segment st = Some (w, n) \<Longrightarrow>
        m_segment_id m = w_id w \<Longrightarrow> pending ?tail (m_chunk_id m)"
    and log: "wal_holds (wal_x E) (wal st) rs"
    using serv by (auto simp: serving_def recoverable_def)
  have s: "struct_ok E cfg ?st (length qs + ?k)" using struct len by (auto intro: struct_ok_mono)
  have b: "length qs + ?k < 2 ^ 64" using bound len by simp
  have p: "\<forall>p \<in> set qs. pending_ok E cfg pl p" using batch by (auto simp: batch_ok_def qs dest: in_set_takeD)
  from write_payloads_ok [OF s b p rows act] obtain new s' where w:
    "write_payloads E cfg now qs ?st = Inr (new, s')" "struct_ok E cfg s' ?k" "db s' = db ?st"
    "wal s' = wal ?st" "list_all2 (row_for E) qs new"
    "\<forall>m \<in> live_rows ?T (db st) \<union> set new. row_ok E pl [] s' m"
    "distinct (map (\<lambda>m. (m_segment_id m, m_ordinal m)) new)"
    "\<forall>m \<in> live_rows ?T (db st). \<forall>q \<in> set new. (m_segment_id m, m_ordinal m) \<noteq> (m_segment_id q, m_ordinal q)"
    "\<forall>w n. active_segment s' = Some (w, n) \<longrightarrow> 0 < n"
    "\<forall>m \<in> live_rows ?T (db st). \<forall>w n. active_segment s' = Some (w, n) \<and> m_segment_id m = w_id w
       \<longrightarrow> (\<exists>v i. active_segment ?st = Some (v, i) \<and> w_id v = w_id w)" by blast
  have "\<forall>m \<in> live_rows ?T (db st). \<forall>w n. active_segment s' = Some (w, n) \<and> m_segment_id m = w_id w
      \<longrightarrow> pending ?tail (m_chunk_id m)"
    using w(10) pend by fastforce
  moreover have "wal_holds (wal_x E) (wal s') (rs @ map (pending_record cfg) ps)"
    using w(4) wal_holds_append [OF log batch_fits [OF batch]] by simp
  ultimately show ?thesis
    using w unfolding wrote_def by (intro exI [of _ new] exI [of _ s']) simp
qed

lemma wrote_restorable:
  assumes serv: "serving E cfg pl (length ps + (length ps + k)) rs st" and batch: "batch_ok E cfg pl rs st ps"
    and w: "wrote E cfg pl k rs st ps qs new s"
  shows "restorable E cfg pl (catalog_replay E (map (pending_record cfg) ps) (catalog (cfg_tenant_id cfg) (db st))) s"
proof -
  let ?news = "map (pending_record cfg) ps"
  have "recoverable E cfg pl k (after_last_checkpoint (rs @ ?news)) s"
    using serv batch w tenant unfolding batch_tail recoverable_def wrote_def serving_def batch_ok_def
    by (auto simp: pending_append ac_simps intro: row_ok_weaken pending_rec_ok)
  moreover have "wal_holds (wal_x E) (wal s) (rs @ ?news)" and "db s = db st"
    using w by (simp_all add: wrote_def)
  ultimately show ?thesis
    using serv unfolding restorable_def
    by (intro exI [of _ k] exI [of _ "rs @ ?news"])
      (simp add: batch_tail catalog_replay_append serving_def)
qed

lemma wrote_flush:
  assumes "wrote E cfg pl k rs st ps qs new s"
  shows "\<exists>s'. flush_active_segment_payload cfg s = Inr s' \<and> wrote E cfg pl k rs st ps qs new s'"
proof -
  have struct: "struct_ok E cfg s (length (after_last_checkpoint rs) + length ps + k)"
    using assms by (simp add: wrote_def)
  obtain s' where f: "flush_active_segment_payload cfg s = Inr s'"
    "struct_ok E cfg s' (length (after_last_checkpoint rs) + length ps + k)"
    "db s' = db s" "wal s' = wal s" "seg_dirs s' = seg_dirs s" "read_payload E s' = read_payload E s"
    "\<forall>w n. active_segment s' = Some (w, n) \<longrightarrow> (\<exists>v. active_segment s = Some (v, n) \<and> w_id v = w_id w)"
    by (rule flush_ok [OF struct]; rule that; assumption)
  have "row_ok E pl [] s' m" if "row_ok E pl [] s m" for m
    using that f(5,6) f(7) by (fastforce simp: row_ok_def)
  moreover have "\<forall>w n. active_segment s' = Some (w, n) \<longrightarrow> 0 < n"
    using assms f(7) unfolding wrote_def by blast
  moreover have "\<forall>m \<in> live_rows (cfg_tenant_id cfg) (db st). \<forall>w n.
      active_segment s' = Some (w, n) \<and> m_segment_id m = w_id w
      \<longrightarrow> pending (after_last_checkpoint rs) (m_chunk_id m)"
    using assms f(7) unfolding wrote_def by metis
  ultimately have "wrote E cfg pl k rs st ps qs new s'"
    using assms f(2-4) unfolding wrote_def by simp
  with f(1) show ?thesis by blast
qed

lemma wrote_insert:
  assumes serv: "serving E cfg pl (length ps + (length ps + k)) rs st" and batch: "batch_ok E cfg pl rs st ps"
    and w: "wrote E cfg pl k rs st ps ps new s"
  defines "s' \<equiv> s\<lparr>db := meta_insert_many new (db s)\<rparr>"
  shows "serving E cfg pl k (rs @ map (pending_record cfg) ps) s'"
    and "catalog (cfg_tenant_id cfg) (db s') =
      catalog_replay E (map (pending_record cfg) ps) (catalog (cfg_tenant_id cfg) (db st))"
proof -
  let ?T = "cfg_tenant_id cfg" and ?news = "map (pending_record cfg) ps" and ?tail = "after_last_checkpoint rs"
  have ok: "db_ok (db st)" and same: "db s = db st" and rows: "list_all2 (row_for E) ps new"
    using serv w by (auto simp: serving_def recoverable_def wrote_def)
  have new: "\<exists>p \<in> set ps. m_chunk_id q = pending_id p \<and> m_tenant_id q = ?T \<and> m_status q \<noteq> Deleted"
    if q: "q \<in> set new" for q
  proof -
    obtain i where i: "i < length new" "q = new ! i" using q by (auto simp: in_set_conv_nth)
    then have "i < length ps" and "row_for E (ps ! i) q"
      using rows by (auto simp: list_all2_conv_all_nth)
    then have "ps ! i \<in> set ps" and "row_for E (ps ! i) q" by auto
    then show ?thesis using batch row_for_sel [of E "ps ! i" q] by (auto simp: batch_ok_def pending_ok_def)
  qed
  have "map m_chunk_id new = map pending_id ps"
    using rows by (induction rule: list_all2_induct) (auto dest: row_for_sel)
  then have ids: "distinct (map m_chunk_id new)" using batch by (simp add: batch_ok_def)
  have "free_rows ?T new (db st)"
    unfolding free_rows_def
  proof (intro conjI ballI)
    fix q m assume q: "q \<in> set new" and m: "m \<in> live_rows ?T (db st)"
    show "m_chunk_id m \<noteq> m_chunk_id q"
      using new [OF q] m batch by (auto simp: batch_ok_def catalog_None meta_get_None)
    show "coords m \<noteq> coords q" using w q m by (auto simp: wrote_def coords_def)
  next
    have "distinct (map (\<lambda>m. (m_segment_id m, m_ordinal m)) new)" using w by (simp add: wrote_def)
    then show "distinct (map coords new)" by (auto simp: distinct_map inj_on_def coords_def)
  qed (use new ids in auto)
  note ins = insert_many_ok [OF ok this]
  have fresh: "\<forall>p \<in> set ps. catalog ?T (db st) (pending_id p) = None"
    and pok: "\<forall>p \<in> set ps. pending_ok E cfg pl p" and dist: "distinct (map pending_id ps)"
    using batch by (auto simp: batch_ok_def)
  show cat: "catalog ?T (db s') = catalog_replay E ?news (catalog ?T (db st))"
    by (simp add: s'_def same ins(3) replay_pending [OF rows pok dist fresh])
  have "catalog_replay E (?tail @ ?news) (catalog ?T (db s')) = catalog ?T (db s')"
    unfolding cat
  proof (rule replay_add_again)
    show "catalog_replay E ?tail (catalog ?T (db st)) = catalog ?T (db st)" using serv by (simp add: serving_def)
    show "rec_chunk_id ` set ?news \<inter> rec_chunk_id ` set ?tail = {}" using batch by (auto simp: batch_ok_def)
    show "\<forall>cid \<in> rec_chunk_id ` set ?news. catalog_replay E ?news (catalog ?T (db st)) cid \<noteq> None"
      using replay_pending_present [OF pok] by auto
  qed simp
  moreover have "pending ?news (m_chunk_id q)" if "q \<in> set new" for q
    using new [OF that] by (auto simp: pending_def)
  moreover have "\<forall>r \<in> set ?news. rec_ok E ?T pl r" using pok tenant by (auto intro: pending_rec_ok)
  ultimately show "serving E cfg pl k (rs @ ?news) s'"
    using serv w unfolding serving_def recoverable_def batch_tail wrote_def s'_def
    by (auto simp: same ins ac_simps pending_append intro: row_ok_weaken)
qed

lemma serving_mono: "serving E cfg pl k rs st \<Longrightarrow> j \<le> k \<Longrightarrow> serving E cfg pl j rs st"
  by (auto simp: serving_def recoverable_def intro: struct_ok_mono)

text \<open>Finalizing the active segment and appending checkpoints keep the invariant.\<close>

lemma serving_finalize:
  assumes "serving E cfg pl k rs st"
  shows "\<exists>st'. finalize_active_segment E cfg st = Inr st' \<and> serving E cfg pl k rs st'
      \<and> db st' = db st \<and> active_segment st' = None
      \<and> dom (map_of (seg_dirs st')) = dom (map_of (seg_dirs st))"
proof -
  have struct: "struct_ok E cfg st (length (after_last_checkpoint rs) + k)"
    and act: "\<forall>w n. active_segment st = Some (w, n) \<longrightarrow> 0 < n"
    using assms by (auto simp: serving_def recoverable_def)
  obtain st' where f: "finalize_active_segment E cfg st = Inr st'"
    "struct_ok E cfg st' (length (after_last_checkpoint rs) + k)" "active_segment st' = None"
    "read_payload E st' = read_payload E st" "db st' = db st" "wal st' = wal st"
    "dom (map_of (seg_dirs st')) = dom (map_of (seg_dirs st))"
    by (rule finalize_active_ok [OF struct act]; rule that; assumption)
  have "row_ok E pl rs' st' m" if "row_ok E pl rs' st m" for rs' m
    using that f(3,4,7) by (simp add: row_ok_def)
  then have "serving E cfg pl k rs st'"
    using assms f(2,3,5,6) by (simp add: serving_def recoverable_def)
  with f show ?thesis by blast
qed

lemma serving_checkpoint:
  assumes "serving E cfg pl k rs st" and "active_segment st = None"
    and "wal_fits (wal_x E) (checkpoint_record (cfg_tenant_id cfg) now)"
  shows "serving E cfg pl k (rs @ [checkpoint_record (cfg_tenant_id cfg) now])
     (st\<lparr>wal := append_checkpoint (wal_x E) (cfg_tenant_id cfg) now (wal st)\<rparr>)"
proof -
  have tail: "after_last_checkpoint (rs @ [checkpoint_record (cfg_tenant_id cfg) now]) = []"
    by (simp add: after_last_checkpoint_def is_checkpoint_def checkpoint_record_def)
  have "wal_holds (wal_x E) (append_checkpoint (wal_x E) (cfg_tenant_id cfg) now (wal st))
      (rs @ [checkpoint_record (cfg_tenant_id cfg) now])"
    using wal_holds_append_rec assms by (simp add: serving_def append_checkpoint_def)
  then show ?thesis
    using assms(1,2) unfolding serving_def recoverable_def tail
    by (auto simp: catalog_replay_def intro: struct_ok_mono)
qed

lemma serving_checkpoints:
  assumes "serving E cfg pl k rs st" and "active_segment st = None"
    and "wal_fits (wal_x E) (checkpoint_record (cfg_tenant_id cfg) now)"
  shows "\<exists>rs'. serving E cfg pl k rs' (append_wal_checkpoints E cfg now n st)
      \<and> (after_last_checkpoint rs' = after_last_checkpoint rs \<or> after_last_checkpoint rs' = [])
      \<and> db (append_wal_checkpoints E cfg now n st) = db st"
  using assms(1,2)
proof (induction n arbitrary: st rs)
  case 0
  then show ?case by auto
next
  case (Suc n)
  have tail: "after_last_checkpoint (rs @ [checkpoint_record (cfg_tenant_id cfg) now]) = []"
    by (simp add: after_last_checkpoint_def is_checkpoint_def checkpoint_record_def)
  from Suc.IH [OF serving_checkpoint [OF Suc.prems assms(3)]] Suc.prems(2) show ?case
    by (auto simp: tail)
qed

lemma checkpoint_after_batch_ok:
  assumes "serving E cfg pl k rs st" and "wal_fits (wal_x E) (checkpoint_record (cfg_tenant_id cfg) now)"
  shows "\<exists>st' rs'. checkpoint_after_batch E cfg now n st = Inr st' \<and> serving E cfg pl k rs' st'
      \<and> (after_last_checkpoint rs' = after_last_checkpoint rs \<or> after_last_checkpoint rs' = [])
      \<and> db st' = db st"
proof -
  let ?count = "writes_since_checkpoint st + n" and ?i = "wal_checkpoint_interval cfg"
  let ?st1 = "st\<lparr>writes_since_checkpoint := ?count mod ?i\<rparr>"
  have s1: "serving E cfg pl k rs ?st1" using assms(1) by simp
  obtain st2 where f: "finalize_active_segment E cfg ?st1 = Inr st2" "serving E cfg pl k rs st2"
    "db st2 = db st" "active_segment st2 = None"
    using serving_finalize [OF s1] by auto
  from serving_checkpoints [OF f(2,4) assms(2), of "?count div ?i"] assms(1) s1 f(1,3) show ?thesis
    by (auto simp: checkpoint_after_batch_def Let_def)
qed

text \<open>The whole add path refines adding the chunks to the catalog.\<close>

lemma add_batch_ok:
  assumes serv: "serving E cfg pl (length ps + (length ps + k)) rs st" and batch: "batch_ok E cfg pl rs st ps"
    and cp: "wal_fits (wal_x E) (checkpoint_record (cfg_tenant_id cfg) now)"
  shows "\<exists>st' rs'. add_batch E cfg now ps st = Inr st' \<and> serving E cfg pl k rs' st'
      \<and> (after_last_checkpoint rs' = after_last_checkpoint rs @ map (pending_record cfg) ps
         \<or> after_last_checkpoint rs' = [])
      \<and> catalog (cfg_tenant_id cfg) (db st') =
          catalog_replay E (map (pending_record cfg) ps) (catalog (cfg_tenant_id cfg) (db st))"
proof (cases "ps = []")
  case True
  then show ?thesis
    using serv writable by (intro exI [of _ st] exI [of _ rs]) (simp add: add_batch_def catalog_replay_def)
next
  case False
  let ?st1 = "st\<lparr>wal := append_batch (wal_x E) (map (pending_record cfg) ps) (wal st)\<rparr>"
  obtain new s where s: "write_payloads E cfg now ps ?st1 = Inr (new, s)" "wrote E cfg pl k rs st ps ps new s"
    using batch_write [OF serv batch, of ps "length ps" now] by auto
  obtain s3 where s3: "flush_active_segment_payload cfg s = Inr s3" "wrote E cfg pl k rs st ps ps new s3"
    using wrote_flush [OF s(2)] by blast
  note ins = wrote_insert [OF serv batch s3(2)]
  let ?s4 = "s3\<lparr>db := meta_insert_many new (db s3)\<rparr>"
  obtain st' rs' where c: "checkpoint_after_batch E cfg now (length ps) ?s4 = Inr st'" "serving E cfg pl k rs' st'"
    "after_last_checkpoint rs' = after_last_checkpoint (rs @ map (pending_record cfg) ps)
       \<or> after_last_checkpoint rs' = []" "db st' = db ?s4"
    using checkpoint_after_batch_ok [OF ins(1) cp] by blast
  have "add_batch E cfg now ps st = Inr st'"
    using False writable s(1) s3(1) c(1) by (simp add: add_batch_def append_wal_add_batch_records)
  with c(2-4) ins(2) show ?thesis unfolding batch_tail by auto
qed

end

section \<open>Crash stages\<close>

text \<open>
  The states an add goes through after its log write: some payloads written, all flushed, the
  rows inserted (one transaction), the segment finalized, some checkpoints appended.
\<close>

inductive add_stage ::
  "'b store_ext \<Rightarrow> tenant_config \<Rightarrow> i64 \<Rightarrow> pending_chunk list \<Rightarrow> 'b tenant_store \<Rightarrow> 'b tenant_store \<Rightarrow> bool"
  for E cfg now ps st where
  writing: "append_wal_add_batch E cfg ps st = Inr s1 \<Longrightarrow>
     write_payloads E cfg now (take j ps) s1 = Inr (rows, s) \<Longrightarrow> add_stage E cfg now ps st s"
| flushed: "append_wal_add_batch E cfg ps st = Inr s1 \<Longrightarrow>
     write_payloads E cfg now ps s1 = Inr (rows, s2) \<Longrightarrow>
     flush_active_segment_payload cfg s2 = Inr s \<Longrightarrow> add_stage E cfg now ps st s"
| inserted: "append_wal_add_batch E cfg ps st = Inr s1 \<Longrightarrow>
     write_payloads E cfg now ps s1 = Inr (rows, s2) \<Longrightarrow>
     flush_active_segment_payload cfg s2 = Inr s3 \<Longrightarrow>
     add_stage E cfg now ps st (s3\<lparr>db := meta_insert_many rows (db s3)\<rparr>)"
| finalized: "append_wal_add_batch E cfg ps st = Inr s1 \<Longrightarrow>
     write_payloads E cfg now ps s1 = Inr (rows, s2) \<Longrightarrow>
     flush_active_segment_payload cfg s2 = Inr s3 \<Longrightarrow>
     finalize_active_segment E cfg
       (s3\<lparr>db := meta_insert_many rows (db s3), writes_since_checkpoint := c\<rparr>) = Inr s \<Longrightarrow>
     add_stage E cfg now ps st (append_wal_checkpoints E cfg now j s)"

text \<open>The states of a delete after its log write.\<close>

inductive delete_stage ::
  "'b store_ext \<Rightarrow> tenant_config \<Rightarrow> i64 \<Rightarrow> string \<Rightarrow> 'b tenant_store \<Rightarrow> 'b tenant_store \<Rightarrow> bool"
  for E cfg now cid st where
  logged: "meta_get (db st) (cfg_tenant_id cfg) cid = Some m \<Longrightarrow>
     delete_stage E cfg now cid st
       (st\<lparr>wal := append_delete (wal_x E) (cfg_tenant_id cfg) cid now (wal st)\<rparr>)"
| marked: "meta_get (db st) (cfg_tenant_id cfg) cid = Some m \<Longrightarrow>
     delete_stage E cfg now cid st
       (st\<lparr>wal := append_delete (wal_x E) (cfg_tenant_id cfg) cid now (wal st),
           db := meta_mark_deleted (cfg_tenant_id cfg) cid (db st)\<rparr>)"
| tombstoned: "delete_chunk E cfg now cid st = Inr (True, s) \<Longrightarrow> delete_stage E cfg now cid st s"

context tenant_log
begin

lemma add_stage_restorable:
  assumes stage: "add_stage E cfg now ps st s"
    and serv: "serving E cfg pl (length ps + (length ps + k)) rs st" and batch: "batch_ok E cfg pl rs st ps"
    and cp: "wal_fits (wal_x E) (checkpoint_record (cfg_tenant_id cfg) now)"
  shows "restorable E cfg pl (catalog_replay E (map (pending_record cfg) ps) (catalog (cfg_tenant_id cfg) (db st))) s"
proof -
  let ?st1 = "st\<lparr>wal := append_batch (wal_x E) (map (pending_record cfg) ps) (wal st)\<rparr>"
  have log: "append_wal_add_batch E cfg ps st = Inr s1 \<longleftrightarrow> s1 = ?st1" for s1
    using writable by (auto simp: append_wal_add_batch_records)
  obtain new s2 where w: "write_payloads E cfg now ps ?st1 = Inr (new, s2)" "wrote E cfg pl k rs st ps ps new s2"
    using batch_write [OF serv batch, of ps "length ps" now] by auto
  obtain s3 where f: "flush_active_segment_payload cfg s2 = Inr s3" "wrote E cfg pl k rs st ps ps new s3"
    using wrote_flush [OF w(2)] by blast
  note ins = wrote_insert [OF serv batch f(2)]
  show ?thesis
    using stage
  proof cases
    case (writing s1 j rows)
    then show ?thesis
      using batch_write [OF serv batch, of "take j ps" j now] wrote_restorable [OF serv batch] by (auto simp: log)
  next
    case (flushed s1 rows s2')
    then show ?thesis using w(1) f wrote_restorable [OF serv batch] by (auto simp: log)
  next
    case (inserted s1 rows s2' s3')
    then show ?thesis using w(1) f(1) serving_restorable [OF ins(1)] ins(2) by (auto simp: log)
  next
    case (finalized s1 rows s2' s3' c s4 j)
    then have fin: "finalize_active_segment E cfg
        (s3\<lparr>db := meta_insert_many new (db s3), writes_since_checkpoint := c\<rparr>) = Inr s4"
      using w(1) f(1) by (simp add: log)
    have "serving E cfg pl k (rs @ map (pending_record cfg) ps)
        (s3\<lparr>db := meta_insert_many new (db s3), writes_since_checkpoint := c\<rparr>)"
      using ins(1) by simp
    from serving_finalize [OF this] fin have s4: "serving E cfg pl k (rs @ map (pending_record cfg) ps) s4"
      "db s4 = meta_insert_many new (db s3)" "active_segment s4 = None" by auto
    from serving_checkpoints [OF s4(1,3) cp, of j] show ?thesis
      using finalized(1) s4(2) ins(2) serving_restorable by fastforce
  qed
qed

text \<open>
  Deleting: the log gets the record, the row is marked, the segment gets a tombstone. Each
  of the three states is one a restart recovers from.
\<close>

lemma delete_logged:
  assumes serv: "serving E cfg pl (Suc k) rs st"
    and uuid: "uuid_parse E cid = Some cid" and fits: "wal_fits (wal_x E) (delete_record (cfg_tenant_id cfg) cid now)"
  defines "r \<equiv> delete_record (cfg_tenant_id cfg) cid now"
  shows "after_last_checkpoint (rs @ [r]) = after_last_checkpoint rs @ [r]"
    and "recoverable E cfg pl k (after_last_checkpoint rs @ [r]) st"
    and "wal_holds (wal_x E) (append_delete (wal_x E) (cfg_tenant_id cfg) cid now (wal st)) (rs @ [r])"
proof -
  show "after_last_checkpoint (rs @ [r]) = after_last_checkpoint rs @ [r]"
    by (rule tail_append) (simp add: r_def is_checkpoint_def delete_record_def)
  have "rec_ok E (cfg_tenant_id cfg) pl r" using uuid tenant by (simp add: rec_ok_def r_def delete_record_def)
  then show "recoverable E cfg pl k (after_last_checkpoint rs @ [r]) st"
    using serv by (auto simp: serving_def recoverable_def pending_append intro: row_ok_weaken)
  show "wal_holds (wal_x E) (append_delete (wal_x E) (cfg_tenant_id cfg) cid now (wal st)) (rs @ [r])"
    using serv fits wal_holds_append_rec by (simp add: serving_def append_delete_def r_def)
qed

lemma delete_marked:
  assumes serv: "serving E cfg pl (Suc k) rs st"
    and uuid: "uuid_parse E cid = Some cid" and fits: "wal_fits (wal_x E) (delete_record (cfg_tenant_id cfg) cid now)"
  shows "serving E cfg pl k (rs @ [delete_record (cfg_tenant_id cfg) cid now])
      (st\<lparr>wal := append_delete (wal_x E) (cfg_tenant_id cfg) cid now (wal st),
          db := meta_mark_deleted (cfg_tenant_id cfg) cid (db st)\<rparr>)"
proof -
  let ?r = "delete_record (cfg_tenant_id cfg) cid now" and ?T = "cfg_tenant_id cfg"
  note l = delete_logged [OF assms]
  have ok: "db_ok (db st)" and cat: "catalog_replay E (after_last_checkpoint rs) (catalog ?T (db st)) = catalog ?T (db st)"
    using serv by (auto simp: serving_def recoverable_def)
  have "record_type ?r = Delete" "rec_chunk_id ?r = cid" by (simp_all add: delete_record_def)
  then have "catalog_replay E (after_last_checkpoint rs @ [?r]) ((catalog ?T (db st))(cid := None)) =
      (catalog ?T (db st))(cid := None)"
    using replay_delete_again [OF cat, of ?r] by simp
  then show ?thesis
    using serv l(2,3) unfolding serving_def l(1)
    by (auto simp: recoverable_def catalog_mark [OF ok] db_ok_mark live_rows_mark)
qed

lemma serving_tombstone:
  assumes serv: "serving E cfg pl k rs st"
    and free: "\<forall>m \<in> live_rows (cfg_tenant_id cfg) (db st). (m_segment_id m, m_ordinal m) \<noteq> (sid, i)"
  shows "serving E cfg pl k rs (tombstone_segment E sid i st)"
proof -
  have struct: "struct_ok E cfg st (length (after_last_checkpoint rs) + k)"
    using serv by (simp add: serving_def recoverable_def)
  note t = tombstone_ok(1) [OF struct, of sid i] tombstone_ok(2) [OF struct, of _ _ sid i]
    tombstone_ok(3) [OF struct, of sid i]
  have "row_ok E pl rs' (tombstone_segment E sid i st) m = row_ok E pl rs' st m"
    if "m \<in> live_rows (cfg_tenant_id cfg) (db st)" for m rs'
    using t(2) [of "m_segment_id m" "m_ordinal m"] free that t(3) by (simp add: row_ok_def)
  then show ?thesis using serv t(1) by (simp add: serving_def recoverable_def)
qed

lemma delete_chunk_ok:
  assumes serv: "serving E cfg pl (Suc k) rs st"
    and uuid: "uuid_parse E cid = Some cid" and fits: "wal_fits (wal_x E) (delete_record (cfg_tenant_id cfg) cid now)"
  shows "\<exists>st' rs'. delete_chunk E cfg now cid st = Inr (catalog (cfg_tenant_id cfg) (db st) cid \<noteq> None, st')
      \<and> serving E cfg pl k rs' st'
      \<and> (after_last_checkpoint rs' = after_last_checkpoint rs
         \<or> after_last_checkpoint rs' = after_last_checkpoint rs @ [delete_record (cfg_tenant_id cfg) cid now])
      \<and> catalog (cfg_tenant_id cfg) (db st') = (catalog (cfg_tenant_id cfg) (db st))(cid := None)"
proof (cases "meta_get (db st) (cfg_tenant_id cfg) cid")
  case None
  then have "delete_chunk E cfg now cid st = Inr (False, st)" "catalog (cfg_tenant_id cfg) (db st) cid = None"
    using writable by (simp_all add: delete_chunk_def catalog_def)
  moreover have "serving E cfg pl k rs st" using serving_mono [OF serv] by simp
  moreover have "catalog (cfg_tenant_id cfg) (db st) = (catalog (cfg_tenant_id cfg) (db st))(cid := None)"
    using calculation(2) by (simp add: fun_eq_iff)
  ultimately show ?thesis by (intro exI [of _ st] exI [of _ rs]) simp
next
  case (Some m)
  let ?T = "cfg_tenant_id cfg"
  let ?s = "st\<lparr>wal := append_delete (wal_x E) ?T cid now (wal st), db := meta_mark_deleted ?T cid (db st)\<rparr>"
  note m = meta_get_live [OF Some]
  have ok: "db_ok (db st)" using serv by (simp add: serving_def recoverable_def)
  have "\<forall>q \<in> live_rows ?T (db ?s). (m_segment_id q, m_ordinal q) \<noteq> (m_segment_id m, m_ordinal m)"
    using live_rows_coords [OF ok _ conjunct1 [OF m]] m by (auto simp: live_rows_mark)
  from serving_tombstone [OF delete_marked [OF assms] this]
  have "serving E cfg pl k (rs @ [delete_record ?T cid now]) (tombstone_segment E (m_segment_id m) (m_ordinal m) ?s)" .
  moreover have "delete_chunk E cfg now cid st =
      Inr (True, tombstone_segment E (m_segment_id m) (m_ordinal m) ?s)"
    using Some m writable by (simp add: delete_chunk_def)
  ultimately show ?thesis
    using delete_logged(1) [OF assms] Some by (auto simp: catalog_mark [OF ok] catalog_def)
qed

lemma delete_stage_restorable:
  assumes stage: "delete_stage E cfg now cid st s" and serv: "serving E cfg pl (Suc k) rs st"
    and uuid: "uuid_parse E cid = Some cid" and fits: "wal_fits (wal_x E) (delete_record (cfg_tenant_id cfg) cid now)"
  shows "restorable E cfg pl ((catalog (cfg_tenant_id cfg) (db st))(cid := None)) s"
  using stage
proof cases
  case (logged m)
  note l = delete_logged [OF serv uuid fits]
  have "catalog_replay E (after_last_checkpoint rs @ [delete_record (cfg_tenant_id cfg) cid now])
      (catalog (cfg_tenant_id cfg) (db st)) = (catalog (cfg_tenant_id cfg) (db st))(cid := None)"
    using serv by (simp add: serving_def catalog_replay_append catalog_replay_def catalog_step_def delete_record_def)
  then show ?thesis
    using logged l(2,3) unfolding restorable_def
    by (intro exI [of _ k] exI [of _ "rs @ [delete_record (cfg_tenant_id cfg) cid now]"]) (simp add: l(1))
next
  case (marked m)
  have "db_ok (db st)" using serv by (simp add: serving_def recoverable_def)
  then show ?thesis
    using serving_restorable [OF delete_marked [OF serv uuid fits]] marked by (simp add: catalog_mark)
next
  case tombstoned
  then show ?thesis using delete_chunk_ok [OF serv uuid fits] serving_restorable by fastforce
qed

text \<open>Reading: a chunk of the catalog is returned from its payload, with the status of its row.\<close>

lemma get_chunk_ok:
  assumes "serving E cfg pl k rs st"
  shows "get_chunk E cfg cid st =
    (case meta_get (db st) (cfg_tenant_id cfg) cid of
       None \<Rightarrow> (Inr None, st)
     | Some m \<Rightarrow> (decode_chunk E m (pl cid), st))"
proof (cases "meta_get (db st) (cfg_tenant_id cfg) cid")
  case None
  then show ?thesis by (simp add: get_chunk_def)
next
  case (Some m)
  note m = meta_get_live [OF Some]
  then have "row_ok E pl [] st m" using assms by (simp add: serving_def)
  then have "read_payload E st (m_segment_id m) (m_ordinal m) = Inr (Some (pl cid))"
    using m by (simp add: row_ok_def pending_def)
  with Some m show ?thesis by (simp add: get_chunk_def)
qed

end

end
