(* ===== verification/Tenant_Runs.thy ===== *)
theory Tenant_Runs
  imports Tenant_Serving
begin

text \<open>
  Sequences of operations on a tenant store: adds, deletes and restarts after a crash in any
  order. A run of the store refines the same sequence on the catalog, and a fresh data
  directory is a valid start.
\<close>

section \<open>Operations and their specification\<close>

datatype store_op = OpAdd "pending_chunk list" | OpDelete string | OpRestart

fun run_op ::
  "'b store_ext \<Rightarrow> tenant_config \<Rightarrow> i64 \<Rightarrow> store_op \<Rightarrow> 'b tenant_store \<Rightarrow> memd_error + 'b tenant_store" where
  "run_op E cfg now (OpAdd ps) st = add_batch E cfg now ps st"
| "run_op E cfg now (OpDelete cid) st =
     (case delete_chunk E cfg now cid st of Inl e \<Rightarrow> Inl e | Inr (_, st') \<Rightarrow> Inr st')"
| "run_op E cfg now OpRestart st = tenant_open E cfg now (crash st)"

fun run_ops ::
  "'b store_ext \<Rightarrow> tenant_config \<Rightarrow> i64 \<Rightarrow> store_op list \<Rightarrow> 'b tenant_store \<Rightarrow> memd_error + 'b tenant_store" where
  "run_ops E cfg now [] st = Inr st"
| "run_ops E cfg now (x # xs) st =
     (case run_op E cfg now x st of Inl e \<Rightarrow> Inl e | Inr st' \<Rightarrow> run_ops E cfg now xs st')"

text \<open>What the operations mean for the catalog; a restart means nothing.\<close>

definition catalog_add ::
  "'b store_ext \<Rightarrow> pending_chunk list \<Rightarrow> (string \<Rightarrow> chunk_metadata option) \<Rightarrow> string \<Rightarrow> chunk_metadata option" where
  "catalog_add E ps v =
     fold (\<lambda>p v. v(mc_chunk_id (p_chunk p) \<mapsto> strip_coords (chunk_row E (p_chunk p) 0 0))) ps v"

fun spec_op ::
  "'b store_ext \<Rightarrow> store_op \<Rightarrow> (string \<Rightarrow> chunk_metadata option) \<Rightarrow> string \<Rightarrow> chunk_metadata option" where
  "spec_op E (OpAdd ps) v = catalog_add E ps v"
| "spec_op E (OpDelete cid) v = v(cid := None)"
| "spec_op E OpRestart v = v"

text \<open>
  The requests a caller may make: prepared chunks with ids never used before, deletes of
  well-formed ids. \<open>op_ids\<close> are the ids a request uses, \<open>op_cost\<close> bounds the records and
  segments it creates.
\<close>

fun op_ids :: "store_op \<Rightarrow> string set" where
  "op_ids (OpAdd ps) = pending_id ` set ps"
| "op_ids (OpDelete cid) = {cid}"
| "op_ids OpRestart = {}"

fun op_cost :: "store_op \<Rightarrow> nat" where
  "op_cost (OpAdd ps) = 2 * length ps"
| "op_cost (OpDelete cid) = 1"
| "op_cost OpRestart = 0"

fun op_ok ::
  "'b store_ext \<Rightarrow> tenant_config \<Rightarrow> (string \<Rightarrow> bytes) \<Rightarrow> i64 \<Rightarrow> string set \<Rightarrow> store_op \<Rightarrow> bool" where
  "op_ok E cfg pl now used (OpAdd ps) \<longleftrightarrow>
     (\<forall>p \<in> set ps. pending_ok E cfg pl p \<and> wal_fits (wal_x E) (pending_record cfg p) \<and> pending_id p \<notin> used)
     \<and> distinct (map pending_id ps)"
| "op_ok E cfg pl now used (OpDelete cid) \<longleftrightarrow>
     uuid_parse E cid = Some cid \<and> wal_fits (wal_x E) (delete_record (cfg_tenant_id cfg) cid now)"
| "op_ok E cfg pl now used OpRestart \<longleftrightarrow> True"

fun ops_ok ::
  "'b store_ext \<Rightarrow> tenant_config \<Rightarrow> (string \<Rightarrow> bytes) \<Rightarrow> i64 \<Rightarrow> string set \<Rightarrow> store_op list \<Rightarrow> bool" where
  "ops_ok E cfg pl now used [] \<longleftrightarrow> True"
| "ops_ok E cfg pl now used (x # xs) \<longleftrightarrow>
     op_ok E cfg pl now used x \<and> ops_ok E cfg pl now (used \<union> op_ids x) xs"

definition knows :: "tenant_config \<Rightarrow> string set \<Rightarrow> wal_record list \<Rightarrow> 'b tenant_store \<Rightarrow> bool" where
  "knows cfg used rs st \<longleftrightarrow>
     dom (catalog (cfg_tenant_id cfg) (db st)) \<subseteq> used
     \<and> rec_chunk_id ` set (after_last_checkpoint rs) \<subseteq> used"

lemma catalog_add_replay:
  assumes "\<forall>p \<in> set ps. pending_ok E cfg pl p" and "distinct (map pending_id ps)"
    and "\<forall>p \<in> set ps. v (pending_id p) = None"
  shows "catalog_replay E (map (pending_record cfg) ps) v = catalog_add E ps v"
proof -
  have rows: "list_all2 (row_for E) ps (map (\<lambda>p. chunk_row E (p_chunk p) 0 0) ps)"
    by (auto simp: list_all2_conv_all_nth row_for_def)
  show ?thesis
    unfolding replay_pending [OF rows assms]
    by (simp add: catalog_add_def fold_map comp_def chunk_row_def)
qed

lemma dom_catalog_add: "dom (catalog_add E ps v) = pending_id ` set ps \<union> dom v"
  unfolding catalog_add_def
  by (induction ps arbitrary: v) (auto simp: pending_id_def)

context tenant_log
begin

lemma run_op_ok:
  assumes "serving E cfg pl (op_cost x + k) rs st" and "knows cfg used rs st"
    and "op_ok E cfg pl now used x" and cp: "wal_fits (wal_x E) (checkpoint_record (cfg_tenant_id cfg) now)"
  shows "\<exists>st' rs'. run_op E cfg now x st = Inr st' \<and> serving E cfg pl k rs' st'
      \<and> knows cfg (used \<union> op_ids x) rs' st'
      \<and> catalog (cfg_tenant_id cfg) (db st') = spec_op E x (catalog (cfg_tenant_id cfg) (db st))"
proof (cases x)
  case (OpAdd ps)
  let ?v = "catalog (cfg_tenant_id cfg) (db st)"
  have p: "\<forall>p \<in> set ps. pending_ok E cfg pl p" "distinct (map pending_id ps)"
    and fresh: "\<forall>p \<in> set ps. ?v (pending_id p) = None"
    and batch: "batch_ok E cfg pl rs st ps"
    using assms(2,3) unfolding OpAdd batch_ok_def knows_def by auto
  have serv: "serving E cfg pl (length ps + (length ps + k)) rs st"
    using assms(1) by (simp add: OpAdd mult_2 add.assoc)
  obtain st' rs' where a: "add_batch E cfg now ps st = Inr st'" "serving E cfg pl k rs' st'"
    "after_last_checkpoint rs' = after_last_checkpoint rs @ map (pending_record cfg) ps
       \<or> after_last_checkpoint rs' = []"
    "catalog (cfg_tenant_id cfg) (db st') = catalog_replay E (map (pending_record cfg) ps) ?v"
    using add_batch_ok [OF serv batch cp] by blast
  have "catalog (cfg_tenant_id cfg) (db st') = catalog_add E ps ?v"
    using a(4) catalog_add_replay [OF p fresh] by simp
  moreover from this have "knows cfg (used \<union> op_ids x) rs' st'"
    using assms(2) a(3) by (auto simp: knows_def OpAdd dom_catalog_add image_subset_iff)
  ultimately show ?thesis using a(1,2) by (auto simp: OpAdd)
next
  case (OpDelete cid)
  then have serv: "serving E cfg pl (Suc k) rs st"
    and d: "uuid_parse E cid = Some cid" "wal_fits (wal_x E) (delete_record (cfg_tenant_id cfg) cid now)"
    using assms(1,3) by simp_all
  from delete_chunk_ok [OF serv d] assms(2) show ?thesis
    by (fastforce simp: OpDelete knows_def delete_record_def)
next
  case OpRestart
  then have "serving E cfg pl k rs st" using assms(1) by simp
  from serving_reopen [OF this, of now] obtain st' where o: "tenant_open E cfg now (crash st) = Inr st'"
    "catalog (cfg_tenant_id cfg) (db st') = catalog (cfg_tenant_id cfg) (db st)"
    "serving E cfg pl k (if after_last_checkpoint rs = [] then rs else []) st'" by blast
  have "knows cfg used (if after_last_checkpoint rs = [] then rs else []) st'"
    using assms(2) o(2) by (simp add: knows_def after_last_checkpoint_def)
  with o show ?thesis by (auto simp: OpRestart)
qed

lemma run_ops_ok:
  assumes "serving E cfg pl (sum_list (map op_cost xs) + k) rs st" and "knows cfg used rs st"
    and "ops_ok E cfg pl now used xs" and cp: "wal_fits (wal_x E) (checkpoint_record (cfg_tenant_id cfg) now)"
  shows "\<exists>st' rs'. run_ops E cfg now xs st = Inr st' \<and> serving E cfg pl k rs' st'
      \<and> catalog (cfg_tenant_id cfg) (db st') = fold (spec_op E) xs (catalog (cfg_tenant_id cfg) (db st))"
  using assms(1-3)
proof (induction xs arbitrary: st rs used)
  case Nil
  then show ?case by auto
next
  case (Cons x xs)
  have serv: "serving E cfg pl (op_cost x + (sum_list (map op_cost xs) + k)) rs st"
    and x: "op_ok E cfg pl now used x"
    and xs: "ops_ok E cfg pl now (used \<union> op_ids x) xs"
    using Cons.prems by (simp_all add: add.assoc)
  obtain st1 rs1 where s1: "run_op E cfg now x st = Inr st1"
    "serving E cfg pl (sum_list (map op_cost xs) + k) rs1 st1" "knows cfg (used \<union> op_ids x) rs1 st1"
    "catalog (cfg_tenant_id cfg) (db st1) = spec_op E x (catalog (cfg_tenant_id cfg) (db st))"
    using run_op_ok [OF serv Cons.prems(2) x cp] by blast
  from Cons.IH [OF s1(2,3) xs] s1(1,4) show ?case by simp
qed

text \<open>A data directory without log and segments opens as a valid, empty store.\<close>

lemma fresh_open:
  assumes "db_ok rows" and "live_rows (cfg_tenant_id cfg) rows = {}" and "k < 2 ^ 64"
  shows "\<exists>st. tenant_open E cfg now \<lparr>disk_db = rows, disk_artifacts = [], disk_wal = None, disk_dirs = []\<rparr> = Inr st
      \<and> serving E cfg pl k [] st \<and> catalog (cfg_tenant_id cfg) (db st) = Map.empty"
proof -
  let ?d = "\<lparr>disk_db = rows, disk_artifacts = [], disk_wal = None, disk_dirs = []\<rparr>"
  let ?w = "\<lparr>file_data = [], append_mode = False, cursor = 0, records_written = 0\<rparr>"
  let ?st = "boot E ?d ?w"
  have "tenant_open E cfg now ?d = Inr ?st"
    by (simp add: tenant_open_def open_or_create_def writer_create_def recover_from_wal_def boot_def)
  moreover have "struct_ok E cfg ?st k"
    by (rule boot_struct_ok) (simp_all add: dirs_ok_def)
  then have "serving E cfg pl k [] ?st"
    using assms by (simp add: serving_def recoverable_def after_last_checkpoint_def wal_holds_def
        at_end_def catalog_replay_def)
  moreover have "catalog (cfg_tenant_id cfg) (db ?st) = Map.empty"
    using assms(2) by (simp add: fun_eq_iff catalog_None meta_get_None)
  ultimately show ?thesis by blast
qed

end

end
