(* ===== verification/Sentence_Split.thy ===== *)
theory Sentence_Split
  imports Memd_Text
begin

text \<open>
  Sentence splitting (\<open>text/sentence.rs\<close>): lines with their byte offsets, the heuristic that
  tells code from prose, and the splitter, which keeps a block of code lines together and cuts a
  prose line at its Unicode sentences. The segmentation is the crate \<open>unicode_segmentation\<close>: it
  is the parameter \<open>seg\<close>, and the locale \<open>segmentation\<close> states that it returns pieces of the line
  in order. A slice of a string at a byte offset that is not a character boundary panics, which is
  the value \<open>None\<close>.
\<close>

section \<open>Slices at byte offsets\<close>

fun byte_drop :: "nat \<Rightarrow> str \<Rightarrow> str option" where
  "byte_drop n [] = (if n = 0 then Some [] else None)"
| "byte_drop n (c # s) =
     (if n = 0 then Some (c # s) else if utf8_len c \<le> n then byte_drop (n - utf8_len c) s else None)"

fun byte_take :: "nat \<Rightarrow> str \<Rightarrow> str option" where
  "byte_take n [] = (if n = 0 then Some [] else None)"
| "byte_take n (c # s) =
     (if n = 0 then Some [] else if utf8_len c \<le> n then map_option ((#) c) (byte_take (n - utf8_len c) s) else None)"

lemma byte_len_concat: "byte_len (concat ss) = sum_list (map byte_len ss)"
  by (induction ss) simp_all

lemma byte_drop_iff: "byte_drop n s = Some t \<longleftrightarrow> (\<exists>p. s = p @ t \<and> byte_len p = n)"
proof (induction n s rule: byte_drop.induct)
  case (2 n c s)
  then show ?case
    by (cases "n = 0") (auto simp: append_eq_Cons_conv Cons_eq_append_conv)
qed auto

lemma byte_take_iff: "byte_take n s = Some p \<longleftrightarrow> (\<exists>t. s = p @ t \<and> byte_len p = n)"
proof (induction n s arbitrary: p rule: byte_take.induct)
  case (2 n c s)
  then show ?case
    by (cases "n = 0") (auto simp: Cons_eq_append_conv)
qed auto

lemma byte_drop_append: "byte_drop (byte_len p) (p @ r) = Some r"
  unfolding byte_drop_iff by blast

lemma byte_take_append: "byte_take (byte_len p) (p @ r) = Some p"
  unfolding byte_take_iff by blast

section \<open>Lines\<close>

record line_slice =
  ls_text :: str
  ls_start :: nat

text \<open>The loop over the characters: \<open>cur\<close> is the part of the current line already passed.\<close>

fun scan_lines :: "nat \<Rightarrow> str \<Rightarrow> str \<Rightarrow> line_slice list" where
  "scan_lines line_start cur [] =
     (if cur \<noteq> [] then [\<lparr>ls_text = cur, ls_start = line_start\<rparr>] else [])"
| "scan_lines line_start cur (c # s) =
     (if c = 0x0A
      then \<lparr>ls_text = cur, ls_start = line_start\<rparr> # scan_lines (line_start + byte_len cur + 1) [] s
      else scan_lines line_start (cur @ [c]) s)"

definition split_lines_with_offsets :: "str \<Rightarrow> line_slice list" where
  "split_lines_with_offsets s = (if s = [] then [] else scan_lines 0 [] s)"

section \<open>Code or prose\<close>

definition code_patterns :: "str list" where
  "code_patterns = map lit
     [''{'', ''}'', ''['', '']'', '';'', ''fn '', ''func '', ''def '', ''async fn'', ''pub fn'', ''pub(crate)'',
      ''let '', ''const '', ''var '', ''mut '', ''=>'', ''->'', ''::'', ''.unwrap()'', ''.await'', ''use '',
      ''import '', ''from '', ''require('', ''if ('', ''for ('', ''while ('', ''match '', ''switch ('', ''//'',
      ''/*'', ''*/'', ''#['', '': &'', '': Vec<'', '': String'', '': i32'', '': u32'', ''-> Result'', ''-> Option'']"

definition is_code_line :: "str \<Rightarrow> bool" where
  "is_code_line line =
     (let trimmed = trim line in
      if trimmed = [] then False
      else if list_ex (contains trimmed) code_patterns then True
      else if starts_with trimmed (lit ''function '') \<or> starts_with trimmed (lit ''async function '') then True
      else if (starts_with line (lit ''    '') \<or> starts_with line [0x09])
              \<and> (contains trimmed (lit ''='') \<or> contains trimmed (lit ''('') \<or> contains trimmed (lit ''.''))
      then True
      else if ends_with trimmed (lit ''{'') \<or> ends_with trimmed (lit ''}'') \<or> ends_with trimmed (lit '';'')
              \<or> ends_with trimmed (lit '')'') \<or> ends_with trimmed (lit '','')
      then \<not> contains trimmed (lit '' '') \<or> contains trimmed (lit ''('') \<and> contains trimmed (lit '')'')
      else False)"

section \<open>Splitting\<close>

record sentence =
  s_text :: str
  s_offset :: nat
  s_is_code :: bool

text \<open>The lines that continue a code block, and the lines after it.\<close>

fun collect_block :: "line_slice list \<Rightarrow> str list \<times> line_slice list" where
  "collect_block [] = ([], [])"
| "collect_block (l # ls) =
     (if is_code_line (ls_text l) \<or> trim (ls_text l) = []
      then let (block, rest) = collect_block ls in (ls_text l # block, rest)
      else ([], l # ls))"

definition drop_blank_tail :: "str list \<Rightarrow> str list" where
  "drop_blank_tail ls = rev (dropWhile (\<lambda>l. trim l = []) (rev ls))"

fun prose_sentences :: "str \<Rightarrow> nat \<Rightarrow> nat \<Rightarrow> str list \<Rightarrow> sentence list option" where
  "prose_sentences line line_start cursor [] = Some []"
| "prose_sentences line line_start cursor (sent # sents) =
     (case byte_drop cursor line of
        None \<Rightarrow> None
      | Some rest \<Rightarrow>
         (let relative_start = (case find_sub rest sent of
                                  Some pos \<Rightarrow> cursor + byte_len (take pos rest) | None \<Rightarrow> cursor);
              leading_ws = byte_len sent - byte_len (trim_start sent);
              ss = prose_sentences line line_start (relative_start + byte_len sent) sents
          in if trim sent \<noteq> []
             then map_option ((#) \<lparr>s_text = trim sent, s_offset = line_start + relative_start + leading_ws,
                                   s_is_code = False\<rparr>) ss
             else ss))"

lemma collect_block_le [simp]: "collect_block ls = (block, rest) \<Longrightarrow> length rest \<le> length ls"
  by (induction ls arbitrary: block rest) (auto split: if_splits prod.splits)

function split_from :: "(str \<Rightarrow> str list) \<Rightarrow> line_slice list \<Rightarrow> sentence list option" where
  "split_from seg [] = Some []"
| "split_from seg (l # ls) =
     (if is_code_line (ls_text l)
      then let (block, rest) = collect_block ls;
               code_lines = drop_blank_tail (ls_text l # block)
           in (if code_lines \<noteq> []
               then map_option ((#) \<lparr>s_text = join [0x0A] code_lines, s_offset = ls_start l, s_is_code = True\<rparr>)
                      (split_from seg rest)
               else split_from seg rest)
      else case prose_sentences (ls_text l) (ls_start l) 0 (seg (ls_text l)) of
        None \<Rightarrow> None
      | Some ss \<Rightarrow> map_option ((@) ss) (split_from seg ls))"
  by pat_completeness auto

termination
  by (relation "measure (\<lambda>(seg, ls). length ls)") (auto simp: le_imp_less_Suc dest: collect_block_le [OF sym])

definition split_sentences :: "(str \<Rightarrow> str list) \<Rightarrow> str \<Rightarrow> sentence list option" where
  "split_sentences seg s =
     (let lines = split_lines_with_offsets s in if lines = [] then Some [] else split_from seg lines)"

section \<open>Layout\<close>

text \<open>Pieces of a text that follow each other, possibly with gaps.\<close>

primrec in_order :: "str \<Rightarrow> str list \<Rightarrow> bool" where
  "in_order s [] = True"
| "in_order s (p # ps) = (\<exists>a b. s = a @ p @ b \<and> in_order b ps)"

text \<open>Sentences as they lie in a text that starts at byte \<open>pos\<close>.\<close>

primrec laid_out :: "nat \<Rightarrow> str \<Rightarrow> sentence list \<Rightarrow> bool" where
  "laid_out pos s [] = True"
| "laid_out pos s (x # xs) =
     (\<exists>a b. s = a @ s_text x @ b \<and> s_text x \<noteq> [] \<and> s_offset x = pos + byte_len a
          \<and> laid_out (pos + byte_len (a @ s_text x)) b xs)"

locale segmentation =
  fixes seg :: "str \<Rightarrow> str list"
  assumes seg_in_order: "in_order line (seg line)"

lemma in_order_prefix: "in_order s ps \<Longrightarrow> in_order (u @ s) ps"
proof (cases ps)
  case (Cons p qs)
  assume "in_order s ps"
  then obtain a b where "s = a @ p @ b" "in_order b qs" using Cons by auto
  then have "u @ s = (u @ a) @ p @ b" "in_order b qs" by simp_all
  then show ?thesis using Cons in_order.simps(2) by blast
qed simp

lemma laid_out_prefix: "laid_out (pos + byte_len u) s xs \<Longrightarrow> laid_out pos (u @ s) xs"
proof (cases xs)
  case (Cons x ys)
  assume "laid_out (pos + byte_len u) s xs"
  then obtain a b where "s = a @ s_text x @ b" "s_text x \<noteq> []" "s_offset x = pos + byte_len u + byte_len a"
    "laid_out (pos + byte_len u + byte_len (a @ s_text x)) b ys" using Cons by auto
  then have "u @ s = (u @ a) @ s_text x @ b \<and> s_text x \<noteq> [] \<and> s_offset x = pos + byte_len (u @ a)
      \<and> laid_out (pos + byte_len ((u @ a) @ s_text x)) b ys" by (simp add: add.assoc)
  then show ?thesis unfolding Cons laid_out.simps by blast
qed simp

lemma laid_out_append:
  "laid_out pos s xs \<Longrightarrow> laid_out (pos + byte_len s) t ys \<Longrightarrow> laid_out pos (s @ t) (xs @ ys)"
proof (induction xs arbitrary: pos s)
  case Nil
  then show ?case by (simp add: laid_out_prefix)
next
  case (Cons x xs)
  then obtain a b where ab: "s = a @ s_text x @ b" "s_text x \<noteq> []" "s_offset x = pos + byte_len a"
    "laid_out (pos + byte_len (a @ s_text x)) b xs" by auto
  have "laid_out (pos + byte_len (a @ s_text x)) (b @ t) (xs @ ys)"
    by (rule Cons.IH [OF ab(4)]) (use Cons.prems(2) ab(1) in \<open>simp add: add.assoc\<close>)
  with ab have "s @ t = a @ s_text x @ b @ t \<and> s_text x \<noteq> [] \<and> s_offset x = pos + byte_len a
      \<and> laid_out (pos + byte_len (a @ s_text x)) (b @ t) (xs @ ys)" by simp
  then show ?case unfolding append_Cons laid_out.simps by blast
qed

lemma laid_out_suffix: "laid_out pos s xs \<Longrightarrow> laid_out pos (s @ t) xs"
  using laid_out_append [of pos s xs t "[]"] by simp

lemma laid_out_single:
  assumes "s = u @ p @ v" and "p \<noteq> []" and "laid_out (pos + byte_len s) t xs"
  shows "laid_out pos (s @ t) (\<lparr>s_text = p, s_offset = pos + byte_len u, s_is_code = k\<rparr> # xs)"
proof -
  have "laid_out pos s [\<lparr>s_text = p, s_offset = pos + byte_len u, s_is_code = k\<rparr>]"
    using assms(1,2) by auto
  from laid_out_append [OF this assms(3)] show ?thesis by simp
qed

section \<open>Prose\<close>

lemma find_sub_0: "starts_with s p \<Longrightarrow> find_sub s p = Some 0"
  by (cases s) (simp_all add: starts_with_def)

lemma find_sub_le: "\<exists>pos \<le> length a. find_sub (a @ p @ b) p = Some pos"
proof (induction a)
  case Nil
  have "starts_with (p @ b) p" by (simp add: starts_with_def)
  then show ?case by (simp add: find_sub_0)
qed auto

lemma find_sub_hit: "find_sub s p = Some pos \<Longrightarrow> take (length p) (drop pos s) = p"
  by (induction s arbitrary: pos) (auto simp: starts_with_def split: if_splits)

lemma split_at_hit: "take (length p) (drop pos s) = p \<Longrightarrow> s = take pos s @ p @ drop (pos + length p) s"
  by (metis add.commute append_take_drop_id drop_drop)

lemma find_sub_split:
  fixes a p b :: str
  obtains u v where "a @ p @ b = u @ p @ v @ b" and "find_sub (a @ p @ b) p = Some (length u)"
proof -
  let ?s = "a @ p @ b"
  obtain pos where pos: "find_sub ?s p = Some pos" and le: "pos \<le> length a" using find_sub_le by blast
  have hit: "take (length p) (drop pos ?s) = p" using pos by (rule find_sub_hit)
  have "drop (pos + length p) ?s = drop (pos + length p) (a @ p) @ b" using le by simp
  with split_at_hit [OF hit] have split: "?s = take pos ?s @ p @ drop (pos + length p) (a @ p) @ b" by (simp only:)
  have "length (take pos ?s) = pos" using le by simp
  with pos have "find_sub ?s p = Some (length (take pos ?s))" by (simp only:)
  with split show ?thesis by (rule that)
qed

lemma trim_split: "\<exists>u v. s = u @ trim s @ v \<and> byte_len u = byte_len s - byte_len (trim_start s)"
proof -
  let ?u = "takeWhile is_whitespace s" and ?t = "trim_start s"
  have "rev ?t = takeWhile is_whitespace (rev ?t) @ dropWhile is_whitespace (rev ?t)" by simp
  then have "?t = trim s @ rev (takeWhile is_whitespace (rev ?t))"
    unfolding trim_def trim_start_def by (metis rev_append rev_rev_ident)
  moreover have s: "s = ?u @ ?t" by (simp add: trim_start_def)
  moreover have "byte_len ?u = byte_len s - byte_len ?t" by (subst (2) s) simp
  ultimately show ?thesis by metis
qed

lemma prose_laid_out:
  assumes "line = p @ rest" and "byte_len p = cursor" and "in_order rest sents"
  shows "\<exists>xs. prose_sentences line start cursor sents = Some xs \<and> laid_out (start + cursor) rest xs"
  using assms
proof (induction sents arbitrary: p rest cursor)
  case (Cons q qs)
  then obtain a b where rest: "rest = a @ q @ b" and b: "in_order b qs" by auto
  obtain u v where uv: "rest = u @ q @ v @ b" and pos: "find_sub rest q = Some (length u)"
    using find_sub_split [of a q b] rest by metis
  obtain xs where xs: "prose_sentences line start (cursor + byte_len u + byte_len q) qs = Some xs"
      "laid_out (start + (cursor + byte_len u + byte_len q)) (v @ b) xs"
    using Cons.IH [of "p @ u @ q" "v @ b" "cursor + byte_len u + byte_len q"] Cons.prems uv in_order_prefix [OF b]
    by auto
  have drop: "byte_drop cursor line = Some rest" using Cons.prems by (auto simp: byte_drop_iff)
  have take: "take (length u) rest = u" by (simp add: uv)
  obtain w z where w: "q = w @ trim q @ z" "byte_len w = byte_len q - byte_len (trim_start q)"
    using trim_split by blast
  show ?case
  proof (cases "trim q = []")
    case True
    then have "prose_sentences line start cursor (q # qs) = Some xs" using drop pos take xs(1) by simp
    moreover have "laid_out (start + cursor) ((u @ q) @ v @ b) xs"
      using laid_out_prefix [of "start + cursor" "u @ q" "v @ b" xs] xs(2) by (simp add: add.assoc)
    ultimately show ?thesis using uv by simp
  next
    case False
    let ?x = "\<lparr>s_text = trim q, s_offset = start + cursor + byte_len (u @ w), s_is_code = False\<rparr>"
    have "prose_sentences line start cursor (q # qs) = Some (?x # xs)"
      using drop pos take xs(1) False w(2) by (simp add: add.assoc)
    moreover have "laid_out (start + cursor) ((u @ q) @ v @ b) (?x # xs)"
      by (rule laid_out_single [of _ _ _ z]) (use False w(1) xs(2) in \<open>simp_all add: add.assoc\<close>)
    ultimately show ?thesis using uv by simp
  qed
qed simp

section \<open>Lines and blocks\<close>

text \<open>Lines as they lie in a text, each but the last followed by a newline.\<close>

primrec lined :: "nat \<Rightarrow> str \<Rightarrow> line_slice list \<Rightarrow> bool" where
  "lined pos s [] = (s = [])"
| "lined pos s (l # ls) =
     (ls_start l = pos \<and>
      (s = ls_text l \<and> ls = [] \<or>
       (\<exists>r. s = ls_text l @ 0x0A # r \<and> lined (pos + byte_len (ls_text l) + 1) r ls)))"

lemma newline_len [simp]: "utf8_len 0x0A = 1"
  by (simp add: utf8_len_def)

lemma scan_lines_lined: "lined pos (cur @ s) (scan_lines pos cur s)"
proof (induction pos cur s rule: scan_lines.induct)
  case (2 pos cur c s)
  then show ?case by (cases "c = 0x0A") simp_all
qed simp

lemma lined_block:
  assumes "lined pos s (l # ls)" and "collect_block ls = (block, rest)"
  shows "\<exists>m t. s = join [0x0A] (ls_text l # block) @ m @ t
           \<and> lined (pos + byte_len (join [0x0A] (ls_text l # block) @ m)) t rest"
  using assms
proof (induction ls arbitrary: l pos s block)
  case Nil
  then show ?case by (auto intro: exI [of _ "[]"])
next
  case (Cons k ls)
  then obtain r where r: "s = ls_text l @ 0x0A # r" "lined (pos + byte_len (ls_text l) + 1) r (k # ls)"
    by auto
  show ?case
  proof (cases "is_code_line (ls_text k) \<or> trim (ls_text k) = []")
    case True
    then obtain bs where bs: "collect_block ls = (bs, rest)" "block = ls_text k # bs"
      using Cons.prems(2) by (auto split: prod.splits)
    from Cons.IH [OF r(2) bs(1)] obtain m t where mt: "r = join [0x0A] (ls_text k # bs) @ m @ t"
      "lined (pos + byte_len (ls_text l) + 1 + byte_len (join [0x0A] (ls_text k # bs) @ m)) t rest" by blast
    then show ?thesis using r(1) bs(2) by (intro exI [of _ m] exI [of _ t]) (simp add: add.assoc)
  next
    case False
    then have "block = []" "rest = k # ls" using Cons.prems(2) by auto
    with r show ?thesis by (intro exI [of _ "[0x0A]"] exI [of _ r]) simp
  qed
qed

lemma join_prefix: "\<exists>v. join sep (xs @ ys) = join sep xs @ v"
  by (induction sep xs rule: join.induct) (cases ys; auto)+

lemma drop_blank_tail_prefix: "\<exists>ys. ls = drop_blank_tail ls @ ys"
  unfolding drop_blank_tail_def by (metis rev_append rev_rev_ident takeWhile_dropWhile_id)

lemma drop_blank_tail_head: "trim l \<noteq> [] \<Longrightarrow> \<exists>xs. drop_blank_tail (l # ls) = l # xs"
proof -
  assume l: "trim l \<noteq> []"
  then have "drop_blank_tail (l # ls) \<noteq> []"
    by (auto simp: drop_blank_tail_def dropWhile_eq_Nil_conv)
  then show ?thesis using drop_blank_tail_prefix [of "l # ls"] by (metis append_eq_Cons_conv)
qed

lemma code_line_trim: "is_code_line l \<Longrightarrow> trim l \<noteq> []"
  by (auto simp: is_code_line_def)

lemma join_not_Nil: "l \<noteq> [] \<Longrightarrow> join sep (l # ls) \<noteq> []"
  by (cases ls) simp_all

lemma trim_Nil [simp]: "trim [] = []"
  by (simp add: trim_def trim_start_def)

context segmentation
begin

lemma split_from_laid_out: "lined pos s ls \<Longrightarrow> \<exists>xs. split_from seg ls = Some xs \<and> laid_out pos s xs"
proof (induction "length ls" arbitrary: ls pos s rule: less_induct)
  case less
  show ?case
  proof (cases ls)
    case (Cons l ls')
    show ?thesis
    proof (cases "is_code_line (ls_text l)")
      case True
      obtain block rest where block: "collect_block ls' = (block, rest)" by fastforce
      let ?code = "drop_blank_tail (ls_text l # block)"
      obtain m t where mt: "s = join [0x0A] (ls_text l # block) @ m @ t"
        "lined (pos + byte_len (join [0x0A] (ls_text l # block) @ m)) t rest"
        using lined_block [OF _ block] less.prems Cons by blast
      obtain xs where xs: "split_from seg rest = Some xs"
        "laid_out (pos + byte_len (join [0x0A] (ls_text l # block) @ m)) t xs"
        using less.hyps [OF _ mt(2)] collect_block_le [OF block] Cons by fastforce
      have trim: "trim (ls_text l) \<noteq> []" using True by (rule code_line_trim)
      then obtain c where c: "?code = ls_text l # c" using drop_blank_tail_head by blast
      moreover have "ls_text l \<noteq> []" using trim by auto
      ultimately have ne: "join [0x0A] ?code \<noteq> []" using join_not_Nil by metis
      obtain v where v: "join [0x0A] (ls_text l # block) = join [0x0A] ?code @ v"
        using drop_blank_tail_prefix join_prefix by metis
      have "laid_out pos ((join [0x0A] (ls_text l # block) @ m) @ t)
          (\<lparr>s_text = join [0x0A] ?code, s_offset = pos + byte_len [], s_is_code = True\<rparr> # xs)"
        by (rule laid_out_single [of _ _ _ "v @ m"]) (use v ne xs(2) in simp_all)
      moreover have "ls_start l = pos" using less.prems Cons by simp
      ultimately show ?thesis using Cons True block xs(1) mt(1) c by simp
    next
      case False
      obtain ys where ys: "prose_sentences (ls_text l) (ls_start l) 0 (seg (ls_text l)) = Some ys"
        "laid_out (ls_start l + 0) (ls_text l) ys"
        using prose_laid_out [of "ls_text l" "[]" "ls_text l" 0 "seg (ls_text l)" "ls_start l"] seg_in_order by auto
      have start: "ls_start l = pos" using less.prems Cons by simp
      consider "s = ls_text l" "ls' = []"
        | r where "s = ls_text l @ 0x0A # r" "lined (pos + byte_len (ls_text l) + 1) r ls'"
        using less.prems Cons by auto
      then show ?thesis
      proof cases
        case 1
        with Cons False ys start show ?thesis by simp
      next
        case (2 r)
        obtain xs where xs: "split_from seg ls' = Some xs" "laid_out (pos + byte_len (ls_text l) + 1) r xs"
          using less.hyps [OF _ 2(2)] Cons by auto
        have "laid_out pos ((ls_text l @ [0x0A]) @ r) (ys @ xs)"
          by (rule laid_out_append [OF laid_out_suffix]) (use ys(2) start xs(2) in simp_all)
        with Cons False ys xs(1) 2(1) show ?thesis by simp
      qed
    qed
  qed (use less.prems in simp)
qed

lemma split_sentences_laid_out: "\<exists>xs. split_sentences seg s = Some xs \<and> laid_out 0 s xs"
  using split_from_laid_out [OF scan_lines_lined [of 0 "[]" s]]
  by (auto simp: split_sentences_def split_lines_with_offsets_def Let_def)

end

text \<open>A segmentation that takes every line as one sentence meets the contract.\<close>

interpretation whole_line: segmentation "\<lambda>line. [line]"
proof
  show "in_order line [line]" for line by (auto intro: exI [of _ "[]"])
qed

text \<open>So does one that cuts behind full stops, exclamation and question marks.\<close>

definition ends_sentence :: "uchar \<Rightarrow> bool" where
  "ends_sentence c \<longleftrightarrow> c = 0x2E \<or> c = 0x21 \<or> c = 0x3F"

fun punctuated :: "str \<Rightarrow> str list" where
  "punctuated [] = []"
| "punctuated (c # s) =
     (if ends_sentence c then [c] # punctuated s
      else case punctuated s of [] \<Rightarrow> [[c]] | p # ps \<Rightarrow> (c # p) # ps)"

lemma in_order_concat: "concat ps = s \<Longrightarrow> in_order s ps"
proof (induction ps arbitrary: s)
  case (Cons p ps)
  then have "s = [] @ p @ concat ps" "in_order (concat ps) ps" by auto
  then show ?case unfolding in_order.simps by blast
qed simp

lemma concat_punctuated: "concat (punctuated s) = s"
  by (induction s) (auto split: list.splits)

interpretation punctuation: segmentation punctuated
  by unfold_locales (rule in_order_concat [OF concat_punctuated])

section \<open>Properties\<close>

text \<open>
  C34. Splitting never cuts inside a character and never loses its place: whenever the
  segmentation returns pieces of each line in order, the splitter returns a list of non-empty
  sentences that lie in the text one behind the other, each exactly at its recorded byte offset.
\<close>

theorem sentences_at_offsets:
  assumes "segmentation seg"
  shows "\<exists>xs. split_sentences seg s = Some xs \<and> laid_out 0 s xs"
  using assms by (rule segmentation.split_sentences_laid_out)

theorem sentences_at_offsets_witness:
  "\<exists>xs. split_sentences (\<lambda>line. [line]) (lit ''let x = 1;'' @ 0x0A # lit '' An end.'') = Some xs
     \<and> laid_out 0 (lit ''let x = 1;'' @ 0x0A # lit '' An end.'') xs"
  by (rule sentences_at_offsets [OF whole_line.segmentation_axioms])

end
