(* ===== verification/Chunking.thy ===== *)
theory Chunking
  imports Sentence_Split Memd_Types "HOL-Library.Sublist"
begin

text \<open>
  Document chunking (\<open>chunking.rs\<close>) and the splitting of long documents on add
  (\<open>store/shared_add.rs\<close>): sentences are grouped into chunks of a target size with an overlap, an
  oversized sentence is cut at character boundaries, and a short last group is merged into the
  chunk before it. Sizes and offsets are bytes. A slice off a character boundary would panic,
  which is the value \<open>None\<close>; the properties show that this does not happen.
\<close>

record chunking_config =
  chunk_size :: nat
  ch_overlap :: nat
  min_chunk_size :: nat

definition default_chunking :: chunking_config where
  "default_chunking = \<lparr>chunk_size = 1200, ch_overlap = 200, min_chunk_size = 400\<rparr>"

record text_chunk =
  tc_text :: str
  start_char :: nat
  end_char :: nat
  tc_index :: nat

section \<open>Oversized sentences\<close>

definition is_char_boundary :: "str \<Rightarrow> nat \<Rightarrow> bool" where
  "is_char_boundary s n \<longleftrightarrow> byte_drop n s \<noteq> None"

fun back_up :: "str \<Rightarrow> nat \<Rightarrow> nat \<Rightarrow> nat" where
  "back_up s low 0 = 0"
| "back_up s low (Suc e) = (if Suc e > low \<and> \<not> is_char_boundary s (Suc e) then back_up s low e else Suc e)"

definition byte_slice :: "str \<Rightarrow> nat \<Rightarrow> nat \<Rightarrow> str option" where
  "byte_slice s a b = Option.bind (byte_drop a s) (byte_take (b - a))"

definition first_char_len :: "str \<Rightarrow> nat" where
  "first_char_len s = (case s of [] \<Rightarrow> 1 | c # _ \<Rightarrow> utf8_len c)"

text \<open>Where the piece that starts at \<open>sent_offset\<close> ends.\<close>

definition cut_end :: "nat \<Rightarrow> str \<Rightarrow> nat \<Rightarrow> nat option" where
  "cut_end lim s sent_offset =
     (let target_len = min (byte_len s - sent_offset) lim;
          e = back_up s sent_offset (sent_offset + target_len)
      in if e = sent_offset
         then map_option (\<lambda>rest. sent_offset + first_char_len rest) (byte_drop sent_offset s)
         else Some e)"

lemma back_up_bounds: "low \<le> e \<Longrightarrow> low \<le> back_up s low e \<and> back_up s low e \<le> e"
  by (induction s low e rule: back_up.induct) auto

lemma first_char_len_pos [simp]: "0 < first_char_len s"
  by (simp add: first_char_len_def split: list.split)

lemma cut_end_gt: "cut_end lim s o' = Some e \<Longrightarrow> o' < e"
  using back_up_bounds [of o' "o' + min (byte_len s - o') lim" s]
  by (auto simp: cut_end_def Let_def split: if_splits)

function forced_split :: "nat \<Rightarrow> sentence \<Rightarrow> nat \<Rightarrow> nat \<Rightarrow> text_chunk list option" where
  "forced_split lim x sent_offset index =
     (if sent_offset < byte_len (s_text x)
      then case cut_end lim (s_text x) sent_offset of
          None \<Rightarrow> None
        | Some e \<Rightarrow>
           (case byte_slice (s_text x) sent_offset e of
              None \<Rightarrow> None
            | Some piece \<Rightarrow>
                map_option ((#) \<lparr>tc_text = piece, start_char = s_offset x + sent_offset,
                                 end_char = s_offset x + e, tc_index = index\<rparr>)
                  (forced_split lim x e (index + 1)))
      else Some [])"
  by pat_completeness auto

termination
  by (relation "measure (\<lambda>(lim, x, off, index). byte_len (s_text x) - off)") (auto dest: cut_end_gt)

declare forced_split.simps [simp del]

section \<open>Grouping sentences\<close>

definition join_texts :: "sentence list \<Rightarrow> str" where
  "join_texts xs = concat (map s_text xs)"

text \<open>The sentences from the end that fit the overlap, last one first, and their length.\<close>

fun take_overlap :: "nat \<Rightarrow> nat \<Rightarrow> sentence list \<Rightarrow> sentence list \<times> nat" where
  "take_overlap limit len [] = ([], len)"
| "take_overlap limit len (x # xs) =
     (if len + byte_len (s_text x) \<le> limit
      then let (ys, n) = take_overlap limit (len + byte_len (s_text x)) xs in (x # ys, n)
      else ([], len))"

record chunker =
  ck_chunks :: "text_chunk list"
  ck_current :: "sentence list"
  ck_length :: nat
  ck_start :: nat
  ck_index :: nat

definition push_current :: "chunker \<Rightarrow> chunker" where
  "push_current c =
     c\<lparr>ck_chunks := ck_chunks c @ [\<lparr>tc_text = join_texts (ck_current c), start_char = ck_start c,
                                     end_char = ck_start c + ck_length c, tc_index = ck_index c\<rparr>],
       ck_index := ck_index c + 1\<rparr>"

definition add_oversized :: "chunking_config \<Rightarrow> sentence \<Rightarrow> chunker \<Rightarrow> chunker option" where
  "add_oversized cfg x c =
     (let c1 = (if ck_length c > 0 then (push_current c)\<lparr>ck_current := [], ck_length := 0\<rparr> else c)
      in map_option (\<lambda>pieces. c1\<lparr>ck_chunks := ck_chunks c1 @ pieces, ck_index := ck_index c1 + length pieces,
                                  ck_start := s_offset x + byte_len (s_text x)\<rparr>)
           (forced_split (chunk_size cfg) x 0 (ck_index c1)))"

definition start_next :: "chunking_config \<Rightarrow> sentence \<Rightarrow> chunker \<Rightarrow> chunker" where
  "start_next cfg x c =
     (let c1 = push_current c;
          (ys, n) = take_overlap (ch_overlap cfg) 0 (rev (ck_current c));
          kept = rev ys
      in c1\<lparr>ck_current := kept, ck_length := n,
            ck_start := (case kept of y # _ \<Rightarrow> s_offset y | [] \<Rightarrow> s_offset x)\<rparr>)"

definition add_sentence :: "chunking_config \<Rightarrow> sentence \<Rightarrow> chunker \<Rightarrow> chunker option" where
  "add_sentence cfg x c =
     (let len = byte_len (s_text x) in
      if len > chunk_size cfg then add_oversized cfg x c
      else let c1 = (if ck_length c > 0 \<and> ck_length c + len > chunk_size cfg then start_next cfg x c else c)
           in Some (c1\<lparr>ck_current := ck_current c1 @ [x], ck_length := ck_length c1 + len\<rparr>))"

fun add_sentences :: "chunking_config \<Rightarrow> sentence list \<Rightarrow> chunker \<Rightarrow> chunker option" where
  "add_sentences cfg [] c = Some c"
| "add_sentences cfg (x # xs) c = Option.bind (add_sentence cfg x c) (add_sentences cfg xs)"

definition sentence_end :: "sentence \<Rightarrow> nat" where
  "sentence_end x = s_offset x + byte_len (s_text x)"

definition merge_tail :: "sentence list \<Rightarrow> text_chunk \<Rightarrow> text_chunk" where
  "merge_tail current l =
     (let news = filter (\<lambda>x. s_offset x \<ge> end_char l) current;
          new_end = (if news = [] then end_char l else sentence_end (last news))
      in l\<lparr>tc_text := tc_text l @ join_texts news, end_char := max (end_char l) new_end\<rparr>)"

definition finish :: "chunking_config \<Rightarrow> chunker \<Rightarrow> text_chunk list" where
  "finish cfg c =
     (if ck_length c > 0 \<and> (ck_length c \<ge> min_chunk_size cfg \<or> ck_chunks c = [])
      then ck_chunks c @ [\<lparr>tc_text = join_texts (ck_current c), start_char = ck_start c,
             end_char = (if ck_current c \<noteq> [] then sentence_end (last (ck_current c)) else ck_start c + ck_length c),
             tc_index = ck_index c\<rparr>]
      else if ck_chunks c \<noteq> []
      then butlast (ck_chunks c) @ [merge_tail (ck_current c) (last (ck_chunks c))]
      else ck_chunks c)"

definition chunk_sentences :: "chunking_config \<Rightarrow> sentence list \<Rightarrow> text_chunk list option" where
  "chunk_sentences cfg xs =
     map_option (finish cfg)
       (add_sentences cfg xs \<lparr>ck_chunks = [], ck_current = [], ck_length = 0, ck_start = 0, ck_index = 0\<rparr>)"

definition whole_text :: "str \<Rightarrow> text_chunk" where
  "whole_text s = \<lparr>tc_text = s, start_char = 0, end_char = byte_len s, tc_index = 0\<rparr>"

definition chunk_text :: "(str \<Rightarrow> str list) \<Rightarrow> str \<Rightarrow> chunking_config \<Rightarrow> text_chunk list option" where
  "chunk_text seg s cfg =
     (if byte_len s \<le> chunk_size cfg then Some [whole_text s]
      else case split_sentences seg s of
        None \<Rightarrow> None
      | Some xs \<Rightarrow> if xs = [] then Some [whole_text s] else chunk_sentences cfg xs)"

section \<open>Splitting on add\<close>

definition ADD_CHUNK_THRESHOLD :: nat where
  "ADD_CHUNK_THRESHOLD = 1000"

definition tag_with :: "string \<Rightarrow> nat \<Rightarrow> str" where
  "tag_with key n = lit key @ lit (show_nat n)"

definition sub_chunk :: "memory_chunk \<Rightarrow> nat \<Rightarrow> nat \<times> text_chunk \<Rightarrow> memory_chunk" where
  "sub_chunk chunk n p =
     (let (idx, t) = p
      in chunk\<lparr>mc_text := tc_text t,
               mc_tags := mc_tags chunk @ [tag_with ''chunk_index:'' idx, tag_with ''total_chunks:'' n,
                            tag_with ''char_start:'' (start_char t), tag_with ''char_end:'' (end_char t)]\<rparr>)"

definition split_for_add :: "(str \<Rightarrow> str list) \<Rightarrow> memory_chunk \<Rightarrow> memory_chunk list option" where
  "split_for_add seg chunk =
     (if byte_len (mc_text chunk) \<le> ADD_CHUNK_THRESHOLD then Some [chunk]
      else case chunk_text seg (mc_text chunk) default_chunking of
        None \<Rightarrow> None
      | Some ts \<Rightarrow>
          if length ts \<le> 1 then Some [chunk]
          else Some (map (sub_chunk chunk (length ts)) (enumerate 0 ts)))"

section \<open>Cutting at character boundaries\<close>

lemma back_up_boundary: "back_up s low e = low \<or> back_up s low e = 0 \<or> is_char_boundary s (back_up s low e) \<or> back_up s low e < low"
  by (induction s low e rule: back_up.induct) auto

lemma prefix_by_length:
  assumes "p @ r = q @ t" and "byte_len p \<le> byte_len q"
  shows "\<exists>u. q = p @ u"
proof -
  consider u where "q = p @ u" | u where "p = q @ u" using assms(1) by (auto simp: append_eq_append_conv2)
  then show ?thesis
  proof cases
    case (2 u)
    with assms(2) have "u = []" by simp
    with 2 show ?thesis by auto
  qed blast
qed

lemma cut_end_spec:
  assumes "s = p @ r" and "r \<noteq> []"
  shows "\<exists>q t. r = q @ t \<and> q \<noteq> [] \<and> byte_len q \<le> max lim 4 \<and> cut_end lim s (byte_len p) = Some (byte_len p + byte_len q)"
proof (cases "back_up s (byte_len p) (byte_len p + min (byte_len s - byte_len p) lim) = byte_len p")
  case True
  then have "cut_end lim s (byte_len p) = map_option (\<lambda>rest. byte_len p + first_char_len rest) (byte_drop (byte_len p) s)"
    unfolding cut_end_def Let_def by (simp only: if_True simp_thms)
  moreover have "byte_drop (byte_len p) s = Some r" using assms(1) by (simp only: byte_drop_append)
  moreover obtain c u where r: "r = c # u" using assms(2) by (cases r) auto
  ultimately have "cut_end lim s (byte_len p) = Some (byte_len p + byte_len [c])"
    by (simp add: first_char_len_def)
  moreover have "byte_len [c] \<le> max lim 4" by (simp add: le_max_iff_disj)
  ultimately show ?thesis using r by (intro exI [of _ "[c]"] exI [of _ u]) (simp only: append.simps simp_thms list.distinct)
next
  case False
  define m where "m = min (byte_len s - byte_len p) lim"
  define e where "e = back_up s (byte_len p) (byte_len p + m)"
  have ne: "e \<noteq> byte_len p" using False unfolding e_def m_def .
  have b: "byte_len p \<le> e" "e \<le> byte_len p + m"
    using back_up_bounds [of "byte_len p" "byte_len p + m" s] by (simp_all add: e_def)
  with ne have "is_char_boundary s e"
    using back_up_boundary [of s "byte_len p" "byte_len p + m"] unfolding e_def [symmetric] by linarith
  then obtain t where "byte_drop e s = Some t" unfolding is_char_boundary_def by blast
  then obtain q where q: "s = q @ t" "byte_len q = e" unfolding byte_drop_iff by blast
  then obtain u where u: "q = p @ u" using prefix_by_length [of p r q t] assms(1) b(1) by auto
  have e: "e = byte_len p + byte_len u" using q(2) u by simp
  have "r = u @ t" using assms(1) q(1) u by simp
  moreover have "u \<noteq> []" using ne e by auto
  moreover have "byte_len u \<le> max lim 4" using b(2) e by (simp add: m_def le_max_iff_disj)
  moreover have "cut_end lim s (byte_len p) = Some (byte_len p + byte_len u)"
    using ne unfolding cut_end_def Let_def m_def [symmetric] e_def [symmetric] e [symmetric] by (simp only: if_False)
  ultimately show ?thesis by blast
qed

lemma forced_split_spec:
  assumes "s_text x = p @ r"
  shows "\<exists>ps. forced_split lim x (byte_len p) n = Some ps \<and> concat (map tc_text ps) = r
           \<and> map tc_index ps = [n..<n + length ps] \<and> (\<forall>t \<in> set ps. byte_len (tc_text t) \<le> max lim 4)
           \<and> (r \<noteq> [] \<longrightarrow> ps \<noteq> [] \<and> end_char (last ps) = sentence_end x)"
  using assms
proof (induction "length r" arbitrary: p r n rule: less_induct)
  case less
  show ?case
  proof (cases "r = []")
    case True
    with less.prems show ?thesis by (simp add: forced_split.simps)
  next
    case False
    then obtain q t where q: "r = q @ t" "q \<noteq> []" "byte_len q \<le> max lim 4"
      "cut_end lim (s_text x) (byte_len p) = Some (byte_len p + byte_len q)"
      using cut_end_spec [OF less.prems] by blast
    have slice: "byte_slice (s_text x) (byte_len p) (byte_len p + byte_len q) = Some q"
    proof -
      have "byte_drop (byte_len p) (s_text x) = Some r" using less.prems by (simp only: byte_drop_append)
      moreover have "byte_take (byte_len q) r = Some q" using q(1) by (simp only: byte_take_append)
      ultimately show ?thesis by (simp add: byte_slice_def)
    qed
    obtain ps where ps: "forced_split lim x (byte_len (p @ q)) (n + 1) = Some ps" "concat (map tc_text ps) = t"
      "map tc_index ps = [n + 1..<n + 1 + length ps]" "\<forall>t \<in> set ps. byte_len (tc_text t) \<le> max lim 4"
      "t \<noteq> [] \<longrightarrow> ps \<noteq> [] \<and> end_char (last ps) = sentence_end x"
      using less.hyps [of t "p @ q" "n + 1"] less.prems q(1,2) by auto
    let ?c = "\<lparr>tc_text = q, start_char = s_offset x + byte_len p, end_char = s_offset x + (byte_len p + byte_len q),
                tc_index = n\<rparr>"
    have "byte_len p < byte_len (s_text x)" using less.prems False by simp
    then have f: "forced_split lim x (byte_len p) n = Some (?c # ps)"
      using q(4) slice ps(1) by (subst forced_split.simps) (simp add: add.assoc)
    have i: "map tc_index (?c # ps) = [n..<n + length (?c # ps)]"
      using ps(3) by (simp add: upt_conv_Cons del: upt_Suc)
    have l: "end_char (last (?c # ps)) = sentence_end x"
    proof (cases "t = []")
      case True
      then have "ps = []" using ps(1) less.prems q(1) by (simp add: forced_split.simps)
      with True less.prems q(1) show ?thesis by (simp add: sentence_end_def)
    qed (use ps(5) in simp)
    have z: "\<forall>t \<in> set (?c # ps). byte_len (tc_text t) \<le> max lim 4" using ps(4) q(3) by simp
    have "concat (map tc_text (?c # ps)) = r" using ps(2) q(1) by simp
    with f i l z show ?thesis by blast
  qed
qed

section \<open>The state between sentences\<close>

text \<open>Sentences that follow each other in the text.\<close>

definition follows :: "sentence list \<Rightarrow> bool" where
  "follows xs \<longleftrightarrow> (\<forall>x \<in> set xs. s_text x \<noteq> []) \<and> sorted_wrt (\<lambda>a b. sentence_end a \<le> s_offset b) xs"

lemma join_texts_simps [simp]:
  "join_texts [] = []" "join_texts (x # xs) = s_text x @ join_texts xs" "join_texts (xs @ ys) = join_texts xs @ join_texts ys"
  by (simp_all add: join_texts_def)

lemma follows_append:
  "follows (xs @ ys) \<longleftrightarrow> follows xs \<and> follows ys \<and> (\<forall>x \<in> set xs. \<forall>y \<in> set ys. sentence_end x \<le> s_offset y)"
  by (auto simp: follows_def sorted_wrt_append)

lemma follows_Cons:
  "follows (x # xs) \<longleftrightarrow> s_text x \<noteq> [] \<and> follows xs \<and> (\<forall>y \<in> set xs. sentence_end x \<le> s_offset y)"
  by (auto simp: follows_def)

lemma sentence_end_le: "sentence_end x \<le> n \<Longrightarrow> s_offset x \<le> n"
  by (simp add: sentence_end_def)

lemma follows_join_Nil: "follows xs \<Longrightarrow> join_texts xs = [] \<longleftrightarrow> xs = []"
  by (cases xs) (simp_all add: follows_Cons)

lemma laid_out_follows: "laid_out pos s xs \<Longrightarrow> follows xs \<and> (\<forall>x \<in> set xs. pos \<le> s_offset x)"
proof (induction xs arbitrary: pos s)
  case (Cons x xs)
  then obtain a b where ab: "s_text x \<noteq> []" "s_offset x = pos + byte_len a"
    "laid_out (pos + byte_len (a @ s_text x)) b xs" by auto
  from Cons.IH [OF ab(3)] ab(1,2) show ?case by (auto simp: follows_Cons sentence_end_def)
qed (simp add: follows_def)

lemma laid_out_subseq: "laid_out pos s xs \<Longrightarrow> subseq (join_texts xs) s"
proof (induction xs arbitrary: pos s)
  case (Cons x xs)
  then obtain a b where "s = a @ s_text x @ b" "laid_out (pos + byte_len (a @ s_text x)) b xs" by auto
  then show ?case using Cons.IH by (simp add: list_emb_append_mono list_emb_append2)
qed simp

text \<open>The byte length of a group is at most the distance to the next sentence.\<close>

lemma follows_span:
  assumes "follows xs" and "\<forall>x \<in> set xs. sentence_end x \<le> b" and "\<forall>x \<in> set xs. start \<le> s_offset x" and "start \<le> b"
  shows "start + byte_len (join_texts xs) \<le> b"
  using assms
proof (induction xs arbitrary: start)
  case (Cons x xs)
  have "sentence_end x + byte_len (join_texts xs) \<le> b"
    by (rule Cons.IH) (use Cons.prems in \<open>auto simp: follows_Cons\<close>)
  then show ?case using Cons.prems(3) by (simp add: sentence_end_def)
qed simp

lemma take_overlap_spec:
  assumes "take_overlap limit n xs = (ys, m)" and "n \<le> limit"
  shows "(\<exists>zs. xs = ys @ zs) \<and> m = n + byte_len (join_texts ys) \<and> m \<le> limit"
  using assms
proof (induction limit n xs arbitrary: ys m rule: take_overlap.induct)
  case (2 limit n x xs)
  then show ?case by (cases "n + byte_len (s_text x) \<le> limit") (auto split: prod.splits)
qed simp

lemma byte_len_join_rev [simp]: "byte_len (join_texts (rev xs)) = byte_len (join_texts xs)"
  by (induction xs) simp_all

abbreviation all_text :: "text_chunk list \<Rightarrow> str" where
  "all_text ts \<equiv> concat (map tc_text ts)"

definition size_limit :: "chunking_config \<Rightarrow> nat" where
  "size_limit cfg = max (chunk_size cfg) 4 + ch_overlap cfg"

definition chunker_ok :: "chunking_config \<Rightarrow> sentence list \<Rightarrow> sentence list \<Rightarrow> chunker \<Rightarrow> bool" where
  "chunker_ok cfg past rest c \<longleftrightarrow>
     map tc_index (ck_chunks c) = [0..<length (ck_chunks c)] \<and> ck_index c = length (ck_chunks c)
     \<and> ck_length c = byte_len (join_texts (ck_current c)) \<and> ck_length c \<le> size_limit cfg
     \<and> (\<forall>t \<in> set (ck_chunks c). byte_len (tc_text t) \<le> size_limit cfg)
     \<and> follows (ck_current c @ rest) \<and> (\<forall>x \<in> set (ck_current c @ rest). ck_start c \<le> s_offset x)
     \<and> (\<exists>old new. ck_current c = old @ new
          \<and> subseq (join_texts past) (all_text (ck_chunks c) @ join_texts new)
          \<and> (ck_chunks c \<noteq> [] \<longrightarrow> (\<forall>x \<in> set (new @ rest). end_char (last (ck_chunks c)) \<le> s_offset x)))"

lemma chunker_okI:
  assumes "map tc_index (ck_chunks c) = [0..<length (ck_chunks c)]" and "ck_index c = length (ck_chunks c)"
    and "ck_length c = byte_len (join_texts (ck_current c))" and "ck_length c \<le> size_limit cfg"
    and "\<forall>t \<in> set (ck_chunks c). byte_len (tc_text t) \<le> size_limit cfg"
    and "follows (ck_current c @ rest)" and "\<forall>x \<in> set (ck_current c @ rest). ck_start c \<le> s_offset x"
    and "ck_current c = old @ new" and "subseq (join_texts past) (all_text (ck_chunks c) @ join_texts new)"
    and "ck_chunks c \<noteq> [] \<longrightarrow> (\<forall>x \<in> set (new @ rest). end_char (last (ck_chunks c)) \<le> s_offset x)"
  shows "chunker_ok cfg past rest c"
  unfolding chunker_ok_def using assms by blast

lemma subseq_append_right: "subseq xs (ys @ zs) \<Longrightarrow> subseq xs (ys @ us @ zs)"
  by (metis list_emb_append2 list_emb_append_mono subseq_append' subseq_order.order_trans subseq_order.refl)

lemma chunker_ok_push:
  assumes "chunker_ok cfg past (x # rest) c"
  shows "let c1 = push_current c
         in map tc_index (ck_chunks c1) = [0..<length (ck_chunks c1)] \<and> ck_index c1 = length (ck_chunks c1)
            \<and> (\<forall>t \<in> set (ck_chunks c1). byte_len (tc_text t) \<le> size_limit cfg)
            \<and> subseq (join_texts past) (all_text (ck_chunks c1))
            \<and> (\<forall>y \<in> set (x # rest). end_char (last (ck_chunks c1)) \<le> s_offset y)"
proof -
  obtain old new where on: "ck_current c = old @ new" "subseq (join_texts past) (all_text (ck_chunks c) @ join_texts new)"
    using assms unfolding chunker_ok_def by blast
  have "subseq (join_texts past) (all_text (ck_chunks c) @ join_texts old @ join_texts new)"
    using on(2) by (rule subseq_append_right)
  moreover have "ck_start c + ck_length c \<le> s_offset y" if "y \<in> set (x # rest)" for y
    using follows_span [of "ck_current c" "s_offset y" "ck_start c"] assms that
    unfolding chunker_ok_def by (auto simp: follows_append)
  ultimately show ?thesis using assms on(1) by (simp add: push_current_def chunker_ok_def Let_def)
qed

lemma size_limit_ge: "n \<le> max (chunk_size cfg) 4 \<Longrightarrow> n \<le> size_limit cfg" "n \<le> chunk_size cfg \<Longrightarrow> n \<le> size_limit cfg"
  by (simp_all add: size_limit_def)

text \<open>Before an oversized sentence the group is closed, which leaves nothing pending.\<close>

definition flushed :: "chunker \<Rightarrow> chunker" where
  "flushed c = (if ck_length c > 0 then (push_current c)\<lparr>ck_current := [], ck_length := 0\<rparr> else c)"

lemma flushed_ok:
  assumes "chunker_ok cfg past (x # rest) c"
  shows "map tc_index (ck_chunks (flushed c)) = [0..<length (ck_chunks (flushed c))]"
    "ck_index (flushed c) = length (ck_chunks (flushed c))"
    "\<forall>t \<in> set (ck_chunks (flushed c)). byte_len (tc_text t) \<le> size_limit cfg"
    "ck_length (flushed c) = 0" "ck_current (flushed c) = []"
    "subseq (join_texts past) (all_text (ck_chunks (flushed c)))"
proof -
  have "follows (ck_current c)" "ck_length c = byte_len (join_texts (ck_current c))"
    using assms by (simp_all add: chunker_ok_def follows_append)
  then have "ck_length c = 0 \<longleftrightarrow> ck_current c = []" by (simp add: follows_join_Nil)
  moreover obtain old new where "ck_current c = old @ new" "subseq (join_texts past) (all_text (ck_chunks c) @ join_texts new)"
    using assms unfolding chunker_ok_def by blast
  ultimately have "ck_length c = 0 \<Longrightarrow> ck_current c = [] \<and> subseq (join_texts past) (all_text (ck_chunks c))" by auto
  with chunker_ok_push [OF assms] assms
  show "map tc_index (ck_chunks (flushed c)) = [0..<length (ck_chunks (flushed c))]"
    "ck_index (flushed c) = length (ck_chunks (flushed c))"
    "\<forall>t \<in> set (ck_chunks (flushed c)). byte_len (tc_text t) \<le> size_limit cfg"
    "ck_length (flushed c) = 0" "ck_current (flushed c) = []"
    "subseq (join_texts past) (all_text (ck_chunks (flushed c)))"
    by (simp_all only: flushed_def Let_def chunker_ok_def split: if_split) auto
qed

lemma chunker_ok_oversized:
  assumes "chunker_ok cfg past (x # rest) c"
  shows "\<exists>c'. add_oversized cfg x c = Some c' \<and> chunker_ok cfg (past @ [x]) rest c'"
proof -
  note c1 = flushed_ok [OF assms]
  have fx: "s_text x \<noteq> []" "follows rest" "\<forall>y \<in> set rest. sentence_end x \<le> s_offset y"
    using assms by (simp_all add: chunker_ok_def follows_append follows_Cons)
  obtain ps where ps: "forced_split (chunk_size cfg) x 0 (ck_index (flushed c)) = Some ps" "all_text ps = s_text x"
    "map tc_index ps = [ck_index (flushed c)..<ck_index (flushed c) + length ps]"
    "\<forall>t \<in> set ps. byte_len (tc_text t) \<le> max (chunk_size cfg) 4" "ps \<noteq> []" "end_char (last ps) = sentence_end x"
    using forced_split_spec [of x "[]" "s_text x" "chunk_size cfg" "ck_index (flushed c)"] fx(1) by auto
  let ?c2 = "(flushed c)\<lparr>ck_chunks := ck_chunks (flushed c) @ ps, ck_index := ck_index (flushed c) + length ps,
                          ck_start := s_offset x + byte_len (s_text x)\<rparr>"
  have sub: "subseq (join_texts (past @ [x])) (all_text (ck_chunks (flushed c) @ ps))"
    using c1(6) ps(2) by (simp add: list_emb_append_mono)
  have idx: "map tc_index (ck_chunks (flushed c) @ ps) = [0..<length (ck_chunks (flushed c) @ ps)]"
    using c1(1,2) ps(3) upt_add_eq_append [of 0 "length (ck_chunks (flushed c))" "length ps"] by simp
  have size: "\<forall>t \<in> set (ck_chunks (flushed c) @ ps). byte_len (tc_text t) \<le> size_limit cfg"
    using c1(3) ps(4) size_limit_ge(1) by auto
  have "chunker_ok cfg (past @ [x]) rest ?c2"
    by (rule chunker_okI [where old = "[]" and new = "[]"])
      (use sub idx size c1(2,4,5) ps(5,6) fx(2,3) in \<open>simp_all add: sentence_end_def\<close>)
  then show ?thesis using ps(1) by (simp add: add_oversized_def Let_def flushed_def [symmetric])
qed

lemma chunker_ok_start_next:
  assumes ok: "chunker_ok cfg past (x # rest) c" and len: "byte_len (s_text x) \<le> chunk_size cfg"
  shows "chunker_ok cfg past (x # rest) (start_next cfg x c) \<and> ck_length (start_next cfg x c) \<le> ch_overlap cfg"
proof -
  obtain ys n where o: "take_overlap (ch_overlap cfg) 0 (rev (ck_current c)) = (ys, n)" by fastforce
  then obtain zs where zs: "rev (ck_current c) = ys @ zs" "n = byte_len (join_texts ys)" "n \<le> ch_overlap cfg"
    using take_overlap_spec by fastforce
  then have cur: "ck_current c = rev zs @ rev ys" by (metis rev_append rev_rev_ident)
  have f: "follows (rev ys @ x # rest)" using ok cur by (simp add: chunker_ok_def follows_append)
  have st: "\<forall>y \<in> set (rev ys @ x # rest). (case rev ys of y # _ \<Rightarrow> s_offset y | [] \<Rightarrow> s_offset x) \<le> s_offset y"
    using f by (cases "rev ys") (auto simp: follows_Cons follows_append dest!: sentence_end_le)
  have "n \<le> size_limit cfg" using zs(3) by (simp add: size_limit_def)
  then have "chunker_ok cfg past (x # rest) (start_next cfg x c)"
    by (intro chunker_okI [where old = "rev ys" and new = "[]"])
      (use chunker_ok_push [OF ok] f st zs(2) o in \<open>simp_all add: start_next_def Let_def push_current_def\<close>)
  moreover have "ck_length (start_next cfg x c) = n" using o by (simp add: start_next_def Let_def)
  ultimately show ?thesis using zs(3) by simp
qed

lemma chunker_ok_step:
  assumes ok: "chunker_ok cfg past (x # rest) c"
  shows "\<exists>c'. add_sentence cfg x c = Some c' \<and> chunker_ok cfg (past @ [x]) rest c'"
proof (cases "byte_len (s_text x) > chunk_size cfg")
  case True
  then show ?thesis using chunker_ok_oversized [OF ok] by (simp add: add_sentence_def)
next
  case False
  let ?c1 = "if ck_length c > 0 \<and> ck_length c + byte_len (s_text x) > chunk_size cfg then start_next cfg x c else c"
  have ok1: "chunker_ok cfg past (x # rest) ?c1" using chunker_ok_start_next [OF ok] ok False by simp
  have "ck_length ?c1 = 0 \<or> ck_length ?c1 \<le> ch_overlap cfg \<or> ck_length ?c1 + byte_len (s_text x) \<le> chunk_size cfg"
    using chunker_ok_start_next [OF ok] False by auto
  then have len: "ck_length ?c1 + byte_len (s_text x) \<le> size_limit cfg" using False by (auto simp: size_limit_def)
  obtain old new where on: "ck_current ?c1 = old @ new"
    "subseq (join_texts past) (all_text (ck_chunks ?c1) @ join_texts new)"
    "ck_chunks ?c1 \<noteq> [] \<longrightarrow> (\<forall>y \<in> set (new @ x # rest). end_char (last (ck_chunks ?c1)) \<le> s_offset y)"
    using ok1 unfolding chunker_ok_def by blast
  have "subseq (join_texts past @ s_text x) ((all_text (ck_chunks ?c1) @ join_texts new) @ s_text x)"
    using on(2) by (intro list_emb_append_mono) simp_all
  then have "\<exists>old' new'. ck_current ?c1 @ [x] = old' @ new'
      \<and> subseq (join_texts (past @ [x])) (all_text (ck_chunks ?c1) @ join_texts new')
      \<and> (ck_chunks ?c1 \<noteq> [] \<longrightarrow> (\<forall>y \<in> set (new' @ rest). end_char (last (ck_chunks ?c1)) \<le> s_offset y))"
    using on(1,3) by (intro exI [of _ old] exI [of _ "new @ [x]"]) auto
  with ok1 len have "chunker_ok cfg (past @ [x]) rest
      (?c1\<lparr>ck_current := ck_current ?c1 @ [x], ck_length := ck_length ?c1 + byte_len (s_text x)\<rparr>)"
    unfolding chunker_ok_def by simp
  with False show ?thesis by (simp add: add_sentence_def Let_def)
qed

lemma chunker_ok_all:
  "chunker_ok cfg past xs c \<Longrightarrow> \<exists>c'. add_sentences cfg xs c = Some c' \<and> chunker_ok cfg (past @ xs) [] c'"
proof (induction xs arbitrary: past c)
  case (Cons x xs)
  then obtain c1 where c1: "add_sentence cfg x c = Some c1" "chunker_ok cfg (past @ [x]) xs c1"
    using chunker_ok_step by blast
  with Cons.IH [OF c1(2)] show ?case by simp
qed simp

section \<open>The last group\<close>

definition chunks_ok :: "chunking_config \<Rightarrow> str \<Rightarrow> text_chunk list \<Rightarrow> bool" where
  "chunks_ok cfg content ts \<longleftrightarrow>
     ts \<noteq> [] \<and> map tc_index ts = [0..<length ts] \<and> subseq content (all_text ts)
     \<and> (\<forall>t \<in> set (butlast ts). byte_len (tc_text t) \<le> size_limit cfg)
     \<and> byte_len (tc_text (last ts)) \<le> size_limit cfg + min_chunk_size cfg"

lemma byte_len_join_filter: "byte_len (join_texts (filter P xs)) \<le> byte_len (join_texts xs)"
  by (induction xs) auto

lemma finish_push_ok:
  assumes ok: "chunker_ok cfg past [] c"
  shows "chunks_ok cfg (join_texts past) (ck_chunks c @ [\<lparr>tc_text = join_texts (ck_current c), start_char = a,
           end_char = b, tc_index = ck_index c\<rparr>])"
proof -
  obtain old new where on: "ck_current c = old @ new" "subseq (join_texts past) (all_text (ck_chunks c) @ join_texts new)"
    using ok unfolding chunker_ok_def by blast
  have "subseq (join_texts past) (all_text (ck_chunks c) @ join_texts old @ join_texts new)"
    using on(2) by (rule subseq_append_right)
  then show ?thesis using ok on(1) by (simp add: chunks_ok_def chunker_ok_def)
qed

lemma finish_merge_ok:
  assumes ok: "chunker_ok cfg past [] c" and ne: "ck_chunks c \<noteq> []" and short: "ck_length c \<le> min_chunk_size cfg"
  shows "chunks_ok cfg (join_texts past) (butlast (ck_chunks c) @ [merge_tail (ck_current c) (last (ck_chunks c))])"
proof -
  obtain us l where us: "ck_chunks c = us @ [l]" using ne rev_exhaust by blast
  obtain old new where on: "ck_current c = old @ new" "subseq (join_texts past) (all_text (ck_chunks c) @ join_texts new)"
    "\<forall>x \<in> set new. end_char l \<le> s_offset x"
    using ok us unfolding chunker_ok_def by auto
  let ?keep = "filter (\<lambda>x. end_char l \<le> s_offset x)"
  have keep: "?keep (ck_current c) = ?keep old @ new" using on(1,3) by (simp add: filter_id_conv)
  have "subseq (join_texts past) (all_text (ck_chunks c) @ join_texts (?keep old) @ join_texts new)"
    using on(2) by (rule subseq_append_right)
  then have sub: "subseq (join_texts past) (all_text us @ tc_text l @ join_texts (?keep (ck_current c)))"
    using keep us by simp
  have "byte_len (join_texts (?keep (ck_current c))) \<le> min_chunk_size cfg"
    using byte_len_join_filter [of "\<lambda>x. end_char l \<le> s_offset x" "ck_current c"] short ok
    by (simp add: chunker_ok_def)
  then show ?thesis using us sub ok
    by (simp add: chunks_ok_def merge_tail_def Let_def chunker_ok_def)
qed

lemma finish_ok:
  assumes "chunker_ok cfg past [] c" and "join_texts past \<noteq> []"
  shows "chunks_ok cfg (join_texts past) (finish cfg c)"
proof -
  have "ck_chunks c \<noteq> []" if "ck_length c = 0"
  proof
    assume "ck_chunks c = []"
    then have "subseq (join_texts past) (join_texts (ck_current c))"
      using finish_push_ok [OF assms(1)] by (simp add: chunks_ok_def)
    moreover have "join_texts (ck_current c) = []" using that assms(1) by (simp add: chunker_ok_def)
    ultimately show False using assms(2) by simp
  qed
  with finish_push_ok [OF assms(1)] finish_merge_ok [OF assms(1)] show ?thesis
    by (auto simp: finish_def)
qed

lemma chunk_sentences_ok:
  assumes "follows xs" and "xs \<noteq> []"
  shows "\<exists>ts. chunk_sentences cfg xs = Some ts \<and> chunks_ok cfg (join_texts xs) ts"
proof -
  let ?c = "\<lparr>ck_chunks = [], ck_current = [], ck_length = 0, ck_start = 0, ck_index = 0\<rparr>"
  have "chunker_ok cfg [] xs ?c" using assms(1) by (simp add: chunker_ok_def)
  from chunker_ok_all [OF this] obtain c where "add_sentences cfg xs ?c = Some c" "chunker_ok cfg xs [] c" by auto
  moreover have "join_texts xs \<noteq> []" using assms follows_join_Nil by blast
  ultimately show ?thesis using finish_ok by (auto simp: chunk_sentences_def)
qed

lemma chunked_text:
  assumes "segmentation seg"
  obtains xs ts where "split_sentences seg s = Some xs" and "chunk_text seg s cfg = Some ts" and "ts \<noteq> []"
    and "map tc_index ts = [0..<length ts]" and "subseq (join_texts xs) (all_text ts)"
    and "xs \<noteq> [] \<longrightarrow> chunks_ok cfg (join_texts xs) ts"
proof -
  obtain xs where xs: "split_sentences seg s = Some xs" "laid_out 0 s xs"
    using segmentation.split_sentences_laid_out [OF assms] by blast
  have sub: "subseq (join_texts xs) s" using laid_out_subseq [OF xs(2)] .
  show ?thesis
  proof (cases "byte_len s \<le> chunk_size cfg \<or> xs = []")
    case True
    then have "chunk_text seg s cfg = Some [whole_text s]" using xs(1) by (auto simp: chunk_text_def)
    moreover have "xs \<noteq> [] \<longrightarrow> chunks_ok cfg (join_texts xs) [whole_text s]"
      using True sub by (auto simp: chunks_ok_def whole_text_def size_limit_def)
    ultimately show ?thesis using that [OF xs(1)] sub by (simp add: whole_text_def)
  next
    case False
    then obtain ts where "chunk_sentences cfg xs = Some ts" "chunks_ok cfg (join_texts xs) ts"
      using chunk_sentences_ok [of xs cfg] laid_out_follows [OF xs(2)] by blast
    with False xs(1) that [of xs ts] show ?thesis by (simp add: chunk_text_def chunks_ok_def)
  qed
qed

section \<open>Properties\<close>

text \<open>
  C24. Chunking a document never panics and never loses text: under any segmentation that
  returns pieces of each line in order, a list of chunks comes back whose indices count up from
  zero and whose concatenated texts contain the text of all sentences, in order. As soon as
  there are sentences, every chunk but the last has at most the chunk size (or one character,
  when that is wider) plus the overlap, and the last one at most the minimum chunk size more.
\<close>

theorem chunk_text_keeps_text:
  assumes "segmentation seg"
  shows "\<exists>xs ts. split_sentences seg s = Some xs \<and> chunk_text seg s cfg = Some ts \<and> ts \<noteq> []
           \<and> map tc_index ts = [0..<length ts]
           \<and> subseq (concat (map s_text xs)) (concat (map tc_text ts))
           \<and> (xs \<noteq> [] \<longrightarrow>
                (\<forall>t \<in> set (butlast ts). byte_len (tc_text t) \<le> max (chunk_size cfg) 4 + ch_overlap cfg)
                \<and> byte_len (tc_text (last ts)) \<le> max (chunk_size cfg) 4 + ch_overlap cfg + min_chunk_size cfg)"
  by (rule chunked_text [OF assms, of s cfg]) (auto simp: chunks_ok_def join_texts_def size_limit_def)

definition demo_document :: memory_chunk where
  "demo_document = \<lparr>mc_chunk_id = ''c'', mc_tenant_id = ''t'', mc_project_id = None, mc_agent_id = None,
     mc_timestamp_created = 0, mc_timestamp_observed = None, mc_chunk_type = Doc, mc_status = Final,
     mc_promotion_state = Raw,
     mc_source = \<lparr>uri = None, repo = None, commit_hash = None, src_path = None, tool_name = None, tool_call_id = None\<rparr>, mc_text = [0x61], mc_tags = [], mc_hash = [],
     mc_ingestion_mode = Document\<rparr>"

definition demo_chunking :: chunking_config where
  "demo_chunking = \<lparr>chunk_size = 4, ch_overlap = 2, min_chunk_size = 4\<rparr>"

definition demo_text :: str where
  "demo_text = [0x61, 0x62, 0x0A, 0x0A, 0x63, 0x64, 0x0A, 0x65]"

theorem chunk_text_keeps_text_witness:
  "\<exists>xs ts. split_sentences (\<lambda>line. [line]) demo_text = Some xs \<and> chunk_text (\<lambda>line. [line]) demo_text demo_chunking = Some ts
     \<and> ts \<noteq> [] \<and> map tc_index ts = [0..<length ts] \<and> subseq (concat (map s_text xs)) (concat (map tc_text ts))
     \<and> (xs \<noteq> [] \<longrightarrow>
          (\<forall>t \<in> set (butlast ts). byte_len (tc_text t) \<le> max (chunk_size demo_chunking) 4 + ch_overlap demo_chunking)
          \<and> byte_len (tc_text (last ts))
              \<le> max (chunk_size demo_chunking) 4 + ch_overlap demo_chunking + min_chunk_size demo_chunking)"
  by (rule chunk_text_keeps_text [OF whole_line.segmentation_axioms])

lemma demo_sentences:
  "split_sentences (\<lambda>line. [line]) demo_text =
     Some [\<lparr>s_text = [0x61, 0x62], s_offset = 0, s_is_code = False\<rparr>, \<lparr>s_text = [0x63, 0x64], s_offset = 4, s_is_code = False\<rparr>,
           \<lparr>s_text = [0x65], s_offset = 7, s_is_code = False\<rparr>]"
proof -
  have "\<not> is_code_line [0x61, 0x62]" "\<not> is_code_line [0x63, 0x64]" "\<not> is_code_line [0x65]" "\<not> is_code_line []"
    by code_simp+
  then show ?thesis
    by (simp add: split_sentences_def split_lines_with_offsets_def demo_text_def trim_def trim_start_def
        is_whitespace_def starts_with_def utf8_len_def Let_def)
qed

text \<open>
  A short last group can repeat text. The end of a chunk is recorded as its start plus the
  length of its text without the gaps between sentences, so an overlap sentence behind a gap can
  start at or after that end although the chunk contains it. Merging the last group then appends
  it again: the only chunk of this document has the second of its three lines twice.
\<close>

lemma short_tail_repeats_overlap:
  "chunk_text (\<lambda>line. [line]) demo_text demo_chunking =
     Some [\<lparr>tc_text = lit ''abcdcde'', start_char = 0, end_char = 8, tc_index = 0\<rparr>]"
  by (simp add: chunk_text_def demo_sentences [unfolded demo_text_def] chunk_sentences_def add_sentence_def start_next_def push_current_def
      finish_def merge_tail_def sentence_end_def demo_chunking_def demo_text_def Let_def utf8_len_def)

text \<open>
  Splitting on add returns for every chunk: it gives back either the chunk itself or its
  pieces, in order, each with the chunk's identity, type, status and source, the tags of the
  chunk followed by four tags that number it, and texts that together contain all sentences.
\<close>

lemma split_for_add_pieces:
  assumes "segmentation seg"
  shows "\<exists>xs cs. split_sentences seg (mc_text chunk) = Some xs \<and> split_for_add seg chunk = Some cs \<and> cs \<noteq> []
           \<and> (byte_len (mc_text chunk) \<le> ADD_CHUNK_THRESHOLD \<longrightarrow> cs = [chunk])
           \<and> subseq (concat (map s_text xs)) (concat (map mc_text cs))
           \<and> (cs \<noteq> [chunk] \<longrightarrow> length cs \<ge> 2 \<and>
                (\<forall>i < length cs. \<exists>a b. cs ! i = chunk\<lparr>mc_text := mc_text (cs ! i),
                   mc_tags := mc_tags chunk @ [tag_with ''chunk_index:'' i, tag_with ''total_chunks:'' (length cs),
                                tag_with ''char_start:'' a, tag_with ''char_end:'' b]\<rparr>))"
proof -
  obtain xs ts where xt: "split_sentences seg (mc_text chunk) = Some xs"
    "chunk_text seg (mc_text chunk) default_chunking = Some ts" "subseq (join_texts xs) (all_text ts)"
    using chunked_text [OF assms] by blast
  have whole: "subseq (join_texts xs) (mc_text chunk)"
    using segmentation.split_sentences_laid_out [OF assms, of "mc_text chunk"] xt(1) laid_out_subseq by auto
  have pieces: "map mc_text (map (sub_chunk chunk n) (enumerate 0 ts)) = map tc_text ts" for n
    by (rule nth_equalityI) (simp_all add: sub_chunk_def nth_enumerate_eq)
  show ?thesis
  proof (cases "byte_len (mc_text chunk) \<le> ADD_CHUNK_THRESHOLD \<or> length ts \<le> 1")
    case True
    then have "split_for_add seg chunk = Some [chunk]" using xt(2) by (auto simp: split_for_add_def)
    with xt(1) whole show ?thesis by (simp add: join_texts_def)
  next
    case False
    let ?cs = "map (sub_chunk chunk (length ts)) (enumerate 0 ts)"
    have "split_for_add seg chunk = Some ?cs" using False xt(2) by (simp add: split_for_add_def)
    moreover have "subseq (concat (map s_text xs)) (concat (map mc_text ?cs))"
      using xt(3) unfolding pieces join_texts_def .
    moreover have "\<exists>a b. ?cs ! i = chunk\<lparr>mc_text := mc_text (?cs ! i),
        mc_tags := mc_tags chunk @ [tag_with ''chunk_index:'' i, tag_with ''total_chunks:'' (length ?cs),
                     tag_with ''char_start:'' a, tag_with ''char_end:'' b]\<rparr>" if "i < length ?cs" for i
      using that by (auto simp: sub_chunk_def nth_enumerate_eq)
    moreover have "length ?cs \<ge> 2" using False by simp
    moreover from this have "?cs \<noteq> []" by (metis list.size(3) not_numeral_le_zero)
    ultimately show ?thesis using xt(1) False by blast
  qed
qed

lemma split_for_add_pieces_witness:
  "\<exists>xs cs. split_sentences (\<lambda>line. [line]) (mc_text demo_document) = Some xs
     \<and> split_for_add (\<lambda>line. [line]) demo_document = Some cs \<and> cs = [demo_document]"
  using split_for_add_pieces [OF whole_line.segmentation_axioms, of demo_document]
  by (auto simp: demo_document_def ADD_CHUNK_THRESHOLD_def utf8_len_def)


end
