(* ===== verification/Lifecycle.thy ===== *)
theory Lifecycle
  imports Tenant_Runs Chunking
begin

text \<open>
  The lifecycle overlay of a tenant store: the statements of \<open>store/metadata/sqlite/lifecycle.rs\<close>
  that change status, tier and supersession links, the preparation of chunks for an add
  (\<open>store/persistent/write.rs\<close>) and the lifecycle operations of
  \<open>store/persistent/lifecycle.rs\<close>, in particular superseding a chunk by a new one.

  Besides the tenant store the state has the memory version of the tenant, a 64-bit counter
  the semantic cache compares its entries with; it exists when a hybrid searcher with tiers is
  configured. New chunk ids come from a sequence \<open>ids\<close> (\<open>ChunkId::new\<close> draws random UUIDs), the
  digest of a text from \<open>hx\<close> (\<open>sha2\<close>), sentence segmentation from \<open>sg\<close>; \<open>ix\<close> says whether
  the index accepted the added batch, which is what raises the version on an add.
\<close>

section \<open>Statements on the metadata table\<close>

text \<open>\<open>UPDATE ... WHERE\<close>: the number of rows that matched, and the table.\<close>

definition update_where ::
  "('r \<Rightarrow> bool) \<Rightarrow> ('r \<Rightarrow> 'r) \<Rightarrow> 'r list \<Rightarrow> nat \<times> 'r list" where
  "update_where p g rows = (length (filter p rows), map (\<lambda>m. if p m then g m else m) rows)"

definition key_is :: "string \<Rightarrow> string \<Rightarrow> chunk_metadata \<Rightarrow> bool" where
  "key_is tid cid m \<longleftrightarrow> m_tenant_id m = tid \<and> m_chunk_id m = cid"

text \<open>The column assignments of \<open>update_lifecycle_counted\<close>: \<open>COALESCE\<close> keeps what the delta leaves out.\<close>

definition delta_row :: "lifecycle_delta \<Rightarrow> chunk_metadata \<Rightarrow> chunk_metadata" where
  "delta_row d m =
     m\<lparr>m_status := (case d_status d of Some s \<Rightarrow> s | None \<Rightarrow> m_status m),
       m_lifecycle := lifecycle_apply (m_lifecycle m) d\<rparr>"

definition update_lifecycle_counted ::
  "string \<Rightarrow> string \<Rightarrow> lifecycle_delta \<Rightarrow> chunk_metadata list \<Rightarrow> nat \<times> chunk_metadata list" where
  "update_lifecycle_counted tid cid d rows = update_where (is_live tid cid) (delta_row d) rows"

definition superseded_row :: "string \<Rightarrow> i64 \<Rightarrow> chunk_metadata \<Rightarrow> chunk_metadata" where
  "superseded_row new now m =
     m\<lparr>m_status := Superseded,
       m_lifecycle := (m_lifecycle m)\<lparr>superseded_by := Some new, lifecycle_updated_at_ms := now\<rparr>\<rparr>"

definition superseding_row :: "string \<Rightarrow> i64 \<Rightarrow> chunk_metadata \<Rightarrow> chunk_metadata" where
  "superseding_row old now m =
     m\<lparr>m_lifecycle := (m_lifecycle m)\<lparr>supersedes := Some old, lifecycle_updated_at_ms := now\<rparr>\<rparr>"

text \<open>One transaction: either both rows are linked or the table stays as it was.\<close>

definition atomic_supersede ::
  "string \<Rightarrow> string \<Rightarrow> string \<Rightarrow> i64 \<Rightarrow> chunk_metadata list \<Rightarrow> memd_error + chunk_metadata list" where
  "atomic_supersede tid old new now rows =
     (let (old_rows, rows1) =
            update_where (\<lambda>m. key_is tid old m \<and> superseded_by (m_lifecycle m) = None)
              (superseded_row new now) rows
      in if old_rows \<noteq> 1
         then Inl (ValidationError ''atomic_supersede: old chunk is not current head or missing'')
         else let (new_rows, rows2) = update_where (key_is tid new) (superseding_row old now) rows1
              in if new_rows \<noteq> 1 then Inl (StorageError ''atomic_supersede: new chunk not found'')
                 else Inr rows2)"

section \<open>Preparing chunks for an add\<close>

text \<open>
  Every part gets its id (a fresh one, or its own when ids are preserved and no live row has
  it), the digest of its text, and its serialised form as payload.
\<close>

fun prepare_pending_chunks ::
  "'b store_ext \<Rightarrow> (str \<Rightarrow> string) \<Rightarrow> bool \<Rightarrow> chunk_metadata list \<Rightarrow> (nat \<Rightarrow> string) \<Rightarrow> memory_chunk list
     \<Rightarrow> memd_error + pending_chunk list" where
  "prepare_pending_chunks E hx preserve rows ids [] = Inr []"
| "prepare_pending_chunks E hx preserve rows ids (c # cs) =
     (if preserve \<and> meta_get rows (mc_tenant_id c) (mc_chunk_id c) \<noteq> None
      then Inl (ValidationError ''preallocated chunk id already exists'')
      else let c' = c\<lparr>mc_chunk_id := (if preserve then mc_chunk_id c else ids 0), mc_hash := hx (mc_text c)\<rparr>
           in case prepare_pending_chunks E hx preserve rows (\<lambda>n. ids (Suc n)) cs of
                Inl e \<Rightarrow> Inl e
              | Inr ps \<Rightarrow> Inr (\<lparr>p_chunk = c', p_payload = chunk_ser E c'\<rparr> # ps))"

text \<open>
  Splitting one chunk for an add. The chunker panics where its model has no value; that it
  always has one is shown in \<open>Chunking\<close>.
\<close>

definition expand_chunks_for_add :: "(str \<Rightarrow> str list) \<Rightarrow> memory_chunk \<Rightarrow> memd_error + memory_chunk list" where
  "expand_chunks_for_add sg chunk =
     (case split_for_add sg chunk of
        None \<Rightarrow> Inl (StorageError ''split_for_add panicked'')
      | Some parts \<Rightarrow>
          if parts = [] then Inl (StorageError ''split_for_add produced no chunks'') else Inr parts)"

record 'b live_store =
  store :: "'b tenant_store"
  version :: "u64 option"

definition bump :: "'b live_store \<Rightarrow> 'b live_store" where
  "bump s = s\<lparr>version := map_option (\<lambda>v. v + 1) (version s)\<rparr>"

definition set_db :: "chunk_metadata list \<Rightarrow> 'b live_store \<Rightarrow> 'b live_store" where
  "set_db rows s = s\<lparr>store := (store s)\<lparr>db := rows\<rparr>\<rparr>"

text \<open>An add of chunks of this tenant: the primary id and all stored ids are returned.\<close>

definition add_parts ::
  "'b store_ext \<Rightarrow> tenant_config \<Rightarrow> (str \<Rightarrow> string) \<Rightarrow> bool \<Rightarrow> i64 \<Rightarrow> (nat \<Rightarrow> string) \<Rightarrow> bool \<Rightarrow> memory_chunk list
     \<Rightarrow> 'b live_store \<Rightarrow> memd_error + ((string \<times> string list) \<times> 'b live_store)" where
  "add_parts E cfg hx preserve now ids ix parts s =
     (case prepare_pending_chunks E hx preserve (db (store s)) ids parts of
        Inl e \<Rightarrow> Inl e
      | Inr ps \<Rightarrow>
         (case add_batch E cfg now ps (store s) of
            Inl e \<Rightarrow> Inl e
          | Inr st' \<Rightarrow>
             (case map (\<lambda>p. mc_chunk_id (p_chunk p)) ps of
                [] \<Rightarrow> Inl (StorageError ''no primary chunk id produced for add'')
              | cid # rest \<Rightarrow>
                  Inr ((cid, cid # rest), (if ix then bump else id) (s\<lparr>store := st'\<rparr>)))))"

definition add_chunk_with_stored_ids ::
  "'b store_ext \<Rightarrow> tenant_config \<Rightarrow> (str \<Rightarrow> str list) \<Rightarrow> (str \<Rightarrow> string) \<Rightarrow> i64 \<Rightarrow> (nat \<Rightarrow> string) \<Rightarrow> bool
     \<Rightarrow> memory_chunk \<Rightarrow> 'b live_store \<Rightarrow> memd_error + ((string \<times> string list) \<times> 'b live_store)" where
  "add_chunk_with_stored_ids E cfg sg hx now ids ix chunk s =
     (if read_only cfg then Inl (ReadOnlyStore ''add_chunks_internal'')
      else case expand_chunks_for_add sg chunk of
        Inl e \<Rightarrow> Inl e
      | Inr parts \<Rightarrow> add_parts E cfg hx False now ids ix parts s)"

section \<open>Lifecycle operations\<close>

definition update_lifecycle ::
  "tenant_config \<Rightarrow> string \<Rightarrow> lifecycle_delta \<Rightarrow> 'b live_store \<Rightarrow> memd_error + 'b live_store" where
  "update_lifecycle cfg cid d s =
     (if read_only cfg then Inl (ReadOnlyStore ''update_lifecycle'')
      else Inr (bump (set_db (snd (update_lifecycle_counted (cfg_tenant_id cfg) cid d (db (store s)))) s)))"

definition update_lifecycle_if_exists ::
  "tenant_config \<Rightarrow> string \<Rightarrow> lifecycle_delta \<Rightarrow> 'b live_store \<Rightarrow> memd_error + (bool \<times> 'b live_store)" where
  "update_lifecycle_if_exists cfg cid d s =
     (if read_only cfg then Inl (ReadOnlyStore ''update_lifecycle_if_exists'')
      else let (n, rows) = update_lifecycle_counted (cfg_tenant_id cfg) cid d (db (store s))
           in if n > 0 then Inr (True, bump (set_db rows s)) else Inr (False, set_db rows s))"

text \<open>The delta of a new chunk goes to every row the chunk was split into.\<close>

definition stamped :: "i64 \<Rightarrow> lifecycle_delta \<Rightarrow> lifecycle_delta" where
  "stamped now d =
     (if d_lifecycle_updated_at_ms d = None then d\<lparr>d_lifecycle_updated_at_ms := Some now\<rparr> else d)"

definition add_chunk_with_lifecycle_and_stored_ids ::
  "'b store_ext \<Rightarrow> tenant_config \<Rightarrow> (str \<Rightarrow> str list) \<Rightarrow> (str \<Rightarrow> string) \<Rightarrow> i64 \<Rightarrow> (nat \<Rightarrow> string) \<Rightarrow> bool
     \<Rightarrow> memory_chunk \<Rightarrow> lifecycle_delta \<Rightarrow> 'b live_store
     \<Rightarrow> memd_error + ((string \<times> string list) \<times> 'b live_store)" where
  "add_chunk_with_lifecycle_and_stored_ids E cfg sg hx now ids ix chunk initial s =
     (if read_only cfg then Inl (ReadOnlyStore ''add_chunk_with_lifecycle'')
      else case add_chunk_with_stored_ids E cfg sg hx now ids ix chunk s of
        Inl e \<Rightarrow> Inl e
      | Inr ((cid, stored), s1) \<Rightarrow>
          if delta_is_empty initial then Inr ((cid, stored), s1)
          else Inr ((cid, stored),
                 bump (set_db (fold (\<lambda>i rows. snd (update_lifecycle_counted (mc_tenant_id chunk) i
                                                     (stamped now initial) rows))
                                 stored (db (store s1))) s1)))"

text \<open>Journaled candidates keep their preallocated id and are not split.\<close>

definition add_consolidation_candidate ::
  "'b store_ext \<Rightarrow> tenant_config \<Rightarrow> (str \<Rightarrow> string) \<Rightarrow> i64 \<Rightarrow> bool \<Rightarrow> memory_chunk \<Rightarrow> 'b live_store
     \<Rightarrow> memd_error + (string \<times> 'b live_store)" where
  "add_consolidation_candidate E cfg hx now ix chunk s =
     (if read_only cfg then Inl (ReadOnlyStore ''add_consolidation_candidate'')
      else if mc_status chunk \<noteq> Candidate
      then Inl (ValidationError ''consolidation candidates must use status=candidate'')
      else case add_parts E cfg hx True now (\<lambda>n. []) ix [chunk] s of
        Inl e \<Rightarrow> Inl e
      | Inr ((stored_id, _), s1) \<Rightarrow>
          if stored_id \<noteq> mc_chunk_id chunk
          then Inl (StorageError ''consolidation candidate id changed during persistence'')
          else Inr (stored_id, s1))"

text \<open>
  The walk along \<open>superseded_by\<close>: it ends at a row without successor, at an id without live
  row, or with an error at the first id it has already seen.
\<close>

definition targets :: "chunk_metadata list \<Rightarrow> string set" where
  "targets rows = {b. \<exists>m \<in> set rows. superseded_by (m_lifecycle m) = Some b}"

lemma finite_targets [simp]: "finite (targets rows)"
proof (rule finite_subset)
  show "targets rows \<subseteq> (\<lambda>m. the (superseded_by (m_lifecycle m))) ` set rows"
    by (force simp: targets_def image_iff)
qed simp

lemma targets_step:
  assumes "meta_get rows tid cur = Some m" and "superseded_by (m_lifecycle m) = Some nxt"
    and "nxt \<notin> set visited"
  shows "card (targets rows - set (nxt # visited)) < card (targets rows - set visited)"
proof (rule psubset_card_mono)
  have "nxt \<in> targets rows"
    using assms(1,2) by (auto simp: targets_def meta_get_def find_Some_iff intro: nth_mem)
  with assms(3) show "targets rows - set (nxt # visited) \<subset> targets rows - set visited" by auto
qed simp

function cycle_walk :: "chunk_metadata list \<Rightarrow> string \<Rightarrow> string list \<Rightarrow> string \<Rightarrow> memd_error + unit" where
  "cycle_walk rows tid visited cur =
     (case meta_get rows tid cur of
        None \<Rightarrow> Inr ()
      | Some m \<Rightarrow>
         (case superseded_by (m_lifecycle m) of
            None \<Rightarrow> Inr ()
          | Some nxt \<Rightarrow>
              if nxt \<in> set visited then Inl (ValidationError ''supersession cycle detected'')
              else cycle_walk rows tid (nxt # visited) nxt))"
  by pat_completeness auto
termination
  by (relation "measure (\<lambda>(rows, tid, visited, cur). card (targets rows - set visited))")
    (auto simp del: list.set dest: targets_step)

declare cycle_walk.simps [simp del]

definition detect_supersession_cycle :: "chunk_metadata list \<Rightarrow> string \<Rightarrow> string \<Rightarrow> memd_error + unit" where
  "detect_supersession_cycle rows tid start = cycle_walk rows tid [start] start"

text \<open>Steps 0 to 2a of superseding: nothing has been written yet.\<close>

definition supersede_preflight ::
  "tenant_config \<Rightarrow> string \<Rightarrow> memory_chunk \<Rightarrow> 'b live_store \<Rightarrow> memd_error + unit" where
  "supersede_preflight cfg old new_chunk s =
     (let tid = cfg_tenant_id cfg; rows = db (store s) in
      if read_only cfg then Inl (ReadOnlyStore ''supersede_chunk'')
      else if mc_tenant_id new_chunk \<noteq> tid
      then Inl (ValidationError ''supersede_chunk: tenant mismatch'')
      else case meta_get rows tid old of
        None \<Rightarrow> Inl (ValidationError ''supersede_chunk: old chunk not found'')
      | Some m \<Rightarrow>
          if m_status m = Deleted then Inl (ValidationError ''supersede_chunk: old chunk is deleted'')
          else case detect_supersession_cycle rows tid old of
            Inl e \<Rightarrow> Inl e
          | Inr _ \<Rightarrow>
              if superseded_by (m_lifecycle m) \<noteq> None
              then Inl (ValidationError ''supersede_chunk: old chunk is not current head'')
              else Inr ())"

text \<open>The compensating delete of step 4a; errors are only logged.\<close>

definition delete_best_effort ::
  "'b store_ext \<Rightarrow> tenant_config \<Rightarrow> i64 \<Rightarrow> string \<Rightarrow> 'b live_store \<Rightarrow> 'b live_store" where
  "delete_best_effort E cfg now cid s =
     (case delete_chunk E cfg now cid (store s) of
        Inl e \<Rightarrow> s
      | Inr (deleted, st') \<Rightarrow> (if deleted then bump else id) (s\<lparr>store := st'\<rparr>))"

text \<open>Steps 3 to 5: the new chunk is added, then linked; a failed link deletes it again.\<close>

definition supersede_commit ::
  "'b store_ext \<Rightarrow> tenant_config \<Rightarrow> (str \<Rightarrow> str list) \<Rightarrow> (str \<Rightarrow> string) \<Rightarrow> i64 \<Rightarrow> (nat \<Rightarrow> string) \<Rightarrow> bool
     \<Rightarrow> string \<Rightarrow> memory_chunk \<Rightarrow> lifecycle_delta \<Rightarrow> 'b live_store
     \<Rightarrow> (memd_error + (string \<times> string list)) \<times> 'b live_store" where
  "supersede_commit E cfg sg hx now ids ix old new_chunk d s =
     (case add_chunk_with_lifecycle_and_stored_ids E cfg sg hx now ids ix new_chunk d s of
        Inl e \<Rightarrow> (Inl e, s)
      | Inr ((new_id, stored), s1) \<Rightarrow>
         (case atomic_supersede (cfg_tenant_id cfg) old new_id now (db (store s1)) of
            Inl e \<Rightarrow> (Inl e, fold (delete_best_effort E cfg now) stored s1)
          | Inr rows \<Rightarrow> (Inr (new_id, stored), bump (set_db rows s1))))"

definition supersede_chunk_with_lifecycle_and_stored_ids ::
  "'b store_ext \<Rightarrow> tenant_config \<Rightarrow> (str \<Rightarrow> str list) \<Rightarrow> (str \<Rightarrow> string) \<Rightarrow> i64 \<Rightarrow> (nat \<Rightarrow> string) \<Rightarrow> bool
     \<Rightarrow> string \<Rightarrow> memory_chunk \<Rightarrow> lifecycle_delta \<Rightarrow> 'b live_store
     \<Rightarrow> (memd_error + (string \<times> string list)) \<times> 'b live_store" where
  "supersede_chunk_with_lifecycle_and_stored_ids E cfg sg hx now ids ix old new_chunk d s =
     (case supersede_preflight cfg old new_chunk s of
        Inl e \<Rightarrow> (Inl e, s)
      | Inr _ \<Rightarrow> supersede_commit E cfg sg hx now ids ix old new_chunk d s)"

section \<open>The supersession graph\<close>

text \<open>The successor of a chunk in the catalog, and the edges it makes.\<close>

definition successor :: "(string \<Rightarrow> chunk_metadata option) \<Rightarrow> string \<Rightarrow> string option" where
  "successor v a = Option.bind (v a) (\<lambda>m. superseded_by (m_lifecycle m))"

definition edges :: "(string \<Rightarrow> chunk_metadata option) \<Rightarrow> (string \<times> string) set" where
  "edges v = {(a, b). successor v a = Some b}"

lemma edges_iff: "(a, b) \<in> edges v \<longleftrightarrow> successor v a = Some b"
  by (simp add: edges_def)

lemma successor_None [simp]: "v a = None \<Longrightarrow> successor v a = None"
  by (simp add: successor_def)

lemma strip_coords_lifecycle [simp]: "m_lifecycle (strip_coords m) = m_lifecycle m"
  by (simp add: strip_coords_def)

lemma successor_catalog:
  "successor (catalog tid rows) a =
     (case meta_get rows tid a of None \<Rightarrow> None | Some m \<Rightarrow> superseded_by (m_lifecycle m))"
  by (simp add: successor_def catalog_def split: option.split)

lemma edge_out_unique:
  assumes "successor v a = Some b" and "(a, c) \<in> (edges v)\<^sup>*" and "c \<noteq> a"
  shows "(b, c) \<in> (edges v)\<^sup>*"
  using assms(2)
proof (cases rule: converse_rtranclE)
  case base
  with assms(3) show ?thesis by simp
next
  case (step d)
  with assms(1) show ?thesis by (simp add: edges_iff)
qed

text \<open>A cycle can be reached from \<open>a\<close>.\<close>

definition reaches_cycle :: "(string \<Rightarrow> chunk_metadata option) \<Rightarrow> string \<Rightarrow> bool" where
  "reaches_cycle v a \<longleftrightarrow> (\<exists>c. (a, c) \<in> (edges v)\<^sup>* \<and> (c, c) \<in> (edges v)\<^sup>+)"

lemma no_cycle_at_end:
  assumes "successor v a = None"
  shows "\<not> reaches_cycle v a"
proof
  assume "reaches_cycle v a"
  then obtain c where c: "(a, c) \<in> (edges v)\<^sup>*" "(c, c) \<in> (edges v)\<^sup>+" by (auto simp: reaches_cycle_def)
  have "c = a" using c(1) assms by (cases rule: converse_rtranclE) (auto simp: edges_iff)
  with c(2) assms show False by (auto simp: edges_iff dest: tranclD)
qed

lemma reaches_cycle_step:
  assumes "successor v a = Some b"
  shows "reaches_cycle v a \<longleftrightarrow> reaches_cycle v b"
proof
  assume "reaches_cycle v a"
  then obtain c where c: "(a, c) \<in> (edges v)\<^sup>*" "(c, c) \<in> (edges v)\<^sup>+" by (auto simp: reaches_cycle_def)
  show "reaches_cycle v b"
  proof (cases "c = a")
    case True
    then obtain d where "(a, d) \<in> edges v" "(d, a) \<in> (edges v)\<^sup>*" using c(2) by (auto dest: tranclD)
    with assms True c(2) show ?thesis by (auto simp: reaches_cycle_def edges_iff)
  next
    case False
    with edge_out_unique [OF assms c(1)] c(2) show ?thesis by (auto simp: reaches_cycle_def)
  qed
next
  assume "reaches_cycle v b"
  moreover have "(a, b) \<in> edges v" using assms by (simp add: edges_iff)
  ultimately show "reaches_cycle v a"
    unfolding reaches_cycle_def by (blast intro: converse_rtrancl_into_rtrancl)
qed

lemma cycle_walk_exact:
  assumes "cur \<in> set visited" and "\<forall>x \<in> set visited. (x, cur) \<in> (edges (catalog tid rows))\<^sup>*"
  shows "cycle_walk rows tid visited cur = Inr () \<and> \<not> reaches_cycle (catalog tid rows) cur
    \<or> cycle_walk rows tid visited cur = Inl (ValidationError ''supersession cycle detected'')
      \<and> reaches_cycle (catalog tid rows) cur"
  using assms
proof (induction rows tid visited cur rule: cycle_walk.induct)
  case (1 rows tid visited cur)
  let ?v = "catalog tid rows"
  show ?case
  proof (cases "successor ?v cur")
    case None
    then have "cycle_walk rows tid visited cur = Inr ()"
      by (cases "meta_get rows tid cur") (simp_all add: cycle_walk.simps [of rows tid visited cur] successor_catalog)
    with no_cycle_at_end [OF None] show ?thesis by simp
  next
    case (Some nxt)
    then obtain m where m: "meta_get rows tid cur = Some m" "superseded_by (m_lifecycle m) = Some nxt"
      by (auto simp: successor_catalog split: option.splits)
    have edge: "(cur, nxt) \<in> edges ?v" using Some by (simp add: edges_iff)
    show ?thesis
    proof (cases "nxt \<in> set visited")
      case True
      then have "(cur, cur) \<in> (edges ?v)\<^sup>+" using edge 1(3) by (auto intro: rtrancl_into_trancl2)
      then have "reaches_cycle ?v cur" by (auto simp: reaches_cycle_def)
      with True m show ?thesis by (subst (2) cycle_walk.simps) simp
    next
      case False
      have "\<forall>x \<in> set (nxt # visited). (x, nxt) \<in> (edges ?v)\<^sup>*"
        using 1(3) edge by (auto intro: rtrancl_into_rtrancl)
      with 1(1) [OF m False] reaches_cycle_step [OF Some] m False show ?thesis
        by (subst (1 2) cycle_walk.simps) simp
    qed
  qed
qed

lemma detect_exact:
  "detect_supersession_cycle rows tid a =
     (if reaches_cycle (catalog tid rows) a then Inl (ValidationError ''supersession cycle detected'') else Inr ())"
  using cycle_walk_exact [of a "[a]" tid rows] by (auto simp: detect_supersession_cycle_def)

lemma acyclic_no_cycle: "acyclic (edges v) \<Longrightarrow> \<not> reaches_cycle v a"
  by (auto simp: reaches_cycle_def acyclic_def)

end
