(* ===== verification/Lifecycle_Serving.thy ===== *)
theory Lifecycle_Serving
  imports Lifecycle
begin

text \<open>
  The lifecycle operations on a store that serves requests: they keep the invariant of the
  tenant store, so a crash after them loses nothing, they refine operations on the catalog,
  and they keep the supersession graph a set of chains.
\<close>

section \<open>Updates of the overlay\<close>

text \<open>
  A change of rows that keeps keys, coordinates and whether a row is deleted, and does not
  depend on the coordinates.
\<close>

definition overlay :: "(chunk_metadata \<Rightarrow> chunk_metadata) \<Rightarrow> chunk_metadata list \<Rightarrow> bool" where
  "overlay f rows \<longleftrightarrow>
     (\<forall>m \<in> set rows. m_chunk_id (f m) = m_chunk_id m \<and> m_tenant_id (f m) = m_tenant_id m
        \<and> m_segment_id (f m) = m_segment_id m \<and> m_ordinal (f m) = m_ordinal m
        \<and> (m_status (f m) = Deleted \<longleftrightarrow> m_status m = Deleted)
        \<and> strip_coords (f m) = f (strip_coords m))"

lemma find_map: "find P (map f xs) = map_option f (find (\<lambda>x. P (f x)) xs)"
  by (induction xs) auto

lemma find_cong_set: "\<forall>x \<in> set xs. P x = Q x \<Longrightarrow> find P xs = find Q xs"
  by (induction xs) auto

lemma overlay_meta_get:
  assumes "overlay f rows"
  shows "meta_get (map f rows) tid c = map_option f (meta_get rows tid c)"
proof -
  have "find (\<lambda>m. is_live tid c (f m)) rows = find (is_live tid c) rows"
    using assms by (intro find_cong_set) (auto simp: overlay_def is_live_def)
  then show ?thesis by (simp add: meta_get_def find_map)
qed

lemma overlay_live_rows: "overlay f rows \<Longrightarrow> live_rows tid (map f rows) = f ` live_rows tid rows"
  by (auto simp: overlay_def live_rows_def)

lemma overlay_db_ok:
  assumes "overlay f rows"
  shows "db_ok (map f rows) = db_ok rows"
proof -
  have "map m_chunk_id (map f rows) = map m_chunk_id rows" "map coords (map f rows) = map coords rows"
    using assms by (auto simp: overlay_def coords_def)
  then show ?thesis by (simp only: db_ok_def)
qed

lemma overlay_catalog:
  assumes "overlay f rows"
  shows "catalog tid (map f rows) = (\<lambda>c. map_option f (catalog tid rows c))"
proof
  fix c
  have "strip_coords (f m) = f (strip_coords m)" if "meta_get rows tid c = Some m" for m
    using meta_get_live [OF that] assms by (auto simp: overlay_def live_rows_def)
  then show "catalog tid (map f rows) c = map_option f (catalog tid rows c)"
    by (auto simp: catalog_def overlay_meta_get [OF assms] option.map_comp intro!: map_option_cong)
qed

text \<open>
  Overlay updates are not logged. Replaying the log on top of them changes nothing because a
  row the table has keeps its metadata, provided the log deletes no chunk the table has.
\<close>

definition undeleted :: "wal_record list \<Rightarrow> (string \<Rightarrow> chunk_metadata option) \<Rightarrow> bool" where
  "undeleted tail v \<longleftrightarrow> (\<forall>r \<in> set tail. record_type r = Delete \<longrightarrow> v (rec_chunk_id r) = None)"

lemma entry_replay_kept:
  assumes "undeleted tail v" and "v c \<noteq> None"
  shows "entry_replay E c tail (Some y) = Some y"
  using assms(1)
proof (induction tail)
  case Nil
  show ?case by (simp add: entry_replay_def)
next
  case (Cons r tail)
  then have "rec_chunk_id r = c \<Longrightarrow> entry_step E r (Some y) = Some y"
    using assms(2) by (auto simp: undeleted_def entry_step_def split: wal_record_type.splits)
  moreover have "entry_replay E c tail (Some y) = Some y" using Cons by (auto simp: undeleted_def)
  ultimately show ?case by (auto simp: entry_replay_def)
qed

lemma replay_overlay:
  assumes "catalog_replay E tail v = v" and "undeleted tail v"
  shows "catalog_replay E tail (\<lambda>c. map_option f (v c)) = (\<lambda>c. map_option f (v c))"
proof
  fix c
  show "catalog_replay E tail (\<lambda>c. map_option f (v c)) c = map_option f (v c)"
  proof (cases "v c")
    case None
    then show ?thesis
      using assms(1) catalog_replay_entry [of E tail v c] by (simp add: catalog_replay_entry)
  next
    case (Some m)
    with entry_replay_kept [OF assms(2), of c E "f m"] show ?thesis by (simp add: catalog_replay_entry)
  qed
qed

lemma row_ok_db [simp]: "row_ok E pl rs (st\<lparr>db := rows\<rparr>) m = row_ok E pl rs st m"
  by (simp add: row_ok_def read_payload_def read_from_active_segment_def)

lemma row_ok_same:
  "m_chunk_id m' = m_chunk_id m \<Longrightarrow> m_segment_id m' = m_segment_id m \<Longrightarrow> m_ordinal m' = m_ordinal m
     \<Longrightarrow> row_ok E pl rs st m' = row_ok E pl rs st m"
  by (simp add: row_ok_def)

lemma serving_overlay:
  assumes serv: "serving E cfg pl k rs st" and f: "overlay f (db st)"
    and undel: "undeleted (after_last_checkpoint rs) (catalog (cfg_tenant_id cfg) (db st))"
  shows "serving E cfg pl k rs (st\<lparr>db := map f (db st)\<rparr>)"
proof -
  let ?T = "cfg_tenant_id cfg"
  have same: "m_chunk_id (f m) = m_chunk_id m \<and> m_segment_id (f m) = m_segment_id m \<and> m_ordinal (f m) = m_ordinal m"
    if "m \<in> live_rows ?T (db st)" for m
    using f that by (auto simp: overlay_def live_rows_def)
  have "row_ok E pl xs st (f m) = row_ok E pl xs st m" if "m \<in> live_rows ?T (db st)" for m xs
    using same [OF that] by (intro row_ok_same) simp_all
  then show ?thesis
    using serv same replay_overlay [OF _ undel, of E f]
    by (auto simp: serving_def recoverable_def overlay_live_rows [OF f] overlay_db_ok [OF f] overlay_catalog [OF f])
qed

section \<open>Chains\<close>

definition predecessor :: "(string \<Rightarrow> chunk_metadata option) \<Rightarrow> string \<Rightarrow> string option" where
  "predecessor v b = Option.bind (v b) (\<lambda>m. supersedes (m_lifecycle m))"

definition status_of :: "(string \<Rightarrow> chunk_metadata option) \<Rightarrow> string \<Rightarrow> chunk_status option" where
  "status_of v a = map_option m_status (v a)"

text \<open>
  The links form chains: no cycle, a superseded chunk has status superseded and its live
  successor points back at it, and no two chunks share a successor.
\<close>

definition links_ok :: "string set \<Rightarrow> (string \<Rightarrow> chunk_metadata option) \<Rightarrow> bool" where
  "links_ok used v \<longleftrightarrow>
     acyclic (edges v)
     \<and> (\<forall>a b. successor v a = Some b \<longrightarrow>
          b \<in> used \<and> status_of v a = Some Superseded \<and> (v b \<noteq> None \<longrightarrow> predecessor v b = Some a)
          \<and> (\<forall>c. successor v c = Some b \<longrightarrow> c = a))
     \<and> (\<forall>a b. predecessor v b = Some a \<longrightarrow> a \<in> used \<and> (v a \<noteq> None \<longrightarrow> successor v a = Some b))"

lemma links_okI:
  assumes "acyclic (edges v)"
    and "\<And>a b. successor v a = Some b \<Longrightarrow>
           b \<in> used \<and> status_of v a = Some Superseded \<and> (v b \<noteq> None \<longrightarrow> predecessor v b = Some a)"
    and "\<And>a b c. successor v a = Some b \<Longrightarrow> successor v c = Some b \<Longrightarrow> c = a"
    and "\<And>a b. predecessor v b = Some a \<Longrightarrow> a \<in> used \<and> (v a \<noteq> None \<longrightarrow> successor v a = Some b)"
  shows "links_ok used v"
  unfolding links_ok_def using assms by blast

lemma links_okD:
  assumes "links_ok used v"
  shows "acyclic (edges v)"
    and "successor v a = Some b \<Longrightarrow>
           b \<in> used \<and> status_of v a = Some Superseded \<and> (v b \<noteq> None \<longrightarrow> predecessor v b = Some a)"
    and "successor v a = Some b \<Longrightarrow> successor v c = Some b \<Longrightarrow> c = a"
    and "predecessor v b = Some a \<Longrightarrow> a \<in> used \<and> (v a \<noteq> None \<longrightarrow> successor v a = Some b)"
  using assms unfolding links_ok_def by blast+

lemma links_empty [simp]: "links_ok used Map.empty"
  by (rule links_okI) (simp_all add: successor_def predecessor_def edges_def acyclic_def)

lemma links_mono: "links_ok used v \<Longrightarrow> used \<subseteq> used' \<Longrightarrow> links_ok used' v"
  by (rule links_okI) (blast dest: links_okD)+

lemma links_cong:
  assumes s: "successor w = successor v" and p: "predecessor w = predecessor v"
    and d: "\<And>a. w a = None \<longleftrightarrow> v a = None"
    and t: "\<And>a. status_of v a = Some Superseded \<Longrightarrow> status_of w a = Some Superseded"
    and ok: "links_ok used v"
  shows "links_ok used w"
proof (rule links_okI)
  have "edges w = edges v" by (simp add: edges_def s)
  then show "acyclic (edges w)" using links_okD(1) [OF ok] by simp
  show "b \<in> used \<and> status_of w a = Some Superseded \<and> (w b \<noteq> None \<longrightarrow> predecessor w b = Some a)"
    if "successor w a = Some b" for a b
    using that links_okD(2) [OF ok, of a b] t [of a] d [of b] unfolding s p by simp
  show "c = a" if "successor w a = Some b" "successor w c = Some b" for a b c
    using that links_okD(3) [OF ok, of a b c] unfolding s by blast
  show "a \<in> used \<and> (w a \<noteq> None \<longrightarrow> successor w a = Some b)" if "predecessor w b = Some a" for a b
    using that links_okD(4) [OF ok, of b a] d [of a] unfolding s p by simp
qed

text \<open>Removing a chunk removes its links, adding unlinked chunks adds none.\<close>

lemma links_delete:
  assumes ok: "links_ok used v"
  shows "links_ok used (v(cid := None))"
proof (rule links_okI)
  have s: "successor (v(cid := None)) a = Some b \<longleftrightarrow> a \<noteq> cid \<and> successor v a = Some b" for a b
    by (simp add: successor_def)
  have p: "predecessor (v(cid := None)) b = Some a \<longleftrightarrow> b \<noteq> cid \<and> predecessor v b = Some a" for a b
    by (simp add: predecessor_def)
  have "edges (v(cid := None)) \<subseteq> edges v" by (auto simp: edges_def s)
  then show "acyclic (edges (v(cid := None)))" using links_okD(1) [OF ok] acyclic_subset by blast
  show "b \<in> used \<and> status_of (v(cid := None)) a = Some Superseded
      \<and> ((v(cid := None)) b \<noteq> None \<longrightarrow> predecessor (v(cid := None)) b = Some a)"
    if "successor (v(cid := None)) a = Some b" for a b
    using that links_okD(2) [OF ok, of a b] by (auto simp: s p status_of_def)
  show "c = a" if "successor (v(cid := None)) a = Some b" "successor (v(cid := None)) c = Some b" for a b c
    using that links_okD(3) [OF ok, of a b c] by (simp add: s)
  show "a \<in> used \<and> ((v(cid := None)) a \<noteq> None \<longrightarrow> successor (v(cid := None)) a = Some b)"
    if "predecessor (v(cid := None)) b = Some a" for a b
    using that links_okD(4) [OF ok, of b a] by (auto simp: s p)
qed

lemma links_extend:
  assumes ok: "links_ok used v" and out: "\<And>a. a \<notin> new \<Longrightarrow> w a = v a"
    and inside: "\<And>a. a \<in> new \<Longrightarrow> successor w a = None \<and> predecessor w a = None \<and> a \<notin> used \<and> v a = None"
  shows "links_ok (used \<union> new) w"
proof (rule links_okI)
  have "successor w a = successor v a" "predecessor w a = predecessor v a" for a
    using out [of a] inside [of a] by (cases "a \<in> new"; auto simp: successor_def predecessor_def)+
  then have s: "successor w = successor v" and p: "predecessor w = predecessor v" by auto
  have t: "successor v a \<noteq> None \<Longrightarrow> status_of w a = status_of v a" for a
    using out [of a] inside [of a] s by (cases "a \<in> new") (auto simp: status_of_def)
  have d: "a \<in> used \<Longrightarrow> w a = v a" for a using out [of a] inside [of a] by blast
  have "edges w = edges v" by (simp add: edges_def s)
  then show "acyclic (edges w)" using links_okD(1) [OF ok] by simp
  show "b \<in> used \<union> new \<and> status_of w a = Some Superseded \<and> (w b \<noteq> None \<longrightarrow> predecessor w b = Some a)"
    if "successor w a = Some b" for a b
    using that links_okD(2) [OF ok, of a b] t [of a] d [of b] unfolding s p by auto
  show "c = a" if "successor w a = Some b" "successor w c = Some b" for a b c
    using that links_okD(3) [OF ok, of a b c] unfolding s by blast
  show "a \<in> used \<union> new \<and> (w a \<noteq> None \<longrightarrow> successor w a = Some b)" if "predecessor w b = Some a" for a b
    using that links_okD(4) [OF ok, of b a] d [of a] unfolding s p by auto
qed

text \<open>A new link from a head to a fresh chunk.\<close>

lemma links_link:
  assumes ok: "links_ok used v" and old: "v old = Some m" "successor v old = None"
    and new: "v new = Some n" "successor v new = None" "predecessor v new = None" "new \<in> used" "old \<in> used"
    and fresh: "\<And>a. successor v a \<noteq> Some new" and neq: "old \<noteq> new"
  shows "links_ok used (v(old \<mapsto> superseded_row new now m, new \<mapsto> superseding_row old now n))"
    (is "links_ok used ?w")
proof (rule links_okI)
  have s: "successor ?w a = (if a = old then Some new else successor v a)" for a
    using neq new by (auto simp: successor_def superseded_row_def superseding_row_def)
  have p: "predecessor ?w a = (if a = new then Some old else predecessor v a)" for a
    using neq old by (auto simp: predecessor_def superseded_row_def superseding_row_def)
  have d: "?w a = None \<longleftrightarrow> v a = None" for a using old new by simp
  have t: "status_of ?w a = (if a = old then Some Superseded else status_of v a)" for a
    using neq new(1) by (simp add: status_of_def superseded_row_def superseding_row_def)
  have "edges ?w = insert (old, new) (edges v)" using old(2) by (auto simp: edges_def s split: if_splits)
  moreover have "(new, old) \<notin> (edges v)\<^sup>*"
    using neq new(2) by (auto simp: edges_iff elim: converse_rtranclE)
  ultimately show "acyclic (edges ?w)" using links_okD(1) [OF ok] by (simp add: acyclic_insert)
  show "b \<in> used \<and> status_of ?w a = Some Superseded \<and> (?w b \<noteq> None \<longrightarrow> predecessor ?w b = Some a)"
    if "successor ?w a = Some b" for a b
  proof (cases "a = old")
    case True
    with that s [of a] p [of b] t [of a] new(4) show ?thesis by simp
  next
    case False
    then have sv: "successor v a = Some b" using that s [of a] by simp
    then have "b \<noteq> new" using fresh by blast
    then show ?thesis using links_okD(2) [OF ok sv] t [of a] p [of b] d [of b] False by simp
  qed
  show "c = a" if "successor ?w a = Some b" "successor ?w c = Some b" for a b c
    using that links_okD(3) [OF ok, of a b c] s [of a] s [of c] fresh by (metis option.inject)
  show "a \<in> used \<and> (?w a \<noteq> None \<longrightarrow> successor ?w a = Some b)" if "predecessor ?w b = Some a" for a b
  proof (cases "b = new")
    case True
    then have "a = old" using that p [of b] by simp
    with True s [of a] new(5) show ?thesis by simp
  next
    case False
    then have pv: "predecessor v b = Some a" using that p [of b] by simp
    then have "a \<noteq> old" using links_okD(4) [OF ok pv] old by auto
    then show ?thesis using links_okD(4) [OF ok pv] d [of a] s [of a] by simp
  qed
qed

section \<open>The invariant\<close>

definition live_inv ::
  "'b store_ext \<Rightarrow> tenant_config \<Rightarrow> (string \<Rightarrow> bytes) \<Rightarrow> nat \<Rightarrow> string set \<Rightarrow> wal_record list
     \<Rightarrow> 'b tenant_store \<Rightarrow> bool" where
  "live_inv E cfg pl k used rs st \<longleftrightarrow>
     serving E cfg pl k rs st \<and> knows cfg used rs st
     \<and> undeleted (after_last_checkpoint rs) (catalog (cfg_tenant_id cfg) (db st))
     \<and> links_ok used (catalog (cfg_tenant_id cfg) (db st))"

text \<open>A delta that leaves status and links alone.\<close>

definition plain_delta :: "lifecycle_delta \<Rightarrow> bool" where
  "plain_delta d \<longleftrightarrow> d_status d = None \<and> d_supersedes d = None \<and> d_superseded_by d = None"

lemma undeleted_overlay: "undeleted tail (\<lambda>c. map_option f (v c)) \<longleftrightarrow> undeleted tail v"
  by (simp add: undeleted_def)

lemma live_overlay:
  assumes inv: "live_inv E cfg pl k used rs st" and f: "overlay f (db st)"
    and links: "links_ok used (\<lambda>c. map_option f (catalog (cfg_tenant_id cfg) (db st) c))"
  shows "live_inv E cfg pl k used rs (st\<lparr>db := map f (db st)\<rparr>)"
  using inv links serving_overlay [OF _ f, of E cfg pl k rs]
  by (auto simp: live_inv_def knows_def overlay_catalog [OF f] undeleted_overlay)

text \<open>Updates that keep the links, and the status unless it is not superseded.\<close>

definition keeps_links :: "(chunk_metadata \<Rightarrow> chunk_metadata) \<Rightarrow> bool" where
  "keeps_links f \<longleftrightarrow>
     (\<forall>m. supersedes (m_lifecycle (f m)) = supersedes (m_lifecycle m)
        \<and> superseded_by (m_lifecycle (f m)) = superseded_by (m_lifecycle m)
        \<and> (m_status m = Superseded \<longrightarrow> m_status (f m) = Superseded))"

lemma keeps_links_ok:
  assumes "keeps_links f" and "links_ok used v"
  shows "links_ok used (\<lambda>c. map_option f (v c))"
proof (rule links_cong [OF _ _ _ _ assms(2)])
  show "successor (\<lambda>c. map_option f (v c)) = successor v"
    "predecessor (\<lambda>c. map_option f (v c)) = predecessor v"
    using assms(1) by (auto simp: successor_def predecessor_def keeps_links_def fun_eq_iff split: Option.bind_splits)
  show "status_of (\<lambda>c. map_option f (v c)) a = Some Superseded" if "status_of v a = Some Superseded" for a
    using that assms(1) by (auto simp: status_of_def keeps_links_def)
qed simp

lemma overlay_where:
  assumes "\<And>m. p (strip_coords m) = p m" and "\<And>m. strip_coords (g m) = g (strip_coords m)"
    and "\<And>m. m_chunk_id (g m) = m_chunk_id m \<and> m_tenant_id (g m) = m_tenant_id m
        \<and> m_segment_id (g m) = m_segment_id m \<and> m_ordinal (g m) = m_ordinal m"
    and "\<And>m. m \<in> set rows \<Longrightarrow> p m \<Longrightarrow> m_status (g m) = Deleted \<longleftrightarrow> m_status m = Deleted"
  shows "overlay (\<lambda>m. if p m then g m else m) rows"
  using assms by (auto simp: overlay_def)

lemma is_live_strip [simp]: "is_live tid cid (strip_coords m) = is_live tid cid m"
  by (simp add: is_live_def strip_coords_def)

lemma delta_overlay:
  assumes "d_status d = None"
  shows "overlay (\<lambda>m. if is_live tid cid m then delta_row d m else m) rows"
  using assms by (intro overlay_where) (simp_all add: delta_row_def strip_coords_def is_live_def)

definition catalog_delta ::
  "string \<Rightarrow> lifecycle_delta \<Rightarrow> (string \<Rightarrow> chunk_metadata option) \<Rightarrow> string \<Rightarrow> chunk_metadata option" where
  "catalog_delta cid d v = v(cid := map_option (delta_row d) (v cid))"

lemma catalog_live:
  "catalog tid rows c = Some m \<Longrightarrow> m_chunk_id m = c \<and> m_tenant_id m = tid \<and> m_status m \<noteq> Deleted"
  by (auto simp: catalog_def strip_coords_def dest: meta_get_live)

lemma delta_catalog:
  assumes "d_status d = None"
  shows "catalog tid (snd (update_lifecycle_counted tid cid d rows)) = catalog_delta cid d (catalog tid rows)"
proof
  fix c
  have "is_live tid cid m \<longleftrightarrow> c = cid" if "catalog tid rows c = Some m" for m
    using catalog_live [OF that] by (auto simp: is_live_def)
  then show "catalog tid (snd (update_lifecycle_counted tid cid d rows)) c = catalog_delta cid d (catalog tid rows) c"
    unfolding update_lifecycle_counted_def update_where_def snd_conv
    by (cases "catalog tid rows c") (auto simp: overlay_catalog [OF delta_overlay [OF assms]] catalog_delta_def)
qed

lemma live_delta:
  assumes "live_inv E cfg pl k used rs st" and "plain_delta d"
  shows "live_inv E cfg pl k used rs
    (st\<lparr>db := snd (update_lifecycle_counted (cfg_tenant_id cfg) cid d (db st))\<rparr>)"
proof -
  have st: "d_status d = None" using assms(2) by (simp add: plain_delta_def)
  have "keeps_links (\<lambda>m. if is_live (cfg_tenant_id cfg) cid m then delta_row d m else m)"
    using assms(2) by (simp add: keeps_links_def plain_delta_def delta_row_def lifecycle_apply_def)
  from live_overlay [OF assms(1) delta_overlay [OF st] keeps_links_ok [OF this]] assms(1)
  show ?thesis by (simp add: live_inv_def update_lifecycle_counted_def update_where_def)
qed

section \<open>Linking\<close>

text \<open>Both statements of \<open>atomic_supersede\<close> as one change of rows.\<close>

definition link_row :: "string \<Rightarrow> string \<Rightarrow> string \<Rightarrow> i64 \<Rightarrow> chunk_metadata \<Rightarrow> chunk_metadata" where
  "link_row tid old new now m =
     (if key_is tid new m then superseding_row old now m
      else if key_is tid old m \<and> superseded_by (m_lifecycle m) = None then superseded_row new now m
      else m)"

lemma count_key:
  assumes "db_ok rows" and "m \<in> set rows" and "p m" and "\<And>x. p x \<Longrightarrow> m_chunk_id x = m_chunk_id m"
  shows "length (filter p rows) = 1"
proof -
  have d: "distinct rows" using assms(1) by (auto simp: db_ok_def distinct_map)
  have "set (filter p rows) = {m}"
    using assms by (auto simp: db_ok_def distinct_map dest: inj_onD)
  moreover have "distinct (filter p rows)" using d by simp
  ultimately show ?thesis using distinct_card [of "filter p rows"] by simp
qed

lemma atomic_supersede_ok:
  assumes ok: "db_ok rows" and old: "meta_get rows tid old = Some m" "superseded_by (m_lifecycle m) = None"
    and new: "meta_get rows tid new = Some n" and neq: "old \<noteq> new"
  shows "atomic_supersede tid old new now rows = Inr (map (link_row tid old new now) rows)"
    and "overlay (link_row tid old new now) rows"
    and "catalog tid (map (link_row tid old new now) rows) =
           (catalog tid rows)(old \<mapsto> superseded_row new now (strip_coords m),
                              new \<mapsto> superseding_row old now (strip_coords n))"
proof -
  note lm = meta_get_live [OF old(1)] and ln = meta_get_live [OF new]
  let ?p = "\<lambda>x. key_is tid old x \<and> superseded_by (m_lifecycle x) = None"
  let ?f = "\<lambda>x. if ?p x then superseded_row new now x else x"
  have key: "key_is tid new (?f x) \<longleftrightarrow> key_is tid new x" for x
    by (simp add: key_is_def superseded_row_def)
  have one: "length (filter ?p rows) = 1"
    using lm old(2) by (intro count_key [OF ok, of m]) (auto simp: key_is_def live_rows_def)
  have "length (filter (key_is tid new) rows) = 1"
    using ln by (intro count_key [OF ok, of n]) (auto simp: key_is_def live_rows_def)
  then have two: "length (filter (key_is tid new) (map ?f rows)) = 1" by (simp add: filter_map o_def key)
  have both: "map (\<lambda>x. if key_is tid new x then superseding_row old now x else x) (map ?f rows) =
      map (link_row tid old new now) rows"
    using neq by (auto simp: link_row_def key_is_def superseded_row_def)
  show "atomic_supersede tid old new now rows = Inr (map (link_row tid old new now) rows)"
    using one two both by (simp add: atomic_supersede_def update_where_def)
  have live: "m_status x \<noteq> Deleted" if "x \<in> set rows" "key_is tid old x" for x
  proof -
    have "x = m" using that lm ok by (auto simp: key_is_def live_rows_def db_ok_def distinct_map dest: inj_onD)
    with lm show ?thesis by simp
  qed
  show o: "overlay (link_row tid old new now) rows"
    using live by (auto simp: overlay_def link_row_def key_is_def superseded_row_def superseding_row_def strip_coords_def)
  show "catalog tid (map (link_row tid old new now) rows) =
      (catalog tid rows)(old \<mapsto> superseded_row new now (strip_coords m), new \<mapsto> superseding_row old now (strip_coords n))"
  proof
    fix c
    have "link_row tid old new now x = x" if "catalog tid rows c = Some x" "c \<noteq> old" "c \<noteq> new" for x
      using catalog_live [OF that(1)] that by (auto simp: link_row_def key_is_def)
    moreover have "link_row tid old new now (strip_coords m) = superseded_row new now (strip_coords m)"
      "link_row tid old new now (strip_coords n) = superseding_row old now (strip_coords n)"
      using lm ln old(2) neq by (simp_all add: link_row_def key_is_def strip_coords_def)
    ultimately show "catalog tid (map (link_row tid old new now) rows) c =
        ((catalog tid rows)(old \<mapsto> superseded_row new now (strip_coords m),
                            new \<mapsto> superseding_row old now (strip_coords n))) c"
      using old(1) new neq
      by (cases "catalog tid rows c") (auto simp: overlay_catalog [OF o] catalog_None catalog_def)
  qed
qed

text \<open>The error branches leave the table alone.\<close>

lemma atomic_supersede_not_head:
  assumes "\<forall>m \<in> set rows. key_is tid old m \<longrightarrow> superseded_by (m_lifecycle m) \<noteq> None"
  shows "\<exists>e. atomic_supersede tid old new now rows = Inl (ValidationError e)"
proof -
  have "filter (\<lambda>m. key_is tid old m \<and> superseded_by (m_lifecycle m) = None) rows = []"
    using assms by (auto simp: filter_empty_conv)
  then show ?thesis by (simp add: atomic_supersede_def update_where_def)
qed

section \<open>Adding\<close>

text \<open>What \<open>prepare_pending_chunks\<close> computes when ids are not preserved.\<close>

fun pending_of :: "'b store_ext \<Rightarrow> (str \<Rightarrow> string) \<Rightarrow> (nat \<Rightarrow> string) \<Rightarrow> memory_chunk list \<Rightarrow> pending_chunk list" where
  "pending_of E hx ids [] = []"
| "pending_of E hx ids (c # cs) =
     (let c' = c\<lparr>mc_chunk_id := ids 0, mc_hash := hx (mc_text c)\<rparr>
      in \<lparr>p_chunk = c', p_payload = chunk_ser E c'\<rparr> # pending_of E hx (\<lambda>n. ids (Suc n)) cs)"

lemma prepare_fresh: "prepare_pending_chunks E hx False rows ids cs = Inr (pending_of E hx ids cs)"
  by (induction cs arbitrary: ids) (simp_all add: Let_def)

lemma pending_of_ids: "map pending_id (pending_of E hx ids cs) = map ids [0..<length cs]"
  by (induction cs arbitrary: ids)
    (simp_all add: pending_id_def Let_def map_upt_Suc del: upt_Suc)

lemma catalog_add_other: "a \<notin> pending_id ` set ps \<Longrightarrow> catalog_add E ps v a = v a"
  unfolding catalog_add_def by (induction ps arbitrary: v) (auto simp: pending_id_def)

lemma catalog_add_new:
  assumes "a \<in> pending_id ` set ps"
  shows "\<exists>c. catalog_add E ps v a = Some (strip_coords (chunk_row E c 0 0))"
  using assms
proof (induction ps arbitrary: v)
  case (Cons p ps)
  show ?case
  proof (cases "a \<in> pending_id ` set ps")
    case True
    with Cons.IH show ?thesis by (simp add: catalog_add_def)
  next
    case False
    then have "a = pending_id p" using Cons.prems by auto
    with catalog_add_other [OF False, of E "v(mc_chunk_id (p_chunk p) \<mapsto> strip_coords (chunk_row E (p_chunk p) 0 0))"]
    have "catalog_add E (p # ps) v a = Some (strip_coords (chunk_row E (p_chunk p) 0 0))"
      by (simp add: catalog_add_def pending_id_def)
    then show ?thesis by blast
  qed
qed simp

lemma new_row_unlinked:
  assumes "v a = Some (strip_coords (chunk_row E c 0 0))"
  shows "successor v a = None \<and> predecessor v a = None"
  using assms by (simp add: successor_def predecessor_def chunk_row_def default_lifecycle_def)

lemma knows_grow: "knows cfg used rs st \<Longrightarrow> used \<subseteq> used' \<Longrightarrow> knows cfg used' rs st"
  by (auto simp: knows_def)

context tenant_log
begin

lemma live_add:
  assumes inv: "live_inv E cfg pl (2 * length ps + k) used rs st" and ok: "op_ok E cfg pl now used (OpAdd ps)"
    and cp: "wal_fits (wal_x E) (checkpoint_record (cfg_tenant_id cfg) now)"
  shows "\<exists>st' rs'. add_batch E cfg now ps st = Inr st' \<and> live_inv E cfg pl k (used \<union> pending_id ` set ps) rs' st'
      \<and> catalog (cfg_tenant_id cfg) (db st') = catalog_add E ps (catalog (cfg_tenant_id cfg) (db st))"
proof -
  let ?v = "catalog (cfg_tenant_id cfg) (db st)" and ?new = "pending_id ` set ps"
  have serv: "serving E cfg pl (length ps + (length ps + k)) rs st"
    and kn: "knows cfg used rs st" and un: "undeleted (after_last_checkpoint rs) ?v" and li: "links_ok used ?v"
    using inv by (simp_all add: live_inv_def mult_2 add.assoc)
  have fresh: "a \<in> ?new \<Longrightarrow> a \<notin> used \<and> ?v a = None" for a using ok kn by (auto simp: knows_def)
  have batch: "batch_ok E cfg pl rs st ps" using ok kn by (auto simp: batch_ok_def knows_def)
  obtain st' rs' where a: "add_batch E cfg now ps st = Inr st'" "serving E cfg pl k rs' st'"
    "after_last_checkpoint rs' = after_last_checkpoint rs @ map (pending_record cfg) ps
       \<or> after_last_checkpoint rs' = []"
    "catalog (cfg_tenant_id cfg) (db st') = catalog_replay E (map (pending_record cfg) ps) ?v"
    using add_batch_ok [OF serv batch cp] by blast
  have cat: "catalog (cfg_tenant_id cfg) (db st') = catalog_add E ps ?v"
    using a(4) catalog_add_replay [of ps E cfg pl ?v] ok fresh by auto
  have "knows cfg (used \<union> ?new) rs' st'"
    using kn a(3) by (auto simp: knows_def cat dom_catalog_add image_subset_iff)
  moreover have "undeleted (after_last_checkpoint rs') (catalog_add E ps ?v)"
  proof -
    have "catalog_add E ps ?v (rec_chunk_id r) = None"
      if "r \<in> set (after_last_checkpoint rs)" "record_type r = Delete" for r
    proof -
      have "rec_chunk_id r \<in> used" "?v (rec_chunk_id r) = None"
        using that kn un by (auto simp: knows_def undeleted_def)
      then show ?thesis using fresh catalog_add_other [of "rec_chunk_id r" ps E ?v] by auto
    qed
    then show ?thesis using a(3) by (auto simp: undeleted_def)
  qed
  moreover have "links_ok (used \<union> ?new) (catalog_add E ps ?v)"
  proof (rule links_extend [OF li])
    show "catalog_add E ps ?v a = ?v a" if "a \<notin> ?new" for a using that by (rule catalog_add_other)
    show "successor (catalog_add E ps ?v) a = None \<and> predecessor (catalog_add E ps ?v) a = None
        \<and> a \<notin> used \<and> ?v a = None" if "a \<in> ?new" for a
      using fresh [OF that] catalog_add_new [OF that] new_row_unlinked [of "catalog_add E ps ?v" a E] by blast
  qed
  ultimately have "live_inv E cfg pl k (used \<union> ?new) rs' st'" using a(2) by (simp add: live_inv_def cat)
  with a(1) cat show ?thesis by blast
qed

lemma live_delete:
  assumes inv: "live_inv E cfg pl (Suc k) used rs st" and ok: "op_ok E cfg pl now used (OpDelete cid)"
  shows "\<exists>st' rs'. delete_chunk E cfg now cid st = Inr (catalog (cfg_tenant_id cfg) (db st) cid \<noteq> None, st')
      \<and> live_inv E cfg pl k (insert cid used) rs' st'
      \<and> catalog (cfg_tenant_id cfg) (db st') = (catalog (cfg_tenant_id cfg) (db st))(cid := None)"
proof -
  let ?v = "catalog (cfg_tenant_id cfg) (db st)"
  have serv: "serving E cfg pl (Suc k) rs st" and kn: "knows cfg used rs st"
    and un: "undeleted (after_last_checkpoint rs) ?v" and li: "links_ok used ?v"
    using inv by (simp_all add: live_inv_def)
  obtain st' rs' where d: "delete_chunk E cfg now cid st = Inr (?v cid \<noteq> None, st')" "serving E cfg pl k rs' st'"
    "after_last_checkpoint rs' = after_last_checkpoint rs
       \<or> after_last_checkpoint rs' = after_last_checkpoint rs @ [delete_record (cfg_tenant_id cfg) cid now]"
    "catalog (cfg_tenant_id cfg) (db st') = ?v(cid := None)"
    using delete_chunk_ok [OF serv, of cid now] ok by auto
  have "knows cfg (insert cid used) rs' st'"
    using kn d(3) unfolding knows_def d(4) by (elim disjE) (simp_all add: delete_record_def, blast+)
  moreover have "undeleted (after_last_checkpoint rs') (?v(cid := None))"
    using un d(3) by (auto simp: undeleted_def delete_record_def)
  moreover have "links_ok (insert cid used) (?v(cid := None))"
    using links_mono [OF links_delete [OF li]] by blast
  ultimately show ?thesis using d(1,2,4) by (auto simp: live_inv_def)
qed

lemma live_restart:
  assumes inv: "live_inv E cfg pl k used rs st"
  shows "\<exists>st' rs'. tenant_open E cfg now (crash st) = Inr st' \<and> live_inv E cfg pl k used rs' st'
      \<and> catalog (cfg_tenant_id cfg) (db st') = catalog (cfg_tenant_id cfg) (db st)"
proof -
  let ?rs = "if after_last_checkpoint rs = [] then rs else []"
  have "serving E cfg pl k rs st" using inv by (simp add: live_inv_def)
  from serving_reopen [OF this, of now] obtain st' where o: "tenant_open E cfg now (crash st) = Inr st'"
    "catalog (cfg_tenant_id cfg) (db st') = catalog (cfg_tenant_id cfg) (db st)" "serving E cfg pl k ?rs st'" by blast
  have tail: "after_last_checkpoint ?rs = []" by (simp add: after_last_checkpoint_def)
  have "live_inv E cfg pl k used ?rs st'"
    using inv o(3) unfolding live_inv_def knows_def o(2) tail by (simp add: undeleted_def)
  with o(1,2) show ?thesis by blast
qed

end

section \<open>Superseding\<close>

lemma catalog_delta_links:
  assumes "plain_delta d"
  shows "successor (catalog_delta c d v) = successor v" "predecessor (catalog_delta c d v) = predecessor v"
    "catalog_delta c d v a = None \<longleftrightarrow> v a = None"
  using assms
  by (auto simp: catalog_delta_def successor_def predecessor_def plain_delta_def delta_row_def lifecycle_apply_def
      fun_eq_iff split: Option.bind_splits)

lemma fold_delta_links:
  assumes "plain_delta d"
  shows "successor (fold (\<lambda>i. catalog_delta i d) ids v) = successor v"
    "predecessor (fold (\<lambda>i. catalog_delta i d) ids v) = predecessor v"
    "fold (\<lambda>i. catalog_delta i d) ids v a = None \<longleftrightarrow> v a = None"
  using catalog_delta_links [OF assms] by (induction ids arbitrary: v) simp_all

lemma live_deltas:
  assumes "live_inv E cfg pl k used rs st" and "plain_delta d"
  shows "live_inv E cfg pl k used rs
      (st\<lparr>db := fold (\<lambda>i rows. snd (update_lifecycle_counted (cfg_tenant_id cfg) i d rows)) ids (db st)\<rparr>)
    \<and> catalog (cfg_tenant_id cfg)
        (fold (\<lambda>i rows. snd (update_lifecycle_counted (cfg_tenant_id cfg) i d rows)) ids (db st)) =
      fold (\<lambda>i. catalog_delta i d) ids (catalog (cfg_tenant_id cfg) (db st))"
  using assms(1)
proof (induction ids arbitrary: st)
  case (Cons i ids)
  have "d_status d = None" using assms(2) by (simp add: plain_delta_def)
  with Cons.IH [OF live_delta [OF Cons.prems assms(2), of i]] show ?case by (simp add: delta_catalog)
qed simp

lemma plain_stamped [simp]: "plain_delta (stamped now d) = plain_delta d"
  by (simp add: plain_delta_def stamped_def)

text \<open>The catalog after superseding the head \<open>old\<close> by the chunks \<open>ps\<close>, the first of which is linked.\<close>

definition catalog_supersede ::
  "'b store_ext \<Rightarrow> i64 \<Rightarrow> string \<Rightarrow> pending_chunk list \<Rightarrow> lifecycle_delta \<Rightarrow> (string \<Rightarrow> chunk_metadata option)
     \<Rightarrow> string \<Rightarrow> chunk_metadata option" where
  "catalog_supersede E now old ps d v =
     (let new = pending_id (hd ps);
          w = (if delta_is_empty d then catalog_add E ps v
               else fold (\<lambda>i. catalog_delta i (stamped now d)) (map pending_id ps) (catalog_add E ps v))
      in w(old := map_option (superseded_row new now) (w old),
           new := map_option (superseding_row old now) (w new)))"

context tenant_log
begin

text \<open>Adding with a lifecycle delta.\<close>

lemma live_add_lifecycle:
  assumes inv: "live_inv E cfg pl (2 * length ps + k) used rs (store s)"
    and parts: "expand_chunks_for_add sg chunk = Inr parts" and ps: "ps = pending_of E hx ids parts"
    and ok: "op_ok E cfg pl now used (OpAdd ps)" and tid: "mc_tenant_id chunk = cfg_tenant_id cfg"
    and plain: "plain_delta d" and cp: "wal_fits (wal_x E) (checkpoint_record (cfg_tenant_id cfg) now)"
  shows "\<exists>s' rs'. add_chunk_with_lifecycle_and_stored_ids E cfg sg hx now ids ix chunk d s =
        Inr ((pending_id (hd ps), map pending_id ps), s')
      \<and> live_inv E cfg pl k (used \<union> pending_id ` set ps) rs' (store s')
      \<and> catalog (cfg_tenant_id cfg) (db (store s')) =
          (if delta_is_empty d then catalog_add E ps (catalog (cfg_tenant_id cfg) (db (store s)))
           else fold (\<lambda>i. catalog_delta i (stamped now d)) (map pending_id ps)
                  (catalog_add E ps (catalog (cfg_tenant_id cfg) (db (store s)))))"
proof -
  obtain st' rs' where a: "add_batch E cfg now ps (store s) = Inr st'"
    "live_inv E cfg pl k (used \<union> pending_id ` set ps) rs' st'"
    "catalog (cfg_tenant_id cfg) (db st') = catalog_add E ps (catalog (cfg_tenant_id cfg) (db (store s)))"
    using live_add [OF inv ok cp] by blast
  have "parts \<noteq> []" using parts by (auto simp: expand_chunks_for_add_def split: option.splits if_splits)
  then obtain p ps' where cons: "ps = p # ps'" using ps by (cases parts) (auto simp: Let_def)
  let ?s1 = "(if ix then bump else id) (s\<lparr>store := st'\<rparr>)"
  have s1: "store ?s1 = st'" by (simp add: bump_def)
  have add: "add_chunk_with_stored_ids E cfg sg hx now ids ix chunk s =
      Inr ((pending_id (hd ps), map pending_id ps), ?s1)"
    using writable parts a(1) ps [symmetric] cons
    by (simp add: add_chunk_with_stored_ids_def add_parts_def prepare_fresh pending_id_def)
  show ?thesis
  proof (cases "delta_is_empty d")
    case True
    with add a s1 writable show ?thesis
      by (intro exI [of _ ?s1] exI [of _ rs']) (simp add: add_chunk_with_lifecycle_and_stored_ids_def)
  next
    case False
    let ?rows = "fold (\<lambda>i rows. snd (update_lifecycle_counted (cfg_tenant_id cfg) i (stamped now d) rows))
        (map pending_id ps) (db st')"
    note l = live_deltas [OF a(2), of "stamped now d" "map pending_id ps"]
    from False add s1 writable
    have "add_chunk_with_lifecycle_and_stored_ids E cfg sg hx now ids ix chunk d s =
        Inr ((pending_id (hd ps), map pending_id ps), bump (set_db ?rows ?s1))"
      by (simp add: add_chunk_with_lifecycle_and_stored_ids_def tid)
    moreover have "store (bump (set_db ?rows ?s1)) = st'\<lparr>db := ?rows\<rparr>" by (simp add: bump_def set_db_def s1)
    ultimately show ?thesis
      using l plain a(3) False
      by (intro exI [of _ "bump (set_db ?rows ?s1)"] exI [of _ rs']) simp
  qed
qed

text \<open>A live head is superseded: both rows are linked, everything else is as the add left it.\<close>

lemma supersede_head:
  assumes inv: "live_inv E cfg pl (2 * length ps + k) used rs (store s)"
    and parts: "expand_chunks_for_add sg chunk = Inr parts" and ps: "ps = pending_of E hx ids parts"
    and ok: "op_ok E cfg pl now used (OpAdd ps)" and tid: "mc_tenant_id chunk = cfg_tenant_id cfg"
    and plain: "plain_delta d" and cp: "wal_fits (wal_x E) (checkpoint_record (cfg_tenant_id cfg) now)"
    and head: "catalog (cfg_tenant_id cfg) (db (store s)) old \<noteq> None"
      "successor (catalog (cfg_tenant_id cfg) (db (store s))) old = None"
  shows "\<exists>s' rs'. supersede_chunk_with_lifecycle_and_stored_ids E cfg sg hx now ids ix old chunk d s =
        (Inr (pending_id (hd ps), map pending_id ps), s')
      \<and> live_inv E cfg pl k (used \<union> pending_id ` set ps) rs' (store s')
      \<and> catalog (cfg_tenant_id cfg) (db (store s')) =
          catalog_supersede E now old ps d (catalog (cfg_tenant_id cfg) (db (store s)))"
proof -
  let ?T = "cfg_tenant_id cfg" and ?new = "pending_id (hd ps)"
  let ?v = "catalog ?T (db (store s))"
  obtain m where m: "meta_get (db (store s)) ?T old = Some m" "superseded_by (m_lifecycle m) = None"
    using head by (auto simp: catalog_def successor_catalog)
  have li: "links_ok used ?v" and kn: "knows cfg used rs (store s)" using inv by (simp_all add: live_inv_def)
  have pre: "supersede_preflight cfg old chunk s = Inr ()"
    using writable tid m meta_get_live [OF m(1)] acyclic_no_cycle [OF links_okD(1) [OF li]]
    by (simp add: supersede_preflight_def detect_exact)
  obtain s1 rs1 where a: "add_chunk_with_lifecycle_and_stored_ids E cfg sg hx now ids ix chunk d s =
        Inr ((?new, map pending_id ps), s1)"
    "live_inv E cfg pl k (used \<union> pending_id ` set ps) rs1 (store s1)"
    and w: "catalog ?T (db (store s1)) =
          (if delta_is_empty d then catalog_add E ps ?v
           else fold (\<lambda>i. catalog_delta i (stamped now d)) (map pending_id ps) (catalog_add E ps ?v))"
    using live_add_lifecycle [OF inv parts ps ok tid plain cp, of ix] by blast
  let ?w = "catalog ?T (db (store s1))"
  have "parts \<noteq> []" using parts by (auto simp: expand_chunks_for_add_def split: option.splits if_splits)
  then have new: "?new \<in> pending_id ` set ps" using ps by (cases parts) (auto simp: Let_def)
  then have fresh: "?new \<notin> used" using ok by auto
  have old: "old \<in> used" "old \<notin> pending_id ` set ps"
    using kn head(1) ok by (auto simp: knows_def)
  have s: "successor ?w = successor (catalog_add E ps ?v)" and p: "predecessor ?w = predecessor (catalog_add E ps ?v)"
    and dm: "?w c = None \<longleftrightarrow> catalog_add E ps ?v c = None" for c
    using fold_delta_links [of "stamped now d"] plain by (simp_all add: w)
  have sa: "successor ?w c = (if c \<in> pending_id ` set ps then None else successor ?v c)"
    and pa: "predecessor ?w c = (if c \<in> pending_id ` set ps then None else predecessor ?v c)" for c
    using catalog_add_new [of c ps E ?v] new_row_unlinked [of "catalog_add E ps ?v" c E] catalog_add_other [of c ps E ?v]
    unfolding s p by (auto simp: successor_def predecessor_def)
  have "?w old \<noteq> None" "?w ?new \<noteq> None" "successor ?w old = None"
    using dm head catalog_add_new [OF new, of E ?v] old(2) by (auto simp: catalog_add_other sa)
  then obtain mo mn where mo: "meta_get (db (store s1)) ?T old = Some mo" "superseded_by (m_lifecycle mo) = None"
    and mn: "meta_get (db (store s1)) ?T ?new = Some mn"
    by (auto simp: catalog_def successor_catalog)
  have neq: "old \<noteq> ?new" using old(2) new by auto
  have db: "db_ok (db (store s1))" using a(2) by (simp add: live_inv_def serving_def recoverable_def)
  note l = atomic_supersede_ok [OF db mo mn neq, of now]
  let ?rows = "map (link_row ?T old ?new now) (db (store s1))"
  have cat: "catalog ?T ?rows = catalog_supersede E now old ps d ?v"
    unfolding l(3) catalog_supersede_def Let_def w [symmetric] using mo(1) mn
    by (simp add: catalog_def neq)
  have "links_ok (used \<union> pending_id ` set ps) (catalog ?T ?rows)"
    unfolding l(3)
  proof (rule links_link)
    show "links_ok (used \<union> pending_id ` set ps) ?w" using a(2) by (simp add: live_inv_def)
    show "successor ?w c \<noteq> Some ?new" for c
      using links_okD(2) [OF li, of c ?new] fresh by (auto simp: sa)
    show "successor ?w old = None" "?w old = Some (strip_coords mo)" "?w ?new = Some (strip_coords mn)"
      using mo mn by (simp_all add: catalog_def successor_catalog)
    show "successor ?w ?new = None" "predecessor ?w ?new = None" using new sa pa by simp_all
  qed (use old new neq in simp_all)
  then have "live_inv E cfg pl k (used \<union> pending_id ` set ps) rs1 ((store s1)\<lparr>db := ?rows\<rparr>)"
    using live_overlay [OF a(2) l(2)] by (simp add: overlay_catalog [OF l(2)])
  moreover have "supersede_chunk_with_lifecycle_and_stored_ids E cfg sg hx now ids ix old chunk d s =
      (Inr (?new, map pending_id ps), bump (set_db ?rows s1))"
    using pre a(1) l(1) by (simp add: supersede_chunk_with_lifecycle_and_stored_ids_def supersede_commit_def)
  ultimately show ?thesis
    using cat by (intro exI [of _ "bump (set_db ?rows s1)"] exI [of _ rs1]) (simp add: bump_def set_db_def)
qed

end

text \<open>A missing chunk or one that is not the head of its chain is refused before anything is written.\<close>

lemma supersede_refused:
  assumes "links_ok used (catalog (cfg_tenant_id cfg) (db (store s)))"
    and "\<not> read_only cfg" and "mc_tenant_id chunk = cfg_tenant_id cfg"
    and "catalog (cfg_tenant_id cfg) (db (store s)) old = None
       \<or> successor (catalog (cfg_tenant_id cfg) (db (store s))) old \<noteq> None"
  shows "supersede_chunk_with_lifecycle_and_stored_ids E cfg sg hx now ids ix old chunk d s =
    (Inl (ValidationError (if catalog (cfg_tenant_id cfg) (db (store s)) old = None
                           then ''supersede_chunk: old chunk not found''
                           else ''supersede_chunk: old chunk is not current head'')), s)"
proof (cases "meta_get (db (store s)) (cfg_tenant_id cfg) old")
  case None
  with assms show ?thesis
    by (simp add: supersede_chunk_with_lifecycle_and_stored_ids_def supersede_preflight_def catalog_None)
next
  case (Some m)
  with assms meta_get_live [OF Some] acyclic_no_cycle [OF links_okD(1) [OF assms(1)]] show ?thesis
    by (simp add: supersede_chunk_with_lifecycle_and_stored_ids_def supersede_preflight_def detect_exact
        catalog_None successor_catalog)
qed

end
