(* ===== verification/Lifecycle_Sweep.thy ===== *)
theory Lifecycle_Sweep
  imports Lifecycle_Serving
begin

text \<open>
  The retention sweeps: \<open>compaction/expiry_sweep.rs\<close> gives rows past their expiry the status
  expired, \<open>compaction/history_promotion.rs\<close> moves stale superseded and expired rows to the
  history tier, and the first phase of \<open>CompactionRunner::run_compaction\<close> runs both and
  gathers the chunks to leave out of the rebuilt graph. The clock is read once per sweep.
\<close>

section \<open>Statements\<close>

text \<open>Ids are parsed as they are read; a malformed one makes the whole query fail.\<close>

definition select_ids :: "'b store_ext \<Rightarrow> (chunk_metadata \<Rightarrow> bool) \<Rightarrow> chunk_metadata list \<Rightarrow> memd_error + string list" where
  "select_ids E p rows =
     (case those (map (\<lambda>m. uuid_parse E (m_chunk_id m)) (filter p rows)) of
        None \<Rightarrow> Inl (StorageError ''invalid chunk id'')
      | Some ids \<Rightarrow> Inr ids)"

definition past_expiry :: "i64 \<Rightarrow> chunk_metadata \<Rightarrow> bool" where
  "past_expiry now m \<longleftrightarrow> (case expires_at_ms (m_lifecycle m) of Some e \<Rightarrow> sint e \<le> sint now | None \<Rightarrow> False)"

definition list_expired_before ::
  "'b store_ext \<Rightarrow> string \<Rightarrow> i64 \<Rightarrow> chunk_metadata list \<Rightarrow> memd_error + string list" where
  "list_expired_before E tid now rows =
     select_ids E (\<lambda>m. m_tenant_id m = tid \<and> past_expiry now m
        \<and> m_status m \<notin> {Candidate, Deleted, Expired, Superseded, ErrorStatus}) rows"

definition expire_row :: "i64 \<Rightarrow> chunk_metadata \<Rightarrow> chunk_metadata" where
  "expire_row now m =
     m\<lparr>m_status := Expired, m_lifecycle := (m_lifecycle m)\<lparr>lifecycle_updated_at_ms := now\<rparr>\<rparr>"

definition expirable :: "i64 \<Rightarrow> chunk_metadata \<Rightarrow> bool" where
  "expirable now m \<longleftrightarrow> m_status m = Final \<and> past_expiry now m"

definition mark_expired_if_final ::
  "string \<Rightarrow> string \<Rightarrow> i64 \<Rightarrow> chunk_metadata list \<Rightarrow> bool \<times> chunk_metadata list" where
  "mark_expired_if_final tid cid now rows =
     (let (n, rows') = update_where (\<lambda>m. key_is tid cid m \<and> expirable now m) (expire_row now) rows
      in (n = 1, rows'))"

definition stale :: "i64 \<Rightarrow> chunk_metadata \<Rightarrow> bool" where
  "stale older_than m \<longleftrightarrow>
     m_status m \<in> {Superseded, Expired} \<and> tier (m_lifecycle m) \<noteq> History
     \<and> sint (lifecycle_updated_at_ms (m_lifecycle m)) < sint older_than"

definition list_stale_superseded ::
  "'b store_ext \<Rightarrow> string \<Rightarrow> i64 \<Rightarrow> chunk_metadata list \<Rightarrow> memd_error + string list" where
  "list_stale_superseded E tid older_than rows =
     select_ids E (\<lambda>m. m_tenant_id m = tid \<and> stale older_than m) rows"

definition history_row :: "i64 \<Rightarrow> chunk_metadata \<Rightarrow> chunk_metadata" where
  "history_row now m = m\<lparr>m_lifecycle := (m_lifecycle m)\<lparr>tier := History, lifecycle_updated_at_ms := now\<rparr>\<rparr>"

definition promote_to_history_if_stale ::
  "string \<Rightarrow> string \<Rightarrow> i64 \<Rightarrow> i64 \<Rightarrow> chunk_metadata list \<Rightarrow> bool \<times> chunk_metadata list" where
  "promote_to_history_if_stale tid cid older_than now rows =
     (let (n, rows') = update_where (\<lambda>m. key_is tid cid m \<and> stale older_than m) (history_row now) rows
      in (n = 1, rows'))"

definition list_lifecycle_hidden ::
  "'b store_ext \<Rightarrow> string \<Rightarrow> chunk_metadata list \<Rightarrow> memd_error + string list" where
  "list_lifecycle_hidden E tid rows =
     select_ids E (\<lambda>m. m_tenant_id m = tid
        \<and> (m_status m \<in> {Candidate, Superseded, Expired, ErrorStatus} \<or> tier (m_lifecycle m) = History)) rows"

text \<open>Malformed ids of deleted rows are skipped.\<close>

definition get_deleted_chunk_ids :: "'b store_ext \<Rightarrow> string \<Rightarrow> chunk_metadata list \<Rightarrow> string list" where
  "get_deleted_chunk_ids E tid rows =
     List.map_filter (\<lambda>m. uuid_parse E (m_chunk_id m)) (filter (\<lambda>m. m_tenant_id m = tid \<and> m_status m = Deleted) rows)"

section \<open>Sweeps\<close>

text \<open>A loop over ids with a guarded statement; the hits are counted.\<close>

fun sweep_loop ::
  "(string \<Rightarrow> chunk_metadata list \<Rightarrow> bool \<times> chunk_metadata list) \<Rightarrow> string list \<Rightarrow> nat \<Rightarrow> chunk_metadata list
     \<Rightarrow> nat \<times> chunk_metadata list" where
  "sweep_loop f [] n rows = (n, rows)"
| "sweep_loop f (i # is) n rows =
     (let (hit, rows') = f i rows in sweep_loop f is (if hit then n + 1 else n) rows')"

definition expiry_sweep ::
  "'b store_ext \<Rightarrow> string \<Rightarrow> bool \<Rightarrow> i64 \<Rightarrow> 'b live_store \<Rightarrow> memd_error + (nat \<times> 'b live_store)" where
  "expiry_sweep E tid hybrid now s =
     (case list_expired_before E tid now (db (store s)) of
        Inl e \<Rightarrow> Inl e
      | Inr ids \<Rightarrow>
          if ids = [] then Inr (0, s)
          else let (n, rows) = sweep_loop (\<lambda>i. mark_expired_if_final tid i now) ids 0 (db (store s))
               in Inr (n, (if n > 0 \<and> hybrid then bump else id) (set_db rows s)))"

definition saturating_sub :: "i64 \<Rightarrow> i64 \<Rightarrow> i64" where
  "saturating_sub a b = word_of_int (max (- (2 ^ 63)) (min (2 ^ 63 - 1) (sint a - sint b)))"

definition history_promotion ::
  "'b store_ext \<Rightarrow> string \<Rightarrow> i64 \<Rightarrow> bool \<Rightarrow> i64 \<Rightarrow> 'b live_store \<Rightarrow> memd_error + (nat \<times> 'b live_store)" where
  "history_promotion E tid age_threshold hybrid now s =
     (let cutoff = saturating_sub now age_threshold in
      case list_stale_superseded E tid cutoff (db (store s)) of
        Inl e \<Rightarrow> Inl e
      | Inr ids \<Rightarrow>
          if ids = [] then Inr (0, s)
          else let (n, rows) = sweep_loop (\<lambda>i. promote_to_history_if_stale tid i cutoff now) ids 0 (db (store s))
               in Inr (n, (if n > 0 \<and> hybrid then bump else id) (set_db rows s)))"

record compaction_config =
  expiry_sweep_enabled :: bool
  history_promotion_enabled :: bool
  history_promotion_age_ms :: i64

text \<open>
  The overlay part of a compaction cycle: both sweeps (a failed one is skipped) at the times
  \<open>t1\<close> and \<open>t2\<close>, the ids to exclude from the rebuild, and one version bump at the end when a
  sweep changed a row. Rebuild, merge and cache invalidation in between do not touch the table.
\<close>

definition compaction_overlay ::
  "'b store_ext \<Rightarrow> compaction_config \<Rightarrow> string \<Rightarrow> bool \<Rightarrow> i64 \<Rightarrow> i64 \<Rightarrow> 'b live_store
     \<Rightarrow> memd_error + ((nat \<times> nat \<times> string set) \<times> 'b live_store)" where
  "compaction_overlay E cc tid hybrid t1 t2 s =
     (let (expired_count, s1) =
            (if expiry_sweep_enabled cc
             then case expiry_sweep E tid False t1 s of Inl e \<Rightarrow> (0, s) | Inr r \<Rightarrow> r else (0, s));
          (promoted_count, s2) =
            (if history_promotion_enabled cc
             then case history_promotion E tid (history_promotion_age_ms cc) False t2 s1 of
                    Inl e \<Rightarrow> (0, s1) | Inr r \<Rightarrow> r
             else (0, s1));
          deleted = get_deleted_chunk_ids E tid (db (store s2))
      in case list_lifecycle_hidden E tid (db (store s2)) of
           Inl e \<Rightarrow> Inl e
         | Inr hidden \<Rightarrow>
             Inr ((expired_count, promoted_count, set deleted \<union> set hidden),
                  (if hybrid \<and> (expired_count > 0 \<or> promoted_count > 0) then bump else id) s2))"

section \<open>What the sweeps do to the table\<close>

definition ids_ok :: "'b store_ext \<Rightarrow> chunk_metadata list \<Rightarrow> bool" where
  "ids_ok E rows \<longleftrightarrow> (\<forall>m \<in> set rows. uuid_parse E (m_chunk_id m) = Some (m_chunk_id m))"

lemma those_map_Some: "(\<forall>x \<in> set xs. f x = Some (g x)) \<Longrightarrow> those (map f xs) = Some (map g xs)"
  by (induction xs) simp_all

lemma select_ids_live:
  assumes "\<forall>m \<in> set rows. p m \<longrightarrow> uuid_parse E (m_chunk_id m) = Some (m_chunk_id m)"
  shows "select_ids E p rows = Inr (map m_chunk_id (filter p rows))"
  using assms by (simp add: select_ids_def those_map_Some [of _ _ m_chunk_id])

lemma select_ids_ok: "ids_ok E rows \<Longrightarrow> select_ids E p rows = Inr (map m_chunk_id (filter p rows))"
  by (simp add: select_ids_live ids_ok_def)

text \<open>The sweeps read ids of live rows only.\<close>

definition live_ids_ok :: "'b store_ext \<Rightarrow> string \<Rightarrow> chunk_metadata list \<Rightarrow> bool" where
  "live_ids_ok E tid rows \<longleftrightarrow> (\<forall>m \<in> live_rows tid rows. uuid_parse E (m_chunk_id m) = Some (m_chunk_id m))"

lemma ids_ok_live: "ids_ok E rows \<Longrightarrow> live_ids_ok E tid rows"
  by (auto simp: ids_ok_def live_ids_ok_def live_rows_def)

text \<open>
  A guarded loop over ids, on a table with unique ids: the rows that satisfy the guard and
  whose id is in the list are changed, once each.
\<close>

lemma sweep_loop_exact:
  assumes ok: "distinct (map m_chunk_id rows)" and dist: "distinct is"
    and f: "\<And>i rows. f i rows = (let (n, rows') = update_where (\<lambda>m. key_is tid i m \<and> p m) g rows in (n = 1, rows'))"
    and key: "\<And>m. m_chunk_id (g m) = m_chunk_id m"
  shows "sweep_loop f is n rows =
    (n + length (filter (\<lambda>m. m_tenant_id m = tid \<and> m_chunk_id m \<in> set is \<and> p m) rows),
     map (\<lambda>m. if m_tenant_id m = tid \<and> m_chunk_id m \<in> set is \<and> p m then g m else m) rows)"
  using ok dist
proof (induction "is" arbitrary: n rows)
  case Nil
  show ?case by simp
next
  case (Cons i "is")
  let ?q = "\<lambda>m. key_is tid i m \<and> p m" and ?r = "\<lambda>m. m_tenant_id m = tid \<and> m_chunk_id m \<in> set is \<and> p m"
  let ?u = "\<lambda>m. if ?q m then g m else m"
  have ids: "map m_chunk_id (map ?u rows) = map m_chunk_id rows" using key by simp
  have le: "length (filter ?q rows) \<le> 1"
  proof -
    have "set (map m_chunk_id (filter ?q rows)) \<subseteq> {i}" by (auto simp: key_is_def)
    moreover have "distinct (map m_chunk_id (filter ?q rows))" using Cons.prems(1) by (rule distinct_map_filter)
    ultimately show ?thesis
      using card_mono [of "{i}" "set (map m_chunk_id (filter ?q rows))"] distinct_card [of "map m_chunk_id (filter ?q rows)"]
      by simp
  qed
  have disj: "\<not> (?q m \<and> ?r m)" for m using Cons.prems(2) by (auto simp: key_is_def)
  have gr: "?r (?u m) = ?r m" for m using disj [of m] key [of m] Cons.prems(2) by (auto simp: key_is_def)
  have count: "length (filter (\<lambda>m. m_tenant_id m = tid \<and> m_chunk_id m \<in> set (i # is) \<and> p m) rows) =
      length (filter ?q rows) + length (filter ?r rows)"
    using disj by (induction rows) (auto simp: key_is_def)
  have both: "map (\<lambda>m. if ?r m then g m else m) (map ?u rows) =
      map (\<lambda>m. if m_tenant_id m = tid \<and> m_chunk_id m \<in> set (i # is) \<and> p m then g m else m) rows"
    using gr disj by (auto simp: key_is_def)
  have "filter ?r (map ?u rows) = map ?u (filter ?r rows)" by (simp add: filter_map o_def gr)
  then have "length (filter ?r (map ?u rows)) = length (filter ?r rows)" by simp
  moreover have "(if length (filter ?q rows) = 1 then n + 1 else n) = n + length (filter ?q rows)"
    using le by (auto simp: le_Suc_eq)
  moreover have "sweep_loop f (i # is) n rows =
      sweep_loop f is (if length (filter ?q rows) = 1 then n + 1 else n) (map ?u rows)"
    by (simp add: f update_where_def)
  moreover have "distinct (map m_chunk_id (map ?u rows))" using Cons.prems(1) by (simp only: ids)
  moreover have "distinct is" using Cons.prems(2) by simp
  ultimately show ?case
    using Cons.IH [of "map ?u rows" "n + length (filter ?q rows)"] unfolding both [symmetric] count
    by (simp only: add.assoc)
qed

definition expire_step :: "string \<Rightarrow> i64 \<Rightarrow> chunk_metadata \<Rightarrow> chunk_metadata" where
  "expire_step tid now m = (if m_tenant_id m = tid \<and> expirable now m then expire_row now m else m)"

definition history_step :: "string \<Rightarrow> i64 \<Rightarrow> i64 \<Rightarrow> chunk_metadata \<Rightarrow> chunk_metadata" where
  "history_step tid cutoff now m = (if m_tenant_id m = tid \<and> stale cutoff m then history_row now m else m)"

lemma row_ids: "m_chunk_id (expire_row now m) = m_chunk_id m" "m_chunk_id (history_row now m) = m_chunk_id m"
  by (simp_all add: expire_row_def history_row_def)

lemma sweep_all:
  assumes ok: "distinct (map m_chunk_id rows)"
    and f: "\<And>i rows. f i rows = (let (n, rows') = update_where (\<lambda>m. key_is tid i m \<and> p m) g rows in (n = 1, rows'))"
    and key: "\<And>m. m_chunk_id (g m) = m_chunk_id m"
    and sub: "\<And>m. p m \<Longrightarrow> q m"
    and ids: "ids = map m_chunk_id (filter (\<lambda>m. m_tenant_id m = tid \<and> q m) rows)"
  shows "sweep_loop f ids 0 rows =
    (length (filter (\<lambda>m. m_tenant_id m = tid \<and> p m) rows),
     map (\<lambda>m. if m_tenant_id m = tid \<and> p m then g m else m) rows)"
proof -
  have d: "distinct ids" unfolding ids using ok by (rule distinct_map_filter)
  have mem: "m_tenant_id m = tid \<and> m_chunk_id m \<in> set ids \<and> p m \<longleftrightarrow> m_tenant_id m = tid \<and> p m"
    if "m \<in> set rows" for m using that sub by (auto simp: ids)
  then have "filter (\<lambda>m. m_tenant_id m = tid \<and> m_chunk_id m \<in> set ids \<and> p m) rows =
      filter (\<lambda>m. m_tenant_id m = tid \<and> p m) rows"
    by (intro filter_cong) auto
  moreover have "map (\<lambda>m. if m_tenant_id m = tid \<and> m_chunk_id m \<in> set ids \<and> p m then g m else m) rows =
      map (\<lambda>m. if m_tenant_id m = tid \<and> p m then g m else m) rows"
    using mem by (intro map_cong refl) auto
  ultimately show ?thesis unfolding sweep_loop_exact [where f = f and g = g and p = p, OF ok d f key] by simp
qed

lemma no_hits: "filter p rows = [] \<Longrightarrow> map (\<lambda>m. if p m then g m else m) rows = rows"
  by (auto simp: filter_empty_conv intro: map_idI)

lemma expiry_sweep_exact:
  fixes now :: i64 and tid :: string
  assumes "db_ok (db (store s))" and "live_ids_ok E tid (db (store s))"
  defines "n \<equiv> length (filter (\<lambda>m. m_tenant_id m = tid \<and> expirable now m) (db (store s)))"
  shows "expiry_sweep E tid hybrid now s =
    Inr (n, (if n > 0 \<and> hybrid then bump else id) (set_db (map (expire_step tid now) (db (store s))) s))"
proof -
  let ?rows = "db (store s)"
  let ?q = "\<lambda>m. past_expiry now m \<and> m_status m \<notin> {Candidate, Deleted, Expired, Superseded, ErrorStatus}"
  define ids where "ids = map m_chunk_id (filter (\<lambda>m. m_tenant_id m = tid \<and> ?q m) ?rows)"
  have sel: "list_expired_before E tid now ?rows = Inr ids"
    unfolding list_expired_before_def ids_def
    using assms(2) by (intro select_ids_live) (auto simp: live_ids_ok_def live_rows_def)
  have loop: "sweep_loop (\<lambda>i. mark_expired_if_final tid i now) ids 0 ?rows = (n, map (expire_step tid now) ?rows)"
    unfolding n_def expire_step_def
    by (rule sweep_all [where q = ?q, OF _ _ _ _ ids_def])
      (use assms(1) in \<open>auto simp: db_ok_def mark_expired_if_final_def expirable_def row_ids\<close>)
  show ?thesis
  proof (cases "ids = []")
    case True
    with loop have "n = 0" "map (expire_step tid now) ?rows = ?rows" by simp_all
    with True sel show ?thesis by (simp add: expiry_sweep_def set_db_def)
  next
    case False
    with sel loop show ?thesis by (simp add: expiry_sweep_def)
  qed
qed

lemma history_promotion_exact:
  fixes now age :: i64 and tid :: string
  assumes "db_ok (db (store s))" and "live_ids_ok E tid (db (store s))"
  defines "cutoff \<equiv> saturating_sub now age"
  defines "n \<equiv> length (filter (\<lambda>m. m_tenant_id m = tid \<and> stale cutoff m) (db (store s)))"
  shows "history_promotion E tid age hybrid now s =
    Inr (n, (if n > 0 \<and> hybrid then bump else id) (set_db (map (history_step tid cutoff now) (db (store s))) s))"
proof -
  let ?rows = "db (store s)"
  define ids where "ids = map m_chunk_id (filter (\<lambda>m. m_tenant_id m = tid \<and> stale cutoff m) ?rows)"
  have sel: "list_stale_superseded E tid cutoff ?rows = Inr ids"
    unfolding list_stale_superseded_def ids_def
    using assms(2) by (intro select_ids_live) (auto simp: live_ids_ok_def live_rows_def stale_def)
  have loop: "sweep_loop (\<lambda>i. promote_to_history_if_stale tid i cutoff now) ids 0 ?rows =
      (n, map (history_step tid cutoff now) ?rows)"
    unfolding n_def history_step_def
    by (rule sweep_all [OF _ _ _ _ ids_def])
      (use assms(1) in \<open>auto simp: db_ok_def promote_to_history_if_stale_def row_ids\<close>)
  show ?thesis
  proof (cases "ids = []")
    case True
    with loop have "n = 0" "map (history_step tid cutoff now) ?rows = ?rows" by simp_all
    with True sel show ?thesis by (simp add: history_promotion_def set_db_def cutoff_def [symmetric])
  next
    case False
    with sel loop show ?thesis by (simp add: history_promotion_def cutoff_def [symmetric])
  qed
qed

section \<open>The sweeps as overlay updates\<close>

lemma expire_step_overlay: "overlay (expire_step tid now) rows"
  unfolding expire_step_def
  by (rule overlay_where)
    (simp_all add: expirable_def past_expiry_def expire_row_def strip_coords_def split: option.split)

lemma history_step_overlay: "overlay (history_step tid cutoff now) rows"
  unfolding history_step_def
  by (rule overlay_where) (simp_all add: stale_def history_row_def strip_coords_def)

lemma steps_keep_links: "keeps_links (expire_step tid now)" "keeps_links (history_step tid cutoff now)"
  by (simp_all add: keeps_links_def expire_step_def history_step_def expirable_def expire_row_def history_row_def)

lemma live_step:
  assumes "live_inv E cfg pl k used rs st" and "overlay f (db st)" and "keeps_links f"
  shows "live_inv E cfg pl k used rs (st\<lparr>db := map f (db st)\<rparr>)"
  using live_overlay [OF assms(1,2) keeps_links_ok [OF assms(3)]] assms(1) by (simp add: live_inv_def)

lemma step_ids [simp]:
  "m_chunk_id (expire_step tid now m) = m_chunk_id m" "m_tenant_id (expire_step tid now m) = m_tenant_id m"
  "m_chunk_id (history_step tid cutoff now m) = m_chunk_id m" "m_tenant_id (history_step tid cutoff now m) = m_tenant_id m"
  by (simp_all add: expire_step_def history_step_def expire_row_def history_row_def)

lemma ids_ok_map: "ids_ok E rows \<Longrightarrow> (\<And>m. m_chunk_id (f m) = m_chunk_id m) \<Longrightarrow> ids_ok E (map f rows)"
  by (simp add: ids_ok_def)

section \<open>A compaction cycle\<close>

definition cycle_step :: "compaction_config \<Rightarrow> string \<Rightarrow> i64 \<times> i64 \<Rightarrow> chunk_metadata \<Rightarrow> chunk_metadata" where
  "cycle_step cc tid ts m =
     (let m1 = (if expiry_sweep_enabled cc then expire_step tid (fst ts) m else m)
      in if history_promotion_enabled cc
         then history_step tid (saturating_sub (snd ts) (history_promotion_age_ms cc)) (snd ts) m1 else m1)"

definition hidden_row :: "string \<Rightarrow> chunk_metadata \<Rightarrow> bool" where
  "hidden_row tid m \<longleftrightarrow>
     m_tenant_id m = tid
     \<and> (m_status m \<in> {Deleted, Candidate, Superseded, Expired, ErrorStatus} \<or> tier (m_lifecycle m) = History)"

lemma map_filter_ids: "ids_ok E rows \<Longrightarrow> List.map_filter (\<lambda>m. uuid_parse E (m_chunk_id m)) (filter p rows) =
    map m_chunk_id (filter p rows)"
  by (induction rows) (simp_all add: ids_ok_def map_filter_simps)

lemma cycle_step_id [simp]: "m_chunk_id (cycle_step cc tid ts m) = m_chunk_id m" "m_tenant_id (cycle_step cc tid ts m) = m_tenant_id m"
  by (simp_all add: cycle_step_def Let_def)

lemma compaction_overlay_exact:
  assumes ok: "db_ok (db (store s))" and ids: "ids_ok E (db (store s))"
  shows "\<exists>n k s'. compaction_overlay E cc tid hybrid t1 t2 s =
        Inr ((n, k, m_chunk_id ` {m \<in> set (db (store s')). hidden_row tid m}), s')
      \<and> store s' = (store s)\<lparr>db := map (cycle_step cc tid (t1, t2)) (db (store s))\<rparr>
      \<and> version s' = (if hybrid \<and> (n > 0 \<or> k > 0) then map_option (\<lambda>v. v + 1) (version s) else version s)"
proof -
  define f1 where "f1 = (if expiry_sweep_enabled cc then expire_step tid t1 else id)"
  define f2 where "f2 = (if history_promotion_enabled cc
      then history_step tid (saturating_sub t2 (history_promotion_age_ms cc)) t2 else id)"
  define s1 where "s1 = set_db (map f1 (db (store s))) s"
  define s2 where "s2 = set_db (map f2 (db (store s1))) s1"
  have o1: "db_ok (db (store s1))" "ids_ok E (db (store s1))"
    using ok ids overlay_db_ok [OF expire_step_overlay [of tid t1]] by (auto simp: s1_def f1_def set_db_def ids_ok_map)
  have o2: "ids_ok E (db (store s2))"
    using o1(2) by (auto simp: s2_def f2_def set_db_def ids_ok_map)
  obtain n where n: "(if expiry_sweep_enabled cc
      then case expiry_sweep E tid False t1 s of Inl e \<Rightarrow> (0, s) | Inr r \<Rightarrow> r else (0, s)) = (n, s1)"
    using expiry_sweep_exact [OF ok ids_ok_live [OF ids], of tid False t1]
    by (cases "expiry_sweep_enabled cc") (simp_all add: s1_def f1_def set_db_def)
  obtain k where k: "(if history_promotion_enabled cc
      then case history_promotion E tid (history_promotion_age_ms cc) False t2 s1 of Inl e \<Rightarrow> (0, s1) | Inr r \<Rightarrow> r
      else (0, s1)) = (k, s2)"
    using history_promotion_exact [OF o1(1) ids_ok_live [OF o1(2)], of tid "history_promotion_age_ms cc" False t2]
    by (cases "history_promotion_enabled cc") (simp_all add: s2_def f2_def set_db_def)
  have "set (get_deleted_chunk_ids E tid (db (store s2))) =
      m_chunk_id ` {m \<in> set (db (store s2)). m_tenant_id m = tid \<and> m_status m = Deleted}"
    using map_filter_ids [OF o2] by (simp add: get_deleted_chunk_ids_def)
  moreover obtain hidden where hid: "list_lifecycle_hidden E tid (db (store s2)) = Inr hidden"
    "set hidden = m_chunk_id ` {m \<in> set (db (store s2)). m_tenant_id m = tid
        \<and> (m_status m \<in> {Candidate, Superseded, Expired, ErrorStatus} \<or> tier (m_lifecycle m) = History)}"
    using select_ids_ok [OF o2] by (simp add: list_lifecycle_hidden_def)
  ultimately have "set (get_deleted_chunk_ids E tid (db (store s2))) \<union> set hidden =
      m_chunk_id ` {m \<in> set (db (store s2)). hidden_row tid m}"
    by (auto simp: hidden_row_def)
  then have "compaction_overlay E cc tid hybrid t1 t2 s =
      Inr ((n, k, m_chunk_id ` {m \<in> set (db (store s2)). hidden_row tid m}),
           (if hybrid \<and> (n > 0 \<or> k > 0) then bump else id) s2)"
    using n k hid(1) by (simp add: compaction_overlay_def)
  moreover have "map f2 (map f1 (db (store s))) = map (cycle_step cc tid (t1, t2)) (db (store s))"
    by (simp add: f1_def f2_def cycle_step_def)
  then have "store s2 = (store s)\<lparr>db := map (cycle_step cc tid (t1, t2)) (db (store s))\<rparr>" "version s2 = version s"
    by (simp_all add: s2_def s1_def set_db_def)
  ultimately show ?thesis
    by - (rule exI [of _ n], rule exI [of _ k],
        rule exI [of _ "(if hybrid \<and> (n > 0 \<or> k > 0) then bump else id) s2"], auto simp: bump_def)
qed

section \<open>Sequences of cycles\<close>

fun run_cycles ::
  "'b store_ext \<Rightarrow> compaction_config \<Rightarrow> string \<Rightarrow> bool \<Rightarrow> (i64 \<times> i64) list \<Rightarrow> 'b live_store
     \<Rightarrow> memd_error + (string set \<times> 'b live_store)" where
  "run_cycles E cc tid hybrid [] s = Inr ({}, s)"
| "run_cycles E cc tid hybrid (t # ts) s =
     (case compaction_overlay E cc tid hybrid (fst t) (snd t) s of
        Inl e \<Rightarrow> Inl e
      | Inr ((_, _, excluded), s') \<Rightarrow>
          if ts = [] then Inr (excluded, s') else run_cycles E cc tid hybrid ts s')"

lemma overlay_comp: "overlay f rows \<Longrightarrow> overlay g (map f rows) \<Longrightarrow> overlay (\<lambda>m. g (f m)) rows"
  by (simp add: overlay_def)

lemma overlay_if: "overlay f rows \<Longrightarrow> overlay (\<lambda>m. if b then f m else m) rows"
  by (simp add: overlay_def)

lemma cycle_overlay: "overlay (cycle_step cc tid t) rows"
  unfolding cycle_step_def Let_def
  by (rule overlay_comp [where f = "\<lambda>m. if expiry_sweep_enabled cc then expire_step tid (fst t) m else m"];
      rule overlay_if; rule expire_step_overlay history_step_overlay)

lemma run_cycles_exact:
  assumes "db_ok (db (store s))" and "ids_ok E (db (store s))" and "ts \<noteq> []"
  shows "\<exists>s'. run_cycles E cc tid hybrid ts s =
        Inr (m_chunk_id ` {m \<in> set (db (store s')). hidden_row tid m}, s')
      \<and> db (store s') = map (fold (cycle_step cc tid) ts) (db (store s))"
  using assms
proof (induction ts arbitrary: s)
  case (Cons t ts)
  obtain n k s1 where c: "compaction_overlay E cc tid hybrid (fst t) (snd t) s =
        Inr ((n, k, m_chunk_id ` {m \<in> set (db (store s1)). hidden_row tid m}), s1)"
    "store s1 = (store s)\<lparr>db := map (cycle_step cc tid t) (db (store s))\<rparr>"
    using compaction_overlay_exact [OF Cons.prems(1,2), of cc tid hybrid "fst t" "snd t"] by auto
  show ?case
  proof (cases "ts = []")
    case True
    with c show ?thesis by (intro exI [of _ s1]) simp
  next
    case False
    have "db_ok (db (store s1))" "ids_ok E (db (store s1))"
      using Cons.prems overlay_db_ok [OF cycle_overlay] by (simp_all add: c(2) ids_ok_map)
    from Cons.IH [OF this False] show ?thesis using False c by (auto simp: comp_def)
  qed
qed simp

text \<open>
  One row through the cycles: a final row past its expiry is expired, an expired row goes to
  the history tier once it is old enough and stays there.
\<close>

definition expired_at :: "int \<Rightarrow> chunk_metadata \<Rightarrow> bool" where
  "expired_at t m \<longleftrightarrow>
     m_status m = Expired \<and> (tier (m_lifecycle m) = History \<or> sint (lifecycle_updated_at_ms (m_lifecycle m)) \<le> t)"

definition waiting :: "chunk_metadata \<Rightarrow> chunk_metadata \<Rightarrow> bool" where
  "waiting m0 m \<longleftrightarrow> m_status m = Final \<and> expires_at_ms (m_lifecycle m) = expires_at_ms (m_lifecycle m0)"

lemma cycle_waiting:
  assumes "waiting m0 m \<or> expired_at t m" and "sint (fst c) \<le> t" and "m_tenant_id m = tid"
  shows "waiting m0 (cycle_step cc tid c m) \<or> expired_at t (cycle_step cc tid c m)"
  using assms
  by (auto simp: waiting_def expired_at_def cycle_step_def expire_step_def history_step_def expirable_def stale_def
      expire_row_def history_row_def Let_def)

lemma cycle_expires:
  assumes "waiting m0 m \<or> expired_at t m" and "sint (fst c) \<le> t" and "m_tenant_id m = tid"
    and "expiry_sweep_enabled cc" and "past_expiry (fst c) m0"
  shows "expired_at t (cycle_step cc tid c m)"
  using assms
  by (auto simp: waiting_def expired_at_def cycle_step_def expire_step_def history_step_def expirable_def stale_def
      past_expiry_def expire_row_def history_row_def Let_def split: option.splits)

lemma cycle_expired_stays: "expired_at t m \<Longrightarrow> m_tenant_id m = tid \<Longrightarrow> expired_at t (cycle_step cc tid c m)"
  by (auto simp: expired_at_def cycle_step_def expire_step_def history_step_def expirable_def stale_def
      expire_row_def history_row_def Let_def)

lemma cycle_history:
  assumes "expired_at t m" and "m_tenant_id m = tid" and "history_promotion_enabled cc"
    and "t < sint (saturating_sub (snd c) (history_promotion_age_ms cc))"
  shows "m_status (cycle_step cc tid c m) = Expired \<and> tier (m_lifecycle (cycle_step cc tid c m)) = History"
  using assms
  by (auto simp: expired_at_def cycle_step_def expire_step_def history_step_def expirable_def stale_def
      expire_row_def history_row_def Let_def)

lemma cycle_history_stays:
  "m_status m = Expired \<and> tier (m_lifecycle m) = History \<Longrightarrow>
     m_status (cycle_step cc tid c m) = Expired \<and> tier (m_lifecycle (cycle_step cc tid c m)) = History"
  by (auto simp: cycle_step_def expire_step_def history_step_def expirable_def stale_def Let_def)

lemma fold_cycle_ids [simp]:
  "m_chunk_id (fold (cycle_step cc tid) ts m) = m_chunk_id m" "m_tenant_id (fold (cycle_step cc tid) ts m) = m_tenant_id m"
  by (induction ts arbitrary: m) simp_all

lemma fold_history_stays:
  "m_status m = Expired \<and> tier (m_lifecycle m) = History \<Longrightarrow>
     m_status (fold (cycle_step cc tid) ts m) = Expired \<and> tier (m_lifecycle (fold (cycle_step cc tid) ts m)) = History"
  using cycle_history_stays by (induction ts arbitrary: m) auto

lemma fold_expired_stays:
  "expired_at t m \<Longrightarrow> m_tenant_id m = tid \<Longrightarrow> expired_at t (fold (cycle_step cc tid) ts m)"
  by (induction ts arbitrary: m) (simp_all add: cycle_expired_stays)

lemma fold_waiting:
  assumes "waiting m0 m \<or> expired_at t m" and "\<forall>c \<in> set ts. sint (fst c) \<le> t" and "m_tenant_id m = tid"
  shows "waiting m0 (fold (cycle_step cc tid) ts m) \<or> expired_at t (fold (cycle_step cc tid) ts m)"
  using assms by (induction ts arbitrary: m) (simp_all add: cycle_waiting)

lemma row_reaches_history:
  assumes "m_status m = Final" and "m_tenant_id m = tid" and "past_expiry (fst c) m"
    and "expiry_sweep_enabled cc" and "history_promotion_enabled cc"
    and "\<forall>b \<in> set xs. sint (fst b) \<le> sint (fst c)"
    and "sint (fst c) < sint (saturating_sub (snd d) (history_promotion_age_ms cc))"
  shows "m_status (fold (cycle_step cc tid) (xs @ c # ys @ d # zs) m) = Expired
     \<and> tier (m_lifecycle (fold (cycle_step cc tid) (xs @ c # ys @ d # zs) m)) = History"
proof -
  let ?t = "sint (fst c)"
  let ?m1 = "fold (cycle_step cc tid) xs m"
  have "waiting m ?m1 \<or> expired_at ?t ?m1"
    using assms(1,2,6) by (intro fold_waiting) (simp_all add: waiting_def)
  then have "expired_at ?t (cycle_step cc tid c ?m1)"
    using assms(2-4) by (intro cycle_expires [of m]) simp_all
  then have "expired_at ?t (fold (cycle_step cc tid) ys (cycle_step cc tid c ?m1))"
    using assms(2) by (intro fold_expired_stays) simp_all
  from cycle_history [OF this _ assms(5,7), of tid] show ?thesis
    using assms(2) by (simp add: fold_history_stays)
qed

end
