(* ===== verification/Wal_Instance.thy ===== *)
theory Wal_Instance
  imports Wal
begin

text \<open>
  A concrete codec and checksum for the log, so that the contract \<open>wal_codec\<close> has an
  instance and the witnesses compute: the documented wire format of \<open>bincode\<close>'s standard
  configuration (variable-length little-endian integers, zig-zag signed integers,
  length-prefixed strings and byte vectors, fields in declaration order) for
  \<open>WalRecord\<close>, and the reflected CRC-32 with polynomial \<open>0xEDB88320\<close>. Nothing in the
  model depends on this choice: every operation takes the codec as an argument.
\<close>

unbundle bit_operations_syntax

section \<open>Variable-length integers\<close>

definition varint :: "nat \<Rightarrow> bytes" where
  "varint u =
     (if u \<le> 250 then [word_of_nat u]
      else if u < 2 ^ 16 then 251 # le_bytes 2 u
      else if u < 2 ^ 32 then 252 # le_bytes 4 u
      else 253 # le_bytes 8 u)"

fun unvarint :: "bytes \<Rightarrow> (nat \<times> bytes) option" where
  "unvarint [] = None"
| "unvarint (b # bs) =
     (let k = (if b = 251 then 2 else if b = 252 then 4 else 8) in
      if unat b \<le> 250 then Some (unat b, bs)
      else if unat b \<le> 253 \<and> k \<le> length bs then Some (le_val (take k bs), drop k bs)
      else None)"

lemma unvarint_varint:
  assumes "u < 2 ^ 64"
  shows "unvarint (varint u @ rest) = Some (u, rest)"
  using assms by (auto simp: varint_def le_val_le_bytes)

section \<open>Strings, byte vectors and timestamps\<close>

definition enc_bytes :: "bytes \<Rightarrow> bytes" where
  "enc_bytes bs = varint (length bs) @ bs"

definition dec_bytes :: "bytes \<Rightarrow> (bytes \<times> bytes) option" where
  "dec_bytes bs =
     (case unvarint bs of
        None \<Rightarrow> None
      | Some (n, rest) \<Rightarrow> if length rest < n then None else Some (take n rest, drop n rest))"

definition char_byte :: "char \<Rightarrow> byte" where
  "char_byte c = word_of_nat (of_char c)"

definition byte_char :: "byte \<Rightarrow> char" where
  "byte_char b = char_of (unat b)"

definition zigzag :: "i64 \<Rightarrow> nat" where
  "zigzag w = (if sint w < 0 then nat (- 2 * sint w - 1) else nat (2 * sint w))"

definition unzigzag :: "nat \<Rightarrow> i64" where
  "unzigzag u = (if odd u then word_of_int (- int ((u + 1) div 2)) else word_of_int (int (u div 2)))"

lemma dec_enc_bytes: "length bs < 2 ^ 64 \<Longrightarrow> dec_bytes (enc_bytes bs @ rest) = Some (bs, rest)"
  by (simp add: dec_bytes_def enc_bytes_def unvarint_varint)

lemma byte_char_char_byte [simp]: "byte_char (char_byte c) = c"
proof -
  have "of_char c mod 256 = (of_char c :: nat)" by (simp add: of_char_mod_256)
  then show ?thesis by (simp add: byte_char_def char_byte_def)
qed

lemma byte_char_comp [simp]: "byte_char \<circ> char_byte = id"
  by (rule ext) simp

lemma zigzag_bound: "zigzag w < 2 ^ 64"
  using sint_ge [of w] sint_lt [of w] by (auto simp: zigzag_def)

lemma unzigzag_zigzag: "unzigzag (zigzag w) = w"
proof (cases "sint w < 0")
  case True
  define k where "k = nat (- sint w)"
  have k: "0 < k" "sint w = - int k" using True by (auto simp: k_def)
  then have z: "zigzag w = 2 * k - 1" using True by (auto simp: zigzag_def)
  moreover have "odd (2 * k - 1)" using k(1) by presburger
  moreover have "(2 * k - 1 + 1) div 2 = k" using k(1) by simp
  ultimately have "unzigzag (zigzag w) = word_of_int (sint w)" by (simp add: unzigzag_def k(2))
  then show ?thesis by simp
next
  case False
  define k where "k = nat (sint w)"
  have k: "sint w = int k" using False by (simp add: k_def)
  then have "zigzag w = 2 * k" by (simp add: zigzag_def nat_mult_distrib)
  then have "unzigzag (zigzag w) = word_of_int (sint w)" by (simp add: unzigzag_def k)
  then show ?thesis by simp
qed

section \<open>Records\<close>

fun variant_index :: "wal_record_type \<Rightarrow> nat" where
  "variant_index Add = 0"
| "variant_index Delete = 1"
| "variant_index Checkpoint = 2"
| "variant_index TaskArtifact = 3"

definition variant_of :: "nat \<Rightarrow> wal_record_type option" where
  "variant_of n =
     (if n = 0 then Some Add else if n = 1 then Some Delete
      else if n = 2 then Some Checkpoint else if n = 3 then Some TaskArtifact else None)"

definition std_encode :: "wal_record \<Rightarrow> bytes" where
  "std_encode r =
     varint (variant_index (record_type r))
       @ enc_bytes (map char_byte (rec_tenant_id r))
       @ enc_bytes (map char_byte (rec_chunk_id r))
       @ varint (zigzag (timestamp r))
       @ enc_bytes (payload r)"

definition std_decode :: "bytes \<Rightarrow> wal_record option" where
  "std_decode bs =
     Option.bind (unvarint bs) (\<lambda>(v, bs).
     Option.bind (variant_of v) (\<lambda>t.
     Option.bind (dec_bytes bs) (\<lambda>(tid, bs).
     Option.bind (dec_bytes bs) (\<lambda>(cid, bs).
     Option.bind (unvarint bs) (\<lambda>(ts, bs).
     Option.bind (dec_bytes bs) (\<lambda>(p, bs).
       Some \<lparr>record_type = t, rec_tenant_id = map byte_char tid, rec_chunk_id = map byte_char cid,
             timestamp = unzigzag ts, payload = p\<rparr>))))))"

lemma variant_index_bound [simp]: "variant_index t < 18446744073709551616"
  by (cases t) simp_all

lemma variant_of_index [simp]: "variant_of (variant_index t) = Some t"
  by (cases t) (simp_all add: variant_of_def)

lemma dec_enc_last: "length p < 2 ^ 64 \<Longrightarrow> dec_bytes (enc_bytes p) = Some (p, [])"
  using dec_enc_bytes [of p "[]"] by simp

lemma std_roundtrip:
  assumes "rust_sized r"
  shows "std_decode (std_encode r) = Some r"
proof -
  have "length (rec_tenant_id r) < 2 ^ 64" "length (rec_chunk_id r) < 2 ^ 64" "length (payload r) < 2 ^ 64"
    using assms by (simp_all add: rust_sized_def)
  then show ?thesis
    by (simp add: std_decode_def std_encode_def unvarint_varint dec_enc_bytes dec_enc_last
        zigzag_bound [simplified] unzigzag_zigzag)
qed

section \<open>Checksum\<close>

fun crc_bits :: "nat \<Rightarrow> u32 \<Rightarrow> u32" where
  "crc_bits 0 c = c"
| "crc_bits (Suc n) c =
     crc_bits n (if bit c 0 then drop_bit 1 c XOR 0xEDB88320 else drop_bit 1 c)"

definition crc32_ieee :: "bytes \<Rightarrow> u32" where
  "crc32_ieee bs = NOT (fold (\<lambda>b c. crc_bits 8 (c XOR ucast b)) bs 0xFFFFFFFF)"

definition std_ext :: wal_ext where
  "std_ext = \<lparr>crc32_hash = crc32_ieee, bincode_encode = std_encode, bincode_decode = std_decode\<rparr>"

lemma std_ext_sel [simp]:
  "crc32_hash std_ext = crc32_ieee" "bincode_encode std_ext = std_encode"
  "bincode_decode std_ext = std_decode"
  by (simp_all add: std_ext_def)

interpretation std: wal_codec std_ext
  by unfold_locales (simp add: std_roundtrip)


section \<open>Properties of the log\<close>

lemma std_fits:
  "length (rec_tenant_id r) < 100 \<Longrightarrow> length (rec_chunk_id r) < 100 \<Longrightarrow> length (payload r) < 100 \<Longrightarrow>
     wal_fits std_ext r"
  by (simp add: wal_fits_def rust_sized_def std_encode_def enc_bytes_def varint_def)

lemma std_codec: "rust_sized r \<Longrightarrow> bincode_decode std_ext (bincode_encode std_ext r) = Some r"
  by (simp add: std_roundtrip)

lemma std_encoded_length:
  "length (rec_tenant_id r) < 100 \<Longrightarrow> length (rec_chunk_id r) < 100 \<Longrightarrow> length (payload r) < 100 \<Longrightarrow>
     18 + length (rec_tenant_id r) + length (rec_chunk_id r) + length (payload r)
       \<le> length (encode_to_bytes std_ext r)"
  by (simp add: length_encode_to_bytes std_encode_def enc_bytes_def varint_def WAL_HEADER_SIZE_def)

text \<open>
  C18. Decoding the bytes of an encoded record, whatever follows them in the log, returns
  that record and exactly the number of bytes it took, provided \<open>bincode\<close> round-trips
  records and the encoded payload is shorter than 4 GiB (the width of the length field).
\<close>

theorem wal_decode_encode:
  assumes "\<And>r. rust_sized r \<Longrightarrow> bincode_decode X (bincode_encode X r) = Some r"
    and "wal_fits X r"
  shows "decode_from_bytes X (encode_to_bytes X r @ rest) = Inr (r, length (encode_to_bytes X r))"
  by (rule wal_codec.decode_encode [OF wal_codec.intro [OF assms(1)] assms(2)])

theorem wal_decode_encode_witness:
  "decode_from_bytes std_ext (encode_to_bytes std_ext (add_record ''t1'' ''c1'' 1000 [1, 2, 3]) @ [9])
     = Inr (add_record ''t1'' ''c1'' 1000 [1, 2, 3],
            length (encode_to_bytes std_ext (add_record ''t1'' ''c1'' 1000 [1, 2, 3])))"
  by (rule wal_decode_encode [OF std_codec]) (simp_all add: std_fits record_constructors)

text \<open>
  C19. Crash tolerance of the reader: after any number of complete records and any strict
  prefix of one more (a write cut short anywhere in its header or payload), the reader
  returns exactly the complete records and the offset at which they end.
\<close>

theorem wal_torn_tail_recovered:
  assumes "\<And>r. rust_sized r \<Longrightarrow> bincode_decode X (bincode_encode X r) = Some r"
    and "\<forall>q \<in> set rs. wal_fits X q" and "wal_fits X r" and "n < length (encode_to_bytes X r)"
  shows "read_all_records X (concat (map (encode_to_bytes X) rs) @ take n (encode_to_bytes X r)) =
           (rs, length (concat (map (encode_to_bytes X) rs)))"
  by (rule wal_codec.read_all_torn [OF wal_codec.intro [OF assms(1)] assms(2-4)])

theorem wal_torn_tail_recovered_witness:
  "read_all_records std_ext
     (concat (map (encode_to_bytes std_ext)
        [add_record ''t1'' ''c1'' 1000 [1, 2], delete_record ''t1'' ''c1'' 2000])
      @ take 15 (encode_to_bytes std_ext (checkpoint_record ''t1'' 3000)))
   = ([add_record ''t1'' ''c1'' 1000 [1, 2], delete_record ''t1'' ''c1'' 2000],
      length (concat (map (encode_to_bytes std_ext)
        [add_record ''t1'' ''c1'' 1000 [1, 2], delete_record ''t1'' ''c1'' 2000])))"
proof (rule wal_torn_tail_recovered [OF std_codec])
  have "18 + length ''t1'' \<le> length (encode_to_bytes std_ext (checkpoint_record ''t1'' 3000))"
    using std_encoded_length [of "checkpoint_record ''t1'' 3000"] by (simp add: record_constructors)
  then show "15 < length (encode_to_bytes std_ext (checkpoint_record ''t1'' 3000))" by simp
qed (simp_all add: std_fits record_constructors)


text \<open>
  C27. Recovery replays exactly the records written after the last checkpoint, in order: for
  a log of complete records followed by a torn one, \<open>records_for_recovery\<close> returns what
  follows the last checkpoint, and \<open>find_last_checkpoint\<close> its position; when the log has no
  checkpoint, all complete records are returned.
\<close>

theorem recovery_after_checkpoint:
  assumes "\<And>r. rust_sized r \<Longrightarrow> bincode_decode X (bincode_encode X r) = Some r"
    and "\<forall>q \<in> set rs. wal_fits X q" and "wal_fits X r" and "n < length (encode_to_bytes X r)"
    and "data = concat (map (encode_to_bytes X) rs) @ take n (encode_to_bytes X r)"
  shows "(\<forall>before cp after. rs = before @ cp # after \<and> is_checkpoint cp \<and> (\<forall>q \<in> set after. \<not> is_checkpoint q) \<longrightarrow>
            records_for_recovery X data = after \<and> find_last_checkpoint X data = Some (length before))
       \<and> ((\<forall>q \<in> set rs. \<not> is_checkpoint q) \<longrightarrow>
            records_for_recovery X data = rs \<and> find_last_checkpoint X data = None)"
proof -
  have all: "fst (read_all_records X data) = rs"
    using wal_codec.read_all_torn [OF wal_codec.intro [OF assms(1)] assms(2-4)] assms(5) by simp
  have "rposition is_checkpoint rs = Some (length before)"
    if "rs = before @ cp # after" "is_checkpoint cp" "\<forall>q \<in> set after. \<not> is_checkpoint q" for before cp after
    unfolding that(1) using that(2,3) by (rule rposition_append_hit)
  then show ?thesis
    unfolding records_for_recovery_def find_last_checkpoint_def Let_def all by (auto simp: rposition_None [THEN iffD2])
qed

theorem recovery_after_checkpoint_witness:
  "records_for_recovery std_ext
     (concat (map (encode_to_bytes std_ext)
        ([add_record ''t1'' ''c1'' 1 [1]] @ checkpoint_record ''t1'' 2 # [add_record ''t1'' ''c2'' 3 [2]]))
      @ take 5 (encode_to_bytes std_ext (delete_record ''t1'' ''c2'' 4)))
   = [add_record ''t1'' ''c2'' 3 [2]]"
proof -
  let ?rs = "[add_record ''t1'' ''c1'' 1 [1]] @ checkpoint_record ''t1'' 2 # [add_record ''t1'' ''c2'' 3 [2]]"
  have "18 + length ''t1'' + length ''c2'' \<le> length (encode_to_bytes std_ext (delete_record ''t1'' ''c2'' 4))"
    using std_encoded_length [of "delete_record ''t1'' ''c2'' 4"] by (simp add: record_constructors)
  then have n: "5 < length (encode_to_bytes std_ext (delete_record ''t1'' ''c2'' 4))" by simp
  have fits: "\<forall>q \<in> set ?rs. wal_fits std_ext q" "wal_fits std_ext (delete_record ''t1'' ''c2'' 4)"
    by (simp_all add: std_fits record_constructors)
  have "is_checkpoint (checkpoint_record ''t1'' 2)" "\<forall>q \<in> set [add_record ''t1'' ''c2'' 3 [2]]. \<not> is_checkpoint q"
    by (simp_all add: record_constructors is_checkpoint_def)
  then show ?thesis using recovery_after_checkpoint [OF std_codec fits n refl] by blast
qed

lemma concat_map_prefix:
  assumes "m < length (concat (map f xs))"
  shows "\<exists>i j. i < length xs \<and> j < length (f (xs ! i))
           \<and> take m (concat (map f xs)) = concat (map f (take i xs)) @ take j (f (xs ! i))"
  using assms
proof (induction xs arbitrary: m)
  case Nil
  then show ?case by simp
next
  case (Cons x xs)
  show ?case
  proof (cases "m < length (f x)")
    case True
    then show ?thesis by (intro exI [of _ 0] exI [of _ m]) simp
  next
    case False
    with Cons.prems have "m - length (f x) < length (concat (map f xs))" by simp
    from Cons.IH [OF this] obtain i j where
      "i < length xs" "j < length (f (xs ! i))"
      "take (m - length (f x)) (concat (map f xs)) = concat (map f (take i xs)) @ take j (f (xs ! i))"
      by blast
    with False show ?thesis by (intro exI [of _ "Suc i"] exI [of _ j]) simp
  qed
qed

text \<open>
  A batch append is not atomic: one call writes the records back to back and syncs once,
  so a crash inside the write leaves some prefix of the batch. The reader then returns the
  old records followed by exactly the batch records whose bytes all reached the file.
\<close>

lemma batch_crash_keeps_prefix:
  assumes "\<And>r. rust_sized r \<Longrightarrow> bincode_decode X (bincode_encode X r) = Some r"
    and "\<forall>q \<in> set (rs @ batch). wal_fits X q"
    and "at_end w" and "file_data w = concat (map (encode_to_bytes X) rs)"
    and "m < length (file_data (append_batch X batch w)) - length (file_data w)"
  shows "\<exists>i < length batch.
           fst (read_all_records X (take (length (file_data w) + m) (file_data (append_batch X batch w))))
             = rs @ take i batch"
proof -
  have app: "file_data (append_batch X batch w) = file_data w @ concat (map (encode_to_bytes X) batch)"
    using assms(3) by (rule at_end_append_batch)
  with assms(5) have "m < length (concat (map (encode_to_bytes X) batch))" by simp
  then obtain i j where i: "i < length batch" and j: "j < length (encode_to_bytes X (batch ! i))"
    and cut: "take m (concat (map (encode_to_bytes X) batch)) =
      concat (map (encode_to_bytes X) (take i batch)) @ take j (encode_to_bytes X (batch ! i))"
    using concat_map_prefix by blast
  have fits: "\<forall>q \<in> set (rs @ take i batch). wal_fits X q" "wal_fits X (batch ! i)"
    using assms(2) i by (auto dest: in_set_takeD)
  have "take (length (file_data w) + m) (file_data (append_batch X batch w)) =
      concat (map (encode_to_bytes X) (rs @ take i batch)) @ take j (encode_to_bytes X (batch ! i))"
    by (simp add: app cut assms(4))
  then have "fst (read_all_records X
      (take (length (file_data w) + m) (file_data (append_batch X batch w)))) = rs @ take i batch"
    using wal_codec.read_all_torn [OF wal_codec.intro [OF assms(1)] fits j] by simp
  with i show ?thesis by blast
qed


lemma batch_crash_keeps_prefix_witness:
  "\<exists>i < 2. fst (read_all_records std_ext
       (take (0 + 30) (file_data (append_batch std_ext
          [add_record ''t1'' ''c1'' 1 [1], add_record ''t1'' ''c2'' 2 [2]]
          \<lparr>file_data = [], append_mode = False, cursor = 0, records_written = 0\<rparr>))))
     = [] @ take i [add_record ''t1'' ''c1'' 1 [1], add_record ''t1'' ''c2'' 2 [2]]"
proof -
  let ?w = "\<lparr>file_data = [], append_mode = False, cursor = 0, records_written = 0\<rparr>"
  let ?b = "[add_record ''t1'' ''c1'' 1 [1], add_record ''t1'' ''c2'' 2 [2]]"
  have "at_end ?w" by (simp add: at_end_def)
  then have "file_data (append_batch std_ext ?b ?w) = concat (map (encode_to_bytes std_ext) ?b)"
    using at_end_append_batch(1) [of ?w std_ext ?b] by simp
  then have "30 < length (file_data (append_batch std_ext ?b ?w)) - length (file_data ?w)"
    using std_encoded_length [of "add_record ''t1'' ''c1'' 1 [1]"]
      std_encoded_length [of "add_record ''t1'' ''c2'' 2 [2]"]
    by (simp add: record_constructors)
  from batch_crash_keeps_prefix [OF std_codec _ \<open>at_end ?w\<close> _ this, of "[]"]
  show ?thesis by (simp add: std_fits record_constructors numeral_2_eq_2)
qed

text \<open>
  Round trip through the writer: a log that \<open>open_or_create\<close> opens or creates, with
  complete records on disk, reads back as those records followed by every batch appended
  to it, whether or not the file existed.
\<close>

lemma open_append_read:
  assumes "\<And>r. rust_sized r \<Longrightarrow> bincode_decode X (bincode_encode X r) = Some r"
    and "\<forall>q \<in> set (rs @ batch). wal_fits X q"
    and "open_or_create d = Inr w"
    and "(case d of None \<Rightarrow> [] | Some bs \<Rightarrow> bs) = concat (map (encode_to_bytes X) rs)"
  shows "fst (read_all_records X (file_data (append_batch X batch w))) = rs @ batch"
proof -
  have "file_data w = concat (map (encode_to_bytes X) rs)" and "at_end w"
    using open_or_create_file [OF assms(3)] assms(4) by auto
  then have "file_data (append_batch X batch w) = concat (map (encode_to_bytes X) (rs @ batch))"
    by (simp add: at_end_append_batch)
  then show ?thesis
    using wal_codec.read_all_clean [OF wal_codec.intro [OF assms(1)] assms(2)] by simp
qed

lemma open_append_read_witness:
  "fst (read_all_records std_ext (file_data (append_batch std_ext
      [add_record ''t1'' ''c1'' 1 [1]]
      \<lparr>file_data = [], append_mode = False, cursor = 0, records_written = 0\<rparr>)))
   = [] @ [add_record ''t1'' ''c1'' 1 [1]]"
  by (rule open_append_read [OF std_codec, where d = None])
    (simp_all add: std_fits record_constructors open_or_create_def writer_create_def)

text \<open>A log that does not start with the magic bytes reads as empty.\<close>

lemma decode_bad_magic:
  "WAL_HEADER_SIZE \<le> length bs \<Longrightarrow> take 4 bs \<noteq> WAL_MAGIC \<Longrightarrow>
     decode_from_bytes X bs = Inl (IoErr InvalidData ''invalid WAL magic'')"
  by (simp add: decode_from_bytes_def)

lemma read_all_bad_magic: "take 4 bs \<noteq> WAL_MAGIC \<Longrightarrow> read_all_records X bs = ([], 0)"
  by (cases "WAL_HEADER_SIZE \<le> length bs")
    (simp_all add: read_all_records_def read_all_from.simps [of X bs] decode_bad_magic)

lemma encode_front: "\<exists>more. encode_to_bytes X r = 0x4D # 0x57 # 0x41 # 0x4C # more"
  by (simp add: encode_to_bytes_def WAL_MAGIC_def Let_def)

lemma torn_front_not_magic:
  assumes "1 \<le> n" and "n \<le> 3"
  shows "take 4 (take n (encode_to_bytes X r) @ concat (map (encode_to_bytes X) rs)) \<noteq> WAL_MAGIC"
proof -
  obtain more where e: "encode_to_bytes X r = 0x4D # 0x57 # 0x41 # 0x4C # more"
    using encode_front by blast
  consider "rs = []" | q qs where "rs = q # qs" by (cases rs) auto
  then show ?thesis
  proof cases
    case 1
    have "length (take 4 (take n (encode_to_bytes X r))) < 4" using assms by simp
    with 1 show ?thesis by (metis append_Nil2 concat.simps(1) length_WAL_MAGIC less_irrefl list.map(1))
  next
    case 2
    obtain more' where q: "encode_to_bytes X q = 0x4D # 0x57 # 0x41 # 0x4C # more'"
      using encode_front by blast
    have "n = 1 \<or> n = 2 \<or> n = 3" using assms by arith
    then show ?thesis by (auto simp: 2 e q WAL_MAGIC_def)
  qed
qed

text \<open>
  \<open>truncate\<close> on a writer that \<open>create\<close> returned leaves the cursor where it was, so the
  next append writes behind a hole of zero bytes, and the reader finds no record at all.
\<close>

lemma truncate_created_log_unreadable:
  assumes "writer_create None = Inr w" and "rs \<noteq> []"
  shows "read_all_records X
           (file_data (append_batch X qs (writer_truncate (append_batch X rs w)))) = ([], 0)"
proof -
  let ?n = "length (concat (map (encode_to_bytes X) rs))"
  have w: "w = \<lparr>file_data = [], append_mode = False, cursor = 0, records_written = 0\<rparr>"
    using assms(1) by (simp add: writer_create_def)
  have keep: "\<not> append_mode v \<Longrightarrow> cursor v = length (file_data v) \<Longrightarrow>
      \<not> append_mode (fold (\<lambda>r. file_write_all (encode_to_bytes X r)) rs v) \<and>
      cursor (fold (\<lambda>r. file_write_all (encode_to_bytes X r)) rs v) =
        cursor v + length (concat (map (encode_to_bytes X) rs))" for v rs
    by (induction rs arbitrary: v) (simp_all add: file_write_all_def)
  obtain r rest where rs: "rs = r # rest" using assms(2) by (cases rs) auto
  then have pos: "0 < ?n" by (simp add: length_encode_to_bytes WAL_HEADER_SIZE_def)
  define v where "v = writer_truncate (append_batch X rs w)"
  have v: "file_data v = []" "\<not> append_mode v" "cursor v = ?n"
    using keep [of w rs] assms(2)
    by (simp_all add: v_def writer_truncate_def append_batch_def Let_def w)
  have hole: "\<exists>more. file_data (append_batch X qs v) = replicate ?n 0 @ more
      \<or> file_data (append_batch X qs v) = []"
  proof (cases qs)
    case Nil
    then show ?thesis using v by (simp add: append_batch_def)
  next
    case (Cons q qs')
    let ?v1 = "file_write_all (encode_to_bytes X q) v"
    have v1: "file_data ?v1 = replicate ?n 0 @ encode_to_bytes X q" "\<not> append_mode ?v1"
      "cursor ?v1 = length (file_data ?v1)"
      using v by (simp_all add: file_write_all_def)
    then have "file_data (fold (\<lambda>r. file_write_all (encode_to_bytes X r)) qs' ?v1) =
        file_data ?v1 @ concat (map (encode_to_bytes X) qs')"
      using fold_write_all [of ?v1 X qs'] by (simp add: at_end_def)
    with v1 Cons show ?thesis by (simp add: append_batch_def Let_def)
  qed
  have "take 4 (file_data (append_batch X qs v)) \<noteq> WAL_MAGIC"
    using hole pos by (cases ?n) (auto simp: WAL_MAGIC_def)
  then show ?thesis unfolding v_def by (rule read_all_bad_magic)
qed

lemma truncate_created_log_unreadable_witness:
  "read_all_records std_ext
     (file_data (append_batch std_ext [add_record ''t1'' ''c2'' 2 [2]]
       (writer_truncate (append_batch std_ext [add_record ''t1'' ''c1'' 1 [1]]
          \<lparr>file_data = [], append_mode = False, cursor = 0, records_written = 0\<rparr>)))) = ([], 0)"
  by (rule truncate_created_log_unreadable) (simp_all add: writer_create_def)

lemma replay_records_counts:
  "replay_records H rs st h = Inr (st', h') \<Longrightarrow>
     adds st' + deletes st' + task_artifacts st' + skipped st' + checkpoints st' =
       adds st + deletes st + task_artifacts st + skipped st + checkpoints st + length rs
     \<and> checkpoints st' = checkpoints st + length (filter is_checkpoint rs)"
proof (induction rs arbitrary: st h)
  case Nil
  then show ?case by simp
next
  case (Cons r rs)
  from Cons.prems show ?case
    by (auto simp: is_checkpoint_def dest: Cons.IH split: wal_record_type.splits sum.splits bool.splits)
qed

text \<open>
  Replay accounts for every record: when it succeeds, the records applied and skipped
  add up to the records selected for recovery and no checkpoint was met.
\<close>

lemma replay_accounts_for_every_record:
  assumes "replay X data H h = Inr (st, h')"
  shows "checkpoints st = 0 \<and>
         adds st + deletes st + task_artifacts st + skipped st = length (records_for_recovery X data)"
proof -
  have "filter is_checkpoint (records_for_recovery X data) = []"
    by (auto simp: records_for_recovery_eq filter_empty_conv dest: after_last_checkpoint_none)
  with replay_records_counts [of H "records_for_recovery X data" default_stats h st h'] assms
  show ?thesis by (simp add: replay_def default_stats_def)
qed

lemma replay_accounts_for_every_record_witness:
  "adds (default_stats\<lparr>adds := 1, deletes := 1\<rparr>) + deletes (default_stats\<lparr>adds := 1, deletes := 1\<rparr>)
     + task_artifacts (default_stats\<lparr>adds := 1, deletes := 1\<rparr>) + skipped (default_stats\<lparr>adds := 1, deletes := 1\<rparr>)
   = length (records_for_recovery std_ext
       (concat (map (encode_to_bytes std_ext) [add_record ''t1'' ''c1'' 1 [1], delete_record ''t1'' ''c1'' 2])))"
proof (rule replay_accounts_for_every_record [THEN conjunct2])
  let ?rs = "[add_record ''t1'' ''c1'' 1 [1], delete_record ''t1'' ''c1'' 2]"
  have "\<forall>r \<in> set ?rs. wal_fits std_ext r" by (simp add: std_fits record_constructors)
  then have "records_for_recovery std_ext (concat (map (encode_to_bytes std_ext) ?rs)) = ?rs"
    using std.read_all_clean [of ?rs]
    by (simp add: records_for_recovery_eq after_last_checkpoint_def is_checkpoint_def record_constructors)
  then show "replay std_ext (concat (map (encode_to_bytes std_ext) ?rs)) \<lparr>on_add = \<lambda>h r. Inr h, on_delete = \<lambda>h r. Inr h,
      on_task_artifact = \<lambda>h r. Inr h, chunk_exists = \<lambda>h c. Inr False\<rparr> ()
        = Inr (default_stats\<lparr>adds := 1, deletes := 1\<rparr>, ())"
    by (simp add: replay_def record_constructors default_stats_def)
qed

lemma split_frame:
  "take 4 bs @ take 1 (drop 4 bs) @ take 4 (drop 5 bs) @ take 4 (drop 9 bs) @ take n (drop 13 bs)
     @ drop n (drop 13 bs) = bs"
proof -
  have "take 4 bs @ take 1 (drop 4 bs) = take 5 bs" using take_add [of 4 1 bs] by simp
  moreover have "take 5 bs @ take 4 (drop 5 bs) = take 9 bs" using take_add [of 5 4 bs] by simp
  moreover have "take 9 bs @ take 4 (drop 9 bs) = take 13 bs" using take_add [of 9 4 bs] by simp
  ultimately have "take 4 bs @ take 1 (drop 4 bs) @ take 4 (drop 5 bs) @ take 4 (drop 9 bs) = take 13 bs"
    by (metis append.assoc)
  then show ?thesis by (metis append.assoc append_take_drop_id)
qed

text \<open>
  C26. Integrity of the log: whatever bytes the decoder is given, a record it returns comes
  from a frame with the magic bytes, the type byte of that record, and a payload of the
  announced length whose checksum matches and which \<open>bincode\<close> decodes to the record; the
  number of bytes it reports is the size of that frame.
\<close>

theorem decode_only_intact_frames:
  assumes "decode_from_bytes X bs = Inr (r, c)"
  shows "\<exists>len crc p rest. bs = WAL_MAGIC @ [type_code (record_type r)] @ write_u32 len @ write_u32 crc @ p @ rest
    \<and> length p = unat len \<and> crc32_hash X p = crc \<and> bincode_decode X p = Some r
    \<and> c = WAL_HEADER_SIZE + length p"
proof -
  define len where "len = (word_of_nat (le_val (take 4 (drop 5 bs))) :: u32)"
  define crc where "crc = (word_of_nat (le_val (take 4 (drop 9 bs))) :: u32)"
  define p where "p = take (unat len) (drop 13 bs)"
  have cut: "drop 4 (take 8 (drop 5 bs)) = take 4 (drop 9 bs)" by (simp add: drop_take)
  have fields: "13 \<le> length bs" "take 4 bs = WAL_MAGIC" "from_u8 (bs ! 4) = Some (record_type r)"
    "13 + unat len \<le> length bs" "crc32_hash X p = crc" "bincode_decode X p = Some r" "c = 13 + unat len"
    using assms
    by (auto simp: decode_from_bytes_def Let_def WAL_HEADER_SIZE_def read_u32_def len_def crc_def p_def cut
        split: if_splits option.splits sum.splits)
  have u32: "write_u32 (word_of_nat (le_val xs) :: u32) = xs" if "length xs = 4" for xs
    using that by (rule write_u32_le_val)
  have "bs = take 4 bs @ take 1 (drop 4 bs) @ take 4 (drop 5 bs) @ take 4 (drop 9 bs) @ p @ drop (unat len) (drop 13 bs)"
    unfolding p_def by (rule split_frame [symmetric])
  moreover have "take 1 (drop 4 bs) = [type_code (record_type r)]"
    using fields(1) from_u8_Some [OF fields(3)] by (simp add: take_Suc hd_drop_conv_nth)
  moreover have "take 4 (drop 5 bs) = write_u32 len" "take 4 (drop 9 bs) = write_u32 crc"
    using fields(1) by (simp_all add: len_def crc_def u32)
  ultimately have "bs = WAL_MAGIC @ [type_code (record_type r)] @ write_u32 len @ write_u32 crc @ p
      @ drop (unat len) (drop 13 bs)"
    using fields(2) by simp
  moreover have "length p = unat len" using fields(4) by (simp add: p_def)
  ultimately show ?thesis
    using fields(5-7) unfolding WAL_HEADER_SIZE_def
    by (intro exI [of _ len] exI [of _ crc] exI [of _ p] exI [of _ "drop (unat len) (drop 13 bs)"]) simp
qed

theorem decode_only_intact_frames_witness:
  "\<exists>len crc p rest. encode_to_bytes std_ext (delete_record ''t1'' ''c1'' 2) @ [7] =
      WAL_MAGIC @ [2] @ write_u32 len @ write_u32 crc @ p @ rest \<and> crc32_ieee p = crc"
proof -
  have "wal_fits std_ext (delete_record ''t1'' ''c1'' 2)" by (simp add: std_fits record_constructors)
  from decode_only_intact_frames [OF std.decode_encode [OF this, of "[7]"]] show ?thesis
    by (auto simp: record_constructors)
qed

end
