(* ===== verification/Segment_Instance.thy ===== *)
theory Segment_Instance
  imports Segment Wal_Instance
begin

text \<open>
  The properties of segments and tombstones, for every checksum and every bitmap that meets
  the contract \<open>bitmap\<close>, with a concrete segment environment (the IEEE checksum and lists of
  ordinals) on which they are instantiated.
\<close>

definition std_seg :: "ordinal_list seg_ext" where
  "std_seg = \<lparr>seg_crc = crc32_ieee, meta_encode = (\<lambda>m. [1]), meta_decode = (\<lambda>bs. None), bitmap_ops_of = ol_ops\<rparr>"

lemma std_seg_sel [simp]: "bitmap_ops_of std_seg = ol_ops" "seg_crc std_seg = crc32_ieee"
  by (simp_all add: std_seg_def)

text \<open>Appending a list of chunks to a new segment.\<close>

definition append_all :: "'b seg_ext \<Rightarrow> bytes list \<Rightarrow> seg_writer \<Rightarrow> seg_writer" where
  "append_all E ds w = fold (\<lambda>d w. snd (append_chunk E d w)) ds w"

lemma append_all_holds:
  assumes "writer_holds E w es" and "\<forall>d \<in> set ds. length d < 2 ^ 32"
  shows "writer_holds E (append_all E ds w) (es @ ds)"
    and "w_id (append_all E ds w) = w_id w" and "w_dir (append_all E ds w) = w_dir w"
proof -
  have "writer_holds E (append_all E ds w) (es @ ds) \<and> w_id (append_all E ds w) = w_id w
      \<and> w_dir (append_all E ds w) = w_dir w"
    using assms
  proof (induction ds arbitrary: w es)
    case Nil
    then show ?case by (simp add: append_all_def)
  next
    case (Cons d ds)
    obtain i w' where w': "append_chunk E d w = (i, w')" by fastforce
    then have "w_id w' = w_id w" "w_dir w' = w_dir w" by (auto simp: append_chunk_def Let_def)
    moreover have "writer_holds E w' (es @ [d])"
      using writer_holds_append [OF Cons.prems(1) _ w'] Cons.prems(2) by simp
    ultimately show ?case using Cons.IH [of w' "es @ [d]"] Cons.prems(2) w' by (simp add: append_all_def)
  qed
  then show "writer_holds E (append_all E ds w) (es @ ds)"
    and "w_id (append_all E ds w) = w_id w" and "w_dir (append_all E ds w) = w_dir w" by simp_all
qed

lemma append_all_create:
  assumes "seg_sized ds"
  shows "writer_holds E (append_all E ds (segment_create None sid now)) ds"
    and "w_id (append_all E ds (segment_create None sid now)) = sid"
    and "meta_file (w_dir (append_all E ds (segment_create None sid now))) = None"
    and "tombstone_bin (w_dir (append_all E ds (segment_create None sid now))) = None"
  using append_all_holds [OF writer_holds_create, of ds E None sid now] assms
  by (simp_all add: seg_sized_def segment_create_def)

lemma load_none: "load_or_create B None = Inr \<lparr>bitmap_of = bm_new B, tomb_file = None, dirty = False\<rparr>"
  by (simp add: load_or_create_def)

lemma finalized_reader:
  assumes "writer_holds E w ds" and "seg_sized ds" and "w_id w < 2 ^ 64"
    and "tombstone_bin (w_dir w) = None" and "meta_file (w_dir w) = None"
    and "d \<in> set (finalize_steps E w)" and "meta_file d \<noteq> None"
  obtains r where "reader_open E (dir_name (w_id w)) d = Inr r" and "reader_holds E r ds"
    and "tombstones r = \<lparr>bitmap_of = bm_new (bitmap_ops_of E), tomb_file = None, dirty = False\<rparr>"
    and "r_dir r = d" and "r_id r = w_id w"
proof -
  have "tombstone_bin d = None"
    using assms(4,6) by (auto simp: finalize_steps_def Let_def flush_payload_def)
  then have load: "load_or_create (bitmap_ops_of E) (tombstone_bin d) =
      Inr \<lparr>bitmap_of = bm_new (bitmap_ops_of E), tomb_file = None, dirty = False\<rparr>"
    by (simp add: load_none)
  from reader_open_holds [OF finalize_steps_holds [OF assms(1,6,5,7)] assms(3) load] that
  show ?thesis by blast
qed

section \<open>Properties\<close>

text \<open>
  C17. Round trip and crash safety of a segment: chunks appended to a new segment can be
  read back by ordinal from its directory as soon as the meta file exists, that is after the
  last step of \<open>finalize\<close> and also after a crash between creating and writing the meta file;
  ordinals past the end give nothing. The sizes are those the format can represent.
\<close>

theorem segment_roundtrip:
  assumes "bitmap (bitmap_ops_of E) bits" and "seg_sized ds" and "sid < 2 ^ 64"
    and "d \<in> set (finalize_steps E (append_all E ds (segment_create None sid now)))"
    and "meta_file d \<noteq> None"
  shows "\<exists>r. reader_open E (dir_name sid) d = Inr r \<and> r_id r = sid
    \<and> (\<forall>i. read_chunk E r i = Inr (if unat i < length ds then Some (ds ! unat i) else None))"
proof -
  note w = append_all_create [OF assms(2), of E sid now]
  from w assms(3) have sid: "w_id (append_all E ds (segment_create None sid now)) < 2 ^ 64" by simp
  obtain r where r: "reader_open E (dir_name sid) d = Inr r" "reader_holds E r ds" "r_id r = sid"
    "tombstones r = \<lparr>bitmap_of = bm_new (bitmap_ops_of E), tomb_file = None, dirty = False\<rparr>"
    using finalized_reader [OF w(1) assms(2) sid w(4,3) assms(4,5)] w(2) by metis
  have "\<not> is_deleted (bitmap_ops_of E) (tombstones r) i" for i
    using bitmap.contains_bits [OF assms(1)] bitmap.bits_new [OF assms(1)]
    by (simp add: is_deleted_def r(4))
  then have "read_chunk E r i = Inr (if unat i < length ds then Some (ds ! unat i) else None)" for i
    using read_chunk_holds [OF r(2) assms(2), of i] by auto
  with r show ?thesis by blast
qed

theorem segment_roundtrip_witness:
  "\<exists>r. reader_open std_seg (dir_name 7)
        (snd (finalize std_seg (append_all std_seg [[1, 2], [3]] (segment_create None 7 0)))) = Inr r
     \<and> read_chunk std_seg r 1 = Inr (Some [3]) \<and> read_chunk std_seg r 2 = Inr None"
proof -
  let ?w = "append_all std_seg [[1, 2], [3]] (segment_create None 7 0)"
  have "snd (finalize std_seg ?w) \<in> set (finalize_steps std_seg ?w)"
    "meta_file (snd (finalize std_seg ?w)) \<noteq> None"
    by (simp_all add: finalize_def finalize_steps_def Let_def)
  from segment_roundtrip [OF _ _ _ this, of ol_set] ol.bitmap_axioms
  obtain r where r: "reader_open std_seg (dir_name 7) (snd (finalize std_seg ?w)) = Inr r"
    "\<forall>i. read_chunk std_seg r i = Inr (if unat i < length [[1, 2], [3 :: byte]]
        then Some ([[1, 2], [3]] ! unat i) else None)"
    by (auto simp: seg_sized_def)
  then have "read_chunk std_seg r 1 = Inr (Some [3])" "read_chunk std_seg r 2 = Inr None" by simp_all
  with r(1) show ?thesis by blast
qed

text \<open>
  Deletion is durable and precise: after \<open>mark_deleted\<close> the reader, and a reader opened
  again on the directory as it is on disk, return nothing for that ordinal and exactly what
  was there for every other one.
\<close>

lemma delete_survives_reopen:
  assumes "bitmap (bitmap_ops_of E) bits" and "reader_open E (dir_name sid) d = Inr r" and "sid < 2 ^ 64"
    and "dir_holds E d ds" and "seg_sized ds"
  shows "\<exists>r'. reader_open E (dir_name sid) (r_dir (reader_mark_deleted E i r)) = Inr r'
    \<and> (\<forall>j. read_chunk E r' j = (if j = i then Inr None else read_chunk E r j)
         \<and> read_chunk E (reader_mark_deleted E i r) j = read_chunk E r' j)"
proof -
  let ?B = "bitmap_ops_of E" and ?q = "reader_mark_deleted E i r"
  note law = assms(1)
  obtain ts where load: "load_or_create ?B (tombstone_bin d) = Inr ts"
    using assms(2) by (auto simp: reader_open_def split: sum.splits)
  have r: "reader_holds E r ds" "tombstones r = ts" "r_dir r = d"
    using reader_open_holds [OF assms(4,3) load] assms(2) by auto
  let ?ts = "persist ?B (ts_mark_deleted ?B i ts)"
  have "ts_synced ?B (ts_mark_deleted ?B i ts)" by (simp add: ts_synced_def ts_mark_deleted_def)
  then have reload: "load_or_create ?B (tomb_file ?ts) = Inr ?ts"
    by (intro bitmap.reload_clean [OF law] bitmap.persist_synced [OF law] bitmap.persist_clean [OF law])
  have q: "r_dir ?q = d\<lparr>tombstone_bin := tomb_file ?ts\<rparr>" "tombstones ?q = ?ts" "reader_holds E ?q ds"
    using r reader_holds_mark [of E i r ds] by (simp_all add: reader_mark_deleted_def Let_def)
  have "dir_holds E (r_dir ?q) ds" using assms(4) by (simp add: q(1) dir_holds_def)
  from reader_open_holds [OF this assms(3)] reload obtain r' where
    r': "reader_open E (dir_name sid) (r_dir ?q) = Inr r'" "reader_holds E r' ds" "tombstones r' = ?ts"
    by (auto simp: q(1))
  have "is_deleted ?B ?ts j \<longleftrightarrow> i = j \<or> is_deleted ?B ts j" for j
    by (simp add: bitmap.persist_deleted [OF law] bitmap.mark_then_deleted [OF law])
  then have "read_chunk E r' j = (if j = i then Inr None else read_chunk E r j)
      \<and> read_chunk E ?q j = read_chunk E r' j" for j
    using read_chunk_holds [OF r'(2) assms(5), of j] read_chunk_holds [OF r(1) assms(5), of j]
      read_chunk_holds [OF q(3) assms(5), of j] by (auto simp: r'(3) r(2) q(2))
  with r'(1) show ?thesis by blast
qed

lemma delete_survives_reopen_witness:
  "\<exists>r r'. reader_open std_seg (dir_name 1) (snd (finalize std_seg (append_all std_seg [[1], [2]] (segment_create None 1 0)))) = Inr r
     \<and> reader_open std_seg (dir_name 1) (r_dir (reader_mark_deleted std_seg 0 r)) = Inr r'
     \<and> read_chunk std_seg r 0 = Inr (Some [1])
     \<and> read_chunk std_seg r' 0 = Inr None \<and> read_chunk std_seg r' 1 = Inr (Some [2])"
proof -
  let ?w = "append_all std_seg [[1], [2]] (segment_create None 1 0)"
  let ?d = "snd (finalize std_seg ?w)"
  have sized: "seg_sized [[1], [2 :: byte]]" by (simp add: seg_sized_def)
  note w = append_all_create [OF sized, of std_seg 1 0]
  have holds: "dir_holds std_seg ?d [[1], [2]]" using finalize_dir_holds [OF w(1)] by simp
  have "tombstone_bin ?d = None" using finalize_dir_holds [OF w(1)] w(4) by simp
  then have "load_or_create (bitmap_ops_of std_seg) (tombstone_bin ?d) =
      Inr \<lparr>bitmap_of = ol_new, tomb_file = None, dirty = False\<rparr>" by (simp add: load_none)
  from reader_open_holds [OF holds _ this, of 1] obtain r where
    r: "reader_open std_seg (dir_name 1) ?d = Inr r" "reader_holds std_seg r [[1], [2]]"
      "tombstones r = \<lparr>bitmap_of = ol_new, tomb_file = None, dirty = False\<rparr>" by auto
  have reads: "read_chunk std_seg r 0 = Inr (Some [1])" "read_chunk std_seg r 1 = Inr (Some [2])"
    using read_chunk_holds [OF r(2) sized] by (simp_all add: is_deleted_def r(3) ol_member_def)
  from delete_survives_reopen [OF _ r(1) _ holds sized, of ol_set 0] ol.bitmap_axioms obtain r' where
    "reader_open std_seg (dir_name 1) (r_dir (reader_mark_deleted std_seg 0 r)) = Inr r'"
    "read_chunk std_seg r' 0 = Inr None" "read_chunk std_seg r' 1 = read_chunk std_seg r 1" by auto
  with r(1) reads show ?thesis by auto
qed

text \<open>
  Integrity: whatever the files of a segment hold, a chunk that \<open>read_chunk\<close> returns lies
  within the payload file at the offset and length of its index record and has the checksum
  recorded there, and its ordinal is not tombstoned. Anything else is an error or nothing.
\<close>

lemma read_chunk_integrity:
  assumes "read_chunk E r i = Inr (Some bs)"
  shows "unat i < length (r_index r) \<and> \<not> is_deleted (bitmap_ops_of E) (tombstones r) i
    \<and> (let e = r_index r ! unat i in
        unat (idx_offset e) + unat (idx_length e) \<le> length (payload_mmap r)
        \<and> bs = take (unat (idx_length e)) (drop (unat (idx_offset e)) (payload_mmap r))
        \<and> length bs = unat (idx_length e) \<and> seg_crc E bs = idx_crc32 e)"
  using assms by (auto simp: read_chunk_def Let_def split: if_splits)

lemma read_chunk_integrity_witness:
  "let r = \<lparr>r_id = 1, r_dir = \<lparr>payload_bin = [9], payload_idx = None, meta_file = None, tombstone_bin = None\<rparr>,
            payload_mmap = [9], r_index = [\<lparr>idx_offset = 0, idx_length = 1, idx_crc32 = crc32_ieee [9]\<rparr>],
            tombstones = \<lparr>bitmap_of = ol_new, tomb_file = None, dirty = False\<rparr>\<rparr>
   in seg_crc std_seg [9] = idx_crc32 (r_index r ! 0)"
  using read_chunk_integrity [of std_seg
      "\<lparr>r_id = 1, r_dir = \<lparr>payload_bin = [9], payload_idx = None, meta_file = None, tombstone_bin = None\<rparr>,
        payload_mmap = [9], r_index = [\<lparr>idx_offset = 0, idx_length = 1, idx_crc32 = crc32_ieee [9]\<rparr>],
        tombstones = \<lparr>bitmap_of = ol_new, tomb_file = None, dirty = False\<rparr>\<rparr>" 0 "[9]"]
  by (simp add: read_chunk_def is_deleted_def ol_member_def)

end
