(* ===== verification/Segment_Rewrite.thy ===== *)
theory Segment_Rewrite
  imports Tenant_Serving
begin

text \<open>
  The rewrite of finalized segments (\<open>TenantStore::rewrite_finalized_segments\<close>): segments that
  contain deleted chunks are replaced by new segments with the live chunks only, and the
  table rows move to the new coordinates in one transaction
  (\<open>SqliteMetadataStore::update_chunk_locations\<close>). Failures of the operating system when
  directories are removed are not modelled, so there are no warnings.
\<close>

section \<open>Moving rows\<close>

definition get_by_segment :: "string \<Rightarrow> nat \<Rightarrow> chunk_metadata list \<Rightarrow> chunk_metadata list" where
  "get_by_segment tid sid rows =
     sort_key (\<lambda>m. unat (m_ordinal m)) (filter (\<lambda>m. m_tenant_id m = tid \<and> m_segment_id m = sid) rows)"

type_synonym relocation = "string \<times> nat \<times> u32"

text \<open>
  One \<open>UPDATE\<close>: it touches the live row of the chunk, if there is one, and fails when another
  row of the tenant has the new coordinates.
\<close>

definition update_location ::
  "string \<Rightarrow> relocation \<Rightarrow> chunk_metadata list \<Rightarrow> memd_error + (nat \<times> chunk_metadata list)" where
  "update_location tid reloc rows =
     (let (cid, sid, i) = reloc;
          hits = filter (is_live tid cid) rows
      in if hits \<noteq> [] \<and> (\<exists>m \<in> set rows. \<not> is_live tid cid m \<and> m_tenant_id m = tid
                            \<and> m_segment_id m = sid \<and> m_ordinal m = i)
         then Inl (DatabaseError ''UNIQUE constraint failed'')
         else Inr (length hits,
                   map (\<lambda>m. if is_live tid cid m then m\<lparr>m_segment_id := sid, m_ordinal := i\<rparr> else m) rows))"

fun update_locations ::
  "string \<Rightarrow> relocation list \<Rightarrow> chunk_metadata list \<Rightarrow> memd_error + (nat \<times> chunk_metadata list)" where
  "update_locations tid [] rows = Inr (0, rows)"
| "update_locations tid (x # xs) rows =
     (case update_location tid x rows of
        Inl e \<Rightarrow> Inl e
      | Inr (n, rows1) \<Rightarrow>
         (case update_locations tid xs rows1 of
            Inl e \<Rightarrow> Inl e
          | Inr (k, rows2) \<Rightarrow> Inr (n + k, rows2)))"

definition update_chunk_locations ::
  "string \<Rightarrow> relocation list \<Rightarrow> chunk_metadata list \<Rightarrow> memd_error + chunk_metadata list" where
  "update_chunk_locations tid relocs rows =
     (if relocs = [] then Inr rows
      else case update_locations tid relocs rows of
        Inl e \<Rightarrow> Inl e
      | Inr (updated, rows') \<Rightarrow>
          if updated \<noteq> length relocs
          then Inl (StorageError ''segment rewrite location update matched too few rows'')
          else Inr rows')"

section \<open>Rewriting\<close>

record rewrite_result =
  segments_rewritten :: nat
  segments_removed :: nat
  chunks_moved :: nat
  bytes_before :: nat
  bytes_after :: nat
  bytes_reclaimed :: nat

definition no_rewrite :: rewrite_result where
  "no_rewrite = \<lparr>segments_rewritten = 0, segments_removed = 0, chunks_moved = 0, bytes_before = 0,
                 bytes_after = 0, bytes_reclaimed = 0\<rparr>"

definition sat_add :: "nat \<Rightarrow> nat \<Rightarrow> nat" where
  "sat_add a b = min (a + b) (2 ^ 64 - 1)"

definition path_size :: "seg_dir \<Rightarrow> nat" where
  "path_size d =
     (let file = (\<lambda>f. case f of None \<Rightarrow> 0 | Some bs \<Rightarrow> length bs)
      in sat_add (sat_add (sat_add (length (payload_bin d)) (file (payload_idx d))) (file (meta_file d)))
           (file (tombstone_bin d)))"

fun collect_payloads ::
  "'b seg_ext \<Rightarrow> 'b seg_reader \<Rightarrow> chunk_metadata list \<Rightarrow> memd_error + (string \<times> bytes) list" where
  "collect_payloads E r [] = Inr []"
| "collect_payloads E r (m # ms) =
     (case read_chunk E r (m_ordinal m) of
        Inl e \<Rightarrow> Inl (IoError e)
      | Inr None \<Rightarrow> Inl (StorageError ''live metadata row points at missing/tombstoned segment'')
      | Inr (Some p) \<Rightarrow>
         (case collect_payloads E r ms of Inl e \<Rightarrow> Inl e | Inr ps \<Rightarrow> Inr ((m_chunk_id m, p) # ps)))"

fun copy_payloads ::
  "'b seg_ext \<Rightarrow> nat \<Rightarrow> (string \<times> bytes) list \<Rightarrow> seg_writer \<Rightarrow> relocation list \<times> seg_writer" where
  "copy_payloads E sid [] w = ([], w)"
| "copy_payloads E sid ((cid, p) # ps) w =
     (let (i, w1) = append_chunk E p w;
          (relocs, w2) = copy_payloads E sid ps w1
      in ((cid, sid, i) # relocs, w2))"

type_synonym 'b rewrite_state = "nat \<times> rewrite_result \<times> 'b tenant_store"

definition rewrite_segment ::
  "'b store_ext \<Rightarrow> string \<Rightarrow> i64 \<Rightarrow> nat \<Rightarrow> 'b rewrite_state \<Rightarrow> memd_error + 'b rewrite_state" where
  "rewrite_segment E tid now old s =
     (let (nid, res, st) = s;
          live = filter (\<lambda>m. m_status m \<noteq> Deleted) (get_by_segment tid old (db st))
      in case map_of (segments st) old of
        None \<Rightarrow> Inr s
      | Some r \<Rightarrow>
         (let count = unat (chunk_count r) in
          if length live = count \<and> unat (active_count (seg_x E) r) = count then Inr s
          else let old_size = path_size (r_dir r);
                   res1 = res\<lparr>bytes_before := sat_add (bytes_before res) old_size\<rparr>;
                   dropped = st\<lparr>segments := AList.delete old (segments st),
                                seg_dirs := AList.delete old (seg_dirs st)\<rparr>
               in if live = []
                  then Inr (nid,
                            res1\<lparr>segments_removed := segments_removed res1 + 1,
                                 segments_rewritten := segments_rewritten res1 + 1,
                                 bytes_reclaimed := sat_add (bytes_reclaimed res1) old_size\<rparr>,
                            dropped)
                  else case collect_payloads (seg_x E) r live of
                    Inl e \<Rightarrow> Inl e
                  | Inr payloads \<Rightarrow>
                     (let (relocs, w) = copy_payloads (seg_x E) nid payloads
                                          (segment_create (map_of (seg_dirs st) nid) nid now);
                          d = snd (finalize (seg_x E) w)
                      in case reader_open (seg_x E) (dir_name nid) d of
                        Inl e \<Rightarrow> Inl (IoError e)
                      | Inr r' \<Rightarrow>
                         (case update_chunk_locations tid relocs (db st) of
                            Inl e \<Rightarrow> Inl e
                          | Inr rows \<Rightarrow>
                              Inr (nid + 1,
                                   res1\<lparr>segments_rewritten := segments_rewritten res1 + 1,
                                        chunks_moved := chunks_moved res1 + length relocs,
                                        bytes_after := sat_add (bytes_after res1) (path_size d),
                                        bytes_reclaimed := sat_add (bytes_reclaimed res1) (old_size - path_size d)\<rparr>,
                                   dropped\<lparr>db := rows,
                                           segments := AList.update nid r' (segments dropped),
                                           seg_dirs := AList.update nid d (seg_dirs dropped)\<rparr>)))))"

fun rewrite_segments ::
  "'b store_ext \<Rightarrow> string \<Rightarrow> i64 \<Rightarrow> nat list \<Rightarrow> 'b rewrite_state \<Rightarrow> memd_error + 'b rewrite_state" where
  "rewrite_segments E tid now [] s = Inr s"
| "rewrite_segments E tid now (sid # sids) s =
     (case rewrite_segment E tid now sid s of
        Inl e \<Rightarrow> Inl e
      | Inr s' \<Rightarrow> rewrite_segments E tid now sids s')"

definition rewrite_finalized_segments ::
  "'b store_ext \<Rightarrow> tenant_config \<Rightarrow> string \<Rightarrow> i64 \<Rightarrow> 'b tenant_store
     \<Rightarrow> memd_error + (rewrite_result \<times> 'b tenant_store)" where
  "rewrite_finalized_segments E cfg tid now st =
     (if read_only cfg then Inl (ReadOnlyStore ''rewrite_finalized_segments'')
      else case finalize_active_segment E cfg st of
        Inl e \<Rightarrow> Inl e
      | Inr st1 \<Rightarrow>
         (case rewrite_segments E tid now (sorted_list_of_set (fst ` set (segments st1)))
                 (next_segment_id st1, no_rewrite, st1) of
            Inl e \<Rightarrow> Inl e
          | Inr (_, res, st2) \<Rightarrow> Inr (res, st2)))"

section \<open>Moving rows keeps the table\<close>

text \<open>The effect of a list of relocations on a row.\<close>

definition relocate :: "string \<Rightarrow> relocation list \<Rightarrow> chunk_metadata \<Rightarrow> chunk_metadata" where
  "relocate tid relocs m =
     (if m_tenant_id m = tid \<and> m_status m \<noteq> Deleted
      then case map_of relocs (m_chunk_id m) of
             None \<Rightarrow> m
           | Some (sid, i) \<Rightarrow> m\<lparr>m_segment_id := sid, m_ordinal := i\<rparr>
      else m)"

definition relocs_ok :: "string \<Rightarrow> relocation list \<Rightarrow> chunk_metadata list \<Rightarrow> bool" where
  "relocs_ok tid relocs rows \<longleftrightarrow>
     distinct (map fst relocs) \<and> distinct (map snd relocs)
     \<and> (\<forall>(cid, sid, i) \<in> set relocs. (\<exists>m \<in> live_rows tid rows. m_chunk_id m = cid)
          \<and> (\<forall>m \<in> set rows. coords m \<noteq> (tid, sid, i)))"

lemma relocs_okD:
  assumes "relocs_ok tid relocs rows" and "(cid, sid, i) \<in> set relocs"
  shows "\<exists>m \<in> live_rows tid rows. m_chunk_id m = cid" and "\<forall>m \<in> set rows. coords m \<noteq> (tid, sid, i)"
  using assms by (fastforce simp: relocs_ok_def)+

lemma relocate_sel [simp]:
  "m_chunk_id (relocate tid relocs m) = m_chunk_id m" "m_tenant_id (relocate tid relocs m) = m_tenant_id m"
  "m_status (relocate tid relocs m) = m_status m" "strip_coords (relocate tid relocs m) = strip_coords m"
  by (simp_all add: relocate_def split: option.split)

lemma relocate_Cons:
  assumes "cid \<notin> fst ` set relocs"
  shows "relocate tid relocs (if is_live tid cid m then m\<lparr>m_segment_id := sid, m_ordinal := i\<rparr> else m)
       = relocate tid ((cid, sid, i) # relocs) m"
proof -
  have "map_of relocs cid = None" using assms by (simp add: map_of_eq_None_iff)
  then show ?thesis by (auto simp: relocate_def is_live_def)
qed

lemma update_location_ok:
  assumes "db_ok rows" and "m \<in> live_rows tid rows" and "m_chunk_id m = cid"
    and "\<forall>m \<in> set rows. coords m \<noteq> (tid, sid, i)"
  shows "update_location tid (cid, sid, i) rows = Inr (1,
      map (\<lambda>m. if is_live tid cid m then m\<lparr>m_segment_id := sid, m_ordinal := i\<rparr> else m) rows)"
proof -
  have mem: "m \<in> set rows" "is_live tid cid m" using assms(2,3) by (auto simp: live_rows_def is_live_def)
  have "distinct (map m_chunk_id rows)" using assms(1) by (simp add: db_ok_def)
  then have "filter (is_live tid cid) rows = [m]"
    using mem
  proof (induction rows)
    case (Cons x xs)
    then show ?case
      by (auto simp: is_live_def filter_empty_conv image_iff)
  qed simp
  with assms(4) show ?thesis by (auto simp: update_location_def coords_def)
qed

lemma relocated_db_ok:
  assumes "db_ok rows" and "relocs_ok tid relocs rows"
  shows "db_ok (map (relocate tid relocs) rows)"
proof -
  have "inj_on (\<lambda>m. coords (relocate tid relocs m)) (set rows)"
  proof (rule inj_onI)
    fix x y assume x: "x \<in> set rows" and y: "y \<in> set rows"
      and eq: "coords (relocate tid relocs x) = coords (relocate tid relocs y)"
    have moved: "\<exists>sid i. (m_chunk_id z, sid, i) \<in> set relocs \<and> m_tenant_id z = tid
        \<and> relocate tid relocs z = z\<lparr>m_segment_id := sid, m_ordinal := i\<rparr>
        \<or> relocate tid relocs z = z" for z
      by (auto simp: relocate_def dest: map_of_SomeD split: option.split)
    have free: "\<And>z cid sid i. z \<in> set rows \<Longrightarrow> (cid, sid, i) \<in> set relocs \<Longrightarrow> coords z \<noteq> (tid, sid, i)"
      using assms(2) by (auto simp: relocs_ok_def)
    have inj: "distinct (map coords rows)" "distinct (map m_chunk_id rows)" using assms(1) by (simp_all add: db_ok_def)
    consider "relocate tid relocs x = x" "relocate tid relocs y = y"
      | sid i where "(m_chunk_id x, sid, i) \<in> set relocs" "m_tenant_id x = tid"
          "relocate tid relocs x = x\<lparr>m_segment_id := sid, m_ordinal := i\<rparr>" "relocate tid relocs y = y"
      | sid i where "(m_chunk_id y, sid, i) \<in> set relocs" "m_tenant_id y = tid"
          "relocate tid relocs y = y\<lparr>m_segment_id := sid, m_ordinal := i\<rparr>" "relocate tid relocs x = x"
      | sid i sid' i' where "(m_chunk_id x, sid, i) \<in> set relocs" "(m_chunk_id y, sid', i') \<in> set relocs"
          "relocate tid relocs x = x\<lparr>m_segment_id := sid, m_ordinal := i\<rparr>"
          "relocate tid relocs y = y\<lparr>m_segment_id := sid', m_ordinal := i'\<rparr>"
      using moved [of x] moved [of y] by blast
    then show "x = y"
    proof cases
      case 1
      with eq inj(1) x y show ?thesis by (auto simp: distinct_map dest: inj_onD)
    next
      case 2
      then have "coords y = (tid, sid, i)" using eq by (simp add: coords_def)
      with free [OF y 2(1)] show ?thesis by simp
    next
      case 3
      then have "coords x = (tid, sid, i)" using eq by (simp add: coords_def)
      with free [OF x 3(1)] show ?thesis by simp
    next
      case 4
      then have "snd (m_chunk_id x, sid, i) = snd (m_chunk_id y, sid', i')" using eq by (simp add: coords_def)
      moreover have "inj_on snd (set relocs)" using assms(2) by (simp add: relocs_ok_def distinct_map)
      ultimately have "m_chunk_id x = m_chunk_id y" using 4(1,2) by (metis fst_conv inj_onD)
      with inj(2) x y show ?thesis by (auto simp: distinct_map dest: inj_onD)
    qed
  qed
  with assms(1) show ?thesis by (simp add: db_ok_def distinct_map comp_def)
qed

lemma update_locations_ok:
  assumes "db_ok rows" and "relocs_ok tid relocs rows"
  shows "update_locations tid relocs rows = Inr (length relocs, map (relocate tid relocs) rows)"
  using assms
proof (induction relocs arbitrary: rows)
  case Nil
  have "relocate tid [] = (\<lambda>m. m)" by (simp add: relocate_def fun_eq_iff)
  then show ?case by simp
next
  case (Cons x relocs)
  obtain cid sid i where x: "x = (cid, sid, i)" by (cases x)
  let ?f = "\<lambda>m. if is_live tid cid m then m\<lparr>m_segment_id := sid, m_ordinal := i\<rparr> else m"
  obtain m where m: "m \<in> live_rows tid rows" "m_chunk_id m = cid"
    and free: "\<forall>m \<in> set rows. coords m \<noteq> (tid, sid, i)" and new: "cid \<notin> fst ` set relocs"
    using Cons.prems(2) by (auto simp: relocs_ok_def x)
  have f: "?f = relocate tid [x]" by (auto simp: x relocate_def is_live_def fun_eq_iff)
  have one: "relocs_ok tid [x] rows" using Cons.prems(2) by (auto simp: relocs_ok_def)
  have live: "live_rows tid (map ?f rows) = ?f ` live_rows tid rows"
    by (auto simp: live_rows_def is_live_def)
  have "(sid, i) \<notin> snd ` set relocs" using Cons.prems(2) by (simp add: relocs_ok_def x)
  then have "coords (?f z) \<noteq> (tid, s, j)" if "z \<in> set rows" "(c, s, j) \<in> set relocs" for z c s j
    using that Cons.prems(2) by (auto simp: relocs_ok_def coords_def is_live_def image_iff)
  moreover have "\<exists>q \<in> live_rows tid (map ?f rows). m_chunk_id q = c" if r: "(c, s, j) \<in> set relocs" for c s j
  proof -
    obtain q where "q \<in> live_rows tid rows" "m_chunk_id q = c"
      using relocs_okD(1) [OF Cons.prems(2), of c s j] r by auto
    then show ?thesis unfolding live by (intro bexI [of _ "?f q"]) auto
  qed
  ultimately have "relocs_ok tid relocs (map ?f rows)"
    using Cons.prems(2) unfolding relocs_ok_def by fastforce
  with relocated_db_ok [OF Cons.prems(1) one] Cons.IH [of "map ?f rows"]
  have "update_locations tid relocs (map ?f rows) = Inr (length relocs, map (relocate tid relocs) (map ?f rows))"
    unfolding f by blast
  moreover have "map (relocate tid relocs) (map ?f rows) = map (relocate tid (x # relocs)) rows"
    using relocate_Cons [OF new] by (simp add: x)
  ultimately show ?case
    using update_location_ok [OF Cons.prems(1) m free] by (simp add: x)
qed

lemma live_rows_relocate: "live_rows tid (map (relocate tid relocs) rows) = relocate tid relocs ` live_rows tid rows"
  by (auto simp: live_rows_def)

lemma catalog_relocate:
  assumes "db_ok rows" and "relocs_ok tid relocs rows"
  shows "catalog tid (map (relocate tid relocs) rows) = catalog tid rows"
proof
  fix cid
  note ok = relocated_db_ok [OF assms]
  show "catalog tid (map (relocate tid relocs) rows) cid = catalog tid rows cid"
  proof (cases "meta_get rows tid cid")
    case None
    then have "meta_get (map (relocate tid relocs) rows) tid cid = None"
      by (auto simp: meta_get_None live_rows_relocate)
    with None show ?thesis by (simp add: catalog_def)
  next
    case (Some m)
    then have "meta_get (map (relocate tid relocs) rows) tid cid = Some (relocate tid relocs m)"
      using meta_get_Some [OF assms(1)] meta_get_Some [OF ok] by (auto simp: live_rows_relocate)
    with Some show ?thesis by (simp add: catalog_def)
  qed
qed

section \<open>Copying payloads\<close>

lemma collect_payloads_ok:
  assumes "\<forall>m \<in> set ms. read_chunk E r (m_ordinal m) = Inr (Some (pl (m_chunk_id m)))"
  shows "collect_payloads E r ms = Inr (map (\<lambda>m. (m_chunk_id m, pl (m_chunk_id m))) ms)"
  using assms by (induction ms) simp_all

lemma copy_payloads_ok:
  assumes "writer_holds E w es" and "\<forall>(c, p) \<in> set ps. length p < 2 ^ 32"
  obtains w' where "copy_payloads E sid ps w =
      (map (\<lambda>j. (fst (ps ! j), sid, word_of_nat (length es + j))) [0..<length ps], w')"
    and "writer_holds E w' (es @ map snd ps)" and "w_id w' = w_id w" and "w_dir w' = w_dir w"
proof -
  have "\<exists>w'. copy_payloads E sid ps w =
      (map (\<lambda>j. (fst (ps ! j), sid, word_of_nat (length es + j))) [0..<length ps], w')
      \<and> writer_holds E w' (es @ map snd ps) \<and> w_id w' = w_id w \<and> w_dir w' = w_dir w"
    using assms
  proof (induction ps arbitrary: w es)
    case Nil
    then show ?case by simp
  next
    case (Cons x ps)
    obtain c p where x: "x = (c, p)" by (cases x)
    obtain i w1 where a: "append_chunk E p w = (i, w1)" by fastforce
    have w1: "writer_holds E w1 (es @ [p])" "i = word_of_nat (length es)"
      using writer_holds_append [OF Cons.prems(1) _ a] Cons.prems(2) by (auto simp: x)
    have same: "w_id w1 = w_id w" "w_dir w1 = w_dir w" using a by (auto simp: append_chunk_def Let_def)
    obtain w' where IH: "copy_payloads E sid ps w1 =
        (map (\<lambda>j. (fst (ps ! j), sid, word_of_nat (length (es @ [p]) + j))) [0..<length ps], w')"
      "writer_holds E w' ((es @ [p]) @ map snd ps)" "w_id w' = w_id w1" "w_dir w' = w_dir w1"
      using Cons.IH [OF w1(1)] Cons.prems(2) by auto
    have "map (\<lambda>j. (fst ((x # ps) ! j), sid, word_of_nat (length es + j) :: u32)) [0..<length (x # ps)] =
        (c, sid, word_of_nat (length es))
          # map (\<lambda>j. (fst (ps ! j), sid, word_of_nat (length (es @ [p]) + j))) [0..<length ps]"
      by (simp add: x upt_rec [of 0] map_Suc_upt [symmetric] del: upt_Suc)
    with a w1(2) IH same show ?case by (simp add: x)
  qed
  then show ?thesis using that by blast
qed

text \<open>A selection of chunks at distinct ordinals is no larger than the whole segment.\<close>

lemma seg_sized_select:
  assumes "seg_sized ds" and "distinct is" and "\<forall>i \<in> set is. i < length ds"
  shows "seg_sized (map ((!) ds) is)"
proof -
  have "length (concat (map ((!) ds) is)) = (\<Sum>i \<in> set is. length (ds ! i))"
    using assms(2) by (simp add: length_concat sum_list_distinct_conv_sum_set comp_def)
  also have "\<dots> \<le> (\<Sum>i \<in> {..<length ds}. length (ds ! i))"
    using assms(3) by (intro sum_mono2) auto
  also have "\<dots> = length (concat ds)"
    by (simp add: length_concat sum_list_sum_nth atLeast0LessThan)
  finally have "length (concat (map ((!) ds) is)) \<le> length (concat ds)" .
  moreover have "length is \<le> length ds"
  proof -
    have "card (set is) \<le> card {..<length ds}" using assms(3) by (intro card_mono) auto
    with assms(2) show ?thesis by (simp add: distinct_card)
  qed
  moreover have "\<forall>d \<in> set (map ((!) ds) is). length d < 2 ^ 32"
    using assms(1,3) by (auto simp: seg_sized_def)
  ultimately show ?thesis using assms(1) unfolding seg_sized_def by simp
qed

section \<open>Replacing a segment\<close>

context tenant_env
begin

lemma drop_segment_ok:
  fixes old :: nat
  assumes "struct_ok E cfg st k" and "active_segment st = None"
  defines "st' \<equiv> st\<lparr>segments := AList.delete old (segments st), seg_dirs := AList.delete old (seg_dirs st)\<rparr>"
  shows "struct_ok E cfg st' k"
    and "read_payload E st' sid i = (if sid = old then Inr None else read_payload E st sid i)"
    and "dom (map_of (seg_dirs st')) = dom (map_of (seg_dirs st)) - {old}"
proof -
  have "reader_ok E (seg_dirs st') sid r" if "map_of (segments st) sid = Some r" "sid \<noteq> old" for sid r
    using that assms(1) by (auto simp: struct_ok_def readers_ok_def reader_ok_def st'_def delete_conv')
  then have "readers_ok E st'"
    using assms(1) by (auto simp: struct_ok_def readers_ok_def st'_def delete_conv' split: if_splits)
  then show "struct_ok E cfg st' k"
    using assms(1,2) by (auto simp: struct_ok_def active_ok_def room_def st'_def delete_conv' distinct_delete)
  show "read_payload E st' sid i = (if sid = old then Inr None else read_payload E st sid i)"
    using assms(2) by (simp add: read_payload_def read_from_active_segment_def st'_def delete_conv')
  show "dom (map_of (seg_dirs st')) = dom (map_of (seg_dirs st)) - {old}"
    by (auto simp: st'_def delete_conv')
qed

lemma add_segment_ok:
  assumes "struct_ok E cfg st k" and "active_segment st = None" and "nid \<notin> dom (map_of (seg_dirs st))"
    and "nid + k < 2 ^ 64" and "writer_holds (seg_x E) w ds" and "seg_sized ds" and "w_id w = nid"
    and "tombstone_bin (w_dir w) = None"
  defines "d \<equiv> snd (finalize (seg_x E) w)"
  obtains r' where "reader_open (seg_x E) (dir_name nid) d = Inr r'"
    and "struct_ok E cfg (st\<lparr>segments := AList.update nid r' (segments st),
           seg_dirs := AList.update nid d (seg_dirs st)\<rparr>) k"
    and "\<And>sid i. read_payload E (st\<lparr>segments := AList.update nid r' (segments st),
           seg_dirs := AList.update nid d (seg_dirs st)\<rparr>) sid i =
           (if sid = nid then Inr (if unat i < length ds then Some (ds ! unat i) else None)
            else read_payload E st sid i)"
proof -
  have "w_id w < 2 ^ 64" using assms(4,7) by simp
  then obtain r where r: "reader_open (seg_x E) (dir_name nid) d = Inr r" "reader_holds (seg_x E) r ds"
    "r_dir r = d" "load_or_create (bitmap_ops_of (seg_x E)) (tombstone_bin d) = Inr (tombstones r)"
    "\<And>o'. \<not> is_deleted (bitmap_ops_of (seg_x E)) (tombstones r) o'"
    using new_reader [OF assms(5,6) _ assms(8)] unfolding d_def assms(7) by blast
  let ?st = "st\<lparr>segments := AList.update nid r (segments st), seg_dirs := AList.update nid d (seg_dirs st)\<rparr>"
  note fin = finalize_dir_holds [OF assms(5)]
  have meta: "meta_file d \<noteq> None" and holds: "dir_holds (seg_x E) d ds" using fin by (simp_all add: d_def)
  have none: "map_of (segments st) nid = None"
  proof (cases "map_of (segments st) nid")
    case (Some q)
    then have "reader_ok E (seg_dirs st) nid q" using assms(1) by (simp add: struct_ok_def readers_ok_def)
    with assms(3) show ?thesis by (auto simp: reader_ok_def)
  qed
  have "reader_ok E (seg_dirs ?st) nid r"
    unfolding reader_ok_def
    using r meta holds assms(4,6) by (intro exI [of _ ds]) (simp add: update_conv')
  moreover have "reader_ok E (seg_dirs ?st) sid q" if "map_of (segments st) sid = Some q" for sid q
    using that none assms(1) by (auto simp: struct_ok_def readers_ok_def reader_ok_def update_conv')
  ultimately have "readers_ok E ?st"
    using assms(1) by (auto simp: struct_ok_def readers_ok_def update_conv' split: if_splits)
  then have struct: "struct_ok E cfg ?st k"
    using assms(1,2,4) by (auto simp: struct_ok_def active_ok_def room_def update_conv' distinct_update)
  have "read_payload E ?st sid i =
      (if sid = nid then Inr (if unat i < length ds then Some (ds ! unat i) else None)
       else read_payload E st sid i)" for sid i
    using assms(2) read_chunk_holds [OF r(2) assms(6), of i] r(5)
    by (simp add: read_payload_def read_from_active_segment_def update_conv')
  then show ?thesis using that r(1) struct by blast
qed

lemma read_from_reader:
  assumes "active_segment st = None" and "map_of (segments st) sid = Some r"
    and "read_payload E st sid i = Inr x"
  shows "read_chunk (seg_x E) r i = Inr x"
  using assms by (auto simp: read_payload_def read_from_active_segment_def split: sum.splits)

end

lemma live_of_segment:
  fixes tid :: string and sid :: nat
  assumes "db_ok rows"
  defines "live \<equiv> filter (\<lambda>m. m_status m \<noteq> Deleted) (get_by_segment tid sid rows)"
  shows "set live = {m \<in> live_rows tid rows. m_segment_id m = sid}"
    and "distinct (map m_chunk_id live)" and "distinct (map m_ordinal live)"
proof -
  show mem: "set live = {m \<in> live_rows tid rows. m_segment_id m = sid}"
    by (auto simp: live_def get_by_segment_def live_rows_def)
  have ids: "distinct (map m_chunk_id rows)" and cs: "distinct (map coords rows)"
    using assms(1) by (simp_all add: db_ok_def)
  have dist: "distinct live"
    using ids by (simp add: live_def get_by_segment_def distinct_map)
  have sub: "set live \<subseteq> set rows" using mem by (auto simp: live_rows_def)
  from ids sub have "inj_on m_chunk_id (set live)" by (auto simp: distinct_map intro: inj_on_subset)
  with dist show "distinct (map m_chunk_id live)" by (simp add: distinct_map)
  from cs sub have "inj_on coords (set live)" by (auto simp: distinct_map intro: inj_on_subset)
  then have "inj_on m_ordinal (set live)"
    unfolding mem by (auto simp: inj_on_def coords_def live_rows_def)
  with dist show "distinct (map m_ordinal live)" by (simp add: distinct_map)
qed

section \<open>The rewrite loop\<close>

text \<open>
  The state of the loop with \<open>n\<close> segments to go and the id \<open>nid\<close> for the next new segment.
  \<open>rewrite_inv\<close> adds that no row of the tenant has the coordinates of a segment to come.
\<close>

definition rewrite_base ::
  "'b store_ext \<Rightarrow> tenant_config \<Rightarrow> (string \<Rightarrow> bytes) \<Rightarrow> nat \<Rightarrow> wal_record list \<Rightarrow> nat \<Rightarrow> nat \<Rightarrow> 'b tenant_store \<Rightarrow> bool" where
  "rewrite_base E cfg pl k rs n nid st \<longleftrightarrow>
     serving E cfg pl k rs st \<and> active_segment st = None
     \<and> (\<forall>sid \<in> dom (map_of (seg_dirs st)). sid < nid)
     \<and> nid + n + length (after_last_checkpoint rs) + k < 2 ^ 64"

definition rewrite_inv ::
  "'b store_ext \<Rightarrow> tenant_config \<Rightarrow> (string \<Rightarrow> bytes) \<Rightarrow> nat \<Rightarrow> wal_record list \<Rightarrow> nat \<Rightarrow> nat \<Rightarrow> 'b tenant_store \<Rightarrow> bool" where
  "rewrite_inv E cfg pl k rs n nid st \<longleftrightarrow>
     rewrite_base E cfg pl k rs n nid st
     \<and> (\<forall>m \<in> set (db st). m_tenant_id m = cfg_tenant_id cfg \<longrightarrow> m_segment_id m < nid)"

lemma rewrite_base_mono: "rewrite_base E cfg pl k rs (Suc n) nid st \<Longrightarrow> rewrite_base E cfg pl k rs n nid st"
  by (simp add: rewrite_base_def)

lemma rewrite_inv_mono: "rewrite_inv E cfg pl k rs (Suc n) nid st \<Longrightarrow> rewrite_inv E cfg pl k rs n nid st"
  by (simp add: rewrite_inv_def rewrite_base_mono)

context tenant_env
begin

text \<open>A segment without live rows is dropped.\<close>

lemma rewrite_drop_ok:
  assumes inv: "rewrite_base E cfg pl k rs (Suc n) nid st"
    and none: "\<forall>m \<in> live_rows (cfg_tenant_id cfg) (db st). m_segment_id m \<noteq> old"
  shows "rewrite_base E cfg pl k rs n nid
     (st\<lparr>segments := AList.delete old (segments st), seg_dirs := AList.delete old (seg_dirs st)\<rparr>)"
proof -
  have struct: "struct_ok E cfg st (length (after_last_checkpoint rs) + k)" and act: "active_segment st = None"
    using inv by (auto simp: rewrite_base_def serving_def recoverable_def)
  note drop = drop_segment_ok [OF struct act, of old]
  let ?st' = "st\<lparr>segments := AList.delete old (segments st), seg_dirs := AList.delete old (seg_dirs st)\<rparr>"
  have "row_ok E pl qs ?st' m" if "m \<in> live_rows (cfg_tenant_id cfg) (db st)" "row_ok E pl qs st m" for m qs
    using that none drop(2,3) act by (simp add: row_ok_def)
  then show ?thesis
    using inv drop(1,3) by (simp add: rewrite_base_def serving_def recoverable_def)
qed

lemma rewrite_drop_inv:
  assumes "rewrite_inv E cfg pl k rs (Suc n) nid st"
    and "\<forall>m \<in> live_rows (cfg_tenant_id cfg) (db st). m_segment_id m \<noteq> old"
  shows "rewrite_inv E cfg pl k rs n nid
     (st\<lparr>segments := AList.delete old (segments st), seg_dirs := AList.delete old (seg_dirs st)\<rparr>)"
  using rewrite_drop_ok [OF _ assms(2)] assms(1) by (simp add: rewrite_inv_def)

text \<open>The live chunks of a segment, in the order of their ordinals, as the rewrite copies them.\<close>

lemma live_payloads:
  assumes inv: "rewrite_base E cfg pl k rs n nid st" and r: "map_of (segments st) old = Some r"
  defines "live \<equiv> filter (\<lambda>m. m_status m \<noteq> Deleted) (get_by_segment (cfg_tenant_id cfg) old (db st))"
  shows "\<forall>m \<in> set live. read_chunk (seg_x E) r (m_ordinal m) = Inr (Some (pl (m_chunk_id m)))"
    and "seg_sized (map (\<lambda>m. pl (m_chunk_id m)) live)"
proof -
  have ok: "db_ok (db st)" and act: "active_segment st = None"
    and rows: "\<forall>m \<in> live_rows (cfg_tenant_id cfg) (db st). row_ok E pl [] st m"
    using inv by (auto simp: rewrite_base_def serving_def recoverable_def)
  note mem = live_of_segment [OF ok, of "cfg_tenant_id cfg" old, folded live_def]
  show reads: "\<forall>m \<in> set live. read_chunk (seg_x E) r (m_ordinal m) = Inr (Some (pl (m_chunk_id m)))"
  proof
    fix m assume "m \<in> set live"
    then have m: "m \<in> live_rows (cfg_tenant_id cfg) (db st)" "m_segment_id m = old" using mem(1) by auto
    then have "read_payload E st old (m_ordinal m) = Inr (Some (pl (m_chunk_id m)))"
      using rows by (auto simp: row_ok_def pending_def)
    then show "read_chunk (seg_x E) r (m_ordinal m) = Inr (Some (pl (m_chunk_id m)))"
      using read_from_reader [OF act r] by blast
  qed
  have "reader_ok E (seg_dirs st) old r"
    using inv r by (auto simp: rewrite_base_def serving_def recoverable_def struct_ok_def readers_ok_def)
  then obtain ds where ds: "reader_holds (seg_x E) r ds" "seg_sized ds" by (auto simp: reader_ok_def)
  have at: "unat (m_ordinal m) < length ds \<and> pl (m_chunk_id m) = ds ! unat (m_ordinal m)" if "m \<in> set live" for m
    using reads that read_chunk_holds [OF ds, of "m_ordinal m"] by (auto split: if_splits)
  have "distinct (map (\<lambda>m. unat (m_ordinal m)) live)"
    using mem(3) by (auto simp: distinct_map inj_on_def word_unat_eq_iff)
  moreover have "\<forall>i \<in> set (map (\<lambda>m. unat (m_ordinal m)) live). i < length ds" using at by auto
  ultimately have "seg_sized (map ((!) ds) (map (\<lambda>m. unat (m_ordinal m)) live))"
    by (rule seg_sized_select [OF ds(2)])
  moreover have "map ((!) ds) (map (\<lambda>m. unat (m_ordinal m)) live) = map (\<lambda>m. pl (m_chunk_id m)) live"
    using at by simp
  ultimately show "seg_sized (map (\<lambda>m. pl (m_chunk_id m)) live)" by (simp only:)
qed

end

text \<open>The relocations of a rewrite and their lookup.\<close>

definition moves :: "nat \<Rightarrow> chunk_metadata list \<Rightarrow> relocation list" where
  "moves nid live = map (\<lambda>j. (m_chunk_id (live ! j), nid, word_of_nat j)) [0..<length live]"

lemma moves_ids: "map fst (moves nid live) = map m_chunk_id live"
  by (rule nth_equalityI) (simp_all add: moves_def)

lemma moves_lookup:
  assumes "distinct (map m_chunk_id live)" and "j < length live"
  shows "map_of (moves nid live) (m_chunk_id (live ! j)) = Some (nid, word_of_nat j)"
proof (rule map_of_is_SomeI)
  show "distinct (map fst (moves nid live))" using assms(1) by (simp add: moves_ids)
  show "(m_chunk_id (live ! j), nid, word_of_nat j) \<in> set (moves nid live)"
    using assms(2) by (auto simp: moves_def)
qed

lemma moves_relocs_ok:
  assumes "db_ok rows" and "length live \<le> 2 ^ 32"
    and "set live \<subseteq> live_rows tid rows" and "distinct (map m_chunk_id live)"
    and "\<forall>m \<in> set rows. m_tenant_id m = tid \<longrightarrow> m_segment_id m < nid"
  shows "relocs_ok tid (moves nid live) rows"
  unfolding relocs_ok_def
proof (intro conjI)
  show "distinct (map fst (moves nid live))" using assms(4) by (simp add: moves_ids)
  have "inj_on (\<lambda>j. word_of_nat j :: u32) {0..<length live}"
  proof (rule inj_onI)
    fix i j assume "i \<in> {0..<length live}" "j \<in> {0..<length live}" and eq: "(word_of_nat i :: u32) = word_of_nat j"
    then have "i < 2 ^ 32" "j < 2 ^ 32" using assms(2) by auto
    then show "i = j" using eq by (metis unat_u32_of_nat)
  qed
  then show "distinct (map snd (moves nid live))"
    by (simp add: moves_def comp_def distinct_map inj_on_def)
  show "\<forall>(cid, sid, i) \<in> set (moves nid live). (\<exists>m \<in> live_rows tid rows. m_chunk_id m = cid)
      \<and> (\<forall>m \<in> set rows. coords m \<noteq> (tid, sid, i))"
    using assms(3,5) by (fastforce simp: moves_def coords_def)
qed

lemma relocate_moved:
  assumes "distinct (map m_chunk_id live)" and "j < length live" and "set live \<subseteq> live_rows tid rows"
  shows "relocate tid (moves nid live) (live ! j) = (live ! j)\<lparr>m_segment_id := nid, m_ordinal := word_of_nat j\<rparr>"
proof -
  have "live ! j \<in> live_rows tid rows" using assms(2,3) by auto
  then show ?thesis using moves_lookup [OF assms(1,2)] by (simp add: relocate_def live_rows_def)
qed

lemma relocate_kept:
  assumes "m_chunk_id m \<notin> m_chunk_id ` set live"
  shows "relocate tid (moves nid live) m = m"
proof -
  have "map_of (moves nid live) (m_chunk_id m) = None"
    using assms moves_ids [of nid live] by (simp add: map_of_eq_None_iff flip: set_map)
  then show ?thesis by (simp add: relocate_def)
qed

context tenant_env
begin

text \<open>The live chunks of a segment are copied into a new one, which can be opened.\<close>

lemma rewrite_copy_ok:
  assumes inv: "rewrite_base E cfg pl k rs (Suc n) nid st" and r: "map_of (segments st) old = Some r"
  defines "live \<equiv> filter (\<lambda>m. m_status m \<noteq> Deleted) (get_by_segment (cfg_tenant_id cfg) old (db st))"
    and "dropped \<equiv> st\<lparr>segments := AList.delete old (segments st), seg_dirs := AList.delete old (seg_dirs st)\<rparr>"
  obtains w r' where
    "collect_payloads (seg_x E) r live = Inr (map (\<lambda>m. (m_chunk_id m, pl (m_chunk_id m))) live)"
    and "copy_payloads (seg_x E) nid (map (\<lambda>m. (m_chunk_id m, pl (m_chunk_id m))) live)
           (segment_create (map_of (seg_dirs st) nid) nid now) = (moves nid live, w)"
    and "reader_open (seg_x E) (dir_name nid) (snd (finalize (seg_x E) w)) = Inr r'"
    and "struct_ok E cfg (dropped\<lparr>segments := AList.update nid r' (segments dropped),
           seg_dirs := AList.update nid (snd (finalize (seg_x E) w)) (seg_dirs dropped)\<rparr>)
           (length (after_last_checkpoint rs) + k)"
    and "\<And>sid i. read_payload E (dropped\<lparr>segments := AList.update nid r' (segments dropped),
           seg_dirs := AList.update nid (snd (finalize (seg_x E) w)) (seg_dirs dropped)\<rparr>) sid i =
         (if sid = nid then Inr (if unat i < length live then Some (pl (m_chunk_id (live ! unat i))) else None)
          else if sid = old then Inr None else read_payload E st sid i)"
    and "length live \<le> 2 ^ 32"
proof -
  let ?tail = "after_last_checkpoint rs"
  have act: "active_segment st = None" and struct: "struct_ok E cfg st (length ?tail + k)"
    and dirs: "\<forall>sid \<in> dom (map_of (seg_dirs st)). sid < nid" and bound: "nid + Suc n + length ?tail + k < 2 ^ 64"
    using inv by (auto simp: rewrite_base_def serving_def recoverable_def)
  note pay = live_payloads [OF inv r, folded live_def]
  have fresh: "map_of (seg_dirs st) nid = None" using dirs by (metis domIff less_irrefl)
  define w0 where "w0 = segment_create (map_of (seg_dirs st) nid) nid now"
  have w0: "writer_holds (seg_x E) w0 []" "w_id w0 = nid" "tombstone_bin (w_dir w0) = None"
    unfolding w0_def by (rule writer_holds_create) (simp_all add: segment_create_def fresh)
  let ?ps = "map (\<lambda>m. (m_chunk_id m, pl (m_chunk_id m))) live"
  have "\<forall>(c, p) \<in> set ?ps. length p < 2 ^ 32" using pay(2) by (auto simp: seg_sized_def)
  from copy_payloads_ok [OF w0(1) this, of nid] obtain w where
    copy: "copy_payloads (seg_x E) nid ?ps w0 =
        (map (\<lambda>j. (fst (?ps ! j), nid, word_of_nat (length ([] :: bytes list) + j))) [0..<length ?ps], w)"
    and w': "writer_holds (seg_x E) w ([] @ map snd ?ps)" "w_id w = w_id w0" "w_dir w = w_dir w0"
    by blast
  have "map snd ?ps = map (\<lambda>m. pl (m_chunk_id m)) live" by simp
  with w' have w: "writer_holds (seg_x E) w (map (\<lambda>m. pl (m_chunk_id m)) live)" "w_id w = nid"
    "tombstone_bin (w_dir w) = None"
    using w0(2,3) by (simp_all only: append_Nil)
  have "map (\<lambda>j. (fst (?ps ! j), nid, word_of_nat (length ([] :: bytes list) + j) :: u32)) [0..<length ?ps] = moves nid live"
    by (simp add: moves_def)
  with copy have copy': "copy_payloads (seg_x E) nid ?ps w0 = (moves nid live, w)" by simp
  note drop = drop_segment_ok [OF struct act, of old, folded dropped_def]
  have side: "active_segment dropped = None" "nid \<notin> dom (map_of (seg_dirs dropped))" "nid + (length ?tail + k) < 2 ^ 64"
    using dirs drop(3) bound act by (auto simp: dropped_def)
  obtain r' where add: "reader_open (seg_x E) (dir_name nid) (snd (finalize (seg_x E) w)) = Inr r'"
      "struct_ok E cfg (dropped\<lparr>segments := AList.update nid r' (segments dropped),
         seg_dirs := AList.update nid (snd (finalize (seg_x E) w)) (seg_dirs dropped)\<rparr>) (length ?tail + k)"
      "\<And>sid i. read_payload E (dropped\<lparr>segments := AList.update nid r' (segments dropped),
         seg_dirs := AList.update nid (snd (finalize (seg_x E) w)) (seg_dirs dropped)\<rparr>) sid i =
         (if sid = nid then Inr (if unat i < length (map (\<lambda>m. pl (m_chunk_id m)) live)
            then Some (map (\<lambda>m. pl (m_chunk_id m)) live ! unat i) else None)
          else read_payload E dropped sid i)"
    using add_segment_ok [OF drop(1) side w(1) pay(2) w(2,3)] by blast
  show ?thesis
  proof (rule that [OF collect_payloads_ok [OF pay(1)] copy' [unfolded w0_def] add(1,2)])
    fix sid i
    show "read_payload E (dropped\<lparr>segments := AList.update nid r' (segments dropped),
           seg_dirs := AList.update nid (snd (finalize (seg_x E) w)) (seg_dirs dropped)\<rparr>) sid i =
         (if sid = nid then Inr (if unat i < length live then Some (pl (m_chunk_id (live ! unat i))) else None)
          else if sid = old then Inr None else read_payload E st sid i)"
      using add(3) [of sid i] drop(2) [of sid i] by auto
    show "length live \<le> 2 ^ 32" using pay(2) by (simp add: seg_sized_def)
  qed
qed

lemma rewrite_move_ok:
  assumes inv: "rewrite_inv E cfg pl k rs (Suc n) nid st" and r: "map_of (segments st) old = Some r"
  defines "live \<equiv> filter (\<lambda>m. m_status m \<noteq> Deleted) (get_by_segment (cfg_tenant_id cfg) old (db st))"
  obtains w r' where
    "collect_payloads (seg_x E) r live = Inr (map (\<lambda>m. (m_chunk_id m, pl (m_chunk_id m))) live)"
    and "copy_payloads (seg_x E) nid (map (\<lambda>m. (m_chunk_id m, pl (m_chunk_id m))) live)
           (segment_create (map_of (seg_dirs st) nid) nid now) = (moves nid live, w)"
    and "reader_open (seg_x E) (dir_name nid) (snd (finalize (seg_x E) w)) = Inr r'"
    and "relocs_ok (cfg_tenant_id cfg) (moves nid live) (db st)"
    and "rewrite_inv E cfg pl k rs n (nid + 1)
           (st\<lparr>db := map (relocate (cfg_tenant_id cfg) (moves nid live)) (db st),
               segments := AList.update nid r' (AList.delete old (segments st)),
               seg_dirs := AList.update nid (snd (finalize (seg_x E) w)) (AList.delete old (seg_dirs st))\<rparr>)"
proof -
  let ?T = "cfg_tenant_id cfg" and ?tail = "after_last_checkpoint rs"
  have base: "rewrite_base E cfg pl k rs (Suc n) nid st"
    and ok: "db_ok (db st)" and act: "active_segment st = None"
    and rows: "\<And>m. m \<in> live_rows ?T (db st) \<Longrightarrow> row_ok E pl [] st m"
    and below: "\<forall>m \<in> set (db st). m_tenant_id m = ?T \<longrightarrow> m_segment_id m < nid"
    and dirs: "\<forall>sid \<in> dom (map_of (seg_dirs st)). sid < nid"
    and bound: "nid + Suc n + length ?tail + k < 2 ^ 64"
    using inv by (auto simp: rewrite_inv_def rewrite_base_def serving_def recoverable_def)
  note mem = live_of_segment [OF ok, of ?T old, folded live_def]
  have sub: "set live \<subseteq> live_rows ?T (db st)" using mem(1) by auto
  let ?drop = "st\<lparr>segments := AList.delete old (segments st), seg_dirs := AList.delete old (seg_dirs st)\<rparr>"
  obtain w r' where copy:
    "collect_payloads (seg_x E) r live = Inr (map (\<lambda>m. (m_chunk_id m, pl (m_chunk_id m))) live)"
    "copy_payloads (seg_x E) nid (map (\<lambda>m. (m_chunk_id m, pl (m_chunk_id m))) live)
       (segment_create (map_of (seg_dirs st) nid) nid now) = (moves nid live, w)"
    and add: "reader_open (seg_x E) (dir_name nid) (snd (finalize (seg_x E) w)) = Inr r'"
      "struct_ok E cfg (?drop\<lparr>segments := AList.update nid r' (segments ?drop),
         seg_dirs := AList.update nid (snd (finalize (seg_x E) w)) (seg_dirs ?drop)\<rparr>) (length ?tail + k)"
      "\<And>sid i. read_payload E (?drop\<lparr>segments := AList.update nid r' (segments ?drop),
         seg_dirs := AList.update nid (snd (finalize (seg_x E) w)) (seg_dirs ?drop)\<rparr>) sid i =
         (if sid = nid then Inr (if unat i < length live then Some (pl (m_chunk_id (live ! unat i))) else None)
          else if sid = old then Inr None else read_payload E st sid i)"
    and len: "length live \<le> 2 ^ 32"
    by (rule rewrite_copy_ok [OF base r, folded live_def]; (rule that)?; assumption?)
  define st' where "st' = st\<lparr>db := map (relocate ?T (moves nid live)) (db st),
      segments := AList.update nid r' (AList.delete old (segments st)),
      seg_dirs := AList.update nid (snd (finalize (seg_x E) w)) (AList.delete old (seg_dirs st))\<rparr>"
  note relocs = moves_relocs_ok [OF ok len sub mem(2) below]
  have st'_eq: "st' = (?drop\<lparr>segments := AList.update nid r' (segments ?drop),
      seg_dirs := AList.update nid (snd (finalize (seg_x E) w)) (seg_dirs ?drop)\<rparr>)
        \<lparr>db := map (relocate ?T (moves nid live)) (db st)\<rparr>"
    by (simp add: st'_def)
  have reads: "read_payload E st' sid i =
      (if sid = nid then Inr (if unat i < length live then Some (pl (m_chunk_id (live ! unat i))) else None)
       else if sid = old then Inr None else read_payload E st sid i)" for sid i
    using add(3) [of sid i] unfolding st'_eq read_payload_frame(1) .
  have struct': "struct_ok E cfg st' (length ?tail + k)" using add(2) unfolding st'_eq struct_ok_db(1) .
  have dom': "dom (map_of (seg_dirs st')) = insert nid (dom (map_of (seg_dirs st)) - {old})"
    by (auto simp: st'_def update_conv' delete_conv')
  have act': "active_segment st' = None" using act by (simp add: st'_def)
  have row: "row_ok E pl [] st' (relocate ?T (moves nid live) m)" if m: "m \<in> live_rows ?T (db st)" for m
  proof (cases "m_segment_id m = old")
    case True
    then have "m \<in> set live" using m mem(1) by blast
    then obtain j where j: "j < length live" "m = live ! j" unfolding in_set_conv_nth by metis
    then have "relocate ?T (moves nid live) m = m\<lparr>m_segment_id := nid, m_ordinal := word_of_nat j\<rparr>"
      using relocate_moved [OF mem(2) j(1) sub] by simp
    moreover have "unat (word_of_nat j :: u32) = j" using j(1) len by (intro unat_u32_of_nat) simp
    ultimately show ?thesis using j act' dom' by (simp add: row_ok_def reads)
  next
    case False
    have "m_chunk_id m \<notin> m_chunk_id ` set live"
    proof
      assume "m_chunk_id m \<in> m_chunk_id ` set live"
      then obtain q where "q \<in> set live" "m_chunk_id q = m_chunk_id m" by auto
      with sub m have "q = m" using meta_get_Some [OF ok] by (metis option.inject subsetD)
      with \<open>q \<in> set live\<close> False show False using mem(1) by auto
    qed
    then have kept: "relocate ?T (moves nid live) m = m" by (rule relocate_kept)
    have "m_segment_id m \<noteq> nid" using below m by (auto simp: live_rows_def)
    then show ?thesis using rows [OF m] False act' dom' unfolding kept by (auto simp: row_ok_def reads)
  qed
  have live': "live_rows ?T (db st') = relocate ?T (moves nid live) ` live_rows ?T (db st)"
    by (simp add: st'_def live_rows_relocate)
  have "serving E cfg pl k rs st'"
    using inv struct' row relocated_db_ok [OF ok relocs] act
    unfolding rewrite_inv_def rewrite_base_def serving_def recoverable_def live'
    by (auto simp: st'_def catalog_relocate [OF ok relocs] intro: row_ok_weaken)
  moreover have "m_segment_id (relocate ?T (moves nid live) m) < nid + 1"
    if "m \<in> set (db st)" "m_tenant_id m = ?T" for m
  proof -
    have "m_segment_id m < nid" using below that by blast
    then show ?thesis
      by (auto simp: relocate_def moves_def dest!: map_of_SomeD split: option.split)
  qed
  then have "\<forall>m \<in> set (db st'). m_tenant_id m = ?T \<longrightarrow> m_segment_id m < nid + 1"
    by (auto simp: st'_def)
  moreover have "\<forall>sid \<in> dom (map_of (seg_dirs st')). sid < nid + 1"
    unfolding dom' using dirs by (metis DiffD1 Suc_eq_plus1 insertE less_Suc_eq)
  ultimately have "rewrite_inv E cfg pl k rs n (nid + 1) st'"
    using bound by (simp add: rewrite_inv_def rewrite_base_def act')
  then show ?thesis
    using that [OF copy add(1) relocs] unfolding st'_def by blast
qed

lemma rewrite_segment_ok:
  assumes inv: "rewrite_inv E cfg pl k rs (Suc n) nid st"
  shows "\<exists>nid' res' st'. rewrite_segment E (cfg_tenant_id cfg) now old (nid, res, st) = Inr (nid', res', st')
      \<and> rewrite_inv E cfg pl k rs n nid' st'
      \<and> catalog (cfg_tenant_id cfg) (db st') = catalog (cfg_tenant_id cfg) (db st)"
proof -
  let ?T = "cfg_tenant_id cfg"
  let ?live = "filter (\<lambda>m. m_status m \<noteq> Deleted) (get_by_segment ?T old (db st))"
  have ok: "db_ok (db st)" using inv by (simp add: rewrite_inv_def rewrite_base_def serving_def recoverable_def)
  consider (absent) "map_of (segments st) old = None"
    | (clean) r where "map_of (segments st) old = Some r"
        "length ?live = unat (chunk_count r) \<and> unat (active_count (seg_x E) r) = unat (chunk_count r)"
    | (dead) r where "map_of (segments st) old = Some r" "?live = []"
        "\<not> (length ?live = unat (chunk_count r) \<and> unat (active_count (seg_x E) r) = unat (chunk_count r))"
    | (move) r where "map_of (segments st) old = Some r" "?live \<noteq> []"
        "\<not> (length ?live = unat (chunk_count r) \<and> unat (active_count (seg_x E) r) = unat (chunk_count r))"
    by (cases "map_of (segments st) old") blast+
  then show ?thesis
  proof cases
    case absent
    then show ?thesis using rewrite_inv_mono [OF inv] by (simp add: rewrite_segment_def)
  next
    case clean
    then show ?thesis using rewrite_inv_mono [OF inv] by (simp add: rewrite_segment_def Let_def)
  next
    case dead
    then have "\<forall>m \<in> live_rows ?T (db st). m_segment_id m \<noteq> old"
      using live_of_segment(1) [OF ok, of ?T old] by auto
    note drop = rewrite_drop_inv [OF inv this]
    have "\<exists>res'. rewrite_segment E ?T now old (nid, res, st) = Inr (nid, res',
        st\<lparr>segments := AList.delete old (segments st), seg_dirs := AList.delete old (seg_dirs st)\<rparr>)"
      using dead by (auto simp: rewrite_segment_def Let_def)
    then obtain res' where "rewrite_segment E ?T now old (nid, res, st) = Inr (nid, res',
        st\<lparr>segments := AList.delete old (segments st), seg_dirs := AList.delete old (seg_dirs st)\<rparr>)" by blast
    with drop show ?thesis by (intro exI conjI) (assumption, assumption, simp)
  next
    case move
    obtain w r' where m:
      "collect_payloads (seg_x E) r ?live = Inr (map (\<lambda>m. (m_chunk_id m, pl (m_chunk_id m))) ?live)"
      "copy_payloads (seg_x E) nid (map (\<lambda>m. (m_chunk_id m, pl (m_chunk_id m))) ?live)
         (segment_create (map_of (seg_dirs st) nid) nid now) = (moves nid ?live, w)"
      "reader_open (seg_x E) (dir_name nid) (snd (finalize (seg_x E) w)) = Inr r'"
      "relocs_ok ?T (moves nid ?live) (db st)"
      "rewrite_inv E cfg pl k rs n (nid + 1)
         (st\<lparr>db := map (relocate ?T (moves nid ?live)) (db st),
             segments := AList.update nid r' (AList.delete old (segments st)),
             seg_dirs := AList.update nid (snd (finalize (seg_x E) w)) (AList.delete old (seg_dirs st))\<rparr>)"
      by (rule rewrite_move_ok [OF inv move(1)])
    let ?st' = "st\<lparr>db := map (relocate ?T (moves nid ?live)) (db st),
             segments := AList.update nid r' (AList.delete old (segments st)),
             seg_dirs := AList.update nid (snd (finalize (seg_x E) w)) (AList.delete old (seg_dirs st))\<rparr>"
    have "moves nid ?live \<noteq> []" using move(2) by (simp add: moves_def)
    then have "update_chunk_locations ?T (moves nid ?live) (db st) =
        Inr (map (relocate ?T (moves nid ?live)) (db st))"
      by (simp add: update_chunk_locations_def update_locations_ok [OF ok m(4)])
    then have "\<exists>res'. rewrite_segment E ?T now old (nid, res, st) = Inr (nid + 1, res', ?st')"
      using move m(1-3) by (simp add: rewrite_segment_def Let_def)
    then obtain res' where "rewrite_segment E ?T now old (nid, res, st) = Inr (nid + 1, res', ?st')" by blast
    with m(5) catalog_relocate [OF ok m(4)] show ?thesis by (intro exI conjI) (assumption, assumption, simp)
  qed
qed

lemma rewrite_segments_ok:
  assumes "rewrite_inv E cfg pl k rs (length sids) nid st"
  shows "\<exists>nid' res' st'. rewrite_segments E (cfg_tenant_id cfg) now sids (nid, res, st) = Inr (nid', res', st')
      \<and> serving E cfg pl k rs st'
      \<and> catalog (cfg_tenant_id cfg) (db st') = catalog (cfg_tenant_id cfg) (db st)"
  using assms
proof (induction sids arbitrary: nid res st)
  case Nil
  then show ?case by (simp add: rewrite_inv_def rewrite_base_def)
next
  case (Cons sid sids)
  have "rewrite_inv E cfg pl k rs (Suc (length sids)) nid st" using Cons.prems by simp
  from rewrite_segment_ok [OF this, of now sid res] obtain nid1 res1 st1 where
    one: "rewrite_segment E (cfg_tenant_id cfg) now sid (nid, res, st) = Inr (nid1, res1, st1)"
      "rewrite_inv E cfg pl k rs (length sids) nid1 st1"
      "catalog (cfg_tenant_id cfg) (db st1) = catalog (cfg_tenant_id cfg) (db st)" by blast
  from Cons.IH [OF one(2), of res1] one(1,3) show ?case by simp
qed

end

section \<open>The whole rewrite\<close>

lemma next_segment_id_dirs:
  assumes "struct_ok E cfg st k"
  shows "next_segment_id st =
    (if dom (map_of (seg_dirs st)) = {} then 1 else Max (dom (map_of (seg_dirs st))) + 1)"
proof -
  have "dom (map_of (segments st)) \<subseteq> dom (map_of (seg_dirs st))"
    using assms by (auto simp: struct_ok_def readers_ok_def reader_ok_def)
  then have "set (map fst (segments st) @ map fst (seg_dirs st)) = dom (map_of (seg_dirs st))"
    by (auto simp: dom_map_of_conv_image_fst)
  then show ?thesis
    unfolding next_segment_id_def Let_def by (metis set_empty)
qed

lemma finite_dirs: "finite (dom (map_of (seg_dirs st)))"
  by (rule finite_dom_map_of)

context tenant_log
begin

lemma rewrite_finalized_ok:
  assumes serv: "serving E cfg pl (Suc (card (dom (map_of (seg_dirs st))) + k)) rs st"
    and below: "\<forall>m \<in> set (db st). m_tenant_id m = cfg_tenant_id cfg \<longrightarrow> m_segment_id m < next_segment_id st"
  shows "\<exists>res st'. rewrite_finalized_segments E cfg (cfg_tenant_id cfg) now st = Inr (res, st')
      \<and> serving E cfg pl k rs st'
      \<and> catalog (cfg_tenant_id cfg) (db st') = catalog (cfg_tenant_id cfg) (db st)"
proof -
  let ?n = "card (dom (map_of (seg_dirs st)))"
  obtain st1 where f: "finalize_active_segment E cfg st = Inr st1" "serving E cfg pl (Suc (?n + k)) rs st1"
    "db st1 = db st" "active_segment st1 = None" "dom (map_of (seg_dirs st1)) = dom (map_of (seg_dirs st))"
    using serving_finalize [OF serv] by blast
  have struct: "struct_ok E cfg st (length (after_last_checkpoint rs) + Suc (?n + k))"
    and struct1: "struct_ok E cfg st1 (length (after_last_checkpoint rs) + Suc (?n + k))"
    and len: "length (after_last_checkpoint rs) + Suc (?n + k) < 2 ^ 64"
    using serv f(2) by (simp_all add: serving_def recoverable_def)
  have next_eq: "next_segment_id st1 = next_segment_id st"
    using next_segment_id_dirs [OF struct] next_segment_id_dirs [OF struct1] f(5) by simp
  let ?sids = "sorted_list_of_set (fst ` set (segments st1))"
  have "fst ` set (segments st1) \<subseteq> dom (map_of (seg_dirs st1))"
    using struct1 unfolding dom_map_of_conv_image_fst [symmetric]
    by (auto simp: struct_ok_def readers_ok_def reader_ok_def)
  then have n: "length ?sids \<le> ?n"
    using f(5) finite_dirs [of st1] by (simp add: card_mono)
  have bound: "next_segment_id st1 + ?n + length (after_last_checkpoint rs) + k < 2 ^ 64"
  proof (cases "dom (map_of (seg_dirs st1)) = {}")
    case True
    then show ?thesis using len next_segment_id_dirs [OF struct1] by simp
  next
    case False
    then have "Max (dom (map_of (seg_dirs st1))) \<in> dom (map_of (seg_dirs st1))"
      using finite_dirs by (intro Max_in)
    then have "Max (dom (map_of (seg_dirs st1))) + (length (after_last_checkpoint rs) + Suc (?n + k)) < 2 ^ 64"
      using struct1 by (auto simp: struct_ok_def room_def)
    with False show ?thesis using next_segment_id_dirs [OF struct1] by simp
  qed
  have "sid < next_segment_id st1" if "sid \<in> dom (map_of (seg_dirs st1))" for sid
    using that next_segment_id_dirs [OF struct1] Max_ge [OF finite_dirs that] by auto
  then have "rewrite_inv E cfg pl k rs (length ?sids) (next_segment_id st1) st1"
    using f(2-4) below n bound next_eq serving_mono [OF f(2), of k]
    by (auto simp: rewrite_inv_def rewrite_base_def)
  from rewrite_segments_ok [OF this, of now no_rewrite] f(1,3) show ?thesis
    using writable by (auto simp: rewrite_finalized_segments_def)
qed

end

end
