(* ===== verification/Tenant_Instance.thy ===== *)
theory Tenant_Instance
  imports Tenant_Runs Segment_Instance Segment_Rewrite
begin

text \<open>
  A concrete store: the log codec of \<open>Wal_Instance\<close>, lists of ordinals as tombstones, and
  a codec for chunks that stands in for \<open>serde_json\<close> (it carries ids and text; the other
  fields take fixed values). On it the contracts of \<open>tenant_env\<close> and \<open>tenant_log\<close> hold.
  The properties of the tenant store follow, each for every store that meets the contracts.
\<close>

section \<open>A concrete store\<close>

definition plain_chunk :: "string \<Rightarrow> string \<Rightarrow> str \<Rightarrow> memory_chunk" where
  "plain_chunk cid tid body =
     \<lparr>mc_chunk_id = cid, mc_tenant_id = tid, mc_project_id = None, mc_agent_id = None,
      mc_timestamp_created = 0, mc_timestamp_observed = None, mc_chunk_type = chunk_type.Doc,
      mc_status = Final, mc_promotion_state = Raw,
      mc_source = \<lparr>uri = None, repo = None, commit_hash = None, src_path = None, tool_name = None,
                   tool_call_id = None\<rparr>,
      mc_text = body, mc_tags = [], mc_hash = [], mc_ingestion_mode = Conversation\<rparr>"

definition std_chunk_ser :: "memory_chunk \<Rightarrow> bytes" where
  "std_chunk_ser c =
     enc_bytes (map char_byte (mc_chunk_id c)) @ enc_bytes (map char_byte (mc_tenant_id c))
       @ map word_of_nat (mc_text c)"

definition std_chunk_de :: "bytes \<Rightarrow> memory_chunk option" where
  "std_chunk_de bs =
     (case dec_bytes bs of
        None \<Rightarrow> None
      | Some (i, r) \<Rightarrow>
         (case dec_bytes r of
            None \<Rightarrow> None
          | Some (t, body) \<Rightarrow> Some (plain_chunk (map byte_char i) (map byte_char t) (map unat body))))"

definition std_store :: "ordinal_list store_ext" where
  "std_store =
     \<lparr>wal_x = std_ext, seg_x = std_seg, chunk_ser = std_chunk_ser, chunk_de = std_chunk_de,
      artifact_de_ok = (\<lambda>bs. True), uuid_parse = (\<lambda>s. if length s = 36 then Some s else None),
      to_lowercase = (\<lambda>s. s)\<rparr>"

definition std_cfg :: tenant_config where
  "std_cfg = \<lparr>cfg_tenant_id = ''acme'', read_only = False, segment_max_chunks = 1000,
              min_finalize_chunks = 1, wal_checkpoint_interval = 100\<rparr>"

lemma std_sel [simp]:
  "wal_x std_store = std_ext" "bitmap_ops_of (seg_x std_store) = ol_ops" "chunk_de std_store = std_chunk_de"
  "uuid_parse std_store = (\<lambda>s. if length s = 36 then Some s else None)"
  "cfg_tenant_id std_cfg = ''acme''" "\<not> read_only std_cfg" "segment_max_chunks std_cfg = 1000"
  by (simp_all add: std_store_def std_cfg_def)

interpretation std_log: tenant_log std_store std_cfg ol_set
proof (intro tenant_log.intro tenant_env.intro tenant_log_axioms.intro)
  show "bitmap (bitmap_ops_of (seg_x std_store)) ol_set" using ol.bitmap_axioms by simp
  show "wal_codec (wal_x std_store)" using std.wal_codec_axioms by simp
qed (simp_all add: tenant_new_def tenant_validate_def ascii_alnum_def)

lemma std_chunk_roundtrip:
  assumes "length cid < 2 ^ 64" and "length tid < 2 ^ 64" and "\<forall>x \<in> set body. x < 256"
  shows "std_chunk_de (std_chunk_ser (plain_chunk cid tid body)) = Some (plain_chunk cid tid body)"
proof -
  have "map unat (map (word_of_nat :: nat \<Rightarrow> byte) body) = body"
    using assms(3) by (induction body) (simp_all add: unat_of_nat take_bit_nat_eq_self)
  then show ?thesis
    using assms(1,2) by (simp add: std_chunk_de_def std_chunk_ser_def plain_chunk_def dec_enc_bytes)
qed

section \<open>A small scenario\<close>

definition demo_id :: string where
  "demo_id = ''01890a5d-ac96-774b-bcce-b302099a8057''"

definition demo_chunk :: pending_chunk where
  "demo_chunk = \<lparr>p_chunk = plain_chunk demo_id ''acme'' [104, 105],
                  p_payload = std_chunk_ser (plain_chunk demo_id ''acme'' [104, 105])\<rparr>"

definition demo_payload :: "string \<Rightarrow> bytes" where
  "demo_payload cid = p_payload demo_chunk"

lemma length_demo_id [simp]: "length demo_id = 36"
  by (simp add: demo_id_def)

lemma length_demo_payload: "length (p_payload demo_chunk) = 44"
  by (simp add: demo_chunk_def std_chunk_ser_def plain_chunk_def enc_bytes_def varint_def)

lemma demo_sel [simp]:
  "mc_chunk_id (p_chunk demo_chunk) = demo_id" "mc_tenant_id (p_chunk demo_chunk) = ''acme''"
  "mc_status (p_chunk demo_chunk) = Final" "pending_id demo_chunk = demo_id"
  by (simp_all add: demo_chunk_def plain_chunk_def pending_id_def)

lemma strip_coords_status: "m_status (strip_coords m) = m_status m"
  by (simp add: strip_coords_def)

lemma demo_status: "(p_chunk demo_chunk)\<lparr>mc_status := Final\<rparr> = p_chunk demo_chunk"
  by (simp add: demo_chunk_def plain_chunk_def)

lemma demo_pending_ok: "pending_ok std_store std_cfg demo_payload demo_chunk"
proof -
  have "std_chunk_de (p_payload demo_chunk) = Some (p_chunk demo_chunk)"
    by (simp add: demo_chunk_def std_chunk_roundtrip demo_id_def)
  then show ?thesis
    by (simp add: pending_ok_def demo_payload_def payload_ok_def length_demo_payload)
qed

lemma demo_fits: "wal_fits std_ext (pending_record std_cfg demo_chunk)"
  "wal_fits std_ext (checkpoint_record ''acme'' 0)" "wal_fits std_ext (delete_record ''acme'' demo_id 0)"
  by (rule std_fits; simp add: pending_record_def add_record_def checkpoint_record_def
      delete_record_def length_demo_payload)+

lemma demo_batch_ok:
  assumes "catalog ''acme'' (db st) = Map.empty" and "after_last_checkpoint rs = []"
  shows "batch_ok std_store std_cfg demo_payload rs st [demo_chunk]"
  using assms demo_pending_ok demo_fits by (simp add: batch_ok_def)

definition empty_disk :: disk_state where
  "empty_disk = \<lparr>disk_db = [], disk_artifacts = [], disk_wal = None, disk_dirs = []\<rparr>"

lemma demo_open:
  assumes "k < 2 ^ 64"
  shows "\<exists>st. tenant_open std_store std_cfg 0 empty_disk = Inr st
      \<and> serving std_store std_cfg demo_payload k [] st \<and> catalog ''acme'' (db st) = Map.empty
      \<and> db st = [] \<and> active_segment st = None \<and> seg_dirs st = []"
proof -
  have "tenant_open std_store std_cfg 0 empty_disk = Inr st \<Longrightarrow>
      db st = [] \<and> active_segment st = None \<and> seg_dirs st = []" for st
    by (auto simp: empty_disk_def tenant_open_def open_or_create_def writer_create_def recover_from_wal_def)
  with std_log.fresh_open [of "[]" k 0 demo_payload] assms show ?thesis
    by (auto simp: empty_disk_def db_ok_def live_rows_def)
qed

text \<open>The state after the chunk was added, before any checkpoint.\<close>

lemma insert_many_rows: "set (meta_insert_many new rows) \<subseteq> set rows \<union> set new"
proof (induction new arbitrary: rows)
  case Nil
  show ?case by (simp add: meta_insert_many_def)
next
  case (Cons q new)
  have "set (meta_insert q rows) \<subseteq> insert q (set rows)" by (auto simp: meta_insert_def)
  with Cons.IH [of "meta_insert q rows"] show ?case by (auto simp: meta_insert_many_def)
qed

lemma write_one_dirs:
  assumes "write_payloads E cfg now [p] st = Inr (new, s)" and "active_segment st = None"
  shows "dom (map_of (seg_dirs s)) = insert (next_segment_id st) (dom (map_of (seg_dirs st)))"
  using assms
  by (auto simp: get_or_create_active_segment_def create_active_def append_active_def Let_def
      update_conv' split: if_splits sum.splits prod.splits)

lemma demo_added:
  assumes "k < 2 ^ 63"
  shows "\<exists>st. serving std_store std_cfg demo_payload k [pending_record std_cfg demo_chunk] st
      \<and> catalog ''acme'' (db st) demo_id \<noteq> None \<and> card (dom (map_of (seg_dirs st))) = 1
      \<and> (\<forall>m \<in> set (db st). m_segment_id m \<in> dom (map_of (seg_dirs st)))"
proof -
  obtain st where st: "serving std_store std_cfg demo_payload (Suc (Suc k)) [] st" "catalog ''acme'' (db st) = Map.empty"
    "db st = []" "active_segment st = None" "seg_dirs st = []"
    using demo_open [of "Suc (Suc k)"] assms by auto
  have batch: "batch_ok std_store std_cfg demo_payload [] st [demo_chunk]"
    using st(2) by (intro demo_batch_ok) (simp_all add: after_last_checkpoint_def)
  have serv: "serving std_store std_cfg demo_payload (length [demo_chunk] + (length [demo_chunk] + k)) [] st"
    using st(1) by simp
  have all: "[demo_chunk] = take 1 [demo_chunk]" by simp
  obtain new s where s: "wrote std_store std_cfg demo_payload k [] st [demo_chunk] [demo_chunk] new s"
    and w: "write_payloads std_store std_cfg 0 [demo_chunk]
      (st\<lparr>wal := append_batch (wal_x std_store) (map (pending_record std_cfg) [demo_chunk]) (wal st)\<rparr>) = Inr (new, s)"
    using std_log.batch_write [OF serv batch all, of 0] by blast
  have "dom (map_of (seg_dirs s)) = {next_segment_id
      (st\<lparr>wal := append_batch (wal_x std_store) (map (pending_record std_cfg) [demo_chunk]) (wal st)\<rparr>)}"
    using write_one_dirs [OF w] st(4,5) by simp
  then have card: "card (dom (map_of (seg_dirs s))) = 1" by simp
  have same: "db s = []" "\<forall>m \<in> set new. m_segment_id m \<in> dom (map_of (seg_dirs s))"
    using s st(3) by (auto simp: wrote_def row_ok_def)
  note ins = std_log.wrote_insert [OF serv batch s]
  have "catalog_replay std_store (map (pending_record std_cfg) [demo_chunk]) (catalog ''acme'' (db st)) demo_id \<noteq> None"
    using replay_pending_present [of "[demo_chunk]" std_store std_cfg demo_payload demo_chunk] demo_pending_ok
    by simp
  with ins have "serving std_store std_cfg demo_payload k [pending_record std_cfg demo_chunk]
      (s\<lparr>db := meta_insert_many new (db s)\<rparr>)"
    "catalog ''acme'' (db (s\<lparr>db := meta_insert_many new (db s)\<rparr>)) demo_id \<noteq> None" by auto
  moreover have "\<forall>m \<in> set (meta_insert_many new (db s)). m_segment_id m \<in> dom (map_of (seg_dirs s))"
    using insert_many_rows [of new "db s"] same by auto
  ultimately show ?thesis using card by (intro exI [of _ "s\<lparr>db := meta_insert_many new (db s)\<rparr>"]) simp
qed

section \<open>Properties of the tenant store\<close>

text \<open>
  C1. Any sequence of adds, deletes and crash-restarts, started on an empty data directory,
  succeeds and leaves exactly the catalog the sequence specifies: every added chunk that was
  not deleted afterwards is there with the metadata it was added with, whatever crashes came
  between. \<open>tenant_log\<close> are the contracts of the log codec and the bitmap and the bounds on
  the configuration; the ids are new (\<open>ops_ok\<close>) and the counters cannot overflow.
\<close>

theorem store_refines_catalog:
  assumes "tenant_log E cfg bits"
    and "wal_fits (wal_x E) (checkpoint_record (cfg_tenant_id cfg) now)"
    and "ops_ok E cfg pl now {} ops" and "sum_list (map op_cost ops) < 2 ^ 64"
  shows "\<exists>st0 st. tenant_open E cfg now
             \<lparr>disk_db = [], disk_artifacts = [], disk_wal = None, disk_dirs = []\<rparr> = Inr st0
           \<and> run_ops E cfg now ops st0 = Inr st
           \<and> catalog (cfg_tenant_id cfg) (db st) = fold (spec_op E) ops Map.empty
           \<and> (\<forall>cid m. meta_get (db st) (cfg_tenant_id cfg) cid = Some m \<longrightarrow>
                get_chunk E cfg cid st = (decode_chunk E m (pl cid), st))"
proof -
  note log = assms(1)
  obtain st0 where st0: "tenant_open E cfg now
      \<lparr>disk_db = [], disk_artifacts = [], disk_wal = None, disk_dirs = []\<rparr> = Inr st0"
    "serving E cfg pl (sum_list (map op_cost ops) + 0) [] st0"
    "catalog (cfg_tenant_id cfg) (db st0) = Map.empty"
    using tenant_log.fresh_open [OF log, of "[]" "sum_list (map op_cost ops)" now pl] assms(4)
    by (auto simp: db_ok_def live_rows_def)
  then have "knows cfg {} [] st0" by (simp add: knows_def after_last_checkpoint_def)
  from tenant_log.run_ops_ok [OF log st0(2) this assms(3,2)] obtain st rs where
    st: "run_ops E cfg now ops st0 = Inr st" "serving E cfg pl 0 rs st"
      "catalog (cfg_tenant_id cfg) (db st) = fold (spec_op E) ops Map.empty"
    unfolding st0(3) by blast
  from tenant_log.get_chunk_ok [OF log st(2)] st0(1) st(1,3) show ?thesis by simp
qed

theorem store_refines_catalog_witness:
  "\<exists>st0 st. tenant_open std_store std_cfg 0
       \<lparr>disk_db = [], disk_artifacts = [], disk_wal = None, disk_dirs = []\<rparr> = Inr st0
     \<and> run_ops std_store std_cfg 0 [OpAdd [demo_chunk], OpRestart] st0 = Inr st
     \<and> get_chunk std_store std_cfg demo_id st = (Inr (Some (p_chunk demo_chunk)), st)"
proof -
  let ?ops = "[OpAdd [demo_chunk], OpRestart]"
  obtain st0 st where st: "tenant_open std_store std_cfg 0
       \<lparr>disk_db = [], disk_artifacts = [], disk_wal = None, disk_dirs = []\<rparr> = Inr st0"
     "run_ops std_store std_cfg 0 ?ops st0 = Inr st"
     "catalog (cfg_tenant_id std_cfg) (db st) = fold (spec_op std_store) ?ops Map.empty"
     "\<And>m. meta_get (db st) (cfg_tenant_id std_cfg) demo_id = Some m \<Longrightarrow>
          get_chunk std_store std_cfg demo_id st = (decode_chunk std_store m (demo_payload demo_id), st)"
    using store_refines_catalog [OF std_log.tenant_log_axioms, of 0 demo_payload ?ops]
      demo_pending_ok demo_fits by auto
  have "catalog ''acme'' (db st) demo_id = Some (strip_coords (chunk_row std_store (p_chunk demo_chunk) 0 0))"
    using st(3) by (simp add: catalog_add_def)
  then obtain m where m: "meta_get (db st) ''acme'' demo_id = Some m"
    "strip_coords m = strip_coords (chunk_row std_store (p_chunk demo_chunk) 0 0)"
    by (auto simp: catalog_def)
  from m(2) have "m_status m = Final"
    by (metis chunk_metadata.select_convs(7) chunk_row_def demo_sel(3) strip_coords_status)
  then have "decode_chunk std_store m (demo_payload demo_id) = Inr (Some (p_chunk demo_chunk))"
    using demo_pending_ok demo_status by (simp add: decode_chunk_def pending_ok_def demo_payload_def)
  with st m(1) show ?thesis by auto
qed

text \<open>
  C2. Durability of an add: from the moment the log write of a batch returned, a crash at
  any stage of the add (some payloads written, the payload file flushed, the rows inserted,
  the segment finalized, checkpoints appended) is followed by a restart that succeeds, has
  every chunk of the batch and every chunk from before in the catalog, and can read each
  payload from a finalized segment.
\<close>

theorem crash_during_add_recovers:
  assumes "tenant_log E cfg bits"
    and "serving E cfg pl (2 * length ps) rs st" and "batch_ok E cfg pl rs st ps"
    and "wal_fits (wal_x E) (checkpoint_record (cfg_tenant_id cfg) now)"
    and "add_stage E cfg now ps st s"
  shows "\<exists>st'. tenant_open E cfg now' (crash s) = Inr st' \<and> settled E cfg pl st'
      \<and> catalog (cfg_tenant_id cfg) (db st') = catalog_add E ps (catalog (cfg_tenant_id cfg) (db st))"
proof -
  have serv: "serving E cfg pl (length ps + (length ps + 0)) rs st" using assms(2) by (simp add: mult_2)
  have "catalog_replay E (map (pending_record cfg) ps) (catalog (cfg_tenant_id cfg) (db st)) =
      catalog_add E ps (catalog (cfg_tenant_id cfg) (db st))"
    using assms(3) by (intro catalog_add_replay) (auto simp: batch_ok_def)
  with tenant_log.restorable_open [OF assms(1)
      tenant_log.add_stage_restorable [OF assms(1,5) serv assms(3,4)]]
  show ?thesis by simp
qed

theorem crash_during_add_recovers_witness:
  "\<exists>st s st'. tenant_open std_store std_cfg 0
        \<lparr>disk_db = [], disk_artifacts = [], disk_wal = None, disk_dirs = []\<rparr> = Inr st
      \<and> add_stage std_store std_cfg 0 [demo_chunk] st s \<and> db s = []
      \<and> tenant_open std_store std_cfg 5 (crash s) = Inr st' \<and> settled std_store std_cfg demo_payload st'
      \<and> catalog ''acme'' (db st') =
          [demo_id \<mapsto> strip_coords (chunk_row std_store (p_chunk demo_chunk) 0 0)]"
proof -
  obtain st where st: "tenant_open std_store std_cfg 0
        \<lparr>disk_db = [], disk_artifacts = [], disk_wal = None, disk_dirs = []\<rparr> = Inr st"
    "serving std_store std_cfg demo_payload 2 [] st" "catalog ''acme'' (db st) = Map.empty" "db st = []"
    using demo_open [of 2] unfolding empty_disk_def by auto
  have batch: "batch_ok std_store std_cfg demo_payload [] st [demo_chunk]"
    using st(3) by (intro demo_batch_ok) (simp_all add: after_last_checkpoint_def)
  have serv': "serving std_store std_cfg demo_payload (length [demo_chunk] + (length [demo_chunk] + 0)) [] st"
    using st(2) by (simp add: numeral_2_eq_2)
  from std_log.batch_write [OF serv' batch refl, where j = 1 and now = 0]
  obtain new s where s: "write_payloads std_store std_cfg 0 (take 1 [demo_chunk])
      (st\<lparr>wal := append_batch (wal_x std_store) (map (pending_record std_cfg) [demo_chunk]) (wal st)\<rparr>) = Inr (new, s)"
    "wrote std_store std_cfg demo_payload 0 [] st [demo_chunk] (take 1 [demo_chunk]) new s" by blast
  have "append_wal_add_batch std_store std_cfg [demo_chunk] st =
      Inr (st\<lparr>wal := append_batch (wal_x std_store) (map (pending_record std_cfg) [demo_chunk]) (wal st)\<rparr>)"
    by (rule append_wal_add_batch_records) simp
  then have stage: "add_stage std_store std_cfg 0 [demo_chunk] st s" using s(1) by (rule add_stage.writing)
  have serv: "serving std_store std_cfg demo_payload (2 * length [demo_chunk]) [] st" using st(2) by simp
  have cp: "wal_fits (wal_x std_store) (checkpoint_record (cfg_tenant_id std_cfg) 0)" using demo_fits by simp
  from crash_during_add_recovers [OF std_log.tenant_log_axioms serv batch cp stage, of 5]
  obtain st' where "tenant_open std_store std_cfg 5 (crash s) = Inr st'"
    "settled std_store std_cfg demo_payload st'"
    "catalog (cfg_tenant_id std_cfg) (db st') = catalog_add std_store [demo_chunk] (catalog (cfg_tenant_id std_cfg) (db st))"
    by blast
  moreover have "db s = []" using s(2) st(4) by (simp add: wrote_def)
  ultimately show ?thesis using st(1,3) stage by (auto simp: catalog_add_def)
qed

text \<open>
  C3. Durability of a delete: once the delete record is in the log, a crash before or after
  the row was marked or the segment tombstoned is followed by a restart after which the chunk
  is gone and every other chunk is unchanged and readable.
\<close>

theorem crash_during_delete_recovers:
  assumes "tenant_log E cfg bits" and "serving E cfg pl 1 rs st"
    and "uuid_parse E cid = Some cid"
    and "wal_fits (wal_x E) (delete_record (cfg_tenant_id cfg) cid now)"
    and "delete_stage E cfg now cid st s"
  shows "\<exists>st'. tenant_open E cfg now' (crash s) = Inr st' \<and> settled E cfg pl st'
      \<and> catalog (cfg_tenant_id cfg) (db st') = (catalog (cfg_tenant_id cfg) (db st))(cid := None)"
  using tenant_log.restorable_open [OF assms(1)
      tenant_log.delete_stage_restorable [OF assms(1,5) _ assms(3,4)], of pl 0 rs] assms(2) by simp

theorem crash_during_delete_recovers_witness:
  "\<exists>st s st'. serving std_store std_cfg demo_payload 1 [pending_record std_cfg demo_chunk] st
      \<and> catalog ''acme'' (db st) demo_id \<noteq> None
      \<and> delete_stage std_store std_cfg 0 demo_id st s \<and> db s = db st
      \<and> tenant_open std_store std_cfg 5 (crash s) = Inr st' \<and> catalog ''acme'' (db st') demo_id = None"
proof -
  obtain st where st: "serving std_store std_cfg demo_payload 1 [pending_record std_cfg demo_chunk] st"
    "catalog ''acme'' (db st) demo_id \<noteq> None"
    using demo_added [of 1] by auto
  let ?s = "st\<lparr>wal := append_delete (wal_x std_store) (cfg_tenant_id std_cfg) demo_id 0 (wal st)\<rparr>"
  obtain m where "meta_get (db st) (cfg_tenant_id std_cfg) demo_id = Some m"
    using st(2) by (auto simp: catalog_def)
  then have stage: "delete_stage std_store std_cfg 0 demo_id st ?s" by (rule delete_stage.logged)
  from crash_during_delete_recovers [OF std_log.tenant_log_axioms st(1) _ _ this, of 5] demo_fits
  obtain st' where "tenant_open std_store std_cfg 5 (crash ?s) = Inr st'"
    "catalog (cfg_tenant_id std_cfg) (db st') = (catalog (cfg_tenant_id std_cfg) (db st))(demo_id := None)"
    by auto
  with st stage show ?thesis by (intro exI [of _ st] exI [of _ ?s] exI [of _ st']) simp
qed

text \<open>
  C4. Recovery is replay: opening a tenant on the disk state of a recoverable store replays
  exactly the log records after the last checkpoint on the catalog. A row the table already
  has keeps its metadata (the table is authoritative for the lifecycle) and at most gets new
  coordinates; afterwards every live row's payload is readable, nothing is unfinalized, and
  the log is empty unless there was nothing to replay.
\<close>

theorem recovery_replays_tail:
  assumes "tenant_log E cfg bits"
    and "recoverable E cfg pl k tail st"
    and "disk_db d = db st" and "disk_dirs d = disk_dirs (crash st)" and "disk_wal d = Some data"
    and "records_for_recovery (wal_x E) data = tail"
  shows "\<exists>st'. tenant_open E cfg now d = Inr st' \<and> settled E cfg pl st'
      \<and> catalog (cfg_tenant_id cfg) (db st') = catalog_replay E tail (catalog (cfg_tenant_id cfg) (db st))
      \<and> file_data (wal st') = (if tail = [] then data else [])"
proof -
  have env: "tenant_env E cfg bits" using assms(1) by (rule tenant_log.axioms)
  show ?thesis
    by (rule tenant_env.open_recoverable [OF env assms(2-6), of now]) blast
qed

theorem recovery_replays_tail_witness:
  "\<exists>st d st'. recoverable std_store std_cfg demo_payload 1 [pending_record std_cfg demo_chunk] st
      \<and> disk_wal d = Some (encode_to_bytes std_ext (pending_record std_cfg demo_chunk) @ [0x4D, 0x57])
      \<and> tenant_open std_store std_cfg 7 d = Inr st' \<and> settled std_store std_cfg demo_payload st'
      \<and> catalog ''acme'' (db st') demo_id \<noteq> None \<and> file_data (wal st') = []"
proof -
  obtain st where st: "serving std_store std_cfg demo_payload 1 [pending_record std_cfg demo_chunk] st"
    "catalog ''acme'' (db st) demo_id \<noteq> None"
    using demo_added [of 1] by auto
  let ?r = "pending_record std_cfg demo_chunk"
  let ?data = "encode_to_bytes std_ext ?r @ [0x4D, 0x57]"
  let ?d = "(crash st)\<lparr>disk_wal := Some ?data\<rparr>"
  have tail: "after_last_checkpoint [?r] = [?r]" by (simp add: after_last_checkpoint_def is_checkpoint_def)
  have rec: "recoverable std_store std_cfg demo_payload 1 [?r] st"
    and cat: "catalog_replay std_store [?r] (catalog ''acme'' (db st)) = catalog ''acme'' (db st)"
    using st(1) by (simp_all add: serving_def tail)
  have "fst (read_all_records std_ext (concat (map (encode_to_bytes std_ext) [?r]) @ [0x4D, 0x57])) = [?r]"
    using std.read_all_until [of "[?r]" "[0x4D, 0x57]"] demo_fits(1)
    by (simp add: decode_from_bytes_def WAL_HEADER_SIZE_def)
  then have "records_for_recovery (wal_x std_store) ?data = [?r]"
    by (simp add: records_for_recovery_eq tail)
  from recovery_replays_tail [OF std_log.tenant_log_axioms rec _ _ _ this, of ?d 7]
  obtain st' where "tenant_open std_store std_cfg 7 ?d = Inr st'" "settled std_store std_cfg demo_payload st'"
    "catalog (cfg_tenant_id std_cfg) (db st') =
       catalog_replay std_store [?r] (catalog (cfg_tenant_id std_cfg) (db st))" "file_data (wal st') = []"
    by auto
  with st(2) rec cat show ?thesis by (intro exI [of _ st] exI [of _ ?d] exI [of _ st']) simp
qed

text \<open>
  C36. A torn first record is never repaired: when a crash cut the very first log write after
  one to three bytes, opening the tenant succeeds and leaves those bytes in the log, and
  whatever batch is then appended, a later recovery finds no record in the log at all.
\<close>

theorem torn_first_record_disables_log:
  assumes "1 \<le> n" and "n \<le> 3" and "disk_wal d = Some (take n (encode_to_bytes (wal_x E) r))"
  shows "\<exists>st. tenant_open E cfg now d = Inr st
    \<and> (\<forall>batch. records_for_recovery (wal_x E) (file_data (append_batch (wal_x E) batch (wal st))) = [])"
proof -
  let ?data = "take n (encode_to_bytes (wal_x E) r)"
  let ?w = "\<lparr>file_data = ?data, append_mode = True, cursor = 0, records_written = 0\<rparr>"
  have lost: "records_for_recovery (wal_x E) (?data @ concat (map (encode_to_bytes (wal_x E)) batch)) = []" for batch
    using read_all_bad_magic [OF torn_front_not_magic [OF assms(1,2)]]
    by (simp add: records_for_recovery_eq after_last_checkpoint_def)
  have "tenant_open E cfg now d = Inr (boot E d ?w)"
    using lost [of "[]"] assms(3)
    by (simp add: tenant_open_def open_or_create_def writer_open_def recover_from_wal_def boot_def)
  moreover have "file_data (append_batch (wal_x E) batch ?w) =
      ?data @ concat (map (encode_to_bytes (wal_x E)) batch)" for batch
    using at_end_append_batch(1) [of ?w "wal_x E" batch] by (simp add: at_end_def)
  ultimately show ?thesis using lost by auto
qed

theorem torn_first_record_disables_log_witness:
  "\<exists>st. tenant_open std_store std_cfg 0 \<lparr>disk_db = [], disk_artifacts = [],
        disk_wal = Some (take 2 (encode_to_bytes (wal_x std_store) (pending_record std_cfg demo_chunk))),
        disk_dirs = []\<rparr> = Inr st
    \<and> records_for_recovery (wal_x std_store)
        (file_data (append_batch (wal_x std_store) [pending_record std_cfg demo_chunk] (wal st))) = []"
  using torn_first_record_disables_log [of 2 "\<lparr>disk_db = [], disk_artifacts = [],
        disk_wal = Some (take 2 (encode_to_bytes (wal_x std_store) (pending_record std_cfg demo_chunk))),
        disk_dirs = []\<rparr>" std_store "pending_record std_cfg demo_chunk" std_cfg 0]
  by auto

text \<open>
  C5. Rewriting segments loses nothing: on a serving store the rewrite succeeds, leaves the
  catalog unchanged and the store in a serving state, so every live chunk is readable at its
  new coordinates; provided no row of the tenant, deleted ones included, points at a segment
  id the rewrite is about to use.
\<close>

theorem rewrite_preserves_catalog:
  assumes "tenant_log E cfg bits"
    and "serving E cfg pl (Suc (card (dom (map_of (seg_dirs st))) + k)) rs st"
    and "\<forall>m \<in> set (db st). m_tenant_id m = cfg_tenant_id cfg \<longrightarrow> m_segment_id m < next_segment_id st"
  shows "\<exists>res st'. rewrite_finalized_segments E cfg (cfg_tenant_id cfg) now st = Inr (res, st')
      \<and> serving E cfg pl k rs st'
      \<and> catalog (cfg_tenant_id cfg) (db st') = catalog (cfg_tenant_id cfg) (db st)"
  by (rule tenant_log.rewrite_finalized_ok [OF assms])

theorem rewrite_preserves_catalog_witness:
  "\<exists>st res st'. catalog ''acme'' (db st) demo_id \<noteq> None
      \<and> rewrite_finalized_segments std_store std_cfg ''acme'' 9 st = Inr (res, st')
      \<and> catalog ''acme'' (db st') = catalog ''acme'' (db st)"
proof -
  obtain st where st: "serving std_store std_cfg demo_payload 7 [pending_record std_cfg demo_chunk] st"
    "catalog ''acme'' (db st) demo_id \<noteq> None" "card (dom (map_of (seg_dirs st))) = 1"
    "\<forall>m \<in> set (db st). m_segment_id m \<in> dom (map_of (seg_dirs st))"
    using demo_added [of 7] by auto
  have serv: "serving std_store std_cfg demo_payload (Suc (card (dom (map_of (seg_dirs st))) + 5))
      [pending_record std_cfg demo_chunk] st"
    using st(1) by (simp add: st(3))
  have struct: "struct_ok std_store std_cfg st (length (after_last_checkpoint [pending_record std_cfg demo_chunk]) + 7)"
    using st(1) by (simp add: serving_def recoverable_def)
  have "m_segment_id m < next_segment_id st" if "m \<in> set (db st)" for m
  proof -
    have m: "m_segment_id m \<in> dom (map_of (seg_dirs st))" using st(4) that by blast
    then have "m_segment_id m \<le> Max (dom (map_of (seg_dirs st)))" by (intro Max_ge finite_dirs)
    then show ?thesis using m next_segment_id_dirs [OF struct] by auto
  qed
  then have "\<forall>m \<in> set (db st). m_tenant_id m = cfg_tenant_id std_cfg \<longrightarrow> m_segment_id m < next_segment_id st"
    by blast
  from rewrite_preserves_catalog [OF std_log.tenant_log_axioms serv this, of 9] st(2) show ?thesis by auto
qed

end
