(* ===== verification/Lifecycle_Instance.thy ===== *)
theory Lifecycle_Instance
  imports Lifecycle_Sweep Tenant_Instance
begin

text \<open>
  Sequences of store and lifecycle operations with crash-restarts in between, refined to the
  catalog; the properties of superseding, and their instances on the concrete store.
\<close>

section \<open>Operations and their specification\<close>

datatype live_op =
    LBase store_op
  | LUpdate string lifecycle_delta
  | LSupersede string memory_chunk lifecycle_delta "nat \<Rightarrow> string"
  | LExpire i64
  | LPromote i64 i64

text \<open>
  A refused supersession is reported to the caller and changes nothing; the other operations
  do not fail in a run. A restart begins with a new searcher, whose version starts at 1.
\<close>

definition run_live_op ::
  "'b store_ext \<Rightarrow> tenant_config \<Rightarrow> (str \<Rightarrow> str list) \<Rightarrow> (str \<Rightarrow> string) \<Rightarrow> bool \<Rightarrow> i64 \<Rightarrow> live_op \<Rightarrow> 'b live_store
     \<Rightarrow> memd_error + 'b live_store" where
  "run_live_op E cfg sg hx ix now x s =
     (case x of
        LBase y \<Rightarrow>
          (case run_op E cfg now y (store s) of
             Inl e \<Rightarrow> Inl e
           | Inr st \<Rightarrow>
               Inr ((if y = OpRestart then (\<lambda>s. s\<lparr>version := map_option (\<lambda>_. 1) (version s)\<rparr>)
                     else if ix then bump else id) (s\<lparr>store := st\<rparr>)))
      | LUpdate cid d \<Rightarrow>
          (case update_lifecycle_if_exists cfg cid d s of Inl e \<Rightarrow> Inl e | Inr (_, s') \<Rightarrow> Inr s')
      | LSupersede old chunk d ids \<Rightarrow>
          Inr (snd (supersede_chunk_with_lifecycle_and_stored_ids E cfg sg hx now ids ix old chunk d s))
      | LExpire t \<Rightarrow>
          (case expiry_sweep E (cfg_tenant_id cfg) True t s of Inl e \<Rightarrow> Inl e | Inr (_, s') \<Rightarrow> Inr s')
      | LPromote age t \<Rightarrow>
          (case history_promotion E (cfg_tenant_id cfg) age True t s of Inl e \<Rightarrow> Inl e | Inr (_, s') \<Rightarrow> Inr s'))"

fun run_live_ops ::
  "'b store_ext \<Rightarrow> tenant_config \<Rightarrow> (str \<Rightarrow> str list) \<Rightarrow> (str \<Rightarrow> string) \<Rightarrow> bool \<Rightarrow> i64 \<Rightarrow> live_op list \<Rightarrow> 'b live_store
     \<Rightarrow> memd_error + 'b live_store" where
  "run_live_ops E cfg sg hx ix now [] s = Inr s"
| "run_live_ops E cfg sg hx ix now (x # xs) s =
     (case run_live_op E cfg sg hx ix now x s of Inl e \<Rightarrow> Inl e | Inr s' \<Rightarrow> run_live_ops E cfg sg hx ix now xs s')"

definition parts_of :: "'b store_ext \<Rightarrow> (str \<Rightarrow> str list) \<Rightarrow> (str \<Rightarrow> string) \<Rightarrow> (nat \<Rightarrow> string) \<Rightarrow> memory_chunk \<Rightarrow> pending_chunk list" where
  "parts_of E sg hx ids chunk =
     (case expand_chunks_for_add sg chunk of Inl e \<Rightarrow> [] | Inr parts \<Rightarrow> pending_of E hx ids parts)"

text \<open>What the operations mean for the catalog.\<close>

definition spec_live_op ::
  "'b store_ext \<Rightarrow> string \<Rightarrow> (str \<Rightarrow> str list) \<Rightarrow> (str \<Rightarrow> string) \<Rightarrow> i64 \<Rightarrow> live_op
     \<Rightarrow> (string \<Rightarrow> chunk_metadata option) \<Rightarrow> string \<Rightarrow> chunk_metadata option" where
  "spec_live_op E tid sg hx now x v =
     (case x of
        LBase y \<Rightarrow> spec_op E y v
      | LUpdate cid d \<Rightarrow> catalog_delta cid d v
      | LSupersede old chunk d ids \<Rightarrow>
          if v old \<noteq> None \<and> successor v old = None
          then catalog_supersede E now old (parts_of E sg hx ids chunk) d v else v
      | LExpire t \<Rightarrow> (\<lambda>c. map_option (expire_step tid t) (v c))
      | LPromote age t \<Rightarrow> (\<lambda>c. map_option (history_step tid (saturating_sub t age) t) (v c)))"

fun live_op_ids :: "'b store_ext \<Rightarrow> (str \<Rightarrow> str list) \<Rightarrow> (str \<Rightarrow> string) \<Rightarrow> live_op \<Rightarrow> string set" where
  "live_op_ids E sg hx (LBase y) = op_ids y"
| "live_op_ids E sg hx (LSupersede old chunk d ids) = pending_id ` set (parts_of E sg hx ids chunk)"
| "live_op_ids E sg hx _ = {}"

fun live_op_cost :: "'b store_ext \<Rightarrow> (str \<Rightarrow> str list) \<Rightarrow> (str \<Rightarrow> string) \<Rightarrow> live_op \<Rightarrow> nat" where
  "live_op_cost E sg hx (LBase y) = op_cost y"
| "live_op_cost E sg hx (LSupersede old chunk d ids) = 2 * length (parts_of E sg hx ids chunk)"
| "live_op_cost E sg hx _ = 0"

fun live_op_ok ::
  "'b store_ext \<Rightarrow> tenant_config \<Rightarrow> (string \<Rightarrow> bytes) \<Rightarrow> (str \<Rightarrow> str list) \<Rightarrow> (str \<Rightarrow> string) \<Rightarrow> i64 \<Rightarrow> string set
     \<Rightarrow> live_op \<Rightarrow> bool" where
  "live_op_ok E cfg pl sg hx now used (LBase y) \<longleftrightarrow> op_ok E cfg pl now used y"
| "live_op_ok E cfg pl sg hx now used (LUpdate cid d) \<longleftrightarrow> plain_delta d"
| "live_op_ok E cfg pl sg hx now used (LSupersede old chunk d ids) \<longleftrightarrow>
     plain_delta d \<and> mc_tenant_id chunk = cfg_tenant_id cfg
     \<and> (\<exists>parts. expand_chunks_for_add sg chunk = Inr parts)
     \<and> op_ok E cfg pl now used (OpAdd (parts_of E sg hx ids chunk))"
| "live_op_ok E cfg pl sg hx now used _ \<longleftrightarrow> True"

fun live_ops_ok ::
  "'b store_ext \<Rightarrow> tenant_config \<Rightarrow> (string \<Rightarrow> bytes) \<Rightarrow> (str \<Rightarrow> str list) \<Rightarrow> (str \<Rightarrow> string) \<Rightarrow> i64 \<Rightarrow> string set
     \<Rightarrow> live_op list \<Rightarrow> bool" where
  "live_ops_ok E cfg pl sg hx now used [] \<longleftrightarrow> True"
| "live_ops_ok E cfg pl sg hx now used (x # xs) \<longleftrightarrow>
     live_op_ok E cfg pl sg hx now used x \<and> live_ops_ok E cfg pl sg hx now (used \<union> live_op_ids E sg hx x) xs"

section \<open>Refinement\<close>

definition parse_ok :: "'b store_ext \<Rightarrow> (string \<Rightarrow> chunk_metadata option) \<Rightarrow> bool" where
  "parse_ok E v \<longleftrightarrow> (\<forall>c \<in> dom v. uuid_parse E c = Some c)"

lemma parse_ok_live:
  assumes "db_ok rows" and "parse_ok E (catalog tid rows)"
  shows "live_ids_ok E tid rows"
proof -
  have "m_chunk_id m \<in> dom (catalog tid rows)" if "m \<in> live_rows tid rows" for m
    using meta_get_Some [OF assms(1), of tid "m_chunk_id m" m] that by (auto simp: catalog_def dom_def)
  then show ?thesis using assms(2) by (auto simp: live_ids_ok_def parse_ok_def)
qed

lemma parse_ok_subset: "parse_ok E v \<Longrightarrow> dom w \<subseteq> dom v \<Longrightarrow> parse_ok E w"
  unfolding parse_ok_def by blast

lemma parse_ok_add:
  "parse_ok E v \<Longrightarrow> op_ok E cfg pl now used (OpAdd ps) \<Longrightarrow> parse_ok E (catalog_add E ps v)"
  by (auto simp: parse_ok_def dom_catalog_add pending_ok_def pending_id_def)

lemma dom_two_updates: "dom (w(a := map_option f (w a), b := map_option g (w b))) = dom w"
  by (auto simp: dom_def)

lemma dom_supersede:
  assumes "plain_delta d"
  shows "dom (catalog_supersede E now old ps d v) = dom (catalog_add E ps v)"
proof -
  have "dom (fold (\<lambda>i. catalog_delta i (stamped now d)) is w) = dom w" for "is" w
    using fold_delta_links(3) [of "stamped now d" "is" w] assms by (auto simp: dom_def)
  then show ?thesis unfolding catalog_supersede_def Let_def dom_two_updates by simp
qed

definition live_ok ::
  "'b store_ext \<Rightarrow> tenant_config \<Rightarrow> (string \<Rightarrow> bytes) \<Rightarrow> nat \<Rightarrow> string set \<Rightarrow> 'b tenant_store \<Rightarrow> bool" where
  "live_ok E cfg pl k used st \<longleftrightarrow>
     (\<exists>rs. live_inv E cfg pl k used rs st) \<and> parse_ok E (catalog (cfg_tenant_id cfg) (db st))"

lemma live_inv_mono: "live_inv E cfg pl k used rs st \<Longrightarrow> used \<subseteq> used' \<Longrightarrow> live_inv E cfg pl k used' rs st"
  using links_mono knows_grow unfolding live_inv_def by blast

lemma live_sweep:
  assumes "live_ok E cfg pl k used st" and "overlay f (db st)" and "keeps_links f"
  shows "live_ok E cfg pl k used (st\<lparr>db := map f (db st)\<rparr>)"
    and "catalog (cfg_tenant_id cfg) (map f (db st)) = (\<lambda>c. map_option f (catalog (cfg_tenant_id cfg) (db st) c))"
proof -
  show cat: "catalog (cfg_tenant_id cfg) (map f (db st)) = (\<lambda>c. map_option f (catalog (cfg_tenant_id cfg) (db st) c))"
    by (rule overlay_catalog [OF assms(2)])
  show "live_ok E cfg pl k used (st\<lparr>db := map f (db st)\<rparr>)"
    using assms(1) live_step [OF _ assms(2,3), of E cfg pl k used] unfolding live_ok_def
    by (auto simp: cat parse_ok_def dom_def)
qed

context tenant_log
begin

lemma live_inv_less: "live_inv E cfg pl k used rs st \<Longrightarrow> j \<le> k \<Longrightarrow> live_inv E cfg pl j used rs st"
  using serving_mono unfolding live_inv_def by blast

lemma run_base_ok:
  assumes ok: "live_ok E cfg pl (op_cost y + k) used st" and y: "op_ok E cfg pl now used y"
    and cp: "wal_fits (wal_x E) (checkpoint_record (cfg_tenant_id cfg) now)"
  shows "\<exists>st'. run_op E cfg now y st = Inr st' \<and> live_ok E cfg pl k (used \<union> op_ids y) st'
      \<and> catalog (cfg_tenant_id cfg) (db st') = spec_op E y (catalog (cfg_tenant_id cfg) (db st))"
proof -
  let ?v = "catalog (cfg_tenant_id cfg) (db st)"
  obtain rs where inv: "live_inv E cfg pl (op_cost y + k) used rs st" and pa: "parse_ok E ?v"
    using ok by (auto simp: live_ok_def)
  show ?thesis
  proof (cases y)
    case (OpAdd ps)
    with inv y obtain st' rs' where "add_batch E cfg now ps st = Inr st'"
      "live_inv E cfg pl k (used \<union> pending_id ` set ps) rs' st'" "catalog (cfg_tenant_id cfg) (db st') = catalog_add E ps ?v"
      using live_add [OF _ _ cp, of pl ps k used rs st] by auto
    moreover have "parse_ok E (catalog_add E ps ?v)" using parse_ok_add [OF pa] y OpAdd by blast
    ultimately show ?thesis using OpAdd by (auto simp: live_ok_def)
  next
    case (OpDelete cid)
    with inv y obtain st' rs' where "delete_chunk E cfg now cid st = Inr (?v cid \<noteq> None, st')"
      "live_inv E cfg pl k (insert cid used) rs' st'" "catalog (cfg_tenant_id cfg) (db st') = ?v(cid := None)"
      using live_delete [of pl k used rs st now cid] by auto
    moreover have "parse_ok E (?v(cid := None))" using parse_ok_subset [OF pa] by auto
    ultimately show ?thesis using OpDelete by (auto simp: live_ok_def)
  next
    case OpRestart
    with inv have "live_inv E cfg pl k used rs st" by simp
    from live_restart [OF this, of now] pa OpRestart show ?thesis by (auto simp: live_ok_def)
  qed
qed

lemma run_live_op_ok:
  assumes ok: "live_ok E cfg pl (live_op_cost E sg hx x + k) used (store s)"
    and x: "live_op_ok E cfg pl sg hx now used x"
    and cp: "wal_fits (wal_x E) (checkpoint_record (cfg_tenant_id cfg) now)"
  shows "\<exists>s'. run_live_op E cfg sg hx ix now x s = Inr s'
      \<and> live_ok E cfg pl k (used \<union> live_op_ids E sg hx x) (store s')
      \<and> catalog (cfg_tenant_id cfg) (db (store s')) =
          spec_live_op E (cfg_tenant_id cfg) sg hx now x (catalog (cfg_tenant_id cfg) (db (store s)))"
proof -
  let ?T = "cfg_tenant_id cfg"
  let ?v = "catalog ?T (db (store s))"
  obtain rs where inv: "live_inv E cfg pl (live_op_cost E sg hx x + k) used rs (store s)" and pa: "parse_ok E ?v"
    using ok by (auto simp: live_ok_def)
  have db: "db_ok (db (store s))" using inv by (simp add: live_inv_def serving_def recoverable_def)
  note ids = parse_ok_live [OF db pa]
  show ?thesis
  proof (cases x)
    case (LBase y)
    with run_base_ok [of pl y k used "store s" now] ok x cp show ?thesis
      by (auto simp: run_live_op_def spec_live_op_def bump_def)
  next
    case (LUpdate cid d)
    then have plain: "plain_delta d" using x by simp
    let ?rows = "snd (update_lifecycle_counted ?T cid d (db (store s)))"
    have "live_inv E cfg pl k used rs ((store s)\<lparr>db := ?rows\<rparr>)" using live_delta [OF _ plain] inv LUpdate by simp
    moreover have cat: "catalog ?T ?rows = catalog_delta cid d ?v" using plain by (simp add: delta_catalog plain_delta_def)
    moreover have "parse_ok E (catalog_delta cid d ?v)"
      using catalog_delta_links(3) [OF plain, of cid ?v] by (intro parse_ok_subset [OF pa] subsetI) (metis domIff)
    moreover obtain s' where "run_live_op E cfg sg hx ix now x s = Inr s'" "store s' = (store s)\<lparr>db := ?rows\<rparr>"
      using writable
      by (cases "update_lifecycle_counted ?T cid d (db (store s))"; cases "0 < fst (update_lifecycle_counted ?T cid d (db (store s)))")
        (auto simp: LUpdate run_live_op_def update_lifecycle_if_exists_def bump_def set_db_def)
    ultimately show ?thesis by (auto simp: LUpdate spec_live_op_def live_ok_def)
  next
    case (LSupersede old chunk d ids)
    let ?ps = "parts_of E sg hx ids chunk"
    obtain parts where p: "expand_chunks_for_add sg chunk = Inr parts" "?ps = pending_of E hx ids parts"
      using x by (auto simp: LSupersede parts_of_def)
    have h: "plain_delta d" "mc_tenant_id chunk = ?T" "op_ok E cfg pl now used (OpAdd ?ps)"
      using x by (simp_all add: LSupersede)
    have inv': "live_inv E cfg pl (2 * length ?ps + k) used rs (store s)" using inv by (simp add: LSupersede)
    show ?thesis
    proof (cases "?v old \<noteq> None \<and> successor ?v old = None")
      case True
      then obtain s' rs' where
        "supersede_chunk_with_lifecycle_and_stored_ids E cfg sg hx now ids ix old chunk d s =
          (Inr (pending_id (hd ?ps), map pending_id ?ps), s')"
        "live_inv E cfg pl k (used \<union> pending_id ` set ?ps) rs' (store s')"
        "catalog ?T (db (store s')) = catalog_supersede E now old ?ps d ?v"
        using supersede_head [OF inv' p h(3,2,1) cp conjunct1 [OF True] conjunct2 [OF True], of ix] by blast
      moreover have "parse_ok E (catalog_supersede E now old ?ps d ?v)"
        using parse_ok_subset [OF parse_ok_add [OF pa h(3)]] dom_supersede [OF h(1), of E now old ?ps ?v] by simp
      ultimately show ?thesis
        using True by (auto simp: LSupersede run_live_op_def spec_live_op_def live_ok_def)
    next
      case False
      have li: "links_ok used ?v" using inv by (simp add: live_inv_def)
      have "live_inv E cfg pl k (used \<union> pending_id ` set ?ps) rs (store s)"
        using live_inv_mono [OF live_inv_less [OF inv']] by simp
      with supersede_refused [OF li writable h(2), of old E sg hx now ids ix d] False pa show ?thesis
        by (auto simp: LSupersede run_live_op_def spec_live_op_def live_ok_def)
    qed
  next
    case (LExpire t)
    then have ok': "live_ok E cfg pl k used (store s)" using ok by simp
    obtain s' where "run_live_op E cfg sg hx ix now x s = Inr s'"
      "store s' = (store s)\<lparr>db := map (expire_step ?T t) (db (store s))\<rparr>"
      using expiry_sweep_exact [OF db ids, where now = t and hybrid = True] by (auto simp: LExpire run_live_op_def bump_def set_db_def)
    with live_sweep [OF ok' expire_step_overlay steps_keep_links(1), of ?T t] show ?thesis
      by (auto simp: LExpire spec_live_op_def)
  next
    case (LPromote age t)
    then have ok': "live_ok E cfg pl k used (store s)" using ok by simp
    obtain s' where "run_live_op E cfg sg hx ix now x s = Inr s'"
      "store s' = (store s)\<lparr>db := map (history_step ?T (saturating_sub t age) t) (db (store s))\<rparr>"
      using history_promotion_exact [OF db ids, where now = t and age = age and hybrid = True] by (auto simp: LPromote run_live_op_def bump_def set_db_def)
    with live_sweep [OF ok' history_step_overlay steps_keep_links(2), of ?T "saturating_sub t age" t] show ?thesis
      by (auto simp: LPromote spec_live_op_def)
  qed
qed

lemma run_live_ops_ok:
  assumes "live_ok E cfg pl (sum_list (map (live_op_cost E sg hx) xs) + k) used (store s)"
    and "live_ops_ok E cfg pl sg hx now used xs"
    and cp: "wal_fits (wal_x E) (checkpoint_record (cfg_tenant_id cfg) now)"
  shows "\<exists>s' used'. run_live_ops E cfg sg hx ix now xs s = Inr s' \<and> live_ok E cfg pl k used' (store s')
      \<and> catalog (cfg_tenant_id cfg) (db (store s')) =
          fold (spec_live_op E (cfg_tenant_id cfg) sg hx now) xs (catalog (cfg_tenant_id cfg) (db (store s)))"
  using assms(1,2)
proof (induction xs arbitrary: s used)
  case Nil
  then show ?case by auto
next
  case (Cons x xs)
  have ok: "live_ok E cfg pl (live_op_cost E sg hx x + (sum_list (map (live_op_cost E sg hx) xs) + k)) used (store s)"
    and x: "live_op_ok E cfg pl sg hx now used x"
    and xs: "live_ops_ok E cfg pl sg hx now (used \<union> live_op_ids E sg hx x) xs"
    using Cons.prems by (simp_all add: add.assoc)
  obtain s1 where s1: "run_live_op E cfg sg hx ix now x s = Inr s1"
    "live_ok E cfg pl (sum_list (map (live_op_cost E sg hx) xs) + k) (used \<union> live_op_ids E sg hx x) (store s1)"
    "catalog (cfg_tenant_id cfg) (db (store s1)) =
       spec_live_op E (cfg_tenant_id cfg) sg hx now x (catalog (cfg_tenant_id cfg) (db (store s)))"
    using run_live_op_ok [OF ok x cp] by blast
  from Cons.IH [OF s1(2) xs] s1(1,3) show ?case by simp
qed

end

section \<open>Properties\<close>

text \<open>The demonstration chunk of \<open>Tenant_Instance\<close> and a newer version of it.\<close>

definition next_id :: string where
  "next_id = ''01890a5d-ac96-774b-bcce-b302099a8058''"

definition next_chunk :: memory_chunk where
  "next_chunk = plain_chunk [] ''acme'' [104, 111]"

definition chain_payload :: "string \<Rightarrow> bytes" where
  "chain_payload cid = std_chunk_ser (plain_chunk cid ''acme'' (if cid = demo_id then [104, 105] else [104, 111]))"

definition no_delta :: lifecycle_delta where
  "no_delta = \<lparr>d_status = None, d_tier = None, d_supersedes = None, d_superseded_by = None,
     d_expires_at_ms = None, d_review_after_ms = None, d_lifecycle_updated_at_ms = None\<rparr>"

definition next_pending :: pending_chunk where
  "next_pending = \<lparr>p_chunk = plain_chunk next_id ''acme'' [104, 111],
                    p_payload = std_chunk_ser (plain_chunk next_id ''acme'' [104, 111])\<rparr>"

lemma next_id_facts [simp]: "length next_id = 36" "next_id \<noteq> demo_id" "demo_id \<noteq> next_id" "pending_id next_pending = next_id"
  by (simp_all add: next_id_def demo_id_def next_pending_def pending_id_def plain_chunk_def)

lemma next_parts:
  "expand_chunks_for_add (\<lambda>line. [line]) next_chunk = Inr [next_chunk]"
  "parts_of std_store (\<lambda>line. [line]) (\<lambda>_. []) (\<lambda>_. next_id) next_chunk = [next_pending]"
proof -
  show e: "expand_chunks_for_add (\<lambda>line. [line]) next_chunk = Inr [next_chunk]"
    by (simp add: expand_chunks_for_add_def split_for_add_def next_chunk_def plain_chunk_def ADD_CHUNK_THRESHOLD_def utf8_len_def)
  show "parts_of std_store (\<lambda>line. [line]) (\<lambda>_. []) (\<lambda>_. next_id) next_chunk = [next_pending]"
    unfolding parts_of_def e by (simp add: next_pending_def next_chunk_def plain_chunk_def Let_def std_store_def)
qed

lemma chain_pending_ok:
  "pending_ok std_store std_cfg chain_payload demo_chunk" "pending_ok std_store std_cfg chain_payload next_pending"
proof -
  have "std_chunk_de (p_payload demo_chunk) = Some (p_chunk demo_chunk)"
    "std_chunk_de (p_payload next_pending) = Some (p_chunk next_pending)"
    by (simp_all add: demo_chunk_def next_pending_def std_chunk_roundtrip demo_id_def next_id_def)
  moreover have "length (p_payload next_pending) = 44"
    by (simp add: next_pending_def std_chunk_ser_def plain_chunk_def enc_bytes_def varint_def)
  ultimately show "pending_ok std_store std_cfg chain_payload demo_chunk" "pending_ok std_store std_cfg chain_payload next_pending"
    using length_demo_payload
    by (simp_all add: pending_ok_def chain_payload_def payload_ok_def demo_chunk_def next_pending_def)
       (simp_all add: plain_chunk_def)
qed

lemma next_fits: "wal_fits std_ext (pending_record std_cfg next_pending)"
proof -
  have "length (p_payload next_pending) = 44"
    by (simp add: next_pending_def std_chunk_ser_def plain_chunk_def enc_bytes_def varint_def)
  then show ?thesis by (intro std_fits) (simp_all add: pending_record_def add_record_def)
qed

lemma chain_ops_ok:
  "live_ops_ok std_store std_cfg chain_payload (\<lambda>line. [line]) (\<lambda>_. []) 0 {}
     [LBase (OpAdd [demo_chunk]), LSupersede demo_id next_chunk no_delta (\<lambda>_. next_id), LBase OpRestart]"
  using chain_pending_ok demo_fits next_fits
  by (simp add: next_parts plain_delta_def no_delta_def) (simp add: next_chunk_def plain_chunk_def)

text \<open>
  C8. Sequences of adds, deletes, lifecycle updates, supersessions of current heads, expiry sweeps,
  history promotions and crash-restarts, started on an empty data directory, leave exactly the catalog
  the sequence specifies, although lifecycle changes are not logged; and the supersession
  links form chains: no cycle, a superseded chunk has status superseded, its live successor
  points back at it, and two chunks never have the same successor. The updates, and the
  lifecycles given with supersessions, set neither a status nor a supersession link.
\<close>

theorem lifecycle_refines_catalog:
  assumes "tenant_log E cfg bits"
    and "wal_fits (wal_x E) (checkpoint_record (cfg_tenant_id cfg) now)"
    and "live_ops_ok E cfg pl sg hx now {} ops"
    and "sum_list (map (live_op_cost E sg hx) ops) < 2 ^ 64"
  shows "\<exists>st0 s. tenant_open E cfg now
             \<lparr>disk_db = [], disk_artifacts = [], disk_wal = None, disk_dirs = []\<rparr> = Inr st0
           \<and> run_live_ops E cfg sg hx ix now ops \<lparr>store = st0, version = ver\<rparr> = Inr s
           \<and> (let v = catalog (cfg_tenant_id cfg) (db (store s)) in
                v = fold (spec_live_op E (cfg_tenant_id cfg) sg hx now) ops Map.empty
                \<and> acyclic (edges v)
                \<and> (\<forall>a b. successor v a = Some b \<longrightarrow>
                     status_of v a = Some Superseded \<and> (v b \<noteq> None \<longrightarrow> predecessor v b = Some a)
                     \<and> (\<forall>c. successor v c = Some b \<longrightarrow> c = a))
                \<and> (\<forall>cid m. meta_get (db (store s)) (cfg_tenant_id cfg) cid = Some m \<longrightarrow>
                     get_chunk E cfg cid (store s) = (decode_chunk E m (pl cid), store s)))"
proof -
  note log = assms(1)
  obtain st0 where st0: "tenant_open E cfg now
      \<lparr>disk_db = [], disk_artifacts = [], disk_wal = None, disk_dirs = []\<rparr> = Inr st0"
    "serving E cfg pl (sum_list (map (live_op_cost E sg hx) ops) + 0) [] st0"
    "catalog (cfg_tenant_id cfg) (db st0) = Map.empty"
    using tenant_log.fresh_open [OF log, of "[]" "sum_list (map (live_op_cost E sg hx) ops)" now pl] assms(4)
    by (auto simp: db_ok_def live_rows_def)
  then have "live_ok E cfg pl (sum_list (map (live_op_cost E sg hx) ops) + 0) {} (store \<lparr>store = st0, version = ver\<rparr>)"
    by (auto simp: live_ok_def live_inv_def knows_def parse_ok_def undeleted_def after_last_checkpoint_def
        intro!: exI [of _ "[]"])
  from tenant_log.run_live_ops_ok [OF log this assms(3,2), of ix] st0(3) obtain s used where
    s: "run_live_ops E cfg sg hx ix now ops \<lparr>store = st0, version = ver\<rparr> = Inr s" "live_ok E cfg pl 0 used (store s)"
      "catalog (cfg_tenant_id cfg) (db (store s)) = fold (spec_live_op E (cfg_tenant_id cfg) sg hx now) ops Map.empty"
    by auto
  then obtain rs where serv: "serving E cfg pl 0 rs (store s)"
    and li: "links_ok used (catalog (cfg_tenant_id cfg) (db (store s)))"
    by (auto simp: live_ok_def live_inv_def)
  have "successor v a = Some b \<longrightarrow> status_of v a = Some Superseded \<and> (v b \<noteq> None \<longrightarrow> predecessor v b = Some a)
      \<and> (\<forall>c. successor v c = Some b \<longrightarrow> c = a)" if "v = catalog (cfg_tenant_id cfg) (db (store s))" for v a b
    using links_okD(2,3) [OF li] that by blast
  with st0(1) s(1,3) links_okD(1) [OF li] tenant_log.get_chunk_ok [OF log serv] show ?thesis
    unfolding Let_def by (intro exI [of _ st0] exI [of _ s]) simp
qed

theorem lifecycle_refines_catalog_witness:
  "\<exists>st0 s. tenant_open std_store std_cfg 0 \<lparr>disk_db = [], disk_artifacts = [], disk_wal = None, disk_dirs = []\<rparr> = Inr st0
     \<and> run_live_ops std_store std_cfg (\<lambda>line. [line]) (\<lambda>_. []) True 0
         [LBase (OpAdd [demo_chunk]), LSupersede demo_id next_chunk no_delta (\<lambda>_. next_id), LBase OpRestart]
         \<lparr>store = st0, version = None\<rparr> = Inr s
     \<and> successor (catalog ''acme'' (db (store s))) demo_id = Some next_id
     \<and> status_of (catalog ''acme'' (db (store s))) demo_id = Some Superseded"
proof -
  let ?ops = "[LBase (OpAdd [demo_chunk]), LSupersede demo_id next_chunk no_delta (\<lambda>_. next_id), LBase OpRestart]"
  let ?sg = "\<lambda>line. [line]" and ?hx = "\<lambda>_. []"
  have cp: "wal_fits (wal_x std_store) (checkpoint_record (cfg_tenant_id std_cfg) 0)" using demo_fits by simp
  have cost: "sum_list (map (live_op_cost std_store ?sg ?hx) ?ops) < 2 ^ 64" by (simp add: next_parts)
  obtain st0 s where st: "tenant_open std_store std_cfg 0
      \<lparr>disk_db = [], disk_artifacts = [], disk_wal = None, disk_dirs = []\<rparr> = Inr st0"
    "run_live_ops std_store std_cfg ?sg ?hx True 0 ?ops \<lparr>store = st0, version = None\<rparr> = Inr s"
    "catalog ''acme'' (db (store s)) = fold (spec_live_op std_store ''acme'' ?sg ?hx 0) ?ops Map.empty"
    using lifecycle_refines_catalog [OF std_log.tenant_log_axioms cp chain_ops_ok cost, of True None]
    by (auto simp: Let_def)
  have "catalog_add std_store [demo_chunk] Map.empty demo_id = Some (strip_coords (chunk_row std_store (p_chunk demo_chunk) 0 0))"
    by (simp add: catalog_add_def)
  then have "catalog ''acme'' (db (store s)) demo_id =
      Some (superseded_row next_id 0 (strip_coords (chunk_row std_store (p_chunk demo_chunk) 0 0)))"
    unfolding st(3)
    by (simp add: spec_live_op_def next_parts successor_def chunk_row_def default_lifecycle_def catalog_supersede_def
        delta_is_empty_def no_delta_def catalog_add_other Let_def)
  with st(1,2) show ?thesis
    by (intro exI [of _ st0] exI [of _ s]) (simp add: successor_def status_of_def superseded_row_def)
qed

text \<open>
  C29. The cycle check always returns, and it fails exactly if following \<open>superseded_by\<close>
  from the chunk leads into a cycle.
\<close>

theorem cycle_check_exact:
  "detect_supersession_cycle rows tid a =
     (if \<exists>c. (a, c) \<in> (edges (catalog tid rows))\<^sup>* \<and> (c, c) \<in> (edges (catalog tid rows))\<^sup>+
      then Inl (ValidationError ''supersession cycle detected'') else Inr ())"
  using detect_exact by (simp add: reaches_cycle_def)




text \<open>
  C10. Retention makes progress: whatever cycles run, a final row whose expiry has passed at
  some cycle is expired and in the history tier after any later cycle that looks back past
  that cycle, and from then on every cycle leaves it out of the rebuilt graph. The clock does
  not run backwards before the first such cycle.
\<close>

theorem expired_rows_reach_history:
  assumes "db_ok (db (store s))" and "ids_ok E (db (store s))"
    and "m \<in> set (db (store s))" and "m_tenant_id m = tid" and "m_status m = Final"
    and "expiry_sweep_enabled cc" and "history_promotion_enabled cc"
    and "past_expiry (fst c) m" and "\<forall>b \<in> set xs. sint (fst b) \<le> sint (fst c)"
    and "sint (fst c) < sint (saturating_sub (snd d) (history_promotion_age_ms cc))"
  shows "\<exists>excluded s'. run_cycles E cc tid hybrid (xs @ c # ys @ d # zs) s = Inr (excluded, s')
     \<and> m_chunk_id m \<in> excluded
     \<and> (\<exists>m' \<in> set (db (store s')). m_chunk_id m' = m_chunk_id m \<and> m_tenant_id m' = tid
          \<and> m_status m' = Expired \<and> tier (m_lifecycle m') = History)"
proof -
  let ?ts = "xs @ c # ys @ d # zs"
  let ?m = "fold (cycle_step cc tid) ?ts m"
  obtain s' where s': "run_cycles E cc tid hybrid ?ts s = Inr (m_chunk_id ` {m \<in> set (db (store s')). hidden_row tid m}, s')"
    "db (store s') = map (fold (cycle_step cc tid) ?ts) (db (store s))"
    using run_cycles_exact [OF assms(1,2), of ?ts] by blast
  have hist: "m_status ?m = Expired \<and> tier (m_lifecycle ?m) = History"
    using row_reaches_history [OF assms(5,4,8,6,7,9,10)] .
  have mem: "?m \<in> set (db (store s'))" unfolding s'(2) set_map using assms(3) by (rule imageI)
  have ids: "m_chunk_id ?m = m_chunk_id m" "m_tenant_id ?m = tid" using assms(4) by (simp_all only: fold_cycle_ids)
  have "hidden_row tid ?m" using hist ids(2) by (simp only: hidden_row_def simp_thms)
  then have "m_chunk_id m \<in> m_chunk_id ` {m \<in> set (db (store s')). hidden_row tid m}"
    using mem ids(1) [symmetric] by (intro image_eqI [of _ _ ?m]) simp_all
  with s'(1) hist mem ids show ?thesis by blast
qed

text \<open>
  C11. The exclusion set is the visibility rule: after a cycle whose expiry sweep ran at
  \<open>t1\<close>, a row of the tenant is left out of the rebuilt graph exactly if the default policy
  hides it at \<open>t1\<close>, with one exception: a draft past its expiry is hidden from every search
  but never expired, so it stays in the graph.
\<close>

theorem exclusion_is_invisibility:
  assumes "db_ok (db (store s))" and "ids_ok E (db (store s))" and "expiry_sweep_enabled cc"
    and "p = \<lparr>include_superseded = False, include_expired = False, include_history = False\<rparr>"
  shows "\<exists>n k excluded s'. compaction_overlay E cc tid hybrid t1 t2 s = Inr ((n, k, excluded), s')
     \<and> (\<forall>m \<in> set (db (store s')). m_tenant_id m = tid \<longrightarrow>
          (is_visible_at p (m_status m) (m_lifecycle m) t1 \<longleftrightarrow>
             m_chunk_id m \<notin> excluded \<and> \<not> (m_status m = Draft \<and> past_expiry t1 m)))"
proof -
  obtain n k s' where c: "compaction_overlay E cc tid hybrid t1 t2 s =
        Inr ((n, k, m_chunk_id ` {m \<in> set (db (store s')). hidden_row tid m}), s')"
    and db: "db (store s') = map (cycle_step cc tid (t1, t2)) (db (store s))"
    using compaction_overlay_exact [OF assms(1,2), of cc tid hybrid t1 t2] by auto
  have ok: "db_ok (db (store s'))" using assms(1) overlay_db_ok [OF cycle_overlay] by (simp only: db)
  have "is_visible_at p (m_status m) (m_lifecycle m) t1 \<longleftrightarrow>
      m_chunk_id m \<notin> m_chunk_id ` {m \<in> set (db (store s')). hidden_row tid m} \<and> \<not> (m_status m = Draft \<and> past_expiry t1 m)"
    if m: "m \<in> set (db (store s'))" "m_tenant_id m = tid" for m
  proof -
    obtain m0 where m0: "m = cycle_step cc tid (t1, t2) m0" using m(1) by (auto simp: db)
    have "m_chunk_id m \<in> m_chunk_id ` {m \<in> set (db (store s')). hidden_row tid m} \<longleftrightarrow> hidden_row tid m"
      using m ok by (auto simp: db_ok_def distinct_map dest: inj_onD)
    moreover have "m_status m \<noteq> Final \<or> \<not> past_expiry t1 m"
      using m(2) assms(3)
      by (auto simp: m0 cycle_step_def expire_step_def history_step_def expirable_def past_expiry_def expire_row_def
          history_row_def Let_def split: option.splits if_splits)
    ultimately show ?thesis
      using m(2) by (cases "m_status m")
        (auto simp: hidden_row_def is_visible_at_def is_visible_def assms(4) past_expiry_def split: option.splits)
  qed
  with c show ?thesis by blast
qed

text \<open>A table with a final row that expires at 100 and a cycle configuration that looks back 50 ms.\<close>

definition demo_live :: "ordinal_list live_store" where
  "demo_live =
     \<lparr>store = \<lparr>db = [(chunk_row std_store (p_chunk demo_chunk) 1 0)
                      \<lparr>m_lifecycle := default_lifecycle\<lparr>expires_at_ms := Some 100\<rparr>\<rparr>],
               artifact_rows = [], wal = \<lparr>file_data = [], append_mode = False, cursor = 0, records_written = 0\<rparr>,
               seg_dirs = [], active_segment = None, segments = [], writes_since_checkpoint = 0\<rparr>,
      version = Some 1\<rparr>"

definition demo_cycle :: compaction_config where
  "demo_cycle = \<lparr>expiry_sweep_enabled = True, history_promotion_enabled = True, history_promotion_age_ms = 50\<rparr>"

lemma demo_live_facts:
  "db_ok (db (store demo_live))" "ids_ok std_store (db (store demo_live))"
  by (simp_all add: demo_live_def db_ok_def ids_ok_def chunk_row_def)

theorem expired_rows_reach_history_witness:
  "\<exists>excluded s'. run_cycles std_store demo_cycle ''acme'' True [(10, 10), (100, 101), (120, 120), (151, 151)] demo_live =
      Inr (excluded, s')
    \<and> demo_id \<in> excluded
    \<and> (\<exists>m' \<in> set (db (store s')). m_chunk_id m' = demo_id \<and> m_status m' = Expired \<and> tier (m_lifecycle m') = History)"
proof -
  let ?m = "(chunk_row std_store (p_chunk demo_chunk) 1 0)\<lparr>m_lifecycle := default_lifecycle\<lparr>expires_at_ms := Some 100\<rparr>\<rparr>"
  have m: "?m \<in> set (db (store demo_live))" "m_tenant_id ?m = ''acme''" "m_status ?m = Final"
    by (simp_all add: demo_live_def chunk_row_def)
  have cc: "expiry_sweep_enabled demo_cycle" "history_promotion_enabled demo_cycle" by (simp_all add: demo_cycle_def)
  have times: "past_expiry (fst (100 :: i64, 101 :: i64)) ?m" "\<forall>b \<in> set [(10 :: i64, 10 :: i64)]. sint (fst b) \<le> sint (fst (100 :: i64, 101 :: i64))"
    "sint (fst (100 :: i64, 101 :: i64)) < sint (saturating_sub (snd (151 :: i64, 151 :: i64)) (history_promotion_age_ms demo_cycle))"
    by (simp_all add: past_expiry_def default_lifecycle_def saturating_sub_def demo_cycle_def)
  from expired_rows_reach_history [OF demo_live_facts m cc times, of True "[(120, 120)]" "[]"]
  show ?thesis by (auto simp: chunk_row_def)
qed

theorem exclusion_is_invisibility_witness:
  "\<exists>n k excluded s'. compaction_overlay std_store demo_cycle ''acme'' True 100 101 demo_live = Inr ((n, k, excluded), s')
     \<and> (\<forall>m \<in> set (db (store s')). m_tenant_id m = ''acme'' \<longrightarrow>
          (is_visible_at \<lparr>include_superseded = False, include_expired = False, include_history = False\<rparr>
             (m_status m) (m_lifecycle m) 100 \<longleftrightarrow>
             m_chunk_id m \<notin> excluded \<and> \<not> (m_status m = Draft \<and> past_expiry 100 m)))"
  using exclusion_is_invisibility [OF demo_live_facts _ refl, of demo_cycle "''acme''" True 100 101]
  by (simp add: demo_cycle_def)

end
