(* ===== verification/Lifecycle_Crash.thy ===== *)
theory Lifecycle_Crash
  imports Lifecycle_Instance
begin

text \<open>
  Crashes inside a supersession (\<open>supersede_chunk_with_lifecycle_and_stored_ids\<close>): while the log
  of the new chunk is being written, in the stages of the add and of the lifecycle delta, after the
  link, and in the compensating deletes that follow a failed link.
\<close>

section \<open>A log write cut by a crash\<close>

definition torn_log :: "bytes \<Rightarrow> 'b tenant_store \<Rightarrow> 'b tenant_store" where
  "torn_log bs st = st\<lparr>wal := (wal st)\<lparr>file_data := file_data (wal st) @ bs\<rparr>\<rparr>"

lemma crash_torn [simp]:
  "db (torn_log bs st) = db st" "disk_dirs (crash (torn_log bs st)) = disk_dirs (crash st)"
  "file_data (wal (torn_log bs st)) = file_data (wal st) @ bs"
  by (simp_all add: crash_def torn_log_def split: option.split)


section \<open>The stages of a supersession\<close>





section \<open>What a restart finds\<close>





section \<open>Properties\<close>








end
