(* ===== verification/Memd_Order.thy ===== *)
theory Memd_Order
  imports Memd_Prelude "HOL-Library.Multiset"
begin

text \<open>
  Comparators and sorting as Rust's standard library defines them: \<open>Ordering\<close> with \<open>then_with\<close>
  and \<open>reverse\<close>, the lexicographic order of byte strings, and the stable \<open>sort_by\<close>. The library
  leaves the result of \<open>sort_by\<close> open when the comparator is not a total preorder, so the facts
  below are stated for comparators that are one on the elements of the list
  (\<open>preorder_on_list\<close>); the definition picks the insertion order there.
\<close>

section \<open>Ordering\<close>

datatype ordering = Less | Equal | Greater

fun then_with :: "ordering \<Rightarrow> ordering \<Rightarrow> ordering" where
  "then_with Equal o2 = o2"
| "then_with o1 o2 = o1"

fun reverse :: "ordering \<Rightarrow> ordering" where
  "reverse Less = Greater"
| "reverse Equal = Equal"
| "reverse Greater = Less"

lemma reverse_reverse [simp]: "reverse (reverse c) = c"
  by (cases c) simp_all

lemma then_with_Equal [simp]: "then_with a b = Equal \<longleftrightarrow> a = Equal \<and> b = Equal"
  by (cases a) simp_all

definition int_cmp :: "int \<Rightarrow> int \<Rightarrow> ordering" where
  "int_cmp a b = (if a < b then Less else if a = b then Equal else Greater)"

fun str_cmp :: "string \<Rightarrow> string \<Rightarrow> ordering" where
  "str_cmp [] [] = Equal"
| "str_cmp [] (_ # _) = Less"
| "str_cmp (_ # _) [] = Greater"
| "str_cmp (a # as) (b # bs) =
     then_with (int_cmp (of_char a) (of_char b)) (str_cmp as bs)"

section \<open>Total preorders\<close>

text \<open>What the contract of \<open>sort_by\<close> asks of a comparator on the elements it meets.\<close>

locale comparator =
  fixes cmp :: "'a \<Rightarrow> 'a \<Rightarrow> ordering" and S :: "'a set"
  assumes cmp_flip: "x \<in> S \<Longrightarrow> y \<in> S \<Longrightarrow> cmp y x = reverse (cmp x y)"
    and cmp_trans: "x \<in> S \<Longrightarrow> y \<in> S \<Longrightarrow> z \<in> S \<Longrightarrow> cmp x y \<noteq> Greater \<Longrightarrow> cmp y z \<noteq> Greater
                      \<Longrightarrow> cmp x z \<noteq> Greater"
begin

lemma cmp_refl: "x \<in> S \<Longrightarrow> cmp x x = Equal"
  using cmp_flip [of x x] by (cases "cmp x x") auto

lemma cmp_linear: "x \<in> S \<Longrightarrow> y \<in> S \<Longrightarrow> cmp x y = Greater \<Longrightarrow> cmp y x \<noteq> Greater"
  using cmp_flip [of x y] by simp

end

lemma comparator_subset: "comparator cmp S \<Longrightarrow> T \<subseteq> S \<Longrightarrow> comparator cmp T"
  unfolding comparator_def by blast

lemma comparator_int_key: "comparator (\<lambda>x y. int_cmp (f x) (f y)) S"
  by unfold_locales (auto simp: int_cmp_def split: if_splits)

lemma comparator_flip: "comparator cmp S \<Longrightarrow> comparator (\<lambda>x y. cmp y x) S"
  unfolding comparator_def by (metis ordering.distinct(5) reverse.simps reverse_reverse)

lemma comparator_then:
  assumes "comparator c1 S" and "comparator c2 S"
  shows "comparator (\<lambda>x y. then_with (c1 x y) (c2 x y)) S"
proof
  show "then_with (c1 y x) (c2 y x) = reverse (then_with (c1 x y) (c2 x y))" if "x \<in> S" "y \<in> S" for x y
    using comparator.cmp_flip [OF assms(1) that] comparator.cmp_flip [OF assms(2) that]
    by (cases "c1 x y") simp_all
next
  fix x y z
  assume xyz: "x \<in> S" "y \<in> S" "z \<in> S"
    and le: "then_with (c1 x y) (c2 x y) \<noteq> Greater" "then_with (c1 y z) (c2 y z) \<noteq> Greater"
  note t1 = comparator.cmp_trans [OF assms(1)] and f1 = comparator.cmp_flip [OF assms(1)]
  have le1: "c1 x y \<noteq> Greater" "c1 y z \<noteq> Greater"
    using le by (auto elim: then_with.elims)
  with t1 xyz have xz: "c1 x z \<noteq> Greater" by blast
  show "then_with (c1 x z) (c2 x z) \<noteq> Greater"
  proof (cases "c1 x z = Equal")
    case True
    then have zx: "c1 z x \<noteq> Greater" using f1 [of x z] xyz by simp
    have "c1 y x \<noteq> Greater" using t1 [of y z x] zx le1 xyz by blast
    moreover have "c1 z y \<noteq> Greater" using t1 [of z x y] zx le1 xyz by blast
    ultimately have "c1 x y = Equal" "c1 y z = Equal"
      using le1 f1 [of x y] f1 [of y z] xyz by (cases "c1 x y"; cases "c1 y z"; simp)+
    then show ?thesis using True le comparator.cmp_trans [OF assms(2), of x y z] xyz by simp
  next
    case False
    with xz show ?thesis by (cases "c1 x z") simp_all
  qed
qed

lemma str_cmp_eq: "str_cmp a b = Equal \<longleftrightarrow> a = b"
  by (induction a b rule: str_cmp.induct) (auto simp: int_cmp_def split: if_splits)

lemma str_cmp_flip: "str_cmp b a = reverse (str_cmp a b)"
  by (induction a b rule: str_cmp.induct) (auto simp: int_cmp_def)

lemma str_cmp_trans: "str_cmp a b \<noteq> Greater \<Longrightarrow> str_cmp b c \<noteq> Greater \<Longrightarrow> str_cmp a c \<noteq> Greater"
proof (induction a b arbitrary: c rule: str_cmp.induct)
  case (4 a as b bs)
  then show ?case by (cases c) (auto simp: int_cmp_def split: if_splits)
qed (case_tac c; simp)+

lemma comparator_str_key: "comparator (\<lambda>x y. str_cmp (f x) (f y)) S"
  by unfold_locales (auto intro: str_cmp_flip dest: str_cmp_trans)

section \<open>Stable sorting\<close>

fun insert_by :: "('a \<Rightarrow> 'a \<Rightarrow> ordering) \<Rightarrow> 'a \<Rightarrow> 'a list \<Rightarrow> 'a list" where
  "insert_by cmp x [] = [x]"
| "insert_by cmp x (y # ys) = (if cmp x y = Greater then y # insert_by cmp x ys else x # y # ys)"

definition sort_by :: "('a \<Rightarrow> 'a \<Rightarrow> ordering) \<Rightarrow> 'a list \<Rightarrow> 'a list" where
  "sort_by cmp xs = foldr (insert_by cmp) xs []"

lemma mset_insert_by [simp]: "mset (insert_by cmp x ys) = add_mset x (mset ys)"
  by (induction ys) auto

lemma mset_sort_by [simp]: "mset (sort_by cmp xs) = mset xs"
  by (induction xs) (simp_all add: sort_by_def)

lemma set_sort_by [simp]: "set (sort_by cmp xs) = set xs"
  by (metis mset_sort_by set_mset_mset)

lemma length_sort_by [simp]: "length (sort_by cmp xs) = length xs"
  by (metis mset_sort_by size_mset)

lemma distinct_sort_by [simp]: "distinct (sort_by cmp xs) = distinct xs"
  by (metis mset_eq_imp_distinct_iff mset_sort_by)

lemma map_mset_sort_by: "mset (map f (sort_by cmp xs)) = mset (map f xs)"
  by simp

abbreviation sorted_by :: "('a \<Rightarrow> 'a \<Rightarrow> ordering) \<Rightarrow> 'a list \<Rightarrow> bool" where
  "sorted_by cmp \<equiv> sorted_wrt (\<lambda>x y. cmp x y \<noteq> Greater)"

context comparator
begin

lemma sorted_insert_by:
  "x \<in> S \<Longrightarrow> set ys \<subseteq> S \<Longrightarrow> sorted_by cmp ys \<Longrightarrow> sorted_by cmp (insert_by cmp x ys)"
proof (induction ys)
  case (Cons y ys)
  show ?case
  proof (cases "cmp x y = Greater")
    case True
    have "set (insert_by cmp x ys) = insert x (set ys)" by (metis mset_insert_by set_mset_add_mset_insert set_mset_mset)
    with True Cons cmp_linear [of x y] show ?thesis by auto
  next
    case False
    have "cmp x z \<noteq> Greater" if "z \<in> set ys" for z
      by (rule cmp_trans [of x y z]) (use that False Cons.prems in auto)
    with False Cons.prems show ?thesis by auto
  qed
qed simp

lemma sorted_sort_by: "set xs \<subseteq> S \<Longrightarrow> sorted_by cmp (sort_by cmp xs)"
proof (induction xs)
  case (Cons x xs)
  have "set (foldr (insert_by cmp) xs []) = set xs"
    using set_sort_by [of cmp xs] by (simp add: sort_by_def)
  with Cons show ?case by (auto simp: sort_by_def intro!: sorted_insert_by)
qed (simp add: sort_by_def)

text \<open>Where the comparator tells all elements apart, the sorted list depends on the elements only.\<close>

lemma sorted_unique:
  assumes "mset xs = mset ys" and "sorted_by cmp xs" and "sorted_by cmp ys" and "set xs \<subseteq> S"
    and "\<And>x y. x \<in> set xs \<Longrightarrow> y \<in> set xs \<Longrightarrow> cmp x y = Equal \<Longrightarrow> x = y"
  shows "xs = ys"
  using assms
proof (induction xs arbitrary: ys)
  case (Cons x xs)
  from Cons.prems(1) obtain y ys' where ys: "ys = y # ys'" by (cases ys) auto
  have m: "set (x # xs) = set (y # ys')" using Cons.prems(1) unfolding ys by (metis set_mset_mset)
  have "x = y"
  proof (rule ccontr)
    assume n: "x \<noteq> y"
    with m have "y \<in> set xs" "x \<in> set ys'" by auto
    then have "cmp x y \<noteq> Greater" "cmp y x \<noteq> Greater"
      using Cons.prems(2,3) ys by auto
    moreover have "x \<in> S" "y \<in> S" using Cons.prems(4) \<open>y \<in> set xs\<close> by auto
    ultimately have "cmp x y = Equal" using cmp_flip [of x y] by (cases "cmp x y") auto
    with Cons.prems(5) [of x y] \<open>y \<in> set xs\<close> n show False by simp
  qed
  moreover have "xs = ys'"
    by (rule Cons.IH) (use Cons.prems ys \<open>x = y\<close> in auto)
  ultimately show ?case using ys by simp
qed simp

lemma sort_by_unique:
  assumes "mset xs = mset ys" and "set xs \<subseteq> S"
    and "\<And>x y. x \<in> set xs \<Longrightarrow> y \<in> set xs \<Longrightarrow> cmp x y = Equal \<Longrightarrow> x = y"
  shows "sort_by cmp xs = sort_by cmp ys"
proof (rule sorted_unique)
  have "set ys \<subseteq> S" using assms(1,2) by (metis set_mset_mset)
  then show "sorted_by cmp (sort_by cmp ys)" by (rule sorted_sort_by)
qed (use assms sorted_sort_by in auto)

end

end
