(* ===== verification/Consolidation.thy ===== *)
theory Consolidation
  imports Lifecycle Memd_Order
begin

text \<open>
  The journal of staged consolidation: the types of \<open>consolidate/journal.rs\<close> and the
  statements of \<open>store/metadata/sqlite/consolidation.rs\<close> over the three journal tables and the
  chunk table, with the keys and the partial unique index of
  \<open>store/metadata/sqlite/schema.rs\<close>.

  A run condenses source chunks into candidate chunks. The journal records the plan before a
  candidate is written, follows it through its states, and promotes the candidates and
  supersedes the sources in one transaction. A transaction that fails leaves the database as
  it was (\<open>transact\<close>).
\<close>

section \<open>States and records\<close>

datatype consolidation_state =
    Planned | CandidateWritten | Validated | Committed | Rejected | RolledBack | FailedRecoverable

fun state_str :: "consolidation_state \<Rightarrow> string" where
  "state_str Planned = ''planned''"
| "state_str CandidateWritten = ''candidate_written''"
| "state_str Validated = ''validated''"
| "state_str Committed = ''committed''"
| "state_str Rejected = ''rejected''"
| "state_str RolledBack = ''rolled_back''"
| "state_str FailedRecoverable = ''failed_recoverable''"

definition is_terminal :: "consolidation_state \<Rightarrow> bool" where
  "is_terminal s \<longleftrightarrow> s = Committed \<or> s = Rejected \<or> s = RolledBack"

definition state_from_str :: "string \<Rightarrow> memd_error + consolidation_state" where
  "state_from_str v =
     (if v = ''planned'' then Inr Planned
      else if v = ''candidate_written'' then Inr CandidateWritten
      else if v = ''validated'' then Inr Validated
      else if v = ''committed'' then Inr Committed
      else if v = ''rejected'' then Inr Rejected
      else if v = ''rolled_back'' then Inr RolledBack
      else if v = ''failed_recoverable'' then Inr FailedRecoverable
      else Inl (ValidationError (''invalid consolidation state: '' @ v)))"

datatype lineage_relation = Supersedes | DerivesFrom

fun relation_str :: "lineage_relation \<Rightarrow> string" where
  "relation_str Supersedes = ''supersedes''"
| "relation_str DerivesFrom = ''derives_from''"

definition relation_from_str :: "string \<Rightarrow> memd_error + lineage_relation" where
  "relation_from_str v =
     (if v = ''supersedes'' then Inr Supersedes
      else if v = ''derives_from'' then Inr DerivesFrom
      else Inl (ValidationError (''invalid lineage relation: '' @ v)))"

record consolidation_run =
  cr_run_id :: string
  cr_tenant_id :: string
  cr_project_id :: "string option"
  cr_input_hash :: str
  cr_state :: consolidation_state
  cr_consolidator :: string
  cr_consolidator_command :: "string option"
  cr_consolidator_model :: "string option"
  cr_consolidator_version :: "string option"
  cr_prompt_hash :: "str option"
  cr_response_hash :: "str option"
  cr_audit_artifact_path :: "string option"
  cr_validation_result :: "string option"
  cr_error :: "string option"
  cr_sparse_cleanup_done :: bool
  cr_promotion_requested :: bool
  cr_created_at_ms :: i64
  cr_updated_at_ms :: i64

record consolidation_entry =
  ce_run_id :: string
  ce_entry_index :: nat
  ce_candidate_chunk_id :: "string option"
  ce_source_set_hash :: str
  ce_state :: consolidation_state
  ce_validation_error :: "string option"
  ce_created_at_ms :: i64
  ce_updated_at_ms :: i64

record memory_lineage =
  ml_run_id :: string
  ml_tenant_id :: string
  ml_project_id :: "string option"
  ml_source_chunk_id :: string
  ml_result_chunk_id :: string
  ml_relation :: lineage_relation
  ml_created_at_ms :: i64

datatype promotion_outcome = PromotionCommitted | AlreadyCommitted

text \<open>The tables a transaction of the journal works on.\<close>

record consolidation_db =
  cd_runs :: "consolidation_run list"
  cd_entries :: "consolidation_entry list"
  cd_lineage :: "memory_lineage list"
  cd_chunks :: "chunk_metadata list"

definition transact :: "('s \<Rightarrow> memd_error + ('a \<times> 's)) \<Rightarrow> 's \<Rightarrow> (memd_error + 'a) \<times> 's" where
  "transact f s = (case f s of Inl e \<Rightarrow> (Inl e, s) | Inr (a, s') \<Rightarrow> (Inr a, s'))"

section \<open>Queries\<close>

definition run_is :: "string \<Rightarrow> consolidation_run \<Rightarrow> bool" where
  "run_is rid r \<longleftrightarrow> cr_run_id r = rid"

definition get_consolidation_run :: "string \<Rightarrow> consolidation_db \<Rightarrow> consolidation_run option" where
  "get_consolidation_run rid d = find (run_is rid) (cd_runs d)"

text \<open>\<open>ORDER BY entry_index\<close> and \<open>ORDER BY result_chunk_id, source_chunk_id\<close>.\<close>

definition query_consolidation_entries :: "string \<Rightarrow> consolidation_db \<Rightarrow> consolidation_entry list" where
  "query_consolidation_entries rid d = sort_key ce_entry_index (filter (\<lambda>e. ce_run_id e = rid) (cd_entries d))"

definition lineage_order :: "memory_lineage \<Rightarrow> memory_lineage \<Rightarrow> ordering" where
  "lineage_order a b = then_with (str_cmp (ml_result_chunk_id a) (ml_result_chunk_id b))
     (str_cmp (ml_source_chunk_id a) (ml_source_chunk_id b))"

definition query_memory_lineage :: "string \<Rightarrow> consolidation_db \<Rightarrow> memory_lineage list" where
  "query_memory_lineage rid d = sort_by lineage_order (filter (\<lambda>l. ml_run_id l = rid) (cd_lineage d))"

text \<open>The runs the partial unique index covers, and its key: an absent project counts as the empty one.\<close>

definition is_active :: "consolidation_run \<Rightarrow> bool" where
  "is_active r \<longleftrightarrow> cr_state r \<noteq> Rejected \<and> cr_state r \<noteq> RolledBack"

definition input_key :: "consolidation_run \<Rightarrow> string \<times> string \<times> str" where
  "input_key r = (cr_tenant_id r, (case cr_project_id r of Some p \<Rightarrow> p | None \<Rightarrow> ''''), cr_input_hash r)"

definition find_consolidation_run_by_input ::
  "string \<Rightarrow> string option \<Rightarrow> str \<Rightarrow> consolidation_db \<Rightarrow> consolidation_run option" where
  "find_consolidation_run_by_input tid pid h d =
     find (\<lambda>r. cr_tenant_id r = tid \<and> cr_project_id r = pid \<and> cr_input_hash r = h \<and> is_active r) (cd_runs d)"

definition run_order :: "consolidation_run \<Rightarrow> consolidation_run \<Rightarrow> ordering" where
  "run_order a b = then_with (int_cmp (sint (cr_updated_at_ms a)) (sint (cr_updated_at_ms b)))
     (str_cmp (cr_run_id a) (cr_run_id b))"

definition list_staged_consolidation_runs ::
  "string option \<Rightarrow> string option \<Rightarrow> nat \<Rightarrow> consolidation_db \<Rightarrow> consolidation_run list" where
  "list_staged_consolidation_runs tid pid limit d =
     take limit (sort_by run_order (filter (\<lambda>r. cr_state r = Validated \<and> \<not> cr_promotion_requested r
        \<and> (tid = None \<or> tid = Some (cr_tenant_id r))
        \<and> (pid = None \<or> pid = cr_project_id r)) (cd_runs d)))"

definition recoverable_run :: "consolidation_run \<Rightarrow> bool" where
  "recoverable_run r \<longleftrightarrow> cr_state r = Planned \<or> cr_state r = CandidateWritten \<or> cr_state r = FailedRecoverable
     \<or> cr_state r = Validated \<and> cr_promotion_requested r"

definition list_recoverable_consolidation_runs_before ::
  "nat \<Rightarrow> i64 \<Rightarrow> consolidation_db \<Rightarrow> consolidation_run list" where
  "list_recoverable_consolidation_runs_before limit cutoff d =
     take limit (sort_by run_order
       (filter (\<lambda>r. recoverable_run r \<and> sint (cr_updated_at_ms r) \<le> sint cutoff) (cd_runs d)))"

definition list_consolidation_runs_pending_sparse_cleanup :: "nat \<Rightarrow> consolidation_db \<Rightarrow> consolidation_run list" where
  "list_consolidation_runs_pending_sparse_cleanup limit d =
     take limit (sort_by run_order
       (filter (\<lambda>r. cr_state r = Committed \<and> \<not> cr_sparse_cleanup_done r) (cd_runs d)))"

section \<open>Planning a run\<close>

text \<open>The checks on a plan; the sets the code collects are passed along as lists.\<close>

fun plan_entries ::
  "consolidation_run \<Rightarrow> nat list \<Rightarrow> string list \<Rightarrow> consolidation_entry list \<Rightarrow> memd_error + string list" where
  "plan_entries run indexes candidates [] = Inr candidates"
| "plan_entries run indexes candidates (e # es) =
     (case ce_candidate_chunk_id e of
        None \<Rightarrow> Inl (ValidationError ''planned entries require candidate chunk ids'')
      | Some c \<Rightarrow>
          if ce_run_id e \<noteq> cr_run_id run \<or> ce_state e \<noteq> Planned \<or> trim (ce_source_set_hash e) = []
             \<or> ce_entry_index e \<in> set indexes \<or> c \<in> set candidates
          then Inl (ValidationError ''consolidation entries do not form a unique planned run'')
          else plan_entries run (ce_entry_index e # indexes) (c # candidates) es)"

fun plan_lineage ::
  "consolidation_run \<Rightarrow> lineage_relation option \<Rightarrow> string list \<Rightarrow> string list \<Rightarrow> memory_lineage list \<Rightarrow> memd_error + unit" where
  "plan_lineage run expected candidates sources [] = Inr ()"
| "plan_lineage run expected candidates sources (l # ls) =
     (let rel = (case expected of Some r \<Rightarrow> r | None \<Rightarrow> ml_relation l) in
      if ml_run_id l \<noteq> cr_run_id run \<or> ml_tenant_id l \<noteq> cr_tenant_id run \<or> ml_project_id l \<noteq> cr_project_id run
         \<or> ml_relation l \<noteq> rel \<or> ml_result_chunk_id l \<notin> set candidates
         \<or> ml_source_chunk_id l = ml_result_chunk_id l \<or> ml_source_chunk_id l \<in> set sources
      then Inl (ValidationError ''consolidation lineage does not match its run scope'')
      else plan_lineage run (Some rel) candidates (ml_source_chunk_id l # sources) ls)"

definition validate_consolidation_plan ::
  "consolidation_run \<Rightarrow> consolidation_entry list \<Rightarrow> memory_lineage list \<Rightarrow> memd_error + unit" where
  "validate_consolidation_plan run es ls =
     (if cr_state run \<noteq> Planned \<or> cr_sparse_cleanup_done run
      then Inl (ValidationError ''new consolidation runs must start in planned state'')
      else if trim (cr_input_hash run) = [] \<or> es = [] \<or> ls = []
      then Inl (ValidationError ''a consolidation plan requires an input hash, entries, and lineage'')
      else case plan_entries run [] [] es of
        Inl e \<Rightarrow> Inl e
      | Inr candidates \<Rightarrow>
         (case plan_lineage run None candidates [] ls of
            Inl e \<Rightarrow> Inl e
          | Inr _ \<Rightarrow>
              if \<exists>c \<in> set candidates. \<not> (\<exists>l \<in> set ls. ml_result_chunk_id l = c)
              then Inl (ValidationError ''every consolidation candidate requires lineage'')
              else Inr ()))"

text \<open>\<open>INSERT\<close> with the keys of the tables; \<open>OR IGNORE\<close> skips a run that violates one.\<close>

definition run_conflicts :: "consolidation_run \<Rightarrow> consolidation_run list \<Rightarrow> bool" where
  "run_conflicts run rs \<longleftrightarrow>
     (\<exists>r \<in> set rs. cr_run_id r = cr_run_id run \<or> is_active run \<and> is_active r \<and> input_key r = input_key run)"

fun insert_entries :: "consolidation_entry list \<Rightarrow> consolidation_entry list \<Rightarrow> memd_error + consolidation_entry list" where
  "insert_entries [] rows = Inr rows"
| "insert_entries (e # es) rows =
     (if \<exists>x \<in> set rows. ce_run_id x = ce_run_id e \<and> ce_entry_index x = ce_entry_index e
           \<or> ce_candidate_chunk_id e \<noteq> None \<and> ce_candidate_chunk_id x = ce_candidate_chunk_id e
      then Inl (DatabaseError ''UNIQUE constraint failed: consolidation_entries'')
      else insert_entries es (rows @ [e]))"

definition edge_key :: "memory_lineage \<Rightarrow> string \<times> string \<times> string \<times> lineage_relation" where
  "edge_key l = (ml_run_id l, ml_source_chunk_id l, ml_result_chunk_id l, ml_relation l)"

fun insert_lineage :: "memory_lineage list \<Rightarrow> memory_lineage list \<Rightarrow> memd_error + memory_lineage list" where
  "insert_lineage [] rows = Inr rows"
| "insert_lineage (l # ls) rows =
     (if edge_key l \<in> edge_key ` set rows
      then Inl (DatabaseError ''UNIQUE constraint failed: memory_lineage'')
      else insert_lineage ls (rows @ [l]))"

definition begin_consolidation_run ::
  "consolidation_run \<Rightarrow> consolidation_entry list \<Rightarrow> memory_lineage list \<Rightarrow> consolidation_db
     \<Rightarrow> (memd_error + consolidation_run) \<times> consolidation_db" where
  "begin_consolidation_run run es ls d =
     (case validate_consolidation_plan run es ls of
        Inl e \<Rightarrow> (Inl e, d)
      | Inr _ \<Rightarrow> transact (\<lambda>d.
          if run_conflicts run (cd_runs d)
          then (case find_consolidation_run_by_input (cr_tenant_id run) (cr_project_id run) (cr_input_hash run) d of
                  None \<Rightarrow> Inl (DatabaseError ''Query returned no rows'')
                | Some existing \<Rightarrow> Inr (existing, d))
          else case insert_entries es (cd_entries d) of
            Inl e \<Rightarrow> Inl e
          | Inr es' \<Rightarrow>
             (case insert_lineage ls (cd_lineage d) of
                Inl e \<Rightarrow> Inl e
              | Inr ls' \<Rightarrow> Inr (run, d\<lparr>cd_runs := cd_runs d @ [run], cd_entries := es', cd_lineage := ls'\<rparr>))) d)"

section \<open>Single updates\<close>

definition mark_consolidation_sparse_cleanup_done :: "string \<Rightarrow> i64 \<Rightarrow> consolidation_db \<Rightarrow> bool \<times> consolidation_db" where
  "mark_consolidation_sparse_cleanup_done rid now d =
     (let (n, rs) = update_where (\<lambda>r. run_is rid r \<and> cr_state r = Committed \<and> \<not> cr_sparse_cleanup_done r)
                      (\<lambda>r. r\<lparr>cr_sparse_cleanup_done := True, cr_updated_at_ms := now\<rparr>) (cd_runs d)
      in (n = 1, d\<lparr>cd_runs := rs\<rparr>))"

definition record_consolidation_recovery_error ::
  "string \<Rightarrow> i64 \<Rightarrow> string \<Rightarrow> consolidation_db \<Rightarrow> bool \<times> consolidation_db" where
  "record_consolidation_recovery_error rid now err d =
     (let (n, rs) = update_where (\<lambda>r. run_is rid r \<and> \<not> is_terminal (cr_state r))
                      (\<lambda>r. r\<lparr>cr_error := Some err, cr_updated_at_ms := now\<rparr>) (cd_runs d)
      in (n = 1, d\<lparr>cd_runs := rs\<rparr>))"

definition request_consolidation_promotion :: "string \<Rightarrow> i64 \<Rightarrow> consolidation_db \<Rightarrow> bool \<times> consolidation_db" where
  "request_consolidation_promotion rid now d =
     (let (n, rs) = update_where
            (\<lambda>r. run_is rid r \<and> cr_state r \<in> {Planned, CandidateWritten, Validated, FailedRecoverable})
            (\<lambda>r. r\<lparr>cr_promotion_requested := True, cr_updated_at_ms := now\<rparr>) (cd_runs d)
      in (n = 1, d\<lparr>cd_runs := rs\<rparr>))"

definition hidden_candidate :: "i64 \<Rightarrow> chunk_metadata \<Rightarrow> chunk_metadata" where
  "hidden_candidate now m =
     m\<lparr>m_status := ErrorStatus, m_lifecycle := (m_lifecycle m)\<lparr>lifecycle_updated_at_ms := now\<rparr>\<rparr>"

definition hide_candidates_of :: "(string \<Rightarrow> bool) \<Rightarrow> i64 \<Rightarrow> consolidation_db \<Rightarrow> nat \<times> consolidation_db" where
  "hide_candidates_of p now d =
     (let (n, rows) = update_where
            (\<lambda>m. m_status m = Candidate
               \<and> (\<exists>e \<in> set (cd_entries d). p (ce_run_id e) \<and> ce_candidate_chunk_id e = Some (m_chunk_id m)))
            (hidden_candidate now) (cd_chunks d)
      in (n, d\<lparr>cd_chunks := rows\<rparr>))"

definition hide_consolidation_candidates :: "string \<Rightarrow> i64 \<Rightarrow> consolidation_db \<Rightarrow> nat \<times> consolidation_db" where
  "hide_consolidation_candidates rid now d = hide_candidates_of (\<lambda>i. i = rid) now d"

definition hide_terminal_consolidation_candidates :: "i64 \<Rightarrow> consolidation_db \<Rightarrow> nat \<times> consolidation_db" where
  "hide_terminal_consolidation_candidates now d =
     hide_candidates_of (\<lambda>i. \<exists>r \<in> set (cd_runs d). cr_run_id r = i \<and> is_terminal (cr_state r)) now d"

section \<open>Guarded transitions\<close>

text \<open>
  A transition moves the run and all its entries from the expected state to the next one. The
  run table is checked against its partial unique index, which a transition out of a state the
  index does not cover could violate.
\<close>

definition move_run ::
  "string \<Rightarrow> consolidation_state \<Rightarrow> (consolidation_run \<Rightarrow> consolidation_run) \<Rightarrow> consolidation_db
     \<Rightarrow> memd_error + (bool \<times> consolidation_db)" where
  "move_run rid expected f d =
     (let (n, rs) = update_where (\<lambda>r. run_is rid r \<and> cr_state r = expected) f (cd_runs d)
      in if \<not> distinct (map input_key (filter is_active rs))
         then Inl (DatabaseError ''UNIQUE constraint failed: consolidation_runs'')
         else Inr (n \<noteq> 0, d\<lparr>cd_runs := rs\<rparr>))"

definition move_entries ::
  "string \<Rightarrow> consolidation_state \<Rightarrow> (consolidation_entry \<Rightarrow> consolidation_entry) \<Rightarrow> consolidation_db
     \<Rightarrow> memd_error + consolidation_db" where
  "move_entries rid expected f d =
     (let (n, es) = update_where (\<lambda>e. ce_run_id e = rid \<and> ce_state e = expected) f (cd_entries d)
      in if n \<noteq> length (filter (\<lambda>e. ce_run_id e = rid) es)
         then Inl (StorageError ''consolidation run has entries outside expected state'')
         else Inr (d\<lparr>cd_entries := es\<rparr>))"

definition moved_entry :: "consolidation_state \<Rightarrow> string option \<Rightarrow> i64 \<Rightarrow> consolidation_entry \<Rightarrow> consolidation_entry" where
  "moved_entry nxt err now e = e\<lparr>ce_state := nxt, ce_validation_error := err, ce_updated_at_ms := now\<rparr>"

definition transition_consolidation_run ::
  "string \<Rightarrow> consolidation_state \<Rightarrow> consolidation_state \<Rightarrow> i64 \<Rightarrow> string option \<Rightarrow> string option \<Rightarrow> consolidation_db
     \<Rightarrow> (memd_error + bool) \<times> consolidation_db" where
  "transition_consolidation_run rid expected nxt now result err =
     transact (\<lambda>d.
       case move_run rid expected
              (\<lambda>r. r\<lparr>cr_state := nxt,
                     cr_validation_result := (case result of Some v \<Rightarrow> Some v | None \<Rightarrow> cr_validation_result r),
                     cr_error := err, cr_updated_at_ms := now\<rparr>) d of
         Inl e \<Rightarrow> Inl e
       | Inr (found, d1) \<Rightarrow>
           if \<not> found then Inr (False, d)
           else (case move_entries rid expected (moved_entry nxt err now) d1 of
                   Inl e \<Rightarrow> Inl e
                 | Inr d2 \<Rightarrow> Inr (True, d2)))"

definition terminate_consolidation_run ::
  "string \<Rightarrow> consolidation_state \<Rightarrow> consolidation_state \<Rightarrow> i64 \<Rightarrow> string \<Rightarrow> consolidation_db
     \<Rightarrow> (memd_error + bool) \<times> consolidation_db" where
  "terminate_consolidation_run rid expected terminal now err d =
     (if terminal \<noteq> Rejected \<and> terminal \<noteq> RolledBack
      then (Inl (ValidationError ''consolidation termination requires rejected or rolled_back state''), d)
      else transact (\<lambda>d.
        case move_run rid expected (\<lambda>r. r\<lparr>cr_state := terminal, cr_error := Some err, cr_updated_at_ms := now\<rparr>) d of
          Inl e \<Rightarrow> Inl e
        | Inr (found, d1) \<Rightarrow>
            if \<not> found then Inr (False, d)
            else (case move_entries rid expected (moved_entry terminal (Some err) now) d1 of
                    Inl e \<Rightarrow> Inl e
                  | Inr d2 \<Rightarrow> Inr (True, snd (hide_consolidation_candidates rid now d2)))) d)"

section \<open>Promotion\<close>

text \<open>The candidate ids of the entries; the code collects them in a hash set, \<open>ord\<close> is its order.\<close>

fun validated_candidates :: "consolidation_entry list \<Rightarrow> memd_error + string list" where
  "validated_candidates [] = Inr []"
| "validated_candidates (e # es) =
     (if ce_state e \<noteq> Validated then Inl (StorageError ''consolidation entry is not validated'')
      else case ce_candidate_chunk_id e of
        None \<Rightarrow> Inl (StorageError ''consolidation entry has no candidate chunk'')
      | Some c \<Rightarrow> (case validated_candidates es of Inl x \<Rightarrow> Inl x | Inr cs \<Rightarrow> Inr (c # cs)))"

fun check_candidates ::
  "consolidation_run \<Rightarrow> memory_lineage list \<Rightarrow> chunk_metadata list \<Rightarrow> string list \<Rightarrow> memd_error + unit" where
  "check_candidates run ls rows [] = Inr ()"
| "check_candidates run ls rows (c # cs) =
     (case find (key_is (cr_tenant_id run) c) rows of
        None \<Rightarrow> Inl (DatabaseError ''Query returned no rows'')
      | Some m \<Rightarrow>
          if m_status m \<noteq> Candidate \<or> m_project_id m \<noteq> cr_project_id run
          then Inl (StorageError ''candidate drifted outside run'')
          else if \<not> (\<exists>l \<in> set ls. ml_result_chunk_id l = c)
          then Inl (StorageError ''candidate has no lineage in run'')
          else check_candidates run ls rows cs)"

text \<open>A source that can still be condensed: final, not superseded, not history, not expired.\<close>

definition final_head :: "i64 \<Rightarrow> chunk_metadata \<Rightarrow> bool" where
  "final_head now m \<longleftrightarrow> m_status m = Final \<and> superseded_by (m_lifecycle m) = None \<and> tier (m_lifecycle m) \<noteq> History
     \<and> (case expires_at_ms (m_lifecycle m) of Some e \<Rightarrow> \<not> sint e \<le> sint now | None \<Rightarrow> True)"

fun check_edges ::
  "consolidation_run \<Rightarrow> lineage_relation \<Rightarrow> string list \<Rightarrow> i64 \<Rightarrow> chunk_metadata list \<Rightarrow> memory_lineage list
     \<Rightarrow> memd_error + unit" where
  "check_edges run rel cands now rows [] = Inr ()"
| "check_edges run rel cands now rows (l # ls) =
     (if ml_tenant_id l \<noteq> cr_tenant_id run \<or> ml_project_id l \<noteq> cr_project_id run
         \<or> ml_result_chunk_id l \<notin> set cands
      then Inl (StorageError ''lineage edge escaped consolidation run scope'')
      else if ml_relation l \<noteq> rel
      then Inl (StorageError ''lineage relation is invalid for run scope'')
      else case find (key_is (cr_tenant_id run) (ml_source_chunk_id l)) rows of
        None \<Rightarrow> Inl (DatabaseError ''Query returned no rows'')
      | Some m \<Rightarrow>
          if \<not> final_head now m
          then Inl (StorageError ''source is no longer a visible final head for run'')
          else if rel = Supersedes \<and> m_project_id m \<noteq> cr_project_id run
          then Inl (StorageError ''source escaped project scope for run'')
          else check_edges run rel cands now rows ls)"

definition promoted_row :: "i64 \<Rightarrow> chunk_metadata \<Rightarrow> chunk_metadata" where
  "promoted_row now m = m\<lparr>m_status := Final, m_lifecycle := (m_lifecycle m)\<lparr>lifecycle_updated_at_ms := now\<rparr>\<rparr>"

fun promote_candidate_rows :: "string \<Rightarrow> i64 \<Rightarrow> string list \<Rightarrow> chunk_metadata list \<Rightarrow> memd_error + chunk_metadata list" where
  "promote_candidate_rows tid now [] rows = Inr rows"
| "promote_candidate_rows tid now (c # cs) rows =
     (let (n, rows') = update_where (\<lambda>m. key_is tid c m \<and> m_status m = Candidate) (promoted_row now) rows
      in if n \<noteq> 1 then Inl (StorageError ''candidate could not be promoted for run'')
         else promote_candidate_rows tid now cs rows')"

fun supersede_sources ::
  "consolidation_run \<Rightarrow> i64 \<Rightarrow> memory_lineage list \<Rightarrow> chunk_metadata list \<Rightarrow> memd_error + chunk_metadata list" where
  "supersede_sources run now [] rows = Inr rows"
| "supersede_sources run now (l # ls) rows =
     (let (n, rows') = update_where
            (\<lambda>m. key_is (cr_tenant_id run) (ml_source_chunk_id l) m \<and> m_project_id m = cr_project_id run \<and> final_head now m)
            (superseded_row (ml_result_chunk_id l) now) rows
      in if n \<noteq> 1 then Inl (StorageError ''source could not be superseded for run'')
         else supersede_sources run now ls rows')"

definition commit_run :: "string \<Rightarrow> i64 \<Rightarrow> nat \<Rightarrow> consolidation_db \<Rightarrow> memd_error + (promotion_outcome \<times> consolidation_db)" where
  "commit_run rid now total_entries d =
     (let (n, es) = update_where (\<lambda>e. ce_run_id e = rid \<and> ce_state e = Validated)
                      (\<lambda>e. e\<lparr>ce_state := Committed, ce_updated_at_ms := now\<rparr>) (cd_entries d)
      in if n \<noteq> total_entries then Inl (StorageError ''not all entries committed for run'')
         else let (k, rs) = update_where (\<lambda>r. run_is rid r \<and> cr_state r = Validated)
                              (\<lambda>r. r\<lparr>cr_state := Committed, cr_error := None, cr_updated_at_ms := now\<rparr>) (cd_runs d)
              in if k \<noteq> 1 then Inl (StorageError ''run lost its validated promotion guard'')
                 else Inr (PromotionCommitted, d\<lparr>cd_runs := rs, cd_entries := es\<rparr>))"

definition promote_tx ::
  "(string list \<Rightarrow> string list) \<Rightarrow> string \<Rightarrow> i64 \<Rightarrow> consolidation_db \<Rightarrow> memd_error + (promotion_outcome \<times> consolidation_db)" where
  "promote_tx ord rid now d =
     (case get_consolidation_run rid d of
        None \<Rightarrow> Inl (DatabaseError ''Query returned no rows'')
      | Some run \<Rightarrow>
          if cr_state run = Committed then Inr (AlreadyCommitted, d)
          else if cr_state run \<noteq> Validated then Inl (StorageError ''consolidation run cannot promote from state'')
          else if \<not> cr_promotion_requested run
          then Inl (ValidationError ''consolidation run has no durable promotion request'')
          else let es = query_consolidation_entries rid d; ls = query_memory_lineage rid d in
            if es = [] \<or> ls = [] then Inl (StorageError ''consolidation run has no entries or lineage'')
            else case validated_candidates es of
              Inl e \<Rightarrow> Inl e
            | Inr cs \<Rightarrow>
               (let cands = ord (remdups cs); rel = ml_relation (hd ls) in
                case check_candidates run ls (cd_chunks d) cands of
                  Inl e \<Rightarrow> Inl e
                | Inr _ \<Rightarrow>
                   (case check_edges run rel cands now (cd_chunks d) ls of
                      Inl e \<Rightarrow> Inl e
                    | Inr _ \<Rightarrow>
                       (case promote_candidate_rows (cr_tenant_id run) now cands (cd_chunks d) of
                          Inl e \<Rightarrow> Inl e
                        | Inr rows \<Rightarrow>
                           (case (if rel = Supersedes then supersede_sources run now ls rows else Inr rows) of
                              Inl e \<Rightarrow> Inl e
                            | Inr rows' \<Rightarrow> commit_run rid now (length es) (d\<lparr>cd_chunks := rows'\<rparr>))))))"

definition atomic_promote_consolidation_run ::
  "(string list \<Rightarrow> string list) \<Rightarrow> string \<Rightarrow> i64 \<Rightarrow> consolidation_db \<Rightarrow> (memd_error + promotion_outcome) \<times> consolidation_db" where
  "atomic_promote_consolidation_run ord rid now = transact (promote_tx ord rid now)"

end
