(* ===== verification/Consolidation_Service.thy ===== *)
theory Consolidation_Service
  imports Consolidation
begin

text \<open>
  The staged consolidation service (\<open>consolidate/service.rs\<close>) over the journal: validation of
  a run against the chunk table, its payloads and its audit file, promotion with the
  classification of failures, recovery of unfinished runs, settling a run that another caller
  started, and explicit review.

  Reading a chunk (\<open>Store::get\<close>), the files below the data directory, the JSON parser, SHA-256
  and the sparse index are fields of an environment. The clock is a sequence of readings, one per
  call of \<open>now_ms\<close> in the order of the code.
\<close>

section \<open>Environment\<close>

text \<open>The fields of the audit document the validation looks at, absent when missing or of another type.\<close>

record audit_artifact =
  aa_response_sha256 :: "str option"
  aa_raw_response :: "str option"
  aa_stored_response_sha256 :: "str option"
  aa_truncated :: "bool option"

record service_env =
  env_get :: "string \<Rightarrow> string \<Rightarrow> consolidation_db \<Rightarrow> memd_error + memory_chunk option"
  env_files :: "string \<Rightarrow> bytes option"
  env_json :: "bytes \<Rightarrow> audit_artifact option"
  env_sha256_hex :: "str \<Rightarrow> str"
  env_sparse_delete :: "(string \<Rightarrow> string \<Rightarrow> bool) option"
  env_sparse_on_disk :: bool
  env_hash_order :: "string list \<Rightarrow> string list"

definition RECOVERY_MIN_AGE_MS :: i64 where
  "RECOVERY_MIN_AGE_MS = 30000"

definition ACTIVE_RUN_WAIT_ATTEMPTS :: nat where
  "ACTIVE_RUN_WAIT_ATTEMPTS = 100"

definition RAW_RESPONSE_AUDIT_MAX_BYTES :: nat where
  "RAW_RESPONSE_AUDIT_MAX_BYTES = 256 * 1024"

text \<open>The message of an error.\<close>

fun display_error :: "memd_error \<Rightarrow> string" where
  "display_error (ConfigError m) = ''configuration error: '' @ m"
| "display_error (ValidationError m) = ''validation error: '' @ m"
| "display_error (StorageError m) = ''storage error: '' @ m"
| "display_error (ProtocolError m) = ''protocol error: '' @ m"
| "display_error (ReadOnlyStore op) = ''store opened read-only: operation '' @ [CHR 0x27] @ op @ [CHR 0x27] @ '' not permitted''"
| "display_error (EmbeddingError m) = ''embedding error: '' @ m"
| "display_error (IoError (IoErr k m)) = ''io error: '' @ m"
| "display_error (JsonError m) = ''json error: '' @ m"
| "display_error (TomlError m) = ''toml parse error: '' @ m"
| "display_error (TomlSerError m) = ''toml serialization error: '' @ m"
| "display_error (DatabaseError m) = ''database error: '' @ m"
| "display_error (CandleError m) = ''candle error: '' @ m"
| "display_error (IndexBusy m) = ''memd:dense-index-busy: '' @ m @ ''; retry shortly''"
| "display_error (IncompatibleWarmWorker wv wp cv cp) =
     ''warm worker is incompatible: worker version '' @ wv @ '', protocol '' @ wp @ ''; CLI version '' @ cv @ '', protocol '' @ cp"
| "display_error (WarmWorkerConfigMismatch wm wv cm cv) =
     ''warm worker configuration mismatch: worker serves model '' @ wm @ '' / variant '' @ wv
       @ ''; CLI requested model '' @ cm @ '' / variant '' @ cv"
| "display_error (DenseIndexModelMismatch p a b) =
     ''dense index at '' @ p @ '' holds '' @ show_nat a @ ''-d embeddings but the active embedding model produces ''
       @ show_nat b @ ''-d vectors; this store was built with a different --embedding-model. Re-open with the original model, or set MEMD_BACKFILL_HNSW_ON_STARTUP=1 to discard the dense index and re-embed from segments.''"
| "display_error (WriterLockHeld p h) =
     ''writer lock held by another process ('' @ h @ '') at '' @ p @ ''; if a memd warm worker is running, route this write through it (--warm auto, the default) or stop it with `memd warm stop`; otherwise stop the other memd process or retry later (MEMD_WRITER_LOCK_TIMEOUT_MS)''"

definition is_validation_error :: "memd_error \<Rightarrow> bool" where
  "is_validation_error e = (case e of ValidationError _ \<Rightarrow> True | _ \<Rightarrow> False)"

section \<open>Validation\<close>

text \<open>
  A relative path all of whose components are names: not absolute, no parent directory, and
  no leading current directory (later ones are dropped when a path is split).
\<close>

definition safe_relative_path :: "string \<Rightarrow> bool" where
  "safe_relative_path p =
     (let parts = filter (\<lambda>w. w \<noteq> []) (split_on (\<lambda>c. c = 0x2F) (lit p)) in
      \<not> starts_with (lit p) (lit ''/'') \<and> lit ''..'' \<notin> set parts \<and> (parts = [] \<or> hd parts \<noteq> lit ''.''))"

definition validate_raw_response_audit :: "service_env \<Rightarrow> consolidation_run \<Rightarrow> memd_error + unit" where
  "validate_raw_response_audit V run =
     (case cr_audit_artifact_path run of
        None \<Rightarrow> Inl (ValidationError ''consolidation run has no raw-response audit artifact'')
      | Some path \<Rightarrow>
          if \<not> safe_relative_path path
          then Inl (ValidationError ''consolidation audit artifact path is not a safe relative path'')
          else case env_files V path of
            None \<Rightarrow> Inl (IoError (IoErr NotFound ''No such file or directory''))
          | Some content \<Rightarrow>
              if length content > RAW_RESPONSE_AUDIT_MAX_BYTES
              then Inl (ValidationError ''consolidation audit artifact exceeds its bounded size'')
              else case env_json V content of
                None \<Rightarrow> Inl (ValidationError ''consolidation audit artifact is not valid JSON'')
              | Some a \<Rightarrow>
                 (case aa_response_sha256 a of
                    None \<Rightarrow> Inl (ValidationError ''consolidation audit artifact has no response hash'')
                  | Some h \<Rightarrow>
                      if cr_response_hash run \<noteq> Some h
                      then Inl (ValidationError ''consolidation audit response hash does not match its journal'')
                      else case aa_raw_response a of
                        None \<Rightarrow> Inl (ValidationError ''consolidation audit artifact has no stored response'')
                      | Some raw \<Rightarrow>
                         (case aa_stored_response_sha256 a of
                            None \<Rightarrow> Inl (ValidationError ''consolidation audit artifact has no stored-response hash'')
                          | Some sh \<Rightarrow>
                              if env_sha256_hex V raw \<noteq> sh
                              then Inl (ValidationError ''consolidation audit stored-response hash does not match its body'')
                              else if aa_truncated a = Some False \<and> h \<noteq> sh
                              then Inl (ValidationError ''untruncated consolidation audit body does not match the journal response hash'')
                              else Inr ())))"

fun validate_sources ::
  "chunk_metadata list \<Rightarrow> string \<Rightarrow> string option \<Rightarrow> lineage_relation \<Rightarrow> string list \<Rightarrow> i64 \<Rightarrow> memd_error + unit" where
  "validate_sources rows tid pid rel [] now = Inr ()"
| "validate_sources rows tid pid rel (s # ss) now =
     (case meta_get rows tid s of
        None \<Rightarrow> Inl (ValidationError ''source is missing'')
      | Some m \<Rightarrow>
          if \<not> final_head now m then Inl (ValidationError ''source is no longer a visible final head'')
          else if rel = Supersedes \<and> m_project_id m \<noteq> pid
          then Inl (ValidationError ''source escaped project consolidation scope'')
          else validate_sources rows tid pid rel ss now)"

fun validate_entries ::
  "service_env \<Rightarrow> consolidation_run \<Rightarrow> consolidation_db \<Rightarrow> consolidation_entry list \<Rightarrow> memd_error + unit" where
  "validate_entries V run d [] = Inr ()"
| "validate_entries V run d (e # es) =
     (case ce_candidate_chunk_id e of
        None \<Rightarrow> Inl (ValidationError ''consolidation entry has no candidate id'')
      | Some c \<Rightarrow>
         (case meta_get (cd_chunks d) (cr_tenant_id run) c of
            None \<Rightarrow> Inl (ValidationError ''candidate metadata is missing'')
          | Some m \<Rightarrow>
              if m_status m \<noteq> Candidate \<or> m_project_id m \<noteq> cr_project_id run
              then Inl (ValidationError ''candidate metadata escaped its journal scope'')
              else case env_get V (cr_tenant_id run) c d of
                Inl x \<Rightarrow> Inl x
              | Inr None \<Rightarrow> Inl (ValidationError ''candidate payload is missing'')
              | Inr (Some _) \<Rightarrow> validate_entries V run d es))"

text \<open>A \<open>BTreeSet\<close> of ids, as the list of its elements in order.\<close>

definition id_set :: "string list \<Rightarrow> string list" where
  "id_set xs = sort_by str_cmp (remdups xs)"

definition lineage_sources :: "string \<Rightarrow> consolidation_db \<Rightarrow> string list" where
  "lineage_sources rid d = id_set (map ml_source_chunk_id (query_memory_lineage rid d))"

definition validate_candidate_run :: "service_env \<Rightarrow> i64 \<Rightarrow> consolidation_run \<Rightarrow> consolidation_db \<Rightarrow> memd_error + unit" where
  "validate_candidate_run V now run d =
     (case validate_raw_response_audit V run of
        Inl e \<Rightarrow> Inl e
      | Inr _ \<Rightarrow>
         (let es = query_consolidation_entries (cr_run_id run) d in
          if es = [] then Inl (ValidationError ''consolidation run has no candidate entries'')
          else case validate_entries V run d es of
            Inl e \<Rightarrow> Inl e
          | Inr _ \<Rightarrow>
             (case query_memory_lineage (cr_run_id run) d of
                [] \<Rightarrow> Inl (ValidationError ''consolidation run has no lineage'')
              | l # _ \<Rightarrow> validate_sources (cd_chunks d) (cr_tenant_id run) (cr_project_id run) (ml_relation l)
                          (lineage_sources (cr_run_id run) d) now)))"

section \<open>Promotion and cleanup\<close>

definition promote_validated_run ::
  "service_env \<Rightarrow> i64 \<Rightarrow> consolidation_run \<Rightarrow> consolidation_db \<Rightarrow> (memd_error + promotion_outcome) \<times> consolidation_db" where
  "promote_validated_run V now run d =
     (case validate_raw_response_audit V run of
        Inl e \<Rightarrow> (Inl e, d)
      | Inr _ \<Rightarrow> atomic_promote_consolidation_run (env_hash_order V) (cr_run_id run) now d)"

text \<open>The result of a statement whose value is not used.\<close>

definition discard :: "(memd_error + 'a) \<times> 's \<Rightarrow> (memd_error + unit) \<times> 's" where
  "discard x = (case x of (Inl e, s) \<Rightarrow> (Inl e, s) | (Inr _, s) \<Rightarrow> (Inr (), s))"

definition classify_promotion_failure ::
  "service_env \<Rightarrow> i64 \<Rightarrow> i64 \<Rightarrow> consolidation_run \<Rightarrow> memd_error \<Rightarrow> consolidation_db \<Rightarrow> (memd_error + unit) \<times> consolidation_db" where
  "classify_promotion_failure V t0 t1 run err d =
     (case validate_candidate_run V t0 run d of
        Inl (ValidationError reason) \<Rightarrow>
          discard (terminate_consolidation_run (cr_run_id run) Validated Rejected t1
            (''promotion rejected after source/candidate drift: '' @ reason) d)
      | result \<Rightarrow>
          discard (transition_consolidation_run (cr_run_id run) Validated FailedRecoverable t1 None
            (Some (case result of
                     Inr _ \<Rightarrow> display_error err
                   | Inl e \<Rightarrow> ''promotion failed: '' @ display_error err @ ''; validation retry failed: '' @ display_error e)) d))"

definition cleanup_superseded_sparse_rows :: "service_env \<Rightarrow> string \<Rightarrow> lineage_relation \<Rightarrow> string list \<Rightarrow> bool" where
  "cleanup_superseded_sparse_rows V tid rel sources =
     (if rel \<noteq> Supersedes then True
      else case env_sparse_delete V of
        None \<Rightarrow> \<not> env_sparse_on_disk V
      | Some del \<Rightarrow> foldl (\<lambda>complete s. complete \<and> del tid s) True sources)"

definition finish_sparse_cleanup_for_run ::
  "service_env \<Rightarrow> string \<Rightarrow> string \<Rightarrow> lineage_relation \<Rightarrow> string list \<Rightarrow> i64 \<Rightarrow> consolidation_db \<Rightarrow> consolidation_db" where
  "finish_sparse_cleanup_for_run V rid tid rel sources now d =
     (if cleanup_superseded_sparse_rows V tid rel sources
      then snd (mark_consolidation_sparse_cleanup_done rid now d) else d)"

text \<open>The cleanup of one run left over from before; a run without lineage stays pending.\<close>

definition finish_pending_run :: "service_env \<Rightarrow> i64 \<Rightarrow> consolidation_run \<Rightarrow> consolidation_db \<Rightarrow> consolidation_db" where
  "finish_pending_run V now run d =
     (case query_memory_lineage (cr_run_id run) d of
        [] \<Rightarrow> d
      | l # _ \<Rightarrow> finish_sparse_cleanup_for_run V (cr_run_id run) (cr_tenant_id run) (ml_relation l)
                  (lineage_sources (cr_run_id run) d) now d)"

definition finish_pending_sparse_cleanup :: "service_env \<Rightarrow> (nat \<Rightarrow> i64) \<Rightarrow> nat \<Rightarrow> consolidation_db \<Rightarrow> consolidation_db" where
  "finish_pending_sparse_cleanup V clk limit d =
     (if env_sparse_delete V = None \<and> env_sparse_on_disk V then d
      else fold (\<lambda>(i, run). finish_pending_run V (clk i) run)
             (enumerate 0 (list_consolidation_runs_pending_sparse_cleanup limit d)) d)"

section \<open>Recovery\<close>

text \<open>Entries whose candidate has a row and a payload; entries without an id do not count.\<close>

fun count_present ::
  "service_env \<Rightarrow> string \<Rightarrow> consolidation_db \<Rightarrow> consolidation_entry list \<Rightarrow> memd_error + nat" where
  "count_present V tid d [] = Inr 0"
| "count_present V tid d (e # es) =
     (case ce_candidate_chunk_id e of
        None \<Rightarrow> count_present V tid d es
      | Some c \<Rightarrow>
         (case (if meta_get (cd_chunks d) tid c = None then Inr None else env_get V tid c d) of
            Inl x \<Rightarrow> Inl x
          | Inr found \<Rightarrow>
             (case count_present V tid d es of
                Inl x \<Rightarrow> Inl x
              | Inr n \<Rightarrow> Inr (if found = None then n else Suc n))))"

text \<open>The run is validated: nothing happens without a request, else it is promoted.\<close>

definition recover_validated ::
  "service_env \<Rightarrow> (nat \<Rightarrow> i64) \<Rightarrow> consolidation_run \<Rightarrow> consolidation_run \<Rightarrow> consolidation_db \<Rightarrow> (memd_error + unit) \<times> consolidation_db" where
  "recover_validated V clk run current d =
     (if \<not> cr_promotion_requested current then (Inr (), d)
      else case promote_validated_run V (clk 5) current d of
        (Inr _, d') \<Rightarrow>
          (case query_memory_lineage (cr_run_id run) d' of
             [] \<Rightarrow> (Inl (StorageError ''consolidation run has no lineage''), d')
           | l # _ \<Rightarrow> (Inr (), finish_sparse_cleanup_for_run V (cr_run_id run) (cr_tenant_id run) (ml_relation l)
                       (lineage_sources (cr_run_id run) d') (clk 6) d'))
      | (Inl e, d') \<Rightarrow> classify_promotion_failure V (clk 7) (clk 8) current e d')"

text \<open>After a transition to \<open>Validated\<close> the run is read again.\<close>

definition recover_moved ::
  "service_env \<Rightarrow> (nat \<Rightarrow> i64) \<Rightarrow> consolidation_run \<Rightarrow> (memd_error + bool) \<times> consolidation_db \<Rightarrow> (memd_error + unit) \<times> consolidation_db" where
  "recover_moved V clk run x =
     (case x of
        (Inl e, d) \<Rightarrow> (Inl e, d)
      | (Inr False, d) \<Rightarrow> (Inr (), d)
      | (Inr True, d) \<Rightarrow>
         (case get_consolidation_run (cr_run_id run) d of
            None \<Rightarrow> (Inl (StorageError ''missing consolidation run''), d)
          | Some current \<Rightarrow> recover_validated V clk run current d))"

definition recover_written ::
  "service_env \<Rightarrow> (nat \<Rightarrow> i64) \<Rightarrow> consolidation_run \<Rightarrow> consolidation_db \<Rightarrow> (memd_error + unit) \<times> consolidation_db" where
  "recover_written V clk run d =
     (case validate_candidate_run V (clk 1) run d of
        Inl e \<Rightarrow>
          if is_validation_error e
          then discard (terminate_consolidation_run (cr_run_id run) CandidateWritten Rejected (clk 2) (display_error e) d)
          else (Inl e, d)
      | Inr _ \<Rightarrow>
          recover_moved V clk run
            (transition_consolidation_run (cr_run_id run) CandidateWritten Validated (clk 3) (Some ''accepted during recovery'') None d))"

definition recover_one_run ::
  "service_env \<Rightarrow> (nat \<Rightarrow> i64) \<Rightarrow> consolidation_run \<Rightarrow> consolidation_db \<Rightarrow> (memd_error + unit) \<times> consolidation_db" where
  "recover_one_run V clk run d =
     (case get_consolidation_run (cr_run_id run) d of
        None \<Rightarrow> (Inl (StorageError ''missing consolidation run''), d)
      | Some current \<Rightarrow>
         (case cr_state current of
            Planned \<Rightarrow>
             (let es = query_consolidation_entries (cr_run_id run) d in
              case count_present V (cr_tenant_id run) d es of
                Inl e \<Rightarrow> (Inl e, d)
              | Inr present \<Rightarrow>
                  if present \<noteq> length es
                  then discard (terminate_consolidation_run (cr_run_id run) Planned RolledBack (clk 0)
                                  ''recovery found an incomplete candidate payload set'' d)
                  else case transition_consolidation_run (cr_run_id run) Planned CandidateWritten (clk 0) None None d of
                    (Inl e, d') \<Rightarrow> (Inl e, d')
                  | (Inr False, d') \<Rightarrow> (Inr (), d')
                  | (Inr True, d') \<Rightarrow> recover_written V clk run d')
          | CandidateWritten \<Rightarrow> recover_written V clk run d
          | FailedRecoverable \<Rightarrow>
              recover_moved V clk run
                (transition_consolidation_run (cr_run_id run) FailedRecoverable Validated (clk 4) (Some ''retrying promotion'') None d)
          | Validated \<Rightarrow> recover_validated V clk run current d
          | _ \<Rightarrow> (Inr (), d)))"

record consolidation_recovery =
  rc_inspected :: nat
  rc_committed :: nat
  rc_rolled_back :: nat
  rc_rejected :: nat
  rc_failed_recoverable :: nat
  rc_promoted_chunks :: "(string \<times> string) list"

definition no_recovery :: consolidation_recovery where
  "no_recovery = \<lparr>rc_inspected = 0, rc_committed = 0, rc_rolled_back = 0, rc_rejected = 0,
     rc_failed_recoverable = 0, rc_promoted_chunks = []\<rparr>"

definition entry_candidates :: "string \<Rightarrow> consolidation_db \<Rightarrow> string list" where
  "entry_candidates rid d = List.map_filter ce_candidate_chunk_id (query_consolidation_entries rid d)"

definition count_committed :: "consolidation_run \<Rightarrow> consolidation_db \<Rightarrow> consolidation_recovery \<Rightarrow> consolidation_recovery" where
  "count_committed run d rc =
     rc\<lparr>rc_committed := rc_committed rc + 1,
        rc_promoted_chunks := rc_promoted_chunks rc @ map (Pair (cr_tenant_id run)) (entry_candidates (cr_run_id run) d)\<rparr>"

text \<open>One iteration of the recovery loop; \<open>clk 9\<close> is the clock of the error record.\<close>

definition recover_listed ::
  "service_env \<Rightarrow> (nat \<Rightarrow> i64) \<Rightarrow> consolidation_run \<Rightarrow> consolidation_recovery \<Rightarrow> consolidation_db
     \<Rightarrow> memd_error + (consolidation_recovery \<times> consolidation_db)" where
  "recover_listed V clk run rc0 d =
     (let rc = rc0\<lparr>rc_inspected := rc_inspected rc0 + 1\<rparr> in
      case recover_one_run V clk run d of
        (Inl e, d') \<Rightarrow>
          (case map_option cr_state (get_consolidation_run (cr_run_id run) d') of
             Some Committed \<Rightarrow> Inr (count_committed run d' rc, d')
           | Some Rejected \<Rightarrow> Inr (rc\<lparr>rc_rejected := rc_rejected rc + 1\<rparr>, d')
           | Some RolledBack \<Rightarrow> Inr (rc\<lparr>rc_rolled_back := rc_rolled_back rc + 1\<rparr>, d')
           | _ \<Rightarrow> Inr (rc\<lparr>rc_failed_recoverable := rc_failed_recoverable rc + 1\<rparr>,
                       snd (record_consolidation_recovery_error (cr_run_id run) (clk 9) (display_error e) d')))
      | (Inr _, d') \<Rightarrow>
          (case get_consolidation_run (cr_run_id run) d' of
             None \<Rightarrow> Inl (StorageError ''consolidation run disappeared during recovery'')
           | Some r \<Rightarrow>
               Inr (case cr_state r of
                      Committed \<Rightarrow> count_committed run d' rc
                    | RolledBack \<Rightarrow> rc\<lparr>rc_rolled_back := rc_rolled_back rc + 1\<rparr>
                    | Rejected \<Rightarrow> rc\<lparr>rc_rejected := rc_rejected rc + 1\<rparr>
                    | FailedRecoverable \<Rightarrow> rc\<lparr>rc_failed_recoverable := rc_failed_recoverable rc + 1\<rparr>
                    | _ \<Rightarrow> rc, d')))"

fun recover_runs ::
  "service_env \<Rightarrow> (nat \<Rightarrow> nat \<Rightarrow> i64) \<Rightarrow> consolidation_run list \<Rightarrow> consolidation_recovery \<Rightarrow> consolidation_db
     \<Rightarrow> (memd_error + consolidation_recovery) \<times> consolidation_db" where
  "recover_runs V clk [] rc d = (Inr rc, d)"
| "recover_runs V clk (run # rest) rc d =
     (case recover_listed V (clk 0) run rc d of
        Inl e \<Rightarrow> (Inl e, snd (recover_one_run V (clk 0) run d))
      | Inr (rc', d') \<Rightarrow> recover_runs V (\<lambda>i. clk (Suc i)) rest rc' d')"

definition recover_consolidation_runs_before ::
  "service_env \<Rightarrow> bool \<Rightarrow> i64 \<Rightarrow> (nat \<Rightarrow> i64) \<Rightarrow> (nat \<Rightarrow> nat \<Rightarrow> i64) \<Rightarrow> nat \<Rightarrow> i64 \<Rightarrow> consolidation_db
     \<Rightarrow> (memd_error + consolidation_recovery) \<times> consolidation_db" where
  "recover_consolidation_runs_before V ro t0 tc clk limit cutoff d =
     (if ro then (Inl (ReadOnlyStore ''recover_consolidation_runs''), d)
      else let d1 = finish_pending_sparse_cleanup V tc limit (snd (hide_terminal_consolidation_candidates t0 d))
           in recover_runs V clk (list_recoverable_consolidation_runs_before limit cutoff d1) no_recovery d1)"

section \<open>Execution results, waiting and review\<close>

record consolidation_execution =
  ex_run_id :: string
  ex_state :: consolidation_state
  ex_candidate_chunk_ids :: "string list"
  ex_source_count :: nat
  ex_reused_existing_run :: bool

definition execution_from_journal :: "string \<Rightarrow> nat \<Rightarrow> bool \<Rightarrow> consolidation_db \<Rightarrow> memd_error + consolidation_execution" where
  "execution_from_journal rid n reused d =
     (case get_consolidation_run rid d of
        None \<Rightarrow> Inl (StorageError ''missing consolidation run'')
      | Some r \<Rightarrow> Inr \<lparr>ex_run_id = rid, ex_state = cr_state r, ex_candidate_chunk_ids = entry_candidates rid d,
                       ex_source_count = n, ex_reused_existing_run = reused\<rparr>)"

text \<open>
  Waiting for a run another caller started: at most \<open>ACTIVE_RUN_WAIT_ATTEMPTS\<close> rounds. What
  others do to the database during the \<open>i\<close>-th pause is \<open>others i\<close>; \<open>clk i 10\<close> is the clock of
  the \<open>i\<close>-th round.
\<close>

fun settle_rounds ::
  "service_env \<Rightarrow> (nat \<Rightarrow> nat \<Rightarrow> i64) \<Rightarrow> (nat \<Rightarrow> consolidation_db \<Rightarrow> consolidation_db) \<Rightarrow> nat \<Rightarrow> nat \<Rightarrow> consolidation_run
     \<Rightarrow> consolidation_db \<Rightarrow> (memd_error + unit) \<times> consolidation_db" where
  "settle_rounds V clk others 0 i run d = (Inr (), d)"
| "settle_rounds V clk others (Suc n) i run d =
     (if is_terminal (cr_state run) then (Inr (), d)
      else if cr_state run = Validated
      then (if cr_promotion_requested run then recover_one_run V (clk i) run d else (Inr (), d))
      else if sint (cr_updated_at_ms run) \<le> sint (clk i 10 - RECOVERY_MIN_AGE_MS)
      then recover_one_run V (clk i) run d
      else let d' = others i d in
           case get_consolidation_run (cr_run_id run) d' of
             None \<Rightarrow> (Inl (StorageError ''consolidation run disappeared while waiting''), d')
           | Some run' \<Rightarrow> settle_rounds V clk others n (Suc i) run' d')"

definition settle_existing_run ::
  "service_env \<Rightarrow> (nat \<Rightarrow> nat \<Rightarrow> i64) \<Rightarrow> (nat \<Rightarrow> consolidation_db \<Rightarrow> consolidation_db) \<Rightarrow> consolidation_run \<Rightarrow> nat
     \<Rightarrow> consolidation_db \<Rightarrow> (memd_error + consolidation_execution) \<times> consolidation_db" where
  "settle_existing_run V clk others run n d =
     (case settle_rounds V clk others ACTIVE_RUN_WAIT_ATTEMPTS 0 run d of
        (Inl e, d') \<Rightarrow> (Inl e, d')
      | (Inr _, d') \<Rightarrow> (execution_from_journal (cr_run_id run) n True d', d'))"

datatype review_decision = Accept | Reject

definition accept_run ::
  "service_env \<Rightarrow> (nat \<Rightarrow> i64) \<Rightarrow> string \<Rightarrow> nat \<Rightarrow> consolidation_db \<Rightarrow> (memd_error + consolidation_execution) \<times> consolidation_db" where
  "accept_run V clk rid n d =
     (case get_consolidation_run rid d of
        None \<Rightarrow> (Inl (StorageError ''missing consolidation run''), d)
      | Some requested \<Rightarrow>
         (case recover_one_run V clk requested d of
            (Inl e, d') \<Rightarrow> (Inl e, d')
          | (Inr _, d') \<Rightarrow>
             (case execution_from_journal rid n False d' of
                Inl e \<Rightarrow> (Inl e, d')
              | Inr x \<Rightarrow>
                  if ex_state x \<noteq> Committed
                  then (Inl (ValidationError ''accepting consolidation run failed''), d') else (Inr x, d'))))"

definition review_consolidation_run ::
  "service_env \<Rightarrow> (nat \<Rightarrow> i64) \<Rightarrow> string \<Rightarrow> review_decision \<Rightarrow> consolidation_db
     \<Rightarrow> (memd_error + consolidation_execution) \<times> consolidation_db" where
  "review_consolidation_run V clk rid decision d =
     (case get_consolidation_run rid d of
        None \<Rightarrow> (Inl (ValidationError ''unknown consolidation run''), d)
      | Some run \<Rightarrow>
         (let n = length (lineage_sources rid d) in
          case decision of
            Accept \<Rightarrow>
              if cr_state run = Committed then (execution_from_journal rid n True d, d)
              else if cr_state run \<noteq> Validated
              then (Inl (ValidationError ''consolidation run cannot be accepted from this state''), d)
              else (case request_consolidation_promotion rid (clk 10) d of
                (True, d') \<Rightarrow> accept_run V clk rid n d'
              | (False, d') \<Rightarrow>
                 (case get_consolidation_run rid d' of
                    None \<Rightarrow> (Inl (StorageError ''missing consolidation run''), d')
                  | Some current \<Rightarrow>
                      if cr_state current = Committed then (execution_from_journal rid n True d', d')
                      else if cr_state current \<noteq> Validated \<or> \<not> cr_promotion_requested current
                      then (Inl (ValidationError ''concurrent review prevented accepting run''), d')
                      else accept_run V clk rid n d'))
          | Reject \<Rightarrow>
              if cr_state run = Rejected then (execution_from_journal rid n True d, d)
              else if cr_state run \<noteq> Validated
              then (Inl (ValidationError ''consolidation run cannot be rejected from this state''), d)
              else (case terminate_consolidation_run rid Validated Rejected (clk 10) ''rejected by explicit review'' d of
                (Inl e, d') \<Rightarrow> (Inl e, d')
              | (Inr True, d') \<Rightarrow> (execution_from_journal rid n False d', d')
              | (Inr False, d') \<Rightarrow>
                 (case get_consolidation_run rid d' of
                    None \<Rightarrow> (Inl (StorageError ''missing consolidation run''), d')
                  | Some current \<Rightarrow>
                      if cr_state current = Rejected then (execution_from_journal rid n True d', d')
                      else (Inl (ValidationError ''concurrent review prevented rejecting run''), d')))))"

end
