(* ===== verification/Consolidation_Inv.thy ===== *)
theory Consolidation_Inv
  imports Consolidation Lifecycle_Serving
begin

text \<open>
  The invariant of the consolidation journal and what its transactions do to a database that
  satisfies it: transitions, terminations and promotions succeed or fail as a whole, and the
  checks the code repeats inside a transaction cannot fail after the first ones passed.
\<close>

section \<open>The invariant\<close>

definition entry_key :: "consolidation_entry \<Rightarrow> string \<times> nat" where
  "entry_key e = (ce_run_id e, ce_entry_index e)"

definition source_key :: "memory_lineage \<Rightarrow> string \<times> string" where
  "source_key l = (ml_run_id l, ml_source_chunk_id l)"

definition belongs :: "consolidation_run \<Rightarrow> consolidation_entry \<Rightarrow> bool" where
  "belongs r e \<longleftrightarrow> ce_run_id e = cr_run_id r"

definition edge_of :: "consolidation_run \<Rightarrow> memory_lineage \<Rightarrow> bool" where
  "edge_of r l \<longleftrightarrow> ml_run_id l = cr_run_id r"

text \<open>Keys of the tables.\<close>

definition keys_ok :: "consolidation_db \<Rightarrow> bool" where
  "keys_ok d \<longleftrightarrow> distinct (map cr_run_id (cd_runs d)) \<and> distinct (map input_key (filter is_active (cd_runs d)))
     \<and> distinct (map entry_key (cd_entries d)) \<and> distinct (map ce_candidate_chunk_id (cd_entries d))
     \<and> distinct (map source_key (cd_lineage d))"

text \<open>Every entry follows its run, and a commit was asked for.\<close>

definition states_ok :: "consolidation_db \<Rightarrow> bool" where
  "states_ok d \<longleftrightarrow>
     (\<forall>e \<in> set (cd_entries d). \<exists>r \<in> set (cd_runs d). belongs r e \<and> ce_state e = cr_state r)
     \<and> (\<forall>r \<in> set (cd_runs d). cr_state r = Committed \<longrightarrow> cr_promotion_requested r)"

text \<open>Every edge leads within its run from a source to a candidate, and every candidate has an edge.\<close>

definition edge_scope :: "consolidation_db \<Rightarrow> memory_lineage \<Rightarrow> bool" where
  "edge_scope d l \<longleftrightarrow> (\<exists>r \<in> set (cd_runs d). edge_of r l \<and> ml_tenant_id l = cr_tenant_id r
        \<and> ml_project_id l = cr_project_id r)
     \<and> ml_source_chunk_id l \<noteq> ml_result_chunk_id l
     \<and> (\<exists>e \<in> set (cd_entries d). ce_run_id e = ml_run_id l \<and> ce_candidate_chunk_id e = Some (ml_result_chunk_id l))"

definition scopes_ok :: "consolidation_db \<Rightarrow> bool" where
  "scopes_ok d \<longleftrightarrow>
     (\<forall>l \<in> set (cd_lineage d). edge_scope d l)
     \<and> (\<forall>l \<in> set (cd_lineage d). \<forall>l' \<in> set (cd_lineage d). ml_run_id l = ml_run_id l' \<longrightarrow> ml_relation l = ml_relation l')
     \<and> (\<forall>e \<in> set (cd_entries d). \<exists>c. ce_candidate_chunk_id e = Some c
          \<and> (\<exists>l \<in> set (cd_lineage d). ml_run_id l = ce_run_id e \<and> ml_result_chunk_id l = c))
     \<and> (\<forall>r \<in> set (cd_runs d). \<exists>e \<in> set (cd_entries d). belongs r e)"

definition journal_ok :: "consolidation_db \<Rightarrow> bool" where
  "journal_ok d \<longleftrightarrow> keys_ok d \<and> states_ok d \<and> scopes_ok d"

lemma run_unique:
  assumes "journal_ok d" and "r \<in> set (cd_runs d)" and "r' \<in> set (cd_runs d)" and "cr_run_id r = cr_run_id r'"
  shows "r = r'"
  using assms by (auto simp: journal_ok_def keys_ok_def distinct_map dest: inj_onD)

lemma get_run:
  assumes "journal_ok d"
  shows "get_consolidation_run rid d = Some r \<longleftrightarrow> r \<in> set (cd_runs d) \<and> cr_run_id r = rid"
proof
  assume "get_consolidation_run rid d = Some r"
  then show "r \<in> set (cd_runs d) \<and> cr_run_id r = rid"
    by (auto simp: get_consolidation_run_def run_is_def find_Some_iff)
next
  assume r: "r \<in> set (cd_runs d) \<and> cr_run_id r = rid"
  then obtain r' where r': "get_consolidation_run rid d = Some r'"
    by (cases "get_consolidation_run rid d") (auto simp: get_consolidation_run_def run_is_def find_None_iff)
  then have "r' \<in> set (cd_runs d)" "cr_run_id r' = rid"
    by (auto simp: get_consolidation_run_def run_is_def find_Some_iff)
  with assms r have "r' = r" by (intro run_unique [OF assms]) simp_all
  with r' show "get_consolidation_run rid d = Some r" by simp
qed

lemma get_run_None: "get_consolidation_run rid d = None \<longleftrightarrow> (\<forall>r \<in> set (cd_runs d). cr_run_id r \<noteq> rid)"
  by (auto simp: get_consolidation_run_def run_is_def find_None_iff)

lemma active_unique:
  assumes "journal_ok d" and "r \<in> set (cd_runs d)" "r' \<in> set (cd_runs d)" and "is_active r" "is_active r'" and "input_key r = input_key r'"
  shows "r = r'"
proof -
  have "inj_on input_key (set (filter is_active (cd_runs d)))"
    using assms(1) unfolding journal_ok_def keys_ok_def distinct_map by blast
  from inj_onD [OF this assms(6)] show ?thesis using assms(2-5) by simp
qed

lemma entry_follows:
  "journal_ok d \<Longrightarrow> e \<in> set (cd_entries d) \<Longrightarrow> r \<in> set (cd_runs d) \<Longrightarrow> belongs r e \<Longrightarrow> ce_state e = cr_state r"
  using run_unique by (fastforce simp: journal_ok_def states_ok_def belongs_def)

section \<open>Updates in place\<close>

definition journal_map ::
  "(consolidation_run \<Rightarrow> consolidation_run) \<Rightarrow> (consolidation_entry \<Rightarrow> consolidation_entry) \<Rightarrow> chunk_metadata list
     \<Rightarrow> consolidation_db \<Rightarrow> consolidation_db" where
  "journal_map f g rows d = d\<lparr>cd_runs := map f (cd_runs d), cd_entries := map g (cd_entries d), cd_chunks := rows\<rparr>"

text \<open>
  Updates that keep keys, keep entries with their run, revive no run and commit only on
  request keep the invariant.
\<close>

definition keeps_journal :: "(consolidation_run \<Rightarrow> consolidation_run) \<Rightarrow> (consolidation_entry \<Rightarrow> consolidation_entry)
    \<Rightarrow> consolidation_db \<Rightarrow> bool" where
  "keeps_journal f g d \<longleftrightarrow>
     (\<forall>r \<in> set (cd_runs d). cr_run_id (f r) = cr_run_id r \<and> cr_tenant_id (f r) = cr_tenant_id r
        \<and> cr_project_id (f r) = cr_project_id r \<and> cr_input_hash (f r) = cr_input_hash r
        \<and> (is_active (f r) \<longrightarrow> is_active r) \<and> (cr_state (f r) = Committed \<longrightarrow> cr_promotion_requested (f r)))
     \<and> (\<forall>e. entry_key (g e) = entry_key e \<and> ce_candidate_chunk_id (g e) = ce_candidate_chunk_id e)
     \<and> (\<forall>r \<in> set (cd_runs d). \<forall>e \<in> set (cd_entries d). belongs r e \<longrightarrow> ce_state (g e) = cr_state (f r))"

lemma keeps_run_id: "entry_key (g e) = entry_key e \<Longrightarrow> ce_run_id (g e) = ce_run_id e"
  by (simp add: entry_key_def)

lemma journal_map_sel [simp]:
  "cd_runs (journal_map f g rows d) = map f (cd_runs d)" "cd_entries (journal_map f g rows d) = map g (cd_entries d)"
  "cd_lineage (journal_map f g rows d) = cd_lineage d" "cd_chunks (journal_map f g rows d) = rows"
  by (simp_all add: journal_map_def)

lemma distinct_filter_subset:
  assumes "distinct (map k (filter p xs))" and "\<And>x. x \<in> set xs \<Longrightarrow> k (f x) = k x" and "\<And>x. x \<in> set xs \<Longrightarrow> p (f x) \<Longrightarrow> p x"
  shows "distinct (map k (filter p (map f xs)))"
  using assms
proof (induction xs)
  case (Cons x xs)
  have sub: "k ` set (filter p (map f xs)) \<subseteq> k ` set (filter p xs)"
    using Cons.prems(2,3) by (fastforce simp: image_iff)
  have rest: "distinct (map k (filter p (map f xs)))"
    using Cons.prems by (intro Cons.IH) (auto split: if_splits)
  show ?case
  proof (cases "p (f x)")
    case True
    have "p x" "k (f x) = k x" using True Cons.prems(2,3) by auto
    with rest sub True Cons.prems(1) show ?thesis by auto
  qed (use rest in simp)
qed simp

lemma journal_map_ok:
  assumes "journal_ok d" and "keeps_journal f g d"
  shows "journal_ok (journal_map f g rows d)"
proof -
  have f: "cr_run_id (f r) = cr_run_id r" "cr_tenant_id (f r) = cr_tenant_id r" "cr_project_id (f r) = cr_project_id r"
      "cr_input_hash (f r) = cr_input_hash r" "is_active (f r) \<Longrightarrow> is_active r"
      "cr_state (f r) = Committed \<Longrightarrow> cr_promotion_requested (f r)" if "r \<in> set (cd_runs d)" for r
    using assms(2) that by (simp_all add: keeps_journal_def)
  have g: "entry_key (g e) = entry_key e" "ce_candidate_chunk_id (g e) = ce_candidate_chunk_id e" for e
    using assms(2) by (simp_all add: keeps_journal_def)
  have gr: "ce_run_id (g e) = ce_run_id e" for e using g(1) by (rule keeps_run_id)
  have fr: "map (cr_run_id \<circ> f) (cd_runs d) = map cr_run_id (cd_runs d)"
    using f(1) by simp
  have ge: "entry_key \<circ> g = entry_key" "ce_candidate_chunk_id \<circ> g = ce_candidate_chunk_id" using g by auto
  have "distinct (map input_key (filter is_active (map f (cd_runs d))))"
    using assms(1) f(2-5) by (intro distinct_filter_subset) (auto simp: journal_ok_def keys_ok_def input_key_def)
  then have "keys_ok (journal_map f g rows d)"
    using assms(1) by (simp add: keys_ok_def journal_ok_def ge fr del: map_eq_conv)
  moreover have "states_ok (journal_map f g rows d)"
  proof -
    have "\<exists>r \<in> set (cd_runs d). belongs (f r) (g e) \<and> ce_state (g e) = cr_state (f r)" if e: "e \<in> set (cd_entries d)" for e
    proof -
      obtain r where r: "r \<in> set (cd_runs d)" "belongs r e" using assms(1) e by (auto simp: journal_ok_def states_ok_def)
      then have "ce_state (g e) = cr_state (f r)" using assms(2) e by (simp add: keeps_journal_def)
      then show ?thesis using r f(1) by (intro bexI [of _ r]) (simp_all add: belongs_def gr)
    qed
    then show ?thesis using f(6) by (auto simp: states_ok_def)
  qed
  moreover have "scopes_ok (journal_map f g rows d)"
  proof -
    have sc: "scopes_ok d" using assms(1) by (simp add: journal_ok_def)
    have "edge_scope (journal_map f g rows d) l" if "edge_scope d l" for l
      using that f(1-3) g gr by (auto simp: edge_scope_def edge_of_def)
    moreover have "\<exists>e \<in> set (cd_entries (journal_map f g rows d)). belongs (f r) e" if "r \<in> set (cd_runs d)" for r
      using sc that f(1) gr by (auto simp: scopes_ok_def belongs_def)
    moreover have "\<exists>c. ce_candidate_chunk_id (g e) = Some c
        \<and> (\<exists>l \<in> set (cd_lineage d). ml_run_id l = ce_run_id (g e) \<and> ml_result_chunk_id l = c)" if "e \<in> set (cd_entries d)" for e
      using sc that unfolding scopes_ok_def g(2) gr by blast
    moreover have "ml_relation l = ml_relation l'"
      if "l \<in> set (cd_lineage d)" "l' \<in> set (cd_lineage d)" "ml_run_id l = ml_run_id l'" for l l'
      using sc that unfolding scopes_ok_def by blast
    ultimately show ?thesis using sc unfolding scopes_ok_def journal_map_sel set_map by blast
  qed
  ultimately show ?thesis by (simp add: journal_ok_def)
qed

section \<open>Guarded transitions\<close>

definition on_run :: "string \<Rightarrow> (consolidation_run \<Rightarrow> consolidation_run) \<Rightarrow> consolidation_run \<Rightarrow> consolidation_run" where
  "on_run rid f r = (if cr_run_id r = rid then f r else r)"

definition on_entries :: "string \<Rightarrow> (consolidation_entry \<Rightarrow> consolidation_entry) \<Rightarrow> consolidation_entry \<Rightarrow> consolidation_entry" where
  "on_entries rid g e = (if ce_run_id e = rid then g e else e)"

definition moved_run :: "consolidation_state \<Rightarrow> string option \<Rightarrow> string option \<Rightarrow> i64 \<Rightarrow> consolidation_run \<Rightarrow> consolidation_run" where
  "moved_run nxt result err now r =
     r\<lparr>cr_state := nxt, cr_validation_result := (case result of Some v \<Rightarrow> Some v | None \<Rightarrow> cr_validation_result r),
       cr_error := err, cr_updated_at_ms := now\<rparr>"

definition candidate_ids :: "string \<Rightarrow> consolidation_db \<Rightarrow> string set" where
  "candidate_ids rid d = {c. \<exists>e \<in> set (cd_entries d). ce_run_id e = rid \<and> ce_candidate_chunk_id e = Some c}"

definition hide_row :: "string set \<Rightarrow> i64 \<Rightarrow> chunk_metadata \<Rightarrow> chunk_metadata" where
  "hide_row cs now m = (if m_status m = Candidate \<and> m_chunk_id m \<in> cs then hidden_candidate now m else m)"

lemma hide_candidates_exact:
  "snd (hide_consolidation_candidates rid now d) = d\<lparr>cd_chunks := map (hide_row (candidate_ids rid d) now) (cd_chunks d)\<rparr>"
  unfolding hide_consolidation_candidates_def hide_candidates_of_def update_where_def candidate_ids_def hide_row_def
  by simp

text \<open>In a journal that satisfies the invariant the guard finds the run or nothing, and with it all entries.\<close>

lemma move_run_exact:
  assumes ok: "journal_ok d" and act: "expected \<noteq> Rejected" "expected \<noteq> RolledBack"
    and f: "\<And>r. cr_run_id (f r) = cr_run_id r \<and> input_key (f r) = input_key r"
  shows "move_run rid expected f d =
    (case get_consolidation_run rid d of
       Some r \<Rightarrow> if cr_state r = expected then Inr (True, d\<lparr>cd_runs := map (on_run rid f) (cd_runs d)\<rparr>) else Inr (False, d)
     | None \<Rightarrow> Inr (False, d))"
proof -
  let ?p = "\<lambda>r. run_is rid r \<and> cr_state r = expected"
  let ?f = "\<lambda>r. if ?p r then f r else r"
  have "distinct (map input_key (filter is_active (map ?f (cd_runs d))))"
    using ok f act by (intro distinct_filter_subset) (auto simp: journal_ok_def keys_ok_def is_active_def)
  then have m: "move_run rid expected f d = Inr (filter ?p (cd_runs d) \<noteq> [], d\<lparr>cd_runs := map ?f (cd_runs d)\<rparr>)"
    by (simp add: move_run_def update_where_def)
  show ?thesis
  proof (cases "\<exists>r \<in> set (cd_runs d). ?p r")
    case True
    then obtain r where r: "r \<in> set (cd_runs d)" "?p r" by blast
    then have "?p x \<longleftrightarrow> cr_run_id x = rid" if "x \<in> set (cd_runs d)" for x
      using run_unique [OF ok that r(1)] by (auto simp: run_is_def)
    then have "map ?f (cd_runs d) = map (on_run rid f) (cd_runs d)" by (simp add: on_run_def)
    moreover have "get_consolidation_run rid d = Some r" using r by (simp add: get_run [OF ok] run_is_def)
    moreover have "filter ?p (cd_runs d) \<noteq> []" using r by (auto simp: filter_empty_conv)
    ultimately show ?thesis using r by (simp add: m)
  next
    case False
    then have "filter ?p (cd_runs d) = []" "map ?f (cd_runs d) = cd_runs d"
      by (auto simp: filter_empty_conv intro!: map_idI)
    moreover have "\<not> (\<exists>r. get_consolidation_run rid d = Some r \<and> cr_state r = expected)"
      using False by (auto simp: get_run [OF ok] run_is_def)
    ultimately show ?thesis by (auto simp: m split: option.splits)
  qed
qed

lemma move_entries_exact:
  assumes "\<And>e. e \<in> set (cd_entries d) \<Longrightarrow> ce_run_id e = rid \<Longrightarrow> ce_state e = expected"
    and "\<And>e. ce_run_id (g e) = ce_run_id e"
  shows "move_entries rid expected g d = Inr (d\<lparr>cd_entries := map (on_entries rid g) (cd_entries d)\<rparr>)"
proof -
  let ?p = "\<lambda>e. ce_run_id e = rid \<and> ce_state e = expected"
  have a: "filter ?p (cd_entries d) = filter (\<lambda>e. ce_run_id e = rid) (cd_entries d)"
    using assms(1) by (intro filter_cong) auto
  have b: "map (\<lambda>e. if ?p e then g e else e) (cd_entries d) = map (on_entries rid g) (cd_entries d)"
    using assms(1) by (auto simp: on_entries_def)
  have c: "filter (\<lambda>e. ce_run_id e = rid) (map (on_entries rid g) (cd_entries d)) =
      map (on_entries rid g) (filter (\<lambda>e. ce_run_id e = rid) (cd_entries d))"
    using assms(2) by (auto simp: filter_map comp_def on_entries_def cong: filter_cong)
  show ?thesis unfolding move_entries_def update_where_def a b Let_def prod.case c by simp
qed

lemma moved_sel [simp]:
  "cr_run_id (moved_run nxt result err now r) = cr_run_id r" "input_key (moved_run nxt result err now r) = input_key r"
  "cr_state (moved_run nxt result err now r) = nxt" "cr_promotion_requested (moved_run nxt result err now r) = cr_promotion_requested r"
  "cr_tenant_id (moved_run nxt result err now r) = cr_tenant_id r" "cr_project_id (moved_run nxt result err now r) = cr_project_id r"
  "cr_input_hash (moved_run nxt result err now r) = cr_input_hash r"
  "cr_audit_artifact_path (moved_run nxt result err now r) = cr_audit_artifact_path r"
  "cr_response_hash (moved_run nxt result err now r) = cr_response_hash r"
  "ce_run_id (moved_entry nxt err now e) = ce_run_id e" "ce_state (moved_entry nxt err now e) = nxt"
  "ce_entry_index (moved_entry nxt err now e) = ce_entry_index e"
  "ce_candidate_chunk_id (moved_entry nxt err now e) = ce_candidate_chunk_id e"
  by (simp_all add: moved_run_def moved_entry_def input_key_def)

lemma on_entries_sel [simp]:
  "ce_run_id (on_entries rid (moved_entry nxt err now) e) = ce_run_id e"
  "ce_entry_index (on_entries rid (moved_entry nxt err now) e) = ce_entry_index e"
  "ce_candidate_chunk_id (on_entries rid (moved_entry nxt err now) e) = ce_candidate_chunk_id e"
  by (simp_all add: on_entries_def)

definition moved_db ::
  "string \<Rightarrow> consolidation_state \<Rightarrow> string option \<Rightarrow> string option \<Rightarrow> i64 \<Rightarrow> chunk_metadata list \<Rightarrow> consolidation_db \<Rightarrow> consolidation_db" where
  "moved_db rid nxt result err now rows d =
     journal_map (on_run rid (moved_run nxt result err now)) (on_entries rid (moved_entry nxt err now)) rows d"

lemma moved_run_entries:
  assumes ok: "journal_ok d" and r: "get_consolidation_run rid d = Some r" and act: "cr_state r \<noteq> Rejected" "cr_state r \<noteq> RolledBack"
  shows "move_run rid (cr_state r) (moved_run nxt result err now) d =
      Inr (True, d\<lparr>cd_runs := map (on_run rid (moved_run nxt result err now)) (cd_runs d)\<rparr>)"
    and "move_entries rid (cr_state r) (moved_entry nxt err now) (d\<lparr>cd_runs := rs\<rparr>) =
      Inr (d\<lparr>cd_runs := rs, cd_entries := map (on_entries rid (moved_entry nxt err now)) (cd_entries d)\<rparr>)"
proof -
  show "move_run rid (cr_state r) (moved_run nxt result err now) d =
      Inr (True, d\<lparr>cd_runs := map (on_run rid (moved_run nxt result err now)) (cd_runs d)\<rparr>)"
    using move_run_exact [OF ok act, of "moved_run nxt result err now" rid] r by simp
  have st: "ce_state e = cr_state r" if "e \<in> set (cd_entries d)" "ce_run_id e = rid" for e
    using entry_follows [OF ok that(1), of r] r that(2) by (simp add: get_run [OF ok] belongs_def)
  then show "move_entries rid (cr_state r) (moved_entry nxt err now) (d\<lparr>cd_runs := rs\<rparr>) =
      Inr (d\<lparr>cd_runs := rs, cd_entries := map (on_entries rid (moved_entry nxt err now)) (cd_entries d)\<rparr>)"
    using move_entries_exact [of "d\<lparr>cd_runs := rs\<rparr>" rid "cr_state r" "moved_entry nxt err now"] by simp
qed

lemma transition_exact:
  assumes ok: "journal_ok d" and act: "expected \<noteq> Rejected" "expected \<noteq> RolledBack"
  shows "transition_consolidation_run rid expected nxt now result err d =
    (if \<exists>r. get_consolidation_run rid d = Some r \<and> cr_state r = expected
     then (Inr True, moved_db rid nxt result err now (cd_chunks d) d) else (Inr False, d))"
proof -
  have mv: "(\<lambda>r. r\<lparr>cr_state := nxt, cr_validation_result := (case result of Some v \<Rightarrow> Some v | None \<Rightarrow> cr_validation_result r),
      cr_error := err, cr_updated_at_ms := now\<rparr>) = moved_run nxt result err now"
    by (rule ext) (simp add: moved_run_def)
  show ?thesis
  proof (cases "\<exists>r. get_consolidation_run rid d = Some r \<and> cr_state r = expected")
    case True
    then obtain r where r: "get_consolidation_run rid d = Some r" "cr_state r = expected" by blast
    note m = moved_run_entries [OF ok r(1), unfolded r(2), OF act]
    show ?thesis using True unfolding transition_consolidation_run_def mv transact_def
      by (simp add: m moved_db_def journal_map_def)
  next
    case False
    then have "move_run rid expected (moved_run nxt result err now) d = Inr (False, d)"
      by (subst move_run_exact [OF ok act]) (auto split: option.splits)
    then show ?thesis using False unfolding transition_consolidation_run_def mv transact_def by simp
  qed
qed

lemma terminate_exact:
  assumes ok: "journal_ok d" and act: "expected \<noteq> Rejected" "expected \<noteq> RolledBack"
    and fin: "terminal = Rejected \<or> terminal = RolledBack"
  shows "terminate_consolidation_run rid expected terminal now err d =
    (if \<exists>r. get_consolidation_run rid d = Some r \<and> cr_state r = expected
     then (Inr True, moved_db rid terminal None (Some err) now (map (hide_row (candidate_ids rid d) now) (cd_chunks d)) d)
     else (Inr False, d))"
proof -
  have mv: "(\<lambda>r. r\<lparr>cr_state := terminal, cr_error := Some err, cr_updated_at_ms := now\<rparr>) = moved_run terminal None (Some err) now"
    by (rule ext) (simp add: moved_run_def)
  have cands: "candidate_ids rid (d\<lparr>cd_runs := rs, cd_entries := map (on_entries rid (moved_entry terminal (Some err) now)) (cd_entries d)\<rparr>)
      = candidate_ids rid d" for rs
    by (simp add: candidate_ids_def)
  have guard: "\<not> (terminal \<noteq> Rejected \<and> terminal \<noteq> RolledBack)" using fin by blast
  show ?thesis
  proof (cases "\<exists>r. get_consolidation_run rid d = Some r \<and> cr_state r = expected")
    case True
    then obtain r where r: "get_consolidation_run rid d = Some r" "cr_state r = expected" by blast
    note m = moved_run_entries [OF ok r(1), unfolded r(2), OF act]
    show ?thesis using True unfolding terminate_consolidation_run_def mv transact_def if_not_P [OF guard] m(1)
      by (simp add: m(2) hide_candidates_exact cands moved_db_def journal_map_def del: map_eq_conv)
  next
    case False
    then have "move_run rid expected (moved_run terminal None (Some err) now) d = Inr (False, d)"
      by (subst move_run_exact [OF ok act]) (auto split: option.splits)
    then show ?thesis using False unfolding terminate_consolidation_run_def mv transact_def if_not_P [OF guard] by simp
  qed
qed

lemma moved_ok:
  assumes ok: "journal_ok d" and r: "get_consolidation_run rid d = Some r" "cr_state r \<noteq> Rejected" "cr_state r \<noteq> RolledBack"
    and com: "nxt = Committed \<Longrightarrow> cr_promotion_requested r"
  shows "journal_ok (moved_db rid nxt result err now rows d)"
  unfolding moved_db_def
proof (rule journal_map_ok [OF ok])
  have u: "x = r" if "x \<in> set (cd_runs d)" "cr_run_id x = rid" for x
    using run_unique [OF ok that(1), of r] r(1) that(2) by (simp add: get_run [OF ok])
  have rr: "r \<in> set (cd_runs d)" "cr_run_id r = rid" using r(1) by (simp_all add: get_run [OF ok])
  have committed: "cr_state x = Committed \<longrightarrow> cr_promotion_requested x" if "x \<in> set (cd_runs d)" for x
    using ok that by (simp add: journal_ok_def states_ok_def)
  have follow: "ce_state e = cr_state x" if "x \<in> set (cd_runs d)" "e \<in> set (cd_entries d)" "belongs x e" for x e
    using entry_follows [OF ok that(2,1,3)] .
  show "keeps_journal (on_run rid (moved_run nxt result err now)) (on_entries rid (moved_entry nxt err now)) d"
    unfolding keeps_journal_def
    using u r(2,3) com committed follow
    by (auto simp: on_run_def on_entries_def entry_key_def belongs_def is_active_def)
qed

end
