(* ===== verification/Consolidation_Promote.thy ===== *)
theory Consolidation_Promote
  imports Consolidation_Inv
begin

text \<open>
  Promotion in one transaction: it commits exactly if every candidate is still staged and
  every source still a final head within the scope of the run; then exactly the rows of the
  candidates and, for a superseding run, those of the sources change. The guards of the
  updates inside the transaction never fail once the checks before them have passed.
\<close>

section \<open>The checks\<close>

lemma row_unique:
  "db_ok rows \<Longrightarrow> x \<in> set rows \<Longrightarrow> m \<in> set rows \<Longrightarrow> m_chunk_id x = m_chunk_id m \<Longrightarrow> x = m"
  unfolding db_ok_def distinct_map by (blast dest: inj_onD)

lemma find_key:
  assumes "db_ok rows"
  shows "find (key_is tid c) rows = Some m \<longleftrightarrow> m \<in> set rows \<and> key_is tid c m"
proof
  assume "find (key_is tid c) rows = Some m"
  then show "m \<in> set rows \<and> key_is tid c m" by (auto simp: find_Some_iff)
next
  assume m: "m \<in> set rows \<and> key_is tid c m"
  then obtain m' where m': "find (key_is tid c) rows = Some m'"
    by (cases "find (key_is tid c) rows") (auto simp: find_None_iff)
  then have "m' \<in> set rows" "key_is tid c m'" by (auto simp: find_Some_iff)
  with m have "m' = m" by (intro row_unique [OF assms]) (auto simp: key_is_def)
  with m' show "find (key_is tid c) rows = Some m" by simp
qed

lemma find_key_cases:
  assumes "db_ok rows"
  shows "(\<exists>m. find (key_is tid c) rows = Some m \<and> P m) \<longleftrightarrow> (\<exists>m \<in> set rows. key_is tid c m \<and> P m)"
  by (auto simp: find_key [OF assms])

definition staged_row :: "consolidation_run \<Rightarrow> chunk_metadata list \<Rightarrow> string \<Rightarrow> bool" where
  "staged_row run rows c \<longleftrightarrow> (\<exists>m \<in> set rows. key_is (cr_tenant_id run) c m \<and> m_status m = Candidate \<and> m_project_id m = cr_project_id run)"

definition source_row :: "consolidation_run \<Rightarrow> i64 \<Rightarrow> chunk_metadata list \<Rightarrow> memory_lineage \<Rightarrow> bool" where
  "source_row run now rows l \<longleftrightarrow> (\<exists>m \<in> set rows. key_is (cr_tenant_id run) (ml_source_chunk_id l) m \<and> final_head now m
     \<and> (ml_relation l = Supersedes \<longrightarrow> m_project_id m = cr_project_id run))"

lemma check_candidates_iff:
  assumes "db_ok rows"
  shows "check_candidates run ls rows cs = Inr () \<longleftrightarrow>
    (\<forall>c \<in> set cs. staged_row run rows c \<and> (\<exists>l \<in> set ls. ml_result_chunk_id l = c))"
proof (induction cs)
  case (Cons c cs)
  show ?case
  proof (cases "find (key_is (cr_tenant_id run) c) rows")
    case None
    then have "\<not> staged_row run rows c" by (auto simp: staged_row_def find_None_iff)
    with None show ?thesis by simp
  next
    case (Some m)
    then have m: "m \<in> set rows" "key_is (cr_tenant_id run) c m" by (simp_all add: find_key [OF assms])
    have "staged_row run rows c \<longleftrightarrow> m_status m = Candidate \<and> m_project_id m = cr_project_id run"
      using find_key_cases [OF assms, of "cr_tenant_id run" c] Some unfolding staged_row_def by auto
    with Some Cons.IH show ?thesis by auto
  qed
qed simp

lemma check_edges_iff:
  assumes "db_ok rows"
  shows "check_edges run rel cands now rows ls = Inr () \<longleftrightarrow>
    (\<forall>l \<in> set ls. ml_tenant_id l = cr_tenant_id run \<and> ml_project_id l = cr_project_id run
       \<and> ml_result_chunk_id l \<in> set cands \<and> ml_relation l = rel \<and> source_row run now rows l)"
proof (induction ls)
  case (Cons l ls)
  show ?case
  proof (cases "ml_relation l = rel")
    case True
    show ?thesis
    proof (cases "find (key_is (cr_tenant_id run) (ml_source_chunk_id l)) rows")
      case None
      then have "\<not> source_row run now rows l" by (auto simp: source_row_def find_None_iff)
      with None True show ?thesis by simp
    next
      case (Some m)
      have "source_row run now rows l \<longleftrightarrow> final_head now m \<and> (rel = Supersedes \<longrightarrow> m_project_id m = cr_project_id run)"
        using find_key_cases [OF assms, of "cr_tenant_id run" "ml_source_chunk_id l"] Some True unfolding source_row_def by auto
      with Some Cons.IH True show ?thesis by auto
    qed
  qed simp
qed simp

lemma unit_sum_cases: "(x :: 'e + unit) = Inr () \<or> (\<exists>e. x = Inl e)"
  by (cases x) auto

lemma validated_candidates_ok:
  assumes "\<forall>e \<in> set es. ce_state e = Validated \<and> ce_candidate_chunk_id e \<noteq> None"
  shows "validated_candidates es = Inr (map (the \<circ> ce_candidate_chunk_id) es)"
  using assms by (induction es) auto

section \<open>The updates\<close>

lemma db_ok_map:
  assumes "db_ok rows" and "\<And>m. m_chunk_id (f m) = m_chunk_id m \<and> coords (f m) = coords m"
  shows "db_ok (map f rows)"
proof -
  have "m_chunk_id \<circ> f = m_chunk_id" "coords \<circ> f = coords" using assms(2) by auto
  then show ?thesis using assms(1) by (simp add: db_ok_def)
qed

lemma promoted_sel [simp]:
  "m_chunk_id (promoted_row now m) = m_chunk_id m" "m_tenant_id (promoted_row now m) = m_tenant_id m"
  "m_project_id (promoted_row now m) = m_project_id m" "coords (promoted_row now m) = coords m"
  "m_chunk_id (superseded_row c now m) = m_chunk_id m" "m_tenant_id (superseded_row c now m) = m_tenant_id m"
  "m_project_id (superseded_row c now m) = m_project_id m" "coords (superseded_row c now m) = coords m"
  by (simp_all add: promoted_row_def superseded_row_def coords_def)

lemma promote_candidate_rows_exact:
  assumes "db_ok rows" and "distinct cs"
    and "\<forall>c \<in> set cs. \<exists>m \<in> set rows. key_is tid c m \<and> m_status m = Candidate"
  shows "promote_candidate_rows tid now cs rows =
    Inr (map (\<lambda>m. if m_chunk_id m \<in> set cs then promoted_row now m else m) rows)"
  using assms
proof (induction cs arbitrary: rows)
  case (Cons c cs)
  let ?p = "\<lambda>m. key_is tid c m \<and> m_status m = Candidate"
  let ?f = "\<lambda>m. if ?p m then promoted_row now m else m"
  obtain m where m: "m \<in> set rows" "?p m" using Cons.prems(3) by auto
  then have one: "length (filter ?p rows) = 1"
    by (intro count_key [OF Cons.prems(1) m(1)]) (auto simp: key_is_def)
  have ok: "db_ok (map ?f rows)" using Cons.prems(1) by (rule db_ok_map) simp
  have "\<exists>x \<in> set (map ?f rows). key_is tid c' x \<and> m_status x = Candidate" if c': "c' \<in> set cs" for c'
  proof -
    obtain x where x: "x \<in> set rows" "key_is tid c' x" "m_status x = Candidate" using Cons.prems(3) c' by auto
    then have "\<not> key_is tid c x" using c' Cons.prems(2) by (auto simp: key_is_def)
    with x show ?thesis by (intro bexI [of _ x]) (auto simp: image_iff intro!: bexI [of _ x])
  qed
  then have ih: "promote_candidate_rows tid now cs (map ?f rows) =
      Inr (map (\<lambda>m. if m_chunk_id m \<in> set cs then promoted_row now m else m) (map ?f rows))"
    using Cons.prems(2) by (intro Cons.IH [OF ok]) auto
  have "(if m_chunk_id (?f x) \<in> set cs then promoted_row now (?f x) else ?f x) =
      (if m_chunk_id x \<in> set (c # cs) then promoted_row now x else x)" if x: "x \<in> set rows" for x
  proof (cases "m_chunk_id x = c")
    case True
    then have "x = m" using m x by (intro row_unique [OF Cons.prems(1)]) (auto simp: key_is_def)
    with m True Cons.prems(2) show ?thesis by simp
  qed (simp add: key_is_def)
  then show ?case using one ih by (simp add: update_where_def)
qed simp

definition edge_map :: "memory_lineage list \<Rightarrow> string \<Rightarrow> string option" where
  "edge_map ls = map_of (map (\<lambda>l. (ml_source_chunk_id l, ml_result_chunk_id l)) ls)"

definition linked_row :: "(string \<Rightarrow> string option) \<Rightarrow> i64 \<Rightarrow> chunk_metadata \<Rightarrow> chunk_metadata" where
  "linked_row es now m = (case es (m_chunk_id m) of Some c \<Rightarrow> superseded_row c now m | None \<Rightarrow> m)"

lemma edge_map_simps:
  "edge_map [] x = None"
  "edge_map (l # ls) x = (if x = ml_source_chunk_id l then Some (ml_result_chunk_id l) else edge_map ls x)"
  by (auto simp: edge_map_def)

lemma edge_map_None: "edge_map ls x = None \<longleftrightarrow> x \<notin> ml_source_chunk_id ` set ls"
  by (induction ls) (auto simp: edge_map_simps)

lemma supersede_sources_exact:
  assumes "db_ok rows" and "distinct (map ml_source_chunk_id ls)"
    and "\<forall>l \<in> set ls. \<exists>m \<in> set rows. key_is (cr_tenant_id run) (ml_source_chunk_id l) m
           \<and> m_project_id m = cr_project_id run \<and> final_head now m"
  shows "supersede_sources run now ls rows = Inr (map (linked_row (edge_map ls) now) rows)"
  using assms
proof (induction ls arbitrary: rows)
  case Nil
  show ?case by (simp add: linked_row_def edge_map_simps)
next
  case (Cons l ls)
  let ?s = "ml_source_chunk_id l"
  let ?p = "\<lambda>m. key_is (cr_tenant_id run) ?s m \<and> m_project_id m = cr_project_id run \<and> final_head now m"
  let ?f = "\<lambda>m. if ?p m then superseded_row (ml_result_chunk_id l) now m else m"
  obtain m where m: "m \<in> set rows" "?p m" using Cons.prems(3) by auto
  then have one: "length (filter ?p rows) = 1"
    by (intro count_key [OF Cons.prems(1) m(1)]) (auto simp: key_is_def)
  have ok: "db_ok (map ?f rows)" using Cons.prems(1) by (rule db_ok_map) simp
  have "\<exists>x \<in> set (map ?f rows). key_is (cr_tenant_id run) (ml_source_chunk_id l') x
      \<and> m_project_id x = cr_project_id run \<and> final_head now x" if l': "l' \<in> set ls" for l'
  proof -
    obtain x where x: "x \<in> set rows" "key_is (cr_tenant_id run) (ml_source_chunk_id l') x"
      "m_project_id x = cr_project_id run \<and> final_head now x" using Cons.prems(3) l' by auto
    have "ml_source_chunk_id l' \<noteq> ?s" using l' Cons.prems(2) by (auto simp: image_iff)
    then have "\<not> key_is (cr_tenant_id run) ?s x" using x(2) by (simp add: key_is_def)
    with x show ?thesis by (intro bexI [of _ x]) (auto simp: image_iff intro!: bexI [of _ x])
  qed
  then have ih: "supersede_sources run now ls (map ?f rows) = Inr (map (linked_row (edge_map ls) now) (map ?f rows))"
    using Cons.prems(2) by (intro Cons.IH [OF ok]) auto
  have "linked_row (edge_map ls) now (?f x) = linked_row (edge_map (l # ls)) now x" if x: "x \<in> set rows" for x
  proof (cases "m_chunk_id x = ?s")
    case True
    then have "x = m" using m x by (intro row_unique [OF Cons.prems(1)]) (auto simp: key_is_def)
    moreover have "edge_map ls ?s = None" using Cons.prems(2) by (simp add: edge_map_None)
    ultimately show ?thesis using m True by (simp add: linked_row_def edge_map_simps)
  qed (simp add: linked_row_def key_is_def edge_map_simps)
  then show ?case using one ih by (simp add: update_where_def)
qed

section \<open>The transaction\<close>

definition promotable :: "consolidation_run \<Rightarrow> i64 \<Rightarrow> consolidation_db \<Rightarrow> bool" where
  "promotable run now d \<longleftrightarrow> (\<forall>c \<in> candidate_ids (cr_run_id run) d. staged_row run (cd_chunks d) c)
     \<and> (\<forall>l \<in> set (cd_lineage d). edge_of run l \<longrightarrow> source_row run now (cd_chunks d) l)"

text \<open>The source-to-candidate links a superseding run makes.\<close>

definition new_links :: "string \<Rightarrow> consolidation_db \<Rightarrow> string \<Rightarrow> string option" where
  "new_links rid d x = map_option ml_result_chunk_id
     (find (\<lambda>l. ml_run_id l = rid \<and> ml_source_chunk_id l = x \<and> ml_relation l = Supersedes) (cd_lineage d))"

definition promotion_row :: "string set \<Rightarrow> (string \<Rightarrow> string option) \<Rightarrow> i64 \<Rightarrow> chunk_metadata \<Rightarrow> chunk_metadata" where
  "promotion_row cs es now m = (if m_chunk_id m \<in> cs then promoted_row now m else linked_row es now m)"

definition committed_run :: "i64 \<Rightarrow> consolidation_run \<Rightarrow> consolidation_run" where
  "committed_run now r = r\<lparr>cr_state := Committed, cr_error := None, cr_updated_at_ms := now\<rparr>"

definition committed_entry :: "i64 \<Rightarrow> consolidation_entry \<Rightarrow> consolidation_entry" where
  "committed_entry now e = e\<lparr>ce_state := Committed, ce_updated_at_ms := now\<rparr>"

definition committed_db :: "string \<Rightarrow> i64 \<Rightarrow> consolidation_db \<Rightarrow> consolidation_db" where
  "committed_db rid now d = journal_map (on_run rid (committed_run now)) (on_entries rid (committed_entry now))
     (map (promotion_row (candidate_ids rid d) (new_links rid d) now) (cd_chunks d)) d"

lemma set_query [simp]:
  "set (query_consolidation_entries rid d) = {e \<in> set (cd_entries d). ce_run_id e = rid}"
  "set (query_memory_lineage rid d) = {l \<in> set (cd_lineage d). ml_run_id l = rid}"
  by (auto simp: query_consolidation_entries_def query_memory_lineage_def)

lemma length_query_entries:
  "length (query_consolidation_entries rid d) = length (filter (\<lambda>e. ce_run_id e = rid) (cd_entries d))"
  by (simp add: query_consolidation_entries_def)

lemma run_has_plan:
  assumes "journal_ok d" and "r \<in> set (cd_runs d)"
  shows "query_consolidation_entries (cr_run_id r) d \<noteq> []" and "query_memory_lineage (cr_run_id r) d \<noteq> []"
proof -
  obtain e where e: "e \<in> set (cd_entries d)" "belongs r e" using assms by (auto simp: journal_ok_def scopes_ok_def)
  then have "e \<in> set (query_consolidation_entries (cr_run_id r) d)" by (simp add: belongs_def)
  then show "query_consolidation_entries (cr_run_id r) d \<noteq> []" by (metis empty_iff empty_set)
  obtain l where "l \<in> set (cd_lineage d)" "ml_run_id l = ce_run_id e"
    using assms(1) e(1) unfolding journal_ok_def scopes_ok_def by blast
  then have "l \<in> set (query_memory_lineage (cr_run_id r) d)" using e(2) by (simp add: belongs_def)
  then show "query_memory_lineage (cr_run_id r) d \<noteq> []" by (metis empty_iff empty_set)
qed

lemma candidate_list:
  assumes "journal_ok d" and "r \<in> set (cd_runs d)" and "cr_state r = Validated"
  shows "\<exists>cs. validated_candidates (query_consolidation_entries (cr_run_id r) d) = Inr cs \<and> distinct cs
    \<and> set cs = candidate_ids (cr_run_id r) d"
proof -
  let ?es = "query_consolidation_entries (cr_run_id r) d"
  have st: "ce_state e = Validated" if "e \<in> set ?es" for e
    using entry_follows [OF assms(1), of e r] assms(2,3) that by (simp add: belongs_def)
  have cand: "ce_candidate_chunk_id e \<noteq> None" if "e \<in> set (cd_entries d)" for e
    using assms(1) that unfolding journal_ok_def scopes_ok_def by force
  have "distinct (map ce_candidate_chunk_id (filter (\<lambda>e. ce_run_id e = cr_run_id r) (cd_entries d)))"
    using assms(1) by (auto simp: journal_ok_def keys_ok_def distinct_map intro: inj_on_subset)
  then have dist: "distinct (map ce_candidate_chunk_id ?es)"
    unfolding query_consolidation_entries_def by (simp add: distinct_map)
  have "inj_on (the \<circ> ce_candidate_chunk_id) (set ?es)"
  proof (rule comp_inj_on)
    show "inj_on ce_candidate_chunk_id (set ?es)" using dist unfolding distinct_map by blast
    have "y \<noteq> None" if "y \<in> ce_candidate_chunk_id ` set ?es" for y using that cand by auto
    then show "inj_on the (ce_candidate_chunk_id ` set ?es)" by (intro inj_onI option.expand) blast+
  qed
  then have "distinct (map (the \<circ> ce_candidate_chunk_id) ?es)" using dist unfolding distinct_map by blast
  moreover have "set (map (the \<circ> ce_candidate_chunk_id) ?es) = candidate_ids (cr_run_id r) d"
    using cand by (force simp: candidate_ids_def image_iff)
  ultimately show ?thesis using validated_candidates_ok [of ?es] st cand by auto
qed

lemma edge_facts:
  assumes "journal_ok d" and "r \<in> set (cd_runs d)" and "l \<in> set (cd_lineage d)" and "edge_of r l"
  shows "ml_tenant_id l = cr_tenant_id r" and "ml_project_id l = cr_project_id r"
    and "ml_result_chunk_id l \<in> candidate_ids (cr_run_id r) d"
proof -
  have sc: "edge_scope d l" using assms(1,3) by (simp add: journal_ok_def scopes_ok_def)
  then obtain r' where r': "r' \<in> set (cd_runs d)" "edge_of r' l" "ml_tenant_id l = cr_tenant_id r'" "ml_project_id l = cr_project_id r'"
    by (auto simp: edge_scope_def)
  then have "r' = r" using run_unique [OF assms(1) r'(1) assms(2)] assms(4) by (simp add: edge_of_def)
  with r' show "ml_tenant_id l = cr_tenant_id r" "ml_project_id l = cr_project_id r" by simp_all
  show "ml_result_chunk_id l \<in> candidate_ids (cr_run_id r) d"
    using sc assms(4) by (auto simp: edge_scope_def edge_of_def candidate_ids_def)
qed

lemma run_relation:
  assumes "journal_ok d" and "l \<in> set (query_memory_lineage rid d)"
  shows "ml_relation l = ml_relation (hd (query_memory_lineage rid d))"
proof -
  have "hd (query_memory_lineage rid d) \<in> set (query_memory_lineage rid d)" using assms(2) by (metis empty_iff empty_set list.set_sel(1))
  then show ?thesis using assms by (auto simp: journal_ok_def scopes_ok_def)
qed

lemma checks_iff_promotable:
  assumes ok: "journal_ok d" and rows: "db_ok (cd_chunks d)" and r: "r \<in> set (cd_runs d)"
    and cs: "set cs = candidate_ids (cr_run_id r) d"
  defines "ls \<equiv> query_memory_lineage (cr_run_id r) d"
  shows "check_candidates r ls (cd_chunks d) cs = Inr () \<and> check_edges r (ml_relation (hd ls)) cs now (cd_chunks d) ls = Inr ()
    \<longleftrightarrow> promotable r now d"
proof -
  have "\<exists>l \<in> set ls. ml_result_chunk_id l = c" if c: "c \<in> set cs" for c
  proof -
    obtain e where e: "e \<in> set (cd_entries d)" "ce_run_id e = cr_run_id r" "ce_candidate_chunk_id e = Some c"
      using c unfolding cs candidate_ids_def by blast
    then obtain c' l where "ce_candidate_chunk_id e = Some c'" "l \<in> set (cd_lineage d)" "ml_run_id l = ce_run_id e" "ml_result_chunk_id l = c'"
      using ok unfolding journal_ok_def scopes_ok_def by blast
    then show ?thesis using e by (auto simp: ls_def)
  qed
  moreover have "ml_relation l = ml_relation (hd ls)" if "l \<in> set ls" for l
    using run_relation [OF ok] that by (simp add: ls_def)
  moreover have "ml_tenant_id l = cr_tenant_id r \<and> ml_project_id l = cr_project_id r \<and> ml_result_chunk_id l \<in> set cs" if "l \<in> set ls" for l
    using edge_facts [OF ok r, of l] that by (simp add: ls_def cs edge_of_def)
  ultimately show ?thesis
    unfolding check_candidates_iff [OF rows] check_edges_iff [OF rows] promotable_def
    by (auto simp: ls_def cs edge_of_def)
qed

lemma find_edge:
  assumes ok: "journal_ok d" and l: "l \<in> set (cd_lineage d)" "ml_run_id l = rid" "ml_relation l = Supersedes"
  shows "new_links rid d (ml_source_chunk_id l) = Some (ml_result_chunk_id l)"
proof -
  let ?p = "\<lambda>x. ml_run_id x = rid \<and> ml_source_chunk_id x = ml_source_chunk_id l \<and> ml_relation x = Supersedes"
  obtain x where x: "find ?p (cd_lineage d) = Some x" using l by (cases "find ?p (cd_lineage d)") (auto simp: find_None_iff)
  then have "x \<in> set (cd_lineage d)" "source_key x = source_key l" using l(2) by (auto simp: find_Some_iff source_key_def)
  then have "x = l" using ok l(1) unfolding journal_ok_def keys_ok_def distinct_map by (blast dest: inj_onD)
  then show ?thesis using x by (simp add: new_links_def)
qed

lemma links_of_run:
  assumes ok: "journal_ok d" and sup: "\<forall>l \<in> set ls. ml_relation l = Supersedes"
    and ls: "set ls = {l \<in> set (cd_lineage d). ml_run_id l = rid}"
  shows "edge_map ls = new_links rid d"
proof
  fix x
  show "edge_map ls x = new_links rid d x"
  proof (cases "x \<in> ml_source_chunk_id ` set ls")
    case True
    then obtain c where c: "edge_map ls x = Some c" using edge_map_None [of ls x] by (cases "edge_map ls x") auto
    then obtain l where l: "l \<in> set ls" "x = ml_source_chunk_id l" "c = ml_result_chunk_id l"
      by (auto simp: edge_map_def dest!: map_of_SomeD)
    then show ?thesis using c find_edge [OF ok, of l rid] sup ls by auto
  next
    case False
    then have "find (\<lambda>l. ml_run_id l = rid \<and> ml_source_chunk_id l = x \<and> ml_relation l = Supersedes) (cd_lineage d) = None"
      using ls by (auto simp: find_None_iff)
    then show ?thesis using False by (simp add: new_links_def edge_map_None)
  qed
qed

lemma no_links:
  assumes "\<forall>l \<in> set ls. ml_relation l \<noteq> Supersedes" and "set ls = {l \<in> set (cd_lineage d). ml_run_id l = rid}"
  shows "new_links rid d x = None"
  using assms by (auto simp: new_links_def find_None_iff)

lemma commit_run_exact:
  assumes ok: "journal_ok d" and r: "get_consolidation_run rid d = Some r" "cr_state r = Validated"
    and d': "cd_runs d' = cd_runs d" "cd_entries d' = cd_entries d"
  shows "commit_run rid now (length (query_consolidation_entries rid d)) d' =
    Inr (PromotionCommitted, d'\<lparr>cd_runs := map (on_run rid (committed_run now)) (cd_runs d),
           cd_entries := map (on_entries rid (committed_entry now)) (cd_entries d)\<rparr>)"
proof -
  have rr: "r \<in> set (cd_runs d)" "cr_run_id r = rid" using r(1) by (simp_all add: get_run [OF ok])
  have e: "ce_state e = Validated" if "e \<in> set (cd_entries d)" "ce_run_id e = rid" for e
    using entry_follows [OF ok that(1) rr(1)] that(2) rr(2) r(2) by (simp add: belongs_def)
  have u: "x = r" if "x \<in> set (cd_runs d)" "cr_run_id x = rid" for x
    using run_unique [OF ok that(1) rr(1)] that(2) rr(2) by simp
  have st: "cr_state x = Validated" if "x \<in> set (cd_runs d)" "cr_run_id x = rid" for x using u [OF that] r(2) by simp
  let ?p = "\<lambda>r. run_is rid r \<and> cr_state r = Validated"
  have "distinct (cd_runs d)" using ok by (auto simp: journal_ok_def keys_ok_def distinct_map)
  moreover have "set (filter ?p (cd_runs d)) = {r}" 
  proof
    show "set (filter ?p (cd_runs d)) \<subseteq> {r}" by (auto simp: run_is_def intro: u)
    show "{r} \<subseteq> set (filter ?p (cd_runs d))" using rr r(2) by (simp add: run_is_def)
  qed
  ultimately have one: "length (filter ?p (cd_runs d)) = 1" using distinct_card [of "filter ?p (cd_runs d)"] by simp
  have runs: "map (\<lambda>r. if ?p r then r\<lparr>cr_state := Committed, cr_error := None, cr_updated_at_ms := now\<rparr> else r) (cd_runs d)
      = map (on_run rid (committed_run now)) (cd_runs d)"
    using st by (auto simp: on_run_def committed_run_def run_is_def)
  have entries: "map (\<lambda>e. if ce_run_id e = rid \<and> ce_state e = Validated then e\<lparr>ce_state := Committed, ce_updated_at_ms := now\<rparr> else e) (cd_entries d)
      = map (on_entries rid (committed_entry now)) (cd_entries d)"
    using e by (auto simp: on_entries_def committed_entry_def)
  have n: "filter (\<lambda>e. ce_run_id e = rid \<and> ce_state e = Validated) (cd_entries d) = filter (\<lambda>e. ce_run_id e = rid) (cd_entries d)"
    using e by (intro filter_cong) auto
  show ?thesis
    unfolding commit_run_def update_where_def d' runs entries n Let_def prod.case one length_query_entries by simp
qed

lemma promotion_rows:
  assumes ok: "journal_ok d" and rows: "db_ok (cd_chunks d)" and r: "r \<in> set (cd_runs d)" and p: "promotable r now d"
    and cs: "set cs = candidate_ids (cr_run_id r) d" "distinct cs"
  defines "ls \<equiv> query_memory_lineage (cr_run_id r) d"
  shows "\<exists>rows. promote_candidate_rows (cr_tenant_id r) now cs (cd_chunks d) = Inr rows
    \<and> (if ml_relation (hd ls) = Supersedes then supersede_sources r now ls rows else Inr rows) =
      Inr (map (promotion_row (candidate_ids (cr_run_id r) d) (new_links (cr_run_id r) d) now) (cd_chunks d))"
proof -
  let ?rows = "map (\<lambda>m. if m_chunk_id m \<in> set cs then promoted_row now m else m) (cd_chunks d)"
  have staged: "\<exists>m \<in> set (cd_chunks d). key_is (cr_tenant_id r) c m \<and> m_status m = Candidate" if "c \<in> set cs" for c
    using p that unfolding promotable_def cs(1) staged_row_def by blast
  then have promoted: "promote_candidate_rows (cr_tenant_id r) now cs (cd_chunks d) = Inr ?rows"
    using rows cs(2) by (intro promote_candidate_rows_exact) auto
  have ok': "db_ok ?rows" using rows by (rule db_ok_map) simp
  have ls: "set ls = {l \<in> set (cd_lineage d). ml_run_id l = cr_run_id r}" by (simp add: ls_def)
  have rel: "ml_relation l = ml_relation (hd ls)" if "l \<in> set ls" for l using run_relation [OF ok] that by (simp add: ls_def)
  show ?thesis
  proof (cases "ml_relation (hd ls) = Supersedes")
    case True
    have dist: "distinct (map ml_source_chunk_id ls)"
    proof -
      have "distinct (map source_key ls)"
        using ok unfolding ls_def query_memory_lineage_def journal_ok_def keys_ok_def distinct_map by (auto intro: inj_on_subset)
      then show ?thesis using ls unfolding distinct_map by (auto simp: inj_on_def source_key_def)
    qed
    have src: "\<exists>m \<in> set ?rows. key_is (cr_tenant_id r) (ml_source_chunk_id l) m \<and> m_project_id m = cr_project_id r \<and> final_head now m"
      if l: "l \<in> set ls" for l
    proof -
      obtain m where m: "m \<in> set (cd_chunks d)" "key_is (cr_tenant_id r) (ml_source_chunk_id l) m" "final_head now m"
        "m_project_id m = cr_project_id r"
        using p l rel [OF l, unfolded True] unfolding promotable_def source_row_def ls edge_of_def by blast
      have "m_chunk_id m \<notin> set cs"
      proof
        assume "m_chunk_id m \<in> set cs"
        then obtain x where "x \<in> set (cd_chunks d)" "m_chunk_id x = m_chunk_id m" "m_status x = Candidate"
          using staged by (auto simp: key_is_def)
        then have "x = m" using m(1) by (intro row_unique [OF rows])
        then show False using \<open>m_status x = Candidate\<close> m(3) by (simp add: final_head_def)
      qed
      with m show ?thesis by (intro bexI [of _ m]) (auto simp: image_iff intro!: bexI [of _ m])
    qed
    have "edge_map ls = new_links (cr_run_id r) d" using rel True ls by (intro links_of_run [OF ok]) auto
    moreover have "new_links (cr_run_id r) d c = None" if c: "c \<in> set cs" for c
    proof -
      have "ml_source_chunk_id l \<noteq> c" if l: "l \<in> set ls" for l
      proof -
        obtain x where x: "x \<in> set (cd_chunks d)" "m_chunk_id x = c" "m_status x = Candidate" using staged [OF c] by (auto simp: key_is_def)
        obtain m where m: "m \<in> set (cd_chunks d)" "m_chunk_id m = ml_source_chunk_id l" "m_status m = Final"
          using p l unfolding promotable_def source_row_def ls edge_of_def key_is_def final_head_def by blast
        show ?thesis using row_unique [OF rows x(1) m(1)] x m by auto
      qed
      then show ?thesis using ls by (auto simp: new_links_def find_None_iff)
    qed
    ultimately have "map (linked_row (edge_map ls) now) ?rows =
        map (promotion_row (candidate_ids (cr_run_id r) d) (new_links (cr_run_id r) d) now) (cd_chunks d)"
      using cs(1) by (auto simp: promotion_row_def linked_row_def)
    then show ?thesis
      using True promoted supersede_sources_exact [OF ok' dist, of r now] src by (intro exI [of _ ?rows]) simp
  next
    case False
    then have "new_links (cr_run_id r) d x = None" for x using rel ls by (intro no_links [of ls]) auto
    then have "map (promotion_row (candidate_ids (cr_run_id r) d) (new_links (cr_run_id r) d) now) (cd_chunks d) = ?rows"
      using cs(1) by (auto simp: promotion_row_def linked_row_def)
    then show ?thesis using False promoted by (intro exI [of _ ?rows]) simp
  qed
qed

lemma promote_exact:
  assumes ok: "journal_ok d" and rows: "db_ok (cd_chunks d)" and r: "get_consolidation_run rid d = Some r"
    and st: "cr_state r = Validated" "cr_promotion_requested r" and perm: "\<And>xs. mset (ord xs) = mset xs"
  shows "promotable r now d \<Longrightarrow> atomic_promote_consolidation_run ord rid now d = (Inr PromotionCommitted, committed_db rid now d)"
    and "\<not> promotable r now d \<Longrightarrow> \<exists>e. atomic_promote_consolidation_run ord rid now d = (Inl e, d)"
proof -
  have rr: "r \<in> set (cd_runs d)" "cr_run_id r = rid" using r by (simp_all add: get_run [OF ok])
  let ?es = "query_consolidation_entries rid d" and ?ls = "query_memory_lineage rid d"
  have plan: "?es \<noteq> []" "?ls \<noteq> []" using run_has_plan [OF ok rr(1)] rr(2) by simp_all
  obtain cs where cs: "validated_candidates ?es = Inr cs" "distinct cs" "set cs = candidate_ids rid d"
    using candidate_list [OF ok rr(1) st(1)] rr(2) by auto
  let ?cs = "ord (remdups cs)"
  have o: "set ?cs = candidate_ids rid d" "distinct ?cs"
    using cs perm [of "remdups cs"] mset_eq_setD [of ?cs "remdups cs"] mset_eq_imp_distinct_iff [of ?cs "remdups cs"] by simp_all
  note checks = checks_iff_promotable [OF ok rows rr(1), unfolded rr(2), OF o(1), of now]
  have tx: "promote_tx ord rid now d =
     (case check_candidates r ?ls (cd_chunks d) ?cs of
        Inl e \<Rightarrow> Inl e
      | Inr _ \<Rightarrow> (case check_edges r (ml_relation (hd ?ls)) ?cs now (cd_chunks d) ?ls of
          Inl e \<Rightarrow> Inl e
        | Inr _ \<Rightarrow> (case promote_candidate_rows (cr_tenant_id r) now ?cs (cd_chunks d) of
            Inl e \<Rightarrow> Inl e
          | Inr rows \<Rightarrow> (case (if ml_relation (hd ?ls) = Supersedes then supersede_sources r now ?ls rows else Inr rows) of
              Inl e \<Rightarrow> Inl e
            | Inr rows' \<Rightarrow> commit_run rid now (length ?es) (d\<lparr>cd_chunks := rows'\<rparr>)))))"
    by (simp add: promote_tx_def r st plan cs(1) Let_def)
  show "atomic_promote_consolidation_run ord rid now d = (Inr PromotionCommitted, committed_db rid now d)" if p: "promotable r now d"
  proof -
    obtain rows1 where u: "promote_candidate_rows (cr_tenant_id r) now ?cs (cd_chunks d) = Inr rows1"
      "(if ml_relation (hd ?ls) = Supersedes then supersede_sources r now ?ls rows1 else Inr rows1) =
        Inr (map (promotion_row (candidate_ids rid d) (new_links rid d) now) (cd_chunks d))"
      using promotion_rows [OF ok rows rr(1) p, unfolded rr(2), OF o] by auto
    have c: "check_candidates r ?ls (cd_chunks d) ?cs = Inr ()" "check_edges r (ml_relation (hd ?ls)) ?cs now (cd_chunks d) ?ls = Inr ()"
      using checks p by simp_all
    let ?rows = "map (promotion_row (candidate_ids rid d) (new_links rid d) now) (cd_chunks d)"
    have "commit_run rid now (length ?es) (d\<lparr>cd_chunks := ?rows\<rparr>) = Inr (PromotionCommitted, committed_db rid now d)"
      by (subst commit_run_exact [OF ok r st(1)]) (simp_all add: committed_db_def journal_map_def)
    then show ?thesis unfolding atomic_promote_consolidation_run_def transact_def tx c u sum.case by simp
  qed
  show "\<exists>e. atomic_promote_consolidation_run ord rid now d = (Inl e, d)" if np: "\<not> promotable r now d"
  proof -
    have "\<exists>e. promote_tx ord rid now d = Inl e"
    proof (cases "check_candidates r ?ls (cd_chunks d) ?cs")
      case (Inr x)
      then have "\<exists>e. check_edges r (ml_relation (hd ?ls)) ?cs now (cd_chunks d) ?ls = Inl e"
        using checks np unit_sum_cases [of "check_edges r (ml_relation (hd ?ls)) ?cs now (cd_chunks d) ?ls"] by auto
      then show ?thesis unfolding tx Inr by auto
    qed (simp add: tx)
    then show ?thesis by (auto simp: atomic_promote_consolidation_run_def transact_def)
  qed
qed

lemma promote_other_states:
  assumes "get_consolidation_run rid d = Some r" and "cr_state r \<noteq> Validated \<or> \<not> cr_promotion_requested r"
  shows "snd (atomic_promote_consolidation_run ord rid now d) = d"
    and "fst (atomic_promote_consolidation_run ord rid now d) \<noteq> Inr PromotionCommitted"
  using assms by (auto simp: atomic_promote_consolidation_run_def transact_def promote_tx_def)

lemma promote_missing: "get_consolidation_run rid d = None \<Longrightarrow> \<exists>e. atomic_promote_consolidation_run ord rid now d = (Inl e, d)"
  by (simp add: atomic_promote_consolidation_run_def transact_def promote_tx_def)

lemma committed_ok:
  assumes ok: "journal_ok d" and r: "get_consolidation_run rid d = Some r" "cr_state r = Validated" "cr_promotion_requested r"
  shows "journal_ok (committed_db rid now d)"
  unfolding committed_db_def
proof (rule journal_map_ok [OF ok])
  have u: "x = r" if "x \<in> set (cd_runs d)" "cr_run_id x = rid" for x
    using run_unique [OF ok that(1), of r] r(1) that(2) by (simp add: get_run [OF ok])
  have req: "cr_promotion_requested x" and act: "is_active x" if "x \<in> set (cd_runs d)" "cr_run_id x = rid" for x
    using u [OF that] r by (simp_all add: is_active_def)
  have committed: "cr_state x = Committed \<longrightarrow> cr_promotion_requested x" if "x \<in> set (cd_runs d)" for x
    using ok that by (simp add: journal_ok_def states_ok_def)
  have follow: "ce_state e = cr_state x" if "x \<in> set (cd_runs d)" "e \<in> set (cd_entries d)" "belongs x e" for x e
    using entry_follows [OF ok that(2,1,3)] .
  show "keeps_journal (on_run rid (committed_run now)) (on_entries rid (committed_entry now)) d"
    unfolding keeps_journal_def
    using req act committed follow
    by (auto simp: on_run_def on_entries_def entry_key_def belongs_def committed_run_def committed_entry_def)
qed

end
