(* ===== verification/Consolidation_Steps.thy ===== *)
theory Consolidation_Steps
  imports Consolidation_Promote Lifecycle_Sweep
begin

text \<open>
  Histories of the consolidation journal: planning a run, the steps of all statements in any
  order and interleaving, mixed with what the rest of the store does to the chunk table, and
  the properties of every database reached this way.
\<close>

section \<open>Planning\<close>

lemma plan_entries_ok:
  assumes "plan_entries run ix cs es = Inr cs'"
  shows "(\<forall>e \<in> set es. ce_run_id e = cr_run_id run \<and> ce_state e = Planned \<and> ce_candidate_chunk_id e \<noteq> None)
    \<and> distinct (map ce_entry_index es) \<and> distinct (map ce_candidate_chunk_id es)
    \<and> ce_entry_index ` set es \<inter> set ix = {} \<and> ce_candidate_chunk_id ` set es \<inter> Some ` set cs = {}
    \<and> Some ` set cs' = Some ` set cs \<union> ce_candidate_chunk_id ` set es"
  using assms
proof (induction es arbitrary: ix cs)
  case (Cons e es)
  then obtain c where c: "ce_candidate_chunk_id e = Some c" "ce_run_id e = cr_run_id run" "ce_state e = Planned"
    "ce_entry_index e \<notin> set ix" "c \<notin> set cs" "plan_entries run (ce_entry_index e # ix) (c # cs) es = Inr cs'"
    by (auto split: option.splits if_splits)
  note ih = Cons.IH [OF c(6)]
  show ?case using ih c by auto
qed simp

lemma plan_lineage_ok:
  assumes "plan_lineage run expected cs srcs ls = Inr ()"
  shows "(\<forall>l \<in> set ls. ml_run_id l = cr_run_id run \<and> ml_tenant_id l = cr_tenant_id run \<and> ml_project_id l = cr_project_id run
      \<and> ml_result_chunk_id l \<in> set cs \<and> ml_source_chunk_id l \<noteq> ml_result_chunk_id l)
    \<and> distinct (map ml_source_chunk_id ls) \<and> ml_source_chunk_id ` set ls \<inter> set srcs = {}
    \<and> (\<exists>rel. (expected = None \<or> expected = Some rel) \<and> (\<forall>l \<in> set ls. ml_relation l = rel))"
  using assms
proof (induction ls arbitrary: expected srcs)
  case Nil
  then show ?case by (cases expected) auto
next
  case (Cons l ls)
  let ?rel = "case expected of Some r \<Rightarrow> r | None \<Rightarrow> ml_relation l"
  have c: "ml_run_id l = cr_run_id run" "ml_tenant_id l = cr_tenant_id run" "ml_project_id l = cr_project_id run"
    "ml_relation l = ?rel" "ml_result_chunk_id l \<in> set cs" "ml_source_chunk_id l \<noteq> ml_result_chunk_id l"
    "ml_source_chunk_id l \<notin> set srcs" "plan_lineage run (Some ?rel) cs (ml_source_chunk_id l # srcs) ls = Inr ()"
    using Cons.prems by (auto simp: Let_def split: if_splits)
  note ih = Cons.IH [OF c(8)]
  have "\<exists>rel. (expected = None \<or> expected = Some rel) \<and> (\<forall>l \<in> set (l # ls). ml_relation l = rel)"
    using ih c(4) by (intro exI [of _ ?rel]) (auto split: option.splits)
  then show ?case using ih c by auto
qed

lemma insert_entries_ok:
  assumes "insert_entries es rows = Inr rows'" and "\<forall>e \<in> set es. ce_candidate_chunk_id e \<noteq> None"
    and "distinct (map entry_key rows)" and "distinct (map ce_candidate_chunk_id rows)"
  shows "rows' = rows @ es \<and> distinct (map entry_key rows') \<and> distinct (map ce_candidate_chunk_id rows')"
  using assms
proof (induction es arbitrary: rows)
  case (Cons e es)
  have g: "\<not> (\<exists>x \<in> set rows. ce_run_id x = ce_run_id e \<and> ce_entry_index x = ce_entry_index e
           \<or> ce_candidate_chunk_id e \<noteq> None \<and> ce_candidate_chunk_id x = ce_candidate_chunk_id e)"
    and rest: "insert_entries es (rows @ [e]) = Inr rows'"
    using Cons.prems(1) by (auto split: if_splits)
  have "entry_key e \<notin> entry_key ` set rows" "ce_candidate_chunk_id e \<notin> ce_candidate_chunk_id ` set rows"
    using Cons.prems(2) g by (auto simp: entry_key_def)
  then have "distinct (map entry_key (rows @ [e]))" "distinct (map ce_candidate_chunk_id (rows @ [e]))"
    using Cons.prems(3,4) by auto
  moreover have "\<forall>x \<in> set es. ce_candidate_chunk_id x \<noteq> None" using Cons.prems(2) by simp
  ultimately have ih: "rows' = (rows @ [e]) @ es" "distinct (map entry_key rows')" "distinct (map ce_candidate_chunk_id rows')"
    using Cons.IH [OF rest] by blast+
  show ?case by (intro conjI ih(2,3)) (simp add: ih(1))
qed simp

lemma insert_lineage_ok: "insert_lineage ls rows = Inr rows' \<Longrightarrow> rows' = rows @ ls"
proof (induction ls arbitrary: rows)
  case (Cons l ls)
  then have "insert_lineage ls (rows @ [l]) = Inr rows'" by (auto split: if_splits)
  from Cons.IH [OF this] show ?case by simp
qed simp

definition planned_db ::
  "consolidation_run \<Rightarrow> consolidation_entry list \<Rightarrow> memory_lineage list \<Rightarrow> consolidation_db \<Rightarrow> consolidation_db" where
  "planned_db run es ls d =
     d\<lparr>cd_runs := cd_runs d @ [run], cd_entries := cd_entries d @ es, cd_lineage := cd_lineage d @ ls\<rparr>"

lemma planned_sel [simp]:
  "cd_runs (planned_db run es ls d) = cd_runs d @ [run]" "cd_entries (planned_db run es ls d) = cd_entries d @ es"
  "cd_lineage (planned_db run es ls d) = cd_lineage d @ ls" "cd_chunks (planned_db run es ls d) = cd_chunks d"
  by (simp_all add: planned_db_def)

text \<open>A valid plan whose run has a new id and whose input no active run has.\<close>

lemma planned_ok:
  assumes ok: "journal_ok d" and plan: "validate_consolidation_plan run es ls = Inr ()"
    and free: "\<not> run_conflicts run (cd_runs d)" and ins: "insert_entries es (cd_entries d) = Inr es'"
  shows "journal_ok (planned_db run es ls d)" and "es' = cd_entries d @ es"
proof -
  obtain cs where p: "plan_entries run [] [] es = Inr cs" "plan_lineage run None cs [] ls = Inr ()"
    "\<forall>c \<in> set cs. \<exists>l \<in> set ls. ml_result_chunk_id l = c" "cr_state run = Planned" "es \<noteq> []"
    using plan by (auto simp: validate_consolidation_plan_def split: sum.splits if_splits)
  note pe = plan_entries_ok [OF p(1)] and pl = plan_lineage_ok [OF p(2)]
  have keys: "distinct (map cr_run_id (cd_runs d))" "distinct (map input_key (filter is_active (cd_runs d)))"
    "distinct (map entry_key (cd_entries d))" "distinct (map ce_candidate_chunk_id (cd_entries d))"
    "distinct (map source_key (cd_lineage d))"
    using ok by (simp_all add: journal_ok_def keys_ok_def)
  have ins': "es' = cd_entries d @ es \<and> distinct (map entry_key es') \<and> distinct (map ce_candidate_chunk_id es')"
    using pe by (intro insert_entries_ok [OF ins _ keys(3,4)]) blast
  then show "es' = cd_entries d @ es" by blast
  have new: "cr_run_id r \<noteq> cr_run_id run" if "r \<in> set (cd_runs d)" for r using free that by (auto simp: run_conflicts_def)
  have act: "is_active run" using p(4) by (simp add: is_active_def)
  have edges: "edge_scope d l" if "l \<in> set (cd_lineage d)" for l using ok that by (simp add: journal_ok_def scopes_ok_def)
  have old_edge: "ml_run_id l \<noteq> cr_run_id run" if "l \<in> set (cd_lineage d)" for l
    using edges [OF that] new unfolding edge_scope_def edge_of_def by metis
  have "distinct (map source_key ls)" using pl by (auto simp: distinct_map inj_on_def source_key_def)
  moreover have "source_key ` set (cd_lineage d) \<inter> source_key ` set ls = {}"
    using old_edge pl by (auto simp: source_key_def)
  moreover have "input_key run \<notin> input_key ` set (filter is_active (cd_runs d))"
    using free act by (auto simp: run_conflicts_def)
  moreover have "cr_run_id run \<notin> cr_run_id ` set (cd_runs d)" using new by (metis image_iff)
  moreover have "distinct (map entry_key (cd_entries d @ es))" "distinct (map ce_candidate_chunk_id (cd_entries d @ es))"
    using ins' by blast+
  ultimately have "keys_ok (planned_db run es ls d)"
    using keys act unfolding keys_ok_def planned_sel by (intro conjI) (simp_all only: map_append distinct_append filter_append filter.simps if_True set_map list.map set_simps distinct.simps, simp_all)
  moreover have "states_ok (planned_db run es ls d)"
    using ok pe p(4) unfolding journal_ok_def states_ok_def planned_sel set_append belongs_def by auto
  moreover have "scopes_ok (planned_db run es ls d)"
  proof -
    have cand: "\<exists>e \<in> set es. ce_candidate_chunk_id e = Some c" if "c \<in> set cs" for c
    proof -
      have "Some c \<in> ce_candidate_chunk_id ` set es" using pe that by (metis (no_types) Un_empty_left empty_set image_empty image_eqI)
      then show ?thesis by (metis image_iff)
    qed
    have a: "edge_scope (planned_db run es ls d) l" if "l \<in> set (cd_lineage d @ ls)" for l
      using that edges pl cand pe by (fastforce simp: edge_scope_def edge_of_def)
    have b: "ml_relation l = ml_relation l'"
      if "l \<in> set (cd_lineage d @ ls)" "l' \<in> set (cd_lineage d @ ls)" "ml_run_id l = ml_run_id l'" for l l'
    proof (cases "ml_run_id l = cr_run_id run")
      case True
      then have "l \<in> set ls" "l' \<in> set ls" using that old_edge by auto
      then show ?thesis using pl by metis
    next
      case False
      then have "l \<in> set (cd_lineage d)" "l' \<in> set (cd_lineage d)" using that pl by auto
      then show ?thesis using ok that(3) unfolding journal_ok_def scopes_ok_def by blast
    qed
    have c: "\<exists>c. ce_candidate_chunk_id e = Some c \<and> (\<exists>l \<in> set (cd_lineage d @ ls). ml_run_id l = ce_run_id e \<and> ml_result_chunk_id l = c)"
      if e: "e \<in> set (cd_entries d @ es)" for e
    proof (cases "e \<in> set (cd_entries d)")
      case True
      then show ?thesis using ok unfolding journal_ok_def scopes_ok_def set_append by blast
    next
      case False
      then have e: "e \<in> set es" using e by simp
      then obtain c where c: "ce_candidate_chunk_id e = Some c" using pe by blast
      then have "Some c \<in> Some ` set cs" using pe e by (metis UnI2 image_eqI)
      then have "c \<in> set cs" by auto
      then obtain l where "l \<in> set ls" "ml_result_chunk_id l = c" using p(3) by blast
      then show ?thesis using c e pe pl by (intro exI [of _ c]) auto
    qed
    have dd: "\<exists>e \<in> set (cd_entries d @ es). belongs r e" if "r \<in> set (cd_runs d @ [run])" for r
    proof (cases "r = run")
      case True
      then show ?thesis using pe p(5) by (cases es) (auto simp: belongs_def)
    next
      case False
      then show ?thesis using ok that unfolding journal_ok_def scopes_ok_def by auto
    qed
    show ?thesis unfolding scopes_ok_def planned_sel using a b c dd by blast
  qed
  ultimately show "journal_ok (planned_db run es ls d)" by (simp add: journal_ok_def)
qed

lemma begin_cases:
  assumes ok: "journal_ok d" and b: "begin_consolidation_run run es ls d = (res, d')"
  obtains (planned) "res = Inr run" "d' = planned_db run es ls d" "journal_ok d'" "cr_state run = Planned"
      "\<not> run_conflicts run (cd_runs d)" "validate_consolidation_plan run es ls = Inr ()"
  | (reused) r where "res = Inr r" "d' = d" "r \<in> set (cd_runs d)" "is_active r" "cr_tenant_id r = cr_tenant_id run"
      "cr_project_id r = cr_project_id run" "cr_input_hash r = cr_input_hash run"
  | (refused) e where "res = Inl e" "d' = d"
proof (cases "validate_consolidation_plan run es ls")
  case (Inl e)
  then show thesis using b refused by (auto simp: begin_consolidation_run_def)
next
  case (Inr x)
  then have v: "validate_consolidation_plan run es ls = Inr ()" by simp
  show thesis
  proof (cases "run_conflicts run (cd_runs d)")
    case True
    show thesis
    proof (cases "find_consolidation_run_by_input (cr_tenant_id run) (cr_project_id run) (cr_input_hash run) d")
      case None
      then show thesis using b v True refused by (auto simp: begin_consolidation_run_def transact_def)
    next
      case (Some r)
      then have "r \<in> set (cd_runs d)" "is_active r" "cr_tenant_id r = cr_tenant_id run"
        "cr_project_id r = cr_project_id run" "cr_input_hash r = cr_input_hash run"
        by (auto simp: find_consolidation_run_by_input_def find_Some_iff)
      moreover have "res = Inr r" "d' = d" using b v True Some by (auto simp: begin_consolidation_run_def transact_def)
      ultimately show thesis using reused by blast
    qed
  next
    case False
    show thesis
    proof (cases "insert_entries es (cd_entries d)")
      case (Inl e)
      then show thesis using b v False refused by (auto simp: begin_consolidation_run_def transact_def)
    next
      case (Inr es')
      note p = planned_ok [OF ok v False Inr]
      show thesis
      proof (cases "insert_lineage ls (cd_lineage d)")
        case (Inl e)
        then show thesis using b v False Inr refused by (auto simp: begin_consolidation_run_def transact_def)
      next
        case lin: (Inr ls')
        then have "ls' = cd_lineage d @ ls" using insert_lineage_ok by blast
        then have "res = Inr run" "d' = planned_db run es ls d"
          using b v False Inr p(2) lin by (auto simp: begin_consolidation_run_def transact_def planned_db_def)
        moreover have "cr_state run = Planned" using v by (auto simp: validate_consolidation_plan_def split: if_splits)
        ultimately show thesis using p(1) False v planned by blast
      qed
    qed
  qed
qed

section \<open>Steps\<close>

lemma find_SomeD: "find p xs = Some x \<Longrightarrow> x \<in> set xs \<and> p x"
  by (auto simp: find_Some_iff)

text \<open>The chunks that wait for a decision: candidates of runs that are not committed.\<close>

definition staged_ids :: "consolidation_db \<Rightarrow> string set" where
  "staged_ids d = {c. \<exists>r \<in> set (cd_runs d). cr_state r \<noteq> Committed \<and> c \<in> candidate_ids (cr_run_id r) d}"

text \<open>
  The statements the rest of the store runs on the chunk table. Candidates are inserted with
  their own status (by the add and by recovery); deletes, sweeps and supersessions may hit any row,
  also a staged one, since neither \<open>supersede_chunk\<close> nor its \<open>UPDATE\<close> looks at the status of the old
  chunk. Overlay updates of a staged chunk leave its status or mark it superseded: the only callers that
  write another status import new chunks.
\<close>

inductive store_step :: "string set \<Rightarrow> chunk_metadata list \<Rightarrow> chunk_metadata list \<Rightarrow> bool" for staged where
  insert_row: "(m_chunk_id m \<in> staged \<Longrightarrow> m_status m = Candidate) \<Longrightarrow> store_step staged rows (meta_insert m rows)"
| delete_row: "store_step staged rows (meta_mark_deleted tid cid rows)"
| update_row: "d_status dl = None \<or> d_status dl = Some Superseded \<or> cid \<notin> staged \<Longrightarrow>
     store_step staged rows (snd (update_lifecycle_counted tid cid dl rows))"
| link_rows: "atomic_supersede tid old new now rows = Inr rows' \<Longrightarrow> store_step staged rows rows'"
| expire_one: "store_step staged rows (snd (mark_expired_if_final tid cid now rows))"
| to_history: "store_step staged rows (snd (promote_to_history_if_stale tid cid cutoff now rows))"

definition service_moves :: "(consolidation_state \<times> consolidation_state) set" where
  "service_moves = {(Planned, CandidateWritten), (CandidateWritten, Validated), (FailedRecoverable, Validated),
     (Validated, FailedRecoverable)}"

inductive journal_step :: "consolidation_db \<Rightarrow> consolidation_db \<Rightarrow> bool" where
  plan: "begin_consolidation_run run es ls d = (res, d') \<Longrightarrow>
     (\<forall>e \<in> set es. \<forall>m \<in> set (cd_chunks d). ce_candidate_chunk_id e \<noteq> Some (m_chunk_id m)) \<Longrightarrow> journal_step d d'"
| request: "journal_step d (snd (request_consolidation_promotion rid now d))"
| record_error: "journal_step d (snd (record_consolidation_recovery_error rid now err d))"
| cleaned: "journal_step d (snd (mark_consolidation_sparse_cleanup_done rid now d))"
| hide: "journal_step d (snd (hide_consolidation_candidates rid now d))"
| hide_terminal: "journal_step d (snd (hide_terminal_consolidation_candidates now d))"
| move: "(expected, nxt) \<in> service_moves \<Longrightarrow>
     journal_step d (snd (transition_consolidation_run rid expected nxt now result err d))"
| terminate: "\<not> is_terminal expected \<Longrightarrow>
     journal_step d (snd (terminate_consolidation_run rid expected terminal now err d))"
| promote: "(\<And>xs. mset (ord xs) = mset xs) \<Longrightarrow>
     journal_step d (snd (atomic_promote_consolidation_run ord rid now d))"
| store: "store_step (staged_ids d) (cd_chunks d) rows \<Longrightarrow> journal_step d (d\<lparr>cd_chunks := rows\<rparr>)"

definition hidden_status :: "chunk_status \<Rightarrow> bool" where
  "hidden_status st \<longleftrightarrow> st = Candidate \<or> st = Deleted \<or> st = ErrorStatus \<or> st = Superseded"

definition hidden_ok :: "string set \<Rightarrow> chunk_metadata list \<Rightarrow> bool" where
  "hidden_ok staged rows \<longleftrightarrow> (\<forall>m \<in> set rows. m_chunk_id m \<in> staged \<longrightarrow> hidden_status (m_status m))"

definition staged_ok :: "consolidation_db \<Rightarrow> bool" where
  "staged_ok d \<longleftrightarrow> journal_ok d \<and> db_ok (cd_chunks d) \<and> hidden_ok (staged_ids d) (cd_chunks d)"

lemma hidden_ok_map:
  assumes "hidden_ok S rows" and "\<And>m. m \<in> set rows \<Longrightarrow> m_chunk_id (f m) = m_chunk_id m"
    and "\<And>m. m \<in> set rows \<Longrightarrow> m_chunk_id m \<in> S \<Longrightarrow> hidden_status (m_status m) \<Longrightarrow> hidden_status (m_status (f m))"
  shows "hidden_ok S (map f rows)"
  using assms by (simp add: hidden_ok_def)

lemma row_updates [simp]:
  "m_chunk_id (delta_row dl m) = m_chunk_id m" "coords (delta_row dl m) = coords m"
  "m_chunk_id (expire_row now m) = m_chunk_id m" "coords (expire_row now m) = coords m"
  "m_chunk_id (history_row now m) = m_chunk_id m" "coords (history_row now m) = coords m"
  "m_chunk_id (superseding_row c now m) = m_chunk_id m" "coords (superseding_row c now m) = coords m"
  "m_chunk_id (hidden_candidate now m) = m_chunk_id m" "coords (hidden_candidate now m) = coords m"
  "m_status (superseding_row c now m) = m_status m" "m_status (history_row now m) = m_status m"
  "m_status (hidden_candidate now m) = ErrorStatus"
  by (simp_all add: delta_row_def expire_row_def history_row_def superseding_row_def hidden_candidate_def coords_def)

lemma store_step_ok:
  assumes "store_step S rows rows'" and "db_ok rows" and "hidden_ok S rows"
  shows "db_ok rows' \<and> hidden_ok S rows'"
  using assms
proof cases
  case (insert_row m)
  then show ?thesis using assms(2,3) db_ok_insert [OF assms(2), of m]
    by (auto simp: meta_insert_def hidden_ok_def hidden_status_def)
next
  case (delete_row tid cid)
  moreover have "hidden_ok S (meta_mark_deleted tid cid rows)"
    using assms(3) by (auto simp: meta_mark_deleted_def hidden_ok_def hidden_status_def)
  ultimately show ?thesis using assms(2) by (simp add: db_ok_mark)
next
  case (update_row dl cid tid)
  then show ?thesis using assms(2,3)
    by (auto simp: update_lifecycle_counted_def update_where_def is_live_def delta_row_def coords_def hidden_ok_def
        hidden_status_def intro!: db_ok_map split: option.splits)
next
  case (link_rows tid old new now)
  let ?f = "\<lambda>m. if key_is tid old m \<and> superseded_by (m_lifecycle m) = None then superseded_row new now m else m"
  let ?g = "\<lambda>m. if key_is tid new m then superseding_row old now m else m"
  have "rows' = map ?g (map ?f rows)"
    using link_rows by (auto simp: atomic_supersede_def update_where_def Let_def split: if_splits)
  moreover have "db_ok (map ?g (map ?f rows))" using assms(2) by (intro db_ok_map) auto
  moreover have "hidden_ok S (map ?f rows)" using assms(3) by (rule hidden_ok_map) (auto simp: superseded_row_def hidden_status_def)
  then have "hidden_ok S (map ?g (map ?f rows))" by (rule hidden_ok_map) auto
  ultimately show ?thesis by simp
next
  case (expire_one tid cid now)
  then show ?thesis using assms(2,3)
    by (auto simp: mark_expired_if_final_def update_where_def expirable_def hidden_ok_def hidden_status_def
        intro!: db_ok_map split: if_splits)
next
  case (to_history tid cid cutoff now)
  then show ?thesis using assms(2,3)
    by (auto simp: promote_to_history_if_stale_def update_where_def hidden_ok_def intro!: db_ok_map)
qed

text \<open>Updates of the run table that keep ids, states and scopes.\<close>

lemma run_update_ok:
  assumes ok: "staged_ok d"
    and f: "\<And>r. r \<in> set (cd_runs d) \<Longrightarrow> cr_run_id (f r) = cr_run_id r \<and> cr_tenant_id (f r) = cr_tenant_id r
        \<and> cr_project_id (f r) = cr_project_id r \<and> cr_input_hash (f r) = cr_input_hash r \<and> cr_state (f r) = cr_state r
        \<and> (cr_promotion_requested r \<longrightarrow> cr_promotion_requested (f r))"
  shows "staged_ok (d\<lparr>cd_runs := map f (cd_runs d)\<rparr>)"
proof -
  have j: "journal_ok d" using ok by (simp add: staged_ok_def)
  have eq: "d\<lparr>cd_runs := map f (cd_runs d)\<rparr> = journal_map f id (cd_chunks d) d" by (simp add: journal_map_def)
  have committed: "cr_state x = Committed \<longrightarrow> cr_promotion_requested x" if "x \<in> set (cd_runs d)" for x
    using j that by (simp add: journal_ok_def states_ok_def)
  have "keeps_journal f id d"
    unfolding keeps_journal_def using f committed entry_follows [OF j]
    by (auto simp: is_active_def)
  then have "journal_ok (d\<lparr>cd_runs := map f (cd_runs d)\<rparr>)" unfolding eq by (rule journal_map_ok [OF j])
  moreover have "staged_ids (d\<lparr>cd_runs := map f (cd_runs d)\<rparr>) = staged_ids d"
    using f by (auto simp: staged_ids_def candidate_ids_def)
  ultimately show ?thesis using ok by (simp add: staged_ok_def)
qed

lemma candidate_ids_map [simp]:
  assumes "\<And>e. ce_run_id (g e) = ce_run_id e \<and> ce_candidate_chunk_id (g e) = ce_candidate_chunk_id e"
  shows "candidate_ids rid (journal_map f g rows d) = candidate_ids rid d"
  using assms by (simp add: candidate_ids_def)

lemma moved_candidates [simp]:
  "candidate_ids i (moved_db rid nxt result err now rows d) = candidate_ids i d"
  "candidate_ids i (committed_db rid now d) = candidate_ids i d"
  by (simp_all add: moved_db_def committed_db_def on_entries_def committed_entry_def)

lemma moved_chunks [simp]:
  "cd_chunks (moved_db rid nxt result err now rows d) = rows"
  "cd_chunks (committed_db rid now d) = map (promotion_row (candidate_ids rid d) (new_links rid d) now) (cd_chunks d)"
  by (simp_all add: moved_db_def committed_db_def)

lemma candidate_owner:
  assumes ok: "journal_ok d" and "r \<in> set (cd_runs d)" "r' \<in> set (cd_runs d)"
    and "c \<in> candidate_ids (cr_run_id r) d" "c \<in> candidate_ids (cr_run_id r') d"
  shows "r = r'"
proof -
  obtain e e' where e: "e \<in> set (cd_entries d)" "ce_run_id e = cr_run_id r" "ce_candidate_chunk_id e = Some c"
    and e': "e' \<in> set (cd_entries d)" "ce_run_id e' = cr_run_id r'" "ce_candidate_chunk_id e' = Some c"
    using assms(4,5) by (auto simp: candidate_ids_def)
  then have "e = e'" using ok unfolding journal_ok_def keys_ok_def distinct_map by (metis inj_onD)
  then show ?thesis using run_unique [OF ok assms(2,3)] e e' by simp
qed

lemma moved_staged:
  assumes ok: "journal_ok d" and r: "get_consolidation_run rid d = Some r" "cr_state r \<noteq> Committed" and "nxt \<noteq> Committed"
  shows "staged_ids (moved_db rid nxt result err now rows d) = staged_ids d"
proof -
  have st: "cr_state x \<noteq> Committed" if "x \<in> set (cd_runs d)" "cr_run_id x = rid" for x
    using run_unique [OF ok that(1), of r] r that(2) by (auto simp: get_run [OF ok])
  let ?f = "on_run rid (moved_run nxt result err now)"
  have "cr_state (?f x) \<noteq> Committed \<longleftrightarrow> cr_state x \<noteq> Committed" "cr_run_id (?f x) = cr_run_id x" if "x \<in> set (cd_runs d)" for x
    using st [OF that] assms(4) by (simp_all add: on_run_def)
  then show ?thesis unfolding staged_ids_def moved_candidates by (auto simp: moved_db_def)
qed

lemma committed_staged:
  assumes ok: "journal_ok d" and r: "get_consolidation_run rid d = Some r" "cr_state r = Validated"
  shows "staged_ids (committed_db rid now d) = staged_ids d - candidate_ids rid d"
proof -
  have rr: "r \<in> set (cd_runs d)" "cr_run_id r = rid" using r(1) by (simp_all add: get_run [OF ok])
  let ?f = "on_run rid (committed_run now)"
  have f: "cr_state (?f x) \<noteq> Committed \<longleftrightarrow> cr_state x \<noteq> Committed \<and> cr_run_id x \<noteq> rid" "cr_run_id (?f x) = cr_run_id x" for x
    by (simp_all add: on_run_def committed_run_def)
  have runs: "cd_runs (committed_db rid now d) = map ?f (cd_runs d)" by (simp add: committed_db_def)
  have "c \<in> staged_ids (committed_db rid now d) \<longleftrightarrow>
      (\<exists>x \<in> set (cd_runs d). cr_state x \<noteq> Committed \<and> cr_run_id x \<noteq> rid \<and> c \<in> candidate_ids (cr_run_id x) d)" for c
    unfolding staged_ids_def moved_candidates runs set_map using f by auto
  moreover have "c \<notin> candidate_ids rid d" if "x \<in> set (cd_runs d)" "cr_run_id x \<noteq> rid" "c \<in> candidate_ids (cr_run_id x) d" for c x
    using candidate_owner [OF ok that(1) rr(1) that(3)] that(2) rr(2) by auto
  ultimately show ?thesis unfolding staged_ids_def by (auto 0 4)
qed

lemma hide_row_ok:
  assumes "db_ok rows" and "hidden_ok S rows"
  shows "db_ok (map (hide_row cs now) rows)" and "hidden_ok S (map (hide_row cs now) rows)"
  using assms by (auto simp: hide_row_def hidden_status_def intro!: db_ok_map hidden_ok_map)

lemma hide_of_exact:
  "snd (hide_candidates_of p now d) =
     d\<lparr>cd_chunks := map (hide_row {c. \<exists>e \<in> set (cd_entries d). p (ce_run_id e) \<and> ce_candidate_chunk_id e = Some c} now) (cd_chunks d)\<rparr>"
  unfolding hide_candidates_of_def update_where_def hide_row_def by simp

lemma chunks_only_ok:
  assumes "staged_ok d" and "db_ok rows" and "hidden_ok (staged_ids d) rows"
  shows "staged_ok (d\<lparr>cd_chunks := rows\<rparr>)"
proof -
  have eq: "d\<lparr>cd_chunks := rows\<rparr> = journal_map id id rows d" by (simp add: journal_map_def)
  have "keeps_journal id id d"
    using assms(1) entry_follows [of d] by (auto simp: staged_ok_def keeps_journal_def journal_ok_def states_ok_def)
  then have "journal_ok (d\<lparr>cd_chunks := rows\<rparr>)"
    unfolding eq using assms(1) by (intro journal_map_ok) (simp_all add: staged_ok_def)
  moreover have "staged_ids (d\<lparr>cd_chunks := rows\<rparr>) = staged_ids d" by (simp add: staged_ids_def candidate_ids_def)
  ultimately show ?thesis using assms by (simp add: staged_ok_def)
qed

lemma moved_staged_ok:
  assumes ok: "staged_ok d" and r: "get_consolidation_run rid d = Some r" "\<not> is_terminal (cr_state r)" and nxt: "nxt \<noteq> Committed"
    and rows: "db_ok rows" "hidden_ok (staged_ids d) rows"
  shows "staged_ok (moved_db rid nxt result err now rows d)"
proof -
  have j: "journal_ok d" using ok by (simp add: staged_ok_def)
  have st: "cr_state r \<noteq> Committed" "cr_state r \<noteq> Rejected" "cr_state r \<noteq> RolledBack" using r(2) by (auto simp: is_terminal_def)
  have "journal_ok (moved_db rid nxt result err now rows d)" using nxt by (intro moved_ok [OF j r(1) st(2,3)]) simp
  then show ?thesis using rows moved_staged [OF j r(1) st(1) nxt] by (simp add: staged_ok_def)
qed

lemma committed_staged_ok:
  assumes ok: "staged_ok d" and r: "get_consolidation_run rid d = Some r" "cr_state r = Validated" "cr_promotion_requested r"
    and p: "promotable r now d"
  shows "staged_ok (committed_db rid now d)"
proof -
  have j: "journal_ok d" and rows: "db_ok (cd_chunks d)" and hid: "hidden_ok (staged_ids d) (cd_chunks d)"
    using ok by (simp_all add: staged_ok_def)
  have rr: "cr_run_id r = rid" using r(1) by (simp add: get_run [OF j])
  have "db_ok (map (promotion_row (candidate_ids rid d) (new_links rid d) now) (cd_chunks d))"
    by (intro db_ok_map [OF rows]) (auto simp: promotion_row_def linked_row_def split: option.splits)
  moreover have "hidden_ok (staged_ids d - candidate_ids rid d) (map (promotion_row (candidate_ids rid d) (new_links rid d) now) (cd_chunks d))"
  proof (rule hidden_ok_map)
    show "hidden_ok (staged_ids d - candidate_ids rid d) (cd_chunks d)" using hid by (simp add: hidden_ok_def)
    fix m assume m: "m \<in> set (cd_chunks d)"
    show "m_chunk_id (promotion_row (candidate_ids rid d) (new_links rid d) now m) = m_chunk_id m"
      by (auto simp: promotion_row_def linked_row_def split: option.splits)
    assume s: "m_chunk_id m \<in> staged_ids d - candidate_ids rid d" and h: "hidden_status (m_status m)"
    have "new_links rid d (m_chunk_id m) = None"
    proof (rule ccontr)
      assume "new_links rid d (m_chunk_id m) \<noteq> None"
      then obtain l where "l \<in> set (cd_lineage d)" "ml_run_id l = rid" "ml_source_chunk_id l = m_chunk_id m"
        by (auto simp: new_links_def dest!: find_SomeD)
      then obtain x where x: "x \<in> set (cd_chunks d)" "m_chunk_id x = m_chunk_id m" "m_status x = Final"
        using p rr unfolding promotable_def source_row_def edge_of_def key_is_def final_head_def by fastforce
      then have "x = m" using m by (intro row_unique [OF rows])
      then show False using h x(3) by (simp add: hidden_status_def)
    qed
    then show "hidden_status (m_status (promotion_row (candidate_ids rid d) (new_links rid d) now m))"
      using s h by (simp add: promotion_row_def linked_row_def)
  qed
  ultimately show ?thesis
    using committed_ok [OF j r] committed_staged [OF j r(1,2)] by (simp add: staged_ok_def)
qed

lemma staged_move:
  assumes ok: "staged_ok d" and m: "(expected, nxt) \<in> service_moves"
  shows "staged_ok (snd (transition_consolidation_run rid expected nxt now result err d))"
proof -
  have j: "journal_ok d" using ok by (simp add: staged_ok_def)
  have e: "expected \<noteq> Rejected" "expected \<noteq> RolledBack" "\<not> is_terminal expected" "nxt \<noteq> Committed"
    using m by (auto simp: service_moves_def is_terminal_def)
  show ?thesis
    using ok moved_staged_ok [OF ok _ _ e(4), of rid _ "cd_chunks d"] e(3)
    unfolding transition_exact [OF j e(1,2)] staged_ok_def by auto
qed

lemma staged_terminate:
  assumes ok: "staged_ok d" and e: "\<not> is_terminal expected"
  shows "staged_ok (snd (terminate_consolidation_run rid expected terminal now err d))"
proof (cases "terminal = Rejected \<or> terminal = RolledBack")
  case True
  have j: "journal_ok d" and rows: "db_ok (cd_chunks d)" "hidden_ok (staged_ids d) (cd_chunks d)" using ok by (simp_all add: staged_ok_def)
  have e': "expected \<noteq> Rejected" "expected \<noteq> RolledBack" "terminal \<noteq> Committed" using e True by (auto simp: is_terminal_def)
  note h = hide_row_ok [OF rows, of "candidate_ids rid d" now]
  show ?thesis
    using ok moved_staged_ok [OF ok _ _ e'(3) h, of rid] e unfolding terminate_exact [OF j e'(1,2) True] by auto
next
  case False
  then show ?thesis using ok by (simp add: terminate_consolidation_run_def)
qed

lemma staged_promote:
  assumes ok: "staged_ok d" and ord: "\<And>xs. mset (ord xs) = mset xs"
  shows "staged_ok (snd (atomic_promote_consolidation_run ord rid now d))"
proof (cases "get_consolidation_run rid d")
  case None
  then obtain e where "atomic_promote_consolidation_run ord rid now d = (Inl e, d)" using promote_missing by blast
  then show ?thesis using ok by simp
next
  case (Some r)
  have j: "journal_ok d" and rows: "db_ok (cd_chunks d)" using ok by (simp_all add: staged_ok_def)
  show ?thesis
  proof (cases "cr_state r = Validated \<and> cr_promotion_requested r")
    case True
    then have st: "cr_state r = Validated" "cr_promotion_requested r" by simp_all
    note p = promote_exact [OF j rows Some st ord, where now = now]
    show ?thesis
    proof (cases "promotable r now d")
      case True
      then show ?thesis using p(1) committed_staged_ok [OF ok Some st] by simp
    next
      case False
      then obtain e where "atomic_promote_consolidation_run ord rid now d = (Inl e, d)" using p(2) by blast
      then show ?thesis using ok by simp
    qed
  next
    case False
    then have "snd (atomic_promote_consolidation_run ord rid now d) = d" using promote_other_states(1) [OF Some] by blast
    then show ?thesis using ok by simp
  qed
qed

lemma staged_plan:
  assumes ok: "staged_ok d" and b: "begin_consolidation_run run es ls d = (res, d')"
    and fresh: "\<forall>e \<in> set es. \<forall>m \<in> set (cd_chunks d). ce_candidate_chunk_id e \<noteq> Some (m_chunk_id m)"
  shows "staged_ok d'"
proof -
  have j: "journal_ok d" using ok by (simp add: staged_ok_def)
  show ?thesis
  proof (rule begin_cases [OF j b])
    assume p: "d' = planned_db run es ls d" "journal_ok d'" "\<not> run_conflicts run (cd_runs d)" "validate_consolidation_plan run es ls = Inr ()"
    have new: "cr_run_id r \<noteq> cr_run_id run" if "r \<in> set (cd_runs d)" for r using p(3) that by (auto simp: run_conflicts_def)
    obtain cs where cs: "plan_entries run [] [] es = Inr cs"
      using p(4) by (auto simp: validate_consolidation_plan_def split: sum.splits if_splits)
    note pe = plan_entries_ok [OF cs]
    have "c \<in> staged_ids d" if "c \<in> staged_ids d'" and c: "\<forall>e \<in> set es. ce_candidate_chunk_id e \<noteq> Some c" for c
      using that unfolding p(1) staged_ids_def candidate_ids_def planned_sel
      using new entry_follows [OF j] j pe by (auto simp: journal_ok_def states_ok_def belongs_def)
    then have "hidden_ok (staged_ids d') (cd_chunks d)"
      using ok fresh unfolding staged_ok_def hidden_ok_def by blast
    then show ?thesis using p(1,2) ok by (simp add: staged_ok_def)
  qed (use ok in auto)
qed

lemma step_ok: "journal_step d d' \<Longrightarrow> staged_ok d \<Longrightarrow> staged_ok d'"
proof (induction rule: journal_step.induct)
  case (plan run es ls d res d')
  show ?case by (rule staged_plan [OF plan(3,1,2)])
next
  case (request d rid now)
  then show ?case by (auto simp: request_consolidation_promotion_def update_where_def intro!: run_update_ok)
next
  case (record_error d rid now err)
  then show ?case by (auto simp: record_consolidation_recovery_error_def update_where_def intro!: run_update_ok)
next
  case (cleaned d rid now)
  then show ?case by (auto simp: mark_consolidation_sparse_cleanup_done_def update_where_def intro!: run_update_ok)
next
  case (hide d rid now)
  then show ?case unfolding hide_consolidation_candidates_def hide_of_exact
    using hide_row_ok [of "cd_chunks d" "staged_ids d"] by (intro chunks_only_ok) (simp_all add: staged_ok_def)
next
  case (hide_terminal d now)
  then show ?case unfolding hide_terminal_consolidation_candidates_def hide_of_exact
    using hide_row_ok [of "cd_chunks d" "staged_ids d"] by (intro chunks_only_ok) (simp_all add: staged_ok_def)
next
  case (move expected nxt d rid now result err)
  then show ?case by (intro staged_move)
next
  case (terminate expected d rid terminal now err)
  then show ?case by (intro staged_terminate)
next
  case (promote ord d rid now)
  then show ?case by (intro staged_promote)
next
  case (store d rows)
  then show ?case using store_step_ok by (intro chunks_only_ok) (auto simp: staged_ok_def)
qed

lemma steps_ok: "journal_step\<^sup>*\<^sup>* d d' \<Longrightarrow> staged_ok d \<Longrightarrow> staged_ok d'"
  by (induction rule: rtranclp_induct) (auto intro: step_ok)

text \<open>A journal without runs over any chunk table.\<close>

definition empty_journal :: "chunk_metadata list \<Rightarrow> consolidation_db" where
  "empty_journal rows = \<lparr>cd_runs = [], cd_entries = [], cd_lineage = [], cd_chunks = rows\<rparr>"

lemma empty_ok: "db_ok rows \<Longrightarrow> staged_ok (empty_journal rows)"
  by (simp add: empty_journal_def staged_ok_def journal_ok_def keys_ok_def states_ok_def scopes_ok_def hidden_ok_def staged_ids_def)

text \<open>Runs never disappear, and a run in a terminal state keeps it.\<close>

lemma run_kept:
  assumes "r \<in> set rs" and "\<And>x. cr_run_id (f x) = cr_run_id x \<and> cr_state (f x) = cr_state x"
  shows "\<exists>r' \<in> set (map f rs). cr_run_id r' = cr_run_id r \<and> cr_state r' = cr_state r"
  using assms by (intro bexI [of _ "f r"]) auto

lemma step_terminal:
  assumes "journal_step d d'" and "staged_ok d" and "r \<in> set (cd_runs d)" and "is_terminal (cr_state r)"
  shows "\<exists>r' \<in> set (cd_runs d'). cr_run_id r' = cr_run_id r \<and> cr_state r' = cr_state r"
  using assms
proof (induction rule: journal_step.induct)
  case (plan run es ls d res d')
  have j: "journal_ok d" using plan.prems(1) by (simp add: staged_ok_def)
  show ?case by (rule begin_cases [OF j plan.hyps(1)]) (use plan.prems in auto)
next
  case (move expected nxt d rid now result err)
  have j: "journal_ok d" using move.prems(1) by (simp add: staged_ok_def)
  have e: "expected \<noteq> Rejected" "expected \<noteq> RolledBack" "\<not> is_terminal expected"
    using move.hyps by (auto simp: service_moves_def is_terminal_def)
  have "cr_run_id r \<noteq> rid" if "get_consolidation_run rid d = Some x" "cr_state x = expected" for x
    using run_unique [OF j move.prems(2), of x] that move.prems(3) e(3) by (auto simp: get_run [OF j])
  then show ?case using move.prems unfolding transition_exact [OF j e(1,2)]
    by (auto simp: moved_db_def on_run_def intro!: bexI [of _ r])
next
  case (terminate expected d rid terminal now err)
  have j: "journal_ok d" using terminate.prems(1) by (simp add: staged_ok_def)
  have e: "expected \<noteq> Rejected" "expected \<noteq> RolledBack" using terminate.hyps by (auto simp: is_terminal_def)
  have n: "cr_run_id r \<noteq> rid" if "get_consolidation_run rid d = Some x" "cr_state x = expected" for x
    using run_unique [OF j terminate.prems(2), of x] that terminate.prems(3) terminate.hyps by (auto simp: get_run [OF j])
  show ?case
  proof (cases "terminal = Rejected \<or> terminal = RolledBack")
    case True
    then show ?thesis using terminate.prems n unfolding terminate_exact [OF j e True]
      by (auto simp: moved_db_def on_run_def intro!: bexI [of _ r])
  next
    case False
    then show ?thesis using terminate.prems by (auto simp: terminate_consolidation_run_def)
  qed
next
  case (promote ord d rid now)
  have j: "journal_ok d" and rows: "db_ok (cd_chunks d)" using promote.prems(1) by (simp_all add: staged_ok_def)
  show ?case
  proof (cases "snd (atomic_promote_consolidation_run ord rid now d) = d")
    case True
    then show ?thesis using promote.prems by auto
  next
    case False
    then obtain x where x: "get_consolidation_run rid d = Some x" "cr_state x = Validated" "cr_promotion_requested x"
      using promote_missing [of rid d ord now] promote_other_states(1) [of rid d _ ord now] by (cases "get_consolidation_run rid d") fastforce+
    have p: "atomic_promote_consolidation_run ord rid now d = (Inr PromotionCommitted, committed_db rid now d)"
      using promote_exact [OF j rows x promote.hyps, where now = now] False by (cases "promotable x now d") auto
    have "cr_run_id r \<noteq> rid"
      using run_unique [OF j promote.prems(2), of x] x promote.prems(3) by (auto simp: get_run [OF j] is_terminal_def)
    then show ?thesis using promote.prems(2) by (auto simp: p committed_db_def on_run_def intro!: bexI [of _ r])
  qed
next
  case (request d rid now)
  then show ?case unfolding request_consolidation_promotion_def update_where_def by (simp add: run_kept del: set_map)
next
  case (record_error d rid now err)
  then show ?case unfolding record_consolidation_recovery_error_def update_where_def by (simp add: run_kept del: set_map)
next
  case (cleaned d rid now)
  then show ?case unfolding mark_consolidation_sparse_cleanup_done_def update_where_def by (simp add: run_kept del: set_map)
next
  case (hide d rid now)
  then show ?case by (auto simp: hide_consolidation_candidates_def hide_of_exact)
next
  case (hide_terminal d now)
  then show ?case by (auto simp: hide_terminal_consolidation_candidates_def hide_of_exact)
next
  case (store d rows)
  then show ?case by auto
qed

lemma steps_terminal:
  assumes "journal_step\<^sup>*\<^sup>* d d'" and "staged_ok d" and "r \<in> set (cd_runs d)" and "is_terminal (cr_state r)"
  shows "\<exists>r' \<in> set (cd_runs d'). cr_run_id r' = cr_run_id r \<and> cr_state r' = cr_state r"
  using assms
proof (induction rule: rtranclp_induct)
  case (step b c)
  then obtain x where x: "x \<in> set (cd_runs b)" "cr_run_id x = cr_run_id r" "cr_state x = cr_state r" by auto
  have "staged_ok b" using steps_ok [OF step.hyps(1) step.prems(1)] .
  from step_terminal [OF step.hyps(2) this x(1)] show ?case using x step.prems by simp
qed auto

end
