(* ===== verification/Consolidation_Recovery.thy ===== *)
theory Consolidation_Recovery
  imports Consolidation_Service Consolidation_Steps
begin

text \<open>
  What recovery does to a database that satisfies the invariant of the journal: it settles one
  run at a time, leaves all other runs alone, and the chunk table changes as a whole or not at
  all.
\<close>

section \<open>The effect on one run\<close>

definition others_same :: "string \<Rightarrow> consolidation_db \<Rightarrow> consolidation_db \<Rightarrow> bool" where
  "others_same rid d d' \<longleftrightarrow>
     {r \<in> set (cd_runs d'). cr_run_id r \<noteq> rid} = {r \<in> set (cd_runs d). cr_run_id r \<noteq> rid}"

text \<open>A settled run needs no recovery, or has failed in a way that a later pass retries.\<close>

definition settled_run :: "consolidation_run \<Rightarrow> bool" where
  "settled_run r \<longleftrightarrow> is_terminal (cr_state r) \<or> cr_state r = FailedRecoverable
     \<or> cr_state r = Validated \<and> \<not> cr_promotion_requested r"

text \<open>All or nothing: the chunk table is promoted, or only candidates are hidden, or nothing happens to it.\<close>

definition all_or_nothing :: "string \<Rightarrow> consolidation_db \<Rightarrow> consolidation_db \<Rightarrow> consolidation_run \<Rightarrow> bool" where
  "all_or_nothing rid d d' r' \<longleftrightarrow>
     (if cr_state r' = Committed
      then cr_promotion_requested r'
        \<and> (\<exists>t. cd_chunks d' = map (promotion_row (candidate_ids rid d) (new_links rid d) t) (cd_chunks d))
      else cd_chunks d' = cd_chunks d
        \<or> is_terminal (cr_state r') \<and> (\<exists>t. cd_chunks d' = map (hide_row (candidate_ids rid d) t) (cd_chunks d)))"

definition recovered :: "string \<Rightarrow> consolidation_db \<Rightarrow> consolidation_db \<Rightarrow> consolidation_run \<Rightarrow> bool" where
  "recovered rid d d' r' \<longleftrightarrow> staged_ok d' \<and> others_same rid d d' \<and> get_consolidation_run rid d' = Some r' \<and> all_or_nothing rid d d' r'"

lemma others_same_refl [simp]: "others_same rid d d"
  by (simp add: others_same_def)

lemma others_same_trans: "others_same rid d d' \<Longrightarrow> others_same rid d' d'' \<Longrightarrow> others_same rid d d''"
  by (simp add: others_same_def)

lemma others_same_map:
  assumes "cd_runs d' = map f (cd_runs d)" and "\<And>r. cr_run_id (f r) = cr_run_id r" and "\<And>r. cr_run_id r \<noteq> rid \<Longrightarrow> f r = r"
  shows "others_same rid d d'"
  using assms by (force simp: others_same_def image_iff)

lemma moved_db_facts:
  assumes "get_consolidation_run rid d = Some r"
  shows "get_consolidation_run rid (moved_db rid nxt result err now rows d) = Some (moved_run nxt result err now r)"
    and "others_same rid d (moved_db rid nxt result err now rows d)"
proof -
  show "others_same rid d (moved_db rid nxt result err now rows d)"
    by (rule others_same_map [of _ "on_run rid (moved_run nxt result err now)"]) (simp_all add: moved_db_def on_run_def)
  have "find (run_is rid) (map (on_run rid (moved_run nxt result err now)) rs) =
      map_option (on_run rid (moved_run nxt result err now)) (find (run_is rid) rs)" for rs
    by (induction rs) (auto simp: run_is_def on_run_def)
  moreover have "run_is rid r" using assms by (auto simp: get_consolidation_run_def dest: find_SomeD)
  ultimately show "get_consolidation_run rid (moved_db rid nxt result err now rows d) = Some (moved_run nxt result err now r)"
    using assms by (simp add: get_consolidation_run_def moved_db_def on_run_def run_is_def)
qed

lemma committed_db_facts:
  assumes "get_consolidation_run rid d = Some r"
  shows "get_consolidation_run rid (committed_db rid now d) = Some (committed_run now r)"
    and "others_same rid d (committed_db rid now d)"
proof -
  show "others_same rid d (committed_db rid now d)"
    by (rule others_same_map [of _ "on_run rid (committed_run now)"]) (simp_all add: committed_db_def on_run_def committed_run_def)
  have "find (run_is rid) (map (on_run rid (committed_run now)) rs) =
      map_option (on_run rid (committed_run now)) (find (run_is rid) rs)" for rs
    by (induction rs) (auto simp: run_is_def on_run_def committed_run_def)
  moreover have "run_is rid r" using assms by (auto simp: get_consolidation_run_def dest: find_SomeD)
  ultimately show "get_consolidation_run rid (committed_db rid now d) = Some (committed_run now r)"
    using assms by (simp add: get_consolidation_run_def committed_db_def on_run_def run_is_def)
qed

lemma new_links_map [simp]:
  "new_links rid (moved_db i nxt result err now rows d) = new_links rid d"
  by (rule ext) (simp add: new_links_def moved_db_def)

text \<open>A move before the rest of the recovery that leaves the chunk table alone.\<close>

lemma recovered_after_move:
  assumes "recovered rid (moved_db rid nxt result err now (cd_chunks d) d) d' r'" and "get_consolidation_run rid d = Some r"
  shows "recovered rid d d' r'"
  using assms(1) others_same_trans [OF moved_db_facts(2) [OF assms(2)]]
  unfolding recovered_def all_or_nothing_def moved_candidates moved_chunks new_links_map by blast

section \<open>The stages\<close>

lemma terminated:
  assumes ok: "staged_ok d" and r: "get_consolidation_run rid d = Some r" "\<not> is_terminal (cr_state r)"
    and t: "terminal = Rejected \<or> terminal = RolledBack"
  shows "\<exists>d' r'. discard (terminate_consolidation_run rid (cr_state r) terminal now err d) = (Inr (), d')
    \<and> recovered rid d d' r' \<and> cr_state r' = terminal"
proof -
  let ?rows = "map (hide_row (candidate_ids rid d) now) (cd_chunks d)"
  let ?d = "moved_db rid terminal None (Some err) now ?rows d"
  have j: "journal_ok d" and rows: "db_ok (cd_chunks d)" "hidden_ok (staged_ids d) (cd_chunks d)" using ok by (simp_all add: staged_ok_def)
  have st: "cr_state r \<noteq> Rejected" "cr_state r \<noteq> RolledBack" using r(2) by (auto simp: is_terminal_def)
  have "discard (terminate_consolidation_run rid (cr_state r) terminal now err d) = (Inr (), ?d)"
    unfolding terminate_exact [OF j st t] using r(1) by (simp add: discard_def)
  moreover have "staged_ok ?d" using t by (intro moved_staged_ok [OF ok r _ hide_row_ok [OF rows]]) auto
  moreover have "all_or_nothing rid d ?d (moved_run terminal None (Some err) now r)"
    using t by (auto simp: all_or_nothing_def is_terminal_def)
  ultimately show ?thesis using moved_db_facts [OF r(1)] by (auto simp: recovered_def)
qed

lemma moved:
  assumes ok: "staged_ok d" and r: "get_consolidation_run rid d = Some r" and m: "(cr_state r, nxt) \<in> service_moves"
  shows "transition_consolidation_run rid (cr_state r) nxt now result err d = (Inr True, moved_db rid nxt result err now (cd_chunks d) d)"
    and "recovered rid d (moved_db rid nxt result err now (cd_chunks d) d) (moved_run nxt result err now r)"
proof -
  have j: "journal_ok d" using ok by (simp add: staged_ok_def)
  have st: "cr_state r \<noteq> Rejected" "cr_state r \<noteq> RolledBack" "nxt \<noteq> Committed" using m by (auto simp: service_moves_def)
  show t: "transition_consolidation_run rid (cr_state r) nxt now result err d = (Inr True, moved_db rid nxt result err now (cd_chunks d) d)"
    unfolding transition_exact [OF j st(1,2)] using r by simp
  have "staged_ok (moved_db rid nxt result err now (cd_chunks d) d)" using staged_move [OF ok m, of rid now result err] t by simp
  then show "recovered rid d (moved_db rid nxt result err now (cd_chunks d) d) (moved_run nxt result err now r)"
    using moved_db_facts [OF r] st(3) by (simp add: recovered_def all_or_nothing_def)
qed

lemma classified:
  assumes ok: "staged_ok d" and r: "get_consolidation_run rid d = Some r" "cr_state r = Validated" and id: "cr_run_id run = rid"
  shows "\<exists>d' r'. classify_promotion_failure V t0 t1 run e d = (Inr (), d') \<and> recovered rid d d' r'
    \<and> (cr_state r' = Rejected \<or> cr_state r' = FailedRecoverable)"
proof (cases "\<exists>reason. validate_candidate_run V t0 run d = Inl (ValidationError reason)")
  case True
  then obtain reason where v: "validate_candidate_run V t0 run d = Inl (ValidationError reason)" by blast
  have "\<not> is_terminal (cr_state r)" using r(2) by (simp add: is_terminal_def)
  from terminated [OF ok r(1) this, of Rejected t1 "''promotion rejected after source/candidate drift: '' @ reason"]
  show ?thesis using r(2) id by (auto simp: classify_promotion_failure_def v)
next
  case False
  have m: "(cr_state r, FailedRecoverable) \<in> service_moves" using r(2) by (simp add: service_moves_def)
  have "\<exists>d' r'. discard (transition_consolidation_run rid Validated FailedRecoverable t1 None err d) = (Inr (), d')
      \<and> recovered rid d d' r' \<and> cr_state r' = FailedRecoverable" for err
    using moved [OF ok r(1) m, where now = t1 and result = None and err = err] r(2) by (auto simp: discard_def)
  then show ?thesis
    using False id
    by (cases "validate_candidate_run V t0 run d"; rename_tac x)
      (simp add: classify_promotion_failure_def split: memd_error.splits; blast)+
qed

lemma cleaned_recovered:
  assumes "recovered rid d d' r'" and "cr_state r' = Committed"
  shows "\<exists>r''. recovered rid d (finish_sparse_cleanup_for_run V rid tid rel ss now d') r'' \<and> cr_state r'' = Committed"
proof (cases "cleanup_superseded_sparse_rows V tid rel ss")
  case False
  then show ?thesis using assms by (auto simp: finish_sparse_cleanup_for_run_def)
next
  case True
  let ?d = "snd (mark_consolidation_sparse_cleanup_done rid now d')"
  let ?f = "\<lambda>r. if run_is rid r \<and> cr_state r = Committed \<and> \<not> cr_sparse_cleanup_done r
      then r\<lparr>cr_sparse_cleanup_done := True, cr_updated_at_ms := now\<rparr> else r"
  have d: "?d = d'\<lparr>cd_runs := map ?f (cd_runs d')\<rparr>"
    by (simp add: mark_consolidation_sparse_cleanup_done_def update_where_def)
  have ok: "staged_ok ?d" using step_ok [OF journal_step.cleaned] assms(1) by (simp add: recovered_def)
  have "find (run_is rid) (map ?f rs) = map_option ?f (find (run_is rid) rs)" for rs
    by (induction rs) (auto simp: run_is_def)
  then have "get_consolidation_run rid ?d = Some (?f r')"
    using assms(1) unfolding d by (simp add: get_consolidation_run_def recovered_def)
  moreover have "others_same rid d' ?d" by (rule others_same_map [of _ ?f]) (simp_all add: d run_is_def)
  moreover have "all_or_nothing rid d ?d (?f r')" using assms by (simp add: recovered_def all_or_nothing_def d)
  ultimately have "recovered rid d ?d (?f r')"
    using ok assms(1) others_same_trans by (auto simp: recovered_def)
  then show ?thesis using True assms(2) by (intro exI [of _ "?f r'"]) (simp add: finish_sparse_cleanup_for_run_def)
qed

lemma unchanged_recovered:
  assumes "staged_ok d" and "get_consolidation_run rid d = Some r" and "cr_state r \<noteq> Committed"
  shows "recovered rid d d r"
  using assms by (simp add: recovered_def all_or_nothing_def)

lemma validated_recovered:
  assumes ok: "staged_ok d" and r: "get_consolidation_run rid d = Some r" "cr_state r = Validated" and id: "cr_run_id run = rid"
    and ord: "\<And>xs. mset (env_hash_order V xs) = mset xs"
  shows "\<exists>d' r'. recover_validated V clk run r d = (Inr (), d') \<and> recovered rid d d' r' \<and> settled_run r'"
proof (cases "cr_promotion_requested r")
  case False
  then show ?thesis using unchanged_recovered [OF ok r(1)] r(2) by (intro exI [of _ d] exI [of _ r]) (simp add: recover_validated_def settled_run_def)
next
  case True
  have j: "journal_ok d" and rows: "db_ok (cd_chunks d)" using ok by (simp_all add: staged_ok_def)
  have rr: "r \<in> set (cd_runs d)" "cr_run_id r = rid" using r(1) by (simp_all add: get_run [OF j])
  have failed: "\<exists>d' r'. recover_validated V clk run r d = (Inr (), d') \<and> recovered rid d d' r' \<and> settled_run r'"
    if p: "promote_validated_run V (clk 5) r d = (Inl e, d)" for e
    using classified [OF ok r rr(2), of V "clk 7" "clk 8" e] True p by (auto simp: recover_validated_def settled_run_def is_terminal_def)
  show ?thesis
  proof (cases "validate_raw_response_audit V r")
    case (Inl e)
    then show ?thesis by (intro failed [of e]) (simp add: promote_validated_run_def)
  next
    case (Inr u)
    note p = promote_exact [OF j rows r True ord, where now = "clk 5"]
    show ?thesis
    proof (cases "promotable r (clk 5) d")
      case False
      then obtain e where "atomic_promote_consolidation_run (env_hash_order V) rid (clk 5) d = (Inl e, d)" using p(2) by blast
      then show ?thesis using Inr rr(2) by (intro failed [of e]) (simp add: promote_validated_run_def)
    next
      case pr: True
      let ?d = "committed_db rid (clk 5) d" and ?r = "committed_run (clk 5) r"
      have ok': "staged_ok ?d" using committed_staged_ok [OF ok r True pr] .
      have g: "get_consolidation_run rid ?d = Some ?r" using committed_db_facts(1) [OF r(1)] .
      have "all_or_nothing rid d ?d ?r" using True by (auto simp: all_or_nothing_def committed_run_def)
      then have rec: "recovered rid d ?d ?r" using ok' g committed_db_facts(2) [OF r(1)] by (simp add: recovered_def)
      have j': "journal_ok ?d" using ok' by (simp add: staged_ok_def)
      have "query_memory_lineage rid ?d \<noteq> []" using run_has_plan(2) [OF j', of ?r] g by (simp add: get_run [OF j'])
      then obtain l ls where l: "query_memory_lineage rid ?d = l # ls" by (cases "query_memory_lineage rid ?d") auto
      let ?d' = "finish_sparse_cleanup_for_run V rid (cr_tenant_id run) (ml_relation l) (lineage_sources rid ?d) (clk 6) ?d"
      obtain r'' where r'': "recovered rid d ?d' r''" "cr_state r'' = Committed"
        using cleaned_recovered [OF rec, where V = V and tid = "cr_tenant_id run" and rel = "ml_relation l"
            and ss = "lineage_sources rid ?d" and now = "clk 6"] by (auto simp: committed_run_def)
      have "recover_validated V clk run r d = (Inr (), ?d')"
        using True Inr p(1) [OF pr] rr(2) id l by (simp add: recover_validated_def promote_validated_run_def)
      then show ?thesis using r'' by (intro exI [of _ ?d'] exI [of _ r'']) (simp add: settled_run_def is_terminal_def)
    qed
  qed
qed

lemma moved_validated:
  assumes ok: "staged_ok d" and r: "get_consolidation_run rid d = Some r" "(cr_state r, Validated) \<in> service_moves" and id: "cr_run_id run = rid"
    and ord: "\<And>xs. mset (env_hash_order V xs) = mset xs"
  shows "\<exists>d' r'. recover_moved V clk run (transition_consolidation_run rid (cr_state r) Validated now result err d) = (Inr (), d')
    \<and> recovered rid d d' r' \<and> settled_run r'"
proof -
  let ?d = "moved_db rid Validated result err now (cd_chunks d) d" and ?r = "moved_run Validated result err now r"
  note m = moved [OF ok r, where now = now and result = result and err = err]
  have ok': "staged_ok ?d" and g: "get_consolidation_run rid ?d = Some ?r" using m(2) by (simp_all add: recovered_def)
  have st: "cr_state ?r = Validated" by simp
  obtain d' r' where v: "recover_validated V clk run ?r ?d = (Inr (), d')" "recovered rid ?d d' r'" "settled_run r'"
    using validated_recovered [OF ok' g st id ord] by blast
  have "recovered rid d d' r'" using recovered_after_move [OF v(2) r(1)] .
  moreover have "recover_moved V clk run (transition_consolidation_run rid (cr_state r) Validated now result err d) = (Inr (), d')"
    using v(1) g id unfolding m(1) by (simp add: recover_moved_def)
  ultimately show ?thesis using v(3) by blast
qed

lemma written_recovered:
  assumes ok: "staged_ok d" and r: "get_consolidation_run rid d = Some r" "cr_state r = CandidateWritten" and id: "cr_run_id run = rid"
    and ord: "\<And>xs. mset (env_hash_order V xs) = mset xs"
  shows "(\<exists>e. validate_candidate_run V (clk 1) run d = Inl e \<and> \<not> is_validation_error e \<and> recover_written V clk run d = (Inl e, d))
    \<or> (\<exists>d' r'. recover_written V clk run d = (Inr (), d') \<and> recovered rid d d' r' \<and> settled_run r')"
proof (cases "validate_candidate_run V (clk 1) run d")
  case (Inl e)
  show ?thesis
  proof (cases "is_validation_error e")
    case True
    have "\<not> is_terminal (cr_state r)" using r(2) by (simp add: is_terminal_def)
    from terminated [OF ok r(1) this, of Rejected "clk 2" "display_error e"] obtain d' r' where
      "discard (terminate_consolidation_run rid CandidateWritten Rejected (clk 2) (display_error e) d) = (Inr (), d')"
      "recovered rid d d' r'" "cr_state r' = Rejected" by (auto simp: r(2))
    then show ?thesis using Inl True id by (intro disjI2 exI [of _ d'] exI [of _ r']) (simp add: recover_written_def settled_run_def is_terminal_def)
  next
    case False
    then show ?thesis using Inl by (simp add: recover_written_def)
  qed
next
  case (Inr u)
  have "(cr_state r, Validated) \<in> service_moves" using r(2) by (simp add: service_moves_def)
  from moved_validated [OF ok r(1) this id ord] show ?thesis
    using Inr id r(2) by (intro disjI2) (simp add: recover_written_def)
qed

text \<open>
  Recovery of one run either settles it, or reports that a payload or the audit file could not
  be read and leaves the run before validation.
\<close>

lemma one_recovered:
  assumes ok: "staged_ok d" and r: "get_consolidation_run rid d = Some r" "\<not> is_terminal (cr_state r)" and id: "cr_run_id run = rid"
    and ord: "\<And>xs. mset (env_hash_order V xs) = mset xs"
  shows "(\<exists>d' r'. recover_one_run V clk run d = (Inr (), d') \<and> recovered rid d d' r' \<and> settled_run r')
    \<or> (\<exists>e d' r'. recover_one_run V clk run d = (Inl e, d') \<and> recovered rid d d' r' \<and> \<not> is_terminal (cr_state r')
        \<and> ((\<exists>x. count_present V (cr_tenant_id run) d (query_consolidation_entries rid d) = Inl x)
           \<or> (\<exists>d1. validate_candidate_run V (clk 1) run d1 = Inl e \<and> \<not> is_validation_error e)))"
proof (cases "cr_state r")
  case Planned
  note rec = recover_one_run_def [of V clk run d]
  show ?thesis
  proof (cases "count_present V (cr_tenant_id run) d (query_consolidation_entries rid d)")
    case (Inl e)
    then show ?thesis using Planned unchanged_recovered [OF ok r(1)] r id
      by (intro disjI2 exI [of _ e] exI [of _ d] exI [of _ r]) (simp add: rec)
  next
    case (Inr present)
    show ?thesis
    proof (cases "present = length (query_consolidation_entries rid d)")
      case False
      from terminated [OF ok r, of RolledBack "clk 0" "''recovery found an incomplete candidate payload set''"] obtain d' r' where
        "discard (terminate_consolidation_run rid Planned RolledBack (clk 0) ''recovery found an incomplete candidate payload set'' d) = (Inr (), d')"
        "recovered rid d d' r'" "cr_state r' = RolledBack" by (auto simp: Planned)
      then show ?thesis using Inr False Planned id r(1)
        by (intro disjI1 exI [of _ d'] exI [of _ r']) (simp add: rec settled_run_def is_terminal_def)
    next
      case True
      let ?d = "moved_db rid CandidateWritten None None (clk 0) (cd_chunks d) d" and ?r = "moved_run CandidateWritten None None (clk 0) r"
      have m: "(cr_state r, CandidateWritten) \<in> service_moves" using Planned by (simp add: service_moves_def)
      note mv = moved [OF ok r(1) m, where now = "clk 0" and result = None and err = None]
      have ok': "staged_ok ?d" and g: "get_consolidation_run rid ?d = Some ?r" using mv(2) by (simp_all add: recovered_def)
      have eq: "recover_one_run V clk run d = recover_written V clk run ?d"
        using Inr True Planned id r(1) mv(1) by (simp add: rec)
      have st: "cr_state ?r = CandidateWritten" by simp
      from written_recovered [OF ok' g st id ord, of clk] show ?thesis
      proof (elim disjE exE conjE)
        fix e assume e: "validate_candidate_run V (clk 1) run ?d = Inl e" "\<not> is_validation_error e" "recover_written V clk run ?d = (Inl e, ?d)"
        then show ?thesis using mv(2) unfolding eq by (intro disjI2 exI [of _ e] exI [of _ ?d] exI [of _ ?r]) (auto simp: is_terminal_def)
      next
        fix d' r' assume "recover_written V clk run ?d = (Inr (), d')" "recovered rid ?d d' r'" "settled_run r'"
        then show ?thesis using recovered_after_move [OF _ r(1)] unfolding eq by blast
      qed
    qed
  qed
next
  case CandidateWritten
  have eq: "recover_one_run V clk run d = recover_written V clk run d" using CandidateWritten r(1) id by (simp add: recover_one_run_def)
  from written_recovered [OF ok r(1) CandidateWritten id ord, of clk] show ?thesis

  proof (elim disjE exE conjE)
    fix e assume "validate_candidate_run V (clk 1) run d = Inl e" "\<not> is_validation_error e" "recover_written V clk run d = (Inl e, d)"
    then show ?thesis unfolding eq using unchanged_recovered [OF ok r(1)] r(2) CandidateWritten
      by (intro disjI2 exI [of _ e] exI [of _ d] exI [of _ r]) auto
  qed (auto simp: eq)
next
  case Validated
  then show ?thesis using validated_recovered [OF ok r(1) Validated id ord, of clk] r(1) id by (simp add: recover_one_run_def)
next
  case FailedRecoverable
  then have "(cr_state r, Validated) \<in> service_moves" by (simp add: service_moves_def)
  from moved_validated [OF ok r(1) this id ord, of clk "clk 4" "Some ''retrying promotion''" None] show ?thesis
    using FailedRecoverable r(1) id by (simp add: recover_one_run_def)
qed (use r(2) in \<open>simp_all add: is_terminal_def\<close>)

section \<open>A recovery pass\<close>

text \<open>Reading works: chunks can be read without an error, and the audit file of a run exists.\<close>

definition reads_ok :: "service_env \<Rightarrow> bool" where
  "reads_ok V \<longleftrightarrow> (\<forall>tid c d. \<exists>x. env_get V tid c d = Inr x)"

definition audit_there :: "service_env \<Rightarrow> consolidation_run \<Rightarrow> bool" where
  "audit_there V run \<longleftrightarrow> (\<forall>path. cr_audit_artifact_path run = Some path \<longrightarrow> env_files V path \<noteq> None)"

lemma count_present_ok: "reads_ok V \<Longrightarrow> \<exists>n. count_present V tid d es = Inr n"
proof (induction es)
  case (Cons e es)
  then obtain n where n: "count_present V tid d es = Inr n" by blast
  show ?case
  proof (cases "ce_candidate_chunk_id e")
    case (Some c)
    obtain x where "env_get V tid c d = Inr x" using Cons.prems unfolding reads_ok_def by blast
    then show ?thesis using Some n by simp
  qed (simp add: n)
qed simp

lemma audit_errors: "audit_there V run \<Longrightarrow> validate_raw_response_audit V run = Inl e \<Longrightarrow> is_validation_error e"
  by (auto simp: audit_there_def validate_raw_response_audit_def is_validation_error_def split: option.splits if_splits)

lemma source_errors: "validate_sources rows tid pid rel ss now = Inl e \<Longrightarrow> is_validation_error e"
  by (induction ss) (auto simp: is_validation_error_def split: option.splits if_splits)

lemma entry_errors: "reads_ok V \<Longrightarrow> validate_entries V run d es = Inl e \<Longrightarrow> is_validation_error e"
proof (induction es)
  case (Cons x es)
  show ?case
  proof (cases "ce_candidate_chunk_id x")
    case None
    then show ?thesis using Cons.prems(2) by (auto simp: is_validation_error_def)
  next
    case (Some c)
    obtain y where y: "env_get V (cr_tenant_id run) c d = Inr y" using Cons.prems(1) unfolding reads_ok_def by blast
    show ?thesis using Cons Some y by (auto simp: is_validation_error_def split: option.splits if_splits)
  qed
qed simp

lemma candidate_errors:
  assumes "reads_ok V" and "audit_there V run" and "validate_candidate_run V now run d = Inl e"
  shows "is_validation_error e"
proof (cases "validate_raw_response_audit V run")
  case (Inl x)
  then show ?thesis using assms audit_errors by (simp add: validate_candidate_run_def)
next
  case (Inr u)
  show ?thesis
  proof (cases "validate_entries V run d (query_consolidation_entries (cr_run_id run) d)")
    case (Inl x)
    then show ?thesis using assms(3) Inr entry_errors [OF assms(1) Inl]
      by (auto simp: validate_candidate_run_def Let_def is_validation_error_def split: if_splits)
  next
    case inner: (Inr w)
    show ?thesis
    proof (cases "query_memory_lineage (cr_run_id run) d")
      case Nil
      then show ?thesis using assms(3) Inr inner by (auto simp: validate_candidate_run_def Let_def is_validation_error_def split: if_splits)
    next
      case (Cons l ls)
      then show ?thesis using assms(3) Inr inner source_errors
        by (auto simp: validate_candidate_run_def Let_def is_validation_error_def split: if_splits)
    qed
  qed
qed

lemma readable_recovered:
  assumes "staged_ok d" and "get_consolidation_run rid d = Some r" "\<not> is_terminal (cr_state r)" and "cr_run_id run = rid"
    and "\<And>xs. mset (env_hash_order V xs) = mset xs" and "reads_ok V" and "audit_there V run"
  shows "\<exists>d' r'. recover_one_run V clk run d = (Inr (), d') \<and> recovered rid d d' r' \<and> settled_run r'"
  using one_recovered [OF assms(1-5)] count_present_ok [OF assms(6), of "cr_tenant_id run" d "query_consolidation_entries rid d"]
    candidate_errors [OF assms(6,7)] by fastforce

definition pending_run :: "service_env \<Rightarrow> consolidation_db \<Rightarrow> consolidation_run \<Rightarrow> bool" where
  "pending_run V d run \<longleftrightarrow> audit_there V run \<and> (\<exists>r. get_consolidation_run (cr_run_id run) d = Some r \<and> \<not> is_terminal (cr_state r))"

lemma others_get:
  assumes "journal_ok d" "journal_ok d'" and "others_same rid d d'" and "i \<noteq> rid"
  shows "get_consolidation_run i d' = get_consolidation_run i d"
proof -
  have "get_consolidation_run i d' = Some r \<longleftrightarrow> get_consolidation_run i d = Some r" for r
    using assms(3,4) unfolding get_run [OF assms(1)] get_run [OF assms(2)] others_same_def by blast
  then show ?thesis by (metis option.exhaust)
qed

lemma runs_settle:
  assumes "staged_ok d" and "distinct (map cr_run_id runs)" and "\<forall>run \<in> set runs. pending_run V d run"
    and "\<forall>r \<in> set (cd_runs d). cr_run_id r \<notin> cr_run_id ` set runs \<longrightarrow> settled_run r"
    and ord: "\<And>xs. mset (env_hash_order V xs) = mset xs" and reads: "reads_ok V"
  shows "\<exists>rc' d'. recover_runs V clk runs rc d = (Inr rc', d') \<and> staged_ok d' \<and> (\<forall>r \<in> set (cd_runs d'). settled_run r)
    \<and> rc_inspected rc' = rc_inspected rc + length runs"
  using assms(1-4)
proof (induction runs arbitrary: clk rc d)
  case (Cons run runs)
  let ?rid = "cr_run_id run"
  obtain r where r: "get_consolidation_run ?rid d = Some r" "\<not> is_terminal (cr_state r)" and aud: "audit_there V run"
    using Cons.prems(3) by (auto simp: pending_run_def)
  obtain d1 r1 where d1: "recover_one_run V (clk 0) run d = (Inr (), d1)" "recovered ?rid d d1 r1" "settled_run r1"
    using readable_recovered [OF Cons.prems(1) r refl ord reads aud] by blast
  have ok1: "staged_ok d1" "others_same ?rid d d1" "get_consolidation_run ?rid d1 = Some r1" using d1(2) by (simp_all add: recovered_def)
  have j: "journal_ok d" "journal_ok d1" using Cons.prems(1) ok1(1) by (simp_all add: staged_ok_def)
  obtain rc1 where rc1: "recover_listed V (clk 0) run rc d = Inr (rc1, d1)" "rc_inspected rc1 = rc_inspected rc + 1"
    using d1(1) ok1(3) by (cases "cr_state r1") (simp_all add: recover_listed_def Let_def count_committed_def)
  have pend: "\<forall>x \<in> set runs. pending_run V d1 x"
  proof
    fix x assume x: "x \<in> set runs"
    then have "cr_run_id x \<in> cr_run_id ` set runs" by (rule imageI)
    then have "cr_run_id x \<noteq> ?rid" using Cons.prems(2) by auto
    then have "get_consolidation_run (cr_run_id x) d1 = get_consolidation_run (cr_run_id x) d" using others_get [OF j ok1(2)] by blast
    then show "pending_run V d1 x" using Cons.prems(3) x by (simp add: pending_run_def)
  qed
  have rest: "\<forall>x \<in> set (cd_runs d1). cr_run_id x \<notin> cr_run_id ` set runs \<longrightarrow> settled_run x"
  proof (intro ballI impI)
    fix x assume x: "x \<in> set (cd_runs d1)" "cr_run_id x \<notin> cr_run_id ` set runs"
    show "settled_run x"
    proof (cases "cr_run_id x = ?rid")
      case True
      then have "x = r1" using ok1(3) x(1) run_unique [OF j(2) x(1), of r1] by (simp add: get_run [OF j(2)])
      then show ?thesis using d1(3) by simp
    next
      case False
      then have "x \<in> set (cd_runs d)" using ok1(2) x(1) unfolding others_same_def by blast
      then show ?thesis using Cons.prems(4) x(2) False by simp
    qed
  qed
  have "distinct (map cr_run_id runs)" using Cons.prems(2) by simp
  from Cons.IH [OF ok1(1) this pend rest, of "\<lambda>i. clk (Suc i)" rc1] show ?case using rc1 by auto
qed auto

text \<open>Hiding and the pending cleanup come first; they touch no run that is not committed.\<close>

definition uncommitted_same :: "consolidation_db \<Rightarrow> consolidation_db \<Rightarrow> bool" where
  "uncommitted_same d d' \<longleftrightarrow> staged_ok d' \<and> length (cd_runs d') = length (cd_runs d)
     \<and> {r \<in> set (cd_runs d'). cr_state r \<noteq> Committed} = {r \<in> set (cd_runs d). cr_state r \<noteq> Committed}"

lemma uncommitted_map:
  assumes "\<And>r. cr_state (f r) = cr_state r" and "\<And>r. cr_state r \<noteq> Committed \<Longrightarrow> f r = r"
  shows "{r \<in> f ` A. cr_state r \<noteq> Committed} = {r \<in> A. cr_state r \<noteq> Committed}"
  using assms by (force simp: image_iff)

lemma cleanup_uncommitted:
  assumes "uncommitted_same d d'"
  shows "uncommitted_same d (finish_pending_run V now run d')"
proof -
  have "uncommitted_same d (snd (mark_consolidation_sparse_cleanup_done rid now d'))" for rid
  proof -
    have ok: "staged_ok (snd (mark_consolidation_sparse_cleanup_done rid now d'))"
      using step_ok [OF journal_step.cleaned] assms by (simp add: uncommitted_same_def)
    let ?f = "\<lambda>r. if run_is rid r \<and> cr_state r = Committed \<and> \<not> cr_sparse_cleanup_done r
        then r\<lparr>cr_sparse_cleanup_done := True, cr_updated_at_ms := now\<rparr> else r"
    have d: "cd_runs (snd (mark_consolidation_sparse_cleanup_done rid now d')) = map ?f (cd_runs d')"
      by (simp add: mark_consolidation_sparse_cleanup_done_def update_where_def)
    have "{r \<in> ?f ` set (cd_runs d'). cr_state r \<noteq> Committed} = {r \<in> set (cd_runs d'). cr_state r \<noteq> Committed}"
      by (rule uncommitted_map) simp_all
    then show ?thesis using assms ok unfolding uncommitted_same_def d by (simp only: set_map length_map)
  qed
  then show ?thesis using assms
    by (auto simp: finish_pending_run_def finish_sparse_cleanup_for_run_def split: list.splits)
qed

lemma prepass_uncommitted:
  assumes "staged_ok d"
  shows "uncommitted_same d (finish_pending_sparse_cleanup V tc limit (snd (hide_terminal_consolidation_candidates t0 d)))"
proof -
  let ?d = "snd (hide_terminal_consolidation_candidates t0 d)"
  have "staged_ok ?d" using step_ok [OF journal_step.hide_terminal assms] .
  then have base: "uncommitted_same d ?d"
    by (simp add: uncommitted_same_def hide_terminal_consolidation_candidates_def hide_of_exact)
  have "uncommitted_same d (fold (\<lambda>(i, run). finish_pending_run V (tc i) run) xs d')" if "uncommitted_same d d'" for xs d'
    using that by (induction xs arbitrary: d') (auto intro: cleanup_uncommitted)
  then show ?thesis using base by (auto simp: finish_pending_sparse_cleanup_def)
qed

end
