(* ===== verification/Consolidation_Instance.thy ===== *)
theory Consolidation_Instance
  imports Consolidation_Recovery Tenant_Instance
begin

text \<open>
  The properties of staged consolidation, over all histories of the journal, with a small run
  as witness: one source chunk condensed into one candidate that supersedes it.
\<close>

section \<open>A small run\<close>

definition demo_meta :: "string \<Rightarrow> u32 \<Rightarrow> chunk_status \<Rightarrow> chunk_metadata" where
  "demo_meta cid ordinal st =
     \<lparr>m_chunk_id = cid, m_tenant_id = ''acme'', m_project_id = None, m_segment_id = 1, m_ordinal = ordinal,
      m_chunk_type = Summary, m_status = st, m_timestamp_created = 0, m_hash = [], m_source_uri = None,
      m_lifecycle = default_lifecycle, m_canonical_text = None, m_ingestion_mode = Document\<rparr>"

definition demo_run :: consolidation_run where
  "demo_run =
     \<lparr>cr_run_id = ''run'', cr_tenant_id = ''acme'', cr_project_id = None, cr_input_hash = lit ''in'', cr_state = Planned,
      cr_consolidator = ''test'', cr_consolidator_command = None, cr_consolidator_model = None, cr_consolidator_version = None,
      cr_prompt_hash = None, cr_response_hash = Some (lit ''h''), cr_audit_artifact_path = Some ''audit/run.json'',
      cr_validation_result = None, cr_error = None, cr_sparse_cleanup_done = False, cr_promotion_requested = True,
      cr_created_at_ms = 0, cr_updated_at_ms = 0\<rparr>"

definition demo_entry :: consolidation_entry where
  "demo_entry =
     \<lparr>ce_run_id = ''run'', ce_entry_index = 0, ce_candidate_chunk_id = Some ''cand'', ce_source_set_hash = lit ''s'',
      ce_state = Planned, ce_validation_error = None, ce_created_at_ms = 0, ce_updated_at_ms = 0\<rparr>"

definition demo_edge :: memory_lineage where
  "demo_edge =
     \<lparr>ml_run_id = ''run'', ml_tenant_id = ''acme'', ml_project_id = None, ml_source_chunk_id = ''src'',
      ml_result_chunk_id = ''cand'', ml_relation = Supersedes, ml_created_at_ms = 0\<rparr>"

definition demo_rows :: "chunk_metadata list" where
  "demo_rows = [demo_meta ''src'' 0 Final]"

definition demo_db :: "consolidation_run \<Rightarrow> consolidation_db" where
  "demo_db run = \<lparr>cd_runs = [run], cd_entries = [demo_entry\<lparr>ce_state := cr_state run\<rparr>], cd_lineage = [demo_edge],
     cd_chunks = demo_rows @ [demo_meta ''cand'' 1 Candidate]\<rparr>"

lemma demo_meta_sel [simp]:
  "m_chunk_id (demo_meta cid ordinal st) = cid" "m_status (demo_meta cid ordinal st) = st"
  by (simp_all add: demo_meta_def)

lemma promotion_status: "m_status (superseded_row c now m) = Superseded" "m_status (promoted_row now m) = Final"
  by (simp_all add: superseded_row_def promoted_row_def)

lemma demo_db_chunks: "cd_chunks (demo_db run) = [demo_meta ''src'' 0 Final, demo_meta ''cand'' 1 Candidate]"
  by (simp add: demo_db_def demo_rows_def)

lemma demo_reached: "journal_step\<^sup>*\<^sup>* (empty_journal demo_rows) (demo_db demo_run)"
proof -
  let ?d = "planned_db demo_run [demo_entry] [demo_edge] (empty_journal demo_rows)"
  have "begin_consolidation_run demo_run [demo_entry] [demo_edge] (empty_journal demo_rows) = (Inr demo_run, ?d)"
    by code_simp
  then have "journal_step (empty_journal demo_rows) ?d"
    by (rule journal_step.plan) (simp add: demo_entry_def empty_journal_def demo_rows_def demo_meta_def)
  moreover have "store_step (staged_ids ?d) (cd_chunks ?d) (meta_insert (demo_meta ''cand'' 1 Candidate) (cd_chunks ?d))"
    by (rule store_step.insert_row) (simp add: demo_meta_def)
  from journal_step.store [OF this] have "journal_step ?d (demo_db demo_run)"
    by (simp add: demo_db_def planned_db_def empty_journal_def meta_insert_def demo_rows_def conflicts_iff demo_meta_def
        coords_def demo_entry_def demo_run_def)
  ultimately show ?thesis by (meson converse_rtranclp_into_rtranclp rtranclp.rtrancl_refl)
qed

lemma demo_moves:
  "journal_step\<^sup>*\<^sup>* (empty_journal demo_rows) (demo_db (demo_run\<lparr>cr_state := Validated, cr_validation_result := Some ''ok''\<rparr>))"
proof -
  let ?r1 = "demo_run\<lparr>cr_state := CandidateWritten\<rparr>" and ?r2 = "demo_run\<lparr>cr_state := Validated, cr_validation_result := Some ''ok''\<rparr>"
  have "snd (transition_consolidation_run ''run'' Planned CandidateWritten 0 None None (demo_db demo_run)) = demo_db ?r1"
    by code_simp
  moreover have "journal_step (demo_db demo_run) (snd (transition_consolidation_run ''run'' Planned CandidateWritten 0 None None (demo_db demo_run)))"
    by (rule journal_step.move) (simp add: service_moves_def)
  moreover have "snd (transition_consolidation_run ''run'' CandidateWritten Validated 0 (Some ''ok'') None (demo_db ?r1)) = demo_db ?r2"
    by code_simp
  moreover have "journal_step (demo_db ?r1) (snd (transition_consolidation_run ''run'' CandidateWritten Validated 0 (Some ''ok'') None (demo_db ?r1)))"
    by (rule journal_step.move) (simp add: service_moves_def)
  ultimately show ?thesis using demo_reached by (metis (no_types) rtranclp.rtrancl_into_rtrancl)
qed

lemma demo_rows_ok: "db_ok demo_rows"
  by (simp add: db_ok_def demo_rows_def)

definition run_env :: service_env where
  "run_env =
     \<lparr>env_get = \<lambda>tid c d. Inr (map_option (\<lambda>m. plain_chunk c tid []) (meta_get (cd_chunks d) tid c)),
      env_files = \<lambda>p. Some [],
      env_json = \<lambda>b. Some \<lparr>aa_response_sha256 = Some (lit ''h''), aa_raw_response = Some (lit ''h''),
                            aa_stored_response_sha256 = Some (lit ''h''), aa_truncated = Some False\<rparr>,
      env_sha256_hex = \<lambda>s. s, env_sparse_delete = None, env_sparse_on_disk = False, env_hash_order = \<lambda>xs. xs\<rparr>"

lemma hidden_visible:
  "hidden_status st \<Longrightarrow> is_visible_at p st l now \<Longrightarrow> st = Superseded \<and> include_superseded p"
  by (auto simp: hidden_status_def is_visible_at_def is_visible_def split: if_splits)

section \<open>Properties\<close>

text \<open>
  C12. In every database that planning, transitions, terminations, promotions, recovery notes,
  hiding and the statements of the rest of the store can reach: the entries of a run are in the
  state of the run, at most one run that is not rejected or rolled back exists for an input, a
  committed run was requested, a candidate of a run that is not committed is invisible, except
  that one which was superseded in the meantime is shown to policies that include superseded
  chunks, and a run that has reached a terminal state is still in it after any further steps.
\<close>

theorem journal_invariant:
  assumes "db_ok rows" and "journal_step\<^sup>*\<^sup>* (empty_journal rows) d" and "journal_step\<^sup>*\<^sup>* d d'"
  shows "(\<forall>r \<in> set (cd_runs d'). \<forall>e \<in> set (cd_entries d'). ce_run_id e = cr_run_id r \<longrightarrow> ce_state e = cr_state r)
    \<and> (\<forall>r \<in> set (cd_runs d'). \<forall>r' \<in> set (cd_runs d'). is_active r \<and> is_active r' \<and> cr_tenant_id r = cr_tenant_id r'
         \<and> cr_project_id r = cr_project_id r' \<and> cr_input_hash r = cr_input_hash r' \<longrightarrow> r = r')
    \<and> (\<forall>r \<in> set (cd_runs d'). cr_state r = Committed \<longrightarrow> cr_promotion_requested r)
    \<and> (\<forall>r \<in> set (cd_runs d'). cr_state r \<noteq> Committed \<longrightarrow> (\<forall>c \<in> candidate_ids (cr_run_id r) d'. \<forall>m \<in> set (cd_chunks d').
         m_chunk_id m = c \<and> is_visible_at p (m_status m) (m_lifecycle m) now \<longrightarrow> m_status m = Superseded \<and> include_superseded p))
    \<and> (\<forall>r \<in> set (cd_runs d). is_terminal (cr_state r) \<longrightarrow>
         (\<exists>r' \<in> set (cd_runs d'). cr_run_id r' = cr_run_id r \<and> cr_state r' = cr_state r))"
proof (intro conjI)
  have ok: "staged_ok d" using steps_ok [OF assms(2) empty_ok [OF assms(1)]] .
  have ok': "staged_ok d'" using steps_ok [OF assms(3) ok] .
  then have j: "journal_ok d'" and hid: "hidden_ok (staged_ids d') (cd_chunks d')" by (simp_all add: staged_ok_def)
  show "\<forall>r \<in> set (cd_runs d'). \<forall>e \<in> set (cd_entries d'). ce_run_id e = cr_run_id r \<longrightarrow> ce_state e = cr_state r"
    using entry_follows [OF j] by (auto simp: belongs_def)
  show "\<forall>r \<in> set (cd_runs d'). \<forall>r' \<in> set (cd_runs d'). is_active r \<and> is_active r' \<and> cr_tenant_id r = cr_tenant_id r'
      \<and> cr_project_id r = cr_project_id r' \<and> cr_input_hash r = cr_input_hash r' \<longrightarrow> r = r'"
    using active_unique [OF j] by (simp add: input_key_def)
  show "\<forall>r \<in> set (cd_runs d'). cr_state r = Committed \<longrightarrow> cr_promotion_requested r"
    using j by (simp add: journal_ok_def states_ok_def)
  show "\<forall>r \<in> set (cd_runs d'). cr_state r \<noteq> Committed \<longrightarrow> (\<forall>c \<in> candidate_ids (cr_run_id r) d'. \<forall>m \<in> set (cd_chunks d').
      m_chunk_id m = c \<and> is_visible_at p (m_status m) (m_lifecycle m) now \<longrightarrow> m_status m = Superseded \<and> include_superseded p)"
    using hid hidden_visible unfolding hidden_ok_def staged_ids_def by blast
  show "\<forall>r \<in> set (cd_runs d). is_terminal (cr_state r) \<longrightarrow>
      (\<exists>r' \<in> set (cd_runs d'). cr_run_id r' = cr_run_id r \<and> cr_state r' = cr_state r)"
    using steps_terminal [OF assms(3) ok] by blast
qed

theorem journal_invariant_witness:
  "\<not> is_visible_at \<lparr>include_superseded = True, include_expired = True, include_history = True\<rparr> Candidate default_lifecycle 5
   \<and> journal_step\<^sup>*\<^sup>* (empty_journal demo_rows) (demo_db demo_run)"
  using journal_invariant [OF demo_rows_ok demo_reached rtranclp.rtrancl_refl,
      of "\<lparr>include_superseded = True, include_expired = True, include_history = True\<rparr>" 5] demo_reached
  by (simp add: demo_db_def demo_run_def demo_entry_def demo_meta_def candidate_ids_def)

text \<open>A run that is not committed is promoted or the attempt is an error.\<close>

lemma promote_refused:
  assumes "get_consolidation_run rid d = Some r" and "cr_state r \<noteq> Committed" and "\<not> (cr_state r = Validated \<and> cr_promotion_requested r)"
  shows "\<exists>e. atomic_promote_consolidation_run ord rid now d = (Inl e, d)"
  using assms by (auto simp: atomic_promote_consolidation_run_def transact_def promote_tx_def)

lemma supersede_leaves_row:
  assumes "atomic_supersede tid old new now rows = Inr rows'"
  shows "\<exists>m \<in> set rows'. m_chunk_id m = old \<and> m_status m = Superseded"
proof -
  let ?p = "\<lambda>m. key_is tid old m \<and> superseded_by (m_lifecycle m) = None"
  have "fst (update_where ?p (superseded_row new now) rows) = 1"
    using assms unfolding atomic_supersede_def case_prod_beta Let_def by (metis (no_types, lifting) Inl_Inr_False)
  then have "filter ?p rows \<noteq> []" by (auto simp: update_where_def)
  moreover have eq: "rows' = map (\<lambda>m. if key_is tid new m then superseding_row old now m else m)
                        (map (\<lambda>m. if ?p m then superseded_row new now m else m) rows)"
    using assms by (simp add: atomic_supersede_def update_where_def Let_def split: if_splits)
  ultimately obtain m where m: "m \<in> set rows" "?p m" by (auto simp: filter_empty_conv)
  then show ?thesis unfolding eq set_map
    by (intro bexI [OF _ imageI [OF imageI [OF m(1)]]]) (simp add: key_is_def superseded_row_def superseding_row_def)
qed

text \<open>
  C38. Nothing protects a staged candidate from being superseded. When the link of a supersession
  has a candidate of a run that is not committed as its old chunk and succeeds, the database it
  leaves is again reachable: the candidate is a superseded chunk, visible under the policy that
  includes superseded, expired and history chunks, and promoting the run fails and changes nothing.
\<close>

theorem superseded_candidate_blocks_promotion:
  assumes "db_ok rows" and "journal_step\<^sup>*\<^sup>* (empty_journal rows) d" and "r \<in> set (cd_runs d)" and "cr_state r \<noteq> Committed"
    and "c \<in> candidate_ids (cr_run_id r) d" and "atomic_supersede tid c new t (cd_chunks d) = Inr rows'"
    and "\<And>xs. mset (ord xs) = mset xs"
  shows "journal_step d (d\<lparr>cd_chunks := rows'\<rparr>)
    \<and> (\<exists>m \<in> set rows'. m_chunk_id m = c \<and> m_status m = Superseded
         \<and> is_visible_at \<lparr>include_superseded = True, include_expired = True, include_history = True\<rparr> (m_status m) (m_lifecycle m) now)
    \<and> (\<exists>e. atomic_promote_consolidation_run ord (cr_run_id r) now (d\<lparr>cd_chunks := rows'\<rparr>) = (Inl e, d\<lparr>cd_chunks := rows'\<rparr>))"
proof -
  let ?d = "d\<lparr>cd_chunks := rows'\<rparr>"
  have step: "journal_step d ?d" by (rule journal_step.store) (rule store_step.link_rows [OF assms(6)])
  have ok: "staged_ok d" using steps_ok [OF assms(2) empty_ok [OF assms(1)]] .
  have ok': "journal_ok ?d" "db_ok rows'" using step_ok [OF step ok] by (simp_all add: staged_ok_def)
  obtain m where m: "m \<in> set rows'" "m_chunk_id m = c" "m_status m = Superseded"
    using supersede_leaves_row [OF assms(6)] by blast
  have g: "get_consolidation_run (cr_run_id r) ?d = Some r" using assms(3) by (simp add: get_run [OF ok'(1)])
  have "\<not> promotable r now ?d"
  proof
    assume "promotable r now ?d"
    then obtain x where "x \<in> set rows'" "m_chunk_id x = c" "m_status x = Candidate"
      using assms(5) by (auto simp: promotable_def staged_row_def key_is_def candidate_ids_def)
    then show False using row_unique [OF ok'(2) _ m(1)] m(2,3) by fastforce
  qed
  then have "\<exists>e. atomic_promote_consolidation_run ord (cr_run_id r) now ?d = (Inl e, ?d)"
    using promote_exact(2) [OF ok'(1) _ g _ _ assms(7)] promote_refused [OF g assms(4)] ok'(2) by auto
  then show ?thesis using step m
    by (intro conjI bexI [of _ m]) (simp_all add: is_visible_at_def is_visible_def)
qed

theorem superseded_candidate_blocks_promotion_witness:
  "\<exists>rows' e. atomic_supersede ''acme'' ''cand'' ''src'' 5 (cd_chunks (demo_db demo_run)) = Inr rows'
     \<and> atomic_promote_consolidation_run rev ''run'' 9 ((demo_db demo_run)\<lparr>cd_chunks := rows'\<rparr>) = (Inl e, (demo_db demo_run)\<lparr>cd_chunks := rows'\<rparr>)
     \<and> map m_status rows' = [Final, Superseded]"
proof -
  have c: "''cand'' \<in> candidate_ids (cr_run_id demo_run) (demo_db demo_run)" and r: "demo_run \<in> set (cd_runs (demo_db demo_run))"
    "cr_state demo_run \<noteq> Committed" "cr_run_id demo_run = ''run''"
    by (simp_all add: candidate_ids_def demo_db_def demo_entry_def demo_run_def)
  have "map_sum id (map m_status) (atomic_supersede ''acme'' ''cand'' ''src'' 5 (cd_chunks (demo_db demo_run))) = Inr [Final, Superseded]"
    by code_simp
  then obtain rows' where s: "atomic_supersede ''acme'' ''cand'' ''src'' 5 (cd_chunks (demo_db demo_run)) = Inr rows'"
    "map m_status rows' = [Final, Superseded]"
    by (cases "atomic_supersede ''acme'' ''cand'' ''src'' 5 (cd_chunks (demo_db demo_run))") auto
  from superseded_candidate_blocks_promotion [OF demo_rows_ok demo_reached r(1,2) c s(1), of rev 9] r(3) s show ?thesis by auto
qed

text \<open>
  C14. Promotion of a run that is validated and requested commits exactly if every candidate is
  still staged and every source is still a final head in the scope of the run; then the
  candidates are final, the sources of a superseding run point at their candidates, run and
  entries are committed, and nothing else changes. In every other case the database stays as it
  was. The order in which the hash set of candidates is walked does not matter.
\<close>

theorem promotion_exact:
  assumes "db_ok rows" and "journal_step\<^sup>*\<^sup>* (empty_journal rows) d" and "get_consolidation_run rid d = Some r"
    and "\<And>xs. mset (ord xs) = mset xs"
  shows "if cr_state r = Committed then atomic_promote_consolidation_run ord rid now d = (Inr AlreadyCommitted, d)
    else if cr_state r = Validated \<and> cr_promotion_requested r \<and> promotable r now d
    then atomic_promote_consolidation_run ord rid now d = (Inr PromotionCommitted, committed_db rid now d)
    else \<exists>e. atomic_promote_consolidation_run ord rid now d = (Inl e, d)"
proof -
  have ok: "staged_ok d" using steps_ok [OF assms(2) empty_ok [OF assms(1)]] .
  then have j: "journal_ok d" and rows: "db_ok (cd_chunks d)" by (simp_all add: staged_ok_def)
  show ?thesis
  proof (cases "cr_state r = Validated \<and> cr_promotion_requested r")
    case True
    then show ?thesis using promote_exact [OF j rows assms(3) _ _ assms(4), of now] by auto
  next
    case False
    then show ?thesis using assms(3) by (auto simp: atomic_promote_consolidation_run_def transact_def promote_tx_def)
  qed
qed

theorem promotion_exact_witness:
  "\<exists>d'. atomic_promote_consolidation_run rev ''run'' 9 (demo_db (demo_run\<lparr>cr_state := Validated, cr_validation_result := Some ''ok''\<rparr>))
      = (Inr PromotionCommitted, d')
    \<and> map m_status (cd_chunks d') = [Superseded, Final]"
proof -
  let ?r = "demo_run\<lparr>cr_state := Validated, cr_validation_result := Some ''ok''\<rparr>"
  have g: "get_consolidation_run ''run'' (demo_db ?r) = Some ?r"
    by (simp add: get_consolidation_run_def demo_db_def run_is_def demo_run_def)
  have p: "promotable ?r 9 (demo_db ?r)"
    by (simp add: promotable_def demo_db_def demo_run_def demo_entry_def demo_edge_def demo_rows_def demo_meta_def candidate_ids_def
        staged_row_def source_row_def key_is_def final_head_def edge_of_def default_lifecycle_def)
  have a: "atomic_promote_consolidation_run rev ''run'' 9 (demo_db ?r) = (Inr PromotionCommitted, committed_db ''run'' 9 (demo_db ?r))"
    using promotion_exact [OF demo_rows_ok demo_moves g, of rev 9] p by (simp add: demo_run_def)
  have c: "candidate_ids ''run'' (demo_db ?r) = {''cand''}"
    by (auto simp: candidate_ids_def demo_db_def demo_entry_def)
  have l: "new_links ''run'' (demo_db ?r) ''src'' = Some ''cand''" by (simp add: new_links_def demo_db_def demo_edge_def)
  have b: "map m_status (cd_chunks (committed_db ''run'' 9 (demo_db ?r))) = [Superseded, Final]"
    unfolding moved_chunks c demo_db_chunks list.map promotion_row_def demo_meta_sel linked_row_def l option.case
    by (simp add: promotion_status)
  show ?thesis by (intro exI conjI) (rule a, rule b)
qed

text \<open>
  Planning is idempotent: while a run for an input is active, every further valid plan for
  the same tenant, project and input returns that run and leaves the journal as it is.
\<close>

lemma plan_returns_active_run:
  assumes "db_ok rows" and "journal_step\<^sup>*\<^sup>* (empty_journal rows) d" and "r \<in> set (cd_runs d)" and "is_active r"
    and "cr_tenant_id run = cr_tenant_id r" and "cr_project_id run = cr_project_id r" and "cr_input_hash run = cr_input_hash r"
    and "validate_consolidation_plan run es ls = Inr ()"
  shows "begin_consolidation_run run es ls d = (Inr r, d)"
proof -
  have j: "journal_ok d" using steps_ok [OF assms(2) empty_ok [OF assms(1)]] by (simp add: staged_ok_def)
  have "cr_state run = Planned" using assms(8) by (auto simp: validate_consolidation_plan_def split: if_splits)
  then have act: "is_active run" by (simp add: is_active_def)
  have key: "input_key r = input_key run" using assms(5-7) by (simp add: input_key_def)
  have "run_conflicts run (cd_runs d)" using assms(3,4) act key by (auto simp: run_conflicts_def)
  moreover have "find_consolidation_run_by_input (cr_tenant_id run) (cr_project_id run) (cr_input_hash run) d = Some r"
  proof -
    let ?p = "\<lambda>x. cr_tenant_id x = cr_tenant_id run \<and> cr_project_id x = cr_project_id run \<and> cr_input_hash x = cr_input_hash run \<and> is_active x"
    obtain x where x: "find ?p (cd_runs d) = Some x" using assms(3-7) by (cases "find ?p (cd_runs d)") (auto simp: find_None_iff)
    have f: "x \<in> set (cd_runs d)" "?p x" using find_SomeD [OF x] by blast+
    then have "x = r" using key by (intro active_unique [OF j f(1) assms(3) _ assms(4)]) (simp_all add: input_key_def)
    then show ?thesis using x by (simp add: find_consolidation_run_by_input_def)
  qed
  ultimately show ?thesis by (simp add: begin_consolidation_run_def assms(8) transact_def)
qed

lemma plan_returns_active_run_witness:
  "begin_consolidation_run (demo_run\<lparr>cr_run_id := ''new''\<rparr>) [demo_entry\<lparr>ce_run_id := ''new''\<rparr>] [demo_edge\<lparr>ml_run_id := ''new''\<rparr>]
     (demo_db demo_run) = (Inr demo_run, demo_db demo_run)"
proof -
  have v: "validate_consolidation_plan (demo_run\<lparr>cr_run_id := ''new''\<rparr>) [demo_entry\<lparr>ce_run_id := ''new''\<rparr>] [demo_edge\<lparr>ml_run_id := ''new''\<rparr>] = Inr ()"
    by code_simp
  show ?thesis
    by (rule plan_returns_active_run [OF demo_rows_ok demo_reached _ _ _ _ _ v])
      (simp_all add: demo_db_def demo_run_def is_active_def)
qed

text \<open>
  C13. Recovery is all or nothing: whatever run recovery works on, whether it succeeds or fails,
  afterwards either the run is committed on request and the chunk table is exactly the promoted
  one, or the run is not committed and at most its candidates were hidden. No other run changes,
  and the database still satisfies the invariant of the journal.
\<close>

theorem recovery_all_or_nothing:
  assumes "db_ok rows" and "journal_step\<^sup>*\<^sup>* (empty_journal rows) d" and "r \<in> set (cd_runs d)" and "\<not> is_terminal (cr_state r)"
    and "\<And>xs. mset (env_hash_order V xs) = mset xs"
  shows "\<exists>res d' r'. recover_one_run V clk r d = (res, d') \<and> get_consolidation_run (cr_run_id r) d' = Some r' \<and> staged_ok d'
    \<and> {x \<in> set (cd_runs d'). cr_run_id x \<noteq> cr_run_id r} = {x \<in> set (cd_runs d). cr_run_id x \<noteq> cr_run_id r}
    \<and> (if cr_state r' = Committed
       then cr_promotion_requested r' \<and> (\<exists>t. cd_chunks d' =
              map (promotion_row (candidate_ids (cr_run_id r) d) (new_links (cr_run_id r) d) t) (cd_chunks d))
       else cd_chunks d' = cd_chunks d
         \<or> is_terminal (cr_state r') \<and> (\<exists>t. cd_chunks d' = map (hide_row (candidate_ids (cr_run_id r) d) t) (cd_chunks d)))"
proof -
  have ok: "staged_ok d" using steps_ok [OF assms(2) empty_ok [OF assms(1)]] .
  then have j: "journal_ok d" by (simp add: staged_ok_def)
  have g: "get_consolidation_run (cr_run_id r) d = Some r" using assms(3) by (simp add: get_run [OF j])
  have "\<exists>res d' r'. recover_one_run V clk r d = (res, d') \<and> recovered (cr_run_id r) d d' r'"
    using one_recovered [OF ok g assms(4) refl assms(5)] by blast
  then show ?thesis unfolding recovered_def all_or_nothing_def others_same_def by blast
qed

theorem recovery_all_or_nothing_witness:
  "\<exists>res d'. recover_one_run run_env (\<lambda>n. 7) demo_run (demo_db demo_run) = (res, d') \<and> staged_ok d'"
proof -
  have r: "demo_run \<in> set (cd_runs (demo_db demo_run))" "\<not> is_terminal (cr_state demo_run)"
    by (simp_all add: demo_db_def demo_run_def is_terminal_def)
  have "mset (env_hash_order run_env xs) = mset xs" for xs by (simp add: run_env_def)
  from recovery_all_or_nothing [OF demo_rows_ok demo_reached r this, of "\<lambda>n. 7"] show ?thesis by blast
qed

text \<open>
  C15. Recovery makes progress: when chunks can be read, the audit files exist and the limit and
  the cutoff cover all runs, one recovery pass succeeds, looks at every run that needed
  recovery, and afterwards every run is terminal, waits validated for a review, or is marked
  for a retry after a failed promotion.
\<close>

theorem recovery_settles_runs:
  assumes "db_ok rows" and "journal_step\<^sup>*\<^sup>* (empty_journal rows) d" and "\<And>xs. mset (env_hash_order V xs) = mset xs"
    and "reads_ok V" and "\<forall>r \<in> set (cd_runs d). audit_there V r"
    and "length (cd_runs d) \<le> limit" and "\<forall>r \<in> set (cd_runs d). sint (cr_updated_at_ms r) \<le> sint cutoff"
  shows "\<exists>rc d'. recover_consolidation_runs_before V False t0 tc clk limit cutoff d = (Inr rc, d')
    \<and> rc_inspected rc = card {r \<in> set (cd_runs d). recoverable_run r}
    \<and> (\<forall>r \<in> set (cd_runs d'). is_terminal (cr_state r) \<or> cr_state r = FailedRecoverable
         \<or> cr_state r = Validated \<and> \<not> cr_promotion_requested r)"
proof -
  have ok: "staged_ok d" using steps_ok [OF assms(2) empty_ok [OF assms(1)]] .
  let ?d = "finish_pending_sparse_cleanup V tc limit (snd (hide_terminal_consolidation_candidates t0 d))"
  have u: "uncommitted_same d ?d" using prepass_uncommitted [OF ok] .
  then have ok1: "staged_ok ?d" and j: "journal_ok ?d" by (simp_all add: uncommitted_same_def staged_ok_def)
  have same: "r \<in> set (cd_runs ?d) \<longleftrightarrow> r \<in> set (cd_runs d)" if "cr_state r \<noteq> Committed" for r
    using u that unfolding uncommitted_same_def by blast
  have rec: "cr_state r \<noteq> Committed" if "recoverable_run r" for r using that by (auto simp: recoverable_run_def)
  let ?p = "\<lambda>r. recoverable_run r \<and> sint (cr_updated_at_ms r) \<le> sint cutoff"
  let ?runs = "list_recoverable_consolidation_runs_before limit cutoff ?d"
  have len: "length (filter ?p (cd_runs ?d)) \<le> limit"
    using u assms(6) length_filter_le [of ?p "cd_runs ?d"] by (simp add: uncommitted_same_def)
  then have runs: "?runs = sort_by run_order (filter ?p (cd_runs ?d))"
    by (simp add: list_recoverable_consolidation_runs_before_def)
  have set: "set ?runs = {r \<in> set (cd_runs d). recoverable_run r}"
    unfolding runs set_sort_by set_filter using assms(7) same rec by blast
  have dist: "distinct (map cr_run_id ?runs)"
    using j unfolding runs journal_ok_def keys_ok_def distinct_map by (auto intro: inj_on_subset)
  have n: "length ?runs = card {r \<in> set (cd_runs d). recoverable_run r}"
    using distinct_card [of ?runs] dist unfolding set by (simp add: distinct_map)
  have pend: "\<forall>run \<in> set ?runs. pending_run V ?d run"
  proof
    fix run assume "run \<in> set ?runs"
    then have run: "run \<in> set (cd_runs d)" "recoverable_run run" unfolding set by simp_all
    then have "get_consolidation_run (cr_run_id run) ?d = Some run" using same rec by (simp add: get_run [OF j])
    moreover have "\<not> is_terminal (cr_state run)" using run(2) by (auto simp: recoverable_run_def is_terminal_def)
    ultimately show "pending_run V ?d run" using assms(5) run(1) by (simp add: pending_run_def)
  qed
  have rest: "\<forall>r \<in> set (cd_runs ?d). cr_run_id r \<notin> cr_run_id ` set ?runs \<longrightarrow> settled_run r"
  proof (intro ballI impI)
    fix r assume r: "r \<in> set (cd_runs ?d)" "cr_run_id r \<notin> cr_run_id ` set ?runs"
    then have "\<not> recoverable_run r" using same rec unfolding set by blast
    then show "settled_run r" by (cases "cr_state r") (auto simp: recoverable_run_def settled_run_def is_terminal_def)
  qed
  from runs_settle [OF ok1 dist pend rest assms(3,4), of clk no_recovery] obtain rc d' where
    "recover_runs V clk ?runs no_recovery ?d = (Inr rc, d')" "\<forall>r \<in> set (cd_runs d'). settled_run r"
    "rc_inspected rc = rc_inspected no_recovery + length ?runs" by blast
  then show ?thesis using n
    by (intro exI [of _ rc] exI [of _ d']) (simp add: recover_consolidation_runs_before_def settled_run_def no_recovery_def)
qed

theorem recovery_settles_runs_witness:
  "\<exists>rc d'. recover_consolidation_runs_before run_env False 7 (\<lambda>n. 7) (\<lambda>n k. 7) 100 9 (demo_db demo_run) = (Inr rc, d')
    \<and> rc_inspected rc = 1"
proof -
  have o: "mset (env_hash_order run_env xs) = mset xs" for xs by (simp add: run_env_def)
  have reads: "reads_ok run_env" by (simp add: reads_ok_def run_env_def)
  have aud: "\<forall>r \<in> set (cd_runs (demo_db demo_run)). audit_there run_env r"
    and lim: "length (cd_runs (demo_db demo_run)) \<le> 100"
    and cut: "\<forall>r \<in> set (cd_runs (demo_db demo_run)). sint (cr_updated_at_ms r) \<le> sint (9 :: i64)"
    by (simp_all add: demo_db_def audit_there_def run_env_def demo_run_def)
  have "{r \<in> set (cd_runs (demo_db demo_run)). recoverable_run r} = {demo_run}"
    by (auto simp: demo_db_def recoverable_run_def demo_run_def)
  then show ?thesis
    using recovery_settles_runs [OF demo_rows_ok demo_reached o reads aud lim cut, of 7 "\<lambda>n. 7" "\<lambda>n k. 7"] by auto
qed

end
