(* ===== verification/Segment_Reuse.thy ===== *)
theory Segment_Reuse
  imports Tenant_Instance
begin

text \<open>
  Segment ids that are used again. \<open>next_segment_id\<close> is one past the largest segment that
  exists, so once a rewrite has removed the top segment its id is given out again, while the
  soft-deleted rows of the removed segment keep its coordinates in the table. The lemmas
  follow a rewrite that only removes a segment, the delete of a chunk and a second rewrite.
\<close>

section \<open>Segments the rewrite leaves alone\<close>

text \<open>A segment is intact when the table has a live row for each of its chunks and none is tombstoned.\<close>

definition intact :: "'b store_ext \<Rightarrow> string \<Rightarrow> 'b tenant_store \<Rightarrow> nat \<Rightarrow> bool" where
  "intact E tid st sid \<longleftrightarrow>
     (\<forall>r. map_of (segments st) sid = Some r \<longrightarrow>
        card {m \<in> live_rows tid (db st). m_segment_id m = sid} = unat (chunk_count r)
        \<and> active_count (seg_x E) r = chunk_count r)"

abbreviation live_list :: "string \<Rightarrow> nat \<Rightarrow> chunk_metadata list \<Rightarrow> chunk_metadata list" where
  "live_list tid sid rows \<equiv> filter (\<lambda>m. m_status m \<noteq> Deleted) (get_by_segment tid sid rows)"

abbreviation drop_segment :: "nat \<Rightarrow> 'b tenant_store \<Rightarrow> 'b tenant_store" where
  "drop_segment sid st \<equiv> st\<lparr>segments := AList.delete sid (segments st), seg_dirs := AList.delete sid (seg_dirs st)\<rparr>"

lemma live_list_length:
  assumes "db_ok rows"
  shows "length (live_list tid sid rows) = card {m \<in> live_rows tid rows. m_segment_id m = sid}"
proof -
  note live = live_of_segment [OF assms, of tid sid]
  from live(2) have "distinct (live_list tid sid rows)" by (simp add: distinct_map)
  then show ?thesis using live(1) by (metis distinct_card)
qed

lemma rewrite_segment_intact:
  assumes "db_ok (db st)" and "intact E tid st sid"
  shows "rewrite_segment E tid now sid (nid, res, st) = Inr (nid, res, st)"
  using assms by (cases "map_of (segments st) sid")
    (simp_all add: rewrite_segment_def intact_def live_list_length [OF assms(1)] Let_def)

lemma rewrite_segments_intact:
  assumes "db_ok (db st)" and "\<forall>sid \<in> set sids. intact E tid st sid"
  shows "rewrite_segments E tid now sids (nid, res, st) = Inr (nid, res, st)"
  using assms(2) by (induction sids) (simp_all add: rewrite_segment_intact [OF assms(1)])

lemma rewrite_segments_append:
  "rewrite_segments E tid now (xs @ ys) s =
     (case rewrite_segments E tid now xs s of Inl e \<Rightarrow> Inl e | Inr s' \<Rightarrow> rewrite_segments E tid now ys s')"
  by (induction xs arbitrary: s) (simp_all split: sum.split)

lemma rewrite_segment_dead:
  assumes "db_ok (db st)" and "map_of (segments st) sid = Some r" and "chunk_count r \<noteq> 0"
    and "\<forall>m \<in> live_rows tid (db st). m_segment_id m \<noteq> sid"
  shows "\<exists>res'. rewrite_segment E tid now sid (nid, res, st) = Inr (nid, res', drop_segment sid st)
      \<and> segments_removed res' = segments_removed res + 1"
proof -
  have "{m \<in> live_rows tid (db st). m_segment_id m = sid} = {}" using assms(4) by blast
  with live_list_length [OF assms(1), of tid sid] have "live_list tid sid (db st) = []"
    by (metis card.empty length_0_conv)
  moreover have "unat (chunk_count r) \<noteq> 0" using assms(3) by (simp add: unat_eq_zero)
  ultimately show ?thesis using assms(2) by (auto simp: rewrite_segment_def Let_def)
qed

text \<open>What a step of the loop does: nothing, remove the segment, or move its live chunks.\<close>

lemma rewrite_segment_cases:
  obtains (skip) "rewrite_segment E tid now sid (nid, res, st) = Inr (nid, res, st)"
      "\<And>r. map_of (segments st) sid = Some r \<Longrightarrow> length (live_list tid sid (db st)) = unat (chunk_count r)"
    | (dead) res' where "rewrite_segment E tid now sid (nid, res, st) = Inr (nid, res', drop_segment sid st)"
      "live_list tid sid (db st) = []"
    | (move) r where "map_of (segments st) sid = Some r" "live_list tid sid (db st) \<noteq> []"
      "\<not> (length (live_list tid sid (db st)) = unat (chunk_count r)
          \<and> unat (active_count (seg_x E) r) = unat (chunk_count r))"
proof (cases "map_of (segments st) sid")
  case None
  then show ?thesis by (intro skip) (simp_all add: rewrite_segment_def)
next
  case (Some r)
  consider (clean) "length (live_list tid sid (db st)) = unat (chunk_count r)"
      "unat (active_count (seg_x E) r) = unat (chunk_count r)"
    | (none) "live_list tid sid (db st) = []" "\<not> (length (live_list tid sid (db st)) = unat (chunk_count r)
          \<and> unat (active_count (seg_x E) r) = unat (chunk_count r))"
    | (some) "live_list tid sid (db st) \<noteq> []" "\<not> (length (live_list tid sid (db st)) = unat (chunk_count r)
          \<and> unat (active_count (seg_x E) r) = unat (chunk_count r))"
    by blast
  then show ?thesis
  proof cases
    case clean
    with Some show ?thesis by (intro skip) (simp_all add: rewrite_segment_def)
  next
    case none
    with Some have "\<exists>res'. rewrite_segment E tid now sid (nid, res, st) = Inr (nid, res', drop_segment sid st)"
      by (auto simp: rewrite_segment_def Let_def)
    with none(1) dead show ?thesis by blast
  next
    case some
    with Some move show ?thesis by blast
  qed
qed

text \<open>When every segment but one is intact and that one has no live chunk, the loop removes just that one.\<close>

lemma rewrite_removes_dead:
  assumes ok: "db_ok (db st)" and dead: "map_of (segments st) highest = Some r" "chunk_count r \<noteq> 0"
    "\<forall>m \<in> live_rows tid (db st). m_segment_id m \<noteq> highest"
    and rest: "\<forall>sid. sid \<noteq> highest \<longrightarrow> intact E tid st sid" and sids: "distinct sids" "highest \<in> set sids"
  shows "\<exists>res'. rewrite_segments E tid now sids (nid, res, st) = Inr (nid, res', drop_segment highest st)
      \<and> segments_removed res' = segments_removed res + 1"
proof -
  obtain xs ys where split: "sids = xs @ highest # ys" using sids(2) by (meson split_list)
  then have "highest \<notin> set xs" "highest \<notin> set ys" using sids(1) by auto
  then have xs: "rewrite_segments E tid now xs (nid, res, st) = Inr (nid, res, st)"
    using rest by (intro rewrite_segments_intact [OF ok]) metis
  have "intact E tid (drop_segment highest st) sid" if "sid \<noteq> highest" for sid
    using rest that by (simp add: intact_def delete_conv')
  then have ys: "rewrite_segments E tid now ys (nid, res', drop_segment highest st) =
      Inr (nid, res', drop_segment highest st)" for res'
    using ok \<open>highest \<notin> set ys\<close> by (intro rewrite_segments_intact) (simp, metis)
  obtain res' where "rewrite_segment E tid now highest (nid, res, st) = Inr (nid, res', drop_segment highest st)"
    "segments_removed res' = segments_removed res + 1"
    using rewrite_segment_dead [OF ok dead] by blast
  with xs ys show ?thesis by (simp add: split rewrite_segments_append)
qed

section \<open>A row in the way\<close>

text \<open>A deleted row that holds the first coordinates of the next new segment.\<close>

definition squatter :: "string \<Rightarrow> nat \<Rightarrow> chunk_metadata list \<Rightarrow> bool" where
  "squatter tid nid rows \<longleftrightarrow>
     (\<exists>q \<in> set rows. m_tenant_id q = tid \<and> m_status q = Deleted \<and> m_segment_id q = nid \<and> m_ordinal q = 0)"

lemma squatter_blocks_moves:
  assumes "squatter tid nid rows" and "set live \<subseteq> live_rows tid rows" and "live \<noteq> []"
  shows "update_chunk_locations tid (moves nid live) rows = Inl (DatabaseError ''UNIQUE constraint failed'')"
proof -
  obtain m ms where live: "live = m # ms" using assms(3) by (cases live) auto
  have "is_live tid (m_chunk_id m) m" "m \<in> set rows" using assms(2) live by (auto simp: live_rows_def is_live_def)
  then have "filter (is_live tid (m_chunk_id m)) rows \<noteq> []" by (auto simp: filter_empty_conv)
  then have "update_location tid (m_chunk_id m, nid, 0) rows = Inl (DatabaseError ''UNIQUE constraint failed'')"
    using assms(1) by (auto simp: update_location_def squatter_def is_live_def)
  moreover have "moves nid live = (m_chunk_id m, nid, 0) # tl (moves nid live)"
    by (simp add: moves_def live upt_rec [of 0])
  ultimately have "update_locations tid (moves nid live) rows = Inl (DatabaseError ''UNIQUE constraint failed'')"
    by (metis old.sum.simps(5) update_locations.simps(2))
  moreover have "moves nid live \<noteq> []" by (simp add: moves_def live)
  ultimately show ?thesis by (simp add: update_chunk_locations_def)
qed

context tenant_env
begin

text \<open>The first segment that has to move chunks makes the whole rewrite fail.\<close>

lemma rewrite_segments_blocked:
  assumes "rewrite_base E cfg pl k rs (length sids) nid st" and "squatter (cfg_tenant_id cfg) nid (db st)"
    and "distinct sids" and "old \<in> set sids" and "map_of (segments st) old = Some r"
    and "card {m \<in> live_rows (cfg_tenant_id cfg) (db st). m_segment_id m = old} \<notin> {0, unat (chunk_count r)}"
  shows "rewrite_segments E (cfg_tenant_id cfg) now sids (nid, res, st) =
           Inl (DatabaseError ''UNIQUE constraint failed'')"
  using assms
proof (induction sids arbitrary: res st)
  case (Cons sid sids)
  let ?T = "cfg_tenant_id cfg" and ?live = "live_list (cfg_tenant_id cfg) sid (db st)"
  have base: "rewrite_base E cfg pl k rs (Suc (length sids)) nid st" using Cons.prems(1) by simp
  have ok: "db_ok (db st)" using base by (simp add: rewrite_base_def serving_def recoverable_def)
  note live = live_of_segment(1) [OF ok, of ?T sid]
  have self: "length (live_list ?T old (db st)) \<notin> {0, unat (chunk_count r)}"
    using Cons.prems(6) live_list_length [OF ok, of ?T old] by simp
  show ?case
  proof (cases rule: rewrite_segment_cases [of E ?T now sid nid res st])
    case skip
    have "sid \<noteq> old" using skip(2) [of r] self Cons.prems(5) by auto
    then have "old \<in> set sids" "distinct sids" using Cons.prems(3,4) by auto
    from Cons.IH [OF rewrite_base_mono [OF base] Cons.prems(2) this(2,1) Cons.prems(5,6), of res]
    show ?thesis using skip(1) by simp
  next
    case (dead res')
    have ne: "sid \<noteq> old" using dead(2) self by auto
    have "\<forall>m \<in> live_rows ?T (db st). m_segment_id m \<noteq> sid" using live dead(2) by auto
    from rewrite_drop_ok [OF base this] have "rewrite_base E cfg pl k rs (length sids) nid (drop_segment sid st)" .
    moreover have "map_of (segments (drop_segment sid st)) old = Some r"
      using Cons.prems(5) ne by (simp add: delete_conv')
    ultimately show ?thesis
      using Cons.IH [of "drop_segment sid st" res'] Cons.prems(2,3,4,6) dead(1) ne by simp
  next
    case (move r')
    obtain w r'' where copy:
      "collect_payloads (seg_x E) r' ?live = Inr (map (\<lambda>m. (m_chunk_id m, pl (m_chunk_id m))) ?live)"
      "copy_payloads (seg_x E) nid (map (\<lambda>m. (m_chunk_id m, pl (m_chunk_id m))) ?live)
         (segment_create (map_of (seg_dirs st) nid) nid now) = (moves nid ?live, w)"
      "reader_open (seg_x E) (dir_name nid) (snd (finalize (seg_x E) w)) = Inr r''"
      by (rule rewrite_copy_ok [OF base move(1), of now]; (rule that)?; assumption?)
    have "update_chunk_locations ?T (moves nid ?live) (db st) = Inl (DatabaseError ''UNIQUE constraint failed'')"
      using live by (intro squatter_blocks_moves [OF Cons.prems(2) _ move(2)]) auto
    with move copy have "rewrite_segment E ?T now sid (nid, res, st) = Inl (DatabaseError ''UNIQUE constraint failed'')"
      unfolding rewrite_segment_def by (simp only: Let_def split_conv option.case sum.case if_False)
    then show ?thesis by simp
  qed
qed simp

end

section \<open>Rewrite, delete, rewrite\<close>

lemma finalize_sealed: "active_segment st = None \<Longrightarrow> finalize_active_segment E cfg st = Inr st"
  by (simp add: finalize_active_segment_def)

lemma tombstone_reader:
  assumes "map_of (segments st) sid = Some r"
  shows "\<exists>r'. map_of (segments (tombstone_segment E sid i st)) sid = Some r' \<and> chunk_count r' = chunk_count r"
  using assms by (simp add: tombstone_segment_def Let_def update_conv' reader_mark_deleted_def chunk_count_def)

lemma next_id_after_drop:
  assumes "struct_ok E cfg st k" and "struct_ok E cfg (drop_segment highest st) k'"
    and "next_segment_id st = Suc highest" and "highest - 1 \<in> dom (map_of (seg_dirs st))"
    and "other \<in> dom (map_of (seg_dirs st))" and "other \<noteq> highest"
  shows "next_segment_id (drop_segment highest st) = highest"
proof -
  let ?D = "dom (map_of (seg_dirs st))"
  have "?D \<noteq> {}" using assms(5) by blast
  then have max: "Max ?D = highest" using next_segment_id_dirs [OF assms(1)] assms(3) by (simp only: if_False)
  then have le: "x \<le> highest" if "x \<in> ?D" for x using Max_ge [OF finite_dirs that] by simp
  then have pos: "0 < highest" using assms(5,6) by fastforce
  have dom: "dom (map_of (seg_dirs (drop_segment highest st))) = ?D - {highest}" by (auto simp: delete_conv')
  have "Max (?D - {highest}) = highest - 1"
  proof (rule Max_eqI)
    show "finite (?D - {highest})" using finite_dirs by simp
    show "highest - 1 \<in> ?D - {highest}" using assms(4) pos by simp
    show "x \<le> highest - 1" if "x \<in> ?D - {highest}" for x using le [of x] that by fastforce
  qed
  moreover have "?D - {highest} \<noteq> {}" using assms(5,6) by blast
  ultimately show ?thesis using next_segment_id_dirs [OF assms(2)] pos unfolding dom by (simp only: if_False)
qed

context tenant_log
begin

text \<open>Deleting one of the chunks of an intact segment leaves a segment the rewrite has to move.\<close>

lemma delete_breaks_segment:
  assumes serv: "serving E cfg pl (Suc k) rs st" and act: "active_segment st = None"
    and m: "m \<in> live_rows (cfg_tenant_id cfg) (db st)" "m2 \<in> live_rows (cfg_tenant_id cfg) (db st)"
      "m_segment_id m2 = m_segment_id m" "m_chunk_id m2 \<noteq> m_chunk_id m"
    and r: "map_of (segments st) (m_segment_id m) = Some r" and intact: "intact E (cfg_tenant_id cfg) st (m_segment_id m)"
    and uuid: "uuid_parse E (m_chunk_id m) = Some (m_chunk_id m)"
    and fits: "wal_fits (wal_x E) (delete_record (cfg_tenant_id cfg) (m_chunk_id m) now)"
  shows "\<exists>st' rs' r'. delete_chunk E cfg now (m_chunk_id m) st = Inr (True, st') \<and> serving E cfg pl k rs' st'
      \<and> length (after_last_checkpoint rs') \<le> Suc (length (after_last_checkpoint rs))
      \<and> active_segment st' = None \<and> dom (map_of (seg_dirs st')) = dom (map_of (seg_dirs st))
      \<and> db st' = meta_mark_deleted (cfg_tenant_id cfg) (m_chunk_id m) (db st)
      \<and> map_of (segments st') (m_segment_id m) = Some r'
      \<and> card {q \<in> live_rows (cfg_tenant_id cfg) (db st'). m_segment_id q = m_segment_id m} \<notin> {0, unat (chunk_count r')}"
proof -
  let ?T = "cfg_tenant_id cfg" and ?cid = "m_chunk_id m" and ?sid = "m_segment_id m"
  have ok: "db_ok (db st)" and struct: "struct_ok E cfg st (length (after_last_checkpoint rs) + Suc k)"
    using serv by (simp_all add: serving_def recoverable_def)
  have get: "meta_get (db st) ?T ?cid = Some m" using meta_get_Some [OF ok] m(1) by simp
  define s where "s = st\<lparr>wal := append_delete (wal_x E) ?T ?cid now (wal st), db := meta_mark_deleted ?T ?cid (db st)\<rparr>"
  define st' where "st' = tombstone_segment E ?sid (m_ordinal m) s"
  have del: "delete_chunk E cfg now ?cid st = Inr (True, st')"
    using get meta_get_live [OF get] writable by (simp add: delete_chunk_def st'_def s_def)
  then obtain rs' where rs': "serving E cfg pl k rs' st'"
    "length (after_last_checkpoint rs') \<le> Suc (length (after_last_checkpoint rs))"
    using delete_chunk_ok [OF serv uuid fits] by force
  obtain r' where r': "map_of (segments st') ?sid = Some r'" "chunk_count r' = chunk_count r"
    using tombstone_reader [of s ?sid r] r by (auto simp: st'_def s_def)
  have db': "db st' = meta_mark_deleted ?T ?cid (db st)" by (simp add: st'_def s_def)
  have dirs: "dom (map_of (seg_dirs st')) = dom (map_of (seg_dirs st))"
    using struct r unfolding st'_def s_def tombstone_segment_def
    by (auto simp: Let_def update_conv' struct_ok_def readers_ok_def reader_ok_def split: option.split)
  let ?S = "{q \<in> live_rows ?T (db st). m_segment_id q = ?sid}"
  have "q = m" if "q \<in> live_rows ?T (db st)" "m_chunk_id q = ?cid" for q
    using meta_get_Some [OF ok, of ?T ?cid q] that get by simp
  then have rest: "{q \<in> live_rows ?T (db st'). m_segment_id q = ?sid} = ?S - {m}"
    unfolding db' live_rows_mark by blast
  have fin: "finite ?S" and mem: "m \<in> ?S" "m2 \<in> ?S - {m}" using m by (auto simp: live_rows_def)
  then have "card (?S - {m}) \<noteq> 0" by (metis (no_types, lifting) card_0_eq empty_iff finite_Diff)
  moreover have "card (?S - {m}) < card ?S" by (rule card_Diff1_less [OF fin mem(1)])
  moreover have "card ?S = unat (chunk_count r)" using intact r by (simp add: intact_def)
  ultimately have "card {q \<in> live_rows ?T (db st'). m_segment_id q = ?sid} \<notin> {0, unat (chunk_count r')}"
    unfolding rest using r'(2) by simp
  moreover have "active_segment st' = None" using act by (simp add: st'_def s_def)
  ultimately show ?thesis using del rs' r'(1) dirs db' by blast
qed

lemma rewrite_blocked:
  assumes serv: "serving E cfg pl 0 rs st" and act: "active_segment st = None"
    and bound: "next_segment_id st + card (dom (map_of (seg_dirs st))) + length (after_last_checkpoint rs) < 2 ^ 64"
    and squat: "squatter (cfg_tenant_id cfg) (next_segment_id st) (db st)"
    and old: "map_of (segments st) old = Some r"
      "card {m \<in> live_rows (cfg_tenant_id cfg) (db st). m_segment_id m = old} \<notin> {0, unat (chunk_count r)}"
  shows "rewrite_finalized_segments E cfg (cfg_tenant_id cfg) now st = Inl (DatabaseError ''UNIQUE constraint failed'')"
proof -
  let ?sids = "sorted_list_of_set (fst ` set (segments st))" and ?D = "dom (map_of (seg_dirs st))"
  have struct: "struct_ok E cfg st (length (after_last_checkpoint rs))"
    using serv by (simp add: serving_def recoverable_def)
  have "dom (map_of (segments st)) \<subseteq> ?D"
    using struct by (auto simp: struct_ok_def readers_ok_def reader_ok_def)
  then have "length ?sids \<le> card ?D"
    by (simp add: dom_map_of_conv_image_fst card_mono)
  moreover have "sid < next_segment_id st" if "sid \<in> ?D" for sid
    using Max_ge [OF finite_dirs that] that next_segment_id_dirs [OF struct] by auto
  ultimately have "rewrite_base E cfg pl 0 rs (length ?sids) (next_segment_id st) st"
    using serv act bound by (simp add: rewrite_base_def)
  moreover have "old \<in> set ?sids" using map_of_SomeD [OF old(1)] by force
  ultimately have "rewrite_segments E (cfg_tenant_id cfg) now ?sids (next_segment_id st, no_rewrite, st) =
      Inl (DatabaseError ''UNIQUE constraint failed'')"
    by (intro rewrite_segments_blocked [OF _ squat _ _ old]) simp_all
  then show ?thesis using writable by (simp add: rewrite_finalized_segments_def finalize_sealed [OF act])
qed

text \<open>The first rewrite removes the top segment, and its id is the next one to be given out.\<close>

lemma rewrite_frees_id:
  assumes serv: "serving E cfg pl (Suc (Suc (card (dom (map_of (seg_dirs st)))))) rs st" and act: "active_segment st = None"
    and top: "next_segment_id st = Suc highest" "highest - 1 \<in> dom (map_of (seg_dirs st))"
      "map_of (segments st) highest = Some r" "chunk_count r \<noteq> 0"
      "\<forall>m \<in> live_rows (cfg_tenant_id cfg) (db st). m_segment_id m \<noteq> highest"
    and rest: "\<forall>sid. sid \<noteq> highest \<longrightarrow> intact E (cfg_tenant_id cfg) st sid"
    and m: "m \<in> live_rows (cfg_tenant_id cfg) (db st)"
  shows "\<exists>res. rewrite_finalized_segments E cfg (cfg_tenant_id cfg) now st = Inr (res, drop_segment highest st)
      \<and> segments_removed res = 1 \<and> serving E cfg pl 1 rs (drop_segment highest st)
      \<and> next_segment_id (drop_segment highest st) = highest
      \<and> highest + (length (after_last_checkpoint rs) + Suc (Suc (card (dom (map_of (seg_dirs st)))))) < 2 ^ 64"
proof -
  let ?D = "dom (map_of (seg_dirs st))" and ?tail = "after_last_checkpoint rs"
  have ok: "db_ok (db st)" and struct: "struct_ok E cfg st (length ?tail + Suc (Suc (card ?D)))"
    and row: "row_ok E pl [] st m"
    using serv m by (auto simp: serving_def recoverable_def)
  have high: "highest \<in> ?D" and len: "highest + (length ?tail + Suc (Suc (card ?D))) < 2 ^ 64"
    using struct top(3) by (auto simp: struct_ok_def readers_ok_def reader_ok_def room_def)
  have card: "0 < card ?D" using high finite_dirs by (metis card_gt_0_iff empty_iff)
  have below: "sid < Suc highest" if "sid \<in> ?D" for sid
    using Max_ge [OF finite_dirs that] that next_segment_id_dirs [OF struct] top(1) by auto
  have "rewrite_base E cfg pl 1 rs 1 (Suc highest) st"
    using serving_mono [OF serv, of 1] act below len card by (simp add: rewrite_base_def)
  then have "rewrite_base E cfg pl 1 rs 0 (Suc highest) (drop_segment highest st)"
    using rewrite_drop_ok [OF _ top(5)] by simp
  then have serv1: "serving E cfg pl 1 rs (drop_segment highest st)" by (simp add: rewrite_base_def)
  have "highest \<in> set (sorted_list_of_set (fst ` set (segments st)))" using map_of_SomeD [OF top(3)] by force
  then obtain res where "rewrite_finalized_segments E cfg (cfg_tenant_id cfg) now st = Inr (res, drop_segment highest st)"
    "segments_removed res = 1"
    using rewrite_removes_dead [OF ok top(3,4,5) rest, of "sorted_list_of_set (fst ` set (segments st))" now
        "next_segment_id st" no_rewrite] writable
    by (auto simp: rewrite_finalized_segments_def finalize_sealed [OF act] no_rewrite_def)
  moreover have seg: "m_segment_id m \<in> ?D" "m_segment_id m \<noteq> highest" using row top(5) m by (auto simp: row_ok_def)
  moreover have "struct_ok E cfg (drop_segment highest st) (length ?tail + 1)"
    using serv1 by (simp add: serving_def recoverable_def)
  note next_id_after_drop [OF struct this top(1,2) seg]
  ultimately show ?thesis using serv1 len by blast
qed

text \<open>The three steps together.\<close>

lemma rewrite_delete_rewrite:
  assumes serv: "serving E cfg pl (Suc (Suc (card (dom (map_of (seg_dirs st)))))) rs st" and act: "active_segment st = None"
    and top: "next_segment_id st = Suc highest" "highest - 1 \<in> dom (map_of (seg_dirs st))"
      "map_of (segments st) highest = Some r" "chunk_count r \<noteq> 0"
      "\<forall>m \<in> live_rows (cfg_tenant_id cfg) (db st). m_segment_id m \<noteq> highest"
    and squat: "squatter (cfg_tenant_id cfg) highest (db st)"
    and rest: "\<forall>sid. sid \<noteq> highest \<longrightarrow> intact E (cfg_tenant_id cfg) st sid"
    and m: "m \<in> live_rows (cfg_tenant_id cfg) (db st)" "m2 \<in> live_rows (cfg_tenant_id cfg) (db st)"
      "m_segment_id m2 = m_segment_id m" "m_chunk_id m2 \<noteq> m_chunk_id m"
    and uuid: "uuid_parse E (m_chunk_id m) = Some (m_chunk_id m)"
    and fits: "wal_fits (wal_x E) (delete_record (cfg_tenant_id cfg) (m_chunk_id m) now)"
  shows "\<exists>res st1 st2. rewrite_finalized_segments E cfg (cfg_tenant_id cfg) now st = Inr (res, st1)
      \<and> segments_removed res = 1 \<and> next_segment_id st1 = highest
      \<and> delete_chunk E cfg now (m_chunk_id m) st1 = Inr (True, st2)
      \<and> rewrite_finalized_segments E cfg (cfg_tenant_id cfg) now st2 = Inl (DatabaseError ''UNIQUE constraint failed'')"
proof -
  let ?T = "cfg_tenant_id cfg" and ?D = "dom (map_of (seg_dirs st))" and ?tail = "after_last_checkpoint rs"
  let ?st1 = "drop_segment highest st"
  obtain res where first: "rewrite_finalized_segments E cfg ?T now st = Inr (res, ?st1)" "segments_removed res = 1"
    "serving E cfg pl 1 rs ?st1" "next_segment_id ?st1 = highest"
    "highest + (length ?tail + Suc (Suc (card ?D))) < 2 ^ 64"
    using rewrite_frees_id [OF serv act top rest m(1)] by blast
  have serv1: "serving E cfg pl (Suc 0) rs ?st1" using first(3) by simp
  have struct1: "struct_ok E cfg ?st1 (length ?tail + 1)" using first(3) by (simp add: serving_def recoverable_def)
  have row: "row_ok E pl [] st m" using serv m(1) by (simp add: serving_def)
  have seg: "m_segment_id m \<noteq> highest" using top(5) m(1) by auto
  obtain r1 where r1: "map_of (segments st) (m_segment_id m) = Some r1"
    using row act by (auto simp: row_ok_def pending_def read_payload_def read_from_active_segment_def split: option.splits)
  have "intact E ?T ?st1 (m_segment_id m)" using rest seg by (simp add: intact_def delete_conv')
  from delete_breaks_segment [OF serv1 _ _ _ m(3,4) _ this uuid fits] obtain st2 rs2 r2 where
    del: "delete_chunk E cfg now (m_chunk_id m) ?st1 = Inr (True, st2)" "serving E cfg pl 0 rs2 st2"
      "length (after_last_checkpoint rs2) \<le> Suc (length ?tail)" "active_segment st2 = None"
      "dom (map_of (seg_dirs st2)) = dom (map_of (seg_dirs ?st1))"
      "db st2 = meta_mark_deleted ?T (m_chunk_id m) (db ?st1)"
      "map_of (segments st2) (m_segment_id m) = Some r2"
      "card {q \<in> live_rows ?T (db st2). m_segment_id q = m_segment_id m} \<notin> {0, unat (chunk_count r2)}"
    using act m(1,2) r1 seg by (auto simp: delete_conv')
  have struct2: "struct_ok E cfg st2 (length (after_last_checkpoint rs2))"
    using del(2) by (simp add: serving_def recoverable_def)
  have next2: "next_segment_id st2 = highest"
    using first(4) unfolding next_segment_id_dirs [OF struct1] next_segment_id_dirs [OF struct2] del(5) .
  have "squatter ?T highest (db st2)"
    using squat unfolding del(6) by (auto simp: squatter_def meta_mark_deleted_def is_live_def)
  moreover have "card (dom (map_of (seg_dirs st2))) \<le> card ?D"
    unfolding del(5) using finite_dirs by (intro card_mono) (auto simp: delete_conv')
  ultimately have "rewrite_finalized_segments E cfg ?T now st2 = Inl (DatabaseError ''UNIQUE constraint failed'')"
    using first(5) del(3) by (intro rewrite_blocked [OF del(2,4) _ _ del(7,8)]) (simp_all add: next2)
  with first(1,2,4) del(1) show ?thesis by blast
qed

end

section \<open>The defect\<close>

text \<open>
  C37. A reused segment id makes the rewrite fail. Take a serving store with no open segment
  in which every segment but the top one is intact, and the top one, directly after another
  segment, has only deleted chunks, one of them at ordinal 0. The rewrite removes the top
  segment and the next segment id is again the id of the removed one. When now one of two
  chunks of a lower segment is deleted, the next rewrite wants to move the other chunk to the
  coordinates the deleted row still holds, and fails with the uniqueness error of the table.
\<close>

theorem reused_segment_id_blocks_rewrite:
  assumes "tenant_log E cfg bits"
    and "serving E cfg pl (Suc (Suc (card (dom (map_of (seg_dirs st)))))) rs st" and "active_segment st = None"
    and "next_segment_id st = Suc highest" and "highest - 1 \<in> dom (map_of (seg_dirs st))"
    and "map_of (segments st) highest = Some r" and "chunk_count r \<noteq> 0"
    and "\<forall>m \<in> live_rows (cfg_tenant_id cfg) (db st). m_segment_id m \<noteq> highest"
    and "squatter (cfg_tenant_id cfg) highest (db st)"
    and "\<forall>sid. sid \<noteq> highest \<longrightarrow> intact E (cfg_tenant_id cfg) st sid"
    and "m \<in> live_rows (cfg_tenant_id cfg) (db st)" and "m2 \<in> live_rows (cfg_tenant_id cfg) (db st)"
    and "m_segment_id m2 = m_segment_id m" and "m_chunk_id m2 \<noteq> m_chunk_id m"
    and "uuid_parse E (m_chunk_id m) = Some (m_chunk_id m)"
    and "wal_fits (wal_x E) (delete_record (cfg_tenant_id cfg) (m_chunk_id m) now)"
  shows "\<exists>res st1 st2. rewrite_finalized_segments E cfg (cfg_tenant_id cfg) now st = Inr (res, st1)
      \<and> segments_removed res = 1 \<and> next_segment_id st1 = highest
      \<and> delete_chunk E cfg now (m_chunk_id m) st1 = Inr (True, st2)
      \<and> rewrite_finalized_segments E cfg (cfg_tenant_id cfg) now st2 = Inl (DatabaseError ''UNIQUE constraint failed'')"
  by (rule tenant_log.rewrite_delete_rewrite [OF assms])

text \<open>Two segments on an empty disk: two chunks in the first, one deleted chunk in the second.\<close>

definition reuse_row :: "string \<Rightarrow> nat \<Rightarrow> u32 \<Rightarrow> chunk_metadata" where
  "reuse_row cid sid i = chunk_row std_store (plain_chunk cid ''acme'' [104, 105]) sid i"

lemma reuse_row_sel [simp]:
  "m_chunk_id (reuse_row cid sid i) = cid" "m_tenant_id (reuse_row cid sid i) = ''acme''"
  "m_segment_id (reuse_row cid sid i) = sid" "m_ordinal (reuse_row cid sid i) = i" "m_status (reuse_row cid sid i) = Final"
  by (simp_all add: reuse_row_def chunk_row_def plain_chunk_def)

definition reuse_rows :: "chunk_metadata list" where
  "reuse_rows = [reuse_row demo_id 1 0, reuse_row ''b'' 1 1, (reuse_row ''c'' 2 0)\<lparr>m_status := Deleted\<rparr>]"

lemma reuse_rows_live: "live_rows ''acme'' reuse_rows = {reuse_row demo_id 1 0, reuse_row ''b'' 1 1}"
  by (auto simp: live_rows_def reuse_rows_def)

lemma reuse_rows_ok: "db_ok reuse_rows"
  by (simp add: db_ok_def reuse_rows_def coords_def demo_id_def)

text \<open>Adding a finalized segment with copies of the payload.\<close>

lemma demo_segment:
  assumes "struct_ok std_store std_cfg st k" and "active_segment st = None" and "sid \<notin> dom (map_of (seg_dirs st))"
    and "sid + k < 2 ^ 64" and "n < 10"
  shows "\<exists>st' r. struct_ok std_store std_cfg st' k \<and> active_segment st' = None
      \<and> dom (map_of (seg_dirs st')) = insert sid (dom (map_of (seg_dirs st))) \<and> wal st' = wal st \<and> db st' = db st
      \<and> map_of (segments st') = (map_of (segments st))(sid \<mapsto> r)
      \<and> chunk_count r = word_of_nat n \<and> active_count (seg_x std_store) r = chunk_count r
      \<and> (\<forall>i. unat i < n \<longrightarrow> read_payload std_store st' sid i = Inr (Some (p_payload demo_chunk)))
      \<and> (\<forall>sid' i. sid' \<noteq> sid \<longrightarrow> read_payload std_store st' sid' i = read_payload std_store st sid' i)"
proof -
  let ?ds = "replicate n (p_payload demo_chunk)" and ?x = "seg_x std_store"
  have sized: "seg_sized ?ds"
    using assms(5) by (simp add: seg_sized_def length_demo_payload length_concat sum_list_replicate)
  define w where "w = append_all ?x ?ds (segment_create None sid 0)"
  note w = append_all_create [OF sized, of ?x sid 0, folded w_def]
  let ?d = "snd (finalize ?x w)"
  obtain r where r: "reader_open ?x (dir_name sid) ?d = Inr r" "struct_ok std_store std_cfg
      (st\<lparr>segments := AList.update sid r (segments st), seg_dirs := AList.update sid ?d (seg_dirs st)\<rparr>) k"
    "\<And>sid' i. read_payload std_store (st\<lparr>segments := AList.update sid r (segments st),
        seg_dirs := AList.update sid ?d (seg_dirs st)\<rparr>) sid' i =
      (if sid' = sid then Inr (if unat i < length ?ds then Some (?ds ! unat i) else None)
       else read_payload std_store st sid' i)"
    using std_log.add_segment_ok [OF assms(1-4) w(1) sized w(2,4)] by blast
  have "load_or_create (bitmap_ops_of ?x) (tombstone_bin ?d) =
      Inr \<lparr>bitmap_of = bm_new (bitmap_ops_of ?x), tomb_file = None, dirty = False\<rparr>"
    using finalize_dir_holds [OF w(1)] w(4) by (simp add: load_none)
  with reader_open_holds [OF conjunct1 [OF finalize_dir_holds [OF w(1)]], of sid] assms(4) r(1)
  have holds: "reader_holds ?x r ?ds"
    "tombstones r = \<lparr>bitmap_of = bm_new (bitmap_ops_of ?x), tomb_file = None, dirty = False\<rparr>" by auto
  moreover have "bm_len ol_ops (bm_new ol_ops) = 0" by (simp only: ol.len_bits ol.bits_new card.empty)
  ultimately have "chunk_count r = word_of_nat n" "active_count ?x r = chunk_count r"
    by (simp_all add: chunk_count_def active_count_def reader_holds_def deleted_count_def)
  then show ?thesis
    using r(2,3) assms(2)
    by (intro exI [of _ "st\<lparr>segments := AList.update sid r (segments st), seg_dirs := AList.update sid ?d (seg_dirs st)\<rparr>"]
        exI [of _ r]) (auto simp: update_conv')
qed

lemma demo_two_segments:
  "\<exists>st r1 r2. serving std_store std_cfg demo_payload 4 [] st \<and> active_segment st = None \<and> db st = reuse_rows
      \<and> dom (map_of (seg_dirs st)) = {1, 2} \<and> map_of (segments st) = [1 \<mapsto> r1, 2 \<mapsto> r2]
      \<and> chunk_count r1 = 2 \<and> active_count (seg_x std_store) r1 = 2 \<and> chunk_count r2 = 1"
proof -
  obtain st where st: "serving std_store std_cfg demo_payload 4 [] st" "db st = []" "active_segment st = None" "seg_dirs st = []"
    using demo_open [of 4] by auto
  have tail: "after_last_checkpoint [] = []" by (simp add: after_last_checkpoint_def)
  have struct: "struct_ok std_store std_cfg st 4" using st(1) by (simp add: serving_def recoverable_def tail)
  then have none: "map_of (segments st) = Map.empty"
    using st(4) by (auto simp: struct_ok_def readers_ok_def reader_ok_def fun_eq_iff)
  obtain s1 r1 where s1: "struct_ok std_store std_cfg s1 4" "active_segment s1 = None" "dom (map_of (seg_dirs s1)) = {1}"
    "wal s1 = wal st" "map_of (segments s1) = [1 \<mapsto> r1]" "chunk_count r1 = 2" "active_count (seg_x std_store) r1 = 2"
    "\<And>i. unat i < 2 \<Longrightarrow> read_payload std_store s1 1 i = Inr (Some (p_payload demo_chunk))"
    using demo_segment [OF struct st(3), of 1 2] st(4) none by auto
  obtain s2 r2 where s2: "struct_ok std_store std_cfg s2 4" "active_segment s2 = None" "dom (map_of (seg_dirs s2)) = {1, 2}"
    "wal s2 = wal st" "map_of (segments s2) = [1 \<mapsto> r1, 2 \<mapsto> r2]" "chunk_count r2 = 1"
    "\<And>i. read_payload std_store s2 1 i = read_payload std_store s1 1 i"
    using demo_segment [OF s1(1,2), of 2 1] s1(3-5) by (auto simp: insert_commute)
  let ?st = "s2\<lparr>db := reuse_rows\<rparr>"
  have "row_ok std_store demo_payload [] ?st m" if "m \<in> live_rows ''acme'' reuse_rows" for m
    using that s1(8) s2(2,3,7) by (auto simp: reuse_rows_live row_ok_def demo_payload_def)
  then have "serving std_store std_cfg demo_payload 4 [] ?st"
    using st(1) s2(1,2,4) reuse_rows_ok by (simp add: serving_def recoverable_def tail catalog_replay_def)
  with s1(6,7) s2(2,3,5,6) show ?thesis by (intro exI [of _ ?st]) auto
qed

theorem reused_segment_id_blocks_rewrite_witness:
  "\<exists>st res st1 st2. db st = reuse_rows \<and> rewrite_finalized_segments std_store std_cfg ''acme'' 0 st = Inr (res, st1)
      \<and> segments_removed res = 1 \<and> next_segment_id st1 = 2
      \<and> delete_chunk std_store std_cfg 0 demo_id st1 = Inr (True, st2)
      \<and> rewrite_finalized_segments std_store std_cfg ''acme'' 0 st2 = Inl (DatabaseError ''UNIQUE constraint failed'')"
proof -
  obtain st r1 r2 where st: "serving std_store std_cfg demo_payload 4 [] st" "active_segment st = None" "db st = reuse_rows"
    "dom (map_of (seg_dirs st)) = {1, 2}" "map_of (segments st) = [1 \<mapsto> r1, 2 \<mapsto> r2]"
    "chunk_count r1 = 2" "active_count (seg_x std_store) r1 = 2" "chunk_count r2 = 1"
    using demo_two_segments by blast
  have struct: "struct_ok std_store std_cfg st (length (after_last_checkpoint []) + 4)"
    using st(1) by (simp add: serving_def recoverable_def)
  have "Max {1, 2 :: nat} = 2" by simp
  then have "next_segment_id st = Suc 2" unfolding next_segment_id_dirs [OF struct] st(4) by simp
  moreover have "card {1, 2 :: nat} = 2" by simp
  then have "serving std_store std_cfg demo_payload (Suc (Suc (card (dom (map_of (seg_dirs st)))))) [] st"
    using st(1) unfolding st(4) by (simp only: Suc_numeral semiring_norm)
  moreover have "squatter ''acme'' 2 (db st)" by (simp add: st(3) squatter_def reuse_rows_def)
  moreover have "{m \<in> live_rows ''acme'' reuse_rows. m_segment_id m = 1} = {reuse_row demo_id 1 0, reuse_row ''b'' 1 1}"
    by (auto simp: reuse_rows_live)
  then have "card {m \<in> live_rows ''acme'' reuse_rows. m_segment_id m = 1} = 2"
    by (metis card_2_iff reuse_row_sel(4) zero_neq_one)
  then have "intact std_store ''acme'' st sid" if "sid \<noteq> 2" for sid
    using that st(5-7) by (simp add: intact_def st(3))
  ultimately show ?thesis
    using reused_segment_id_blocks_rewrite [OF std_log.tenant_log_axioms, of demo_payload st "[]" 2 r2
        "reuse_row demo_id 1 0" "reuse_row ''b'' 1 1" 0] st(2-5,8) demo_fits(3)
    by (auto simp: reuse_rows_live demo_id_def)
qed

end
