(* ===== verification/Omf_Time.thy ===== *)
theory Omf_Time
  imports Memd_Prelude
begin

text \<open>
  The timestamps of exported memories (\<open>omf/time.rs\<close>): the conversion of a day number to a
  civil date and the two formatters. The calendar itself is the specification: leap years,
  month lengths and the successor of a date. Arguments are mathematical integers: the
  formatters pass day numbers of at most \<open>2 ^ 63 div 86400000\<close> in absolute value, far from the
  bounds of \<open>i64\<close>.
\<close>

section \<open>The conversion\<close>

definition era_year :: "int \<Rightarrow> int" where
  "era_year doe = (doe - doe div 1460 + doe div 36524 - doe div 146096) div 365"

definition month_day :: "int \<Rightarrow> int \<times> int" where
  "month_day doy =
     (let mp = (5 * doy + 2) div 153;
          d = doy - (153 * mp + 2) div 5 + 1;
          m = (if mp < 10 then mp + 3 else mp - 9)
      in (m, d))"

definition civil_ymd :: "int \<Rightarrow> int \<times> int \<times> int" where
  "civil_ymd days =
     (let z = days + 719468;
          era = z div 146097;
          doe = z mod 146097;
          yoe = era_year doe;
          y = yoe + era * 400;
          doy = doe - (365 * yoe + yoe div 4 - yoe div 100);
          (m, d) = month_day doy
      in (y + (if m \<le> 2 then 1 else 0), m, d))"

definition civil_from_days :: "int \<Rightarrow> (int \<times> int \<times> int) option" where
  "civil_from_days days =
     (let (year, m, d) = civil_ymd days
      in if - (2 ^ 31) \<le> year \<and> year < 2 ^ 31 then Some (year, m, d) else None)"

definition is_rfc3339_year :: "int \<Rightarrow> bool" where
  "is_rfc3339_year year \<longleftrightarrow> 1 \<le> year \<and> year \<le> 9999"

definition field :: "nat \<Rightarrow> int \<Rightarrow> string" where
  "field w v = pad_zero w (show_nat (nat v))"

definition format_rfc3339_ms :: "i64 \<Rightarrow> string option" where
  "format_rfc3339_ms ms =
     (let seconds = sint ms div 1000;
          days = seconds div 86400;
          tod = seconds mod 86400;
          hour = tod div 3600;
          minute = (tod mod 3600) div 60;
          sec = tod mod 60
      in case civil_from_days days of
        None \<Rightarrow> None
      | Some (year, month, day) \<Rightarrow>
          if \<not> is_rfc3339_year year then None
          else Some (field 4 year @ ''-'' @ field 2 month @ ''-'' @ field 2 day @ ''T'' @
                     field 2 hour @ '':'' @ field 2 minute @ '':'' @ field 2 sec @ ''Z''))"

definition format_date_ms :: "i64 \<Rightarrow> string option" where
  "format_date_ms ms =
     (case civil_from_days (sint ms div 86400000) of
        None \<Rightarrow> None
      | Some (year, month, day) \<Rightarrow>
          if \<not> is_rfc3339_year year then None
          else Some (field 4 year @ ''-'' @ field 2 month @ ''-'' @ field 2 day))"

text \<open>The clock reading is an argument.\<close>

definition now_utc_rfc3339 :: "i64 \<Rightarrow> string" where
  "now_utc_rfc3339 now = (case format_rfc3339_ms now of None \<Rightarrow> ''1970-01-01T00:00:00Z'' | Some s \<Rightarrow> s)"

section \<open>The calendar\<close>

definition leap_year :: "int \<Rightarrow> bool" where
  "leap_year y \<longleftrightarrow> y mod 4 = 0 \<and> (y mod 100 \<noteq> 0 \<or> y mod 400 = 0)"

definition month_len :: "bool \<Rightarrow> int \<Rightarrow> int" where
  "month_len leap m = (if m = 2 then (if leap then 29 else 28) else if m \<in> {4, 6, 9, 11} then 30 else 31)"

definition valid_date :: "int \<times> int \<times> int \<Rightarrow> bool" where
  "valid_date ymd \<longleftrightarrow> (case ymd of (y, m, d) \<Rightarrow>
     1 \<le> m \<and> m \<le> 12 \<and> 1 \<le> d \<and> d \<le> month_len (leap_year y) m)"

definition next_day :: "int \<times> int \<times> int \<Rightarrow> int \<times> int \<times> int" where
  "next_day ymd = (case ymd of (y, m, d) \<Rightarrow>
     if d < month_len (leap_year y) m then (y, m, d + 1)
     else if m < 12 then (y, m + 1, 1) else (y + 1, 1, 1))"

section \<open>Years of an era\<close>

definition year_start :: "int \<Rightarrow> int" where
  "year_start y = 365 * y + y div 4 - y div 100"

definition year_days :: "int \<Rightarrow> int" where
  "year_days y = (if leap_year (y + 1) then 366 else 365)"

definition shifted :: "int \<Rightarrow> int" where
  "shifted doe = doe - doe div 1460 + doe div 36524 - doe div 146096"

lemma era_year_shifted: "era_year doe = shifted doe div 365"
  by (simp add: era_year_def shifted_def)

lemma era_years_check:
  "list_all (\<lambda>y. 365 * y \<le> shifted (year_start y)
      \<and> shifted (year_start y + year_days y - 1) < 365 * (y + 1)
      \<and> 0 \<le> year_start y \<and> year_start y + year_days y \<le> 146097
      \<and> (y < 399 \<longrightarrow> year_start (y + 1) = year_start y + year_days y)) [0..399]"
  by code_simp

lemma last_year: "year_start 399 + year_days 399 = 146097"
  by (simp add: year_start_def year_days_def leap_year_def)

lemma era_year_bounds:
  assumes "0 \<le> y" and "y < 400"
  shows "365 * y \<le> shifted (year_start y)"
    and "shifted (year_start y + year_days y - 1) < 365 * (y + 1)"
    and "0 \<le> year_start y" and "year_start y + year_days y \<le> 146097"
  using era_years_check assms by (auto simp: list_all_iff)

lemma year_start_Suc:
  assumes "0 \<le> y" and "y < 399"
  shows "year_start (y + 1) = year_start y + year_days y"
  using era_years_check assms by (auto simp: list_all_iff)

lemma mult_div_le_int: "0 < k \<Longrightarrow> k * (a div k) \<le> a" for a k :: int
  using mult_div_mod_eq [of k a] pos_mod_sign [of k a] by linarith

lemma div_Suc_int:
  fixes a k :: int
  assumes "0 < k"
  shows "(a + 1) div k = a div k + (if (a + 1) mod k = 0 then 1 else 0)"
proof (cases "a mod k + 1 = k")
  case True
  then have "a + 1 = k * (a div k) + k"
    using mult_div_mod_eq [of k a] by linarith
  then have "a + 1 = k * (a div k + 1)" by (simp only: distrib_left mult_1_right)
  with assms show ?thesis by simp
next
  case False
  then have r: "0 \<le> a mod k + 1" "a mod k + 1 < k" "a mod k + 1 \<noteq> 0"
    using assms pos_mod_bound [of k a] pos_mod_sign [of k a] by linarith+
  have "a + 1 = k * (a div k) + (a mod k + 1)" by simp
  from int_div_pos_eq [OF this r(1,2)] int_mod_pos_eq [OF this r(1,2)] r(3)
  show ?thesis by simp
qed

lemma shifted_step: "shifted doe \<le> shifted (doe + 1)"
proof -
  have "146096 dvd doe + 1 \<Longrightarrow> 36524 dvd doe + 1"
    by (rule dvd_trans [of _ 146096]) simp_all
  then show ?thesis by (simp add: shifted_def div_Suc_int mod_eq_0_iff_dvd)
qed

lemma shifted_mono:
  assumes "0 \<le> a" and "a \<le> b"
  shows "shifted a \<le> shifted b"
  using assms(2)
proof (induction b rule: int_ge_induct)
  case (step b)
  then show ?case using shifted_step [of b] assms(1) by linarith
qed simp

text \<open>The year of a day of the era is the one whose days include it.\<close>

lemma era_year_eq:
  assumes "0 \<le> y" and "y < 400" and "year_start y \<le> doe" and "doe < year_start y + year_days y"
  shows "era_year doe = y"
proof -
  have "0 \<le> year_start y" using era_year_bounds [OF assms(1,2)] by simp
  then have "shifted (year_start y) \<le> shifted doe"
    and "shifted doe \<le> shifted (year_start y + year_days y - 1)"
    using assms(3,4) by (auto intro: shifted_mono)
  with era_year_bounds [OF assms(1,2)] have "365 * y \<le> shifted doe" and "shifted doe < 365 * (y + 1)"
    by linarith+
  then show ?thesis unfolding era_year_shifted
    by (intro int_div_pos_eq [of _ _ _ "shifted doe - 365 * y"]) auto
qed

lemma era_year_exists:
  assumes "0 \<le> doe" and "doe < year_start (int n) + year_days (int n)" and "n < 400"
  shows "\<exists>y. 0 \<le> y \<and> y < 400 \<and> year_start y \<le> doe \<and> doe < year_start y + year_days y"
  using assms
proof (induction n)
  case 0
  then show ?case by (intro exI [of _ 0]) (simp add: year_start_def)
next
  case (Suc n)
  show ?case
  proof (cases "year_start (int (Suc n)) \<le> doe")
    case True
    with Suc.prems show ?thesis by (intro exI [of _ "int (Suc n)"]) simp
  next
    case False
    with Suc.prems year_start_Suc [of "int n"] have "doe < year_start (int n) + year_days (int n)"
      by (simp add: add.commute)
    with Suc show ?thesis by simp
  qed
qed

text \<open>Every day lies in one year of one era, and its date is computed from its day of the year.\<close>

lemma day_decompose:
  obtains era y doy where "0 \<le> y" and "y < 400" and "0 \<le> doy" and "doy < year_days y"
    and "days + 719468 = era * 146097 + year_start y + doy"
proof -
  let ?z = "days + 719468"
  have "?z mod 146097 < year_start (int 399) + year_days (int 399)"
    using last_year by simp
  then obtain y where "0 \<le> y" "y < 400" "year_start y \<le> ?z mod 146097"
      "?z mod 146097 < year_start y + year_days y"
    using era_year_exists [of "?z mod 146097" 399] by auto
  then show ?thesis
    by (intro that [of y "?z mod 146097 - year_start y" "?z div 146097"]) auto
qed

lemma civil_ymd_eq:
  assumes "0 \<le> y" and "y < 400" and "0 \<le> doy" and "doy < year_days y"
    and "days + 719468 = era * 146097 + year_start y + doy"
  shows "civil_ymd days =
     (case month_day doy of (m, d) \<Rightarrow> (y + era * 400 + (if m \<le> 2 then 1 else 0), m, d))"
proof -
  have b: "0 \<le> year_start y + doy" "year_start y + doy < 146097"
    using assms(3,4) era_year_bounds [OF assms(1,2)] by linarith+
  have "days + 719468 = 146097 * era + (year_start y + doy)" using assms(5) by simp
  from int_div_pos_eq [OF this b] int_mod_pos_eq [OF this b]
  have "(days + 719468) div 146097 = era" and "(days + 719468) mod 146097 = year_start y + doy" .
  moreover have "era_year (year_start y + doy) = y"
    by (rule era_year_eq) (use assms in auto)
  ultimately show ?thesis
    by (simp add: civil_ymd_def Let_def year_start_def)
qed

section \<open>Months of a year\<close>

definition month_start :: "int \<Rightarrow> int" where
  "month_start mp = (153 * mp + 2) div 5"

definition month_no :: "int \<Rightarrow> int" where
  "month_no mp = (if mp < 10 then mp + 3 else mp - 9)"

lemma month_day_index: "month_day doy =
    (month_no ((5 * doy + 2) div 153), doy - month_start ((5 * doy + 2) div 153) + 1)"
  by (simp add: month_day_def month_no_def month_start_def Let_def)

lemma month_start_bounds: "5 * month_start i \<le> 153 * i + 2" "153 * i + 2 < 5 * month_start i + 5"
  using mult_div_mod_eq [of 5 "153 * i + 2"] pos_mod_bound [of 5 "153 * i + 2"]
    pos_mod_sign [of 5 "153 * i + 2"] unfolding month_start_def by linarith+

lemma month_index_iff:
  fixes mp doy :: int
  shows "(5 * doy + 2) div 153 = mp \<longleftrightarrow> month_start mp \<le> doy \<and> doy < month_start (mp + 1)"
proof -
  have "153 * ((5 * doy + 2) div 153) \<le> 5 * doy + 2"
    and "5 * doy + 2 < 153 * ((5 * doy + 2) div 153) + 153"
    using mult_div_mod_eq [of 153 "5 * doy + 2"] pos_mod_bound [of 153 "5 * doy + 2"]
      pos_mod_sign [of 153 "5 * doy + 2"] by linarith+
  then have "(5 * doy + 2) div 153 = mp \<longleftrightarrow> 153 * mp \<le> 5 * doy + 2 \<and> 5 * doy + 2 < 153 * mp + 153"
    by (auto intro: int_div_pos_eq [of _ _ _ "5 * doy + 2 - 153 * mp"])
  moreover note month_start_bounds [of mp] month_start_bounds [of "mp + 1"]
  ultimately show ?thesis by (auto simp: algebra_simps)
qed

lemma month_start_mono: "month_start mp < month_start (mp + 1)"
  using month_start_bounds [of mp] month_start_bounds [of "mp + 1"] by (simp add: algebra_simps)

lemma month_lengths_check:
  "list_all (\<lambda>leap. list_all (\<lambda>mp. month_start (mp + 1) = month_start mp + month_len leap (month_no mp)
      \<and> month_no mp \<noteq> 2) [0..10]) [True, False]"
  by code_simp

lemma month_lengths:
  assumes "0 \<le> mp" and "mp < 11"
  shows "month_start (mp + 1) = month_start mp + month_len leap (month_no mp)"
    and "month_no mp \<noteq> 2"
  using month_lengths_check assms by (cases leap; simp add: list_all_iff)+

lemma month_day_ok:
  assumes "0 \<le> doy" and "doy < (if leap then 366 else 365)" and "month_day doy = (m, d)"
  shows "1 \<le> m \<and> m \<le> 12 \<and> 1 \<le> d \<and> d \<le> month_len leap m"
    and "doy + 1 < (if leap then 366 else 365) \<Longrightarrow>
           month_day (doy + 1) = (if d < month_len leap m then (m, d + 1)
                                  else if m < 12 then (m + 1, 1) else (1, 1))
           \<and> (m \<noteq> 2 \<or> d < month_len leap m)"
    and "\<not> doy + 1 < (if leap then 366 else 365) \<Longrightarrow> m = 2 \<and> d = month_len leap m"
proof -
  define mp where "mp = (5 * doy + 2) div 153"
  have md: "m = month_no mp" "d = doy - month_start mp + 1"
    using assms(3) by (simp_all add: month_day_index mp_def)
  have b: "month_start mp \<le> doy" "doy < month_start (mp + 1)"
    using month_index_iff [of doy mp] mp_def by auto
  have mp: "0 \<le> mp" "mp \<le> 11"
  proof -
    have "doy < 366" using assms(2) by (simp split: if_splits)
    then show "0 \<le> mp" and "mp \<le> 11"
      using assms(1) mult_div_le_int [of 153 "5 * doy + 2"] unfolding mp_def
      by (simp add: pos_imp_zdiv_nonneg_iff, linarith)
  qed
  have next_mp: "month_day (doy + 1) = (if doy + 1 < month_start (mp + 1) then (m, d + 1) else (month_no (mp + 1), 1))"
    if "mp < 11 \<or> doy + 1 < month_start (mp + 1)"
  proof (cases "doy + 1 < month_start (mp + 1)")
    case True
    then have "(5 * (doy + 1) + 2) div 153 = mp" using b month_index_iff [of "doy + 1" mp] by simp
    then show ?thesis using True md by (simp add: month_day_index)
  next
    case False
    then have e: "doy + 1 = month_start (mp + 1)" using b(2) by simp
    then have "(5 * (doy + 1) + 2) div 153 = mp + 1"
      using month_index_iff [of "doy + 1" "mp + 1"] month_start_mono [of "mp + 1"] by simp
    then show ?thesis using e by (simp add: month_day_index)
  qed
  have m: "1 \<le> m" "m \<le> 12" using mp md(1) by (auto simp: month_no_def)
  have d: "1 \<le> d" using b(1) md(2) by simp
  have next_no: "mp < 11 \<Longrightarrow> month_no (mp + 1) = (if m < 12 then m + 1 else 1)"
    using mp md(1) by (auto simp: month_no_def)
  have "(mp < 11 \<and> m \<noteq> 2 \<and> month_start (mp + 1) = month_start mp + month_len leap m)
      \<or> (mp = 11 \<and> m = 2 \<and> month_start mp = 337 \<and> month_start (mp + 1) = 367)"
    using mp md(1) month_lengths(1) [of mp leap] month_lengths(2) [of mp] by (auto simp: month_no_def month_start_def)
  then consider
      "mp < 11" "m \<noteq> 2" "month_start (mp + 1) = month_start mp + month_len leap m"
    | "mp = 11" "m = 2" "month_start mp = 337" "month_start (mp + 1) = 367" by blast
  then have "d \<le> month_len leap m \<and>
      (if doy + 1 < (if leap then 366 else 365)
       then month_day (doy + 1) = (if d < month_len leap m then (m, d + 1)
                                   else if m < 12 then (m + 1, 1) else (1, 1))
            \<and> (m \<noteq> 2 \<or> d < month_len leap m)
       else m = 2 \<and> d = month_len leap m)"
  proof cases
    case 1
    have "month_start (mp + 1) \<le> 337"
      using 1(1) month_start_bounds(1) [of "mp + 1"] by presburger
    with 1 show ?thesis using b md(2) next_mp next_no by auto
  next
    case 2
    then show ?thesis using b md(2) next_mp assms(2) by (auto simp: month_len_def split: if_splits)
  qed
  with m d show "1 \<le> m \<and> m \<le> 12 \<and> 1 \<le> d \<and> d \<le> month_len leap m"
    and "doy + 1 < (if leap then 366 else 365) \<Longrightarrow>
           month_day (doy + 1) = (if d < month_len leap m then (m, d + 1)
                                  else if m < 12 then (m + 1, 1) else (1, 1))
           \<and> (m \<noteq> 2 \<or> d < month_len leap m)"
    and "\<not> doy + 1 < (if leap then 366 else 365) \<Longrightarrow> m = 2 \<and> d = month_len leap m"
    by (simp_all only: if_True if_False simp_thms)
qed

lemma month_len_other: "m \<noteq> 2 \<Longrightarrow> month_len a m = month_len b m"
  by (simp add: month_len_def)

lemma leap_year_era: "leap_year (y + era * 400 + 1) = leap_year (y + 1)"
proof -
  have "(y + era * 400 + 1) mod k = (y + 1) mod k" if "k dvd 400" for k
  proof -
    have "k dvd era * 400" using that by simp
    then obtain c where "era * 400 = k * c" by (auto elim: dvdE)
    then have "y + era * 400 + 1 = y + 1 + k * c" by simp
    then show ?thesis by (metis mod_mult_self2)
  qed
  then show ?thesis by (simp add: leap_year_def)
qed

text \<open>A day advances within its year, or from the last of February to the first of March.\<close>

lemma next_day_in_year:
  assumes "0 \<le> doy" and "doy + 1 < year_days y" and "month_day doy = (m, d)" and "month_day (doy + 1) = (m', d')"
  shows "next_day (y + (if m \<le> 2 then 1 else 0), m, d) = (y + (if m' \<le> 2 then 1 else 0), m', d')"
proof -
  let ?leap = "leap_year (y + 1)"
  have len: "month_len (leap_year (y + (if m \<le> 2 then 1 else 0))) m = month_len ?leap m"
    by (cases "m = 2") (simp_all add: month_len_def)
  have "doy < (if ?leap then 366 else 365)" "doy + 1 < (if ?leap then 366 else 365)"
    using assms(2) by (auto simp: year_days_def)
  from month_day_ok(1) [OF assms(1) this(1) assms(3)] month_day_ok(2) [OF assms(1) this(1) assms(3) this(2)]
  show ?thesis using assms(4) len by (auto simp: next_day_def split: if_splits)
qed

lemma next_day_of_last:
  assumes "doy = year_days y - 1" and "month_day doy = (m, d)"
  shows "next_day (y + (if m \<le> 2 then 1 else 0), m, d) = (y + 1, 3, 1)"
proof -
  have "0 \<le> doy" "doy < (if leap_year (y + 1) then 366 else 365)" "\<not> doy + 1 < (if leap_year (y + 1) then 366 else 365)"
    using assms(1) by (simp_all add: year_days_def)
  from month_day_ok(3) [OF this(1,2) assms(2) this(3)] show ?thesis by (simp add: next_day_def)
qed

lemma year_days_era: "year_days (y + era * 400) = year_days y"
  by (simp add: year_days_def leap_year_era)

lemma month_day_0: "month_day 0 = (3, 1)"
  by (simp add: month_day_def)

lemma civil_ymd_step: "civil_ymd (days + 1) = next_day (civil_ymd days)"
proof -
  obtain era y doy where d: "0 \<le> y" "y < 400" "0 \<le> doy" "doy < year_days y"
      "days + 719468 = era * 146097 + year_start y + doy" by (rule day_decompose)
  obtain m dd where md: "month_day doy = (m, dd)" by fastforce
  obtain m' dd' where md': "month_day (doy + 1) = (m', dd')" by fastforce
  note now = civil_ymd_eq [OF d, unfolded md]
  consider "doy + 1 < year_days y" | "doy = year_days y - 1" "y < 399" | "doy = year_days y - 1" "y = 399"
    using d(2,4) by linarith
  then show ?thesis
  proof cases
    case 1
    have "days + 1 + 719468 = era * 146097 + year_start y + (doy + 1)" using d(5) by simp
    from civil_ymd_eq [OF d(1,2) _ 1 this, unfolded md'] d(3)
      next_day_in_year [of doy "y + era * 400" m dd m' dd'] 1 md md'
    show ?thesis by (simp add: now year_days_era)
  next
    case 2
    have "days + 1 + 719468 = era * 146097 + year_start (y + 1) + 0"
      using d(5) 2 year_start_Suc [OF d(1)] by simp
    moreover have "0 < year_days (y + 1)" by (simp add: year_days_def)
    ultimately have "civil_ymd (days + 1) = (y + 1 + era * 400, 3, 1)"
      using civil_ymd_eq [of "y + 1" 0 "days + 1" era] d(1) 2 by (simp add: month_day_0)
    with next_day_of_last [of doy "y + era * 400" m dd] 2 md show ?thesis
      by (simp add: now year_days_era add.commute add.left_commute)
  next
    case 3
    have "days + 1 + 719468 = (era + 1) * 146097 + year_start 0 + 0"
      using d(5) 3 last_year by (simp add: year_start_def algebra_simps)
    moreover have "0 < year_days 0" by (simp add: year_days_def)
    ultimately have "civil_ymd (days + 1) = (0 + (era + 1) * 400, 3, 1)"
      using civil_ymd_eq [of 0 0 "days + 1" "era + 1"] by (simp add: month_day_0)
    moreover have "next_day (y + era * 400 + (if m \<le> 2 then 1 else 0), m, dd) = (y + era * 400 + 1, 3, 1)"
      using 3(1) md by (intro next_day_of_last) (simp_all add: year_days_era)
    ultimately show ?thesis using 3(2) by (simp add: now algebra_simps)
  qed
qed

lemma civil_ymd_epoch: "civil_ymd 0 = (1970, 1, 1)"
  by code_simp

lemma civil_ymd_valid: "valid_date (civil_ymd days)"
proof -
  obtain era y doy where d: "0 \<le> y" "y < 400" "0 \<le> doy" "doy < year_days y"
      "days + 719468 = era * 146097 + year_start y + doy" by (rule day_decompose)
  obtain m dd where md: "month_day doy = (m, dd)" by fastforce
  have "doy < (if leap_year (y + 1) then 366 else 365)" using d(4) by (simp add: year_days_def)
  from month_day_ok(1) [OF d(3) this md]
  have ok: "1 \<le> m" "m \<le> 12" "1 \<le> dd" "dd \<le> month_len (leap_year (y + 1)) m" by auto
  have "month_len (leap_year (y + era * 400 + (if m \<le> 2 then 1 else 0))) m = month_len (leap_year (y + 1)) m"
    by (cases "m = 2") (simp_all add: month_len_def leap_year_era)
  with ok show ?thesis by (simp add: civil_ymd_eq [OF d] md valid_date_def)
qed

section \<open>Dates are distinct\<close>

definition date_code :: "int \<times> int \<times> int \<Rightarrow> int" where
  "date_code ymd = (case ymd of (y, m, d) \<Rightarrow> 372 * y + 31 * m + d)"

lemma date_code_next: "valid_date ymd \<Longrightarrow> date_code ymd < date_code (next_day ymd)"
  by (cases ymd) (auto simp: valid_date_def date_code_def next_day_def month_len_def split: if_splits)

lemma civil_ymd_mono: "a < b \<Longrightarrow> date_code (civil_ymd a) < date_code (civil_ymd b)"
proof (induction b rule: int_gr_induct)
  case base
  then show ?case using date_code_next [OF civil_ymd_valid] by (simp add: civil_ymd_step)
next
  case (step b)
  then show ?case using date_code_next [OF civil_ymd_valid [of b]] by (simp add: civil_ymd_step)
qed

lemma civil_ymd_inj: "civil_ymd a = civil_ymd b \<longleftrightarrow> a = b"
  using civil_ymd_mono [of a b] civil_ymd_mono [of b a] by (cases a b rule: linorder_cases) auto

section \<open>Fields\<close>

lemma length_show_nat: "n < 10 ^ Suc k \<Longrightarrow> length (show_nat n) \<le> Suc k"
proof (induction k arbitrary: n)
  case 0
  then show ?case by (subst show_nat.simps) simp
next
  case (Suc k)
  show ?case
  proof (cases "n < 10")
    case True
    then show ?thesis by (subst show_nat.simps) simp
  next
    case False
    have "n div 10 < 10 ^ Suc k" using Suc.prems by (simp add: less_mult_imp_div_less)
    from Suc.IH [OF this] False show ?thesis by (subst show_nat.simps) simp
  qed
qed

lemma length_field: "nat v < 10 ^ Suc k \<Longrightarrow> length (field (Suc k) v) = Suc k"
  using length_show_nat [of "nat v" k] by (simp add: field_def length_pad_zero)

lemma field_inj:
  assumes "0 \<le> v" and "0 \<le> v'" and "field w v = field w v'"
  shows "v = v'"
proof -
  have "Some (nat v) = Some (nat v')"
    using parse_pad_show [of "nat v" "Suc (nat v + nat v')" w] parse_pad_show [of "nat v'" "Suc (nat v + nat v')" w]
      assms(3) unfolding field_def by (metis less_add_Suc1 less_add_Suc2)
  with assms(1,2) show ?thesis by simp
qed

lemma length_field_2: "v < 100 \<Longrightarrow> length (field 2 v) = 2"
  using length_field [of v 1] by (simp add: numeral_2_eq_2)

lemma length_field_4: "v < 10000 \<Longrightarrow> length (field 4 v) = 4"
  using length_field [of v 3] by simp

lemma clock_fields:
  fixes t t' :: int
  assumes "t div 3600 = t' div 3600" and "t mod 3600 div 60 = t' mod 3600 div 60" and "t mod 60 = t' mod 60"
  shows "t = t'"
proof -
  have e: "u mod 3600 = 60 * (u mod 3600 div 60) + u mod 60" for u :: int
    using mult_div_mod_eq [of 60 "u mod 3600"] by (simp add: mod_mod_cancel)
  have "t mod 3600 = t' mod 3600" by (subst (1 2) e) (simp only: assms(2,3))
  with assms(1) show ?thesis by (metis div_mult_mod_eq)
qed

definition stamp :: "int \<Rightarrow> string" where
  "stamp seconds =
     (case civil_ymd (seconds div 86400) of (year, month, day) \<Rightarrow>
        field 4 year @ ''-'' @ field 2 month @ ''-'' @ field 2 day @ ''T'' @
        field 2 (seconds mod 86400 div 3600) @ '':'' @ field 2 (seconds mod 86400 mod 3600 div 60) @ '':'' @
        field 2 (seconds mod 86400 mod 60) @ ''Z'')"

lemma format_rfc3339_stamp:
  "format_rfc3339_ms ms =
     (if is_rfc3339_year (fst (civil_ymd (sint ms div 1000 div 86400))) then Some (stamp (sint ms div 1000)) else None)"
  by (auto simp: format_rfc3339_ms_def civil_from_days_def stamp_def Let_def is_rfc3339_year_def
      split: prod.splits)

lemma valid_date_fields:
  "valid_date (y, m, d) \<Longrightarrow> 0 \<le> m \<and> m < 100 \<and> 0 \<le> d \<and> d < 100"
  by (auto simp: valid_date_def month_len_def split: if_splits)

lemma clock_bounds:
  fixes t :: int
  assumes "0 \<le> t" and "t < 86400"
  shows "0 \<le> t div 3600" and "t div 3600 < 100" and "0 \<le> t mod 3600 div 60" and "t mod 3600 div 60 < 100"
    and "0 \<le> t mod 60" and "t mod 60 < 100"
proof -
  have "t div 3600 \<le> 86399 div 3600" by (rule zdiv_mono1) (use assms in simp_all)
  then show "t div 3600 < 100" by simp
  have "t mod 3600 < 3600" by simp
  then have "t mod 3600 div 60 \<le> 3599 div 60" by (intro zdiv_mono1) linarith+
  then show "t mod 3600 div 60 < 100" by simp
  have "t mod 60 < 60" by simp
  then show "t mod 60 < 100" by linarith
qed (use assms in \<open>simp_all add: pos_imp_zdiv_nonneg_iff\<close>)

lemma fixed_width_fields:
  assumes "a @ ''-'' @ b @ ''-'' @ c @ ''T'' @ d @ '':'' @ e @ '':'' @ f @ ''Z'' =
           a' @ ''-'' @ b' @ ''-'' @ c' @ ''T'' @ d' @ '':'' @ e' @ '':'' @ f' @ ''Z''"
    and "length a = length a'" and "length b = length b'" and "length c = length c'"
    and "length d = length d'" and "length e = length e'"
  shows "a = a' \<and> b = b' \<and> c = c' \<and> d = d' \<and> e = e' \<and> f = f'"
  using assms by simp

lemma stamp_inj:
  assumes "is_rfc3339_year (fst (civil_ymd (a div 86400)))" and "is_rfc3339_year (fst (civil_ymd (b div 86400)))"
    and "stamp a = stamp b"
  shows "a = b"
proof -
  obtain y m d y' m' d' where c: "civil_ymd (a div 86400) = (y, m, d)" "civil_ymd (b div 86400) = (y', m', d')"
    by (meson prod_cases3)
  have v: "0 \<le> m" "m < 100" "0 \<le> d" "d < 100" "0 \<le> m'" "m' < 100" "0 \<le> d'" "d' < 100"
    using civil_ymd_valid [of "a div 86400"] civil_ymd_valid [of "b div 86400"] valid_date_fields c by auto
  have y: "0 \<le> y" "y < 10000" "0 \<le> y'" "y' < 10000" using assms(1,2) c by (auto simp: is_rfc3339_year_def)
  define t t' where t: "t = a mod 86400" "t' = b mod 86400"
  then have "0 \<le> t" "t < 86400" "0 \<le> t'" "t' < 86400" by simp_all
  note cb = clock_bounds [OF this(1,2)] clock_bounds [OF this(3,4)]
  have "field 4 y = field 4 y' \<and> field 2 m = field 2 m' \<and> field 2 d = field 2 d'
      \<and> field 2 (t div 3600) = field 2 (t' div 3600)
      \<and> field 2 (t mod 3600 div 60) = field 2 (t' mod 3600 div 60) \<and> field 2 (t mod 60) = field 2 (t' mod 60)"
    by (rule fixed_width_fields [OF assms(3) [unfolded stamp_def c prod.case, folded t]])
       (simp_all only: length_field_2 length_field_4 v y cb)
  then have e: "y = y'" "m = m'" "d = d'" "t div 3600 = t' div 3600"
      "t mod 3600 div 60 = t' mod 3600 div 60" "t mod 60 = t' mod 60"
    using v y cb by (blast dest: field_inj [rotated 2])+
  have "t = t'" by (rule clock_fields [OF e(4-6)])
  moreover have "a div 86400 = b div 86400" using c e(1-3) civil_ymd_inj by metis
  ultimately show ?thesis unfolding t by (metis div_mult_mod_eq)
qed

lemma stamp_length:
  assumes "is_rfc3339_year (fst (civil_ymd (a div 86400)))"
  shows "length (stamp a) = 20"
proof -
  obtain y m d where c: "civil_ymd (a div 86400) = (y, m, d)" by (meson prod_cases3)
  have "m < 100 \<and> d < 100" using civil_ymd_valid [of "a div 86400"] valid_date_fields c by auto
  moreover have "y < 10000" using assms c by (auto simp: is_rfc3339_year_def)
  moreover have "0 \<le> a mod 86400" "a mod 86400 < 86400" by simp_all
  note clock_bounds [OF this]
  ultimately show ?thesis
    by (simp only: stamp_def c prod.case length_append length_field_2 length_field_4) simp
qed

section \<open>Properties\<close>

text \<open>
  The day conversion follows the Gregorian calendar: day 0 is 1970-01-01, and moving one
  day forward from any day, before or after the epoch, moves to the next date of the calendar
  with its month lengths and leap years. Every day has a valid date.
\<close>

lemma civil_from_days_calendar:
  "civil_ymd 0 = (1970, 1, 1) \<and> civil_ymd (days + 1) = next_day (civil_ymd days) \<and> valid_date (civil_ymd days)"
  by (simp add: civil_ymd_epoch civil_ymd_step civil_ymd_valid)

text \<open>
  A timestamp is formatted exactly when its year is between 1 and 9999; the text has
  twenty characters and determines the second: two timestamps have the same text if and only
  if they lie in the same second.
\<close>

lemma format_rfc3339_exact:
  "(format_rfc3339_ms a = None \<longleftrightarrow> \<not> is_rfc3339_year (fst (civil_ymd (sint a div 86400000))))
   \<and> (\<forall>s b. format_rfc3339_ms a = Some s \<longrightarrow>
        length s = 20 \<and> (format_rfc3339_ms b = Some s \<longleftrightarrow> sint b div 1000 = sint a div 1000))"
proof -
  have "sint a div 1000 div 86400 = sint a div 86400000" by (simp flip: zdiv_zmult2_eq)
  moreover have "stamp (sint b div 1000) = stamp (sint a div 1000) \<longleftrightarrow> sint b div 1000 = sint a div 1000"
    if "is_rfc3339_year (fst (civil_ymd (sint a div 1000 div 86400)))"
      and "is_rfc3339_year (fst (civil_ymd (sint b div 1000 div 86400)))" for b :: i64
    using stamp_inj [OF that(2,1)] by auto
  ultimately show ?thesis by (auto simp: format_rfc3339_stamp stamp_length)
qed

lemma format_rfc3339_exact_witness:
  "format_rfc3339_ms 1709210096000 = Some ''2024-02-29T12:34:56Z''
   \<and> length ''2024-02-29T12:34:56Z'' = 20 \<and> format_rfc3339_ms 1709210096999 = Some ''2024-02-29T12:34:56Z''"
proof -
  have a: "format_rfc3339_ms 1709210096000 = Some ''2024-02-29T12:34:56Z''" by code_simp
  moreover have "sint (1709210096999 :: i64) div 1000 = sint (1709210096000 :: i64) div 1000" by code_simp
  ultimately show ?thesis
    using format_rfc3339_exact [of 1709210096000] by blast
qed

end
