(* ===== verification/Memd_Float.thy ===== *)
theory Memd_Float
  imports Complex_Main Memd_Order
begin

text \<open>
  Single-precision floats as the ranking code uses them. A value is a finite real number, an
  infinity or NaN; every arithmetic operation computes exactly on the reals and rounds once,
  as IEEE 754 prescribes. The rounding \<open>rnd\<close> (nearest representable value, overflow to an
  infinity) is a parameter, and the locale \<open>f32_round\<close> names what the proofs need of it. The
  two zeros are one value: they compare equal, and the code never divides by a computed zero
  without testing for it first, except where stated.
\<close>

datatype f32 = Fin real | PInf | NInf | NaN

type_synonym rounding = "real \<Rightarrow> f32"

fun is_finite :: "f32 \<Rightarrow> bool" where
  "is_finite (Fin _) = True"
| "is_finite _ = False"

fun is_nan :: "f32 \<Rightarrow> bool" where
  "is_nan NaN = True"
| "is_nan _ = False"

section \<open>Comparison\<close>

fun f_lt :: "f32 \<Rightarrow> f32 \<Rightarrow> bool" where
  "f_lt (Fin a) (Fin b) = (a < b)"
| "f_lt NaN _ = False"
| "f_lt _ NaN = False"
| "f_lt NInf b = (b \<noteq> NInf)"
| "f_lt a NInf = False"
| "f_lt PInf b = False"
| "f_lt a PInf = (a \<noteq> PInf)"

definition f_le :: "f32 \<Rightarrow> f32 \<Rightarrow> bool" where
  "f_le a b \<longleftrightarrow> f_lt a b \<or> (a = b \<and> \<not> is_nan a)"

definition f_eq :: "f32 \<Rightarrow> f32 \<Rightarrow> bool" where
  "f_eq a b \<longleftrightarrow> a = b \<and> \<not> is_nan a"

text \<open>\<open>PartialOrd::partial_cmp\<close>, and the idiom \<open>partial_cmp(..).unwrap_or(Equal)\<close> of the sorts.\<close>

definition partial_cmp :: "f32 \<Rightarrow> f32 \<Rightarrow> ordering option" where
  "partial_cmp a b =
     (if is_nan a \<or> is_nan b then None
      else Some (if f_lt a b then Less else if a = b then Equal else Greater))"

definition cmp_or_equal :: "f32 \<Rightarrow> f32 \<Rightarrow> ordering" where
  "cmp_or_equal a b = (case partial_cmp a b of None \<Rightarrow> Equal | Some c \<Rightarrow> c)"

text \<open>\<open>f32::max\<close> and \<open>f32::min\<close> ignore a NaN operand; \<open>clamp\<close> keeps it.\<close>

definition f_max :: "f32 \<Rightarrow> f32 \<Rightarrow> f32" where
  "f_max a b = (if is_nan a then b else if is_nan b then a else if f_lt a b then b else a)"

definition f_min :: "f32 \<Rightarrow> f32 \<Rightarrow> f32" where
  "f_min a b = (if is_nan a then b else if is_nan b then a else if f_lt b a then b else a)"

definition f_clamp :: "f32 \<Rightarrow> f32 \<Rightarrow> f32 \<Rightarrow> f32" where
  "f_clamp x lo hi = (if f_lt x lo then lo else if f_lt hi x then hi else x)"

section \<open>Arithmetic\<close>

fun f_neg :: "f32 \<Rightarrow> f32" where
  "f_neg (Fin a) = Fin (- a)"
| "f_neg PInf = NInf"
| "f_neg NInf = PInf"
| "f_neg NaN = NaN"

fun f_abs :: "f32 \<Rightarrow> f32" where
  "f_abs (Fin a) = Fin \<bar>a\<bar>"
| "f_abs PInf = PInf"
| "f_abs NInf = PInf"
| "f_abs NaN = NaN"

fun f_add :: "rounding \<Rightarrow> f32 \<Rightarrow> f32 \<Rightarrow> f32" where
  "f_add rnd (Fin a) (Fin b) = rnd (a + b)"
| "f_add rnd NaN _ = NaN"
| "f_add rnd _ NaN = NaN"
| "f_add rnd PInf NInf = NaN"
| "f_add rnd NInf PInf = NaN"
| "f_add rnd PInf _ = PInf"
| "f_add rnd _ PInf = PInf"
| "f_add rnd NInf _ = NInf"
| "f_add rnd _ NInf = NInf"

definition f_sub :: "rounding \<Rightarrow> f32 \<Rightarrow> f32 \<Rightarrow> f32" where
  "f_sub rnd a b = f_add rnd a (f_neg b)"

definition signed_inf :: "real \<Rightarrow> f32" where
  "signed_inf a = (if a > 0 then PInf else if a < 0 then NInf else NaN)"

fun f_mul :: "rounding \<Rightarrow> f32 \<Rightarrow> f32 \<Rightarrow> f32" where
  "f_mul rnd (Fin a) (Fin b) = rnd (a * b)"
| "f_mul rnd NaN _ = NaN"
| "f_mul rnd _ NaN = NaN"
| "f_mul rnd (Fin a) PInf = signed_inf a"
| "f_mul rnd (Fin a) NInf = signed_inf (- a)"
| "f_mul rnd PInf (Fin b) = signed_inf b"
| "f_mul rnd NInf (Fin b) = signed_inf (- b)"
| "f_mul rnd PInf PInf = PInf"
| "f_mul rnd NInf NInf = PInf"
| "f_mul rnd PInf NInf = NInf"
| "f_mul rnd NInf PInf = NInf"

fun f_div :: "rounding \<Rightarrow> f32 \<Rightarrow> f32 \<Rightarrow> f32" where
  "f_div rnd (Fin a) (Fin b) = (if b = 0 then signed_inf a else rnd (a / b))"
| "f_div rnd NaN _ = NaN"
| "f_div rnd _ NaN = NaN"
| "f_div rnd (Fin a) PInf = Fin 0"
| "f_div rnd (Fin a) NInf = Fin 0"
| "f_div rnd PInf (Fin b) = (if b < 0 then NInf else PInf)"
| "f_div rnd NInf (Fin b) = (if b < 0 then PInf else NInf)"
| "f_div rnd _ _ = NaN"

fun f_sqrt :: "rounding \<Rightarrow> f32 \<Rightarrow> f32" where
  "f_sqrt rnd (Fin a) = (if a < 0 then NaN else rnd (sqrt a))"
| "f_sqrt rnd PInf = PInf"
| "f_sqrt rnd _ = NaN"

text \<open>\<open>iter().sum::<f32>()\<close>: additions from the left, starting at zero.\<close>

definition f_sum :: "rounding \<Rightarrow> f32 list \<Rightarrow> f32" where
  "f_sum rnd xs = foldl (f_add rnd) (Fin 0) xs"

definition f_of_nat :: "rounding \<Rightarrow> nat \<Rightarrow> f32" where
  "f_of_nat rnd n = rnd (real n)"

section \<open>Order facts\<close>

lemma f_lt_irrefl [simp]: "\<not> f_lt a a"
  by (cases a) simp_all

lemma f_lt_trans: "f_lt a b \<Longrightarrow> f_lt b c \<Longrightarrow> f_lt a c"
  by (cases a; cases b; cases c) auto

lemma f_lt_asym: "f_lt a b \<Longrightarrow> \<not> f_lt b a"
  by (cases a; cases b) auto

lemma f_lt_nan: "f_lt a b \<Longrightarrow> \<not> is_nan a \<and> \<not> is_nan b"
  by (cases a; cases b) auto

lemma f_lt_linear: "\<not> is_nan a \<Longrightarrow> \<not> is_nan b \<Longrightarrow> f_lt a b \<or> a = b \<or> f_lt b a"
  by (cases a; cases b) auto

lemma f_le_refl: "\<not> is_nan a \<Longrightarrow> f_le a a"
  by (simp add: f_le_def)

lemma f_le_trans: "f_le a b \<Longrightarrow> f_le b c \<Longrightarrow> f_le a c"
  by (auto simp: f_le_def dest: f_lt_trans)

lemma f_le_nan: "f_le a b \<Longrightarrow> \<not> is_nan a \<and> \<not> is_nan b"
  by (auto simp: f_le_def dest: f_lt_nan)

lemma f_le_Fin [simp]: "f_le (Fin a) (Fin b) \<longleftrightarrow> a \<le> b"
  by (auto simp: f_le_def)

lemma f_le_cases [simp]:
  "f_le (Fin a) PInf" "\<not> f_le (Fin a) NInf" "\<not> f_le x NaN" "\<not> f_le NaN x" "f_le PInf PInf"
  "\<not> f_le PInf (Fin a)"
  by (cases x; simp add: f_le_def)+

lemma f_le_antisym: "f_le a b \<Longrightarrow> f_le b a \<Longrightarrow> a = b"
  by (auto simp: f_le_def dest: f_lt_asym)

lemma not_f_lt: "\<not> is_nan a \<Longrightarrow> \<not> is_nan b \<Longrightarrow> \<not> f_lt a b \<longleftrightarrow> f_le b a"
  using f_lt_linear [of a b] f_lt_asym [of b a] by (auto simp: f_le_def)

lemma f_le_between: "f_le (Fin a) x \<Longrightarrow> f_le x (Fin b) \<Longrightarrow> \<exists>c. x = Fin c \<and> a \<le> c \<and> c \<le> b"
  by (cases x) (auto simp: f_le_def)

lemma cmp_or_equal_flip: "cmp_or_equal b a = reverse (cmp_or_equal a b)"
  using f_lt_linear [of a b] f_lt_asym [of a b] f_lt_asym [of b a]
  by (auto simp: cmp_or_equal_def partial_cmp_def)

lemma cmp_or_equal_le:
  "\<not> is_nan a \<Longrightarrow> \<not> is_nan b \<Longrightarrow> cmp_or_equal a b \<noteq> Greater \<longleftrightarrow> f_le a b"
  by (auto simp: cmp_or_equal_def partial_cmp_def f_le_def)

text \<open>Sorting by a NaN-free score, ascending or descending, meets the contract of \<open>sort_by\<close>.\<close>

lemma comparator_f32:
  assumes "\<And>x. x \<in> S \<Longrightarrow> \<not> is_nan (f x)"
  shows "comparator (\<lambda>x y. cmp_or_equal (f x) (f y)) S"
proof
  show "cmp_or_equal (f y) (f x) = reverse (cmp_or_equal (f x) (f y))" for x y
    by (rule cmp_or_equal_flip)
  show "cmp_or_equal (f x) (f z) \<noteq> Greater" if "x \<in> S" "y \<in> S" "z \<in> S"
      "cmp_or_equal (f x) (f y) \<noteq> Greater" "cmp_or_equal (f y) (f z) \<noteq> Greater" for x y z
    using that assms by (simp add: cmp_or_equal_le f_le_trans [of "f x" "f y" "f z"])
qed

lemmas comparator_f32_desc = comparator_flip [OF comparator_f32]

lemma f_clamp_bounds:
  assumes "\<not> is_nan x" and "f_le lo hi"
  shows "f_le lo (f_clamp x lo hi) \<and> f_le (f_clamp x lo hi) hi"
proof -
  have n: "\<not> is_nan lo" "\<not> is_nan hi" using assms(2) f_le_nan by blast+
  with assms show ?thesis
    by (auto simp: f_clamp_def not_f_lt f_le_refl)
qed

section \<open>Rounding\<close>

locale f32_round =
  fixes rnd :: rounding
  assumes rnd_mono: "x \<le> y \<Longrightarrow> f_le (rnd x) (rnd y)"
    and rnd_repr: "rnd x = Fin y \<Longrightarrow> rnd y = Fin y"
    and rnd_0: "rnd 0 = Fin 0"
    and rnd_1: "rnd 1 = Fin 1"
    and rnd_neg: "rnd x = Fin x \<Longrightarrow> rnd (- x) = Fin (- x)"
begin

lemma rnd_not_nan [simp]: "\<not> is_nan (rnd x)"
  using rnd_mono [of x x] f_le_nan by blast

lemma rnd_nonneg: "0 \<le> x \<Longrightarrow> f_le (Fin 0) (rnd x)"
  using rnd_mono [of 0 x] by (simp add: rnd_0)

lemma rnd_unit:
  assumes "0 \<le> x" and "x \<le> 1"
  obtains y where "rnd x = Fin y" and "0 \<le> y" and "y \<le> 1"
  using rnd_mono [OF assms(1)] rnd_mono [OF assms(2)] f_le_between [of 0 "rnd x" 1] by (auto simp: rnd_0 rnd_1)

lemma rnd_between:
  assumes "rnd a = Fin a" and "rnd b = Fin b" and "a \<le> x" and "x \<le> b"
  shows "\<exists>y. rnd x = Fin y \<and> a \<le> y \<and> y \<le> b"
  using rnd_mono [OF assms(3)] rnd_mono [OF assms(4)] f_le_between [of a "rnd x" b] assms(1,2) by simp

end

text \<open>Without rounding, and with the spacing of the floats in [1, 2) and overflow.\<close>

interpretation exact32: f32_round Fin
  by unfold_locales simp_all

definition f32_limit :: real where
  "f32_limit = 2 ^ 128"

lemma f32_limit_gt_1: "1 < f32_limit"
  unfolding f32_limit_def by (rule one_less_power) simp_all

definition round32 :: rounding where
  "round32 x =
     (let y = of_int (round (x * 2 ^ 23)) / 2 ^ 23
      in if y \<ge> f32_limit then PInf else if y \<le> - f32_limit then NInf else Fin y)"

lemma round_grid: "round (real_of_int k) = k"
  by simp

interpretation grid32: f32_round round32
proof
  have m: "real_of_int (round (x * 2 ^ 23)) / 2 ^ 23 \<le> real_of_int (round (y * 2 ^ 23)) / 2 ^ 23"
    if "x \<le> y" for x y :: real
    using that by (intro divide_right_mono of_int_le_iff [THEN iffD2] round_mono mult_right_mono) simp_all
  show "f_le (round32 x) (round32 y)" if "x \<le> y" for x y
    using m [OF that] by (auto simp: round32_def Let_def f_le_def)
  show "round32 y = Fin y" if "round32 x = Fin y" for x y
  proof -
    define k where "k = round (x * 2 ^ 23)"
    have y: "y = of_int k / 2 ^ 23" "\<not> f32_limit \<le> y" "\<not> y \<le> - f32_limit"
      using that unfolding k_def round32_def Let_def by (auto split: if_splits)
    then have "y * 2 ^ 23 = of_int k" by simp
    then have "of_int (round (y * 2 ^ 23)) / 2 ^ 23 = y" using y(1) by (simp only: round_grid)
    with y(2,3) show ?thesis unfolding round32_def Let_def by (simp only: if_False)
  qed
  show "round32 (- x) = Fin (- x)" if "round32 x = Fin x" for x
  proof -
    define k where "k = round (x * 2 ^ 23)"
    have x: "x = of_int k / 2 ^ 23" "\<not> f32_limit \<le> x" "\<not> x \<le> - f32_limit"
      using that unfolding k_def round32_def Let_def by (auto split: if_splits)
    then have "- x * 2 ^ 23 = of_int (- k)" by simp
    then have "round (- x * 2 ^ 23) = - k" by (simp only: round_grid)
    then have "of_int (round (- x * 2 ^ 23)) / 2 ^ 23 = - x" using x(1) by simp
    with x(2,3) show ?thesis unfolding round32_def Let_def by simp
  qed
  show "round32 0 = Fin 0" using f32_limit_gt_1 by (simp add: round32_def)
  have "round (2 ^ 23 :: real) = (2 ^ 23 :: int)" by (metis of_int_numeral of_int_power round_grid)
  then show "round32 1 = Fin 1" using f32_limit_gt_1 by (simp add: round32_def)
qed

end
