(* ===== verification/Packer.thy ===== *)
theory Packer
  imports Memd_Float Memd_Types
begin

text \<open>
  The context packer (\<open>retrieval/packer.rs\<close>): results are sorted by score, stripped of duplicate
  hashes and of near duplicates by embedding, ordered by maximal marginal relevance and cut at
  the token budget. \<open>usize\<close> values are numbers below \<open>2 ^ 64\<close>; the product of the two budget
  settings wraps as in a release build. A division by zero (\<open>chars_per_token = 0\<close>) panics, which
  is the result \<open>None\<close>.
\<close>

section \<open>Data\<close>

record packer_config =
  max_tokens :: nat
  chars_per_token :: nat
  mmr_lambda :: f32
  dedup_threshold :: f32
  min_per_type :: nat

definition default_packer :: "rounding \<Rightarrow> packer_config" where
  "default_packer rnd = \<lparr>max_tokens = 4000, chars_per_token = 4, mmr_lambda = rnd 0.7,
                         dedup_threshold = rnd 0.9, min_per_type = 1\<rparr>"

record packer_input =
  pi_chunk_id :: string
  pi_text :: string
  pi_chunk_type :: chunk_type
  pi_score :: f32
  pi_hash :: string
  pi_embedding :: "f32 list option"
  pi_source_uri :: "string option"

record packed_chunk =
  pc_chunk_id :: string
  pc_text :: string
  pc_chunk_type :: chunk_type
  pc_score :: f32
  pc_source_uri :: "string option"
  pc_token_count :: nat

record packed_context =
  px_chunks :: "packed_chunk list"
  px_total_tokens :: nat
  px_duplicates_removed :: nat
  px_diversity_adjustments :: nat

definition cosine_similarity :: "rounding \<Rightarrow> f32 list \<Rightarrow> f32 list \<Rightarrow> f32" where
  "cosine_similarity rnd a b =
     (if length a \<noteq> length b then Fin 0
      else let dot = f_sum rnd (map (\<lambda>(x, y). f_mul rnd x y) (zip a b));
               norm_a = f_sqrt rnd (f_sum rnd (map (\<lambda>x. f_mul rnd x x) a));
               norm_b = f_sqrt rnd (f_sum rnd (map (\<lambda>x. f_mul rnd x x) b))
           in if f_eq norm_a (Fin 0) \<or> f_eq norm_b (Fin 0) then Fin 0
              else f_div rnd dot (f_mul rnd norm_a norm_b))"

section \<open>Deduplication\<close>

fun deduplicate_by_hash :: "string set \<Rightarrow> packer_input list \<Rightarrow> packer_input list \<times> nat" where
  "deduplicate_by_hash seen [] = ([], 0)"
| "deduplicate_by_hash seen (c # cs) =
     (if pi_hash c \<notin> seen
      then let (result, removed) = deduplicate_by_hash (insert (pi_hash c) seen) cs in (c # result, removed)
      else let (result, removed) = deduplicate_by_hash seen cs in (result, removed + 1))"

definition near :: "rounding \<Rightarrow> packer_config \<Rightarrow> packer_input \<Rightarrow> packer_input \<Rightarrow> bool" where
  "near rnd cfg c s \<longleftrightarrow>
     (case pi_embedding c of
        None \<Rightarrow> False
      | Some emb \<Rightarrow>
         (case pi_embedding s of
            None \<Rightarrow> False
          | Some sel_emb \<Rightarrow> f_lt (dedup_threshold cfg) (cosine_similarity rnd emb sel_emb)))"

fun deduplicate_by_similarity ::
  "rounding \<Rightarrow> packer_config \<Rightarrow> packer_input list \<Rightarrow> packer_input list \<Rightarrow> packer_input list" where
  "deduplicate_by_similarity rnd cfg result [] = result"
| "deduplicate_by_similarity rnd cfg result (c # cs) =
     deduplicate_by_similarity rnd cfg
       (if list_ex (near rnd cfg c) result then result else result @ [c]) cs"

section \<open>Maximal marginal relevance\<close>

definition compute_diversity :: "rounding \<Rightarrow> packer_input \<Rightarrow> packer_input list \<Rightarrow> f32" where
  "compute_diversity rnd c selected =
     (if selected = [] then Fin 1
      else case pi_embedding c of
        Some emb \<Rightarrow>
          let sims = List.map_filter (\<lambda>s. map_option (cosine_similarity rnd emb) (pi_embedding s)) selected;
              max_sim = foldl f_max (Fin 0) sims
          in f_sub rnd (Fin 1) max_sim
      | None \<Rightarrow>
          let same_type_count = length (filter (\<lambda>s. pi_chunk_type s = pi_chunk_type c) selected)
          in if same_type_count = 0 then Fin 1 else f_div rnd (Fin (1 / 2)) (f_of_nat rnd same_type_count))"

definition f32_epsilon :: f32 where
  "f32_epsilon = Fin (1 / 2 ^ 23)"

definition score_range :: "rounding \<Rightarrow> f32 \<Rightarrow> f32 \<Rightarrow> f32" where
  "score_range rnd max_score min_score =
     (let d = f_sub rnd max_score min_score in if f_lt (f_abs d) f32_epsilon then Fin 1 else d)"

definition mmr_value :: "rounding \<Rightarrow> packer_config \<Rightarrow> f32 \<Rightarrow> f32 \<Rightarrow> packer_input list \<Rightarrow> packer_input \<Rightarrow> f32" where
  "mmr_value rnd cfg min_score rng selected c =
     (let relevance = f_div rnd (f_sub rnd (pi_score c) min_score) rng;
          diversity = compute_diversity rnd c selected
      in f_add rnd (f_mul rnd (mmr_lambda cfg) relevance)
           (f_mul rnd (f_sub rnd (Fin 1) (mmr_lambda cfg)) diversity))"

text \<open>One pass over the remaining candidates: index, value and whether a later one took the lead.\<close>

fun mmr_scan :: "(packer_input \<Rightarrow> f32) \<Rightarrow> nat \<Rightarrow> packer_input list \<Rightarrow> nat \<times> f32 \<times> bool \<Rightarrow> nat \<times> f32 \<times> bool" where
  "mmr_scan val idx [] best = best"
| "mmr_scan val idx (c # cs) (best_idx, best_mmr, changed) =
     mmr_scan val (idx + 1) cs
       (let mmr = val c
        in if f_lt best_mmr mmr then (idx, mmr, changed \<or> idx \<noteq> 0) else (best_idx, best_mmr, changed))"

lemma mmr_scan_bound:
  "mmr_scan val idx cs (i, b, ch) = (i', b', ch') \<Longrightarrow> i' = i \<or> idx \<le> i' \<and> i' < idx + length cs"
proof (induction cs arbitrary: idx i b ch)
  case (Cons c cs)
  let ?s = "if f_lt b (val c) then (idx, val c, ch \<or> idx \<noteq> 0) else (i, b, ch)"
  obtain j e f where s: "?s = (j, e, f)" by (cases ?s) auto
  from Cons.prems s have "mmr_scan val (idx + 1) cs (j, e, f) = (i', b', ch')" by (simp add: Let_def)
  from Cons.IH [OF this] s show ?case by (auto split: if_splits)
qed simp

definition remove_at :: "nat \<Rightarrow> 'a list \<Rightarrow> 'a list" where
  "remove_at i xs = take i xs @ drop (Suc i) xs"

lemma length_remove_at [simp]: "i < length xs \<Longrightarrow> length (remove_at i xs) = length xs - 1"
  by (simp add: remove_at_def)

lemma mset_remove_at: "i < length xs \<Longrightarrow> add_mset (xs ! i) (mset (remove_at i xs)) = mset xs"
  by (metis id_take_nth_drop mset.simps(2) mset_append remove_at_def union_mset_add_mset_right)

lemma mmr_best_bound:
  "mmr_scan val 0 (c # cs) (0, NInf, False) = (i, b, ch) \<Longrightarrow> i < length (c # cs)"
  using mmr_scan_bound [of val 0 "c # cs" 0 NInf False i b ch] by auto

function mmr_loop ::
  "rounding \<Rightarrow> packer_config \<Rightarrow> f32 \<Rightarrow> f32 \<Rightarrow> packer_input list \<Rightarrow> packer_input list \<Rightarrow> nat
     \<Rightarrow> packer_input list \<times> nat" where
  "mmr_loop rnd cfg min_score rng selected [] adjustments = (selected, adjustments)"
| "mmr_loop rnd cfg min_score rng selected (c # cs) adjustments =
     (let remaining = c # cs;
          (best_idx, best_mmr, changed) =
            mmr_scan (mmr_value rnd cfg min_score rng selected) 0 remaining (0, NInf, False)
      in mmr_loop rnd cfg min_score rng (selected @ [remaining ! best_idx]) (remove_at best_idx remaining)
           (if changed \<and> best_idx \<noteq> 0 then adjustments + 1 else adjustments))"
  by pat_completeness auto
termination
proof (relation "measure (\<lambda>(_, _, _, _, _, remaining, _). length remaining)", goal_cases)
  case (2 rnd cfg min_score rng selected c cs adjustments remaining x i y b ch)
  then have "i < length remaining" using mmr_best_bound by metis
  with 2 show ?case by simp
qed simp

definition mmr_select :: "rounding \<Rightarrow> packer_config \<Rightarrow> packer_input list \<Rightarrow> packer_input list \<times> nat" where
  "mmr_select rnd cfg chunks =
     (if chunks = [] then ([], 0)
      else let max_score = foldl f_max NInf (map pi_score chunks);
               min_score = foldl f_min PInf (map pi_score chunks)
           in mmr_loop rnd cfg min_score (score_range rnd max_score min_score) [] chunks 0)"

section \<open>Output\<close>

text \<open>
  The loop over the types with too few chunks: both of its paths leave the selection alone. The
  types come from a hash set, whose order therefore does not matter.
\<close>

definition type_count :: "packer_input list \<Rightarrow> chunk_type \<Rightarrow> nat" where
  "type_count chunks t = length (filter (\<lambda>c. pi_chunk_type c = t) chunks)"

fun swap_missing :: "packer_config \<Rightarrow> packer_input list \<Rightarrow> chunk_type list \<Rightarrow> packer_input list" where
  "swap_missing cfg chunks [] = chunks"
| "swap_missing cfg chunks (t # ts) =
     (if type_count chunks t \<ge> min_per_type cfg then swap_missing cfg chunks ts else swap_missing cfg chunks ts)"

definition enforce_type_diversity :: "packer_config \<Rightarrow> packer_input list \<Rightarrow> packer_input list" where
  "enforce_type_diversity cfg chunks =
     (if min_per_type cfg = 0 \<or> length chunks < 2 then chunks
      else let all_types = remdups (map pi_chunk_type chunks);
               missing_types = filter (\<lambda>t. type_count chunks t < min_per_type cfg) all_types
           in swap_missing cfg chunks missing_types)"

lemma enforce_type_diversity_same [simp]: "enforce_type_diversity cfg chunks = chunks"
proof -
  have "swap_missing cfg chunks ts = chunks" for ts by (induction ts) simp_all
  then show ?thesis by (simp add: enforce_type_diversity_def Let_def)
qed

definition div_ceil :: "nat \<Rightarrow> nat \<Rightarrow> nat option" where
  "div_ceil a b = (if b = 0 then None else Some ((a + b - 1) div b))"

definition to_packed :: "packer_input \<Rightarrow> nat \<Rightarrow> packed_chunk" where
  "to_packed c tokens =
     \<lparr>pc_chunk_id = pi_chunk_id c, pc_text = pi_text c, pc_chunk_type = pi_chunk_type c,
      pc_score = pi_score c, pc_source_uri = pi_source_uri c, pc_token_count = tokens\<rparr>"

fun take_budget :: "nat \<Rightarrow> nat \<Rightarrow> nat \<Rightarrow> packer_input list \<Rightarrow> (packed_chunk list \<times> nat) option" where
  "take_budget cpt max_chars used [] = Some ([], used)"
| "take_budget cpt max_chars used (c # cs) =
     (case div_ceil (length (pi_text c)) cpt of
        None \<Rightarrow> None
      | Some tokens \<Rightarrow>
         if used + length (pi_text c) > max_chars then Some ([], used)
         else case take_budget cpt max_chars (used + length (pi_text c)) cs of
             None \<Rightarrow> None
           | Some (result, used') \<Rightarrow> Some (to_packed c tokens # result, used'))"

definition build_output :: "packer_config \<Rightarrow> packer_input list \<Rightarrow> nat \<Rightarrow> nat \<Rightarrow> packed_context option" where
  "build_output cfg chunks removed adjustments =
     (let max_chars = (max_tokens cfg * chars_per_token cfg) mod 2 ^ 64
      in case take_budget (chars_per_token cfg) max_chars 0 chunks of
           None \<Rightarrow> None
         | Some (result, total_chars) \<Rightarrow>
            (case div_ceil total_chars (chars_per_token cfg) of
               None \<Rightarrow> None
             | Some total_tokens \<Rightarrow>
                 Some \<lparr>px_chunks = result, px_total_tokens = total_tokens,
                       px_duplicates_removed = removed, px_diversity_adjustments = adjustments\<rparr>))"

definition score_desc :: "packer_input \<Rightarrow> packer_input \<Rightarrow> ordering" where
  "score_desc a b = cmp_or_equal (pi_score b) (pi_score a)"

definition pack :: "rounding \<Rightarrow> packer_config \<Rightarrow> packer_input list \<Rightarrow> packed_context option" where
  "pack rnd cfg chunks =
     (if chunks = []
      then Some \<lparr>px_chunks = [], px_total_tokens = 0, px_duplicates_removed = 0, px_diversity_adjustments = 0\<rparr>
      else let sorted = sort_by score_desc chunks;
               (deduped, removed) = deduplicate_by_hash {} sorted;
               deduped1 = deduplicate_by_similarity rnd cfg [] deduped;
               (selected, adjustments) = mmr_select rnd cfg deduped1;
               selected1 = enforce_type_diversity cfg selected
           in build_output cfg selected1 removed adjustments)"

section \<open>What each stage keeps\<close>

lemma dedup_hash_distinct:
  "deduplicate_by_hash seen cs = (r, n) \<Longrightarrow> distinct (map pi_hash r) \<and> pi_hash ` set r \<inter> seen = {}"
proof (induction cs arbitrary: seen r n)
  case (Cons c cs)
  then show ?case by (fastforce simp: Let_def split: if_splits prod.splits)
qed simp

lemma dedup_hash_count: "deduplicate_by_hash seen cs = (r, n) \<Longrightarrow> length r + n = length cs"
  by (induction cs arbitrary: seen r n) (fastforce simp: Let_def split: if_splits prod.splits)+

lemma subset_add_mset: "A \<subseteq># B \<Longrightarrow> A \<subseteq># add_mset c B"
  using subset_mset.order_trans [OF _ mset_subset_eq_add_left [of B "{#c#}"]] by simp

lemma dedup_hash_subset: "deduplicate_by_hash seen cs = (r, n) \<Longrightarrow> mset r \<subseteq># mset cs"
proof (induction cs arbitrary: seen r n)
  case (Cons c cs)
  then show ?case
    by (fastforce simp: Let_def intro: subset_add_mset split: if_splits prod.splits)
qed simp

text \<open>The first chunk with a hash is kept, so a kept chunk precedes every other with its hash.\<close>

lemma dedup_hash_first:
  assumes "deduplicate_by_hash seen cs = (r, n)" and "sorted_wrt R cs" and "reflp_on (set cs) R"
  shows "\<forall>c \<in> set cs. pi_hash c \<in> seen \<or> (\<exists>k \<in> set r. pi_hash k = pi_hash c \<and> R k c)"
  using assms
proof (induction cs arbitrary: seen r n)
  case (Cons c cs)
  have refl: "reflp_on (set cs) R" "R c c" using Cons.prems(3) by (auto simp: reflp_on_def)
  have later: "R c x" if "x \<in> set cs" for x using Cons.prems(2) that by simp
  show ?case
  proof (cases "pi_hash c \<in> seen")
    case True
    obtain r' n' where d: "deduplicate_by_hash seen cs = (r', n')" by fastforce
    with Cons.prems(1) True have "r = r'" by simp
    with Cons.IH [OF d _ refl(1)] Cons.prems(2) True show ?thesis by auto
  next
    case False
    obtain r' n' where d: "deduplicate_by_hash (insert (pi_hash c) seen) cs = (r', n')" by fastforce
    with Cons.prems(1) False have "r = c # r'" by simp
    with Cons.IH [OF d _ refl(1)] Cons.prems(2) refl(2) later show ?thesis by fastforce
  qed
qed simp

lemma dedup_hash_members: "deduplicate_by_hash seen cs = (r, n) \<Longrightarrow> set r \<subseteq> set cs"
  by (metis dedup_hash_subset set_mset_mono set_mset_mset)

lemma f_mul_commute: "f_mul rnd a b = f_mul rnd b a"
  by (cases a; cases b) (simp_all add: mult.commute)

lemma cosine_commute: "cosine_similarity rnd a b = cosine_similarity rnd b a"
proof -
  have "map (\<lambda>(x, y). f_mul rnd x y) (zip a b) = map (\<lambda>(x, y). f_mul rnd x y) (zip b a)"
    by (rule nth_equalityI) (auto simp: f_mul_commute)
  then show ?thesis by (auto simp: cosine_similarity_def Let_def f_mul_commute)
qed

lemma near_commute: "near rnd cfg a b = near rnd cfg b a"
  by (auto simp: near_def cosine_commute split: option.splits)

lemma dedup_similarity_prefix: "\<exists>r'. deduplicate_by_similarity rnd cfg result cs = result @ r' \<and> mset r' \<subseteq># mset cs"
proof (induction cs arbitrary: result)
  case (Cons c cs)
  show ?case
  proof (cases "list_ex (near rnd cfg c) result")
    case True
    with Cons.IH [of result] show ?thesis
      by (auto intro: subset_add_mset)
  next
    case False
    with Cons.IH [of "result @ [c]"] show ?thesis by auto
  qed
qed simp

lemma dedup_similarity_far:
  "sorted_wrt (\<lambda>a b. \<not> near rnd cfg b a) result \<Longrightarrow>
   sorted_wrt (\<lambda>a b. \<not> near rnd cfg b a) (deduplicate_by_similarity rnd cfg result cs)"
  by (induction cs arbitrary: result) (auto simp: sorted_wrt_append list_ex_iff)

lemma mmr_loop_perm: "mset (fst (mmr_loop rnd cfg ms rng selected remaining adj)) = mset selected + mset remaining"
proof (induction rnd cfg ms rng selected remaining adj rule: mmr_loop.induct)
  case (2 rnd cfg ms rng selected c cs adj)
  obtain i b ch where s: "mmr_scan (mmr_value rnd cfg ms rng selected) 0 (c # cs) (0, NInf, False) = (i, b, ch)"
    by (metis prod_cases3)
  then have "i < length (c # cs)" by (rule mmr_best_bound)
  with 2 [OF refl s [symmetric] refl] mset_remove_at [of i "c # cs"] s show ?case
    by (simp add: Let_def)
qed simp

lemma mmr_select_perm: "mset (fst (mmr_select rnd cfg cs)) = mset cs"
  by (simp add: mmr_select_def mmr_loop_perm Let_def)

text \<open>The budget keeps the longest prefix that fits.\<close>

definition text_size :: "packer_input list \<Rightarrow> nat" where
  "text_size cs = sum_list (map (\<lambda>c. length (pi_text c)) cs)"

lemma take_budget_prefix:
  assumes "0 < cpt"
  shows "\<exists>n. take_budget cpt m u cs = Some (map (\<lambda>c. to_packed c ((length (pi_text c) + cpt - 1) div cpt)) (take n cs),
                                          u + text_size (take n cs))
      \<and> n \<le> length cs \<and> (u \<le> m \<longrightarrow> u + text_size (take n cs) \<le> m)
      \<and> (n < length cs \<longrightarrow> m < u + text_size (take (Suc n) cs))"
proof (induction cs arbitrary: u)
  case Nil
  then show ?case by (auto simp: text_size_def)
next
  case (Cons c cs)
  show ?case
  proof (cases "u + length (pi_text c) > m")
    case True
    then show ?thesis using assms
      by (intro exI [of _ 0]) (simp add: div_ceil_def text_size_def)
  next
    case False
    obtain n where "take_budget cpt m (u + length (pi_text c)) cs =
        Some (map (\<lambda>c. to_packed c ((length (pi_text c) + cpt - 1) div cpt)) (take n cs),
              u + length (pi_text c) + text_size (take n cs))"
      "n \<le> length cs" "u + length (pi_text c) \<le> m \<longrightarrow> u + length (pi_text c) + text_size (take n cs) \<le> m"
      "n < length cs \<longrightarrow> m < u + length (pi_text c) + text_size (take (Suc n) cs)"
      using Cons.IH [of "u + length (pi_text c)"] by blast
    then show ?thesis using assms False
      by (intro exI [of _ "Suc n"]) (auto simp: div_ceil_def text_size_def)
  qed
qed

lemma div_ceil_mono: "0 < b \<Longrightarrow> a \<le> k * b \<Longrightarrow> (a + b - 1) div b \<le> k" for a b k :: nat
proof -
  assume "0 < b" and "a \<le> k * b"
  then have "a + b - 1 < (k + 1) * b" by simp
  from less_mult_imp_div_less [OF this] show ?thesis by simp
qed

lemma distinct_submset:
  assumes "mset xs \<subseteq># mset ys" and "distinct ys"
  shows "distinct xs"
proof -
  have "count (mset ys) a \<le> 1" for a using assms(2) by (simp add: distinct_count_atmost_1)
  then have "count (mset xs) a \<le> 1" for a
    using mset_subset_eq_count [OF assms(1), of a] le_trans by blast
  then show ?thesis
    by (metis One_nat_def count_greater_eq_one_iff distinct_count_atmost_1 le_antisym not_in_iff set_mset_mset)
qed

lemma sorted_wrt_pairs:
  assumes "sorted_wrt P xs" and "\<And>a b. P a b = P b a" and "a \<in> set xs" and "b \<in> set xs" and "a \<noteq> b"
  shows "P a b"
  using assms by (induction xs) auto

lemma dedup_similarity_ok:
  "mset (deduplicate_by_similarity rnd cfg [] cs) \<subseteq># mset cs
   \<and> (\<forall>a \<in> set (deduplicate_by_similarity rnd cfg [] cs).
       \<forall>b \<in> set (deduplicate_by_similarity rnd cfg [] cs). a \<noteq> b \<longrightarrow> \<not> near rnd cfg a b)"
  using dedup_similarity_prefix [of rnd cfg "[]" cs] dedup_similarity_far [of rnd cfg "[]" cs]
    sorted_wrt_pairs [of "\<lambda>a b. \<not> near rnd cfg b a"] near_commute
  by (metis append_Nil sorted_wrt.simps(1))

text \<open>Sorting and hash deduplication keep the best chunk of every hash.\<close>

lemma dedup_sorted_ok:
  assumes "\<forall>c \<in> set inputs. \<not> is_nan (pi_score c)" and "deduplicate_by_hash {} (sort_by score_desc inputs) = (r, n)"
  shows "mset r \<subseteq># mset inputs" and "distinct (map pi_hash r)" and "n + card (pi_hash ` set inputs) = length inputs"
    and "\<forall>a \<in> set r. \<forall>c \<in> set inputs. pi_hash c = pi_hash a \<longrightarrow> f_le (pi_score c) (pi_score a)"
proof -
  show sub: "mset r \<subseteq># mset inputs" using dedup_hash_subset [OF assms(2)] by simp
  show dist: "distinct (map pi_hash r)" using dedup_hash_distinct [OF assms(2)] by simp
  have "comparator score_desc (set inputs)"
    unfolding score_desc_def by (rule comparator_f32_desc) (use assms(1) in blast)
  then have "sorted_by score_desc (sort_by score_desc inputs)"
    by (rule comparator.sorted_sort_by) simp
  moreover have "reflp_on (set (sort_by score_desc inputs)) (\<lambda>x y. score_desc x y \<noteq> Greater)"
    using comparator.cmp_refl [OF \<open>comparator score_desc (set inputs)\<close>] by (simp add: reflp_on_def)
  ultimately have first: "\<forall>c \<in> set inputs. \<exists>k \<in> set r. pi_hash k = pi_hash c \<and> score_desc k c \<noteq> Greater"
    using dedup_hash_first [OF assms(2)] by simp
  have mem: "set r \<subseteq> set inputs" using dedup_hash_members [OF assms(2)] by simp
  with first have "pi_hash ` set r = pi_hash ` set inputs" by (auto simp: image_iff) metis
  moreover have "card (pi_hash ` set r) = length r" using dist by (metis distinct_card length_map set_map)
  ultimately show "n + card (pi_hash ` set inputs) = length inputs"
    using dedup_hash_count [OF assms(2)] by simp
  show "\<forall>a \<in> set r. \<forall>c \<in> set inputs. pi_hash c = pi_hash a \<longrightarrow> f_le (pi_score c) (pi_score a)"
  proof (intro ballI impI)
    fix a c assume a: "a \<in> set r" and c: "c \<in> set inputs" "pi_hash c = pi_hash a"
    with first obtain k where "k \<in> set r" "pi_hash k = pi_hash c" "score_desc k c \<noteq> Greater" by blast
    moreover from this a c dist have "k = a" by (metis distinct_map inj_on_eq_iff)
    ultimately show "f_le (pi_score c) (pi_score a)"
      using a c assms(1) mem by (auto simp: score_desc_def cmp_or_equal_le)
  qed
qed

section \<open>Properties\<close>

text \<open>
  C32. With a positive \<open>chars_per_token\<close>, a budget that fits a machine word and scores that
  are numbers, packing returns, and its chunks are a selection of the input: no input twice, no
  two with one hash, no two whose embeddings are closer than the threshold, every one the best
  scored of its hash, within the token budget. The reported duplicates are the inputs whose
  hash was seen before.
\<close>

theorem pack_selects:
  assumes "0 < chars_per_token cfg" and "max_tokens cfg * chars_per_token cfg < 2 ^ 64"
    and "\<forall>c \<in> set inputs. \<not> is_nan (pi_score c)"
  shows "\<exists>ctx sel. pack rnd cfg inputs = Some ctx
      \<and> px_chunks ctx = map (\<lambda>c. to_packed c ((length (pi_text c) + chars_per_token cfg - 1) div chars_per_token cfg)) sel
      \<and> mset sel \<subseteq># mset inputs \<and> distinct (map pi_hash sel)
      \<and> (\<forall>a \<in> set sel. \<forall>b \<in> set sel. a \<noteq> b \<longrightarrow> \<not> near rnd cfg a b)
      \<and> (\<forall>a \<in> set sel. \<forall>c \<in> set inputs. pi_hash c = pi_hash a \<longrightarrow> f_le (pi_score c) (pi_score a))
      \<and> px_total_tokens ctx = (text_size sel + chars_per_token cfg - 1) div chars_per_token cfg
      \<and> px_total_tokens ctx \<le> max_tokens cfg
      \<and> px_duplicates_removed ctx + card (pi_hash ` set inputs) = length inputs"
proof (cases "inputs = []")
  case True
  then show ?thesis using assms(1) by (intro exI [of _ "the (pack rnd cfg inputs)"] exI [of _ "[]"])
      (simp add: pack_def text_size_def)
next
  case False
  obtain r n where r: "deduplicate_by_hash {} (sort_by score_desc inputs) = (r, n)" by fastforce
  note dedup = dedup_sorted_ok [OF assms(3) r]
  define s where "s = deduplicate_by_similarity rnd cfg [] r"
  note far = dedup_similarity_ok [of rnd cfg r, folded s_def]
  obtain m adj where m: "mmr_select rnd cfg s = (m, adj)" by fastforce
  obtain k where k: "take_budget (chars_per_token cfg) (max_tokens cfg * chars_per_token cfg) 0 m =
        Some (map (\<lambda>c. to_packed c ((length (pi_text c) + chars_per_token cfg - 1) div chars_per_token cfg)) (take k m),
              text_size (take k m))"
      "text_size (take k m) \<le> max_tokens cfg * chars_per_token cfg"
    using take_budget_prefix [OF assms(1), of "max_tokens cfg * chars_per_token cfg" 0 m] by auto
  define sel where "sel = take k m"
  have packed: "pack rnd cfg inputs =
      Some \<lparr>px_chunks = map (\<lambda>c. to_packed c ((length (pi_text c) + chars_per_token cfg - 1) div chars_per_token cfg)) sel,
            px_total_tokens = (text_size sel + chars_per_token cfg - 1) div chars_per_token cfg,
            px_duplicates_removed = n, px_diversity_adjustments = adj\<rparr>"
    using False r m k(1) assms(1,2)
    by (simp add: pack_def s_def build_output_def div_ceil_def sel_def)
  have "mset sel \<subseteq># mset s"
    using mmr_select_perm [of rnd cfg s] m append_take_drop_id [of k m]
    by (metis fst_conv mset_append mset_subset_eq_add_left sel_def)
  then have sub: "mset sel \<subseteq># mset r" "set sel \<subseteq> set s" "set sel \<subseteq> set r"
    using far by (metis set_mset_mono set_mset_mset subset_mset.order_trans)+
  moreover have "mset sel \<subseteq># mset inputs" using sub(1) dedup(1) by (rule subset_mset.order_trans)
  moreover have "distinct (map pi_hash sel)"
    by (rule distinct_submset [OF _ dedup(2)]) (use sub(1) image_mset_subseteq_mono in auto)
  moreover have "(text_size sel + chars_per_token cfg - 1) div chars_per_token cfg \<le> max_tokens cfg"
    using div_ceil_mono [OF assms(1)] k(2) by (simp add: sel_def)
  ultimately show ?thesis using packed far dedup(3,4)
    by (intro exI [of _ "the (pack rnd cfg inputs)"] exI [of _ sel]) (auto simp: subset_iff)
qed


definition demo_inputs :: "packer_input list" where
  "demo_inputs =
     [\<lparr>pi_chunk_id = ''a'', pi_text = ''low'', pi_chunk_type = Doc, pi_score = Fin 1, pi_hash = ''h'',
       pi_embedding = None, pi_source_uri = None\<rparr>,
      \<lparr>pi_chunk_id = ''b'', pi_text = ''high'', pi_chunk_type = Doc, pi_score = Fin 2, pi_hash = ''h'',
       pi_embedding = None, pi_source_uri = None\<rparr>]"

theorem pack_selects_witness:
  "\<exists>ctx sel. pack Fin (default_packer Fin) demo_inputs = Some ctx \<and> mset sel \<subseteq># mset demo_inputs
     \<and> distinct (map pi_hash sel) \<and> px_total_tokens ctx \<le> 4000 \<and> px_duplicates_removed ctx + 1 = 2"
proof -
  have "card (pi_hash ` set demo_inputs) = 1" and "length demo_inputs = 2"
    by (simp_all add: demo_inputs_def)
  moreover have "\<forall>c \<in> set demo_inputs. \<not> is_nan (pi_score c)" by (simp add: demo_inputs_def)
  ultimately show ?thesis
    using pack_selects [of "default_packer Fin" demo_inputs Fin] by (auto simp: default_packer_def)
qed

end
