(* ===== verification/Access_Tracker.thy ===== *)
theory Access_Tracker
  imports Memd_Float "HOL-Library.AList"
begin

text \<open>
  Access statistics and promotion scores (\<open>tiered/access_tracker.rs\<close>). The clock is an argument of
  every operation that reads it. \<open>log2\<close> and \<open>exp\<close> on floats come from the platform's mathematics
  library and are the fields of \<open>libm\<close>, with the facts the proofs use in the locale \<open>float_libm\<close>.
  The statistics are a hash map; where the code iterates over it, \<open>order\<close> is its iteration order.
\<close>

record libm =
  log2f :: "f32 \<Rightarrow> f32"
  expf :: "f32 \<Rightarrow> f32"

section \<open>Statistics\<close>

record access_event =
  ev_chunk_id :: string
  ev_timestamp :: int
  ev_project_id :: "string option"
  ev_query_id :: "string option"

definition access_event_new :: "string \<Rightarrow> int \<Rightarrow> access_event" where
  "access_event_new cid now = \<lparr>ev_chunk_id = cid, ev_timestamp = now, ev_project_id = None, ev_query_id = None\<rparr>"

definition access_event_with_project :: "string \<Rightarrow> string \<Rightarrow> int \<Rightarrow> access_event" where
  "access_event_with_project cid project now =
     \<lparr>ev_chunk_id = cid, ev_timestamp = now, ev_project_id = Some project, ev_query_id = None\<rparr>"

record access_stats =
  access_count :: u32
  last_access :: int
  first_access :: int
  project_hits :: "(string \<times> u32) list"
  decay_score :: f32

definition stats_new :: "int \<Rightarrow> access_stats" where
  "stats_new t = \<lparr>access_count = 1, last_access = t, first_access = t, project_hits = [], decay_score = Fin 1\<rparr>"

text \<open>\<open>access_count\<close> saturates; a project counter is an ordinary \<open>u32\<close> addition, which wraps.\<close>

definition sat_inc :: "u32 \<Rightarrow> u32" where
  "sat_inc n = (if n = - 1 then n else n + 1)"

definition stats_record_access :: "int \<Rightarrow> string option \<Rightarrow> access_stats \<Rightarrow> access_stats" where
  "stats_record_access t project s =
     (let s1 = s\<lparr>access_count := sat_inc (access_count s), last_access := t\<rparr>
      in case project of
           None \<Rightarrow> s1
         | Some p \<Rightarrow> s1\<lparr>project_hits :=
             AList.update p ((case map_of (project_hits s1) p of None \<Rightarrow> 0 | Some n \<Rightarrow> n) + 1) (project_hits s1)\<rparr>)"

record promotion_score =
  ps_chunk_id :: string
  ps_score :: f32
  frequency_component :: f32
  recency_component :: f32
  project_component :: f32
  eligible :: bool

definition promotion_score_new :: "string \<Rightarrow> promotion_score" where
  "promotion_score_new cid =
     \<lparr>ps_chunk_id = cid, ps_score = Fin 0, frequency_component = Fin 0, recency_component = Fin 0,
      project_component = Fin 0, eligible = False\<rparr>"

record tracker_config =
  frequency_weight :: f32
  recency_weight :: f32
  project_weight :: f32
  decay_half_life_hours :: u32
  min_accesses_for_promotion :: u32

definition default_tracker_config :: "rounding \<Rightarrow> tracker_config" where
  "default_tracker_config rnd =
     \<lparr>frequency_weight = rnd 0.4, recency_weight = rnd 0.4, project_weight = rnd 0.2,
      decay_half_life_hours = 24, min_accesses_for_promotion = 2\<rparr>"

record access_tracker =
  at_stats :: "(string \<times> access_stats) list"
  at_config :: tracker_config
  max_log_count :: f32

definition tracker_new :: "tracker_config \<Rightarrow> access_tracker" where
  "tracker_new cfg = \<lparr>at_stats = [], at_config = cfg, max_log_count = Fin 1\<rparr>"

section \<open>Operations\<close>

definition log_count :: "rounding \<Rightarrow> libm \<Rightarrow> access_stats \<Rightarrow> f32" where
  "log_count rnd L s = log2f L (f_add rnd (f_of_nat rnd (unat (access_count s))) (Fin 1))"

definition record_access :: "rounding \<Rightarrow> libm \<Rightarrow> access_event \<Rightarrow> access_tracker \<Rightarrow> access_tracker" where
  "record_access rnd L ev tr =
     (case map_of (at_stats tr) (ev_chunk_id ev) of
        Some existing \<Rightarrow>
          let s = stats_record_access (ev_timestamp ev) (ev_project_id ev) existing;
              lc = log_count rnd L s
          in tr\<lparr>at_stats := AList.update (ev_chunk_id ev) s (at_stats tr),
                max_log_count := (if f_lt (max_log_count tr) lc then lc else max_log_count tr)\<rparr>
      | None \<Rightarrow>
          let s = stats_new (ev_timestamp ev);
              s1 = (case ev_project_id ev of None \<Rightarrow> s | Some p \<Rightarrow> s\<lparr>project_hits := [(p, 1)]\<rparr>)
          in tr\<lparr>at_stats := AList.update (ev_chunk_id ev) s1 (at_stats tr)\<rparr>)"

definition recency :: "rounding \<Rightarrow> libm \<Rightarrow> tracker_config \<Rightarrow> int \<Rightarrow> access_stats \<Rightarrow> f32" where
  "recency rnd L cfg now s =
     (let hours_since_last = f_div rnd (rnd (of_int (now - last_access s))) (Fin 3600000);
          half_life = f_of_nat rnd (unat (decay_half_life_hours cfg))
      in expf L (f_div rnd (f_neg hours_since_last) half_life))"

definition compute_score ::
  "rounding \<Rightarrow> libm \<Rightarrow> int \<Rightarrow> access_tracker \<Rightarrow> string \<Rightarrow> access_stats \<Rightarrow> string option \<Rightarrow> promotion_score" where
  "compute_score rnd L now tr cid s current_project =
     (let max_log = max_log_count tr;
          frequency = (if f_lt (Fin 0) max_log then f_div rnd (log_count rnd L s) max_log else Fin 0);
          rec = recency rnd L (at_config tr) now s;
          project = (case current_project of
                       Some p \<Rightarrow> if p \<in> fst ` set (project_hits s) then Fin 1 else Fin 0
                     | None \<Rightarrow> Fin 0);
          score = f_add rnd
                    (f_add rnd (f_mul rnd frequency (frequency_weight (at_config tr)))
                               (f_mul rnd rec (recency_weight (at_config tr))))
                    (f_mul rnd project (project_weight (at_config tr)))
      in \<lparr>ps_chunk_id = cid, ps_score = score, frequency_component = frequency, recency_component = rec,
          project_component = project,
          eligible = (min_accesses_for_promotion (at_config tr) \<le> access_count s)\<rparr>)"

definition get_promotion_score ::
  "rounding \<Rightarrow> libm \<Rightarrow> int \<Rightarrow> access_tracker \<Rightarrow> string \<Rightarrow> string option \<Rightarrow> promotion_score" where
  "get_promotion_score rnd L now tr cid project =
     (case map_of (at_stats tr) cid of
        Some s \<Rightarrow> compute_score rnd L now tr cid s project
      | None \<Rightarrow> promotion_score_new cid)"

definition get_top_candidates ::
  "rounding \<Rightarrow> libm \<Rightarrow> ((string \<times> access_stats) list \<Rightarrow> (string \<times> access_stats) list) \<Rightarrow> int \<Rightarrow> access_tracker
     \<Rightarrow> nat \<Rightarrow> string option \<Rightarrow> promotion_score list" where
  "get_top_candidates rnd L order now tr k project =
     (let scores = filter eligible (map (\<lambda>(cid, s). compute_score rnd L now tr cid s project) (order (at_stats tr)))
      in take k (sort_by (\<lambda>a b. cmp_or_equal (ps_score b) (ps_score a)) scores))"

definition decay_stats :: "rounding \<Rightarrow> libm \<Rightarrow> tracker_config \<Rightarrow> int \<Rightarrow> access_stats \<Rightarrow> access_stats" where
  "decay_stats rnd L cfg now s = s\<lparr>decay_score := recency rnd L cfg now s\<rparr>"

definition decay_all :: "rounding \<Rightarrow> libm \<Rightarrow> int \<Rightarrow> access_tracker \<Rightarrow> access_tracker" where
  "decay_all rnd L now tr =
     (let decayed = map (\<lambda>(cid, s). (cid, decay_stats rnd L (at_config tr) now s)) (at_stats tr)
      in tr\<lparr>at_stats := filter (\<lambda>(_, s). f_le (rnd 0.01) (decay_score s)) decayed\<rparr>)"

definition remove_chunk :: "string \<Rightarrow> access_tracker \<Rightarrow> bool \<times> access_tracker" where
  "remove_chunk cid tr =
     (map_of (at_stats tr) cid \<noteq> None, tr\<lparr>at_stats := AList.delete cid (at_stats tr)\<rparr>)"

definition tracker_len :: "access_tracker \<Rightarrow> nat" where
  "tracker_len tr = length (at_stats tr)"

section \<open>What the mathematics library guarantees\<close>

locale float_libm = f32_round rnd for rnd :: rounding +
  fixes L :: libm
  assumes log2_2: "log2f L (Fin 2) = Fin 1"
    and log2_ge: "f_le (Fin 2) x \<Longrightarrow> f_le (Fin 1) (log2f L x)"
    and exp_neg: "f_le x (Fin 0) \<Longrightarrow> f_le (Fin 0) (expf L x) \<and> f_le (expf L x) (Fin 1)"
    and rnd_pow: "n \<le> 64 \<Longrightarrow> rnd (2 ^ n) = Fin (2 ^ n)"
    and log2_finite: "f_le (Fin 2) x \<Longrightarrow> is_finite x \<Longrightarrow> is_finite (log2f L x)"

section \<open>The invariant\<close>

text \<open>
  Every tracked chunk was accessed, no later than the last clock reading, its keys are distinct,
  and the normaliser is at least every logarithm it is used with.
\<close>

definition tracker_ok :: "rounding \<Rightarrow> libm \<Rightarrow> int \<Rightarrow> access_tracker \<Rightarrow> bool" where
  "tracker_ok rnd L now tr \<longleftrightarrow>
     distinct (map fst (at_stats tr)) \<and> f_le (Fin 1) (max_log_count tr) \<and> is_finite (max_log_count tr)
     \<and> (\<forall>(cid, s) \<in> set (at_stats tr). access_count s \<noteq> 0 \<and> last_access s \<le> now
          \<and> f_le (log_count rnd L s) (max_log_count tr))"

lemma sat_inc_nonzero: "n \<noteq> 0 \<Longrightarrow> sat_inc n \<noteq> 0"
  by (auto simp: sat_inc_def) (metis add_eq_0_iff2 diff_add_cancel)

lemma set_delete_alist: "e \<in> set (AList.delete k xs) \<Longrightarrow> e \<in> set xs"
  by (induction xs) (auto split: if_splits)

lemma set_update_alist: "e \<in> set (AList.update k v xs) \<Longrightarrow> e = (k, v) \<or> e \<in> set xs"
  by (induction xs) (auto split: if_splits)

context float_libm
begin

lemma rnd_2: "rnd 2 = Fin 2"
  using rnd_pow [of 1] by simp

lemma rnd_u32: "\<exists>y. rnd (real (unat (n :: u32))) = Fin y \<and> 0 \<le> y \<and> y \<le> 2 ^ 32"
proof -
  have "unat n \<le> 2 ^ 32" using unat_u32_bound [of n] by simp
  then have "real (unat n) \<le> 2 ^ 32" by (metis of_nat_le_iff of_nat_numeral of_nat_power)
  moreover have "0 \<le> real (unat n)" by (rule of_nat_0_le_iff)
  moreover have "rnd (2 ^ 32) = Fin (2 ^ 32)" by (rule rnd_pow) simp
  ultimately show ?thesis by (intro rnd_between rnd_0)
qed

lemma add_one_ge_2:
  fixes n :: u32
  assumes "n \<noteq> 0"
  shows "f_le (Fin 2) (f_add rnd (f_of_nat rnd (unat n)) (Fin 1))"
proof -
  have "1 \<le> real (unat n)" using assms by (metis One_nat_def Suc_leI of_nat_1 of_nat_le_iff unat_gt_0)
  from rnd_mono [OF this] have "f_le (Fin 1) (rnd (real (unat n)))" by (simp add: rnd_1)
  then show ?thesis
    using rnd_mono [of 2] rnd_2 by (cases "rnd (real (unat n))") (auto simp: f_of_nat_def)
qed

lemma log_count_ge_1: "access_count s \<noteq> 0 \<Longrightarrow> f_le (Fin 1) (log_count rnd L s)"
  by (simp add: log_count_def log2_ge add_one_ge_2)

lemma log_count_finite: "access_count s \<noteq> 0 \<Longrightarrow> is_finite (log_count rnd L s)"
proof -
  assume n: "access_count s \<noteq> 0"
  obtain y where y: "rnd (real (unat (access_count s))) = Fin y" "0 \<le> y" "y \<le> 2 ^ 32"
    using rnd_u32 by blast
  have "rnd (2 ^ 64) = Fin (2 ^ 64)" by (rule rnd_pow) simp
  then have "\<exists>z. rnd (y + 1) = Fin z \<and> 0 \<le> z \<and> z \<le> 2 ^ 64"
    using y by (intro rnd_between [OF rnd_0]) simp_all
  then show ?thesis
    unfolding log_count_def
    by (intro log2_finite add_one_ge_2 n) (unfold f_of_nat_def y(1), auto)
qed

lemma log_count_new: "access_count s = 1 \<Longrightarrow> log_count rnd L s = Fin 1"
  by (simp add: log_count_def f_of_nat_def rnd_1 rnd_2 log2_2)

lemma tracker_new_ok: "tracker_ok rnd L now (tracker_new cfg)"
  by (simp add: tracker_ok_def tracker_new_def)

lemma record_access_ok:
  assumes "tracker_ok rnd L now tr" and "now \<le> ev_timestamp ev"
  shows "tracker_ok rnd L (ev_timestamp ev) (record_access rnd L ev tr)"
proof (cases "map_of (at_stats tr) (ev_chunk_id ev)")
  case None
  show ?thesis
    using assms None
    by (auto simp: tracker_ok_def record_access_def Let_def stats_new_def log_count_new distinct_update
        dest!: set_update_alist split: option.splits)
next
  case (Some s)
  let ?s = "stats_record_access (ev_timestamp ev) (ev_project_id ev) s"
  let ?max = "if f_lt (max_log_count tr) (log_count rnd L ?s) then log_count rnd L ?s else max_log_count tr"
  have s: "access_count s \<noteq> 0" using assms(1) map_of_SomeD [OF Some] by (auto simp: tracker_ok_def)
  have s1: "access_count ?s \<noteq> 0" "last_access ?s = ev_timestamp ev"
    using sat_inc_nonzero [OF s] by (auto simp: stats_record_access_def Let_def split: option.splits)
  have n: "\<not> is_nan (max_log_count tr)" "\<not> is_nan (log_count rnd L ?s)"
    using assms(1) log_count_ge_1 [OF s1(1)] f_le_nan by (auto simp: tracker_ok_def)
  have max: "f_le (max_log_count tr) ?max" "f_le (log_count rnd L ?s) ?max"
    using n by (auto simp: f_le_def f_lt_linear not_f_lt)
  have "tracker_ok rnd L (ev_timestamp ev) (tr\<lparr>at_stats := AList.update (ev_chunk_id ev) ?s (at_stats tr), max_log_count := ?max\<rparr>)"
    unfolding tracker_ok_def
  proof (intro conjI ballI)
    show "f_le (Fin 1) (max_log_count (tr\<lparr>at_stats := AList.update (ev_chunk_id ev) ?s (at_stats tr), max_log_count := ?max\<rparr>))"
      using assms(1) f_le_trans [OF _ max(1), of "Fin 1"] by (simp add: tracker_ok_def)
  next
    fix e assume "e \<in> set (at_stats (tr\<lparr>at_stats := AList.update (ev_chunk_id ev) ?s (at_stats tr), max_log_count := ?max\<rparr>))"
    then have "e = (ev_chunk_id ev, ?s) \<or> e \<in> set (at_stats tr)" by (auto dest: set_update_alist)
    then show "case e of (cid, s) \<Rightarrow> access_count s \<noteq> 0 \<and> last_access s \<le> ev_timestamp ev
        \<and> f_le (log_count rnd L s) (max_log_count (tr\<lparr>at_stats := AList.update (ev_chunk_id ev) ?s (at_stats tr), max_log_count := ?max\<rparr>))"
      using assms s1 max(2) f_le_trans [OF _ max(1)] by (fastforce simp: tracker_ok_def)
  qed (use assms(1) log_count_finite [OF s1(1)] in \<open>simp_all add: tracker_ok_def distinct_update\<close>)
  then show ?thesis using Some by (simp add: record_access_def Let_def)
qed

lemma recency_unit:
  assumes "last_access s \<le> now" and "decay_half_life_hours cfg \<noteq> 0"
  shows "f_le (Fin 0) (recency rnd L cfg now s) \<and> f_le (recency rnd L cfg now s) (Fin 1)"
proof -
  define h where "h = f_of_nat rnd (unat (decay_half_life_hours cfg))"
  have "1 \<le> real (unat (decay_half_life_hours cfg))"
    using assms(2) by (metis One_nat_def Suc_leI of_nat_1 of_nat_le_iff unat_gt_0)
  from rnd_mono [OF this] have "f_le (Fin 1) h" by (simp add: rnd_1 h_def f_of_nat_def)
  moreover have "is_finite h" using rnd_u32 [of "decay_half_life_hours cfg"] by (auto simp: h_def f_of_nat_def)
  ultimately obtain y where h: "h = Fin y" "1 \<le> y" by (cases h) auto
  have "f_le (Fin 0) (rnd (of_int (now - last_access s)))" using assms(1) by (intro rnd_nonneg) simp
  then have "f_le (Fin 0) (f_div rnd (rnd (of_int (now - last_access s))) (Fin 3600000))"
    using rnd_nonneg by (cases "rnd (of_int (now - last_access s))") auto
  then have "f_le (f_neg (f_div rnd (rnd (of_int (now - last_access s))) (Fin 3600000))) (Fin 0)"
    by (cases "f_div rnd (rnd (of_int (now - last_access s))) (Fin 3600000)") (auto simp: f_le_def)
  then have "f_le (f_div rnd (f_neg (f_div rnd (rnd (of_int (now - last_access s))) (Fin 3600000))) h) (Fin 0)"
    using h rnd_mono [of _ 0] rnd_0
    by (cases "f_neg (f_div rnd (rnd (of_int (now - last_access s))) (Fin 3600000))")
       (auto simp: divide_nonpos_pos)
  from exp_neg [OF this] show ?thesis by (simp add: recency_def Let_def h_def)
qed

lemma frequency_unit:
  assumes "f_le (Fin 1) lc" and "f_le lc mx" and "is_finite mx"
  shows "f_le (Fin 0) (f_div rnd lc mx) \<and> f_le (f_div rnd lc mx) (Fin 1)"
proof -
  obtain a b where ab: "lc = Fin a" "mx = Fin b" "1 \<le> a" "a \<le> b"
    using assms by (cases lc; cases mx) auto
  then have "0 \<le> a / b" "a / b \<le> 1" by simp_all
  then show ?thesis using ab rnd_mono [of 0 "a / b"] rnd_mono [of "a / b" 1] by (simp add: rnd_0 rnd_1)
qed

lemma compute_score_unit:
  assumes "tracker_ok rnd L t tr" and "t \<le> now" and "(cid, s) \<in> set (at_stats tr)"
    and "decay_half_life_hours (at_config tr) \<noteq> 0"
  shows "let p = compute_score rnd L now tr cid s project
         in f_le (Fin 0) (frequency_component p) \<and> f_le (frequency_component p) (Fin 1)
          \<and> f_le (Fin 0) (recency_component p) \<and> f_le (recency_component p) (Fin 1)
          \<and> project_component p \<in> {Fin 0, Fin 1}"
proof -
  have s: "access_count s \<noteq> 0" "last_access s \<le> t" "f_le (log_count rnd L s) (max_log_count tr)"
    "f_le (Fin 1) (max_log_count tr)" "is_finite (max_log_count tr)"
    using assms(1,3) by (auto simp: tracker_ok_def)
  have "f_lt (Fin 0) (max_log_count tr)" using s(4) by (cases "max_log_count tr") auto
  then show ?thesis
    using frequency_unit [OF log_count_ge_1 [OF s(1)] s(3,5)] recency_unit [of s now "at_config tr"] s(2) assms(2,4)
    by (auto simp: compute_score_def Let_def split: option.splits)
qed

lemma decay_all_ok:
  assumes "tracker_ok rnd L t tr" and "t \<le> now"
  shows "tracker_ok rnd L now (decay_all rnd L now tr)"
proof -
  let ?xs = "at_stats (decay_all rnd L now tr)"
  have "map fst (map (\<lambda>(cid, s). (cid, decay_stats rnd L (at_config tr) now s)) (at_stats tr)) = map fst (at_stats tr)"
    by (induction "at_stats tr") auto
  then have "distinct (map fst ?xs)"
    using assms(1) by (simp add: decay_all_def Let_def tracker_ok_def distinct_map_filter del: map_map)
  moreover have "access_count s \<noteq> 0 \<and> last_access s \<le> now \<and> f_le (log_count rnd L s) (max_log_count tr)"
    if "(cid, s) \<in> set ?xs" for cid s
    using that assms by (fastforce simp: decay_all_def decay_stats_def Let_def tracker_ok_def log_count_def)
  moreover have "max_log_count (decay_all rnd L now tr) = max_log_count tr" by (simp add: decay_all_def Let_def)
  ultimately show ?thesis using assms(1) unfolding tracker_ok_def by auto
qed

lemma remove_chunk_ok: "tracker_ok rnd L t tr \<Longrightarrow> tracker_ok rnd L t (snd (remove_chunk cid tr))"
  using delete_notin_dom [of cid]
  by (auto simp: tracker_ok_def remove_chunk_def distinct_delete dest: set_delete_alist)

end

section \<open>Histories\<close>

datatype tracker_op = Access access_event | Decay int | Remove string

fun tracker_step :: "rounding \<Rightarrow> libm \<Rightarrow> tracker_op \<Rightarrow> access_tracker \<Rightarrow> access_tracker" where
  "tracker_step rnd L (Access ev) tr = record_access rnd L ev tr"
| "tracker_step rnd L (Decay now) tr = decay_all rnd L now tr"
| "tracker_step rnd L (Remove cid) tr = snd (remove_chunk cid tr)"

fun op_clock :: "int \<Rightarrow> tracker_op \<Rightarrow> int" where
  "op_clock t (Access ev) = ev_timestamp ev"
| "op_clock t (Decay now) = now"
| "op_clock t (Remove cid) = t"

text \<open>The clock does not run backwards from \<open>t\<close> through the operations to \<open>now\<close>.\<close>

fun clock_runs :: "int \<Rightarrow> tracker_op list \<Rightarrow> int \<Rightarrow> bool" where
  "clock_runs t [] now \<longleftrightarrow> t \<le> now"
| "clock_runs t (x # xs) now \<longleftrightarrow> t \<le> op_clock t x \<and> clock_runs (op_clock t x) xs now"

definition run_tracker :: "rounding \<Rightarrow> libm \<Rightarrow> tracker_op list \<Rightarrow> access_tracker \<Rightarrow> access_tracker" where
  "run_tracker rnd L ops tr = foldl (\<lambda>tr x. tracker_step rnd L x tr) tr ops"

context float_libm
begin

lemma tracker_step_ok:
  "tracker_ok rnd L t tr \<Longrightarrow> t \<le> op_clock t x \<Longrightarrow> tracker_ok rnd L (op_clock t x) (tracker_step rnd L x tr)"
  by (cases x) (simp_all add: record_access_ok decay_all_ok remove_chunk_ok)

lemma run_tracker_ok:
  "tracker_ok rnd L t tr \<Longrightarrow> clock_runs t ops now \<Longrightarrow>
     \<exists>t'. t' \<le> now \<and> tracker_ok rnd L t' (run_tracker rnd L ops tr)"
proof (induction ops arbitrary: t tr)
  case (Cons x xs)
  then show ?case using tracker_step_ok by (fastforce simp: run_tracker_def)
qed (auto simp: run_tracker_def)

end

lemma tracker_step_config: "at_config (tracker_step rnd L x tr) = at_config tr"
  by (cases x) (auto simp: record_access_def decay_all_def remove_chunk_def Let_def split: option.splits)

lemma run_tracker_config: "at_config (run_tracker rnd L ops tr) = at_config tr"
  by (induction ops arbitrary: tr) (simp_all add: run_tracker_def tracker_step_config)

lemma eligible_iff:
  "eligible (get_promotion_score rnd L now tr cid project) \<longleftrightarrow>
     (\<exists>s. map_of (at_stats tr) cid = Some s \<and> min_accesses_for_promotion (at_config tr) \<le> access_count s)"
  by (auto simp: get_promotion_score_def promotion_score_new_def compute_score_def Let_def split: option.splits)

definition exact_libm :: libm where
  "exact_libm =
     \<lparr>log2f = (\<lambda>x. case x of Fin a \<Rightarrow> if a > 0 then Fin (log 2 a) else NaN | PInf \<Rightarrow> PInf | _ \<Rightarrow> NaN),
      expf = (\<lambda>x. case x of Fin a \<Rightarrow> Fin (exp a) | PInf \<Rightarrow> PInf | NInf \<Rightarrow> Fin 0 | NaN \<Rightarrow> NaN)\<rparr>"

interpretation exact_tracker: float_libm Fin exact_libm
proof
  show "f_le (Fin 1) (log2f exact_libm x)" if "f_le (Fin 2) x" for x
    using that by (cases x) (auto simp: exact_libm_def le_log_iff)
  show "f_le (Fin 0) (expf exact_libm x) \<and> f_le (expf exact_libm x) (Fin 1)" if "f_le x (Fin 0)" for x
    using that by (cases x) (auto simp: exact_libm_def)
  show "is_finite (log2f exact_libm x)" if "f_le (Fin 2) x" "is_finite x" for x
    using that by (cases x) (auto simp: exact_libm_def)
qed (simp_all add: exact_libm_def)

section \<open>Properties\<close>

text \<open>
  After any history of accesses, decays and removals under a clock that does not run
  backwards, every component of a promotion score lies between 0 and 1: the frequency because
  the normaliser is never below a tracked count's logarithm, the recency because no access lies
  in the future, the project component because it is 0 or 1. A chunk is eligible only with the
  configured number of recorded accesses.
\<close>

lemma promotion_components_bounded:
  assumes "float_libm rnd L" and "clock_runs t ops now" and "decay_half_life_hours cfg \<noteq> 0"
    and "tr = run_tracker rnd L ops (tracker_new cfg)" and "p = get_promotion_score rnd L now tr cid project"
  shows "f_le (Fin 0) (frequency_component p) \<and> f_le (frequency_component p) (Fin 1)
       \<and> f_le (Fin 0) (recency_component p) \<and> f_le (recency_component p) (Fin 1)
       \<and> project_component p \<in> {Fin 0, Fin 1}
       \<and> (eligible p \<longrightarrow> (\<exists>s. map_of (at_stats tr) cid = Some s \<and> min_accesses_for_promotion cfg \<le> access_count s))"
proof -
  have cfg: "at_config tr = cfg" by (simp add: assms(4) run_tracker_config tracker_new_def)
  obtain t' where t': "t' \<le> now" "tracker_ok rnd L t' tr"
    using float_libm.run_tracker_ok [OF assms(1) float_libm.tracker_new_ok [OF assms(1)] assms(2)] assms(4) by blast
  show ?thesis
  proof (cases "map_of (at_stats tr) cid")
    case None
    then show ?thesis by (simp add: assms(5) get_promotion_score_def promotion_score_new_def f_le_refl)
  next
    case (Some s)
    then have "p = compute_score rnd L now tr cid s project" by (simp add: assms(5) get_promotion_score_def)
    then show ?thesis
      using float_libm.compute_score_unit [OF assms(1) t'(2,1) map_of_SomeD [OF Some], of project] assms(3) cfg
        eligible_iff [of rnd L now tr cid project] assms(5)
      by (simp add: Let_def)
  qed
qed

lemma promotion_components_bounded_witness:
  "f_le (frequency_component (get_promotion_score Fin exact_libm 20
      (run_tracker Fin exact_libm [Access (access_event_new ''c'' 10), Access (access_event_new ''c'' 20)]
        (tracker_new (default_tracker_config Fin))) ''c'' None)) (Fin 1)"
proof -
  have "clock_runs 0 [Access (access_event_new ''c'' 10), Access (access_event_new ''c'' 20)] 20"
    by (simp add: access_event_new_def)
  moreover have "decay_half_life_hours (default_tracker_config Fin) \<noteq> 0"
    by (simp add: default_tracker_config_def)
  ultimately show ?thesis
    using promotion_components_bounded [OF exact_tracker.float_libm_axioms] by blast
qed

end
