(* ===== verification/Hot_Tier.thy ===== *)
theory Hot_Tier
  imports Access_Tracker
begin

text \<open>
  The hot tier (\<open>tiered/hot_tier.rs\<close>): a bounded table of promoted chunks beside a nearest-neighbour
  index of their embeddings. The index (\<open>index/hnsw.rs\<close> over the \<open>hnsw_rs\<close> library) is the
  parameter \<open>vec_index\<close>: what it stores and finds is not constrained. The index has no removal, so
  a demoted chunk stays in it and is filtered from the results. The version counter is a \<open>u64\<close>.
\<close>

section \<open>State\<close>

record search_result =
  sr_chunk_id :: string
  sr_score :: f32

record 'x vec_index =
  vi_insert :: "string \<Rightarrow> f32 list \<Rightarrow> 'x \<Rightarrow> memd_error + 'x"
  vi_search :: "'x \<Rightarrow> f32 list \<Rightarrow> nat \<Rightarrow> memd_error + search_result list"

record hot_tier_config =
  capacity_percentage :: f32
  max_chunks :: nat
  min_promotion_score :: f32

definition default_hot_tier :: "rounding \<Rightarrow> hot_tier_config" where
  "default_hot_tier rnd = \<lparr>capacity_percentage = rnd 0.10, max_chunks = 50000, min_promotion_score = rnd 0.3\<rparr>"

record hot_entry =
  he_chunk_id :: string
  he_embedding :: "f32 list"
  promoted_at :: int
  he_promotion_score :: f32
  he_tenant_id :: string

record hot_stats =
  hs_chunk_count :: nat
  hs_capacity_used :: f32
  hs_version :: u64
  hs_avg_promotion_score :: f32

record 'x hot_tier =
  ht_index :: 'x
  ht_chunks :: "(string \<times> hot_entry) list"
  ht_config :: hot_tier_config
  ht_version :: u64

definition hot_tier_new :: "'x \<Rightarrow> hot_tier_config \<Rightarrow> 'x hot_tier" where
  "hot_tier_new empty_index cfg = \<lparr>ht_index = empty_index, ht_chunks = [], ht_config = cfg, ht_version = 0\<rparr>"

section \<open>Operations\<close>

definition promote ::
  "'x vec_index \<Rightarrow> int \<Rightarrow> string \<Rightarrow> f32 list \<Rightarrow> string \<Rightarrow> f32 \<Rightarrow> 'x hot_tier \<Rightarrow> memd_error + (bool \<times> 'x hot_tier)" where
  "promote I now cid embedding tenant score ht =
     (if map_of (ht_chunks ht) cid \<noteq> None then Inr (False, ht)
      else if max_chunks (ht_config ht) \<le> length (ht_chunks ht) then Inr (False, ht)
      else case vi_insert I cid embedding (ht_index ht) of
        Inl e \<Rightarrow> Inl e
      | Inr index' \<Rightarrow>
          let entry = \<lparr>he_chunk_id = cid, he_embedding = embedding, promoted_at = now,
                       he_promotion_score = score, he_tenant_id = tenant\<rparr>
          in Inr (True, ht\<lparr>ht_index := index', ht_chunks := AList.update cid entry (ht_chunks ht),
                           ht_version := ht_version ht + 1\<rparr>))"

definition demote :: "string \<Rightarrow> 'x hot_tier \<Rightarrow> bool \<times> 'x hot_tier" where
  "demote cid ht =
     (if map_of (ht_chunks ht) cid \<noteq> None
      then (True, ht\<lparr>ht_chunks := AList.delete cid (ht_chunks ht), ht_version := ht_version ht + 1\<rparr>)
      else (False, ht))"

definition hot_contains :: "'x hot_tier \<Rightarrow> string \<Rightarrow> bool" where
  "hot_contains ht cid \<longleftrightarrow> map_of (ht_chunks ht) cid \<noteq> None"

text \<open>A search records an access of each returned chunk when the tier has a tracker.\<close>

fun record_results :: "rounding \<Rightarrow> libm \<Rightarrow> int \<Rightarrow> search_result list \<Rightarrow> access_tracker \<Rightarrow> access_tracker" where
  "record_results rnd L now [] tr = tr"
| "record_results rnd L now (r # rs) tr =
     record_results rnd L now rs (record_access rnd L (access_event_new (sr_chunk_id r) now) tr)"

definition hot_search ::
  "rounding \<Rightarrow> libm \<Rightarrow> 'x vec_index \<Rightarrow> int \<Rightarrow> 'x hot_tier \<Rightarrow> access_tracker option \<Rightarrow> f32 list \<Rightarrow> nat
     \<Rightarrow> memd_error + (search_result list \<times> access_tracker option)" where
  "hot_search rnd L I now ht tracker query k =
     (case vi_search I (ht_index ht) query k of
        Inl e \<Rightarrow> Inl e
      | Inr results \<Rightarrow>
          let filtered = filter (\<lambda>r. hot_contains ht (sr_chunk_id r)) results
          in Inr (filtered, map_option (record_results rnd L now filtered) tracker))"

definition hot_len :: "'x hot_tier \<Rightarrow> nat" where
  "hot_len ht = length (ht_chunks ht)"

text \<open>
  \<open>as usize\<close> on a float truncates towards zero, saturates at the bounds and maps NaN to 0. A \<open>usize\<close>
  has 64 bits.
\<close>

fun f_as_usize :: "f32 \<Rightarrow> nat" where
  "f_as_usize (Fin a) = min (nat \<lfloor>a\<rfloor>) (2 ^ 64 - 1)"
| "f_as_usize PInf = 2 ^ 64 - 1"
| "f_as_usize NInf = 0"
| "f_as_usize NaN = 0"

definition calculate_capacity :: "rounding \<Rightarrow> 'x hot_tier \<Rightarrow> nat \<Rightarrow> nat" where
  "calculate_capacity rnd ht total_indexed =
     min (f_as_usize (f_mul rnd (f_of_nat rnd total_indexed) (capacity_percentage (ht_config ht))))
         (max_chunks (ht_config ht))"

fun remove_all :: "string list \<Rightarrow> (string \<times> hot_entry) list \<Rightarrow> nat \<times> (string \<times> hot_entry) list" where
  "remove_all [] m = (0, m)"
| "remove_all (cid # cids) m =
     (if map_of m cid \<noteq> None
      then let (n, m') = remove_all cids (AList.delete cid m) in (n + 1, m')
      else remove_all cids m)"

definition score_asc :: "string \<times> f32 \<Rightarrow> string \<times> f32 \<Rightarrow> ordering" where
  "score_asc a b = cmp_or_equal (snd a) (snd b)"

definition evict_lowest_score ::
  "((string \<times> hot_entry) list \<Rightarrow> (string \<times> hot_entry) list) \<Rightarrow> nat \<Rightarrow> 'x hot_tier \<Rightarrow> nat \<times> 'x hot_tier" where
  "evict_lowest_score order n ht =
     (if n = 0 then (0, ht)
      else let entries = map (\<lambda>(cid, e). (cid, he_promotion_score e)) (order (ht_chunks ht));
               lowest = take n (sort_by score_asc entries);
               (evicted, m) = remove_all (map fst lowest) (ht_chunks ht)
           in (evicted, ht\<lparr>ht_chunks := m,
                          ht_version := (if evicted > 0 then ht_version ht + 1 else ht_version ht)\<rparr>))"

definition evict_if_needed ::
  "rounding \<Rightarrow> ((string \<times> hot_entry) list \<Rightarrow> (string \<times> hot_entry) list) \<Rightarrow> nat \<Rightarrow> 'x hot_tier \<Rightarrow> nat \<times> 'x hot_tier" where
  "evict_if_needed rnd order total_indexed ht =
     (let capacity = calculate_capacity rnd ht total_indexed;
          current = hot_len ht
      in if current \<le> capacity then (0, ht) else evict_lowest_score order (current - capacity) ht)"

definition hot_get_stats :: "rounding \<Rightarrow> 'x hot_tier \<Rightarrow> hot_stats" where
  "hot_get_stats rnd ht =
     (let count = length (ht_chunks ht);
          avg = (if count > 0
                 then f_div rnd (f_sum rnd (map (\<lambda>(_, e). he_promotion_score e) (ht_chunks ht))) (f_of_nat rnd count)
                 else Fin 0);
          used = (if max_chunks (ht_config ht) > 0
                  then f_div rnd (f_of_nat rnd count) (f_of_nat rnd (max_chunks (ht_config ht))) else Fin 0)
      in \<lparr>hs_chunk_count = count, hs_capacity_used = used, hs_version = ht_version ht, hs_avg_promotion_score = avg\<rparr>)"

section \<open>The invariant\<close>

definition hot_ok :: "'x hot_tier \<Rightarrow> bool" where
  "hot_ok ht \<longleftrightarrow> distinct (map fst (ht_chunks ht)) \<and> length (ht_chunks ht) \<le> max_chunks (ht_config ht)
     \<and> (\<forall>(cid, e) \<in> set (ht_chunks ht). he_chunk_id e = cid \<and> \<not> is_nan (he_promotion_score e))"

lemma update_new: "map_of m k = None \<Longrightarrow> AList.update k v m = m @ [(k, v)]"
  by (induction m) (auto split: if_splits)

lemma map_of_None_fst: "map_of m k = None \<longleftrightarrow> k \<notin> fst ` set m"
  by (simp add: map_of_eq_None_iff)

lemma promote_ok:
  assumes "hot_ok ht" and "\<not> is_nan score" and "promote I now cid emb tenant score ht = Inr (b, ht')"
  shows "hot_ok ht'" and "b \<longleftrightarrow> \<not> hot_contains ht cid \<and> hot_len ht < max_chunks (ht_config ht)"
    and "hot_contains ht' c \<longleftrightarrow> hot_contains ht c \<or> (b \<and> c = cid)"
  using assms
  by (auto simp: promote_def hot_ok_def hot_contains_def hot_len_def update_new map_of_None_fst Let_def
      split: if_splits sum.splits)

lemma delete_filter: "AList.delete k m = filter (\<lambda>(k', _). k' \<noteq> k) m"
  by (induction m) auto

lemma hot_ok_filter: "hot_ok ht \<Longrightarrow> hot_ok (ht\<lparr>ht_chunks := filter P (ht_chunks ht), ht_version := v\<rparr>)"
  using le_trans [OF length_filter_le [of P "ht_chunks ht"]] by (auto simp: hot_ok_def intro: distinct_map_filter)

lemma demote_ok:
  assumes "hot_ok ht" and "demote cid ht = (b, ht')"
  shows "hot_ok ht'" and "hot_contains ht' c \<longleftrightarrow> hot_contains ht c \<and> c \<noteq> cid"
  using assms hot_ok_filter [OF assms(1)]
  by (auto simp: demote_def hot_contains_def delete_conv' split: if_splits) (auto simp: delete_filter)

text \<open>Removing distinct present keys removes exactly them.\<close>

lemma remove_all_eq:
  assumes "distinct cids" and "set cids \<subseteq> fst ` set m" and "distinct (map fst m)"
  shows "remove_all cids m = (length cids, filter (\<lambda>(k, _). k \<notin> set cids) m)"
  using assms
proof (induction cids arbitrary: m)
  case (Cons c cs)
  have "map_of m c \<noteq> None" using Cons.prems(2) by (simp add: map_of_None_fst)
  moreover have "remove_all cs (AList.delete c m) = (length cs, filter (\<lambda>(k, _). k \<notin> set cs) (AList.delete c m))"
  proof (rule Cons.IH)
    show "set cs \<subseteq> fst ` set (AList.delete c m)"
      using Cons.prems(1,2) by (force simp: delete_filter image_iff subset_iff)
  qed (use Cons.prems in \<open>simp_all add: distinct_delete\<close>)
  moreover have "filter (\<lambda>(k, _). k \<notin> set cs) (AList.delete c m) = filter (\<lambda>(k, _). k \<notin> set (c # cs)) m"
    by (auto simp: delete_filter intro: filter_cong)
  ultimately show ?case by simp
qed simp

lemma length_filter_keys:
  assumes "distinct (map fst m)" and "distinct cids" and "set cids \<subseteq> fst ` set m"
  shows "length (filter (\<lambda>(k, _). k \<notin> set cids) m) = length m - length cids"
proof -
  have "length m = length (filter (\<lambda>e. fst e \<in> set cids) m) + length (filter (\<lambda>e. fst e \<notin> set cids) m)"
    by (simp add: sum_length_filter_compl)
  moreover have "length (filter (\<lambda>e. fst e \<in> set cids) m) = card (set cids)"
  proof -
    have "fst ` set (filter (\<lambda>e. fst e \<in> set cids) m) = set cids" using assms(3) by force
    moreover have "distinct (map fst (filter (\<lambda>e. fst e \<in> set cids) m))"
      using assms(1) by (rule distinct_map_filter)
    ultimately show ?thesis by (metis distinct_card length_map set_map)
  qed
  ultimately show ?thesis using assms(2) by (simp add: distinct_card case_prod_unfold)
qed

text \<open>The first elements of a sorted list are no larger than the rest.\<close>

lemma take_sorted_le:
  assumes "sorted_by cmp xs" and "a \<in> set (take n xs)" and "b \<in> set (drop n xs)"
  shows "cmp a b \<noteq> Greater"
proof -
  have "sorted_by cmp (take n xs @ drop n xs)" using assms(1) by simp
  with assms(2,3) show ?thesis unfolding sorted_wrt_append by blast
qed

definition scored :: "string \<times> hot_entry \<Rightarrow> string \<times> f32" where
  "scored x = (fst x, he_promotion_score (snd x))"

lemma sorted_scores:
  assumes "hot_ok ht" and "mset (order (ht_chunks ht)) = mset (ht_chunks ht)"
    and "es = sort_by score_asc (map (\<lambda>(cid, e). (cid, he_promotion_score e)) (order (ht_chunks ht)))"
  shows "set es = scored ` set (ht_chunks ht)" and "distinct (map fst es)"
    and "length es = length (ht_chunks ht)" and "sorted_by score_asc es"
proof -
  have "(\<lambda>(cid, e). (cid, he_promotion_score e)) = scored" by (auto simp: scored_def)
  then have m: "mset es = mset (map scored (ht_chunks ht))" using assms(2,3) by simp
  then show set: "set es = scored ` set (ht_chunks ht)" by (metis mset_eq_setD set_map)
  show "length es = length (ht_chunks ht)" using m by (metis length_map size_mset)
  have "mset (map fst es) = mset (map fst (map scored (ht_chunks ht)))" using m by (metis mset_map)
  also have "map fst (map scored (ht_chunks ht)) = map fst (ht_chunks ht)" by (simp add: scored_def)
  finally show "distinct (map fst es)"
    using assms(1) mset_eq_imp_distinct_iff unfolding hot_ok_def by blast
  have "comparator score_asc (set es)"
    unfolding score_asc_def using assms(1) set
    by (intro comparator_f32) (auto simp: hot_ok_def scored_def)
  then show "sorted_by score_asc es"
    unfolding assms(3) by (rule comparator.sorted_sort_by) (simp add: assms(3))
qed

lemma evict_lowest_ok:
  assumes "hot_ok ht" and "\<And>m. mset (order m) = mset m" and "n \<le> hot_len ht"
    and "evict_lowest_score order n ht = (evicted, ht')"
  shows "evicted = n" and "hot_ok ht'" and "hot_len ht' = hot_len ht - n"
    and "set (ht_chunks ht') \<subseteq> set (ht_chunks ht)" and "ht_config ht' = ht_config ht"
    and "\<forall>(c, e) \<in> set (ht_chunks ht) - set (ht_chunks ht'). \<forall>(c', e') \<in> set (ht_chunks ht').
           f_le (he_promotion_score e) (he_promotion_score e')"
proof -
  define es where "es = sort_by score_asc (map (\<lambda>(cid, e). (cid, he_promotion_score e)) (order (ht_chunks ht)))"
  note es = sorted_scores [of ht order es, OF assms(1) assms(2) [of "ht_chunks ht"] es_def]
  define lows where "lows = map fst (take n es)"
  have "distinct lows" using es(2) by (simp add: lows_def distinct_take flip: take_map)
  moreover have "set lows \<subseteq> fst ` set (ht_chunks ht)"
    using es(1) by (auto simp: lows_def scored_def dest!: in_set_takeD)
  moreover have "length lows = n" using assms(3) es(3) by (simp add: lows_def hot_len_def)
  moreover have dist: "distinct (map fst (ht_chunks ht))" using assms(1) by (simp add: hot_ok_def)
  ultimately have rem: "remove_all lows (ht_chunks ht) = (n, filter (\<lambda>(k, _). k \<notin> set lows) (ht_chunks ht))"
    and len: "length (filter (\<lambda>(k, _). k \<notin> set lows) (ht_chunks ht)) = hot_len ht - n"
    using remove_all_eq [of lows "ht_chunks ht"] length_filter_keys [of "ht_chunks ht" lows] by (auto simp: hot_len_def)
  have "n = 0 \<Longrightarrow> filter (\<lambda>(k, _). k \<notin> set lows) (ht_chunks ht) = ht_chunks ht" by (simp add: lows_def case_prod_unfold)
  then have ht': "evicted = n" "ht_config ht' = ht_config ht"
    "ht' = ht\<lparr>ht_chunks := filter (\<lambda>(k, _). k \<notin> set lows) (ht_chunks ht), ht_version := ht_version ht'\<rparr>"
    using assms(4) rem by (auto simp: evict_lowest_score_def Let_def es_def lows_def split: if_splits)
  show "evicted = n" and "ht_config ht' = ht_config ht" using ht' by blast+
  show "hot_ok ht'" by (subst ht'(3)) (rule hot_ok_filter [OF assms(1)])
  have kept: "ht_chunks ht' = filter (\<lambda>(k, _). k \<notin> set lows) (ht_chunks ht)" by (subst ht'(3)) simp
  then show "hot_len ht' = hot_len ht - n" using len by (simp add: hot_len_def)
  show "set (ht_chunks ht') \<subseteq> set (ht_chunks ht)" by (auto simp: kept)
  have low: "scored (c, e) \<in> set (take n es)" if "(c, e) \<in> set (ht_chunks ht)" "c \<in> set lows" for c e
  proof -
    from that(2) obtain f where f: "(c, f) \<in> set (take n es)" by (auto simp: lows_def)
    moreover have "scored (c, e) \<in> set es" using that(1) es(1) by blast
    ultimately have "scored (c, e) = (c, f)"
      using es(2) by (metis eq_key_imp_eq_value fst_conv in_set_takeD prod.collapse scored_def)
    with f show ?thesis by simp
  qed
  have high: "scored (c, e) \<in> set (drop n es)" if "(c, e) \<in> set (ht_chunks ht)" "c \<notin> set lows" for c e
  proof -
    have "scored (c, e) \<in> set (take n es) \<union> set (drop n es)"
      using that(1) es(1) by (metis append_take_drop_id imageI set_append)
    with that(2) show ?thesis by (force simp: lows_def scored_def)
  qed
  have "f_le (he_promotion_score e) (he_promotion_score e')"
    if "(c, e) \<in> set (ht_chunks ht)" "c \<in> set lows" "(c', e') \<in> set (ht_chunks ht)" "c' \<notin> set lows" for c e c' e'
  proof -
    have "\<not> is_nan (he_promotion_score e)" "\<not> is_nan (he_promotion_score e')"
      using that(1,3) assms(1) by (auto simp: hot_ok_def)
    with take_sorted_le [OF es(4) low [OF that(1,2)] high [OF that(3,4)]] show ?thesis
      by (simp add: score_asc_def scored_def cmp_or_equal_le)
  qed
  then show "\<forall>(c, e) \<in> set (ht_chunks ht) - set (ht_chunks ht'). \<forall>(c', e') \<in> set (ht_chunks ht').
      f_le (he_promotion_score e) (he_promotion_score e')"
    unfolding kept by fastforce
qed

lemma hot_contains_iff: "hot_contains ht c \<longleftrightarrow> c \<in> fst ` set (ht_chunks ht)"
  by (simp add: hot_contains_def map_of_None_fst)

lemma evict_exact:
  assumes "hot_ok ht" and "\<And>m. mset (order m) = mset m" and "evict_if_needed rnd order n ht = (evicted, ht')"
  shows "hot_ok ht' \<and> hot_len ht' \<le> calculate_capacity rnd ht n \<and> hot_len ht' + evicted = hot_len ht
    \<and> set (ht_chunks ht') \<subseteq> set (ht_chunks ht)"
proof (cases "hot_len ht \<le> calculate_capacity rnd ht n")
  case True
  with assms(1,3) show ?thesis by (simp add: evict_if_needed_def Let_def)
next
  case False
  then have "evict_lowest_score order (hot_len ht - calculate_capacity rnd ht n) ht = (evicted, ht')"
    using assms(3) by (simp add: evict_if_needed_def Let_def)
  from evict_lowest_ok(1-4) [OF assms(1,2) _ this] False show ?thesis by simp
qed

section \<open>Properties\<close>

text \<open>
  Eviction brings the hot tier down to its capacity (the configured share of the index,
  never more than the hard cap) and removes exactly as many chunks as it reports. Every evicted
  chunk scores no higher than every chunk that stays, and a tier within its capacity is left
  alone, whatever the iteration order of the table.
\<close>

lemma evict_keeps_best:
  assumes "hot_ok ht" and "\<And>m. mset (order m) = mset m"
    and "evict_if_needed rnd order total_indexed ht = (evicted, ht')"
  shows "hot_ok ht' \<and> hot_len ht' = min (hot_len ht) (calculate_capacity rnd ht total_indexed)
       \<and> evicted = hot_len ht - hot_len ht' \<and> set (ht_chunks ht') \<subseteq> set (ht_chunks ht)
       \<and> (\<forall>(c, e) \<in> set (ht_chunks ht) - set (ht_chunks ht'). \<forall>(c', e') \<in> set (ht_chunks ht').
            f_le (he_promotion_score e) (he_promotion_score e'))
       \<and> (hot_len ht \<le> calculate_capacity rnd ht total_indexed \<longrightarrow> ht' = ht)"
proof (cases "hot_len ht \<le> calculate_capacity rnd ht total_indexed")
  case True
  with assms(1,3) show ?thesis by (auto simp: evict_if_needed_def Let_def)
next
  case False
  then have "evict_lowest_score order (hot_len ht - calculate_capacity rnd ht total_indexed) ht = (evicted, ht')"
    using assms(3) by (simp add: evict_if_needed_def Let_def)
  from evict_lowest_ok [OF assms(1,2) _ this] False show ?thesis by auto
qed

definition demo_index :: "unit vec_index" where
  "demo_index = \<lparr>vi_insert = (\<lambda>cid emb x. Inr x), vi_search = (\<lambda>x q k. Inr [])\<rparr>"

definition demo_hot :: "unit hot_tier" where
  "demo_hot = (let entry = (\<lambda>c s. (c, \<lparr>he_chunk_id = c, he_embedding = [], promoted_at = 0,
                                        he_promotion_score = Fin s, he_tenant_id = ''t''\<rparr>))
               in (hot_tier_new () (default_hot_tier Fin))\<lparr>ht_chunks := [entry ''a'' 2, entry ''b'' 1]\<rparr>)"

lemma evict_keeps_best_witness:
  "hot_len (snd (evict_if_needed Fin rev 10 demo_hot)) = 1 \<and> fst (evict_if_needed Fin rev 10 demo_hot) = 1"
proof -
  have "hot_ok demo_hot" by (simp add: hot_ok_def demo_hot_def hot_tier_new_def default_hot_tier_def Let_def)
  moreover obtain n ht' where e: "evict_if_needed Fin rev 10 demo_hot = (n, ht')" by fastforce
  moreover have "hot_len demo_hot = 2" by (simp add: demo_hot_def hot_len_def Let_def)
  moreover have "calculate_capacity Fin demo_hot 10 = 1"
    by (simp add: calculate_capacity_def demo_hot_def hot_tier_new_def default_hot_tier_def f_of_nat_def Let_def)
  ultimately show ?thesis using evict_keeps_best [of demo_hot rev Fin 10 n ht'] by simp
qed

end
