(* ===== verification/Semantic_Cache.thy ===== *)
theory Semantic_Cache
  imports Memd_Float
begin

text \<open>
  The semantic query cache (\<open>tiered/semantic_cache.rs\<close>): results of earlier searches, found again by
  the similarity of the query embedding. The entries live in a \<open>moka\<close> cache, a concurrent map that
  drops entries by age and size at times of its own choosing; here it is a partial map, and a drop is
  the separate step \<open>drop_entry\<close> that may happen anywhere. SHA-256 and the bytes of a float are the
  fields of \<open>key_hash\<close>; nothing is assumed of them, not even that keys do not collide. Operations
  are sequential.
\<close>

section \<open>State\<close>

record cached_result =
  cr_chunk_id :: string
  cr_score :: f32
  cr_text_preview :: string

record cache_entry =
  ce_query_embedding :: "f32 list"
  ce_results :: "cached_result list"
  ce_tenant_id :: string
  ce_project_id :: "string option"
  ce_memory_version :: nat
  ce_created_at :: int
  ce_last_hit :: int
  ce_hit_count :: u32
  ce_confidence :: f32

record cache_record =
  rec_entry :: cache_entry
  retrieval_limit :: nat

record cache_hit =
  ch_results :: "cached_result list"
  ch_similarity :: f32
  ch_confidence :: f32
  ch_age_ms :: int
  ch_cache_key :: string

record query_index_entry =
  qi_cache_key :: string
  qi_embedding :: "f32 list"
  qi_tenant_id :: string
  qi_project_id :: "string option"

record cache_stats =
  total_lookups :: nat
  cache_hits :: nat
  cache_misses :: nat
  version_invalidations :: nat
  ttl_expirations :: nat

definition default_cache_stats :: cache_stats where
  "default_cache_stats = \<lparr>total_lookups = 0, cache_hits = 0, cache_misses = 0, version_invalidations = 0, ttl_expirations = 0\<rparr>"

text \<open>The lifetime and the number of entries are settings of the map; the decay rate is not read.\<close>

record cache_config =
  similarity_threshold :: f32
  ttl_seconds :: nat
  max_entries :: nat
  confidence_boost_on_hit :: f32
  confidence_decay_rate :: f32

definition default_cache_config :: "rounding \<Rightarrow> cache_config" where
  "default_cache_config rnd =
     \<lparr>similarity_threshold = rnd 0.85, ttl_seconds = 2700, max_entries = 10000,
      confidence_boost_on_hit = rnd 0.1, confidence_decay_rate = rnd 0.05\<rparr>"

record semantic_cache =
  sc_entries :: "string \<rightharpoonup> cache_record"
  query_index :: "query_index_entry list"
  sc_config :: cache_config
  sc_stats :: cache_stats

definition cache_new :: "cache_config \<Rightarrow> semantic_cache" where
  "cache_new cfg = \<lparr>sc_entries = Map.empty, query_index = [], sc_config = cfg, sc_stats = default_cache_stats\<rparr>"

section \<open>Similarity and keys\<close>

fun dot_norms :: "rounding \<Rightarrow> f32 \<times> f32 \<times> f32 \<Rightarrow> (f32 \<times> f32) list \<Rightarrow> f32 \<times> f32 \<times> f32" where
  "dot_norms rnd acc [] = acc"
| "dot_norms rnd (d, na, nb) ((x, y) # r) =
     dot_norms rnd (f_add rnd d (f_mul rnd x y), f_add rnd na (f_mul rnd x x), f_add rnd nb (f_mul rnd y y)) r"

definition cache_similarity :: "rounding \<Rightarrow> f32 list \<Rightarrow> f32 list \<Rightarrow> f32" where
  "cache_similarity rnd a b =
     (if length a \<noteq> length b \<or> a = [] then Fin 0
      else let (d, na, nb) = dot_norms rnd (Fin 0, Fin 0, Fin 0) (zip a b);
               norm_a = f_sqrt rnd na;
               norm_b = f_sqrt rnd nb
           in if f_eq norm_a (Fin 0) \<or> f_eq norm_b (Fin 0) then Fin 0
              else f_div rnd d (f_mul rnd norm_a norm_b))"

record key_hash =
  sha256 :: "bytes \<Rightarrow> bytes"
  f32_le_bytes :: "f32 \<Rightarrow> bytes"

definition str_bytes :: "string \<Rightarrow> bytes" where
  "str_bytes s = map (\<lambda>c. of_char c) s"

definition hex_digit :: "nat \<Rightarrow> char" where
  "hex_digit d = (if d < 10 then char_of (48 + d) else char_of (87 + d))"

definition hex_encode :: "bytes \<Rightarrow> string" where
  "hex_encode bs = concat (map (\<lambda>b. [hex_digit (unat b div 16), hex_digit (unat b mod 16)]) bs)"

definition embedding_hash :: "key_hash \<Rightarrow> f32 list \<Rightarrow> string \<Rightarrow> string option \<Rightarrow> string" where
  "embedding_hash H embedding tenant project =
     (let len_bytes = (\<lambda>s. le_bytes 8 (length s));
          project_part = (case project of None \<Rightarrow> [0] | Some p \<Rightarrow> [1] @ len_bytes p @ str_bytes p);
          input = len_bytes tenant @ str_bytes tenant @ project_part @ concat (map (f32_le_bytes H) embedding)
      in hex_encode (take 16 (sha256 H input)))"

section \<open>Lookup\<close>

text \<open>The loop over the index: the first of the best matches at or above the threshold.\<close>

fun best_match ::
  "rounding \<Rightarrow> cache_config \<Rightarrow> f32 list \<Rightarrow> string \<Rightarrow> string option \<Rightarrow> (string \<times> f32) option
     \<Rightarrow> query_index_entry list \<Rightarrow> (string \<times> f32) option" where
  "best_match rnd cfg q tenant project best [] = best"
| "best_match rnd cfg q tenant project best (e # es) =
     best_match rnd cfg q tenant project
       (if qi_tenant_id e \<noteq> tenant then best
        else if qi_project_id e \<noteq> project then best
        else let similarity = cache_similarity rnd q (qi_embedding e)
             in if f_le (similarity_threshold cfg) similarity
                   \<and> (case best of None \<Rightarrow> True | Some (_, s) \<Rightarrow> f_lt s similarity)
                then Some (qi_cache_key e, similarity) else best) es"

definition lookup_with_limit ::
  "rounding \<Rightarrow> int \<Rightarrow> f32 list \<Rightarrow> string \<Rightarrow> string option \<Rightarrow> nat \<Rightarrow> nat \<Rightarrow> semantic_cache
     \<Rightarrow> cache_hit option \<times> semantic_cache" where
  "lookup_with_limit rnd now q tenant project current_version requested_limit c =
     (let st0 = (sc_stats c)\<lparr>total_lookups := total_lookups (sc_stats c) + 1\<rparr>;
          c0 = c\<lparr>sc_stats := st0\<rparr>
      in case best_match rnd (sc_config c) q tenant project None (query_index c) of
        None \<Rightarrow> (None, c0)
      | Some (key, similarity) \<Rightarrow>
         (case sc_entries c key of
            None \<Rightarrow> (None, c0)
          | Some r \<Rightarrow>
              if ce_memory_version (rec_entry r) < current_version
              then (None, c0\<lparr>sc_stats := st0\<lparr>version_invalidations := version_invalidations st0 + 1,
                                              cache_misses := cache_misses st0 + 1\<rparr>\<rparr>)
              else if retrieval_limit r < requested_limit
              then (None, c0\<lparr>sc_stats := st0\<lparr>cache_misses := cache_misses st0 + 1\<rparr>\<rparr>)
              else let entry = (rec_entry r)\<lparr>ce_last_hit := now, ce_hit_count := ce_hit_count (rec_entry r) + 1,
                                 ce_confidence := f_min (f_add rnd (ce_confidence (rec_entry r))
                                                          (confidence_boost_on_hit (sc_config c))) (Fin 1)\<rparr>
                   in (Some \<lparr>ch_results = ce_results entry, ch_similarity = similarity,
                             ch_confidence = ce_confidence entry,
                             ch_age_ms = max (now - ce_created_at entry) 0, ch_cache_key = key\<rparr>,
                       c0\<lparr>sc_entries := (sc_entries c)(key \<mapsto> r\<lparr>rec_entry := entry\<rparr>),
                          sc_stats := st0\<lparr>cache_hits := cache_hits st0 + 1\<rparr>\<rparr>)))"

definition lookup ::
  "rounding \<Rightarrow> int \<Rightarrow> f32 list \<Rightarrow> string \<Rightarrow> string option \<Rightarrow> nat \<Rightarrow> semantic_cache \<Rightarrow> cache_hit option \<times> semantic_cache" where
  "lookup rnd now q tenant project current_version c =
     lookup_with_limit rnd now q tenant project current_version 0 c"

section \<open>Insertion and invalidation\<close>

fun replace_or_push :: "query_index_entry \<Rightarrow> query_index_entry list \<Rightarrow> query_index_entry list" where
  "replace_or_push x [] = [x]"
| "replace_or_push x (e # es) = (if qi_cache_key e = qi_cache_key x then x # es else e # replace_or_push x es)"

definition insert_with_limit ::
  "key_hash \<Rightarrow> int \<Rightarrow> f32 list \<Rightarrow> string \<Rightarrow> string option \<Rightarrow> cached_result list \<Rightarrow> nat \<Rightarrow> nat
     \<Rightarrow> semantic_cache \<Rightarrow> semantic_cache" where
  "insert_with_limit H now q tenant project results memory_version limit c =
     (let key = embedding_hash H q tenant project;
          entry = \<lparr>ce_query_embedding = q, ce_results = results, ce_tenant_id = tenant, ce_project_id = project,
                   ce_memory_version = memory_version, ce_created_at = now, ce_last_hit = now,
                   ce_hit_count = 0, ce_confidence = Fin (1 / 2)\<rparr>
      in c\<lparr>sc_entries := (sc_entries c)(key \<mapsto> \<lparr>rec_entry = entry, retrieval_limit = limit\<rparr>),
           query_index := replace_or_push \<lparr>qi_cache_key = key, qi_embedding = q, qi_tenant_id = tenant,
                                           qi_project_id = project\<rparr> (query_index c)\<rparr>)"

definition cache_insert ::
  "key_hash \<Rightarrow> int \<Rightarrow> f32 list \<Rightarrow> string \<Rightarrow> string option \<Rightarrow> cached_result list \<Rightarrow> nat \<Rightarrow> semantic_cache \<Rightarrow> semantic_cache" where
  "cache_insert H now q tenant project results memory_version c =
     insert_with_limit H now q tenant project results memory_version (length results) c"

definition drop_keys :: "string list \<Rightarrow> semantic_cache \<Rightarrow> semantic_cache" where
  "drop_keys ks c = c\<lparr>sc_entries := (\<lambda>k. if k \<in> set ks then None else sc_entries c k)\<rparr>"

definition invalidate_tenant :: "string \<Rightarrow> semantic_cache \<Rightarrow> semantic_cache" where
  "invalidate_tenant tenant c =
     (let keys = map qi_cache_key (filter (\<lambda>e. qi_tenant_id e = tenant) (query_index c))
      in (drop_keys keys c)\<lparr>query_index := filter (\<lambda>e. qi_tenant_id e \<noteq> tenant) (query_index c)\<rparr>)"

definition invalidate_by_version :: "string \<Rightarrow> nat \<Rightarrow> semantic_cache \<Rightarrow> semantic_cache" where
  "invalidate_by_version tenant min_version c =
     (let stale = (\<lambda>e. qi_tenant_id e = tenant \<and>
                     (case sc_entries c (qi_cache_key e) of
                        Some r \<Rightarrow> ce_memory_version (rec_entry r) < min_version | None \<Rightarrow> False));
          keys = map qi_cache_key (filter stale (query_index c))
      in (drop_keys keys c)
           \<lparr>query_index := filter (\<lambda>e. qi_cache_key e \<notin> set keys) (query_index c),
            sc_stats := (sc_stats c)\<lparr>version_invalidations := version_invalidations (sc_stats c) + length keys\<rparr>\<rparr>)"

definition invalidate_chunks :: "string list \<Rightarrow> semantic_cache \<Rightarrow> semantic_cache" where
  "invalidate_chunks chunk_ids c =
     (let hit = (\<lambda>e. case sc_entries c (qi_cache_key e) of
                       Some r \<Rightarrow> list_ex (\<lambda>x. cr_chunk_id x \<in> set chunk_ids) (ce_results (rec_entry r))
                     | None \<Rightarrow> False);
          keys = map qi_cache_key (filter hit (query_index c))
      in (drop_keys keys c)\<lparr>query_index := filter (\<lambda>e. qi_cache_key e \<notin> set keys) (query_index c)\<rparr>)"

definition prune_index :: "semantic_cache \<Rightarrow> semantic_cache" where
  "prune_index c =
     (let kept = filter (\<lambda>e. sc_entries c (qi_cache_key e) \<noteq> None) (query_index c);
          removed = length (query_index c) - length kept
      in c\<lparr>query_index := kept,
           sc_stats := (if removed > 0
                        then (sc_stats c)\<lparr>ttl_expirations := ttl_expirations (sc_stats c) + removed\<rparr>
                        else sc_stats c)\<rparr>)"

text \<open>\<open>get_stats\<close>: the counters, the mean confidence of the entries still present, the index size.\<close>

definition cache_get_stats :: "rounding \<Rightarrow> semantic_cache \<Rightarrow> cache_stats \<times> f32 \<times> nat" where
  "cache_get_stats rnd c =
     (let present = List.map_filter (\<lambda>e. sc_entries c (qi_cache_key e)) (query_index c);
          total_confidence = f_sum rnd (map (\<lambda>r. ce_confidence (rec_entry r)) present);
          avg = (if present \<noteq> [] then f_div rnd total_confidence (f_of_nat rnd (length present)) else Fin 0)
      in (sc_stats c, avg, length (query_index c)))"

text \<open>The map drops an entry on its own, by age or size.\<close>

definition drop_entry :: "string \<Rightarrow> semantic_cache \<Rightarrow> semantic_cache" where
  "drop_entry k c = drop_keys [k] c"

section \<open>Histories\<close>

record cache_fill =
  cf_query :: "f32 list"
  cf_tenant :: string
  cf_project :: "string option"
  cf_results :: "cached_result list"
  cf_version :: nat
  cf_limit :: nat

datatype cache_op =
    Fill int cache_fill
  | Ask int "f32 list" string "string option" nat nat
  | DropTenant string
  | DropVersion string nat
  | DropChunks "string list"
  | Prune
  | Expire string

fun cache_step :: "rounding \<Rightarrow> key_hash \<Rightarrow> cache_op \<Rightarrow> semantic_cache \<Rightarrow> semantic_cache" where
  "cache_step rnd H (Fill now f) c =
     insert_with_limit H now (cf_query f) (cf_tenant f) (cf_project f) (cf_results f) (cf_version f) (cf_limit f) c"
| "cache_step rnd H (Ask now q t p v l) c = snd (lookup_with_limit rnd now q t p v l c)"
| "cache_step rnd H (DropTenant t) c = invalidate_tenant t c"
| "cache_step rnd H (DropVersion t v) c = invalidate_by_version t v c"
| "cache_step rnd H (DropChunks ids) c = invalidate_chunks ids c"
| "cache_step rnd H Prune c = prune_index c"
| "cache_step rnd H (Expire k) c = drop_entry k c"

definition run_cache :: "rounding \<Rightarrow> key_hash \<Rightarrow> cache_op list \<Rightarrow> semantic_cache \<Rightarrow> semantic_cache" where
  "run_cache rnd H ops c = foldl (\<lambda>c x. cache_step rnd H x c) c ops"

text \<open>
  The abstract cache: the fills that no later invalidation covers. A cache may forget more than
  this, never less.
\<close>

fun valid_fills :: "cache_op \<Rightarrow> cache_fill set \<Rightarrow> cache_fill set" where
  "valid_fills (Fill now f) F = insert f F"
| "valid_fills (DropTenant t) F = {f \<in> F. cf_tenant f \<noteq> t}"
| "valid_fills (DropVersion t v) F = {f \<in> F. cf_tenant f \<noteq> t \<or> v \<le> cf_version f}"
| "valid_fills (DropChunks ids) F = {f \<in> F. cr_chunk_id ` set (cf_results f) \<inter> set ids = {}}"
| "valid_fills _ F = F"

definition all_fills :: "cache_op list \<Rightarrow> cache_fill set" where
  "all_fills ops = foldl (\<lambda>F x. valid_fills x F) {} ops"

section \<open>Refinement\<close>

definition fill_of :: "cache_record \<Rightarrow> cache_fill" where
  "fill_of r = \<lparr>cf_query = ce_query_embedding (rec_entry r), cf_tenant = ce_tenant_id (rec_entry r),
                cf_project = ce_project_id (rec_entry r), cf_results = ce_results (rec_entry r),
                cf_version = ce_memory_version (rec_entry r), cf_limit = retrieval_limit r\<rparr>"

definition indexes :: "query_index_entry \<Rightarrow> string \<Rightarrow> cache_fill \<Rightarrow> bool" where
  "indexes e k f \<longleftrightarrow> qi_cache_key e = k \<and> qi_embedding e = cf_query f \<and> qi_tenant_id e = cf_tenant f
                    \<and> qi_project_id e = cf_project f"

definition cache_ok :: "cache_fill set \<Rightarrow> semantic_cache \<Rightarrow> bool" where
  "cache_ok F c \<longleftrightarrow> distinct (map qi_cache_key (query_index c))
     \<and> (\<forall>k r. sc_entries c k = Some r \<longrightarrow> fill_of r \<in> F \<and> (\<exists>e \<in> set (query_index c). indexes e k (fill_of r)))"

lemma cache_ok_new: "cache_ok {} (cache_new cfg)"
  by (simp add: cache_ok_def cache_new_def)

lemma cache_ok_mono: "cache_ok F c \<Longrightarrow> F \<subseteq> G \<Longrightarrow> cache_ok G c"
  by (auto simp: cache_ok_def)

lemma set_replace_or_push:
  "distinct (map qi_cache_key es) \<Longrightarrow>
   set (replace_or_push x es) = insert x {e \<in> set es. qi_cache_key e \<noteq> qi_cache_key x}"
  by (induction es) (auto simp: image_iff)

lemma keys_replace_or_push:
  "qi_cache_key ` set (replace_or_push x es) = insert (qi_cache_key x) (qi_cache_key ` set es)"
  by (induction es) auto

lemma distinct_replace_or_push:
  "distinct (map qi_cache_key es) \<Longrightarrow> distinct (map qi_cache_key (replace_or_push x es))"
  by (induction es) (auto simp: keys_replace_or_push)

text \<open>The index entry of a key determines what the record under the key was filled with.\<close>

lemma index_entry_unique:
  "distinct (map qi_cache_key es) \<Longrightarrow> a \<in> set es \<Longrightarrow> b \<in> set es \<Longrightarrow> qi_cache_key a = qi_cache_key b \<Longrightarrow> a = b"
  by (metis distinct_map inj_on_eq_iff)

lemma fill_ok:
  assumes "cache_ok F c"
  shows "cache_ok (insert f F) (insert_with_limit H now (cf_query f) (cf_tenant f) (cf_project f) (cf_results f)
           (cf_version f) (cf_limit f) c)"
proof -
  let ?k = "embedding_hash H (cf_query f) (cf_tenant f) (cf_project f)"
  let ?x = "\<lparr>qi_cache_key = ?k, qi_embedding = cf_query f, qi_tenant_id = cf_tenant f, qi_project_id = cf_project f\<rparr>"
  have d: "distinct (map qi_cache_key (query_index c))" using assms by (simp add: cache_ok_def)
  have "\<exists>e \<in> set (replace_or_push ?x (query_index c)). indexes e k (fill_of r)"
    if "sc_entries c k = Some r" "k \<noteq> ?k" for k r
    using that assms by (auto simp: cache_ok_def set_replace_or_push [OF d] indexes_def)
  moreover have "\<exists>e \<in> set (replace_or_push ?x (query_index c)). indexes e ?k f"
    by (auto simp: set_replace_or_push [OF d] indexes_def)
  moreover define r where "r = \<lparr>rec_entry = \<lparr>ce_query_embedding = cf_query f, ce_results = cf_results f,
      ce_tenant_id = cf_tenant f, ce_project_id = cf_project f, ce_memory_version = cf_version f,
      ce_created_at = now, ce_last_hit = now, ce_hit_count = 0, ce_confidence = Fin (1 / 2)\<rparr>,
      retrieval_limit = cf_limit f\<rparr>"
  moreover have "fill_of r = f" by (cases f) (simp add: fill_of_def r_def)
  ultimately show ?thesis
    using assms distinct_replace_or_push [OF d, of ?x]
    unfolding cache_ok_def insert_with_limit_def Let_def r_def [symmetric] by auto
qed

text \<open>Dropping keys together with their index entries, or keeping the entries, keeps the invariant.\<close>

lemma drop_ok:
  assumes "cache_ok F c" and "\<And>k r. sc_entries c k = Some r \<Longrightarrow> k \<notin> set ks \<Longrightarrow> fill_of r \<in> G"
    and "\<And>e. e \<in> set (query_index c) \<Longrightarrow> qi_cache_key e \<notin> set ks \<Longrightarrow> sc_entries c (qi_cache_key e) \<noteq> None \<Longrightarrow> P e"
  shows "cache_ok G ((drop_keys ks c)\<lparr>query_index := filter P (query_index c), sc_stats := s\<rparr>)"
  using assms by (fastforce simp: cache_ok_def drop_keys_def indexes_def distinct_map_filter split: if_splits)


lemma ask_ok:
  assumes "cache_ok F c"
  shows "cache_ok F (snd (lookup_with_limit rnd now q t p v l c))"
proof -
  have upd: "cache_ok F (c\<lparr>sc_entries := (sc_entries c)(k \<mapsto> r'), sc_stats := s\<rparr>)"
    if "sc_entries c k = Some r" "fill_of r' = fill_of r" for k r r' s
    using that assms by (auto simp: cache_ok_def)
  have st: "cache_ok F (c\<lparr>sc_stats := s\<rparr>)" for s using assms by (simp add: cache_ok_def)
  show ?thesis
    by (auto simp: lookup_with_limit_def Let_def st fill_of_def intro!: upd split: option.splits)
qed

lemma cache_step_ok: "cache_ok F c \<Longrightarrow> cache_ok (valid_fills x F) (cache_step rnd H x c)"
proof (cases x)
  case (DropTenant t)
  assume ok: "cache_ok F c"
  let ?ks = "map qi_cache_key (filter (\<lambda>e. qi_tenant_id e = t) (query_index c))"
  have "cache_ok (valid_fills x F)
      ((drop_keys ?ks c)\<lparr>query_index := filter (\<lambda>e. qi_tenant_id e \<noteq> t) (query_index c), sc_stats := sc_stats c\<rparr>)"
  proof (rule drop_ok [OF ok])
    show "fill_of r \<in> valid_fills x F" if "sc_entries c k = Some r" "k \<notin> set ?ks" for k r
      using that ok DropTenant by (fastforce simp: cache_ok_def indexes_def)
  qed auto
  then show ?thesis using DropTenant by (simp add: invalidate_tenant_def Let_def drop_keys_def)
next
  case (DropVersion t v)
  assume ok: "cache_ok F c"
  let ?stale = "\<lambda>e. qi_tenant_id e = t \<and> (case sc_entries c (qi_cache_key e) of
                     Some r \<Rightarrow> ce_memory_version (rec_entry r) < v | None \<Rightarrow> False)"
  let ?ks = "map qi_cache_key (filter ?stale (query_index c))"
  have "fill_of r \<in> valid_fills x F" if "sc_entries c k = Some r" "k \<notin> set ?ks" for k r
    using that ok DropVersion by (fastforce simp: cache_ok_def indexes_def fill_of_def)
  then show ?thesis
    using DropVersion drop_ok [OF ok, of ?ks "valid_fills x F" "\<lambda>e. qi_cache_key e \<notin> set ?ks"]
    by (simp add: invalidate_by_version_def Let_def)
next
  case (DropChunks ids)
  assume ok: "cache_ok F c"
  let ?hit = "\<lambda>e. case sc_entries c (qi_cache_key e) of
                     Some r \<Rightarrow> list_ex (\<lambda>x. cr_chunk_id x \<in> set ids) (ce_results (rec_entry r)) | None \<Rightarrow> False"
  let ?ks = "map qi_cache_key (filter ?hit (query_index c))"
  have "fill_of r \<in> valid_fills x F" if "sc_entries c k = Some r" "k \<notin> set ?ks" for k r
    using that ok DropChunks by (fastforce simp: cache_ok_def indexes_def fill_of_def list_ex_iff)
  then show ?thesis
    using DropChunks drop_ok [OF ok, of ?ks "valid_fills x F" "\<lambda>e. qi_cache_key e \<notin> set ?ks" "sc_stats c"]
    by (simp add: invalidate_chunks_def Let_def drop_keys_def)
next
  case Prune
  assume ok: "cache_ok F c"
  have "cache_ok F ((drop_keys [] c)\<lparr>query_index := filter (\<lambda>e. sc_entries c (qi_cache_key e) \<noteq> None) (query_index c), sc_stats := s\<rparr>)" for s
    by (rule drop_ok [OF ok]) (use ok in \<open>auto simp: cache_ok_def\<close>)
  then show ?thesis using Prune by (simp add: prune_index_def Let_def drop_keys_def)
next
  case (Expire k)
  assume ok: "cache_ok F c"
  then show ?thesis using Expire by (auto simp: cache_ok_def drop_entry_def drop_keys_def)
qed (simp_all add: fill_ok ask_ok)

lemma run_cache_ok: "cache_ok F c \<Longrightarrow> cache_ok (foldl (\<lambda>F x. valid_fills x F) F ops) (run_cache rnd H ops c)"
  by (induction ops arbitrary: F c) (simp_all add: run_cache_def cache_step_ok)

text \<open>The loop returns an index entry of the right tenant and project, above the threshold.\<close>

lemma best_match_ok:
  assumes "best_match rnd cfg q t p best es = Some (k, s)"
  shows "best = Some (k, s) \<or> (\<exists>e \<in> set es. qi_cache_key e = k \<and> qi_tenant_id e = t \<and> qi_project_id e = p
           \<and> s = cache_similarity rnd q (qi_embedding e) \<and> f_le (similarity_threshold cfg) s)"
  using assms
proof (induction es arbitrary: best)
  case (Cons e es)
  from Cons.IH [OF Cons.prems [unfolded best_match.simps]] show ?case
    by (auto simp: Let_def split: if_splits)
qed simp

section \<open>Properties\<close>

text \<open>
  C25. A cache hit is never foreign or stale. After any history of insertions, lookups,
  invalidations, prunings and expirations, a hit returns the results of an insertion for the
  same tenant and project that no later invalidation covers, taken at the current version or a
  later one, searched with at least the requested limit, and for a query whose similarity to the
  new one is the reported value, at or above the threshold. This does not rely on cache keys
  being free of collisions.
\<close>

theorem cache_hit_sound:
  assumes "lookup_with_limit rnd now q tenant project current_version limit
             (run_cache rnd H ops (cache_new cfg)) = (Some hit, c')"
  shows "\<exists>f \<in> all_fills ops. cf_tenant f = tenant \<and> cf_project f = project \<and> ch_results hit = cf_results f
           \<and> current_version \<le> cf_version f \<and> limit \<le> cf_limit f
           \<and> ch_similarity hit = cache_similarity rnd q (cf_query f)
           \<and> f_le (similarity_threshold cfg) (ch_similarity hit)"
proof -
  let ?c = "run_cache rnd H ops (cache_new cfg)"
  have ok: "cache_ok (all_fills ops) ?c"
    unfolding all_fills_def by (rule run_cache_ok [OF cache_ok_new])
  have step: "sc_config (cache_step rnd H x c) = sc_config c" for x c
    by (cases x) (auto simp: insert_with_limit_def lookup_with_limit_def invalidate_tenant_def
        invalidate_by_version_def invalidate_chunks_def prune_index_def drop_entry_def drop_keys_def Let_def
        split: option.splits)
  have "sc_config (foldl (\<lambda>c x. cache_step rnd H x c) c xs) = sc_config c" for c xs
    by (induction xs arbitrary: c) (simp_all add: step)
  then have cfg: "sc_config ?c = cfg" by (simp add: run_cache_def cache_new_def)
  from assms obtain k s r where b: "best_match rnd cfg q tenant project None (query_index ?c) = Some (k, s)"
      and r: "sc_entries ?c k = Some r" "current_version \<le> cf_version (fill_of r)" "limit \<le> cf_limit (fill_of r)"
      and hit: "ch_results hit = cf_results (fill_of r)" "ch_similarity hit = s"
    by (auto simp: lookup_with_limit_def Let_def cfg fill_of_def split: option.splits if_splits)
  from best_match_ok [OF b] obtain e where e: "e \<in> set (query_index ?c)" "qi_cache_key e = k" "qi_tenant_id e = tenant"
      "qi_project_id e = project" "s = cache_similarity rnd q (qi_embedding e)" "f_le (similarity_threshold cfg) s" by auto
  from ok r(1) obtain e' where "fill_of r \<in> all_fills ops" "e' \<in> set (query_index ?c)" "indexes e' k (fill_of r)"
    unfolding cache_ok_def by blast
  moreover from this e ok have "e' = e"
    unfolding cache_ok_def indexes_def by (metis index_entry_unique)
  ultimately show ?thesis using e r hit by (intro bexI [of _ "fill_of r"]) (auto simp: indexes_def)
qed

definition demo_fill :: cache_fill where
  "demo_fill = \<lparr>cf_query = [Fin 1], cf_tenant = ''t'', cf_project = None,
     cf_results = [\<lparr>cr_chunk_id = ''c'', cr_score = Fin 1, cr_text_preview = []\<rparr>], cf_version = 3, cf_limit = 5\<rparr>"

definition demo_hash :: key_hash where
  "demo_hash = \<lparr>sha256 = (\<lambda>bs. bs), f32_le_bytes = (\<lambda>x. [])\<rparr>"

theorem cache_hit_sound_witness:
  "\<exists>hit c'. lookup_with_limit Fin 9 [Fin 1] ''t'' None 2 5
      (run_cache Fin demo_hash [Fill 7 demo_fill] (cache_new (default_cache_config Fin))) = (Some hit, c')
    \<and> (\<exists>f \<in> all_fills [Fill 7 demo_fill]. cf_tenant f = ''t'' \<and> ch_results hit = cf_results f)"
proof -
  have "fst (lookup_with_limit Fin 9 [Fin 1] ''t'' None 2 5
      (run_cache Fin demo_hash [Fill 7 demo_fill] (cache_new (default_cache_config Fin)))) \<noteq> None"
    by (simp add: lookup_with_limit_def run_cache_def insert_with_limit_def Let_def cache_new_def demo_fill_def
        default_cache_config_def cache_similarity_def f_eq_def)
  then obtain hit c' where "lookup_with_limit Fin 9 [Fin 1] ''t'' None 2 5
      (run_cache Fin demo_hash [Fill 7 demo_fill] (cache_new (default_cache_config Fin))) = (Some hit, c')"
    by (metis not_None_eq prod.collapse)
  then show ?thesis using cache_hit_sound [of Fin 9 "[Fin 1]" "''t''" None 2 5 demo_hash] by blast
qed

end
