(* ===== verification/Fusion.thy ===== *)
theory Fusion
  imports Memd_Float "HOL-Library.AList"
begin

text \<open>
  Reciprocal rank fusion (\<open>retrieval/fusion.rs\<close>): candidates of the dense and the sparse search
  are grouped by chunk, each adds its weight over \<open>k + rank\<close>, and the groups are sorted by score.
  The accumulator is a hash map, whose iteration order is not specified; it is the parameter
  \<open>order\<close>, any rearrangement of the entries.
\<close>

section \<open>The algorithm\<close>

datatype fusion_source = Dense | Sparse

record fusion_candidate =
  fc_chunk_id :: string
  fc_source :: fusion_source
  fc_rank :: nat
  fc_source_score :: f32

record rrf_config =
  rrf_k :: f32
  dense_weight :: f32
  sparse_weight :: f32

definition default_rrf :: rrf_config where
  "default_rrf = \<lparr>rrf_k = Fin 60, dense_weight = Fin 1, sparse_weight = Fin 1\<rparr>"

record fused_result =
  fr_chunk_id :: string
  fr_score :: f32
  fr_dense_rank :: "nat option"
  fr_sparse_rank :: "nat option"

record fusion_acc =
  fa_score :: f32
  fa_dense_rank :: "nat option"
  fa_sparse_rank :: "nat option"

definition empty_acc :: fusion_acc where
  "empty_acc = \<lparr>fa_score = Fin 0, fa_dense_rank = None, fa_sparse_rank = None\<rparr>"

definition contribution :: "rounding \<Rightarrow> rrf_config \<Rightarrow> fusion_candidate \<Rightarrow> f32" where
  "contribution rnd cfg c =
     (let weight = (case fc_source c of Dense \<Rightarrow> dense_weight cfg | Sparse \<Rightarrow> sparse_weight cfg)
      in f_div rnd weight (f_add rnd (rrf_k cfg) (f_of_nat rnd (fc_rank c))))"

definition accumulate :: "rounding \<Rightarrow> rrf_config \<Rightarrow> fusion_acc \<Rightarrow> fusion_candidate \<Rightarrow> fusion_acc" where
  "accumulate rnd cfg acc c =
     (let acc1 = acc\<lparr>fa_score := f_add rnd (fa_score acc) (contribution rnd cfg c)\<rparr>
      in case fc_source c of
           Dense \<Rightarrow> acc1\<lparr>fa_dense_rank := Some (fc_rank c)\<rparr>
         | Sparse \<Rightarrow> acc1\<lparr>fa_sparse_rank := Some (fc_rank c)\<rparr>)"

type_synonym accumulators = "(string \<times> fusion_acc) list"

definition or_empty :: "fusion_acc option \<Rightarrow> fusion_acc" where
  "or_empty a = (case a of None \<Rightarrow> empty_acc | Some x \<Rightarrow> x)"

fun accumulate_all :: "rounding \<Rightarrow> rrf_config \<Rightarrow> fusion_candidate list \<Rightarrow> accumulators \<Rightarrow> accumulators" where
  "accumulate_all rnd cfg [] m = m"
| "accumulate_all rnd cfg (c # cs) m =
     accumulate_all rnd cfg cs
       (AList.update (fc_chunk_id c) (accumulate rnd cfg (or_empty (map_of m (fc_chunk_id c))) c) m)"

definition to_result :: "string \<times> fusion_acc \<Rightarrow> fused_result" where
  "to_result e = \<lparr>fr_chunk_id = fst e, fr_score = fa_score (snd e),
                  fr_dense_rank = fa_dense_rank (snd e), fr_sparse_rank = fa_sparse_rank (snd e)\<rparr>"

definition result_cmp :: "fused_result \<Rightarrow> fused_result \<Rightarrow> ordering" where
  "result_cmp a b =
     then_with (cmp_or_equal (fr_score b) (fr_score a)) (str_cmp (fr_chunk_id a) (fr_chunk_id b))"

definition fuse ::
  "rounding \<Rightarrow> rrf_config \<Rightarrow> (accumulators \<Rightarrow> accumulators) \<Rightarrow> fusion_candidate list \<Rightarrow> fused_result list" where
  "fuse rnd cfg order candidates =
     sort_by result_cmp (map to_result (order (accumulate_all rnd cfg candidates [])))"

section \<open>The groups\<close>

abbreviation of_chunk :: "string \<Rightarrow> fusion_candidate list \<Rightarrow> fusion_candidate list" where
  "of_chunk i cs \<equiv> filter (\<lambda>c. fc_chunk_id c = i) cs"

lemma accumulate_all_lookup:
  "map_of (accumulate_all rnd cfg cs m) i =
     (if of_chunk i cs = [] then map_of m i
      else Some (foldl (accumulate rnd cfg) (or_empty (map_of m i)) (of_chunk i cs)))"
  by (induction cs arbitrary: m) (auto simp: update_conv' or_empty_def)

lemma accumulate_all_distinct:
  "distinct (map fst m) \<Longrightarrow> distinct (map fst (accumulate_all rnd cfg cs m))"
  by (induction cs arbitrary: m) (simp_all add: distinct_update)

lemma accumulate_all_ids:
  "fst ` set (accumulate_all rnd cfg cs m) = fst ` set m \<union> fc_chunk_id ` set cs"
  by (induction cs arbitrary: m) (auto simp: update_conv' split: if_splits simp flip: dom_map_of_conv_image_fst)

lemma foldl_accumulate:
  "foldl (accumulate rnd cfg) acc cs =
     \<lparr>fa_score = foldl (f_add rnd) (fa_score acc) (map (contribution rnd cfg) cs),
      fa_dense_rank = (case filter (\<lambda>c. fc_source c = Dense) cs of [] \<Rightarrow> fa_dense_rank acc | d # ds \<Rightarrow> Some (fc_rank (last (d # ds)))),
      fa_sparse_rank = (case filter (\<lambda>c. fc_source c = Sparse) cs of [] \<Rightarrow> fa_sparse_rank acc | d # ds \<Rightarrow> Some (fc_rank (last (d # ds))))\<rparr>"
proof (induction cs arbitrary: acc)
  case (Cons c cs)
  show ?case
    unfolding foldl.simps Cons.IH
    by (cases "fc_source c") (auto simp: accumulate_def Let_def split: list.splits)
qed simp

definition last_rank :: "fusion_source \<Rightarrow> fusion_candidate list \<Rightarrow> nat option" where
  "last_rank src cs = (case filter (\<lambda>c. fc_source c = src) cs of [] \<Rightarrow> None | d # ds \<Rightarrow> Some (fc_rank (last (d # ds))))"

text \<open>The specification: one result per chunk, in the order of its candidates.\<close>

definition fused :: "rounding \<Rightarrow> rrf_config \<Rightarrow> fusion_candidate list \<Rightarrow> string \<Rightarrow> fused_result" where
  "fused rnd cfg cs i =
     \<lparr>fr_chunk_id = i, fr_score = f_sum rnd (map (contribution rnd cfg) (of_chunk i cs)),
      fr_dense_rank = last_rank Dense (of_chunk i cs), fr_sparse_rank = last_rank Sparse (of_chunk i cs)\<rparr>"

lemma groups_are_fused:
  "set (map to_result (accumulate_all rnd cfg cs [])) = fused rnd cfg cs ` fc_chunk_id ` set cs"
proof -
  have d: "distinct (map fst (accumulate_all rnd cfg cs []))"
    by (simp add: accumulate_all_distinct)
  have "to_result (i, a) = fused rnd cfg cs i" if "(i, a) \<in> set (accumulate_all rnd cfg cs [])" for i a
  proof -
    have "map_of (accumulate_all rnd cfg cs []) i = Some a" using that d by simp
    then have "of_chunk i cs \<noteq> []" "a = foldl (accumulate rnd cfg) empty_acc (of_chunk i cs)"
      by (auto simp: accumulate_all_lookup or_empty_def split: if_splits)
    then show ?thesis
      by (simp add: to_result_def fused_def foldl_accumulate empty_acc_def f_sum_def last_rank_def
          split: list.split)
  qed
  then have "to_result e = fused rnd cfg cs (fst e)" if "e \<in> set (accumulate_all rnd cfg cs [])" for e
    using that by (metis prod.collapse)
  then have "to_result ` set (accumulate_all rnd cfg cs []) = fused rnd cfg cs ` fst ` set (accumulate_all rnd cfg cs [])"
    by (simp add: image_image cong: image_cong)
  then show ?thesis by (simp add: accumulate_all_ids)
qed

section \<open>Scores are numbers\<close>

lemma f_add_nonneg:
  assumes "f32_round rnd" and "f_le (Fin 0) a" and "f_le (Fin 0) b"
  shows "f_le (Fin 0) (f_add rnd a b)"
  using assms(2,3) f32_round.rnd_nonneg [OF assms(1)]
  by (cases a; cases b) auto

lemma foldl_add_nonneg:
  assumes "f32_round rnd" and "f_le (Fin 0) a" and "\<forall>x \<in> set xs. f_le (Fin 0) x"
  shows "f_le (Fin 0) (foldl (f_add rnd) a xs)"
  using assms(2,3) by (induction xs arbitrary: a) (simp_all add: f_add_nonneg [OF assms(1)])

definition rrf_config_ok :: "rrf_config \<Rightarrow> bool" where
  "rrf_config_ok cfg \<longleftrightarrow> is_finite (dense_weight cfg) \<and> is_finite (sparse_weight cfg) \<and> is_finite (rrf_k cfg)
     \<and> f_le (Fin 0) (dense_weight cfg) \<and> f_le (Fin 0) (sparse_weight cfg) \<and> f_le (Fin 0) (rrf_k cfg)"

lemma contribution_nonneg:
  assumes "f32_round rnd" and "rrf_config_ok cfg" and "0 < fc_rank c"
  shows "f_le (Fin 0) (contribution rnd cfg c)"
proof -
  note mono = f32_round.rnd_mono [OF assms(1)]
  obtain k where k: "rrf_k cfg = Fin k" "0 \<le> k"
    using assms(2) by (cases "rrf_k cfg") (auto simp: rrf_config_ok_def)
  obtain w where w: "(case fc_source c of Dense \<Rightarrow> dense_weight cfg | Sparse \<Rightarrow> sparse_weight cfg) = Fin w" "0 \<le> w"
    using assms(2) by (cases "fc_source c"; cases "dense_weight cfg"; cases "sparse_weight cfg")
      (auto simp: rrf_config_ok_def)
  have r1: "f_le (Fin 1) (rnd (real (fc_rank c)))"
    using mono [of 1 "real (fc_rank c)"] assms(3) by (simp add: f32_round.rnd_1 [OF assms(1)])
  have "f_le (Fin 1) (f_add rnd (Fin k) (rnd (real (fc_rank c))))"
  proof (cases "rnd (real (fc_rank c))")
    case (Fin r)
    with r1 have "1 \<le> k + r" using k(2) by simp
    from mono [OF this] Fin show ?thesis by (simp add: f32_round.rnd_1 [OF assms(1)])
  qed (use r1 in auto)
  then show ?thesis
    using w f32_round.rnd_nonneg [OF assms(1)]
    by (cases "f_add rnd (Fin k) (rnd (real (fc_rank c)))")
       (auto simp: contribution_def f_of_nat_def k w)
qed

lemma fused_nonneg:
  assumes "f32_round rnd" and "rrf_config_ok cfg" and "\<forall>c \<in> set cs. 0 < fc_rank c"
  shows "f_le (Fin 0) (fr_score (fused rnd cfg cs i))"
  using assms contribution_nonneg [OF assms(1,2)]
  by (auto simp: fused_def f_sum_def f_le_refl intro!: foldl_add_nonneg)

lemma result_cmp_eq: "result_cmp a b = Equal \<Longrightarrow> fr_chunk_id a = fr_chunk_id b"
  by (simp add: result_cmp_def str_cmp_eq)

lemma comparator_result_cmp:
  assumes "\<And>r. r \<in> S \<Longrightarrow> \<not> is_nan (fr_score r)"
  shows "comparator result_cmp S"
  unfolding result_cmp_def
  by (rule comparator_then [OF comparator_f32_desc comparator_str_key]) (rule assms)

section \<open>Properties\<close>

text \<open>
  C30. Fusion returns one result per candidate chunk, with the sum of the contributions of its
  candidates in their order and the last rank seen in each source, sorted by descending score
  and then by chunk id. The result does not depend on the iteration order of the hash map.
\<close>

theorem fuse_exact:
  assumes "f32_round rnd" and "rrf_config_ok cfg" and "\<forall>c \<in> set cs. 0 < fc_rank c"
    and "\<And>m. mset (order m) = mset m" and "\<And>m. mset (order' m) = mset m"
  shows "set (fuse rnd cfg order cs) = fused rnd cfg cs ` fc_chunk_id ` set cs
       \<and> distinct (map fr_chunk_id (fuse rnd cfg order cs))
       \<and> sorted_by result_cmp (fuse rnd cfg order cs)
       \<and> fuse rnd cfg order' cs = fuse rnd cfg order cs"
proof -
  let ?g = "accumulate_all rnd cfg cs []"
  have m: "mset (map to_result (order ?g)) = mset (map to_result ?g)"
    "mset (map to_result (order' ?g)) = mset (map to_result ?g)"
    using assms(4,5) by simp_all
  then have set: "set (map to_result (order ?g)) = fused rnd cfg cs ` fc_chunk_id ` set cs"
    using groups_are_fused by (metis mset_eq_setD)
  have "map fr_chunk_id (map to_result ?g) = map fst ?g" by (simp add: to_result_def)
  moreover have "distinct (map fst ?g)" by (simp add: accumulate_all_distinct)
  ultimately have "distinct (map fr_chunk_id (map to_result ?g))" by (simp only:)
  then have d: "distinct (map fr_chunk_id (map to_result (order ?g)))"
    using m(1) by (metis mset_eq_imp_distinct_iff mset_map)
  have "\<not> is_nan (fr_score r)" if "r \<in> set (map to_result (order ?g))" for r
    using that fused_nonneg [OF assms(1-3)] f_le_nan unfolding set by blast
  then have c: "comparator result_cmp (set (map to_result (order ?g)))" by (rule comparator_result_cmp)
  have "sorted_by result_cmp (fuse rnd cfg order cs)"
    unfolding fuse_def by (rule comparator.sorted_sort_by [OF c]) simp
  moreover have "fuse rnd cfg order cs = fuse rnd cfg order' cs"
    unfolding fuse_def
  proof (rule comparator.sort_by_unique [OF c])
    show "x = y" if "x \<in> set (map to_result (order ?g))" "y \<in> set (map to_result (order ?g))"
        "result_cmp x y = Equal" for x y
      using that d result_cmp_eq by (metis distinct_map inj_on_eq_iff)
  qed (use m in simp_all)
  moreover have "distinct (map fr_chunk_id (fuse rnd cfg order cs))"
    unfolding fuse_def using d by (metis distinct_map set_sort_by distinct_sort_by)
  moreover have "set (fuse rnd cfg order cs) = fused rnd cfg cs ` fc_chunk_id ` set cs"
    unfolding fuse_def set_sort_by by (rule set)
  ultimately show ?thesis by metis
qed

definition demo_candidates :: "fusion_candidate list" where
  "demo_candidates =
     [\<lparr>fc_chunk_id = ''b'', fc_source = Dense, fc_rank = 1, fc_source_score = Fin 1\<rparr>,
      \<lparr>fc_chunk_id = ''a'', fc_source = Sparse, fc_rank = 1, fc_source_score = Fin 1\<rparr>,
      \<lparr>fc_chunk_id = ''b'', fc_source = Sparse, fc_rank = 2, fc_source_score = Fin 1\<rparr>]"

theorem fuse_exact_witness:
  "map fr_chunk_id (fuse Fin default_rrf rev demo_candidates) = [''b'', ''a'']
   \<and> distinct (map fr_chunk_id (fuse Fin default_rrf rev demo_candidates))
   \<and> fuse Fin default_rrf (\<lambda>m. m) demo_candidates = fuse Fin default_rrf rev demo_candidates"
proof -
  have "map fr_chunk_id (fuse Fin default_rrf rev demo_candidates) = [''b'', ''a'']"
    by code_simp
  moreover have "rrf_config_ok default_rrf" by (simp add: rrf_config_ok_def default_rrf_def)
  moreover have "\<forall>c \<in> set demo_candidates. 0 < fc_rank c" by (simp add: demo_candidates_def)
  ultimately show ?thesis
    using fuse_exact [of Fin default_rrf demo_candidates rev "\<lambda>m. m"] exact32.f32_round_axioms by simp
qed

end
