(* ===== verification/Tiered_Search.thy ===== *)
theory Tiered_Search
  imports Hot_Tier Semantic_Cache Fusion
begin

text \<open>
  The tiered searcher (\<open>tiered/tiered_searcher.rs\<close>): semantic cache, hot tier, warm tier, and the
  maintenance that promotes and demotes chunks between the last two. The warm tier (the trait
  \<open>WarmTierSearch\<close>) is the parameter \<open>warm_tier\<close>. Timings are left out, and a tier decision is its
  chunk, action, score and tier without the formatted reason. \<open>hot_tracked\<close> says whether the hot tier
  was built with the searcher's access tracker.
\<close>

section \<open>State\<close>

record searcher_config =
  enable_cache :: bool
  enable_hot_tier :: bool
  promotion_threshold :: f32
  demotion_queries_threshold :: u32
  auto_promote_on_project_match :: bool
  debug_tier_decisions :: bool

definition default_searcher :: "rounding \<Rightarrow> searcher_config" where
  "default_searcher rnd = \<lparr>enable_cache = True, enable_hot_tier = True, promotion_threshold = rnd 0.4,
     demotion_queries_threshold = 100, auto_promote_on_project_match = True, debug_tier_decisions = False\<rparr>"

datatype source_tier = TierCache | TierHot | TierWarm

datatype tier_action = Promote source_tier f32 | Demote | NoAction

record tier_decision =
  td_chunk_id :: string
  td_action :: tier_action
  td_score :: "f32 option"
  td_source_tier :: source_tier

record scored_chunk =
  scc_chunk_id :: string
  scc_score :: f32
  scc_source_tier :: source_tier

record tiered_result =
  tr_results :: "scored_chunk list"
  tr_source_tier :: source_tier
  tr_cache_hit :: bool
  tr_hot_tier_hit :: bool
  tr_decisions :: "tier_decision list"

record warm_tier =
  warm_search :: "f32 list \<Rightarrow> nat \<Rightarrow> memd_error + search_result list"
  warm_embedding :: "string \<Rightarrow> f32 list option"
  warm_version :: nat
  warm_len :: nat

record 'x tiered_searcher =
  ts_cache :: semantic_cache
  ts_hot :: "'x hot_tier"
  ts_tracker :: access_tracker
  ts_config :: searcher_config
  hot_tracked :: bool
  query_counter :: nat
  last_demotion_check :: int

text \<open>The float environment and the iteration orders of the hash maps.\<close>

record 'x search_env =
  se_rnd :: rounding
  se_libm :: libm
  se_index :: "'x vec_index"
  se_hash :: key_hash
  se_stats_order :: "(string \<times> access_stats) list \<Rightarrow> (string \<times> access_stats) list"
  se_hot_order :: "(string \<times> hot_entry) list \<Rightarrow> (string \<times> hot_entry) list"
  se_seen_order :: "(string \<times> scored_chunk) list \<Rightarrow> (string \<times> scored_chunk) list"

section \<open>Merging\<close>

definition hot_chunk :: "search_result \<Rightarrow> scored_chunk" where
  "hot_chunk r = \<lparr>scc_chunk_id = sr_chunk_id r, scc_score = sr_score r, scc_source_tier = TierHot\<rparr>"

definition warm_chunk :: "search_result \<Rightarrow> scored_chunk" where
  "warm_chunk r = \<lparr>scc_chunk_id = sr_chunk_id r, scc_score = sr_score r, scc_source_tier = TierWarm\<rparr>"

definition found :: "source_tier \<Rightarrow> search_result \<Rightarrow> tier_decision" where
  "found tier r = \<lparr>td_chunk_id = sr_chunk_id r, td_action = NoAction, td_score = Some (sr_score r), td_source_tier = tier\<rparr>"

fun merge_hot :: "search_result list \<Rightarrow> (string \<times> scored_chunk) list \<Rightarrow> (string \<times> scored_chunk) list" where
  "merge_hot [] seen = seen"
| "merge_hot (r # rs) seen = merge_hot rs (AList.update (sr_chunk_id r) (hot_chunk r) seen)"

fun merge_warm ::
  "search_result list \<Rightarrow> (string \<times> scored_chunk) list \<Rightarrow> (string \<times> scored_chunk) list \<times> tier_decision list" where
  "merge_warm [] seen = (seen, [])"
| "merge_warm (r # rs) seen =
     (if map_of seen (sr_chunk_id r) = None
      then let (seen', ds) = merge_warm rs (AList.update (sr_chunk_id r) (warm_chunk r) seen)
           in (seen', found TierWarm r # ds)
      else merge_warm rs seen)"

definition chunk_order :: "scored_chunk \<Rightarrow> scored_chunk \<Rightarrow> ordering" where
  "chunk_order a b =
     then_with (cmp_or_equal (scc_score b) (scc_score a)) (str_cmp (scc_chunk_id a) (scc_chunk_id b))"

definition merge_results ::
  "((string \<times> scored_chunk) list \<Rightarrow> (string \<times> scored_chunk) list) \<Rightarrow> search_result list \<Rightarrow> search_result list
     \<Rightarrow> nat \<Rightarrow> bool \<Rightarrow> scored_chunk list \<times> tier_decision list" where
  "merge_results order hot warm k debug =
     (let (seen, ds) = merge_warm warm (merge_hot hot [])
      in (take k (sort_by chunk_order (map snd (order seen))),
          if debug then map (found TierHot) hot @ ds else []))"

section \<open>Search\<close>

fun record_merged :: "rounding \<Rightarrow> libm \<Rightarrow> int \<Rightarrow> string option \<Rightarrow> scored_chunk list \<Rightarrow> access_tracker \<Rightarrow> access_tracker" where
  "record_merged rnd L now project [] tr = tr"
| "record_merged rnd L now project (c # cs) tr =
     record_merged rnd L now project cs
       (record_access rnd L
          (case project of Some p \<Rightarrow> access_event_with_project (scc_chunk_id c) p now
                         | None \<Rightarrow> access_event_new (scc_chunk_id c) now) tr)"

definition cache_chunk :: "cached_result \<Rightarrow> scored_chunk" where
  "cache_chunk r = \<lparr>scc_chunk_id = cr_chunk_id r, scc_score = cr_score r, scc_source_tier = TierCache\<rparr>"

definition to_cached :: "scored_chunk \<Rightarrow> cached_result" where
  "to_cached c = \<lparr>cr_chunk_id = scc_chunk_id c, cr_score = scc_score c, cr_text_preview = []\<rparr>"

definition search_tiers ::
  "'x search_env \<Rightarrow> warm_tier \<Rightarrow> int \<Rightarrow> f32 list \<Rightarrow> string \<Rightarrow> string option \<Rightarrow> nat \<Rightarrow> bool \<Rightarrow> 'x tiered_searcher
     \<Rightarrow> (memd_error + tiered_result) \<times> 'x tiered_searcher" where
  "search_tiers E W now q tenant project k debug s =
     (let hot = (if enable_hot_tier (ts_config s)
                 then hot_search (se_rnd E) (se_libm E) (se_index E) now (ts_hot s)
                        (if hot_tracked s then Some (ts_tracker s) else None) q k
                 else Inr ([], None))
      in case hot of
        Inl e \<Rightarrow> (Inl e, s)
      | Inr (hot_results, tracker) \<Rightarrow>
         (let s1 = s\<lparr>ts_tracker := (case tracker of None \<Rightarrow> ts_tracker s | Some t \<Rightarrow> t)\<rparr>
          in case warm_search W q k of
            Inl e \<Rightarrow> (Inl e, s1)
          | Inr warm_results \<Rightarrow>
             (let (merged, ds) = merge_results (se_seen_order E) hot_results warm_results k debug;
                  s2 = s1\<lparr>ts_tracker := record_merged (se_rnd E) (se_libm E) now project merged (ts_tracker s1)\<rparr>;
                  s3 = (if enable_cache (ts_config s) \<and> merged \<noteq> []
                        then s2\<lparr>ts_cache := insert_with_limit (se_hash E) now q tenant project
                                               (map to_cached merged) (warm_version W) k (ts_cache s2)\<rparr>
                        else s2)
              in (Inr \<lparr>tr_results = merged, tr_source_tier = (if hot_results \<noteq> [] then TierHot else TierWarm),
                       tr_cache_hit = False, tr_hot_tier_hit = (hot_results \<noteq> []),
                       tr_decisions = (if debug \<or> debug_tier_decisions (ts_config s) then ds else [])\<rparr>, s3))))"

definition search_internal ::
  "'x search_env \<Rightarrow> warm_tier \<Rightarrow> int \<Rightarrow> f32 list \<Rightarrow> string \<Rightarrow> string option \<Rightarrow> nat \<Rightarrow> bool \<Rightarrow> 'x tiered_searcher
     \<Rightarrow> (memd_error + tiered_result) \<times> 'x tiered_searcher" where
  "search_internal E W now q tenant project k debug s =
     (let s0 = s\<lparr>query_counter := query_counter s + 1\<rparr>;
          (hit, cache) = (if enable_cache (ts_config s)
                          then lookup_with_limit (se_rnd E) now q tenant project (warm_version W) k (ts_cache s)
                          else (None, ts_cache s));
          s1 = s0\<lparr>ts_cache := cache\<rparr>
      in case hit of
        Some h \<Rightarrow>
          (Inr \<lparr>tr_results = map cache_chunk (take k (ch_results h)), tr_source_tier = TierCache, tr_cache_hit = True,
                tr_hot_tier_hit = False, tr_decisions = []\<rparr>, s1)
      | None \<Rightarrow> search_tiers E W now q tenant project k debug s1)"

section \<open>Promotion and demotion\<close>

fun promote_candidates ::
  "'x search_env \<Rightarrow> warm_tier \<Rightarrow> int \<Rightarrow> searcher_config \<Rightarrow> string \<Rightarrow> promotion_score list \<Rightarrow> 'x hot_tier
     \<Rightarrow> tier_decision list \<times> 'x hot_tier" where
  "promote_candidates E W now cfg tenant [] ht = ([], ht)"
| "promote_candidates E W now cfg tenant (c # cs) ht =
     (if hot_contains ht (ps_chunk_id c) then promote_candidates E W now cfg tenant cs ht
      else if f_lt (ps_score c) (promotion_threshold cfg) then promote_candidates E W now cfg tenant cs ht
      else case warm_embedding W (ps_chunk_id c) of
        None \<Rightarrow> promote_candidates E W now cfg tenant cs ht
      | Some emb \<Rightarrow>
         (case promote (se_index E) now (ps_chunk_id c) emb tenant (ps_score c) ht of
            Inr (True, ht') \<Rightarrow>
              let (ds, ht'') = promote_candidates E W now cfg tenant cs ht'
              in (\<lparr>td_chunk_id = ps_chunk_id c, td_action = Promote TierWarm (ps_score c), td_score = Some (ps_score c),
                   td_source_tier = TierWarm\<rparr> # ds, ht'')
          | Inr (False, ht') \<Rightarrow> promote_candidates E W now cfg tenant cs ht'
          | Inl e \<Rightarrow> promote_candidates E W now cfg tenant cs ht))"

definition check_promotions ::
  "'x search_env \<Rightarrow> warm_tier \<Rightarrow> int \<Rightarrow> string \<Rightarrow> string option \<Rightarrow> 'x tiered_searcher
     \<Rightarrow> tier_decision list \<times> 'x tiered_searcher" where
  "check_promotions E W now tenant project s =
     (if \<not> enable_hot_tier (ts_config s) then ([], s)
      else let candidates = get_top_candidates (se_rnd E) (se_libm E) (se_stats_order E) now (ts_tracker s) 100 project;
               (ds, ht) = promote_candidates E W now (ts_config s) tenant candidates (ts_hot s)
           in (ds, s\<lparr>ts_hot := ht\<rparr>))"

fun demote_candidates :: "f32 \<Rightarrow> promotion_score list \<Rightarrow> 'x hot_tier \<Rightarrow> tier_decision list \<times> 'x hot_tier" where
  "demote_candidates threshold [] ht = ([], ht)"
| "demote_candidates threshold (c # cs) ht =
     (if \<not> hot_contains ht (ps_chunk_id c) then demote_candidates threshold cs ht
      else if f_lt (ps_score c) threshold
      then let (done, ht') = demote (ps_chunk_id c) ht;
               (ds, ht'') = demote_candidates threshold cs ht'
           in (if done then \<lparr>td_chunk_id = ps_chunk_id c, td_action = Demote, td_score = Some (ps_score c),
                             td_source_tier = TierHot\<rparr> # ds else ds, ht'')
      else demote_candidates threshold cs ht)"

definition check_demotions ::
  "'x search_env \<Rightarrow> int \<Rightarrow> string option \<Rightarrow> 'x tiered_searcher \<Rightarrow> tier_decision list \<times> 'x tiered_searcher" where
  "check_demotions E now project s =
     (if \<not> enable_hot_tier (ts_config s) then ([], s)
      else if query_counter s < unat (demotion_queries_threshold (ts_config s)) then ([], s)
      else let s1 = s\<lparr>query_counter := 0, last_demotion_check := now\<rparr>;
               threshold = f_mul (se_rnd E) (promotion_threshold (ts_config s)) (Fin (1 / 2));
               candidates = get_top_candidates (se_rnd E) (se_libm E) (se_stats_order E) now (ts_tracker s) 1000 project;
               (ds, ht) = demote_candidates threshold candidates (ts_hot s)
           in (ds, s1\<lparr>ts_hot := ht\<rparr>))"

record maintenance_result =
  mr_promotions_count :: nat
  mr_demotions_count :: nat
  mr_evictions_count :: nat
  mr_promotions :: "tier_decision list"
  mr_demotions :: "tier_decision list"

definition run_maintenance ::
  "'x search_env \<Rightarrow> warm_tier \<Rightarrow> int \<Rightarrow> string \<Rightarrow> 'x tiered_searcher \<Rightarrow> maintenance_result \<times> 'x tiered_searcher" where
  "run_maintenance E W now tenant s =
     (let (promotions, s1) = check_promotions E W now tenant None s;
          (demotions, s2) = check_demotions E now None s1;
          (evictions, ht) = evict_if_needed (se_rnd E) (se_hot_order E) (warm_len W) (ts_hot s2);
          s3 = s2\<lparr>ts_hot := ht, ts_cache := prune_index (ts_cache s2)\<rparr>
      in (\<lparr>mr_promotions_count = length promotions, mr_demotions_count = length demotions, mr_evictions_count = evictions,
           mr_promotions = promotions, mr_demotions = demotions\<rparr>, s3))"

definition maybe_promote_on_access ::
  "'x search_env \<Rightarrow> warm_tier \<Rightarrow> int \<Rightarrow> string \<Rightarrow> string \<Rightarrow> string option \<Rightarrow> 'x tiered_searcher
     \<Rightarrow> tier_decision option \<times> 'x tiered_searcher" where
  "maybe_promote_on_access E W now cid tenant project s =
     (if \<not> auto_promote_on_project_match (ts_config s) \<or> \<not> enable_hot_tier (ts_config s) then (None, s)
      else case project of
        None \<Rightarrow> (None, s)
      | Some p \<Rightarrow>
          if hot_contains (ts_hot s) cid then (None, s)
          else let score = get_promotion_score (se_rnd E) (se_libm E) now (ts_tracker s) cid (Some p)
               in if \<not> eligible score \<or> f_lt (ps_score score) (promotion_threshold (ts_config s)) then (None, s)
                  else if f_eq (project_component score) (Fin 0) then (None, s)
                  else case warm_embedding W cid of
                    None \<Rightarrow> (None, s)
                  | Some emb \<Rightarrow>
                     (case promote (se_index E) now cid emb tenant (ps_score score) (ts_hot s) of
                        Inr (True, ht) \<Rightarrow>
                          (Some \<lparr>td_chunk_id = cid, td_action = Promote TierWarm (ps_score score),
                                 td_score = Some (ps_score score), td_source_tier = TierWarm\<rparr>, s\<lparr>ts_hot := ht\<rparr>)
                      | Inr (False, ht) \<Rightarrow> (None, s\<lparr>ts_hot := ht\<rparr>)
                      | Inl e \<Rightarrow> (None, s)))"

section \<open>The merge\<close>

text \<open>What the merge keeps of a chunk: its last hot result, or else its first warm result.\<close>

definition of_id :: "string \<Rightarrow> search_result list \<Rightarrow> search_result list" where
  "of_id i rs = filter (\<lambda>r. sr_chunk_id r = i) rs"

definition merged_chunk :: "search_result list \<Rightarrow> search_result list \<Rightarrow> string \<Rightarrow> scored_chunk" where
  "merged_chunk hot warm i = (if of_id i hot \<noteq> [] then hot_chunk (last (of_id i hot)) else warm_chunk (hd (of_id i warm)))"

definition merge_ids :: "search_result list \<Rightarrow> search_result list \<Rightarrow> string set" where
  "merge_ids hot warm = sr_chunk_id ` (set hot \<union> set warm)"

lemma merge_hot_lookup:
  "map_of (merge_hot rs m) i = (if of_id i rs = [] then map_of m i else Some (hot_chunk (last (of_id i rs))))"
  by (induction rs arbitrary: m) (auto simp: of_id_def update_conv')

lemma merge_hot_distinct: "distinct (map fst m) \<Longrightarrow> distinct (map fst (merge_hot rs m))"
  by (induction rs arbitrary: m) (simp_all add: distinct_update)

lemma merge_warm_lookup:
  "map_of (fst (merge_warm rs m)) i =
     (case map_of m i of Some x \<Rightarrow> Some x | None \<Rightarrow> if of_id i rs = [] then None else Some (warm_chunk (hd (of_id i rs))))"
  by (induction rs arbitrary: m) (auto simp: of_id_def update_conv' case_prod_unfold Let_def split: option.splits)

lemma merge_warm_distinct: "distinct (map fst m) \<Longrightarrow> distinct (map fst (fst (merge_warm rs m)))"
  by (induction rs arbitrary: m) (auto simp: distinct_update case_prod_unfold Let_def)

lemma of_id_Nil: "of_id i rs = [] \<longleftrightarrow> i \<notin> sr_chunk_id ` set rs"
  by (auto simp: of_id_def filter_empty_conv image_iff)

lemma merge_lookup:
  "map_of (fst (merge_warm warm (merge_hot hot []))) i =
     (if i \<in> merge_ids hot warm then Some (merged_chunk hot warm i) else None)"
  by (auto simp: merge_warm_lookup merge_hot_lookup merged_chunk_def merge_ids_def of_id_Nil)

lemma merged_id: "i \<in> merge_ids hot warm \<Longrightarrow> scc_chunk_id (merged_chunk hot warm i) = i"
proof -
  assume i: "i \<in> merge_ids hot warm"
  have "of_id i rs \<noteq> [] \<Longrightarrow> sr_chunk_id (last (of_id i rs)) = i \<and> sr_chunk_id (hd (of_id i rs)) = i" for rs
    using last_in_set [of "of_id i rs"] hd_in_set [of "of_id i rs"] by (auto simp: of_id_def)
  with i show ?thesis
    by (auto simp: merged_chunk_def hot_chunk_def warm_chunk_def merge_ids_def of_id_Nil)
qed

lemma merged_score:
  assumes "i \<in> merge_ids hot warm" and "\<forall>r \<in> set hot \<union> set warm. \<not> is_nan (sr_score r)"
  shows "\<not> is_nan (scc_score (merged_chunk hot warm i))"
proof -
  have "of_id i rs \<noteq> [] \<Longrightarrow> last (of_id i rs) \<in> set rs \<and> hd (of_id i rs) \<in> set rs" for rs
    using last_in_set [of "of_id i rs"] hd_in_set [of "of_id i rs"] by (auto simp: of_id_def)
  with assms show ?thesis
    by (auto simp: merged_chunk_def hot_chunk_def warm_chunk_def merge_ids_def of_id_Nil)
qed

lemma merge_seen:
  assumes "seen = fst (merge_warm warm (merge_hot hot []))"
  shows "set (map snd seen) = merged_chunk hot warm ` merge_ids hot warm"
    and "distinct (map scc_chunk_id (map snd seen))"
proof -
  have d: "distinct (map fst seen)" by (simp add: assms merge_warm_distinct merge_hot_distinct)
  have e: "(i, c) \<in> set seen \<longleftrightarrow> i \<in> merge_ids hot warm \<and> c = merged_chunk hot warm i" for i c
    using d map_of_eq_Some_iff [OF d, of i c] merge_lookup [of warm hot i] by (auto simp: assms split: if_splits)
  show "set (map snd seen) = merged_chunk hot warm ` merge_ids hot warm"
    using e by (force simp: image_iff)
  have "map scc_chunk_id (map snd seen) = map fst seen"
    using e by (auto simp: merged_id)
  then show "distinct (map scc_chunk_id (map snd seen))" using d by (simp only:)
qed

lemma comparator_chunk_order:
  assumes "\<And>c. c \<in> S \<Longrightarrow> \<not> is_nan (scc_score c)"
  shows "comparator chunk_order S"
  unfolding chunk_order_def
  by (rule comparator_then [OF comparator_f32_desc comparator_str_key]) (rule assms)

section \<open>Maintenance\<close>

lemma f_mul_nonneg:
  assumes "f32_round rnd" and "f_le (Fin 0) a" and "f_le (Fin 0) b" and "is_finite a" and "is_finite b"
  shows "f_le (Fin 0) (f_mul rnd a b)"
  using assms(2-5) f32_round.rnd_nonneg [OF assms(1)] by (cases a; cases b) auto

lemma f_le_finite: "f_le (Fin a) x \<Longrightarrow> f_le x (Fin b) \<Longrightarrow> is_finite x"
  using f_le_between by fastforce

definition weights_ok :: "tracker_config \<Rightarrow> bool" where
  "weights_ok cfg \<longleftrightarrow> decay_half_life_hours cfg \<noteq> 0
     \<and> list_all (\<lambda>w. f_le (Fin 0) w \<and> is_finite w) [frequency_weight cfg, recency_weight cfg, project_weight cfg]"

context float_libm
begin

lemma score_nonneg:
  assumes "tracker_ok rnd L t tr" and "t \<le> now" and "(cid, st) \<in> set (at_stats tr)" and "weights_ok (at_config tr)"
  shows "f_le (Fin 0) (ps_score (compute_score rnd L now tr cid st project))"
proof -
  let ?p = "compute_score rnd L now tr cid st project"
  have hl: "decay_half_life_hours (at_config tr) \<noteq> 0" using assms(4) by (simp add: weights_ok_def)
  note u = compute_score_unit [OF assms(1-3) hl, of project, unfolded Let_def]
  have fin: "is_finite (frequency_component ?p)" "is_finite (recency_component ?p)"
    using u f_le_finite by blast+
  have proj: "f_le (Fin 0) (project_component ?p)" "is_finite (project_component ?p)" using u by auto
  have "ps_score ?p = f_add rnd
      (f_add rnd (f_mul rnd (frequency_component ?p) (frequency_weight (at_config tr)))
                 (f_mul rnd (recency_component ?p) (recency_weight (at_config tr))))
      (f_mul rnd (project_component ?p) (project_weight (at_config tr)))"
    by (simp add: compute_score_def Let_def)
  moreover note f_add_nonneg [OF f32_round_axioms] f_mul_nonneg [OF f32_round_axioms]
  ultimately show ?thesis using u fin proj assms(4) by (simp add: weights_ok_def)
qed

lemma candidates_scored:
  assumes "tracker_ok rnd L t tr" and "t \<le> now" and "weights_ok (at_config tr)" and "\<And>m. mset (order m) = mset m"
    and "p \<in> set (get_top_candidates rnd L order now tr k project)"
  shows "\<not> is_nan (ps_score p)"
proof -
  have "set (order (at_stats tr)) = set (at_stats tr)" using assms(4) by (metis mset_eq_setD)
  then obtain cid st where "(cid, st) \<in> set (at_stats tr)" "p = compute_score rnd L now tr cid st project"
    using assms(5) by (auto simp: get_top_candidates_def Let_def dest!: in_set_takeD)
  with score_nonneg [OF assms(1,2) _ assms(3)] show ?thesis using f_le_nan by blast
qed

end

lemma promote_config: "promote I now cid emb tenant score ht = Inr (b, ht') \<Longrightarrow> ht_config ht' = ht_config ht"
  by (auto simp: promote_def Let_def split: if_splits sum.splits)

lemma promote_len:
  assumes "promote I now cid emb tenant score ht = Inr (b, ht')"
  shows "hot_len ht' = hot_len ht + (if b then 1 else 0)"
  using assms by (auto simp: promote_def hot_len_def update_new Let_def split: if_splits sum.splits)

lemma demote_len:
  assumes "hot_ok ht" and "demote cid ht = (b, ht')"
  shows "hot_len ht' + (if b then 1 else 0) = hot_len ht"
proof (cases "map_of (ht_chunks ht) cid")
  case None
  then show ?thesis using assms(2) by (simp add: demote_def)
next
  case (Some e)
  have "length (filter (\<lambda>(k, _). k \<notin> set [cid]) (ht_chunks ht)) = length (ht_chunks ht) - length [cid]"
    using assms(1) Some map_of_None_fst [of "ht_chunks ht" cid] by (intro length_filter_keys) (auto simp: hot_ok_def)
  moreover have "ht_chunks ht \<noteq> []" using Some by auto
  ultimately show ?thesis using assms(2) Some by (auto simp: demote_def hot_len_def delete_filter)
qed

lemma promote_candidates_ok:
  assumes "hot_ok ht" and "\<forall>c \<in> set cs. \<not> is_nan (ps_score c)"
    and "promote_candidates E W now cfg tenant cs ht = (ds, ht')"
  shows "hot_ok ht' \<and> ht_config ht' = ht_config ht
       \<and> (\<forall>d \<in> set ds. \<exists>c \<in> set cs. td_chunk_id d = ps_chunk_id c \<and> td_score d = Some (ps_score c)
            \<and> \<not> f_lt (ps_score c) (promotion_threshold cfg))
       \<and> hot_len ht' = hot_len ht + length ds \<and> distinct (map td_chunk_id ds)
       \<and> (\<forall>d \<in> set ds. \<not> hot_contains ht (td_chunk_id d))
       \<and> (\<forall>c. hot_contains ht' c \<longleftrightarrow> hot_contains ht c \<or> c \<in> td_chunk_id ` set ds)"
  using assms
proof (induction cs arbitrary: ht ds ht')
  case (Cons c cs)
  show ?case
  proof (cases "hot_contains ht (ps_chunk_id c) \<or> f_lt (ps_score c) (promotion_threshold cfg) \<or> warm_embedding W (ps_chunk_id c) = None")
    case True
    then have "promote_candidates E W now cfg tenant cs ht = (ds, ht')"
      using Cons.prems(3) by (auto split: if_splits)
    from Cons.IH [OF Cons.prems(1) _ this] Cons.prems(2) show ?thesis by auto
  next
    case False
    then obtain emb where emb: "warm_embedding W (ps_chunk_id c) = Some emb" by auto
    show ?thesis
    proof (cases "promote (se_index E) now (ps_chunk_id c) emb tenant (ps_score c) ht")
      case (Inl e)
      with False emb Cons.prems(3) have "promote_candidates E W now cfg tenant cs ht = (ds, ht')" by simp
      from Cons.IH [OF Cons.prems(1) _ this] Cons.prems(2) show ?thesis by auto
    next
      case (Inr r)
      obtain b ht1 where r: "r = (b, ht1)" by fastforce
      have ok: "hot_ok ht1" "ht_config ht1 = ht_config ht"
        using promote_ok(1) [OF Cons.prems(1) _ Inr [unfolded r]] promote_config [OF Inr [unfolded r]] Cons.prems(2) by auto
      obtain ds1 where ds1: "promote_candidates E W now cfg tenant cs ht1 = (ds1, ht')"
          "ds = (if b then \<lparr>td_chunk_id = ps_chunk_id c, td_action = Promote TierWarm (ps_score c),
                            td_score = Some (ps_score c), td_source_tier = TierWarm\<rparr> # ds1 else ds1)"
        using False emb Inr r Cons.prems(3) by (cases b) (auto split: prod.splits)
      have more: "hot_len ht1 = hot_len ht + (if b then 1 else 0)"
        "\<And>x. hot_contains ht1 x \<longleftrightarrow> hot_contains ht x \<or> b \<and> x = ps_chunk_id c"
        using promote_len [OF Inr [unfolded r]] promote_ok(3) [OF Cons.prems(1) _ Inr [unfolded r]] Cons.prems(2) by simp_all
      from Cons.IH [OF ok(1) _ ds1(1)] Cons.prems(2) ds1(2) ok(2) False more show ?thesis by (cases b) auto
    qed
  qed
qed simp

lemma demote_config: "ht_config (snd (demote cid ht)) = ht_config ht"
  by (simp add: demote_def)

lemma demote_candidates_ok:
  assumes "hot_ok ht" and "demote_candidates threshold cs ht = (ds, ht')"
  shows "hot_ok ht' \<and> ht_config ht' = ht_config ht
       \<and> (\<forall>d \<in> set ds. \<exists>sc. td_score d = Some sc \<and> f_lt sc threshold)
       \<and> hot_len ht' + length ds = hot_len ht
       \<and> (\<forall>d \<in> set ds. hot_contains ht (td_chunk_id d))
       \<and> (\<forall>c. hot_contains ht' c \<longleftrightarrow> hot_contains ht c \<and> c \<notin> td_chunk_id ` set ds)"
  using assms
proof (induction cs arbitrary: ht ds ht')
  case (Cons c cs)
  show ?case
  proof (cases "hot_contains ht (ps_chunk_id c) \<and> f_lt (ps_score c) threshold")
    case True
    obtain b ht1 where d: "demote (ps_chunk_id c) ht = (b, ht1)" by fastforce
    obtain ds1 where ds1: "demote_candidates threshold cs ht1 = (ds1, ht')"
        "ds = (if b then \<lparr>td_chunk_id = ps_chunk_id c, td_action = Demote, td_score = Some (ps_score c),
                          td_source_tier = TierHot\<rparr> # ds1 else ds1)"
      using True d Cons.prems(2) by (auto split: prod.splits)
    have "ht_config ht1 = ht_config ht" using demote_config [of "ps_chunk_id c" ht] d by simp
    moreover have "b" using True d by (auto simp: demote_def hot_contains_def split: if_splits)
    ultimately show ?thesis
      using Cons.IH [OF demote_ok(1) [OF Cons.prems(1) d] ds1(1)] demote_ok(2) [OF Cons.prems(1) d] ds1(2) True
        demote_len [OF Cons.prems(1) d] by auto
  next
    case False
    then have "demote_candidates threshold cs ht = (ds, ht')" using Cons.prems(2) by (auto split: if_splits)
    with Cons.IH [OF Cons.prems(1)] show ?thesis by blast
  qed
qed simp

section \<open>Properties\<close>

text \<open>
  C28. The merge of the hot and the warm results returns, for scores that are numbers, the best
  \<open>k\<close> chunks in order: each chunk once, with its hot score if the hot tier returned it, sorted by
  descending score and then by id, and no chunk left out precedes one that is returned. The hash
  map's iteration order does not matter.
\<close>

theorem merge_results_exact:
  assumes "\<forall>r \<in> set hot \<union> set warm. \<not> is_nan (sr_score r)"
    and "\<And>m. mset (order m) = mset m" and "\<And>m. mset (order' m) = mset m"
    and "rs = fst (merge_results order hot warm k debug)"
  shows "set rs \<subseteq> merged_chunk hot warm ` merge_ids hot warm \<and> distinct (map scc_chunk_id rs)
       \<and> length rs = min k (card (merge_ids hot warm)) \<and> sorted_by chunk_order rs
       \<and> (\<forall>x \<in> merged_chunk hot warm ` merge_ids hot warm - set rs. \<forall>y \<in> set rs. chunk_order y x \<noteq> Greater)
       \<and> merge_results order' hot warm k debug = merge_results order hot warm k debug"
proof -
  define seen where "seen = fst (merge_warm warm (merge_hot hot []))"
  note seen = merge_seen [OF seen_def]
  have m: "mset (map snd (order seen)) = mset (map snd seen)" "mset (map snd (order' seen)) = mset (map snd seen)"
    using assms(2,3) by simp_all
  then have set: "set (map snd (order seen)) = merged_chunk hot warm ` merge_ids hot warm"
    using seen(1) by (metis mset_eq_setD)
  have d: "distinct (map scc_chunk_id (map snd (order seen)))"
    using seen(2) m(1) by (metis mset_eq_imp_distinct_iff mset_map)
  define srt where "srt = sort_by chunk_order (map snd (order seen))"
  have c: "comparator chunk_order (set (map snd (order seen)))"
    unfolding set by (rule comparator_chunk_order) (use merged_score assms(1) in blast)
  have sorted: "sorted_by chunk_order srt" unfolding srt_def by (rule comparator.sorted_sort_by [OF c]) simp
  have same: "sort_by chunk_order (map snd (order' seen)) = srt"
    unfolding srt_def
  proof (rule sym, rule comparator.sort_by_unique [OF c])
    show "x = y" if "x \<in> set (map snd (order seen))" "y \<in> set (map snd (order seen))" "chunk_order x y = Equal" for x y
      using that d by (metis chunk_order_def distinct_map inj_on_eq_iff str_cmp_eq then_with_Equal)
  qed (use m in simp_all)
  have ds: "distinct (map scc_chunk_id srt)"
    unfolding srt_def using d by (metis distinct_map distinct_sort_by set_sort_by)
  have srt_set: "set srt = merged_chunk hot warm ` merge_ids hot warm" by (simp only: srt_def set_sort_by set)
  have "inj_on (merged_chunk hot warm) (merge_ids hot warm)" by (rule inj_on_inverseI) (rule merged_id)
  then have "card (merge_ids hot warm) = card (set srt)" by (simp add: srt_set card_image)
  then have len: "length srt = card (merge_ids hot warm)" using ds by (simp add: distinct_card distinct_map)
  have rs: "rs = take k srt" "merge_results order' hot warm k debug = merge_results order hot warm k debug"
    using assms(4) same by (simp_all add: merge_results_def case_prod_unfold Let_def srt_def seen_def)
  have "chunk_order y x \<noteq> Greater" if "x \<in> set srt - set rs" "y \<in> set rs" for x y
    using take_sorted_le [OF sorted, of y k x] that rs(1)
    by (metis Diff_iff UnE append_take_drop_id set_append)
  then show ?thesis
    using rs ds len sorted srt_set set_take_subset [of k srt]
    by (auto simp: sorted_wrt_take distinct_take simp flip: take_map)
qed

definition demo_hot_results :: "search_result list" where
  "demo_hot_results = [\<lparr>sr_chunk_id = ''a'', sr_score = Fin 2\<rparr>]"

definition demo_warm_results :: "search_result list" where
  "demo_warm_results = [\<lparr>sr_chunk_id = ''b'', sr_score = Fin 3\<rparr>, \<lparr>sr_chunk_id = ''a'', sr_score = Fin 1\<rparr>]"

theorem merge_results_exact_witness:
  "length (fst (merge_results rev demo_hot_results demo_warm_results 1 False)) = 1
   \<and> merge_results (\<lambda>m. m) demo_hot_results demo_warm_results 1 False =
      merge_results rev demo_hot_results demo_warm_results 1 False"
proof -
  have "\<forall>r \<in> set demo_hot_results \<union> set demo_warm_results. \<not> is_nan (sr_score r)"
    by (simp add: demo_hot_results_def demo_warm_results_def)
  moreover have "card (merge_ids demo_hot_results demo_warm_results) = 2"
    by (simp add: merge_ids_def demo_hot_results_def demo_warm_results_def insert_commute)
  ultimately show ?thesis
    using merge_results_exact [of demo_hot_results demo_warm_results rev "\<lambda>m. m"] by simp
qed


text \<open>
  C33. Maintenance keeps the hot tier within bounds and reports what it did. It ends at or below the
  capacity for the current index size. Every chunk it promoted was not in the tier, had a score not
  below the promotion threshold, and is reported once; every chunk it demoted had a score below half
  of the threshold and is not in the tier afterwards; every chunk of the tier was there before or
  promoted. The size before plus the reported promotions is the size after plus the reported
  demotions and evictions. The access statistics are not touched.
\<close>

theorem maintenance_bounds:
  assumes "float_libm (se_rnd E) (se_libm E)" and "tracker_ok (se_rnd E) (se_libm E) t (ts_tracker s)" and "t \<le> now"
    and "weights_ok (at_config (ts_tracker s))" and "hot_ok (ts_hot s)"
    and "\<And>m. mset (se_stats_order E m) = mset m" and "\<And>m. mset (se_hot_order E m) = mset m"
    and "run_maintenance E W now tenant s = (res, s')"
  shows "hot_ok (ts_hot s') \<and> hot_len (ts_hot s') \<le> calculate_capacity (se_rnd E) (ts_hot s) (warm_len W)
       \<and> (\<forall>d \<in> set (mr_promotions res). \<exists>sc. td_score d = Some sc \<and> \<not> f_lt sc (promotion_threshold (ts_config s)))
       \<and> (\<forall>d \<in> set (mr_demotions res). \<exists>sc. td_score d = Some sc
            \<and> f_lt sc (f_mul (se_rnd E) (promotion_threshold (ts_config s)) (Fin (1 / 2))))
       \<and> distinct (map td_chunk_id (mr_promotions res)) \<and> (\<forall>d \<in> set (mr_promotions res). \<not> hot_contains (ts_hot s) (td_chunk_id d))
       \<and> (\<forall>d \<in> set (mr_demotions res). \<not> hot_contains (ts_hot s') (td_chunk_id d))
       \<and> (\<forall>c. hot_contains (ts_hot s') c \<longrightarrow> hot_contains (ts_hot s) c \<or> c \<in> td_chunk_id ` set (mr_promotions res))
       \<and> mr_promotions_count res = length (mr_promotions res) \<and> mr_demotions_count res = length (mr_demotions res)
       \<and> hot_len (ts_hot s) + mr_promotions_count res = hot_len (ts_hot s') + mr_demotions_count res + mr_evictions_count res
       \<and> ts_tracker s' = ts_tracker s"
proof -
  note nan = float_libm.candidates_scored [OF assms(1-4,6)]
  obtain ps s1 where p: "check_promotions E W now tenant None s = (ps, s1)" by fastforce
  obtain ds s2 where d: "check_demotions E now None s1 = (ds, s2)" by fastforce
  obtain n ht where e: "evict_if_needed (se_rnd E) (se_hot_order E) (warm_len W) (ts_hot s2) = (n, ht)" by fastforce
  have s': "ts_hot s' = ht" "ts_tracker s' = ts_tracker s2"
    "res = \<lparr>mr_promotions_count = length ps, mr_demotions_count = length ds, mr_evictions_count = n, mr_promotions = ps, mr_demotions = ds\<rparr>"
    using assms(8) p d e by (auto simp: run_maintenance_def)
  let ?cs = "get_top_candidates (se_rnd E) (se_libm E) (se_stats_order E) now (ts_tracker s) 100 None"
  have s1: "hot_ok (ts_hot s1)" "ht_config (ts_hot s1) = ht_config (ts_hot s)" "ts_tracker s1 = ts_tracker s"
    "ts_config s1 = ts_config s"
    "\<forall>d \<in> set ps. \<exists>sc. td_score d = Some sc \<and> \<not> f_lt sc (promotion_threshold (ts_config s))"
    "hot_len (ts_hot s1) = hot_len (ts_hot s) + length ps" "distinct (map td_chunk_id ps)"
    "\<forall>d \<in> set ps. \<not> hot_contains (ts_hot s) (td_chunk_id d)"
    "\<forall>c. hot_contains (ts_hot s1) c \<longleftrightarrow> hot_contains (ts_hot s) c \<or> c \<in> td_chunk_id ` set ps"
    using p promote_candidates_ok [OF assms(5), of ?cs E W now "ts_config s" tenant] nan assms(5)
    by (auto simp: check_promotions_def Let_def split: if_splits prod.splits)
  have s2: "hot_ok (ts_hot s2)" "ht_config (ts_hot s2) = ht_config (ts_hot s1)" "ts_tracker s2 = ts_tracker s1"
    "\<forall>d \<in> set ds. \<exists>sc. td_score d = Some sc \<and> f_lt sc (f_mul (se_rnd E) (promotion_threshold (ts_config s)) (Fin (1 / 2)))"
    "hot_len (ts_hot s2) + length ds = hot_len (ts_hot s1)"
    "\<forall>c. hot_contains (ts_hot s2) c \<longleftrightarrow> hot_contains (ts_hot s1) c \<and> c \<notin> td_chunk_id ` set ds"
    using d demote_candidates_ok [OF s1(1)] s1(1,4)
    by (auto simp: check_demotions_def Let_def split: if_splits prod.splits)
  have "calculate_capacity (se_rnd E) (ts_hot s2) (warm_len W) = calculate_capacity (se_rnd E) (ts_hot s) (warm_len W)"
    by (simp add: calculate_capacity_def s1(2) s2(2))
  moreover have ev: "hot_ok ht" "hot_len ht \<le> calculate_capacity (se_rnd E) (ts_hot s2) (warm_len W)"
    "hot_len ht + n = hot_len (ts_hot s2)" "set (ht_chunks ht) \<subseteq> set (ht_chunks (ts_hot s2))"
    using evict_exact [OF s2(1) assms(7) e] by blast+
  moreover have "hot_contains ht c \<longrightarrow> hot_contains (ts_hot s2) c" for c using ev(4) by (auto simp: hot_contains_iff)
  ultimately show ?thesis using s' s1 s2 by auto
qed

definition demo_env :: "unit search_env" where
  "demo_env = \<lparr>se_rnd = Fin, se_libm = exact_libm, se_index = demo_index, se_hash = demo_hash,
               se_stats_order = rev, se_hot_order = rev, se_seen_order = rev\<rparr>"

definition demo_warm :: warm_tier where
  "demo_warm = \<lparr>warm_search = (\<lambda>q k. Inr []), warm_embedding = (\<lambda>c. None), warm_version = 1, warm_len = 10\<rparr>"

definition demo_searcher :: "unit tiered_searcher" where
  "demo_searcher = \<lparr>ts_cache = cache_new (default_cache_config Fin), ts_hot = demo_hot,
     ts_tracker = tracker_new (default_tracker_config Fin), ts_config = default_searcher Fin, hot_tracked = True,
     query_counter = 0, last_demotion_check = 0\<rparr>"

theorem maintenance_bounds_witness:
  "hot_len (ts_hot (snd (run_maintenance demo_env demo_warm 5 ''t'' demo_searcher))) \<le> 1"
proof -
  obtain res s' where r: "run_maintenance demo_env demo_warm 5 ''t'' demo_searcher = (res, s')" by fastforce
  have "tracker_ok (se_rnd demo_env) (se_libm demo_env) 0 (ts_tracker demo_searcher)"
    by (simp add: demo_env_def demo_searcher_def exact_tracker.tracker_new_ok)
  moreover have "weights_ok (at_config (ts_tracker demo_searcher))"
    by (simp add: demo_searcher_def tracker_new_def default_tracker_config_def weights_ok_def)
  moreover have "hot_ok (ts_hot demo_searcher)"
    by (simp add: demo_searcher_def hot_ok_def demo_hot_def hot_tier_new_def default_hot_tier_def Let_def)
  moreover have "calculate_capacity (se_rnd demo_env) (ts_hot demo_searcher) (warm_len demo_warm) = 1"
    by (simp add: calculate_capacity_def demo_env_def demo_searcher_def demo_warm_def demo_hot_def hot_tier_new_def
        default_hot_tier_def f_of_nat_def Let_def)
  moreover have "float_libm (se_rnd demo_env) (se_libm demo_env)"
    by (simp add: demo_env_def exact_tracker.float_libm_axioms)
  moreover have "mset (se_stats_order demo_env m) = mset m" "mset (se_hot_order demo_env m') = mset m'" for m m'
    by (simp_all add: demo_env_def)
  ultimately show ?thesis
    using maintenance_bounds [of demo_env 0 demo_searcher 5 demo_warm "''t''" res s'] r by simp
qed

end
