(* ===== verification/Outcome.thy ===== *)
theory Outcome
  imports Memd_Text Memd_Float
begin

text \<open>
  Retrieval episodes and task outcomes (\<open>store/outcome.rs\<close>): the enumerations with their stored
  forms, the rules for what may influence ranking, the validation of episodes and outcome events,
  the rewriting of the rendered order, and the bounded score adjustment. UUIDs are their text. The
  JSON parser and SHA-256 are parameters (\<open>json_object\<close>, \<open>sha256_hex\<close>), as is \<open>pow2\<close>, the
  double-precision power of two rounded to a float.
\<close>

section \<open>Enumerations\<close>

datatype ranking_policy_mode = PolicyOff | PolicyShadow | PolicyServe

fun policy_mode_str :: "ranking_policy_mode \<Rightarrow> str" where
  "policy_mode_str PolicyOff = lit ''off''"
| "policy_mode_str PolicyShadow = lit ''shadow''"
| "policy_mode_str PolicyServe = lit ''serve''"

definition policy_mode_parse :: "str \<Rightarrow> memd_error + ranking_policy_mode" where
  "policy_mode_parse s =
     (if s = lit ''off'' then Inr PolicyOff
      else if s = lit ''shadow'' then Inr PolicyShadow
      else if s = lit ''serve'' then Inr PolicyServe
      else Inl (ValidationError ''invalid ranking policy mode''))"

datatype outcome_kind = Passed | Accepted | ObservedUsed | Corrected | Failed | Abandoned | VerifierError

fun outcome_kind_str :: "outcome_kind \<Rightarrow> str" where
  "outcome_kind_str Passed = lit ''passed''"
| "outcome_kind_str Accepted = lit ''accepted''"
| "outcome_kind_str ObservedUsed = lit ''observed_used''"
| "outcome_kind_str Corrected = lit ''corrected''"
| "outcome_kind_str Failed = lit ''failed''"
| "outcome_kind_str Abandoned = lit ''abandoned''"
| "outcome_kind_str VerifierError = lit ''verifier_error''"

definition outcome_kind_parse :: "str \<Rightarrow> memd_error + outcome_kind" where
  "outcome_kind_parse s =
     (if s = lit ''passed'' then Inr Passed
      else if s = lit ''accepted'' then Inr Accepted
      else if s = lit ''observed_used'' then Inr ObservedUsed
      else if s = lit ''corrected'' then Inr Corrected
      else if s = lit ''failed'' then Inr Failed
      else if s = lit ''abandoned'' then Inr Abandoned
      else if s = lit ''verifier_error'' then Inr VerifierError
      else Inl (ValidationError ''invalid retrieval outcome''))"

definition credits_used :: "outcome_kind \<Rightarrow> bool" where
  "credits_used k \<longleftrightarrow> k = Passed \<or> k = Accepted"

definition credits_harmful :: "outcome_kind \<Rightarrow> bool" where
  "credits_harmful k \<longleftrightarrow> k = Corrected \<or> k = Failed"

definition is_verifier_error :: "outcome_kind \<Rightarrow> bool" where
  "is_verifier_error k \<longleftrightarrow> k = VerifierError"

datatype outcome_verifier = VUser | AutomatedTest | ExternalTool | TaskSystem | AgentSelfReport

fun verifier_str :: "outcome_verifier \<Rightarrow> str" where
  "verifier_str VUser = lit ''user''"
| "verifier_str AutomatedTest = lit ''automated_test''"
| "verifier_str ExternalTool = lit ''external_tool''"
| "verifier_str TaskSystem = lit ''task_system''"
| "verifier_str AgentSelfReport = lit ''agent_self_report''"

definition verifier_parse :: "str \<Rightarrow> memd_error + outcome_verifier" where
  "verifier_parse s =
     (if s = lit ''user'' then Inr VUser
      else if s = lit ''automated_test'' then Inr AutomatedTest
      else if s = lit ''external_tool'' then Inr ExternalTool
      else if s = lit ''task_system'' then Inr TaskSystem
      else if s = lit ''agent_self_report'' then Inr AgentSelfReport
      else Inl (ValidationError ''invalid outcome verifier''))"

definition is_ranking_eligible :: "outcome_verifier \<Rightarrow> bool" where
  "is_ranking_eligible v \<longleftrightarrow> v \<noteq> AgentSelfReport"

definition requires_evidence :: "outcome_verifier \<Rightarrow> bool" where
  "requires_evidence v \<longleftrightarrow> v = AutomatedTest \<or> v = ExternalTool \<or> v = TaskSystem"

section \<open>Episodes, items, events\<close>

record retrieval_episode =
  ep_id :: string
  ep_tenant_id :: string
  ep_project_id :: "string option"
  ep_query_hash :: str
  ep_query_mode :: str
  requested_k :: nat
  fetched_k :: nat
  rendered_k :: nat
  ep_policy_version :: str
  ep_policy_mode :: ranking_policy_mode
  ep_task_id :: "str option"
  ep_thread_id :: "str option"
  ep_created_at_ms :: i64
  ep_expires_at_ms :: i64

record episode_item =
  it_episode_id :: string
  it_chunk_id :: string
  it_origin_tenant_id :: string
  it_origin_project_id :: "string option"
  original_rank :: nat
  original_score :: f32
  lane_scores_json :: str
  outcome_adjustment :: f32
  served_rank :: "nat option"
  shadow_rank :: "nat option"
  rendered :: bool
  source_dedup_group :: "string option"

record outcome_event =
  oe_id :: string
  oe_episode_id :: string
  oe_outcome :: outcome_kind
  oe_verifier :: outcome_verifier
  used_chunk_ids :: "string list"
  harmful_chunk_ids :: "string list"
  evidence_reference :: "str option"
  ranking_eligible :: bool
  oe_timestamp_ms :: i64

section \<open>Ranking eligibility\<close>

text \<open>\<open>rsplit_once\<close>: the parts before and after the last occurrence of a character.\<close>

definition rsplit_once :: "uchar \<Rightarrow> str \<Rightarrow> (str \<times> str) option" where
  "rsplit_once c s =
     (let tail = takeWhile (\<lambda>x. x \<noteq> c) (rev s)
      in if c \<in> set s then Some (rev (drop (Suc (length tail)) (rev s)), rev tail) else None)"

text \<open>\<open>str::parse::<usize>\<close> on a text.\<close>

definition parse_usize :: "str \<Rightarrow> nat option" where
  "parse_usize s =
     (let ds = (case s of c # cs \<Rightarrow> if c = 0x2B then cs else s | [] \<Rightarrow> []);
          v = foldl (\<lambda>a c. 10 * a + (c - 0x30)) 0 ds
      in if ds \<noteq> [] \<and> list_all is_ascii_digit ds \<and> v < 2 ^ 64 then Some v else None)"

definition is_legacy_codex_scanner_outcome :: "outcome_kind \<Rightarrow> outcome_verifier \<Rightarrow> str option \<Rightarrow> bool" where
  "is_legacy_codex_scanner_outcome outcome verifier reference \<longleftrightarrow>
     (if outcome \<noteq> Accepted \<or> verifier \<noteq> ExternalTool then False
      else case Option.bind reference (\<lambda>r. strip_prefix r (lit ''codex:'')) of
        None \<Rightarrow> False
      | Some r \<Rightarrow>
         (case rsplit_once 0x3A r of
            None \<Rightarrow> False
          | Some (session, line) \<Rightarrow>
              session \<noteq> [] \<and> ends_with session (lit ''.jsonl'') \<and> 0x2F \<notin> set session \<and> 0x5C \<notin> set session
              \<and> (case parse_usize line of None \<Rightarrow> False | Some n \<Rightarrow> n > 0)))"

definition expected_ranking_eligibility ::
  "outcome_kind \<Rightarrow> outcome_verifier \<Rightarrow> bool \<Rightarrow> bool \<Rightarrow> str option \<Rightarrow> bool" where
  "expected_ranking_eligibility outcome verifier has_used has_harmful reference \<longleftrightarrow>
     is_ranking_eligible verifier
     \<and> \<not> is_legacy_codex_scanner_outcome outcome verifier reference
     \<and> (credits_used outcome \<and> has_used \<or> credits_harmful outcome \<and> has_harmful)"

definition outcome_event_new ::
  "string \<Rightarrow> string \<Rightarrow> outcome_kind \<Rightarrow> outcome_verifier \<Rightarrow> string list \<Rightarrow> string list \<Rightarrow> str option \<Rightarrow> i64 \<Rightarrow> outcome_event" where
  "outcome_event_new new_id episode outcome verifier used harmful reference t =
     \<lparr>oe_id = new_id, oe_episode_id = episode, oe_outcome = outcome, oe_verifier = verifier,
      used_chunk_ids = used, harmful_chunk_ids = harmful, evidence_reference = reference,
      ranking_eligible = expected_ranking_eligibility outcome verifier (used \<noteq> []) (harmful \<noteq> []) reference,
      oe_timestamp_ms = t\<rparr>"

definition contributes_to_ranking :: "outcome_event \<Rightarrow> bool" where
  "contributes_to_ranking e \<longleftrightarrow> ranking_eligible e
     \<and> \<not> is_legacy_codex_scanner_outcome (oe_outcome e) (oe_verifier e) (evidence_reference e)"

definition stable_query_hash :: "(str \<Rightarrow> str) \<Rightarrow> str \<Rightarrow> str" where
  "stable_query_hash sha256_hex query = sha256_hex (join [0x20] (split_whitespace query))"

section \<open>Validation\<close>

definition is_ascii_hexdigit :: "uchar \<Rightarrow> bool" where
  "is_ascii_hexdigit c \<longleftrightarrow> is_ascii_digit c \<or> (0x41 \<le> c \<and> c \<le> 0x46) \<or> (0x61 \<le> c \<and> c \<le> 0x66)"

definition bounded_id :: "str option \<Rightarrow> bool" where
  "bounded_id v \<longleftrightarrow> (case v of None \<Rightarrow> True | Some s \<Rightarrow> trim s \<noteq> [] \<and> byte_len s \<le> 512)"

text \<open>The loop over the items, with the four sets of what was seen.\<close>

fun validate_items ::
  "(str \<Rightarrow> bool) \<Rightarrow> string \<Rightarrow> string set \<Rightarrow> nat set \<Rightarrow> nat set \<Rightarrow> nat set \<Rightarrow> episode_item list \<Rightarrow> memd_error + unit" where
  "validate_items json ep chunks originals served shadow [] = Inr ()"
| "validate_items json ep chunks originals served shadow (i # is) =
     (if it_episode_id i \<noteq> ep
      then Inl (ValidationError ''retrieval episode item references a different episode'')
      else if it_chunk_id i \<in> chunks \<or> original_rank i \<in> originals
      then Inl (ValidationError ''retrieval episode candidate IDs and original ranks must be unique'')
      else if \<not> is_finite (original_score i) \<or> \<not> is_finite (outcome_adjustment i)
      then Inl (ValidationError ''retrieval episode scores must be finite'')
      else if byte_len (lane_scores_json i) > 4096 \<or> \<not> json (lane_scores_json i)
      then Inl (ValidationError ''retrieval episode lane scores must be a bounded JSON object'')
      else if (case served_rank i of Some r \<Rightarrow> r \<in> served | None \<Rightarrow> False)
      then Inl (ValidationError ''retrieval episode served ranks must be unique'')
      else if (case shadow_rank i of Some r \<Rightarrow> r \<in> shadow | None \<Rightarrow> False)
      then Inl (ValidationError ''retrieval episode shadow ranks must be unique'')
      else if rendered i \<and> served_rank i = None
      then Inl (ValidationError ''a rendered retrieval item must have a served rank'')
      else validate_items json ep (insert (it_chunk_id i) chunks) (insert (original_rank i) originals)
             (set_option (served_rank i) \<union> served) (set_option (shadow_rank i) \<union> shadow) is)"

definition validate_retrieval_episode ::
  "(str \<Rightarrow> bool) \<Rightarrow> retrieval_episode \<Rightarrow> episode_item list \<Rightarrow> memd_error + unit" where
  "validate_retrieval_episode json ep items =
     (if byte_len (ep_query_hash ep) \<noteq> 64 \<or> \<not> list_all is_ascii_hexdigit (ep_query_hash ep)
      then Inl (ValidationError ''retrieval episode query hash must be a SHA-256 hex digest'')
      else if trim (ep_query_mode ep) = [] \<or> trim (ep_policy_version ep) = []
      then Inl (ValidationError ''retrieval episode mode and policy version must not be empty'')
      else if \<not> bounded_id (ep_task_id ep)
      then Inl (ValidationError ''retrieval episode task_id must contain 1 to 512 bytes'')
      else if \<not> bounded_id (ep_thread_id ep)
      then Inl (ValidationError ''retrieval episode thread_id must contain 1 to 512 bytes'')
      else if sint (ep_expires_at_ms ep) \<le> sint (ep_created_at_ms ep)
      then Inl (ValidationError ''retrieval episode expiry must follow creation'')
      else if fetched_k ep \<noteq> length items
      then Inl (ValidationError ''retrieval episode fetched_k does not match candidate items'')
      else if requested_k ep > 200 \<or> fetched_k ep > 200 \<or> rendered_k ep > 200
      then Inl (ValidationError ''retrieval episode exceeds bounded k limits'')
      else if rendered_k ep \<noteq> length (filter rendered items)
      then Inl (ValidationError ''retrieval episode rendered_k does not match rendered items'')
      else validate_items json (ep_id ep) {} {} {} {} items)"

section \<open>The rendered order\<close>

fun check_rendered :: "episode_item list \<Rightarrow> string set \<Rightarrow> string list \<Rightarrow> memd_error + unit" where
  "check_rendered items seen [] = Inr ()"
| "check_rendered items seen (c # cs) =
     (if c \<in> seen then Inl (ValidationError ''rendered retrieval order contains duplicate chunk IDs'')
      else if \<not> list_ex (\<lambda>i. it_chunk_id i = c) items
      then Inl (ValidationError ''rendered chunk was not in the retrieval candidate pool'')
      else check_rendered items (insert c seen) cs)"

text \<open>The first item of a chunk gets a rank.\<close>

fun serve_first :: "string \<Rightarrow> nat \<Rightarrow> episode_item list \<Rightarrow> episode_item list" where
  "serve_first c rank [] = []"
| "serve_first c rank (i # is) =
     (if it_chunk_id i = c then i\<lparr>served_rank := Some rank, rendered := True\<rparr> # is
      else i # serve_first c rank is)"

fun serve_all :: "nat \<Rightarrow> string list \<Rightarrow> episode_item list \<Rightarrow> episode_item list" where
  "serve_all rank [] items = items"
| "serve_all rank (c # cs) items = serve_all (rank + 1) cs (serve_first c rank items)"

text \<open>
  The episode and the items are rewritten in place before the final validation, so the caller sees
  the new values also when that fails.
\<close>

definition apply_rendered_order ::
  "(str \<Rightarrow> bool) \<Rightarrow> retrieval_episode \<Rightarrow> episode_item list \<Rightarrow> string list
     \<Rightarrow> (memd_error + unit) \<times> retrieval_episode \<times> episode_item list" where
  "apply_rendered_order json ep items ids =
     (if length ids > requested_k ep
      then (Inl (ValidationError ''rendered retrieval count exceeds requested k''), ep, items)
      else case check_rendered items {} ids of
        Inl e \<Rightarrow> (Inl e, ep, items)
      | Inr _ \<Rightarrow>
         (let cleared = map (\<lambda>i. i\<lparr>served_rank := None, rendered := False\<rparr>) items;
              items' = serve_all 0 ids cleared;
              ep' = ep\<lparr>rendered_k := length ids\<rparr>
          in (validate_retrieval_episode json ep' items', ep', items')))"

section \<open>Outcome events\<close>

definition validate_outcome_event ::
  "string \<Rightarrow> retrieval_episode \<Rightarrow> episode_item list \<Rightarrow> outcome_event \<Rightarrow> memd_error + unit" where
  "validate_outcome_event tenant ep items e =
     (let shown = it_chunk_id ` set (filter rendered items);
          used = set (used_chunk_ids e);
          harmful = set (harmful_chunk_ids e)
      in if ep_tenant_id ep \<noteq> tenant \<or> oe_episode_id e \<noteq> ep_id ep
         then Inl (ValidationError ''outcome tenant or episode does not match the retrieval episode'')
         else if sint (oe_timestamp_ms e) < sint (ep_created_at_ms ep) \<or> sint (oe_timestamp_ms e) > sint (ep_expires_at_ms ep)
         then Inl (ValidationError ''outcome timestamp falls outside the retrieval episode retention window'')
         else if requires_evidence (oe_verifier e)
                 \<and> (case evidence_reference e of None \<Rightarrow> True | Some r \<Rightarrow> trim r = [])
         then Inl (ValidationError ''outcomes require an evidence reference'')
         else if (case evidence_reference e of None \<Rightarrow> False | Some r \<Rightarrow> byte_len r > 2048)
         then Inl (ValidationError ''outcome evidence reference exceeds 2048 bytes'')
         else if card used \<noteq> length (used_chunk_ids e) \<or> card harmful \<noteq> length (harmful_chunk_ids e)
         then Inl (ValidationError ''outcome chunk IDs must not contain duplicates'')
         else if used \<inter> harmful \<noteq> {}
         then Inl (ValidationError ''outcome used and harmful chunk IDs must not overlap'')
         else if \<not> used \<union> harmful \<subseteq> shown
         then Inl (ValidationError ''outcome attribution is limited to chunks rendered in the episode'')
         else if ranking_eligible e \<noteq> expected_ranking_eligibility (oe_outcome e) (oe_verifier e)
                   (used \<noteq> {}) (harmful \<noteq> {}) (evidence_reference e)
         then Inl (ValidationError ''outcome ranking eligibility does not match its verifier and attribution'')
         else Inr ())"

section \<open>Priors\<close>

record outcome_prior =
  op_chunk_id :: string
  eligible_episode_count :: nat
  positive_weight :: f32
  negative_weight :: f32
  last_outcome_at_ms :: i64

definition prior_new :: "string \<Rightarrow> outcome_prior" where
  "prior_new c = \<lparr>op_chunk_id = c, eligible_episode_count = 0, positive_weight = Fin 0, negative_weight = Fin 0,
                  last_outcome_at_ms = 0\<rparr>"

definition prior_add :: "rounding \<Rightarrow> bool \<Rightarrow> f32 \<Rightarrow> i64 \<Rightarrow> outcome_prior \<Rightarrow> outcome_prior" where
  "prior_add rnd positive weight t p =
     (let p1 = p\<lparr>eligible_episode_count := min (eligible_episode_count p + 1) (2 ^ 64 - 1)\<rparr>;
          p2 = (if positive then p1\<lparr>positive_weight := f_add rnd (positive_weight p1) weight\<rparr>
                else p1\<lparr>negative_weight := f_add rnd (negative_weight p1) weight\<rparr>)
      in p2\<lparr>last_outcome_at_ms := (if sint (last_outcome_at_ms p2) < sint t then t else last_outcome_at_ms p2)\<rparr>)"

definition max_outcome_adjustment :: "rounding \<Rightarrow> f32" where
  "max_outcome_adjustment rnd = rnd 0.20"

definition bounded_adjustment :: "rounding \<Rightarrow> outcome_prior \<Rightarrow> f32" where
  "bounded_adjustment rnd p =
     (let evidence = f_add rnd (positive_weight p) (negative_weight p);
          cap = max_outcome_adjustment rnd
      in if f_le evidence (Fin (1 / 2 ^ 23)) then Fin 0
         else f_clamp (f_mul rnd (f_div rnd (f_sub rnd (positive_weight p) (negative_weight p))
                                   (f_add rnd evidence (Fin 4))) cap) (f_neg cap) cap)"

definition OUTCOME_HALF_LIFE_MS :: int where
  "OUTCOME_HALF_LIFE_MS = 90 * 24 * 60 * 60 * 1000"

text \<open>\<open>i64::saturating_sub\<close> followed by \<open>max(0)\<close>.\<close>

definition decayed_outcome_weight :: "(real \<Rightarrow> f32) \<Rightarrow> i64 \<Rightarrow> i64 \<Rightarrow> f32" where
  "decayed_outcome_weight pow2 timestamp now =
     (let age = max (min (sint now - sint timestamp) (2 ^ 63 - 1)) 0
      in pow2 (- (of_int age / of_int OUTCOME_HALF_LIFE_MS)))"

section \<open>What validation accepts\<close>

text \<open>The checks of one item, and those across items.\<close>

definition item_ok :: "(str \<Rightarrow> bool) \<Rightarrow> string \<Rightarrow> episode_item \<Rightarrow> bool" where
  "item_ok json ep i \<longleftrightarrow> it_episode_id i = ep \<and> is_finite (original_score i) \<and> is_finite (outcome_adjustment i)
     \<and> byte_len (lane_scores_json i) \<le> 4096 \<and> json (lane_scores_json i) \<and> (rendered i \<longrightarrow> served_rank i \<noteq> None)"

definition ranks :: "(episode_item \<Rightarrow> nat option) \<Rightarrow> episode_item list \<Rightarrow> nat list" where
  "ranks f is = List.map_filter f is"

lemma ranks_simps [simp]:
  "ranks f [] = []" "ranks f (i # is) = (case f i of None \<Rightarrow> ranks f is | Some r \<Rightarrow> r # ranks f is)"
  by (simp_all add: ranks_def List.map_filter_def split: option.split)

lemma set_ranks: "set (ranks f is) = {r. \<exists>i \<in> set is. f i = Some r}"
  by (induction "is") (auto split: option.splits)

lemma validate_items_iff:
  "validate_items json ep C R S H is = Inr () \<longleftrightarrow>
     (\<forall>i \<in> set is. item_ok json ep i)
     \<and> distinct (map it_chunk_id is) \<and> it_chunk_id ` set is \<inter> C = {}
     \<and> distinct (map original_rank is) \<and> original_rank ` set is \<inter> R = {}
     \<and> distinct (ranks served_rank is) \<and> set (ranks served_rank is) \<inter> S = {}
     \<and> distinct (ranks shadow_rank is) \<and> set (ranks shadow_rank is) \<inter> H = {}"
proof (induction "is" arbitrary: C R S H)
  case (Cons i "is")
  show ?case
    by (cases "served_rank i"; cases "shadow_rank i") (auto simp: Cons.IH item_ok_def)
qed simp

definition header_ok :: "retrieval_episode \<Rightarrow> episode_item list \<Rightarrow> bool" where
  "header_ok ep items \<longleftrightarrow>
     byte_len (ep_query_hash ep) = 64 \<and> list_all is_ascii_hexdigit (ep_query_hash ep)
     \<and> trim (ep_query_mode ep) \<noteq> [] \<and> trim (ep_policy_version ep) \<noteq> []
     \<and> bounded_id (ep_task_id ep) \<and> bounded_id (ep_thread_id ep)
     \<and> sint (ep_created_at_ms ep) < sint (ep_expires_at_ms ep)
     \<and> fetched_k ep = length items \<and> requested_k ep \<le> 200 \<and> fetched_k ep \<le> 200 \<and> rendered_k ep \<le> 200
     \<and> rendered_k ep = length (filter rendered items)"

lemma validate_episode_iff:
  "validate_retrieval_episode json ep items = Inr () \<longleftrightarrow>
     header_ok ep items \<and> validate_items json (ep_id ep) {} {} {} {} items = Inr ()"
  by (auto simp: validate_retrieval_episode_def header_ok_def)

section \<open>Serving an order\<close>

fun rank_in :: "nat \<Rightarrow> string list \<Rightarrow> string \<Rightarrow> nat option" where
  "rank_in r [] c = None"
| "rank_in r (x # xs) c = (if x = c then Some r else rank_in (r + 1) xs c)"

definition serve :: "nat option \<Rightarrow> episode_item \<Rightarrow> episode_item" where
  "serve k i = (case k of None \<Rightarrow> i | Some r \<Rightarrow> i\<lparr>served_rank := Some r, rendered := True\<rparr>)"

lemma serve_simps [simp]:
  "it_chunk_id (serve k i) = it_chunk_id i" "original_rank (serve k i) = original_rank i"
  "shadow_rank (serve k i) = shadow_rank i" "serve None i = i"
  by (simp_all add: serve_def split: option.split)

lemma rank_in_None: "rank_in r cs c = None \<longleftrightarrow> c \<notin> set cs"
  by (induction cs arbitrary: r) auto

lemma rank_in_ge: "rank_in r cs c = Some k \<Longrightarrow> r \<le> k"
  by (induction cs arbitrary: r) (auto split: if_splits dest: Suc_leD)

lemma rank_in_inj: "rank_in r cs a = Some k \<Longrightarrow> rank_in r cs b = Some k \<Longrightarrow> a = b"
  by (induction cs arbitrary: r) (auto split: if_splits dest: rank_in_ge)

lemma rank_in_nth: "distinct cs \<Longrightarrow> j < length cs \<Longrightarrow> rank_in r cs (cs ! j) = Some (r + j)"
  by (induction cs arbitrary: r j) (auto simp: nth_Cons split: nat.splits)

lemma serve_first_map:
  "distinct (map it_chunk_id is) \<Longrightarrow>
     serve_first c r is = map (\<lambda>i. if it_chunk_id i = c then serve (Some r) i else i) is"
  by (induction "is") (auto simp: serve_def image_iff intro!: map_idI [symmetric])

lemma serve_all_map:
  assumes "distinct (map it_chunk_id is)" and "distinct cs"
  shows "serve_all r cs is = map (\<lambda>i. serve (rank_in r cs (it_chunk_id i)) i) is"
  using assms
proof (induction cs arbitrary: r "is")
  case (Cons c cs)
  let ?f = "\<lambda>i. if it_chunk_id i = c then serve (Some r) i else i"
  have ids: "map it_chunk_id (map ?f is) = map it_chunk_id is" by simp
  have "serve_all r (c # cs) is = serve_all (r + 1) cs (map ?f is)"
    using Cons.prems(1) by (simp add: serve_first_map)
  also have "\<dots> = map (\<lambda>i. serve (rank_in (r + 1) cs (it_chunk_id i)) i) (map ?f is)"
    by (rule Cons.IH) (use Cons.prems ids in \<open>simp_all only: distinct.simps\<close>)
  also have "\<dots> = map (\<lambda>i. serve (rank_in r (c # cs) (it_chunk_id i)) i) is"
    using Cons.prems(2) rank_in_None [of "r + 1" cs c] by auto
  finally show ?case .
qed (simp add: map_idI)

lemma check_rendered_iff:
  "check_rendered items seen cs = Inr () \<longleftrightarrow> distinct cs \<and> set cs \<inter> seen = {} \<and> set cs \<subseteq> it_chunk_id ` set items"
  by (induction cs arbitrary: seen) (auto simp: list_ex_iff)

text \<open>The items after a rendered order: served as listed, everything else as before.\<close>

definition served_items :: "string list \<Rightarrow> episode_item list \<Rightarrow> episode_item list" where
  "served_items ids items =
     map (\<lambda>i. serve (rank_in 0 ids (it_chunk_id i)) (i\<lparr>served_rank := None, rendered := False\<rparr>)) items"

lemma served_fields [simp]:
  "it_chunk_id (serve k (i\<lparr>served_rank := None, rendered := False\<rparr>)) = it_chunk_id i"
  "served_rank (serve k (i\<lparr>served_rank := None, rendered := False\<rparr>)) = k"
  "rendered (serve k (i\<lparr>served_rank := None, rendered := False\<rparr>)) = (k \<noteq> None)"
  by (simp_all add: serve_def split: option.split)

lemma served_items_ok:
  assumes "validate_items json ep {} {} {} {} items = Inr ()"
  shows "validate_items json ep {} {} {} {} (served_items ids items) = Inr ()"
proof -
  have v: "\<forall>i \<in> set items. item_ok json ep i" "distinct (map it_chunk_id items)" "distinct (map original_rank items)"
    "distinct (ranks shadow_rank items)" using assms by (simp_all add: validate_items_iff)
  have same: "map it_chunk_id (served_items ids items) = map it_chunk_id items"
    "map original_rank (served_items ids items) = map original_rank items"
    "ranks shadow_rank (served_items ids items) = ranks shadow_rank items"
    by (simp_all add: served_items_def ranks_def List.map_filter_def comp_def filter_map)
  have "item_ok json ep (serve k (i\<lparr>served_rank := None, rendered := False\<rparr>))" if "item_ok json ep i" for i k
    using that by (auto simp: item_ok_def serve_def split: option.split)
  then have ok: "\<forall>i \<in> set (served_items ids items). item_ok json ep i"
    using v(1) by (auto simp: served_items_def)
  have "distinct (map it_chunk_id is) \<Longrightarrow> distinct (ranks served_rank (served_items ids is))" for "is"
    by (induction "is") (auto simp: served_items_def set_ranks split: option.splits dest: rank_in_inj)
  with v ok same show ?thesis unfolding validate_items_iff by simp
qed

lemma served_items_count:
  assumes "distinct (map it_chunk_id items)" and "distinct ids" and "set ids \<subseteq> it_chunk_id ` set items"
  shows "length (filter rendered (served_items ids items)) = length ids"
proof -
  have "rank_in 0 ids c \<noteq> None \<longleftrightarrow> c \<in> set ids" for c by (simp add: rank_in_None)
  then have "length (filter rendered (served_items ids items)) = length (filter (\<lambda>i. it_chunk_id i \<in> set ids) items)"
    unfolding served_items_def filter_map comp_def served_fields by simp
  also have "\<dots> = card (it_chunk_id ` set (filter (\<lambda>i. it_chunk_id i \<in> set ids) items))"
    using assms(1) by (metis distinct_card distinct_map_filter length_map set_map)
  also have "it_chunk_id ` set (filter (\<lambda>i. it_chunk_id i \<in> set ids) items) = set ids" using assms(3) by force
  finally show ?thesis using assms(2) by (simp add: distinct_card)
qed

lemma apply_rendered_order_ok:
  assumes "validate_retrieval_episode json ep items = Inr ()"
    and ids: "length ids \<le> requested_k ep" "distinct ids" "set ids \<subseteq> it_chunk_id ` set items"
  shows "apply_rendered_order json ep items ids = (Inr (), ep\<lparr>rendered_k := length ids\<rparr>, served_items ids items)"
    and "validate_retrieval_episode json (ep\<lparr>rendered_k := length ids\<rparr>) (served_items ids items) = Inr ()"
proof -
  have c: "check_rendered items {} ids = Inr ()" using ids by (simp add: check_rendered_iff)
  have v: "header_ok ep items" "validate_items json (ep_id ep) {} {} {} {} items = Inr ()"
    using assms(1) by (simp_all add: validate_episode_iff)
  then have d: "distinct (map it_chunk_id items)" by (simp add: validate_items_iff)
  have "serve_all 0 ids (map (\<lambda>i. i\<lparr>served_rank := None, rendered := False\<rparr>) items) = served_items ids items"
    using serve_all_map [of "map (\<lambda>i. i\<lparr>served_rank := None, rendered := False\<rparr>) items" ids 0] d ids
    by (simp add: served_items_def comp_def)
  moreover have "header_ok (ep\<lparr>rendered_k := length ids\<rparr>) (served_items ids items)"
    using v(1) ids served_items_count [OF d] by (auto simp: header_ok_def served_items_def)
  ultimately show "apply_rendered_order json ep items ids =
      (Inr (), ep\<lparr>rendered_k := length ids\<rparr>, served_items ids items)"
    and "validate_retrieval_episode json (ep\<lparr>rendered_k := length ids\<rparr>) (served_items ids items) = Inr ()"
    using ids c served_items_ok [OF v(2)] by (simp_all add: apply_rendered_order_def validate_episode_iff Let_def)
qed

lemma apply_rendered_order_refused:
  assumes "\<not> (length ids \<le> requested_k ep \<and> distinct ids \<and> set ids \<subseteq> it_chunk_id ` set items)"
  shows "\<exists>e. apply_rendered_order json ep items ids = (Inl e, ep, items)"
proof (cases "length ids \<le> requested_k ep")
  case True
  then have "check_rendered items {} ids \<noteq> Inr ()" using assms by (simp add: check_rendered_iff)
  with True show ?thesis by (cases "check_rendered items {} ids") (simp_all add: apply_rendered_order_def)
qed (simp add: apply_rendered_order_def)

lemma served_items_spec:
  assumes "distinct ids" and "i \<in> set (served_items ids items)"
  shows "j < length ids \<Longrightarrow> it_chunk_id i = ids ! j \<Longrightarrow> served_rank i = Some j \<and> rendered i"
    and "it_chunk_id i \<notin> set ids \<Longrightarrow> served_rank i = None \<and> \<not> rendered i"
  using assms rank_in_nth [of ids j 0] by (auto simp: served_items_def rank_in_None)

section \<open>Ranking adjustment\<close>

context f32_round
begin

lemma adjustment_cap: "\<exists>c. max_outcome_adjustment rnd = Fin c \<and> 0 \<le> c \<and> c \<le> 1"
  using rnd_unit [of "0.20"] by (auto simp: max_outcome_adjustment_def)

lemma rnd_ge_1: "1 \<le> x \<Longrightarrow> f_le (Fin 1) (rnd x)"
  using rnd_mono [of 1 x] by (simp add: rnd_1)

lemma rnd_nonpos: "x \<le> 0 \<Longrightarrow> f_le (rnd x) (Fin 0)"
  using rnd_mono [of x 0] by (simp add: rnd_0)

text \<open>The difference of two representable weights is finite and has the sign of the difference.\<close>

lemma weight_difference:
  assumes "rnd p = Fin p" and "rnd n = Fin n" and "0 \<le> p" and "0 \<le> n"
  obtains d where "f_sub rnd (Fin p) (Fin n) = Fin d" and "rnd d = Fin d"
    and "n \<le> p \<Longrightarrow> 0 \<le> d" and "p \<le> n \<Longrightarrow> d \<le> 0"
proof -
  obtain d where d: "rnd (p - n) = Fin d"
    using rnd_between [of "- n" p "p - n"] rnd_neg assms by auto
  moreover have "0 \<le> d" if "n \<le> p" using rnd_nonneg [of "p - n"] that d by simp
  moreover have "d \<le> 0" if "p \<le> n" using rnd_nonpos [of "p - n"] that d by simp
  ultimately show ?thesis using that [of d] rnd_repr by (simp add: f_sub_def)
qed

text \<open>A divisor of at least one keeps a representable number finite, and its sign.\<close>

lemma shrunk_sign:
  assumes "f_le (Fin 1) den" and "rnd d = Fin d"
  obtains q where "f_div rnd (Fin d) den = Fin q" and "0 \<le> d \<Longrightarrow> 0 \<le> q" and "d \<le> 0 \<Longrightarrow> q \<le> 0"
proof (cases den)
  case (Fin b)
  with assms have b: "1 \<le> b" by simp
  have "d / b \<le> d" if "0 \<le> d" using that b mult_left_mono [of 1 b d] by (simp add: field_simps)
  moreover have "d \<le> d / b" if "d \<le> 0" using that b mult_left_mono_neg [of 1 b d] by (simp add: field_simps)
  ultimately have "\<exists>q. rnd (d / b) = Fin q \<and> min 0 d \<le> q \<and> q \<le> max 0 d"
    using rnd_between [of "min 0 d" "max 0 d" "d / b"] assms(2) b rnd_0
    by (cases "0 \<le> d") (auto simp: divide_nonpos_pos)
  then obtain q where "rnd (d / b) = Fin q" "min 0 d \<le> q" "q \<le> max 0 d" by blast
  with that [of q] Fin b show ?thesis by auto
qed (use assms that in auto)

lemma scaled_sign:
  assumes "0 \<le> c"
  shows "\<not> is_nan (f_mul rnd (Fin q) (Fin c))"
    and "0 \<le> q \<Longrightarrow> f_le (Fin 0) (f_mul rnd (Fin q) (Fin c))"
    and "q \<le> 0 \<Longrightarrow> f_le (f_mul rnd (Fin q) (Fin c)) (Fin 0)"
  using assms rnd_nonneg [of "q * c"] rnd_nonpos [of "q * c"] by (simp_all add: mult_nonpos_nonneg)

lemma evidence_ge_1:
  assumes "0 \<le> p" and "0 \<le> n"
  shows "f_le (Fin 1) (f_add rnd (f_add rnd (Fin p) (Fin n)) (Fin 4))"
proof -
  have "f_le (Fin 0) (rnd (p + n))" using assms by (intro rnd_nonneg) simp
  moreover have "f_le (Fin 1) (rnd (x + 4))" if "0 \<le> x" for x using that by (intro rnd_ge_1) simp
  ultimately show ?thesis by (cases "rnd (p + n)") (simp_all add: f_le_def [of _ NInf])
qed

end

lemma f_clamp_sign:
  assumes "\<not> is_nan x" and "0 \<le> c"
  obtains a where "f_clamp x (Fin (- c)) (Fin c) = Fin a" and "- c \<le> a" and "a \<le> c"
    and "f_le (Fin 0) x \<Longrightarrow> 0 \<le> a" and "f_le x (Fin 0) \<Longrightarrow> a \<le> 0"
proof -
  obtain a where a: "f_clamp x (Fin (- c)) (Fin c) = Fin a" "- c \<le> a" "a \<le> c"
    using f_clamp_bounds [OF assms(1), of "Fin (- c)" "Fin c"] assms(2) f_le_between by fastforce
  moreover have "0 \<le> a" if "f_le (Fin 0) x"
    using that a(1) assms by (cases x) (auto simp: f_clamp_def f_le_def split: if_splits)
  moreover have "a \<le> 0" if "f_le x (Fin 0)"
    using that a(1) assms by (cases x) (auto simp: f_clamp_def f_le_def split: if_splits)
  ultimately show ?thesis using that by blast
qed

section \<open>Properties\<close>

text \<open>
  C31. Rewriting the rendered order of a valid episode succeeds exactly for orders that fit
  the requested size, repeat no chunk and name only candidates. Then the new episode is valid,
  the chunk at position \<open>j\<close> of the order is the one served at rank \<open>j\<close> and rendered, every other
  candidate is neither, and shadow ranks and identities are as before. A refused order changes
  nothing.
\<close>

theorem rendered_order_exact:
  assumes "validate_retrieval_episode json ep items = Inr ()"
  shows "(fst (apply_rendered_order json ep items ids) = Inr () \<longleftrightarrow>
            length ids \<le> requested_k ep \<and> distinct ids \<and> set ids \<subseteq> it_chunk_id ` set items)
       \<and> (\<forall>ep' items'. apply_rendered_order json ep items ids = (Inr (), ep', items') \<longrightarrow>
            validate_retrieval_episode json ep' items' = Inr ()
            \<and> map it_chunk_id items' = map it_chunk_id items \<and> map shadow_rank items' = map shadow_rank items
            \<and> (\<forall>i \<in> set items'. \<forall>j < length ids. it_chunk_id i = ids ! j \<longrightarrow> served_rank i = Some j \<and> rendered i)
            \<and> (\<forall>i \<in> set items'. it_chunk_id i \<notin> set ids \<longrightarrow> served_rank i = None \<and> \<not> rendered i))
       \<and> (fst (apply_rendered_order json ep items ids) \<noteq> Inr () \<longrightarrow>
            snd (apply_rendered_order json ep items ids) = (ep, items))"
proof (cases "length ids \<le> requested_k ep \<and> distinct ids \<and> set ids \<subseteq> it_chunk_id ` set items")
  case True
  then have a: "apply_rendered_order json ep items ids = (Inr (), ep\<lparr>rendered_k := length ids\<rparr>, served_items ids items)"
    and valid: "validate_retrieval_episode json (ep\<lparr>rendered_k := length ids\<rparr>) (served_items ids items) = Inr ()"
    using apply_rendered_order_ok [OF assms] by blast+
  moreover have "map it_chunk_id (served_items ids items) = map it_chunk_id items"
    "map shadow_rank (served_items ids items) = map shadow_rank items"
    by (simp_all add: served_items_def)
  ultimately show ?thesis using True served_items_spec [of ids _ items] by simp
next
  case False
  with apply_rendered_order_refused [OF False, of json] show ?thesis by force
qed

text \<open>Two candidates, the second one rendered first.\<close>

definition demo_item :: "string \<Rightarrow> nat \<Rightarrow> episode_item" where
  "demo_item c r = \<lparr>it_episode_id = ''e'', it_chunk_id = c, it_origin_tenant_id = ''t'', it_origin_project_id = None,
     original_rank = r, original_score = Fin 1, lane_scores_json = lit ''{}'', outcome_adjustment = Fin 0,
     served_rank = Some r, shadow_rank = None, rendered = True, source_dedup_group = None\<rparr>"

definition demo_episode :: retrieval_episode where
  "demo_episode = \<lparr>ep_id = ''e'', ep_tenant_id = ''t'', ep_project_id = None, ep_query_hash = replicate 64 0x61,
     ep_query_mode = lit ''generic'', requested_k = 2, fetched_k = 2, rendered_k = 2,
     ep_policy_version = lit ''outcome-v1'', ep_policy_mode = PolicyOff, ep_task_id = None, ep_thread_id = None,
     ep_created_at_ms = 1, ep_expires_at_ms = 100\<rparr>"

lemma demo_valid:
  "validate_retrieval_episode (\<lambda>s. s = lit ''{}'') demo_episode [demo_item ''a'' 0, demo_item ''b'' 1] = Inr ()"
  by code_simp

theorem rendered_order_exact_witness:
  "fst (apply_rendered_order (\<lambda>s. s = lit ''{}'') demo_episode [demo_item ''a'' 0, demo_item ''b'' 1] [''b'']) = Inr ()
   \<and> fst (apply_rendered_order (\<lambda>s. s = lit ''{}'') demo_episode [demo_item ''a'' 0, demo_item ''b'' 1] [''c'']) \<noteq> Inr ()"
  using rendered_order_exact [OF demo_valid, of "[''b'']"] rendered_order_exact [OF demo_valid, of "[''c'']"]
  by (simp add: demo_item_def demo_episode_def)

text \<open>
  For finite, representable, non-negative weights the score adjustment of a prior is a finite
  number within the cap in both directions. It is not negative when the positive weight is at least
  the negative one, not positive in the opposite case, and zero when they are equal.
\<close>

lemma adjustment_bounded:
  assumes "f32_round rnd" and "positive_weight pr = Fin p" and "negative_weight pr = Fin n"
    and "rnd p = Fin p" and "rnd n = Fin n" and "0 \<le> p" and "0 \<le> n"
  shows "\<exists>a c. bounded_adjustment rnd pr = Fin a \<and> max_outcome_adjustment rnd = Fin c
           \<and> - c \<le> a \<and> a \<le> c \<and> c \<le> 1 \<and> (n \<le> p \<longrightarrow> 0 \<le> a) \<and> (p \<le> n \<longrightarrow> a \<le> 0)"
proof -
  note R = f32_round.weight_difference [OF assms(1,4-7)] f32_round.shrunk_sign [OF assms(1)]
    f32_round.scaled_sign [OF assms(1)] f32_round.evidence_ge_1 [OF assms(1,6,7)]
  obtain c where c: "max_outcome_adjustment rnd = Fin c" "0 \<le> c" "c \<le> 1"
    using f32_round.adjustment_cap [OF assms(1)] by blast
  obtain d where d: "f_sub rnd (Fin p) (Fin n) = Fin d" "rnd d = Fin d" "n \<le> p \<Longrightarrow> 0 \<le> d" "p \<le> n \<Longrightarrow> d \<le> 0"
    by (rule R(1)) blast
  obtain q where q: "f_div rnd (Fin d) (f_add rnd (f_add rnd (Fin p) (Fin n)) (Fin 4)) = Fin q"
    "0 \<le> d \<Longrightarrow> 0 \<le> q" "d \<le> 0 \<Longrightarrow> q \<le> 0"
    by (rule R(2) [OF R(6) d(2)]) blast
  obtain a where a: "f_clamp (f_mul rnd (Fin q) (Fin c)) (Fin (- c)) (Fin c) = Fin a" "- c \<le> a" "a \<le> c"
    "f_le (Fin 0) (f_mul rnd (Fin q) (Fin c)) \<Longrightarrow> 0 \<le> a" "f_le (f_mul rnd (Fin q) (Fin c)) (Fin 0) \<Longrightarrow> a \<le> 0"
    by (rule f_clamp_sign [OF R(3) [OF c(2)] c(2)]) blast
  have "bounded_adjustment rnd pr = Fin 0 \<or> bounded_adjustment rnd pr = Fin a"
    using assms(2,3) c(1) d(1) q(1) a(1) by (simp add: bounded_adjustment_def Let_def)
  then show ?thesis
  proof
    assume "bounded_adjustment rnd pr = Fin a"
    moreover have "0 \<le> a" if "n \<le> p" using that d(3) q(2) R(4) [OF c(2)] a(4) by blast
    moreover have "a \<le> 0" if "p \<le> n" using that d(4) q(3) R(5) [OF c(2)] a(5) by blast
    ultimately show ?thesis using c a(2,3) by blast
  qed (use c in auto)
qed

lemma adjustment_bounded_witness:
  "\<exists>a c. bounded_adjustment Fin ((prior_new ''a'')\<lparr>positive_weight := Fin 1\<rparr>) = Fin a
     \<and> max_outcome_adjustment Fin = Fin c \<and> - c \<le> a \<and> a \<le> c \<and> c \<le> 1 \<and> (0 \<le> (1 :: real) \<longrightarrow> 0 \<le> a)
     \<and> (1 \<le> (0 :: real) \<longrightarrow> a \<le> 0)"
  by (rule adjustment_bounded [OF exact32.f32_round_axioms]) (simp_all add: prior_new_def)

end
