(* ===== verification/Memory_Store.thy ===== *)
theory Memory_Store
  imports Outcome Chunking "HOL-Library.AList"
begin

text \<open>
  The in-memory store (\<open>store/memory.rs\<close>): chunks per tenant, the feedback log, retrieval
  episodes and outcome events, and the aggregation of outcomes into priors. Hash maps are
  association lists; where the code iterates over one, the iteration order is the argument
  \<open>order\<close>. New chunk ids come from the caller, \<open>sha\<close> is the content hash, \<open>lower\<close> the Unicode
  lower-casing of a string. The task-artifact tables are not part of the model.
\<close>

datatype relevance_label = Relevant | Irrelevant

record feedback_entry =
  fe_tenant_id :: string
  fe_project_id :: "string option"
  fe_query_hash :: str
  fe_chunk_id :: string
  fe_relevance :: relevance_label
  fe_timestamp_ms :: i64

definition normalize_query :: "(str \<Rightarrow> str) \<Rightarrow> str \<Rightarrow> str" where
  "normalize_query lower query = lower (join [0x20] (split_whitespace query))"

definition feedback_new_scoped ::
  "(str \<Rightarrow> str) \<Rightarrow> (str \<Rightarrow> str) \<Rightarrow> string \<Rightarrow> string option \<Rightarrow> str \<Rightarrow> string \<Rightarrow> relevance_label \<Rightarrow> i64 \<Rightarrow> feedback_entry" where
  "feedback_new_scoped lower sha tenant project query cid label t =
     \<lparr>fe_tenant_id = tenant, fe_project_id = project,
      fe_query_hash = stable_query_hash sha (normalize_query lower query),
      fe_chunk_id = cid, fe_relevance = label, fe_timestamp_ms = t\<rparr>"

type_synonym episode_table = "(string \<times> retrieval_episode \<times> episode_item list) list"

record memory_store =
  ms_chunks :: "(string \<times> (string \<times> memory_chunk) list) list"
  ms_feedback :: "(string \<times> feedback_entry list) list"
  ms_episodes :: episode_table
  ms_outcomes :: "(string \<times> outcome_event list) list"

definition memory_new :: memory_store where
  "memory_new = \<lparr>ms_chunks = [], ms_feedback = [], ms_episodes = [], ms_outcomes = []\<rparr>"

definition or_default :: "'a list option \<Rightarrow> 'a list" where
  "or_default x = (case x of None \<Rightarrow> [] | Some xs \<Rightarrow> xs)"

section \<open>Chunks\<close>

definition add_single_chunk :: "(str \<Rightarrow> string) \<Rightarrow> string \<Rightarrow> memory_chunk \<Rightarrow> memory_store \<Rightarrow> memory_store" where
  "add_single_chunk sha new_id chunk st =
     (let chunk' = chunk\<lparr>mc_chunk_id := new_id, mc_hash := sha (mc_text chunk)\<rparr>;
          tenant = mc_tenant_id chunk'
      in st\<lparr>ms_chunks := AList.update tenant
              (AList.update new_id chunk' (or_default (map_of (ms_chunks st) tenant))) (ms_chunks st)\<rparr>)"

fun add_each :: "(str \<Rightarrow> string) \<Rightarrow> (string \<times> memory_chunk) list \<Rightarrow> memory_store \<Rightarrow> memory_store" where
  "add_each sha [] st = st"
| "add_each sha ((i, c) # cs) st = add_each sha cs (add_single_chunk sha i c st)"

text \<open>\<open>ids\<close> are the fresh ids, one per piece; the answer is the first id and all ids.\<close>

definition add_with_stored_ids ::
  "(str \<Rightarrow> str list) \<Rightarrow> (str \<Rightarrow> string) \<Rightarrow> (nat \<Rightarrow> string) \<Rightarrow> memory_chunk \<Rightarrow> memory_store
     \<Rightarrow> ((memd_error + string \<times> string list) \<times> memory_store) option" where
  "add_with_stored_ids seg sha fresh chunk st =
     map_option (\<lambda>cs.
       let ids = map fresh [0..<length cs];
           st' = add_each sha (zip ids cs) st
       in case ids of [] \<Rightarrow> (Inl (StorageError ''no chunk id produced''), st') | i # _ \<Rightarrow> (Inr (i, ids), st'))
       (split_for_add seg chunk)"

definition is_hidden :: "chunk_status \<Rightarrow> bool" where
  "is_hidden s \<longleftrightarrow> s = Candidate \<or> s = Deleted \<or> s = ErrorStatus"

definition memory_get :: "string \<Rightarrow> string \<Rightarrow> memory_store \<Rightarrow> memory_chunk option" where
  "memory_get tenant cid st =
     (case map_of (ms_chunks st) tenant of
        None \<Rightarrow> None
      | Some cs \<Rightarrow>
         (case map_of cs cid of
            None \<Rightarrow> None
          | Some c \<Rightarrow> if is_hidden (mc_status c) then None else Some c))"

definition memory_delete :: "string \<Rightarrow> string \<Rightarrow> memory_store \<Rightarrow> bool \<times> memory_store" where
  "memory_delete tenant cid st =
     (case map_of (ms_chunks st) tenant of
        None \<Rightarrow> (False, st)
      | Some cs \<Rightarrow>
         (case map_of cs cid of
            None \<Rightarrow> (False, st)
          | Some c \<Rightarrow>
              if mc_status c = Deleted then (False, st)
              else (True, st\<lparr>ms_chunks := AList.update tenant
                               (AList.update cid (c\<lparr>mc_status := Deleted\<rparr>) cs) (ms_chunks st)\<rparr>)))"

definition memory_search ::
  "((string \<times> memory_chunk) list \<Rightarrow> (string \<times> memory_chunk) list) \<Rightarrow> (str \<Rightarrow> str) \<Rightarrow> string \<Rightarrow> str \<Rightarrow> nat
     \<Rightarrow> memory_store \<Rightarrow> memory_chunk list" where
  "memory_search order lower tenant query k st =
     (case map_of (ms_chunks st) tenant of
        None \<Rightarrow> []
      | Some cs \<Rightarrow>
          take k (filter (\<lambda>c. query = [] \<or> contains (lower (mc_text c)) (lower query))
                    (filter (\<lambda>c. \<not> is_hidden (mc_status c)) (map snd (order cs)))))"

definition memory_list_chunks ::
  "((string \<times> memory_chunk) list \<Rightarrow> (string \<times> memory_chunk) list) \<Rightarrow> string \<Rightarrow> nat \<Rightarrow> nat
     \<Rightarrow> memory_store \<Rightarrow> memory_chunk list" where
  "memory_list_chunks order tenant limit offset st =
     (if limit = 0 then []
      else let cs = (case map_of (ms_chunks st) tenant of
                       None \<Rightarrow> [] | Some cs \<Rightarrow> filter (\<lambda>c. \<not> is_hidden (mc_status c)) (map snd (order cs)));
               sorted = sort_by (\<lambda>a b. int_cmp (sint (mc_timestamp_created b)) (sint (mc_timestamp_created a))) cs
           in if offset \<ge> length sorted then [] else take limit (drop offset sorted))"

section \<open>Feedback\<close>

definition add_feedback :: "feedback_entry \<Rightarrow> memory_store \<Rightarrow> memory_store" where
  "add_feedback f st =
     st\<lparr>ms_feedback := AList.update (fe_tenant_id f)
          (or_default (map_of (ms_feedback st) (fe_tenant_id f)) @ [f]) (ms_feedback st)\<rparr>"

definition list_feedback ::
  "(str \<Rightarrow> str) \<Rightarrow> (str \<Rightarrow> str) \<Rightarrow> string \<Rightarrow> str \<Rightarrow> nat \<Rightarrow> memory_store \<Rightarrow> feedback_entry list" where
  "list_feedback lower sha tenant query limit st =
     (let h = stable_query_hash sha (normalize_query lower query);
          matching = filter (\<lambda>f. fe_query_hash f = h) (or_default (map_of (ms_feedback st) tenant))
      in take limit (sort_by (\<lambda>a b. int_cmp (sint (fe_timestamp_ms b)) (sint (fe_timestamp_ms a))) matching))"

section \<open>Episodes and outcomes\<close>

fun check_origins :: "(string \<times> (string \<times> memory_chunk) list) list \<Rightarrow> episode_item list \<Rightarrow> memd_error + unit" where
  "check_origins chunks [] = Inr ()"
| "check_origins chunks (i # is) =
     (case map_of chunks (it_origin_tenant_id i) of
        None \<Rightarrow> Inl (ValidationError ''retrieval episode item origin tenant has no chunks'')
      | Some cs \<Rightarrow>
         (case map_of cs (it_chunk_id i) of
            None \<Rightarrow> Inl (ValidationError ''retrieval episode chunk does not belong to its origin tenant'')
          | Some c \<Rightarrow>
              if mc_project_id c \<noteq> it_origin_project_id i
              then Inl (ValidationError ''retrieval episode chunk origin project does not match'')
              else check_origins chunks is))"

definition record_retrieval_episode ::
  "(str \<Rightarrow> bool) \<Rightarrow> retrieval_episode \<Rightarrow> episode_item list \<Rightarrow> memory_store \<Rightarrow> (memd_error + unit) \<times> memory_store" where
  "record_retrieval_episode json ep items st =
     (case validate_retrieval_episode json ep items of
        Inl e \<Rightarrow> (Inl e, st)
      | Inr _ \<Rightarrow>
         (case check_origins (ms_chunks st) items of
            Inl e \<Rightarrow> (Inl e, st)
          | Inr _ \<Rightarrow>
              if map_of (ms_episodes st) (ep_id ep) \<noteq> None
              then (Inl (ValidationError ''retrieval episode already exists''), st)
              else (Inr (), st\<lparr>ms_episodes := AList.update (ep_id ep) (ep, items) (ms_episodes st)\<rparr>)))"

definition get_retrieval_episode ::
  "string \<Rightarrow> string \<Rightarrow> memory_store \<Rightarrow> (retrieval_episode \<times> episode_item list) option" where
  "get_retrieval_episode tenant eid st =
     (case map_of (ms_episodes st) eid of
        None \<Rightarrow> None
      | Some (ep, items) \<Rightarrow> if ep_tenant_id ep = tenant then Some (ep, items) else None)"

definition finalize_retrieval_episode ::
  "(str \<Rightarrow> bool) \<Rightarrow> string \<Rightarrow> string \<Rightarrow> string list \<Rightarrow> memory_store \<Rightarrow> (memd_error + unit) \<times> memory_store" where
  "finalize_retrieval_episode json tenant eid ids st =
     (case get_retrieval_episode tenant eid st of
        None \<Rightarrow> (Inl (ValidationError ''unknown retrieval episode for tenant''), st)
      | Some (ep, items) \<Rightarrow>
         (let (r, ep', items') = apply_rendered_order json ep items ids
          in (r, st\<lparr>ms_episodes := AList.update eid (ep', items') (ms_episodes st)\<rparr>)))"

text \<open>The entry of the event table is created before the test for a repeated event id.\<close>

definition record_outcome ::
  "string \<Rightarrow> outcome_event \<Rightarrow> memory_store \<Rightarrow> (memd_error + unit) \<times> memory_store" where
  "record_outcome tenant e st =
     (case get_retrieval_episode tenant (oe_episode_id e) st of
        None \<Rightarrow> (Inl (ValidationError ''unknown retrieval episode for tenant''), st)
      | Some (ep, items) \<Rightarrow>
         (case validate_outcome_event tenant ep items e of
            Inl err \<Rightarrow> (Inl err, st)
          | Inr _ \<Rightarrow>
             (let events = or_default (map_of (ms_outcomes st) (oe_episode_id e))
              in if list_ex (\<lambda>x. oe_id x = oe_id e) events
                 then (Inl (ValidationError ''outcome event already exists''),
                       st\<lparr>ms_outcomes := AList.update (oe_episode_id e) events (ms_outcomes st)\<rparr>)
                 else (Inr (), st\<lparr>ms_outcomes := AList.update (oe_episode_id e) (events @ [e]) (ms_outcomes st)\<rparr>))))"

definition list_outcomes_for_episode :: "string \<Rightarrow> string \<Rightarrow> memory_store \<Rightarrow> outcome_event list" where
  "list_outcomes_for_episode tenant eid st =
     (case get_retrieval_episode tenant eid st of
        None \<Rightarrow> [] | Some _ \<Rightarrow> or_default (map_of (ms_outcomes st) eid))"

section \<open>Priors\<close>

type_synonym prior_table = "(string \<times> outcome_prior) list"
type_synonym prior_state = "prior_table \<times> (string \<times> string) set"

record prior_env =
  pv_rnd :: rounding
  pv_pow2 :: "real \<Rightarrow> f32"
  pv_now :: i64

text \<open>The direction of an event and the chunks it credits.\<close>

definition attribution :: "outcome_event \<Rightarrow> (bool \<times> string list) option" where
  "attribution e =
     (if credits_used (oe_outcome e) then Some (True, used_chunk_ids e)
      else if credits_harmful (oe_outcome e) then Some (False, harmful_chunk_ids e)
      else None)"

fun credit_chunks ::
  "prior_env \<Rightarrow> string \<Rightarrow> string set \<Rightarrow> bool \<Rightarrow> i64 \<Rightarrow> string list \<Rightarrow> prior_state \<Rightarrow> prior_state" where
  "credit_chunks V key eligible positive t [] s = s"
| "credit_chunks V key eligible positive t (c # cs) (priors, seen) =
     credit_chunks V key eligible positive t cs
       (if c \<notin> eligible \<or> (key, c) \<in> seen then (priors, seen)
        else (AList.update c
                (prior_add (pv_rnd V) positive (decayed_outcome_weight (pv_pow2 V) t (pv_now V)) t
                   (case map_of priors c of None \<Rightarrow> prior_new c | Some p \<Rightarrow> p)) priors,
              insert (key, c) seen))"

fun credit_events ::
  "prior_env \<Rightarrow> string \<Rightarrow> string set \<Rightarrow> outcome_event list \<Rightarrow> prior_state \<Rightarrow> prior_state" where
  "credit_events V key eligible [] s = s"
| "credit_events V key eligible (e # es) s =
     credit_events V key eligible es
       (if contributes_to_ranking e \<and> sint (oe_timestamp_ms e) \<le> sint (pv_now V)
        then case attribution e of
            None \<Rightarrow> s
          | Some (positive, cs) \<Rightarrow> credit_chunks V key eligible positive (oe_timestamp_ms e) cs s
        else s)"

definition newest_first :: "outcome_event list \<Rightarrow> outcome_event list" where
  "newest_first = sort_by (\<lambda>a b. int_cmp (sint (oe_timestamp_ms b)) (sint (oe_timestamp_ms a)))"

fun credit_episodes ::
  "prior_env \<Rightarrow> string \<Rightarrow> string option \<Rightarrow> string set \<Rightarrow> (string \<times> outcome_event list) list \<Rightarrow> episode_table
     \<Rightarrow> prior_state \<Rightarrow> prior_state" where
  "credit_episodes V tenant project requested outcomes [] s = s"
| "credit_episodes V tenant project requested outcomes ((key, ep, items) # es) s =
     credit_episodes V tenant project requested outcomes es
       (if ep_tenant_id ep \<noteq> tenant \<or> ep_project_id ep \<noteq> project then s
        else let eligible = it_chunk_id ` set items \<inter> requested
             in if eligible = {} then s
                else credit_events V key eligible (newest_first (or_default (map_of outcomes key))) s)"

definition outcome_priors ::
  "prior_env \<Rightarrow> (episode_table \<Rightarrow> episode_table) \<Rightarrow> string \<Rightarrow> string option \<Rightarrow> string list \<Rightarrow> memory_store
     \<Rightarrow> outcome_prior list" where
  "outcome_priors V order tenant project chunk_ids st =
     (if chunk_ids = [] then []
      else sort_by (\<lambda>a b. str_cmp (op_chunk_id a) (op_chunk_id b))
             (map snd (fst (credit_episodes V tenant project (set chunk_ids) (ms_outcomes st) (order (ms_episodes st)) ([], {})))))"

section \<open>Histories\<close>

declare map_of_eq_Some_iff [simp del]

text \<open>The stores that any sequence of the operations can reach from an empty one.\<close>

inductive reachable :: "(str \<Rightarrow> bool) \<Rightarrow> memory_store \<Rightarrow> bool" for json where
  start: "reachable json memory_new"
| chunk_added: "reachable json st \<Longrightarrow> reachable json (add_single_chunk sha i c st)"
| chunk_deleted: "reachable json st \<Longrightarrow> memory_delete tenant cid st = (b, st') \<Longrightarrow> reachable json st'"
| feedback_added: "reachable json st \<Longrightarrow> reachable json (add_feedback f st)"
| episode_recorded: "reachable json st \<Longrightarrow> record_retrieval_episode json ep items st = (r, st') \<Longrightarrow> reachable json st'"
| episode_finalized: "reachable json st \<Longrightarrow> finalize_retrieval_episode json tenant eid ids st = (r, st') \<Longrightarrow> reachable json st'"
| outcome_recorded: "reachable json st \<Longrightarrow> record_outcome tenant e st = (r, st') \<Longrightarrow> reachable json st'"

text \<open>An event that fits the candidates of its episode.\<close>

definition event_ok :: "retrieval_episode \<Rightarrow> episode_item list \<Rightarrow> outcome_event \<Rightarrow> bool" where
  "event_ok ep items e \<longleftrightarrow>
     oe_episode_id e = ep_id ep
     \<and> set (used_chunk_ids e @ harmful_chunk_ids e) \<subseteq> it_chunk_id ` set items
     \<and> distinct (used_chunk_ids e @ harmful_chunk_ids e)
     \<and> sint (ep_created_at_ms ep) \<le> sint (oe_timestamp_ms e) \<and> sint (oe_timestamp_ms e) \<le> sint (ep_expires_at_ms ep)
     \<and> ranking_eligible e = expected_ranking_eligibility (oe_outcome e) (oe_verifier e)
         (used_chunk_ids e \<noteq> []) (harmful_chunk_ids e \<noteq> []) (evidence_reference e)"

definition store_ok :: "(str \<Rightarrow> bool) \<Rightarrow> memory_store \<Rightarrow> bool" where
  "store_ok json st \<longleftrightarrow>
     distinct (map fst (ms_episodes st))
     \<and> (\<forall>k ep items. map_of (ms_episodes st) k = Some (ep, items) \<longrightarrow>
          ep_id ep = k \<and> validate_retrieval_episode json ep items = Inr ())
     \<and> (\<forall>k es. map_of (ms_outcomes st) k = Some es \<longrightarrow>
          distinct (map oe_id es)
          \<and> (\<exists>ep items. map_of (ms_episodes st) k = Some (ep, items) \<and> (\<forall>e \<in> set es. event_ok ep items e)))"

lemma validated_event_ok: "validate_outcome_event tenant ep items e = Inr () \<Longrightarrow> event_ok ep items e"
  by (auto simp: validate_outcome_event_def event_ok_def Let_def card_distinct split: if_splits option.splits)

lemma store_ok_same_tables:
  "ms_episodes st' = ms_episodes st \<Longrightarrow> ms_outcomes st' = ms_outcomes st \<Longrightarrow> store_ok json st \<Longrightarrow> store_ok json st'"
  by (simp add: store_ok_def)

lemma store_ok_events:
  assumes "store_ok json st" and "map_of (ms_episodes st) k = Some (ep, items)" and "map_of (ms_outcomes st) k = Some es"
  shows "distinct (map oe_id es)" and "\<forall>e \<in> set es. event_ok ep items e"
proof -
  obtain ep' items' where "map_of (ms_episodes st) k = Some (ep', items')" "distinct (map oe_id es)"
      "\<forall>e \<in> set es. event_ok ep' items' e"
    using assms(1,3) unfolding store_ok_def by blast
  with assms(2) show "distinct (map oe_id es)" and "\<forall>e \<in> set es. event_ok ep items e" by simp_all
qed

lemma store_ok_record:
  assumes "store_ok json st" and "record_retrieval_episode json ep items st = (r, st')"
  shows "store_ok json st'"
proof (cases "st' = st")
  case False
  then have v: "validate_retrieval_episode json ep items = Inr ()" "map_of (ms_episodes st) (ep_id ep) = None"
    "st' = st\<lparr>ms_episodes := AList.update (ep_id ep) (ep, items) (ms_episodes st)\<rparr>"
    using assms(2) by (cases "map_of (ms_episodes st) (ep_id ep)"; auto simp: record_retrieval_episode_def split: sum.splits)+
  have other: "k \<noteq> ep_id ep" if "map_of (ms_outcomes st) k = Some es" for k es
    using that assms(1) v(2) unfolding store_ok_def by fastforce
  show ?thesis
    using assms(1) v other unfolding store_ok_def by (auto simp: update_conv' distinct_update)
qed (use assms in simp)

lemma finalize_unfold:
  assumes "store_ok json st" and "finalize_retrieval_episode json tenant eid ids st = (r, st')"
  obtains "st' = st" and "r \<noteq> Inr ()"
  | ep items where "map_of (ms_episodes st) eid = Some (ep, items)" and "r \<noteq> Inr ()"
      and "st' = st\<lparr>ms_episodes := AList.update eid (ep, items) (ms_episodes st)\<rparr>"
  | ep items where "map_of (ms_episodes st) eid = Some (ep, items)" and "r = Inr ()"
      and "st' = st\<lparr>ms_episodes := AList.update eid (ep\<lparr>rendered_k := length ids\<rparr>, served_items ids items) (ms_episodes st)\<rparr>"
      and "validate_retrieval_episode json (ep\<lparr>rendered_k := length ids\<rparr>) (served_items ids items) = Inr ()"
proof (cases "get_retrieval_episode tenant eid st")
  case None
  with assms(2) that(1) show ?thesis by (auto simp: finalize_retrieval_episode_def)
next
  case (Some p)
  then obtain ep items where e: "get_retrieval_episode tenant eid st = Some (ep, items)" "map_of (ms_episodes st) eid = Some (ep, items)"
    by (auto simp: get_retrieval_episode_def split: option.splits if_splits)
  then have v: "validate_retrieval_episode json ep items = Inr ()" using assms(1) by (simp add: store_ok_def)
  show ?thesis
  proof (cases "length ids \<le> requested_k ep \<and> distinct ids \<and> set ids \<subseteq> it_chunk_id ` set items")
    case True
    with apply_rendered_order_ok [OF v] e assms(2) that(3) show ?thesis
      by (auto simp: finalize_retrieval_episode_def)
  next
    case False
    then obtain err where "apply_rendered_order json ep items ids = (Inl err, ep, items)"
      using apply_rendered_order_refused by blast
    with e assms(2) that(2) show ?thesis by (auto simp: finalize_retrieval_episode_def)
  qed
qed

lemma finalize_failed:
  assumes "store_ok json st" and "finalize_retrieval_episode json tenant eid ids st = (r, st')" and "r \<noteq> Inr ()"
  shows "map_of (ms_episodes st') = map_of (ms_episodes st)"
  using assms(1,2)
proof (cases rule: finalize_unfold)
  case (2 ep items)
  then show ?thesis by (auto simp: update_conv')
qed (use assms(3) in simp_all)

lemma event_ok_served: "event_ok ep items e \<Longrightarrow> event_ok (ep\<lparr>rendered_k := n\<rparr>) (served_items ids items) e"
  by (auto simp: event_ok_def served_items_def image_image)

lemma store_ok_finalize:
  assumes "store_ok json st" and "finalize_retrieval_episode json tenant eid ids st = (r, st')"
  shows "store_ok json st'"
  using assms
proof (cases rule: finalize_unfold)
  case (3 ep items)
  note served = event_ok_served [OF store_ok_events(2) [OF assms(1) 3(1), rule_format]]
  from 3 assms(1) served show ?thesis unfolding store_ok_def by (auto simp: update_conv' distinct_update)
next
  case (2 ep items)
  then have "map_of (ms_episodes st') = map_of (ms_episodes st)" by (auto simp: update_conv')
  with 2 assms(1) show ?thesis unfolding store_ok_def by (simp add: distinct_update)
qed (use assms in simp)

lemma store_ok_outcome:
  assumes "store_ok json st" and "record_outcome tenant e st = (r, st')"
  shows "store_ok json st'"
proof (cases "st' = st")
  case False
  then obtain ep items where g: "map_of (ms_episodes st) (oe_episode_id e) = Some (ep, items)"
      "validate_outcome_event tenant ep items e = Inr ()"
    using assms(2) by (auto simp: record_outcome_def get_retrieval_episode_def Let_def split: option.splits sum.splits if_splits prod.splits)
  let ?es = "or_default (map_of (ms_outcomes st) (oe_episode_id e))"
  have st': "st' = st\<lparr>ms_outcomes := AList.update (oe_episode_id e) ?es (ms_outcomes st)\<rparr>
      \<or> st' = st\<lparr>ms_outcomes := AList.update (oe_episode_id e) (?es @ [e]) (ms_outcomes st)\<rparr> \<and> oe_id e \<notin> oe_id ` set ?es"
    using assms(2) False by (auto simp: record_outcome_def Let_def list_ex_iff split: option.splits sum.splits if_splits prod.splits)
  have es: "distinct (map oe_id ?es)" "\<forall>x \<in> set ?es. event_ok ep items x"
    using store_ok_events [OF assms(1) g(1)] unfolding or_default_def
    by (cases "map_of (ms_outcomes st) (oe_episode_id e)"; simp)+
  with st' g(1) validated_event_ok [OF g(2)] assms(1) show ?thesis
    unfolding store_ok_def by (elim disjE conjE) (auto simp: update_conv')
qed (use assms in simp)

lemma reachable_ok: "reachable json st \<Longrightarrow> store_ok json st"
proof (induction rule: reachable.induct)
  case start
  show ?case by (simp add: store_ok_def memory_new_def)
next
  case (chunk_added st sha i c)
  then show ?case by (auto intro: store_ok_same_tables [of _ st] simp: add_single_chunk_def Let_def)
next
  case (chunk_deleted st tenant cid b st')
  then have "ms_episodes st' = ms_episodes st" "ms_outcomes st' = ms_outcomes st"
    by (auto simp: memory_delete_def split: option.splits if_splits)
  with chunk_deleted.IH show ?case by (intro store_ok_same_tables [of st' st])
next
  case (feedback_added st f)
  then show ?case by (auto intro: store_ok_same_tables [of _ st] simp: add_feedback_def)
qed (auto intro: store_ok_record store_ok_finalize store_ok_outcome)

section \<open>Counting episodes\<close>

text \<open>A table of priors whose counters are the saturated values of \<open>f\<close>.\<close>

definition tally :: "prior_table \<Rightarrow> (string \<Rightarrow> nat) \<Rightarrow> bool" where
  "tally priors f \<longleftrightarrow>
     distinct (map fst priors) \<and> (\<forall>c. map_of priors c = None \<longleftrightarrow> f c = 0)
     \<and> (\<forall>c p. map_of priors c = Some p \<longrightarrow> op_chunk_id p = c \<and> eligible_episode_count p = min (f c) (2 ^ 64 - 1))"

lemma prior_add_fields [simp]:
  "op_chunk_id (prior_add rnd b w t p) = op_chunk_id p"
  "eligible_episode_count (prior_add rnd b w t p) = min (eligible_episode_count p + 1) (2 ^ 64 - 1)"
  by (simp_all add: prior_add_def Let_def)

lemma tally_credit:
  assumes "tally priors f"
  shows "tally (AList.update c (prior_add rnd b w t (case map_of priors c of None \<Rightarrow> prior_new c | Some p \<Rightarrow> p)) priors)
           (f(c := f c + 1))"
proof -
  have "op_chunk_id (case map_of priors c of None \<Rightarrow> prior_new c | Some p \<Rightarrow> p) = c"
    "eligible_episode_count (case map_of priors c of None \<Rightarrow> prior_new c | Some p \<Rightarrow> p) = min (f c) (2 ^ 64 - 1)"
    using assms by (auto simp: tally_def prior_new_def split: option.splits)
  then show ?thesis using assms by (auto simp: tally_def update_conv' distinct_update)
qed

definition newly :: "string \<Rightarrow> (string \<times> string) set \<Rightarrow> string set \<Rightarrow> (string \<Rightarrow> nat) \<Rightarrow> string \<Rightarrow> nat" where
  "newly key seen C f c = f c + (if c \<in> C \<and> (key, c) \<notin> seen then 1 else 0)"

lemma newly_simps:
  "newly key seen {} f = f"
  "newly key (seen \<union> {key} \<times> A) B (newly key seen A f) = newly key seen (A \<union> B) f"
  by (auto simp: newly_def fun_eq_iff)

lemma credit_chunks_tally:
  assumes "tally priors f"
  shows "tally (fst (credit_chunks V key el b t cs (priors, seen))) (newly key seen (set cs \<inter> el) f)
         \<and> snd (credit_chunks V key el b t cs (priors, seen)) = seen \<union> {key} \<times> (set cs \<inter> el)"
  using assms
proof (induction cs arbitrary: priors seen f)
  case (Cons c cs)
  show ?case
  proof (cases "c \<notin> el \<or> (key, c) \<in> seen")
    case True
    have "newly key seen (set (c # cs) \<inter> el) f = newly key seen (set cs \<inter> el) f"
      "seen \<union> {key} \<times> (set (c # cs) \<inter> el) = seen \<union> {key} \<times> (set cs \<inter> el)"
      using True by (auto simp: newly_def fun_eq_iff)
    with Cons.IH [OF Cons.prems, of seen] True show ?thesis by simp
  next
    case False
    have "newly key (insert (key, c) seen) (set cs \<inter> el) (f(c := f c + 1)) = newly key seen (set (c # cs) \<inter> el) f"
      "insert (key, c) seen \<union> {key} \<times> (set cs \<inter> el) = seen \<union> {key} \<times> (set (c # cs) \<inter> el)"
      using False by (auto simp: newly_def fun_eq_iff)
    moreover have "tally (AList.update c (prior_add (pv_rnd V) b (decayed_outcome_weight (pv_pow2 V) t (pv_now V)) t
        (case map_of priors c of None \<Rightarrow> prior_new c | Some p \<Rightarrow> p)) priors) (f(c := f c + 1))"
      by (rule tally_credit [OF Cons.prems])
    note Cons.IH [OF this, of "insert (key, c) seen"]
    ultimately show ?thesis using False by (simp del: fun_upd_apply)
  qed
qed (simp add: newly_simps)

text \<open>The chunks that the counted events of a list credit.\<close>

definition credited :: "i64 \<Rightarrow> outcome_event list \<Rightarrow> string set" where
  "credited now es =
     {c. \<exists>e \<in> set es. \<exists>b cs. contributes_to_ranking e \<and> sint (oe_timestamp_ms e) \<le> sint now
           \<and> attribution e = Some (b, cs) \<and> c \<in> set cs}"

lemma credited_Nil [simp]: "credited now [] = {}"
  by (simp add: credited_def)

lemma credited_Cons:
  "credited now (e # es) =
     (if contributes_to_ranking e \<and> sint (oe_timestamp_ms e) \<le> sint now
      then (case attribution e of None \<Rightarrow> {} | Some (b, cs) \<Rightarrow> set cs) else {}) \<union> credited now es"
  by (auto simp: credited_def split: option.splits)

lemma credited_newest_first [simp]: "credited now (newest_first es) = credited now es"
  by (simp add: credited_def newest_first_def)

lemma credit_events_tally:
  assumes "tally (fst s) f"
  shows "tally (fst (credit_events V key el es s)) (newly key (snd s) (credited (pv_now V) es \<inter> el) f)
         \<and> snd (credit_events V key el es s) = snd s \<union> {key} \<times> (credited (pv_now V) es \<inter> el)"
  using assms
proof (induction es arbitrary: s f)
  case (Cons e es)
  define s' where "s' = (if contributes_to_ranking e \<and> sint (oe_timestamp_ms e) \<le> sint (pv_now V)
        then case attribution e of None \<Rightarrow> s
          | Some (b, cs) \<Rightarrow> credit_chunks V key el b (oe_timestamp_ms e) cs s else s)"
  define A where "A = (if contributes_to_ranking e \<and> sint (oe_timestamp_ms e) \<le> sint (pv_now V)
        then (case attribution e of None \<Rightarrow> {} | Some (b, cs) \<Rightarrow> set cs) else {})"
  have t: "tally (fst s') (newly key (snd s) (A \<inter> el) f) \<and> snd s' = snd s \<union> {key} \<times> (A \<inter> el)"
    using Cons.prems credit_chunks_tally [of "fst s" f V key el _ _ _ "snd s"]
    by (auto simp: s'_def A_def newly_simps split: option.split)
  have e: "credit_events V key el (e # es) s = credit_events V key el es s'" by (simp add: s'_def)
  have c: "credited (pv_now V) (e # es) \<inter> el = (A \<inter> el) \<union> (credited (pv_now V) es \<inter> el)"
    unfolding A_def credited_Cons by blast
  from Cons.IH [of s' "newly key (snd s) (A \<inter> el) f"] t show ?case
    unfolding e c by (auto simp: newly_simps)
qed (simp add: newly_simps)

text \<open>An episode of the scope that credits a chunk.\<close>

definition credits ::
  "i64 \<Rightarrow> string \<Rightarrow> string option \<Rightarrow> (string \<times> outcome_event list) list \<Rightarrow> string
     \<Rightarrow> string \<times> retrieval_episode \<times> episode_item list \<Rightarrow> bool" where
  "credits now tenant project outcomes c row =
     (case row of (k, ep, items) \<Rightarrow>
        ep_tenant_id ep = tenant \<and> ep_project_id ep = project \<and> c \<in> it_chunk_id ` set items
        \<and> c \<in> credited now (or_default (map_of outcomes k)))"

lemma credit_episodes_tally:
  assumes "tally (fst s) f" and "distinct (map fst es)" and "\<forall>k c. (k, c) \<in> snd s \<longrightarrow> k \<notin> fst ` set es"
  shows "tally (fst (credit_episodes V tenant project R outcomes es s))
           (\<lambda>c. f c + (if c \<in> R then length (filter (credits (pv_now V) tenant project outcomes c) es) else 0))"
  using assms
proof (induction es arbitrary: s f)
  case (Cons row es)
  obtain k ep items where row: "row = (k, ep, items)" by (cases row)
  define s' where "s' = (if ep_tenant_id ep \<noteq> tenant \<or> ep_project_id ep \<noteq> project then s
        else let eligible = it_chunk_id ` set items \<inter> R
             in if eligible = {} then s
                else credit_events V k eligible (newest_first (or_default (map_of outcomes k))) s)"
  define f' where "f' = (\<lambda>c. f c + (if c \<in> R \<and> credits (pv_now V) tenant project outcomes c row then 1 else 0))"
  have fresh: "(k, c) \<notin> snd s" for c using Cons.prems(3) row by auto
  have "tally (fst s') f' \<and> (\<forall>j c. (j, c) \<in> snd s' \<longrightarrow> (j, c) \<in> snd s \<or> j = k)"
  proof (cases "ep_tenant_id ep = tenant \<and> ep_project_id ep = project \<and> it_chunk_id ` set items \<inter> R \<noteq> {}")
    case True
    have "newly k (snd s) (credited (pv_now V) (or_default (map_of outcomes k)) \<inter> (it_chunk_id ` set items \<inter> R)) f = f'"
      using True fresh by (auto simp: newly_def f'_def credits_def row fun_eq_iff)
    with True credit_events_tally [OF Cons.prems(1), of V k "it_chunk_id ` set items \<inter> R"
        "newest_first (or_default (map_of outcomes k))"] show ?thesis by (auto simp: s'_def)
  next
    case False
    then have "f' = f" by (auto simp: f'_def credits_def row fun_eq_iff)
    with False Cons.prems(1) show ?thesis by (auto simp: s'_def)
  qed
  then have t: "tally (fst s') f'" and seen: "(j, c) \<in> snd s' \<Longrightarrow> (j, c) \<in> snd s \<or> j = k" for j c by blast+
  have "\<forall>j c. (j, c) \<in> snd s' \<longrightarrow> j \<notin> fst ` set es"
  proof (intro allI impI)
    fix j c
    assume "(j, c) \<in> snd s'"
    then consider "(j, c) \<in> snd s" | "j = k" using seen by blast
    then show "j \<notin> fst ` set es"
    proof cases
      case 1
      then have "j \<notin> fst ` set (row # es)" using Cons.prems(3) by blast
      then show ?thesis by simp
    qed (use Cons.prems(2) row in simp)
  qed
  with t have "tally (fst (credit_episodes V tenant project R outcomes es s'))
      (\<lambda>c. f' c + (if c \<in> R then length (filter (credits (pv_now V) tenant project outcomes c) es) else 0))"
    using Cons.prems(2) by (intro Cons.IH) simp_all
  moreover have "credit_episodes V tenant project R outcomes (row # es) s = credit_episodes V tenant project R outcomes es s'"
    by (simp add: row s'_def)
  moreover have "(\<lambda>c. f' c + (if c \<in> R then length (filter (credits (pv_now V) tenant project outcomes c) es) else 0))
      = (\<lambda>c. f c + (if c \<in> R then length (filter (credits (pv_now V) tenant project outcomes c) (row # es)) else 0))"
    by (auto simp: f'_def fun_eq_iff)
  ultimately show ?case by simp
qed (simp cong: if_cong)

text \<open>The number of episodes that credit a chunk does not depend on the iteration order.\<close>

definition crediting :: "i64 \<Rightarrow> string \<Rightarrow> string option \<Rightarrow> memory_store \<Rightarrow> string \<Rightarrow> string set" where
  "crediting now tenant project st c =
     {k. \<exists>ep items es e b cs. map_of (ms_episodes st) k = Some (ep, items)
           \<and> ep_tenant_id ep = tenant \<and> ep_project_id ep = project
           \<and> map_of (ms_outcomes st) k = Some es \<and> e \<in> set es \<and> contributes_to_ranking e
           \<and> sint (oe_timestamp_ms e) \<le> sint now \<and> attribution e = Some (b, cs) \<and> c \<in> set cs}"

lemma attribution_subset: "attribution e = Some (b, cs) \<Longrightarrow> set cs \<subseteq> set (used_chunk_ids e @ harmful_chunk_ids e)"
  by (auto simp: attribution_def split: if_splits)

lemma crediting_keys:
  assumes "store_ok json st"
  shows "fst ` set (filter (credits now tenant project (ms_outcomes st) c) (ms_episodes st)) = crediting now tenant project st c"
proof (rule set_eqI)
  fix k
  have d: "distinct (map fst (ms_episodes st))" using assms by (simp add: store_ok_def)
  have "k \<in> crediting now tenant project st c" if r: "(k, ep, items) \<in> set (ms_episodes st)"
      "credits now tenant project (ms_outcomes st) c (k, ep, items)" for ep items
  proof -
    have "map_of (ms_episodes st) k = Some (ep, items)" using r(1) d by simp
    with r(2) show ?thesis unfolding credits_def credited_def crediting_def or_default_def
      by (cases "map_of (ms_outcomes st) k") auto
  qed
  moreover have "\<exists>ep items. (k, ep, items) \<in> set (ms_episodes st) \<and> credits now tenant project (ms_outcomes st) c (k, ep, items)"
    if k: "k \<in> crediting now tenant project st c"
  proof -
    obtain ep items es e b cs where w: "map_of (ms_episodes st) k = Some (ep, items)" "ep_tenant_id ep = tenant"
      "ep_project_id ep = project" "map_of (ms_outcomes st) k = Some es" "e \<in> set es" "contributes_to_ranking e"
      "sint (oe_timestamp_ms e) \<le> sint now" "attribution e = Some (b, cs)" "c \<in> set cs"
      using k unfolding crediting_def by blast
    have "event_ok ep items e" using store_ok_events(2) [OF assms w(1,4)] w(5) by blast
    then have "c \<in> it_chunk_id ` set items" using attribution_subset [OF w(8)] w(9) by (auto simp: event_ok_def)
    with w have "credits now tenant project (ms_outcomes st) c (k, ep, items)"
      by (auto simp: credits_def credited_def or_default_def)
    with map_of_SomeD [OF w(1)] show ?thesis by blast
  qed
  ultimately show "k \<in> fst ` set (filter (credits now tenant project (ms_outcomes st) c) (ms_episodes st))
      \<longleftrightarrow> k \<in> crediting now tenant project st c" by force
qed

lemma crediting_count:
  assumes "store_ok json st" and "mset rows = mset (ms_episodes st)"
  shows "length (filter (credits now tenant project (ms_outcomes st) c) rows) = card (crediting now tenant project st c)"
proof -
  have d: "distinct (map fst (ms_episodes st))" using assms(1) by (simp add: store_ok_def)
  let ?P = "credits now tenant project (ms_outcomes st) c"
  have "length (filter ?P rows) = length (filter ?P (ms_episodes st))"
    using assms(2) by (metis mset_filter size_mset)
  also have "\<dots> = card (fst ` set (filter ?P (ms_episodes st)))"
    using distinct_map_filter [OF d, of ?P] by (metis distinct_card length_map set_map)
  also have "\<dots> = card (crediting now tenant project st c)" using crediting_keys [OF assms(1)] by simp
  finally show ?thesis .
qed

lemma str_cmp_strict:
  "sorted_by (\<lambda>a b. str_cmp (g a) (g b)) xs \<Longrightarrow> distinct (map g xs) \<Longrightarrow> sorted_wrt (\<lambda>a b. str_cmp (g a) (g b) = Less) xs"
proof (induction xs)
  case (Cons x xs)
  have "str_cmp (g x) (g y) = Less" if "y \<in> set xs" for y
  proof -
    have "str_cmp (g x) (g y) \<noteq> Greater" using Cons.prems(1) that by simp
    moreover have "str_cmp (g x) (g y) \<noteq> Equal" using Cons.prems(2) that by (auto simp: str_cmp_eq)
    ultimately show ?thesis by (cases "str_cmp (g x) (g y)") simp_all
  qed
  with Cons show ?case by simp
qed simp

lemma tally_ids: "tally priors f \<Longrightarrow> map op_chunk_id (map snd priors) = map fst priors"
  unfolding tally_def map_map by (intro map_cong) (auto simp: map_of_is_SomeI)

lemma tally_mem:
  assumes "tally priors f"
  shows "p \<in> set (map snd priors) \<longleftrightarrow> map_of priors (op_chunk_id p) = Some p"
proof
  assume "p \<in> set (map snd priors)"
  then obtain c where "(c, p) \<in> set priors" by auto
  then have "map_of priors c = Some p" using assms by (simp add: tally_def map_of_is_SomeI)
  with assms show "map_of priors (op_chunk_id p) = Some p" unfolding tally_def by blast
next
  assume "map_of priors (op_chunk_id p) = Some p"
  from map_of_SomeD [OF this] show "p \<in> set (map snd priors)" by force
qed

lemma tally_counts:
  assumes "tally priors f"
  shows "(\<exists>p \<in> set (map snd priors). op_chunk_id p = c \<and> eligible_episode_count p = k)
     \<longleftrightarrow> f c \<noteq> 0 \<and> k = min (f c) (2 ^ 64 - 1)"
proof (cases "map_of priors c")
  case None
  then have "f c = 0" using assms unfolding tally_def by blast
  with None show ?thesis unfolding Bex_def tally_mem [OF assms] by (metis option.distinct(1))
next
  case (Some p)
  then have "op_chunk_id p = c" "eligible_episode_count p = min (f c) (2 ^ 64 - 1)" "f c \<noteq> 0"
    using assms unfolding tally_def by (blast, blast, metis option.distinct(1))
  with Some show ?thesis unfolding Bex_def tally_mem [OF assms] by (metis option.inject)
qed

lemma sorted_priors:
  assumes t: "tally priors n"
    and out: "out = sort_by (\<lambda>a b. str_cmp (op_chunk_id a) (op_chunk_id b)) (map snd priors)"
  shows "sorted_wrt (\<lambda>a b. str_cmp (op_chunk_id a) (op_chunk_id b) = Less) out"
    and "(\<exists>p \<in> set out. op_chunk_id p = c \<and> eligible_episode_count p = k) \<longleftrightarrow> n c \<noteq> 0 \<and> k = min (n c) (2 ^ 64 - 1)"
proof -
  have "distinct (map op_chunk_id (map snd priors))" using tally_ids [OF t] t by (simp only: tally_def)
  then have "distinct (map op_chunk_id out)"
    unfolding out by (metis map_mset_sort_by mset_eq_imp_distinct_iff)
  moreover have "sorted_by (\<lambda>a b. str_cmp (op_chunk_id a) (op_chunk_id b)) out"
    unfolding out by (rule comparator.sorted_sort_by [OF comparator_str_key subset_UNIV])
  ultimately show "sorted_wrt (\<lambda>a b. str_cmp (op_chunk_id a) (op_chunk_id b) = Less) out"
    using str_cmp_strict by blast
  show "(\<exists>p \<in> set out. op_chunk_id p = c \<and> eligible_episode_count p = k) \<longleftrightarrow> n c \<noteq> 0 \<and> k = min (n c) (2 ^ 64 - 1)"
    unfolding out set_sort_by by (rule tally_counts [OF t])
qed

lemma priors_of_store_ok:
  assumes ok: "store_ok json st" and perm: "mset (order (ms_episodes st)) = mset (ms_episodes st)"
  shows "sorted_wrt (\<lambda>a b. str_cmp (op_chunk_id a) (op_chunk_id b) = Less) (outcome_priors V order tenant project ids st)"
    and "(\<exists>p \<in> set (outcome_priors V order tenant project ids st). op_chunk_id p = c \<and> eligible_episode_count p = k)
       \<longleftrightarrow> c \<in> set ids \<and> k \<noteq> 0 \<and> k = min (card (crediting (pv_now V) tenant project st c)) (2 ^ 64 - 1)"
proof -
  define priors where "priors = fst (credit_episodes V tenant project (set ids) (ms_outcomes st) (order (ms_episodes st)) ([], {}))"
  define n where "n = (\<lambda>c. if c \<in> set ids then card (crediting (pv_now V) tenant project st c) else 0)"
  have "distinct (map fst (order (ms_episodes st)))"
    using ok perm by (metis (no_types) mset_eq_imp_distinct_iff mset_map store_ok_def)
  then have t: "tally priors n"
    using credit_episodes_tally [of "([], {})" "\<lambda>_. 0" "order (ms_episodes st)" V tenant project "set ids" "ms_outcomes st"]
      crediting_count [OF ok perm] by (simp add: tally_def priors_def n_def)
  have out: "outcome_priors V order tenant project ids st = sort_by (\<lambda>a b. str_cmp (op_chunk_id a) (op_chunk_id b)) (map snd priors)"
    if "ids \<noteq> []" using that by (simp add: outcome_priors_def priors_def)
  have none: "outcome_priors V order tenant project ids st = []" if "ids = []" using that by (simp add: outcome_priors_def)
  show "sorted_wrt (\<lambda>a b. str_cmp (op_chunk_id a) (op_chunk_id b) = Less) (outcome_priors V order tenant project ids st)"
    using sorted_priors(1) [OF t out] none by (cases "ids = []") simp_all
  show "(\<exists>p \<in> set (outcome_priors V order tenant project ids st). op_chunk_id p = c \<and> eligible_episode_count p = k)
       \<longleftrightarrow> c \<in> set ids \<and> k \<noteq> 0 \<and> k = min (card (crediting (pv_now V) tenant project st c)) (2 ^ 64 - 1)"
    using sorted_priors(2) [OF t out, of c k] none by (cases "ids = []") (auto simp: n_def)
qed

lemma record_outcome_appends:
  "\<exists>new. or_default (map_of (ms_outcomes (snd (record_outcome tenant e st))) k) = or_default (map_of (ms_outcomes st) k) @ new"
proof (cases "get_retrieval_episode tenant (oe_episode_id e) st")
  case (Some p)
  then show ?thesis
    by (cases p; cases "validate_outcome_event tenant (fst p) (snd p) e")
      (auto simp: record_outcome_def Let_def update_conv' or_default_def)
qed (simp add: record_outcome_def)

section \<open>Properties\<close>

text \<open>
  C23. In every store that the operations can reach, each stored episode is valid and filed under
  its own id, and each stored outcome event belongs to a stored episode, credits and blames only
  candidates of that episode, none of them twice, lies in its retention window and carries the
  eligibility its verifier and attribution call for. Events are only ever appended, and an attempt
  to finalize an episode that fails leaves every episode as it was.
\<close>

theorem memory_store_invariant:
  assumes "reachable json st"
  shows "(\<forall>k ep items. map_of (ms_episodes st) k = Some (ep, items) \<longrightarrow>
            ep_id ep = k \<and> validate_retrieval_episode json ep items = Inr ())
       \<and> (\<forall>k es e. map_of (ms_outcomes st) k = Some es \<and> e \<in> set es \<longrightarrow>
            (\<exists>ep items. map_of (ms_episodes st) k = Some (ep, items) \<and> oe_episode_id e = k
               \<and> set (used_chunk_ids e) \<union> set (harmful_chunk_ids e) \<subseteq> it_chunk_id ` set items
               \<and> distinct (used_chunk_ids e @ harmful_chunk_ids e)
               \<and> sint (oe_timestamp_ms e) \<le> sint (ep_expires_at_ms ep)
               \<and> (contributes_to_ranking e \<longrightarrow> oe_verifier e \<noteq> AgentSelfReport \<and> oe_outcome e \<noteq> VerifierError)))
       \<and> (\<forall>tenant e k. \<exists>new. or_default (map_of (ms_outcomes (snd (record_outcome tenant e st))) k)
                               = or_default (map_of (ms_outcomes st) k) @ new)
       \<and> (\<forall>tenant eid ids. fst (finalize_retrieval_episode json tenant eid ids st) \<noteq> Inr () \<longrightarrow>
            map_of (ms_episodes (snd (finalize_retrieval_episode json tenant eid ids st))) = map_of (ms_episodes st))"
proof (intro conjI allI impI)
  note ok = reachable_ok [OF assms]
  fix k ep items
  assume "map_of (ms_episodes st) k = Some (ep, items)"
  then show "ep_id ep = k" "validate_retrieval_episode json ep items = Inr ()"
    using ok by (simp_all add: store_ok_def)
next
  fix k es e
  assume e: "map_of (ms_outcomes st) k = Some es \<and> e \<in> set es"
  then obtain ep items where "map_of (ms_episodes st) k = Some (ep, items)" "event_ok ep items e" "ep_id ep = k"
    using reachable_ok [OF assms] unfolding store_ok_def by blast
  then show "\<exists>ep items. map_of (ms_episodes st) k = Some (ep, items) \<and> oe_episode_id e = k
      \<and> set (used_chunk_ids e) \<union> set (harmful_chunk_ids e) \<subseteq> it_chunk_id ` set items
      \<and> distinct (used_chunk_ids e @ harmful_chunk_ids e) \<and> sint (oe_timestamp_ms e) \<le> sint (ep_expires_at_ms ep)
      \<and> (contributes_to_ranking e \<longrightarrow> oe_verifier e \<noteq> AgentSelfReport \<and> oe_outcome e \<noteq> VerifierError)"
    by (auto simp: event_ok_def contributes_to_ranking_def expected_ranking_eligibility_def is_ranking_eligible_def
        credits_used_def credits_harmful_def)
next
  fix tenant e k
  show "\<exists>new. or_default (map_of (ms_outcomes (snd (record_outcome tenant e st))) k) = or_default (map_of (ms_outcomes st) k) @ new"
    by (rule record_outcome_appends)
next
  fix tenant eid ids
  assume f: "fst (finalize_retrieval_episode json tenant eid ids st) \<noteq> Inr ()"
  obtain r st' where r: "finalize_retrieval_episode json tenant eid ids st = (r, st')" by fastforce
  with f have "map_of (ms_episodes st') = map_of (ms_episodes st)"
    by (intro finalize_failed [OF reachable_ok [OF assms] r]) simp
  with r show "map_of (ms_episodes (snd (finalize_retrieval_episode json tenant eid ids st))) = map_of (ms_episodes st)"
    by simp
qed

text \<open>A store with one episode and one outcome that credits its first chunk.\<close>

definition demo_event :: outcome_event where
  "demo_event = outcome_event_new ''v'' ''e'' Passed VUser [''a''] [] None 5"

definition demo_chunks :: memory_store where
  "demo_chunks = add_single_chunk (\<lambda>_. ''h'') ''b'' demo_document (add_single_chunk (\<lambda>_. ''h'') ''a'' demo_document memory_new)"

definition demo_store :: memory_store where
  "demo_store = snd (record_outcome ''t'' demo_event
     (snd (record_retrieval_episode (\<lambda>s. s = lit ''{}'') demo_episode [demo_item ''a'' 0, demo_item ''b'' 1] demo_chunks)))"

lemma demo_reachable: "reachable (\<lambda>s. s = lit ''{}'') demo_store"
proof -
  have "reachable (\<lambda>s. s = lit ''{}'') demo_chunks" unfolding demo_chunks_def by (intro reachable.intros)
  from episode_recorded [OF this surjective_pairing]
  have "reachable (\<lambda>s. s = lit ''{}'') (snd (record_retrieval_episode (\<lambda>s. s = lit ''{}'') demo_episode
      [demo_item ''a'' 0, demo_item ''b'' 1] demo_chunks))" .
  from outcome_recorded [OF this surjective_pairing] show ?thesis unfolding demo_store_def .
qed

lemma demo_episodes: "ms_episodes demo_store = [(''e'', demo_episode, [demo_item ''a'' 0, demo_item ''b'' 1])]"
  by code_simp

lemma demo_outcomes: "ms_outcomes demo_store = [(''e'', [demo_event])]"
  by code_simp

theorem memory_store_invariant_witness:
  "map_of (ms_episodes demo_store) ''e'' = Some (demo_episode, [demo_item ''a'' 0, demo_item ''b'' 1])
   \<and> ep_id demo_episode = ''e'' \<and> map_of (ms_outcomes demo_store) ''e'' = Some [demo_event]
   \<and> (\<exists>new. or_default (map_of (ms_outcomes (snd (record_outcome ''t'' demo_event demo_store))) ''e'') = [demo_event] @ new)"
proof -
  note inv = memory_store_invariant [OF demo_reachable]
  have e: "map_of (ms_episodes demo_store) ''e'' = Some (demo_episode, [demo_item ''a'' 0, demo_item ''b'' 1])"
    and o: "map_of (ms_outcomes demo_store) ''e'' = Some [demo_event]" by (simp_all add: demo_episodes demo_outcomes)
  from inv e have "ep_id demo_episode = ''e''" by blast
  moreover from inv have "\<exists>new. or_default (map_of (ms_outcomes (snd (record_outcome ''t'' demo_event demo_store))) ''e'')
      = or_default (map_of (ms_outcomes demo_store) ''e'') @ new" by blast
  moreover have "or_default (Some [demo_event]) = [demo_event]" by (simp add: or_default_def)
  ultimately show ?thesis using e o by metis
qed

text \<open>
  C20. The priors of a reachable store are exact. Whatever order the episode table is iterated in,
  the answer is sorted by chunk id with one prior per chunk; a requested chunk has a prior exactly
  when some episode of the requesting tenant and project credits or blames it in a counted event
  up to now, and its counter is the number of such episodes, each counted once. Episodes of other
  tenants or projects have no influence.
\<close>

theorem outcome_priors_exact:
  assumes "reachable json st" and "mset (order (ms_episodes st)) = mset (ms_episodes st)"
  shows "sorted_wrt (\<lambda>a b. str_cmp (op_chunk_id a) (op_chunk_id b) = Less) (outcome_priors V order tenant project ids st)
       \<and> (\<forall>c n. (\<exists>p \<in> set (outcome_priors V order tenant project ids st). op_chunk_id p = c \<and> eligible_episode_count p = n)
                \<longleftrightarrow> c \<in> set ids \<and> n \<noteq> 0 \<and> n = min (card (crediting (pv_now V) tenant project st c)) (2 ^ 64 - 1))"
  using priors_of_store_ok [OF reachable_ok [OF assms(1)], where order = order, OF assms(2)] by blast

lemma demo_crediting: "crediting 10 ''t'' None demo_store ''a'' = {''e''}"
  unfolding crediting_def demo_episodes demo_outcomes
  by (auto simp: demo_event_def demo_episode_def outcome_event_new_def attribution_def contributes_to_ranking_def
      expected_ranking_eligibility_def credits_used_def is_ranking_eligible_def is_legacy_codex_scanner_outcome_def)

theorem outcome_priors_exact_witness:
  "\<exists>p \<in> set (outcome_priors \<lparr>pv_rnd = Fin, pv_pow2 = (\<lambda>_. Fin 1), pv_now = 10\<rparr> rev ''t'' None [''a''] demo_store).
     op_chunk_id p = ''a'' \<and> eligible_episode_count p = 1"
  using outcome_priors_exact [OF demo_reachable, where order = rev and V = "\<lparr>pv_rnd = Fin, pv_pow2 = (\<lambda>_. Fin 1), pv_now = 10\<rparr>"
      and tenant = "''t''" and project = None and ids = "[''a'']"] demo_crediting
  by simp

end
