(* ===== verification/Write_Admission.thy ===== *)
theory Write_Admission
  imports Memd_Types Memd_Float
begin

text \<open>
  The write gate: heuristic priorities (\<open>auto_priority.rs\<close>) and the admission decision
  (\<open>write_admission.rs\<close>) that every add, import and synthesis write goes through. Tags and text
  are lists of scalar values; offsets into the text are counted in characters, which is the
  same cut as the code's byte offsets because lower-casing keeps the width of every character.
  Parsing a float is the grammar of \<open>f32::from_str\<close>, with the decimal value rounded once.
\<close>

section \<open>Parsing a float\<close>

definition dec_val :: "str \<Rightarrow> nat" where
  "dec_val ds = foldl (\<lambda>a c. 10 * a + (c - 0x30)) 0 ds"

definition strip_sign :: "str \<Rightarrow> bool \<times> str" where
  "strip_sign s =
     (case s of c # cs \<Rightarrow> if c = 0x2D then (True, cs) else if c = 0x2B then (False, cs) else (False, s)
      | [] \<Rightarrow> (False, []))"

text \<open>The exponent: absent, or \<open>e\<close> with an optional sign and at least one digit.\<close>

definition parse_exponent :: "str \<Rightarrow> int option" where
  "parse_exponent s =
     (case s of [] \<Rightarrow> Some 0
      | c # cs \<Rightarrow>
        if c = 0x65 \<or> c = 0x45
        then (case strip_sign cs of (neg, ds) \<Rightarrow>
                if ds \<noteq> [] \<and> list_all is_ascii_digit ds
                then Some (if neg then - int (dec_val ds) else int (dec_val ds)) else None)
        else None)"

definition scale10 :: "real \<Rightarrow> int \<Rightarrow> real" where
  "scale10 m e = (if 0 \<le> e then m * 10 ^ nat e else m / 10 ^ nat (- e))"

definition parse_f32 :: "rounding \<Rightarrow> str \<Rightarrow> f32 option" where
  "parse_f32 rnd s =
     (case strip_sign s of (neg, body) \<Rightarrow>
        let low = to_ascii_lowercase body in
        if low = lit ''inf'' \<or> low = lit ''infinity'' then Some (if neg then NInf else PInf)
        else if low = lit ''nan'' then Some NaN
        else
          let ip = takeWhile is_ascii_digit body;
              r1 = dropWhile is_ascii_digit body;
              dotted = (case r1 of c # cs \<Rightarrow> c = 0x2E | [] \<Rightarrow> False);
              fp = (if dotted then takeWhile is_ascii_digit (tl r1) else []);
              r2 = (if dotted then dropWhile is_ascii_digit (tl r1) else r1)
          in if ip = [] \<and> fp = [] then None
             else map_option (\<lambda>e. rnd ((if neg then -1 else 1) * scale10 (real (dec_val (ip @ fp))) (e - int (length fp))))
                    (parse_exponent r2))"

section \<open>Heuristic priorities\<close>

definition MAX_AUTO_PRIORITY :: nat where
  "MAX_AUTO_PRIORITY = 7"

definition MIN_AUTO_PRIORITY :: nat where
  "MIN_AUTO_PRIORITY = 3"

text \<open>The value behind a \<open>priority:\<close> or \<open>importance:\<close> prefix, when it parses.\<close>

definition tag_priority :: "rounding \<Rightarrow> str \<Rightarrow> f32 option" where
  "tag_priority rnd tag =
     (case (case strip_prefix tag (lit ''priority:'') of Some v \<Rightarrow> Some v
            | None \<Rightarrow> strip_prefix tag (lit ''importance:'')) of
        None \<Rightarrow> None
      | Some v \<Rightarrow> parse_f32 rnd v)"

definition has_explicit_priority :: "rounding \<Rightarrow> str list \<Rightarrow> bool" where
  "has_explicit_priority rnd tags =
     list_ex (\<lambda>tag. case tag_priority rnd tag of Some v \<Rightarrow> is_finite v | None \<Rightarrow> False) tags"

definition type_base :: "chunk_type \<Rightarrow> int" where
  "type_base ct =
     (case ct of Decision \<Rightarrow> 5 | Summary \<Rightarrow> 1 | Research \<Rightarrow> 2 | Trace \<Rightarrow> 0 | Plan \<Rightarrow> 1 | _ \<Rightarrow> 0)"

text \<open>What one tag adds to the score; \<open>None\<close> is the early return for a superseded record.\<close>

definition tag_score :: "str \<Rightarrow> int option" where
  "tag_score tag =
     (if tag = lit ''kind:decision'' then Some 4
      else if tag = lit ''kind:finish'' then Some 3
      else if tag = lit ''kind:evidence'' then Some 3
      else if tag = lit ''kind:run'' then Some 1
      else if tag = lit ''kind:progress'' then Some 0
      else if starts_with tag (lit ''kind:consolidated'') then Some 6
      else if starts_with tag (lit ''kind:superseded'') then None
      else if starts_with tag (lit ''validated:true'') \<or> tag = lit ''supports:true'' then Some 1
      else if starts_with tag (lit ''status:failed'') then Some 1
      else if starts_with tag (lit ''ctx:file:'') \<or> starts_with tag (lit ''ctx:subsystem:'') then Some 1
      else Some 0)"

fun tags_score :: "str list \<Rightarrow> int \<Rightarrow> int option" where
  "tags_score [] score = Some score"
| "tags_score (tag # tags) score =
     (case tag_score tag of None \<Rightarrow> None | Some d \<Rightarrow> tags_score tags (score + d))"

definition text_score :: "str \<Rightarrow> int" where
  "text_score text =
     (let lowered = to_ascii_lowercase text in
      (if contains lowered (lit ''validated:'') \<or> contains lowered (lit ''validation:'')
          \<or> contains lowered (lit ''reproduced'') \<or> contains lowered (lit ''confirmed'') then 1 else 0)
      + (if contains lowered (lit ''root cause'') \<or> contains lowered (lit ''fix:'') then 1 else 0)
      - (if starts_with lowered (lit ''todo'') \<or> starts_with lowered (lit ''starting'')
            \<or> starts_with lowered (lit ''about to '') then 2 else 0))"

definition compute_priority :: "chunk_type \<Rightarrow> str \<Rightarrow> str list \<Rightarrow> nat" where
  "compute_priority ct text tags =
     (case tags_score tags (type_base ct) of
        None \<Rightarrow> 0
      | Some score \<Rightarrow> nat (max 0 (min (score + text_score text) (int MAX_AUTO_PRIORITY))))"

definition stamp_auto_priority :: "rounding \<Rightarrow> chunk_type \<Rightarrow> str \<Rightarrow> str list \<Rightarrow> nat option \<times> str list" where
  "stamp_auto_priority rnd ct text tags =
     (if has_explicit_priority rnd tags then (None, tags)
      else let computed = compute_priority ct text tags in
        if computed < MIN_AUTO_PRIORITY then (None, tags)
        else let clamped = min computed MAX_AUTO_PRIORITY in
          (Some clamped, tags @ [lit (''priority:'' @ show_nat clamped)]))"

section \<open>Admission\<close>

datatype admission_decision = Durable | Ephemeral | Reject

fun admission_decision_str :: "admission_decision \<Rightarrow> string" where
  "admission_decision_str Durable = ''durable''"
| "admission_decision_str Ephemeral = ''ephemeral''"
| "admission_decision_str Reject = ''reject''"

record admission_outcome =
  ao_decision :: admission_decision
  ao_reason :: string
  ao_warning :: "string option"

definition outcome_durable :: "string \<Rightarrow> admission_outcome" where
  "outcome_durable reason = \<lparr>ao_decision = Durable, ao_reason = reason, ao_warning = None\<rparr>"

definition durable_with_warning :: "string \<Rightarrow> string \<Rightarrow> admission_outcome" where
  "durable_with_warning reason warning =
     \<lparr>ao_decision = Durable, ao_reason = reason, ao_warning = Some warning\<rparr>"

definition outcome_ephemeral :: "string \<Rightarrow> admission_outcome" where
  "outcome_ephemeral reason = \<lparr>ao_decision = Ephemeral, ao_reason = reason, ao_warning = None\<rparr>"

definition outcome_reject :: "string \<Rightarrow> admission_outcome" where
  "outcome_reject reason = \<lparr>ao_decision = Reject, ao_reason = reason, ao_warning = None\<rparr>"

definition MAX_MEMORY_TEXT_BYTES :: nat where
  "MAX_MEMORY_TEXT_BYTES = 1024 * 1024"

definition is_generated_digest_wrapper :: "str \<Rightarrow> str list \<Rightarrow> bool" where
  "is_generated_digest_wrapper text tags =
     (let generated = lit ''task:status:generated'' \<in> set tags;
          digest_like = list_ex (\<lambda>tag. starts_with tag (lit ''task:role:'')
                                      \<or> starts_with tag (lit ''task:digest:'')) tags
      in if generated \<and> digest_like then True
         else let lowered = to_ascii_lowercase text in
           starts_with lowered (lit ''task digest status generated'')
           \<or> contains lowered (lit ''artifact role: highlight_library'')
           \<or> contains lowered (lit ''artifact role: project_brief'')
           \<or> contains lowered (lit ''artifact role: failure_library'')
           \<or> contains lowered (lit ''artifact role: decision_library'')
           \<or> contains lowered (lit ''artifact role: evidence_library''))"

definition is_low_signal_progress :: "str \<Rightarrow> bool" where
  "is_low_signal_progress text =
     (let lowered = to_ascii_lowercase text;
          compact_words = length (split_whitespace lowered)
      in list_ex (\<lambda>p. starts_with lowered (lit p))
           [''todo'', ''starting'', ''about to '', ''working on '', ''checking '', ''investigating '',
            ''looking into '']
         \<or> (compact_words \<le> 8 \<and> 0x2F \<notin> set lowered \<and> \<not> contains lowered (lit ''http'')
            \<and> \<not> contains lowered (lit ''validated'') \<and> \<not> contains lowered (lit ''root cause'')))"

definition high_priority_value :: "f32 \<Rightarrow> bool" where
  "high_priority_value v \<longleftrightarrow> is_finite v \<and> f_le (Fin 8) v"

definition explicit_high_priority :: "rounding \<Rightarrow> str list \<Rightarrow> bool" where
  "explicit_high_priority rnd tags =
     list_ex (\<lambda>tag. case tag_priority rnd tag of Some v \<Rightarrow> high_priority_value v | None \<Rightarrow> False) tags"

definition downgrade_tag :: "rounding \<Rightarrow> str \<Rightarrow> str" where
  "downgrade_tag rnd tag =
     (case find (starts_with tag) [lit ''priority:'', lit ''importance:''] of
        None \<Rightarrow> tag
      | Some prefix \<Rightarrow>
          if (case parse_f32 rnd (drop (length prefix) tag) of Some v \<Rightarrow> high_priority_value v | None \<Rightarrow> False)
          then prefix @ lit ''7'' else tag)"

definition downgrade_high_priority_tags :: "rounding \<Rightarrow> str list \<Rightarrow> str list" where
  "downgrade_high_priority_tags rnd tags = map (downgrade_tag rnd) tags"

subsection \<open>Concrete agent actions\<close>

definition action_marker :: str where
  "action_marker = lit ''agent action:''"

definition ACTION_VERBS :: "string list" where
  "ACTION_VERBS =
     [''apply'', ''avoid'', ''check'', ''configure'', ''confirm'', ''disable'', ''do'', ''enable'', ''export'',
      ''follow'', ''include'', ''keep'', ''pin'', ''point'', ''prefer'', ''record'', ''review'', ''resolve'',
      ''reuse'', ''run'', ''set'', ''treat'', ''update'', ''use'', ''verify'', ''write'']"

definition contains_action_verb :: "str \<Rightarrow> bool" where
  "contains_action_verb text =
     list_ex (\<lambda>word. to_ascii_lowercase word \<in> set (map lit ACTION_VERBS))
       (split_on (\<lambda>c. \<not> is_ascii_alphabetic c) text)"

definition is_concrete_agent_action :: "str \<Rightarrow> bool" where
  "is_concrete_agent_action action \<longleftrightarrow> 24 \<le> length action \<and> contains_action_verb action"

definition is_concrete_agent_action_text :: "str \<Rightarrow> bool" where
  "is_concrete_agent_action_text action = is_concrete_agent_action (trim action)"

text \<open>The marker scan: every occurrence at or after the end of the one before it.\<close>

lemma find_sub_bound: "find_sub s p = Some i \<Longrightarrow> i + length p \<le> length s"
  by (induction s p arbitrary: i rule: find_sub.induct)
    (auto simp: starts_with_def split: if_splits dest: arg_cong [of _ _ length])

function marker_starts :: "str \<Rightarrow> nat \<Rightarrow> nat list" where
  "marker_starts lowered search_start =
     (case find_sub (drop search_start lowered) action_marker of
        None \<Rightarrow> []
      | Some relative_start \<Rightarrow>
          (search_start + relative_start)
          # marker_starts lowered (search_start + relative_start + length action_marker))"
  by pat_completeness auto
termination
proof (relation "measure (\<lambda>(lowered, start). length lowered - start)")
  fix lowered :: str and start r
  assume "find_sub (drop start lowered) action_marker = Some r"
  from find_sub_bound [OF this] have "r + length action_marker \<le> length lowered - start" by simp
  moreover have "0 < length action_marker" by (simp add: action_marker_def)
  ultimately show "((lowered, start + r + length action_marker), (lowered, start))
      \<in> measure (\<lambda>(lowered, start). length lowered - start)"
    unfolding in_measure prod.case by linarith
qed simp

declare marker_starts.simps [simp del]

definition until_newline :: "str \<Rightarrow> str" where
  "until_newline s = takeWhile (\<lambda>c. c \<noteq> 0x0A \<and> c \<noteq> 0x0D) s"

definition concrete_agent_action_candidates :: "str \<Rightarrow> str list" where
  "concrete_agent_action_candidates text =
     (let starts = marker_starts (to_ascii_lowercase text) 0 in
      map (\<lambda>i. let body_start = starts ! i + length action_marker;
                   next_marker = (if i + 1 < length starts then starts ! (i + 1) else length text)
               in trim (until_newline (take (next_marker - body_start) (drop body_start text))))
        [0..<length starts])"

definition has_concrete_agent_action :: "str \<Rightarrow> bool" where
  "has_concrete_agent_action text =
     list_ex is_concrete_agent_action (concrete_agent_action_candidates text)"

subsection \<open>The decision\<close>

definition kind_reason :: "str \<Rightarrow> string option" where
  "kind_reason tag =
     (if tag = lit ''kind:decision'' then Some ''decision tag''
      else if tag = lit ''kind:evidence'' then Some ''evidence tag''
      else if tag = lit ''kind:finish'' then Some ''finished task outcome tag''
      else if tag = lit ''kind:consolidated'' then Some ''consolidated durable lesson tag''
      else if tag = lit ''kind:run'' then Some ''run/result evidence tag''
      else None)"

fun find_map_opt :: "('a \<Rightarrow> 'b option) \<Rightarrow> 'a list \<Rightarrow> 'b option" where
  "find_map_opt f [] = None"
| "find_map_opt f (x # xs) = (case f x of Some y \<Rightarrow> Some y | None \<Rightarrow> find_map_opt f xs)"

definition contains_any :: "str \<Rightarrow> string list \<Rightarrow> bool" where
  "contains_any s ps = list_ex (\<lambda>p. contains s (lit p)) ps"

definition text_signal_reason :: "str \<Rightarrow> string option" where
  "text_signal_reason text =
     (let lowered = to_ascii_lowercase text in
      if contains_any lowered [''decision:'', ''rationale:''] then Some ''decision with rationale''
      else if contains_any lowered [''validated:'', ''validation:'', ''reproduced'', ''confirmed'', ''passed'']
      then Some ''validated result''
      else if contains_any lowered [''root cause'', ''failed because''] then Some ''root-cause failure''
      else if contains_any lowered [''fix:'', ''fixed by'', ''solution:''] then Some ''validated fix''
      else if contains_any lowered
        [''command:'', ''path:'', ''parameter:'', ''parameters:'', ''/home/'', ''crates/'', ''tasks/'', ''.rs'',
         ''.md'', ''http://'', ''https://'']
      then Some ''command/path/parameter evidence''
      else if contains_any lowered [''next step:'', ''follow-up:'', ''followup:''] then Some ''durable follow-up''
      else None)"

definition durable_signal_reason :: "chunk_type \<Rightarrow> str \<Rightarrow> str list \<Rightarrow> string option" where
  "durable_signal_reason ct text tags =
     (if ct = Decision then Some ''decision chunk type''
      else if ct = Code then Some ''code or path-bearing chunk type''
      else case find_map_opt kind_reason tags of
        Some reason \<Rightarrow> Some reason
      | None \<Rightarrow> text_signal_reason text)"

definition oversize_reason :: "nat \<Rightarrow> string" where
  "oversize_reason n =
     ''memory text is '' @ show_nat n @ '' bytes, over the '' @ show_nat MAX_MEMORY_TEXT_BYTES
     @ ''-byte limit; chunk large documents before storing''"

definition downgrade_warning :: string where
  "downgrade_warning =
     concat [''priority:8+ or importance:8+ memories need a concrete 'Agent action:' '',
       ''sentence (>= 24 chars containing one of: '',
       concat (hd ACTION_VERBS # map ((@) '', '') (tl ACTION_VERBS)), ''); stored at priority 7'']"

definition classify_write :: "rounding \<Rightarrow> chunk_type \<Rightarrow> str \<Rightarrow> str list \<Rightarrow> ingestion_mode \<Rightarrow> admission_outcome" where
  "classify_write rnd ct text tags mode =
     (if MAX_MEMORY_TEXT_BYTES < byte_len text then outcome_reject (oversize_reason (byte_len text))
      else let trimmed = trim text in
      if trimmed = [] then outcome_reject ''empty memory text is not useful durable context''
      else if is_generated_digest_wrapper trimmed tags
      then outcome_reject ''generated digest wrapper records are not accepted through memory.add''
      else if explicit_high_priority rnd tags \<and> \<not> has_concrete_agent_action trimmed
      then durable_with_warning
             ''high-priority memory without concrete Agent action; priority downgraded to 7'' downgrade_warning
      else if has_explicit_priority rnd tags then outcome_durable ''explicit priority or importance tag''
      else let durable_reason = durable_signal_reason ct trimmed tags in
      if lit ''kind:progress'' \<in> set tags \<and> is_low_signal_progress trimmed \<and> durable_reason = None
      then if mode = Conversation
        then outcome_ephemeral ''low-signal conversation progress is stored as short-lived hidden context''
        else outcome_reject
          ''low-signal progress chatter needs a concrete result, decision, failure, command, path, or explicit priority''
      else case durable_reason of Some reason \<Rightarrow> outcome_durable reason | None \<Rightarrow> outcome_durable ''accepted'')"

section \<open>Facts about the scan\<close>

text \<open>
  The scan the code replaced: for each marker, look for the next one from the end of this one
  and cut the body there. It is the reference for \<^const>\<open>concrete_agent_action_candidates\<close>.
\<close>

function rescan_candidates :: "str \<Rightarrow> str list" where
  "rescan_candidates text =
     (case find_sub (to_ascii_lowercase text) action_marker of
        None \<Rightarrow> []
      | Some i \<Rightarrow>
          let body = drop (i + length action_marker) text in
          trim (until_newline (case find_sub (to_ascii_lowercase body) action_marker of
                                 None \<Rightarrow> body | Some j \<Rightarrow> take j body))
          # rescan_candidates body)"
  by pat_completeness auto
termination
proof (relation "measure length")
  fix t :: str and i body
  assume "find_sub (to_ascii_lowercase t) action_marker = Some i"
    and b: "body = drop (i + length action_marker) t"
  from find_sub_bound [OF this(1)] have "i + length action_marker \<le> length t"
    by (simp add: to_ascii_lowercase_def)
  moreover have "0 < length action_marker" by (simp add: action_marker_def)
  ultimately show "(body, t) \<in> measure length" unfolding in_measure b length_drop by linarith
qed simp

declare rescan_candidates.simps [simp del]

lemma marker_starts_shift:
  "marker_starts lowered (k + n) = map ((+) k) (marker_starts (drop k lowered) n)"
proof (induction "drop k lowered" n rule: marker_starts.induct)
  case (1 n)
  show ?case
  proof (cases "find_sub (drop n (drop k lowered)) action_marker")
    case None
    then show ?thesis by (subst (1 2) marker_starts.simps) (simp add: add.commute)
  next
    case (Some r)
    show ?thesis using 1 [OF Some] Some
      by (subst (1 2) marker_starts.simps) (simp add: add.commute add.left_commute)
  qed
qed

text \<open>The code's slice bounds are ordered: a marker ends before the next one starts.\<close>

lemma marker_starts_le: "m \<in> set (marker_starts lowered n) \<Longrightarrow> n \<le> m \<and> m + length action_marker \<le> length lowered"
proof (induction lowered n rule: marker_starts.induct)
  case (1 lowered n)
  show ?case
  proof (cases "find_sub (drop n lowered) action_marker")
    case None
    with 1 show ?thesis by (subst (asm) marker_starts.simps) simp
  next
    case (Some r)
    from find_sub_bound [OF this] have r: "r + length action_marker \<le> length lowered - n" by simp
    from 1(2) Some have "m = n + r \<or> m \<in> set (marker_starts lowered (n + r + length action_marker))"
      by (subst (asm) marker_starts.simps) simp
    then show ?thesis
    proof
      assume "m = n + r"
      moreover have "0 < length action_marker" by (simp add: action_marker_def)
      ultimately show ?thesis using r by linarith
    qed (use 1(1) [OF Some] in simp)
  qed
qed

definition marker_bodies :: "str \<Rightarrow> nat list \<Rightarrow> str list" where
  "marker_bodies text starts =
     map (\<lambda>i. let body_start = starts ! i + length action_marker;
                   next_marker = (if i + 1 < length starts then starts ! (i + 1) else length text)
               in trim (until_newline (take (next_marker - body_start) (drop body_start text))))
        [0..<length starts]"

lemma candidates_bodies:
  "concrete_agent_action_candidates text = marker_bodies text (marker_starts (to_ascii_lowercase text) 0)"
  by (simp add: concrete_agent_action_candidates_def marker_bodies_def Let_def)

lemma marker_bodies_Cons:
  "marker_bodies text (m # ms) =
     trim (until_newline (take ((case ms of [] \<Rightarrow> length text | n # _ \<Rightarrow> n) - (m + length action_marker))
       (drop (m + length action_marker) text)))
     # marker_bodies text ms"
proof -
  have "[0..<length (m # ms)] = 0 # map Suc [0..<length ms]"
    by (simp add: map_Suc_upt upt_conv_Cons del: upt_Suc)
  then show ?thesis unfolding marker_bodies_def by (cases ms) (simp_all add: Let_def o_def del: upt_Suc)
qed

lemma marker_bodies_shift:
  "k \<le> length text \<Longrightarrow> marker_bodies text (map ((+) k) ms) = marker_bodies (drop k text) ms"
proof (induction ms)
  case Nil
  then show ?case by (simp add: marker_bodies_def)
next
  case (Cons m ms)
  then show ?case by (cases ms) (simp_all add: marker_bodies_Cons add.commute add.left_commute)
qed

lemma candidates_rescan: "concrete_agent_action_candidates t = rescan_candidates t"
proof (induction t rule: rescan_candidates.induct)
  case (1 t)
  show ?case
  proof (cases "find_sub (to_ascii_lowercase t) action_marker")
    case None
    then show ?thesis
      by (subst rescan_candidates.simps, simp add: candidates_bodies, subst marker_starts.simps,
          simp add: marker_bodies_def)
  next
    case (Some i)
    define k where "k = i + length action_marker"
    define body where "body = drop k t"
    from find_sub_bound [OF Some] have k: "k \<le> length t" by (simp add: k_def to_ascii_lowercase_def)
    have low: "to_ascii_lowercase body = drop k (to_ascii_lowercase t)"
      by (simp add: body_def to_ascii_lowercase_def drop_map)
    define ms where "ms = marker_starts (to_ascii_lowercase body) 0"
    have "marker_starts (to_ascii_lowercase t) 0 = i # map ((+) k) ms"
      using Some marker_starts_shift [of "to_ascii_lowercase t" k 0]
      by (subst marker_starts.simps) (simp add: k_def [symmetric] ms_def low)
    then have "concrete_agent_action_candidates t =
        trim (until_newline (take ((case map ((+) k) ms of [] \<Rightarrow> length t | n # _ \<Rightarrow> n) - k) body))
        # concrete_agent_action_candidates body"
      using k by (simp add: candidates_bodies marker_bodies_Cons marker_bodies_shift k_def [symmetric]
          body_def [symmetric] ms_def [symmetric])
    moreover have "take ((case map ((+) k) ms of [] \<Rightarrow> length t | n # _ \<Rightarrow> n) - k) body =
        (case find_sub (to_ascii_lowercase body) action_marker of None \<Rightarrow> body | Some j \<Rightarrow> take j body)"
      unfolding ms_def by (subst marker_starts.simps) (simp add: body_def split: option.split)
    ultimately show ?thesis using 1 [OF Some] Some
      by (subst rescan_candidates.simps) (simp add: k_def [symmetric] body_def [symmetric] Let_def)
  qed
qed

section \<open>Facts about priorities\<close>

lemmas text_eval = trim_def trim_start_def is_whitespace_def to_ascii_lowercase_def ascii_lower_def starts_with_def

lemma starts_with_append [simp]: "starts_with (p @ s) p"
  by (simp add: starts_with_def)

lemma high_priority_Fin [simp]: "high_priority_value (Fin x) \<longleftrightarrow> 8 \<le> x"
  by (simp add: high_priority_value_def)

lemma tag_priority_prefixed:
  "tag_priority rnd (lit ''priority:'' @ v) = parse_f32 rnd v"
  "tag_priority rnd (lit ''importance:'' @ v) = parse_f32 rnd v"
  by (simp_all add: tag_priority_def strip_prefix_def starts_with_def)

lemma tag_priority_cases:
  "tag_priority rnd tag =
     (if starts_with tag (lit ''priority:'') then parse_f32 rnd (drop (length (lit ''priority:'')) tag)
      else if starts_with tag (lit ''importance:'') then parse_f32 rnd (drop (length (lit ''importance:'')) tag)
      else None)"
  by (simp add: tag_priority_def strip_prefix_def)

definition tag_is_high :: "rounding \<Rightarrow> str \<Rightarrow> bool" where
  "tag_is_high rnd tag = (case tag_priority rnd tag of Some v \<Rightarrow> high_priority_value v | None \<Rightarrow> False)"

lemma explicit_high_priority_iff: "explicit_high_priority rnd tags \<longleftrightarrow> (\<exists>tag \<in> set tags. tag_is_high rnd tag)"
  by (simp add: explicit_high_priority_def tag_is_high_def list_ex_iff)

lemma downgrade_tag_cases:
  "downgrade_tag rnd tag =
     (if \<not> tag_is_high rnd tag then tag
      else if starts_with tag (lit ''priority:'') then lit ''priority:'' @ lit ''7''
      else lit ''importance:'' @ lit ''7'')"
  by (simp add: downgrade_tag_def tag_is_high_def tag_priority_cases del: lit_simps split: option.splits)

locale f32_small = f32_round +
  assumes rnd_small_int: "n \<le> 8 \<Longrightarrow> rnd (real n) = Fin (real n)"
begin

lemma parse_digit: "n \<le> 7 \<Longrightarrow> parse_f32 rnd (lit (show_nat n)) = Some (Fin (real n))"
proof -
  assume n: "n \<le> 7"
  have "parse_f32 rnd [0x30 + n] = Some (rnd (real n))"
    using n by (simp add: parse_f32_def strip_sign_def to_ascii_lowercase_def is_ascii_digit_def
        parse_exponent_def scale10_def dec_val_def)
  moreover have "lit (show_nat n) = [0x30 + n]"
    using n by (subst show_nat.simps) (simp add: digit_char_def)
  ultimately show ?thesis using rnd_small_int [of n] n by simp
qed

lemma parse_seven: "parse_f32 rnd (lit ''7'') = Some (Fin 7)"
proof -
  have "show_nat 7 = ''7''" by code_simp
  then show ?thesis using parse_digit [of 7] by simp
qed

lemma downgraded_not_high: "\<not> tag_is_high rnd (downgrade_tag rnd tag)"
  by (simp add: downgrade_tag_cases tag_is_high_def tag_priority_prefixed parse_seven del: lit_simps)

lemma stamped_tag_value: "n \<le> 7 \<Longrightarrow> tag_priority rnd (lit (''priority:'' @ show_nat n)) = Some (Fin (real n))"
  using tag_priority_prefixed(1) [of rnd "lit (show_nat n)"] parse_digit [of n] by (simp add: lit_def)

lemma stamp_in_range:
  assumes "stamp_auto_priority rnd ct t tags = (Some n, tags')"
  shows "3 \<le> n \<and> n \<le> 7 \<and> tags' = tags @ [lit (''priority:'' @ show_nat n)] \<and> \<not> has_explicit_priority rnd tags"
  using assms by (auto simp: stamp_auto_priority_def Let_def MAX_AUTO_PRIORITY_def MIN_AUTO_PRIORITY_def
      split: if_splits)

lemma stamp_unchanged:
  "stamp_auto_priority rnd ct t tags = (None, tags') \<Longrightarrow> tags' = tags"
  by (auto simp: stamp_auto_priority_def Let_def split: if_splits)

lemma stamp_explicit:
  assumes "stamp_auto_priority rnd ct t tags = (Some n, tags')"
  shows "has_explicit_priority rnd tags'"
  using stamp_in_range [OF assms] stamped_tag_value [of n] by (auto simp: has_explicit_priority_def)

text \<open>A stamped list is not stamped again, whatever the type and text of the second call.\<close>

lemma stamp_once:
  assumes "stamp_auto_priority rnd ct t tags = (Some n, tags')"
  shows "stamp_auto_priority rnd ct' t' tags' = (None, tags')"
  using stamp_explicit [OF assms] by (simp add: stamp_auto_priority_def)

lemma stamp_not_high:
  assumes "snd (stamp_auto_priority rnd ct t tags) = tags'" and "explicit_high_priority rnd tags'"
  shows "explicit_high_priority rnd tags"
proof (cases "stamp_auto_priority rnd ct t tags")
  case (Pair o1 tags1)
  with assms(1) have eq: "stamp_auto_priority rnd ct t tags = (o1, tags')" by simp
  show ?thesis
  proof (cases o1)
    case None
    with eq stamp_unchanged assms(2) show ?thesis by blast
  next
    case (Some n)
    from stamp_in_range [OF eq [unfolded Some]] have n: "n \<le> 7"
      and tags': "tags' = tags @ [lit (''priority:'' @ show_nat n)]" by simp_all
    have "\<not> tag_is_high rnd (lit (''priority:'' @ show_nat n))"
      using n stamped_tag_value [OF n] by (simp add: tag_is_high_def)
    with assms(2) show ?thesis by (auto simp: explicit_high_priority_iff tags')
  qed
qed

end

text \<open>The grid of \<^const>\<open>round32\<close> contains the small integers.\<close>

lemma f32_limit_big: "8 < f32_limit"
proof -
  have "(2::real) ^ 3 < 2 ^ 128" by (rule power_strict_increasing) simp_all
  then show ?thesis by (simp add: f32_limit_def)
qed

interpretation grid_small: f32_small round32
proof unfold_locales
  fix n :: nat assume n: "n \<le> 8"
  have "real n * 2 ^ 23 = real_of_int (int n * 2 ^ 23)" by simp
  then have "round (real n * 2 ^ 23) = int n * 2 ^ 23" by (simp only: round_grid)
  then have "real_of_int (round (real n * 2 ^ 23)) / 2 ^ 23 = real n" by simp
  moreover have "real n < f32_limit" using n f32_limit_big by linarith
  moreover have "- f32_limit < real n" using f32_limit_gt_1 by linarith
  ultimately show "round32 (real n) = Fin (real n)" by (simp add: round32_def Let_def)
qed

end
