(* ===== verification/Write_Service.thy ===== *)
theory Write_Service
  imports Write_Admission
begin

text \<open>
  Preparation of a write (\<open>write_service.rs\<close>): tags are normalised, the admission decision is
  taken, retention defaults and the lifecycle tier are filled in, high priorities without a
  concrete action are lowered, and a heuristic priority is stamped. The clock is an argument.
  Additions to the clock wrap at 64 bits as the release build does.
\<close>

section \<open>Data\<close>

definition WRITE_ADMISSION_EPHEMERAL_TTL_MS :: i64 where
  "WRITE_ADMISSION_EPHEMERAL_TTL_MS = 14 * 24 * 60 * 60 * 1000"

definition WRITE_ADMISSION_PROGRESS_TTL_MS :: i64 where
  "WRITE_ADMISSION_PROGRESS_TTL_MS = 14 * 24 * 60 * 60 * 1000"

definition WRITE_ADMISSION_RUN_TRACE_TTL_MS :: i64 where
  "WRITE_ADMISSION_RUN_TRACE_TTL_MS = 30 * 24 * 60 * 60 * 1000"

datatype priority_source = ExplicitPriority | AutomaticPriority

record prepared_priority =
  pp_value :: f32
  pp_source :: priority_source

datatype retention_source =
  NoRetention | CallerRetention | ConversationDefault | EphemeralDefault | ProgressDefault | RunTraceDefault

record prepared_retention =
  pr_expires_at_ms :: "i64 option"
  pr_review_after_ms :: "i64 option"
  pr_source :: retention_source
  pr_defaulted_expires_at :: bool
  pr_defaulted_review_after :: bool

definition retention_new :: "i64 option \<Rightarrow> i64 option \<Rightarrow> prepared_retention" where
  "retention_new expires review =
     \<lparr>pr_expires_at_ms = expires, pr_review_after_ms = review,
      pr_source = (if expires \<noteq> None \<or> review \<noteq> None then CallerRetention else NoRetention),
      pr_defaulted_expires_at = False, pr_defaulted_review_after = False\<rparr>"

definition default_review :: "i64 \<Rightarrow> retention_source \<Rightarrow> prepared_retention \<Rightarrow> prepared_retention" where
  "default_review v src r =
     (if pr_review_after_ms r = None
      then r\<lparr>pr_review_after_ms := Some v, pr_defaulted_review_after := True, pr_source := src\<rparr>
      else r)"

definition default_both :: "i64 \<Rightarrow> retention_source \<Rightarrow> prepared_retention \<Rightarrow> prepared_retention" where
  "default_both v src r =
     (let r1 = (if pr_expires_at_ms r = None
                then r\<lparr>pr_expires_at_ms := Some v, pr_defaulted_expires_at := True\<rparr> else r);
          r2 = (if pr_review_after_ms r1 = None
                then r1\<lparr>pr_review_after_ms := Some v, pr_defaulted_review_after := True\<rparr> else r1)
      in r2\<lparr>pr_source := src\<rparr>)"

definition strip_defaults :: "prepared_retention \<Rightarrow> prepared_retention" where
  "strip_defaults r =
     (let r1 = (if pr_defaulted_expires_at r
                then r\<lparr>pr_expires_at_ms := None, pr_defaulted_expires_at := False\<rparr> else r);
          r2 = (if pr_defaulted_review_after r1
                then r1\<lparr>pr_review_after_ms := None, pr_defaulted_review_after := False\<rparr> else r1)
      in r2\<lparr>pr_source := (if pr_expires_at_ms r2 \<noteq> None \<or> pr_review_after_ms r2 \<noteq> None
                          then CallerRetention else NoRetention)\<rparr>)"

record prepare_write_request =
  rq_chunk_type :: chunk_type
  rq_text :: str
  rq_tags :: "str list"
  rq_ingestion_mode :: ingestion_mode
  rq_expires_at_ms :: "i64 option"
  rq_review_after_ms :: "i64 option"

datatype trust_tier = SemanticCandidate | CanonicalRecord | CompiledDigestHint | VerifiedRecord

record prepared_write =
  pw_outcome :: admission_outcome
  pw_tags :: "str list"
  pw_priority :: "prepared_priority option"
  pw_retention :: prepared_retention
  pw_lifecycle_tier :: "memory_tier option"
  pw_trust_tier :: trust_tier
  pw_ingestion_mode :: ingestion_mode

definition is_rejected :: "prepared_write \<Rightarrow> bool" where
  "is_rejected p \<longleftrightarrow> ao_decision (pw_outcome p) = Reject"

definition usage_outcome :: "prepared_write \<Rightarrow> string" where
  "usage_outcome p =
     (case ao_decision (pw_outcome p) of
        Durable \<Rightarrow> ''admitted'' | Ephemeral \<Rightarrow> ''downgraded'' | Reject \<Rightarrow> ''rejected'')"

definition lifecycle_tier_name :: "prepared_write \<Rightarrow> string option" where
  "lifecycle_tier_name p = map_option memory_tier_str (pw_lifecycle_tier p)"

definition prepared_lifecycle_delta :: "prepared_write \<Rightarrow> lifecycle_delta" where
  "prepared_lifecycle_delta p =
     \<lparr>d_status = None, d_tier = pw_lifecycle_tier p, d_supersedes = None, d_superseded_by = None,
      d_expires_at_ms = map_option Some (pr_expires_at_ms (pw_retention p)),
      d_review_after_ms = map_option Some (pr_review_after_ms (pw_retention p)),
      d_lifecycle_updated_at_ms = None\<rparr>"

definition strip_optional_retention_defaults :: "prepared_write \<Rightarrow> prepared_write" where
  "strip_optional_retention_defaults p = p\<lparr>pw_retention := strip_defaults (pw_retention p)\<rparr>"

definition apply_to_chunk :: "prepared_write \<Rightarrow> memory_chunk \<Rightarrow> memory_chunk" where
  "apply_to_chunk p c = c\<lparr>mc_tags := pw_tags p, mc_ingestion_mode := pw_ingestion_mode p\<rparr>"

section \<open>Preparation\<close>

fun keep_first :: "str set \<Rightarrow> str list \<Rightarrow> str list" where
  "keep_first seen [] = []"
| "keep_first seen (t # ts) =
     (if t \<in> seen then keep_first seen ts else t # keep_first (insert t seen) ts)"

definition normalize_tags :: "str list \<Rightarrow> str list" where
  "normalize_tags tags = keep_first {} (filter (\<lambda>t. t \<noteq> []) (map trim tags))"

definition parse_priority :: "rounding \<Rightarrow> str list \<Rightarrow> priority_source \<Rightarrow> prepared_priority option" where
  "parse_priority rnd tags src =
     find_map_opt (\<lambda>tag. case tag_priority rnd tag of
                 Some v \<Rightarrow> if is_finite v then Some \<lparr>pp_value = v, pp_source = src\<rparr> else None
               | None \<Rightarrow> None) tags"

definition has_durable_retention_override :: "str list \<Rightarrow> bool" where
  "has_durable_retention_override tags =
     list_ex (\<lambda>tag. tag \<in> set (map lit [''kind:evidence'', ''kind:decision'', ''kind:finish'',
                        ''kind:consolidated'', ''retention:durable'', ''validated:true'', ''supports:true''])
                    \<or> starts_with tag (lit ''evidence:'') \<or> starts_with tag (lit ''source:evidence'')) tags"

definition should_apply_run_trace_retention :: "rounding \<Rightarrow> chunk_type \<Rightarrow> str list \<Rightarrow> bool" where
  "should_apply_run_trace_retention rnd ct tags =
     ((ct = Trace \<or> lit ''kind:run'' \<in> set tags)
      \<and> \<not> has_explicit_priority rnd tags \<and> \<not> has_durable_retention_override tags)"

definition should_apply_progress_summary_retention :: "rounding \<Rightarrow> chunk_type \<Rightarrow> str list \<Rightarrow> bool" where
  "should_apply_progress_summary_retention rnd ct tags =
     (ct = Summary \<and> lit ''kind:progress'' \<in> set tags
      \<and> \<not> has_explicit_priority rnd tags \<and> \<not> has_durable_retention_override tags)"

definition push_missing :: "str list \<Rightarrow> str \<Rightarrow> str list" where
  "push_missing tags tag = (if tag \<in> set tags then tags else tags @ [tag])"

text \<open>The retention and tier an admitted write gets.\<close>

definition admitted_retention ::
  "rounding \<Rightarrow> prepare_write_request \<Rightarrow> i64 \<Rightarrow> str list \<Rightarrow> admission_decision \<Rightarrow> prepared_retention \<times> memory_tier option" where
  "admitted_retention rnd rq now_ms tags decision =
     (let r0 = retention_new (rq_expires_at_ms rq) (rq_review_after_ms rq);
          r1 = (if rq_ingestion_mode rq = Conversation
                then default_review (now_ms + WRITE_ADMISSION_PROGRESS_TTL_MS) ConversationDefault r0 else r0)
      in if decision = Ephemeral
         then (default_both (now_ms + WRITE_ADMISSION_EPHEMERAL_TTL_MS) EphemeralDefault r1, Some History)
         else if should_apply_run_trace_retention rnd (rq_chunk_type rq) tags
         then (default_both (now_ms + WRITE_ADMISSION_RUN_TRACE_TTL_MS) RunTraceDefault r1, None)
         else if should_apply_progress_summary_retention rnd (rq_chunk_type rq) tags
         then (default_both (now_ms + WRITE_ADMISSION_PROGRESS_TTL_MS) ProgressDefault r1, None)
         else (r1, None))"

definition admitted_tags :: "rounding \<Rightarrow> admission_outcome \<Rightarrow> str list \<Rightarrow> str list" where
  "admitted_tags rnd outcome tags =
     (let t1 = (if ao_warning outcome \<noteq> None then downgrade_high_priority_tags rnd tags else tags)
      in if ao_decision outcome = Ephemeral
         then foldl push_missing t1 [lit ''admission:ephemeral'', lit ''retention:short_lived'']
         else t1)"

definition prepare_write_at :: "rounding \<Rightarrow> prepare_write_request \<Rightarrow> i64 \<Rightarrow> prepared_write" where
  "prepare_write_at rnd rq now_ms =
     (let tags = normalize_tags (rq_tags rq);
          outcome = classify_write rnd (rq_chunk_type rq) (rq_text rq) tags (rq_ingestion_mode rq)
      in if ao_decision outcome = Reject
         then \<lparr>pw_outcome = outcome, pw_tags = tags, pw_priority = parse_priority rnd tags ExplicitPriority,
               pw_retention = retention_new (rq_expires_at_ms rq) (rq_review_after_ms rq),
               pw_lifecycle_tier = None, pw_trust_tier = SemanticCandidate,
               pw_ingestion_mode = rq_ingestion_mode rq\<rparr>
         else
           let (retention, lifecycle_tier) = admitted_retention rnd rq now_ms tags (ao_decision outcome);
               tags1 = admitted_tags rnd outcome tags;
               (auto_priority, tags2) =
                 (if ao_decision outcome = Durable
                  then stamp_auto_priority rnd (rq_chunk_type rq) (rq_text rq) tags1 else (None, tags1));
               priority =
                 (case auto_priority of
                    Some v \<Rightarrow> Some \<lparr>pp_value = rnd (real v), pp_source = AutomaticPriority\<rparr>
                  | None \<Rightarrow> parse_priority rnd tags2 ExplicitPriority)
           in \<lparr>pw_outcome = outcome, pw_tags = tags2, pw_priority = priority, pw_retention = retention,
               pw_lifecycle_tier = lifecycle_tier, pw_trust_tier = SemanticCandidate,
               pw_ingestion_mode = rq_ingestion_mode rq\<rparr>)"

section \<open>Tags\<close>

lemma set_keep_first: "set (keep_first seen ts) = set ts - seen"
  by (induction seen ts rule: keep_first.induct) auto

lemma distinct_keep_first: "distinct (keep_first seen ts)"
  by (induction seen ts rule: keep_first.induct) (auto simp: set_keep_first)

lemma normalize_tags_set: "set (normalize_tags tags) = trim ` set tags - {[]}"
  by (auto simp: normalize_tags_def set_keep_first)

lemma normalize_tags_distinct: "distinct (normalize_tags tags)"
  by (simp add: normalize_tags_def distinct_keep_first)

lemma find_map_opt_Some: "find_map_opt f xs = Some y \<Longrightarrow> \<exists>x \<in> set xs. f x = Some y"
  by (induction xs) (auto split: option.splits)

lemma parse_priority_high:
  assumes "parse_priority rnd tags src = Some q" and "high_priority_value (pp_value q)"
  shows "explicit_high_priority rnd tags"
  using find_map_opt_Some [OF assms(1) [unfolded parse_priority_def]] assms(2)
  by (fastforce simp: explicit_high_priority_iff tag_is_high_def split: option.splits if_splits)

lemma push_missing_high:
  "explicit_high_priority rnd (foldl push_missing tags [lit ''admission:ephemeral'', lit ''retention:short_lived''])
   \<longleftrightarrow> explicit_high_priority rnd tags"
proof -
  have "\<not> tag_is_high rnd (lit ''admission:ephemeral'')" "\<not> tag_is_high rnd (lit ''retention:short_lived'')"
    by (simp_all add: tag_is_high_def tag_priority_cases starts_with_def)
  then show ?thesis by (auto simp: push_missing_def explicit_high_priority_iff simp del: lit_simps)
qed

section \<open>The decision\<close>

lemmas outcome_defs = outcome_durable_def outcome_reject_def outcome_ephemeral_def durable_with_warning_def

lemma warning_is_durable: "ao_warning (classify_write rnd ct t tags mode) \<noteq> None
    \<Longrightarrow> ao_decision (classify_write rnd ct t tags mode) = Durable"
  by (auto simp: classify_write_def outcome_defs Let_def split: if_splits option.splits)

lemma admitted_without_warning:
  assumes "ao_decision (classify_write rnd ct t tags mode) \<noteq> Reject"
    and "ao_warning (classify_write rnd ct t tags mode) = None"
    and "explicit_high_priority rnd tags"
  shows "has_concrete_agent_action (trim t)"
  using assms by (auto simp: classify_write_def outcome_defs Let_def split: if_splits option.splits)

lemma ephemeral_only_in_conversation:
  "ao_decision (classify_write rnd ct t tags mode) = Ephemeral \<Longrightarrow>
     mode = Conversation \<and> lit ''kind:progress'' \<in> set tags \<and> \<not> has_explicit_priority rnd tags"
  by (auto simp: classify_write_def outcome_defs Let_def split: if_splits option.splits)

section \<open>The prepared write, field by field\<close>

lemma prepared_outcome:
  "pw_outcome (prepare_write_at rnd rq now) =
     classify_write rnd (rq_chunk_type rq) (rq_text rq) (normalize_tags (rq_tags rq)) (rq_ingestion_mode rq)"
  by (simp add: prepare_write_at_def Let_def case_prod_beta)

lemma prepared_admitted:
  assumes "\<not> is_rejected (prepare_write_at rnd rq now)"
    and "o1 = pw_outcome (prepare_write_at rnd rq now)" and "tags = normalize_tags (rq_tags rq)"
  shows "pw_tags (prepare_write_at rnd rq now) =
      (if ao_decision o1 = Durable
       then snd (stamp_auto_priority rnd (rq_chunk_type rq) (rq_text rq) (admitted_tags rnd o1 tags))
       else admitted_tags rnd o1 tags)"
    and "pw_retention (prepare_write_at rnd rq now) = fst (admitted_retention rnd rq now tags (ao_decision o1))"
    and "pw_lifecycle_tier (prepare_write_at rnd rq now) = snd (admitted_retention rnd rq now tags (ao_decision o1))"
  using assms by (simp_all add: is_rejected_def prepared_outcome) (simp_all add: prepare_write_at_def Let_def case_prod_beta)

lemma prepared_rejected_retention:
  "is_rejected (prepare_write_at rnd rq now) \<Longrightarrow>
     pw_retention (prepare_write_at rnd rq now) = retention_new (rq_expires_at_ms rq) (rq_review_after_ms rq)"
  by (simp add: is_rejected_def prepared_outcome) (simp add: prepare_write_at_def Let_def)

lemma prepared_priority_source:
  "pw_priority (prepare_write_at rnd rq now) = parse_priority rnd (pw_tags (prepare_write_at rnd rq now)) ExplicitPriority
   \<or> (\<exists>n tags tags'. stamp_auto_priority rnd (rq_chunk_type rq) (rq_text rq) tags = (Some n, tags')
        \<and> pw_priority (prepare_write_at rnd rq now) = Some \<lparr>pp_value = rnd (real n), pp_source = AutomaticPriority\<rparr>)"
  by (simp add: prepare_write_at_def Let_def case_prod_beta split: option.split) (metis prod.collapse)

section \<open>Retention\<close>

lemmas retention_defs = retention_new_def default_both_def default_review_def strip_defaults_def

lemma strip_defaults_cancel:
  "strip_defaults (retention_new e w) = retention_new e w"
  "strip_defaults (default_review v s (retention_new e w)) = retention_new e w"
  "strip_defaults (default_both v s (retention_new e w)) = retention_new e w"
  "strip_defaults (default_both v s (default_review v' s' (retention_new e w))) = retention_new e w"
  by (cases e; cases w; simp add: retention_defs Let_def)+

lemma strip_admitted:
  "strip_defaults (fst (admitted_retention rnd rq now tags d)) =
     retention_new (rq_expires_at_ms rq) (rq_review_after_ms rq)"
  by (simp add: admitted_retention_def Let_def strip_defaults_cancel)

definition default_expiry :: "rounding \<Rightarrow> prepare_write_request \<Rightarrow> i64 \<Rightarrow> str list \<Rightarrow> admission_decision \<Rightarrow> i64 option" where
  "default_expiry rnd rq now tags d =
     (if d = Ephemeral then Some (now + WRITE_ADMISSION_EPHEMERAL_TTL_MS)
      else if should_apply_run_trace_retention rnd (rq_chunk_type rq) tags
      then Some (now + WRITE_ADMISSION_RUN_TRACE_TTL_MS)
      else if should_apply_progress_summary_retention rnd (rq_chunk_type rq) tags
      then Some (now + WRITE_ADMISSION_PROGRESS_TTL_MS) else None)"

lemma admitted_expiry:
  "pr_expires_at_ms (fst (admitted_retention rnd rq now tags d)) =
     (case rq_expires_at_ms rq of Some e \<Rightarrow> Some e | None \<Rightarrow> default_expiry rnd rq now tags d)"
  by (simp add: admitted_retention_def default_expiry_def Let_def retention_defs split: option.split)

lemma admitted_tier:
  "snd (admitted_retention rnd rq now tags d) = (if d = Ephemeral then Some History else None)"
  by (simp add: admitted_retention_def Let_def)

section \<open>High priorities\<close>

lemma admitted_tags_high:
  assumes "f32_small rnd" and "o1 = classify_write rnd ct t tags mode" and "ao_decision o1 \<noteq> Reject"
    and "explicit_high_priority rnd (admitted_tags rnd o1 tags)"
  shows "has_concrete_agent_action (trim t)"
proof (cases "ao_warning o1")
  case None
  then have "explicit_high_priority rnd tags"
    using assms(4) push_missing_high [of rnd tags] by (auto simp: admitted_tags_def split: if_splits simp del: foldl_Cons)
  with None assms(2,3) show ?thesis using admitted_without_warning by blast
next
  case (Some w)
  then have "ao_decision o1 = Durable" using warning_is_durable assms(2) by blast
  with Some assms(4) have "explicit_high_priority rnd (downgrade_high_priority_tags rnd tags)"
    by (simp add: admitted_tags_def)
  then show ?thesis
    using f32_small.downgraded_not_high [OF assms(1)]
    by (auto simp: explicit_high_priority_iff downgrade_high_priority_tags_def)
qed

lemma prepared_tags_high:
  assumes "f32_small rnd" and "p = prepare_write_at rnd rq now" and "\<not> is_rejected p"
    and "explicit_high_priority rnd (pw_tags p)"
  shows "has_concrete_agent_action (trim (rq_text rq))"
proof -
  define o1 where "o1 = pw_outcome p"
  define tags where "tags = normalize_tags (rq_tags rq)"
  note pre = prepared_admitted [OF assms(3) [unfolded assms(2)] o1_def [unfolded assms(2)] tags_def]
  have "explicit_high_priority rnd (admitted_tags rnd o1 tags)"
    using assms(2,4) pre(1) f32_small.stamp_not_high [OF assms(1) refl] by (auto split: if_splits)
  moreover have "o1 = classify_write rnd (rq_chunk_type rq) (rq_text rq) tags (rq_ingestion_mode rq)"
    by (simp add: o1_def assms(2) prepared_outcome tags_def)
  moreover have "ao_decision o1 \<noteq> Reject" using assms(3) by (simp add: is_rejected_def o1_def)
  ultimately show ?thesis using admitted_tags_high [OF assms(1)] by blast
qed

lemma prepared_priority_high:
  assumes "f32_small rnd" and "pw_priority (prepare_write_at rnd rq now) = Some q"
    and "high_priority_value (pp_value q)"
  shows "explicit_high_priority rnd (pw_tags (prepare_write_at rnd rq now))"
  using prepared_priority_source [of rnd rq now]
proof
  assume "pw_priority (prepare_write_at rnd rq now)
      = parse_priority rnd (pw_tags (prepare_write_at rnd rq now)) ExplicitPriority"
  with assms(2,3) show ?thesis using parse_priority_high by metis
next
  assume "\<exists>n tags tags'. stamp_auto_priority rnd (rq_chunk_type rq) (rq_text rq) tags = (Some n, tags')
      \<and> pw_priority (prepare_write_at rnd rq now) = Some \<lparr>pp_value = rnd (real n), pp_source = AutomaticPriority\<rparr>"
  then obtain n tags tags' where "stamp_auto_priority rnd (rq_chunk_type rq) (rq_text rq) tags = (Some n, tags')"
    and "pp_value q = rnd (real n)" using assms(2) by auto
  moreover from f32_small.stamp_in_range [OF assms(1) this(1)] have "n \<le> 7" by simp
  ultimately show ?thesis using assms(3) f32_small.rnd_small_int [OF assms(1), of n] by simp
qed

lemma automatic_priority_low:
  assumes "f32_small rnd" and "pw_priority (prepare_write_at rnd rq now) = Some q" and "pp_source q = AutomaticPriority"
  shows "\<exists>n. 3 \<le> n \<and> n \<le> 7 \<and> pp_value q = Fin (real n)"
  using prepared_priority_source [of rnd rq now]
proof
  assume "pw_priority (prepare_write_at rnd rq now)
      = parse_priority rnd (pw_tags (prepare_write_at rnd rq now)) ExplicitPriority"
  then have "parse_priority rnd (pw_tags (prepare_write_at rnd rq now)) ExplicitPriority = Some q" using assms(2) by simp
  from find_map_opt_Some [OF this [unfolded parse_priority_def]] assms(3) show ?thesis
    by (auto split: option.splits if_splits)
next
  assume "\<exists>n tags tags'. stamp_auto_priority rnd (rq_chunk_type rq) (rq_text rq) tags = (Some n, tags')
      \<and> pw_priority (prepare_write_at rnd rq now) = Some \<lparr>pp_value = rnd (real n), pp_source = AutomaticPriority\<rparr>"
  then obtain n tags tags' where n: "stamp_auto_priority rnd (rq_chunk_type rq) (rq_text rq) tags = (Some n, tags')"
    "pp_value q = rnd (real n)" using assms(2) by auto
  with f32_small.stamp_in_range [OF assms(1) n(1)] f32_small.rnd_small_int [OF assms(1), of n] show ?thesis by auto
qed

section \<open>Properties\<close>

text \<open>
  C16. A write is admitted at priority 8 or above only with a concrete action. Whatever tags the
  caller sent, if the prepared tags of an admitted write still carry a finite priority or
  importance of at least 8, or the prepared priority has such a value, then the text contains an
  \<open>Agent action:\<close> sentence that passes the concreteness test. An automatic priority is one of
  the integers from 3 to 7. The rounding is only assumed monotone and exact on the integers up to 8.
\<close>

theorem high_priority_needs_action:
  assumes "f32_small rnd" and "p = prepare_write_at rnd rq now" and "\<not> is_rejected p"
  shows "(explicit_high_priority rnd (pw_tags p) \<or> (\<exists>q. pw_priority p = Some q \<and> high_priority_value (pp_value q)) \<longrightarrow>
            (\<exists>action \<in> set (rescan_candidates (trim (rq_text rq))). is_concrete_agent_action action))
       \<and> (\<forall>q. pw_priority p = Some q \<and> pp_source q = AutomaticPriority \<longrightarrow> (\<exists>n. 3 \<le> n \<and> n \<le> 7 \<and> pp_value q = Fin (real n)))"
proof (intro conjI impI)
  assume "explicit_high_priority rnd (pw_tags p) \<or> (\<exists>q. pw_priority p = Some q \<and> high_priority_value (pp_value q))"
  then have "has_concrete_agent_action (trim (rq_text rq))"
    using assms prepared_tags_high prepared_priority_high by metis
  then show "\<exists>action \<in> set (rescan_candidates (trim (rq_text rq))). is_concrete_agent_action action"
    by (simp add: has_concrete_agent_action_def candidates_rescan list_ex_iff)
qed (use automatic_priority_low [OF assms(1)] assms(2) in blast)

definition sample_request :: "string \<Rightarrow> string list \<Rightarrow> prepare_write_request" where
  "sample_request t tags =
     \<lparr>rq_chunk_type = Summary, rq_text = lit t, rq_tags = map lit tags, rq_ingestion_mode = Conversation,
      rq_expires_at_ms = None, rq_review_after_ms = None\<rparr>"

lemma priority_eight: "tag_priority round32 (lit ''priority:8'') = Some (Fin 8)"
proof -
  have "parse_f32 round32 (lit ''8'') = Some (round32 (real 8))"
    by (simp add: parse_f32_def strip_sign_def to_ascii_lowercase_def is_ascii_digit_def
        parse_exponent_def scale10_def dec_val_def)
  then have "tag_priority round32 (lit ''priority:'' @ lit ''8'') = Some (Fin 8)"
    using grid_small.rnd_small_int [of 8] by (simp add: tag_priority_prefixed del: lit_simps)
  then show ?thesis by simp
qed

definition sample_action :: string where
  "sample_action = ''Agent action: verify the tenant-scoped keys.''"

lemma sample_rescan: "rescan_candidates (lit sample_action) = [lit ''verify the tenant-scoped keys.'']"
  by (subst rescan_candidates.simps, simp add: action_marker_def sample_action_def text_eval until_newline_def,
      subst rescan_candidates.simps, simp add: action_marker_def text_eval)

lemma sample_concrete: "is_concrete_agent_action (lit ''verify the tenant-scoped keys.'')"
  by (simp add: is_concrete_agent_action_def contains_action_verb_def is_ascii_alphabetic_def text_eval
      ACTION_VERBS_def)

lemma sample_action_facts:
  "byte_len (lit sample_action) \<le> MAX_MEMORY_TEXT_BYTES" "trim (lit sample_action) = lit sample_action"
  "lit sample_action \<noteq> []" "\<not> is_generated_digest_wrapper (lit sample_action) [lit ''priority:8'']"
  "has_concrete_agent_action (lit sample_action)"
  "normalize_tags (map lit [''priority:8'']) = [lit ''priority:8'']"
  by (simp_all add: sample_rescan sample_concrete has_concrete_agent_action_def candidates_rescan del: lit_simps)
    (simp_all add: byte_len_def utf8_len_def sample_action_def MAX_MEMORY_TEXT_BYTES_def text_eval
      is_generated_digest_wrapper_def normalize_tags_def)

lemma sample_prepared:
  "p = prepare_write_at round32 (sample_request sample_action [''priority:8'']) 0 \<Longrightarrow>
     \<not> is_rejected p \<and> pw_tags p = [lit ''priority:8'']"
proof -
  assume p: "p = prepare_write_at round32 (sample_request sample_action [''priority:8'']) 0"
  have ex: "has_explicit_priority round32 [lit ''priority:8'']"
    by (simp add: has_explicit_priority_def priority_eight del: lit_simps)
  have "pw_outcome p = outcome_durable ''explicit priority or importance tag''"
    using sample_action_facts ex
    by (simp add: p prepared_outcome sample_request_def classify_write_def del: lit_simps)
  then have d: "ao_decision (pw_outcome p) = Durable" "ao_warning (pw_outcome p) = None"
    by (simp_all add: outcome_durable_def)
  then have nr: "\<not> is_rejected p" by (simp add: is_rejected_def)
  have "pw_tags p = [lit ''priority:8'']"
    using prepared_admitted(1) [OF nr [unfolded p] refl refl, folded p] d sample_action_facts(6) ex
    by (simp add: admitted_tags_def stamp_auto_priority_def sample_request_def del: lit_simps)
  with nr show ?thesis by simp
qed

lemma high_priority_needs_action_witness:
  "\<exists>action \<in> set (rescan_candidates (trim (lit sample_action))). is_concrete_agent_action action"
proof -
  define p where "p = prepare_write_at round32 (sample_request sample_action [''priority:8'']) 0"
  from sample_prepared [OF p_def] have "\<not> is_rejected p" and "explicit_high_priority round32 (pw_tags p)"
    by (simp_all add: explicit_high_priority_def priority_eight del: lit_simps)
  with high_priority_needs_action [OF grid_small.f32_small_axioms p_def] show ?thesis
    by (simp add: sample_request_def del: lit_simps)
qed

text \<open>
  Stripping the service's retention defaults gives back exactly what the caller asked for.
  For every request, admitted or not, the expiry and review times the caller set are in the
  prepared write unchanged, and removing the defaults leaves the retention the request alone
  would have had, with the source recorded as the caller's or none.
\<close>

lemma strip_restores_caller:
  "strip_defaults (pw_retention (prepare_write_at rnd rq now)) =
     retention_new (rq_expires_at_ms rq) (rq_review_after_ms rq)
   \<and> (rq_expires_at_ms rq = None \<or> pr_expires_at_ms (pw_retention (prepare_write_at rnd rq now)) = rq_expires_at_ms rq)"
proof (cases "is_rejected (prepare_write_at rnd rq now)")
  case True
  then show ?thesis by (simp add: prepared_rejected_retention strip_defaults_cancel) (simp add: retention_new_def)
next
  case False
  note pre = prepared_admitted(2) [OF this refl refl]
  show ?thesis by (auto simp: pre strip_admitted admitted_expiry split: option.split)
qed

text \<open>
  Who sees a new write, and until when. An admitted write stored with the default lifecycle
  and final status is served under the default policy at a time exactly when it was not admitted
  as ephemeral and the time is before its expiry, which is the caller's or else the default for
  its kind of write (14 or 30 days); an ephemeral write comes from a conversation, has the history
  tier and always expires. No other admission hides the write.
\<close>

lemma admitted_visibility:
  assumes "p = prepare_write_at rnd rq now" and "\<not> is_rejected p"
    and "l = lifecycle_apply default_lifecycle (prepared_lifecycle_delta p)"
    and "policy = \<lparr>include_superseded = False, include_expired = False, include_history = False\<rparr>"
  shows "(is_visible_at policy Final l later \<longleftrightarrow>
            ao_decision (pw_outcome p) \<noteq> Ephemeral
            \<and> (case expires_at_ms l of None \<Rightarrow> True | Some e \<Rightarrow> sint later < sint e))
         \<and> expires_at_ms l = (case rq_expires_at_ms rq of Some e \<Rightarrow> Some e
             | None \<Rightarrow> default_expiry rnd rq now (normalize_tags (rq_tags rq)) (ao_decision (pw_outcome p)))
         \<and> (ao_decision (pw_outcome p) = Ephemeral \<longrightarrow>
              rq_ingestion_mode rq = Conversation \<and> tier l = History \<and> expires_at_ms l \<noteq> None)"
proof -
  note pre = prepared_admitted(2,3) [OF assms(2) [unfolded assms(1)] refl refl, folded assms(1)]
  have e: "expires_at_ms l = pr_expires_at_ms (pw_retention p)"
    by (simp add: assms(3) lifecycle_apply_def prepared_lifecycle_delta_def default_lifecycle_def split: option.split)
  have t: "tier l = (if ao_decision (pw_outcome p) = Ephemeral then History else LongTerm)"
    by (simp add: assms(3) lifecycle_apply_def prepared_lifecycle_delta_def default_lifecycle_def pre admitted_tier)
  have x: "expires_at_ms l = (case rq_expires_at_ms rq of Some e \<Rightarrow> Some e
      | None \<Rightarrow> default_expiry rnd rq now (normalize_tags (rq_tags rq)) (ao_decision (pw_outcome p)))"
    unfolding e pre admitted_expiry ..
  have "is_visible_at policy Final l later \<longleftrightarrow> ao_decision (pw_outcome p) \<noteq> Ephemeral
      \<and> (case expires_at_ms l of None \<Rightarrow> True | Some e \<Rightarrow> sint later < sint e)"
    by (auto simp: assms(4) is_visible_at_def is_visible_def t split: option.splits)
  moreover have "rq_ingestion_mode rq = Conversation \<and> expires_at_ms l \<noteq> None"
    if "ao_decision (pw_outcome p) = Ephemeral"
    using that ephemeral_only_in_conversation
    by (auto simp: x assms(1) prepared_outcome default_expiry_def split: option.split)
  ultimately show ?thesis using x t by simp
qed

lemma sample_ephemeral:
  "ao_decision (classify_write Fin Summary (lit ''starting to inspect the code'') [lit ''kind:progress''] Conversation)
     = Ephemeral"
  "normalize_tags (map lit ['' kind:progress'']) = [lit ''kind:progress'']"
proof -
  have *: "tag_priority Fin (lit ''kind:progress'') = None"
    by (simp add: tag_priority_cases starts_with_def)
  have "durable_signal_reason Summary (lit ''starting to inspect the code'') [lit ''kind:progress''] = None"
    by (simp add: durable_signal_reason_def text_signal_reason_def contains_any_def kind_reason_def text_eval)
  moreover have "trim (lit ''starting to inspect the code'') = lit ''starting to inspect the code''"
    "\<not> is_generated_digest_wrapper (lit ''starting to inspect the code'') [lit ''kind:progress'']"
    "is_low_signal_progress (lit ''starting to inspect the code'')"
    "byte_len (lit ''starting to inspect the code'') \<le> MAX_MEMORY_TEXT_BYTES"
    by (simp_all add: text_eval is_generated_digest_wrapper_def is_low_signal_progress_def byte_len_def
        utf8_len_def MAX_MEMORY_TEXT_BYTES_def)
  moreover have "lit ''starting to inspect the code'' \<noteq> []" by simp
  ultimately show "ao_decision (classify_write Fin Summary (lit ''starting to inspect the code'')
      [lit ''kind:progress''] Conversation) = Ephemeral"
    by (simp add: classify_write_def explicit_high_priority_def has_explicit_priority_def * outcome_ephemeral_def
        del: lit_simps)
qed (simp add: normalize_tags_def text_eval)

lemma admitted_visibility_witness:
  "\<not> is_visible_at \<lparr>include_superseded = False, include_expired = False, include_history = False\<rparr> Final
      (lifecycle_apply default_lifecycle (prepared_lifecycle_delta
        (prepare_write_at Fin (sample_request ''starting to inspect the code'' ['' kind:progress'']) 1000))) 1000"
proof -
  define p where "p = prepare_write_at Fin (sample_request ''starting to inspect the code'' ['' kind:progress'']) 1000"
  have d: "ao_decision (pw_outcome p) = Ephemeral"
    using sample_ephemeral by (simp add: p_def prepared_outcome sample_request_def del: lit_simps)
  then have "\<not> is_rejected p" by (simp add: is_rejected_def)
  from admitted_visibility [OF p_def this refl refl, of 1000] d show ?thesis by (simp add: p_def)
qed

end
