(* ===== verification/Tokenizer.thy ===== *)
theory Tokenizer
  imports Memd_Text
begin

text \<open>
  The code-aware tokenizer of \<open>text/tokenizer.rs\<close>: words are cut at delimiters, words at
  camel-case boundaries, and every piece is normalised and reported with its byte span. The
  Unicode tables behind \<open>char::is_uppercase\<close>, \<open>is_lowercase\<close>, \<open>is_alphabetic\<close> and
  \<open>str::to_lowercase\<close> and the stemmer of \<open>rust_stemmers\<close> are parameters, the record
  \<open>lexicon\<close>; no property depends on what they answer.
\<close>

section \<open>Data\<close>

datatype token_type = CodeToken | ProseToken | MixedToken

record typed_token =
  tok_text :: str
  tok_type :: token_type
  offset_from :: nat
  offset_to :: nat

record lexicon =
  lx_upper :: "uchar \<Rightarrow> bool"
  lx_lower :: "uchar \<Rightarrow> bool"
  lx_alpha :: "uchar \<Rightarrow> bool"
  lx_to_lowercase :: "str \<Rightarrow> str"
  lx_stem :: "str \<Rightarrow> str"

section \<open>Character classes\<close>

definition is_separator :: "uchar \<Rightarrow> bool" where
  "is_separator c \<longleftrightarrow>
     c \<in> set (lit ''.,;:()[]{}<>'') \<or> c = 0x22 \<or> c = 0x27 \<or> c \<in> set (lit ''&|+-*/%=!?'')"

definition is_delimiter :: "uchar \<Rightarrow> bool" where
  "is_delimiter c \<longleftrightarrow> is_whitespace c \<or> c = 0x5F \<or> is_separator c"

definition is_acronym :: "lexicon \<Rightarrow> str \<Rightarrow> bool" where
  "is_acronym L s \<longleftrightarrow> 2 \<le> length s \<and> list_all (lx_upper L) s"

definition detect_token_type :: "lexicon \<Rightarrow> str \<Rightarrow> token_type" where
  "detect_token_type L token =
     (let has_upper = list_ex (lx_upper L) token;
          has_lower = list_ex (lx_lower L) token;
          all_alpha = list_all (lx_alpha L) token
      in if \<not> all_alpha then CodeToken
         else if is_acronym L token then CodeToken
         else if has_upper \<and> has_lower then CodeToken
         else if has_lower \<and> \<not> has_upper then ProseToken
         else MixedToken)"

section \<open>Splitting\<close>

text \<open>One iteration of the camel-case loop, at index \<open>i\<close> of the word.\<close>

definition camel_step :: "lexicon \<Rightarrow> str \<Rightarrow> str list \<times> str \<Rightarrow> nat \<Rightarrow> str list \<times> str" where
  "camel_step L chars st i =
     (case st of (result, current) \<Rightarrow>
        let c = chars ! i in
        if current = [] then (result, [c])
        else
          let prev_upper = lx_upper L (chars ! (i - 1));
              curr_upper = lx_upper L c;
              next_lower = (if i + 1 < length chars then lx_lower L (chars ! (i + 1)) else False);
              should_split = (if \<not> prev_upper \<and> curr_upper then True
                              else if prev_upper \<and> curr_upper \<and> next_lower then True else False)
          in if should_split then (result @ [current], [c]) else (result, current @ [c]))"

definition split_camel_case :: "lexicon \<Rightarrow> str \<Rightarrow> str list" where
  "split_camel_case L word =
     (case foldl (camel_step L word) ([], []) [0..<length word] of
        (result, current) \<Rightarrow> if current \<noteq> [] then result @ [current] else result)"

definition normalize_token :: "lexicon \<Rightarrow> str \<Rightarrow> str" where
  "normalize_token L sub =
     (case detect_token_type L sub of
        CodeToken \<Rightarrow> if is_acronym L sub then sub else lx_to_lowercase L sub
      | ProseToken \<Rightarrow> lx_stem L (lx_to_lowercase L sub)
      | MixedToken \<Rightarrow> lx_to_lowercase L sub)"

fun push_subtokens :: "lexicon \<Rightarrow> str list \<Rightarrow> nat \<Rightarrow> typed_token list \<Rightarrow> typed_token list" where
  "push_subtokens L [] pos tokens = tokens"
| "push_subtokens L (sub # subs) pos tokens =
     (if sub = [] then push_subtokens L subs pos tokens
      else let end_pos = pos + byte_len sub in
        push_subtokens L subs end_pos
          (tokens @ [\<lparr>tok_text = normalize_token L sub, tok_type = detect_token_type L sub,
                      offset_from = pos, offset_to = end_pos\<rparr>]))"

definition push_word_tokens :: "lexicon \<Rightarrow> typed_token list \<Rightarrow> str \<Rightarrow> nat \<Rightarrow> typed_token list" where
  "push_word_tokens L tokens word word_start =
     push_subtokens L (split_camel_case L word) word_start tokens"

text \<open>\<open>char_indices\<close> and slicing at byte offsets.\<close>

fun char_indices_from :: "nat \<Rightarrow> str \<Rightarrow> (nat \<times> uchar) list" where
  "char_indices_from off [] = []"
| "char_indices_from off (c # s) = (off, c) # char_indices_from (off + utf8_len c) s"

definition span_text :: "str \<Rightarrow> nat \<Rightarrow> nat \<Rightarrow> str" where
  "span_text s a b = map snd (filter (\<lambda>(i, c). a \<le> i \<and> i < b) (char_indices_from 0 s))"

definition word_step ::
  "lexicon \<Rightarrow> str \<Rightarrow> typed_token list \<times> nat option \<Rightarrow> nat \<times> uchar \<Rightarrow> typed_token list \<times> nat option" where
  "word_step L contents st ic =
     (case (st, ic) of ((tokens, word_start), (idx, ch)) \<Rightarrow>
        if is_delimiter ch
        then (case word_start of
                Some start \<Rightarrow> (push_word_tokens L tokens (span_text contents start idx) start, None)
              | None \<Rightarrow> (tokens, None))
        else if word_start = None then (tokens, Some idx)
        else (tokens, word_start))"

definition tokenize_typed :: "lexicon \<Rightarrow> str \<Rightarrow> typed_token list" where
  "tokenize_typed L contents =
     (case foldl (word_step L contents) ([], None) (char_indices_from 0 contents) of
        (tokens, word_start) \<Rightarrow>
          (case word_start of
             Some start \<Rightarrow> push_word_tokens L tokens (span_text contents start (byte_len contents)) start
           | None \<Rightarrow> tokens))"

definition tokenize :: "lexicon \<Rightarrow> str \<Rightarrow> str list" where
  "tokenize L contents = map tok_text (tokenize_typed L contents)"

section \<open>The token stream\<close>

record stream_token =
  st_text :: str
  st_offset_from :: nat
  st_offset_to :: nat
  st_position :: nat
  st_position_length :: nat

record code_token_stream =
  cts_tokens :: "typed_token list"
  cts_index :: nat
  cts_token :: stream_token

text \<open>The default token the stream starts with is the indexing library's.\<close>

definition token_stream :: "lexicon \<Rightarrow> stream_token \<Rightarrow> str \<Rightarrow> code_token_stream" where
  "token_stream L default_token contents =
     \<lparr>cts_tokens = tokenize_typed L contents, cts_index = 0, cts_token = default_token\<rparr>"

definition advance :: "code_token_stream \<Rightarrow> bool \<times> code_token_stream" where
  "advance s =
     (if length (cts_tokens s) \<le> cts_index s then (False, s)
      else let typed = cts_tokens s ! cts_index s in
        (True, s\<lparr>cts_token := \<lparr>st_text = tok_text typed, st_offset_from = offset_from typed,
                   st_offset_to = offset_to typed, st_position = cts_index s, st_position_length = 1\<rparr>,
                 cts_index := cts_index s + 1\<rparr>))"

text \<open>The consumer's loop \<open>while stream.advance() { .. stream.token() .. }\<close>.\<close>

fun drain :: "nat \<Rightarrow> code_token_stream \<Rightarrow> stream_token list" where
  "drain 0 s = []"
| "drain (Suc n) s = (case advance s of (True, s') \<Rightarrow> cts_token s' # drain n s' | (False, _) \<Rightarrow> [])"

section \<open>Bytes\<close>

lemma char_indices_append:
  "char_indices_from off (s @ t) = char_indices_from off s @ char_indices_from (off + byte_len s) t"
  by (induction s arbitrary: off) (simp_all add: add.assoc)

lemma char_indices_bounds: "(i, c) \<in> set (char_indices_from off s) \<Longrightarrow> off \<le> i \<and> i < off + byte_len s"
proof (induction s arbitrary: off)
  case (Cons d s)
  have "0 < utf8_len d" by simp
  with Cons show ?case by fastforce
qed simp

lemma map_snd_char_indices [simp]: "map snd (char_indices_from off s) = s"
  by (induction s arbitrary: off) simp_all

lemma span_text_mid:
  assumes "i = byte_len a" and "j = byte_len a + byte_len b"
  shows "span_text (a @ b @ c) i j = b"
proof -
  have "filter (\<lambda>(k, x). i \<le> k \<and> k < j) (char_indices_from 0 a) = []"
    using assms char_indices_bounds [of _ _ 0 a] by (fastforce simp: filter_empty_conv)
  moreover have "filter (\<lambda>(k, x). i \<le> k \<and> k < j) (char_indices_from (byte_len a) b) = char_indices_from (byte_len a) b"
    using assms char_indices_bounds [of _ _ "byte_len a" b] by (fastforce simp: filter_id_conv)
  moreover have "filter (\<lambda>(k, x). i \<le> k \<and> k < j) (char_indices_from (byte_len a + byte_len b) c) = []"
    using assms char_indices_bounds [of _ _ "byte_len a + byte_len b" c] by (fastforce simp: filter_empty_conv)
  ultimately show ?thesis by (simp add: span_text_def char_indices_append)
qed

section \<open>Camel case\<close>

lemma camel_step_concat:
  assumes "concat res @ cur = take i w" and "i < length w" and "[] \<notin> set res" and "cur = [] \<longrightarrow> i = 0 \<and> res = []"
  shows "case camel_step L w (res, cur) i of (res', cur') \<Rightarrow>
    concat res' @ cur' = take (Suc i) w \<and> [] \<notin> set res' \<and> cur' \<noteq> []"
  using assms by (auto simp: camel_step_def Let_def take_Suc_conv_app_nth)

lemma camel_loop:
  "n \<le> length w \<Longrightarrow> case foldl (camel_step L w) ([], []) [0..<n] of (res, cur) \<Rightarrow>
     concat res @ cur = take n w \<and> [] \<notin> set res \<and> (cur = [] \<longrightarrow> n = 0 \<and> res = [])"
proof (induction n)
  case (Suc n)
  obtain res cur where st: "foldl (camel_step L w) ([], []) [0..<n] = (res, cur)" by fastforce
  with Suc camel_step_concat [of res cur n w L] show ?case by (auto split: prod.splits)
qed simp

lemma split_camel_case_pieces: "concat (split_camel_case L w) = w \<and> [] \<notin> set (split_camel_case L w)"
  using camel_loop [of "length w" w L] by (auto simp: split_camel_case_def split: prod.splits)

section \<open>Placed pieces\<close>

text \<open>
  A list of pieces with their offsets tiles a text that starts at a given offset: before, between
  and after the pieces there are only delimiters, and the pieces are not empty and contain none.
\<close>

fun placed :: "nat \<Rightarrow> str \<Rightarrow> (nat \<times> str) list \<Rightarrow> bool" where
  "placed off s [] \<longleftrightarrow> (\<forall>c \<in> set s. is_delimiter c)"
| "placed off s ((p, w) # ps) \<longleftrightarrow>
     (\<exists>d r. s = d @ w @ r \<and> (\<forall>c \<in> set d. is_delimiter c) \<and> w \<noteq> [] \<and> (\<forall>c \<in> set w. \<not> is_delimiter c)
            \<and> p = off + byte_len d \<and> placed (p + byte_len w) r ps)"

fun place :: "nat \<Rightarrow> str list \<Rightarrow> (nat \<times> str) list" where
  "place off [] = []"
| "place off (w # ws) = (off, w) # place (off + byte_len w) ws"

lemma placed_delimiter: "is_delimiter c \<Longrightarrow> placed (off + utf8_len c) s ps \<Longrightarrow> placed off (c # s) ps"
proof (cases ps)
  case (Cons pw ps')
  assume c: "is_delimiter c" and pl: "placed (off + utf8_len c) s ps"
  obtain p w where pw: "pw = (p, w)" by (cases pw)
  with pl Cons obtain d r where "s = d @ w @ r" "\<forall>c \<in> set d. is_delimiter c" "w \<noteq> []"
    "\<forall>c \<in> set w. \<not> is_delimiter c" "p = off + utf8_len c + byte_len d" "placed (p + byte_len w) r ps'" by auto
  with c show ?thesis unfolding Cons pw placed.simps
    by (intro exI [of _ "c # d"] exI [of _ r]) (simp add: add.assoc)
qed simp

lemma placed_append:
  "[] \<notin> set ws \<Longrightarrow> \<forall>c \<in> set (concat ws). \<not> is_delimiter c \<Longrightarrow> placed (off + byte_len (concat ws)) r ps
     \<Longrightarrow> placed off (concat ws @ r) (place off ws @ ps)"
proof (induction ws arbitrary: off)
  case (Cons w ws)
  have "placed (off + byte_len w) (concat ws @ r) (place (off + byte_len w) ws @ ps)"
    using Cons by (intro Cons.IH) (simp_all add: add.assoc)
  then show ?case using Cons.prems unfolding place.simps append_Cons placed.simps
    by (rule_tac x = "[]" in exI, rule_tac x = "concat ws @ r" in exI) auto
qed simp

lemma placed_refine:
  assumes "placed off s ((p, concat ws) # ps)" and "[] \<notin> set ws"
  shows "placed off s (place p ws @ ps)"
proof -
  from assms(1) obtain d r where s: "s = d @ concat ws @ r" and d: "\<forall>c \<in> set d. is_delimiter c"
    and w: "\<forall>c \<in> set (concat ws). \<not> is_delimiter c" and p: "p = off + byte_len d"
    and r: "placed (p + byte_len (concat ws)) r ps" by auto
  have "placed p (concat ws @ r) (place p ws @ ps)" using assms(2) w r by (rule placed_append)
  then have "placed (off + byte_len d) (concat ws @ r) (place p ws @ ps)" by (simp add: p)
  with d show ?thesis unfolding s
    by (induction d arbitrary: off) (simp_all add: placed_delimiter add.assoc)
qed

section \<open>The word loop\<close>

fun segs :: "nat \<Rightarrow> str \<Rightarrow> (nat \<times> str) option \<Rightarrow> (nat \<times> str) list" where
  "segs off [] None = []"
| "segs off [] (Some sw) = [sw]"
| "segs off (c # s) None =
     (if is_delimiter c then segs (off + utf8_len c) s None else segs (off + utf8_len c) s (Some (off, [c])))"
| "segs off (c # s) (Some (st, w)) =
     (if is_delimiter c then (st, w) # segs (off + utf8_len c) s None
      else segs (off + utf8_len c) s (Some (st, w @ [c])))"

lemma segs_placed:
  "(case o1 of None \<Rightarrow> placed off s (segs off s o1)
    | Some (st, w) \<Rightarrow> st + byte_len w = off \<and> w \<noteq> [] \<and> (\<forall>c \<in> set w. \<not> is_delimiter c)
        \<longrightarrow> placed st (w @ s) (segs off s o1))"
proof (induction off s o1 rule: segs.induct)
  case (2 off sw)
  then show ?case by (cases sw) auto
next
  case (3 off c s)
  then show ?case by (auto intro: placed_delimiter)
next
  case (4 off c s st w)
  show ?case
  proof (cases "is_delimiter c")
    case True
    have "placed st (w @ c # s) ((st, w) # segs (off + utf8_len c) s None)"
      if "st + byte_len w = off" "w \<noteq> []" "\<forall>c \<in> set w. \<not> is_delimiter c"
      unfolding placed.simps using that 4(1) [OF True] True
      by (intro exI [of _ "[]"] exI [of _ "c # s"]) (auto intro: placed_delimiter)
    then show ?thesis using True by simp
  next
    case False
    then show ?thesis using 4(2) [OF False] by (auto simp: add.assoc)
  qed
qed simp

definition mk_token :: "lexicon \<Rightarrow> nat \<times> str \<Rightarrow> typed_token" where
  "mk_token L pw = (case pw of (p, w) \<Rightarrow>
     \<lparr>tok_text = normalize_token L w, tok_type = detect_token_type L w, offset_from = p, offset_to = p + byte_len w\<rparr>)"

lemma push_subtokens_place: "[] \<notin> set ws \<Longrightarrow> push_subtokens L ws p tokens = tokens @ map (mk_token L) (place p ws)"
  by (induction ws arbitrary: p tokens) (auto simp: mk_token_def Let_def)

definition word_pieces :: "lexicon \<Rightarrow> nat \<times> str \<Rightarrow> (nat \<times> str) list" where
  "word_pieces L pw = (case pw of (p, w) \<Rightarrow> place p (split_camel_case L w))"

lemma word_pieces_pair: "word_pieces L (p, w) = place p (split_camel_case L w)"
  by (simp add: word_pieces_def)

lemma push_word_tokens_pieces:
  "push_word_tokens L tokens w p = tokens @ map (mk_token L) (word_pieces L (p, w))"
  using split_camel_case_pieces [of L w] by (simp add: push_word_tokens_def push_subtokens_place word_pieces_def)

definition finish_words :: "lexicon \<Rightarrow> str \<Rightarrow> typed_token list \<times> nat option \<Rightarrow> typed_token list" where
  "finish_words L contents st =
     (case st of (tokens, word_start) \<Rightarrow>
        (case word_start of
           Some start \<Rightarrow> push_word_tokens L tokens (span_text contents start (byte_len contents)) start
         | None \<Rightarrow> tokens))"

lemma word_loop:
  "(case o1 of None \<Rightarrow> contents = pre @ s \<and> byte_len pre = off \<longrightarrow>
        finish_words L contents (foldl (word_step L contents) (tokens, None) (char_indices_from off s)) =
          tokens @ map (mk_token L) (concat (map (word_pieces L) (segs off s None)))
    | Some (st, w) \<Rightarrow> contents = pre @ w @ s \<and> byte_len pre = st \<and> st + byte_len w = off \<longrightarrow>
        finish_words L contents (foldl (word_step L contents) (tokens, Some st) (char_indices_from off s)) =
          tokens @ map (mk_token L) (concat (map (word_pieces L) (segs off s (Some (st, w))))))"
proof (induction off s o1 arbitrary: pre tokens rule: segs.induct)
  case (1 off)
  show ?case by (simp add: finish_words_def)
next
  case (2 off sw)
  show ?case using span_text_mid [of _ pre _ "snd sw" "[]"]
    by (cases sw) (auto simp: finish_words_def push_word_tokens_pieces)
next
  case (3 off c s)
  show ?case
  proof (cases "is_delimiter c")
    case True
    then show ?thesis using 3(1) [OF True, of "pre @ [c]" tokens] by (simp add: word_step_def)
  next
    case False
    then show ?thesis using 3(2) [OF False, of pre tokens] by (simp add: word_step_def)
  qed
next
  case (4 off c s st w)
  show ?case
  proof (cases "is_delimiter c")
    case True
    have "span_text contents st off = w" if "contents = pre @ w @ c # s" "byte_len pre = st" "st + byte_len w = off"
      using that span_text_mid [of st pre off w "c # s"] by simp
    then show ?thesis
      using True 4(1) [OF True, of "pre @ w @ [c]" "push_word_tokens L tokens w st"]
      by (auto simp: word_step_def push_word_tokens_pieces add.assoc)
  next
    case False
    then show ?thesis using 4(2) [OF False, of pre tokens] by (simp add: word_step_def)
  qed
qed

definition text_pieces :: "lexicon \<Rightarrow> str \<Rightarrow> (nat \<times> str) list" where
  "text_pieces L contents = concat (map (word_pieces L) (segs 0 contents None))"

lemma tokenize_typed_pieces: "tokenize_typed L contents = map (mk_token L) (text_pieces L contents)"
  using word_loop [where ?o1.0 = None and pre = "[]" and s = "contents" and off = 0 and tokens = "[]"]
  by (simp add: tokenize_typed_def finish_words_def text_pieces_def split: prod.splits option.splits)

lemma placed_word_pieces: "placed off s ps \<Longrightarrow> placed off s (concat (map (word_pieces L) ps))"
proof (induction ps arbitrary: off s)
  case (Cons pw ps)
  obtain p w where pw: "pw = (p, w)" by (cases pw)
  from Cons.prems obtain d r where *: "s = d @ w @ r" "\<forall>c \<in> set d. is_delimiter c" "w \<noteq> []"
    "\<forall>c \<in> set w. \<not> is_delimiter c" "p = off + byte_len d" "placed (p + byte_len w) r ps" by (auto simp: pw)
  then have "placed off s ((p, concat (split_camel_case L w)) # concat (map (word_pieces L) ps))"
    using Cons.IH [OF *(6)] split_camel_case_pieces [of L w] by auto
  from placed_refine [OF this] split_camel_case_pieces [of L w]
  show ?case by (simp add: pw word_pieces_pair)
qed simp

lemma text_pieces_placed: "placed 0 contents (text_pieces L contents)"
  using segs_placed [where ?o1.0 = None and off = 0 and s = "contents"] by (simp add: text_pieces_def placed_word_pieces)

section \<open>Properties\<close>

lemma placed_spans:
  "placed off s ps \<Longrightarrow> sorted_wrt (\<lambda>a b. fst a + byte_len (snd a) \<le> fst b) ps
     \<and> (\<forall>(p, w) \<in> set ps. off \<le> p \<and> w \<noteq> [] \<and> p + byte_len w \<le> off + byte_len s)
     \<and> concat (map snd ps) = filter (\<lambda>c. \<not> is_delimiter c) s"
proof (induction off s ps rule: placed.induct)
  case (2 off s p w ps)
  then obtain d r where *: "s = d @ w @ r" "\<forall>c \<in> set d. is_delimiter c" "w \<noteq> []"
    "\<forall>c \<in> set w. \<not> is_delimiter c" "p = off + byte_len d" "placed (p + byte_len w) r ps" by auto
  then have "filter (\<lambda>c. \<not> is_delimiter c) d = []" "filter (\<lambda>c. \<not> is_delimiter c) w = w"
    by (simp_all add: filter_empty_conv filter_id_conv)
  with 2(1) [of r] * show ?case by (fastforce simp: filter_empty_conv filter_id_conv)
qed simp

lemma placed_slices:
  "placed (byte_len pre) s ps \<Longrightarrow> contents = pre @ s \<Longrightarrow> (p, w) \<in> set ps \<Longrightarrow> span_text contents p (p + byte_len w) = w"
proof (induction ps arbitrary: pre s)
  case (Cons qv ps)
  obtain q v where qv: "qv = (q, v)" by (cases qv)
  from Cons.prems(1) obtain d r where *: "s = d @ v @ r" "q = byte_len pre + byte_len d"
    "placed (q + byte_len v) r ps" by (auto simp: qv)
  show ?case
  proof (cases "(p, w) = (q, v)")
    case True
    then show ?thesis using * Cons.prems(2) span_text_mid [of q "pre @ d" "q + byte_len v" v r] by simp
  next
    case False
    with Cons.prems(3) have "(p, w) \<in> set ps" by (auto simp: qv)
    then show ?thesis using Cons.IH [of "pre @ d @ v" r] * Cons.prems(2) by (simp add: add.assoc)
  qed
qed simp

text \<open>
  C35. The tokens tile the text. For every text and whatever the Unicode tables and the stemmer
  answer: the reported byte spans are not empty, lie in the text, do not overlap and appear in
  order; the characters they cover are exactly the characters of the text that are not
  delimiters; and each token's text and type are those of the slice at its own span.
\<close>

theorem tokens_tile_text:
  "sorted_wrt (\<lambda>a b. offset_to a \<le> offset_from b) (tokenize_typed L contents)
   \<and> list_all (\<lambda>t. offset_from t < offset_to t \<and> offset_to t \<le> byte_len contents
        \<and> tok_text t = normalize_token L (span_text contents (offset_from t) (offset_to t))
        \<and> tok_type t = detect_token_type L (span_text contents (offset_from t) (offset_to t))) (tokenize_typed L contents)
   \<and> concat (map (\<lambda>t. span_text contents (offset_from t) (offset_to t)) (tokenize_typed L contents))
       = filter (\<lambda>c. \<not> is_delimiter c) contents"
proof -
  note sp = placed_spans [OF text_pieces_placed [where contents = "contents" and L = L]]
  have sl: "span_text contents p (p + byte_len w) = w" if "(p, w) \<in> set (text_pieces L contents)" for p w
    using placed_slices [of "[]" "contents"] text_pieces_placed [where contents = "contents" and L = L] that by simp
  have "sorted_wrt (\<lambda>a b. offset_to a \<le> offset_from b) (tokenize_typed L contents)"
    using sp by (simp add: tokenize_typed_pieces sorted_wrt_map mk_token_def case_prod_beta)
  moreover have "list_all (\<lambda>t. offset_from t < offset_to t \<and> offset_to t \<le> byte_len contents
      \<and> tok_text t = normalize_token L (span_text contents (offset_from t) (offset_to t))
      \<and> tok_type t = detect_token_type L (span_text contents (offset_from t) (offset_to t))) (tokenize_typed L contents)"
    using sp sl by (fastforce simp: tokenize_typed_pieces list_all_iff mk_token_def)
  moreover have "map (\<lambda>t. span_text contents (offset_from t) (offset_to t)) (tokenize_typed L contents)
      = map snd (text_pieces L contents)"
    using sl by (auto simp: tokenize_typed_pieces mk_token_def)
  ultimately show ?thesis using sp by simp
qed

text \<open>
  The token stream yields every token once, in order, numbered from zero.
\<close>

lemma drain_from:
  "length (cts_tokens s) - cts_index s \<le> n \<Longrightarrow> drain n s =
     map (\<lambda>(i, t). \<lparr>st_text = tok_text t, st_offset_from = offset_from t, st_offset_to = offset_to t,
                    st_position = i, st_position_length = 1\<rparr>)
       (drop (cts_index s) (enumerate 0 (cts_tokens s)))"
proof (induction n arbitrary: s)
  case (Suc n)
  show ?case
  proof (cases "cts_index s < length (cts_tokens s)")
    case True
    define s' where "s' = snd (advance s)"
    have s': "advance s = (True, s')" "cts_tokens s' = cts_tokens s" "cts_index s' = Suc (cts_index s)"
      and t: "cts_token s' = (let t = cts_tokens s ! cts_index s in \<lparr>st_text = tok_text t,
          st_offset_from = offset_from t, st_offset_to = offset_to t, st_position = cts_index s,
          st_position_length = 1\<rparr>)"
      using True by (simp_all add: s'_def advance_def Let_def)
    have "drop (cts_index s) (enumerate 0 (cts_tokens s)) =
        (cts_index s, cts_tokens s ! cts_index s) # drop (Suc (cts_index s)) (enumerate 0 (cts_tokens s))"
      using True by (simp add: Cons_nth_drop_Suc [symmetric] nth_enumerate_eq)
    with Suc.IH [of s'] Suc.prems s' t show ?thesis by (simp add: Let_def)
  qed (simp add: advance_def)
qed simp

lemma stream_yields_tokens:
  "drain (length (tokenize_typed L contents)) (token_stream L t0 contents) =
     map (\<lambda>(i, t). \<lparr>st_text = tok_text t, st_offset_from = offset_from t, st_offset_to = offset_to t,
                    st_position = i, st_position_length = 1\<rparr>) (enumerate 0 (tokenize_typed L contents))"
  by (subst drain_from) (simp_all add: token_stream_def)

end
