(* ===== verification/Episode_Catalog.thy ===== *)
theory Episode_Catalog
  imports Memory_Store
begin

text \<open>
  What the episode and outcome operations of the \<open>Store\<close> trait promise, over a catalog that maps
  each episode id to its header and its set of candidates and each episode to its set of events.
  The locale \<open>episode_catalog\<close> is the interface: a step function that refines the catalog. The
  in-memory store (\<open>store/memory.rs\<close>) is an instance here; the SQLite tables are one in
  \<open>Sqlite_Episodes\<close>.
\<close>

section \<open>The catalog\<close>

record episode_view =
  cat_project :: "string \<Rightarrow> string \<Rightarrow> string option option"
  cat_episode :: "string \<Rightarrow> (retrieval_episode \<times> episode_item set) option"
  cat_events :: "string \<Rightarrow> outcome_event set"

datatype episode_op =
    RecordEpisode retrieval_episode "episode_item list"
  | FinalizeEpisode string string "string list"
  | LogOutcome string outcome_event

text \<open>The checks of an outcome event, over the set of candidates.\<close>

definition outcome_fits :: "string \<Rightarrow> retrieval_episode \<Rightarrow> episode_item set \<Rightarrow> outcome_event \<Rightarrow> bool" where
  "outcome_fits tenant ep I e \<longleftrightarrow>
     ep_tenant_id ep = tenant \<and> oe_episode_id e = ep_id ep
     \<and> sint (ep_created_at_ms ep) \<le> sint (oe_timestamp_ms e) \<and> sint (oe_timestamp_ms e) \<le> sint (ep_expires_at_ms ep)
     \<and> (requires_evidence (oe_verifier e) \<longrightarrow> (\<exists>r. evidence_reference e = Some r \<and> trim r \<noteq> []))
     \<and> (\<forall>r. evidence_reference e = Some r \<longrightarrow> byte_len r \<le> 2048)
     \<and> distinct (used_chunk_ids e) \<and> distinct (harmful_chunk_ids e)
     \<and> set (used_chunk_ids e) \<inter> set (harmful_chunk_ids e) = {}
     \<and> set (used_chunk_ids e) \<union> set (harmful_chunk_ids e) \<subseteq> it_chunk_id ` {i \<in> I. rendered i}
     \<and> ranking_eligible e = expected_ranking_eligibility (oe_outcome e) (oe_verifier e)
         (used_chunk_ids e \<noteq> []) (harmful_chunk_ids e \<noteq> []) (evidence_reference e)"

lemma card_set_length: "card (set xs) = length xs \<longleftrightarrow> distinct xs"
  using card_distinct distinct_card by blast

lemma validate_outcome_iff:
  "validate_outcome_event tenant ep items e = Inr () \<longleftrightarrow> outcome_fits tenant ep (set items) e"
  by (auto simp: validate_outcome_event_def outcome_fits_def Let_def card_set_length not_less
      split: option.splits)

definition serve_set :: "string list \<Rightarrow> episode_item set \<Rightarrow> episode_item set" where
  "serve_set ids I = (\<lambda>i. serve (rank_in 0 ids (it_chunk_id i)) (i\<lparr>served_rank := None, rendered := False\<rparr>)) ` I"

lemma set_served_items: "set (served_items ids items) = serve_set ids (set items)"
  by (simp add: served_items_def serve_set_def)

definition origins_ok :: "(string \<Rightarrow> string \<Rightarrow> string option option) \<Rightarrow> episode_item list \<Rightarrow> bool" where
  "origins_ok proj items \<longleftrightarrow>
     (\<forall>i \<in> set items. proj (it_origin_tenant_id i) (it_chunk_id i) = Some (it_origin_project_id i))"

definition spec_lookup :: "string \<Rightarrow> string \<Rightarrow> episode_view \<Rightarrow> (retrieval_episode \<times> episode_item set) option" where
  "spec_lookup tenant eid C =
     (case cat_episode C eid of None \<Rightarrow> None
      | Some (ep, I) \<Rightarrow> if ep_tenant_id ep = tenant then Some (ep, I) else None)"

definition renderable :: "retrieval_episode \<Rightarrow> episode_item set \<Rightarrow> string list \<Rightarrow> bool" where
  "renderable ep I ids \<longleftrightarrow> length ids \<le> requested_k ep \<and> distinct ids \<and> set ids \<subseteq> it_chunk_id ` I"

definition spec_step :: "(str \<Rightarrow> bool) \<Rightarrow> episode_op \<Rightarrow> episode_view \<Rightarrow> bool \<times> episode_view" where
  "spec_step json op1 C =
     (case op1 of
        RecordEpisode ep items \<Rightarrow>
          if validate_retrieval_episode json ep items = Inr () \<and> origins_ok (cat_project C) items
             \<and> cat_episode C (ep_id ep) = None
          then (True, C\<lparr>cat_episode := (cat_episode C)(ep_id ep \<mapsto> (ep, set items))\<rparr>)
          else (False, C)
      | FinalizeEpisode tenant eid ids \<Rightarrow>
          (case spec_lookup tenant eid C of
             None \<Rightarrow> (False, C)
           | Some (ep, I) \<Rightarrow>
               if renderable ep I ids
               then (True, C\<lparr>cat_episode := (cat_episode C)(eid \<mapsto> (ep\<lparr>rendered_k := length ids\<rparr>, serve_set ids I))\<rparr>)
               else (False, C))
      | LogOutcome tenant e \<Rightarrow>
          (case spec_lookup tenant (oe_episode_id e) C of
             None \<Rightarrow> (False, C)
           | Some (ep, I) \<Rightarrow>
               if outcome_fits tenant ep I e
               then (True, C\<lparr>cat_events := (cat_events C)(oe_episode_id e := insert e (cat_events C (oe_episode_id e)))\<rparr>)
               else (False, C)))"

text \<open>An operation whose event id no stored event has, and whose ranks fit the columns.\<close>

definition fresh_event :: "episode_op \<Rightarrow> episode_view \<Rightarrow> bool" where
  "fresh_event op1 C \<longleftrightarrow>
     (case op1 of LogOutcome tenant e \<Rightarrow> (\<forall>k. \<forall>x \<in> cat_events C k. oe_id x \<noteq> oe_id e) | _ \<Rightarrow> True)"

definition rank_fits :: "episode_item \<Rightarrow> bool" where
  "rank_fits i \<longleftrightarrow> original_rank i < 2 ^ 63 \<and> (case served_rank i of None \<Rightarrow> True | Some r \<Rightarrow> r < 2 ^ 63)
     \<and> (case shadow_rank i of None \<Rightarrow> True | Some r \<Rightarrow> r < 2 ^ 63)"

definition storable :: "episode_op \<Rightarrow> bool" where
  "storable op1 \<longleftrightarrow> (case op1 of RecordEpisode ep items \<Rightarrow> list_all rank_fits items | _ \<Rightarrow> True)"

fun run_episode_ops :: "('op \<Rightarrow> 's \<Rightarrow> bool \<times> 's) \<Rightarrow> 'op list \<Rightarrow> 's \<Rightarrow> bool list \<times> 's" where
  "run_episode_ops f [] s = ([], s)"
| "run_episode_ops f (x # xs) s = (let (ok, s1) = f x s; (oks, s2) = run_episode_ops f xs s1 in (ok # oks, s2))"

section \<open>Event ids\<close>

definition op_event_ids :: "episode_op \<Rightarrow> string list" where
  "op_event_ids op1 = (case op1 of LogOutcome tenant e \<Rightarrow> [oe_id e] | _ \<Rightarrow> [])"

definition all_event_ids :: "episode_view \<Rightarrow> string set" where
  "all_event_ids C = {oe_id e | e k. e \<in> cat_events C k}"

lemma fresh_event_ids: "set (op_event_ids op1) \<inter> all_event_ids C = {} \<Longrightarrow> fresh_event op1 C"
  by (cases op1) (auto simp: fresh_event_def op_event_ids_def all_event_ids_def)

lemma spec_step_ids: "all_event_ids (snd (spec_step json op1 C)) \<subseteq> all_event_ids C \<union> set (op_event_ids op1)"
  by (auto simp: spec_step_def all_event_ids_def op_event_ids_def split: episode_op.splits option.splits if_splits prod.splits)

section \<open>The interface\<close>

locale episode_catalog =
  fixes json :: "str \<Rightarrow> bool"
    and inv :: "'s \<Rightarrow> bool"
    and abs :: "'s \<Rightarrow> episode_view"
    and step :: "episode_op \<Rightarrow> 's \<Rightarrow> bool \<times> 's"
  assumes step_inv: "inv s \<Longrightarrow> storable op1 \<Longrightarrow> fresh_event op1 (abs s) \<Longrightarrow> inv (snd (step op1 s))"
    and step_abs: "inv s \<Longrightarrow> storable op1 \<Longrightarrow> fresh_event op1 (abs s) \<Longrightarrow>
                     spec_step json op1 (abs s) = (fst (step op1 s), abs (snd (step op1 s)))"
begin

lemma run_refines:
  assumes "inv s" and "list_all storable ops" and "distinct (concat (map op_event_ids ops))"
    and "set (concat (map op_event_ids ops)) \<inter> all_event_ids (abs s) = {}"
  shows "inv (snd (run_episode_ops step ops s))
    \<and> run_episode_ops (spec_step json) ops (abs s) = (fst (run_episode_ops step ops s), abs (snd (run_episode_ops step ops s)))"
  using assms
proof (induction ops arbitrary: s)
  case (Cons op1 ops)
  obtain ok s1 where s1: "step op1 s = (ok, s1)" by fastforce
  have f: "fresh_event op1 (abs s)" using Cons.prems(4) by (intro fresh_event_ids) auto
  have i: "inv s1" using step_inv [OF Cons.prems(1) _ f] Cons.prems(2) s1 by simp
  have a: "spec_step json op1 (abs s) = (ok, abs s1)"
    using step_abs [OF Cons.prems(1) _ f] Cons.prems(2) s1 by simp
  have "set (concat (map op_event_ids ops)) \<inter> all_event_ids (abs s1) = {}"
    using spec_step_ids [of json op1 "abs s"] a Cons.prems(3,4) by fastforce
  with Cons.IH [OF i] Cons.prems(2,3) a s1 show ?case by (auto simp: case_prod_beta)
qed simp

end

section \<open>The in-memory store\<close>

definition memory_step :: "(str \<Rightarrow> bool) \<Rightarrow> episode_op \<Rightarrow> memory_store \<Rightarrow> bool \<times> memory_store" where
  "memory_step json op1 st =
     (case op1 of
        RecordEpisode ep items \<Rightarrow> map_prod (\<lambda>r. r = Inr ()) id (record_retrieval_episode json ep items st)
      | FinalizeEpisode tenant eid ids \<Rightarrow> map_prod (\<lambda>r. r = Inr ()) id (finalize_retrieval_episode json tenant eid ids st)
      | LogOutcome tenant e \<Rightarrow> map_prod (\<lambda>r. r = Inr ()) id (record_outcome tenant e st))"

definition memory_abs :: "memory_store \<Rightarrow> episode_view" where
  "memory_abs st =
     \<lparr>cat_project = (\<lambda>t c. case map_of (ms_chunks st) t of None \<Rightarrow> None | Some cs \<Rightarrow> map_option mc_project_id (map_of cs c)),
      cat_episode = (\<lambda>k. map_option (\<lambda>(ep, items). (ep, set items)) (map_of (ms_episodes st) k)),
      cat_events = (\<lambda>k. set (or_default (map_of (ms_outcomes st) k)))\<rparr>"

lemma check_origins_iff:
  "check_origins (ms_chunks st) items = Inr () \<longleftrightarrow> origins_ok (cat_project (memory_abs st)) items"
  by (induction items) (auto simp: origins_ok_def memory_abs_def split: option.splits)

lemma memory_lookup:
  "spec_lookup tenant eid (memory_abs st) = map_option (\<lambda>(ep, items). (ep, set items)) (get_retrieval_episode tenant eid st)"
  by (auto simp: spec_lookup_def memory_abs_def get_retrieval_episode_def split: option.split)

lemma memory_abs_episode_update:
  "memory_abs (st\<lparr>ms_episodes := AList.update k (ep, items) (ms_episodes st)\<rparr>) =
     (memory_abs st)\<lparr>cat_episode := (cat_episode (memory_abs st))(k \<mapsto> (ep, set items))\<rparr>"
  by (auto simp: memory_abs_def update_conv' fun_eq_iff)

lemma memory_abs_outcome_update:
  "memory_abs (st\<lparr>ms_outcomes := AList.update k es (ms_outcomes st)\<rparr>) =
     (memory_abs st)\<lparr>cat_events := (cat_events (memory_abs st))(k := set es)\<rparr>"
  by (auto simp: memory_abs_def update_conv' or_default_def fun_eq_iff)

lemma memory_record:
  "spec_step json (RecordEpisode ep items) (memory_abs st) =
     map_prod (\<lambda>r. r = Inr ()) memory_abs (record_retrieval_episode json ep items st)"
proof -
  have "cat_episode (memory_abs st) (ep_id ep) = None \<longleftrightarrow> map_of (ms_episodes st) (ep_id ep) = None"
    by (simp add: memory_abs_def)
  then show ?thesis
    using check_origins_iff [of st items]
    by (auto simp: spec_step_def record_retrieval_episode_def memory_abs_episode_update split: sum.splits)
qed

lemma memory_finalize:
  assumes "store_ok json st"
  shows "spec_step json (FinalizeEpisode tenant eid ids) (memory_abs st) =
     map_prod (\<lambda>r. r = Inr ()) memory_abs (finalize_retrieval_episode json tenant eid ids st)"
proof (cases "get_retrieval_episode tenant eid st")
  case None
  then show ?thesis by (simp add: spec_step_def memory_lookup finalize_retrieval_episode_def)
next
  case (Some p)
  obtain ep items where p: "p = (ep, items)" by (cases p)
  have m: "map_of (ms_episodes st) eid = Some (ep, items)"
    using Some p by (auto simp: get_retrieval_episode_def split: option.splits if_splits)
  then have v: "validate_retrieval_episode json ep items = Inr ()" using assms by (simp add: store_ok_def)
  have same: "(memory_abs st)\<lparr>cat_episode := (cat_episode (memory_abs st))(eid \<mapsto> (ep, set items))\<rparr> = memory_abs st"
    using m by (auto simp: memory_abs_def fun_eq_iff)
  show ?thesis
  proof (cases "renderable ep (set items) ids")
    case True
    then have "apply_rendered_order json ep items ids = (Inr (), ep\<lparr>rendered_k := length ids\<rparr>, served_items ids items)"
      by (intro apply_rendered_order_ok(1) [OF v]) (simp_all add: renderable_def)
    with True Some p show ?thesis
      by (simp add: spec_step_def memory_lookup finalize_retrieval_episode_def memory_abs_episode_update set_served_items)
  next
    case False
    then obtain err where "apply_rendered_order json ep items ids = (Inl err, ep, items)"
      using apply_rendered_order_refused [of ids ep items json] by (auto simp: renderable_def)
    with False Some p same show ?thesis
      by (simp add: spec_step_def memory_lookup finalize_retrieval_episode_def memory_abs_episode_update)
  qed
qed

lemma memory_log:
  assumes "\<forall>k. \<forall>x \<in> cat_events (memory_abs st) k. oe_id x \<noteq> oe_id e"
  shows "spec_step json (LogOutcome tenant e) (memory_abs st) =
     map_prod (\<lambda>r. r = Inr ()) memory_abs (record_outcome tenant e st)"
proof (cases "get_retrieval_episode tenant (oe_episode_id e) st")
  case None
  then show ?thesis by (simp add: spec_step_def memory_lookup record_outcome_def)
next
  case (Some p)
  obtain ep items where p: "p = (ep, items)" by (cases p)
  have "\<not> list_ex (\<lambda>x. oe_id x = oe_id e) (or_default (map_of (ms_outcomes st) (oe_episode_id e)))"
    using assms by (auto simp: memory_abs_def list_ex_iff)
  with Some p validate_outcome_iff [of tenant ep items e] show ?thesis
    by (auto simp: spec_step_def memory_lookup record_outcome_def memory_abs_outcome_update Let_def
        split: sum.splits) (simp_all add: memory_abs_def)
qed

interpretation memory_catalog: episode_catalog json "store_ok json" memory_abs "memory_step json" for json
proof
  fix s :: memory_store and op1
  assume s: "store_ok json s" and f: "fresh_event op1 (memory_abs s)"
  show "store_ok json (snd (memory_step json op1 s))"
    using store_ok_record [OF s surjective_pairing] store_ok_finalize [OF s surjective_pairing]
      store_ok_outcome [OF s surjective_pairing]
    by (cases op1) (simp_all add: memory_step_def)
  show "spec_step json op1 (memory_abs s) = (fst (memory_step json op1 s), memory_abs (snd (memory_step json op1 s)))"
    using memory_record memory_finalize [OF s] memory_log [of s] f
    by (cases op1) (simp_all add: memory_step_def fresh_event_def map_prod_def case_prod_beta)
qed

end
