(* ===== verification/Sqlite_Episodes.thy ===== *)
theory Sqlite_Episodes
  imports Episode_Catalog
begin

text \<open>
  The episode, outcome and feedback tables of the metadata database
  (\<open>store/metadata/sqlite/episodes.rs\<close>, \<open>feedback.rs\<close>, with the keys of \<open>schema.rs\<close>). A table
  is the list of its rows in rowid order; a transaction that fails leaves every table as it was.
  Ranks are stored as signed 64-bit integers and read back only when they are not negative.
  Enumerations, identifiers and id lists are kept as values: their stored texts are read back
  exactly (\<open>stored_forms_roundtrip\<close>, \<open>outcome\<close> theories).
\<close>

section \<open>Tables\<close>

record usage_event =
  ue_ts_unix_ms :: i64
  ue_op :: string
  ue_tenant :: "string option"
  ue_project :: "string option"
  ue_outcome :: string
  ue_chunk_count :: "int option"
  ue_bytes :: "int option"
  ue_detail :: "str option"

record usage_event_record =
  ur_ts_unix_ms :: i64
  ur_op :: string
  ur_outcome :: string
  ur_chunk_count :: "int option"
  ur_bytes :: "int option"
  ur_detail :: "str option"

record episode_db =
  ed_chunks :: "chunk_metadata list"
  ed_episodes :: "retrieval_episode list"
  ed_items :: "episode_item list"
  ed_events :: "outcome_event list"
  ed_feedback :: "feedback_entry list"
  ed_usage :: "usage_event list"

text \<open>\<open>usize as i64\<close>, and the checked way back.\<close>

definition as_i64 :: "nat \<Rightarrow> int" where
  "as_i64 n = (if n < 2 ^ 63 then int n else int n - 2 ^ 64)"

definition sql_usize :: "int \<Rightarrow> memd_error + nat" where
  "sql_usize v = (if v < 0 then Inl (StorageError ''integer out of range'') else Inr (nat v))"

definition row_to_item :: "episode_item \<Rightarrow> memd_error + episode_item" where
  "row_to_item i =
     (case sql_usize (as_i64 (original_rank i)) of
        Inl e \<Rightarrow> Inl e
      | Inr r \<Rightarrow>
         (case (case served_rank i of None \<Rightarrow> Inr None | Some s \<Rightarrow> map_sum id Some (sql_usize (as_i64 s))) of
            Inl e \<Rightarrow> Inl e
          | Inr s \<Rightarrow>
             (case (case shadow_rank i of None \<Rightarrow> Inr None | Some h \<Rightarrow> map_sum id Some (sql_usize (as_i64 h))) of
                Inl e \<Rightarrow> Inl e
              | Inr h \<Rightarrow> Inr (i\<lparr>original_rank := r, served_rank := s, shadow_rank := h\<rparr>))))"

fun collect_rows :: "('a \<Rightarrow> memd_error + 'b) \<Rightarrow> 'a list \<Rightarrow> memd_error + 'b list" where
  "collect_rows f [] = Inr []"
| "collect_rows f (x # xs) =
     (case f x of Inl e \<Rightarrow> Inl e | Inr y \<Rightarrow> map_sum id ((#) y) (collect_rows f xs))"

section \<open>Episodes\<close>

definition select_episode :: "string \<Rightarrow> string \<Rightarrow> episode_db \<Rightarrow> retrieval_episode option" where
  "select_episode tenant eid db = find (\<lambda>e. ep_tenant_id e = tenant \<and> ep_id e = eid) (ed_episodes db)"

definition query_retrieval_episode_items :: "string \<Rightarrow> episode_db \<Rightarrow> memd_error + episode_item list" where
  "query_retrieval_episode_items eid db =
     collect_rows row_to_item
       (sort_by (\<lambda>a b. int_cmp (as_i64 (original_rank a)) (as_i64 (original_rank b)))
         (filter (\<lambda>i. it_episode_id i = eid) (ed_items db)))"

fun check_item_origins :: "chunk_metadata list \<Rightarrow> episode_item list \<Rightarrow> memd_error + unit" where
  "check_item_origins rows [] = Inr ()"
| "check_item_origins rows (i # is) =
     (case find (\<lambda>m. m_tenant_id m = it_origin_tenant_id i \<and> m_chunk_id m = it_chunk_id i) rows of
        None \<Rightarrow> Inl (ValidationError ''retrieval episode chunk does not belong to its origin tenant'')
      | Some m \<Rightarrow>
          if m_project_id m \<noteq> it_origin_project_id i
          then Inl (ValidationError ''retrieval episode chunk origin project does not match'')
          else check_item_origins rows is)"

text \<open>One insert into the items: primary key, uniqueness of the original rank, foreign key.\<close>

fun insert_items :: "retrieval_episode list \<Rightarrow> episode_item list \<Rightarrow> episode_item list \<Rightarrow> memd_error + episode_item list" where
  "insert_items eps [] rows = Inr rows"
| "insert_items eps (i # is) rows =
     (if list_ex (\<lambda>r. it_episode_id r = it_episode_id i \<and> it_chunk_id r = it_chunk_id i) rows
         \<or> list_ex (\<lambda>r. it_episode_id r = it_episode_id i \<and> as_i64 (original_rank r) = as_i64 (original_rank i)) rows
         \<or> \<not> list_ex (\<lambda>e. ep_id e = it_episode_id i) eps
      then Inl (StorageError ''constraint failed'')
      else insert_items eps is (rows @ [i]))"

definition insert_retrieval_episode ::
  "(str \<Rightarrow> bool) \<Rightarrow> retrieval_episode \<Rightarrow> episode_item list \<Rightarrow> episode_db \<Rightarrow> (memd_error + unit) \<times> episode_db" where
  "insert_retrieval_episode json ep items db =
     (case validate_retrieval_episode json ep items of
        Inl e \<Rightarrow> (Inl e, db)
      | Inr _ \<Rightarrow>
         (case check_item_origins (ed_chunks db) items of
            Inl e \<Rightarrow> (Inl e, db)
          | Inr _ \<Rightarrow>
             if list_ex (\<lambda>e. ep_id e = ep_id ep) (ed_episodes db)
             then (Inl (StorageError ''constraint failed''), db)
             else
               (case insert_items (ed_episodes db @ [ep]) items (ed_items db) of
                  Inl e \<Rightarrow> (Inl e, db)
                | Inr rows \<Rightarrow> (Inr (), db\<lparr>ed_episodes := ed_episodes db @ [ep], ed_items := rows\<rparr>))))"

definition sql_get_retrieval_episode ::
  "string \<Rightarrow> string \<Rightarrow> episode_db \<Rightarrow> memd_error + (retrieval_episode \<times> episode_item list) option" where
  "sql_get_retrieval_episode tenant eid db =
     (case select_episode tenant eid db of
        None \<Rightarrow> Inr None
      | Some ep \<Rightarrow> map_sum id (\<lambda>items. Some (ep, items)) (query_retrieval_episode_items eid db))"

fun update_served :: "string \<Rightarrow> nat \<Rightarrow> string list \<Rightarrow> episode_item list \<Rightarrow> episode_item list" where
  "update_served eid rank [] rows = rows"
| "update_served eid rank (c # cs) rows =
     update_served eid (rank + 1) cs
       (map (\<lambda>i. if it_episode_id i = eid \<and> it_chunk_id i = c
                 then i\<lparr>served_rank := Some rank, rendered := True\<rparr> else i) rows)"

definition sql_finalize_retrieval_episode ::
  "(str \<Rightarrow> bool) \<Rightarrow> string \<Rightarrow> string \<Rightarrow> string list \<Rightarrow> episode_db \<Rightarrow> (memd_error + unit) \<times> episode_db" where
  "sql_finalize_retrieval_episode json tenant eid ids db =
     (case select_episode tenant eid db of
        None \<Rightarrow> (Inl (ValidationError ''unknown retrieval episode for tenant''), db)
      | Some ep \<Rightarrow>
         (case query_retrieval_episode_items eid db of
            Inl e \<Rightarrow> (Inl e, db)
          | Inr items \<Rightarrow>
             (case apply_rendered_order json ep items ids of
                (Inl e, _, _) \<Rightarrow> (Inl e, db)
              | (Inr _, ep', _) \<Rightarrow>
                  (Inr (), db\<lparr>ed_episodes := map (\<lambda>e. if ep_tenant_id e = tenant \<and> ep_id e = eid
                                                       then e\<lparr>rendered_k := rendered_k ep'\<rparr> else e) (ed_episodes db),
                              ed_items := update_served eid 0 ids
                                (map (\<lambda>i. if it_episode_id i = eid then i\<lparr>served_rank := None, rendered := False\<rparr> else i)
                                  (ed_items db))\<rparr>))))"

section \<open>Outcomes\<close>

definition insert_outcome_event :: "string \<Rightarrow> outcome_event \<Rightarrow> episode_db \<Rightarrow> (memd_error + unit) \<times> episode_db" where
  "insert_outcome_event tenant e db =
     (case select_episode tenant (oe_episode_id e) db of
        None \<Rightarrow> (Inl (ValidationError ''unknown retrieval episode for tenant''), db)
      | Some ep \<Rightarrow>
         (case query_retrieval_episode_items (oe_episode_id e) db of
            Inl err \<Rightarrow> (Inl err, db)
          | Inr items \<Rightarrow>
             (case validate_outcome_event tenant ep items e of
                Inl err \<Rightarrow> (Inl err, db)
              | Inr _ \<Rightarrow>
                  if list_ex (\<lambda>x. oe_id x = oe_id e) (ed_events db)
                  then (Inl (StorageError ''constraint failed''), db)
                  else (Inr (), db\<lparr>ed_events := ed_events db @ [e]\<rparr>))))"

definition list_outcome_events_for_episode :: "string \<Rightarrow> string \<Rightarrow> episode_db \<Rightarrow> outcome_event list" where
  "list_outcome_events_for_episode tenant eid db =
     (if select_episode tenant eid db = None then []
      else sort_by (\<lambda>a b. then_with (int_cmp (sint (oe_timestamp_ms a)) (sint (oe_timestamp_ms b))) (str_cmp (oe_id a) (oe_id b)))
             (filter (\<lambda>o1. oe_episode_id o1 = eid
                \<and> list_ex (\<lambda>e. ep_id e = oe_episode_id o1 \<and> ep_tenant_id e = tenant) (ed_episodes db)) (ed_events db)))"

text \<open>The rows of the prior query: eligible events, newest first, joined with the candidates.\<close>

definition prior_rows :: "string \<Rightarrow> string option \<Rightarrow> i64 \<Rightarrow> episode_db \<Rightarrow> (outcome_event \<times> string) list" where
  "prior_rows tenant project now db =
     [(o1, it_chunk_id i).
        o1 \<leftarrow> sort_by (\<lambda>a b. then_with (int_cmp (sint (oe_timestamp_ms b)) (sint (oe_timestamp_ms a))) (str_cmp (oe_id b) (oe_id a)))
               (filter (\<lambda>o1. ranking_eligible o1 \<and> sint (oe_timestamp_ms o1) \<le> sint now
                   \<and> list_ex (\<lambda>e. ep_id e = oe_episode_id o1 \<and> ep_tenant_id e = tenant \<and> ep_project_id e = project) (ed_episodes db))
                 (ed_events db)),
        i \<leftarrow> filter (\<lambda>i. it_episode_id i = oe_episode_id o1) (ed_items db)]"

definition prior_step ::
  "prior_env \<Rightarrow> string set \<Rightarrow> prior_state \<Rightarrow> outcome_event \<times> string \<Rightarrow> prior_state" where
  "prior_step V requested s row =
     (case (s, row) of ((priors, seen), (o1, c)) \<Rightarrow>
        if c \<notin> requested then s
        else if is_legacy_codex_scanner_outcome (oe_outcome o1) (oe_verifier o1) (evidence_reference o1) then s
        else case attribution o1 of
            None \<Rightarrow> s
          | Some (positive, attributed) \<Rightarrow>
              if c \<notin> set attributed \<or> (oe_episode_id o1, c) \<in> seen then s
              else (AList.update c
                      (prior_add (pv_rnd V) positive (decayed_outcome_weight (pv_pow2 V) (oe_timestamp_ms o1) (pv_now V))
                         (oe_timestamp_ms o1)
                         (case map_of priors c of None \<Rightarrow> prior_new c | Some p \<Rightarrow> p)) priors,
                    insert (oe_episode_id o1, c) seen))"

definition sql_outcome_priors ::
  "prior_env \<Rightarrow> string \<Rightarrow> string option \<Rightarrow> string list \<Rightarrow> episode_db \<Rightarrow> outcome_prior list" where
  "sql_outcome_priors V tenant project chunk_ids db =
     (if chunk_ids = [] then []
      else sort_by (\<lambda>a b. str_cmp (op_chunk_id a) (op_chunk_id b))
             (map snd (fst (foldl (prior_step V (set chunk_ids)) ([], {}) (prior_rows tenant project (pv_now V) db)))))"

text \<open>Rendered exposures per chunk: the count, clamped to 32 bits, and the newest creation time.\<close>

definition rendered_rows :: "i64 \<Rightarrow> string option \<Rightarrow> string option \<Rightarrow> episode_db \<Rightarrow> (string \<times> i64) list" where
  "rendered_rows since tenant project db =
     [(it_chunk_id i, ep_created_at_ms e).
        i \<leftarrow> filter rendered (ed_items db),
        e \<leftarrow> filter (\<lambda>e. ep_id e = it_episode_id i \<and> sint since \<le> sint (ep_created_at_ms e)
                \<and> (case tenant of None \<Rightarrow> True | Some t \<Rightarrow> ep_tenant_id e = t)
                \<and> (case project of None \<Rightarrow> True | Some p \<Rightarrow> ep_project_id e = Some p)) (ed_episodes db)]"

definition retrieval_exposure_stats_since ::
  "i64 \<Rightarrow> string option \<Rightarrow> string option \<Rightarrow> episode_db \<Rightarrow> (string \<times> nat \<times> int) list" where
  "retrieval_exposure_stats_since since tenant project db =
     (let rows = rendered_rows since tenant project db
      in map (\<lambda>(c, n, t). (c, min n (2 ^ 32 - 1), t))
           (sort_by (\<lambda>a b. then_with (int_cmp (int (fst (snd b))) (int (fst (snd a)))) (str_cmp (fst a) (fst b)))
             (map (\<lambda>c. let own = filter (\<lambda>r. fst r = c) rows
                        in (c, length own, Max (set (map (\<lambda>r. sint (snd r)) own)))) (remdups (map fst rows)))))"

section \<open>Feedback and usage\<close>

definition relevance_to_int :: "relevance_label \<Rightarrow> int" where
  "relevance_to_int r = (case r of Relevant \<Rightarrow> 1 | Irrelevant \<Rightarrow> -1)"

definition int_to_relevance :: "int \<Rightarrow> relevance_label" where
  "int_to_relevance v = (if v < 0 then Irrelevant else Relevant)"

definition insert_feedback :: "feedback_entry \<Rightarrow> episode_db \<Rightarrow> episode_db" where
  "insert_feedback f db = db\<lparr>ed_feedback := ed_feedback db @ [f]\<rparr>"

text \<open>Rows with equal times come in rowid order, as the index delivers them.\<close>

definition list_feedback_for_query ::
  "(str \<Rightarrow> str) \<Rightarrow> (str \<Rightarrow> str) \<Rightarrow> string \<Rightarrow> str \<Rightarrow> nat \<Rightarrow> episode_db \<Rightarrow> feedback_entry list" where
  "list_feedback_for_query lower sha tenant query limit db =
     (let normalized = normalize_query lower query in
      if normalized = [] \<or> limit = 0 then []
      else let h = stable_query_hash sha normalized in
        map (\<lambda>f. f\<lparr>fe_tenant_id := tenant, fe_relevance := int_to_relevance (relevance_to_int (fe_relevance f))\<rparr>)
          (take limit (sort_by (\<lambda>a b. int_cmp (sint (fe_timestamp_ms b)) (sint (fe_timestamp_ms a)))
            (filter (\<lambda>f. fe_tenant_id f = tenant \<and> fe_query_hash f = h) (ed_feedback db)))))"

definition insert_usage_event :: "usage_event \<Rightarrow> episode_db \<Rightarrow> episode_db" where
  "insert_usage_event u db = db\<lparr>ed_usage := ed_usage db @ [u]\<rparr>"

definition usage_record :: "usage_event \<Rightarrow> usage_event_record" where
  "usage_record u = \<lparr>ur_ts_unix_ms = ue_ts_unix_ms u, ur_op = ue_op u, ur_outcome = ue_outcome u,
     ur_chunk_count = ue_chunk_count u, ur_bytes = ue_bytes u, ur_detail = ue_detail u\<rparr>"

definition usage_events_since :: "i64 \<Rightarrow> string option \<Rightarrow> string option \<Rightarrow> episode_db \<Rightarrow> usage_event_record list" where
  "usage_events_since since tenant project db =
     map usage_record (sort_by (\<lambda>a b. int_cmp (sint (ue_ts_unix_ms a)) (sint (ue_ts_unix_ms b)))
       (filter (\<lambda>u. sint since \<le> sint (ue_ts_unix_ms u)
           \<and> (case tenant of None \<Rightarrow> True | Some t \<Rightarrow> ue_tenant u = Some t)
           \<and> (case project of None \<Rightarrow> True | Some p \<Rightarrow> ue_project u = Some p)) (ed_usage db)))"

definition usage_ledger_stats :: "episode_db \<Rightarrow> nat \<times> int option" where
  "usage_ledger_stats db =
     (length (ed_usage db),
      if ed_usage db = [] then None else Some (Min (set (map (\<lambda>u. sint (ue_ts_unix_ms u)) (ed_usage db)))))"

definition sweep_usage_events_before :: "i64 \<Rightarrow> episode_db \<Rightarrow> nat \<times> episode_db" where
  "sweep_usage_events_before cutoff db =
     (let old = (\<lambda>u. sint (ue_ts_unix_ms u) < sint cutoff)
      in (length (filter old (ed_usage db)), db\<lparr>ed_usage := filter (\<lambda>u. \<not> old u) (ed_usage db)\<rparr>))"

definition lifecycle_status_counts_since ::
  "i64 \<Rightarrow> string option \<Rightarrow> string option \<Rightarrow> episode_db \<Rightarrow> (string \<times> nat) list" where
  "lifecycle_status_counts_since since tenant project db =
     (let rows = filter (\<lambda>m. sint since \<le> sint (lifecycle_updated_at_ms (m_lifecycle m))
                   \<and> (m_status m = Expired \<or> m_status m = Superseded)
                   \<and> (case tenant of None \<Rightarrow> True | Some t \<Rightarrow> m_tenant_id m = t)
                   \<and> (case project of None \<Rightarrow> True | Some p \<Rightarrow> m_project_id m = Some p)) (ed_chunks db)
      in map (\<lambda>s. (chunk_status_str s, length (filter (\<lambda>m. m_status m = s) rows)))
           (filter (\<lambda>s. list_ex (\<lambda>m. m_status m = s) rows) [Expired, Superseded]))"

section \<open>Reading rows\<close>

lemma row_to_item_fits: "rank_fits i \<Longrightarrow> row_to_item i = Inr i"
  by (cases "served_rank i"; cases "shadow_rank i")
    (simp_all add: rank_fits_def row_to_item_def as_i64_def sql_usize_def)

lemma collect_rows_id: "\<forall>x \<in> set xs. f x = Inr x \<Longrightarrow> collect_rows f xs = Inr xs"
  by (induction xs) simp_all

lemma as_i64_inj: "a < 2 ^ 63 \<Longrightarrow> b < 2 ^ 63 \<Longrightarrow> as_i64 a = as_i64 b \<longleftrightarrow> a = b"
  by (simp add: as_i64_def)

text \<open>Validation does not depend on the order of the candidates.\<close>

lemma mset_ranks: "mset xs = mset ys \<Longrightarrow> mset (ranks f xs) = mset (ranks f ys)"
  unfolding ranks_def List.map_filter_def by (metis mset_filter mset_map)

lemma distinct_mset_map: "mset xs = mset ys \<Longrightarrow> distinct (map f xs) \<longleftrightarrow> distinct (map f ys)"
  by (metis mset_eq_imp_distinct_iff mset_map)

lemma validate_mset:
  assumes "mset xs = mset ys"
  shows "validate_retrieval_episode json ep xs = Inr () \<longleftrightarrow> validate_retrieval_episode json ep ys = Inr ()"
proof -
  have "set xs = set ys" "length xs = length ys" "length (filter rendered xs) = length (filter rendered ys)"
    using assms by (metis set_mset_mset, metis size_mset, metis mset_filter size_mset)
  moreover have "distinct (ranks served_rank xs) \<longleftrightarrow> distinct (ranks served_rank ys)"
    "distinct (ranks shadow_rank xs) \<longleftrightarrow> distinct (ranks shadow_rank ys)"
    using mset_ranks [OF assms] mset_eq_imp_distinct_iff by blast+
  ultimately show ?thesis
    using distinct_mset_map [OF assms, of it_chunk_id] distinct_mset_map [OF assms, of original_rank]
    by (simp add: validate_episode_iff validate_items_iff header_ok_def)
qed

section \<open>The invariant of the tables\<close>

abbreviation items_of :: "string \<Rightarrow> episode_item list \<Rightarrow> episode_item list" where
  "items_of k rows \<equiv> filter (\<lambda>i. it_episode_id i = k) rows"

definition sql_ok :: "(str \<Rightarrow> bool) \<Rightarrow> episode_db \<Rightarrow> bool" where
  "sql_ok json db \<longleftrightarrow>
     distinct (map ep_id (ed_episodes db))
     \<and> (\<forall>ep \<in> set (ed_episodes db). validate_retrieval_episode json ep (items_of (ep_id ep) (ed_items db)) = Inr ())
     \<and> (\<forall>i \<in> set (ed_items db). rank_fits i \<and> it_episode_id i \<in> ep_id ` set (ed_episodes db))
     \<and> distinct (map oe_id (ed_events db))"

definition sql_abs :: "episode_db \<Rightarrow> episode_view" where
  "sql_abs db =
     \<lparr>cat_project = (\<lambda>t c. map_option m_project_id (find (\<lambda>m. m_tenant_id m = t \<and> m_chunk_id m = c) (ed_chunks db))),
      cat_episode = (\<lambda>k. map_option (\<lambda>ep. (ep, set (items_of k (ed_items db)))) (find (\<lambda>e. ep_id e = k) (ed_episodes db))),
      cat_events = (\<lambda>k. {e \<in> set (ed_events db). oe_episode_id e = k})\<rparr>"

lemma query_items:
  assumes "sql_ok json db"
  obtains items where "query_retrieval_episode_items k db = Inr items" and "mset items = mset (items_of k (ed_items db))"
proof
  let ?s = "sort_by (\<lambda>a b. int_cmp (as_i64 (original_rank a)) (as_i64 (original_rank b))) (items_of k (ed_items db))"
  show "query_retrieval_episode_items k db = Inr ?s"
    using assms unfolding query_retrieval_episode_items_def
    by (intro collect_rows_id) (auto simp: sql_ok_def row_to_item_fits)
qed simp

lemma find_by_id:
  "distinct (map ep_id eps) \<Longrightarrow> find (\<lambda>e. ep_tenant_id e = t \<and> ep_id e = k) eps =
     (case find (\<lambda>e. ep_id e = k) eps of None \<Rightarrow> None | Some e \<Rightarrow> if ep_tenant_id e = t then Some e else None)"
proof (induction eps)
  case (Cons e eps)
  have "find (\<lambda>e. ep_tenant_id e = t \<and> ep_id e = k) eps = None" if "ep_id e = k"
    using Cons.prems that by (auto simp: find_None_iff image_iff)
  with Cons show ?case by auto
qed simp

lemma select_lookup:
  assumes "sql_ok json db"
  shows "spec_lookup tenant k (sql_abs db) =
    map_option (\<lambda>ep. (ep, set (items_of k (ed_items db)))) (select_episode tenant k db)"
  using assms find_by_id [of "ed_episodes db" tenant k]
  by (auto simp: sql_ok_def spec_lookup_def sql_abs_def select_episode_def split: option.split)

lemma select_episode_facts:
  assumes "sql_ok json db" and "select_episode tenant k db = Some ep"
  shows "ep \<in> set (ed_episodes db)" "ep_id ep = k" "ep_tenant_id ep = tenant"
    and "validate_retrieval_episode json ep (items_of k (ed_items db)) = Inr ()"
  using assms by (auto simp: select_episode_def sql_ok_def find_Some_iff)

section \<open>Recording an episode\<close>

lemma check_item_origins_iff:
  "check_item_origins (ed_chunks db) items = Inr () \<longleftrightarrow> origins_ok (cat_project (sql_abs db)) items"
  by (induction items) (auto simp: origins_ok_def sql_abs_def split: option.splits)

lemma insert_items_ok:
  assumes "\<forall>i \<in> set is. it_episode_id i = k \<and> rank_fits i" and "list_ex (\<lambda>e. ep_id e = k) eps"
    and "\<forall>r \<in> set old. it_episode_id r \<noteq> k" and "\<forall>i \<in> set new. rank_fits i"
    and "distinct (map it_chunk_id (new @ is))" and "distinct (map original_rank (new @ is))"
  shows "insert_items eps is (old @ new) = Inr (old @ new @ is)"
  using assms
proof (induction "is" arbitrary: new)
  case (Cons i "is")
  have "\<not> list_ex (\<lambda>r. it_episode_id r = it_episode_id i \<and> it_chunk_id r = it_chunk_id i) (old @ new)"
    using Cons.prems by (auto simp: list_ex_iff image_iff)
  moreover have "as_i64 (original_rank r) \<noteq> as_i64 (original_rank i)" if "r \<in> set new" for r
  proof -
    have "original_rank r < 2 ^ 63" "original_rank i < 2 ^ 63" using Cons.prems(1,4) that by (auto simp: rank_fits_def)
    moreover have "original_rank r \<noteq> original_rank i" using Cons.prems(6) that by (auto simp: image_iff)
    ultimately show ?thesis by (simp add: as_i64_inj)
  qed
  then have "\<not> list_ex (\<lambda>r. it_episode_id r = it_episode_id i \<and> as_i64 (original_rank r) = as_i64 (original_rank i)) (old @ new)"
    using Cons.prems(1,3) by (auto simp: list_ex_iff)
  moreover have "insert_items eps is (old @ (new @ [i])) = Inr (old @ (new @ [i]) @ is)"
    using Cons.prems by (intro Cons.IH) auto
  ultimately show ?case using Cons.prems(1,2) by simp
qed simp

lemma valid_items_facts:
  assumes "validate_retrieval_episode json ep items = Inr ()"
  shows "\<forall>i \<in> set items. it_episode_id i = ep_id ep" "distinct (map it_chunk_id items)" "distinct (map original_rank items)"
  using assms by (auto simp: validate_episode_iff validate_items_iff item_ok_def)

lemma no_items_of_new:
  "sql_ok json db \<Longrightarrow> k \<notin> ep_id ` set (ed_episodes db) \<Longrightarrow> items_of k (ed_items db) = []"
  by (auto simp: sql_ok_def filter_empty_conv)

lemma insert_episode_result:
  assumes "sql_ok json db" and "list_all rank_fits items"
  shows "if validate_retrieval_episode json ep items = Inr () \<and> origins_ok (cat_project (sql_abs db)) items
          \<and> ep_id ep \<notin> ep_id ` set (ed_episodes db)
    then insert_retrieval_episode json ep items db =
        (Inr (), db\<lparr>ed_episodes := ed_episodes db @ [ep], ed_items := ed_items db @ items\<rparr>)
    else snd (insert_retrieval_episode json ep items db) = db \<and> fst (insert_retrieval_episode json ep items db) \<noteq> Inr ()"
proof (cases "validate_retrieval_episode json ep items = Inr () \<and> origins_ok (cat_project (sql_abs db)) items
    \<and> ep_id ep \<notin> ep_id ` set (ed_episodes db)")
  case True
  have "\<forall>r \<in> set (ed_items db). it_episode_id r \<noteq> ep_id ep"
    using no_items_of_new [OF assms(1), of "ep_id ep"] True by (simp add: filter_empty_conv)
  then have "insert_items (ed_episodes db @ [ep]) items (ed_items db @ []) = Inr (ed_items db @ [] @ items)"
    using valid_items_facts [of json ep items] assms(2) True
    by (intro insert_items_ok [where k = "ep_id ep"]) (auto simp: list_all_iff)
  moreover have "\<not> list_ex (\<lambda>e. ep_id e = ep_id ep) (ed_episodes db)" using True by (auto simp: list_ex_iff image_iff)
  ultimately show ?thesis
    using True check_item_origins_iff [of db items] by (simp add: insert_retrieval_episode_def)
next
  case False
  then show ?thesis using check_item_origins_iff [of db items]
    by (auto simp: insert_retrieval_episode_def list_ex_iff image_iff split: sum.splits)
qed


lemma find_append: "find P (xs @ ys) = (case find P xs of None \<Rightarrow> find P ys | Some x \<Rightarrow> Some x)"
  by (induction xs) simp_all

lemma sql_record_abs:
  assumes "sql_ok json db" and "validate_retrieval_episode json ep items = Inr ()" and "ep_id ep \<notin> ep_id ` set (ed_episodes db)"
  shows "sql_abs (db\<lparr>ed_episodes := ed_episodes db @ [ep], ed_items := ed_items db @ items\<rparr>) =
      (sql_abs db)\<lparr>cat_episode := (cat_episode (sql_abs db))(ep_id ep \<mapsto> (ep, set items))\<rparr>"
proof -
  have f: "find (\<lambda>e. ep_id e = ep_id ep) (ed_episodes db) = None" using assms(3) by (auto simp: find_None_iff image_iff)
  have own: "items_of (ep_id ep) (ed_items db) = []" "items_of (ep_id ep) items = items"
    using no_items_of_new [OF assms(1,3)] valid_items_facts(1) [OF assms(2)] by (auto intro: filter_True)
  have other: "items_of k items = []" if "k \<noteq> ep_id ep" for k
    using valid_items_facts(1) [OF assms(2)] that by (auto simp: filter_empty_conv)
  have "cat_episode (sql_abs (db\<lparr>ed_episodes := ed_episodes db @ [ep], ed_items := ed_items db @ items\<rparr>)) k =
      ((cat_episode (sql_abs db))(ep_id ep \<mapsto> (ep, set items))) k" for k
  proof (cases "k = ep_id ep")
    case True
    then show ?thesis unfolding sql_abs_def using f own by (simp add: find_append del: set_filter)
  next
    case False
    then show ?thesis unfolding sql_abs_def using other [of k]
      by (simp add: find_append del: set_filter split: option.split)
  qed
  then show ?thesis by (intro episode_view.equality) (simp_all add: sql_abs_def fun_eq_iff)
qed

lemma sql_record_ok:
  assumes "sql_ok json db" and "validate_retrieval_episode json ep items = Inr ()" and "ep_id ep \<notin> ep_id ` set (ed_episodes db)"
    and "list_all rank_fits items"
  shows "sql_ok json (db\<lparr>ed_episodes := ed_episodes db @ [ep], ed_items := ed_items db @ items\<rparr>)"
proof -
  have own: "items_of (ep_id ep) (ed_items db) = []" "items_of (ep_id ep) items = items"
    using no_items_of_new [OF assms(1,3)] valid_items_facts(1) [OF assms(2)] by (auto intro: filter_True)
  have other: "items_of (ep_id e) items = []" if "e \<in> set (ed_episodes db)" for e
    using valid_items_facts(1) [OF assms(2)] assms(3) that by (auto simp: filter_empty_conv)
  show ?thesis using assms own other valid_items_facts(1) [OF assms(2)] unfolding sql_ok_def by (auto simp: list_all_iff)
qed

section \<open>Finalizing an episode\<close>

lemma update_served_map:
  "distinct ids \<Longrightarrow> update_served eid r ids rows =
     map (\<lambda>i. if it_episode_id i = eid then serve (rank_in r ids (it_chunk_id i)) i else i) rows"
proof (induction ids arbitrary: r rows)
  case (Cons c cs)
  have none: "rank_in (Suc r) cs c = None" using Cons.prems by (simp add: rank_in_None)
  show ?case using Cons.prems none by (auto simp: Cons.IH serve_def)
qed (auto intro!: map_idI [symmetric])

lemma serve_episode [simp]: "it_episode_id (serve k i) = it_episode_id i"
  by (simp add: serve_def split: option.split)

definition reserve :: "string \<Rightarrow> string list \<Rightarrow> episode_item \<Rightarrow> episode_item" where
  "reserve eid ids i =
     (if it_episode_id i = eid then serve (rank_in 0 ids (it_chunk_id i)) (i\<lparr>served_rank := None, rendered := False\<rparr>) else i)"

lemma finalized_rows:
  "distinct ids \<Longrightarrow> update_served eid 0 ids (map (\<lambda>i. if it_episode_id i = eid then i\<lparr>served_rank := None, rendered := False\<rparr> else i) rows)
     = map (reserve eid ids) rows"
  by (simp add: update_served_map reserve_def comp_def)

lemma reserve_episode [simp]: "it_episode_id (reserve eid ids i) = it_episode_id i"
  by (simp add: reserve_def)

lemma finalized_items:
  "items_of k (map (reserve eid ids) rows) = (if k = eid then served_items ids (items_of eid rows) else items_of k rows)"
proof -
  have "items_of k (map (reserve eid ids) rows) = map (reserve eid ids) (items_of k rows)"
    by (simp add: filter_map comp_def)
  also have "\<dots> = (if k = eid then served_items ids (items_of eid rows) else items_of k rows)"
    by (auto simp: served_items_def reserve_def intro!: map_cong map_idI)
  finally show ?thesis .
qed

definition finalized :: "string \<Rightarrow> string \<Rightarrow> string list \<Rightarrow> episode_db \<Rightarrow> episode_db" where
  "finalized tenant eid ids db =
     db\<lparr>ed_episodes := map (\<lambda>e. if ep_tenant_id e = tenant \<and> ep_id e = eid
                               then e\<lparr>rendered_k := length ids\<rparr> else e) (ed_episodes db),
        ed_items := map (reserve eid ids) (ed_items db)\<rparr>"

lemma sql_finalize_result:
  assumes ok: "sql_ok json db"
  shows "if \<exists>ep. select_episode tenant eid db = Some ep \<and> renderable ep (set (items_of eid (ed_items db))) ids
    then sql_finalize_retrieval_episode json tenant eid ids db = (Inr (), finalized tenant eid ids db)
    else snd (sql_finalize_retrieval_episode json tenant eid ids db) = db
      \<and> fst (sql_finalize_retrieval_episode json tenant eid ids db) \<noteq> Inr ()"
proof (cases "select_episode tenant eid db")
  case None
  then show ?thesis by (simp add: sql_finalize_retrieval_episode_def)
next
  case (Some ep)
  obtain items where q: "query_retrieval_episode_items eid db = Inr items"
    and m: "mset items = mset (items_of eid (ed_items db))" using query_items [OF ok] .
  have s: "set items = set (items_of eid (ed_items db))" using m by (metis set_mset_mset)
  have v: "validate_retrieval_episode json ep items = Inr ()"
    using select_episode_facts(4) [OF ok Some] validate_mset [OF m] by simp
  show ?thesis
  proof (cases "renderable ep (set items) ids")
    case True
    then have "apply_rendered_order json ep items ids = (Inr (), ep\<lparr>rendered_k := length ids\<rparr>, served_items ids items)"
      by (intro apply_rendered_order_ok(1) [OF v]) (simp_all add: renderable_def)
    moreover have "distinct ids" using True by (simp add: renderable_def)
    ultimately show ?thesis using True Some q s
      by (simp add: sql_finalize_retrieval_episode_def finalized_def finalized_rows)
  next
    case False
    then obtain err where "apply_rendered_order json ep items ids = (Inl err, ep, items)"
      using apply_rendered_order_refused [of ids ep items json] by (auto simp: renderable_def)
    with False Some q s show ?thesis by (simp add: sql_finalize_retrieval_episode_def)
  qed
qed

lemma find_map_id:
  "(\<And>e. ep_id (f e) = ep_id e) \<Longrightarrow> find (\<lambda>e. ep_id e = k) (map f eps) = map_option f (find (\<lambda>e. ep_id e = k) eps)"
  by (induction eps) simp_all

lemma sql_finalize_abs:
  assumes "sql_ok json db" and "select_episode tenant eid db = Some ep" and "distinct ids"
  shows "sql_abs (finalized tenant eid ids db) =
      (sql_abs db)\<lparr>cat_episode := (cat_episode (sql_abs db))(eid \<mapsto>
          (ep\<lparr>rendered_k := length ids\<rparr>, serve_set ids (set (items_of eid (ed_items db)))))\<rparr>"
proof -
  let ?f = "\<lambda>e. if ep_tenant_id e = tenant \<and> ep_id e = eid then e\<lparr>rendered_k := length ids\<rparr> else e"
  have find: "find (\<lambda>e. ep_id e = k) (map ?f (ed_episodes db)) = map_option ?f (find (\<lambda>e. ep_id e = k) (ed_episodes db))" for k
    by (rule find_map_id) simp
  have self: "find (\<lambda>e. ep_id e = eid) (ed_episodes db) = Some ep"
    using assms(1,2) find_by_id [of "ed_episodes db" tenant eid]
    by (auto simp: sql_ok_def select_episode_def split: option.splits if_splits)
  have other: "map_option ?f (find (\<lambda>e. ep_id e = k) (ed_episodes db)) = find (\<lambda>e. ep_id e = k) (ed_episodes db)" if "k \<noteq> eid" for k
  proof (cases "find (\<lambda>e. ep_id e = k) (ed_episodes db)")
    case (Some e)
    then have "ep_id e \<noteq> eid" using Some that by (auto simp: find_Some_iff)
    with Some show ?thesis by simp
  qed simp
  have ep: "?f ep = ep\<lparr>rendered_k := length ids\<rparr>" using select_episode_facts [OF assms(1,2)] by simp
  have "cat_episode (sql_abs (finalized tenant eid ids db)) k = ((cat_episode (sql_abs db))(eid \<mapsto>
          (ep\<lparr>rendered_k := length ids\<rparr>, serve_set ids (set (items_of eid (ed_items db)))))) k" for k
    using self other [of k] ep
    by (cases "k = eid") (simp_all add: sql_abs_def finalized_def find finalized_items set_served_items del: set_filter)
  moreover have "cat_project (sql_abs (finalized tenant eid ids db)) = cat_project (sql_abs db)"
    "cat_events (sql_abs (finalized tenant eid ids db)) = cat_events (sql_abs db)"
    by (simp_all add: sql_abs_def finalized_def)
  ultimately show ?thesis by (intro episode_view.equality) (simp_all add: fun_eq_iff)
qed

lemma rank_in_less: "rank_in m ids c = Some r \<Longrightarrow> r < m + length ids"
proof (induction ids arbitrary: m)
  case (Cons a ids)
  then show ?case using Cons.IH [of "Suc m"] by (auto split: if_splits)
qed simp

lemma reserve_fits:
  assumes "rank_fits i" and "length ids \<le> 200"
  shows "rank_fits (reserve eid ids i)"
proof (cases "rank_in 0 ids (it_chunk_id i)")
  case (Some r)
  with rank_in_less [OF Some] assms show ?thesis by (simp add: reserve_def rank_fits_def serve_def)
qed (use assms in \<open>simp add: reserve_def rank_fits_def\<close>)

lemma sql_finalize_ok:
  assumes ok: "sql_ok json db" and sel: "select_episode tenant eid db = Some ep"
    and r: "renderable ep (set (items_of eid (ed_items db))) ids"
  shows "sql_ok json (finalized tenant eid ids db)"
proof -
  note facts = select_episode_facts [OF ok sel]
  have d: "distinct ids" using r by (simp add: renderable_def)
  have short: "length ids \<le> 200" using r facts(4) by (auto simp: renderable_def validate_episode_iff header_ok_def)
  have v: "validate_retrieval_episode json (ep\<lparr>rendered_k := length ids\<rparr>) (served_items ids (items_of eid (ed_items db))) = Inr ()"
    using r by (intro apply_rendered_order_ok(2) [OF facts(4)]) (simp_all add: renderable_def)
  have uniq: "e = ep" if "e \<in> set (ed_episodes db)" "ep_id e = eid" for e
    using ok facts(1,2) that unfolding sql_ok_def by (metis inj_onD distinct_map)
  have ids: "map ep_id (ed_episodes (finalized tenant eid ids db)) = map ep_id (ed_episodes db)"
    by (simp add: finalized_def)
  have "validate_retrieval_episode json e (items_of (ep_id e) (map (reserve eid ids) (ed_items db))) = Inr ()"
    if "e \<in> set (ed_episodes (finalized tenant eid ids db))" for e
  proof -
    obtain e0 where e0: "e0 \<in> set (ed_episodes db)"
      "e = (if ep_tenant_id e0 = tenant \<and> ep_id e0 = eid then e0\<lparr>rendered_k := length ids\<rparr> else e0)"
      using \<open>e \<in> _\<close> by (auto simp: finalized_def)
    show ?thesis
    proof (cases "ep_id e0 = eid")
      case True
      with uniq e0 facts(2,3) v show ?thesis unfolding finalized_items by auto
    next
      case False
      with e0 ok show ?thesis unfolding finalized_items by (simp add: sql_ok_def)
    qed
  qed
  moreover have "rank_fits i \<and> it_episode_id i \<in> ep_id ` set (ed_episodes db)"
    if "i \<in> set (map (reserve eid ids) (ed_items db))" for i
    using ok reserve_fits [OF _ short] \<open>i \<in> _\<close> by (auto simp: sql_ok_def)
  moreover have "ep_id ` set (ed_episodes (finalized tenant eid ids db)) = ep_id ` set (ed_episodes db)"
    using ids by (metis set_map)
  moreover have "ed_items (finalized tenant eid ids db) = map (reserve eid ids) (ed_items db)"
    "ed_events (finalized tenant eid ids db) = ed_events db" by (simp_all add: finalized_def)
  ultimately show ?thesis using ok ids unfolding sql_ok_def by metis
qed


section \<open>Logging an outcome\<close>

lemma sql_log_result:
  assumes ok: "sql_ok json db" and fresh: "\<forall>x \<in> set (ed_events db). oe_id x \<noteq> oe_id e"
  shows "if \<exists>ep. select_episode tenant (oe_episode_id e) db = Some ep
            \<and> outcome_fits tenant ep (set (items_of (oe_episode_id e) (ed_items db))) e
    then insert_outcome_event tenant e db = (Inr (), db\<lparr>ed_events := ed_events db @ [e]\<rparr>)
    else snd (insert_outcome_event tenant e db) = db \<and> fst (insert_outcome_event tenant e db) \<noteq> Inr ()"
proof (cases "select_episode tenant (oe_episode_id e) db")
  case None
  then show ?thesis by (simp add: insert_outcome_event_def)
next
  case (Some ep)
  obtain items where q: "query_retrieval_episode_items (oe_episode_id e) db = Inr items"
    and m: "mset items = mset (items_of (oe_episode_id e) (ed_items db))" using query_items [OF ok] .
  have s: "set items = set (items_of (oe_episode_id e) (ed_items db))" using m by (metis set_mset_mset)
  have f: "\<not> list_ex (\<lambda>x. oe_id x = oe_id e) (ed_events db)" using fresh by (auto simp: list_ex_iff)
  show ?thesis
    using Some q s f validate_outcome_iff [of tenant ep items e]
    by (cases "validate_outcome_event tenant ep items e") (auto simp: insert_outcome_event_def)
qed

section \<open>The tables as a catalog\<close>

definition sql_step :: "(str \<Rightarrow> bool) \<Rightarrow> episode_op \<Rightarrow> episode_db \<Rightarrow> bool \<times> episode_db" where
  "sql_step json op1 db =
     (case op1 of
        RecordEpisode ep items \<Rightarrow> map_prod (\<lambda>r. r = Inr ()) id (insert_retrieval_episode json ep items db)
      | FinalizeEpisode tenant eid ids \<Rightarrow> map_prod (\<lambda>r. r = Inr ()) id (sql_finalize_retrieval_episode json tenant eid ids db)
      | LogOutcome tenant e \<Rightarrow> map_prod (\<lambda>r. r = Inr ()) id (insert_outcome_event tenant e db))"

lemma sql_known: "sql_ok json db \<Longrightarrow> cat_episode (sql_abs db) k = None \<longleftrightarrow> k \<notin> ep_id ` set (ed_episodes db)"
  by (auto simp: sql_abs_def find_None_iff)

lemma sql_record_step:
  assumes "sql_ok json db" and "list_all rank_fits items"
  shows "sql_ok json (snd (insert_retrieval_episode json ep items db))
    \<and> spec_step json (RecordEpisode ep items) (sql_abs db) =
        (fst (insert_retrieval_episode json ep items db) = Inr (), sql_abs (snd (insert_retrieval_episode json ep items db)))"
proof (cases "validate_retrieval_episode json ep items = Inr () \<and> origins_ok (cat_project (sql_abs db)) items
    \<and> ep_id ep \<notin> ep_id ` set (ed_episodes db)")
  case True
  then show ?thesis
    using insert_episode_result [OF assms, of ep] sql_record_ok [OF assms(1), of ep items] assms(2)
      sql_record_abs [OF assms(1), of ep items] sql_known [OF assms(1)]
    by (simp add: spec_step_def)
next
  case False
  then have "snd (insert_retrieval_episode json ep items db) = db"
    "fst (insert_retrieval_episode json ep items db) \<noteq> Inr ()"
    using insert_episode_result [OF assms, of ep] by presburger+
  with False assms(1) show ?thesis by (auto simp: spec_step_def sql_known)
qed

lemma sql_finalize_step:
  assumes "sql_ok json db"
  shows "sql_ok json (snd (sql_finalize_retrieval_episode json tenant eid ids db))
    \<and> spec_step json (FinalizeEpisode tenant eid ids) (sql_abs db) =
        (fst (sql_finalize_retrieval_episode json tenant eid ids db) = Inr (),
         sql_abs (snd (sql_finalize_retrieval_episode json tenant eid ids db)))"
proof (cases "\<exists>ep. select_episode tenant eid db = Some ep \<and> renderable ep (set (items_of eid (ed_items db))) ids")
  case True
  then obtain ep where ep: "select_episode tenant eid db = Some ep" "renderable ep (set (items_of eid (ed_items db))) ids"
    by blast
  then have "sql_finalize_retrieval_episode json tenant eid ids db = (Inr (), finalized tenant eid ids db)"
    using sql_finalize_result [OF assms, of tenant eid ids] by simp
  moreover have "distinct ids" using ep(2) by (simp add: renderable_def)
  ultimately show ?thesis
    using ep sql_finalize_ok [OF assms ep] sql_finalize_abs [OF assms ep(1)]
    by (simp add: spec_step_def select_lookup [OF assms] del: set_filter)
next
  case False
  then have "snd (sql_finalize_retrieval_episode json tenant eid ids db) = db"
    "fst (sql_finalize_retrieval_episode json tenant eid ids db) \<noteq> Inr ()"
    using sql_finalize_result [OF assms, of tenant eid ids] by presburger+
  with False assms show ?thesis
    by (auto simp: spec_step_def select_lookup [OF assms] simp del: set_filter split: option.split)
qed

lemma sql_log_step:
  assumes "sql_ok json db" and "\<forall>x \<in> set (ed_events db). oe_id x \<noteq> oe_id e"
  shows "sql_ok json (snd (insert_outcome_event tenant e db))
    \<and> spec_step json (LogOutcome tenant e) (sql_abs db) =
        (fst (insert_outcome_event tenant e db) = Inr (), sql_abs (snd (insert_outcome_event tenant e db)))"
proof (cases "\<exists>ep. select_episode tenant (oe_episode_id e) db = Some ep
    \<and> outcome_fits tenant ep (set (items_of (oe_episode_id e) (ed_items db))) e")
  case True
  then obtain ep where ep: "select_episode tenant (oe_episode_id e) db = Some ep"
    "outcome_fits tenant ep (set (items_of (oe_episode_id e) (ed_items db))) e" by blast
  then have "insert_outcome_event tenant e db = (Inr (), db\<lparr>ed_events := ed_events db @ [e]\<rparr>)"
    using sql_log_result [OF assms, of tenant] by simp
  moreover have "sql_abs (db\<lparr>ed_events := ed_events db @ [e]\<rparr>) =
      (sql_abs db)\<lparr>cat_events := (cat_events (sql_abs db))(oe_episode_id e := insert e (cat_events (sql_abs db) (oe_episode_id e)))\<rparr>"
    by (auto simp: sql_abs_def fun_eq_iff)
  moreover have "sql_ok json (db\<lparr>ed_events := ed_events db @ [e]\<rparr>)"
    using assms by (auto simp: sql_ok_def)
  ultimately show ?thesis using ep by (simp add: spec_step_def select_lookup [OF assms(1)] del: set_filter)
next
  case False
  then have "snd (insert_outcome_event tenant e db) = db" "fst (insert_outcome_event tenant e db) \<noteq> Inr ()"
    using sql_log_result [OF assms, of tenant] by presburger+
  with False assms(1) show ?thesis
    by (auto simp: spec_step_def select_lookup [OF assms(1)] simp del: set_filter split: option.split)
qed

interpretation sql_catalog: episode_catalog json "sql_ok json" sql_abs "sql_step json" for json
proof
  fix db :: episode_db and op1
  assume db: "sql_ok json db" and st: "storable op1" and f: "fresh_event op1 (sql_abs db)"
  have fe: "\<forall>x \<in> set (ed_events db). oe_id x \<noteq> oe_id e" if "op1 = LogOutcome tenant e" for tenant e
    using f that by (auto simp: fresh_event_def sql_abs_def)
  show "sql_ok json (snd (sql_step json op1 db))"
    using sql_record_step [OF db] sql_finalize_step [OF db] sql_log_step [OF db fe] st
    by (cases op1) (simp_all add: sql_step_def storable_def)
  show "spec_step json op1 (sql_abs db) = (fst (sql_step json op1 db), sql_abs (snd (sql_step json op1 db)))"
    using sql_record_step [OF db] sql_finalize_step [OF db] sql_log_step [OF db fe] st
    by (cases op1) (simp_all add: sql_step_def storable_def)
qed

end
