(* ===== verification/Episode_Priors.thy ===== *)
theory Episode_Priors
  imports Sqlite_Episodes
begin

text \<open>
  The outcome priors computed from the SQLite tables, and how they relate to those of the
  in-memory store: both count, for every requested chunk, the episodes of the requesting scope
  that credit or blame it, but they break ties between events of the same time differently.
\<close>

section \<open>The episodes that count\<close>

definition crediting_cat :: "i64 \<Rightarrow> string \<Rightarrow> string option \<Rightarrow> episode_view \<Rightarrow> string \<Rightarrow> string set" where
  "crediting_cat now tenant project C c =
     {k. \<exists>ep I e b cs. cat_episode C k = Some (ep, I) \<and> ep_tenant_id ep = tenant \<and> ep_project_id ep = project
           \<and> e \<in> cat_events C k \<and> contributes_to_ranking e \<and> sint (oe_timestamp_ms e) \<le> sint now
           \<and> attribution e = Some (b, cs) \<and> c \<in> set cs \<and> c \<in> it_chunk_id ` I}"

lemma crediting_catI:
  assumes "cat_episode C k = Some (ep, I)" and "ep_tenant_id ep = tenant" and "ep_project_id ep = project"
    and "e \<in> cat_events C k" and "contributes_to_ranking e" and "sint (oe_timestamp_ms e) \<le> sint now"
    and "attribution e = Some (b, cs)" and "c \<in> set cs" and "c \<in> it_chunk_id ` I"
  shows "k \<in> crediting_cat now tenant project C c"
  using assms unfolding crediting_cat_def mem_Collect_eq
  by (intro exI [of _ ep] exI [of _ I] exI [of _ e] exI [of _ b] exI [of _ cs] conjI)

lemma memory_crediting:
  assumes "store_ok json st"
  shows "crediting now tenant project st c = crediting_cat now tenant project (memory_abs st) c"
proof (rule set_eqI, rule iffI)
  fix k
  assume "k \<in> crediting now tenant project st c"
  then obtain ep items es e b cs where w: "map_of (ms_episodes st) k = Some (ep, items)" "ep_tenant_id ep = tenant"
      "ep_project_id ep = project" "map_of (ms_outcomes st) k = Some es" "e \<in> set es" "contributes_to_ranking e"
      "sint (oe_timestamp_ms e) \<le> sint now" "attribution e = Some (b, cs)" "c \<in> set cs"
    unfolding crediting_def by blast
  have "event_ok ep items e" using store_ok_events(2) [OF assms w(1,4)] w(5) by blast
  then have "set (used_chunk_ids e @ harmful_chunk_ids e) \<subseteq> it_chunk_id ` set items" by (simp add: event_ok_def)
  with attribution_subset [OF w(8)] w(9) have c: "c \<in> it_chunk_id ` set items" by blast
  have "cat_episode (memory_abs st) k = Some (ep, set items)" "e \<in> cat_events (memory_abs st) k"
    using w by (simp_all add: memory_abs_def or_default_def)
  from crediting_catI [OF this(1) w(2,3) this(2) w(6-9) c]
  show "k \<in> crediting_cat now tenant project (memory_abs st) c" .
next
  fix k
  assume "k \<in> crediting_cat now tenant project (memory_abs st) c"
  then obtain ep I e b cs where w: "cat_episode (memory_abs st) k = Some (ep, I)" "ep_tenant_id ep = tenant"
      "ep_project_id ep = project" "e \<in> cat_events (memory_abs st) k" "contributes_to_ranking e"
      "sint (oe_timestamp_ms e) \<le> sint now" "attribution e = Some (b, cs)" "c \<in> set cs"
    unfolding crediting_cat_def by blast
  obtain items where i: "map_of (ms_episodes st) k = Some (ep, items)" using w(1) by (auto simp: memory_abs_def)
  obtain es where es: "map_of (ms_outcomes st) k = Some es" "e \<in> set es"
    using w(4) by (cases "map_of (ms_outcomes st) k") (simp_all add: memory_abs_def or_default_def)
  show "k \<in> crediting now tenant project st c"
    unfolding crediting_def mem_Collect_eq
    by (intro exI [of _ ep] exI [of _ items] exI [of _ es] exI [of _ e] exI [of _ b] exI [of _ cs] conjI)
      (fact i w es)+
qed

section \<open>The rows of the query\<close>

definition row_credits :: "string set \<Rightarrow> outcome_event \<times> string \<Rightarrow> bool" where
  "row_credits requested row \<longleftrightarrow>
     (case row of (o1, c) \<Rightarrow> c \<in> requested
        \<and> \<not> is_legacy_codex_scanner_outcome (oe_outcome o1) (oe_verifier o1) (evidence_reference o1)
        \<and> (case attribution o1 of None \<Rightarrow> False | Some (b, cs) \<Rightarrow> c \<in> set cs))"

lemma row_credits_iff:
  "row_credits R (o1, c) \<longleftrightarrow> c \<in> R
     \<and> \<not> is_legacy_codex_scanner_outcome (oe_outcome o1) (oe_verifier o1) (evidence_reference o1)
     \<and> (\<exists>b cs. attribution o1 = Some (b, cs) \<and> c \<in> set cs)"
  by (auto simp: row_credits_def split: option.splits)

definition row_keys :: "string set \<Rightarrow> (outcome_event \<times> string) list \<Rightarrow> (string \<times> string) set" where
  "row_keys requested rows = (\<lambda>(o1, c). (oe_episode_id o1, c)) ` {r \<in> set rows. row_credits requested r}"

lemma row_keys_simps [simp]:
  "row_keys R [] = {}"
  "row_keys R ((o1, c) # rows) = (if row_credits R (o1, c) then {(oe_episode_id o1, c)} else {}) \<union> row_keys R rows"
  by (auto simp: row_keys_def)

abbreviation seen_count :: "(string \<times> string) set \<Rightarrow> string \<Rightarrow> nat" where
  "seen_count seen \<equiv> \<lambda>c. card {k. (k, c) \<in> seen}"

lemma seen_count_insert:
  assumes "finite seen" and "(k, c) \<notin> seen"
  shows "seen_count (insert (k, c) seen) = (seen_count seen)(c := seen_count seen c + 1)"
proof
  fix d
  have fin: "finite {k. (k, d) \<in> seen}" using finite_imageI [OF assms(1), of fst] by (rule rev_finite_subset) force
  show "seen_count (insert (k, c) seen) d = ((seen_count seen)(c := seen_count seen c + 1)) d"
  proof (cases "d = c")
    case True
    then have "{j. (j, d) \<in> insert (k, c) seen} = insert k {j. (j, c) \<in> seen}" by auto
    with True assms(2) fin show ?thesis by simp
  qed simp
qed

lemma prior_step_cases:
  "prior_step V R (priors, seen) (o1, c) =
     (if row_credits R (o1, c) \<and> (oe_episode_id o1, c) \<notin> seen
      then (AList.update c
              (prior_add (pv_rnd V) (fst (the (attribution o1)))
                (decayed_outcome_weight (pv_pow2 V) (oe_timestamp_ms o1) (pv_now V)) (oe_timestamp_ms o1)
                (case map_of priors c of None \<Rightarrow> prior_new c | Some p \<Rightarrow> p)) priors,
            insert (oe_episode_id o1, c) seen)
      else (priors, seen))"
  by (auto simp: prior_step_def row_credits_def split: option.splits)

lemma prior_fold_tally:
  assumes "tally priors (seen_count seen)" and "finite seen"
  shows "tally (fst (foldl (prior_step V R) (priors, seen) rows)) (seen_count (seen \<union> row_keys R rows))"
  using assms
proof (induction rows arbitrary: priors seen)
  case (Cons row rows)
  obtain o1 c where row: "row = (o1, c)" by (cases row)
  show ?case
  proof (cases "row_credits R (o1, c) \<and> (oe_episode_id o1, c) \<notin> seen")
    case True
    let ?p = "prior_add (pv_rnd V) (fst (the (attribution o1)))
                (decayed_outcome_weight (pv_pow2 V) (oe_timestamp_ms o1) (pv_now V)) (oe_timestamp_ms o1)
                (case map_of priors c of None \<Rightarrow> prior_new c | Some p \<Rightarrow> p)"
    have "tally (AList.update c ?p priors) (seen_count (insert (oe_episode_id o1, c) seen))"
      using tally_credit [OF Cons.prems(1)] seen_count_insert [OF Cons.prems(2)] True by simp
    from Cons.IH [OF this] Cons.prems(2) True show ?thesis by (simp add: row prior_step_cases)
  next
    case False
    then have "seen \<union> row_keys R (row # rows) = seen \<union> row_keys R rows" by (auto simp: row)
    moreover have "prior_step V R (priors, seen) row = (priors, seen)"
      unfolding row prior_step_cases using False by (simp only: if_False)
    ultimately show ?thesis using Cons.IH [OF Cons.prems] by (simp del: row_keys_simps)
  qed
qed simp

lemma prior_rows_mem:
  "(o1, c) \<in> set (prior_rows tenant project now db) \<longleftrightarrow>
     o1 \<in> set (ed_events db) \<and> ranking_eligible o1 \<and> sint (oe_timestamp_ms o1) \<le> sint now
     \<and> (\<exists>e \<in> set (ed_episodes db). ep_id e = oe_episode_id o1 \<and> ep_tenant_id e = tenant \<and> ep_project_id e = project)
     \<and> c \<in> it_chunk_id ` set (items_of (oe_episode_id o1) (ed_items db))"
  unfolding prior_rows_def by (auto simp: list_ex_iff image_iff)

lemma sql_crediting:
  assumes "sql_ok json db" and "c \<in> R"
  shows "{k. (k, c) \<in> row_keys R (prior_rows tenant project now db)} = crediting_cat now tenant project (sql_abs db) c"
proof (rule set_eqI)
  fix k
  have d: "find (\<lambda>e. ep_id e = ep_id ep) (ed_episodes db) = Some ep" if "ep \<in> set (ed_episodes db)" for ep
  proof (cases "find (\<lambda>e. ep_id e = ep_id ep) (ed_episodes db)")
    case (Some e)
    then have "e \<in> set (ed_episodes db)" "ep_id e = ep_id ep" by (auto simp: find_Some_iff)
    with that assms(1) have "e = ep" unfolding sql_ok_def by (metis inj_onD distinct_map)
    with Some show ?thesis by simp
  qed (use that in \<open>auto simp: find_None_iff\<close>)
  have eps: "cat_episode (sql_abs db) k = Some (ep, I) \<longleftrightarrow>
      ep \<in> set (ed_episodes db) \<and> ep_id ep = k \<and> I = set (items_of k (ed_items db))" for ep I
    using d by (auto simp: sql_abs_def find_Some_iff simp del: set_filter)
  have ev: "e \<in> cat_events (sql_abs db) k \<longleftrightarrow> e \<in> set (ed_events db) \<and> oe_episode_id e = k" for e
    by (simp add: sql_abs_def)
  have rk: "k \<in> {k. (k, c) \<in> row_keys R (prior_rows tenant project now db)} \<longleftrightarrow>
      (\<exists>o1. oe_episode_id o1 = k \<and> (o1, c) \<in> set (prior_rows tenant project now db) \<and> row_credits R (o1, c))"
    by (auto simp: row_keys_def)
  show "k \<in> {k. (k, c) \<in> row_keys R (prior_rows tenant project now db)}
      \<longleftrightarrow> k \<in> crediting_cat now tenant project (sql_abs db) c"
  proof
    assume "k \<in> {k. (k, c) \<in> row_keys R (prior_rows tenant project now db)}"
    then obtain o1 where o1: "oe_episode_id o1 = k" "(o1, c) \<in> set (prior_rows tenant project now db)" "row_credits R (o1, c)"
      using rk by blast
    then obtain ep b cs where w: "o1 \<in> set (ed_events db)" "ranking_eligible o1" "sint (oe_timestamp_ms o1) \<le> sint now"
      "ep \<in> set (ed_episodes db)" "ep_id ep = k" "ep_tenant_id ep = tenant" "ep_project_id ep = project"
      "c \<in> it_chunk_id ` set (items_of k (ed_items db))" "attribution o1 = Some (b, cs)" "c \<in> set cs"
      "\<not> is_legacy_codex_scanner_outcome (oe_outcome o1) (oe_verifier o1) (evidence_reference o1)"
      unfolding prior_rows_mem row_credits_iff by (auto simp del: set_filter)
    have "cat_episode (sql_abs db) k = Some (ep, set (items_of k (ed_items db)))" using eps w(4,5) by blast
    moreover have "contributes_to_ranking o1" using w(2,11) by (simp add: contributes_to_ranking_def)
    moreover have "o1 \<in> cat_events (sql_abs db) k" using ev w(1) o1(1) by blast
    ultimately show "k \<in> crediting_cat now tenant project (sql_abs db) c"
      using w by (intro crediting_catI [where ep = ep and e = o1])
  next
    assume "k \<in> crediting_cat now tenant project (sql_abs db) c"
    then obtain ep I e b cs where w: "cat_episode (sql_abs db) k = Some (ep, I)" "ep_tenant_id ep = tenant"
      "ep_project_id ep = project" "e \<in> cat_events (sql_abs db) k" "contributes_to_ranking e"
      "sint (oe_timestamp_ms e) \<le> sint now" "attribution e = Some (b, cs)" "c \<in> set cs" "c \<in> it_chunk_id ` I"
      unfolding crediting_cat_def by blast
    have m: "ep \<in> set (ed_episodes db)" "ep_id ep = k" "I = set (items_of k (ed_items db))" "e \<in> set (ed_events db)"
      "oe_episode_id e = k" using eps w(1) ev w(4) by blast+
    have "(e, c) \<in> set (prior_rows tenant project now db)"
      unfolding prior_rows_mem using w m by (auto simp: contributes_to_ranking_def simp del: set_filter)
    moreover have "row_credits R (e, c)"
      unfolding row_credits_iff using w(5,7,8) assms(2) by (auto simp: contributes_to_ranking_def)
    ultimately show "k \<in> {k. (k, c) \<in> row_keys R (prior_rows tenant project now db)}" using rk m(5) by blast
  qed
qed

lemma row_keys_requested: "(k, c) \<in> row_keys R rows \<Longrightarrow> c \<in> R"
  by (auto simp: row_keys_def row_credits_def)

lemma sql_priors_counts:
  assumes ok: "sql_ok json db"
  shows "sorted_wrt (\<lambda>a b. str_cmp (op_chunk_id a) (op_chunk_id b) = Less) (sql_outcome_priors V tenant project ids db)"
    and "(\<exists>p \<in> set (sql_outcome_priors V tenant project ids db). op_chunk_id p = c \<and> eligible_episode_count p = n)
      \<longleftrightarrow> c \<in> set ids \<and> n \<noteq> 0 \<and> n = min (card (crediting_cat (pv_now V) tenant project (sql_abs db) c)) (2 ^ 64 - 1)"
proof -
  let ?rows = "prior_rows tenant project (pv_now V) db"
  define priors where "priors = fst (foldl (prior_step V (set ids)) ([], {}) ?rows)"
  have t: "tally priors (seen_count (row_keys (set ids) ?rows))"
    using prior_fold_tally [of "[]" "{}" V "set ids" ?rows] by (simp add: tally_def priors_def)
  have out: "sql_outcome_priors V tenant project ids db = sort_by (\<lambda>a b. str_cmp (op_chunk_id a) (op_chunk_id b)) (map snd priors)"
    if "ids \<noteq> []" using that by (simp add: sql_outcome_priors_def priors_def)
  have none: "sql_outcome_priors V tenant project ids db = []" if "ids = []" using that by (simp add: sql_outcome_priors_def)
  have count: "seen_count (row_keys (set ids) ?rows) c =
      (if c \<in> set ids then card (crediting_cat (pv_now V) tenant project (sql_abs db) c) else 0)"
    using sql_crediting [OF ok, of c "set ids"] row_keys_requested [of _ c "set ids"] by (auto simp: card_eq_0_iff)
  show "sorted_wrt (\<lambda>a b. str_cmp (op_chunk_id a) (op_chunk_id b) = Less) (sql_outcome_priors V tenant project ids db)"
    using sorted_priors(1) [OF t out] none by (cases "ids = []") simp_all
  show "(\<exists>p \<in> set (sql_outcome_priors V tenant project ids db). op_chunk_id p = c \<and> eligible_episode_count p = n)
      \<longleftrightarrow> c \<in> set ids \<and> n \<noteq> 0 \<and> n = min (card (crediting_cat (pv_now V) tenant project (sql_abs db) c)) (2 ^ 64 - 1)"
    using sorted_priors(2) [OF t out, of c n] none unfolding count by (cases "ids = []") auto
qed

lemma strict_sorted_eq:
  assumes "sorted_wrt P xs" and "sorted_wrt P ys" and "set xs = set ys" and asym: "\<And>x y. P x y \<Longrightarrow> \<not> P y x"
  shows "xs = ys"
  using assms(1-3)
proof (induction xs arbitrary: ys)
  case (Cons x xs)
  then obtain y ys' where ys: "ys = y # ys'" by (cases ys) auto
  have "x = y"
  proof (rule ccontr)
    assume "x \<noteq> y"
    then have "x \<in> set ys'" "y \<in> set xs" using Cons.prems(3) ys by auto
    then have "P y x" "P x y" using Cons.prems(1,2) ys by auto
    then show False using asym by blast
  qed
  moreover have "x \<notin> set xs" "y \<notin> set ys'" using Cons.prems(1,2) ys asym by auto
  ultimately have "set xs = set ys'" using Cons.prems(3) ys by auto
  then have "xs = ys'" using Cons.IH [of ys'] Cons.prems(1,2) ys by simp
  with \<open>x = y\<close> ys show ?case by simp
qed simp

section \<open>Sample states\<close>

text \<open>The in-memory store of the demonstration and tables with the same contents.\<close>

definition demo_row :: "string \<Rightarrow> chunk_metadata" where
  "demo_row c = \<lparr>m_chunk_id = c, m_tenant_id = ''t'', m_project_id = None, m_segment_id = 0, m_ordinal = 0,
     m_chunk_type = Doc, m_status = Final, m_timestamp_created = 0, m_hash = ''h'', m_source_uri = None,
     m_lifecycle = default_lifecycle, m_canonical_text = None, m_ingestion_mode = Document\<rparr>"

definition demo_tables :: episode_db where
  "demo_tables = \<lparr>ed_chunks = [demo_row ''a'', demo_row ''b''], ed_episodes = [], ed_items = [], ed_events = [],
     ed_feedback = [], ed_usage = []\<rparr>"

lemma demo_chunks_ok: "store_ok json demo_chunks" "sql_ok json demo_tables"
  by (simp_all add: store_ok_def demo_chunks_def add_single_chunk_def memory_new_def sql_ok_def demo_tables_def Let_def)

lemma demo_catalogs: "memory_abs demo_chunks = sql_abs demo_tables"
  by (auto simp: memory_abs_def sql_abs_def demo_chunks_def demo_tables_def add_single_chunk_def memory_new_def Let_def
      demo_document_def demo_row_def or_default_def fun_eq_iff)

definition demo_ops :: "episode_op list" where
  "demo_ops = [RecordEpisode demo_episode [demo_item ''a'' 0, demo_item ''b'' 1], LogOutcome ''t'' demo_event,
     FinalizeEpisode ''t'' ''e'' [''b''], FinalizeEpisode ''u'' ''e'' [''b'']]"

lemma demo_ops_ok:
  "list_all storable demo_ops" "distinct (concat (map op_event_ids demo_ops))"
  "set (concat (map op_event_ids demo_ops)) \<inter> all_event_ids (sql_abs demo_tables) = {}"
  by (simp_all add: demo_ops_def storable_def rank_fits_def demo_item_def op_event_ids_def all_event_ids_def sql_abs_def demo_tables_def)

definition plain_env :: prior_env where
  "plain_env = \<lparr>pv_rnd = Fin, pv_pow2 = (\<lambda>_. Fin 1), pv_now = 10\<rparr>"

abbreviation json_braces :: "str \<Rightarrow> bool" where
  "json_braces \<equiv> (\<lambda>s. s = lit ''{}'')"

text \<open>One episode with two outcomes of the same time, a success and then a failure.\<close>

definition tie_events :: "outcome_event list" where
  "tie_events = [outcome_event_new ''v'' ''e'' Passed VUser [''a''] [] None 5,
                 outcome_event_new ''w'' ''e'' Failed VUser [] [''a''] None 5]"

definition tie_store :: memory_store where
  "tie_store = \<lparr>ms_chunks = [], ms_feedback = [], ms_episodes = [(''e'', demo_episode, [demo_item ''a'' 0, demo_item ''b'' 1])],
     ms_outcomes = [(''e'', tie_events)]\<rparr>"

definition tie_tables :: episode_db where
  "tie_tables = \<lparr>ed_chunks = [], ed_episodes = [demo_episode], ed_items = [demo_item ''a'' 0, demo_item ''b'' 1],
     ed_events = tie_events, ed_feedback = [], ed_usage = []\<rparr>"

lemma tie_events_ok: "\<forall>e \<in> set tie_events. event_ok demo_episode [demo_item ''a'' 0, demo_item ''b'' 1] e"
  by (simp add: tie_events_def event_ok_def outcome_event_new_def demo_episode_def demo_item_def)

lemma tie_store_ok: "store_ok json_braces tie_store"
  using tie_events_ok demo_valid
  by (auto simp: store_ok_def tie_store_def demo_episode_def split: if_splits) (simp add: tie_events_def outcome_event_new_def)

lemma tie_tables_ok: "sql_ok json_braces tie_tables"
  using demo_valid
  by (simp add: sql_ok_def tie_tables_def tie_events_def rank_fits_def demo_item_def demo_episode_def outcome_event_new_def)

lemma tie_catalogs: "memory_abs tie_store = sql_abs tie_tables"
  by (auto simp: memory_abs_def sql_abs_def tie_store_def tie_tables_def tie_events_def outcome_event_new_def
      demo_item_def demo_episode_def or_default_def fun_eq_iff)

section \<open>Properties\<close>

text \<open>
  C21. The two stores behave alike. Start the in-memory store and the SQLite tables in states with
  the same catalog (the same chunks' projects, episodes, candidates and events) and run the same
  sequence of record, finalize and outcome operations on both, with event ids that are new and
  ranks below \<open>2^63\<close>: every operation succeeds on the one exactly when it succeeds on the other,
  and the catalogs at the end are again the same.
\<close>

theorem episode_stores_agree:
  assumes "store_ok json st" and "sql_ok json db" and "memory_abs st = sql_abs db"
    and "list_all storable ops" and "distinct (concat (map op_event_ids ops))"
    and "set (concat (map op_event_ids ops)) \<inter> all_event_ids (sql_abs db) = {}"
  shows "fst (run_episode_ops (memory_step json) ops st) = fst (run_episode_ops (sql_step json) ops db)
    \<and> memory_abs (snd (run_episode_ops (memory_step json) ops st)) = sql_abs (snd (run_episode_ops (sql_step json) ops db))"
  using memory_catalog.run_refines [OF assms(1,4,5)] sql_catalog.run_refines [OF assms(2,4,5)] assms(3,6) by simp

lemma episode_stores_agree_witness:
  "fst (run_episode_ops (memory_step json_braces) demo_ops demo_chunks) = fst (run_episode_ops (sql_step json_braces) demo_ops demo_tables)
   \<and> memory_abs (snd (run_episode_ops (memory_step json_braces) demo_ops demo_chunks))
       = sql_abs (snd (run_episode_ops (sql_step json_braces) demo_ops demo_tables))"
  by (rule episode_stores_agree [OF demo_chunks_ok demo_catalogs demo_ops_ok])

text \<open>
  C22. The two stores count alike. For an in-memory store and SQLite tables with the same catalog,
  whatever order the in-memory table is iterated in: both answer the same chunks in the same
  order, with the same number of eligible episodes for each.
\<close>

theorem prior_counts_agree:
  assumes "store_ok json st" and "sql_ok json db" and "memory_abs st = sql_abs db"
    and "mset (order (ms_episodes st)) = mset (ms_episodes st)"
  shows "map (\<lambda>p. (op_chunk_id p, eligible_episode_count p)) (outcome_priors V order tenant project ids st)
       = map (\<lambda>p. (op_chunk_id p, eligible_episode_count p)) (sql_outcome_priors V tenant project ids db)"
proof -
  let ?f = "\<lambda>p. (op_chunk_id p, eligible_episode_count p)"
  let ?a = "outcome_priors V order tenant project ids st" and ?b = "sql_outcome_priors V tenant project ids db"
  let ?P = "\<lambda>x y :: string \<times> nat. str_cmp (fst x) (fst y) = Less"
  have "sorted_wrt ?P (map ?f ?a)" "sorted_wrt ?P (map ?f ?b)"
    using priors_of_store_ok(1) [where order = order, OF assms(1,4)] sql_priors_counts(1) [OF assms(2)] by (simp_all add: sorted_wrt_map)
  moreover have mem: "(c, n) \<in> set (map ?f xs) \<longleftrightarrow> (\<exists>p \<in> set xs. op_chunk_id p = c \<and> eligible_episode_count p = n)" for xs c n
    by auto
  have "(c, n) \<in> set (map ?f ?a) \<longleftrightarrow> (c, n) \<in> set (map ?f ?b)" for c n
    unfolding mem priors_of_store_ok(2) [where order = order, OF assms(1,4)] sql_priors_counts(2) [OF assms(2)]
      memory_crediting [OF assms(1)] assms(3) ..
  then have "set (map ?f ?a) = set (map ?f ?b)" by (simp add: set_eq_iff split_paired_all)
  moreover have "\<And>x y. ?P x y \<Longrightarrow> \<not> ?P y x" using str_cmp_flip by (metis ordering.distinct(3) reverse.simps(1))
  ultimately show ?thesis using strict_sorted_eq by blast
qed

lemma prior_counts_agree_witness:
  "map (\<lambda>p. (op_chunk_id p, eligible_episode_count p)) (outcome_priors plain_env rev ''t'' None [''a''] tie_store)
     = map (\<lambda>p. (op_chunk_id p, eligible_episode_count p)) (sql_outcome_priors plain_env ''t'' None [''a''] tie_tables)"
  by (rule prior_counts_agree [where order = rev, OF tie_store_ok tie_tables_ok tie_catalogs]) simp

text \<open>
  The direction of a tie depends on the store. With one episode whose chunk has a success and
  a failure recorded at the same millisecond, both stores hold the same catalog and count one
  episode, but the in-memory store credits the event that was recorded first and the SQLite query
  the one with the larger id: the chunk's prior is positive in the one and negative in the other.
\<close>

lemma tie_breaks_differ:
  "memory_abs tie_store = sql_abs tie_tables
   \<and> map (\<lambda>p. (positive_weight p, negative_weight p)) (outcome_priors plain_env id ''t'' None [''a''] tie_store) = [(Fin 1, Fin 0)]
   \<and> map (\<lambda>p. (positive_weight p, negative_weight p)) (sql_outcome_priors plain_env ''t'' None [''a''] tie_tables) = [(Fin 0, Fin 1)]"
proof (intro conjI)
  show "map (\<lambda>p. (positive_weight p, negative_weight p)) (outcome_priors plain_env id ''t'' None [''a''] tie_store) = [(Fin 1, Fin 0)]"
    by (simp add: outcome_priors_def tie_store_def tie_events_def outcome_event_new_def plain_env_def demo_item_def demo_episode_def
        newest_first_def sort_by_def int_cmp_def or_default_def contributes_to_ranking_def expected_ranking_eligibility_def
        is_ranking_eligible_def credits_used_def credits_harmful_def is_legacy_codex_scanner_outcome_def attribution_def
        prior_add_def prior_new_def decayed_outcome_weight_def Let_def)
  show "map (\<lambda>p. (positive_weight p, negative_weight p)) (sql_outcome_priors plain_env ''t'' None [''a''] tie_tables) = [(Fin 0, Fin 1)]"
    by (simp add: sql_outcome_priors_def prior_rows_def tie_tables_def tie_events_def outcome_event_new_def plain_env_def demo_item_def
        demo_episode_def prior_step_def sort_by_def int_cmp_def expected_ranking_eligibility_def
        is_ranking_eligible_def credits_used_def credits_harmful_def is_legacy_codex_scanner_outcome_def attribution_def
        prior_add_def prior_new_def decayed_outcome_weight_def Let_def)
qed (rule tie_catalogs)

end
