(* ===== verification/Dedup.thy ===== *)
theory Dedup
  imports Lifecycle_Instance Sqlite_Episodes Consolidation_Service
begin

text \<open>
  Write-time deduplication (\<open>dedup.rs\<close>): which stored chunks an incoming text supersedes. It
  reads the metadata table through the listings of \<open>store/metadata/sqlite/chunks.rs\<close> that select
  rows by canonical text, by content hash and by recency. The order SQLite returns rows in where
  the statement leaves it open is the parameter \<open>order\<close>.
\<close>

section \<open>Listings of the metadata table\<close>

text \<open>
  Reading a row parses its ids; the enumerations are stored in the form their parsers accept
  (\<open>chunk_type_form\<close> and its siblings), so only the ids can make a row unreadable.
\<close>

definition parse_link :: "'b store_ext \<Rightarrow> string option \<Rightarrow> memd_error + string option" where
  "parse_link E l =
     (case l of
        None \<Rightarrow> Inr None
      | Some s \<Rightarrow> (case uuid_parse E s of None \<Rightarrow> Inl (DatabaseError ''invalid chunk id'') | Some i \<Rightarrow> Inr (Some i)))"

definition row_to_metadata :: "'b store_ext \<Rightarrow> chunk_metadata \<Rightarrow> memd_error + chunk_metadata" where
  "row_to_metadata E m =
     (case uuid_parse E (m_chunk_id m) of
        None \<Rightarrow> Inl (DatabaseError ''invalid chunk id'')
      | Some cid \<Rightarrow>
         (case tenant_new (m_tenant_id m) of
            Inl _ \<Rightarrow> Inl (DatabaseError ''invalid tenant id'')
          | Inr tid \<Rightarrow>
             (case parse_link E (supersedes (m_lifecycle m)) of
                Inl e \<Rightarrow> Inl e
              | Inr before \<Rightarrow>
                 (case parse_link E (superseded_by (m_lifecycle m)) of
                    Inl e \<Rightarrow> Inl e
                  | Inr after \<Rightarrow>
                      Inr (m\<lparr>m_chunk_id := cid, m_tenant_id := tid,
                             m_lifecycle := (m_lifecycle m)\<lparr>supersedes := before, superseded_by := after\<rparr>\<rparr>)))))"

type_synonym row_order = "chunk_metadata list \<Rightarrow> chunk_metadata list"

definition select_rows ::
  "'b store_ext \<Rightarrow> row_order \<Rightarrow> (chunk_metadata \<Rightarrow> bool) \<Rightarrow> chunk_metadata list \<Rightarrow> memd_error + chunk_metadata list" where
  "select_rows E order p rows = collect_rows (row_to_metadata E) (order (filter p rows))"

text \<open>\<open>ORDER BY timestamp_created DESC LIMIT\<close>: equal timestamps stay in the order of the table scan.\<close>

definition newest_rows :: "chunk_metadata list \<Rightarrow> chunk_metadata list" where
  "newest_rows = sort_by (\<lambda>a b. int_cmp (sint (m_timestamp_created b)) (sint (m_timestamp_created a)))"

definition select_newest ::
  "'b store_ext \<Rightarrow> row_order \<Rightarrow> nat \<Rightarrow> (chunk_metadata \<Rightarrow> bool) \<Rightarrow> chunk_metadata list \<Rightarrow> memd_error + chunk_metadata list" where
  "select_newest E order limit p rows =
     (if limit = 0 then Inr []
      else collect_rows (row_to_metadata E) (take limit (newest_rows (order (filter p rows)))))"

definition list_by_canonical_text ::
  "'b store_ext \<Rightarrow> row_order \<Rightarrow> string \<Rightarrow> string option \<Rightarrow> str \<Rightarrow> chunk_metadata list
     \<Rightarrow> memd_error + chunk_metadata list" where
  "list_by_canonical_text E order tid project canonical rows =
     select_rows E order
       (\<lambda>m. m_tenant_id m = tid \<and> (project = None \<or> m_project_id m = project)
            \<and> m_canonical_text m = Some canonical) rows"

definition list_live_by_content_hash ::
  "'b store_ext \<Rightarrow> row_order \<Rightarrow> string \<Rightarrow> string option \<Rightarrow> chunk_type \<Rightarrow> string \<Rightarrow> nat \<Rightarrow> chunk_metadata list
     \<Rightarrow> memd_error + chunk_metadata list" where
  "list_live_by_content_hash E order tid project kind hash limit rows =
     select_newest E order limit
       (\<lambda>m. m_tenant_id m = tid \<and> m_project_id m = project \<and> m_chunk_type m = kind \<and> m_hash m = hash
            \<and> m_status m = Final \<and> tier (m_lifecycle m) \<noteq> History \<and> superseded_by (m_lifecycle m) = None) rows"

definition list_recent_for_project ::
  "'b store_ext \<Rightarrow> row_order \<Rightarrow> string \<Rightarrow> string option \<Rightarrow> nat \<Rightarrow> chunk_metadata list
     \<Rightarrow> memd_error + chunk_metadata list" where
  "list_recent_for_project E order tid project limit rows =
     select_newest E order limit
       (\<lambda>m. m_tenant_id m = tid \<and> (project = None \<or> m_project_id m = project)) rows"

definition list_recent_with_null_project ::
  "'b store_ext \<Rightarrow> row_order \<Rightarrow> string \<Rightarrow> nat \<Rightarrow> chunk_metadata list \<Rightarrow> memd_error + chunk_metadata list" where
  "list_recent_with_null_project E order tid limit rows =
     select_newest E order limit (\<lambda>m. m_tenant_id m = tid \<and> m_project_id m = None) rows"

section \<open>Configuration\<close>

datatype operation_error =
    OpParseError string | OpInvalidRequest string | OpMethodNotFound string
  | InvalidParams string | OpInternalError string | ToolError string

datatype dedup_mode = DedupExact | DedupFuzzy

record resolved_dedup =
  rd_mode :: dedup_mode
  rd_threshold :: real
  rd_scope_project :: bool

record dedup_config =
  dc_mode :: "str option"
  dc_threshold :: "real option"
  dc_scope :: "str option"

datatype dedup_spec = DedupBool bool | DedupConfig dedup_config

text \<open>The literal is the single-precision number next to 0.92.\<close>

definition DEFAULT_FUZZY_THRESHOLD :: "(real \<Rightarrow> real) \<Rightarrow> real" where
  "DEFAULT_FUZZY_THRESHOLD rnd = rnd (92 / 100)"

definition FUZZY_RECENT_POOL_SIZE :: nat where
  "FUZZY_RECENT_POOL_SIZE = 128"

definition resolve_config :: "(real \<Rightarrow> real) \<Rightarrow> dedup_config \<Rightarrow> memd_error + resolved_dedup" where
  "resolve_config rnd cfg =
     (let md = (case dc_mode cfg of None \<Rightarrow> lit ''exact'' | Some v \<Rightarrow> v);
          sc = (case dc_scope cfg of None \<Rightarrow> lit ''project'' | Some v \<Rightarrow> v)
      in if md \<noteq> lit ''exact'' \<and> md \<noteq> lit ''fuzzy''
         then Inl (ValidationError ''supersede_near_duplicates.mode: expected exact or fuzzy'')
         else if sc \<noteq> lit ''project'' \<and> sc \<noteq> lit ''tenant''
         then Inl (ValidationError ''supersede_near_duplicates.scope: expected project or tenant'')
         else Inr \<lparr>rd_mode = (if md = lit ''exact'' then DedupExact else DedupFuzzy),
                   rd_threshold = (case dc_threshold cfg of None \<Rightarrow> DEFAULT_FUZZY_THRESHOLD rnd | Some t \<Rightarrow> t),
                   rd_scope_project = (sc = lit ''project'')\<rparr>)"

definition resolve_spec :: "(real \<Rightarrow> real) \<Rightarrow> dedup_spec \<Rightarrow> memd_error + resolved_dedup option" where
  "resolve_spec rnd spec =
     (case spec of
        DedupBool False \<Rightarrow> Inr None
      | DedupBool True \<Rightarrow>
          Inr (Some \<lparr>rd_mode = DedupExact, rd_threshold = DEFAULT_FUZZY_THRESHOLD rnd, rd_scope_project = True\<rparr>)
      | DedupConfig cfg \<Rightarrow> map_sum id Some (resolve_config rnd cfg))"

section \<open>Candidates\<close>

definition project_scope_matches :: "bool \<Rightarrow> string option \<Rightarrow> chunk_metadata \<Rightarrow> bool" where
  "project_scope_matches scope_project requested m \<longleftrightarrow> (scope_project \<longrightarrow> m_project_id m = requested)"

definition is_live_head_row :: "chunk_metadata \<Rightarrow> bool" where
  "is_live_head_row m \<longleftrightarrow> m_status m = Final \<and> superseded_by (m_lifecycle m) = None"

definition tool_error :: "memd_error + 'a \<Rightarrow> operation_error + 'a" where
  "tool_error r = map_sum (\<lambda>e. ToolError (display_error e)) id r"

definition fuzzy_candidates ::
  "'b store_ext \<Rightarrow> row_order \<Rightarrow> (real \<Rightarrow> real) \<Rightarrow> string \<Rightarrow> str \<Rightarrow> resolved_dedup \<Rightarrow> string option \<Rightarrow> chunk_metadata list
     \<Rightarrow> operation_error + chunk_metadata list" where
  "fuzzy_candidates E order rnd tid canonical cfg project rows =
     (let metas =
            (if rd_scope_project cfg \<and> project = None
             then list_recent_with_null_project E order tid FUZZY_RECENT_POOL_SIZE rows
             else list_recent_for_project E order tid (if rd_scope_project cfg then project else None)
                    FUZZY_RECENT_POOL_SIZE rows)
      in map_sum id
           (filter (\<lambda>m. is_near_duplicate rnd (to_lowercase E) canonical
                          (case m_canonical_text m of None \<Rightarrow> [] | Some c \<Rightarrow> c) (rd_threshold cfg)))
           (tool_error metas))"

definition compute_dedup_candidates ::
  "'b store_ext \<Rightarrow> row_order \<Rightarrow> (real \<Rightarrow> real) \<Rightarrow> string \<Rightarrow> str \<Rightarrow> chunk_type \<Rightarrow> string option \<Rightarrow> resolved_dedup
     \<Rightarrow> chunk_metadata list \<Rightarrow> operation_error + string list" where
  "compute_dedup_candidates E order rnd tid s kind project cfg rows =
     (let canonical = canonicalize_for_type (to_lowercase E) s kind;
          sql_project = (if rd_scope_project cfg then project else None)
      in case (case rd_mode cfg of
                 DedupExact \<Rightarrow> tool_error (list_by_canonical_text E order tid sql_project canonical rows)
               | DedupFuzzy \<Rightarrow> fuzzy_candidates E order rnd tid canonical cfg project rows) of
           Inl e \<Rightarrow> Inl e
         | Inr candidates \<Rightarrow>
             Inr (map m_chunk_id
                   (filter is_live_head_row
                     (filter (project_scope_matches (rd_scope_project cfg) project) candidates))))"

section \<open>What the listings return\<close>

text \<open>Tables whose ids are in the parsed form read back unchanged.\<close>

definition rows_parse :: "'b store_ext \<Rightarrow> chunk_metadata list \<Rightarrow> bool" where
  "rows_parse E rows \<longleftrightarrow> (\<forall>m \<in> set rows. row_to_metadata E m = Inr m)"

definition row_order_ok :: "row_order \<Rightarrow> bool" where
  "row_order_ok order \<longleftrightarrow> (\<forall>xs. mset (order xs) = mset xs)"

lemma set_row_order: "row_order_ok order \<Longrightarrow> set (order xs) = set xs"
  unfolding row_order_ok_def by (metis set_mset_mset)

lemma length_row_order: "row_order_ok order \<Longrightarrow> length (order xs) = length xs"
  unfolding row_order_ok_def by (metis size_mset)

lemma select_rows_parsed:
  assumes "rows_parse E rows" and "row_order_ok order"
  shows "select_rows E order p rows = Inr (order (filter p rows))"
  using assms unfolding select_rows_def by (intro collect_rows_id) (simp add: set_row_order rows_parse_def)

lemma newest_rows_simps [simp]: "set (newest_rows xs) = set xs" "length (newest_rows xs) = length xs"
  by (simp_all add: newest_rows_def)

lemma select_newest_parsed:
  assumes "rows_parse E rows" and "row_order_ok order"
  shows "select_newest E order limit p rows = Inr (take limit (newest_rows (order (filter p rows))))"
proof (cases "limit = 0")
  case False
  have "collect_rows (row_to_metadata E) (take limit (newest_rows (order (filter p rows)))) =
      Inr (take limit (newest_rows (order (filter p rows))))"
    using assms by (intro collect_rows_id ballI) (auto simp: set_row_order rows_parse_def dest!: in_set_takeD)
  with False show ?thesis by (simp add: select_newest_def)
qed (simp add: select_newest_def)

text \<open>The rows a write may supersede.\<close>

definition dedup_match ::
  "'b store_ext \<Rightarrow> (real \<Rightarrow> real) \<Rightarrow> string \<Rightarrow> str \<Rightarrow> chunk_type \<Rightarrow> string option \<Rightarrow> resolved_dedup \<Rightarrow> chunk_metadata \<Rightarrow> bool" where
  "dedup_match E rnd tid s kind project cfg m \<longleftrightarrow>
     m_tenant_id m = tid \<and> project_scope_matches (rd_scope_project cfg) project m \<and> is_live_head_row m
     \<and> (let canonical = canonicalize_for_type (to_lowercase E) s kind in
        case rd_mode cfg of
          DedupExact \<Rightarrow> m_canonical_text m = Some canonical
        | DedupFuzzy \<Rightarrow> is_near_duplicate rnd (to_lowercase E) canonical
                          (case m_canonical_text m of None \<Rightarrow> [] | Some c \<Rightarrow> c) (rd_threshold cfg))"

lemma candidates_exact:
  assumes "rows_parse E rows" and "row_order_ok order" and "rd_mode cfg = DedupExact"
  shows "\<exists>cs. compute_dedup_candidates E order rnd tid s kind project cfg rows = Inr cs
      \<and> set cs = m_chunk_id ` {m \<in> set rows. dedup_match E rnd tid s kind project cfg m}"
  using assms
  by (auto simp: compute_dedup_candidates_def list_by_canonical_text_def select_rows_parsed set_row_order
      tool_error_def dedup_match_def project_scope_matches_def Let_def image_iff)

text \<open>In fuzzy mode the candidates are taken from the newest rows of the scope only.\<close>

lemma fuzzy_pool:
  assumes "rows_parse E rows" and "row_order_ok order"
  shows "\<exists>ms. fuzzy_candidates E order rnd tid canonical cfg project rows = Inr ms
      \<and> (\<forall>m \<in> set ms. m \<in> set rows \<and> m_tenant_id m = tid
           \<and> is_near_duplicate rnd (to_lowercase E) canonical
               (case m_canonical_text m of None \<Rightarrow> [] | Some c \<Rightarrow> c) (rd_threshold cfg))"
proof -
  have pool: "m \<in> set rows \<and> p m" if "m \<in> set (take n (newest_rows (order (filter p rows))))" for m p n
    using in_set_takeD [OF that] by (simp add: set_row_order [OF assms(2)])
  show ?thesis
    unfolding fuzzy_candidates_def list_recent_with_null_project_def list_recent_for_project_def Let_def
      select_newest_parsed [OF assms] tool_error_def
    by (cases "rd_scope_project cfg \<and> project = None") (auto dest: pool)
qed

lemma candidates_match:
  assumes "rows_parse E rows" and "row_order_ok order"
  shows "\<exists>cs. compute_dedup_candidates E order rnd tid s kind project cfg rows = Inr cs
      \<and> set cs \<subseteq> m_chunk_id ` {m \<in> set rows. dedup_match E rnd tid s kind project cfg m}"
proof (cases "rd_mode cfg")
  case DedupExact
  obtain cs where "compute_dedup_candidates E order rnd tid s kind project cfg rows = Inr cs"
    "set cs = m_chunk_id ` {m \<in> set rows. dedup_match E rnd tid s kind project cfg m}"
    using candidates_exact [OF assms DedupExact, of rnd tid s kind project] by blast
  then show ?thesis by (intro exI [of _ cs]) simp
next
  case DedupFuzzy
  obtain ms where ms: "fuzzy_candidates E order rnd tid (canonicalize_for_type (to_lowercase E) s kind) cfg project rows = Inr ms"
    "\<forall>m \<in> set ms. m \<in> set rows \<and> m_tenant_id m = tid
       \<and> is_near_duplicate rnd (to_lowercase E) (canonicalize_for_type (to_lowercase E) s kind)
           (case m_canonical_text m of None \<Rightarrow> [] | Some c \<Rightarrow> c) (rd_threshold cfg)"
    using fuzzy_pool [OF assms] by blast
  then show ?thesis
    using DedupFuzzy unfolding compute_dedup_candidates_def dedup_match_def Let_def by auto
qed

text \<open>A matching row is a head of the catalog.\<close>

lemma match_is_head:
  assumes "db_ok rows" and "m \<in> set rows" and "dedup_match E rnd tid s kind project cfg m"
  shows "catalog tid rows (m_chunk_id m) = Some (strip_coords m) \<and> successor (catalog tid rows) (m_chunk_id m) = None"
proof -
  have "meta_get rows tid (m_chunk_id m) = Some m"
    using assms by (intro meta_get_Some [THEN iffD2]) (auto simp: dedup_match_def is_live_head_row_def live_rows_def)
  then show ?thesis
    using assms(3) by (simp add: catalog_def successor_catalog dedup_match_def is_live_head_row_def)
qed

end
