(* ===== verification/Memory_Add.thy ===== *)
theory Memory_Add
  imports Dedup Write_Service
begin

text \<open>
  The operation \<open>memory.add\<close> (\<open>ops/add.rs\<close> with its helpers in \<open>ops/mod.rs\<close>): validation of the
  request, admission, reuse of an existing chunk with the same content, supersession of near
  duplicates, and the write itself, composed from the models of those components.

  The store is the persistent store, at the tenant the request resolves to. What the operation
  takes from outside (environment variables, the pinned tenant file, clocks, new ids, digests,
  the order of rows, float rounding) is the record \<open>add_env\<close>.
\<close>

section \<open>Requests and state\<close>

record add_params =
  ap_tenant_id :: string
  ap_text :: str
  ap_chunk_type :: str
  ap_project_id :: "string option"
  ap_episode_id :: "str option"
  ap_source :: "source option"
  ap_tags :: "str list"
  ap_expires_at_ms :: "i64 option"
  ap_review_after_ms :: "i64 option"
  ap_event_time_ms :: "i64 option"
  ap_mode :: "str option"
  ap_supersede_near_duplicates :: "dedup_spec option"

record 'b add_env =
  ae_ext :: "'b store_ext"
  ae_cfg :: tenant_config
  ae_segments :: "str \<Rightarrow> str list"
  ae_sha256 :: "str \<Rightarrow> string"
  ae_default_hash :: "str \<Rightarrow> string"
  ae_rnd :: rounding
  ae_ratio :: "real \<Rightarrow> real"
  ae_order :: row_order
  ae_env_tenant :: "string option"
  ae_pinned_tenant :: "string option"
  ae_tenants :: "string list option"
  ae_dir_error :: "memd_error option"
  ae_new_id :: string
  ae_ids :: "nat \<Rightarrow> string"
  ae_indexed :: bool
  ae_created :: i64
  ae_prepared :: i64
  ae_now :: i64
  ae_ledger :: bool
  ae_usage_now :: i64
  ae_usage_retention :: i64

record 'b op_state =
  os_live :: "'b live_store"
  os_usage :: "usage_event list"
  os_last_sweep :: i64

record add_response =
  ar_chunk_id :: string
  ar_stored_chunk_ids :: "string list"
  ar_superseded_ids :: "string list option"
  ar_dedupe_decision :: "string option"
  ar_deduped_existing_id :: "string option"
  ar_admission :: admission_outcome
  ar_lifecycle_tier :: "string option"
  ar_expires_at_ms :: "i64 option"
  ar_review_after_ms :: "i64 option"
  ar_created_tenant :: "bool option"

section \<open>Parsing the request\<close>

definition try_build :: "string \<Rightarrow> string \<Rightarrow> (operation_error + string) option" where
  "try_build v src =
     (let t = trim (lit v) in
      if t = [] then None
      else Some (map_sum (\<lambda>e. InvalidParams (''invalid tenant_id from '' @ src)) id (tenant_new (map char_of t))))"

definition resolve_tenant_id :: "'b add_env \<Rightarrow> string \<Rightarrow> operation_error + string" where
  "resolve_tenant_id env explicit =
     (case try_build explicit ''call params'' of
        Some r \<Rightarrow> r
      | None \<Rightarrow>
         (case Option.bind (ae_env_tenant env) (\<lambda>v. try_build v ''$MEMD_DEFAULT_TENANT'') of
            Some r \<Rightarrow> r
          | None \<Rightarrow>
             (case Option.bind (ae_pinned_tenant env) (\<lambda>v. try_build v ''~/.memd/default_tenant'') of
                Some r \<Rightarrow> r
              | None \<Rightarrow> map_sum (\<lambda>e. InvalidParams (display_error e)) id (tenant_new ''default''))))"

definition parse_chunk_type :: "(str \<Rightarrow> str) \<Rightarrow> str \<Rightarrow> operation_error + chunk_type" where
  "parse_chunk_type lower s =
     (let v = lower s in
      if v = lit ''code'' then Inr Code
      else if v = lit ''doc'' \<or> v = lit ''scientific'' then Inr Doc
      else if v = lit ''trace'' then Inr Trace
      else if v = lit ''decision'' then Inr Decision
      else if v = lit ''plan'' then Inr Plan
      else if v = lit ''research'' then Inr Research
      else if v = lit ''message'' then Inr Message
      else if v = lit ''summary'' then Inr Summary
      else if v = lit ''general'' \<or> v = lit ''other'' then Inr OtherType
      else Inl (InvalidParams ''invalid chunk type''))"

definition validate_episode_id :: "str \<Rightarrow> operation_error + unit" where
  "validate_episode_id s =
     (if s = [] then Inl (InvalidParams ''episode_id must not be empty'')
      else if list_all (\<lambda>c. c < 128 \<and> (ascii_alnum (char_of c) \<or> c = of_char (CHR ''_'') \<or> c = of_char (CHR ''-''))) s
      then Inr ()
      else Inl (InvalidParams ''episode_id must contain only letters, digits, _ or -''))"

definition make_episode_tag :: "str \<Rightarrow> str" where
  "make_episode_tag s = lit ''episode:'' @ s"

definition parse_ingestion_mode :: "str option \<Rightarrow> operation_error + ingestion_mode" where
  "parse_ingestion_mode s =
     (case s of
        None \<Rightarrow> Inr Document
      | Some v \<Rightarrow>
         (let t = trim v in
          if t = [] then Inr Document
          else if t = lit (ingestion_mode_str Conversation) then Inr Conversation
          else if t = lit (ingestion_mode_str Document) then Inr Document
          else Inl (InvalidParams ''invalid ingestion mode'')))"

definition empty_source :: source where
  "empty_source = \<lparr>uri = None, repo = None, commit_hash = None, src_path = None, tool_name = None, tool_call_id = None\<rparr>"

definition params_to_source :: "source option \<Rightarrow> source" where
  "params_to_source s = (case s of None \<Rightarrow> empty_source | Some x \<Rightarrow> x)"

definition new_memory_chunk :: "string \<Rightarrow> i64 \<Rightarrow> (str \<Rightarrow> string) \<Rightarrow> string \<Rightarrow> str \<Rightarrow> chunk_type \<Rightarrow> memory_chunk" where
  "new_memory_chunk cid now hash tid s kind =
     \<lparr>mc_chunk_id = cid, mc_tenant_id = tid, mc_project_id = None, mc_agent_id = None,
      mc_timestamp_created = now, mc_timestamp_observed = None, mc_chunk_type = kind, mc_status = Final,
      mc_promotion_state = Raw, mc_source = empty_source, mc_text = s, mc_tags = [], mc_hash = hash s,
      mc_ingestion_mode = Document\<rparr>"

text \<open>The chunk of the request before admission: project, episode tag, source, event time, tags.\<close>

definition requested_chunk :: "'b add_env \<Rightarrow> add_params \<Rightarrow> string \<Rightarrow> chunk_type \<Rightarrow> operation_error + memory_chunk" where
  "requested_chunk env p tid kind =
     (let c0 = new_memory_chunk (ae_new_id env) (ae_created env) (ae_default_hash env) tid (ap_text p) kind;
          c1 = (case ap_project_id p of None \<Rightarrow> c0 | Some pid \<Rightarrow> c0\<lparr>mc_project_id := Some pid\<rparr>)
      in case (case ap_episode_id p of
                 None \<Rightarrow> Inr c1
               | Some e \<Rightarrow> map_sum id (\<lambda>_. c1\<lparr>mc_tags := mc_tags c1 @ [make_episode_tag e]\<rparr>) (validate_episode_id e)) of
           Inl e \<Rightarrow> Inl e
         | Inr c2 \<Rightarrow>
            (let c3 = c2\<lparr>mc_source := params_to_source (ap_source p)\<rparr>;
                 c4 = (case ap_event_time_ms p of None \<Rightarrow> c3 | Some ms \<Rightarrow> c3\<lparr>mc_timestamp_observed := Some ms\<rparr>)
             in Inr (if ap_tags p = [] then c4 else c4\<lparr>mc_tags := mc_tags c4 @ ap_tags p\<rparr>)))"

definition resolve_write_admission ::
  "'b add_env \<Rightarrow> memory_chunk \<Rightarrow> ingestion_mode \<Rightarrow> i64 option \<Rightarrow> i64 option \<Rightarrow> prepared_write" where
  "resolve_write_admission env c mode expires review =
     prepare_write_at (ae_rnd env)
       \<lparr>rq_chunk_type = mc_chunk_type c, rq_text = mc_text c, rq_tags = mc_tags c, rq_ingestion_mode = mode,
        rq_expires_at_ms = expires, rq_review_after_ms = review\<rparr> (ae_prepared env)"

section \<open>The usage ledger\<close>

text \<open>
  \<open>PersistentStore::record_usage_event\<close>: best effort, with a retention sweep at most once an hour.
\<close>

definition record_usage_event :: "'b add_env \<Rightarrow> usage_event \<Rightarrow> 'b op_state \<Rightarrow> 'b op_state" where
  "record_usage_event env ev s =
     (if read_only (ae_cfg env) \<or> \<not> ae_ledger env then s
      else let ts = ae_usage_now env; usage = os_usage s @ [ev\<lparr>ue_ts_unix_ms := ts\<rparr>]
           in if sint (saturating_sub ts (os_last_sweep s)) \<ge> 3600000
              then s\<lparr>os_usage := filter (\<lambda>u. \<not> sint (ue_ts_unix_ms u) < sint (saturating_sub ts (ae_usage_retention env))) usage,
                     os_last_sweep := ts\<rparr>
              else s\<lparr>os_usage := usage\<rparr>)"

definition add_usage_event :: "string \<Rightarrow> string option \<Rightarrow> string \<Rightarrow> nat \<Rightarrow> nat \<Rightarrow> usage_event" where
  "add_usage_event tid project outcome n bytes =
     \<lparr>ue_ts_unix_ms = 0, ue_op = ''add'', ue_tenant = Some tid, ue_project = project, ue_outcome = outcome,
      ue_chunk_count = Some (int n), ue_bytes = Some (as_i64 bytes), ue_detail = None\<rparr>"

section \<open>Reuse of identical content\<close>

definition is_digest_projection_tag :: "str \<Rightarrow> bool" where
  "is_digest_projection_tag tag \<longleftrightarrow>
     tag = lit ''task:kind:digest'' \<or> tag = lit ''task:projection:digest''
     \<or> starts_with tag (lit ''task:digest:'') \<or> starts_with tag (lit ''task:role:'')"

definition default_content_dedupe_exempt :: "rounding \<Rightarrow> memory_chunk \<Rightarrow> str list \<Rightarrow> bool" where
  "default_content_dedupe_exempt rnd chunk caller_tags \<longleftrightarrow>
     list_ex is_digest_projection_tag (caller_tags @ mc_tags chunk) \<or> has_explicit_priority rnd caller_tags"

definition caller_tags_already_preserved :: "memory_chunk \<Rightarrow> str list \<Rightarrow> bool" where
  "caller_tags_already_preserved existing caller_tags \<longleftrightarrow> list_all (\<lambda>t. t \<in> set (mc_tags existing)) caller_tags"

definition same_content :: "memory_chunk \<Rightarrow> str list \<Rightarrow> memory_chunk \<Rightarrow> bool" where
  "same_content chunk caller_tags existing \<longleftrightarrow>
     mc_text existing = mc_text chunk \<and> mc_chunk_type existing = mc_chunk_type chunk
     \<and> mc_project_id existing = mc_project_id chunk
     \<and> (mc_source chunk = empty_source \<or> mc_source chunk = mc_source existing)
     \<and> caller_tags_already_preserved existing caller_tags"

text \<open>Reading a candidate may open its segment, so the store is passed on.\<close>

fun first_same_content ::
  "'b store_ext \<Rightarrow> tenant_config \<Rightarrow> memory_chunk \<Rightarrow> str list \<Rightarrow> string list \<Rightarrow> 'b tenant_store
     \<Rightarrow> (operation_error + string option) \<times> 'b tenant_store" where
  "first_same_content E cfg chunk caller_tags [] st = (Inr None, st)"
| "first_same_content E cfg chunk caller_tags (c # cs) st =
     (case get_chunk E cfg c st of
        (Inl e, st1) \<Rightarrow> (Inl (ToolError (display_error e)), st1)
      | (Inr None, st1) \<Rightarrow> first_same_content E cfg chunk caller_tags cs st1
      | (Inr (Some existing), st1) \<Rightarrow>
          if same_content chunk caller_tags existing then (Inr (Some c), st1)
          else first_same_content E cfg chunk caller_tags cs st1)"

definition find_default_content_duplicate ::
  "'b add_env \<Rightarrow> memory_chunk \<Rightarrow> str list \<Rightarrow> 'b tenant_store \<Rightarrow> (operation_error + string option) \<times> 'b tenant_store" where
  "find_default_content_duplicate env chunk caller_tags st =
     (if default_content_dedupe_exempt (ae_rnd env) chunk caller_tags then (Inr None, st)
      else case list_live_by_content_hash (ae_ext env) (ae_order env) (mc_tenant_id chunk) (mc_project_id chunk)
                  (mc_chunk_type chunk) (ae_sha256 env (mc_text chunk)) 8 (db st) of
             Inl e \<Rightarrow> (Inl (ToolError (display_error e)), st)
           | Inr candidates \<Rightarrow>
               first_same_content (ae_ext env) ((ae_cfg env)\<lparr>cfg_tenant_id := mc_tenant_id chunk\<rparr>) chunk caller_tags
                 (map m_chunk_id candidates) st)"

section \<open>The write\<close>

definition add_chunk_with_complete_ids ::
  "'b add_env \<Rightarrow> tenant_config \<Rightarrow> memory_chunk \<Rightarrow> lifecycle_delta \<Rightarrow> 'b live_store
     \<Rightarrow> (operation_error + (string \<times> string list)) \<times> 'b live_store" where
  "add_chunk_with_complete_ids env cfg chunk d s =
     (case tool_error
             (if delta_is_empty d
              then add_chunk_with_stored_ids (ae_ext env) cfg (ae_segments env) (ae_sha256 env) (ae_now env) (ae_ids env)
                     (ae_indexed env) chunk s
              else add_chunk_with_lifecycle_and_stored_ids (ae_ext env) cfg (ae_segments env) (ae_sha256 env) (ae_now env)
                     (ae_ids env) (ae_indexed env) chunk d s) of
        Inl e \<Rightarrow> (Inl e, s)
      | Inr (ids, s') \<Rightarrow> (Inr ids, s'))"

definition supersede_first ::
  "'b add_env \<Rightarrow> tenant_config \<Rightarrow> string \<Rightarrow> memory_chunk \<Rightarrow> lifecycle_delta \<Rightarrow> 'b live_store
     \<Rightarrow> (operation_error + (string \<times> string list)) \<times> 'b live_store" where
  "supersede_first env cfg old chunk d s =
     map_prod tool_error id
       (supersede_chunk_with_lifecycle_and_stored_ids (ae_ext env) cfg (ae_segments env) (ae_sha256 env) (ae_now env)
          (ae_ids env) (ae_indexed env) old chunk d s)"

text \<open>Deduplicating write: only the first candidate is superseded.\<close>

definition add_with_dedup ::
  "'b add_env \<Rightarrow> tenant_config \<Rightarrow> resolved_dedup \<Rightarrow> memory_chunk \<Rightarrow> lifecycle_delta \<Rightarrow> 'b live_store
     \<Rightarrow> (operation_error + (string \<times> string list \<times> string list)) \<times> 'b live_store" where
  "add_with_dedup env cfg dd chunk d s =
     (case compute_dedup_candidates (ae_ext env) (ae_order env) (ae_ratio env) (mc_tenant_id chunk) (mc_text chunk)
             (mc_chunk_type chunk) (mc_project_id chunk) dd (db (store s)) of
        Inl e \<Rightarrow> (Inl e, s)
      | Inr [] \<Rightarrow>
          map_prod (map_sum id (\<lambda>(cid, stored). (cid, stored, []))) id (add_chunk_with_complete_ids env cfg chunk d s)
      | Inr (old # rest) \<Rightarrow>
          map_prod (map_sum id (\<lambda>(cid, stored). (cid, stored, [old]))) id (supersede_first env cfg old chunk d s))"

definition add_result ::
  "prepared_write \<Rightarrow> string \<Rightarrow> string list \<Rightarrow> string list option \<Rightarrow> string option \<Rightarrow> string option \<Rightarrow> bool option
     \<Rightarrow> add_response" where
  "add_result adm cid stored replaced decision existing created =
     \<lparr>ar_chunk_id = cid, ar_stored_chunk_ids = stored, ar_superseded_ids = replaced, ar_dedupe_decision = decision,
      ar_deduped_existing_id = existing, ar_admission = pw_outcome adm, ar_lifecycle_tier = lifecycle_tier_name adm,
      ar_expires_at_ms = pr_expires_at_ms (pw_retention adm), ar_review_after_ms = pr_review_after_ms (pw_retention adm),
      ar_created_tenant = created\<rparr>"

text \<open>After admission: reuse, supersede or add.\<close>

definition store_admitted ::
  "'b add_env \<Rightarrow> tenant_config \<Rightarrow> resolved_dedup option \<Rightarrow> bool \<Rightarrow> bool option \<Rightarrow> prepared_write \<Rightarrow> memory_chunk \<Rightarrow> str list
     \<Rightarrow> 'b live_store \<Rightarrow> (operation_error + add_response) \<times> 'b live_store" where
  "store_admitted env cfg dedup caller_lifecycle created adm chunk caller_tags s =
     (let d = prepared_lifecycle_delta adm;
          (found, st) = (if dedup = None \<and> \<not> caller_lifecycle
                         then find_default_content_duplicate env chunk caller_tags (store s) else (Inr None, store s));
          s1 = s\<lparr>store := st\<rparr>
      in case found of
           Inl e \<Rightarrow> (Inl e, s1)
         | Inr (Some existing) \<Rightarrow>
             (Inr (add_result adm existing [existing] None (Some ''reused_existing_exact_content'') (Some existing) None), s1)
         | Inr None \<Rightarrow>
            (case dedup of
               Some dd \<Rightarrow>
                 map_prod (map_sum id (\<lambda>(cid, stored, replaced). add_result adm cid stored (Some replaced) None None None)) id
                   (add_with_dedup env cfg dd chunk d s1)
             | None \<Rightarrow>
                 map_prod (map_sum id (\<lambda>(cid, stored). add_result adm cid stored None None None created)) id
                   (add_chunk_with_complete_ids env cfg chunk d s1)))"

text \<open>Everything up to the admission decision; nothing has been written yet.\<close>

definition accept_request :: "'b add_env \<Rightarrow> add_params \<Rightarrow> operation_error + (string \<times> memory_chunk \<times> prepared_write)" where
  "accept_request env p =
     (case resolve_tenant_id env (ap_tenant_id p) of
        Inl e \<Rightarrow> Inl e
      | Inr tid \<Rightarrow>
     (case project_validate_opt (ap_project_id p) of
        Inl e \<Rightarrow> Inl (InvalidParams (display_error e))
      | Inr _ \<Rightarrow>
     (case parse_chunk_type (to_lowercase (ae_ext env)) (ap_chunk_type p) of
        Inl e \<Rightarrow> Inl e
      | Inr kind \<Rightarrow>
     (case ae_dir_error env of
        Some e \<Rightarrow> Inl (ToolError (display_error e))
      | None \<Rightarrow>
     (case requested_chunk env p tid kind of
        Inl e \<Rightarrow> Inl e
      | Inr chunk \<Rightarrow>
     (case parse_ingestion_mode (ap_mode p) of
        Inl e \<Rightarrow> Inl e
      | Inr mode \<Rightarrow>
          Inr (tid, chunk, resolve_write_admission env chunk mode (ap_expires_at_ms p) (ap_review_after_ms p))))))))"

definition requested_dedup :: "'b add_env \<Rightarrow> add_params \<Rightarrow> operation_error + resolved_dedup option" where
  "requested_dedup env p =
     (case ap_supersede_near_duplicates p of
        None \<Rightarrow> Inr None | Some spec \<Rightarrow> tool_error (resolve_spec (ae_ratio env) spec))"

definition caller_requested_lifecycle :: "add_params \<Rightarrow> bool" where
  "caller_requested_lifecycle p \<longleftrightarrow> ap_expires_at_ms p \<noteq> None \<or> ap_review_after_ms p \<noteq> None"

definition created_tenant :: "'b add_env \<Rightarrow> string \<Rightarrow> bool option" where
  "created_tenant env tid =
     (case ae_tenants env of Some ts \<Rightarrow> if tid \<notin> set ts then Some True else None | None \<Rightarrow> None)"

definition handle_memory_add ::
  "'b add_env \<Rightarrow> add_params \<Rightarrow> 'b op_state \<Rightarrow> (operation_error + add_response) \<times> 'b op_state" where
  "handle_memory_add env p s =
     (case accept_request env p of
        Inl e \<Rightarrow> (Inl e, s)
      | Inr (tid, chunk, adm) \<Rightarrow>
         (let usage = (\<lambda>outcome n. record_usage_event env
                         (add_usage_event tid (ap_project_id p) outcome n (byte_len (mc_text chunk))));
              reason = ao_reason (pw_outcome adm)
          in if is_rejected adm
             then (Inl (InvalidParams (''memory.add rejected by quality gate: '' @ reason)), usage (''rejected:'' @ reason) 0 s)
             else
               let s1 = usage (usage_outcome adm) 1 s
               in case requested_dedup env p of
                    Inl e \<Rightarrow> (Inl e, s1)
                  | Inr dedup \<Rightarrow>
                      map_prod id (\<lambda>l. s1\<lparr>os_live := l\<rparr>)
                        (store_admitted env ((ae_cfg env)\<lparr>cfg_tenant_id := tid\<rparr>) dedup (caller_requested_lifecycle p)
                           (created_tenant env tid) adm (apply_to_chunk adm chunk) (mc_tags chunk) (os_live s1))))"

section \<open>Refused requests\<close>

definition refused :: "'b add_env \<Rightarrow> add_params \<Rightarrow> bool" where
  "refused env p \<longleftrightarrow>
     (case accept_request env p of Inl _ \<Rightarrow> True | Inr (_, _, adm) \<Rightarrow> is_rejected adm) \<or> (\<exists>e. requested_dedup env p = Inl e)"

lemma usage_live [simp]: "os_live (record_usage_event env ev s) = os_live s"
  by (simp add: record_usage_event_def Let_def)

lemma refused_changes_nothing:
  assumes "refused env p"
  shows "\<exists>e s'. handle_memory_add env p s = (Inl e, s') \<and> os_live s' = os_live s"
  using assms
  by (auto simp: handle_memory_add_def refused_def Let_def split: sum.splits prod.splits)

section \<open>Reuse\<close>

text \<open>On a serving store, reading a candidate changes nothing, and a candidate with a payload is read.\<close>

text \<open>The payload of every chunk of the tenant decodes.\<close>

definition payloads_decode :: "'b store_ext \<Rightarrow> tenant_config \<Rightarrow> (string \<Rightarrow> bytes) \<Rightarrow> chunk_metadata list \<Rightarrow> bool" where
  "payloads_decode E cfg pl rows \<longleftrightarrow>
     (\<forall>c. meta_get rows (cfg_tenant_id cfg) c \<noteq> None \<longrightarrow> chunk_de E (pl c) \<noteq> None)"

text \<open>A row whose chunk a write with the same content may return.\<close>

definition reusable :: "string \<Rightarrow> memory_chunk \<Rightarrow> string \<Rightarrow> chunk_metadata \<Rightarrow> bool" where
  "reusable tid chunk hash m \<longleftrightarrow>
     m_tenant_id m = tid \<and> m_project_id m = mc_project_id chunk \<and> m_chunk_type m = mc_chunk_type chunk \<and> m_hash m = hash
     \<and> m_status m = Final \<and> tier (m_lifecycle m) \<noteq> History \<and> superseded_by (m_lifecycle m) = None"

lemma reusable_strip [simp]: "reusable tid chunk hash (strip_coords m) = reusable tid chunk hash m"
  by (simp add: reusable_def strip_coords_def)

lemma match_strip [simp]: "dedup_match E rnd tid s kind project cfg (strip_coords m) = dedup_match E rnd tid s kind project cfg m"
  by (cases "rd_mode cfg") (simp_all add: dedup_match_def strip_coords_def project_scope_matches_def is_live_head_row_def Let_def)

context tenant_log
begin

lemma first_same_content_ok:
  assumes "serving E cfg pl k rs st" and "\<forall>c \<in> set cs. \<exists>m. meta_get (db st) (cfg_tenant_id cfg) c = Some m \<and> chunk_de E (pl c) \<noteq> None"
  shows "snd (first_same_content E cfg chunk tags cs st) = st
    \<and> (\<exists>r. fst (first_same_content E cfg chunk tags cs st) = Inr r
         \<and> (case r of None \<Rightarrow> \<forall>c \<in> set cs. \<not> same_content chunk tags (the (chunk_de E (pl c)))
            | Some c \<Rightarrow> c \<in> set cs \<and> same_content chunk tags (the (chunk_de E (pl c)))))"
  using assms(2)
proof (induction cs)
  case (Cons c cs)
  obtain m x where m: "meta_get (db st) (cfg_tenant_id cfg) c = Some m" and x: "chunk_de E (pl c) = Some x"
    using Cons.prems by auto
  have get: "get_chunk E cfg c st = (Inr (Some (x\<lparr>mc_status := m_status m\<rparr>)), st)"
    using get_chunk_ok [OF assms(1), of c] m x by (simp add: decode_chunk_def)
  have same: "same_content chunk tags (x\<lparr>mc_status := m_status m\<rparr>) = same_content chunk tags x"
    by (simp add: same_content_def caller_tags_already_preserved_def)
  show ?case
    using Cons by (cases "same_content chunk tags x") (auto simp: get same x split: option.splits)
qed simp

lemma find_duplicate_ok:
  assumes "serving E cfg pl k rs st" and "payloads_decode E cfg pl (db st)" and "rows_parse E (db st)"
    and "row_order_ok (ae_order env)" and "ae_ext env = E" and "ae_cfg env = cfg" and "mc_tenant_id chunk = cfg_tenant_id cfg"
  defines "v \<equiv> catalog (cfg_tenant_id cfg) (db st)"
    and "p \<equiv> reusable (cfg_tenant_id cfg) chunk (ae_sha256 env (mc_text chunk))"
  shows "\<exists>r. find_default_content_duplicate env chunk tags st = (Inr r, st)
    \<and> (\<forall>c. r = Some c \<longrightarrow> (\<exists>m. v c = Some m \<and> p m \<and> same_content chunk tags (the (chunk_de E (pl c)))))
    \<and> (r = None \<longrightarrow> default_content_dedupe_exempt (ae_rnd env) chunk tags
         \<or> (\<forall>c m. v c = Some m \<and> p m \<and> (\<forall>c' m'. v c' = Some m' \<and> p m' \<longrightarrow> c' = c)
              \<longrightarrow> \<not> same_content chunk tags (the (chunk_de E (pl c)))))"
proof (cases "default_content_dedupe_exempt (ae_rnd env) chunk tags")
  case False
  let ?T = "cfg_tenant_id cfg"
  let ?rows = "take 8 (newest_rows (ae_order env (filter p (db st))))"
  let ?ids = "map m_chunk_id ?rows"
  have list: "list_live_by_content_hash E (ae_order env) ?T (mc_project_id chunk) (mc_chunk_type chunk)
      (ae_sha256 env (mc_text chunk)) 8 (db st) = Inr ?rows"
    unfolding list_live_by_content_hash_def select_newest_parsed [OF assms(3,4)] p_def reusable_def by simp
  have db: "db_ok (db st)" using assms(1) by (simp add: serving_def recoverable_def)
  have live: "meta_get (db st) ?T (m_chunk_id m) = Some m \<and> v (m_chunk_id m) = Some (strip_coords m)"
    if "m \<in> set (db st)" and "p m" for m
  proof -
    have "meta_get (db st) ?T (m_chunk_id m) = Some m"
      using that by (simp add: meta_get_Some [OF db] live_rows_def p_def reusable_def)
    then show ?thesis by (simp add: v_def catalog_def)
  qed
  have row: "m \<in> set (db st) \<and> p m" if "m \<in> set ?rows" for m
    using in_set_takeD [OF that] by (simp add: set_row_order [OF assms(4)])
  have "\<forall>c \<in> set ?ids. \<exists>m. meta_get (db st) ?T c = Some m \<and> chunk_de E (pl c) \<noteq> None"
  proof
    fix c assume "c \<in> set ?ids"
    then obtain m where "m \<in> set ?rows" "c = m_chunk_id m" by auto
    with row [of m] live [of m] assms(2) show "\<exists>m. meta_get (db st) ?T c = Some m \<and> chunk_de E (pl c) \<noteq> None"
      by (auto simp: payloads_decode_def)
  qed
  note first = first_same_content_ok [OF assms(1) this, of chunk tags]
  have find: "find_default_content_duplicate env chunk tags st = first_same_content E cfg chunk tags ?ids st"
    using False list assms(5-7) by (simp add: find_default_content_duplicate_def)
  obtain r where r: "first_same_content E cfg chunk tags ?ids st = (Inr r, st)" using first by (metis prod.collapse)
  have some: "\<exists>m. v c = Some m \<and> p m \<and> same_content chunk tags (the (chunk_de E (pl c)))" if "r = Some c" for c
  proof -
    have "c \<in> m_chunk_id ` set ?rows" "same_content chunk tags (the (chunk_de E (pl c)))" using first r that by simp_all
    then obtain m where "m \<in> set ?rows" "c = m_chunk_id m" by blast
    with row [of m] live [of m] \<open>same_content chunk tags (the (chunk_de E (pl c)))\<close>
    show ?thesis by (intro exI [of _ "strip_coords m"]) (simp add: p_def)
  qed
  have none: "\<not> same_content chunk tags (the (chunk_de E (pl c)))"
    if "r = None" and m: "v c = Some m" "p m" and only: "\<forall>c' m'. v c' = Some m' \<and> p m' \<longrightarrow> c' = c" for c m
  proof -
    obtain m0 where "m0 \<in> set (db st)" "m = strip_coords m0"
      using m(1) by (auto simp: v_def catalog_def meta_get_Some [OF db] live_rows_def)
    then have "filter p (db st) \<noteq> []" using m(2) by (auto simp: filter_empty_conv p_def)
    then have "length ?rows \<noteq> 0" by (simp add: length_row_order [OF assms(4)] del: length_0_conv)
    then have "?rows \<noteq> []" by blast
    then obtain m1 where "m1 \<in> set ?rows" by (meson list.set_sel(1))
    moreover from this have "m_chunk_id m1 = c" using row live only by (metis p_def reusable_strip)
    ultimately have "c \<in> set ?ids" by force
    then show ?thesis using first r that(1) by auto
  qed
  show ?thesis using find r some none by auto
qed (simp add: find_default_content_duplicate_def)

end

section \<open>The effect on the catalog\<close>

definition catalog_add_lifecycle ::
  "'b store_ext \<Rightarrow> i64 \<Rightarrow> pending_chunk list \<Rightarrow> lifecycle_delta \<Rightarrow> (string \<Rightarrow> chunk_metadata option)
     \<Rightarrow> string \<Rightarrow> chunk_metadata option" where
  "catalog_add_lifecycle E now ps d v =
     (if delta_is_empty d then catalog_add E ps v
      else fold (\<lambda>i. catalog_delta i (stamped now d)) (map pending_id ps) (catalog_add E ps v))"

text \<open>
  What a deduplicating write did: it superseded one head that matches, or it added the parts,
  which exact deduplication does only when no head matches.
\<close>

definition dedup_effect ::
  "'b add_env \<Rightarrow> resolved_dedup \<Rightarrow> memory_chunk \<Rightarrow> lifecycle_delta \<Rightarrow> pending_chunk list
     \<Rightarrow> (string \<Rightarrow> chunk_metadata option) \<Rightarrow> string list \<Rightarrow> (string \<Rightarrow> chunk_metadata option) \<Rightarrow> bool" where
  "dedup_effect env dd chunk d ps v replaced v' \<longleftrightarrow>
     (let E = ae_ext env;
          matches = dedup_match E (ae_ratio env) (mc_tenant_id chunk) (mc_text chunk) (mc_chunk_type chunk) (mc_project_id chunk) dd
      in (\<exists>old m. replaced = [old] \<and> v old = Some m \<and> matches m \<and> v' = catalog_supersede E (ae_now env) old ps d v)
         \<or> replaced = [] \<and> v' = catalog_add_lifecycle E (ae_now env) ps d v
           \<and> (rd_mode dd = DedupExact \<longrightarrow> (\<forall>c m. v c = Some m \<longrightarrow> \<not> matches m)))"

text \<open>What a successful \<open>memory.add\<close> did: it returned a chunk with the same content, or it wrote.\<close>

definition add_effect ::
  "'b add_env \<Rightarrow> (string \<Rightarrow> bytes) \<Rightarrow> resolved_dedup option \<Rightarrow> prepared_write \<Rightarrow> memory_chunk \<Rightarrow> str list
     \<Rightarrow> (string \<Rightarrow> chunk_metadata option) \<Rightarrow> add_response \<Rightarrow> (string \<Rightarrow> chunk_metadata option) \<Rightarrow> bool" where
  "add_effect env pl dedup adm chunk tags v r v' \<longleftrightarrow>
     (let E = ae_ext env; d = prepared_lifecycle_delta adm;
          ps = parts_of E (ae_segments env) (ae_sha256 env) (ae_ids env) chunk
      in if ar_dedupe_decision r \<noteq> None
         then v' = v \<and> dedup = None
              \<and> (\<exists>m. v (ar_chunk_id r) = Some m \<and> reusable (mc_tenant_id chunk) chunk (ae_sha256 env (mc_text chunk)) m
                   \<and> same_content chunk tags (the (chunk_de E (pl (ar_chunk_id r)))))
         else ar_chunk_id r = pending_id (hd ps) \<and> ar_stored_chunk_ids r = map pending_id ps
              \<and> (case dedup of
                   None \<Rightarrow> ar_superseded_ids r = None \<and> v' = catalog_add_lifecycle E (ae_now env) ps d v
                 | Some dd \<Rightarrow> \<exists>replaced. ar_superseded_ids r = Some replaced \<and> dedup_effect env dd chunk d ps v replaced v'))"

lemma plain_prepared [simp]: "plain_delta (prepared_lifecycle_delta adm)"
  by (simp add: plain_delta_def prepared_lifecycle_delta_def)

lemma complete_ids_lifecycle:
  assumes "\<not> read_only cfg"
  shows "add_chunk_with_complete_ids env cfg chunk d s =
     (case add_chunk_with_lifecycle_and_stored_ids (ae_ext env) cfg (ae_segments env) (ae_sha256 env) (ae_now env)
             (ae_ids env) (ae_indexed env) chunk d s of
        Inl e \<Rightarrow> (Inl (ToolError (display_error e)), s) | Inr (ids, s') \<Rightarrow> (Inr ids, s'))"
  using assms
  by (auto simp: add_chunk_with_complete_ids_def add_chunk_with_lifecycle_and_stored_ids_def tool_error_def
      split: sum.splits)

context tenant_log
begin

lemma dedup_write_ok:
  assumes inv: "live_inv E cfg pl (2 * length ps + k) used rs (store s)"
    and parts: "expand_chunks_for_add (ae_segments env) chunk = Inr parts"
    and ps: "ps = pending_of E (ae_sha256 env) (ae_ids env) parts"
    and ok: "op_ok E cfg pl (ae_now env) used (OpAdd ps)" and tid: "mc_tenant_id chunk = cfg_tenant_id cfg"
    and plain: "plain_delta d" and cp: "wal_fits (wal_x E) (checkpoint_record (cfg_tenant_id cfg) (ae_now env))"
    and tab: "rows_parse E (db (store s))" and ord: "row_order_ok (ae_order env)" and E: "ae_ext env = E"
  shows "\<exists>old s' rs'. add_with_dedup env cfg dd chunk d s = (Inr (pending_id (hd ps), map pending_id ps, old), s')
      \<and> live_inv E cfg pl k (used \<union> pending_id ` set ps) rs' (store s')
      \<and> dedup_effect env dd chunk d ps (catalog (cfg_tenant_id cfg) (db (store s))) old
          (catalog (cfg_tenant_id cfg) (db (store s')))"
proof -
  let ?T = "cfg_tenant_id cfg"
  let ?v = "catalog ?T (db (store s))"
  let ?match = "dedup_match E (ae_ratio env) ?T (mc_text chunk) (mc_chunk_type chunk) (mc_project_id chunk) dd"
  have db: "db_ok (db (store s))" using inv by (simp add: live_inv_def serving_def recoverable_def)
  obtain cs where cs: "compute_dedup_candidates E (ae_order env) (ae_ratio env) ?T (mc_text chunk) (mc_chunk_type chunk)
      (mc_project_id chunk) dd (db (store s)) = Inr cs" "set cs \<subseteq> m_chunk_id ` {m \<in> set (db (store s)). ?match m}"
    using candidates_match [OF tab ord] by blast
  show ?thesis
  proof (cases cs)
    case Nil
    obtain s' rs' where a: "add_chunk_with_lifecycle_and_stored_ids E cfg (ae_segments env) (ae_sha256 env) (ae_now env)
          (ae_ids env) (ae_indexed env) chunk d s = Inr ((pending_id (hd ps), map pending_id ps), s')"
      "live_inv E cfg pl k (used \<union> pending_id ` set ps) rs' (store s')"
      "catalog ?T (db (store s')) = catalog_add_lifecycle E (ae_now env) ps d ?v"
      using live_add_lifecycle [OF inv parts ps ok tid plain cp, of "ae_indexed env"] unfolding catalog_add_lifecycle_def by blast
    have none: "\<not> ?match m" if exact: "rd_mode dd = DedupExact" and row: "?v c = Some m" for c m
    proof -
      obtain m0 where m0: "m0 \<in> set (db (store s))" "m = strip_coords m0"
        using row by (auto simp: catalog_def meta_get_Some [OF db] live_rows_def)
      have "{m \<in> set (db (store s)). ?match m} = {}"
        using candidates_exact [OF tab ord exact, of "ae_ratio env" ?T "mc_text chunk" "mc_chunk_type chunk" "mc_project_id chunk"]
          cs(1) Nil by simp
      with m0 show ?thesis by auto
    qed
    have "add_with_dedup env cfg dd chunk d s = (Inr (pending_id (hd ps), map pending_id ps, []), s')"
      using cs(1) Nil a(1) tid E by (simp add: add_with_dedup_def complete_ids_lifecycle [OF writable])
    with a(2,3) none show ?thesis
      by (intro exI [of _ "[]"] exI [of _ s'] exI [of _ rs']) (simp add: dedup_effect_def Let_def tid E)
  next
    case (Cons old rest)
    then obtain m where m: "m \<in> set (db (store s))" "?match m" "old = m_chunk_id m" using cs(2) by auto
    note head = match_is_head [OF db m(1,2)]
    obtain s' rs' where a: "supersede_chunk_with_lifecycle_and_stored_ids E cfg (ae_segments env) (ae_sha256 env) (ae_now env)
          (ae_ids env) (ae_indexed env) old chunk d s = (Inr (pending_id (hd ps), map pending_id ps), s')"
      "live_inv E cfg pl k (used \<union> pending_id ` set ps) rs' (store s')"
      "catalog ?T (db (store s')) = catalog_supersede E (ae_now env) old ps d ?v"
      using supersede_head [OF inv parts ps ok tid plain cp, of old "ae_indexed env"] head m(3) by auto
    have "add_with_dedup env cfg dd chunk d s = (Inr (pending_id (hd ps), map pending_id ps, [old]), s')"
      using cs(1) Cons a(1) tid E by (simp add: add_with_dedup_def supersede_first_def tool_error_def)
    with a(2,3) head m(2,3) show ?thesis
      by (intro exI [of _ "[old]"] exI [of _ s'] exI [of _ rs']) (simp add: dedup_effect_def Let_def tid E)
  qed
qed

lemma store_admitted_ok:
  assumes inv: "live_inv E cfg pl (2 * length ps + k) used rs (store s)"
    and parts: "expand_chunks_for_add (ae_segments env) chunk = Inr parts"
    and ps: "ps = pending_of E (ae_sha256 env) (ae_ids env) parts"
    and ok: "op_ok E cfg pl (ae_now env) used (OpAdd ps)" and tid: "mc_tenant_id chunk = cfg_tenant_id cfg"
    and cp: "wal_fits (wal_x E) (checkpoint_record (cfg_tenant_id cfg) (ae_now env))"
    and tab: "rows_parse E (db (store s))" "payloads_decode E cfg pl (db (store s))"
    and ord: "row_order_ok (ae_order env)" and env: "ae_ext env = E" "ae_cfg env = cfg"
  shows "\<exists>r s' rs'. store_admitted env cfg dedup caller_lifecycle created adm chunk tags s = (Inr r, s')
      \<and> live_inv E cfg pl k (used \<union> pending_id ` set ps) rs' (store s')
      \<and> add_effect env pl dedup adm chunk tags (catalog (cfg_tenant_id cfg) (db (store s))) r
          (catalog (cfg_tenant_id cfg) (db (store s')))"
proof -
  let ?d = "prepared_lifecycle_delta adm"
  have ps': "parts_of E (ae_segments env) (ae_sha256 env) (ae_ids env) chunk = ps" by (simp add: parts_of_def parts ps)
  have serv: "serving E cfg pl (2 * length ps + k) rs (store s)" using inv by (simp add: live_inv_def)
  obtain found where found: "find_default_content_duplicate env chunk tags (store s) = (Inr found, store s)"
    "\<forall>c. found = Some c \<longrightarrow> (\<exists>m. catalog (cfg_tenant_id cfg) (db (store s)) c = Some m
         \<and> reusable (cfg_tenant_id cfg) chunk (ae_sha256 env (mc_text chunk)) m
         \<and> same_content chunk tags (the (chunk_de E (pl c))))"
    using find_duplicate_ok [OF serv tab(2,1) ord env tid, of tags] by blast
  consider (reuse) c where "dedup = None" "\<not> caller_lifecycle" "found = Some c"
    | (plain) "dedup = None" "caller_lifecycle \<or> found = None" | (dedup) dd where "dedup = Some dd"
    by (cases dedup; cases found) auto
  then show ?thesis
  proof cases
    case reuse
    let ?r = "add_result adm c [c] None (Some ''reused_existing_exact_content'') (Some c) None"
    have "store_admitted env cfg dedup caller_lifecycle created adm chunk tags s = (Inr ?r, s)"
      using found(1) reuse by (simp add: store_admitted_def)
    moreover have "live_inv E cfg pl k (used \<union> pending_id ` set ps) rs (store s)"
      using live_inv_mono [OF live_inv_less [OF inv, of k]] by simp
    ultimately show ?thesis
      using found(2) reuse tid env(1)
      by (intro exI [of _ ?r] exI [of _ s] exI [of _ rs]) (auto simp: add_effect_def add_result_def Let_def)
  next
    case plain
    obtain s' rs' where a: "add_chunk_with_lifecycle_and_stored_ids E cfg (ae_segments env) (ae_sha256 env) (ae_now env)
          (ae_ids env) (ae_indexed env) chunk ?d s = Inr ((pending_id (hd ps), map pending_id ps), s')"
      "live_inv E cfg pl k (used \<union> pending_id ` set ps) rs' (store s')"
      "catalog (cfg_tenant_id cfg) (db (store s')) =
         catalog_add_lifecycle E (ae_now env) ps ?d (catalog (cfg_tenant_id cfg) (db (store s)))"
      using live_add_lifecycle [OF inv parts ps ok tid plain_prepared [of adm] cp, of "ae_indexed env"]
      unfolding catalog_add_lifecycle_def by blast
    let ?r = "add_result adm (pending_id (hd ps)) (map pending_id ps) None None None created"
    have "store_admitted env cfg dedup caller_lifecycle created adm chunk tags s = (Inr ?r, s')"
      using found(1) plain a(1) env(1) by (auto simp: store_admitted_def complete_ids_lifecycle [OF writable])
    with a(2,3) show ?thesis
      using plain(1) tid env(1) ps'
      by (intro exI [of _ ?r] exI [of _ s'] exI [of _ rs']) (simp add: add_effect_def add_result_def Let_def)
  next
    case dedup
    obtain old s' rs' where a: "add_with_dedup env cfg dd chunk ?d s = (Inr (pending_id (hd ps), map pending_id ps, old), s')"
      "live_inv E cfg pl k (used \<union> pending_id ` set ps) rs' (store s')"
      "dedup_effect env dd chunk ?d ps (catalog (cfg_tenant_id cfg) (db (store s))) old (catalog (cfg_tenant_id cfg) (db (store s')))"
      using dedup_write_ok [OF inv parts ps ok tid plain_prepared [of adm] cp tab(1) ord env(1), of dd] by blast
    let ?r = "add_result adm (pending_id (hd ps)) (map pending_id ps) (Some old) None None None"
    have "store_admitted env cfg dedup caller_lifecycle created adm chunk tags s = (Inr ?r, s')"
      using dedup a(1) by (simp add: store_admitted_def)
    with a(2,3) show ?thesis
      using dedup tid env(1) ps'
      by (intro exI [of _ ?r] exI [of _ s'] exI [of _ rs'])
        (simp add: add_effect_def add_result_def Let_def)
  qed
qed

end

end
