(* ===== verification/Memory_Add_Instance.thy ===== *)
theory Memory_Add_Instance
  imports Memory_Add
begin

text \<open>
  The properties of \<open>memory.add\<close> and their instances on the concrete store of \<open>Tenant_Instance\<close>:
  the whole operation against the catalog, the uniqueness of heads that exact deduplication
  keeps, and the reuse of a chunk that has expired.
\<close>

section \<open>Rows stay readable\<close>

definition id_parses :: "'b store_ext \<Rightarrow> string \<Rightarrow> bool" where
  "id_parses E c \<longleftrightarrow> uuid_parse E c = Some c"

definition row_parses :: "'b store_ext \<Rightarrow> chunk_metadata \<Rightarrow> bool" where
  "row_parses E m \<longleftrightarrow>
     id_parses E (m_chunk_id m) \<and> tenant_new (m_tenant_id m) = Inr (m_tenant_id m)
     \<and> (\<forall>x. supersedes (m_lifecycle m) = Some x \<longrightarrow> id_parses E x)
     \<and> (\<forall>x. superseded_by (m_lifecycle m) = Some x \<longrightarrow> id_parses E x)"

lemma parse_link_id: "parse_link E l = Inr l \<longleftrightarrow> (\<forall>x. l = Some x \<longrightarrow> id_parses E x)"
  by (auto simp: parse_link_def id_parses_def split: option.splits)

lemma row_parses_iff: "row_to_metadata E m = Inr m \<longleftrightarrow> row_parses E m"
proof
  assume "row_to_metadata E m = Inr m"
  then obtain c t b a where p: "uuid_parse E (m_chunk_id m) = Some c" "tenant_new (m_tenant_id m) = Inr t"
    "parse_link E (supersedes (m_lifecycle m)) = Inr b" "parse_link E (superseded_by (m_lifecycle m)) = Inr a"
    and eq: "m\<lparr>m_chunk_id := c, m_tenant_id := t, m_lifecycle := (m_lifecycle m)\<lparr>supersedes := b, superseded_by := a\<rparr>\<rparr> = m"
    by (auto simp: row_to_metadata_def split: option.splits sum.splits)
  have "c = m_chunk_id m" "t = m_tenant_id m" "b = supersedes (m_lifecycle m)" "a = superseded_by (m_lifecycle m)"
    using arg_cong [OF eq, of m_chunk_id] arg_cong [OF eq, of m_tenant_id] arg_cong [OF eq, of "\<lambda>m. supersedes (m_lifecycle m)"]
      arg_cong [OF eq, of "\<lambda>m. superseded_by (m_lifecycle m)"] by simp_all
  with p show "row_parses E m" unfolding row_parses_def parse_link_id [symmetric] by (simp add: id_parses_def)
next
  assume "row_parses E m"
  then show "row_to_metadata E m = Inr m"
    unfolding row_parses_def parse_link_id [symmetric] by (simp add: row_to_metadata_def id_parses_def)
qed

lemma rows_parse_iff: "rows_parse E rows \<longleftrightarrow> (\<forall>m \<in> set rows. row_parses E m)"
  by (simp add: rows_parse_def row_parses_iff)

lemma rows_parse_map:
  "rows_parse E rows \<Longrightarrow> (\<And>m. row_parses E m \<Longrightarrow> row_parses E (f m)) \<Longrightarrow> rows_parse E (map f rows)"
  by (auto simp: rows_parse_iff)

lemma active_db: "get_or_create_active_segment E cfg now st = Inr st' \<Longrightarrow> db st' = db st"
  by (auto simp: get_or_create_active_segment_def seal_def create_active_def Let_def
      split: if_splits option.splits prod.splits sum.splits)

lemma written_rows:
  assumes "write_payloads E cfg now ps st = Inr (rows, st')"
  shows "db st' = db st \<and> (\<forall>m \<in> set rows. \<exists>p \<in> set ps. \<exists>sid n. m = chunk_row E (p_chunk p) sid n)"
  using assms
proof (induction ps arbitrary: st rows)
  case (Cons p ps)
  obtain st1 sid n st2 rest where w: "get_or_create_active_segment E cfg now st = Inr st1"
    "append_active E (p_payload p) ''no active segment'' st1 = Inr ((sid, n), st2)"
    "write_payloads E cfg now ps st2 = Inr (rest, st')" "rows = chunk_row E (p_chunk p) sid n # rest"
    using Cons.prems by (auto split: sum.splits prod.splits)
  have "db st2 = db st1" using w(2) by (auto simp: append_active_def Let_def split: option.splits prod.splits)
  with Cons.IH [OF w(3)] active_db [OF w(1)] w(4) show ?case by auto
qed simp

lemma checkpoint_db: "checkpoint_after_batch E cfg now n st = Inr st' \<Longrightarrow> db st' = db st"
proof -
  have cps: "db (append_wal_checkpoints E cfg now k s) = db s" for k s by (induction k arbitrary: s) simp_all
  show "checkpoint_after_batch E cfg now n st = Inr st' \<Longrightarrow> db st' = db st"
    by (auto simp: checkpoint_after_batch_def finalize_active_segment_def seal_def cps Let_def
        split: if_splits option.splits prod.splits sum.splits)
qed

lemma add_batch_rows:
  assumes "add_batch E cfg now ps st = Inr st'" and "m \<in> set (db st')"
  shows "m \<in> set (db st) \<or> (\<exists>p \<in> set ps. \<exists>sid n. m = chunk_row E (p_chunk p) sid n)"
proof (cases "ps = []")
  case True
  with assms show ?thesis by (auto simp: add_batch_def split: if_splits)
next
  case False
  then obtain st1 rows st2 st3 where a: "append_wal_add_batch E cfg ps st = Inr st1"
    "write_payloads E cfg now ps st1 = Inr (rows, st2)" "flush_active_segment_payload cfg st2 = Inr st3"
    "checkpoint_after_batch E cfg now (length ps) (st3\<lparr>db := meta_insert_many rows (db st3)\<rparr>) = Inr st'"
    using assms(1) by (auto simp: add_batch_def split: if_splits sum.splits prod.splits)
  have "db st1 = db st" using a(1) by (auto simp: append_wal_add_batch_def split: if_splits)
  moreover have "db st3 = db st2"
    using a(3) by (auto simp: flush_active_segment_payload_def split: if_splits option.splits)
  moreover have "db st' = meta_insert_many rows (db st3)" using checkpoint_db [OF a(4)] by simp
  ultimately show ?thesis using written_rows [OF a(2)] insert_many_rows [of rows "db st3"] assms(2) by auto
qed

lemma delta_parses: "plain_delta d \<Longrightarrow> row_parses E m \<Longrightarrow> row_parses E (delta_row d m)"
  by (simp add: row_parses_def delta_row_def lifecycle_apply_def plain_delta_def)

lemma deltas_parse:
  assumes "rows_parse E rows" and "plain_delta d"
  shows "rows_parse E (fold (\<lambda>i rows. snd (update_lifecycle_counted tid i d rows)) is rows)"
  using assms(1)
proof (induction "is" arbitrary: rows)
  case (Cons i "is")
  have "rows_parse E (snd (update_lifecycle_counted tid i d rows))"
    unfolding update_lifecycle_counted_def update_where_def snd_conv
    using Cons.prems by (rule rows_parse_map) (simp add: delta_parses [OF assms(2)])
  with Cons.IH show ?case by simp
qed simp

lemma added_parse:
  assumes add: "add_chunk_with_lifecycle_and_stored_ids E cfg sg hx now ids ix chunk d s = Inr (r, s')"
    and rows: "rows_parse E (db (store s))" and d: "plain_delta d"
    and new: "\<forall>p \<in> set (parts_of E sg hx ids chunk). id_parses E (pending_id p) \<and> tenant_new (mc_tenant_id (p_chunk p)) = Inr (mc_tenant_id (p_chunk p))"
  shows "rows_parse E (db (store s'))"
proof -
  obtain parts cid stored s1 where a: "expand_chunks_for_add sg chunk = Inr parts"
    "add_parts E cfg hx False now ids ix parts s = Inr ((cid, stored), s1)"
    and s': "db (store s') = (if delta_is_empty d then db (store s1)
       else fold (\<lambda>i rows. snd (update_lifecycle_counted (mc_tenant_id chunk) i (stamped now d) rows)) stored (db (store s1)))"
    using add by (auto simp: add_chunk_with_lifecycle_and_stored_ids_def add_chunk_with_stored_ids_def bump_def set_db_def
        split: if_splits sum.splits prod.splits)
  obtain st' where b: "add_batch E cfg now (pending_of E hx ids parts) (store s) = Inr st'" "store s1 = st'"
    using a(2) by (auto simp: add_parts_def prepare_fresh bump_def split: sum.splits list.splits if_splits)
  have "row_parses E m" if "m \<in> set (db st')" for m
    using add_batch_rows [OF b(1) that] rows new a(1)
    by (auto simp: rows_parse_iff parts_of_def row_parses_def chunk_row_def default_lifecycle_def pending_id_def)
  then have "rows_parse E (db (store s1))" by (simp add: rows_parse_iff b(2))
  with deltas_parse [of E "db (store s1)" "stamped now d"] d show ?thesis by (simp add: s')
qed

lemma added_id:
  assumes "add_chunk_with_lifecycle_and_stored_ids E cfg sg hx now ids ix chunk d s = Inr ((cid, stored), s')"
  shows "cid \<in> pending_id ` set (parts_of E sg hx ids chunk)"
proof -
  obtain parts s1 where "expand_chunks_for_add sg chunk = Inr parts"
    "add_parts E cfg hx False now ids ix parts s = Inr ((cid, stored), s1)"
    using assms by (auto simp: add_chunk_with_lifecycle_and_stored_ids_def add_chunk_with_stored_ids_def
        split: if_splits sum.splits prod.splits)
  then show ?thesis
    by (auto simp: parts_of_def add_parts_def prepare_fresh pending_id_def split: sum.splits list.splits if_splits)
qed

lemma superseded_parse:
  assumes sup: "supersede_chunk_with_lifecycle_and_stored_ids E cfg sg hx now ids ix old chunk d s = (Inr r, s')"
    and rows: "rows_parse E (db (store s))" and d: "plain_delta d" and old: "id_parses E old"
    and new: "\<forall>p \<in> set (parts_of E sg hx ids chunk). id_parses E (pending_id p) \<and> tenant_new (mc_tenant_id (p_chunk p)) = Inr (mc_tenant_id (p_chunk p))"
  shows "rows_parse E (db (store s'))"
proof -
  obtain new_id stored s1 rs where a: "add_chunk_with_lifecycle_and_stored_ids E cfg sg hx now ids ix chunk d s = Inr ((new_id, stored), s1)"
    "atomic_supersede (cfg_tenant_id cfg) old new_id now (db (store s1)) = Inr rs" "db (store s') = rs"
    using sup by (auto simp: supersede_chunk_with_lifecycle_and_stored_ids_def supersede_commit_def bump_def set_db_def
        split: sum.splits prod.splits)
  have old_row: "row_parses E m \<Longrightarrow> row_parses E (superseded_row new_id now m)"
    and new_row: "row_parses E m \<Longrightarrow> row_parses E (superseding_row old now m)" for m
    using old new added_id [OF a(1)] by (auto simp: row_parses_def superseded_row_def superseding_row_def)
  have "rows_parse E (snd (update_where p (superseded_row new_id now) (db (store s1))))" for p
    unfolding update_where_def snd_conv using added_parse [OF a(1) rows d new] by (rule rows_parse_map) (simp add: old_row)
  then have "rows_parse E (snd (update_where q (superseding_row old now) (snd (update_where p (superseded_row new_id now) (db (store s1))))))" for p q
    unfolding update_where_def [of q] snd_conv by (rule rows_parse_map) (simp add: new_row)
  then show ?thesis using a(2,3) by (auto simp: atomic_supersede_def split: if_splits prod.splits) (metis snd_conv)+
qed

lemma get_chunk_db: "db (snd (get_chunk E cfg c st)) = db st"
  by (auto simp: get_chunk_def split: option.splits sum.splits if_splits)

lemma first_same_content_db: "db (snd (first_same_content E cfg chunk tags cs st)) = db st"
proof (induction cs arbitrary: st)
  case (Cons c cs)
  show ?case
    using get_chunk_db [of E cfg c st] Cons.IH by (auto split: prod.splits sum.splits option.splits)
qed simp

lemma duplicate_db: "db (snd (find_default_content_duplicate env chunk tags st)) = db st"
  by (auto simp: find_default_content_duplicate_def first_same_content_db split: sum.splits)

lemma complete_ids_parse:
  assumes "add_chunk_with_complete_ids env cfg chunk d s = (Inr r, s')" and "\<not> read_only cfg"
    and "rows_parse (ae_ext env) (db (store s))" and "plain_delta d"
    and "\<forall>p \<in> set (parts_of (ae_ext env) (ae_segments env) (ae_sha256 env) (ae_ids env) chunk).
      id_parses (ae_ext env) (pending_id p) \<and> tenant_new (mc_tenant_id (p_chunk p)) = Inr (mc_tenant_id (p_chunk p))"
  shows "rows_parse (ae_ext env) (db (store s'))"
  using assms(1) added_parse [OF _ assms(3-5)]
  by (auto simp: complete_ids_lifecycle [OF assms(2)] split: sum.splits)

lemma store_admitted_parse:
  assumes run: "store_admitted env cfg dedup cl created adm chunk tags s = (Inr r, s')" and rw: "\<not> read_only cfg"
    and rows: "rows_parse (ae_ext env) (db (store s))" and ord: "row_order_ok (ae_order env)"
    and new: "\<forall>p \<in> set (parts_of (ae_ext env) (ae_segments env) (ae_sha256 env) (ae_ids env) chunk).
      id_parses (ae_ext env) (pending_id p) \<and> tenant_new (mc_tenant_id (p_chunk p)) = Inr (mc_tenant_id (p_chunk p))"
  shows "rows_parse (ae_ext env) (db (store s'))"
proof -
  let ?d = "prepared_lifecycle_delta adm"
  obtain found st where f: "(if dedup = None \<and> \<not> cl then find_default_content_duplicate env chunk tags (store s)
      else (Inr None, store s)) = (found, st)" by (metis surj_pair)
  then have db: "db st = db (store s)" using duplicate_db [of env chunk tags "store s"] by (auto split: if_splits)
  let ?s1 = "s\<lparr>store := st\<rparr>"
  have rows1: "rows_parse (ae_ext env) (db (store ?s1))" using rows db by simp
  consider (reuse) "s' = ?s1" | (add) x where "add_chunk_with_complete_ids env cfg chunk ?d ?s1 = (Inr x, s')"
    | (dedup) dd x where "add_with_dedup env cfg dd chunk ?d ?s1 = (Inr x, s')"
    using run f by (auto simp: store_admitted_def Let_def map_prod_def map_sum_def split: sum.splits option.splits prod.splits)
  then show ?thesis
  proof cases
    case reuse
    then show ?thesis using rows1 by simp
  next
    case add
    from complete_ids_parse [OF add rw rows1 plain_prepared new] show ?thesis .
  next
    case dedup
    obtain cs where cs: "compute_dedup_candidates (ae_ext env) (ae_order env) (ae_ratio env) (mc_tenant_id chunk) (mc_text chunk)
        (mc_chunk_type chunk) (mc_project_id chunk) dd (db st) = Inr cs" "set cs \<subseteq> m_chunk_id ` set (db st)"
      using candidates_match [OF rows1 [simplified] ord] by (metis (no_types, lifting) image_mono mem_Collect_eq subsetI subset_trans)
    show ?thesis
    proof (cases cs)
      case Nil
      then obtain y where "add_chunk_with_complete_ids env cfg chunk ?d ?s1 = (Inr y, s')"
        using dedup cs(1) by (auto simp: add_with_dedup_def map_prod_def map_sum_def split: prod.splits sum.splits)
      from complete_ids_parse [OF this rw rows1 plain_prepared new] show ?thesis .
    next
      case (Cons old rest)
      then obtain y where sup: "supersede_chunk_with_lifecycle_and_stored_ids (ae_ext env) cfg (ae_segments env) (ae_sha256 env)
          (ae_now env) (ae_ids env) (ae_indexed env) old chunk ?d ?s1 = (Inr y, s')"
        using dedup cs(1)
        by (auto simp: add_with_dedup_def supersede_first_def tool_error_def map_prod_def map_sum_def split: prod.splits sum.splits)
      have "id_parses (ae_ext env) old" using cs(2) Cons rows1 by (auto simp: rows_parse_iff row_parses_def)
      from superseded_parse [OF sup rows1 plain_prepared this new] show ?thesis .
    qed
  qed
qed

section \<open>The invariant and the requests that can be written\<close>

definition op_inv ::
  "'b store_ext \<Rightarrow> tenant_config \<Rightarrow> (string \<Rightarrow> bytes) \<Rightarrow> nat \<Rightarrow> string set \<Rightarrow> 'b op_state \<Rightarrow> bool" where
  "op_inv E cfg pl k used s \<longleftrightarrow>
     (\<exists>rs. live_inv E cfg pl k used rs (store (os_live s)))
     \<and> rows_parse E (db (store (os_live s))) \<and> payloads_decode E cfg pl (db (store (os_live s)))"

text \<open>The rows and payloads an accepted request would add.\<close>

definition request_parts :: "'b add_env \<Rightarrow> add_params \<Rightarrow> pending_chunk list" where
  "request_parts env p =
     (case accept_request env p of
        Inl _ \<Rightarrow> []
      | Inr (_, chunk, adm) \<Rightarrow>
          parts_of (ae_ext env) (ae_segments env) (ae_sha256 env) (ae_ids env) (apply_to_chunk adm chunk))"

text \<open>
  A request the tenant's log and segments can hold: it is for this tenant, the chunker splits
  its text, and its parts have new well-formed ids.
\<close>

definition request_ok ::
  "'b store_ext \<Rightarrow> tenant_config \<Rightarrow> (string \<Rightarrow> bytes) \<Rightarrow> string set \<Rightarrow> 'b add_env \<Rightarrow> add_params \<Rightarrow> bool" where
  "request_ok E cfg pl used env p \<longleftrightarrow>
     ae_ext env = E \<and> ae_cfg env = cfg \<and> row_order_ok (ae_order env)
     \<and> wal_fits (wal_x E) (checkpoint_record (cfg_tenant_id cfg) (ae_now env))
     \<and> (case accept_request env p of
          Inl _ \<Rightarrow> True
        | Inr (tid, chunk, adm) \<Rightarrow>
            tid = cfg_tenant_id cfg
            \<and> (\<exists>parts. expand_chunks_for_add (ae_segments env) (apply_to_chunk adm chunk) = Inr parts)
            \<and> op_ok E cfg pl (ae_now env) used (OpAdd (request_parts env p)))"

lemma requested_fields:
  assumes "requested_chunk env p tid kind = Inr chunk"
  shows "mc_tenant_id chunk = tid \<and> mc_text chunk = ap_text p \<and> mc_chunk_type chunk = kind
      \<and> mc_project_id chunk = ap_project_id p \<and> mc_status chunk = Final"
  using assms
  by (auto simp: requested_chunk_def new_memory_chunk_def Let_def map_sum_def split: option.splits sum.splits if_splits)

lemma tenant_new_id: "tenant_new x = Inr t \<Longrightarrow> tenant_new t = Inr t"
  by (auto simp: tenant_new_def split: sum.splits)

lemma built_tenant: "try_build v src = Some (Inr t) \<Longrightarrow> tenant_new t = Inr t"
  by (auto simp: try_build_def Let_def map_sum_def dest: tenant_new_id split: if_splits sum.splits)

lemma resolved_tenant: "resolve_tenant_id env v = Inr t \<Longrightarrow> tenant_new t = Inr t"
  by (auto simp: resolve_tenant_id_def map_sum_def bind_eq_Some_conv dest: built_tenant tenant_new_id split: option.splits sum.splits)

lemma accepted_fields:
  assumes "accept_request env p = Inr (tid, chunk, adm)"
  shows "tenant_new tid = Inr tid \<and> mc_tenant_id chunk = tid \<and> mc_text chunk = ap_text p
      \<and> parse_chunk_type (to_lowercase (ae_ext env)) (ap_chunk_type p) = Inr (mc_chunk_type chunk)
      \<and> mc_project_id chunk = ap_project_id p \<and> mc_status chunk = Final"
  using assms
  by (auto simp: accept_request_def dest!: requested_fields dest: resolved_tenant split: option.splits sum.splits)

lemma apply_fields [simp]:
  "mc_tenant_id (apply_to_chunk adm c) = mc_tenant_id c" "mc_text (apply_to_chunk adm c) = mc_text c"
  "mc_chunk_type (apply_to_chunk adm c) = mc_chunk_type c" "mc_project_id (apply_to_chunk adm c) = mc_project_id c"
  "mc_status (apply_to_chunk adm c) = mc_status c"
  by (simp_all add: apply_to_chunk_def)

lemma effect_dom:
  assumes "add_effect env pl dedup adm chunk tags v r v'"
    and "ps = parts_of (ae_ext env) (ae_segments env) (ae_sha256 env) (ae_ids env) chunk"
  shows "dom v' \<subseteq> dom v \<union> pending_id ` set ps"
proof -
  let ?E = "ae_ext env" and ?d = "prepared_lifecycle_delta adm"
  have "dom (catalog_add_lifecycle ?E now ps ?d v) = dom (catalog_add ?E ps v)" for now
    using fold_delta_links(3) [of "stamped now ?d" "map pending_id ps" "catalog_add ?E ps v"]
    by (simp add: catalog_add_lifecycle_def dom_def del: not_None_eq)
  moreover have "dom (catalog_supersede ?E now old ps ?d v) = dom (catalog_add ?E ps v)" for now old
    by (simp add: dom_supersede)
  moreover have "v' = v \<or> v' = catalog_add_lifecycle ?E (ae_now env) ps ?d v
      \<or> (\<exists>old. v' = catalog_supersede ?E (ae_now env) old ps ?d v)"
    using assms by (auto simp: add_effect_def dedup_effect_def Let_def split: if_splits option.splits)
  ultimately have "dom v' = dom v \<or> dom v' = dom (catalog_add ?E ps v)" by (elim disjE exE) simp_all
  then show ?thesis unfolding dom_catalog_add by blast
qed

text \<open>An accepted request runs, and keeps the invariant.\<close>

lemma accepted_runs:
  assumes log: "tenant_log E cfg bits" and inv: "op_inv E cfg pl (2 * length (request_parts env p) + k) used s"
    and req: "request_ok E cfg pl used env p" and ok: "\<not> refused env p"
  shows "\<exists>r s' dedup tid chunk adm.
      handle_memory_add env p s = (Inr r, s') \<and> op_inv E cfg pl k (used \<union> pending_id ` set (request_parts env p)) s'
      \<and> requested_dedup env p = Inr dedup \<and> accept_request env p = Inr (tid, chunk, adm)
      \<and> add_effect env pl dedup adm (apply_to_chunk adm chunk) (mc_tags chunk)
          (catalog (cfg_tenant_id cfg) (db (store (os_live s)))) r (catalog (cfg_tenant_id cfg) (db (store (os_live s'))))"
proof -
  obtain tid chunk adm dedup where a: "accept_request env p = Inr (tid, chunk, adm)" "\<not> is_rejected adm"
    "requested_dedup env p = Inr dedup"
    using ok by (cases "requested_dedup env p") (auto simp: refused_def split: sum.splits)
  let ?c = "apply_to_chunk adm chunk" and ?T = "cfg_tenant_id cfg"
  have env: "ae_ext env = E" "ae_cfg env = cfg" and ord: "row_order_ok (ae_order env)"
    and cp: "wal_fits (wal_x E) (checkpoint_record ?T (ae_now env))"
    using req by (simp_all add: request_ok_def)
  have ps: "request_parts env p = parts_of E (ae_segments env) (ae_sha256 env) (ae_ids env) ?c"
    by (simp add: request_parts_def a(1) env)
  obtain parts where tid: "tid = ?T" and parts: "expand_chunks_for_add (ae_segments env) ?c = Inr parts"
    and op: "op_ok E cfg pl (ae_now env) used (OpAdd (request_parts env p))"
    using req a(1) by (auto simp: request_ok_def)
  have pend: "request_parts env p = pending_of E (ae_sha256 env) (ae_ids env) parts" by (simp add: ps parts_of_def parts)
  obtain rs where inv': "live_inv E cfg pl (2 * length (request_parts env p) + k) used rs (store (os_live s))"
    and tab: "rows_parse E (db (store (os_live s)))" "payloads_decode E cfg pl (db (store (os_live s)))"
    using inv by (auto simp: op_inv_def)
  note acc = accepted_fields [OF a(1)]
  have t: "mc_tenant_id ?c = ?T" using acc tid by simp
  obtain r l rs' where st: "store_admitted env cfg dedup (caller_requested_lifecycle p) (created_tenant env tid) adm ?c
        (mc_tags chunk) (os_live s) = (Inr r, l)"
    "live_inv E cfg pl k (used \<union> pending_id ` set (request_parts env p)) rs' (store l)"
    "add_effect env pl dedup adm ?c (mc_tags chunk) (catalog ?T (db (store (os_live s)))) r (catalog ?T (db (store l)))"
    using tenant_log.store_admitted_ok [OF log inv' parts pend op t cp tab ord env] by blast
  have new: "\<forall>q \<in> set (request_parts env p). pending_ok E cfg pl q" using op by simp
  then have "rows_parse E (db (store l))"
    using store_admitted_parse [OF st(1) tenant_env.writable [OF tenant_log.axioms(1) [OF log]]] tab(1) ord acc tid
    by (simp add: env ps [symmetric] pending_ok_def id_parses_def pending_id_def)
  moreover have "chunk_de E (pl c) \<noteq> None" if "catalog ?T (db (store l)) c \<noteq> None" for c
    using effect_dom [OF st(3) refl] that new tab(2)
    by (auto simp: env ps [symmetric] payloads_decode_def catalog_None pending_ok_def pending_id_def dom_def)
  then have "payloads_decode E cfg pl (db (store l))" by (simp add: payloads_decode_def catalog_None)
  ultimately have inv2: "op_inv E cfg pl k (used \<union> pending_id ` set (request_parts env p)) (s1\<lparr>os_live := l\<rparr>)" for s1
    using st(2) by (auto simp: op_inv_def)
  let ?s1 = "record_usage_event env (add_usage_event tid (ap_project_id p) (usage_outcome adm) 1 (byte_len (mc_text chunk))) s"
  have "handle_memory_add env p s = (Inr r, ?s1\<lparr>os_live := l\<rparr>)"
    using a st(1) tid env(2) by (simp add: handle_memory_add_def Let_def)
  moreover have "os_live (?s1\<lparr>os_live := l\<rparr>) = l" by simp
  ultimately show ?thesis using inv2 st(3) a(1,3) by metis
qed

section \<open>Heads by canonical text\<close>

definition heads_of :: "(string \<Rightarrow> chunk_metadata option) \<Rightarrow> string option \<Rightarrow> str \<Rightarrow> string set" where
  "heads_of v project canonical =
     {c. \<exists>m. v c = Some m \<and> is_live_head_row m \<and> m_project_id m = project \<and> m_canonical_text m = Some canonical}"

definition head_in :: "string option \<Rightarrow> str \<Rightarrow> chunk_metadata option \<Rightarrow> bool" where
  "head_in project canonical x \<longleftrightarrow>
     (\<exists>m. x = Some m \<and> is_live_head_row m \<and> m_project_id m = project \<and> m_canonical_text m = Some canonical)"

lemma in_heads: "c \<in> heads_of v P C \<longleftrightarrow> head_in P C (v c)"
  by (simp add: heads_of_def head_in_def)

lemma head_delta [simp]:
  "plain_delta d \<Longrightarrow> head_in P C (map_option (delta_row d) x) = head_in P C x"
  by (cases x) (simp_all add: head_in_def is_live_head_row_def delta_row_def plain_delta_def lifecycle_apply_def)

lemma head_superseding [simp]: "head_in P C (map_option (superseding_row old now) x) = head_in P C x"
  by (cases x) (simp_all add: head_in_def is_live_head_row_def superseding_row_def)

lemma not_head_superseded [simp]: "\<not> head_in P C (map_option (superseded_row new now) x)"
  by (cases x) (simp_all add: head_in_def is_live_head_row_def superseded_row_def)

text \<open>A write of one part: its row is a head under its canonical text, every other row keeps its place.\<close>

lemma heads_added:
  assumes "plain_delta d" and "mc_status (p_chunk q) = Final"
  shows "head_in P C (catalog_add_lifecycle E now [q] d v c) \<longleftrightarrow>
     (if c = pending_id q
      then P = mc_project_id (p_chunk q)
           \<and> C = canonicalize_for_type (to_lowercase E) (mc_text (p_chunk q)) (mc_chunk_type (p_chunk q))
      else head_in P C (v c))"
proof -
  have "head_in P C (Some (strip_coords (chunk_row E (p_chunk q) 0 0))) \<longleftrightarrow>
      P = mc_project_id (p_chunk q)
      \<and> C = canonicalize_for_type (to_lowercase E) (mc_text (p_chunk q)) (mc_chunk_type (p_chunk q))"
    using assms(2) by (auto simp: head_in_def is_live_head_row_def strip_coords_def chunk_row_def default_lifecycle_def)
  moreover have "head_in P C (catalog_add_lifecycle E now [q] d v c) =
      head_in P C (if c = pending_id q then Some (strip_coords (chunk_row E (p_chunk q) 0 0)) else v c)"
    using assms(1)
    by (simp add: catalog_add_lifecycle_def catalog_add_def catalog_delta_def pending_id_def del: option.map)
  ultimately show ?thesis by simp
qed

lemma heads_superseded:
  assumes "plain_delta d" and "mc_status (p_chunk q) = Final" and "old \<noteq> pending_id q"
  shows "head_in P C (catalog_supersede E now old [q] d v c) \<longleftrightarrow>
     c \<noteq> old \<and> head_in P C (catalog_add_lifecycle E now [q] d v c)"
  using assms(3) unfolding catalog_supersede_def catalog_add_lifecycle_def [symmetric] Let_def by simp

text \<open>Exact deduplication within the project, of a text that is not split.\<close>

lemma exact_match_head:
  assumes "rd_mode dd = DedupExact" and "rd_scope_project dd" and "m_tenant_id m = tid"
  shows "dedup_match E rnd tid s kind project dd m \<longleftrightarrow>
     head_in project (canonicalize_for_type (to_lowercase E) s kind) (Some m)"
  using assms by (auto simp: dedup_match_def head_in_def project_scope_matches_def Let_def)

lemma unsplit_parts:
  assumes "byte_len (mc_text c) \<le> ADD_CHUNK_THRESHOLD"
  shows "expand_chunks_for_add sg c = Inr [c]"
  using assms by (simp add: expand_chunks_for_add_def split_for_add_def)

lemma dedup_heads:
  assumes eff: "dedup_effect env dd chunk d [q] v replaced v'" and dd: "rd_mode dd = DedupExact" "rd_scope_project dd"
    and q: "p_chunk q = chunk\<lparr>mc_chunk_id := i, mc_hash := h\<rparr>" and fin: "mc_status chunk = Final" and d: "plain_delta d"
    and fresh: "v i = None" and own: "\<forall>c m. v c = Some m \<longrightarrow> m_tenant_id m = mc_tenant_id chunk"
    and key: "key = (mc_project_id chunk, canonicalize_for_type (to_lowercase (ae_ext env)) (mc_text chunk) (mc_chunk_type chunk))"
    and uniq: "\<forall>a \<in> heads_of v (fst key) (snd key). \<forall>b \<in> heads_of v (fst key) (snd key). a = b"
  shows "heads_of v' P C = (if (P, C) = key then {i} else heads_of v P C)"
proof -
  let ?E = "ae_ext env" and ?P = "fst key" and ?C = "snd key"
  have id: "pending_id q = i" and st: "mc_status (p_chunk q) = Final" using q fin by (simp_all add: pending_id_def)
  have added: "head_in P C (catalog_add_lifecycle ?E now [q] d v c) \<longleftrightarrow> (if c = i then P = ?P \<and> C = ?C else head_in P C (v c))"
    for P C c now unfolding heads_added [OF d st] by (simp add: id q key)
  have iff: "dedup_match ?E (ae_ratio env) (mc_tenant_id chunk) (mc_text chunk) (mc_chunk_type chunk) (mc_project_id chunk) dd m \<longleftrightarrow>
      head_in ?P ?C (v c)" if "v c = Some m" for c m
    using exact_match_head [OF dd, of m "mc_tenant_id chunk"] own that by (simp add: key)
  from eff consider (link) old m where "v old = Some m" "head_in ?P ?C (v old)" "v' = catalog_supersede ?E (ae_now env) old [q] d v"
    | (add) "v' = catalog_add_lifecycle ?E (ae_now env) [q] d v" "\<forall>c. \<not> head_in ?P ?C (v c)"
    using iff dd(1) by (auto simp: dedup_effect_def Let_def) (auto simp: head_in_def)
  then have new: "head_in P C (v' c) \<longleftrightarrow> (if c = i then P = ?P \<and> C = ?C else head_in P C (v c) \<and> (P, C) \<noteq> key)" for c
  proof cases
    case link
    then have "old \<noteq> i" using fresh by auto
    have other: "\<not> head_in P C (v old)" if "(P, C) \<noteq> key" using link(2) that by (cases key) (auto simp: head_in_def)
    have only: "c = old" if "head_in ?P ?C (v c)" for c using uniq link(2) that by (auto simp: in_heads)
    show ?thesis
      unfolding link(3) heads_superseded [OF d st \<open>old \<noteq> i\<close> [folded id]] added
      using \<open>old \<noteq> i\<close> other only by (cases "(P, C) = key") auto
  next
    case add
    then show ?thesis unfolding add(1) added by (cases "(P, C) = key") auto
  qed
  have gone: "\<not> head_in P C (v i)" by (simp add: fresh head_in_def)
  show ?thesis
  proof (rule set_eqI)
    fix c
    show "c \<in> heads_of v' P C \<longleftrightarrow> c \<in> (if (P, C) = key then {i} else heads_of v P C)"
      using gone by (cases "c = i"; cases "(P, C) = key") (auto simp: in_heads new)
  qed
qed

text \<open>The project and canonical text of an accepted request.\<close>

definition request_keys :: "'b add_env \<Rightarrow> add_params \<Rightarrow> (string option \<times> str) set" where
  "request_keys env p =
     (if refused env p then {}
      else {(ap_project_id p, canonicalize_for_type (to_lowercase (ae_ext env)) (ap_text p) kind) | kind.
              parse_chunk_type (to_lowercase (ae_ext env)) (ap_chunk_type p) = Inr kind})"

definition exact_dedup_call :: "'b add_env \<Rightarrow> add_params \<Rightarrow> bool" where
  "exact_dedup_call env p \<longleftrightarrow>
     byte_len (ap_text p) \<le> ADD_CHUNK_THRESHOLD
     \<and> (\<exists>dd. requested_dedup env p = Inr (Some dd) \<and> rd_mode dd = DedupExact \<and> rd_scope_project dd)"

fun run_adds :: "('b add_env \<times> add_params) list \<Rightarrow> 'b op_state \<Rightarrow> 'b op_state" where
  "run_adds [] s = s"
| "run_adds ((env, p) # calls) s = run_adds calls (snd (handle_memory_add env p s))"

fun adds_ok ::
  "'b store_ext \<Rightarrow> tenant_config \<Rightarrow> (string \<Rightarrow> bytes) \<Rightarrow> string set \<Rightarrow> ('b add_env \<times> add_params) list \<Rightarrow> bool" where
  "adds_ok E cfg pl used [] \<longleftrightarrow> True"
| "adds_ok E cfg pl used ((env, p) # calls) \<longleftrightarrow>
     request_ok E cfg pl used env p \<and> adds_ok E cfg pl (used \<union> pending_id ` set (request_parts env p)) calls"

definition adds_cost :: "('b add_env \<times> add_params) list \<Rightarrow> nat" where
  "adds_cost calls = sum_list (map (\<lambda>(env, p). 2 * length (request_parts env p)) calls)"

lemma op_inv_less:
  assumes "tenant_log E cfg bits" and "op_inv E cfg pl k used s" and "j \<le> k" and "used \<subseteq> used'"
  shows "op_inv E cfg pl j used' s"
  using assms live_inv_mono tenant_log.live_inv_less [OF assms(1)] unfolding op_inv_def by meson

text \<open>One deduplicating call moves the head of its key to the new chunk and leaves the others.\<close>

lemma dedup_call_heads:
  assumes log: "tenant_log E cfg bits" and inv: "op_inv E cfg pl (2 * length (request_parts env p) + k) used s"
    and req: "request_ok E cfg pl used env p" and ok: "\<not> refused env p" and dd: "exact_dedup_call env p"
    and uniq: "\<forall>P C. \<forall>a \<in> heads_of (catalog (cfg_tenant_id cfg) (db (store (os_live s)))) P C.
           \<forall>b \<in> heads_of (catalog (cfg_tenant_id cfg) (db (store (os_live s)))) P C. a = b"
  shows "\<exists>r s' key. handle_memory_add env p s = (Inr r, s') \<and> request_keys env p = {key}
      \<and> op_inv E cfg pl k (used \<union> pending_id ` set (request_parts env p)) s'
      \<and> (\<forall>P C. heads_of (catalog (cfg_tenant_id cfg) (db (store (os_live s')))) P C =
           (if (P, C) = key then {ar_chunk_id r} else heads_of (catalog (cfg_tenant_id cfg) (db (store (os_live s)))) P C))"
proof -
  let ?T = "cfg_tenant_id cfg"
  let ?v = "catalog ?T (db (store (os_live s)))"
  obtain r s' dedup tid chunk adm where h: "handle_memory_add env p s = (Inr r, s')"
    "op_inv E cfg pl k (used \<union> pending_id ` set (request_parts env p)) s'"
    "requested_dedup env p = Inr dedup" and a: "accept_request env p = Inr (tid, chunk, adm)"
    and eff: "add_effect env pl dedup adm (apply_to_chunk adm chunk) (mc_tags chunk) ?v r (catalog ?T (db (store (os_live s'))))"
    using accepted_runs [OF log inv req ok] by blast
  obtain dd where d: "dedup = Some dd" "rd_mode dd = DedupExact" "rd_scope_project dd" "byte_len (ap_text p) \<le> ADD_CHUNK_THRESHOLD"
    using dd h(3) by (auto simp: exact_dedup_call_def)
  note f = accepted_fields [OF a]
  let ?c = "apply_to_chunk adm chunk"
  have E: "ae_ext env = E" using req by (simp add: request_ok_def)
  have parts: "expand_chunks_for_add (ae_segments env) ?c = Inr [?c]" using d(4) f by (simp add: unsplit_parts)
  define q where "q = hd (request_parts env p)"
  have ps: "request_parts env p = [q]" "parts_of E (ae_segments env) (ae_sha256 env) (ae_ids env) ?c = [q]"
    and q: "p_chunk q = ?c\<lparr>mc_chunk_id := ae_ids env 0, mc_hash := ae_sha256 env (mc_text ?c)\<rparr>"
    by (simp_all add: q_def request_parts_def a E parts_of_def parts Let_def)
  have tid: "tid = ?T" and op: "op_ok E cfg pl (ae_now env) used (OpAdd [q])" using req a ps(1) by (auto simp: request_ok_def)
  have own: "\<forall>c m. ?v c = Some m \<longrightarrow> m_tenant_id m = mc_tenant_id ?c" using f tid catalog_live [of ?T] by auto
  have fresh: "?v (ae_ids env 0) = None"
    using op inv by (auto simp: op_inv_def live_inv_def knows_def pending_id_def q)
  have "ar_dedupe_decision r = None" using eff d(1) by (auto simp: add_effect_def Let_def split: if_splits)
  then obtain replaced where eff': "dedup_effect env dd ?c (prepared_lifecycle_delta adm) [q] ?v replaced
        (catalog ?T (db (store (os_live s'))))" and id: "ar_chunk_id r = ae_ids env 0"
    using eff d(1) ps(2) by (auto simp: E add_effect_def Let_def pending_id_def q)
  define key where "key = (mc_project_id ?c, canonicalize_for_type (to_lowercase (ae_ext env)) (mc_text ?c) (mc_chunk_type ?c))"
  have "request_keys env p = {key}" using ok f by (auto simp: request_keys_def key_def)
  moreover have "heads_of (catalog ?T (db (store (os_live s')))) P C = (if (P, C) = key then {ar_chunk_id r} else heads_of ?v P C)" for P C
    using dedup_heads [OF eff' d(2,3) q _ plain_prepared fresh own key_def, of P C] f uniq by (simp add: id)
  ultimately show ?thesis using h(1,2) by blast
qed

lemma dedup_run_heads:
  assumes log: "tenant_log E cfg bits" and "op_inv E cfg pl (adds_cost calls + k) used s" and "adds_ok E cfg pl used calls"
    and "\<forall>(env, p) \<in> set calls. refused env p \<or> exact_dedup_call env p"
    and "\<forall>P C. if (P, C) \<in> written then is_singleton (heads_of (catalog (cfg_tenant_id cfg) (db (store (os_live s)))) P C)
           else heads_of (catalog (cfg_tenant_id cfg) (db (store (os_live s)))) P C = {}"
  shows "\<forall>P C. if (P, C) \<in> written \<union> (\<Union>(env, p) \<in> set calls. request_keys env p)
     then is_singleton (heads_of (catalog (cfg_tenant_id cfg) (db (store (os_live (run_adds calls s))))) P C)
     else heads_of (catalog (cfg_tenant_id cfg) (db (store (os_live (run_adds calls s))))) P C = {}"
  using assms(2-5)
proof (induction calls arbitrary: s used "written")
  case Nil
  then show ?case by simp
next
  case (Cons call calls)
  obtain env p where call: "call = (env, p)" by (cases call)
  let ?v = "\<lambda>s. catalog (cfg_tenant_id cfg) (db (store (os_live s)))"
  let ?used = "used \<union> pending_id ` set (request_parts env p)"
  have inv: "op_inv E cfg pl (2 * length (request_parts env p) + (adds_cost calls + k)) used s"
    using Cons.prems(1) by (simp add: adds_cost_def call add.assoc)
  have ok: "request_ok E cfg pl used env p" "adds_ok E cfg pl ?used calls" using Cons.prems(2) by (simp_all add: call)
  have rest: "\<forall>(env, p) \<in> set calls. refused env p \<or> exact_dedup_call env p" using Cons.prems(3) by simp
  show ?case
  proof (cases "refused env p")
    case True
    obtain e s' where s': "handle_memory_add env p s = (Inl e, s')" "os_live s' = os_live s"
      using refused_changes_nothing [OF True] by blast
    have "op_inv E cfg pl (adds_cost calls + k) ?used s'"
      using op_inv_less [OF log inv, of "adds_cost calls + k" ?used] s'(2) by (simp add: op_inv_def)
    from Cons.IH [OF this ok(2) rest, of "written"] Cons.prems(4) s' True show ?thesis by (simp add: call request_keys_def)
  next
    case False
    have uniq: "a = b" if "a \<in> heads_of (?v s) P C" "b \<in> heads_of (?v s) P C" for P C a b
      using Cons.prems(4) that by (metis empty_iff is_singleton_def singletonD)
    obtain r s' key where s': "handle_memory_add env p s = (Inr r, s')" "request_keys env p = {key}"
      "op_inv E cfg pl (adds_cost calls + k) ?used s'"
      "\<forall>P C. heads_of (?v s') P C = (if (P, C) = key then {ar_chunk_id r} else heads_of (?v s) P C)"
      using dedup_call_heads [OF log inv ok(1) False] Cons.prems(3) call False uniq by fastforce
    have "\<forall>P C. if (P, C) \<in> insert key written then is_singleton (heads_of (?v s') P C) else heads_of (?v s') P C = {}"
      using Cons.prems(4) s'(4) by (auto intro: is_singletonI)
    from Cons.IH [OF s'(3) ok(2) rest this] s'(1,2) show ?thesis by (simp add: call insert_commute)
  qed
qed

section \<open>A concrete request\<close>

text \<open>A short note to the tenant of \<open>Tenant_Instance\<close>, written in conversation mode.\<close>

definition add_env_at :: "string \<Rightarrow> i64 \<Rightarrow> ordinal_list add_env" where
  "add_env_at cid now =
     \<lparr>ae_ext = std_store, ae_cfg = std_cfg, ae_segments = (\<lambda>line. [line]), ae_sha256 = (\<lambda>_. []),
      ae_default_hash = (\<lambda>_. []), ae_rnd = Fin, ae_ratio = (\<lambda>x. x), ae_order = (\<lambda>rows. rows), ae_env_tenant = None,
      ae_pinned_tenant = None, ae_tenants = Some [''acme''], ae_dir_error = None, ae_new_id = [], ae_ids = (\<lambda>_. cid),
      ae_indexed = True, ae_created = 0, ae_prepared = now, ae_now = now, ae_ledger = True, ae_usage_now = now,
      ae_usage_retention = 0\<rparr>"

definition add_request :: "str \<Rightarrow> bool \<Rightarrow> add_params" where
  "add_request body dedup =
     \<lparr>ap_tenant_id = ''acme'', ap_text = body, ap_chunk_type = lit ''doc'', ap_project_id = None, ap_episode_id = None,
      ap_source = None, ap_tags = [], ap_expires_at_ms = None, ap_review_after_ms = None, ap_event_time_ms = None,
      ap_mode = Some (lit ''conversation''), ap_supersede_near_duplicates = Some (DedupBool dedup)\<rparr>"

definition add_admission :: "str \<Rightarrow> i64 \<Rightarrow> prepared_write" where
  "add_admission body now =
     prepare_write_at Fin \<lparr>rq_chunk_type = chunk_type.Doc, rq_text = body, rq_tags = [], rq_ingestion_mode = Conversation,
        rq_expires_at_ms = None, rq_review_after_ms = None\<rparr> now"

lemma char_of_lit [simp]: "map char_of (lit s) = s"
  by (simp add: lit_def comp_def)

lemma built_plain:
  assumes "trim (lit v) = lit v" and "v \<noteq> []" and "tenant_new v = Inr v"
  shows "try_build v src = Some (Inr v)"
proof -
  have "lit v \<noteq> []" using assms(2) by (simp add: lit_def)
  then show ?thesis by (simp add: try_build_def assms(1,3))
qed

lemma acme_resolved: "resolve_tenant_id (add_env_at cid now) ''acme'' = Inr ''acme''"
  by (simp add: resolve_tenant_id_def built_plain trim_def trim_start_def is_whitespace_def tenant_new_def tenant_validate_def
      ascii_alnum_def)

lemma add_request_accepted:
  "accept_request (add_env_at cid now) (add_request body dedup) =
     Inr (''acme'', (plain_chunk [] ''acme'' body)\<lparr>mc_ingestion_mode := Document\<rparr>, add_admission body now)"
proof -
  have "parse_ingestion_mode (Some (lit ''conversation'')) = Inr Conversation"
    by (simp add: parse_ingestion_mode_def trim_def trim_start_def is_whitespace_def)
  moreover have "parse_chunk_type (to_lowercase std_store) (lit ''doc'') = Inr chunk_type.Doc"
    by (simp add: parse_chunk_type_def std_store_def)
  ultimately show ?thesis
    by (simp add: accept_request_def add_request_def acme_resolved project_validate_opt_def del: lit_simps)
      (simp add: add_env_at_def requested_chunk_def new_memory_chunk_def params_to_source_def resolve_write_admission_def
        add_admission_def plain_chunk_def empty_source_def)
qed

lemma add_admission_facts:
  assumes "body \<in> {[104, 105], [32, 104, 105]}"
  shows "pw_tags (add_admission body now) = []" "pw_ingestion_mode (add_admission body now) = Conversation"
    "\<not> is_rejected (add_admission body now)" "pw_lifecycle_tier (add_admission body now) = None"
proof -
  let ?rq = "\<lparr>rq_chunk_type = chunk_type.Doc, rq_text = body, rq_tags = [], rq_ingestion_mode = Conversation,
        rq_expires_at_ms = None, rq_review_after_ms = None\<rparr>"
  have trim: "trim body = [104, 105]" and len: "byte_len body \<le> MAX_MEMORY_TEXT_BYTES"
    using assms by (auto simp: trim_def trim_start_def is_whitespace_def byte_len_def utf8_len_def MAX_MEMORY_TEXT_BYTES_def)
  have "\<not> is_generated_digest_wrapper [104, 105] []" by (simp add: is_generated_digest_wrapper_def text_eval)
  then have "\<exists>why. classify_write Fin chunk_type.Doc body [] Conversation = outcome_durable why"
    using len by (auto simp: classify_write_def trim explicit_high_priority_def has_explicit_priority_def split: option.splits)
  then have d: "ao_decision (pw_outcome (add_admission body now)) = Durable" "ao_warning (pw_outcome (add_admission body now)) = None"
    by (auto simp: add_admission_def prepared_outcome normalize_tags_def outcome_durable_def)
  then show nr: "\<not> is_rejected (add_admission body now)" by (simp add: is_rejected_def)
  have "text_score body \<le> 2" by (simp add: text_score_def Let_def)
  then have "compute_priority chunk_type.Doc body [] < MIN_AUTO_PRIORITY"
    by (simp add: compute_priority_def type_base_def MIN_AUTO_PRIORITY_def MAX_AUTO_PRIORITY_def)
  then show "pw_tags (add_admission body now) = []"
    using prepared_admitted(1) [of Fin ?rq now, OF nr [unfolded add_admission_def] refl refl] d
    by (simp add: add_admission_def admitted_tags_def stamp_auto_priority_def normalize_tags_def has_explicit_priority_def)
  show "pw_ingestion_mode (add_admission body now) = Conversation"
    by (simp add: add_admission_def prepare_write_at_def Let_def split: prod.splits)
  show "pw_lifecycle_tier (add_admission body now) = None"
    using prepared_admitted(3) [of Fin ?rq now, OF nr [unfolded add_admission_def] refl refl] d
    by (simp add: add_admission_def admitted_retention_def Let_def)
qed
definition add_payload :: "string \<Rightarrow> bytes" where
  "add_payload cid = std_chunk_ser (plain_chunk cid ''acme'' (if cid = demo_id then [104, 105] else [32, 104, 105]))"

definition add_pending :: "string \<Rightarrow> str \<Rightarrow> pending_chunk" where
  "add_pending cid body = \<lparr>p_chunk = plain_chunk cid ''acme'' body, p_payload = std_chunk_ser (plain_chunk cid ''acme'' body)\<rparr>"

definition demo_note :: "string \<Rightarrow> str \<Rightarrow> bool" where
  "demo_note cid body \<longleftrightarrow> cid = demo_id \<and> body = [104, 105] \<or> cid = next_id \<and> body = [32, 104, 105]"

lemma demo_note_body: "demo_note cid body \<Longrightarrow> body \<in> {[104, 105], [32, 104, 105]}"
  by (auto simp: demo_note_def)

lemma applied_note:
  assumes "demo_note cid body"
  shows "apply_to_chunk (add_admission body now) ((plain_chunk [] ''acme'' body)\<lparr>mc_ingestion_mode := Document\<rparr>) =
     plain_chunk [] ''acme'' body"
  using add_admission_facts [OF demo_note_body [OF assms], of now] by (simp add: apply_to_chunk_def plain_chunk_def)

lemma note_expands:
  "demo_note cid body \<Longrightarrow> expand_chunks_for_add (\<lambda>line. [line]) (plain_chunk [] ''acme'' body) = Inr [plain_chunk [] ''acme'' body]"
  by (rule unsplit_parts) (auto simp: demo_note_def plain_chunk_def ADD_CHUNK_THRESHOLD_def utf8_len_def)

lemma note_parts:
  assumes "demo_note cid body"
  shows "request_parts (add_env_at cid now) (add_request body dedup) = [add_pending cid body]"
proof -
  have "request_parts (add_env_at cid now) (add_request body dedup) =
      parts_of std_store (\<lambda>line. [line]) (\<lambda>_. []) (\<lambda>_. cid) (plain_chunk [] ''acme'' body)"
    by (simp add: request_parts_def add_request_accepted applied_note [OF assms]) (simp add: add_env_at_def)
  then show ?thesis
    by (simp add: parts_of_def note_expands [OF assms] add_pending_def Let_def) (simp add: plain_chunk_def std_store_def)
qed

lemma note_pending_ok:
  assumes "demo_note cid body"
  shows "pending_ok std_store std_cfg add_payload (add_pending cid body)"
    and "wal_fits std_ext (pending_record std_cfg (add_pending cid body))"
proof -
  have len: "length cid = 36" "\<forall>x \<in> set body. x < 256" "length body \<le> 3" using assms by (auto simp: demo_note_def)
  have "std_chunk_de (p_payload (add_pending cid body)) = Some (p_chunk (add_pending cid body))"
    using len by (simp add: add_pending_def std_chunk_roundtrip)
  moreover have bytes: "length (p_payload (add_pending cid body)) \<le> 50"
    using len by (simp add: add_pending_def std_chunk_ser_def plain_chunk_def enc_bytes_def varint_def)
  ultimately show "pending_ok std_store std_cfg add_payload (add_pending cid body)"
    using assms len by (auto simp: pending_ok_def payload_ok_def add_payload_def demo_note_def add_pending_def plain_chunk_def)
  show "wal_fits std_ext (pending_record std_cfg (add_pending cid body))"
    using bytes len by (intro std_fits) (simp_all add: pending_record_def add_record_def add_pending_def plain_chunk_def pending_id_def)
qed

lemma note_request_ok:
  assumes "demo_note cid body" and "cid \<notin> used"
  shows "request_ok std_store std_cfg add_payload used (add_env_at cid now) (add_request body dedup)"
proof -
  have "wal_fits std_ext (checkpoint_record ''acme'' now)" by (intro std_fits) (simp_all add: checkpoint_record_def)
  then show ?thesis
    using assms note_pending_ok [OF assms(1)] note_expands [OF assms(1)]
    by (simp add: request_ok_def add_request_accepted note_parts applied_note [OF assms(1)])
      (simp add: add_env_at_def row_order_ok_def pending_id_def add_pending_def plain_chunk_def)
qed

lemma note_not_refused:
  assumes "demo_note cid body"
  shows "\<not> refused (add_env_at cid now) (add_request body dedup)"
proof -
  have "requested_dedup (add_env_at cid now) (add_request body dedup) \<noteq> Inl e" for e
    by (cases dedup) (simp_all add: requested_dedup_def add_request_def resolve_spec_def tool_error_def)
  then show ?thesis
    using add_admission_facts(3) [OF demo_note_body [OF assms]] by (simp add: refused_def add_request_accepted)
qed

lemma note_no_dedup: "requested_dedup (add_env_at cid now) (add_request body False) = Inr None"
  by (simp add: requested_dedup_def add_request_def resolve_spec_def tool_error_def)

lemma note_id [simp]: "pending_id (add_pending cid body) = cid" "mc_tags (plain_chunk cid tid body) = []"
  by (simp_all add: pending_id_def add_pending_def plain_chunk_def)

abbreviation open_state :: "'b tenant_store \<Rightarrow> 'b op_state" where
  "open_state st \<equiv> \<lparr>os_live = \<lparr>store = st, version = None\<rparr>, os_usage = [], os_last_sweep = 0\<rparr>"

lemma fresh_op_inv:
  assumes "tenant_log E cfg bits" and "k < 2 ^ 64"
  shows "\<exists>st. tenant_open E cfg now \<lparr>disk_db = [], disk_artifacts = [], disk_wal = None, disk_dirs = []\<rparr> = Inr st
      \<and> op_inv E cfg pl k {} (open_state st) \<and> catalog (cfg_tenant_id cfg) (db st) = Map.empty"
proof -
  let ?d = "\<lparr>disk_db = [], disk_artifacts = [], disk_wal = None, disk_dirs = []\<rparr>"
  obtain st where st: "tenant_open E cfg now ?d = Inr st" "serving E cfg pl k [] st" "catalog (cfg_tenant_id cfg) (db st) = Map.empty"
    using tenant_log.fresh_open [OF assms(1), of "[]" k now pl] assms(2) by (auto simp: db_ok_def live_rows_def)
  have "db st = []"
    using st(1) by (auto simp: tenant_open_def open_or_create_def writer_create_def recover_from_wal_def Let_def split: if_splits)
  with st show ?thesis
    by (auto simp: op_inv_def live_inv_def knows_def undeleted_def after_last_checkpoint_def rows_parse_def payloads_decode_def
        meta_get_def intro!: exI [of _ "[]"])
qed

section \<open>Properties\<close>

text \<open>
  C6. \<open>memory.add\<close> does what its parts promise together. A request that does not validate, is
  rejected by the quality gate or has a malformed deduplication setting gets an error and leaves
  the store as it was. Every other request succeeds on a store that satisfies the invariant, keeps
  it, and has one of three effects: it returns a current chunk of the same project, type and
  content and changes nothing; it supersedes exactly one current head that matches the
  deduplication; or it adds its parts with their lifecycle, which exact deduplication does only
  when no head matches.
\<close>

theorem memory_add_exact:
  assumes "tenant_log E cfg bits" and "op_inv E cfg pl (2 * length (request_parts env p) + k) used s"
    and "request_ok E cfg pl used env p"
  shows "if refused env p
     then \<exists>e s'. handle_memory_add env p s = (Inl e, s') \<and> os_live s' = os_live s
     else \<exists>r s' dedup tid chunk adm.
       handle_memory_add env p s = (Inr r, s') \<and> op_inv E cfg pl k (used \<union> pending_id ` set (request_parts env p)) s'
       \<and> requested_dedup env p = Inr dedup \<and> accept_request env p = Inr (tid, chunk, adm)
       \<and> add_effect env pl dedup adm (apply_to_chunk adm chunk) (mc_tags chunk)
           (catalog (cfg_tenant_id cfg) (db (store (os_live s)))) r (catalog (cfg_tenant_id cfg) (db (store (os_live s'))))"
proof (cases "refused env p")
  case True
  with refused_changes_nothing [OF True, of s] show ?thesis by simp
next
  case False
  with accepted_runs [OF assms False] show ?thesis by simp
qed

theorem memory_add_exact_witness:
  "\<exists>st r s'. handle_memory_add (add_env_at demo_id 0) (add_request [104, 105] True) (open_state st) = (Inr r, s')
     \<and> op_inv std_store std_cfg add_payload 2 {demo_id} s' \<and> ar_chunk_id r = demo_id \<and> ar_superseded_ids r \<noteq> None"
proof -
  let ?env = "add_env_at demo_id 0" and ?p = "add_request [104, 105] True"
  have nt: "demo_note demo_id [104, 105]" by (simp add: demo_note_def)
  obtain st where st: "op_inv std_store std_cfg add_payload 4 {} (open_state st)"
    using fresh_op_inv [OF std_log.tenant_log_axioms, of 4 0 add_payload] by auto
  have inv: "op_inv std_store std_cfg add_payload (2 * length (request_parts ?env ?p) + 2) {} (open_state st)"
    using st by (simp add: note_parts [OF nt])
  have req: "request_ok std_store std_cfg add_payload {} ?env ?p" by (rule note_request_ok [OF nt]) simp
  obtain r s' dedup tid chunk adm where h: "handle_memory_add ?env ?p (open_state st) = (Inr r, s')"
    "op_inv std_store std_cfg add_payload 2 ({} \<union> pending_id ` set (request_parts ?env ?p)) s'"
    "requested_dedup ?env ?p = Inr dedup" "accept_request ?env ?p = Inr (tid, chunk, adm)"
    "add_effect ?env add_payload dedup adm (apply_to_chunk adm chunk) (mc_tags chunk)
       (catalog (cfg_tenant_id std_cfg) (db (store (os_live (open_state st))))) r (catalog (cfg_tenant_id std_cfg) (db (store (os_live s'))))"
    using memory_add_exact [OF std_log.tenant_log_axioms inv req] note_not_refused [OF nt] by auto
  have dedup: "dedup \<noteq> None" using h(3) by (auto simp: requested_dedup_def add_request_def resolve_spec_def tool_error_def)
  have ps: "parts_of (ae_ext ?env) (ae_segments ?env) (ae_sha256 ?env) (ae_ids ?env) (apply_to_chunk adm chunk) = [add_pending demo_id [104, 105]]"
    using note_parts [OF nt, of 0 True] h(4) by (simp add: request_parts_def)
  from h(1,2,5) dedup ps show ?thesis
    by (auto simp: add_effect_def Let_def note_parts [OF nt] split: if_splits intro!: exI [of _ st] exI [of _ r] exI [of _ s'])
qed

text \<open>
  C7. Exact deduplication keeps one current version. After any sequence of \<open>memory.add\<close> requests
  on an empty store, all with exact deduplication in the scope of the project and of texts short
  enough not to be split, every project has exactly one current head with the canonical text of
  each accepted request, and none with any other canonical text.
\<close>

theorem dedup_keeps_heads_unique:
  assumes "tenant_log E cfg bits" and "adds_ok E cfg pl {} calls" and "adds_cost calls < 2 ^ 64"
    and "\<forall>(env, p) \<in> set calls. refused env p \<or> exact_dedup_call env p"
  shows "\<exists>st. tenant_open E cfg now \<lparr>disk_db = [], disk_artifacts = [], disk_wal = None, disk_dirs = []\<rparr> = Inr st
     \<and> (\<forall>P C. if \<exists>(env, p) \<in> set calls. (P, C) \<in> request_keys env p
          then is_singleton (heads_of (catalog (cfg_tenant_id cfg) (db (store (os_live (run_adds calls (open_state st)))))) P C)
          else heads_of (catalog (cfg_tenant_id cfg) (db (store (os_live (run_adds calls (open_state st)))))) P C = {})"
proof -
  obtain st where st: "tenant_open E cfg now \<lparr>disk_db = [], disk_artifacts = [], disk_wal = None, disk_dirs = []\<rparr> = Inr st"
    "op_inv E cfg pl (adds_cost calls + 0) {} (open_state st)" "catalog (cfg_tenant_id cfg) (db st) = Map.empty"
    using fresh_op_inv [OF assms(1,3), of now pl] by auto
  have "\<forall>P C. if (P, C) \<in> {} then is_singleton (heads_of (catalog (cfg_tenant_id cfg) (db (store (os_live (open_state st))))) P C)
      else heads_of (catalog (cfg_tenant_id cfg) (db (store (os_live (open_state st))))) P C = {}"
    using st(3) by (simp add: heads_of_def)
  from dedup_run_heads [OF assms(1) st(2) assms(2,4) this] st(1) show ?thesis by (auto simp: case_prod_beta)
qed

theorem dedup_keeps_heads_unique_witness:
  "\<exists>st. is_singleton (heads_of (catalog ''acme'' (db (store (os_live
      (run_adds [(add_env_at demo_id 0, add_request [104, 105] True), (add_env_at next_id 1, add_request [32, 104, 105] True)]
        (open_state st)))))) None [104, 105])"
proof -
  let ?calls = "[(add_env_at demo_id 0, add_request [104, 105] True), (add_env_at next_id 1, add_request [32, 104, 105] True)]"
  have n1: "demo_note demo_id [104, 105]" and n2: "demo_note next_id [32, 104, 105]" by (simp_all add: demo_note_def)
  have ok: "adds_ok std_store std_cfg add_payload {} ?calls"
    by (simp add: note_request_ok [OF n1] note_request_ok [OF n2] note_parts [OF n1])
  have tenant: "cfg_tenant_id std_cfg = ''acme''" by simp
  have cost: "adds_cost ?calls < 2 ^ 64" by (simp add: adds_cost_def note_parts [OF n1] note_parts [OF n2])
  have dd: "\<forall>(env, p) \<in> set ?calls. refused env p \<or> exact_dedup_call env p"
    by (auto simp: exact_dedup_call_def add_request_def requested_dedup_def resolve_spec_def tool_error_def
        ADD_CHUNK_THRESHOLD_def utf8_len_def)
  have key: "(None, [104, 105]) \<in> request_keys (add_env_at demo_id 0) (add_request [104, 105] True)"
    using note_not_refused [OF n1] accepted_fields [OF add_request_accepted [of demo_id 0 "[104, 105]" True]]
    by (auto simp: request_keys_def add_request_def add_env_at_def std_store_def plain_chunk_def canonicalize_for_type_def
        canonicalize_text_def split_whitespace_def is_whitespace_def)
  obtain st where "\<forall>P C. if \<exists>(env, p) \<in> set ?calls. (P, C) \<in> request_keys env p
      then is_singleton (heads_of (catalog ''acme'' (db (store (os_live (run_adds ?calls (open_state st)))))) P C)
      else heads_of (catalog ''acme'' (db (store (os_live (run_adds ?calls (open_state st)))))) P C = {}"
    using dedup_keeps_heads_unique [OF std_log.tenant_log_axioms ok cost dd, of 0, unfolded tenant] by blast
  from spec [OF spec [OF this, of None], of "[104, 105]"] key show ?thesis
    by (intro exI [of _ st]) (simp del: run_adds.simps)
qed

text \<open>
  C40. A write can be lost to an expired copy. Take an accepted request that asks for no
  deduplication, has no expiry or review time of its own and is not exempt from the reuse of
  content. When the one current chunk of the same project, type and content has an expiry that
  has passed but no sweep has marked it yet, \<open>memory.add\<close> answers that it reused that chunk
  and writes nothing; under the default policy the chunk is invisible to every search from its
  expiry on.
\<close>

theorem reuse_of_expired_chunk:
  assumes "tenant_log E cfg bits" and "op_inv E cfg pl k used s"
    and "ae_ext env = E \<and> ae_cfg env = cfg \<and> row_order_ok (ae_order env) \<and> tid = cfg_tenant_id cfg"
    and "accept_request env p = Inr (tid, chunk, adm)" and "\<not> is_rejected adm"
    and "requested_dedup env p = Inr None" and "\<not> caller_requested_lifecycle p"
    and "\<not> default_content_dedupe_exempt (ae_rnd env) (apply_to_chunk adm chunk) (mc_tags chunk)"
    and "v = catalog (cfg_tenant_id cfg) (db (store (os_live s)))" and "v cid = Some m"
    and "\<forall>c n. v c = Some n \<and> reusable tid (apply_to_chunk adm chunk) (ae_sha256 env (ap_text p)) n \<longleftrightarrow> c = cid \<and> n = m"
    and "same_content (apply_to_chunk adm chunk) (mc_tags chunk) (the (chunk_de E (pl cid)))"
    and "expires_at_ms (m_lifecycle m) = Some e" and "sint e \<le> sint (ae_now env)"
  shows "\<exists>r s'. handle_memory_add env p s = (Inr r, s') \<and> os_live s' = os_live s \<and> ar_chunk_id r = cid
     \<and> ar_dedupe_decision r = Some ''reused_existing_exact_content''
     \<and> (\<forall>t. sint e \<le> sint t \<longrightarrow>
          \<not> is_visible_at \<lparr>include_superseded = False, include_expired = False, include_history = False\<rparr>
               (m_status m) (m_lifecycle m) t)"
proof -
  let ?c = "apply_to_chunk adm chunk" and ?st = "store (os_live s)"
  have env: "ae_ext env = E" "ae_cfg env = cfg" "row_order_ok (ae_order env)" and tid: "tid = cfg_tenant_id cfg"
    using assms(3) by simp_all
  note f = accepted_fields [OF assms(4)]
  obtain rs where serv: "serving E cfg pl k rs ?st" and tab: "payloads_decode E cfg pl (db ?st)" "rows_parse E (db ?st)"
    using assms(2) by (auto simp: op_inv_def live_inv_def)
  have t: "mc_tenant_id ?c = cfg_tenant_id cfg" using f tid by simp
  obtain found where found: "find_default_content_duplicate env ?c (mc_tags chunk) ?st = (Inr found, ?st)"
    "\<forall>c. found = Some c \<longrightarrow> (\<exists>n. v c = Some n \<and> reusable tid ?c (ae_sha256 env (ap_text p)) n)"
    "found = None \<longrightarrow> default_content_dedupe_exempt (ae_rnd env) ?c (mc_tags chunk)
         \<or> (\<forall>c n. v c = Some n \<and> reusable tid ?c (ae_sha256 env (ap_text p)) n
               \<and> (\<forall>c' m'. v c' = Some m' \<and> reusable tid ?c (ae_sha256 env (ap_text p)) m' \<longrightarrow> c' = c)
              \<longrightarrow> \<not> same_content ?c (mc_tags chunk) (the (chunk_de E (pl c))))"
    using tenant_log.find_duplicate_ok [OF assms(1) serv tab env(3,1,2) t, of "mc_tags chunk"] f tid assms(9) by auto
  have "found = Some cid"
    using found(2,3) assms(8,11,12) by (cases found) blast+
  then have "handle_memory_add env p s = (Inr (add_result adm cid [cid] None (Some ''reused_existing_exact_content'') (Some cid) None),
      (record_usage_event env (add_usage_event tid (ap_project_id p) (usage_outcome adm) 1 (byte_len (mc_text chunk))) s)\<lparr>os_live := os_live s\<rparr>)"
    using found(1) assms(4-7) by (simp add: handle_memory_add_def store_admitted_def Let_def)
  moreover have "\<not> is_visible_at \<lparr>include_superseded = False, include_expired = False, include_history = False\<rparr>
               (m_status m) (m_lifecycle m) t" if "sint e \<le> sint t" for t
    using assms(13) that by (simp add: is_visible_at_def)
  ultimately show ?thesis by (simp add: add_result_def)
qed

text \<open>The note of the demonstration, with an expiry that was set after it was written.\<close>

definition expiry_delta :: lifecycle_delta where
  "expiry_delta = no_delta\<lparr>d_expires_at_ms := Some (Some 5)\<rparr>"

lemma added_note_row:
  "\<exists>m. catalog_add_lifecycle std_store 0 [add_pending demo_id [104, 105]] (prepared_lifecycle_delta (add_admission [104, 105] 0)) Map.empty
      = [demo_id \<mapsto> m] \<and> reusable ''acme'' (plain_chunk [] ''acme'' [104, 105]) [] m"
proof -
  let ?m = "strip_coords (chunk_row std_store (plain_chunk demo_id ''acme'' [104, 105]) 0 0)"
  let ?d = "prepared_lifecycle_delta (add_admission [104, 105] 0)"
  have m: "reusable ''acme'' (plain_chunk [] ''acme'' [104, 105]) [] ?m"
    unfolding reusable_strip by (simp add: reusable_def chunk_row_def plain_chunk_def default_lifecycle_def)
  have "reusable ''acme'' (plain_chunk [] ''acme'' [104, 105]) [] (delta_row (stamped 0 ?d) ?m)"
    using add_admission_facts(4) [of "[104, 105]" 0] m
    by (simp add: reusable_def delta_row_def stamped_def prepared_lifecycle_delta_def lifecycle_apply_def)
  moreover have "catalog_add std_store [add_pending demo_id [104, 105]] Map.empty = [demo_id \<mapsto> ?m]"
    by (simp add: catalog_add_def add_pending_def) (simp add: plain_chunk_def)
  ultimately show ?thesis
    using m
    by (intro exI [of _ "if delta_is_empty ?d then ?m else delta_row (stamped 0 ?d) ?m"])
      (simp add: catalog_add_lifecycle_def catalog_delta_def)
qed

lemma expired_note:
  "\<exists>s m. op_inv std_store std_cfg add_payload 2 {demo_id} s
     \<and> catalog ''acme'' (db (store (os_live s))) = [demo_id \<mapsto> m] \<and> expires_at_ms (m_lifecycle m) = Some 5
     \<and> reusable ''acme'' (plain_chunk [] ''acme'' [104, 105]) [] m"
proof -
  let ?env = "add_env_at demo_id 0" and ?p = "add_request [104, 105] False"
  have nt: "demo_note demo_id [104, 105]" by (simp add: demo_note_def)
  have plain: "plain_delta expiry_delta" by (simp add: plain_delta_def expiry_delta_def no_delta_def)
  obtain st where st: "op_inv std_store std_cfg add_payload 4 {} (open_state st)" "catalog ''acme'' (db st) = Map.empty"
    using fresh_op_inv [OF std_log.tenant_log_axioms, of 4 0 add_payload] by auto
  have inv: "op_inv std_store std_cfg add_payload (2 * length (request_parts ?env ?p) + 2) {} (open_state st)"
    using st by (simp add: note_parts [OF nt])
  have req: "request_ok std_store std_cfg add_payload {} ?env ?p" by (rule note_request_ok [OF nt]) simp
  obtain r s' where h: "op_inv std_store std_cfg add_payload 2 {demo_id} s'"
    and eff: "add_effect ?env add_payload None (add_admission [104, 105] 0) (plain_chunk [] ''acme'' [104, 105]) []
       Map.empty r (catalog ''acme'' (db (store (os_live s'))))"
    using accepted_runs [OF std_log.tenant_log_axioms inv req note_not_refused [OF nt]] st(2) applied_note [OF nt, of 0]
    by (auto simp: note_parts [OF nt] add_request_accepted note_no_dedup note_id)
  let ?rows = "snd (update_lifecycle_counted ''acme'' demo_id expiry_delta (db (store (os_live s'))))"
  let ?s = "s'\<lparr>os_live := (os_live s')\<lparr>store := (store (os_live s'))\<lparr>db := ?rows\<rparr>\<rparr>\<rparr>"
  have cat: "catalog ''acme'' ?rows = catalog_delta demo_id expiry_delta (catalog ''acme'' (db (store (os_live s'))))"
    using plain by (simp add: delta_catalog plain_delta_def)
  have ps: "parts_of (ae_ext ?env) (ae_segments ?env) (ae_sha256 ?env) (ae_ids ?env) (plain_chunk [] ''acme'' [104, 105]) =
      [add_pending demo_id [104, 105]]"
    using note_parts [OF nt, of 0 False] applied_note [OF nt, of 0] by (simp add: request_parts_def add_request_accepted)
  have "catalog ''acme'' (db (store (os_live s'))) =
      catalog_add_lifecycle std_store 0 [add_pending demo_id [104, 105]] (prepared_lifecycle_delta (add_admission [104, 105] 0)) Map.empty"
    using eff ps by (auto simp: add_effect_def Let_def split: if_splits) (simp add: add_env_at_def)
  then obtain m0 where m0: "catalog ''acme'' (db (store (os_live s'))) = [demo_id \<mapsto> m0]"
    "reusable ''acme'' (plain_chunk [] ''acme'' [104, 105]) [] m0"
    using added_note_row by metis
  have "op_inv std_store std_cfg add_payload 2 {demo_id} ?s"
  proof -
    have "\<exists>rs. live_inv std_store std_cfg add_payload 2 {demo_id} rs ((store (os_live s'))\<lparr>db := ?rows\<rparr>)"
      using h live_delta [OF _ plain, of std_store std_cfg add_payload 2 "{demo_id}" _ "store (os_live s')" demo_id]
      by (auto simp: op_inv_def)
    moreover have "rows_parse std_store ?rows"
      using h deltas_parse [OF _ plain, of std_store "db (store (os_live s'))" "''acme''" "[demo_id]"] by (simp add: op_inv_def)
    moreover have "payloads_decode std_store std_cfg add_payload ?rows"
      using h by (auto simp: op_inv_def payloads_decode_def cat catalog_delta_def simp flip: catalog_None)
    ultimately show ?thesis by (simp add: op_inv_def)
  qed
  moreover have "catalog ''acme'' ?rows = [demo_id \<mapsto> delta_row expiry_delta m0]" by (simp add: cat catalog_delta_def m0(1))
  moreover have "reusable ''acme'' (plain_chunk [] ''acme'' [104, 105]) [] (delta_row expiry_delta m0)"
    using m0(2) by (simp add: reusable_def delta_row_def expiry_delta_def no_delta_def lifecycle_apply_def)
  moreover have "expires_at_ms (m_lifecycle (delta_row expiry_delta m0)) = Some 5"
    by (simp add: delta_row_def expiry_delta_def no_delta_def lifecycle_apply_def)
  ultimately show ?thesis by (intro exI [of _ ?s] exI [of _ "delta_row expiry_delta m0"]) simp
qed

theorem reuse_of_expired_chunk_witness:
  "\<exists>s r s' m. handle_memory_add (add_env_at next_id 9) (add_request [104, 105] False) s = (Inr r, s') \<and> os_live s' = os_live s
     \<and> ar_chunk_id r = demo_id \<and> catalog ''acme'' (db (store (os_live s'))) demo_id = Some m
     \<and> \<not> is_visible_at \<lparr>include_superseded = False, include_expired = False, include_history = False\<rparr> (m_status m) (m_lifecycle m) 9"
proof -
  obtain s m where s: "op_inv std_store std_cfg add_payload 2 {demo_id} s"
    and cat: "catalog ''acme'' (db (store (os_live s))) = [demo_id \<mapsto> m]" and e: "expires_at_ms (m_lifecycle m) = Some 5"
    and m: "reusable ''acme'' (plain_chunk [] ''acme'' [104, 105]) [] m"
    using expired_note by blast
  have nt: "demo_note demo_id [104, 105]" by (simp add: demo_note_def)
  note app = applied_note [OF nt, of 9]
  let ?env = "add_env_at next_id 9" and ?p = "add_request [104, 105] False"
  have env: "ae_ext ?env = std_store \<and> ae_cfg ?env = std_cfg \<and> row_order_ok (ae_order ?env) \<and> ''acme'' = cfg_tenant_id std_cfg"
    by (simp add: add_env_at_def row_order_ok_def)
  have "std_chunk_de (add_payload demo_id) = Some (plain_chunk demo_id ''acme'' [104, 105])"
    by (simp add: add_payload_def std_chunk_roundtrip)
  then have same: "same_content (apply_to_chunk (add_admission [104, 105] 9) ((plain_chunk [] ''acme'' [104, 105])\<lparr>mc_ingestion_mode := Document\<rparr>))
      [] (the (chunk_de std_store (add_payload demo_id)))"
    unfolding app by (simp add: same_content_def caller_tags_already_preserved_def plain_chunk_def)
  have "\<exists>r s'. handle_memory_add ?env ?p s = (Inr r, s') \<and> os_live s' = os_live s \<and> ar_chunk_id r = demo_id
     \<and> ar_dedupe_decision r = Some ''reused_existing_exact_content''
     \<and> (\<forall>t. sint (5 :: i64) \<le> sint t \<longrightarrow>
          \<not> is_visible_at \<lparr>include_superseded = False, include_expired = False, include_history = False\<rparr>
               (m_status m) (m_lifecycle m) t)"
  proof (rule reuse_of_expired_chunk [OF std_log.tenant_log_axioms s env add_request_accepted])
    show "\<not> is_rejected (add_admission [104, 105] 9)" using add_admission_facts(3) by simp
    show "requested_dedup ?env ?p = Inr None" by (rule note_no_dedup)
    show "\<not> caller_requested_lifecycle ?p" by (simp add: caller_requested_lifecycle_def add_request_def)
    show "\<not> default_content_dedupe_exempt (ae_rnd ?env)
        (apply_to_chunk (add_admission [104, 105] 9) ((plain_chunk [] ''acme'' [104, 105])\<lparr>mc_ingestion_mode := Document\<rparr>))
        (mc_tags ((plain_chunk [] ''acme'' [104, 105])\<lparr>mc_ingestion_mode := Document\<rparr>))"
      unfolding app by (simp add: default_content_dedupe_exempt_def has_explicit_priority_def)
    show "[demo_id \<mapsto> m] = catalog (cfg_tenant_id std_cfg) (db (store (os_live s)))" using cat by simp
    show "\<forall>c n. [demo_id \<mapsto> m] c = Some n \<and> reusable ''acme''
        (apply_to_chunk (add_admission [104, 105] 9) ((plain_chunk [] ''acme'' [104, 105])\<lparr>mc_ingestion_mode := Document\<rparr>))
        (ae_sha256 ?env (ap_text ?p)) n \<longleftrightarrow> c = demo_id \<and> n = m"
      unfolding app using m by (auto simp: add_env_at_def)
  qed (use same e in \<open>simp_all add: add_env_at_def\<close>)
  then show ?thesis using cat by (auto intro!: exI [of _ s])
qed

end
