(* ===== verification/Spec2Isabelle.thy ===== *)
theory Spec2Isabelle
  imports Lifecycle_Crash Consolidation_Instance Segment_Reuse Omf_Time Packer Tiered_Search Memory_Store
    Write_Service Tokenizer Episode_Priors Memory_Add_Instance
begin

text \<open>
  Verification of memd, a memory store for agents (crate \<open>src/crates/memd\<close>).

  The program keeps chunks of text per tenant, makes them durable through a write-ahead log and
  immutable segments, finds them again through several ranked searches, and learns from the
  outcomes of the tasks that used them. The parts modelled here, and how they interact:

  \<^item> The operation \<open>memory.add\<close> validates a request, lets the quality gate admit, downgrade or
    reject it (\<open>Write_Admission\<close>, \<open>Write_Service\<close>), looks for the same content or for near
    duplicates (\<open>Dedup\<close>), and reuses, supersedes or adds (\<open>Memory_Add\<close>).
  \<^item> An add splits a long document into pieces (\<open>Chunking\<close>, \<open>Sentence_Split\<close>), writes them to
    the log (\<open>Wal\<close>), appends them to the active segment (\<open>Segment\<close>), inserts their rows and
    checkpoints the log (\<open>Tenant_Store\<close>).
  \<^item> Opening a tenant loads its segments and replays the log after the last checkpoint; deletes go
    to the log, the row and the tombstones (\<open>Tombstone\<close>) of the segment.
  \<^item> A chunk has a lifecycle: overlay updates, supersession by a newer chunk, expiry and promotion to
    the history tier by the sweeps of a compaction cycle (\<open>Lifecycle\<close>); compaction also rewrites
    segments with deleted chunks (\<open>Segment_Rewrite\<close>).
  \<^item> Consolidation replaces several chunks by summaries in two phases under a journal, with recovery
    of interrupted runs (\<open>Consolidation\<close>, \<open>Consolidation_Service\<close>).
  \<^item> A search asks the semantic cache, the hot tier and the warm tier, merges their results, records
    the accesses, and promotes and demotes chunks between the tiers (\<open>Tiered_Search\<close> with
    \<open>Semantic_Cache\<close>, \<open>Hot_Tier\<close>, \<open>Access_Tracker\<close>); dense and sparse lists are fused by
    reciprocal rank (\<open>Fusion\<close>), and the packer fits a selection into a token budget (\<open>Packer\<close>). The
    sparse index splits text with the tokenizer for code (\<open>Tokenizer\<close>).
  \<^item> Every retrieval can be recorded as an episode; outcomes of the task are validated against it and
    become bounded score adjustments (\<open>Outcome\<close>), kept in memory (\<open>Memory_Store\<close>) or in SQLite
    (\<open>Sqlite_Episodes\<close>).

  \<^bold>\<open>Theories and sources.\<close> All paths are below \<open>src/crates/memd/src\<close>.

  \<^item> \<open>Memd_Prelude\<close>: error values of \<open>error.rs\<close>, words, little-endian codecs, generic lemmas.
    \<open>Memd_Text\<close>, \<open>Memd_Order\<close>, \<open>Memd_Float\<close>: what the code uses of the standard library: strings of
    Unicode scalar values, comparators and the stable \<open>sort_by\<close>, single-precision floats with the
    rounding as a parameter (locale \<open>f32_round\<close>).
  \<^item> \<open>Memd_Types\<close>: identifiers, enumerations, chunks, lifecycle overlay and visibility (\<open>types.rs\<close>,
    \<open>store/metadata/mod.rs\<close>). \<open>Supersession\<close>: near-duplicate detection (\<open>store/supersession.rs\<close>).
  \<^item> \<open>Wal\<close>, \<open>Wal_Instance\<close>: record format, writer, reader, selection of the records for recovery, replay
    driver (\<open>store/wal\<close>). \<open>Tombstone\<close>, \<open>Segment\<close>, \<open>Segment_Instance\<close>: \<open>store/tombstone.rs\<close> and
    \<open>store/segment\<close>, with the durable steps of finalize as a list, so that every crash point between
    them is a prefix.
  \<^item> \<open>Tenant_Store\<close>: the store of one tenant (\<open>store/persistent\<close>: \<open>recovery.rs\<close>, \<open>write.rs\<close>,
    \<open>retrieval.rs\<close>, \<open>read.rs\<close>, and the statements of \<open>store/metadata/sqlite/chunks.rs\<close> it uses).
    \<open>disk_state\<close> is what survives a crash. \<open>Tenant_Table\<close>, \<open>Tenant_Segments\<close>, \<open>Tenant_Recovery\<close>,
    \<open>Tenant_Serving\<close>, \<open>Tenant_Ops\<close>, \<open>Tenant_Runs\<close> and \<open>Tenant_Instance\<close> hold the lemmas on the table,
    the segments, recovery, the invariant of an open store, the operations, runs with crashes, and the
    interpretation with the resulting properties. \<open>Segment_Rewrite\<close>: \<open>rewrite_finalized_segments\<close>;
    \<open>Segment_Reuse\<close> follows two rewrites and a delete to the reuse of a segment id.
  \<^item> \<open>Lifecycle\<close>: \<open>store/persistent/lifecycle.rs\<close>, \<open>store/metadata/sqlite/lifecycle.rs\<close>, the overlay
    part of \<open>compaction\<close>. \<open>Lifecycle_Serving\<close> and \<open>Lifecycle_Sweep\<close> hold the lemmas on supersession and on
    the sweeps, \<open>Lifecycle_Instance\<close> the interpretation and the properties, and \<open>Lifecycle_Crash\<close> the
    stages at which a crash can cut a supersession, the torn log write and the undoing of a failed link
    included.
  \<^item> \<open>Consolidation\<close>: \<open>consolidate/journal.rs\<close>, \<open>store/metadata/sqlite/consolidation.rs\<close>;
    \<open>Consolidation_Service\<close>: \<open>consolidate/service.rs\<close>. \<open>Consolidation_Inv\<close>, \<open>Consolidation_Promote\<close>,
    \<open>Consolidation_Recovery\<close>, \<open>Consolidation_Steps\<close> and \<open>Consolidation_Instance\<close> hold the invariant, promotion,
    recovery, the step relation of the database and the properties.
  \<^item> \<open>Write_Admission\<close> (\<open>auto_priority.rs\<close>, \<open>write_admission.rs\<close>), \<open>Write_Service\<close> (\<open>write_service.rs\<close>),
    \<open>Dedup\<close> (\<open>dedup.rs\<close> and the listings of \<open>chunks.rs\<close> it uses), \<open>Memory_Add\<close> and
    \<open>Memory_Add_Instance\<close> (\<open>ops/add.rs\<close>, \<open>ops/mod.rs\<close>: the handler, and what it does to the store).
  \<^item> \<open>Sentence_Split\<close> (\<open>text/sentence.rs\<close>), \<open>Tokenizer\<close> (\<open>text/tokenizer.rs\<close>), \<open>Chunking\<close> (\<open>chunking.rs\<close>,
    \<open>store/shared_add.rs\<close>).
  \<^item> \<open>Fusion\<close>, \<open>Packer\<close> (\<open>retrieval\<close>), \<open>Access_Tracker\<close>, \<open>Hot_Tier\<close>, \<open>Semantic_Cache\<close>, \<open>Tiered_Search\<close>
    (\<open>tiered\<close>).
  \<^item> \<open>Outcome\<close> (\<open>store/outcome.rs\<close>), \<open>Memory_Store\<close> (\<open>store/memory.rs\<close>, \<open>store/feedback.rs\<close>),
    \<open>Sqlite_Episodes\<close> (\<open>store/metadata/sqlite/episodes.rs\<close>, \<open>feedback.rs\<close>, \<open>store/usage.rs\<close>); \<open>Episode_Catalog\<close>
    is the specification both stores refine (a locale with two interpretations) and \<open>Episode_Priors\<close> compares
    their answers.
  \<^item> \<open>Omf_Time\<close>: timestamps of the exchange format (\<open>omf/time.rs\<close>).

  \<^bold>\<open>How state and operations correspond.\<close> A struct is a record, an enum a datatype; an operation takes
  the state and returns the new one, with an error as \<open>Inl\<close>. A value behind an \<open>RwLock\<close> is a field of
  the record: each operation is modelled as it runs while it holds its locks. A table is the list of its
  rows with the keys checked on insert; a transaction that fails returns the tables it started with. A hash
  map is an association list; where the code iterates over one, the iteration order is a parameter, and the
  theorems hold for every permutation. The clock, new identifiers and the file system contents are
  arguments. A panic (a slice off a character boundary, a division by zero) is \<open>None\<close>.

  \<^bold>\<open>What the groups of lemmas show.\<close>

  \<^item> Durability: any history of adds, deletes and restarts gives exactly the catalog of an abstract
    specification, with every payload readable (\<open>store_refines_catalog\<close>), also after a crash inside an
    add or a delete, and rewriting segments keeps it. The formats below round-trip, a torn tail is
    dropped, only intact frames are accepted.
  \<^item> Lifecycle: the same refinement with overlay updates, supersessions and sweeps in the history; the
    links stay acyclic, mutual and without forks, a crash inside a supersession (its log write and its
    compensation included) leaves both links or none, the cycle check is exact, expired rows reach the
    history tier. Updates in these histories set neither a status nor a link; the duplicate removal of
    \<open>maintenance/mod.rs\<close>, which writes both, is outside them.
  \<^item> Consolidation: the journal's invariant in every reachable database, with supersessions of any chunk, staged
    ones included, among the steps of the rest of the store; promotion exactly when every
    candidate and source is still valid, recovery all or nothing, and one recovery pass settles every run.
  \<^item> Writes: an accepted \<open>memory.add\<close> succeeds and has one of three specified effects, a refused one has
    none, exact deduplication keeps one current head per project and canonical text over any run, and high
    priorities need a concrete action.
  \<^item> Text: sentences and tokens lie at their offsets, chunking loses nothing and never panics, with a bound
    on the chunk sizes; one theorem shows the input on which the merge of a short tail repeats text.
  \<^item> Search: fusion and merging equal order-free reference definitions, a cache hit is justified by a
    fill that nothing invalidated, the hot tier stays within its capacity, its maintenance counts exactly
    what it changed, and it evicts the worst; scores stay within their bounds, packing returns within its budget.
  \<^item> Learning: the rendered order of an episode is applied exactly,
    reachable stores satisfy the invariant, priors count each crediting episode of the scope once, the
    adjustment is bounded, and the in-memory store and the SQLite tables accept and count the same.
  \<^item> Defects: some theorems are about inputs on which the code does not do what its comments say: a torn
    first record, a reused segment id, the cursor after truncate, the repeated overlap, a link that revives
    a deleted row, a staged candidate that is superseded and blocks its run, reuse of an expired chunk,
    and a tie that the two stores break differently.

  \<^bold>\<open>Parameters.\<close> Code outside the repository is an argument: CRC and bincode (locale of \<open>Wal\<close>), the
  roaring bitmap (locale of \<open>Tombstone\<close>), serde of chunks and UUID parsing (\<open>store_ext\<close>), Unicode
  lower-casing and sentence segmentation (locale \<open>segmentation\<close>), the Unicode tables and the stemmer of the
  tokenizer, the vector index, SHA-256, the JSON parser, the rounding of floats and the mathematical library
  (locales \<open>f32_round\<close>, \<open>float_libm\<close>, \<open>f32_small\<close>), the files and indexes the consolidation service reads
  (\<open>service_env\<close>), and the order of rows that a statement leaves open (\<open>row_order\<close>). The clock, new ids,
  environment variables and configuration of one \<open>memory.add\<close> call are the record \<open>add_env\<close>. Each
  locale is interpreted, and each property with such a hypothesis has a witness at a concrete instance.
  No definition uses fuel: the loops are structural or have a termination proof, and the theorems on
  histories quantify over all lists of operations.

  \<^bold>\<open>Not modelled.\<close> The SQL of the task tables and of the structural index; the health and statistics
  queries; the hybrid store that wires the searches together, the nearest-neighbour and full-text indexes
  and the embedding and reranking models, which wrap external libraries; of the operations layer everything
  but \<open>memory.add\<close>; the command line and the exporters; candidates built from model output in the
  consolidation service; metrics, logging, configuration files and advisory file locks. A tenant is
  opened for writing: the read-only opening with its log overlay is not modelled. In the crash model of a
  tenant finalizing a segment is one stage; its own crash points are those of \<open>Segment\<close>. Sorting is the
  stable sort for any comparator; the panic that \<open>sort_by\<close> may raise for a comparator that is no order
  (scores that are NaN) is not modelled. Concurrency inside one operation is not modelled.
\<close>

end
